(* ===== verification/Ntwire_Prelude.thy ===== *)
theory Ntwire_Prelude
  imports "HOL-Library.Word" "HOL-Library.Finite_Map"
begin

text \<open>
  Shared vocabulary of the development: the model's names for Go's basic types, Go maps as
  finite maps with their length and iteration order, Go slices with their panics, runs of
  step relations, and the interface locales (invariant systems, bounded tables, codecs) that
  several components implement.
\<close>

section \<open>Types\<close>

text \<open>Bytes keep their width; times and durations are nanoseconds.\<close>

type_synonym byte = "8 word"
type_synonym bytes = "8 word list"
type_synonym gotime = int
type_synonym duration = int

abbreviation second :: duration where
  "second \<equiv> 1000000000"

abbreviation minute :: duration where
  "minute \<equiv> 60 * second"

section \<open>Go maps\<close>

text \<open>
  A Go map is a finite map. \<open>gm_len\<close> is \<open>len(m)\<close>; \<open>gm_filter\<close> is a range loop
  that deletes the entries for which a test fails (its result does not depend on the
  order). A loop whose result depends on the order takes the order as an argument, a list
  of keys; \<open>range_order\<close> says that the list is one of the orders the language allows.
\<close>

definition gm_len :: "('k, 'v) fmap \<Rightarrow> nat" where
  "gm_len m = fcard (fmdom m)"

definition gm_filter :: "('k \<Rightarrow> 'v \<Rightarrow> bool) \<Rightarrow> ('k, 'v) fmap \<Rightarrow> ('k, 'v) fmap" where
  "gm_filter P m = fmfilter (\<lambda>k. case fmlookup m k of None \<Rightarrow> False | Some v \<Rightarrow> P k v) m"

definition range_order :: "'k list \<Rightarrow> ('k, 'v) fmap \<Rightarrow> bool" where
  "range_order ks m \<longleftrightarrow> distinct ks \<and> fset_of_list ks = fmdom m"

text \<open>Lookup with the zero value the language returns for an absent key.\<close>

definition gm_get :: "'v \<Rightarrow> ('k, 'v) fmap \<Rightarrow> 'k \<Rightarrow> 'v" where
  "gm_get z m k = (case fmlookup m k of None \<Rightarrow> z | Some v \<Rightarrow> v)"

section \<open>Slices and panics\<close>

text \<open>
  The outcome of code that indexes byte slices: a result, an error value, or a run-time
  panic (an index or slice bound out of range).
\<close>

datatype ('e, 'a) outcome = Ok 'a | Err 'e | Panic

fun obind :: "('e, 'a) outcome \<Rightarrow> ('a \<Rightarrow> ('e, 'b) outcome) \<Rightarrow> ('e, 'b) outcome" where
  "obind (Ok x) f = f x"
| "obind (Err e) f = Err e"
| "obind Panic f = Panic"

definition go_index :: "'x list \<Rightarrow> nat \<Rightarrow> ('e, 'x) outcome" where
  "go_index b i = (if i < length b then Ok (b ! i) else Panic)"

definition go_slice :: "'x list \<Rightarrow> nat \<Rightarrow> nat \<Rightarrow> ('e, 'x list) outcome" where
  "go_slice b i j = (if i \<le> j \<and> j \<le> length b then Ok (take (j - i) (drop i b)) else Panic)"

section \<open>Integers in byte strings\<close>

text \<open>\<open>binary.BigEndian.Uint16\<close>, \<open>binary.LittleEndian.Uint16\<close> and
  \<open>binary.LittleEndian.Uint32\<close> on the bytes of a slice that starts with them.\<close>

definition be16 :: "byte \<Rightarrow> byte \<Rightarrow> nat" where
  "be16 a b = unat a * 256 + unat b"

definition le16 :: "bytes \<Rightarrow> 16 word" where
  "le16 b = of_nat (unat (b ! 0) + 256 * unat (b ! 1))"

definition put_le16 :: "16 word \<Rightarrow> bytes" where
  "put_le16 w = [of_nat (unat w mod 256), of_nat (unat w div 256)]"

definition le32 :: "bytes \<Rightarrow> 32 word" where
  "le32 b = of_nat (unat (b ! 0) + 256 * unat (b ! 1) + 65536 * unat (b ! 2)
                    + 16777216 * unat (b ! 3))"

text \<open>A Go string is its bytes; the conversions \<open>[]byte(s)\<close> and \<open>string(b)\<close>.\<close>

definition str_bytes :: "string \<Rightarrow> bytes" where
  "str_bytes s = map (\<lambda>c. of_nat (of_char c)) s"

definition string_of_bytes :: "bytes \<Rightarrow> string" where
  "string_of_bytes b = map (\<lambda>x. char_of (unat x)) b"

section \<open>Runs of a step relation\<close>

inductive run :: "('s \<Rightarrow> 'e \<Rightarrow> 's \<Rightarrow> bool) \<Rightarrow> 's \<Rightarrow> 'e list \<Rightarrow> 's \<Rightarrow> bool"
  for step :: "'s \<Rightarrow> 'e \<Rightarrow> 's \<Rightarrow> bool" where
  run_nil: "run step s [] s"
| run_cons: "step s e t \<Longrightarrow> run step t es u \<Longrightarrow> run step s (e # es) u"

inductive_cases run_nilE: "run step s [] t"
inductive_cases run_consE: "run step s (e # es) t"

lemma run_one: "step s e t \<Longrightarrow> run step s [e] t"
  by (blast intro: run.intros)

lemma run_two: "step s e t \<Longrightarrow> step t f u \<Longrightarrow> run step s [e, f] u"
  by (blast intro: run.intros)

lemma run_append: "run step s es t \<Longrightarrow> run step t fs u \<Longrightarrow> run step s (es @ fs) u"
  by (induction rule: run.induct) (auto intro: run.intros)

lemma run_split: "run step s (es @ fs) u \<Longrightarrow> \<exists>t. run step s es t \<and> run step t fs u"
proof (induction es arbitrary: s)
  case (Cons e es)
  from Cons.prems obtain s' where "step s e s'" "run step s' (es @ fs) u" by (auto elim: run_consE)
  with Cons.IH show ?case by (blast intro: run_cons)
qed (auto intro: run.intros)

section \<open>Interfaces\<close>

text \<open>A transition system with an invariant that every step keeps.\<close>

locale inv_system =
  fixes step :: "'s \<Rightarrow> 'e \<Rightarrow> 's \<Rightarrow> bool"
    and inv :: "'s \<Rightarrow> bool"
  assumes step_inv: "inv s \<Longrightarrow> step s e t \<Longrightarrow> inv t"
begin

lemma run_inv: "run step s es t \<Longrightarrow> inv s \<Longrightarrow> inv t"
  by (induction rule: run.induct) (auto intro: step_inv)

end

text \<open>A transition system that implements a specification on an abstract state.\<close>

locale refines = inv_system step inv
  for step :: "'s \<Rightarrow> 'e \<Rightarrow> 's \<Rightarrow> bool" and inv :: "'s \<Rightarrow> bool" +
  fixes abs :: "'s \<Rightarrow> 'a" and spec :: "'e \<Rightarrow> 'a \<Rightarrow> 'a"
  assumes step_spec: "inv s \<Longrightarrow> step s e t \<Longrightarrow> abs t = spec e (abs s)"
begin

lemma run_spec: "run step s es t \<Longrightarrow> inv s \<Longrightarrow> abs t = fold spec es (abs s)"
proof (induction rule: run.induct)
  case (run_cons s e t es u)
  with step_inv [OF run_cons.prems run_cons.hyps(1)] step_spec [OF run_cons.prems run_cons.hyps(1)]
  show ?case by simp
qed simp

end

text \<open>A transition system with an invariant that relates the state to the history of events.\<close>

locale history_system =
  fixes step :: "'s \<Rightarrow> 'e \<Rightarrow> 's \<Rightarrow> bool"
    and hinv :: "'e list \<Rightarrow> 's \<Rightarrow> bool"
  assumes step_hinv: "hinv es s \<Longrightarrow> step s e t \<Longrightarrow> hinv (es @ [e]) t"
begin

lemma run_hinv_from: "run step s fs t \<Longrightarrow> hinv es s \<Longrightarrow> hinv (es @ fs) t"
proof (induction arbitrary: es rule: run.induct)
  case (run_cons s e t fs u)
  from run_cons.IH [OF step_hinv [OF run_cons.prems run_cons.hyps(1)]] show ?case by simp
qed simp

lemma run_hinv: "run step s es t \<Longrightarrow> hinv [] s \<Longrightarrow> hinv es t"
  using run_hinv_from [of s es t "[]"] by simp

text \<open>The state just before an event of a run satisfies the invariant for the events before it.\<close>

lemma run_event:
  assumes "run step s (es @ e # fs) u" "hinv [] s"
  shows "\<exists>t t'. hinv es t \<and> step t e t'"
proof -
  from run_split [OF assms(1)] obtain t where t: "run step s es t" "run step t (e # fs) u" by blast
  from t(2) obtain t' where "step t e t'" by (rule run_consE) blast
  with run_hinv [OF t(1) assms(2)] show ?thesis by blast
qed

end

text \<open>A handler fed with a sequence of datagrams.\<close>

fun handle_all ::
  "('x \<Rightarrow> bytes \<Rightarrow> 's \<Rightarrow> 'o list \<times> 's) \<Rightarrow> ('x \<times> bytes) list \<Rightarrow> 's \<Rightarrow> 'o list \<times> 's" where
  "handle_all handle [] s = ([], s)"
| "handle_all handle ((x, b) # ins) s =
     (let (o1, s1) = handle x b s; (o2, s2) = handle_all handle ins s1 in (o1 @ o2, s2))"

text \<open>A datagram handler that is no amplifier: at most one datagram leaves for each one that
  arrives, and it is no longer than that one.\<close>

locale no_amplifier =
  fixes handle :: "'x \<Rightarrow> bytes \<Rightarrow> 's \<Rightarrow> 'o list \<times> 's"
    and odata :: "'o \<Rightarrow> bytes"
  assumes one_out: "length (fst (handle x b s)) \<le> 1"
    and no_longer: "out \<in> set (fst (handle x b s)) \<Longrightarrow> length (odata out) \<le> length b"
begin

text \<open>Over any sequence of datagrams, the bytes sent never exceed the bytes received.\<close>

lemma bytes_out_le_in:
  "sum_list (map (\<lambda>p. length (odata p)) (fst (handle_all handle ins s))) \<le> sum_list (map (\<lambda>(x, b). length b) ins) \<and>
   length (fst (handle_all handle ins s)) \<le> length ins"
proof (induction ins arbitrary: s)
  case (Cons i ins)
  obtain x b where i: "i = (x, b)" by (cases i)
  obtain o1 s1 where h: "handle x b s = (o1, s1)" by (cases "handle x b s")
  have "o1 = [] \<or> (\<exists>p. o1 = [p] \<and> length (odata p) \<le> length b)"
    using one_out [of x b s] no_longer [of _ x b s] h by (cases o1) auto
  with Cons.IH [of s1] h i show ?case by (auto simp: Let_def split: prod.splits)
qed simp

end

text \<open>A table whose size stays under a capacity that no step changes.\<close>

locale bounded_table = inv_system step inv
  for step :: "'s \<Rightarrow> 'e \<Rightarrow> 's \<Rightarrow> bool" and inv :: "'s \<Rightarrow> bool" +
  fixes tsize :: "'s \<Rightarrow> int"
    and tcap :: "'s \<Rightarrow> int"
  assumes inv_size: "inv s \<Longrightarrow> tsize s \<le> tcap s"
    and step_cap: "step s e t \<Longrightarrow> tcap t = tcap s"
begin

lemma run_cap: "run step s es t \<Longrightarrow> tcap t = tcap s"
  by (induction rule: run.induct) (auto dest: step_cap)

lemma run_bounded:
  assumes "inv s" and "run step s es t"
  shows "tsize t \<le> tcap s"
proof -
  from assms(2) assms(1) have "inv t" by (rule run_inv)
  then have "tsize t \<le> tcap t" by (rule inv_size)
  with run_cap [OF assms(2)] show ?thesis by simp
qed

end

text \<open>A wire format: whatever is encoded from a valid value decodes to it.\<close>

locale codec =
  fixes enc :: "'a \<Rightarrow> bytes"
    and dec :: "bytes \<Rightarrow> 'a option"
    and valid :: "'a \<Rightarrow> bool"
  assumes dec_enc: "valid x \<Longrightarrow> dec (enc x) = Some x"
begin

lemma enc_inj: "valid x \<Longrightarrow> valid y \<Longrightarrow> enc x = enc y \<Longrightarrow> x = y"
  by (metis dec_enc option.inject)

end

section \<open>Lemmas on Go maps\<close>

lemma gm_len_empty [simp]: "gm_len fmempty = 0"
  by (simp add: gm_len_def)

lemma gm_len_upd [simp]:
  "gm_len (fmupd k v m) = (if fmlookup m k = None then Suc (gm_len m) else gm_len m)"
proof (cases "fmlookup m k")
  case None
  then have "k |\<notin>| fmdom m" by (simp add: fmdom_notI)
  with None show ?thesis by (simp add: gm_len_def fcard_finsert_disjoint)
next
  case (Some w)
  then have "finsert k (fmdom m) = fmdom m" by (auto intro: fmdomI)
  with Some show ?thesis by (simp add: gm_len_def)
qed

lemma gm_len_drop [simp]:
  "gm_len (fmdrop k m) = (if fmlookup m k = None then gm_len m else gm_len m - 1)"
proof (cases "fmlookup m k")
  case None
  then have "fmdrop k m = m" by (simp add: fmdrop_idle fmdom_notI)
  with None show ?thesis by simp
next
  case (Some w)
  then have "k |\<in>| fmdom m" by (rule fmdomI)
  then have "fcard (fmdom m |-| {|k|}) = fcard (fmdom m) - 1"
    by (simp add: fcard_fminus_fsingleton)
  with Some show ?thesis by (simp add: gm_len_def)
qed

lemma gm_len_pos: "fmlookup m k = Some v \<Longrightarrow> 0 < gm_len m"
  by (metis fcard_fempty fmdomI fempty_iff fcard_0_eq gm_len_def gr0I)

lemma gm_filter_lookup [simp]:
  "fmlookup (gm_filter P m) k =
     (case fmlookup m k of None \<Rightarrow> None | Some v \<Rightarrow> if P k v then Some v else None)"
  by (simp add: gm_filter_def split: option.splits)

lemma gm_filter_len: "gm_len (gm_filter P m) \<le> gm_len m"
  unfolding gm_len_def gm_filter_def by (simp, rule fcard_mono) auto

lemma range_order_iff:
  "range_order ks m \<longleftrightarrow> distinct ks \<and> (\<forall>k. k \<in> set ks \<longleftrightarrow> fmlookup m k \<noteq> None)"
  by (auto simp: range_order_def fset_eq_iff fset_of_list_elem fmlookup_dom_iff)

lemma range_order_len: "range_order ks m \<Longrightarrow> length ks = gm_len m"
  by (metis range_order_def gm_len_def distinct_card fset_of_list.rep_eq fcard.rep_eq)

section \<open>Lemmas on outcomes and byte strings\<close>

lemma obind_Ok_iff: "obind m f = Ok y \<longleftrightarrow> (\<exists>x. m = Ok x \<and> f x = Ok y)"
  by (cases m) auto

lemma obind_Panic_iff: "obind m f = Panic \<longleftrightarrow> m = Panic \<or> (\<exists>x. m = Ok x \<and> f x = Panic)"
  by (cases m) auto

lemma le16_put_le16: "le16 (put_le16 w @ b) = w"
proof -
  have "unat w < 2 ^ LENGTH(16)" by (rule unsigned_less)
  then have bound: "unat w < 65536" by simp
  then have hi: "unat w div 256 < 256" by simp
  have "unat (of_nat (unat w mod 256) :: byte) = unat w mod 256"
    by (simp add: unat_of_nat)
  moreover from hi have "unat (of_nat (unat w div 256) :: byte) = unat w div 256"
    by (simp add: unat_of_nat)
  ultimately have "unat (put_le16 w ! 0) + 256 * unat (put_le16 w ! 1) = unat w"
    by (simp add: put_le16_def)
  then show ?thesis by (simp add: le16_def nth_append put_le16_def)
qed

lemma length_put_le16 [simp]: "length (put_le16 w) = 2"
  by (simp add: put_le16_def)

lemma str_bytes_length [simp]: "length (str_bytes s) = length s"
  by (simp add: str_bytes_def)

lemma string_of_str_bytes [simp]: "string_of_bytes (str_bytes s) = s"
proof -
  have "char_of (unat (of_nat (of_char c :: nat) :: byte)) = c" for c
  proof -
    have "(of_char c :: nat) < 256" by simp
    then have "unat (of_nat (of_char c :: nat) :: byte) = of_char c" by (simp add: unat_of_nat)
    then show ?thesis by simp
  qed
  then show ?thesis by (simp add: string_of_bytes_def str_bytes_def o_def)
qed

end
