(* ===== verification/Authlimit.thy ===== *)
theory Authlimit
  imports Ntwire_Prelude
begin

text \<open>
  \<^verbatim>\<open>pkg/authlimit/authlimit.go\<close>: the replay-nonce cache and the per-source request
  limiter, with the sweeps that bound their tables. The clock reading and the order in which
  a range loop visits the map are arguments of each operation; the step relations
  \<open>nonce_step\<close> and \<open>source_step\<close> take any order the language allows.
\<close>

section \<open>The nonce cache\<close>

definition DefaultMaxNonces :: int where
  "DefaultMaxNonces = 4096"

definition DefaultMaxSources :: int where
  "DefaultMaxSources = 65536"

record nonceCache =
  nc_ttl :: duration
  nc_max :: int
  nc_seen :: "(string, gotime) fmap"

definition NewNonceCache :: "duration \<Rightarrow> int \<Rightarrow> nonceCache" where
  "NewNonceCache ttl mx =
     \<lparr> nc_ttl = (if ttl \<le> 0 then 5 * minute else ttl),
       nc_max = (if mx \<le> 0 then DefaultMaxNonces else mx),
       nc_seen = fmempty \<rparr>"

text \<open>The range loop of \<open>sweepLocked\<close>: expired entries go, the oldest survivor is kept in mind.\<close>

fun nonce_sweep_loop ::
  "gotime \<Rightarrow> duration \<Rightarrow> string list \<Rightarrow> (string, gotime) fmap \<Rightarrow> (string \<times> gotime) option
   \<Rightarrow> (string, gotime) fmap \<times> (string \<times> gotime) option" where
  "nonce_sweep_loop now ttl [] seen oldest = (seen, oldest)"
| "nonce_sweep_loop now ttl (k # ks) seen oldest =
     (case fmlookup seen k of
        None \<Rightarrow> nonce_sweep_loop now ttl ks seen oldest
      | Some at \<Rightarrow>
          if now - at > ttl then nonce_sweep_loop now ttl ks (fmdrop k seen) oldest
          else if (case oldest of None \<Rightarrow> True | Some (_, oldestAt) \<Rightarrow> at < oldestAt)
          then nonce_sweep_loop now ttl ks seen (Some (k, at))
          else nonce_sweep_loop now ttl ks seen oldest)"

definition nonce_sweepLocked :: "gotime \<Rightarrow> string list \<Rightarrow> nonceCache \<Rightarrow> nonceCache" where
  "nonce_sweepLocked now ks c =
     (case nonce_sweep_loop now (nc_ttl c) ks (nc_seen c) None of
        (seen, None) \<Rightarrow> c\<lparr>nc_seen := seen\<rparr>
      | (seen, Some (oldestKey, _)) \<Rightarrow>
          if int (gm_len seen) \<ge> nc_max c then c\<lparr>nc_seen := fmdrop oldestKey seen\<rparr>
          else c\<lparr>nc_seen := seen\<rparr>)"

definition nonce_Use :: "gotime \<Rightarrow> string list \<Rightarrow> string \<Rightarrow> nonceCache \<Rightarrow> bool \<times> nonceCache" where
  "nonce_Use now ks n c =
     (if n = '''' then (False, c)
      else if (case fmlookup (nc_seen c) n of Some at \<Rightarrow> now - at \<le> nc_ttl c | None \<Rightarrow> False)
      then (False, c)
      else let c' = (if int (gm_len (nc_seen c)) \<ge> nc_max c then nonce_sweepLocked now ks c else c)
           in (True, c'\<lparr>nc_seen := fmupd n now (nc_seen c')\<rparr>))"

definition nonce_Len :: "nonceCache \<Rightarrow> nat" where
  "nonce_Len c = gm_len (nc_seen c)"

text \<open>One call of \<open>Use\<close> at a clock reading, under any iteration order.\<close>

inductive nonce_step :: "nonceCache \<Rightarrow> gotime \<times> string \<times> bool \<Rightarrow> nonceCache \<Rightarrow> bool" where
  "range_order ks (nc_seen c) \<Longrightarrow> nonce_Use now ks n c = (r, c') \<Longrightarrow> nonce_step c (now, n, r) c'"

inductive_cases nonce_stepE: "nonce_step c e c'"

definition nonce_inv :: "nonceCache \<Rightarrow> bool" where
  "nonce_inv c \<longleftrightarrow> 0 < nc_max c \<and> 0 < nc_ttl c \<and> int (gm_len (nc_seen c)) \<le> nc_max c"

section \<open>The source limiter\<close>

record sourceState =
  ss_n :: int
  ss_since :: gotime

record sourceLimiter =
  sl_limit :: int
  sl_window :: duration
  sl_max :: int
  sl_sources :: "(string, sourceState) fmap"
  sl_sweepAt :: "gotime option" \<comment> \<open>None is the zero time, before every reading\<close>

definition NewSourceLimiter :: "int \<Rightarrow> duration \<Rightarrow> int \<Rightarrow> sourceLimiter" where
  "NewSourceLimiter limit window mx =
     \<lparr> sl_limit = limit,
       sl_window = (if window \<le> 0 then minute else window),
       sl_max = (if mx \<le> 0 then DefaultMaxSources else mx),
       sl_sources = fmempty, sl_sweepAt = None \<rparr>"

text \<open>The eviction loop of \<open>sweepLocked\<close>: arbitrary entries go until the target is met.\<close>

fun source_evict_loop ::
  "int \<Rightarrow> string list \<Rightarrow> (string, sourceState) fmap \<Rightarrow> (string, sourceState) fmap" where
  "source_evict_loop target [] m = m"
| "source_evict_loop target (k # ks) m =
     (if int (gm_len m) \<le> target then m else source_evict_loop target ks (fmdrop k m))"

definition source_sweepLocked :: "gotime \<Rightarrow> string list \<Rightarrow> sourceLimiter \<Rightarrow> sourceLimiter" where
  "source_sweepLocked now ks l =
     (let live = gm_filter (\<lambda>_ s. \<not> (now - ss_since s > sl_window l)) (sl_sources l);
          target = sl_max l - sl_max l div 10
      in l\<lparr>sl_sources := source_evict_loop target ks live\<rparr>)"

definition source_Allow ::
  "gotime \<Rightarrow> string list \<Rightarrow> string \<Rightarrow> sourceLimiter \<Rightarrow> bool \<times> sourceLimiter" where
  "source_Allow now ks source l =
     (if sl_limit l \<le> 0 then (True, l)
      else
        let l1 = (if (case sl_sweepAt l of None \<Rightarrow> True | Some at \<Rightarrow> now > at)
                     \<or> int (gm_len (sl_sources l)) \<ge> sl_max l
                  then (source_sweepLocked now ks l)\<lparr>sl_sweepAt := Some (now + sl_window l)\<rparr>
                  else l)
        in case fmlookup (sl_sources l1) source of
             None \<Rightarrow> (True, l1\<lparr>sl_sources := fmupd source \<lparr>ss_n = 1, ss_since = now\<rparr> (sl_sources l1)\<rparr>)
           | Some s \<Rightarrow>
               if now - ss_since s > sl_window l
               then (True, l1\<lparr>sl_sources := fmupd source \<lparr>ss_n = 1, ss_since = now\<rparr> (sl_sources l1)\<rparr>)
               else let s' = s\<lparr>ss_n := ss_n s + 1\<rparr>
                    in (ss_n s' \<le> sl_limit l, l1\<lparr>sl_sources := fmupd source s' (sl_sources l1)\<rparr>))"

definition source_Len :: "sourceLimiter \<Rightarrow> nat" where
  "source_Len l = gm_len (sl_sources l)"

text \<open>
  One call of \<open>Allow\<close> at a clock reading. The eviction loop ranges over what the expiry
  loop left, in any order.
\<close>

inductive source_step :: "sourceLimiter \<Rightarrow> gotime \<times> string \<times> bool \<Rightarrow> sourceLimiter \<Rightarrow> bool" where
  "range_order ks (gm_filter (\<lambda>_ s. \<not> (now - ss_since s > sl_window l)) (sl_sources l)) \<Longrightarrow>
   source_Allow now ks src l = (r, l') \<Longrightarrow> source_step l (now, src, r) l'"

inductive_cases source_stepE: "source_step l e l'"

text \<open>The size the table really keeps: its maximum, plus one entry when a tenth of it is zero.\<close>

definition source_cap :: "sourceLimiter \<Rightarrow> int" where
  "source_cap l = (if sl_max l < 10 then sl_max l + 1 else sl_max l)"

definition source_inv :: "sourceLimiter \<Rightarrow> bool" where
  "source_inv l \<longleftrightarrow> 0 < sl_max l \<and> int (gm_len (sl_sources l)) \<le> source_cap l"

section \<open>Lemmas on the nonce cache\<close>

text \<open>What the sweep loop leaves: the unexpired part of what it visits, and an oldest survivor.\<close>

lemma nonce_sweep_loop_lookup:
  "nonce_sweep_loop now ttl ks seen old = (seen', old') \<Longrightarrow> distinct ks \<Longrightarrow>
   fmlookup seen' k =
     (if k \<in> set ks then
        (case fmlookup seen k of None \<Rightarrow> None | Some at \<Rightarrow> if now - at > ttl then None else Some at)
      else fmlookup seen k)"
  by (induction now ttl ks seen old rule: nonce_sweep_loop.induct)
    (auto split: option.splits if_splits)

definition oldest_ok :: "string list \<Rightarrow> (string, gotime) fmap \<Rightarrow> (string \<times> gotime) option \<Rightarrow> bool" where
  "oldest_ok ks seen old \<longleftrightarrow>
     (case old of
        None \<Rightarrow> (\<forall>k \<in> set ks. fmlookup seen k = None)
      | Some (k, at) \<Rightarrow> fmlookup seen k = Some at \<and>
          (\<forall>k2 \<in> set ks. \<forall>at2. fmlookup seen k2 = Some at2 \<longrightarrow> at \<le> at2))"

lemma nonce_sweep_loop_oldest:
  "nonce_sweep_loop now ttl ks seen old = (seen', old') \<Longrightarrow> distinct (vis @ ks) \<Longrightarrow>
   oldest_ok vis seen old \<Longrightarrow> (case old of None \<Rightarrow> True | Some (k, _) \<Rightarrow> k \<in> set vis) \<Longrightarrow>
   oldest_ok (vis @ ks) seen' old'"
proof (induction ks arbitrary: seen old vis)
  case Nil
  then show ?case by simp
next
  case (Cons k ks)
  have dist: "distinct ((vis @ [k]) @ ks)" using Cons.prems(2) by simp
  consider (gone) "fmlookup seen k = None"
    | (expired) a where "fmlookup seen k = Some a" "now - a > ttl"
    | (older) a where "fmlookup seen k = Some a" "\<not> now - a > ttl"
        "case old of None \<Rightarrow> True | Some (_, a0) \<Rightarrow> a < a0"
    | (younger) a where "fmlookup seen k = Some a" "\<not> now - a > ttl"
        "\<not> (case old of None \<Rightarrow> True | Some (_, a0) \<Rightarrow> a < a0)"
    by (cases "fmlookup seen k") auto
  then have "oldest_ok ((vis @ [k]) @ ks) seen' old'"
  proof cases
    case gone
    show ?thesis
      by (rule Cons.IH [OF _ dist]) (use gone Cons.prems in \<open>auto simp: oldest_ok_def split: option.splits\<close>)
  next
    case expired
    have "nonce_sweep_loop now ttl ks (fmdrop k seen) old = (seen', old')"
      using expired Cons.prems(1) by simp
    then show ?thesis
      by (rule Cons.IH [OF _ dist]) (use Cons.prems in \<open>auto simp: oldest_ok_def split: option.splits\<close>)
  next
    case older
    have "nonce_sweep_loop now ttl ks seen (Some (k, a)) = (seen', old')"
      using older Cons.prems(1) by simp
    then show ?thesis
      by (rule Cons.IH [OF _ dist]) (use older Cons.prems in \<open>force simp: oldest_ok_def split: option.splits\<close>)+
  next
    case younger
    have "nonce_sweep_loop now ttl ks seen old = (seen', old')"
      using younger Cons.prems(1) by simp
    then show ?thesis
      by (rule Cons.IH [OF _ dist]) (use younger Cons.prems in \<open>force simp: oldest_ok_def split: option.splits\<close>)+
  qed
  then show ?case by simp
qed

text \<open>
  The whole sweep, under an order that visits every entry: every survivor is unexpired, and
  an unexpired entry that is lost was the oldest of a cache still at capacity.
\<close>

lemma nonce_sweep_survivor:
  assumes "range_order ks (nc_seen c)" "fmlookup (nc_seen (nonce_sweepLocked now ks c)) n = Some at"
  shows "fmlookup (nc_seen c) n = Some at \<and> now - at \<le> nc_ttl c"
proof -
  obtain seen old where loop: "nonce_sweep_loop now (nc_ttl c) ks (nc_seen c) None = (seen, old)"
    by fastforce
  have lk: "fmlookup seen n = Some at"
    using assms(2) loop
    by (auto simp: nonce_sweepLocked_def split: option.splits if_splits)
  from assms(1) have "distinct ks" "fmlookup (nc_seen c) n \<noteq> None \<longrightarrow> n \<in> set ks"
    by (auto simp: range_order_iff)
  with nonce_sweep_loop_lookup [OF loop, of n] lk show ?thesis
    by (auto split: if_splits option.splits)
qed

lemma nonce_sweep_lost:
  assumes ord: "range_order ks (nc_seen c)" and had: "fmlookup (nc_seen c) n = Some at"
    and fresh: "now - at \<le> nc_ttl c"
    and lost: "fmlookup (nc_seen (nonce_sweepLocked now ks c)) n = None"
  shows "\<forall>m at2. fmlookup (nc_seen c) m = Some at2 \<longrightarrow> now - at2 \<le> nc_ttl c \<longrightarrow> at \<le> at2"
proof -
  obtain seen old where loop: "nonce_sweep_loop now (nc_ttl c) ks (nc_seen c) None = (seen, old)"
    by fastforce
  have ks: "distinct ks" "\<And>k. k \<in> set ks \<longleftrightarrow> fmlookup (nc_seen c) k \<noteq> None"
    using ord by (auto simp: range_order_iff)
  have lk: "\<And>m at2. fmlookup (nc_seen c) m = Some at2 \<Longrightarrow> now - at2 \<le> nc_ttl c \<Longrightarrow> fmlookup seen m = Some at2"
    using nonce_sweep_loop_lookup [OF loop ks(1)] ks(2) by auto
  have "oldest_ok ks seen old"
    using nonce_sweep_loop_oldest [OF loop, of "[]"] ks(1) by (simp add: oldest_ok_def)
  moreover obtain a where "old = Some (n, a)"
    using lost loop lk [OF had fresh]
    by (auto simp: nonce_sweepLocked_def split: option.splits if_splits)
  ultimately show ?thesis using lk [OF had fresh] lk ks(2) by (fastforce simp: oldest_ok_def)
qed

lemma nonce_sweep_room:
  assumes "range_order ks (nc_seen c)" "int (gm_len (nc_seen c)) \<le> nc_max c" "0 < nc_max c"
  shows "int (gm_len (nc_seen (nonce_sweepLocked now ks c))) < nc_max c"
proof -
  obtain seen old where loop: "nonce_sweep_loop now (nc_ttl c) ks (nc_seen c) None = (seen, old)"
    by fastforce
  have ks: "distinct ks" "\<And>k. k \<in> set ks \<longleftrightarrow> fmlookup (nc_seen c) k \<noteq> None"
    using assms(1) by (auto simp: range_order_iff)
  have "fmdom seen |\<subseteq>| fmdom (nc_seen c)"
    using nonce_sweep_loop_lookup [OF loop ks(1)] ks(2)
    by (auto simp: fmlookup_dom_iff split: if_splits option.splits)
  then have le: "gm_len seen \<le> gm_len (nc_seen c)"
    unfolding gm_len_def by (rule fcard_mono)
  have ok: "oldest_ok ks seen old"
    using nonce_sweep_loop_oldest [OF loop, of "[]"] ks(1) by (simp add: oldest_ok_def)
  show ?thesis
  proof (cases old)
    case None
    with ok have "\<And>k. fmlookup seen k = None"
      using nonce_sweep_loop_lookup [OF loop ks(1)] ks(2) by (auto simp: oldest_ok_def)
    then have "seen = fmempty" by (intro fmap_ext) simp
    with None loop assms(3) show ?thesis by (simp add: nonce_sweepLocked_def)
  next
    case (Some p)
    obtain k a where p: "p = (k, a)" by fastforce
    with ok Some have "fmlookup seen k = Some a" by (simp add: oldest_ok_def)
    with gm_len_pos [OF this] Some p loop le assms(2,3) show ?thesis
      by (auto simp: nonce_sweepLocked_def)
  qed
qed

lemma nonce_sweep_config [simp]:
  "nc_max (nonce_sweepLocked now ks c) = nc_max c" "nc_ttl (nonce_sweepLocked now ks c) = nc_ttl c"
  by (auto simp: nonce_sweepLocked_def split: option.splits prod.splits)

lemma nonce_Use_config:
  "nonce_Use now ks n c = (r, c') \<Longrightarrow> nc_max c' = nc_max c \<and> nc_ttl c' = nc_ttl c"
  by (auto simp: nonce_Use_def Let_def split: if_splits)

lemma nonce_Use_inv:
  assumes "nonce_inv c" "range_order ks (nc_seen c)" "nonce_Use now ks n c = (r, c')"
  shows "nonce_inv c'"
  using assms nonce_sweep_room [OF assms(2), of now]
  by (auto simp: nonce_inv_def nonce_Use_def Let_def split: if_splits)

lemma NewNonceCache_inv: "nonce_inv (NewNonceCache ttl mx)"
  by (simp add: nonce_inv_def NewNonceCache_def DefaultMaxNonces_def)

lemma nonce_step_inv: "nonce_inv c \<Longrightarrow> nonce_step c e c' \<Longrightarrow> nonce_inv c'"
  by (auto elim!: nonce_stepE intro: nonce_Use_inv)

interpretation nonce_table: bounded_table nonce_step nonce_inv
  "\<lambda>c. int (nonce_Len c)" nc_max
proof (unfold_locales, goal_cases)
  case 1
  then show ?case by (rule nonce_step_inv)
next
  case 2
  then show ?case by (simp add: nonce_inv_def nonce_Len_def)
next
  case 3
  then show ?case by (auto elim!: nonce_stepE dest: nonce_Use_config)
qed

text \<open>Below capacity, a recorded nonce stays recorded at its time.\<close>

lemma nonce_step_keeps:
  assumes "nonce_step c (now, m, r) c'" "int (nonce_Len c) < nc_max c"
    "fmlookup (nc_seen c) n = Some at" "now - at \<le> nc_ttl c"
  shows "fmlookup (nc_seen c') n = Some at \<and> nonce_Len c' \<le> Suc (nonce_Len c)
         \<and> nc_max c' = nc_max c \<and> nc_ttl c' = nc_ttl c"
  using assms
  by (auto elim!: nonce_stepE simp: nonce_Use_def nonce_Len_def Let_def split: if_splits)

lemma nonce_run_keeps:
  "run nonce_step c es c' \<Longrightarrow> int (nonce_Len c + length es) \<le> nc_max c \<Longrightarrow>
   fmlookup (nc_seen c) n = Some at \<Longrightarrow> \<forall>(now, m, r) \<in> set es. now - at \<le> nc_ttl c \<Longrightarrow>
   fmlookup (nc_seen c') n = Some at \<and> nc_ttl c' = nc_ttl c"
proof (induction rule: run.induct)
  case (run_nil s)
  then show ?case by simp
next
  case (run_cons s e t es u)
  obtain now m r where e: "e = (now, m, r)" by (cases e)
  from nonce_step_keeps [of s now m r t n at] run_cons.prems run_cons.hyps(1)
  have "fmlookup (nc_seen t) n = Some at" "nonce_Len t \<le> Suc (nonce_Len s)"
    "nc_max t = nc_max s" "nc_ttl t = nc_ttl s"
    by (auto simp: e)
  with run_cons.IH run_cons.prems show ?case by auto
qed

section \<open>Lemmas on the source limiter\<close>

lemma source_evict_len:
  "distinct ks \<Longrightarrow> \<forall>k \<in> set ks. fmlookup m k \<noteq> None \<Longrightarrow>
   int (gm_len (source_evict_loop target ks m)) \<le> max target (int (gm_len m) - int (length ks))"
proof (induction ks arbitrary: m)
  case Nil
  then show ?case by simp
next
  case (Cons k ks)
  have "0 < gm_len m" using Cons.prems gm_len_pos by fastforce
  moreover have "int (gm_len (source_evict_loop target ks (fmdrop k m)))
      \<le> max target (int (gm_len (fmdrop k m)) - int (length ks))"
    using Cons.prems by (intro Cons.IH) auto
  ultimately show ?case using Cons.prems by (auto simp: of_nat_diff)
qed

lemma source_evict_le: "gm_len (source_evict_loop target ks m) \<le> gm_len m"
proof (induction ks arbitrary: m)
  case Nil
  then show ?case by simp
next
  case (Cons k ks)
  have "gm_len (source_evict_loop target ks (fmdrop k m)) \<le> gm_len (fmdrop k m)"
    by (rule Cons.IH)
  then show ?case by (auto split: if_splits)
qed

lemma source_evict_lookup:
  "fmlookup (source_evict_loop target ks m) k = Some v \<Longrightarrow> fmlookup m k = Some v"
  by (induction target ks m rule: source_evict_loop.induct) (auto split: if_splits)

lemma source_evict_idle: "int (gm_len m) \<le> target \<Longrightarrow> source_evict_loop target ks m = m"
  by (cases ks) auto

lemma source_sweep_config [simp]:
  "sl_max (source_sweepLocked now ks l) = sl_max l"
  "sl_limit (source_sweepLocked now ks l) = sl_limit l"
  "sl_window (source_sweepLocked now ks l) = sl_window l"
  by (simp_all add: source_sweepLocked_def Let_def)

lemma source_sweep_lookup:
  "fmlookup (sl_sources (source_sweepLocked now ks l)) k = Some v \<Longrightarrow>
   fmlookup (sl_sources l) k = Some v \<and> now - ss_since v \<le> sl_window l"
  by (auto simp: source_sweepLocked_def Let_def dest!: source_evict_lookup
      split: option.splits if_splits)

lemma source_sweep_len:
  assumes "range_order ks (gm_filter (\<lambda>_ s. \<not> (now - ss_since s > sl_window l)) (sl_sources l))"
    and "0 < sl_max l"
  shows "int (gm_len (sl_sources (source_sweepLocked now ks l))) \<le> sl_max l - sl_max l div 10"
    and "gm_len (sl_sources (source_sweepLocked now ks l)) \<le> gm_len (sl_sources l)"
proof -
  let ?live = "gm_filter (\<lambda>_ s. \<not> (now - ss_since s > sl_window l)) (sl_sources l)"
  let ?target = "sl_max l - sl_max l div 10"
  have "int (gm_len (source_evict_loop ?target ks ?live))
      \<le> max ?target (int (gm_len ?live) - int (length ks))"
    using assms(1) by (intro source_evict_len) (auto simp: range_order_iff)
  moreover have "length ks = gm_len ?live" using assms(1) by (rule range_order_len)
  moreover have "0 \<le> ?target" using assms(2) by linarith
  ultimately show "int (gm_len (sl_sources (source_sweepLocked now ks l))) \<le> ?target"
    by (simp add: source_sweepLocked_def Let_def)
  show "gm_len (sl_sources (source_sweepLocked now ks l)) \<le> gm_len (sl_sources l)"
    using order_trans [OF source_evict_le gm_filter_len]
    by (simp add: source_sweepLocked_def Let_def)
qed

lemma source_sweep_idle:
  "int (gm_len (sl_sources l)) \<le> sl_max l - sl_max l div 10 \<Longrightarrow>
   fmlookup (sl_sources l) k = Some v \<Longrightarrow> now - ss_since v \<le> sl_window l \<Longrightarrow>
   fmlookup (sl_sources (source_sweepLocked now ks l)) k = Some v"
  using gm_filter_len [of "\<lambda>_ s. \<not> (now - ss_since s > sl_window l)" "sl_sources l"]
  by (simp add: source_sweepLocked_def Let_def source_evict_idle)

lemma source_Allow_config:
  "source_Allow now ks src l = (r, l') \<Longrightarrow>
   sl_max l' = sl_max l \<and> sl_limit l' = sl_limit l \<and> sl_window l' = sl_window l"
  by (auto simp: source_Allow_def Let_def split: if_splits option.splits)

text \<open>The table after the optional sweep, and the size of the table after the call.\<close>

definition source_swept :: "gotime \<Rightarrow> string list \<Rightarrow> sourceLimiter \<Rightarrow> sourceLimiter" where
  "source_swept now ks l =
     (if (case sl_sweepAt l of None \<Rightarrow> True | Some at \<Rightarrow> now > at)
         \<or> int (gm_len (sl_sources l)) \<ge> sl_max l
      then (source_sweepLocked now ks l)\<lparr>sl_sweepAt := Some (now + sl_window l)\<rparr> else l)"

lemma source_Allow_len:
  "source_Allow now ks src l = (r, l') \<Longrightarrow>
   sl_limit l \<le> 0 \<and> l' = l \<or>
   gm_len (sl_sources l') \<le> Suc (gm_len (sl_sources (source_swept now ks l)))"
  by (auto simp: source_Allow_def source_swept_def Let_def split: if_splits option.splits)

lemma source_swept_len:
  assumes "range_order ks (gm_filter (\<lambda>_ s. \<not> (now - ss_since s > sl_window l)) (sl_sources l))"
    and "source_inv l"
  shows "Suc (gm_len (sl_sources (source_swept now ks l))) \<le> nat (source_cap l)"
proof -
  have "0 < sl_max l" using assms(2) by (simp add: source_inv_def)
  from source_sweep_len [OF assms(1) this] this show ?thesis
    by (auto simp: source_swept_def source_cap_def)
qed

lemma source_step_inv: "source_inv l \<Longrightarrow> source_step l e l' \<Longrightarrow> source_inv l'"
proof (elim source_stepE)
  fix ks now src r
  assume inv: "source_inv l"
    and ord: "range_order ks (gm_filter (\<lambda>_ s. \<not> (now - ss_since s > sl_window l)) (sl_sources l))"
    and call: "source_Allow now ks src l = (r, l')"
  have cfg: "sl_max l' = sl_max l" using source_Allow_config [OF call] by simp
  from source_Allow_len [OF call] source_swept_len [OF ord inv] inv
  show "source_inv l'" by (auto simp: source_inv_def source_cap_def cfg)
qed

lemma NewSourceLimiter_inv: "source_inv (NewSourceLimiter limit window mx)"
  by (simp add: source_inv_def NewSourceLimiter_def DefaultMaxSources_def source_cap_def)

lemma source_step_config:
  "source_step l e l' \<Longrightarrow>
   sl_max l' = sl_max l \<and> sl_limit l' = sl_limit l \<and> sl_window l' = sl_window l"
  by (auto elim!: source_stepE dest: source_Allow_config)

interpretation source_table: bounded_table source_step source_inv
  "\<lambda>l. int (source_Len l)" source_cap
proof (unfold_locales, goal_cases)
  case 1
  then show ?case by (rule source_step_inv)
next
  case 2
  then show ?case by (simp add: source_inv_def source_Len_def)
next
  case 3
  then show ?case by (auto simp: source_cap_def dest: source_step_config)
qed

text \<open>A call by any source leaves an in-window entry alone while the table is under its target,
  except for the caller's own count.\<close>

lemma source_step_count:
  assumes "source_step l (now, src, r) l'" "0 < sl_limit l"
    and "fmlookup (sl_sources l) k = Some s" "now - ss_since s \<le> sl_window l"
    and "int (source_Len l) < sl_max l - sl_max l div 10"
  shows "fmlookup (sl_sources l') k = Some (if src = k then s\<lparr>ss_n := ss_n s + 1\<rparr> else s)"
    and "source_Len l' \<le> Suc (source_Len l)"
    and "src = k \<Longrightarrow> r = (ss_n s + 1 \<le> sl_limit l)"
proof -
  obtain ks where ord: "range_order ks (gm_filter (\<lambda>_ s. \<not> (now - ss_since s > sl_window l)) (sl_sources l))"
    and call: "source_Allow now ks src l = (r, l')"
    using assms(1) by (auto elim: source_stepE)
  have small: "int (gm_len (sl_sources l)) \<le> sl_max l - sl_max l div 10"
    using assms(5) by (simp add: source_Len_def)
  have keep: "fmlookup (sl_sources (source_sweepLocked now ks l)) k = Some s"
    by (rule source_sweep_idle [OF small assms(3,4)])
  show "fmlookup (sl_sources l') k = Some (if src = k then s\<lparr>ss_n := ss_n s + 1\<rparr> else s)"
    and "src = k \<Longrightarrow> r = (ss_n s + 1 \<le> sl_limit l)"
    using call keep assms(2,3,4)
    by (auto simp: source_Allow_def Let_def split: if_splits option.splits)
  have "gm_len (sl_sources (source_swept now ks l)) \<le> gm_len (sl_sources l)"
    using order_trans [OF source_evict_le gm_filter_len]
    by (simp add: source_swept_def source_sweepLocked_def Let_def)
  with source_Allow_len [OF call] assms(2) show "source_Len l' \<le> Suc (source_Len l)"
    by (auto simp: source_Len_def)
qed

lemma source_run_count:
  "run source_step l es l' \<Longrightarrow> 0 < sl_limit l \<Longrightarrow> fmlookup (sl_sources l) k = Some s \<Longrightarrow>
   int (source_Len l + length es) \<le> sl_max l - sl_max l div 10 \<Longrightarrow>
   \<forall>(now, src, r) \<in> set es. now - ss_since s \<le> sl_window l \<Longrightarrow>
   int (length (filter (\<lambda>(now, src, r). src = k \<and> r) es)) \<le> max 0 (sl_limit l - ss_n s)"
proof (induction arbitrary: s rule: run.induct)
  case (run_nil l)
  then show ?case by simp
next
  case (run_cons l e t es u)
  obtain now src r where e: "e = (now, src, r)" by (cases e)
  let ?s = "if src = k then s\<lparr>ss_n := ss_n s + 1\<rparr> else s"
  have cfg: "sl_max t = sl_max l" "sl_limit t = sl_limit l" "sl_window t = sl_window l"
    using source_step_config [OF run_cons.hyps(1)] by auto
  note c = source_step_count [OF run_cons.hyps(1) [unfolded e] run_cons.prems(1,2)]
  have lk: "fmlookup (sl_sources t) k = Some ?s" and len: "source_Len t \<le> Suc (source_Len l)"
    and rr: "src = k \<Longrightarrow> r = (ss_n s + 1 \<le> sl_limit l)"
    using c run_cons.prems(3,4) by (auto simp: e)
  have "int (length (filter (\<lambda>(now, src, r). src = k \<and> r) es)) \<le> max 0 (sl_limit t - ss_n ?s)"
    using run_cons.prems len cfg by (intro run_cons.IH [OF _ lk]) (auto simp: e)
  then show ?case using rr by (auto simp: e cfg split: if_splits)
qed

section \<open>Properties\<close>

text \<open>However it is called, with any clock and any map iteration order, a nonce cache
  never holds more than its configured maximum of entries.\<close>

theorem nonce_cache_bounded:
  assumes "run nonce_step (NewNonceCache ttl mx) es c"
  shows "int (nonce_Len c) \<le> (if mx \<le> 0 then DefaultMaxNonces else mx)"
  using nonce_table.run_bounded [OF NewNonceCache_inv assms]
  by (simp add: NewNonceCache_def)

lemma nonce_stepI:
  "range_order ks (nc_seen c) \<Longrightarrow> nonce_step c (now, n, fst (nonce_Use now ks n c)) (snd (nonce_Use now ks n c))"
  by (rule nonce_step.intros) auto

theorem nonce_cache_bounded_witness:
  "int (nonce_Len (snd (nonce_Use 7 [''a''] ''b'' (snd (nonce_Use 3 [] ''a'' (NewNonceCache 10 1)))))) \<le> 1"
proof -
  let ?c0 = "NewNonceCache 10 1"
  let ?c1 = "snd (nonce_Use 3 [] ''a'' ?c0)"
  have s1: "nonce_step ?c0 (3, ''a'', fst (nonce_Use 3 [] ''a'' ?c0)) ?c1"
    by (rule nonce_stepI) (simp add: NewNonceCache_def range_order_iff)
  have s2: "nonce_step ?c1 (7, ''b'', fst (nonce_Use 7 [''a''] ''b'' ?c1)) (snd (nonce_Use 7 [''a''] ''b'' ?c1))"
    by (rule nonce_stepI) (simp add: NewNonceCache_def nonce_Use_def range_order_iff)
  show ?thesis
    using nonce_cache_bounded [OF run_two [of nonce_step, OF s1 s2]] by simp
qed

text \<open>A nonce that \<open>Use\<close> accepted is refused when it is presented again inside the
  window, as long as the requests in between do not fill the cache: the replay is caught.\<close>

theorem nonce_replay_refused:
  assumes "nonce_step c (t, n, True) c1" and "run nonce_step c1 es c2"
    and "int (nonce_Len c1 + length es) \<le> nc_max c1"
    and "\<forall>(now, m, r) \<in> set es. now - t \<le> nc_ttl c1"
    and "nonce_step c2 (t', n, r) c3" and "t' - t \<le> nc_ttl c1"
  shows "\<not> r"
proof -
  have "fmlookup (nc_seen c1) n = Some t"
    using assms(1) by (auto elim!: nonce_stepE simp: nonce_Use_def Let_def split: if_splits)
  from nonce_run_keeps [OF assms(2,3) this assms(4)] assms(5,6) show ?thesis
    by (auto elim!: nonce_stepE simp: nonce_Use_def Let_def split: if_splits)
qed

theorem nonce_replay_refused_witness:
  "\<not> fst (nonce_Use 2 [''m'', ''n''] ''n''
      (snd (nonce_Use 1 [''n''] ''m'' (snd (nonce_Use 0 [] ''n'' (NewNonceCache 0 0))))))"
proof -
  let ?c0 = "NewNonceCache 0 0"
  let ?c1 = "snd (nonce_Use 0 [] ''n'' ?c0)"
  let ?c2 = "snd (nonce_Use 1 [''n''] ''m'' ?c1)"
  have s1: "nonce_step ?c0 (0, ''n'', True) ?c1"
    using nonce_stepI [of "[]" ?c0 0 "''n''"]
    by (simp add: NewNonceCache_def range_order_iff nonce_Use_def Let_def)
  have s2: "nonce_step ?c1 (1, ''m'', fst (nonce_Use 1 [''n''] ''m'' ?c1)) ?c2"
    by (rule nonce_stepI) (simp add: NewNonceCache_def nonce_Use_def range_order_iff DefaultMaxNonces_def)
  have s3: "nonce_step ?c2 (2, ''n'', fst (nonce_Use 2 [''m'', ''n''] ''n'' ?c2))
      (snd (nonce_Use 2 [''m'', ''n''] ''n'' ?c2))"
    by (rule nonce_stepI) (auto simp: NewNonceCache_def nonce_Use_def range_order_iff DefaultMaxNonces_def)
  show ?thesis
    by (rule nonce_replay_refused [OF s1 run_one [of nonce_step, OF s2] _ _ s3])
      (simp_all add: NewNonceCache_def nonce_Use_def nonce_Len_def DefaultMaxNonces_def)
qed

text \<open>When \<open>Use\<close> records a nonce, another nonce still inside its window is forgotten
  only if the cache was full and that nonce was the oldest of the unexpired ones.\<close>

theorem nonce_eviction_oldest:
  assumes "nonce_step c (now, n, True) c'"
    and "fmlookup (nc_seen c) m = Some at" "now - at \<le> nc_ttl c"
    and "fmlookup (nc_seen c') m = None"
  shows "nc_max c \<le> int (nonce_Len c) \<and>
    (\<forall>k at2. fmlookup (nc_seen c) k = Some at2 \<longrightarrow> now - at2 \<le> nc_ttl c \<longrightarrow> at \<le> at2)"
proof -
  obtain ks where ord: "range_order ks (nc_seen c)" and call: "nonce_Use now ks n c = (True, c')"
    using assms(1) by (auto elim: nonce_stepE)
  from call assms(2,4) have full: "nc_max c \<le> int (gm_len (nc_seen c))"
    and lost: "fmlookup (nc_seen (nonce_sweepLocked now ks c)) m = None"
    by (auto simp: nonce_Use_def Let_def split: if_splits)
  from nonce_sweep_lost [OF ord assms(2,3) lost] full show ?thesis
    by (simp add: nonce_Len_def)
qed

theorem nonce_eviction_oldest_witness:
  "let c = \<lparr>nc_ttl = 10, nc_max = 2, nc_seen = fmupd ''b'' 4 (fmupd ''a'' 3 fmempty)\<rparr>
   in nc_max c \<le> int (nonce_Len c) \<and>
      (\<forall>k at2. fmlookup (nc_seen c) k = Some at2 \<longrightarrow> 7 - at2 \<le> nc_ttl c \<longrightarrow> 3 \<le> at2)"
proof -
  let ?c = "\<lparr>nc_ttl = 10, nc_max = 2, nc_seen = fmupd ''b'' 4 (fmupd ''a'' (3::int) fmempty)\<rparr>"
  let ?c' = "snd (nonce_Use 7 [''a'', ''b''] ''n'' ?c)"
  have s: "nonce_step ?c (7, ''n'', True) ?c'"
    using nonce_stepI [of "[''a'', ''b'']" ?c 7 "''n''"]
    by (auto simp: range_order_iff nonce_Use_def Let_def)
  have "nc_max ?c \<le> int (nonce_Len ?c) \<and>
      (\<forall>k at2. fmlookup (nc_seen ?c) k = Some at2 \<longrightarrow> 7 - at2 \<le> nc_ttl ?c \<longrightarrow> 3 \<le> at2)"
    by (rule nonce_eviction_oldest [OF s, of "''a''" 3])
      (simp_all add: nonce_Use_def nonce_sweepLocked_def)
  then show ?thesis unfolding Let_def .
qed

text \<open>\<open>Allow\<close> refuses a source only on the source's own account: its entry is in the
  table, inside its window and already at the limit. No amount of traffic from other sources
  denies it, even when they fill the table.\<close>

theorem source_denied_own_account:
  assumes "source_Allow now ks src l = (False, l')"
  shows "\<exists>s. fmlookup (sl_sources l) src = Some s \<and> now - ss_since s \<le> sl_window l
    \<and> sl_limit l \<le> ss_n s \<and> 0 < sl_limit l"
  using assms source_sweep_lookup [of now ks l src]
  by (auto simp: source_Allow_def Let_def split: if_splits option.splits)

theorem source_denied_own_account_witness:
  "\<exists>s. fmlookup (sl_sources (snd (source_Allow 1 [] ''x'' (NewSourceLimiter 1 10 20)))) ''x'' = Some s
    \<and> 2 - ss_since s \<le> 10 \<and> 1 \<le> ss_n s"
  using source_denied_own_account [of 2 "[''x'']" "''x''"
      "snd (source_Allow 1 [] ''x'' (NewSourceLimiter 1 10 20))"
      "snd (source_Allow 2 [''x''] ''x'' (snd (source_Allow 1 [] ''x'' (NewSourceLimiter 1 10 20))))"]
  by (simp add: source_Allow_def NewSourceLimiter_def source_sweepLocked_def gm_filter_def)

text \<open>Inside one window a source gets at most \<open>limit\<close> permissions: counting from an
  entry with \<open>n\<close> recorded actions, at most \<open>limit - n\<close> further calls are allowed while the
  table stays under its eviction target.\<close>

theorem source_rate_limited:
  assumes "run source_step l es l'" and "0 < sl_limit l" and "fmlookup (sl_sources l) k = Some s"
    and "int (source_Len l + length es) \<le> sl_max l - sl_max l div 10"
    and "\<forall>(now, src, r) \<in> set es. now - ss_since s \<le> sl_window l"
  shows "int (length (filter (\<lambda>(now, src, r). src = k \<and> r) es)) \<le> max 0 (sl_limit l - ss_n s)"
  using assms by (rule source_run_count)

lemma source_stepI:
  "range_order ks (gm_filter (\<lambda>_ s. \<not> (now - ss_since s > sl_window l)) (sl_sources l)) \<Longrightarrow>
   source_step l (now, src, fst (source_Allow now ks src l)) (snd (source_Allow now ks src l))"
  by (rule source_step.intros) auto

theorem source_rate_limited_witness:
  "let l = \<lparr>sl_limit = 1, sl_window = 10, sl_max = 20,
            sl_sources = fmupd ''x'' \<lparr>ss_n = 1, ss_since = 5\<rparr> fmempty, sl_sweepAt = Some 15\<rparr>
   in int (length (filter (\<lambda>(now, src, r). src = ''x'' \<and> r) [(6 :: int, ''x'', fst (source_Allow 6 [''x''] ''x'' l))])) \<le> 0"
proof -
  let ?l = "\<lparr>sl_limit = 1, sl_window = 10, sl_max = 20,
            sl_sources = fmupd ''x'' \<lparr>ss_n = 1, ss_since = 5\<rparr> fmempty, sl_sweepAt = Some 15\<rparr>"
  have s: "source_step ?l (6, ''x'', fst (source_Allow 6 [''x''] ''x'' ?l)) (snd (source_Allow 6 [''x''] ''x'' ?l))"
    by (rule source_stepI) (auto simp: range_order_iff split: option.splits)
  have "int (length (filter (\<lambda>(now, src, r). src = ''x'' \<and> r) [(6 :: int, ''x'', fst (source_Allow 6 [''x''] ''x'' ?l))]))
      \<le> max 0 (sl_limit ?l - ss_n \<lparr>ss_n = 1, ss_since = 5\<rparr>)"
    by (rule source_rate_limited [OF run_one [of source_step, OF s]]) (auto simp: source_Len_def)
  then show ?thesis unfolding Let_def by simp
qed

text \<open>The limiter's table stays bounded under any traffic: by its configured maximum
  when that is at least ten, and by one entry more when it is smaller, because the sweep's
  target \<open>max - max/10\<close> is then the maximum itself.\<close>

theorem source_table_bounded:
  assumes "run source_step (NewSourceLimiter limit window mx) es l" and "0 < mx"
  shows "int (source_Len l) \<le> (if mx < 10 then mx + 1 else mx)"
  using source_table.run_bounded [OF NewSourceLimiter_inv assms(1)] assms(2)
  by (simp add: NewSourceLimiter_def source_cap_def split: if_splits)

text \<open>The extra entry is reached: with a maximum of one, two sources are tracked at once. The
  witness runs the limiter to that state.\<close>

theorem source_table_bounded_witness:
  "let l = snd (source_Allow 2 [''x''] ''y'' (snd (source_Allow 1 [] ''x'' (NewSourceLimiter 1 10 1))))
   in int (source_Len l) = 2 \<and> int (source_Len l) \<le> (if (1::int) < 10 then 1 + 1 else 1)"
proof -
  let ?l0 = "NewSourceLimiter 1 10 1"
  let ?l1 = "snd (source_Allow 1 [] ''x'' ?l0)"
  let ?l2 = "snd (source_Allow 2 [''x''] ''y'' ?l1)"
  have s1: "source_step ?l0 (1, ''x'', fst (source_Allow 1 [] ''x'' ?l0)) ?l1"
    by (rule source_stepI) (simp add: NewSourceLimiter_def range_order_iff)
  have s2: "source_step ?l1 (2, ''y'', fst (source_Allow 2 [''x''] ''y'' ?l1)) ?l2"
    by (rule source_stepI)
      (auto simp: NewSourceLimiter_def source_Allow_def source_sweepLocked_def range_order_iff
        gm_filter_def split: option.splits)
  have "int (source_Len ?l2) \<le> (if (1::int) < 10 then 1 + 1 else 1)"
    using source_table_bounded [OF run_two [of source_step, OF s1 s2]] by simp
  moreover have "source_Len ?l2 = 2"
    by (simp add: NewSourceLimiter_def source_Allow_def source_sweepLocked_def gm_filter_def
        source_Len_def)
  ultimately show ?thesis unfolding Let_def by simp
qed

end
