(* ===== verification/Netip.thy ===== *)
theory Netip
  imports Ntwire_Prelude
begin

text \<open>
  The part of Go's \<^verbatim>\<open>net/netip\<close> the sources use: addresses, 4-in-6 unmapping, validity,
  address-port pairs and prefixes.
\<close>

unbundle bit_operations_syntax

text \<open>\<open>IPInvalid\<close> is the zero \<open>netip.Addr\<close>; an IPv6 address carries its zone.\<close>

datatype ipAddr = IPInvalid | IP4 "32 word" | IP6 "128 word" string

datatype addrPort = AddrPort (ap_Addr: ipAddr) (ap_Port: "16 word")

definition Is4In6 :: "ipAddr \<Rightarrow> bool" where
  "Is4In6 a = (case a of IP6 w _ \<Rightarrow> drop_bit 32 w = 0xffff | _ \<Rightarrow> False)"

definition Unmap :: "ipAddr \<Rightarrow> ipAddr" where
  "Unmap a = (case a of IP6 w _ \<Rightarrow> if Is4In6 a then IP4 (ucast w) else a | _ \<Rightarrow> a)"

definition ap_IsValid :: "addrPort \<Rightarrow> bool" where
  "ap_IsValid p \<longleftrightarrow> ap_Addr p \<noteq> IPInvalid"

text \<open>A valid \<open>netip.Prefix\<close> is an address without zone and a bit count within its width;
  \<open>Contains\<close> compares the leading bits of addresses of the same family and refuses zones.\<close>

datatype ipPrefix = Prefix4 "32 word" nat | Prefix6 "128 word" nat

fun prefix_Contains :: "ipPrefix \<Rightarrow> ipAddr \<Rightarrow> bool" where
  "prefix_Contains (Prefix4 p n) (IP4 w) \<longleftrightarrow> drop_bit (32 - n) (w XOR p) = 0"
| "prefix_Contains (Prefix6 p n) (IP6 w z) \<longleftrightarrow> z = '''' \<and> drop_bit (128 - n) (w XOR p) = 0"
| "prefix_Contains _ _ \<longleftrightarrow> False"

lemma Unmap_idem: "Unmap (Unmap a) = Unmap a"
  by (cases a) (auto simp: Unmap_def Is4In6_def)

lemma unmapped_not_4in6: "Unmap (IP6 w z) = IP6 w z \<Longrightarrow> drop_bit 32 w \<noteq> 0xffff"
  by (auto simp: Unmap_def Is4In6_def)

section \<open>Address classes\<close>

definition addr_IsValid :: "ipAddr \<Rightarrow> bool" where
  "addr_IsValid a \<longleftrightarrow> a \<noteq> IPInvalid"

fun Is4 :: "ipAddr \<Rightarrow> bool" where
  "Is4 (IP4 _) \<longleftrightarrow> True"
| "Is4 _ \<longleftrightarrow> False"

fun Is6 :: "ipAddr \<Rightarrow> bool" where
  "Is6 (IP6 _ _) \<longleftrightarrow> True"
| "Is6 _ \<longleftrightarrow> False"

text \<open>Addresses read from bytes or found in a prefix: valid and without zone.\<close>

fun plain_addr :: "ipAddr \<Rightarrow> bool" where
  "plain_addr (IP4 _) = True"
| "plain_addr (IP6 _ z) = (z = [])"
| "plain_addr IPInvalid = False"

text \<open>The class tests look at the leading bits; \<open>IsUnspecified\<close> compares whole addresses, so an
  address with a zone is never unspecified. The others unmap a 4-in-6 address first (Go 1.22.4 and
  later). \<open>v6u16_0\<close> is the first 16-bit group.\<close>

definition v6u16_0 :: "128 word \<Rightarrow> 128 word" where
  "v6u16_0 w = drop_bit 112 w"

fun IsLoopback :: "ipAddr \<Rightarrow> bool" where
  "IsLoopback (IP4 w) \<longleftrightarrow> drop_bit 24 w = 127"
| "IsLoopback (IP6 w z) \<longleftrightarrow> (if drop_bit 32 w = 0xffff then drop_bit 24 (ucast w :: 32 word) = 127 else w = 1)"
| "IsLoopback IPInvalid \<longleftrightarrow> False"

definition IsUnspecified :: "ipAddr \<Rightarrow> bool" where
  "IsUnspecified a \<longleftrightarrow> a = IP4 0 \<or> a = IP6 0 ''''"

fun IsLinkLocalUnicast :: "ipAddr \<Rightarrow> bool" where
  "IsLinkLocalUnicast (IP4 w) \<longleftrightarrow> drop_bit 16 w = 0xa9fe"
| "IsLinkLocalUnicast (IP6 w z) \<longleftrightarrow>
     (if drop_bit 32 w = 0xffff then drop_bit 16 (ucast w :: 32 word) = 0xa9fe else v6u16_0 w AND 0xffc0 = 0xfe80)"
| "IsLinkLocalUnicast IPInvalid \<longleftrightarrow> False"

fun IsLinkLocalMulticast :: "ipAddr \<Rightarrow> bool" where
  "IsLinkLocalMulticast (IP4 w) \<longleftrightarrow> drop_bit 8 w = 0xe00000"
| "IsLinkLocalMulticast (IP6 w z) \<longleftrightarrow>
     (if drop_bit 32 w = 0xffff then drop_bit 8 (ucast w :: 32 word) = 0xe00000 else v6u16_0 w AND 0xff0f = 0xff02)"
| "IsLinkLocalMulticast IPInvalid \<longleftrightarrow> False"

fun IsInterfaceLocalMulticast :: "ipAddr \<Rightarrow> bool" where
  "IsInterfaceLocalMulticast (IP6 w z) \<longleftrightarrow> drop_bit 32 w \<noteq> 0xffff \<and> v6u16_0 w AND 0xff0f = 0xff01"
| "IsInterfaceLocalMulticast _ \<longleftrightarrow> False"

text \<open>\<open>Addr.Next\<close> is the zero address after the last address of a family.\<close>

fun addr_Next :: "ipAddr \<Rightarrow> ipAddr" where
  "addr_Next (IP4 w) = (if w = - 1 then IPInvalid else IP4 (w + 1))"
| "addr_Next (IP6 w z) = (if w = - 1 then IPInvalid else IP6 (w + 1) z)"
| "addr_Next IPInvalid = IPInvalid"

section \<open>Prefixes\<close>

fun prefix_Addr :: "ipPrefix \<Rightarrow> ipAddr" where
  "prefix_Addr (Prefix4 p n) = IP4 p"
| "prefix_Addr (Prefix6 p n) = IP6 p ''''"

fun prefix_Bits :: "ipPrefix \<Rightarrow> nat" where
  "prefix_Bits (Prefix4 p n) = n"
| "prefix_Bits (Prefix6 p n) = n"

fun prefix_Masked :: "ipPrefix \<Rightarrow> ipPrefix" where
  "prefix_Masked (Prefix4 p n) = Prefix4 (push_bit (32 - n) (drop_bit (32 - n) p)) n"
| "prefix_Masked (Prefix6 p n) = Prefix6 (push_bit (128 - n) (drop_bit (128 - n) p)) n"

section \<open>Textual addresses\<close>

text \<open>\<open>netip.ParseAddr\<close> and \<open>netip.ParsePrefix\<close>, on strings as lists of bytes. A dotted
  quad has four decimal fields of at most 255 without leading zeros.\<close>

definition digit_val :: "char \<Rightarrow> nat option" where
  "digit_val c = (let n = of_char c in if 48 \<le> n \<and> n \<le> 57 then Some (n - 48) else None)"

definition hex_val :: "char \<Rightarrow> nat option" where
  "hex_val c = (let n = of_char c in
     if 48 \<le> n \<and> n \<le> 57 then Some (n - 48)
     else if 97 \<le> n \<and> n \<le> 102 then Some (n - 87)
     else if 65 \<le> n \<and> n \<le> 70 then Some (n - 55) else None)"

fun decimal :: "nat \<Rightarrow> string \<Rightarrow> nat option" where
  "decimal acc [] = Some acc"
| "decimal acc (c # cs) = (case digit_val c of None \<Rightarrow> None | Some d \<Rightarrow> decimal (10 * acc + d) cs)"

text \<open>\<open>strconv.Atoi\<close>, whose range error is left to the bounds its callers check.\<close>

definition Atoi :: "string \<Rightarrow> int option" where
  "Atoi s = (let neg = (s \<noteq> [] \<and> hd s = CHR ''-'');
                 body = (if s \<noteq> [] \<and> (hd s = CHR ''+'' \<or> neg) then tl s else s)
             in if body = [] then None
                else map_option (\<lambda>n. if neg then - int n else int n) (decimal 0 body))"

text \<open>\<open>strconv.Itoa\<close> of a natural number.\<close>

fun itoa :: "nat \<Rightarrow> string" where
  "itoa n = (if n < 10 then [char_of (48 + n)] else itoa (n div 10) @ [char_of (48 + n mod 10)])"

declare itoa.simps [simp del]

definition octet :: "string \<Rightarrow> nat option" where
  "octet s = (if s = [] \<or> (hd s = CHR ''0'' \<and> 1 < length s) then None
     else case decimal 0 s of None \<Rightarrow> None | Some n \<Rightarrow> if n \<le> 255 then Some n else None)"

fun split_on :: "char \<Rightarrow> string \<Rightarrow> string list" where
  "split_on c [] = [[]]"
| "split_on c (x # xs) = (if x = c then [] # split_on c xs
     else case split_on c xs of [] \<Rightarrow> [[x]] | f # fs \<Rightarrow> (x # f) # fs)"

definition parseIPv4 :: "string \<Rightarrow> 32 word option" where
  "parseIPv4 s = (case map octet (split_on CHR ''.'' s) of
       [Some a, Some b, Some c, Some d] \<Rightarrow> Some (foldl (\<lambda>w f. push_bit 8 w OR of_nat f) 0 [a, b, c, d])
     | _ \<Rightarrow> None)"

text \<open>The IPv6 loop collects 16-bit groups; \<open>ell\<close> is the number of groups before a \<open>::\<close>.
  A group has at most four hexadecimal digits; the last two groups may be a dotted quad.\<close>

fun hex_run :: "32 word \<Rightarrow> string \<Rightarrow> 32 word \<times> string" where
  "hex_run acc [] = (acc, [])"
| "hex_run acc (c # cs) = (case hex_val c of None \<Rightarrow> (acc, c # cs) | Some d \<Rightarrow> hex_run (push_bit 4 acc + of_nat d) cs)"

fun v6_groups :: "nat \<Rightarrow> 32 word list \<Rightarrow> nat option \<Rightarrow> string \<Rightarrow> (32 word list \<times> nat option) option" where
  "v6_groups 0 gs ell s = (if s = [] then Some (gs, ell) else None)"
| "v6_groups (Suc n) gs ell s =
     (let (acc, rest) = hex_run 0 s; digits = length s - length rest in
      if digits = 0 \<or> 4 < digits then None
      else if rest \<noteq> [] \<and> hd rest = CHR ''.'' then
        (if (ell = None \<and> length gs \<noteq> 6) \<or> 6 < length gs then None
         else case parseIPv4 s of None \<Rightarrow> None
         | Some w \<Rightarrow> Some (gs @ [drop_bit 16 w, w AND 0xffff], ell))
      else if rest = [] then Some (gs @ [acc], ell)
      else if hd rest \<noteq> CHR '':'' \<or> length rest = 1 then None
      else if rest ! 1 = CHR '':'' then
        (if ell \<noteq> None then None
         else if length rest = 2 then Some (gs @ [acc], Some (length gs + 1))
         else v6_groups n (gs @ [acc]) (Some (length gs + 1)) (drop 2 rest))
      else v6_groups n (gs @ [acc]) ell (tl rest))"

definition v6_word :: "32 word list \<Rightarrow> 128 word" where
  "v6_word gs = foldl (\<lambda>w g. push_bit 16 w OR ucast g) 0 gs"

definition v6_expand :: "32 word list \<Rightarrow> nat option \<Rightarrow> 128 word option" where
  "v6_expand gs ell = (case ell of
       None \<Rightarrow> if length gs = 8 then Some (v6_word gs) else None
     | Some e \<Rightarrow> if length gs < 8
         then Some (v6_word (take e gs @ replicate (8 - length gs) 0 @ drop e gs)) else None)"

definition parseIPv6 :: "string \<Rightarrow> ipAddr option" where
  "parseIPv6 str = (let s = takeWhile (\<lambda>c. c \<noteq> CHR ''%'') str; z = drop (length s) str in
     if z \<noteq> [] \<and> length z = 1 then None
     else let zone = tl z in
       if take 2 s = ''::'' then
         (if length s = 2 then Some (IP6 0 zone)
          else case v6_groups 8 [] (Some 0) (drop 2 s) of None \<Rightarrow> None
          | Some (gs, ell) \<Rightarrow> map_option (\<lambda>w. IP6 w zone) (v6_expand gs ell))
       else case v6_groups 8 [] None s of None \<Rightarrow> None
          | Some (gs, ell) \<Rightarrow> map_option (\<lambda>w. IP6 w zone) (v6_expand gs ell))"

fun ParseAddr_from :: "string \<Rightarrow> string \<Rightarrow> ipAddr option" where
  "ParseAddr_from s [] = None"
| "ParseAddr_from s (c # cs) =
     (if c = CHR ''.'' then map_option IP4 (parseIPv4 s)
      else if c = CHR '':'' then parseIPv6 s
      else if c = CHR ''%'' then None
      else ParseAddr_from s cs)"

definition ParseAddr :: "string \<Rightarrow> ipAddr option" where
  "ParseAddr s = ParseAddr_from s s"

definition addr_zone :: "ipAddr \<Rightarrow> string" where
  "addr_zone a = (case a of IP6 w z \<Rightarrow> z | _ \<Rightarrow> [])"

text \<open>\<open>net.ParseIP\<close>: a text with a zone is not an \<open>net.IP\<close>.\<close>

definition net_ParseIP :: "string \<Rightarrow> ipAddr option" where
  "net_ParseIP s = (case ParseAddr s of
       None \<Rightarrow> None | Some a \<Rightarrow> if addr_zone a = [] then Some (Unmap a) else None)"

definition prefix_bits :: "nat \<Rightarrow> string \<Rightarrow> nat option" where
  "prefix_bits maxBits s =
     (if s = [] \<or> (1 < length s \<and> hd s = CHR ''0'') then None
      else case decimal 0 s of None \<Rightarrow> None | Some n \<Rightarrow> if n \<le> maxBits then Some n else None)"

definition ParsePrefix :: "string \<Rightarrow> ipPrefix option" where
  "ParsePrefix s =
     (if CHR ''/'' \<notin> set s then None
      else let bits = rev (takeWhile (\<lambda>c. c \<noteq> CHR ''/'') (rev s));
               addr = take (length s - length bits - 1) s in
        case ParseAddr addr of
          Some (IP4 w) \<Rightarrow> map_option (Prefix4 w) (prefix_bits 32 bits)
        | Some (IP6 w z) \<Rightarrow> if z = [] then map_option (Prefix6 w) (prefix_bits 128 bits) else None
        | _ \<Rightarrow> None)"

section \<open>Prefixes as ranges\<close>

text \<open>The reference meaning of a prefix: the addresses that agree with it above the host bits.\<close>

fun in_range :: "ipPrefix \<Rightarrow> ipAddr \<Rightarrow> bool" where
  "in_range (Prefix4 p n) (IP4 w) \<longleftrightarrow> unat w div 2 ^ (32 - n) = unat p div 2 ^ (32 - n)"
| "in_range (Prefix6 p n) (IP6 w z) \<longleftrightarrow> z = '''' \<and> unat w div 2 ^ (128 - n) = unat p div 2 ^ (128 - n)"
| "in_range _ _ \<longleftrightarrow> False"

lemma drop_bit_xor_0_iff:
  fixes a b :: "'a::len word"
  shows "drop_bit k (a XOR b) = 0 \<longleftrightarrow> unat a div 2 ^ k = unat b div 2 ^ k"
proof -
  have "drop_bit k (a XOR b) = 0 \<longleftrightarrow> drop_bit k a = drop_bit k b"
    by (simp add: drop_bit_xor bit_eq_iff bit_xor_iff)
  also have "\<dots> \<longleftrightarrow> unat (drop_bit k a) = unat (drop_bit k b)" by (simp add: word_unat_eq_iff)
  also have "\<dots> \<longleftrightarrow> unat a div 2 ^ k = unat b div 2 ^ k"
    unfolding unat_drop_bit_eq unfolding drop_bit_eq_div ..
  finally show ?thesis .
qed

lemma prefix_Contains_range: "prefix_Contains p a = in_range p a"
  by (cases p; cases a) (simp_all only: prefix_Contains.simps in_range.simps drop_bit_xor_0_iff)

lemma parse_examples:
  "ParsePrefix ''10.0.0.0/8'' = Some (Prefix4 0x0a000000 8)"
  "ParsePrefix ''fc00::/7'' = Some (Prefix6 0xfc000000000000000000000000000000 7)"
  "ParsePrefix ''::ffff:1.2.3.4/96'' = Some (Prefix6 0xffff01020304 96)"
  "ParsePrefix ''1:2:3:4:5:6:7::/64'' = Some (Prefix6 0x00010002000300040005000600070000 64)"
  "ParsePrefix ''1.02.3.4/8'' = None"
  "ParsePrefix ''1:2:3:4:5:6:7:8::/64'' = None"
  "ParsePrefix ''1.2.3.4/33'' = None"
  "ParsePrefix ''fe80::%x/10'' = None"
  by code_simp+

end
