(* ===== verification/Control_Frames.thy ===== *)
theory Control_Frames
  imports Netip
begin

text \<open>
  The control frames that share a UDP socket with WireGuard
  (\<^verbatim>\<open>pkg/wstransport/direct.go\<close>, the frame constants of \<^verbatim>\<open>multipath.go\<close>) and the path-MTU
  probes of \<^verbatim>\<open>pathmtu.go\<close>: encoders and decoders, and \<open>FilterBind\<close>, which takes the control
  frames out of a batch of received datagrams.
\<close>

section \<open>Frames\<close>

definition controlMagic :: bytes where
  "controlMagic = [0x00, 0x4e, 0x54, 0x57]"

definition FrameReflectRequest :: byte where "FrameReflectRequest = 1"
definition FrameReflectResponse :: byte where "FrameReflectResponse = 2"
definition FramePrime :: byte where "FramePrime = 3"
definition FrameRelayBind :: byte where "FrameRelayBind = 4"
definition FrameRelayBindAck :: byte where "FrameRelayBindAck = 5"
definition FrameNativeWireGuardAssociate :: byte where "FrameNativeWireGuardAssociate = 6"
definition FramePathProbe :: byte where "FramePathProbe = 6"
definition FramePathAck :: byte where "FramePathAck = 7"
definition FrameThroughputReport :: byte where "FrameThroughputReport = 8"
definition FramePathMTUProbe :: byte where "FramePathMTUProbe = 9"
definition FramePathMTUAck :: byte where "FramePathMTUAck = 10"
definition FramePathDataAck :: byte where "FramePathDataAck = 11"

lemmas frame_defs = FrameReflectRequest_def FrameReflectResponse_def FramePrime_def
  FrameRelayBind_def FrameRelayBindAck_def FrameNativeWireGuardAssociate_def FramePathProbe_def
  FramePathAck_def FrameThroughputReport_def FramePathMTUProbe_def FramePathMTUAck_def
  FramePathDataAck_def

definition pathProbeSize :: nat where "pathProbeSize = 12"
definition controlHeaderLen :: nat where "controlHeaderLen = 5"
definition MaxRelayDatagram :: nat where "MaxRelayDatagram = 1500"

definition ValidRelayDatagram :: "bytes \<Rightarrow> bool" where
  "ValidRelayDatagram b \<longleftrightarrow> length b > 0 \<and> length b \<le> MaxRelayDatagram"

definition isControlFrame :: "bytes \<Rightarrow> bool" where
  "isControlFrame b \<longleftrightarrow> length b \<ge> controlHeaderLen \<and>
     b ! 0 = controlMagic ! 0 \<and> b ! 1 = controlMagic ! 1 \<and> b ! 2 = controlMagic ! 2 \<and> b ! 3 = controlMagic ! 3"

definition EncodeControlFrame :: "byte \<Rightarrow> bytes \<Rightarrow> bytes" where
  "EncodeControlFrame typ payload = controlMagic @ [typ] @ payload"

definition DecodeControlFrame :: "bytes \<Rightarrow> (byte \<times> bytes) option" where
  "DecodeControlFrame b =
     (if \<not> isControlFrame b then None else Some (b ! 4, drop controlHeaderLen b))"

definition ValidPathControl :: "byte \<Rightarrow> bytes \<Rightarrow> bool" where
  "ValidPathControl typ payload \<longleftrightarrow>
     (typ = FramePathProbe \<or> typ = FramePathAck) \<and> length payload = pathProbeSize"

section \<open>Path-MTU probes\<close>

record pathMTUProbe =
  mp_nonce :: bytes
  mp_target :: "16 word"

definition minPathMTUProbe :: "16 word" where "minPathMTUProbe = 1200"
definition maxPathMTUProbe :: "16 word" where "maxPathMTUProbe = 1500"

definition nextPathMTUProbe :: "16 word \<Rightarrow> 16 word" where
  "nextPathMTUProbe current =
     (if current = 1200 then 1400 else if current = 1400 then of_nat MaxRelayDatagram else 0)"

text \<open>The out-of-range result \<open>nil\<close> is the empty slice.\<close>

definition EncodePathMTUProbe :: "bytes \<Rightarrow> 16 word \<Rightarrow> bytes" where
  "EncodePathMTUProbe nonce target =
     (if target < minPathMTUProbe \<or> target > maxPathMTUProbe then []
      else nonce @ put_le16 target @ replicate (unat target - controlHeaderLen - pathProbeSize - 2) 0)"

definition DecodePathMTUProbe :: "bytes \<Rightarrow> pathMTUProbe option" where
  "DecodePathMTUProbe b =
     (if length b < pathProbeSize + 2 then None
      else let target = le16 (drop pathProbeSize b)
           in if target \<ge> minPathMTUProbe \<and> target \<le> maxPathMTUProbe
                 \<and> length b = unat target - controlHeaderLen
              then Some \<lparr>mp_nonce = take pathProbeSize b, mp_target = target\<rparr> else None)"

definition EncodePathMTUAck :: "bytes \<Rightarrow> 16 word \<Rightarrow> bytes" where
  "EncodePathMTUAck nonce target = nonce @ put_le16 target"

definition DecodePathMTUAck :: "bytes \<Rightarrow> pathMTUProbe option" where
  "DecodePathMTUAck b =
     (if length b \<noteq> pathProbeSize + 2 then None
      else let target = le16 (drop pathProbeSize b)
           in if target \<ge> minPathMTUProbe \<and> target \<le> maxPathMTUProbe
              then Some \<lparr>mp_nonce = take pathProbeSize b, mp_target = target\<rparr> else None)"

text \<open>What a sender may put in a probe: a twelve-byte nonce and a target in range.\<close>

definition probe_ok :: "pathMTUProbe \<Rightarrow> bool" where
  "probe_ok p \<longleftrightarrow> length (mp_nonce p) = pathProbeSize \<and>
     minPathMTUProbe \<le> mp_target p \<and> mp_target p \<le> maxPathMTUProbe"

section \<open>FilterBind\<close>

text \<open>
  One slot of a receive batch: the caller's buffer, the received size and the source
  endpoint. The endpoint type belongs to the WireGuard library.
\<close>

record 'ep slot =
  sl_buf :: bytes
  sl_size :: nat
  sl_ep :: 'ep

definition slot_pkt :: "'ep slot \<Rightarrow> bytes" where
  "slot_pkt s = take (sl_size s) (sl_buf s)"

record controlPacket =
  cp_type :: byte
  cp_payload :: bytes
  cp_from :: addrPort

text \<open>What \<open>deliverControl\<close> does with a frame.\<close>

datatype 'ep delivery =
    ToProbeHandler byte bytes 'ep
  | ToControlHandler controlPacket
  | ToChannel controlPacket
  | Dropped

record 'ep filterBind =
  fb_hasProbeHandler :: bool
  fb_controlHandler :: "(controlPacket \<Rightarrow> bool) option"
  fb_control :: "controlPacket list" \<comment> \<open>the channel, buffered up to 32\<close>
  fb_log :: "'ep delivery list"

definition controlBuffer :: nat where "controlBuffer = 32"

definition isProbeFrame :: "byte \<Rightarrow> bool" where
  "isProbeFrame typ \<longleftrightarrow> typ = FramePathProbe \<or> typ = FramePathAck \<or> typ = FrameThroughputReport \<or>
     typ = FramePathMTUProbe \<or> typ = FramePathMTUAck \<or> typ = FramePathDataAck"

text \<open>\<open>dst\<close> is \<open>netip.ParseAddrPort(ep.DstToString())\<close>.\<close>

definition deliverControl ::
  "('ep \<Rightarrow> addrPort option) \<Rightarrow> bytes \<Rightarrow> 'ep \<Rightarrow> 'ep filterBind \<Rightarrow> 'ep filterBind" where
  "deliverControl dst b ep f =
     (let typ = b ! 4; payload = drop controlHeaderLen b in
      if isProbeFrame typ
      then f\<lparr>fb_log := fb_log f @ [if fb_hasProbeHandler f then ToProbeHandler typ payload ep else Dropped]\<rparr>
      else case dst ep of
        None \<Rightarrow> f\<lparr>fb_log := fb_log f @ [Dropped]\<rparr>
      | Some addr \<Rightarrow>
          let cp = \<lparr>cp_type = typ, cp_payload = payload, cp_from = addr\<rparr>;
              taken = (case fb_controlHandler f of None \<Rightarrow> False | Some h \<Rightarrow> h cp)
          in if taken then f\<lparr>fb_log := fb_log f @ [ToControlHandler cp]\<rparr>
             else if length (fb_control f) < controlBuffer
             then f\<lparr>fb_control := fb_control f @ [cp], fb_log := fb_log f @ [ToChannel cp]\<rparr>
             else f\<lparr>fb_log := fb_log f @ [Dropped]\<rparr>)"

text \<open>The compaction loop of \<open>wrapReceive\<close> over \<open>i = 0..n\<close>: surviving packets move down to
  slot \<open>out\<close>; \<open>copy\<close> writes into the destination's own backing array.\<close>

definition copy_into :: "bytes \<Rightarrow> bytes \<Rightarrow> bytes \<times> nat" where
  "copy_into d src = (let k = min (length d) (length src) in (take k src @ drop k d, k))"

fun filter_compact ::
  "('ep \<Rightarrow> addrPort option) \<Rightarrow> nat \<Rightarrow> nat \<Rightarrow> nat \<Rightarrow> 'ep slot list \<Rightarrow> 'ep filterBind
   \<Rightarrow> nat \<times> 'ep slot list \<times> 'ep filterBind" where
  "filter_compact dst 0 i out slots f = (out, slots, f)"
| "filter_compact dst (Suc left) i out slots f =
     (let s = slots ! i; b = slot_pkt s in
      if isControlFrame b
      then filter_compact dst left (Suc i) out slots (deliverControl dst b (sl_ep s) f)
      else if out \<noteq> i
      then (let (buf, k) = copy_into (sl_buf (slots ! out)) b
            in filter_compact dst left (Suc i) (Suc out)
                 (slots[out := \<lparr>sl_buf = buf, sl_size = k, sl_ep = sl_ep s\<rparr>]) f)
      else filter_compact dst left (Suc i) (Suc out) slots f)"

text \<open>
  The receive function: it retries the underlying read while a batch holds nothing but
  control frames. \<open>reads\<close> are the results of the underlying reads in order, an error or a
  filled batch; \<open>None\<close> means that they are used up and the call still waits.
\<close>

fun filter_receive ::
  "('ep \<Rightarrow> addrPort option) \<Rightarrow> ('err + 'ep slot list) list \<Rightarrow> 'ep filterBind
   \<Rightarrow> (('err + nat \<times> 'ep slot list) \<times> 'ep filterBind) option" where
  "filter_receive dst [] f = None"
| "filter_receive dst (Inl e # rs) f = Some (Inl e, f)"
| "filter_receive dst (Inr slots # rs) f =
     (case filter_compact dst (length slots) 0 0 slots f of
        (out, slots', f') \<Rightarrow>
          if out > 0 then Some (Inr (out, slots'), f') else filter_receive dst rs f')"

section \<open>Lemmas\<close>

lemma length_controlMagic [simp]: "length controlMagic = 4"
  by (simp add: controlMagic_def)

lemma isControlFrame_Encode [simp]: "isControlFrame (EncodeControlFrame typ payload)"
  by (simp add: isControlFrame_def EncodeControlFrame_def controlHeaderLen_def nth_append)

lemma Decode_Encode [simp]: "DecodeControlFrame (EncodeControlFrame typ payload) = Some (typ, payload)"
  by (simp add: DecodeControlFrame_def, simp add: EncodeControlFrame_def controlHeaderLen_def nth_append)

lemma length_Encode [simp]: "length (EncodeControlFrame typ payload) = controlHeaderLen + length payload"
  by (simp add: EncodeControlFrame_def controlHeaderLen_def)

interpretation control_codec: codec "\<lambda>(typ, payload). EncodeControlFrame typ payload"
  DecodeControlFrame "\<lambda>_. True"
  by unfold_locales auto

text \<open>A decoded frame is the encoding of what was decoded: the format has no slack.\<close>

lemma Encode_Decode:
  assumes "DecodeControlFrame b = Some (typ, payload)"
  shows "b = EncodeControlFrame typ payload"
proof -
  have len: "5 \<le> length b" and magic: "b ! 0 = 0" "b ! 1 = 0x4e" "b ! 2 = 0x54" "b ! 3 = 0x57"
    and tp: "typ = b ! 4" "payload = drop 5 b"
    using assms
    by (simp_all add: DecodeControlFrame_def isControlFrame_def controlHeaderLen_def controlMagic_def
        split: if_splits)
  from len obtain a0 a1 a2 a3 a4 r where "b = a0 # a1 # a2 # a3 # a4 # r"
    by (auto simp: Suc_le_length_iff eval_nat_numeral)
  with magic tp show ?thesis by (simp add: EncodeControlFrame_def controlMagic_def)
qed

lemma probe_target_unat:
  assumes "probe_ok p"
  shows "1200 \<le> unat (mp_target p)" "unat (mp_target p) \<le> 1500"
  using assms
  by (simp_all add: probe_ok_def minPathMTUProbe_def maxPathMTUProbe_def word_le_nat_alt)

lemma length_EncodePathMTUProbe:
  assumes "probe_ok p"
  shows "length (EncodePathMTUProbe (mp_nonce p) (mp_target p)) = unat (mp_target p) - controlHeaderLen"
  using assms probe_target_unat [OF assms]
  by (simp add: EncodePathMTUProbe_def probe_ok_def controlHeaderLen_def pathProbeSize_def not_less)

lemma DecodePathMTUProbe_Encode:
  assumes "probe_ok p"
  shows "DecodePathMTUProbe (EncodePathMTUProbe (mp_nonce p) (mp_target p)) = Some p"
proof -
  let ?b = "EncodePathMTUProbe (mp_nonce p) (mp_target p)"
  have ok: "length (mp_nonce p) = 12" "minPathMTUProbe \<le> mp_target p" "mp_target p \<le> maxPathMTUProbe"
    using assms by (simp_all add: probe_ok_def pathProbeSize_def)
  have "\<exists>z. ?b = mp_nonce p @ put_le16 (mp_target p) @ z"
    using ok by (simp add: EncodePathMTUProbe_def leD)
  then have "take 12 ?b = mp_nonce p" "le16 (drop 12 ?b) = mp_target p"
    using ok(1) by (auto simp: le16_put_le16)
  moreover have "length ?b = unat (mp_target p) - 5" "\<not> length ?b < 14"
    using length_EncodePathMTUProbe [OF assms] probe_target_unat [OF assms]
    by (simp_all add: controlHeaderLen_def)
  ultimately show ?thesis using ok
    by (simp add: DecodePathMTUProbe_def pathProbeSize_def controlHeaderLen_def Let_def)
qed

lemma DecodePathMTUAck_Encode:
  "probe_ok p \<Longrightarrow> DecodePathMTUAck (EncodePathMTUAck (mp_nonce p) (mp_target p)) = Some p"
  using le16_put_le16 [of "mp_target p" "[]"]
  by (auto simp: DecodePathMTUAck_def EncodePathMTUAck_def probe_ok_def Let_def)

interpretation mtu_probe: codec "\<lambda>p. EncodePathMTUProbe (mp_nonce p) (mp_target p)"
  DecodePathMTUProbe probe_ok
  by unfold_locales (rule DecodePathMTUProbe_Encode)

interpretation mtu_ack: codec "\<lambda>p. EncodePathMTUAck (mp_nonce p) (mp_target p)"
  DecodePathMTUAck probe_ok
  by unfold_locales (rule DecodePathMTUAck_Encode)

subsection \<open>The compaction loop\<close>

text \<open>What WireGuard sees of a slot, and what \<open>deliverControl\<close> does with the control frames of
  a batch, in order.\<close>

definition slot_view :: "'ep slot \<Rightarrow> bytes \<times> 'ep" where
  "slot_view s = (slot_pkt s, sl_ep s)"

definition data_part :: "'ep slot list \<Rightarrow> (bytes \<times> 'ep) list" where
  "data_part slots = filter (\<lambda>(b, _). \<not> isControlFrame b) (map slot_view slots)"

definition deliver_all :: "('ep \<Rightarrow> addrPort option) \<Rightarrow> 'ep slot list \<Rightarrow> 'ep filterBind \<Rightarrow> 'ep filterBind" where
  "deliver_all dst slots f =
     fold (\<lambda>(b, ep). deliverControl dst b ep)
       (filter (\<lambda>(b, _). isControlFrame b) (map slot_view slots)) f"

definition uniform :: "nat \<Rightarrow> 'ep slot list \<Rightarrow> bool" where
  "uniform L slots \<longleftrightarrow> (\<forall>s \<in> set slots. length (sl_buf s) = L \<and> sl_size s \<le> L)"

lemma data_part_simps [simp]:
  "data_part [] = []"
  "data_part (s # ss) = (if isControlFrame (slot_pkt s) then data_part ss else slot_view s # data_part ss)"
  by (simp_all add: data_part_def slot_view_def)

lemma deliver_all_simps [simp]:
  "deliver_all dst [] f = f"
  "deliver_all dst (s # ss) f =
     (if isControlFrame (slot_pkt s) then deliver_all dst ss (deliverControl dst (slot_pkt s) (sl_ep s) f)
      else deliver_all dst ss f)"
  by (simp_all add: deliver_all_def slot_view_def)

lemma deliver_all_append [simp]:
  "deliver_all dst (xs @ ys) f = deliver_all dst ys (deliver_all dst xs f)"
  by (simp add: deliver_all_def)

lemma copy_into_view:
  assumes "length d = L" "length b \<le> L" "copy_into d b = (buf, k)"
  shows "length buf = L" "k = length b" "take k buf = b"
  using assms by (auto simp: copy_into_def Let_def)

lemma filter_compact_view:
  "filter_compact dst left i out slots f = (out', slots', f') \<Longrightarrow> i + left = length slots \<Longrightarrow>
   out \<le> i \<Longrightarrow> uniform L slots \<Longrightarrow>
   out' = out + length (data_part (drop i slots)) \<and> out' \<le> length slots' \<and>
   map slot_view (take out' slots') = map slot_view (take out slots) @ data_part (drop i slots) \<and>
   f' = deliver_all dst (drop i slots) f"
proof (induction left arbitrary: i out slots f)
  case 0
  then show ?case by simp
next
  case (Suc left)
  let ?s = "slots ! i"
  have i: "i < length slots" using Suc.prems(2) by simp
  have drop_i: "drop i slots = ?s # drop (Suc i) slots" using i by (simp add: Cons_nth_drop_Suc)
  have us: "length (sl_buf ?s) = L" "sl_size ?s \<le> L"
    using Suc.prems(4) i by (simp_all add: uniform_def)
  show ?case
  proof (cases "isControlFrame (slot_pkt ?s)")
    case True
    with Suc.prems(1) have loop: "filter_compact dst left (Suc i) out slots
        (deliverControl dst (slot_pkt ?s) (sl_ep ?s) f) = (out', slots', f')"
      by (simp add: Let_def)
    from Suc.IH [OF loop] Suc.prems(2,3,4) True show ?thesis by (auto simp: drop_i)
  next
    case False
    obtain buf k where bk: "copy_into (sl_buf (slots ! out)) (slot_pkt ?s) = (buf, k)"
      by fastforce
    define t where "t = \<lparr>sl_buf = buf, sl_size = k, sl_ep = sl_ep ?s\<rparr>"
    define slots2 where "slots2 = (if out \<noteq> i then slots[out := t] else slots)"
    have loop: "filter_compact dst left (Suc i) (Suc out) slots2 f = (out', slots', f')"
      using Suc.prems(1) False
      by (auto simp: Let_def slots2_def t_def bk split: if_splits prod.splits)
    have "length (sl_buf (slots ! out)) = L" "length (slot_pkt ?s) \<le> L"
      using Suc.prems(3,4) i us by (simp_all add: uniform_def slot_pkt_def)
    from copy_into_view [OF this bk] have tv: "slot_view t = slot_view ?s"
      "length (sl_buf t) = L" "sl_size t \<le> L"
      by (simp_all add: t_def slot_view_def slot_pkt_def us)
    have len2: "length slots2 = length slots" and d2: "drop (Suc i) slots2 = drop (Suc i) slots"
      and u2: "uniform L slots2"
      and t2: "map slot_view (take (Suc out) slots2) = map slot_view (take out slots) @ [slot_view ?s]"
      using Suc.prems(3,4) i tv
      by (auto simp: slots2_def uniform_def take_Suc_conv_app_nth dest: set_update_subset_insert [THEN subsetD])
    from Suc.IH [OF loop] Suc.prems(2,3) u2 False show ?thesis
      by (auto simp: len2 d2 t2 drop_i)
  qed
qed

text \<open>
  FilterBind hands WireGuard exactly the datagrams that are not control frames, in their
  order and with their sources, packed from slot 0; batches of control frames alone are never
  reported; and every control frame of the consumed batches is delivered, in order.
\<close>

theorem filter_receive_dense:
  assumes "filter_receive dst reads f = Some (Inr (out, slots'), f')"
    and "\<forall>slots. Inr slots \<in> set reads \<longrightarrow> uniform L slots"
  shows "\<exists>pre slots post. reads = map Inr pre @ Inr slots # post \<and> 0 < out \<and>
    (\<forall>b \<in> set pre. data_part b = []) \<and>
    map slot_view (take out slots') = data_part slots \<and>
    f' = deliver_all dst (concat pre @ slots) f"
  using assms
proof (induction dst reads f rule: filter_receive.induct)
  case (1 dst f)
  then show ?case by simp
next
  case (2 dst e rs f)
  then show ?case by simp
next
  case (3 dst slots rs f)
  obtain out1 s1 f1 where c: "filter_compact dst (length slots) 0 0 slots f = (out1, s1, f1)"
    by (metis prod_cases3)
  have u: "uniform L slots" using "3.prems"(2) by simp
  note v = filter_compact_view [OF c _ _ u]
  show ?case
  proof (cases "out1 > 0")
    case True
    with "3.prems" c v have "reads = reads" "map slot_view (take out slots') = data_part slots"
      "f' = deliver_all dst slots f" "0 < out" by auto
    then show ?thesis by (intro exI [of _ "[]"] exI [of _ slots] exI [of _ rs]) simp
  next
    case False
    with "3.prems" c have "filter_receive dst rs f1 = Some (Inr (out, slots'), f')" by simp
    with "3.IH" [OF c [symmetric] _ _ ] c False "3.prems"(2) obtain pre s2 post where
      "rs = map Inr pre @ Inr s2 # post" "0 < out" "\<forall>b \<in> set pre. data_part b = []"
      "map slot_view (take out slots') = data_part s2" "f' = deliver_all dst (concat pre @ s2) f1"
      by auto
    with v False show ?thesis
      by (intro exI [of _ "slots # pre"] exI [of _ s2] exI [of _ post])
        auto
  qed
qed

theorem filter_receive_dense_witness:
  "let ctl = \<lparr>sl_buf = [0, 0x4e, 0x54, 0x57, 7], sl_size = 5, sl_ep = ()\<rparr>;
       dat = \<lparr>sl_buf = [4, 0, 0, 0, 1], sl_size = 5, sl_ep = ()\<rparr>;
       f = \<lparr>fb_hasProbeHandler = True, fb_controlHandler = None, fb_control = [], fb_log = []\<rparr>;
       reads = ([Inr [ctl], Inr [ctl, dat]] :: (unit + unit slot list) list)
   in \<exists>pre slots post. reads = map Inr pre @ Inr slots # post \<and> 0 < (1::nat) \<and>
        (\<forall>b \<in> set pre. data_part b = []) \<and>
        map slot_view (take 1 [dat, dat]) = data_part slots \<and>
        f\<lparr>fb_log := [ToProbeHandler 7 [] (), ToProbeHandler 7 [] ()]\<rparr> = deliver_all (\<lambda>_. None) (concat pre @ slots) f"
proof -
  let ?ctl = "\<lparr>sl_buf = [0, 0x4e, 0x54, 0x57, 7], sl_size = 5, sl_ep = ()\<rparr>"
  let ?dat = "\<lparr>sl_buf = [4, 0, 0, 0, 1], sl_size = 5, sl_ep = ()\<rparr>"
  let ?f = "\<lparr>fb_hasProbeHandler = True, fb_controlHandler = None, fb_control = [], fb_log = []\<rparr>"
  let ?f' = "?f\<lparr>fb_log := [ToProbeHandler 7 [] (), ToProbeHandler 7 [] ()]\<rparr>"
  let ?reads = "[Inr [?ctl], Inr [?ctl, ?dat]] :: (unit + unit slot list) list"
  have "filter_receive (\<lambda>_. None) ?reads ?f = Some (Inr (1, [?dat, ?dat]), ?f')"
    by (simp add: slot_pkt_def isControlFrame_def controlHeaderLen_def controlMagic_def
        deliverControl_def isProbeFrame_def frame_defs copy_into_def Let_def)
  from filter_receive_dense [OF this, of 5] show ?thesis
    unfolding Let_def by (simp add: uniform_def)
qed

text \<open>
  The control-frame format is exact: a datagram decodes to a type and a payload if and
  only if it is their encoding, so decoding inverts encoding and no other byte string is taken
  for a control frame.
\<close>

theorem control_frame_exact:
  "DecodeControlFrame b = Some (t, p) \<longleftrightarrow> b = EncodeControlFrame t p"
  using Encode_Decode by auto

text \<open>
  A path-MTU probe is the datagram it claims to measure: the control frame of a valid probe
  is exactly \<open>target\<close> bytes long, it decodes to the nonce and target sent, and the echoed
  acknowledgement decodes to the same pair and is shorter than the probe, so that answering
  a probe never amplifies.
\<close>

theorem mtu_probe_exchange:
  assumes "probe_ok p"
  shows "length (EncodeControlFrame FramePathMTUProbe (EncodePathMTUProbe (mp_nonce p) (mp_target p))) = unat (mp_target p) \<and>
    DecodePathMTUProbe (EncodePathMTUProbe (mp_nonce p) (mp_target p)) = Some p \<and>
    DecodePathMTUAck (EncodePathMTUAck (mp_nonce p) (mp_target p)) = Some p \<and>
    length (EncodeControlFrame FramePathMTUAck (EncodePathMTUAck (mp_nonce p) (mp_target p)))
      < length (EncodeControlFrame FramePathMTUProbe (EncodePathMTUProbe (mp_nonce p) (mp_target p)))"
  using length_EncodePathMTUProbe [OF assms] probe_target_unat [OF assms] assms
    mtu_probe.dec_enc [OF assms] mtu_ack.dec_enc [OF assms]
  by (auto simp: controlHeaderLen_def EncodePathMTUAck_def probe_ok_def pathProbeSize_def)

theorem mtu_probe_exchange_witness:
  "length (EncodeControlFrame FramePathMTUProbe (EncodePathMTUProbe (replicate 12 1) 1400)) = 1400"
  using mtu_probe_exchange [of "\<lparr>mp_nonce = replicate 12 1, mp_target = 1400\<rparr>"]
  by (simp add: probe_ok_def pathProbeSize_def minPathMTUProbe_def maxPathMTUProbe_def)

end
