(* ===== verification/Sni.thy ===== *)
theory Sni
  imports Ntwire_Prelude
begin

text \<open>
  \<^verbatim>\<open>pkg/relay/sni.go\<close>: the relay reads TLS records off a connection until a ClientHello is
  complete, takes the server name out of it and keeps every consumed byte for replay. The
  reader is the list of bytes still to come; every index and slice expression of the source is
  a \<open>go_index\<close> or \<open>go_slice\<close>, so that a run-time panic would be the outcome \<open>Panic\<close>.
\<close>

section \<open>Errors and constants\<close>

datatype skipError = TruncatedPrefix | TruncatedValue

datatype sniError =
    ReadHeader | NotHandshake byte | TooManyRecords | TooManyBytes | ReadPayload
  | NotClientHello byte | HelloTooShort
  | SessionId skipError | CipherSuites skipError | CompressionMethods skipError
  | ExtensionsLength | ExtensionsBody | ExtensionHeader | ExtensionBody
  | ServerNameTruncated | ServerNameList | ServerNameEntry | ServerNameHost

definition maxClientHelloRecords :: nat where "maxClientHelloRecords = 4"
definition maxClientHelloBytes :: nat where "maxClientHelloBytes = 16 * 1024"
definition recordTypeHandshake :: byte where "recordTypeHandshake = 0x16"
definition handshakeTypeClient :: byte where "handshakeTypeClient = 1"
definition extensionServerName :: nat where "extensionServerName = 0"
definition serverNameTypeHost :: byte where "serverNameTypeHost = 0"
definition tlsRecordHeaderSize :: nat where "tlsRecordHeaderSize = 5"
definition handshakeHeaderSize :: nat where "handshakeHeaderSize = 4"

lemmas sni_consts = maxClientHelloRecords_def maxClientHelloBytes_def recordTypeHandshake_def
  handshakeTypeClient_def extensionServerName_def serverNameTypeHost_def tlsRecordHeaderSize_def
  handshakeHeaderSize_def

section \<open>Strings\<close>

text \<open>
  \<open>strings.ToLower\<close> maps ASCII letters byte by byte; a string with a byte above 127 goes
  through the Unicode tables, the parameter \<open>uni\<close>.
\<close>

definition ascii_lower :: "byte \<Rightarrow> byte" where
  "ascii_lower c = (if 0x41 \<le> c \<and> c \<le> 0x5a then c + 0x20 else c)"

definition toLower :: "(bytes \<Rightarrow> bytes) \<Rightarrow> bytes \<Rightarrow> bytes" where
  "toLower uni s = (if list_all (\<lambda>c. c < 0x80) s then map ascii_lower s else uni s)"

definition trimSuffixDot :: "bytes \<Rightarrow> bytes" where
  "trimSuffixDot s = (if s \<noteq> [] \<and> last s = 0x2e then butlast s else s)"

definition normalizeSNI :: "(bytes \<Rightarrow> bytes) \<Rightarrow> bytes \<Rightarrow> bytes" where
  "normalizeSNI uni s = trimSuffixDot (toLower uni s)"

section \<open>The ClientHello body\<close>

fun prefix_value :: "bytes \<Rightarrow> nat \<Rightarrow> nat \<Rightarrow> nat" where
  "prefix_value b 0 n = n"
| "prefix_value b (Suc k) n = (case b of [] \<Rightarrow> n | x # xs \<Rightarrow> prefix_value xs k (n * 256 + unat x))"

definition skipLengthPrefixed :: "bytes \<Rightarrow> nat \<Rightarrow> (skipError, bytes) outcome" where
  "skipLengthPrefixed b prefixLen =
     (if length b < prefixLen then Err TruncatedPrefix
      else let n = prefix_value b prefixLen 0 in
        obind (go_slice b prefixLen (length b)) (\<lambda>b.
          if length b < n then Err TruncatedValue else go_slice b n (length b)))"

fun map_err :: "('d \<Rightarrow> 'e) \<Rightarrow> ('d, 'a) outcome \<Rightarrow> ('e, 'a) outcome" where
  "map_err f (Ok x) = Ok x"
| "map_err f (Err e) = Err (f e)"
| "map_err f Panic = Panic"

text \<open>\<open>binary.BigEndian.Uint16(b[i:i+2])\<close>.\<close>

definition be16_at :: "bytes \<Rightarrow> nat \<Rightarrow> ('e, nat) outcome" where
  "be16_at b i = obind (go_index b i) (\<lambda>x. obind (go_index b (i + 1)) (\<lambda>y. Ok (be16 x y)))"

function server_name_loop :: "(bytes \<Rightarrow> bytes) \<Rightarrow> bytes \<Rightarrow> (sniError, bytes) outcome" where
  "server_name_loop uni data =
     (if length data = 0 then Ok []
      else if length data < 3 then Err ServerNameEntry
      else obind (go_index data 0) (\<lambda>nameType.
        obind (be16_at data 1) (\<lambda>nameLen.
        (let data = drop 3 data in
          if length data < nameLen then Err ServerNameHost
          else obind (go_slice data 0 nameLen) (\<lambda>name.
            if nameType \<noteq> serverNameTypeHost then server_name_loop uni (drop nameLen data)
            else Ok (normalizeSNI uni name))))))"
  by pat_completeness auto
termination
  by (relation "measure (\<lambda>(uni, data). length data)") auto

definition parseServerNameExtension :: "(bytes \<Rightarrow> bytes) \<Rightarrow> bytes \<Rightarrow> (sniError, bytes) outcome" where
  "parseServerNameExtension uni data =
     (if length data < 2 then Err ServerNameTruncated
      else obind (be16_at data 0) (\<lambda>listLen.
        obind (go_slice data 2 (length data)) (\<lambda>data.
          if length data < listLen then Err ServerNameList
          else obind (go_slice data 0 listLen) (server_name_loop uni))))"

function extension_loop :: "(bytes \<Rightarrow> bytes) \<Rightarrow> bytes \<Rightarrow> (sniError, bytes) outcome" where
  "extension_loop uni extensions =
     (if length extensions = 0 then Ok []
      else if length extensions < 4 then Err ExtensionHeader
      else obind (be16_at extensions 0) (\<lambda>extType.
        obind (be16_at extensions 2) (\<lambda>extDataLen.
        (let extensions = drop 4 extensions in
          if length extensions < extDataLen then Err ExtensionBody
          else obind (go_slice extensions 0 extDataLen) (\<lambda>data.
            if extType \<noteq> extensionServerName then extension_loop uni (drop extDataLen extensions)
            else parseServerNameExtension uni data)))))"
  by pat_completeness auto
termination
  by (relation "measure (\<lambda>(uni, e). length e)") auto

declare server_name_loop.simps [simp del] extension_loop.simps [simp del]

definition parseExtensions :: "(bytes \<Rightarrow> bytes) \<Rightarrow> bytes \<Rightarrow> (sniError, bytes) outcome" where
  "parseExtensions uni b =
     (if length b = 0 then Ok []
      else if length b < 2 then Err ExtensionsLength
      else obind (be16_at b 0) (\<lambda>extLen.
        obind (go_slice b 2 (length b)) (\<lambda>b.
          if length b < extLen then Err ExtensionsBody
          else obind (go_slice b 0 extLen) (extension_loop uni))))"

definition parseClientHelloServerName :: "(bytes \<Rightarrow> bytes) \<Rightarrow> bytes \<Rightarrow> (sniError, bytes) outcome" where
  "parseClientHelloServerName uni b =
     (if length b < 34 then Err HelloTooShort
      else obind (go_slice b 34 (length b)) (\<lambda>b.
        obind (map_err SessionId (skipLengthPrefixed b 1)) (\<lambda>b.
        obind (map_err CipherSuites (skipLengthPrefixed b 2)) (\<lambda>b.
        obind (map_err CompressionMethods (skipLengthPrefixed b 1)) (parseExtensions uni)))))"

section \<open>The record layer\<close>

text \<open>\<open>io.ReadFull\<close> of \<open>n\<close> bytes: what it read and the reader after it, or a short read.\<close>

definition readFull :: "nat \<Rightarrow> bytes \<Rightarrow> (bytes \<times> bytes) option" where
  "readFull n r = (if length r < n then None else Some (take n r, drop n r))"

text \<open>
  One pass of the loop of \<open>peekClientHello\<close> reads one record. The state is the reader, the raw
  bytes, the handshake bytes and the record count; on success the unread input is returned too.
\<close>

function peek_loop ::
  "(bytes \<Rightarrow> bytes) \<Rightarrow> bytes \<Rightarrow> bytes \<Rightarrow> bytes \<Rightarrow> nat \<Rightarrow> (sniError, bytes \<times> bytes \<times> bytes) outcome" where
  "peek_loop uni r buf msg records =
     (case readFull tlsRecordHeaderSize r of
        None \<Rightarrow> Err ReadHeader
      | Some (header, r1) \<Rightarrow>
          if header ! 0 \<noteq> recordTypeHandshake then Err (NotHandshake (header ! 0))
          else let len = be16 (header ! 3) (header ! 4) in
            if records + 1 > maxClientHelloRecords then Err TooManyRecords
            else if length buf + tlsRecordHeaderSize + len > maxClientHelloBytes then Err TooManyBytes
            else (case readFull len r1 of
                None \<Rightarrow> Err ReadPayload
              | Some (payload, r2) \<Rightarrow>
                  let buf = buf @ header @ payload; msg = msg @ payload in
                  if length msg < handshakeHeaderSize then peek_loop uni r2 buf msg (records + 1)
                  else obind (go_index msg 0) (\<lambda>b0.
                    if b0 \<noteq> handshakeTypeClient then Err (NotClientHello b0)
                    else obind (go_index msg 1) (\<lambda>b1.
                      obind (go_index msg 2) (\<lambda>b2.
                      obind (go_index msg 3) (\<lambda>b3.
                      (let msgLen = unat b1 * 65536 + unat b2 * 256 + unat b3 in
                       if length msg < handshakeHeaderSize + msgLen
                       then peek_loop uni r2 buf msg (records + 1)
                       else obind (go_slice msg handshakeHeaderSize (handshakeHeaderSize + msgLen)) (\<lambda>body.
                         obind (parseClientHelloServerName uni body) (\<lambda>sni. Ok (sni, buf, r2))))))))))"
  by pat_completeness auto
termination
  by (relation "measure (\<lambda>(uni, r, buf, msg, records). maxClientHelloRecords - records)") auto

declare peek_loop.simps [simp del]

definition peekClientHello ::
  "(bytes \<Rightarrow> bytes) \<Rightarrow> bytes \<Rightarrow> (sniError, bytes \<times> bytes \<times> bytes) outcome" where
  "peekClientHello uni r = peek_loop uni r [] [] 0"

section \<open>No panics\<close>

lemma go_slice_ok: "i \<le> j \<Longrightarrow> j \<le> length b \<Longrightarrow> go_slice b i j = Ok (take (j - i) (drop i b))"
  by (simp add: go_slice_def)

lemma be16_at_ok: "i + 1 < length b \<Longrightarrow> be16_at b i = Ok (be16 (b ! i) (b ! (i + 1)))"
  by (simp add: be16_at_def go_index_def)

lemma map_err_Panic [simp]: "map_err f m = Panic \<longleftrightarrow> m = Panic"
  by (cases m) auto

lemma map_err_Ok [simp]: "map_err f m = Ok x \<longleftrightarrow> m = Ok x"
  by (cases m) auto

lemma skip_no_panic [simp]: "skipLengthPrefixed b k \<noteq> Panic"
  by (auto simp: skipLengthPrefixed_def go_slice_def obind_Panic_iff Let_def split: if_splits)

lemma server_name_no_panic [simp]: "server_name_loop uni data \<noteq> Panic"
proof (induction uni data rule: server_name_loop.induct)
  case (1 uni data)
  then show ?case
    by (subst server_name_loop.simps)
      (auto simp: obind_Panic_iff be16_at_def go_index_def go_slice_def Let_def)
qed

lemma parseServerName_no_panic [simp]: "parseServerNameExtension uni data \<noteq> Panic"
  by (auto simp: parseServerNameExtension_def be16_at_ok go_slice_ok)

lemma extension_no_panic [simp]: "extension_loop uni e \<noteq> Panic"
proof (induction uni e rule: extension_loop.induct)
  case (1 uni e)
  then show ?case
    by (subst extension_loop.simps)
      (auto simp: obind_Panic_iff be16_at_def go_index_def go_slice_def Let_def)
qed

lemma parse_no_panic [simp]: "parseClientHelloServerName uni b \<noteq> Panic"
  by (auto simp: parseClientHelloServerName_def parseExtensions_def go_slice_ok be16_at_ok
      obind_Panic_iff split: if_splits)

lemma peek_no_panic: "peek_loop uni r buf msg records \<noteq> Panic"
proof (induction uni r buf msg records rule: peek_loop.induct)
  case (1 uni r buf msg records)
  then show ?case
    by (subst peek_loop.simps)
      (auto simp: obind_Panic_iff go_index_def go_slice_def Let_def sni_consts
        split: option.splits)
qed

section \<open>What a successful peek consumed\<close>

text \<open>One successful pass: a whole record moves from the reader to the raw bytes.\<close>

lemma peek_pass:
  assumes "peek_loop uni r buf msg records = Ok res"
  shows "\<exists>rec payload r2. r = rec @ payload @ r2 \<and> length rec = tlsRecordHeaderSize \<and>
     length (buf @ rec @ payload) \<le> maxClientHelloBytes \<and> records < maxClientHelloRecords \<and>
     (peek_loop uni r2 (buf @ rec @ payload) (msg @ payload) (records + 1) = Ok res \<or>
      (\<exists>sni. res = (sni, buf @ rec @ payload, r2)))"
proof -
  let ?h = "take tlsRecordHeaderSize r" and ?r1 = "drop tlsRecordHeaderSize r"
  let ?len = "be16 (?h ! 3) (?h ! 4)"
  let ?buf = "buf @ ?h @ take ?len ?r1" and ?msg = "msg @ take ?len ?r1"
  have rd: "tlsRecordHeaderSize \<le> length r" "?len \<le> length ?r1" "records < maxClientHelloRecords"
    and size: "length buf + tlsRecordHeaderSize + ?len \<le> maxClientHelloBytes"
    using assms
    by (subst (asm) peek_loop.simps, auto simp: readFull_def Let_def split: if_splits)+
  have "peek_loop uni (drop ?len ?r1) ?buf ?msg (records + 1) = Ok res \<or>
      (\<exists>sni. res = (sni, ?buf, drop ?len ?r1))"
    using assms rd
    by (subst (asm) peek_loop.simps) (auto simp: readFull_def Let_def obind_Ok_iff split: if_splits)
  moreover have "r = ?h @ take ?len ?r1 @ drop ?len ?r1" by (simp only: append_take_drop_id)
  ultimately show ?thesis using rd size
    by (intro exI [of _ ?h] exI [of _ "take ?len ?r1"] exI [of _ "drop ?len ?r1"]) auto
qed

lemma peek_replay:
  "peek_loop uni r buf msg records = Ok (sni, raw, rest) \<Longrightarrow>
   buf @ r = raw @ rest \<and> length raw \<le> maxClientHelloBytes"
proof (induction "maxClientHelloRecords - records" arbitrary: r buf msg records)
  case 0
  then show ?case using peek_pass [OF 0(2)] by auto
next
  case (Suc n)
  from peek_pass [OF Suc.prems] obtain h p r2 where
    r: "r = h @ p @ r2" and len: "length (buf @ h @ p) \<le> maxClientHelloBytes"
    and alt: "peek_loop uni r2 (buf @ h @ p) (msg @ p) (records + 1) = Ok (sni, raw, rest) \<or>
      (\<exists>s. (sni, raw, rest) = (s, buf @ h @ p, r2))"
    by blast
  have n: "n = maxClientHelloRecords - (records + 1)" using Suc.hyps(2) by simp
  from alt show ?case
  proof
    assume "peek_loop uni r2 (buf @ h @ p) (msg @ p) (records + 1) = Ok (sni, raw, rest)"
    from Suc.hyps(1) [OF n this] show ?thesis by (simp add: r)
  next
    assume "\<exists>s. (sni, raw, rest) = (s, buf @ h @ p, r2)"
    then show ?thesis using len by (simp add: r)
  qed
qed

section \<open>Well-formed ClientHellos\<close>

text \<open>
  The layout TLS gives a ClientHello: version and random, three length-prefixed fields and the
  extension block; the server-name extension holds one host-name entry. \<open>put_be16\<close> writes a
  two-byte length.
\<close>

definition put_be16 :: "nat \<Rightarrow> bytes" where
  "put_be16 n = [of_nat (n div 256), of_nat (n mod 256)]"

definition tls_extension :: "nat \<times> bytes \<Rightarrow> bytes" where
  "tls_extension e = put_be16 (fst e) @ put_be16 (length (snd e)) @ snd e"

definition sni_extension :: "bytes \<Rightarrow> nat \<times> bytes" where
  "sni_extension host =
     (extensionServerName,
      put_be16 (length host + 3) @ [serverNameTypeHost] @ put_be16 (length host) @ host)"

definition client_hello ::
  "bytes \<Rightarrow> bytes \<Rightarrow> bytes \<Rightarrow> bytes \<Rightarrow> (nat \<times> bytes) list \<Rightarrow> bytes" where
  "client_hello start sid ciphers comps exts =
     start @ [of_nat (length sid)] @ sid @ put_be16 (length ciphers) @ ciphers
     @ [of_nat (length comps)] @ comps
     @ put_be16 (length (concat (map tls_extension exts))) @ concat (map tls_extension exts)"

definition hello_ok :: "bytes \<Rightarrow> bytes \<Rightarrow> bytes \<Rightarrow> bytes \<Rightarrow> (nat \<times> bytes) list \<Rightarrow> bool" where
  "hello_ok start sid ciphers comps exts \<longleftrightarrow>
     length start = 34 \<and> length sid < 256 \<and> length ciphers < 65536 \<and> length comps < 256 \<and>
     length (concat (map tls_extension exts)) < 65536 \<and> (\<forall>e \<in> set exts. fst e < 65536)"

text \<open>A handshake message and its fragments as TLS records.\<close>

definition handshake :: "bytes \<Rightarrow> bytes" where
  "handshake body =
     [handshakeTypeClient, of_nat (length body div 65536), of_nat (length body div 256 mod 256),
      of_nat (length body mod 256)] @ body"

definition tls_record :: "bytes \<Rightarrow> bytes" where
  "tls_record p = [recordTypeHandshake, 3, 1] @ put_be16 (length p) @ p"

lemma unat_small: "n < 256 \<Longrightarrow> unat (of_nat n :: byte) = n"
  by (simp add: unat_of_nat)

lemma be16_put [simp]:
  "n < 65536 \<Longrightarrow> be16 (of_nat (n div 256)) (of_nat (n mod 256)) = n"
  by (simp add: be16_def unat_small unat_of_nat)

lemma length_put_be16 [simp]: "length (put_be16 n) = 2"
  by (simp add: put_be16_def)

lemma skip1: "length v < 256 \<Longrightarrow> skipLengthPrefixed (of_nat (length v) # v @ b) 1 = Ok b"
  by (simp add: skipLengthPrefixed_def go_slice_def unat_small Let_def)

lemma skip2: "length v < 65536 \<Longrightarrow> skipLengthPrefixed (put_be16 (length v) @ v @ b) 2 = Ok b"
  by (simp add: skipLengthPrefixed_def go_slice_def put_be16_def Let_def numeral_2_eq_2
      unat_small unat_of_nat)

lemma server_name_entry:
  assumes "length host < 65536"
  shows "server_name_loop uni (serverNameTypeHost # put_be16 (length host) @ host) = Ok (normalizeSNI uni host)"
  using assms
  by (subst server_name_loop.simps)
    (simp add: put_be16_def be16_at_def go_index_def go_slice_def Let_def numeral_2_eq_2 numeral_3_eq_3)

lemma parse_sni_extension:
  assumes "length host + 5 < 65536"
  shows "parseServerNameExtension uni (snd (sni_extension host)) = Ok (normalizeSNI uni host)"
proof -
  have "parseServerNameExtension uni (put_be16 (length d) @ d) = server_name_loop uni d"
    if "length d < 65536" for d
    using that
    by (simp add: parseServerNameExtension_def put_be16_def be16_at_def go_index_def go_slice_def)
  from this [of "serverNameTypeHost # put_be16 (length host) @ host"] server_name_entry [of host uni] assms
  show ?thesis by (simp add: sni_extension_def numeral_3_eq_3)
qed

lemma extension_loop_Cons:
  assumes "fst e < 65536" "length (snd e) < 65536"
  shows "extension_loop uni (tls_extension e @ r) =
    (if fst e = extensionServerName then parseServerNameExtension uni (snd e) else extension_loop uni r)"
proof -
  let ?x = "tls_extension e @ r"
  have "be16_at ?x 0 = (Ok (fst e) :: (sniError, nat) outcome)"
    "be16_at ?x 2 = (Ok (length (snd e)) :: (sniError, nat) outcome)"
    "drop 4 ?x = snd e @ r" "length ?x = 4 + length (snd e @ r)"
    using assms by (simp_all add: tls_extension_def put_be16_def be16_at_def go_index_def)
  then show ?thesis by (subst extension_loop.simps) (simp add: go_slice_def Let_def)
qed

lemma extension_loop_skip:
  "\<forall>e \<in> set pre. fst e < 65536 \<and> fst e \<noteq> extensionServerName \<and> length (snd e) < 65536 \<Longrightarrow>
   extension_loop uni (concat (map tls_extension pre) @ r) = extension_loop uni r"
  by (induction pre) (auto simp: extension_loop_Cons)

lemma ext_length_le: "e \<in> set exts \<Longrightarrow> length (snd e) \<le> length (concat (map tls_extension exts))"
proof (induction exts)
  case Nil
  then show ?case by simp
next
  case (Cons a exts)
  then show ?case by (auto simp: tls_extension_def)
qed

lemma parse_client_hello_exts:
  assumes "hello_ok start sid ciphers comps exts"
  shows "parseClientHelloServerName uni (client_hello start sid ciphers comps exts) =
    parseExtensions uni (put_be16 (length (concat (map tls_extension exts))) @ concat (map tls_extension exts))"
  using assms skip1 [of sid] skip2 [of ciphers] skip1 [of comps]
  by (simp add: parseClientHelloServerName_def client_hello_def hello_ok_def go_slice_def)

lemma parse_extension_block:
  assumes "length b < 65536"
  shows "parseExtensions uni (put_be16 (length b) @ b) = extension_loop uni b"
  using assms by (simp add: parseExtensions_def put_be16_def be16_at_def go_index_def go_slice_def)

lemma parse_client_hello:
  assumes ok: "hello_ok start sid ciphers comps (pre @ sni_extension host # post)"
    and first: "\<forall>e \<in> set pre. fst e \<noteq> extensionServerName"
  shows "parseClientHelloServerName uni (client_hello start sid ciphers comps (pre @ sni_extension host # post))
    = Ok (normalizeSNI uni host)"
proof -
  let ?exts = "pre @ sni_extension host # post"
  have len: "length (concat (map tls_extension ?exts)) < 65536"
    using ok by (simp add: hello_ok_def)
  have small: "fst e < 65536 \<and> length (snd e) < 65536" if "e \<in> set ?exts" for e
    using ok that ext_length_le [OF that] len unfolding hello_ok_def by (meson le_less_trans)
  have "length host + 5 < 65536" using small [of "sni_extension host"] by (simp add: sni_extension_def)
  then have host: "parseServerNameExtension uni (snd (sni_extension host)) = Ok (normalizeSNI uni host)"
    by (rule parse_sni_extension)
  have "extension_loop uni (concat (map tls_extension ?exts)) =
      extension_loop uni (tls_extension (sni_extension host) @ concat (map tls_extension post))"
    using extension_loop_skip [of pre uni] small first by simp
  also have "\<dots> = Ok (normalizeSNI uni host)"
    using small [of "sni_extension host"] host by (simp add: extension_loop_Cons sni_extension_def)
  finally show ?thesis using parse_client_hello_exts [OF ok] parse_extension_block [OF len] by simp
qed

subsection \<open>Fragmentation\<close>

lemma handshake_length: "length (handshake body) = 4 + length body"
  by (simp add: handshake_def)

lemma three_bytes:
  fixes n :: nat
  shows "n div 65536 * 65536 + n div 256 mod 256 * 256 + n mod 256 = n"
proof -
  have "n div 65536 * 65536 + n div 256 mod 256 * 256 = (n div 256 div 256 * 256 + n div 256 mod 256) * 256"
    by (simp add: div_mult2_eq [symmetric])
  then show ?thesis by simp
qed

lemma handshake_msgLen:
  assumes "length body < 16777216" "4 \<le> length msg" "msg = take (length msg) (handshake body)"
  shows "msg ! 0 = handshakeTypeClient"
    and "unat (msg ! 1) * 65536 + unat (msg ! 2) * 256 + unat (msg ! 3) = length body"
proof -
  have nth: "i < 4 \<Longrightarrow> msg ! i = handshake body ! i" for i
    using assms(2,3) by (metis less_le_trans nth_take)
  show "msg ! 0 = handshakeTypeClient" using nth [of 0] by (simp add: handshake_def)
  have "length body div 65536 < 256" using assms(1) by simp
  then have "unat (msg ! 1) = length body div 65536" "unat (msg ! 2) = length body div 256 mod 256"
    "unat (msg ! 3) = length body mod 256"
    using nth [of 1] nth [of 2] nth [of 3] by (simp_all add: handshake_def unat_small)
  then show "unat (msg ! 1) * 65536 + unat (msg ! 2) * 256 + unat (msg ! 3) = length body"
    by (simp add: three_bytes)
qed

text \<open>
  The loop over the records of a fragmented message: it goes on while the message is
  incomplete and parses the body once the last fragment is in.
\<close>

lemma peek_record:
  assumes "length p < 65536" "records < maxClientHelloRecords"
    and "length buf + tlsRecordHeaderSize + length p \<le> maxClientHelloBytes"
  shows "peek_loop uni (tls_record p @ r) buf msg records =
    (let buf = buf @ tls_record p; msg = msg @ p in
     if length msg < handshakeHeaderSize then peek_loop uni r buf msg (records + 1)
     else if msg ! 0 \<noteq> handshakeTypeClient then Err (NotClientHello (msg ! 0))
     else let msgLen = unat (msg ! 1) * 65536 + unat (msg ! 2) * 256 + unat (msg ! 3) in
       if length msg < handshakeHeaderSize + msgLen then peek_loop uni r buf msg (records + 1)
       else obind (parseClientHelloServerName uni (take msgLen (drop handshakeHeaderSize msg)))
              (\<lambda>sni. Ok (sni, buf, r)))"
proof -
  obtain h where h: "tls_record p = h @ p" "length h = tlsRecordHeaderSize"
    "h ! 0 = recordTypeHandshake" "be16 (h ! 3) (h ! 4) = length p"
    using assms(1)
    by (rule_tac that [of "[recordTypeHandshake, 3, 1] @ put_be16 (length p)"])
      (simp_all add: tls_record_def tlsRecordHeaderSize_def put_be16_def)
  have rd: "readFull tlsRecordHeaderSize (tls_record p @ r) = Some (h, p @ r)"
    "readFull (length p) (p @ r) = Some (p, r)"
    using h by (simp_all add: readFull_def)
  show ?thesis
    using assms(2,3)
    by (subst peek_loop.simps)
      (simp add: rd h(3,4) Let_def go_index_def go_slice_def handshakeHeaderSize_def not_less,
       use h(1) in auto)
qed

lemma peek_fragments:
  "msg @ concat frags = handshake body \<Longrightarrow> frags \<noteq> [] \<Longrightarrow> last frags \<noteq> [] \<Longrightarrow>
   length body < 16777216 \<Longrightarrow> \<forall>p \<in> set frags. length p < 65536 \<Longrightarrow>
   records + length frags \<le> maxClientHelloRecords \<Longrightarrow>
   length buf + length (concat (map tls_record frags)) \<le> maxClientHelloBytes \<Longrightarrow>
   peek_loop uni (concat (map tls_record frags) @ r) buf msg records =
     obind (parseClientHelloServerName uni body)
       (\<lambda>sni. Ok (sni, buf @ concat (map tls_record frags), r))"
proof (induction frags arbitrary: msg buf records)
  case Nil
  then show ?case by simp
next
  case (Cons p frags)
  let ?msg = "msg @ p"
  have pre: "?msg = take (length ?msg) (handshake body)"
    using Cons.prems(1) by (metis append.assoc append_eq_conv_conj concat.simps(2))
  have size: "length p < 65536" "records < maxClientHelloRecords"
    "length buf + tlsRecordHeaderSize + length p \<le> maxClientHelloBytes"
    using Cons.prems by (auto simp: tls_record_def tlsRecordHeaderSize_def)
  note step = peek_record [OF size, of uni "concat (map tls_record frags) @ r" msg]
  have hd: "4 \<le> length ?msg \<Longrightarrow> ?msg ! 0 = handshakeTypeClient"
    "4 \<le> length ?msg \<Longrightarrow> unat (?msg ! 1) * 65536 + unat (?msg ! 2) * 256 + unat (?msg ! 3) = length body"
    using handshake_msgLen [OF Cons.prems(4) _ pre] by auto
  have total: "length ?msg + length (concat frags) = 4 + length body"
    using arg_cong [OF Cons.prems(1), of length] by (simp add: handshake_length)
  show ?case
  proof (cases "frags = []")
    case True
    then have "?msg = handshake body" "length ?msg = 4 + length body"
      using Cons.prems(1) total by simp_all
    then show ?thesis using step hd True
      by (simp add: Let_def handshakeHeaderSize_def) (simp add: handshake_def)
  next
    case False
    with Cons.prems(3) have "concat frags \<noteq> []" by (auto dest: last_in_set)
    then have "0 < length (concat frags)" by (metis length_greater_0_conv)
    then have short: "length ?msg < 4 + length body" using total by linarith
    have "peek_loop uni (tls_record p @ concat (map tls_record frags) @ r) buf msg records =
        peek_loop uni (concat (map tls_record frags) @ r) (buf @ tls_record p) ?msg (records + 1)"
      using step hd short by (simp add: Let_def handshakeHeaderSize_def not_less)
    moreover have "\<dots> = obind (parseClientHelloServerName uni body)
        (\<lambda>sni. Ok (sni, (buf @ tls_record p) @ concat (map tls_record frags), r))"
      by (rule Cons.IH) (use Cons.prems False in \<open>auto split: if_splits\<close>)
    ultimately show ?thesis by simp
  qed
qed

section \<open>Properties\<close>

text \<open>
  C31: Parsing an inbound connection never panics, whatever bytes it sends, and a successful
  parse keeps every byte: what is replayed to the server followed by what is still unread is
  the input, and no more than 16 KiB is ever held.
\<close>

theorem peek_total_and_replayable:
  "peekClientHello uni r \<noteq> Panic \<and>
   (\<forall>sni raw rest. peekClientHello uni r = Ok (sni, raw, rest) \<longrightarrow> r = raw @ rest \<and> length raw \<le> 16384)"
  using peek_no_panic [of uni r "[]" "[]" 0] peek_replay [of uni r "[]" "[]" 0]
  by (auto simp: peekClientHello_def maxClientHelloBytes_def)

theorem peek_total_and_replayable_witness:
  "let body = replicate 34 0 @ [0, 0, 0, 0]; r = tls_record (handshake body) @ [7, 7]
   in peekClientHello id r \<noteq> Panic \<and> r = tls_record (handshake body) @ [7, 7] \<and>
      peekClientHello id r = Ok ([], tls_record (handshake body), [7, 7]) \<and>
      length (tls_record (handshake body)) \<le> 16384"
proof -
  let ?body = "replicate 34 0 @ [0, 0, 0, 0] :: bytes"
  have "parseClientHelloServerName id ?body = Ok []"
    by (simp add: parseClientHelloServerName_def skipLengthPrefixed_def go_slice_def
        parseExtensions_def numeral_2_eq_2)
  then have ok: "peekClientHello id (tls_record (handshake ?body) @ [7, 7]) = Ok ([], tls_record (handshake ?body), [7, 7])"
    using peek_fragments [of "[]" "[handshake ?body]" ?body 0 "[]" id "[7, 7]"]
    by (simp add: peekClientHello_def handshake_length tls_record_def maxClientHelloRecords_def
        maxClientHelloBytes_def handshake_def)
  from peek_total_and_replayable [of id "tls_record (handshake ?body) @ [7, 7]"] ok
  show ?thesis unfolding Let_def by blast
qed

text \<open>
  A well-formed ClientHello is routed by its host name: for any TLS layout of the hello,
  with any extensions before and after the server name, and for any split of the handshake
  message into at most four records within the size cap, the relay finds exactly the
  normalised host name and replays exactly the records.
\<close>

theorem peek_finds_server_name:
  assumes "hello_ok start sid ciphers comps (pre @ sni_extension host # post)"
    and "\<forall>e \<in> set pre. fst e \<noteq> extensionServerName"
    and "concat frags = handshake (client_hello start sid ciphers comps (pre @ sni_extension host # post))"
    and "frags \<noteq> []" "last frags \<noteq> []" "length frags \<le> 4"
    and "length (concat (map tls_record frags)) \<le> 16384"
  shows "peekClientHello uni (concat (map tls_record frags) @ r) =
    Ok (normalizeSNI uni host, concat (map tls_record frags), r)"
proof -
  let ?body = "client_hello start sid ciphers comps (pre @ sni_extension host # post)"
  have le: "length p \<le> length (concat (map tls_record frags))" if "p \<in> set frags" for p
    using that by (induction frags) (auto simp: tls_record_def)
  have "length (concat frags) \<le> length (concat (map tls_record frags))"
    by (induction frags) (auto simp: tls_record_def)
  then have "length ?body < 16777216" using assms(3,7) handshake_length [of ?body] by simp
  moreover have "\<forall>p \<in> set frags. length p < 65536" using le assms(7) by fastforce
  ultimately show ?thesis
    using peek_fragments [of "[]" frags ?body 0 "[]" uni r] assms(3-7) parse_client_hello [OF assms(1,2)]
    by (simp add: peekClientHello_def maxClientHelloRecords_def maxClientHelloBytes_def)
qed

theorem peek_finds_server_name_witness:
  "let hello = handshake (client_hello (replicate 34 0) [] [0x13, 1] [0]
         ([(10, [9])] @ sni_extension [0x41, 0x2e, 0x62] # []));
       frags = [take 3 hello, drop 3 hello]
   in peekClientHello id (concat (map tls_record frags) @ [5]) =
      Ok (normalizeSNI id [0x41, 0x2e, 0x62], concat (map tls_record frags), [5])"
proof -
  define hello where "hello = handshake (client_hello (replicate 34 0) [] [0x13, 1] [0]
         ([(10, [9])] @ sni_extension [0x41, 0x2e, 0x62] # []))"
  have len: "length hello = 64"
    by (simp add: hello_def handshake_def client_hello_def sni_extension_def tls_extension_def put_be16_def)
  have ok: "hello_ok (replicate 34 0) [] [0x13, 1] [0] ([(10, [9])] @ sni_extension [0x41, 0x2e, 0x62] # [])"
    by (simp add: hello_ok_def tls_extension_def sni_extension_def extensionServerName_def)
  have first: "\<forall>e \<in> set [(10, [9])]. fst e \<noteq> extensionServerName"
    by (simp add: extensionServerName_def)
  have "peekClientHello id (concat (map tls_record [take 3 hello, drop 3 hello]) @ [5]) =
      Ok (normalizeSNI id [0x41, 0x2e, 0x62], concat (map tls_record [take 3 hello, drop 3 hello]), [5])"
  proof (rule peek_finds_server_name [OF ok first])
    show "concat [take 3 hello, drop 3 hello] = handshake (client_hello (replicate 34 0) [] [0x13, 1] [0]
        ([(10, [9])] @ sni_extension [0x41, 0x2e, 0x62] # []))"
      unfolding hello_def by simp
  qed (use len in \<open>simp_all add: tls_record_def\<close>)
  then show ?thesis unfolding Let_def hello_def .
qed

end
