(* ===== verification/Udp_Session.thy ===== *)
theory Udp_Session
  imports Netip "HOL-Library.Multiset"
begin

text \<open>
  \<^verbatim>\<open>pkg/relay/udpsession.go\<close>: the pool of relay-side ports, the sessions of the UDP-relay tier
  and the table that indexes them by token, by server-leg port and by bound client address.
  Sessions are shared objects: the table keeps a store from object identities to sessions, and
  the three indexes hold identities, so that aliasing is explicit. Tokens are Go strings, byte
  lists. The clock, the random token and the result of \<open>rand.Read\<close> are arguments.
\<close>

section \<open>The port allocator\<close>

type_synonym port = "16 word"

record 'conn portAllocator =
  pa_conns :: "(port, 'conn) fmap"
  pa_free :: "port list"
  pa_inUse :: "(port, bool) fmap"

definition newPortAllocator :: "(port, 'conn) fmap \<Rightarrow> 'conn portAllocator" where
  "newPortAllocator conns =
     \<lparr>pa_conns = conns, pa_free = sorted_list_of_fset (fmdom conns), pa_inUse = fmempty\<rparr>"

definition pa_allocate :: "'conn portAllocator \<Rightarrow> (port \<times> 'conn option) option \<times> 'conn portAllocator" where
  "pa_allocate p =
     (if pa_free p = [] then (None, p)
      else let port = last (pa_free p)
           in (Some (port, fmlookup (pa_conns p) port),
               p\<lparr>pa_free := butlast (pa_free p), pa_inUse := fmupd port True (pa_inUse p)\<rparr>))"

definition pa_release :: "port \<Rightarrow> 'conn portAllocator \<Rightarrow> 'conn portAllocator" where
  "pa_release port p =
     (if \<not> gm_get False (pa_inUse p) port then p
      else p\<lparr>pa_inUse := fmdrop port (pa_inUse p), pa_free := pa_free p @ [port]\<rparr>)"

definition pa_disable :: "port \<Rightarrow> 'conn portAllocator \<Rightarrow> 'conn portAllocator" where
  "pa_disable port p =
     p\<lparr>pa_inUse := fmdrop port (pa_inUse p), pa_free := remove1 port (pa_free p)\<rparr>"

section \<open>Sessions\<close>

record 'conn udpRelaySession =
  us_token :: bytes
  us_tenant :: string
  us_serverPort :: port
  us_serverConn :: 'conn
  us_serverAddr :: addrPort
  us_serverBound :: bool
  us_clientAddr :: addrPort
  us_clientBound :: bool
  us_lastActivity :: gotime \<comment> \<open>-1 once the session is released\<close>
  us_clientPacketsReceived :: "64 word"
  us_clientBytesReceived :: "64 word"
  us_serverPacketsForwarded :: "64 word"
  us_serverBytesForwarded :: "64 word"
  us_serverPacketsReceived :: "64 word"
  us_serverBytesReceived :: "64 word"
  us_clientPacketsForwarded :: "64 word"
  us_clientBytesForwarded :: "64 word"

definition noAddr :: addrPort where "noAddr = AddrPort IPInvalid 0"

definition newSession :: "bytes \<Rightarrow> string \<Rightarrow> port \<Rightarrow> 'conn \<Rightarrow> 'conn udpRelaySession" where
  "newSession tok tenant port conn =
     \<lparr>us_token = tok, us_tenant = tenant, us_serverPort = port, us_serverConn = conn,
      us_serverAddr = noAddr, us_serverBound = False, us_clientAddr = noAddr, us_clientBound = False,
      us_lastActivity = 0, us_clientPacketsReceived = 0, us_clientBytesReceived = 0,
      us_serverPacketsForwarded = 0, us_serverBytesForwarded = 0, us_serverPacketsReceived = 0,
      us_serverBytesReceived = 0, us_clientPacketsForwarded = 0, us_clientBytesForwarded = 0\<rparr>"

text \<open>\<open>touch\<close>: the compare-and-swap loop leaves a released session (a negative time) alone.\<close>

definition touch :: "gotime \<Rightarrow> 'conn udpRelaySession \<Rightarrow> 'conn udpRelaySession" where
  "touch now s = (if us_lastActivity s < 0 then s else s\<lparr>us_lastActivity := now\<rparr>)"

definition clientReceived :: "nat \<Rightarrow> 'conn udpRelaySession \<Rightarrow> 'conn udpRelaySession" where
  "clientReceived n s = s\<lparr>us_clientPacketsReceived := us_clientPacketsReceived s + 1,
     us_clientBytesReceived := us_clientBytesReceived s + of_nat n\<rparr>"

definition serverForwarded :: "nat \<Rightarrow> 'conn udpRelaySession \<Rightarrow> 'conn udpRelaySession" where
  "serverForwarded n s = s\<lparr>us_serverPacketsForwarded := us_serverPacketsForwarded s + 1,
     us_serverBytesForwarded := us_serverBytesForwarded s + of_nat n\<rparr>"

definition serverReceived :: "nat \<Rightarrow> 'conn udpRelaySession \<Rightarrow> 'conn udpRelaySession" where
  "serverReceived n s = s\<lparr>us_serverPacketsReceived := us_serverPacketsReceived s + 1,
     us_serverBytesReceived := us_serverBytesReceived s + of_nat n\<rparr>"

definition clientForwarded :: "nat \<Rightarrow> 'conn udpRelaySession \<Rightarrow> 'conn udpRelaySession" where
  "clientForwarded n s = s\<lparr>us_clientPacketsForwarded := us_clientPacketsForwarded s + 1,
     us_clientBytesForwarded := us_clientBytesForwarded s + of_nat n\<rparr>"

definition legs :: "'conn udpRelaySession \<Rightarrow> addrPort \<times> bool \<times> addrPort \<times> bool" where
  "legs s = (us_serverAddr s, us_serverBound s, us_clientAddr s, us_clientBound s)"

section \<open>The session table\<close>

type_synonym sid = nat

record 'conn udpSessionTable =
  ut_alloc :: "'conn portAllocator"
  ut_store :: "(sid, 'conn udpRelaySession) fmap" \<comment> \<open>the session objects\<close>
  ut_next :: sid \<comment> \<open>the identity of the next object\<close>
  ut_byToken :: "(bytes, sid) fmap"
  ut_byPort :: "(port, sid) fmap"
  ut_byClient :: "(addrPort, sid) fmap"
  ut_tenantN :: "(string, int) fmap"
  ut_maxPerTenant :: int \<comment> \<open>Limits.MaxUDPRelaySessionsPerServer\<close>

definition newUDPSessionTable :: "'conn portAllocator \<Rightarrow> int \<Rightarrow> 'conn udpSessionTable" where
  "newUDPSessionTable alloc limit =
     \<lparr>ut_alloc = alloc, ut_store = fmempty, ut_next = 0, ut_byToken = fmempty, ut_byPort = fmempty,
      ut_byClient = fmempty, ut_tenantN = fmempty, ut_maxPerTenant = limit\<rparr>"

datatype allocError = TenantAtCapacity | PoolExhausted | RandError | NilConn

text \<open>Updating the object behind an identity.\<close>

definition upd_session ::
  "sid \<Rightarrow> ('conn udpRelaySession \<Rightarrow> 'conn udpRelaySession) \<Rightarrow> 'conn udpSessionTable \<Rightarrow> 'conn udpSessionTable" where
  "upd_session i f t =
     (case fmlookup (ut_store t) i of None \<Rightarrow> t | Some s \<Rightarrow> t\<lparr>ut_store := fmupd i (f s) (ut_store t)\<rparr>)"

text \<open>
  \<open>Allocate\<close>. \<open>tok\<close> is the result of \<open>randomConnID\<close>, \<open>localAddr\<close> is
  \<open>conn.LocalAddr().String()\<close>. A pooled port without a socket would be a nil dereference,
  the outcome \<open>NilConn\<close>.
\<close>

definition ut_Allocate ::
  "('conn \<Rightarrow> string) \<Rightarrow> gotime \<Rightarrow> bytes option \<Rightarrow> string \<Rightarrow> 'conn udpSessionTable
   \<Rightarrow> (allocError + bytes \<times> string) \<times> 'conn udpSessionTable" where
  "ut_Allocate localAddr now tok tenant t =
     (if gm_get 0 (ut_tenantN t) tenant \<ge> ut_maxPerTenant t then (Inl TenantAtCapacity, t)
      else case pa_allocate (ut_alloc t) of
        (None, _) \<Rightarrow> (Inl PoolExhausted, t)
      | (Some (port, None), alloc) \<Rightarrow> (Inl NilConn, t\<lparr>ut_alloc := alloc\<rparr>)
      | (Some (port, Some conn), alloc) \<Rightarrow>
          (case tok of
             None \<Rightarrow> (Inl RandError, t\<lparr>ut_alloc := pa_release port alloc\<rparr>)
           | Some tk \<Rightarrow>
               let i = ut_next t; sess = touch now (newSession tk tenant port conn)
               in (Inr (tk, localAddr conn),
                   t\<lparr>ut_alloc := alloc, ut_store := fmupd i sess (ut_store t), ut_next := Suc i,
                     ut_byToken := fmupd tk i (ut_byToken t), ut_byPort := fmupd port i (ut_byPort t),
                     ut_tenantN := fmupd tenant (gm_get 0 (ut_tenantN t) tenant + 1) (ut_tenantN t)\<rparr>)))"

definition ut_BindServer ::
  "gotime \<Rightarrow> bytes \<Rightarrow> addrPort \<Rightarrow> 'conn udpSessionTable \<Rightarrow> sid option \<times> 'conn udpSessionTable" where
  "ut_BindServer now token from t =
     (case fmlookup (ut_byToken t) token of
        None \<Rightarrow> (None, t)
      | Some i \<Rightarrow>
          (Some i, upd_session i (\<lambda>s. touch now (s\<lparr>us_serverAddr := from, us_serverBound := True\<rparr>)) t))"

definition ut_BindClient ::
  "gotime \<Rightarrow> bytes \<Rightarrow> addrPort \<Rightarrow> 'conn udpSessionTable \<Rightarrow> sid option \<times> 'conn udpSessionTable" where
  "ut_BindClient now token from t =
     (case fmlookup (ut_byToken t) token of
        None \<Rightarrow> (None, t)
      | Some i \<Rightarrow>
          (case fmlookup (ut_store t) i of
             None \<Rightarrow> (None, t)
           | Some s \<Rightarrow>
               let prevAddr = us_clientAddr s; prevBound = us_clientBound s;
                   t1 = upd_session i (\<lambda>s. touch now (s\<lparr>us_clientAddr := from, us_clientBound := True\<rparr>)) t;
                   t2 = (if prevBound \<and> prevAddr \<noteq> from \<and> fmlookup (ut_byClient t1) prevAddr = Some i
                         then t1\<lparr>ut_byClient := fmdrop prevAddr (ut_byClient t1)\<rparr> else t1)
               in (Some i, t2\<lparr>ut_byClient := fmupd from i (ut_byClient t2)\<rparr>)))"

definition ut_knownClientBind :: "bytes \<Rightarrow> addrPort \<Rightarrow> 'conn udpSessionTable \<Rightarrow> bool" where
  "ut_knownClientBind token from t =
     (case fmlookup (ut_byToken t) token of
        None \<Rightarrow> False
      | Some i \<Rightarrow>
          fmlookup (ut_byClient t) from = Some i \<and>
          (case fmlookup (ut_store t) i of None \<Rightarrow> False
           | Some s \<Rightarrow> us_clientBound s \<and> us_clientAddr s = from))"

definition ut_LookupByClientAddr :: "addrPort \<Rightarrow> 'conn udpSessionTable \<Rightarrow> sid option" where
  "ut_LookupByClientAddr a t = fmlookup (ut_byClient t) a"

definition ut_sessionForPort :: "port \<Rightarrow> 'conn udpSessionTable \<Rightarrow> sid option" where
  "ut_sessionForPort p t = fmlookup (ut_byPort t) p"

text \<open>\<open>StatsForTenant\<close>: the sessions of one tenant, in the order of the range loop.\<close>

definition ut_StatsForTenant :: "bytes list \<Rightarrow> string \<Rightarrow> 'conn udpSessionTable \<Rightarrow> 'conn udpRelaySession list" where
  "ut_StatsForTenant ks tenant t =
     filter (\<lambda>s. us_tenant s = tenant)
       (List.map_filter (\<lambda>k. Option.bind (fmlookup (ut_byToken t) k) (fmlookup (ut_store t))) ks)"

definition ut_releaseLocked :: "bytes \<Rightarrow> 'conn udpSessionTable \<Rightarrow> 'conn udpSessionTable" where
  "ut_releaseLocked token t =
     (case fmlookup (ut_byToken t) token of
        None \<Rightarrow> t
      | Some i \<Rightarrow>
          (case fmlookup (ut_store t) i of
             None \<Rightarrow> t
           | Some s \<Rightarrow>
               let n = gm_get 0 (ut_tenantN t) (us_tenant s) - 1;
                   tn = (if n \<le> 0 then fmdrop (us_tenant s) (ut_tenantN t)
                         else fmupd (us_tenant s) n (ut_tenantN t));
                   bc = (if us_clientBound s \<and> fmlookup (ut_byClient t) (us_clientAddr s) = Some i
                         then fmdrop (us_clientAddr s) (ut_byClient t) else ut_byClient t)
               in t\<lparr>ut_store := fmupd i (s\<lparr>us_lastActivity := -1, us_clientBound := False, us_serverBound := False\<rparr>) (ut_store t),
                    ut_byToken := fmdrop token (ut_byToken t),
                    ut_byPort := fmdrop (us_serverPort s) (ut_byPort t),
                    ut_tenantN := tn, ut_byClient := bc,
                    ut_alloc := pa_release (us_serverPort s) (ut_alloc t)\<rparr>))"

definition ut_Release :: "bytes \<Rightarrow> 'conn udpSessionTable \<Rightarrow> 'conn udpSessionTable" where
  "ut_Release = ut_releaseLocked"

definition ut_disablePort :: "port \<Rightarrow> 'conn udpSessionTable \<Rightarrow> 'conn udpSessionTable" where
  "ut_disablePort port t =
     (let t1 = t\<lparr>ut_alloc := pa_disable port (ut_alloc t)\<rparr>
      in case Option.bind (fmlookup (ut_byPort t1) port) (fmlookup (ut_store t1)) of
           None \<Rightarrow> t1
         | Some s \<Rightarrow> ut_releaseLocked (us_token s) t1)"

text \<open>One visit of the sweep, and the sweep over an order of the live tokens.\<close>

definition ut_sweepStep :: "gotime \<Rightarrow> duration \<Rightarrow> bytes \<Rightarrow> 'conn udpSessionTable \<Rightarrow> 'conn udpSessionTable" where
  "ut_sweepStep now idle tok t =
     (case Option.bind (fmlookup (ut_byToken t) tok) (fmlookup (ut_store t)) of
        None \<Rightarrow> t
      | Some s \<Rightarrow>
          if us_lastActivity s \<ge> 0 \<and> now - us_lastActivity s > idle then ut_releaseLocked tok t else t)"

definition ut_sweepOnce :: "gotime \<Rightarrow> duration \<Rightarrow> bytes list \<Rightarrow> 'conn udpSessionTable \<Rightarrow> 'conn udpSessionTable" where
  "ut_sweepOnce now idle ks t = fold (ut_sweepStep now idle) ks t"

text \<open>The ticker interval of \<open>runIdleSweep\<close>.\<close>

definition sweep_interval :: "duration \<Rightarrow> duration" where
  "sweep_interval idleTimeout = (let i = idleTimeout div 4 in if i < second then second else i)"

section \<open>The table invariant\<close>

text \<open>The live session behind a token.\<close>

definition live :: "'conn udpSessionTable \<Rightarrow> bytes \<Rightarrow> sid \<Rightarrow> 'conn udpRelaySession \<Rightarrow> bool" where
  "live t tok i s \<longleftrightarrow> fmlookup (ut_byToken t) tok = Some i \<and> fmlookup (ut_store t) i = Some s"

definition live_tokens :: "'conn udpSessionTable \<Rightarrow> string \<Rightarrow> bytes set" where
  "live_tokens t tenant = {tok. \<exists>i s. live t tok i s \<and> us_tenant s = tenant}"

definition index_inv :: "'conn udpSessionTable \<Rightarrow> bool" where
  "index_inv t \<longleftrightarrow>
     (\<forall>tok i. fmlookup (ut_byToken t) tok = Some i \<longrightarrow> (\<exists>s. live t tok i s)) \<and>
     (\<forall>tok i s. live t tok i s \<longrightarrow>
        us_token s = tok \<and> 0 \<le> us_lastActivity s \<and> fmlookup (ut_byPort t) (us_serverPort s) = Some i) \<and>
     (\<forall>p i. fmlookup (ut_byPort t) p = Some i \<longrightarrow> (\<exists>tok s. live t tok i s \<and> us_serverPort s = p)) \<and>
     (\<forall>i s. fmlookup (ut_store t) i = Some s \<longrightarrow> i < ut_next t)"

definition client_inv :: "'conn udpSessionTable \<Rightarrow> bool" where
  "client_inv t \<longleftrightarrow>
     (\<forall>a i. fmlookup (ut_byClient t) a = Some i \<longrightarrow>
        (\<exists>tok s. live t tok i s \<and> us_clientBound s \<and> us_clientAddr s = a))"

definition pool_inv :: "'conn udpSessionTable \<Rightarrow> bool" where
  "pool_inv t \<longleftrightarrow>
     distinct (pa_free (ut_alloc t)) \<and>
     (\<forall>p. gm_get False (pa_inUse (ut_alloc t)) p \<longleftrightarrow> fmlookup (ut_byPort t) p \<noteq> None) \<and>
     (\<forall>p \<in> set (pa_free (ut_alloc t)).
        fmlookup (ut_byPort t) p = None \<and> fmlookup (pa_conns (ut_alloc t)) p \<noteq> None) \<and>
     (\<forall>tok i s. live t tok i s \<longrightarrow>
        fmlookup (pa_conns (ut_alloc t)) (us_serverPort s) = Some (us_serverConn s))"

definition tenant_inv :: "'conn udpSessionTable \<Rightarrow> bool" where
  "tenant_inv t \<longleftrightarrow>
     (\<forall>tenant. finite (live_tokens t tenant) \<and>
        fmlookup (ut_tenantN t) tenant =
          (if live_tokens t tenant = {} then None else Some (int (card (live_tokens t tenant)))) \<and>
        int (card (live_tokens t tenant)) \<le> max 0 (ut_maxPerTenant t))"

definition table_inv :: "'conn udpSessionTable \<Rightarrow> bool" where
  "table_inv t \<longleftrightarrow> index_inv t \<and> client_inv t \<and> pool_inv t \<and> tenant_inv t"

text \<open>The operations on the table as steps: any clock that has not gone negative, and tokens that
  are fresh among the live ones, which 32 random bytes are.\<close>

datatype udp_op =
    OpAllocate gotime "bytes option" string
  | OpBindServer gotime bytes addrPort
  | OpBindClient gotime bytes addrPort
  | OpRelease bytes
  | OpDisable port
  | OpSweep gotime duration "bytes list"

fun ut_exec :: "udp_op \<Rightarrow> 'conn udpSessionTable \<Rightarrow> 'conn udpSessionTable" where
  "ut_exec (OpAllocate now tok tenant) t = snd (ut_Allocate (\<lambda>_. '''') now tok tenant t)"
| "ut_exec (OpBindServer now tok from) t = snd (ut_BindServer now tok from t)"
| "ut_exec (OpBindClient now tok from) t = snd (ut_BindClient now tok from t)"
| "ut_exec (OpRelease tok) t = ut_Release tok t"
| "ut_exec (OpDisable p) t = ut_disablePort p t"
| "ut_exec (OpSweep now idle ks) t = ut_sweepOnce now idle ks t"

fun op_ok :: "udp_op \<Rightarrow> 'conn udpSessionTable \<Rightarrow> bool" where
  "op_ok (OpAllocate now tok tenant) t \<longleftrightarrow>
     0 \<le> now \<and> (case tok of None \<Rightarrow> True | Some tk \<Rightarrow> fmlookup (ut_byToken t) tk = None)"
| "op_ok (OpBindServer now tok from) t \<longleftrightarrow> 0 \<le> now"
| "op_ok (OpBindClient now tok from) t \<longleftrightarrow> 0 \<le> now"
| "op_ok (OpSweep now idle ks) t \<longleftrightarrow> range_order ks (ut_byToken t)"
| "op_ok _ t \<longleftrightarrow> True"

inductive ut_step :: "'conn udpSessionTable \<Rightarrow> udp_op \<Rightarrow> 'conn udpSessionTable \<Rightarrow> bool" where
  "op_ok e t \<Longrightarrow> ut_step t e (ut_exec e t)"

inductive_cases ut_stepE: "ut_step t e t'"

section \<open>Lemmas\<close>

subsection \<open>Updates of one session\<close>

lemma upd_session_simps [simp]:
  "ut_alloc (upd_session i f t) = ut_alloc t" "ut_next (upd_session i f t) = ut_next t"
  "ut_byToken (upd_session i f t) = ut_byToken t" "ut_byPort (upd_session i f t) = ut_byPort t"
  "ut_byClient (upd_session i f t) = ut_byClient t" "ut_tenantN (upd_session i f t) = ut_tenantN t"
  "ut_maxPerTenant (upd_session i f t) = ut_maxPerTenant t"
  by (simp_all add: upd_session_def split: option.splits)

lemma upd_session_store [simp]:
  "fmlookup (ut_store (upd_session i f t)) j =
     (if j = i then map_option f (fmlookup (ut_store t) i) else fmlookup (ut_store t) j)"
  by (auto simp: upd_session_def split: option.splits)

lemma live_upd:
  "live (upd_session i f t) tok j s' \<longleftrightarrow> (\<exists>s. live t tok j s \<and> s' = (if j = i then f s else s))"
  by (auto simp: live_def)

lemma live_frame [simp]:
  "live (t\<lparr>ut_byClient := bc\<rparr>) = live t" "live (t\<lparr>ut_alloc := al\<rparr>) = live t"
  "live (t\<lparr>ut_tenantN := tn\<rparr>) = live t"
  by (simp_all add: live_def fun_eq_iff)

lemma touch_simps [simp]:
  "us_token (touch now s) = us_token s" "us_tenant (touch now s) = us_tenant s"
  "us_serverPort (touch now s) = us_serverPort s" "us_serverConn (touch now s) = us_serverConn s"
  "us_serverAddr (touch now s) = us_serverAddr s" "us_serverBound (touch now s) = us_serverBound s"
  "us_clientAddr (touch now s) = us_clientAddr s" "us_clientBound (touch now s) = us_clientBound s"
  "0 \<le> now \<Longrightarrow> 0 \<le> us_lastActivity s \<Longrightarrow> 0 \<le> us_lastActivity (touch now s)"
  by (simp_all add: touch_def)

text \<open>An update that keeps a session's identity fields and does not revive it.\<close>

definition keeps_identity :: "('conn udpRelaySession \<Rightarrow> 'conn udpRelaySession) \<Rightarrow> bool" where
  "keeps_identity f \<longleftrightarrow>
     (\<forall>s. us_token (f s) = us_token s \<and> us_tenant (f s) = us_tenant s \<and>
          us_serverPort (f s) = us_serverPort s \<and> us_serverConn (f s) = us_serverConn s \<and>
          (0 \<le> us_lastActivity s \<longrightarrow> 0 \<le> us_lastActivity (f s)))"

lemma keepsD:
  assumes "keeps_identity f"
  shows "us_token (f s) = us_token s" "us_tenant (f s) = us_tenant s"
    "us_serverPort (f s) = us_serverPort s" "us_serverConn (f s) = us_serverConn s"
    "0 \<le> us_lastActivity s \<Longrightarrow> 0 \<le> us_lastActivity (f s)"
  using assms by (simp_all add: keeps_identity_def)

lemma index_invD:
  assumes "index_inv t"
  shows "fmlookup (ut_byToken t) tok = Some i \<Longrightarrow> \<exists>s. live t tok i s"
    "live t tok i s \<Longrightarrow> us_token s = tok \<and> 0 \<le> us_lastActivity s \<and> fmlookup (ut_byPort t) (us_serverPort s) = Some i"
    "fmlookup (ut_byPort t) p = Some i \<Longrightarrow> \<exists>tok s. live t tok i s \<and> us_serverPort s = p"
    "fmlookup (ut_store t) i = Some s \<Longrightarrow> i < ut_next t"
  using assms unfolding index_inv_def by blast+

lemma index_invI:
  assumes "\<And>tok i. fmlookup (ut_byToken t) tok = Some i \<Longrightarrow> \<exists>s. live t tok i s"
    "\<And>tok i s. live t tok i s \<Longrightarrow> us_token s = tok \<and> 0 \<le> us_lastActivity s \<and> fmlookup (ut_byPort t) (us_serverPort s) = Some i"
    "\<And>p i. fmlookup (ut_byPort t) p = Some i \<Longrightarrow> \<exists>tok s. live t tok i s \<and> us_serverPort s = p"
    "\<And>i s. fmlookup (ut_store t) i = Some s \<Longrightarrow> i < ut_next t"
  shows "index_inv t"
  using assms unfolding index_inv_def by blast

lemma client_invD:
  "client_inv t \<Longrightarrow> fmlookup (ut_byClient t) a = Some i \<Longrightarrow>
   \<exists>tok s. live t tok i s \<and> us_clientBound s \<and> us_clientAddr s = a"
  unfolding client_inv_def by blast

lemma client_invI:
  "(\<And>a i. fmlookup (ut_byClient t) a = Some i \<Longrightarrow> \<exists>tok s. live t tok i s \<and> us_clientBound s \<and> us_clientAddr s = a)
   \<Longrightarrow> client_inv t"
  unfolding client_inv_def by blast

lemma live_fun: "live t tok i s \<Longrightarrow> live t tok' i s' \<Longrightarrow> s' = s"
  by (simp add: live_def)

lemma live_id_unique:
  "index_inv t \<Longrightarrow> live t tok i s \<Longrightarrow> live t tok' i s' \<Longrightarrow> tok' = tok \<and> s' = s"
  by (metis index_invD(2) live_fun)

lemma upd_index_inv:
  assumes "keeps_identity f" "index_inv t"
  shows "index_inv (upd_session i f t)"
proof (rule index_invI)
  fix tok j assume "fmlookup (ut_byToken (upd_session i f t)) tok = Some j"
  then show "\<exists>s. live (upd_session i f t) tok j s"
    using index_invD(1) [OF assms(2), of tok j] by (auto simp: live_upd)
next
  fix tok j s assume "live (upd_session i f t) tok j s"
  then show "us_token s = tok \<and> 0 \<le> us_lastActivity s \<and>
      fmlookup (ut_byPort (upd_session i f t)) (us_serverPort s) = Some j"
    by (auto simp: live_upd keepsD [OF assms(1)] dest: index_invD(2) [OF assms(2)])
next
  fix p j assume "fmlookup (ut_byPort (upd_session i f t)) p = Some j"
  then obtain tok s where "live t tok j s" "us_serverPort s = p"
    using index_invD(3) [OF assms(2), of p j] by auto
  then show "\<exists>tok s. live (upd_session i f t) tok j s \<and> us_serverPort s = p"
    by (intro exI [of _ tok] exI [of _ "if j = i then f s else s"])
      (auto simp: live_upd keepsD [OF assms(1)])
next
  fix j s assume "fmlookup (ut_store (upd_session i f t)) j = Some s"
  then show "j < ut_next (upd_session i f t)"
    by (auto split: if_splits dest: index_invD(4) [OF assms(2)])
qed

lemma upd_pool_inv:
  assumes "keeps_identity f" "pool_inv t"
  shows "pool_inv (upd_session i f t)"
  using assms(2) unfolding pool_inv_def live_upd upd_session_simps
  by (auto simp: keepsD [OF assms(1)] split: if_splits)

lemma live_tokens_upd:
  assumes "keeps_identity f"
  shows "live_tokens (upd_session i f t) tenant = live_tokens t tenant"
  unfolding live_tokens_def live_upd using keepsD(2) [OF assms]
  by (intro Collect_cong) (metis (full_types))

lemma upd_tenant_inv: "keeps_identity f \<Longrightarrow> tenant_inv t \<Longrightarrow> tenant_inv (upd_session i f t)"
  by (simp add: tenant_inv_def live_tokens_upd)

lemma upd_client_inv:
  assumes "\<And>s. us_clientBound (f s) = us_clientBound s \<and> us_clientAddr (f s) = us_clientAddr s"
    and "client_inv t"
  shows "client_inv (upd_session i f t)"
proof (rule client_invI)
  fix a j assume "fmlookup (ut_byClient (upd_session i f t)) a = Some j"
  then obtain tok s where "live t tok j s" "us_clientBound s" "us_clientAddr s = a"
    using client_invD [OF assms(2), of a j] by auto
  then show "\<exists>tok s. live (upd_session i f t) tok j s \<and> us_clientBound s \<and> us_clientAddr s = a"
    by (intro exI [of _ tok] exI [of _ "if j = i then f s else s"]) (auto simp: live_upd assms(1))
qed

lemma upd_table_inv:
  "keeps_identity f \<Longrightarrow> (\<And>s. us_clientBound (f s) = us_clientBound s \<and> us_clientAddr (f s) = us_clientAddr s) \<Longrightarrow>
   table_inv t \<Longrightarrow> table_inv (upd_session i f t)"
  by (simp add: table_inv_def upd_index_inv upd_pool_inv upd_tenant_inv upd_client_inv)

subsection \<open>Binding\<close>

lemma BindServer_inv:
  "0 \<le> now \<Longrightarrow> table_inv t \<Longrightarrow> table_inv (snd (ut_BindServer now tok from t))"
  by (auto simp: ut_BindServer_def keeps_identity_def split: option.splits intro!: upd_table_inv)

lemma BindClient_inv:
  assumes "0 \<le> now" "table_inv t"
  shows "table_inv (snd (ut_BindClient now tok from t))"
proof (cases "\<exists>i s. live t tok i s")
  case False
  with assms(2) show ?thesis by (auto simp: ut_BindClient_def live_def split: option.splits)
next
  case True
  then obtain i s where l: "live t tok i s" by blast
  let ?f = "\<lambda>s. touch now (s\<lparr>us_clientAddr := from, us_clientBound := True\<rparr>)"
  let ?t1 = "upd_session i ?f t"
  have inv: "index_inv t" "client_inv t" "pool_inv t" "tenant_inv t"
    using assms(2) by (simp_all add: table_inv_def)
  have keep: "keeps_identity ?f" using assms(1) by (simp add: keeps_identity_def)
  obtain bc where t': "snd (ut_BindClient now tok from t) = ?t1\<lparr>ut_byClient := fmupd from i bc\<rparr>"
    and bc: "\<And>a j. fmlookup bc a = Some j \<Longrightarrow> fmlookup (ut_byClient t) a = Some j \<and> (j = i \<longrightarrow> a = from)"
  proof
    let ?bc = "if us_clientBound s \<and> us_clientAddr s \<noteq> from \<and> fmlookup (ut_byClient t) (us_clientAddr s) = Some i
        then fmdrop (us_clientAddr s) (ut_byClient t) else ut_byClient t"
    show "snd (ut_BindClient now tok from t) = ?t1\<lparr>ut_byClient := fmupd from i ?bc\<rparr>"
      using l by (simp add: ut_BindClient_def live_def Let_def)
    fix a j assume "fmlookup ?bc a = Some j"
    moreover have "fmlookup (ut_byClient t) a = Some i \<Longrightarrow> us_clientBound s \<and> us_clientAddr s = a"
      using client_invD [OF inv(2), of a i] live_id_unique [OF inv(1) l] by blast
    ultimately show "fmlookup (ut_byClient t) a = Some j \<and> (j = i \<longrightarrow> a = from)"
      by (auto split: if_splits)
  qed
  have "client_inv (?t1\<lparr>ut_byClient := fmupd from i bc\<rparr>)"
  proof (rule client_invI, unfold live_frame)
    fix a j assume "fmlookup (ut_byClient (?t1\<lparr>ut_byClient := fmupd from i bc\<rparr>)) a = Some j"
    then consider "a = from" "j = i" | "j \<noteq> i" "fmlookup (ut_byClient t) a = Some j"
      using bc by (auto split: if_splits)
    then show "\<exists>tok s. live ?t1 tok j s \<and> us_clientBound s \<and> us_clientAddr s = a"
    proof cases
      case 1
      with l show ?thesis
        by (intro exI [of _ tok] exI [of _ "?f s"]) (auto simp: live_upd)
    next
      case 2
      with client_invD [OF inv(2), of a j] show ?thesis by (auto simp: live_upd)
    qed
  qed
  moreover have "index_inv (?t1\<lparr>ut_byClient := fmupd from i bc\<rparr>)"
    using upd_index_inv [OF keep inv(1), of i] by (simp add: index_inv_def)
  moreover have "pool_inv (?t1\<lparr>ut_byClient := fmupd from i bc\<rparr>)"
    using upd_pool_inv [OF keep inv(3), of i] by (simp add: pool_inv_def)
  moreover have "tenant_inv (?t1\<lparr>ut_byClient := fmupd from i bc\<rparr>)"
    using upd_tenant_inv [OF keep inv(4), of i] by (simp add: tenant_inv_def live_tokens_def)
  ultimately show ?thesis by (simp add: t' table_inv_def)
qed

subsection \<open>Releasing\<close>

text \<open>What releasing a live session does to the parts of the table.\<close>

lemma release_fields:
  assumes "live t tok i s"
  shows "ut_byToken (ut_releaseLocked tok t) = fmdrop tok (ut_byToken t)"
    "ut_byPort (ut_releaseLocked tok t) = fmdrop (us_serverPort s) (ut_byPort t)"
    "ut_alloc (ut_releaseLocked tok t) = pa_release (us_serverPort s) (ut_alloc t)"
    "ut_next (ut_releaseLocked tok t) = ut_next t"
    "ut_maxPerTenant (ut_releaseLocked tok t) = ut_maxPerTenant t"
    "fmlookup (ut_store (ut_releaseLocked tok t)) j =
       (if j = i then Some (s\<lparr>us_lastActivity := -1, us_clientBound := False, us_serverBound := False\<rparr>)
        else fmlookup (ut_store t) j)"
    "fmlookup (ut_byClient (ut_releaseLocked tok t)) a =
       (if us_clientBound s \<and> a = us_clientAddr s \<and> fmlookup (ut_byClient t) a = Some i then None
        else fmlookup (ut_byClient t) a)"
    "fmlookup (ut_tenantN (ut_releaseLocked tok t)) tenant =
       (if tenant = us_tenant s then
          (if gm_get 0 (ut_tenantN t) tenant - 1 \<le> 0 then None else Some (gm_get 0 (ut_tenantN t) tenant - 1))
        else fmlookup (ut_tenantN t) tenant)"
  using assms by (auto simp: ut_releaseLocked_def live_def Let_def)

lemma release_dead: "\<nexists>i s. live t tok i s \<Longrightarrow> ut_releaseLocked tok t = t"
  by (auto simp: ut_releaseLocked_def live_def split: option.splits)

lemma release_live:
  assumes "index_inv t" "live t tok i s"
  shows "live (ut_releaseLocked tok t) tok' j s' \<longleftrightarrow> tok' \<noteq> tok \<and> live t tok' j s'"
proof -
  have "tok' = tok" if "live t tok' i s'" for tok' s'
    using live_id_unique [OF assms that] by simp
  then show ?thesis
    using assms(2) release_fields [OF assms(2)] by (auto simp: live_def split: if_splits)
qed

lemma release_index_inv:
  assumes "index_inv t" "live t tok i s"
  shows "index_inv (ut_releaseLocked tok t)"
proof (rule index_invI)
  note l = release_live [OF assms] and f = release_fields [OF assms(2)]
  have port: "fmlookup (ut_byPort t) (us_serverPort s) = Some i" using index_invD(2) [OF assms] by simp
  fix tok' j assume "fmlookup (ut_byToken (ut_releaseLocked tok t)) tok' = Some j"
  then show "\<exists>s. live (ut_releaseLocked tok t) tok' j s"
    using index_invD(1) [OF assms(1)] by (auto simp: f l split: if_splits)
next
  note l = release_live [OF assms] and f = release_fields [OF assms(2)]
  fix tok' j s' assume "live (ut_releaseLocked tok t) tok' j s'"
  then have j: "tok' \<noteq> tok" "live t tok' j s'" by (simp_all add: l)
  then have "i \<noteq> j" using live_id_unique [OF assms] by blast
  then have "us_serverPort s' \<noteq> us_serverPort s"
    using index_invD(2) [OF assms(1) j(2)] index_invD(2) [OF assms] by auto
  then show "us_token s' = tok' \<and> 0 \<le> us_lastActivity s' \<and>
      fmlookup (ut_byPort (ut_releaseLocked tok t)) (us_serverPort s') = Some j"
    using index_invD(2) [OF assms(1) j(2)] by (simp add: f)
next
  note l = release_live [OF assms] and f = release_fields [OF assms(2)]
  fix p j assume "fmlookup (ut_byPort (ut_releaseLocked tok t)) p = Some j"
  then have p: "p \<noteq> us_serverPort s" "fmlookup (ut_byPort t) p = Some j"
    by (auto simp: f split: if_splits)
  from index_invD(3) [OF assms(1) p(2)] obtain tok' s' where "live t tok' j s'" "us_serverPort s' = p"
    by blast
  note q = this
  have "tok' \<noteq> tok"
  proof
    assume "tok' = tok"
    with q(1) assms(2) have "s' = s" by (simp add: live_def)
    with q(2) p(1) show False by simp
  qed
  with q have "live (ut_releaseLocked tok t) tok' j s' \<and> us_serverPort s' = p" by (simp only: l simp_thms not_False_eq_True)
  then show "\<exists>tok' s'. live (ut_releaseLocked tok t) tok' j s' \<and> us_serverPort s' = p"
    by blast
next
  fix j s' assume "fmlookup (ut_store (ut_releaseLocked tok t)) j = Some s'"
  then show "j < ut_next (ut_releaseLocked tok t)"
    using index_invD(4) [OF assms(1)] assms(2)
    by (auto simp: release_fields [OF assms(2)] live_def split: if_splits)
qed

lemma release_client_inv:
  assumes "index_inv t" "client_inv t" "live t tok i s"
  shows "client_inv (ut_releaseLocked tok t)"
proof (rule client_invI)
  fix a j assume "fmlookup (ut_byClient (ut_releaseLocked tok t)) a = Some j"
  then have a: "fmlookup (ut_byClient t) a = Some j"
    and nd: "\<not> (us_clientBound s \<and> a = us_clientAddr s \<and> j = i)"
    by (auto simp: release_fields [OF assms(3)] split: if_splits)
  from client_invD [OF assms(2) a] obtain tok' s' where
    c: "live t tok' j s'" "us_clientBound s'" "us_clientAddr s' = a" by blast
  with nd assms(3) have "tok' \<noteq> tok" by (auto simp: live_def)
  with c show "\<exists>tok' s'. live (ut_releaseLocked tok t) tok' j s' \<and> us_clientBound s' \<and> us_clientAddr s' = a"
    by (auto simp: release_live [OF assms(1,3)])
qed

lemma release_live_tokens:
  assumes "index_inv t" "live t tok i s"
  shows "live_tokens (ut_releaseLocked tok t) tenant = live_tokens t tenant - {tok}"
  by (auto simp: live_tokens_def release_live [OF assms])

lemma live_tokens_mem: "live t tok i s \<Longrightarrow> tok \<in> live_tokens t tenant \<longleftrightarrow> us_tenant s = tenant"
  by (auto simp: live_tokens_def live_def)

lemma release_tenant_inv:
  assumes "index_inv t" "tenant_inv t" "live t tok i s"
  shows "tenant_inv (ut_releaseLocked tok t)"
  unfolding tenant_inv_def
proof
  fix tenant
  let ?L = "live_tokens t tenant" and ?t = "ut_releaseLocked tok t"
  have L: "finite ?L" "fmlookup (ut_tenantN t) tenant = (if ?L = {} then None else Some (int (card ?L)))"
    "int (card ?L) \<le> max 0 (ut_maxPerTenant t)"
    using assms(2) by (auto simp: tenant_inv_def)
  note f = release_fields [OF assms(3)] and l = release_live_tokens [OF assms(1,3)]
  note mem = live_tokens_mem [OF assms(3), of tenant]
  show "finite (live_tokens ?t tenant) \<and>
      fmlookup (ut_tenantN ?t) tenant =
        (if live_tokens ?t tenant = {} then None else Some (int (card (live_tokens ?t tenant)))) \<and>
      int (card (live_tokens ?t tenant)) \<le> max 0 (ut_maxPerTenant ?t)"
  proof (cases "tenant = us_tenant s")
    case True
    then have tok: "tok \<in> ?L" using mem by simp
    then have g: "gm_get 0 (ut_tenantN t) tenant = int (card ?L)" using L(2) by (auto simp: gm_get_def)
    have pos: "0 < card ?L" using L(1) tok by (auto simp: card_gt_0_iff)
    have c: "card (?L - {tok}) = card ?L - 1" using L(1) tok by simp
    have e: "?L - {tok} = {} \<longleftrightarrow> card ?L = 1"
      using L(1) tok c pos by (metis card_0_eq finite_Diff diff_is_0_eq' le_refl One_nat_def Suc_leI diff_diff_cancel card.empty)
    have tn: "fmlookup (ut_tenantN ?t) tenant =
        (if int (card ?L) - 1 \<le> 0 then None else Some (int (card ?L) - 1))"
      unfolding f g if_P [OF True] ..
    have "fmlookup (ut_tenantN ?t) tenant =
        (if live_tokens ?t tenant = {} then None else Some (int (card (live_tokens ?t tenant))))"
      unfolding tn l e c using pos by (simp add: of_nat_diff)
    moreover have "int (card (live_tokens ?t tenant)) \<le> max 0 (ut_maxPerTenant ?t)"
      unfolding l c f using L(3) pos by linarith
    ultimately show ?thesis using L(1) unfolding l by simp
  next
    case False
    then have "?L - {tok} = ?L" using mem by simp
    then show ?thesis using L False by (simp add: f l)
  qed
qed

lemma release_pool_inv:
  assumes "index_inv t" "pool_inv t" "live t tok i s"
  shows "pool_inv (ut_releaseLocked tok t)"
proof -
  have port: "fmlookup (ut_byPort t) (us_serverPort s) = Some i" using index_invD(2) [OF assms(1,3)] by simp
  have p: "distinct (pa_free (ut_alloc t))"
    "\<And>p. gm_get False (pa_inUse (ut_alloc t)) p \<longleftrightarrow> fmlookup (ut_byPort t) p \<noteq> None"
    "\<And>p. p \<in> set (pa_free (ut_alloc t)) \<Longrightarrow>
       fmlookup (ut_byPort t) p = None \<and> fmlookup (pa_conns (ut_alloc t)) p \<noteq> None"
    "\<And>tok i s. live t tok i s \<Longrightarrow> fmlookup (pa_conns (ut_alloc t)) (us_serverPort s) = Some (us_serverConn s)"
    using assms(2) unfolding pool_inv_def by blast+
  have rel: "pa_release (us_serverPort s) (ut_alloc t) = (ut_alloc t)
      \<lparr>pa_inUse := fmdrop (us_serverPort s) (pa_inUse (ut_alloc t)), pa_free := pa_free (ut_alloc t) @ [us_serverPort s]\<rparr>"
    using p(2) [of "us_serverPort s"] port by (simp add: pa_release_def)
  have "us_serverPort s \<notin> set (pa_free (ut_alloc t))" using p(3) port by force
  then show ?thesis
    unfolding pool_inv_def release_fields [OF assms(3)] release_live [OF assms(1,3)] rel
    using p p(4) [OF assms(3)] by (auto simp: gm_get_def)
qed

lemma release_inv: "table_inv t \<Longrightarrow> table_inv (ut_releaseLocked tok t)"
proof (cases "\<exists>i s. live t tok i s")
  case True
  then show "table_inv t \<Longrightarrow> table_inv (ut_releaseLocked tok t)"
    by (auto simp: table_inv_def intro: release_index_inv release_client_inv release_tenant_inv release_pool_inv)
qed (simp add: release_dead)

subsection \<open>Allocating\<close>

lemma allocate_cases:
  assumes "pool_inv t"
  obtains (none) "pa_allocate (ut_alloc t) = (None, ut_alloc t)" "pa_free (ut_alloc t) = []"
  | (some) fr port conn where "pa_free (ut_alloc t) = fr @ [port]" "fmlookup (pa_conns (ut_alloc t)) port = Some conn"
      "pa_allocate (ut_alloc t) = (Some (port, Some conn),
         (ut_alloc t)\<lparr>pa_free := fr, pa_inUse := fmupd port True (pa_inUse (ut_alloc t))\<rparr>)"
proof (cases "pa_free (ut_alloc t)" rule: rev_cases)
  case Nil
  then show ?thesis using none by (simp add: pa_allocate_def)
next
  case (snoc fr port)
  then obtain conn where "fmlookup (pa_conns (ut_alloc t)) port = Some conn"
    using assms by (auto simp: pool_inv_def)
  with snoc show ?thesis using some by (simp add: pa_allocate_def Let_def)
qed

text \<open>The table after a successful allocation.\<close>

definition allocated ::
  "gotime \<Rightarrow> bytes \<Rightarrow> string \<Rightarrow> port list \<Rightarrow> port \<Rightarrow> 'conn \<Rightarrow> 'conn udpSessionTable \<Rightarrow> 'conn udpSessionTable" where
  "allocated now tk tenant fr port conn t =
     t\<lparr>ut_alloc := (ut_alloc t)\<lparr>pa_free := fr, pa_inUse := fmupd port True (pa_inUse (ut_alloc t))\<rparr>,
       ut_store := fmupd (ut_next t) (touch now (newSession tk tenant port conn)) (ut_store t),
       ut_next := Suc (ut_next t), ut_byToken := fmupd tk (ut_next t) (ut_byToken t),
       ut_byPort := fmupd port (ut_next t) (ut_byPort t),
       ut_tenantN := fmupd tenant (gm_get 0 (ut_tenantN t) tenant + 1) (ut_tenantN t)\<rparr>"

lemma allocated_simps [simp]:
  "ut_byToken (allocated now tk tenant fr port conn t) = fmupd tk (ut_next t) (ut_byToken t)"
  "ut_byPort (allocated now tk tenant fr port conn t) = fmupd port (ut_next t) (ut_byPort t)"
  "ut_byClient (allocated now tk tenant fr port conn t) = ut_byClient t"
  "ut_next (allocated now tk tenant fr port conn t) = Suc (ut_next t)"
  "ut_maxPerTenant (allocated now tk tenant fr port conn t) = ut_maxPerTenant t"
  "ut_alloc (allocated now tk tenant fr port conn t) =
     (ut_alloc t)\<lparr>pa_free := fr, pa_inUse := fmupd port True (pa_inUse (ut_alloc t))\<rparr>"
  "ut_tenantN (allocated now tk tenant fr port conn t) =
     fmupd tenant (gm_get 0 (ut_tenantN t) tenant + 1) (ut_tenantN t)"
  "ut_store (allocated now tk tenant fr port conn t) =
     fmupd (ut_next t) (touch now (newSession tk tenant port conn)) (ut_store t)"
  by (simp_all add: allocated_def)

lemma undo_allocate:
  "pa_free a = fr @ [port] \<Longrightarrow>
   pa_release port (a\<lparr>pa_free := fr, pa_inUse := fmupd port True (pa_inUse a)\<rparr>) =
     a\<lparr>pa_inUse := fmdrop port (pa_inUse a)\<rparr>"
  by (cases a) (auto simp: pa_release_def gm_get_def intro: fmap_ext)

lemma Allocate_cases:
  assumes "pool_inv t"
  obtains (fail) err where "ut_Allocate la now tok tenant t = (Inl err, t)"
  | (rand) fr port where "pa_free (ut_alloc t) = fr @ [port]" "tok = None"
      "ut_Allocate la now tok tenant t = (Inl RandError,
         t\<lparr>ut_alloc := (ut_alloc t)\<lparr>pa_inUse := fmdrop port (pa_inUse (ut_alloc t))\<rparr>\<rparr>)"
  | (ok) fr port conn tk where "pa_free (ut_alloc t) = fr @ [port]" "tok = Some tk"
      "fmlookup (pa_conns (ut_alloc t)) port = Some conn"
      "gm_get 0 (ut_tenantN t) tenant < ut_maxPerTenant t"
      "ut_Allocate la now tok tenant t = (Inr (tk, la conn), allocated now tk tenant fr port conn t)"
proof (cases "gm_get 0 (ut_tenantN t) tenant \<ge> ut_maxPerTenant t")
  case True
  then show ?thesis using fail by (simp add: ut_Allocate_def)
next
  case False
  from assms show ?thesis
  proof (cases rule: allocate_cases)
    case none
    with False show ?thesis using fail by (simp add: ut_Allocate_def)
  next
    case (some fr port conn)
    show ?thesis
    proof (cases tok)
      case None
      with False some have "ut_Allocate la now tok tenant t = (Inl RandError,
         t\<lparr>ut_alloc := (ut_alloc t)\<lparr>pa_inUse := fmdrop port (pa_inUse (ut_alloc t))\<rparr>\<rparr>)"
        by (simp add: ut_Allocate_def undo_allocate)
      with None some show ?thesis using rand by blast
    next
      case (Some tk)
      with False some have "ut_Allocate la now tok tenant t = (Inr (tk, la conn), allocated now tk tenant fr port conn t)"
        by (simp add: ut_Allocate_def allocated_def Let_def)
      with Some some False show ?thesis using ok by force
    qed
  qed
qed

lemma allocated_live:
  assumes "index_inv t" "fmlookup (ut_byToken t) tk = None"
  shows "live (allocated now tk tenant fr port conn t) tok i s \<longleftrightarrow>
     (if tok = tk then i = ut_next t \<and> s = touch now (newSession tk tenant port conn) else live t tok i s)"
proof -
  have "fmlookup (ut_byToken t) tok \<noteq> Some (ut_next t)" for tok
    using index_invD(1) [OF assms(1), of tok] index_invD(4) [OF assms(1)] by (force simp: live_def)
  with assms(2) show ?thesis by (auto simp: live_def split: if_splits)
qed

lemma newSession_activity: "0 \<le> now \<Longrightarrow> us_lastActivity (touch now (newSession tk tenant port conn)) = now"
  by (simp add: touch_def newSession_def)

lemma newSession_simps [simp]:
  "us_token (newSession tk tenant port conn) = tk" "us_tenant (newSession tk tenant port conn) = tenant"
  "us_serverPort (newSession tk tenant port conn) = port" "us_serverConn (newSession tk tenant port conn) = conn"
  "us_clientBound (newSession tk tenant port conn) = False" "us_serverBound (newSession tk tenant port conn) = False"
  by (simp_all add: newSession_def)

lemma allocated_index_inv:
  assumes "index_inv t" "fmlookup (ut_byToken t) tk = None" "fmlookup (ut_byPort t) port = None" "0 \<le> now"
  shows "index_inv (allocated now tk tenant fr port conn t)" (is "index_inv ?t")
proof (rule index_invI)
  note l = allocated_live [OF assms(1,2)]
  fix tok i assume "fmlookup (ut_byToken ?t) tok = Some i"
  then show "\<exists>s. live ?t tok i s"
    using index_invD(1) [OF assms(1), of tok i] by (auto simp: l split: if_splits)
next
  fix tok i s assume "live ?t tok i s"
  then show "us_token s = tok \<and> 0 \<le> us_lastActivity s \<and> fmlookup (ut_byPort ?t) (us_serverPort s) = Some i"
    using index_invD(2) [OF assms(1), of tok i s] assms(3,4)
    by (auto simp: allocated_live [OF assms(1,2)] newSession_activity split: if_splits)
next
  fix p i assume "fmlookup (ut_byPort ?t) p = Some i"
  then consider "p = port" "i = ut_next t" | "p \<noteq> port" "fmlookup (ut_byPort t) p = Some i"
    by (auto split: if_splits)
  then show "\<exists>tok s. live ?t tok i s \<and> us_serverPort s = p"
  proof cases
    case 1
    then show ?thesis
      by (intro exI [of _ tk] exI [of _ "touch now (newSession tk tenant port conn)"])
        (simp add: allocated_live [OF assms(1,2)])
  next
    case 2
    from index_invD(3) [OF assms(1) 2(2)] obtain tok s where q: "live t tok i s" "us_serverPort s = p" by blast
    with assms(2) have "tok \<noteq> tk" by (auto simp: live_def)
    with q show ?thesis by (intro exI [of _ tok] exI [of _ s]) (simp add: allocated_live [OF assms(1,2)])
  qed
next
  fix i s assume "fmlookup (ut_store ?t) i = Some s"
  then show "i < ut_next ?t"
    using index_invD(4) [OF assms(1), of i] by (auto simp: less_Suc_eq split: if_splits)
qed

lemma allocated_live_tokens:
  assumes "index_inv t" "fmlookup (ut_byToken t) tk = None"
  shows "live_tokens (allocated now tk tenant fr port conn t) tn =
     (if tn = tenant then insert tk (live_tokens t tn) else live_tokens t tn)"
proof -
  have "\<not> live t tk i s" for i s using assms(2) by (simp add: live_def)
  then have "tok \<in> live_tokens (allocated now tk tenant fr port conn t) tn \<longleftrightarrow>
      tok = tk \<and> tn = tenant \<or> tok \<in> live_tokens t tn" for tok
    by (cases "tok = tk") (auto simp: live_tokens_def allocated_live [OF assms])
  then show ?thesis by (intro set_eqI) simp
qed

lemma allocated_tenant_inv:
  assumes "index_inv t" "tenant_inv t" "fmlookup (ut_byToken t) tk = None"
    "gm_get 0 (ut_tenantN t) tenant < ut_maxPerTenant t"
  shows "tenant_inv (allocated now tk tenant fr port conn t)"
  unfolding tenant_inv_def allocated_live_tokens [OF assms(1,3)]
proof
  fix tn
  have L: "finite (live_tokens t n)"
    "fmlookup (ut_tenantN t) n = (if live_tokens t n = {} then None else Some (int (card (live_tokens t n))))"
    "int (card (live_tokens t n)) \<le> max 0 (ut_maxPerTenant t)" for n
    using assms(2) by (auto simp: tenant_inv_def)
  have g: "gm_get 0 (ut_tenantN t) tenant = int (card (live_tokens t tenant))"
    using L(2) [of tenant] by (auto simp: gm_get_def)
  have "tk \<notin> live_tokens t tenant" using assms(3) by (auto simp: live_tokens_def live_def)
  then have "card (insert tk (live_tokens t tenant)) = card (live_tokens t tenant) + 1"
    using L(1) by simp
  with L [of tn] L(1) [of tenant] g assms(4) show "finite (if tn = tenant then insert tk (live_tokens t tn) else live_tokens t tn) \<and>
      fmlookup (ut_tenantN (allocated now tk tenant fr port conn t)) tn =
       (if (if tn = tenant then insert tk (live_tokens t tn) else live_tokens t tn) = {} then None
        else Some (int (card (if tn = tenant then insert tk (live_tokens t tn) else live_tokens t tn)))) \<and>
      int (card (if tn = tenant then insert tk (live_tokens t tn) else live_tokens t tn))
       \<le> max 0 (ut_maxPerTenant (allocated now tk tenant fr port conn t))"
    by simp
qed

lemma allocated_pool_inv:
  assumes "index_inv t" "pool_inv t" "fmlookup (ut_byToken t) tk = None"
    "pa_free (ut_alloc t) = fr @ [port]" "fmlookup (pa_conns (ut_alloc t)) port = Some conn"
  shows "pool_inv (allocated now tk tenant fr port conn t)"
proof -
  have "distinct (fr @ [port])" using assms(2,4) by (simp add: pool_inv_def)
  then show ?thesis
    using assms(2,4,5) unfolding pool_inv_def allocated_live [OF assms(1,3)]
    by (auto simp: gm_get_def split: if_splits)
qed

lemma allocated_client_inv:
  assumes "index_inv t" "client_inv t" "fmlookup (ut_byToken t) tk = None"
  shows "client_inv (allocated now tk tenant fr port conn t)"
proof (rule client_invI)
  fix a i assume "fmlookup (ut_byClient (allocated now tk tenant fr port conn t)) a = Some i"
  then obtain tok s where q: "live t tok i s" "us_clientBound s" "us_clientAddr s = a"
    using client_invD [OF assms(2), of a i] by auto
  with assms(3) have "tok \<noteq> tk" by (auto simp: live_def)
  with q show "\<exists>tok s. live (allocated now tk tenant fr port conn t) tok i s \<and> us_clientBound s \<and> us_clientAddr s = a"
    by (intro exI [of _ tok] exI [of _ s]) (simp add: allocated_live [OF assms(1,3)])
qed

text \<open>Changes of the allocator alone.\<close>

lemma alloc_frame_inv:
  "table_inv t \<Longrightarrow> pool_inv (t\<lparr>ut_alloc := al\<rparr>) \<Longrightarrow> table_inv (t\<lparr>ut_alloc := al\<rparr>)"
  by (simp add: table_inv_def index_inv_def client_inv_def tenant_inv_def live_tokens_def)

lemma Allocate_inv:
  assumes "table_inv t" "0 \<le> now" "\<And>tk. tok = Some tk \<Longrightarrow> fmlookup (ut_byToken t) tk = None"
  shows "table_inv (snd (ut_Allocate la now tok tenant t))"
proof -
  have inv: "index_inv t" "client_inv t" "pool_inv t" "tenant_inv t"
    using assms(1) by (simp_all add: table_inv_def)
  from inv(3) show ?thesis
  proof (cases rule: Allocate_cases [where la = la and now = now and tok = tok and tenant = tenant])
    case (fail err)
    with assms(1) show ?thesis by simp
  next
    case (rand fr port)
    then have "fmlookup (ut_byPort t) port = None" using inv(3) by (simp add: pool_inv_def)
    then have "pool_inv (t\<lparr>ut_alloc := (ut_alloc t)\<lparr>pa_inUse := fmdrop port (pa_inUse (ut_alloc t))\<rparr>\<rparr>)"
      using inv(3) by (auto simp: pool_inv_def gm_get_def)
    with rand assms(1) show ?thesis by (simp add: alloc_frame_inv)
  next
    case (ok fr port conn tk)
    then have "fmlookup (ut_byPort t) port = None" using inv(3) by (simp add: pool_inv_def)
    with ok inv assms(2,3) show ?thesis
      by (simp add: table_inv_def allocated_index_inv allocated_client_inv allocated_pool_inv allocated_tenant_inv)
  qed
qed

subsection \<open>Disabling a port and sweeping\<close>

lemma release_alloc_commute:
  "ut_releaseLocked tok (t\<lparr>ut_alloc := al\<rparr>) =
     (ut_releaseLocked tok t)\<lparr>ut_alloc := ut_alloc (ut_releaseLocked tok (t\<lparr>ut_alloc := al\<rparr>))\<rparr>"
  by (simp add: ut_releaseLocked_def Let_def split: option.splits)

lemma disablePort_inv:
  assumes "table_inv t"
  shows "table_inv (ut_disablePort port t)"
proof -
  have inv: "index_inv t" "client_inv t" "pool_inv t" "tenant_inv t"
    using assms by (simp_all add: table_inv_def)
  show ?thesis
  proof (cases "fmlookup (ut_byPort t) port")
    case None
    then have "pool_inv (t\<lparr>ut_alloc := pa_disable port (ut_alloc t)\<rparr>)"
      using inv(3) by (auto simp: pool_inv_def pa_disable_def gm_get_def)
    with assms None show ?thesis by (simp add: ut_disablePort_def Let_def alloc_frame_inv)
  next
    case (Some i)
    with index_invD(3) [OF inv(1)] obtain tok s where l: "live t tok i s" "us_serverPort s = port" by blast
    then have tok: "us_token s = tok" using index_invD(2) [OF inv(1)] by blast
    let ?t1 = "t\<lparr>ut_alloc := pa_disable port (ut_alloc t)\<rparr>"
    have l1: "live ?t1 tok i s" using l by simp
    have d: "ut_disablePort port t = ut_releaseLocked tok ?t1"
      using Some l tok by (simp add: ut_disablePort_def Let_def live_def)
    have "table_inv (ut_releaseLocked tok t)" using assms by (rule release_inv)
    moreover have "pool_inv (ut_releaseLocked tok ?t1)"
    proof -
      have i1: "index_inv ?t1" using inv(1) by (simp add: index_inv_def)
      have "pa_release port (pa_disable port (ut_alloc t)) = pa_disable port (ut_alloc t)"
        by (simp add: pa_release_def pa_disable_def gm_get_def)
      then show ?thesis
        using inv(3) l(2) unfolding pool_inv_def release_fields [OF l1] release_live [OF i1 l1]
        by (auto simp: pa_disable_def gm_get_def split: if_splits)
    qed
    ultimately show ?thesis
      unfolding d by (subst release_alloc_commute, intro alloc_frame_inv) (simp_all flip: release_alloc_commute)
  qed
qed

lemma sweepStep_inv: "table_inv t \<Longrightarrow> table_inv (ut_sweepStep now idle tok t)"
  by (simp add: ut_sweepStep_def release_inv split: option.splits)

lemma sweep_inv: "table_inv t \<Longrightarrow> table_inv (ut_sweepOnce now idle ks t)"
  unfolding ut_sweepOnce_def by (induction ks arbitrary: t) (auto intro: sweepStep_inv)

lemma exec_inv: "op_ok e t \<Longrightarrow> table_inv t \<Longrightarrow> table_inv (ut_exec e t)"
  by (cases e) (auto simp: ut_Release_def split: option.splits
      intro: Allocate_inv BindServer_inv BindClient_inv release_inv disablePort_inv sweep_inv)

interpretation udp_table: inv_system ut_step table_inv
  by unfold_locales (auto elim!: ut_stepE intro: exec_inv)

lemma new_table_inv: "table_inv (newUDPSessionTable (newPortAllocator conns) limit)"
  by (simp add: table_inv_def index_inv_def client_inv_def pool_inv_def tenant_inv_def live_def live_tokens_def
      newUDPSessionTable_def newPortAllocator_def gm_get_def fmlookup_dom_iff
      sorted_list_of_fset.rep_eq)

subsection \<open>Where a pooled port is\<close>

text \<open>A port is accounted for when it is either free or owned by a session, and gone when it is
  neither.\<close>

definition port_accounted :: "port \<Rightarrow> 'conn udpSessionTable \<Rightarrow> bool" where
  "port_accounted p t \<longleftrightarrow> (p \<in> set (pa_free (ut_alloc t)) \<longleftrightarrow> fmlookup (ut_byPort t) p = None)"

definition port_gone :: "port \<Rightarrow> 'conn udpSessionTable \<Rightarrow> bool" where
  "port_gone p t \<longleftrightarrow> p \<notin> set (pa_free (ut_alloc t)) \<and> fmlookup (ut_byPort t) p = None"

lemmas port_defs = port_accounted_def port_gone_def

lemma release_port:
  assumes "table_inv t"
  shows "(port_accounted p t \<longrightarrow> port_accounted p (ut_releaseLocked tok t)) \<and>
    (port_gone p t \<longrightarrow> port_gone p (ut_releaseLocked tok t))"
proof (cases "\<exists>i s. live t tok i s")
  case True
  then obtain i s where l: "live t tok i s" by blast
  have inv: "index_inv t" "pool_inv t" using assms by (simp_all add: table_inv_def)
  have o: "fmlookup (ut_byPort t) (us_serverPort s) = Some i" using index_invD(2) [OF inv(1) l] by simp
  then have "gm_get False (pa_inUse (ut_alloc t)) (us_serverPort s)" using inv(2) by (simp add: pool_inv_def)
  with o show ?thesis by (auto simp: port_defs release_fields [OF l] pa_release_def)
qed (simp add: release_dead)

lemma sweep_port:
  "table_inv t \<Longrightarrow> (port_accounted p t \<longrightarrow> port_accounted p (ut_sweepOnce now idle ks t)) \<and>
    (port_gone p t \<longrightarrow> port_gone p (ut_sweepOnce now idle ks t))"
  unfolding ut_sweepOnce_def
proof (induction ks arbitrary: t)
  case (Cons k ks)
  have "(port_accounted p t \<longrightarrow> port_accounted p (ut_sweepStep now idle k t)) \<and>
    (port_gone p t \<longrightarrow> port_gone p (ut_sweepStep now idle k t))"
    using release_port [OF Cons.prems] by (simp add: ut_sweepStep_def split: option.splits)
  with Cons.IH [OF sweepStep_inv [OF Cons.prems]] show ?case by simp
qed simp

lemma alloc_port:
  assumes "table_inv t"
  shows "(port_accounted p t \<longrightarrow> port_accounted p (snd (ut_Allocate la now tok tenant t))) \<and>
    (port_gone p t \<longrightarrow> port_gone p (snd (ut_Allocate la now tok tenant t)))"
proof -
  have inv: "pool_inv t" using assms by (simp add: table_inv_def)
  then have d: "distinct (pa_free (ut_alloc t))" by (simp add: pool_inv_def)
  from inv show ?thesis
    by (cases rule: Allocate_cases [where la = la and now = now and tok = tok and tenant = tenant])
      (use d in \<open>auto simp: port_defs\<close>)
qed

lemma disable_fields:
  assumes "table_inv t"
  shows "set (pa_free (ut_alloc (ut_disablePort port t))) = set (pa_free (ut_alloc t)) - {port}"
    "ut_byPort (ut_disablePort port t) = fmdrop port (ut_byPort t)"
proof -
  have inv: "index_inv t" "distinct (pa_free (ut_alloc t))" using assms by (simp_all add: table_inv_def pool_inv_def)
  let ?t1 = "t\<lparr>ut_alloc := pa_disable port (ut_alloc t)\<rparr>"
  have "set (pa_free (ut_alloc (ut_disablePort port t))) = set (pa_free (ut_alloc t)) - {port} \<and>
    ut_byPort (ut_disablePort port t) = fmdrop port (ut_byPort t)"
  proof (cases "fmlookup (ut_byPort t) port")
    case None
    then have "fmdrop port (ut_byPort t) = ut_byPort t" by (simp add: fmdrop_idle fmdom_notI)
    with None inv(2) show ?thesis by (simp add: ut_disablePort_def Let_def pa_disable_def)
  next
    case (Some i)
    with index_invD(3) [OF inv(1)] obtain tok s where l: "live t tok i s" "us_serverPort s = port" by blast
    then have "us_token s = tok" using index_invD(2) [OF inv(1)] by blast
    with Some l have d: "ut_disablePort port t = ut_releaseLocked tok ?t1"
      by (simp add: ut_disablePort_def Let_def live_def)
    have l1: "live ?t1 tok i s" using l by simp
    show ?thesis unfolding d release_fields [OF l1]
      using l(2) inv(2) by (simp add: pa_release_def pa_disable_def gm_get_def)
  qed
  then show "set (pa_free (ut_alloc (ut_disablePort port t))) = set (pa_free (ut_alloc t)) - {port}"
    "ut_byPort (ut_disablePort port t) = fmdrop port (ut_byPort t)" by auto
qed

lemma bind_port:
  "port_accounted p (snd (ut_BindServer now tok from t)) = port_accounted p t"
  "port_gone p (snd (ut_BindServer now tok from t)) = port_gone p t"
  "port_accounted p (snd (ut_BindClient now tok from t)) = port_accounted p t"
  "port_gone p (snd (ut_BindClient now tok from t)) = port_gone p t"
  by (simp_all add: ut_BindServer_def ut_BindClient_def port_defs Let_def split: option.splits)

lemma disable_port:
  assumes "table_inv t"
  shows "port_gone p (ut_disablePort q t) \<longleftrightarrow> port_gone p t \<or> p = q"
    "p \<noteq> q \<Longrightarrow> port_accounted p (ut_disablePort q t) = port_accounted p t"
  using assms by (auto simp: port_defs disable_fields table_inv_def pool_inv_def)

lemma exec_port:
  assumes "table_inv t"
  shows "e \<noteq> OpDisable p \<Longrightarrow> port_accounted p t \<Longrightarrow> port_accounted p (ut_exec e t)"
    "port_gone p t \<Longrightarrow> port_gone p (ut_exec e t)"
    "port_gone p (ut_exec (OpDisable p) t)"
proof -
  show "port_gone p (ut_exec (OpDisable p) t)"
    by (simp add: disable_port [OF assms])
  show "port_gone p t \<Longrightarrow> port_gone p (ut_exec e t)"
    using release_port [OF assms, of p] sweep_port [OF assms, of p] alloc_port [OF assms, of p]
    by (cases e) (auto simp: bind_port ut_Release_def disable_port [OF assms])
  show "e \<noteq> OpDisable p \<Longrightarrow> port_accounted p t \<Longrightarrow> port_accounted p (ut_exec e t)"
    using release_port [OF assms, of p] sweep_port [OF assms, of p] alloc_port [OF assms, of p]
    by (cases e) (auto simp: bind_port ut_Release_def disable_port [OF assms])
qed

lemma run_port:
  "run ut_step t es t' \<Longrightarrow> table_inv t \<Longrightarrow>
   (port_gone p t \<longrightarrow> port_gone p t') \<and>
   (port_accounted p t \<longrightarrow> (if OpDisable p \<in> set es then port_gone p t' else port_accounted p t'))"
proof (induction rule: run.induct)
  case (run_cons s e t es u)
  then have t: "t = ut_exec e s" and inv: "table_inv t" by (auto elim: ut_stepE intro: exec_inv)
  note st = exec_port [OF run_cons.prems] and IH = run_cons.IH [OF inv]
  show ?case
  proof (cases "e = OpDisable p")
    case True
    then show ?thesis using st(3) IH by (simp add: t)
  next
    case False
    then show ?thesis using st(1) [OF False] st(2) IH by (auto simp: t)
  qed
qed simp

subsection \<open>What a sweep removes\<close>

lemma sweepStep_live:
  assumes "index_inv t"
  shows "live (ut_sweepStep now idle k t) tok i s \<longleftrightarrow> live t tok i s \<and> (tok = k \<longrightarrow> now - us_lastActivity s \<le> idle)"
proof (cases "\<exists>j r. live t k j r")
  case True
  then obtain j r where l: "live t k j r" by blast
  have "0 \<le> us_lastActivity r" using index_invD(2) [OF assms l] by simp
  moreover have "live t k i s \<Longrightarrow> s = r" using l by (simp add: live_def)
  ultimately show ?thesis
    using l release_live [OF assms l, of tok i s] by (auto simp: ut_sweepStep_def live_def)
next
  case False
  then have "ut_sweepStep now idle k t = t" by (auto simp: ut_sweepStep_def live_def Option.bind_eq_Some_conv split: option.splits)
  with False show ?thesis by auto
qed

lemma sweep_live:
  "table_inv t \<Longrightarrow> live (ut_sweepOnce now idle ks t) tok i s \<longleftrightarrow>
     live t tok i s \<and> (tok \<in> set ks \<longrightarrow> now - us_lastActivity s \<le> idle)"
  unfolding ut_sweepOnce_def
proof (induction ks arbitrary: t)
  case (Cons k ks)
  then have "index_inv t" by (simp add: table_inv_def)
  with Cons.IH [OF sweepStep_inv [OF Cons.prems]] show ?case by (auto simp: sweepStep_live)
qed simp

section \<open>Properties\<close>

text \<open>Runs whose operations are all allowed, for concrete inputs.\<close>

fun ops_ok :: "udp_op list \<Rightarrow> 'conn udpSessionTable \<Rightarrow> bool" where
  "ops_ok [] t \<longleftrightarrow> True"
| "ops_ok (e # es) t \<longleftrightarrow> op_ok e t \<and> ops_ok es (ut_exec e t)"

lemma run_exec: "ops_ok es t \<Longrightarrow> run ut_step t es (fold ut_exec es t)"
  by (induction es arbitrary: t) (auto intro: run.intros ut_step.intros)

definition demo_table :: "string udpSessionTable" where
  "demo_table = newUDPSessionTable (newPortAllocator (fmupd 7 ''s'' fmempty)) 2"

definition demo_ops :: "udp_op list" where
  "demo_ops = [OpAllocate 5 (Some [1]) ''a'', OpBindClient 6 [1] (AddrPort (IP4 9) 80)]"

lemma demo_ok: "ops_ok demo_ops demo_table"
  by (simp add: demo_ops_def demo_table_def newUDPSessionTable_def)

lemma demo_result:
  "fold ut_exec demo_ops demo_table =
    \<lparr>ut_alloc = \<lparr>pa_conns = fmupd 7 ''s'' fmempty, pa_free = [], pa_inUse = fmupd 7 True fmempty\<rparr>,
     ut_store = fmupd 0 ((touch 6 (newSession [1] ''a'' 7 ''s''))
       \<lparr>us_clientAddr := AddrPort (IP4 9) 80, us_clientBound := True\<rparr>) fmempty,
     ut_next = 1, ut_byToken = fmupd [1] 0 fmempty, ut_byPort = fmupd 7 0 fmempty,
     ut_byClient = fmupd (AddrPort (IP4 9) 80) 0 fmempty, ut_tenantN = fmupd ''a'' 1 fmempty,
     ut_maxPerTenant = 2\<rparr>"
  by (simp add: demo_ops_def demo_table_def newUDPSessionTable_def newPortAllocator_def ut_Allocate_def
      pa_allocate_def ut_BindClient_def upd_session_def touch_def newSession_def gm_get_def Let_def
      sorted_list_of_fset.rep_eq)

lemma demo_run:
  "run ut_step (newUDPSessionTable (newPortAllocator (fmupd 7 ''s'' fmempty)) 2) demo_ops
     (fold ut_exec demo_ops demo_table)"
  using run_exec [OF demo_ok] unfolding demo_table_def .

lemma demo_not_disabled: "OpDisable p \<notin> set demo_ops"
  by (simp add: demo_ops_def)

text \<open>C4: Whatever operations the relay runs on a new table, the indexes agree with each other and
  with the sessions: an address in the client index belongs to a session that is live, reachable by
  its own token and port, and currently bound to exactly that address. A datagram is thus never
  matched with a released session, nor with an address the session has moved away from.\<close>

theorem client_index_never_stale:
  assumes "run ut_step (newUDPSessionTable (newPortAllocator conns) limit) es t"
    and "ut_LookupByClientAddr a t = Some i"
  shows "\<exists>s. fmlookup (ut_store t) i = Some s \<and> us_clientBound s \<and> us_clientAddr s = a \<and>
    0 \<le> us_lastActivity s \<and> fmlookup (ut_byToken t) (us_token s) = Some i \<and>
    ut_sessionForPort (us_serverPort s) t = Some i"
proof -
  have "table_inv t" using udp_table.run_inv [OF assms(1)] new_table_inv by blast
  then have inv: "index_inv t" "client_inv t" by (simp_all add: table_inv_def)
  from client_invD [OF inv(2), of a i] assms(2) obtain tok s
    where l: "live t tok i s" "us_clientBound s" "us_clientAddr s = a"
    unfolding ut_LookupByClientAddr_def by blast
  with index_invD(2) [OF inv(1) l(1)] show ?thesis
    by (auto simp: live_def ut_sessionForPort_def)
qed

theorem client_index_never_stale_witness:
  "\<exists>s. fmlookup (ut_store (fold ut_exec demo_ops demo_table)) 0 = Some s \<and> us_clientBound s \<and>
     fmlookup (ut_byToken (fold ut_exec demo_ops demo_table)) (us_token s) = Some 0"
  using client_index_never_stale [OF demo_run, of "AddrPort (IP4 9) 80" 0]
  by (simp add: demo_result ut_LookupByClientAddr_def)

text \<open>The sessions of a table that any operations have built share nothing: two live tokens
  stand for different sessions on different pooled ports, each session sends from the socket of its
  own port, and no tenant holds more sessions than its limit.\<close>

theorem sessions_exclusive:
  assumes "run ut_step (newUDPSessionTable (newPortAllocator conns) limit) es t"
    and "fmlookup (ut_byToken t) tok = Some i" and "fmlookup (ut_byToken t) tok' = Some j"
  shows "\<exists>s r. fmlookup (ut_store t) i = Some s \<and> fmlookup (ut_store t) j = Some r \<and>
    fmlookup (pa_conns (ut_alloc t)) (us_serverPort s) = Some (us_serverConn s) \<and>
    (us_serverPort s = us_serverPort r \<longleftrightarrow> tok = tok') \<and> (i = j \<longleftrightarrow> tok = tok') \<and>
    int (card (live_tokens t (us_tenant s))) \<le> max 0 (ut_maxPerTenant t)"
proof -
  have "table_inv t" using udp_table.run_inv [OF assms(1)] new_table_inv by blast
  then have inv: "index_inv t" "pool_inv t" "tenant_inv t" by (simp_all add: table_inv_def)
  from index_invD(1) [OF inv(1)] assms(2,3) obtain s r where l: "live t tok i s" "live t tok' j r" by blast
  have own: "fmlookup (ut_byPort t) (us_serverPort s) = Some i" "fmlookup (ut_byPort t) (us_serverPort r) = Some j"
    using index_invD(2) [OF inv(1)] l by blast+
  have ij: "i = j \<longleftrightarrow> tok = tok'"
  proof
    assume "i = j"
    with l live_id_unique [OF inv(1) l(1), of tok' r] show "tok = tok'" by simp
  qed (use assms(2,3) in simp)
  have "us_serverPort s = us_serverPort r \<longleftrightarrow> tok = tok'"
  proof
    assume "us_serverPort s = us_serverPort r"
    with own ij show "tok = tok'" by simp
  next
    assume "tok = tok'"
    with ij l show "us_serverPort s = us_serverPort r" by (simp add: live_def)
  qed
  moreover have "fmlookup (pa_conns (ut_alloc t)) (us_serverPort s) = Some (us_serverConn s)"
    using inv(2) l(1) by (auto simp: pool_inv_def)
  moreover have "int (card (live_tokens t (us_tenant s))) \<le> max 0 (ut_maxPerTenant t)"
    using inv(3) by (simp add: tenant_inv_def)
  ultimately show ?thesis using l ij unfolding live_def by blast
qed

theorem sessions_exclusive_witness:
  "\<exists>s. fmlookup (ut_store (fold ut_exec demo_ops demo_table)) 0 = Some s \<and>
     fmlookup (pa_conns (ut_alloc (fold ut_exec demo_ops demo_table))) (us_serverPort s) = Some (us_serverConn s)"
  using sessions_exclusive [OF demo_run, of "[1]" 0 "[1]" 0] by (auto simp: demo_result)

text \<open>No pooled port is ever lost or handed out twice: after any operations a port of the pool
  is either free or owned by one session, never both, except that a port whose reader has failed
  (\<open>disablePort\<close>) is neither, and stays so.\<close>

theorem pool_ports_accounted:
  assumes "run ut_step (newUDPSessionTable (newPortAllocator conns) limit) es t"
    and "fmlookup conns p \<noteq> None"
  shows "if OpDisable p \<in> set es
    then p \<notin> set (pa_free (ut_alloc t)) \<and> ut_sessionForPort p t = None
    else (p \<in> set (pa_free (ut_alloc t)) \<longleftrightarrow> ut_sessionForPort p t = None)"
proof -
  have "port_accounted p (newUDPSessionTable (newPortAllocator conns) limit)"
    using assms(2) by (simp add: port_accounted_def newUDPSessionTable_def newPortAllocator_def
        fmlookup_dom_iff)
  then have "if OpDisable p \<in> set es then port_gone p t else port_accounted p t"
    using run_port [OF assms(1) new_table_inv, of p] by blast
  then show ?thesis by (simp only: port_defs ut_sessionForPort_def)
qed

theorem pool_ports_accounted_witness:
  "7 \<notin> set (pa_free (ut_alloc (fold ut_exec demo_ops demo_table))) \<and>
   ut_sessionForPort 7 (fold ut_exec demo_ops demo_table) = Some 0"
  using pool_ports_accounted [OF demo_run, of 7]
  by (simp add: demo_result demo_not_disabled ut_sessionForPort_def)

text \<open>A sweep ends exactly the sessions that have been idle for longer than the timeout,
  whatever order the range loop takes, and leaves every other session as it is.\<close>

theorem sweep_removes_exactly_idle:
  assumes "run ut_step (newUDPSessionTable (newPortAllocator conns) limit) es t"
    and "range_order ks (ut_byToken t)"
  shows "live (ut_sweepOnce now idle ks t) tok i s \<longleftrightarrow>
    live t tok i s \<and> now - us_lastActivity s \<le> idle"
proof -
  have "table_inv t" using udp_table.run_inv [OF assms(1)] new_table_inv by blast
  moreover have "live t tok i s \<Longrightarrow> tok \<in> set ks"
    using assms(2) by (auto simp: range_order_iff live_def)
  ultimately show ?thesis by (auto simp: sweep_live)
qed

theorem sweep_removes_exactly_idle_witness:
  "live (fold ut_exec demo_ops demo_table) [1] 0 (touch 6 ((newSession [1] ''a'' 7 ''s'')
     \<lparr>us_clientAddr := AddrPort (IP4 9) 80, us_clientBound := True\<rparr>)) \<and>
   \<not> live (ut_sweepOnce 20 10 [[1]] (fold ut_exec demo_ops demo_table)) [1] 0
       (touch 6 ((newSession [1] ''a'' 7 ''s'')\<lparr>us_clientAddr := AddrPort (IP4 9) 80, us_clientBound := True\<rparr>))"
  using sweep_removes_exactly_idle [OF demo_run, of "[[1]]" 20 10 "[1]" 0
      "touch 6 ((newSession [1] ''a'' 7 ''s'')\<lparr>us_clientAddr := AddrPort (IP4 9) 80, us_clientBound := True\<rparr>)"]
  by (simp add: demo_result live_def range_order_iff touch_def newSession_def)

end
