(* ===== verification/Udp_Forward.thy ===== *)
theory Udp_Forward
  imports Udp_Session Control_Frames Authlimit
begin

text \<open>
  \<^verbatim>\<open>pkg/relay/udpforward.go\<close> and \<^verbatim>\<open>pkg/relay/reflect.go\<close>: the forwarding engine of the
  UDP-relay tier and the address reflector. A handler returns the datagrams it writes and the
  new state; the result of a write is an argument. The read loops of the two legs run
  concurrently with each other and with the control plane, so the step relation also has the
  two halves of a handler, the lookup of the session and what follows it, as separate steps
  with anything in between. The snapshot of the two legs and the write it permits are one step: a session that is
  released between them still gets that one datagram, so a property that a session is live speaks of the moment of the snapshot.
\<close>

section \<open>Sockets and packets\<close>

definition readBufSize :: nat where
  "readBufSize = MaxRelayDatagram + 64"

datatype netAddr = UDPAddr addrPort | OtherAddr

definition addrPort_of :: "netAddr \<Rightarrow> addrPort option" where
  "addrPort_of a = (case a of UDPAddr ap \<Rightarrow> Some (AddrPort (Unmap (ap_Addr ap)) (ap_Port ap)) | OtherAddr \<Rightarrow> None)"

datatype 'conn socket = ClientConn | ServerConn 'conn

record 'conn packet =
  pk_sock :: "'conn socket"
  pk_dst :: addrPort
  pk_data :: bytes

type_synonym write_result = "nat option" \<comment> \<open>None is an error, Some n the bytes written\<close>

record 'conn datagramRelay =
  dr_sessions :: "'conn udpSessionTable"
  dr_rate :: sourceLimiter

definition newRateLimiter :: "int \<Rightarrow> sourceLimiter" where
  "newRateLimiter limit = NewSourceLimiter limit minute 0"

definition newDatagramRelay :: "'conn udpSessionTable \<Rightarrow> int \<Rightarrow> 'conn datagramRelay" where
  "newDatagramRelay t maxNewBindsPerMinute =
     \<lparr>dr_sessions = t, dr_rate = newRateLimiter maxNewBindsPerMinute\<rparr>"

definition on_session ::
  "sid \<Rightarrow> ('conn udpRelaySession \<Rightarrow> 'conn udpRelaySession) \<Rightarrow> 'conn datagramRelay \<Rightarrow> 'conn datagramRelay" where
  "on_session i f d = d\<lparr>dr_sessions := upd_session i f (dr_sessions d)\<rparr>"

section \<open>The client leg\<close>

text \<open>The part of \<open>forwardFromClient\<close> after its lookup has returned the session \<open>i\<close>.\<close>

definition clientSend ::
  "gotime \<Rightarrow> write_result \<Rightarrow> sid \<Rightarrow> bytes \<Rightarrow> 'conn datagramRelay \<Rightarrow> 'conn packet list \<times> 'conn datagramRelay" where
  "clientSend now w i b d =
     (let d1 = on_session i (clientReceived (length b)) d
      in case fmlookup (ut_store (dr_sessions d1)) i of
           None \<Rightarrow> ([], d1)
         | Some s \<Rightarrow>
             (case legs s of (serverAddr, serverBound, _, _) \<Rightarrow>
                if \<not> serverBound then ([], d1)
                else let d2 = on_session i (touch now) d1;
                         d3 = (if w = Some (length b) then on_session i (serverForwarded (length b)) d2 else d2)
                     in ([\<lparr>pk_sock = ServerConn (us_serverConn s), pk_dst = serverAddr, pk_data = b\<rparr>], d3)))"

definition forwardFromClient ::
  "gotime \<Rightarrow> write_result \<Rightarrow> bytes \<Rightarrow> addrPort \<Rightarrow> 'conn datagramRelay \<Rightarrow> 'conn packet list \<times> 'conn datagramRelay" where
  "forwardFromClient now w b from d =
     (case ut_LookupByClientAddr from (dr_sessions d) of
        None \<Rightarrow> ([], d)
      | Some i \<Rightarrow> clientSend now w i b d)"

definition bindAck :: bytes where
  "bindAck = EncodeControlFrame FrameRelayBindAck []"

definition handleClientDatagram ::
  "(ipAddr \<Rightarrow> string) \<Rightarrow> gotime \<Rightarrow> string list \<Rightarrow> write_result \<Rightarrow> bytes \<Rightarrow> addrPort \<Rightarrow> 'conn datagramRelay
   \<Rightarrow> 'conn packet list \<times> 'conn datagramRelay" where
  "handleClientDatagram addrString now ks w b from d =
     (case DecodeControlFrame b of
        Some (typ, payload) \<Rightarrow>
          if typ = FrameRelayBind then
            (let (allowed, d1) =
               (if ut_knownClientBind payload from (dr_sessions d) then (True, d)
                else let (ok, rate) = source_Allow now ks (addrString (ap_Addr from)) (dr_rate d)
                     in (ok, d\<lparr>dr_rate := rate\<rparr>))
             in if \<not> allowed then ([], d1)
                else case ut_BindClient now payload from (dr_sessions d1) of
                       (None, _) \<Rightarrow> ([], d1)
                     | (Some _, t) \<Rightarrow>
                         ([\<lparr>pk_sock = ClientConn, pk_dst = from, pk_data = bindAck\<rparr>], d1\<lparr>dr_sessions := t\<rparr>))
          else if typ = FramePathProbe \<or> typ = FramePathAck then
            (if ValidPathControl typ payload then forwardFromClient now w b from d else ([], d))
          else ([], d)
      | None \<Rightarrow>
          if \<not> ValidRelayDatagram b then ([], d) else forwardFromClient now w b from d)"

section \<open>The server leg\<close>

definition forwardFromServer ::
  "gotime \<Rightarrow> write_result \<Rightarrow> sid \<Rightarrow> bytes \<Rightarrow> addrPort \<Rightarrow> 'conn datagramRelay \<Rightarrow> 'conn packet list \<times> 'conn datagramRelay" where
  "forwardFromServer now w i b from d =
     (case fmlookup (ut_store (dr_sessions d)) i of
        None \<Rightarrow> ([], d)
      | Some s \<Rightarrow>
          (case legs s of (serverAddr, serverBound, clientAddr, clientBound) \<Rightarrow>
             if \<not> serverBound \<or> from \<noteq> serverAddr \<or> \<not> clientBound then ([], d)
             else let d1 = on_session i (serverReceived (length b)) d;
                      d2 = on_session i (touch now) d1;
                      d3 = (if w = Some (length b) then on_session i (clientForwarded (length b)) d2 else d2)
                  in ([\<lparr>pk_sock = ClientConn, pk_dst = clientAddr, pk_data = b\<rparr>], d3)))"

text \<open>The part of \<open>handleServerDatagram\<close> after its lookup has returned the session \<open>i\<close>.\<close>

definition serverHandle ::
  "gotime \<Rightarrow> write_result \<Rightarrow> sid \<Rightarrow> bytes \<Rightarrow> addrPort \<Rightarrow> 'conn datagramRelay \<Rightarrow> 'conn packet list \<times> 'conn datagramRelay" where
  "serverHandle now w i b from d =
     (case DecodeControlFrame b of
        Some (typ, payload) \<Rightarrow>
          if typ = FrameRelayBind then
            (case fmlookup (ut_store (dr_sessions d)) i of
               None \<Rightarrow> ([], d)
             | Some s \<Rightarrow>
                 if payload \<noteq> us_token s then ([], d)
                 else ([\<lparr>pk_sock = ServerConn (us_serverConn s), pk_dst = from, pk_data = bindAck\<rparr>],
                       d\<lparr>dr_sessions := snd (ut_BindServer now (us_token s) from (dr_sessions d))\<rparr>))
          else if typ = FramePathProbe \<or> typ = FramePathAck then
            (if ValidPathControl typ payload then forwardFromServer now w i b from d else ([], d))
          else ([], d)
      | None \<Rightarrow>
          if \<not> ValidRelayDatagram b then ([], d) else forwardFromServer now w i b from d)"

definition handleServerDatagram ::
  "gotime \<Rightarrow> write_result \<Rightarrow> port \<Rightarrow> bytes \<Rightarrow> addrPort \<Rightarrow> 'conn datagramRelay \<Rightarrow> 'conn packet list \<times> 'conn datagramRelay" where
  "handleServerDatagram now w port b from d =
     (case ut_sessionForPort port (dr_sessions d) of
        None \<Rightarrow> ([], d)
      | Some i \<Rightarrow> serverHandle now w i b from d)"

section \<open>The read loops\<close>

datatype readErr = ErrClosed | ErrTemporary | ErrOther

definition retryRead :: "readErr \<Rightarrow> bool" where
  "retryRead err = (if err = ErrClosed then False else err = ErrTemporary)"

text \<open>
  One round of a read loop: whether the loop goes on, what it writes and the new state. A
  datagram longer than the buffer is cut, as \<open>ReadFrom\<close> does.
\<close>

definition serveClientLeg ::
  "(ipAddr \<Rightarrow> string) \<Rightarrow> gotime \<Rightarrow> string list \<Rightarrow> write_result \<Rightarrow> readErr + bytes \<times> netAddr \<Rightarrow> 'conn datagramRelay
   \<Rightarrow> bool \<times> 'conn packet list \<times> 'conn datagramRelay" where
  "serveClientLeg addrString now ks w r d =
     (case r of
        Inl err \<Rightarrow> (retryRead err, [], d)
      | Inr (dgram, addr) \<Rightarrow>
          (case addrPort_of addr of
             None \<Rightarrow> (True, [], d)
           | Some from \<Rightarrow> (True, handleClientDatagram addrString now ks w (take readBufSize dgram) from d)))"

definition serveServerLeg ::
  "gotime \<Rightarrow> write_result \<Rightarrow> port \<Rightarrow> readErr + bytes \<times> netAddr \<Rightarrow> 'conn datagramRelay
   \<Rightarrow> bool \<times> 'conn packet list \<times> 'conn datagramRelay" where
  "serveServerLeg now w port r d =
     (case r of
        Inl err \<Rightarrow>
          if retryRead err then (True, [], d)
          else (False, [], if err \<noteq> ErrClosed then d\<lparr>dr_sessions := ut_disablePort port (dr_sessions d)\<rparr> else d)
      | Inr (dgram, addr) \<Rightarrow>
          (case addrPort_of addr of
             None \<Rightarrow> (True, [], d)
           | Some from \<Rightarrow> (True, handleServerDatagram now w port (take readBufSize dgram) from d)))"

section \<open>The reflector\<close>

definition reflect_handle ::
  "(ipAddr \<Rightarrow> string) \<Rightarrow> (addrPort \<Rightarrow> bytes) \<Rightarrow> gotime \<Rightarrow> string list \<Rightarrow> bytes \<Rightarrow> netAddr \<Rightarrow> sourceLimiter
   \<Rightarrow> (bytes \<times> addrPort) list \<times> sourceLimiter" where
  "reflect_handle addrString apString now ks b addr rate =
     (case addr of
        OtherAddr \<Rightarrow> ([], rate)
      | UDPAddr ap \<Rightarrow>
          (case source_Allow now ks (addrString (ap_Addr ap)) rate of
             (False, rate') \<Rightarrow> ([], rate')
           | (True, rate') \<Rightarrow>
               (case DecodeControlFrame b of
                  None \<Rightarrow> ([], rate')
                | Some (typ, _) \<Rightarrow>
                    if typ \<noteq> FrameReflectRequest then ([], rate')
                    else ([(EncodeControlFrame FrameReflectResponse (apString ap), ap)], rate'))))"

section \<open>The relay as a transition system\<close>

text \<open>
  An event is the handling of a datagram as a whole, the two halves of a handling with other
  events in between (\<open>LookupClient\<close>, \<open>LookupServer\<close> and the matching \<open>Finish\<close>), or an
  operation of the control plane on the table. Handling events carry what was written.
\<close>

datatype 'conn fwd_event =
    HandleClient bytes addrPort "'conn packet list"
  | HandleServer port bytes addrPort "'conn packet list"
  | LookupClient bytes addrPort sid
  | FinishClient bytes addrPort sid "'conn packet list"
  | LookupServer port bytes addrPort sid
  | FinishServer bytes addrPort sid "'conn packet list"
  | ControlOp udp_op

record 'conn fwdSystem =
  fs_relay :: "'conn datagramRelay"
  fs_clientFlight :: "(bytes \<times> addrPort \<times> sid) set"
  fs_serverFlight :: "(bytes \<times> addrPort \<times> sid) set"

text \<open>The datagrams a client-leg handler passes on to \<open>forwardFromClient\<close>.\<close>

definition forwardable :: "bytes \<Rightarrow> bool" where
  "forwardable b =
     (case DecodeControlFrame b of
        Some (typ, payload) \<Rightarrow> ValidPathControl typ payload
      | None \<Rightarrow> ValidRelayDatagram b)"

fun control_plane :: "udp_op \<Rightarrow> bool" where
  "control_plane (OpBindServer _ _ _) = False"
| "control_plane (OpBindClient _ _ _) = False"
| "control_plane _ = True"

inductive fwd_step :: "(ipAddr \<Rightarrow> string) \<Rightarrow> 'conn fwdSystem \<Rightarrow> 'conn fwd_event \<Rightarrow> 'conn fwdSystem \<Rightarrow> bool"
  for addrString where
  handle_client: "0 \<le> now \<Longrightarrow> handleClientDatagram addrString now ks w b from (fs_relay s) = (outs, d) \<Longrightarrow>
    fwd_step addrString s (HandleClient b from outs) (s\<lparr>fs_relay := d\<rparr>)"
| handle_server: "0 \<le> now \<Longrightarrow> handleServerDatagram now w port b from (fs_relay s) = (outs, d) \<Longrightarrow>
    fwd_step addrString s (HandleServer port b from outs) (s\<lparr>fs_relay := d\<rparr>)"
| lookup_client: "forwardable b \<Longrightarrow> ut_LookupByClientAddr from (dr_sessions (fs_relay s)) = Some i \<Longrightarrow>
    fwd_step addrString s (LookupClient b from i) (s\<lparr>fs_clientFlight := insert (b, from, i) (fs_clientFlight s)\<rparr>)"
| finish_client: "0 \<le> now \<Longrightarrow> (b, from, i) \<in> fs_clientFlight s \<Longrightarrow> clientSend now w i b (fs_relay s) = (outs, d) \<Longrightarrow>
    fwd_step addrString s (FinishClient b from i outs) (s\<lparr>fs_relay := d\<rparr>)"
| lookup_server: "ut_sessionForPort port (dr_sessions (fs_relay s)) = Some i \<Longrightarrow>
    fwd_step addrString s (LookupServer port b from i) (s\<lparr>fs_serverFlight := insert (b, from, i) (fs_serverFlight s)\<rparr>)"
| finish_server: "0 \<le> now \<Longrightarrow> (b, from, i) \<in> fs_serverFlight s \<Longrightarrow> serverHandle now w i b from (fs_relay s) = (outs, d) \<Longrightarrow>
    fwd_step addrString s (FinishServer b from i outs) (s\<lparr>fs_relay := d\<rparr>)"
| control_op: "control_plane e \<Longrightarrow> op_ok e (dr_sessions (fs_relay s)) \<Longrightarrow>
    fwd_step addrString s (ControlOp e)
      (s\<lparr>fs_relay := (fs_relay s)\<lparr>dr_sessions := ut_exec e (dr_sessions (fs_relay s))\<rparr>\<rparr>)"

inductive_cases fwd_stepE: "fwd_step addrString s e s'"

text \<open>The bind frames a run has acknowledged: the leg, the token and the source address.\<close>

datatype leg = ClientLeg | ServerLeg

fun is_ack :: "'conn packet \<Rightarrow> bool" where
  "is_ack p \<longleftrightarrow> pk_data p = bindAck"

fun bind_frame :: "leg \<Rightarrow> bytes \<Rightarrow> addrPort \<Rightarrow> 'conn packet list \<Rightarrow> (leg \<times> bytes \<times> addrPort) set" where
  "bind_frame l b from outs =
     (case DecodeControlFrame b of
        Some (typ, payload) \<Rightarrow>
          if typ = FrameRelayBind \<and> (\<exists>p \<in> set outs. pk_dst p = from \<and> is_ack p) then {(l, payload, from)} else {}
      | None \<Rightarrow> {})"

fun event_binds :: "'conn fwd_event \<Rightarrow> (leg \<times> bytes \<times> addrPort) set" where
  "event_binds (HandleClient b from outs) = bind_frame ClientLeg b from outs"
| "event_binds (HandleServer port b from outs) = bind_frame ServerLeg b from outs"
| "event_binds (FinishServer b from i outs) = bind_frame ServerLeg b from outs"
| "event_binds _ = {}"

definition binds :: "'conn fwd_event list \<Rightarrow> (leg \<times> bytes \<times> addrPort) set" where
  "binds es = (\<Union>e \<in> set es. event_binds e)"

text \<open>What an event forwarded: the leg the datagram came in on, its source, and the packet.\<close>

fun event_out :: "'conn fwd_event \<Rightarrow> (leg \<times> addrPort \<times> 'conn packet) list" where
  "event_out (HandleClient b from outs) = map (\<lambda>p. (ClientLeg, from, p)) outs"
| "event_out (HandleServer port b from outs) = map (\<lambda>p. (ServerLeg, from, p)) outs"
| "event_out (FinishClient b from i outs) = map (\<lambda>p. (ClientLeg, from, p)) outs"
| "event_out (FinishServer b from i outs) = map (\<lambda>p. (ServerLeg, from, p)) outs"
| "event_out _ = []"

fun other_leg :: "leg \<Rightarrow> leg" where
  "other_leg ClientLeg = ServerLeg"
| "other_leg ServerLeg = ClientLeg"

section \<open>The history invariant\<close>

definition bound_hist :: "(leg \<times> bytes \<times> addrPort) set \<Rightarrow> 'conn udpSessionTable \<Rightarrow> bool" where
  "bound_hist B t \<longleftrightarrow>
     (\<forall>i s. fmlookup (ut_store t) i = Some s \<longrightarrow>
        (us_clientBound s \<longrightarrow> (ClientLeg, us_token s, us_clientAddr s) \<in> B) \<and>
        (us_serverBound s \<longrightarrow> (ServerLeg, us_token s, us_serverAddr s) \<in> B))"

definition bound_live :: "'conn udpSessionTable \<Rightarrow> bool" where
  "bound_live t \<longleftrightarrow>
     (\<forall>i s. fmlookup (ut_store t) i = Some s \<longrightarrow> us_clientBound s \<or> us_serverBound s \<longrightarrow>
        fmlookup (ut_byToken t) (us_token s) = Some i)"

definition flight_hist :: "(leg \<times> bytes \<times> addrPort) set \<Rightarrow> (bytes \<times> addrPort \<times> sid) set \<Rightarrow> 'conn udpSessionTable \<Rightarrow> bool" where
  "flight_hist B fl t \<longleftrightarrow>
     (\<forall>(b, from, i) \<in> fl. \<exists>s. fmlookup (ut_store t) i = Some s \<and> (ClientLeg, us_token s, from) \<in> B)"

definition fwd_hinv :: "'conn fwd_event list \<Rightarrow> 'conn fwdSystem \<Rightarrow> bool" where
  "fwd_hinv es s \<longleftrightarrow>
     (let t = dr_sessions (fs_relay s)
      in table_inv t \<and> bound_live t \<and> bound_hist (binds es) t \<and> flight_hist (binds es) (fs_clientFlight s) t)"

text \<open>Tables that differ by operations that bind nothing.\<close>

definition quiet :: "'conn udpSessionTable \<Rightarrow> 'conn udpSessionTable \<Rightarrow> bool" where
  "quiet t t' \<longleftrightarrow>
     (\<forall>i s. fmlookup (ut_store t) i = Some s \<longrightarrow>
        (\<exists>s'. fmlookup (ut_store t') i = Some s' \<and> us_token s' = us_token s)) \<and>
     (\<forall>i s'. fmlookup (ut_store t') i = Some s' \<longrightarrow> us_clientBound s' \<or> us_serverBound s' \<longrightarrow>
        (\<exists>s. fmlookup (ut_store t) i = Some s \<and> us_token s' = us_token s \<and>
             (us_clientBound s' \<longrightarrow> us_clientBound s \<and> us_clientAddr s' = us_clientAddr s) \<and>
             (us_serverBound s' \<longrightarrow> us_serverBound s \<and> us_serverAddr s' = us_serverAddr s)))"

section \<open>Lemmas\<close>

lemma quiet_refl [simp]: "quiet t t"
  by (auto simp: quiet_def)

lemma quietD1:
  "quiet t t' \<Longrightarrow> fmlookup (ut_store t) i = Some s \<Longrightarrow>
   \<exists>s'. fmlookup (ut_store t') i = Some s' \<and> us_token s' = us_token s"
  unfolding quiet_def by blast

lemma quietD2:
  "quiet t t' \<Longrightarrow> fmlookup (ut_store t') i = Some s' \<Longrightarrow> us_clientBound s' \<or> us_serverBound s' \<Longrightarrow>
   \<exists>s. fmlookup (ut_store t) i = Some s \<and> us_token s' = us_token s \<and>
       (us_clientBound s' \<longrightarrow> us_clientBound s \<and> us_clientAddr s' = us_clientAddr s) \<and>
       (us_serverBound s' \<longrightarrow> us_serverBound s \<and> us_serverAddr s' = us_serverAddr s)"
  unfolding quiet_def by blast

lemma quiet_trans:
  assumes "quiet t u" "quiet u v"
  shows "quiet t v"
  unfolding quiet_def
proof (intro conjI allI impI)
  fix i s assume "fmlookup (ut_store t) i = Some s"
  then obtain s1 where s1: "fmlookup (ut_store u) i = Some s1" "us_token s1 = us_token s"
    using quietD1 [OF assms(1)] by blast
  from quietD1 [OF assms(2) s1(1)] s1(2) show "\<exists>s'. fmlookup (ut_store v) i = Some s' \<and> us_token s' = us_token s"
    by simp
next
  fix i s' assume s': "fmlookup (ut_store v) i = Some s'" "us_clientBound s' \<or> us_serverBound s'"
  from quietD2 [OF assms(2) s'] obtain s1 where s1: "fmlookup (ut_store u) i = Some s1"
    "us_token s' = us_token s1"
    "us_clientBound s' \<longrightarrow> us_clientBound s1 \<and> us_clientAddr s' = us_clientAddr s1"
    "us_serverBound s' \<longrightarrow> us_serverBound s1 \<and> us_serverAddr s' = us_serverAddr s1" by blast
  with s'(2) have "us_clientBound s1 \<or> us_serverBound s1" by blast
  from quietD2 [OF assms(1) s1(1) this] s1(2-4)
  show "\<exists>s. fmlookup (ut_store t) i = Some s \<and> us_token s' = us_token s \<and>
      (us_clientBound s' \<longrightarrow> us_clientBound s \<and> us_clientAddr s' = us_clientAddr s) \<and>
      (us_serverBound s' \<longrightarrow> us_serverBound s \<and> us_serverAddr s' = us_serverAddr s)"
    by auto
qed

lemma quiet_hist:
  assumes "quiet t t'" "bound_hist B t"
  shows "bound_hist B t'"
  unfolding bound_hist_def
proof (intro allI impI conjI)
  fix i s' assume s': "fmlookup (ut_store t') i = Some s'"
  show "us_clientBound s' \<Longrightarrow> (ClientLeg, us_token s', us_clientAddr s') \<in> B"
    using quietD2 [OF assms(1) s'] assms(2) by (auto simp: bound_hist_def)
  show "us_serverBound s' \<Longrightarrow> (ServerLeg, us_token s', us_serverAddr s') \<in> B"
    using quietD2 [OF assms(1) s'] assms(2) by (auto simp: bound_hist_def)
qed

lemma quiet_flight: "quiet t t' \<Longrightarrow> flight_hist B fl t \<Longrightarrow> flight_hist B fl t'"
  unfolding flight_hist_def by (force dest: quietD1)

lemma hist_mono: "bound_hist B t \<Longrightarrow> B \<subseteq> B' \<Longrightarrow> bound_hist B' t"
  unfolding bound_hist_def by blast

lemma flight_mono: "flight_hist B fl t \<Longrightarrow> B \<subseteq> B' \<Longrightarrow> flight_hist B' fl t"
  unfolding flight_hist_def by fast

lemma quiet_release: "quiet t (ut_releaseLocked tok t)"
  by (auto simp: quiet_def ut_releaseLocked_def Let_def split: option.splits)

lemma quiet_sweep: "quiet t (ut_sweepOnce now idle ks t)"
  unfolding ut_sweepOnce_def
proof (induction ks arbitrary: t)
  case (Cons k ks)
  have "quiet t (ut_sweepStep now idle k t)"
    by (simp add: ut_sweepStep_def quiet_release split: option.splits)
  with Cons.IH show ?case by (auto intro: quiet_trans)
qed simp

lemma quiet_disable: "quiet t (ut_disablePort p t)"
proof -
  have "quiet t (t\<lparr>ut_alloc := al\<rparr>)" for al by (auto simp: quiet_def)
  then show ?thesis
    by (auto simp: ut_disablePort_def Let_def split: option.splits intro: quiet_trans quiet_release)
qed

lemma quiet_allocate:
  assumes "table_inv t"
  shows "quiet t (snd (ut_Allocate la now tok tenant t))"
proof -
  have inv: "pool_inv t" "index_inv t" using assms by (simp_all add: table_inv_def)
  have new: "fmlookup (ut_store t) (ut_next t) = None"
    using index_invD(4) [OF inv(2), of "ut_next t"] by (cases "fmlookup (ut_store t) (ut_next t)") auto
  from inv(1) show ?thesis
    by (cases rule: Allocate_cases [where la = la and now = now and tok = tok and tenant = tenant])
      (use new in \<open>auto simp: quiet_def\<close>)
qed

lemma quiet_exec: "table_inv t \<Longrightarrow> control_plane e \<Longrightarrow> quiet t (ut_exec e t)"
  by (cases e) (auto simp: ut_Release_def quiet_allocate quiet_release quiet_disable quiet_sweep)

text \<open>Steps that bind nothing and keep the invariants of the table.\<close>

definition calm :: "'conn udpSessionTable \<Rightarrow> 'conn udpSessionTable \<Rightarrow> bool" where
  "calm t t' \<longleftrightarrow> quiet t t' \<and> (table_inv t \<longrightarrow> table_inv t') \<and> (bound_live t \<longrightarrow> bound_live t')"

lemma calm_refl [simp]: "calm t t"
  by (simp add: calm_def)

lemma calm_trans: "calm t u \<Longrightarrow> calm u v \<Longrightarrow> calm t v"
  by (auto simp: calm_def intro: quiet_trans)

lemma calm_hinv:
  assumes "calm (dr_sessions (fs_relay s)) (dr_sessions d)" "fwd_hinv es s"
  shows "fwd_hinv (es @ [e]) (s\<lparr>fs_relay := d\<rparr>)"
proof -
  have "binds es \<subseteq> binds (es @ [e])" by (auto simp: binds_def)
  with assms show ?thesis
    by (auto simp: fwd_hinv_def Let_def calm_def intro: quiet_hist quiet_flight hist_mono flight_mono)
qed

text \<open>Counters and activity times: updates that leave identity and bindings alone.\<close>

definition silent :: "('conn udpRelaySession \<Rightarrow> 'conn udpRelaySession) \<Rightarrow> bool" where
  "silent f \<longleftrightarrow> keeps_identity f \<and>
     (\<forall>s. us_clientBound (f s) = us_clientBound s \<and> us_clientAddr (f s) = us_clientAddr s \<and>
          us_serverBound (f s) = us_serverBound s \<and> us_serverAddr (f s) = us_serverAddr s)"

lemma silent_ops [simp]:
  "0 \<le> now \<Longrightarrow> silent (touch now)" "silent (clientReceived n)" "silent (serverForwarded n)"
  "silent (serverReceived n)" "silent (clientForwarded n)"
  by (simp_all add: silent_def keeps_identity_def clientReceived_def serverForwarded_def
      serverReceived_def clientForwarded_def)

lemma calm_upd:
  assumes "silent f"
  shows "calm t (upd_session i f t)"
proof -
  have "quiet t (upd_session i f t)"
    using assms by (auto simp: quiet_def silent_def keeps_identity_def split: if_splits)
  moreover have "table_inv t \<Longrightarrow> table_inv (upd_session i f t)"
    using assms by (auto simp: silent_def intro: upd_table_inv)
  moreover have "bound_live t \<Longrightarrow> bound_live (upd_session i f t)"
    using assms by (auto simp: silent_def keeps_identity_def bound_live_def split: if_splits)
  ultimately show ?thesis by (simp add: calm_def)
qed

lemma calm_on: "silent f \<Longrightarrow> calm t (dr_sessions d) \<Longrightarrow> calm t (dr_sessions (on_session i f d))"
  by (auto simp: on_session_def intro: calm_upd calm_trans)

lemma calm_clientSend: "0 \<le> now \<Longrightarrow> calm (dr_sessions d) (dr_sessions (snd (clientSend now w i b d)))"
  by (simp add: clientSend_def Let_def calm_on split: option.splits prod.splits)

lemma calm_forwardFromServer:
  "0 \<le> now \<Longrightarrow> calm (dr_sessions d) (dr_sessions (snd (forwardFromServer now w i b from d)))"
  by (simp add: forwardFromServer_def Let_def calm_on split: option.splits prod.splits)

lemma bound_live_release:
  assumes "table_inv t" "bound_live t"
  shows "bound_live (ut_releaseLocked tok t)"
proof (cases "\<exists>i s. live t tok i s")
  case True
  then obtain i s where l: "live t tok i s" by blast
  have inv: "index_inv t" using assms(1) by (simp add: table_inv_def)
  show ?thesis
    unfolding bound_live_def
  proof (intro allI impI)
    fix j r assume r: "fmlookup (ut_store (ut_releaseLocked tok t)) j = Some r" "us_clientBound r \<or> us_serverBound r"
    then have j: "j \<noteq> i" "fmlookup (ut_store t) j = Some r"
      by (auto simp: release_fields [OF l] split: if_splits)
    with assms(2) r(2) have t: "fmlookup (ut_byToken t) (us_token r) = Some j"
      unfolding bound_live_def by blast
    with j(1) l have "us_token r \<noteq> tok" by (auto simp: live_def)
    with t show "fmlookup (ut_byToken (ut_releaseLocked tok t)) (us_token r) = Some j"
      by (simp add: release_fields [OF l])
  qed
qed (simp add: release_dead assms)

lemma calm_release: "table_inv t \<Longrightarrow> calm t (ut_releaseLocked tok t)"
  by (simp add: calm_def quiet_release release_inv bound_live_release)

lemma calm_sweep: "table_inv t \<Longrightarrow> calm t (ut_sweepOnce now idle ks t)"
  unfolding ut_sweepOnce_def
proof (induction ks arbitrary: t)
  case (Cons k ks)
  have "calm t (ut_sweepStep now idle k t)"
    using Cons.prems by (simp add: ut_sweepStep_def calm_release split: option.splits)
  with Cons.IH [OF sweepStep_inv [OF Cons.prems]] show ?case by (auto intro: calm_trans)
qed simp

lemma bound_live_disable:
  assumes "table_inv t" "bound_live t"
  shows "bound_live (ut_disablePort p t)"
proof -
  have bl: "bound_live (u\<lparr>ut_alloc := al\<rparr>) = bound_live u" for u :: "'a udpSessionTable" and al
    by (simp add: bound_live_def)
  show ?thesis
    unfolding ut_disablePort_def Let_def
    by (simp split: option.splits add: bl assms(2)) (subst release_alloc_commute, simp add: bl bound_live_release assms)
qed

lemma bound_live_allocate:
  assumes "table_inv t" "bound_live t" "\<And>tk. tok = Some tk \<Longrightarrow> fmlookup (ut_byToken t) tk = None"
  shows "bound_live (snd (ut_Allocate la now tok tenant t))"
proof -
  have inv: "pool_inv t" using assms by (simp add: table_inv_def)
  from inv show ?thesis
  proof (cases rule: Allocate_cases [where la = la and now = now and tok = tok and tenant = tenant])
    case (ok fr port conn tk)
    with assms(2,3) show ?thesis by (auto simp: bound_live_def split: if_splits)
  qed (use assms(2) in \<open>simp_all add: bound_live_def\<close>)
qed

lemma calm_exec:
  assumes "table_inv t" "control_plane e" "op_ok e t"
  shows "calm t (ut_exec e t)"
proof (cases e)
  case (OpAllocate now tok tenant)
  then show ?thesis
    using assms by (auto simp: calm_def quiet_allocate intro!: Allocate_inv bound_live_allocate)
next
  case (OpDisable p)
  then show ?thesis
    using assms by (simp add: calm_def quiet_disable disablePort_inv bound_live_disable)
qed (use assms in \<open>auto simp: ut_Release_def calm_release calm_sweep\<close>)

subsection \<open>Binding\<close>

lemma binds_snoc [simp]: "binds (es @ [e]) = binds es \<union> event_binds e"
  by (auto simp: binds_def)

lemma bind_server_hist:
  assumes "table_inv t" "bound_live t" "bound_hist B t" "B \<subseteq> B'" "(ServerLeg, tok, from) \<in> B'"
  shows "bound_hist B' (snd (ut_BindServer now tok from t)) \<and> bound_live (snd (ut_BindServer now tok from t))"
proof (cases "fmlookup (ut_byToken t) tok")
  case None
  with assms show ?thesis by (auto simp: ut_BindServer_def intro: hist_mono)
next
  case (Some i)
  have "index_inv t" using assms(1) by (simp add: table_inv_def)
  from index_invD(1) [OF this Some] index_invD(2) [OF this]
  obtain s where s: "fmlookup (ut_store t) i = Some s" "us_token s = tok" by (auto simp: live_def)
  have h: "bound_hist B' t" using assms(3,4) by (rule hist_mono)
  from h assms(5) s Some have "bound_hist B' (snd (ut_BindServer now tok from t))"
    by (auto simp: ut_BindServer_def bound_hist_def split: if_splits)
  moreover from assms(2) s Some have "bound_live (snd (ut_BindServer now tok from t))"
    by (auto simp: ut_BindServer_def bound_live_def split: if_splits)
  ultimately show ?thesis ..
qed

lemma bind_client_hist:
  assumes "table_inv t" "bound_live t" "bound_hist B t" "B \<subseteq> B'" "(ClientLeg, tok, from) \<in> B'"
  shows "bound_hist B' (snd (ut_BindClient now tok from t)) \<and> bound_live (snd (ut_BindClient now tok from t))"
proof (cases "fmlookup (ut_byToken t) tok")
  case None
  with assms show ?thesis by (auto simp: ut_BindClient_def intro: hist_mono)
next
  case (Some i)
  have "index_inv t" using assms(1) by (simp add: table_inv_def)
  from index_invD(1) [OF this Some] index_invD(2) [OF this]
  obtain s where s: "fmlookup (ut_store t) i = Some s" "us_token s = tok" by (auto simp: live_def)
  have h: "bound_hist B' t" using assms(3,4) by (rule hist_mono)
  from h assms(5) s Some have "bound_hist B' (snd (ut_BindClient now tok from t))"
    by (auto simp: ut_BindClient_def bound_hist_def Let_def split: if_splits)
  moreover from assms(2) s Some have "bound_live (snd (ut_BindClient now tok from t))"
    by (auto simp: ut_BindClient_def bound_live_def Let_def split: if_splits)
  ultimately show ?thesis ..
qed

lemma bind_flight:
  assumes "flight_hist B fl t"
  shows "flight_hist B fl (snd (ut_BindServer now tok from t))" "flight_hist B fl (snd (ut_BindClient now tok from t))"
  using assms
  by (auto simp: flight_hist_def ut_BindServer_def ut_BindClient_def Let_def split: option.splits)

subsection \<open>What the handlers write\<close>

lemma clientSend_out:
  "p \<in> set (fst (clientSend now w i b d)) \<Longrightarrow>
   \<exists>s. fmlookup (ut_store (dr_sessions d)) i = Some s \<and> us_serverBound s \<and>
       p = \<lparr>pk_sock = ServerConn (us_serverConn s), pk_dst = us_serverAddr s, pk_data = b\<rparr>"
  by (auto simp: clientSend_def Let_def on_session_def legs_def clientReceived_def
      split: option.splits if_splits)

lemma forwardFromServer_out:
  "p \<in> set (fst (forwardFromServer now w i b from d)) \<Longrightarrow>
   \<exists>s. fmlookup (ut_store (dr_sessions d)) i = Some s \<and> us_serverBound s \<and> us_serverAddr s = from \<and>
       us_clientBound s \<and> p = \<lparr>pk_sock = ClientConn, pk_dst = us_clientAddr s, pk_data = b\<rparr>"
  by (auto simp: forwardFromServer_def Let_def legs_def split: option.splits if_splits)

text \<open>The outcome of the two handlers, branch by branch.\<close>

lemma serverHandle_cases:
  obtains (drop) "serverHandle now w i b from d = ([], d)"
  | (bind) s where "DecodeControlFrame b = Some (FrameRelayBind, us_token s)"
      "fmlookup (ut_store (dr_sessions d)) i = Some s"
      "serverHandle now w i b from d =
         ([\<lparr>pk_sock = ServerConn (us_serverConn s), pk_dst = from, pk_data = bindAck\<rparr>],
          d\<lparr>dr_sessions := snd (ut_BindServer now (us_token s) from (dr_sessions d))\<rparr>)"
  | (forward) "forwardable b" "serverHandle now w i b from d = forwardFromServer now w i b from d"
proof (cases "DecodeControlFrame b")
  case None
  then show ?thesis using drop forward
    by (cases "ValidRelayDatagram b") (simp_all add: serverHandle_def forwardable_def)
next
  case (Some tp)
  then obtain ty payload where tp: "DecodeControlFrame b = Some (ty, payload)" by (cases tp) auto
  show ?thesis
  proof (cases "ty = FrameRelayBind")
    case True
    show ?thesis
    proof (cases "fmlookup (ut_store (dr_sessions d)) i")
      case None
      with tp True show ?thesis using drop by (simp add: serverHandle_def)
    next
      case (Some s)
      with tp True show ?thesis using drop bind [of s]
        by (cases "payload = us_token s") (simp_all add: serverHandle_def)
    qed
  next
    case False
    with tp show ?thesis using drop forward
      by (cases "ValidPathControl ty payload")
        (auto simp: serverHandle_def forwardable_def ValidPathControl_def)
  qed
qed

lemma handleServer_cases:
  obtains (drop) "handleServerDatagram now w port b from d = ([], d)"
  | (handle) i where "ut_sessionForPort port (dr_sessions d) = Some i"
      "handleServerDatagram now w port b from d = serverHandle now w i b from d"
  by (cases "ut_sessionForPort port (dr_sessions d)") (auto simp: handleServerDatagram_def)

lemma handleClient_cases:
  obtains (drop) rate where "handleClientDatagram addrString now ks w b from d = ([], d\<lparr>dr_rate := rate\<rparr>)"
  | (bind) tok i rate where "DecodeControlFrame b = Some (FrameRelayBind, tok)"
      "fst (ut_BindClient now tok from (dr_sessions d)) = Some i"
      "handleClientDatagram addrString now ks w b from d =
         ([\<lparr>pk_sock = ClientConn, pk_dst = from, pk_data = bindAck\<rparr>],
          d\<lparr>dr_rate := rate, dr_sessions := snd (ut_BindClient now tok from (dr_sessions d))\<rparr>)"
  | (forward) i where "forwardable b" "ut_LookupByClientAddr from (dr_sessions d) = Some i"
      "handleClientDatagram addrString now ks w b from d = clientSend now w i b d"
proof -
  consider (bind) tok where "DecodeControlFrame b = Some (FrameRelayBind, tok)"
    | (fwd) "handleClientDatagram addrString now ks w b from d = forwardFromClient now w b from d" "forwardable b"
    | (none) "handleClientDatagram addrString now ks w b from d = ([], d)"
  proof (cases "DecodeControlFrame b")
    case None
    then show ?thesis using that(2,3)
      by (cases "ValidRelayDatagram b") (simp_all add: handleClientDatagram_def forwardable_def)
  next
    case (Some tp)
    then obtain ty payload where tp: "DecodeControlFrame b = Some (ty, payload)" by (cases tp) auto
    show ?thesis
    proof (cases "ty = FrameRelayBind")
      case False
      with tp show ?thesis using that(2,3)
        by (cases "ValidPathControl ty payload")
          (auto simp: handleClientDatagram_def forwardable_def ValidPathControl_def)
    qed (use tp that(1) in simp)
  qed
  then show ?thesis
  proof cases
    case (bind tok)
    obtain al rate where al:
      "(if ut_knownClientBind tok from (dr_sessions d) then (True, d)
        else let (ok, rate) = source_Allow now ks (addrString (ap_Addr from)) (dr_rate d)
             in (ok, d\<lparr>dr_rate := rate\<rparr>)) = (al, d\<lparr>dr_rate := rate\<rparr>)"
    proof (cases "ut_knownClientBind tok from (dr_sessions d)")
      case True
      then show ?thesis using that [of True "dr_rate d"] by simp
    next
      case False
      then show ?thesis using that by (cases "source_Allow now ks (addrString (ap_Addr from)) (dr_rate d)") simp
    qed
    obtain r t where bc: "ut_BindClient now tok from (dr_sessions d) = (r, t)" by fastforce
    from bind al bc have h: "handleClientDatagram addrString now ks w b from d =
        (if \<not> al then ([], d\<lparr>dr_rate := rate\<rparr>) else case r of None \<Rightarrow> ([], d\<lparr>dr_rate := rate\<rparr>)
         | Some _ \<Rightarrow> ([\<lparr>pk_sock = ClientConn, pk_dst = from, pk_data = bindAck\<rparr>], d\<lparr>dr_rate := rate, dr_sessions := t\<rparr>))"
      unfolding handleClientDatagram_def by (simp split: option.splits)
    show ?thesis
    proof (cases "al \<and> r \<noteq> None")
      case True
      then obtain j where "r = Some j" by blast
      then show ?thesis using that(2) [OF bind, of j rate] h bc True by simp
    next
      case False
      then show ?thesis using that(1) [of rate] h by (auto split: option.splits)
    qed
  next
    case fwd
    show ?thesis
    proof (cases "ut_LookupByClientAddr from (dr_sessions d)")
      case None
      with fwd show ?thesis using that(1) [of "dr_rate d"] by (simp add: forwardFromClient_def)
    next
      case (Some i)
      with fwd show ?thesis using that(3) [of i] by (simp add: forwardFromClient_def)
    qed
  next
    case none
    then show ?thesis using that(1) [of "dr_rate d"] by simp
  qed
qed

subsection \<open>The invariant holds in every run\<close>

lemma binds_subset: "binds es \<subseteq> binds (es @ [e])"
  by simp

lemma bindServer_hinv:
  assumes "fwd_hinv es s" "0 \<le> now" "(ServerLeg, tok, from) \<in> event_binds e"
  shows "fwd_hinv (es @ [e])
    (s\<lparr>fs_relay := (fs_relay s)\<lparr>dr_sessions := snd (ut_BindServer now tok from (dr_sessions (fs_relay s)))\<rparr>\<rparr>)"
  using assms bind_server_hist [of "dr_sessions (fs_relay s)" "binds es" "binds (es @ [e])" tok "from" now]
  by (auto simp: fwd_hinv_def Let_def intro: BindServer_inv bind_flight flight_mono)

lemma bindClient_hinv:
  assumes "fwd_hinv es s" "0 \<le> now" "(ClientLeg, tok, from) \<in> event_binds e"
  shows "fwd_hinv (es @ [e])
    (s\<lparr>fs_relay := (fs_relay s)\<lparr>dr_rate := rate, dr_sessions := snd (ut_BindClient now tok from (dr_sessions (fs_relay s)))\<rparr>\<rparr>)"
  using assms bind_client_hist [of "dr_sessions (fs_relay s)" "binds es" "binds (es @ [e])" tok "from" now]
  by (auto simp: fwd_hinv_def Let_def intro: BindClient_inv bind_flight flight_mono)

lemma serverHandle_hinv:
  assumes "fwd_hinv es s" "0 \<le> now" "serverHandle now w i b from (fs_relay s) = (outs, d)"
    and "event_binds e = bind_frame ServerLeg b from outs"
  shows "fwd_hinv (es @ [e]) (s\<lparr>fs_relay := d\<rparr>)"
proof (cases rule: serverHandle_cases [of now w i b "from" "fs_relay s"])
  case drop
  with assms show ?thesis by (auto intro: calm_hinv)
next
  case (bind r)
  then have "(ServerLeg, us_token r, from) \<in> event_binds e"
    using assms(3,4) by (auto simp: bindAck_def)
  from bindServer_hinv [OF assms(1,2) this] bind assms(3) show ?thesis by auto
next
  case forward
  then have "d = snd (forwardFromServer now w i b from (fs_relay s))" using assms(3) by (metis snd_conv)
  then show ?thesis using calm_forwardFromServer [OF assms(2), of "fs_relay s" w i b "from"] assms(1) by (simp add: calm_hinv)
qed

lemma fwd_step_hinv:
  assumes "fwd_hinv es s" "fwd_step addrString s e s'"
  shows "fwd_hinv (es @ [e]) s'"
  using assms(2)
proof (cases rule: fwd_step.cases)
  case (handle_client now ks w b src outs d)
  show ?thesis
  proof (cases rule: handleClient_cases [of addrString now ks w b src "fs_relay s"])
    case (drop rate)
    with handle_client assms(1) show ?thesis by (auto intro: calm_hinv)
  next
    case (bind tok i rate)
    then have "(ClientLeg, tok, src) \<in> event_binds e"
      using handle_client by (auto simp: bindAck_def)
    from bindClient_hinv [OF assms(1) handle_client(3) this] bind handle_client show ?thesis by auto
  next
    case (forward i)
    then have "d = snd (clientSend now w i b (fs_relay s))" using handle_client by (metis snd_conv)
    then show ?thesis using calm_clientSend [OF handle_client(3), of "fs_relay s" w i b] handle_client(2) assms(1) by (simp add: calm_hinv)
  qed
next
  case (handle_server now w port b src outs d)
  show ?thesis
  proof (cases rule: handleServer_cases [of now w port b src "fs_relay s"])
    case drop
    with handle_server assms(1) show ?thesis by (auto intro: calm_hinv)
  next
    case (handle i)
    with handle_server have "serverHandle now w i b src (fs_relay s) = (outs, d)" by simp
    from serverHandle_hinv [OF assms(1) handle_server(3) this, of e] handle_server show ?thesis by simp
  qed
next
  case (lookup_client b src i)
  let ?t = "dr_sessions (fs_relay s)"
  have inv: "table_inv ?t" "bound_hist (binds es) ?t" using assms(1) by (simp_all add: fwd_hinv_def Let_def)
  then have "client_inv ?t" by (simp add: table_inv_def)
  from client_invD [OF this] lookup_client obtain r
    where r: "fmlookup (ut_store ?t) i = Some r" "us_clientBound r" "us_clientAddr r = src"
    unfolding ut_LookupByClientAddr_def live_def by blast
  with inv(2) have "(ClientLeg, us_token r, src) \<in> binds es" by (auto simp: bound_hist_def)
  with r lookup_client assms(1) show ?thesis
    by (auto simp: fwd_hinv_def Let_def flight_hist_def)
next
  case (finish_client now b src i w outs d)
  then have "d = snd (clientSend now w i b (fs_relay s))" by (metis snd_conv)
  then show ?thesis using calm_clientSend [OF finish_client(3), of "fs_relay s" w i b] finish_client(2) assms(1) by (simp add: calm_hinv)
next
  case (lookup_server port i b src)
  with assms(1) show ?thesis by (simp add: fwd_hinv_def Let_def)
next
  case (finish_server now b src i w outs d)
  from serverHandle_hinv [OF assms(1) finish_server(3,5), of e] finish_server show ?thesis by simp
next
  case (control_op op)
  have "table_inv (dr_sessions (fs_relay s))" using assms(1) by (simp add: fwd_hinv_def Let_def)
  from calm_exec [OF this control_op(3,4)] control_op assms(1) show ?thesis by (auto intro: calm_hinv)
qed

interpretation fwd: history_system "fwd_step addrString" fwd_hinv for addrString
  by unfold_locales (rule fwd_step_hinv)

subsection \<open>Sizes\<close>

lemma bindAck_length: "length bindAck = 5"
  by (simp add: bindAck_def EncodeControlFrame_def controlMagic_def)

lemma control_length: "DecodeControlFrame b = Some x \<Longrightarrow> 5 \<le> length b"
  by (auto simp: DecodeControlFrame_def isControlFrame_def controlHeaderLen_def split: if_splits)

lemma bindAck_not_forwardable: "\<not> forwardable bindAck"
  by (simp add: forwardable_def bindAck_def EncodeControlFrame_def DecodeControlFrame_def
      isControlFrame_def controlMagic_def controlHeaderLen_def ValidPathControl_def frame_defs)

lemma forwardable_length: "forwardable b \<Longrightarrow> 0 < length b \<and> length b \<le> MaxRelayDatagram"
  by (auto simp: forwardable_def ValidPathControl_def ValidRelayDatagram_def DecodeControlFrame_def
      pathProbeSize_def controlHeaderLen_def MaxRelayDatagram_def isControlFrame_def split: option.splits if_splits)

lemma clientSend_one: "length (fst (clientSend now w i b d)) \<le> 1"
  by (simp add: clientSend_def Let_def split: option.splits prod.splits)

lemma forwardFromServer_one: "length (fst (forwardFromServer now w i b from d)) \<le> 1"
  by (simp add: forwardFromServer_def Let_def split: option.splits prod.splits)

lemma handleClient_sizes:
  "length (fst (handleClientDatagram addrString now ks w b from d)) \<le> 1 \<and>
   (\<forall>p \<in> set (fst (handleClientDatagram addrString now ks w b from d)).
      length (pk_data p) \<le> length b \<and> (pk_data p = bindAck \<or> forwardable b \<and> pk_data p = b))"
proof (cases rule: handleClient_cases [of addrString now ks w b "from" d])
  case (bind tok i rate)
  then show ?thesis using control_length [OF bind(1)] bindAck_length by simp
next
  case (forward i)
  then show ?thesis using clientSend_one [of now w i b d] clientSend_out [of _ now w i b d] by fastforce
qed simp

lemma handleServer_sizes:
  "length (fst (handleServerDatagram now w port b from d)) \<le> 1 \<and>
   (\<forall>p \<in> set (fst (handleServerDatagram now w port b from d)).
      length (pk_data p) \<le> length b \<and> (pk_data p = bindAck \<or> forwardable b \<and> pk_data p = b))"
proof (cases rule: handleServer_cases [of now w port b "from" d])
  case (handle i)
  show ?thesis
  proof (cases rule: serverHandle_cases [of now w i b "from" d])
    case (bind s)
    then show ?thesis using handle control_length [OF bind(1)] bindAck_length by simp
  next
    case forward
    then show ?thesis
      using handle forwardFromServer_one [of now w i b "from" d] forwardFromServer_out [of _ now w i b "from" d]
      by fastforce
  qed (use handle in simp)
qed simp

lemma handler_data:
  "p \<in> set (fst (handleClientDatagram addrString now ks w b from d)) \<Longrightarrow> pk_data p \<noteq> bindAck \<Longrightarrow> forwardable b \<and> pk_data p = b"
  "p \<in> set (fst (handleServerDatagram now w port b from d)) \<Longrightarrow> pk_data p \<noteq> bindAck \<Longrightarrow> forwardable b \<and> pk_data p = b"
  using handleClient_sizes [of addrString now ks w b "from" d] handleServer_sizes [of now w port b "from" d] by blast+

interpretation client_leg: no_amplifier
  "\<lambda>(now, ks, w, from) b d. handleClientDatagram addrString now ks w b from d" pk_data for addrString
  using handleClient_sizes by unfold_locales (fastforce split: prod.splits)+

interpretation server_leg: no_amplifier
  "\<lambda>(now, w, port, from) b d. handleServerDatagram now w port b from d" pk_data
  using handleServer_sizes by unfold_locales (fastforce split: prod.splits)+

section \<open>Properties\<close>

definition initial_system :: "(port, 'conn) fmap \<Rightarrow> int \<Rightarrow> int \<Rightarrow> 'conn fwdSystem" where
  "initial_system conns limit maxBinds =
     \<lparr>fs_relay = newDatagramRelay (newUDPSessionTable (newPortAllocator conns) limit) maxBinds,
      fs_clientFlight = {}, fs_serverFlight = {}\<rparr>"

lemma initial_hinv: "fwd_hinv [] (initial_system conns limit maxBinds)"
  by (simp add: fwd_hinv_def initial_system_def newDatagramRelay_def new_table_inv bound_live_def
      bound_hist_def flight_hist_def Let_def) (simp add: newUDPSessionTable_def)

lemma clientSend_pair:
  assumes "fwd_hinv es s" "p \<in> set (fst (clientSend now w i b (fs_relay s)))"
    "\<exists>r. fmlookup (ut_store (dr_sessions (fs_relay s))) i = Some r \<and> (ClientLeg, us_token r, src) \<in> binds es"
  shows "\<exists>tok i. (ClientLeg, tok, src) \<in> binds es \<and> (ServerLeg, tok, pk_dst p) \<in> binds es \<and>
    fmlookup (ut_byToken (dr_sessions (fs_relay s))) tok = Some i"
proof -
  from clientSend_out [OF assms(2)] obtain r where
    r: "fmlookup (ut_store (dr_sessions (fs_relay s))) i = Some r" "us_serverBound r" "pk_dst p = us_serverAddr r"
    by auto
  with assms(1) have "(ServerLeg, us_token r, us_serverAddr r) \<in> binds es"
    "fmlookup (ut_byToken (dr_sessions (fs_relay s))) (us_token r) = Some i"
    by (auto simp: fwd_hinv_def Let_def bound_hist_def bound_live_def)
  with r assms(3) show ?thesis by auto
qed

lemma serverHandle_pair:
  assumes "fwd_hinv es s" "p \<in> set (fst (serverHandle now w i b src (fs_relay s)))" "\<not> is_ack p"
  shows "\<exists>tok i. (ServerLeg, tok, src) \<in> binds es \<and> (ClientLeg, tok, pk_dst p) \<in> binds es \<and>
    fmlookup (ut_byToken (dr_sessions (fs_relay s))) tok = Some i"
proof (cases rule: serverHandle_cases [of now w i b src "fs_relay s"])
  case forward
  with assms(2) have "p \<in> set (fst (forwardFromServer now w i b src (fs_relay s)))" by simp
  from forwardFromServer_out [OF this] obtain r where
    r: "fmlookup (ut_store (dr_sessions (fs_relay s))) i = Some r" "us_serverBound r" "us_serverAddr r = src"
      "us_clientBound r" "pk_dst p = us_clientAddr r" by auto
  with assms(1) have "(ServerLeg, us_token r, us_serverAddr r) \<in> binds es"
    "(ClientLeg, us_token r, us_clientAddr r) \<in> binds es"
    "fmlookup (ut_byToken (dr_sessions (fs_relay s))) (us_token r) = Some i"
    by (auto simp: fwd_hinv_def Let_def bound_hist_def bound_live_def)
  with r show ?thesis by auto
qed (use assms in auto)

text \<open>C7: The relay is a pair relay. Whatever order the two legs, the control plane and the halves of
  concurrent handlers run in, every datagram it sends that is not the acknowledgement of a bind goes
  from one address to another that have each had a bind frame with the same token acknowledged, one on
  each leg; and the session of that token is still live at the snapshot of its legs that permits the write.\<close>

theorem pair_permission:
  assumes "run (fwd_step addrString) (initial_system conns limit maxBinds) es s"
    and "fwd_step addrString s e s'" and "(l, src, p) \<in> set (event_out e)" and "\<not> is_ack p"
  shows "\<exists>tok i. (l, tok, src) \<in> binds es \<and> (other_leg l, tok, pk_dst p) \<in> binds es \<and>
    fmlookup (ut_byToken (dr_sessions (fs_relay s))) tok = Some i"
proof -
  have inv: "fwd_hinv es s" using fwd.run_hinv [OF assms(1) initial_hinv] .
  from assms(2) show ?thesis
  proof (cases rule: fwd_step.cases)
    case (handle_client now ks w b from' outs d)
    then have o: "l = ClientLeg" "src = from'" "p \<in> set outs" using assms(3) by auto
    show ?thesis
    proof (cases rule: handleClient_cases [of addrString now ks w b from' "fs_relay s"])
      case (forward i)
      have "fwd_step addrString s (LookupClient b from' i) (s\<lparr>fs_clientFlight := insert (b, from', i) (fs_clientFlight s)\<rparr>)"
        using forward(1,2) by (rule lookup_client)
      from fwd_step_hinv [OF inv this]
      have "\<exists>r. fmlookup (ut_store (dr_sessions (fs_relay s))) i = Some r \<and> (ClientLeg, us_token r, from') \<in> binds es"
        by (auto simp: fwd_hinv_def Let_def flight_hist_def)
      with clientSend_pair [OF inv] forward(3) handle_client o show ?thesis by (metis fst_conv other_leg.simps(1))
    qed (use handle_client o assms(4) in auto)
  next
    case (handle_server now w port b from' outs d)
    then have o: "l = ServerLeg" "src = from'" "p \<in> set outs" using assms(3) by auto
    show ?thesis
    proof (cases rule: handleServer_cases [of now w port b from' "fs_relay s"])
      case (handle i)
      with serverHandle_pair [OF inv _ assms(4)] handle_server o show ?thesis by (metis fst_conv other_leg.simps(2))
    qed (use handle_server o in auto)
  next
    case (finish_client now b from' i w outs d)
    then have o: "l = ClientLeg" "src = from'" "p \<in> set outs" using assms(3) by auto
    have "\<exists>r. fmlookup (ut_store (dr_sessions (fs_relay s))) i = Some r \<and> (ClientLeg, us_token r, from') \<in> binds es"
      using inv finish_client(4) by (auto simp: fwd_hinv_def Let_def flight_hist_def)
    with clientSend_pair [OF inv] finish_client(5) o show ?thesis by (metis fst_conv other_leg.simps(1))
  next
    case (finish_server now b from' i w outs d)
    then have "l = ServerLeg" "src = from'" "p \<in> set outs" using assms(3) by auto
    with serverHandle_pair [OF inv _ assms(4)] finish_server(5) show ?thesis by (metis fst_conv other_leg.simps(2))
  qed (use assms(3) in auto)
qed

text \<open>A session is allocated, both legs bind, and the client then sends two bytes.\<close>

definition demo_client :: addrPort where "demo_client = AddrPort (IP4 9) 80"
definition demo_server :: addrPort where "demo_server = AddrPort (IP4 8) 81"
definition demo_bind :: bytes where "demo_bind = EncodeControlFrame FrameRelayBind [1]"

definition demo_relay0 :: "string datagramRelay" where
  "demo_relay0 = fs_relay (initial_system (fmupd 7 ''s'' fmempty) 2 0)"

definition demo_relay1 :: "string datagramRelay" where
  "demo_relay1 = demo_relay0\<lparr>dr_sessions := ut_exec (OpAllocate 5 (Some [1]) ''a'') (dr_sessions demo_relay0)\<rparr>"

definition demo_relay2 :: "string datagramRelay" where
  "demo_relay2 = snd (handleClientDatagram (\<lambda>_. ''x'') 6 [] None demo_bind demo_client demo_relay1)"

definition demo_relay3 :: "string datagramRelay" where
  "demo_relay3 = snd (handleServerDatagram 7 None 7 demo_bind demo_server demo_relay2)"

definition demo_ack :: "string socket \<Rightarrow> addrPort \<Rightarrow> string packet" where
  "demo_ack sock dst = \<lparr>pk_sock = sock, pk_dst = dst, pk_data = bindAck\<rparr>"

definition demo_events :: "string fwd_event list" where
  "demo_events = [ControlOp (OpAllocate 5 (Some [1]) ''a''),
     HandleClient demo_bind demo_client [demo_ack ClientConn demo_client],
     HandleServer 7 demo_bind demo_server [demo_ack (ServerConn ''s'') demo_server]]"

lemma demo_bind_decode: "DecodeControlFrame demo_bind = Some (FrameRelayBind, [1])"
  by (simp add: demo_bind_def EncodeControlFrame_def DecodeControlFrame_def isControlFrame_def
      controlMagic_def controlHeaderLen_def)

definition demo_session :: "string udpRelaySession" where
  "demo_session = (newSession [1] ''a'' 7 ''s'')
     \<lparr>us_clientAddr := demo_client, us_clientBound := True, us_lastActivity := 6\<rparr>"

lemma demo_relay1_eq:
  "dr_sessions demo_relay1 =
    \<lparr>ut_alloc = \<lparr>pa_conns = fmupd 7 ''s'' fmempty, pa_free = [], pa_inUse = fmupd 7 True fmempty\<rparr>,
     ut_store = fmupd 0 (touch 5 (newSession [1] ''a'' 7 ''s'')) fmempty,
     ut_next = 1, ut_byToken = fmupd [1] 0 fmempty, ut_byPort = fmupd 7 0 fmempty,
     ut_byClient = fmempty, ut_tenantN = fmupd ''a'' 1 fmempty, ut_maxPerTenant = 2\<rparr>"
  "dr_rate demo_relay1 = newRateLimiter 0"
  by (simp_all add: demo_relay1_def demo_relay0_def initial_system_def newDatagramRelay_def newUDPSessionTable_def
      newPortAllocator_def ut_Allocate_def pa_allocate_def gm_get_def Let_def sorted_list_of_fset.rep_eq)

lemma demo_client_bind:
  "handleClientDatagram (\<lambda>_. ''x'') 6 [] None demo_bind demo_client demo_relay1 =
    ([demo_ack ClientConn demo_client],
     demo_relay1\<lparr>dr_sessions := (dr_sessions demo_relay1)
       \<lparr>ut_store := fmupd 0 demo_session (ut_store (dr_sessions demo_relay1)), ut_byClient := fmupd demo_client 0 fmempty\<rparr>\<rparr>)"
  by (simp add: handleClientDatagram_def demo_bind_decode frame_defs ut_knownClientBind_def source_Allow_def
      demo_relay1_eq newRateLimiter_def NewSourceLimiter_def ut_BindClient_def upd_session_def touch_def
      newSession_def demo_ack_def demo_session_def Let_def noAddr_def)

lemmas demo_relay2_eq = demo_relay2_def [unfolded demo_client_bind snd_conv]

lemma demo_server_bind:
  "handleServerDatagram 7 None 7 demo_bind demo_server demo_relay2 =
    ([demo_ack (ServerConn ''s'') demo_server],
     demo_relay2\<lparr>dr_sessions := (dr_sessions demo_relay2)
       \<lparr>ut_store := fmupd 0 (demo_session\<lparr>us_serverAddr := demo_server, us_serverBound := True, us_lastActivity := 7\<rparr>)
          (ut_store (dr_sessions demo_relay2))\<rparr>\<rparr>)"
  by (simp add: handleServerDatagram_def serverHandle_def ut_sessionForPort_def demo_relay2_eq demo_relay1_eq
      demo_bind_decode ut_BindServer_def upd_session_def touch_def demo_session_def newSession_def demo_ack_def)

lemmas demo_relay3_eq = demo_relay3_def [unfolded demo_server_bind snd_conv]

lemma demo_fwd_run:
  "run (fwd_step (\<lambda>_. ''x'')) (initial_system (fmupd 7 ''s'' fmempty) 2 0) demo_events
     \<lparr>fs_relay = demo_relay3, fs_clientFlight = {}, fs_serverFlight = {}\<rparr>"
proof -
  let ?sys = "\<lambda>d. \<lparr>fs_relay = d, fs_clientFlight = {}, fs_serverFlight = {}\<rparr>"
  have s0: "initial_system (fmupd 7 ''s'' fmempty) 2 0 = ?sys demo_relay0"
    by (simp add: demo_relay0_def initial_system_def)
  have "fwd_step (\<lambda>_. ''x'') (?sys demo_relay0) (ControlOp (OpAllocate 5 (Some [1]) ''a'')) (?sys demo_relay1)"
    using control_op [of "OpAllocate 5 (Some [1]) ''a''" "?sys demo_relay0" "\<lambda>_. ''x''"]
    by (simp add: demo_relay1_def) (simp add: demo_relay0_def initial_system_def newDatagramRelay_def newUDPSessionTable_def)
  moreover have "fwd_step (\<lambda>_. ''x'') (?sys demo_relay1)
      (HandleClient demo_bind demo_client [demo_ack ClientConn demo_client]) (?sys demo_relay2)"
    using handle_client [of 6 "\<lambda>_. ''x''" "[]" None demo_bind demo_client "?sys demo_relay1"] demo_client_bind
    by (simp add: demo_relay2_def)
  moreover have "fwd_step (\<lambda>_. ''x'') (?sys demo_relay2)
      (HandleServer 7 demo_bind demo_server [demo_ack (ServerConn ''s'') demo_server]) (?sys demo_relay3)"
    using handle_server [of 7 None 7 demo_bind demo_server "?sys demo_relay2"] demo_server_bind
    by (simp add: demo_relay3_def)
  ultimately show ?thesis unfolding s0 demo_events_def by (blast intro: run.intros)
qed

lemma demo_forward:
  "\<exists>d. handleClientDatagram (\<lambda>_. ''x'') 8 [] (Some 2) [4, 0] demo_client demo_relay3 =
     ([\<lparr>pk_sock = ServerConn ''s'', pk_dst = demo_server, pk_data = [4, 0]\<rparr>], d)"
  by (simp add: handleClientDatagram_def DecodeControlFrame_def isControlFrame_def controlHeaderLen_def
      ValidRelayDatagram_def MaxRelayDatagram_def forwardFromClient_def ut_LookupByClientAddr_def demo_relay3_eq
      demo_relay2_eq demo_relay1_eq clientSend_def on_session_def upd_session_def legs_def clientReceived_def
      demo_session_def newSession_def Let_def)

theorem pair_permission_witness:
  "\<exists>tok. (ClientLeg, tok, demo_client) \<in> binds demo_events \<and> (ServerLeg, tok, demo_server) \<in> binds demo_events"
proof -
  let ?s = "\<lparr>fs_relay = demo_relay3, fs_clientFlight = {}, fs_serverFlight = {}\<rparr>"
  let ?p = "\<lparr>pk_sock = ServerConn ''s'', pk_dst = demo_server, pk_data = [4, 0 :: byte]\<rparr>"
  from demo_forward obtain d where
    "handleClientDatagram (\<lambda>_. ''x'') 8 [] (Some 2) [4, 0] demo_client demo_relay3 = ([?p], d)" by blast
  then have "fwd_step (\<lambda>_. ''x'') ?s (HandleClient [4, 0] demo_client [?p]) (?s\<lparr>fs_relay := d\<rparr>)"
    using handle_client [of 8 "\<lambda>_. ''x''" "[]" "Some 2" "[4, 0]" demo_client ?s "[?p]" d] by simp
  from pair_permission [OF demo_fwd_run this, of ClientLeg demo_client ?p] show ?thesis
    by (auto simp: bindAck_def EncodeControlFrame_def controlMagic_def)
qed

text \<open>Neither leg of the relay amplifies: over any sequence of datagrams, of any content, from any
  senders and in any state, a leg sends at most one datagram for each one it receives, and in total no
  more bytes than it received.\<close>

theorem relay_never_amplifies:
  "sum_list (map (\<lambda>p. length (pk_data p))
     (fst (handle_all (\<lambda>(now, ks, w, src) b. handleClientDatagram addrString now ks w b src) cins d)))
     \<le> sum_list (map (\<lambda>(x, b). length b) cins) \<and>
   length (fst (handle_all (\<lambda>(now, ks, w, src) b. handleClientDatagram addrString now ks w b src) cins d)) \<le> length cins \<and>
   sum_list (map (\<lambda>p. length (pk_data p))
     (fst (handle_all (\<lambda>(now, w, port, src) b. handleServerDatagram now w port b src) sins d)))
     \<le> sum_list (map (\<lambda>(x, b). length b) sins) \<and>
   length (fst (handle_all (\<lambda>(now, w, port, src) b. handleServerDatagram now w port b src) sins d)) \<le> length sins"
  using client_leg.bytes_out_le_in [of addrString cins d] server_leg.bytes_out_le_in [of sins d]
  by (simp add: case_prod_beta')

text \<open>A datagram is forwarded whole or not at all: the read buffer is longer than anything that is
  forwarded, so a datagram that \<open>ReadFrom\<close> had to cut is dropped, on both legs.\<close>

theorem forwards_whole_datagrams:
  assumes "p \<in> set (fst (snd (serveClientLeg addrString now ks w (Inr (dgram, addr)) d))) \<or>
           p \<in> set (fst (snd (serveServerLeg now w port (Inr (dgram, addr)) d)))"
    and "pk_data p \<noteq> bindAck"
  shows "pk_data p = dgram \<and> 0 < length dgram \<and> length dgram \<le> MaxRelayDatagram"
proof -
  from assms have "forwardable (take readBufSize dgram)" "pk_data p = take readBufSize dgram"
    by (auto simp: serveClientLeg_def serveServerLeg_def split: option.splits dest: handler_data)
  moreover from forwardable_length [OF this(1)] have "length dgram \<le> MaxRelayDatagram \<and> 0 < length dgram"
    by (auto simp: readBufSize_def min_def split: if_splits)
  ultimately show ?thesis by (simp add: readBufSize_def)
qed

theorem forwards_whole_datagrams_witness:
  "\<exists>p. p \<in> set (fst (snd (serveClientLeg (\<lambda>_. ''x'') 8 [] (Some 2) (Inr ([4, 0], UDPAddr demo_client)) demo_relay3)))
     \<and> pk_data p = [4, 0]"
proof -
  let ?p = "\<lparr>pk_sock = ServerConn ''s'', pk_dst = demo_server, pk_data = [4, 0 :: byte]\<rparr>"
  have a: "addrPort_of (UDPAddr demo_client) = Some demo_client"
    by (simp add: addrPort_of_def demo_client_def Unmap_def)
  have "?p \<in> set (fst (snd (serveClientLeg (\<lambda>_. ''x'') 8 [] (Some 2) (Inr ([4, 0], UDPAddr demo_client)) demo_relay3)))"
    using demo_forward by (auto simp: serveClientLeg_def a readBufSize_def)
  moreover from this have "pk_data ?p = [4, 0]"
    using forwards_whole_datagrams [of ?p "\<lambda>_. ''x''" 8 "[]" "Some 2" "[4, 0]" "UDPAddr demo_client" demo_relay3]
    by (auto simp: bindAck_def EncodeControlFrame_def controlMagic_def)
  ultimately show ?thesis by blast
qed

end
