(* ===== verification/Native_Wg.thy ===== *)
theory Native_Wg
  imports Udp_Forward
begin

text \<open>
  \<^verbatim>\<open>pkg/relay/nativewg.go\<close>: the relay of opaque WireGuard packets for native clients. Tokens
  associate a server address with a tenant; receiver indices, learned from handshake initiations
  and kept in a ring of bounded size, select the client a server packet returns to. The clock, the
  random token and the order of the range loops are arguments.
\<close>

section \<open>State\<close>

record nativeWGRoute =
  rt_client :: addrPort
  rt_expires :: gotime

record nativeWGRelay =
  nw_tokens :: "(bytes, string) fmap"
  nw_servers :: "(string, addrPort) fmap"
  nw_indices :: "(32 word, nativeWGRoute) fmap"
  nw_indexOrder :: "32 word list"
  nw_nextIndex :: nat
  nw_pairs :: "(32 word, 32 word) fmap"
  nw_pairOrder :: "32 word list"
  nw_nextPair :: nat

definition nativeWGMaxIndices :: nat where "nativeWGMaxIndices = 4096"
definition nativeWGRouteTTL :: duration where "nativeWGRouteTTL = 3 * minute"

definition newNativeWGRelay :: nativeWGRelay where
  "newNativeWGRelay =
     \<lparr>nw_tokens = fmempty, nw_servers = fmempty, nw_indices = fmempty, nw_indexOrder = [],
      nw_nextIndex = 0, nw_pairs = fmempty, nw_pairOrder = [], nw_nextPair = 0\<rparr>"

section \<open>Operations\<close>

definition nw_issue :: "bytes \<Rightarrow> string \<Rightarrow> nativeWGRelay \<Rightarrow> nativeWGRelay" where
  "nw_issue token tenant n =
     (let toks = gm_filter (\<lambda>_ v. v \<noteq> tenant) (nw_tokens n)
      in n\<lparr>nw_servers := fmdrop tenant (nw_servers n), nw_tokens := fmupd token tenant toks\<rparr>)"

definition nw_remove :: "string \<Rightarrow> bytes \<Rightarrow> nativeWGRelay \<Rightarrow> nativeWGRelay" where
  "nw_remove tenant token n =
     (if gm_get '''' (nw_tokens n) token \<noteq> tenant then n
      else n\<lparr>nw_tokens := fmdrop token (nw_tokens n), nw_servers := fmdrop tenant (nw_servers n)\<rparr>)"

definition validWGPacket :: "bytes \<Rightarrow> (32 word \<times> 32 word) option" where
  "validWGPacket b =
     (if length b < 4 then None
      else let ty = le32 b
           in if ty = 1 then (if length b \<noteq> 148 then None else Some (ty, le32 (drop 4 b)))
              else if ty = 2 then (if length b \<noteq> 92 then None else Some (ty, le32 (drop 8 b)))
              else if ty = 3 then (if length b \<noteq> 64 then None else Some (ty, le32 (drop 4 b)))
              else if ty = 4 then
                (if length b < 32 \<or> length b > MaxRelayDatagram then None else Some (ty, le32 (drop 4 b)))
              else None)"

text \<open>Making room for a key in one of the two rings: the shared shape of the update of
  \<open>indexOrder\<close> in \<open>handle\<close> and of \<open>pairOrder\<close> in \<open>recordPair\<close>.\<close>

definition ring_reserve ::
  "'k \<Rightarrow> ('k, 'v) fmap \<times> 'k list \<times> nat \<Rightarrow> ('k, 'v) fmap \<times> 'k list \<times> nat" where
  "ring_reserve k r =
     (case r of (m, order, nxt) \<Rightarrow>
        if fmlookup m k \<noteq> None then (m, order, nxt)
        else if length order = nativeWGMaxIndices
        then (fmdrop (order ! nxt) m, order[nxt := k], (nxt + 1) mod length order)
        else (m, order @ [k], nxt))"

definition nw_recordPair :: "32 word \<Rightarrow> 32 word \<Rightarrow> nativeWGRelay \<Rightarrow> nativeWGRelay" where
  "nw_recordPair serverIdx clientIdx n =
     (case ring_reserve serverIdx (nw_pairs n, nw_pairOrder n, nw_nextPair n) of
        (m, order, nxt) \<Rightarrow>
          n\<lparr>nw_pairs := fmupd serverIdx clientIdx m, nw_pairOrder := order, nw_nextPair := nxt\<rparr>)"

definition nw_learn :: "32 word \<Rightarrow> nativeWGRoute \<Rightarrow> nativeWGRelay \<Rightarrow> nativeWGRelay" where
  "nw_learn idx route n =
     (case ring_reserve idx (nw_indices n, nw_indexOrder n, nw_nextIndex n) of
        (m, order, nxt) \<Rightarrow>
          n\<lparr>nw_indices := fmupd idx route m, nw_indexOrder := order, nw_nextIndex := nxt\<rparr>)"

definition nw_associate :: "bytes \<Rightarrow> addrPort \<Rightarrow> nativeWGRelay \<Rightarrow> nativeWGRelay" where
  "nw_associate payload from n =
     (case fmlookup (nw_tokens n) payload of
        None \<Rightarrow> n
      | Some tenant \<Rightarrow> n\<lparr>nw_servers := fmupd tenant from (nw_servers n)\<rparr>)"

text \<open>\<open>handle\<close>: \<open>ks\<close> is the order in which the range loops visit the associated servers.\<close>

definition nw_handle ::
  "gotime \<Rightarrow> string list \<Rightarrow> bytes \<Rightarrow> addrPort \<Rightarrow> nativeWGRelay \<Rightarrow> (addrPort \<times> bytes) list \<times> nativeWGRelay" where
  "nw_handle now ks b from n =
     (case DecodeControlFrame b of
        Some (ty, payload) \<Rightarrow>
          if ty \<noteq> FrameNativeWireGuardAssociate \<or> length payload < 32 then ([], n)
          else ([], nw_associate payload from n)
      | None \<Rightarrow>
          (case validWGPacket b of
             None \<Rightarrow> ([], n)
           | Some (ty, receiver) \<Rightarrow>
               if list_ex (\<lambda>k. fmlookup (nw_servers n) k = Some from) ks then
                 (case fmlookup (nw_indices n) receiver of
                    None \<Rightarrow> ([], n)
                  | Some route \<Rightarrow>
                      if now < rt_expires route then
                        let n1 = (if ty = 2 then nw_recordPair (le32 (drop 4 b)) receiver n else n);
                            route' = route\<lparr>rt_expires := now + nativeWGRouteTTL\<rparr>
                        in ([(rt_client route, b)], n1\<lparr>nw_indices := fmupd receiver route' (nw_indices n1)\<rparr>)
                      else ([], n))
               else
                 (let server = (case ks of [] \<Rightarrow> noAddr | k # _ \<Rightarrow> gm_get noAddr (nw_servers n) k)
                  in if \<not> ap_IsValid server then ([], n)
                     else
                       let fresh = \<lparr>rt_client = from, rt_expires = now + nativeWGRouteTTL\<rparr>;
                           n1 = (if ty = 1 then nw_learn receiver fresh n
                                 else case fmlookup (nw_pairs n) receiver of
                                        Some clientIdx \<Rightarrow>
                                          if ty = 4 \<or> ty = 3 then
                                            (case fmlookup (nw_indices n) clientIdx of
                                               None \<Rightarrow> n
                                             | Some _ \<Rightarrow> n\<lparr>nw_indices := fmupd clientIdx fresh (nw_indices n)\<rparr>)
                                          else n
                                      | None \<Rightarrow> n)
                       in ([(server, b)], n1))))"

text \<open>One round of \<open>serve\<close>: whether it goes on, what it writes, the new state.\<close>

definition nw_serve ::
  "gotime \<Rightarrow> string list \<Rightarrow> readErr + bytes \<times> netAddr \<Rightarrow> nativeWGRelay
   \<Rightarrow> bool \<times> (addrPort \<times> bytes) list \<times> nativeWGRelay" where
  "nw_serve now ks r n =
     (case r of
        Inl err \<Rightarrow> (err = ErrTemporary, [], n)
      | Inr (dgram, addr) \<Rightarrow>
          (case addrPort_of addr of
             None \<Rightarrow> (True, [], n)
           | Some from \<Rightarrow> (True, nw_handle now ks (take readBufSize dgram) from n)))"

section \<open>Steps\<close>

datatype nw_event =
    NwIssue bytes string
  | NwRemove string bytes
  | NwPacket bytes addrPort "(addrPort \<times> bytes) list"

text \<open>Issued tokens are fresh, as 32 random bytes are; a remove names a tenant.\<close>

inductive nw_step :: "nativeWGRelay \<Rightarrow> nw_event \<Rightarrow> nativeWGRelay \<Rightarrow> bool" where
  nw_issue: "fmlookup (nw_tokens n) token = None \<Longrightarrow> nw_step n (NwIssue token tenant) (nw_issue token tenant n)"
| nw_remove: "tenant \<noteq> '''' \<Longrightarrow> nw_step n (NwRemove tenant token) (nw_remove tenant token n)"
| nw_packet: "range_order ks (nw_servers n) \<Longrightarrow> nw_handle now ks b from n = (outs, n') \<Longrightarrow>
    nw_step n (NwPacket b from outs) n'"

inductive_cases nw_stepE: "nw_step n e n'"

section \<open>The rings\<close>

text \<open>The keys of a ring from the oldest to the newest.\<close>

definition ring_queue :: "'k list \<times> nat \<Rightarrow> 'k list" where
  "ring_queue r = (case r of (order, nxt) \<Rightarrow> drop nxt order @ take nxt order)"

definition ring_inv :: "('k, 'v) fmap \<Rightarrow> 'k list \<Rightarrow> nat \<Rightarrow> bool" where
  "ring_inv m order nxt \<longleftrightarrow>
     distinct order \<and> (\<forall>k. k \<in> set order \<longleftrightarrow> fmlookup m k \<noteq> None) \<and> length order \<le> nativeWGMaxIndices \<and>
     (if length order = nativeWGMaxIndices then nxt < nativeWGMaxIndices else nxt = 0)"

text \<open>What inserting a key does to the queue of keys: nothing if it is there, else it goes to the
  end, and the oldest key leaves when the ring is full.\<close>

definition queue_insert :: "'k \<Rightarrow> 'k list \<Rightarrow> 'k list" where
  "queue_insert k q =
     (if k \<in> set q then q else if length q = nativeWGMaxIndices then tl q @ [k] else q @ [k])"

lemma ring_queue_set [simp]: "set (ring_queue (order, nxt)) = set order"
  by (simp add: ring_queue_def) (metis Un_commute append_take_drop_id set_append)

lemma ring_queue_length [simp]: "length (ring_queue (order, nxt)) = length order"
  by (simp add: ring_queue_def)

lemma ring_len: "ring_inv m order nxt \<Longrightarrow> gm_len m = length order"
proof -
  assume "ring_inv m order nxt"
  then have "range_order order m" by (simp add: ring_inv_def range_order_iff)
  then show ?thesis by (simp add: range_order_len)
qed

lemma ring_queue_update:
  assumes "nxt < length order"
  shows "ring_queue (order[nxt := k], (nxt + 1) mod length order) = tl (ring_queue (order, nxt)) @ [k]"
proof -
  have d: "drop nxt order = order ! nxt # drop (Suc nxt) order" using assms by (simp add: Cons_nth_drop_Suc)
  have t: "take (Suc nxt) (order[nxt := k]) = take nxt order @ [k]"
    using assms by (simp add: take_Suc_conv_app_nth)
  show ?thesis
  proof (cases "Suc nxt = length order")
    case True
    then have "order[nxt := k] = take nxt order @ [k]" using t by (metis length_list_update order_refl take_all_iff)
    with True d show ?thesis by (simp add: ring_queue_def)
  next
    case False
    with assms d t show ?thesis by (simp add: ring_queue_def drop_update_cancel)
  qed
qed

lemma ring_reserve_queue:
  assumes "ring_inv m order nxt" "ring_reserve k (m, order, nxt) = (m', order', nxt')"
  shows "ring_queue (order', nxt') = queue_insert k (ring_queue (order, nxt))"
proof -
  have k: "k \<in> set order \<longleftrightarrow> fmlookup m k \<noteq> None" using assms(1) by (simp add: ring_inv_def)
  consider "fmlookup m k \<noteq> None" | "fmlookup m k = None" "length order = nativeWGMaxIndices"
    | "fmlookup m k = None" "length order \<noteq> nativeWGMaxIndices" by blast
  then show ?thesis
  proof cases
    case 2
    with assms(1) have "nxt < length order" by (simp add: ring_inv_def)
    from ring_queue_update [OF this, of k] 2 k assms(2) show ?thesis
      by (auto simp: ring_reserve_def queue_insert_def)
  next
    case 3
    with assms(1) have "nxt = 0" by (simp add: ring_inv_def)
    with 3 k assms(2) show ?thesis by (auto simp: ring_reserve_def queue_insert_def ring_queue_def)
  qed (use k assms(2) in \<open>auto simp: ring_reserve_def queue_insert_def\<close>)
qed

lemma ring_reserve_inv:
  assumes "ring_inv m order nxt" "ring_reserve k (m, order, nxt) = (m', order', nxt')"
  shows "ring_inv (fmupd k v m') order' nxt'"
proof -
  have inv: "distinct order" "\<And>j. j \<in> set order \<longleftrightarrow> fmlookup m j \<noteq> None" "length order \<le> nativeWGMaxIndices"
    using assms(1) by (simp_all add: ring_inv_def)
  consider "fmlookup m k \<noteq> None" | "fmlookup m k = None" "length order = nativeWGMaxIndices"
    | "fmlookup m k = None" "length order \<noteq> nativeWGMaxIndices" by blast
  then show ?thesis
  proof cases
    case 1
    with assms show ?thesis by (auto simp: ring_reserve_def ring_inv_def)
  next
    case 2
    with assms(1) have nxt: "nxt < length order" by (simp add: ring_inv_def)
    have k: "k \<notin> set order" using 2 inv(2) by simp
    have "set (order[nxt := k]) = insert k (set order - {order ! nxt})"
      using nxt inv(1) by (simp add: set_update_distinct)
    with 2 nxt inv k assms(2) show ?thesis
      by (auto simp: ring_reserve_def ring_inv_def distinct_list_update nativeWGMaxIndices_def split: if_splits)
  next
    case 3
    with assms inv show ?thesis by (auto simp: ring_reserve_def ring_inv_def nativeWGMaxIndices_def)
  qed
qed

section \<open>Invariants\<close>

definition nw_inv :: "nativeWGRelay \<Rightarrow> bool" where
  "nw_inv n \<longleftrightarrow>
     ring_inv (nw_indices n) (nw_indexOrder n) (nw_nextIndex n) \<and>
     ring_inv (nw_pairs n) (nw_pairOrder n) (nw_nextPair n) \<and>
     (\<forall>tok tok' tenant. fmlookup (nw_tokens n) tok = Some tenant \<longrightarrow> fmlookup (nw_tokens n) tok' = Some tenant \<longrightarrow> tok = tok') \<and>
     (\<forall>tenant a. fmlookup (nw_servers n) tenant = Some a \<longrightarrow> (\<exists>tok. fmlookup (nw_tokens n) tok = Some tenant))"

lemma nw_invI:
  assumes "ring_inv (nw_indices n) (nw_indexOrder n) (nw_nextIndex n)"
    "ring_inv (nw_pairs n) (nw_pairOrder n) (nw_nextPair n)"
    "\<And>t t' tn. fmlookup (nw_tokens n) t = Some tn \<Longrightarrow> fmlookup (nw_tokens n) t' = Some tn \<Longrightarrow> t = t'"
    "\<And>tn a. fmlookup (nw_servers n) tn = Some a \<Longrightarrow> \<exists>t. fmlookup (nw_tokens n) t = Some tn"
  shows "nw_inv n"
  using assms unfolding nw_inv_def by blast

lemma nw_invD:
  assumes "nw_inv n"
  shows "ring_inv (nw_indices n) (nw_indexOrder n) (nw_nextIndex n)"
    "ring_inv (nw_pairs n) (nw_pairOrder n) (nw_nextPair n)"
    "fmlookup (nw_tokens n) t = Some tn \<Longrightarrow> fmlookup (nw_tokens n) t' = Some tn \<Longrightarrow> t = t'"
    "fmlookup (nw_servers n) tn = Some a \<Longrightarrow> \<exists>t. fmlookup (nw_tokens n) t = Some tn"
  using assms unfolding nw_inv_def by blast+

lemma ring_inv_refresh:
  "ring_inv m order nxt \<Longrightarrow> fmlookup m k \<noteq> None \<Longrightarrow> ring_inv (fmupd k v m) order nxt"
  by (auto simp: ring_inv_def)

lemma learn_inv:
  assumes "nw_inv n"
  shows "nw_inv (nw_learn idx route n)"
proof -
  obtain m order nxt where r: "ring_reserve idx (nw_indices n, nw_indexOrder n, nw_nextIndex n) = (m, order, nxt)"
    by (cases "ring_reserve idx (nw_indices n, nw_indexOrder n, nw_nextIndex n)")
  have "ring_inv (fmupd idx route m) order nxt"
    using ring_reserve_inv [OF _ r] assms by (simp add: nw_inv_def)
  with assms r show ?thesis by (simp add: nw_learn_def nw_inv_def)
qed

lemma recordPair_inv:
  assumes "nw_inv n"
  shows "nw_inv (nw_recordPair sidx cidx n)"
proof -
  obtain m order nxt where r: "ring_reserve sidx (nw_pairs n, nw_pairOrder n, nw_nextPair n) = (m, order, nxt)"
    by (cases "ring_reserve sidx (nw_pairs n, nw_pairOrder n, nw_nextPair n)")
  have "ring_inv (fmupd sidx cidx m) order nxt"
    using ring_reserve_inv [OF _ r] assms by (simp add: nw_inv_def)
  with assms r show ?thesis by (simp add: nw_recordPair_def nw_inv_def)
qed

lemma recordPair_simps [simp]:
  "nw_indices (nw_recordPair s c n) = nw_indices n" "nw_servers (nw_recordPair s c n) = nw_servers n"
  "nw_tokens (nw_recordPair s c n) = nw_tokens n" "nw_indexOrder (nw_recordPair s c n) = nw_indexOrder n"
  "nw_nextIndex (nw_recordPair s c n) = nw_nextIndex n"
  by (simp_all add: nw_recordPair_def split: prod.splits)

lemma learn_simps [simp]:
  "nw_pairs (nw_learn i r n) = nw_pairs n" "nw_servers (nw_learn i r n) = nw_servers n"
  "nw_tokens (nw_learn i r n) = nw_tokens n"
  by (simp_all add: nw_learn_def split: prod.splits)

lemma learn_lookup:
  "fmlookup (nw_indices (nw_learn i r n)) j = Some r' \<Longrightarrow>
   j = i \<and> r' = r \<or> j \<noteq> i \<and> fmlookup (nw_indices n) j = Some r'"
  by (auto simp: nw_learn_def ring_reserve_def split: prod.splits if_splits)

lemma indices_refresh_inv:
  "nw_inv n \<Longrightarrow> fmlookup (nw_indices n) k \<noteq> None \<Longrightarrow> nw_inv (n\<lparr>nw_indices := fmupd k v (nw_indices n)\<rparr>)"
  by (simp add: nw_inv_def ring_inv_refresh)

lemma issue_inv:
  assumes "nw_inv n" "fmlookup (nw_tokens n) token = None"
  shows "nw_inv (nw_issue token tenant n)"
proof -
  have inv: "\<And>t t' tn. fmlookup (nw_tokens n) t = Some tn \<Longrightarrow> fmlookup (nw_tokens n) t' = Some tn \<Longrightarrow> t = t'"
    "\<And>tn a. fmlookup (nw_servers n) tn = Some a \<Longrightarrow> \<exists>t. fmlookup (nw_tokens n) t = Some tn"
    using nw_invD(3,4) [OF assms(1)] by blast+
  have lk: "fmlookup (nw_tokens (nw_issue token tenant n)) t = Some tn \<longleftrightarrow>
      (if t = token then tn = tenant else tn \<noteq> tenant \<and> fmlookup (nw_tokens n) t = Some tn)" for t tn
    by (auto simp: nw_issue_def Let_def split: option.splits)
  have "t = t'" if "fmlookup (nw_tokens (nw_issue token tenant n)) t = Some tn"
    "fmlookup (nw_tokens (nw_issue token tenant n)) t' = Some tn" for t t' tn
    using that inv(1) unfolding lk by (metis (full_types))
  moreover have "\<exists>t. fmlookup (nw_tokens (nw_issue token tenant n)) t = Some tn"
    if "fmlookup (nw_servers (nw_issue token tenant n)) tn = Some a" for tn a
  proof -
    from that have "tn \<noteq> tenant" "fmlookup (nw_servers n) tn = Some a"
      by (auto simp: nw_issue_def Let_def split: if_splits)
    moreover from inv(2) [OF this(2)] obtain t where "fmlookup (nw_tokens n) t = Some tn" ..
    moreover from this assms(2) have "t \<noteq> token" by auto
    ultimately have "fmlookup (nw_tokens (nw_issue token tenant n)) t = Some tn" unfolding lk by simp
    then show ?thesis ..
  qed
  moreover have "ring_inv (nw_indices (nw_issue token tenant n)) (nw_indexOrder (nw_issue token tenant n)) (nw_nextIndex (nw_issue token tenant n))"
    "ring_inv (nw_pairs (nw_issue token tenant n)) (nw_pairOrder (nw_issue token tenant n)) (nw_nextPair (nw_issue token tenant n))"
    using nw_invD(1,2) [OF assms(1)] by (simp_all add: nw_issue_def Let_def)
  ultimately show ?thesis by (intro nw_invI) blast+
qed

lemma remove_inv:
  assumes "nw_inv n" "tenant \<noteq> ''''"
  shows "nw_inv (nw_remove tenant token n)"
proof (cases "fmlookup (nw_tokens n) token = Some tenant")
  case True
  have inv: "\<And>tn a. fmlookup (nw_servers n) tn = Some a \<Longrightarrow> \<exists>t. fmlookup (nw_tokens n) t = Some tn"
    by (rule nw_invD(4) [OF assms(1)])
  have "\<exists>t. t \<noteq> token \<and> fmlookup (nw_tokens n) t = Some tn"
    if "fmlookup (nw_servers n) tn = Some a" "tn \<noteq> tenant" for tn a
  proof -
    from inv [OF that(1)] obtain t where "fmlookup (nw_tokens n) t = Some tn" ..
    moreover from this True that(2) have "t \<noteq> token" by auto
    ultimately show ?thesis by blast
  qed
  note r = this
  have e: "nw_remove tenant token n = n\<lparr>nw_tokens := fmdrop token (nw_tokens n), nw_servers := fmdrop tenant (nw_servers n)\<rparr>"
    using True by (simp add: nw_remove_def gm_get_def)
  show ?thesis
    unfolding e
  proof (rule nw_invI)
    fix tn a assume "fmlookup (nw_servers (n\<lparr>nw_tokens := fmdrop token (nw_tokens n), nw_servers := fmdrop tenant (nw_servers n)\<rparr>)) tn = Some a"
    then have "fmlookup (nw_servers n) tn = Some a" "tn \<noteq> tenant" by (auto split: if_splits)
    from r [OF this] show "\<exists>t. fmlookup (nw_tokens (n\<lparr>nw_tokens := fmdrop token (nw_tokens n), nw_servers := fmdrop tenant (nw_servers n)\<rparr>)) t = Some tn"
      by auto
  qed (use nw_invD [OF assms(1)] in \<open>auto split: if_splits\<close>)
next
  case False
  then have "nw_remove tenant token n = n"
    using assms(2) by (auto simp: nw_remove_def gm_get_def split: option.splits)
  with assms(1) show ?thesis by simp
qed

lemma associate_inv: "nw_inv n \<Longrightarrow> nw_inv (nw_associate payload from n)"
  by (auto simp: nw_inv_def nw_associate_def split: option.splits)

text \<open>The outcome of \<open>handle\<close>, branch by branch.\<close>

lemma nw_handle_cases:
  obtains (drop) "nw_handle now ks b from n = ([], n)"
  | (assoc) payload where "DecodeControlFrame b = Some (FrameNativeWireGuardAssociate, payload)"
      "32 \<le> length payload" "nw_handle now ks b from n = ([], nw_associate payload from n)"
  | (reply) ty receiver route n1 where "DecodeControlFrame b = None" "validWGPacket b = Some (ty, receiver)"
      "list_ex (\<lambda>k. fmlookup (nw_servers n) k = Some from) ks"
      "fmlookup (nw_indices n) receiver = Some route" "now < rt_expires route"
      "n1 = (if ty = 2 then nw_recordPair (le32 (List.drop 4 b)) receiver n else n)"
      "nw_handle now ks b from n = ([(rt_client route, b)],
         n1\<lparr>nw_indices := fmupd receiver (route\<lparr>rt_expires := now + nativeWGRouteTTL\<rparr>) (nw_indices n1)\<rparr>)"
  | (request) ty receiver k ks' server n1 where "DecodeControlFrame b = None" "validWGPacket b = Some (ty, receiver)"
      "\<not> list_ex (\<lambda>k. fmlookup (nw_servers n) k = Some from) ks"
      "ks = k # ks'" "fmlookup (nw_servers n) k = Some server" "ap_IsValid server"
      "n1 = nw_learn receiver \<lparr>rt_client = from, rt_expires = now + nativeWGRouteTTL\<rparr> n \<and> ty = 1 \<or> n1 = n \<or>
       (\<exists>c r. fmlookup (nw_indices n) c = Some r \<and>
          n1 = n\<lparr>nw_indices := fmupd c \<lparr>rt_client = from, rt_expires = now + nativeWGRouteTTL\<rparr> (nw_indices n)\<rparr>)"
      "nw_handle now ks b from n = ([(server, b)], n1)"
proof (cases "DecodeControlFrame b")
  case (Some tp)
  then obtain ty payload where tp: "DecodeControlFrame b = Some (ty, payload)" by (cases tp) auto
  then show ?thesis
    by (cases "ty \<noteq> FrameNativeWireGuardAssociate \<or> length payload < 32")
      (use drop assoc in \<open>auto simp: nw_handle_def\<close>)
next
  case None
  show ?thesis
  proof (cases "validWGPacket b")
    case None
    with \<open>DecodeControlFrame b = None\<close> show ?thesis using drop by (simp add: nw_handle_def)
  next
    case (Some tr)
    then obtain ty receiver where tr: "validWGPacket b = Some (ty, receiver)" by (cases tr) auto
    show ?thesis
    proof (cases "list_ex (\<lambda>k. fmlookup (nw_servers n) k = Some from) ks")
      case True
      show ?thesis
      proof (cases "fmlookup (nw_indices n) receiver")
        case None
        with \<open>DecodeControlFrame b = None\<close> tr True show ?thesis using drop by (simp add: nw_handle_def)
      next
        case (Some route)
        with \<open>DecodeControlFrame b = None\<close> tr True show ?thesis
          by (cases "now < rt_expires route")
            (use drop reply in \<open>simp_all add: nw_handle_def Let_def\<close>)
      qed
    next
      case False
      let ?srv = "case ks of [] \<Rightarrow> noAddr | k # _ \<Rightarrow> gm_get noAddr (nw_servers n) k"
      show ?thesis
      proof (cases "ap_IsValid ?srv")
        case True
        then obtain k ks' server where k: "ks = k # ks'" "fmlookup (nw_servers n) k = Some server" "?srv = server"
          by (auto simp: gm_get_def noAddr_def ap_IsValid_def split: list.splits option.splits)
        let ?fresh = "\<lparr>rt_client = from, rt_expires = now + nativeWGRouteTTL\<rparr>"
        let ?n1 = "if ty = 1 then nw_learn receiver ?fresh n
          else case fmlookup (nw_pairs n) receiver of Some c \<Rightarrow> if ty = 4 \<or> ty = 3 then
              (case fmlookup (nw_indices n) c of None \<Rightarrow> n
               | Some _ \<Rightarrow> n\<lparr>nw_indices := fmupd c ?fresh (nw_indices n)\<rparr>) else n | None \<Rightarrow> n"
        have "?n1 = nw_learn receiver ?fresh n \<and> ty = 1 \<or> ?n1 = n \<or>
            (\<exists>c r. fmlookup (nw_indices n) c = Some r \<and> ?n1 = n\<lparr>nw_indices := fmupd c ?fresh (nw_indices n)\<rparr>)"
          by (auto split: option.splits)
        moreover have "nw_handle now ks b from n = ([(server, b)], ?n1)"
          using \<open>DecodeControlFrame b = None\<close> tr False True k by (simp add: nw_handle_def Let_def)
        moreover have "ap_IsValid server" using True k(3) by simp
        ultimately show ?thesis
          using request [OF \<open>DecodeControlFrame b = None\<close> tr False k(1,2), of ?n1] by blast
      next
        case invalid: False
        with \<open>DecodeControlFrame b = None\<close> tr False show ?thesis using drop by (simp add: nw_handle_def)
      qed
    qed
  qed
qed

lemma handle_inv:
  assumes "nw_inv n"
  shows "nw_inv (snd (nw_handle now ks b from n))"
proof (cases rule: nw_handle_cases [of now ks b "from" n])
  case (reply ty receiver route n1)
  then have "nw_inv n1" "fmlookup (nw_indices n1) receiver \<noteq> None" using assms by (auto simp: recordPair_inv)
  with reply(7) show ?thesis by (simp add: indices_refresh_inv)
next
  case (request ty receiver k ks' server n1)
  then show ?thesis using assms by (auto simp: learn_inv indices_refresh_inv)
qed (use assms in \<open>simp_all add: associate_inv\<close>)

lemma nw_step_inv: "nw_inv n \<Longrightarrow> nw_step n e n' \<Longrightarrow> nw_inv n'"
  by (erule nw_stepE) (auto intro: issue_inv remove_inv, metis handle_inv snd_conv)

interpretation nw: bounded_table nw_step nw_inv
  "\<lambda>n. int (max (gm_len (nw_indices n)) (gm_len (nw_pairs n)))" "\<lambda>_. int nativeWGMaxIndices"
proof unfold_locales
  fix n e n' assume "nw_inv n" "nw_step n e n'"
  then show "nw_inv n'" by (rule nw_step_inv)
next
  fix n assume "nw_inv n"
  from nw_invD(1,2) [OF this] ring_len [OF nw_invD(1) [OF this]] ring_len [OF nw_invD(2) [OF this]]
  show "int (max (gm_len (nw_indices n)) (gm_len (nw_pairs n))) \<le> int nativeWGMaxIndices"
    by (simp add: ring_inv_def)
qed simp

lemma new_nw_inv: "nw_inv newNativeWGRelay"
  by (rule nw_invI) (simp_all add: newNativeWGRelay_def ring_inv_def nativeWGMaxIndices_def)

subsection \<open>Where routes and associations come from\<close>

text \<open>An address is an associated server when it sent an associate frame with a token that had been
  issued; it is a client when it sent a well-formed WireGuard packet.\<close>

definition associated :: "nw_event list \<Rightarrow> string \<Rightarrow> addrPort \<Rightarrow> bool" where
  "associated es tenant a \<longleftrightarrow>
     (\<exists>tok b outs. NwIssue tok tenant \<in> set es \<and> NwPacket b a outs \<in> set es \<and>
        DecodeControlFrame b = Some (FrameNativeWireGuardAssociate, tok) \<and> 32 \<le> length tok)"

definition spoke :: "nw_event list \<Rightarrow> addrPort \<Rightarrow> bool" where
  "spoke es a \<longleftrightarrow> (\<exists>b outs. NwPacket b a outs \<in> set es \<and> validWGPacket b \<noteq> None)"

definition nw_hinv :: "nw_event list \<Rightarrow> nativeWGRelay \<Rightarrow> bool" where
  "nw_hinv es n \<longleftrightarrow>
     (\<forall>tok tenant. fmlookup (nw_tokens n) tok = Some tenant \<longrightarrow> NwIssue tok tenant \<in> set es) \<and>
     (\<forall>tenant a. fmlookup (nw_servers n) tenant = Some a \<longrightarrow> associated es tenant a) \<and>
     (\<forall>i r. fmlookup (nw_indices n) i = Some r \<longrightarrow> spoke es (rt_client r))"

lemma nw_hinvI:
  assumes "\<And>tok tenant. fmlookup (nw_tokens n) tok = Some tenant \<Longrightarrow> NwIssue tok tenant \<in> set es"
    "\<And>tenant a. fmlookup (nw_servers n) tenant = Some a \<Longrightarrow> associated es tenant a"
    "\<And>i r. fmlookup (nw_indices n) i = Some r \<Longrightarrow> spoke es (rt_client r)"
  shows "nw_hinv es n"
  using assms unfolding nw_hinv_def by blast

lemma nw_hinvD:
  assumes "nw_hinv es n"
  shows "fmlookup (nw_tokens n) tok = Some tenant \<Longrightarrow> NwIssue tok tenant \<in> set es"
    "fmlookup (nw_servers n) tenant = Some a \<Longrightarrow> associated es tenant a"
    "fmlookup (nw_indices n) i = Some r \<Longrightarrow> spoke es (rt_client r)"
  using assms unfolding nw_hinv_def by blast+

lemma hist_snoc: "associated es tenant a \<Longrightarrow> associated (es @ [e]) tenant a" "spoke es a \<Longrightarrow> spoke (es @ [e]) a"
  unfolding associated_def spoke_def by auto

lemma nw_hinv_later: "nw_hinv es n \<Longrightarrow> nw_hinv (es @ [e]) n"
  by (rule nw_hinvI) (auto dest: nw_hinvD hist_snoc)

lemma handle_hinv:
  assumes "nw_hinv es n" "nw_handle now ks b from n = (outs, n')"
  shows "nw_hinv (es @ [NwPacket b from outs]) n'"
proof (cases rule: nw_handle_cases [of now ks b "from" n])
  case drop
  with assms show ?thesis by (simp add: nw_hinv_later)
next
  case (assoc payload)
  have "associated (es @ [NwPacket b from outs]) tenant from" if "fmlookup (nw_tokens n) payload = Some tenant" for tenant
    using that assoc(1,2) nw_hinvD(1) [OF assms(1)] unfolding associated_def by auto
  with assoc(3) assms nw_hinvD [OF nw_hinv_later [OF assms(1)]] show ?thesis
    by (intro nw_hinvI) (auto simp: nw_associate_def split: option.splits if_splits)
next
  case (reply ty receiver route n1)
  have "spoke (es @ [NwPacket b from outs]) (rt_client route)"
    using nw_hinvD(3) [OF nw_hinv_later [OF assms(1)]] reply(4) by blast
  with reply assms nw_hinvD [OF nw_hinv_later [OF assms(1)]] show ?thesis
    by (intro nw_hinvI) (auto split: if_splits)
next
  case (request ty receiver k ks' server n1)
  have s: "spoke (es @ [NwPacket b from outs]) from" using request(2) unfolding spoke_def by auto
  note later = nw_hinvD [OF nw_hinv_later [OF assms(1)]]
  have n': "n' = n1" using request assms(2) by simp
  from request(7) show ?thesis
  proof (elim disjE exE conjE)
    assume "n1 = nw_learn receiver \<lparr>rt_client = from, rt_expires = now + nativeWGRouteTTL\<rparr> n"
    then show ?thesis unfolding n' by (intro nw_hinvI) (auto intro: later nw_hinvD(1) [OF assms(1)] s dest!: learn_lookup)
  next
    assume "n1 = n"
    then show ?thesis unfolding n' using nw_hinv_later [OF assms(1)] by simp
  next
    fix c r assume "n1 = n\<lparr>nw_indices := fmupd c \<lparr>rt_client = from, rt_expires = now + nativeWGRouteTTL\<rparr> (nw_indices n)\<rparr>"
    then show ?thesis unfolding n' by (intro nw_hinvI) (auto intro: later nw_hinvD(1) [OF assms(1)] s split: if_splits)
  qed
qed

lemma nw_step_hinv:
  assumes "nw_hinv es n" "nw_step n e n'"
  shows "nw_hinv (es @ [e]) n'"
  using assms(2)
proof (cases rule: nw_step.cases)
  case (nw_issue token tenant)
  with nw_hinvD [OF nw_hinv_later [OF assms(1)]] show ?thesis
    by (intro nw_hinvI) (auto simp: nw_issue_def Let_def split: if_splits option.splits)
next
  case (nw_remove tenant token)
  with nw_hinvD [OF nw_hinv_later [OF assms(1)]] show ?thesis
    by (intro nw_hinvI) (auto simp: nw_remove_def split: if_splits)
next
  case (nw_packet ks now b src outs)
  with handle_hinv [OF assms(1)] show ?thesis by simp
qed

interpretation nw_history: history_system nw_step nw_hinv
  by unfold_locales (rule nw_step_hinv)

lemma new_nw_hinv: "nw_hinv [] newNativeWGRelay"
  by (rule nw_hinvI) (simp_all add: newNativeWGRelay_def)

lemma nw_handle_out:
  "fst (nw_handle now ks b src n) = [] \<or> (\<exists>dst. fst (nw_handle now ks b src n) = [(dst, b)])"
  by (cases rule: nw_handle_cases [of now ks b src n]) auto

interpretation native_wg: no_amplifier "\<lambda>(now, ks, src) b n. nw_handle now ks b src n" snd
proof unfold_locales
  fix x :: "gotime \<times> string list \<times> addrPort" and b n
  obtain now ks src where x: "x = (now, ks, src)" by (cases x)
  from nw_handle_out [of now ks b src n] x
  show "length (fst ((case x of (now, ks, src) \<Rightarrow> \<lambda>b n. nw_handle now ks b src n) b n)) \<le> 1" by auto
  from nw_handle_out [of now ks b src n] x
  show "length (snd p) \<le> length b"
    if "p \<in> set (fst ((case x of (now, ks, src) \<Rightarrow> \<lambda>b n. nw_handle now ks b src n) b n))" for p
    using that by auto
qed

section \<open>Properties\<close>

text \<open>However many handshakes an attacker starts, the routing tables stay within 4096 entries
  each, and each is a first-in first-out queue: a new index leaves the others in their order and
  evicts only the oldest one, and only when the table is full. At most one token per tenant is ever
  valid, and no association outlives its tenant's token.\<close>

theorem native_tables_bounded_fifo:
  assumes "run nw_step newNativeWGRelay es n"
  shows "gm_len (nw_indices n) \<le> 4096 \<and> gm_len (nw_pairs n) \<le> 4096 \<and>
    (\<forall>k. k \<in> set (ring_queue (nw_indexOrder n, nw_nextIndex n)) \<longleftrightarrow> fmlookup (nw_indices n) k \<noteq> None) \<and>
    ring_queue (nw_indexOrder (nw_learn idx route n), nw_nextIndex (nw_learn idx route n)) =
      queue_insert idx (ring_queue (nw_indexOrder n, nw_nextIndex n)) \<and>
    ring_queue (nw_pairOrder (nw_recordPair sidx cidx n), nw_nextPair (nw_recordPair sidx cidx n)) =
      queue_insert sidx (ring_queue (nw_pairOrder n, nw_nextPair n)) \<and>
    (fmlookup (nw_servers n) tenant = None \<or> (\<exists>!tok. fmlookup (nw_tokens n) tok = Some tenant))"
proof (intro conjI)
  have inv: "nw_inv n" using nw.run_inv [OF assms new_nw_inv] .
  note r = nw_invD(1,2) [OF inv]
  show "gm_len (nw_indices n) \<le> 4096" "gm_len (nw_pairs n) \<le> 4096"
    using nw.run_bounded [OF new_nw_inv assms] by (simp_all add: nativeWGMaxIndices_def)
  show "\<forall>k. k \<in> set (ring_queue (nw_indexOrder n, nw_nextIndex n)) \<longleftrightarrow> fmlookup (nw_indices n) k \<noteq> None"
    using r(1) by (simp add: ring_inv_def)
  show "ring_queue (nw_indexOrder (nw_learn idx route n), nw_nextIndex (nw_learn idx route n)) =
      queue_insert idx (ring_queue (nw_indexOrder n, nw_nextIndex n))"
    using ring_reserve_queue [OF r(1)] by (simp add: nw_learn_def split: prod.splits)
  show "ring_queue (nw_pairOrder (nw_recordPair sidx cidx n), nw_nextPair (nw_recordPair sidx cidx n)) =
      queue_insert sidx (ring_queue (nw_pairOrder n, nw_nextPair n))"
    using ring_reserve_queue [OF r(2)] by (simp add: nw_recordPair_def split: prod.splits)
  show "fmlookup (nw_servers n) tenant = None \<or> (\<exists>!tok. fmlookup (nw_tokens n) tok = Some tenant)"
  proof (cases "fmlookup (nw_servers n) tenant")
    case (Some a)
    from nw_invD(4) [OF inv Some] obtain tok where "fmlookup (nw_tokens n) tok = Some tenant" ..
    then have "\<exists>!tok. fmlookup (nw_tokens n) tok = Some tenant" using nw_invD(3) [OF inv] by (intro ex1I)
    then show ?thesis ..
  qed simp
qed

theorem native_tables_bounded_fifo_witness:
  "gm_len (nw_indices (nw_issue [1] ''t'' newNativeWGRelay)) \<le> 4096"
proof -
  have "nw_step newNativeWGRelay (NwIssue [1] ''t'') (nw_issue [1] ''t'' newNativeWGRelay)"
    by (rule nw_step.nw_issue) (simp add: newNativeWGRelay_def)
  from native_tables_bounded_fifo [OF run_one [of nw_step, OF this]] show ?thesis by blast
qed

text \<open>C30: The native relay cannot be steered at a third party. In any run, a packet it forwards is
  passed on unchanged, and it goes either from an associated server to an address that has itself sent
  a WireGuard packet here, over a route that has not expired, or from a non-server to an address that
  proved itself a tenant's server with a token issued for that tenant.\<close>

theorem native_routing_safe:
  assumes "run nw_step newNativeWGRelay es n" and "range_order ks (nw_servers n)"
    and "(dst, out) \<in> set (fst (nw_handle now ks b src n))"
  shows "out = b \<and>
    ((\<exists>tenant ty receiver route. associated es tenant src \<and> spoke es dst \<and>
        validWGPacket b = Some (ty, receiver) \<and> fmlookup (nw_indices n) receiver = Some route \<and>
        rt_client route = dst \<and> now < rt_expires route) \<or>
     (\<exists>tenant. associated es tenant dst \<and> fmlookup (nw_servers n) tenant = Some dst \<and>
        validWGPacket b \<noteq> None))"
proof -
  have hinv: "nw_hinv es n" using nw_history.run_hinv [OF assms(1) new_nw_hinv] .
  show ?thesis
  proof (cases rule: nw_handle_cases [of now ks b src n])
    case (reply ty receiver route n1)
    then obtain tenant where "fmlookup (nw_servers n) tenant = Some src" by (auto simp: list_ex_iff)
    with reply assms(3) nw_hinvD(2,3) [OF hinv] show ?thesis by auto
  next
    case (request ty receiver k ks' server n1)
    with assms(3) nw_hinvD(2) [OF hinv request(5)] show ?thesis by auto
  qed (use assms(3) in auto)
qed

lemma control_le32: "isControlFrame b \<Longrightarrow> le32 b = 0x57544e00"
  by (simp add: isControlFrame_def controlMagic_def le32_def)

lemma wg_not_control: "validWGPacket b = Some x \<Longrightarrow> DecodeControlFrame b = None"
  using control_le32 [of b] by (auto simp: validWGPacket_def DecodeControlFrame_def Let_def split: if_splits)

lemma learn_self: "fmlookup (nw_indices (nw_learn i r n)) i = Some r"
  by (simp add: nw_learn_def split: prod.splits)

lemma recordPair_self: "fmlookup (nw_pairs (nw_recordPair s c n)) s = Some c"
  by (simp add: nw_recordPair_def split: prod.splits)

definition demo_token :: bytes where "demo_token = replicate 32 7"
definition demo_init :: bytes where "demo_init = [1, 0, 0, 0, 0, 0, 0, 0] @ replicate 140 0"
definition demo_nw1 :: nativeWGRelay where "demo_nw1 = nw_issue demo_token ''t'' newNativeWGRelay"
definition demo_nw2 :: nativeWGRelay where "demo_nw2 = nw_associate demo_token demo_server demo_nw1"
definition demo_assoc :: bytes where "demo_assoc = EncodeControlFrame FrameNativeWireGuardAssociate demo_token"

lemma demo_nw2_fields:
  "nw_servers demo_nw2 = fmupd ''t'' demo_server fmempty" "nw_indices demo_nw2 = fmempty"
  by (simp_all add: demo_nw2_def demo_nw1_def nw_issue_def nw_associate_def newNativeWGRelay_def Let_def)

lemma demo_assoc_decode: "DecodeControlFrame demo_assoc = Some (FrameNativeWireGuardAssociate, demo_token)"
  by (simp add: demo_assoc_def EncodeControlFrame_def DecodeControlFrame_def isControlFrame_def
      controlMagic_def controlHeaderLen_def)

lemma demo_init_valid: "validWGPacket demo_init = Some (1, 0)"
  by (simp add: validWGPacket_def demo_init_def le32_def nth_append)

lemma demo_nw_run: "run nw_step newNativeWGRelay [NwIssue demo_token ''t'', NwPacket demo_assoc demo_server []] demo_nw2"
proof -
  have "nw_step newNativeWGRelay (NwIssue demo_token ''t'') demo_nw1"
    unfolding demo_nw1_def by (rule nw_step.nw_issue) (simp add: newNativeWGRelay_def)
  moreover have "nw_step demo_nw1 (NwPacket demo_assoc demo_server []) demo_nw2"
    by (rule nw_step.nw_packet [of "[]" _ 0])
      (simp_all add: range_order_iff demo_nw1_def nw_issue_def newNativeWGRelay_def Let_def nw_handle_def
        demo_assoc_decode demo_nw2_def demo_token_def)
  ultimately show ?thesis by (rule run_two [of nw_step])
qed

theorem native_routing_safe_witness:
  "\<exists>tenant. associated [NwIssue demo_token ''t'', NwPacket demo_assoc demo_server []] tenant demo_server"
proof -
  have o: "(demo_server, demo_init) \<in> set (fst (nw_handle 5 [''t''] demo_init demo_client demo_nw2))"
    using demo_init_valid wg_not_control [OF demo_init_valid]
    by (simp add: nw_handle_def demo_nw2_fields demo_server_def demo_client_def gm_get_def ap_IsValid_def Let_def)
  have r: "range_order [''t''] (nw_servers demo_nw2)" by (auto simp: demo_nw2_fields range_order_iff)
  from native_routing_safe [OF demo_nw_run r o] show ?thesis by (auto simp: demo_nw2_fields)
qed

text \<open>A native WireGuard session works end to end and survives a client that moves. With a server
  associated, a handshake initiation goes to it; its response, within the time to live, returns to the
  client; a later data packet the client sends from a new address still reaches the server and moves
  the return route, so the server's next packet goes to that new address.\<close>

theorem native_handshake_and_roaming:
  assumes "nw_servers n = fmupd tenant srv fmempty" "ap_IsValid srv" "cli \<noteq> srv" "cli' \<noteq> srv"
    and "validWGPacket init = Some (1, ci)" "validWGPacket resp = Some (2, ci)"
    and "validWGPacket data = Some (4, le32 (drop 4 resp))" "validWGPacket reply = Some (4, ci)"
    and "t2 < t1 + nativeWGRouteTTL" "t4 < t3 + nativeWGRouteTTL"
  shows "\<exists>n1 n2 n3 n4. nw_handle t1 [tenant] init cli n = ([(srv, init)], n1) \<and>
    nw_handle t2 [tenant] resp srv n1 = ([(cli, resp)], n2) \<and>
    nw_handle t3 [tenant] data cli' n2 = ([(srv, data)], n3) \<and>
    nw_handle t4 [tenant] reply srv n3 = ([(cli', reply)], n4)"
proof -
  note nc = wg_not_control [OF assms(5)] wg_not_control [OF assms(6)] wg_not_control [OF assms(7)] wg_not_control [OF assms(8)]
  let ?n1 = "nw_learn ci \<lparr>rt_client = cli, rt_expires = t1 + nativeWGRouteTTL\<rparr> n"
  let ?m = "nw_recordPair (le32 (drop 4 resp)) ci ?n1"
  let ?n2 = "?m\<lparr>nw_indices := fmupd ci \<lparr>rt_client = cli, rt_expires = t2 + nativeWGRouteTTL\<rparr> (nw_indices ?m)\<rparr>"
  let ?n3 = "?n2\<lparr>nw_indices := fmupd ci \<lparr>rt_client = cli', rt_expires = t3 + nativeWGRouteTTL\<rparr> (nw_indices ?n2)\<rparr>"
  have "nw_handle t1 [tenant] init cli n = ([(srv, init)], ?n1)"
    using assms(1-3,5) nc(1) by (simp add: nw_handle_def gm_get_def)
  moreover have "nw_handle t2 [tenant] resp srv ?n1 = ([(cli, resp)], ?n2)"
    using assms(1,6,9) nc(2) by (simp add: nw_handle_def learn_self)
  moreover have "nw_handle t3 [tenant] data cli' ?n2 = ([(srv, data)], ?n3)"
    using assms(1,2,4,7) nc(3) by (simp add: nw_handle_def gm_get_def recordPair_self)
  moreover have "\<exists>n4. nw_handle t4 [tenant] reply srv ?n3 = ([(cli', reply)], n4)"
    using assms(1,8,10) nc(4) by (simp add: nw_handle_def)
  ultimately show ?thesis by blast
qed

definition demo_resp :: bytes where "demo_resp = [2, 0, 0, 0, 5, 0, 0, 0, 0, 0, 0, 0] @ replicate 80 0"
definition demo_data :: bytes where "demo_data = [4, 0, 0, 0, 5, 0, 0, 0] @ replicate 24 0"
definition demo_reply :: bytes where "demo_reply = [4, 0, 0, 0, 0, 0, 0, 0] @ replicate 24 0"

lemma demo_packets:
  "validWGPacket demo_resp = Some (2, 0)" "validWGPacket demo_data = Some (4, le32 (drop 4 demo_resp))"
  "validWGPacket demo_reply = Some (4, 0)"
  by (simp_all add: validWGPacket_def demo_resp_def demo_data_def demo_reply_def le32_def nth_append MaxRelayDatagram_def)

theorem native_handshake_and_roaming_witness:
  "\<exists>n1 n2. nw_handle 0 [''t''] demo_init demo_client demo_nw2 = ([(demo_server, demo_init)], n1) \<and>
     nw_handle 10 [''t''] demo_resp demo_server n1 = ([(demo_client, demo_resp)], n2)"
proof -
  have "ap_IsValid demo_server" "demo_client \<noteq> demo_server" "AddrPort (IP4 10) 82 \<noteq> demo_server"
    "10 < 0 + nativeWGRouteTTL" "30 < 20 + nativeWGRouteTTL"
    by (simp_all add: ap_IsValid_def demo_server_def demo_client_def nativeWGRouteTTL_def)
  from native_handshake_and_roaming [OF demo_nw2_fields(1) this(1-3) demo_init_valid demo_packets this(4,5)]
  show ?thesis by blast
qed

text \<open>The frame type 6 means two things on the relay's sockets, a native server association and a
  multipath path probe, and the payload length keeps them apart: a frame the UDP-relay tier forwards as
  a path probe is never an association for the native listener, which leaves its state as it is, and an
  associate frame the native listener accepts is never forwarded by the UDP-relay tier. A WireGuard
  packet is neither, and is never amplified.\<close>

theorem frame_six_disambiguated:
  "(forwardable b \<and> DecodeControlFrame b \<noteq> None \<longrightarrow> nw_handle now ks b src n = ([], n)) \<and>
   (nw_handle now ks b src n = ([], nw_associate payload src n) \<and>
      DecodeControlFrame b = Some (FrameNativeWireGuardAssociate, payload) \<and> 32 \<le> length payload \<longrightarrow> \<not> forwardable b) \<and>
   (validWGPacket b \<noteq> None \<longrightarrow> DecodeControlFrame b = None) \<and>
   length (fst (nw_handle now ks b src n)) \<le> 1 \<and>
   (\<forall>dst out. (dst, out) \<in> set (fst (nw_handle now ks b src n)) \<longrightarrow> length out \<le> length b)"
  using native_wg.one_out [of "(now, ks, src)" b n] native_wg.no_longer [of _ "(now, ks, src)" b n] wg_not_control [of b]
  by (auto simp: forwardable_def nw_handle_def ValidPathControl_def pathProbeSize_def split: option.splits prod.splits)

theorem frame_six_disambiguated_witness:
  "nw_handle 0 [] (EncodeControlFrame FramePathProbe (replicate 12 0)) demo_client newNativeWGRelay = ([], newNativeWGRelay)"
proof -
  have "forwardable (EncodeControlFrame FramePathProbe (replicate 12 0))"
    "DecodeControlFrame (EncodeControlFrame FramePathProbe (replicate 12 0)) \<noteq> None"
    by (simp_all add: forwardable_def ValidPathControl_def pathProbeSize_def DecodeControlFrame_def
        EncodeControlFrame_def isControlFrame_def controlMagic_def controlHeaderLen_def)
  then show ?thesis
    using frame_six_disambiguated [of "EncodeControlFrame FramePathProbe (replicate 12 0)"] by blast
qed

end
