(* ===== verification/Protocol.thy ===== *)
theory Protocol
  imports Ntwire_Prelude "HOL-Library.Char_ord" "HOL-Library.List_Lexorder"
begin

text \<open>
  \<^verbatim>\<open>pkg/protocol/protocol.go\<close>: capability checks and the byte strings that are signed, the
  authentication payload of a client and the registration payload of a relayed server.
\<close>

section \<open>Capabilities\<close>

definition Version :: int where "Version = 1"
definition CapabilityMultipathV3 :: string where "CapabilityMultipathV3 = ''multipath-v3''"
definition CapabilityPathMTUV1 :: string where "CapabilityPathMTUV1 = ''path-mtu-v1''"
definition CapabilityNativeWireGuardRelay :: string where
  "CapabilityNativeWireGuardRelay = ''native-wireguard-relay-v1''"

definition HasCapability :: "string list \<Rightarrow> string \<Rightarrow> bool" where
  "HasCapability caps want \<longleftrightarrow> list_ex (\<lambda>got. got = want) caps"

datatype capError = EmptyCapability | UnsupportedCapability string

fun ValidateRequiredCapabilities :: "string list \<Rightarrow> string list \<Rightarrow> capError option" where
  "ValidateRequiredCapabilities supported [] = None"
| "ValidateRequiredCapabilities supported (want # required) =
     (if want = '''' then Some EmptyCapability
      else if \<not> HasCapability supported want then Some (UnsupportedCapability want)
      else ValidateRequiredCapabilities supported required)"

section \<open>Signed payloads\<close>

text \<open>\<open>binary.Write\<close> of a big-endian \<open>uint32\<close>.\<close>

definition put_be32 :: "nat \<Rightarrow> bytes" where
  "put_be32 n = [of_nat (n div 16777216 mod 256), of_nat (n div 65536 mod 256), of_nat (n div 256 mod 256), of_nat (n mod 256)]"

definition maxField :: nat where "maxField = 1048576"

datatype payloadError = UnsupportedVersion int | FieldTooLarge

text \<open>The loop over the fields, each one prefixed with its length.\<close>

fun write_fields :: "string list \<Rightarrow> payloadError + bytes" where
  "write_fields [] = Inr []"
| "write_fields (f # fs) =
     (if length f > maxField then Inl FieldTooLarge
      else case write_fields fs of
             Inl e \<Rightarrow> Inl e
           | Inr b \<Rightarrow> Inr (put_be32 (length f) @ str_bytes f @ b))"

record relayRegisterRequest =
  rr_Version :: int
  rr_PublicKey :: string
  rr_Name :: string
  rr_Timestamp :: string
  rr_Nonce :: string
  rr_Signature :: string
  rr_RequiredCapabilities :: "string list"

definition relay_domain :: bytes where
  "relay_domain = str_bytes ''ntwire-relay-register-v1'' @ [0]"

definition RelayRegisterPayload :: "relayRegisterRequest \<Rightarrow> payloadError + bytes" where
  "RelayRegisterPayload r =
     (if rr_Version r \<noteq> Version then Inl (UnsupportedVersion (rr_Version r))
      else case write_fields [rr_PublicKey r, rr_Name r, rr_Timestamp r, rr_Nonce r] of
             Inl e \<Rightarrow> Inl e
           | Inr b \<Rightarrow> Inr (relay_domain @ b))"

record clientInfo =
  ci_OS :: string
  ci_Arch :: string
  ci_Hostname :: string
  ci_Username :: string
  ci_ClientVersion :: string
  ci_Extra :: "(string, string) fmap"

record authRequest =
  ar_Version :: int
  ar_PublicKey :: string
  ar_WireGuardPublicKey :: string
  ar_Timestamp :: string
  ar_Nonce :: string
  ar_Info :: clientInfo

definition auth_domain :: bytes where
  "auth_domain = str_bytes ''ntwire-auth-v1'' @ [0]"

text \<open>The \<open>Extra\<close> entries, in the order of their sorted keys.\<close>

definition extra_fields :: "(string, string) fmap \<Rightarrow> string list" where
  "extra_fields m = concat (map (\<lambda>k. [k, gm_get '''' m k]) (sorted_list_of_fset (fmdom m)))"

definition auth_fields :: "authRequest \<Rightarrow> string list" where
  "auth_fields r =
     [ar_PublicKey r, ar_WireGuardPublicKey r, ar_Timestamp r, ar_Nonce r, ci_OS (ar_Info r),
      ci_Arch (ar_Info r), ci_Hostname (ar_Info r), ci_Username (ar_Info r), ci_ClientVersion (ar_Info r)]
     @ extra_fields (ci_Extra (ar_Info r))"

definition SigningPayload :: "authRequest \<Rightarrow> payloadError + bytes" where
  "SigningPayload r =
     (if ar_Version r \<noteq> Version then Inl (UnsupportedVersion (ar_Version r))
      else case write_fields (auth_fields r) of
             Inl e \<Rightarrow> Inl e
           | Inr b \<Rightarrow> Inr (auth_domain @ b))"

text \<open>The capabilities of an offer that are supported, each once and in the order of the offer; \<open>trim\<close>
  is \<open>strings.TrimSpace\<close>.\<close>

fun intersect_loop :: "(string \<Rightarrow> string) \<Rightarrow> string list \<Rightarrow> string list \<Rightarrow> string fset \<Rightarrow> string list" where
  "intersect_loop trim supported [] seen = []"
| "intersect_loop trim supported (cap # caps) seen =
     (if cap = [] \<or> trim cap \<noteq> cap \<or> \<not> HasCapability supported cap then intersect_loop trim supported caps seen
      else if cap |\<in>| seen then intersect_loop trim supported caps seen
      else cap # intersect_loop trim supported caps (finsert cap seen))"

definition IntersectCapabilities :: "(string \<Rightarrow> string) \<Rightarrow> string list \<Rightarrow> string list \<Rightarrow> string list" where
  "IntersectCapabilities trim offer supported = intersect_loop trim supported offer {||}"

text \<open>The libraries a registration or an authentication is checked with: \<open>time.Parse\<close>, parsing and fingerprint of a
  public key, and signature verification.\<close>

record 'key crypto =
  cr_ParseTimestamp :: "string \<Rightarrow> gotime option"
  cr_ParsePublic :: "string \<Rightarrow> 'key option"
  cr_Fingerprint :: "'key \<Rightarrow> string"
  cr_Verify :: "'key \<Rightarrow> bytes \<Rightarrow> string \<Rightarrow> bool"

section \<open>Lemmas\<close>

lemma byte_of_nat_inj: "a < 256 \<Longrightarrow> b < 256 \<Longrightarrow> (of_nat a :: byte) = of_nat b \<Longrightarrow> a = b"
  by (simp add: word_of_nat_eq_iff take_bit_eq_mod)

lemma char_byte_inj: "(of_nat (of_char c) :: byte) = of_nat (of_char d) \<Longrightarrow> c = d"
  using byte_of_nat_inj [of "of_char c" "of_char d"] by simp

lemma str_bytes_inj: "str_bytes s = str_bytes t \<longleftrightarrow> s = t"
  unfolding str_bytes_def by (metis char_byte_inj inj_map_eq_map injI)

lemma put_be32_length [simp]: "length (put_be32 n) = 4"
  by (simp add: put_be32_def)

lemma nat_bytes: "(n :: nat) = 65536 * (n div 65536) + 256 * (n div 256 mod 256) + n mod 256"
proof -
  define k where "k = n div 256"
  have "n div 65536 = k div 256" by (simp add: k_def div_mult2_eq [symmetric])
  moreover have "n = 256 * k + n mod 256" by (simp add: k_def)
  moreover have "k = 256 * (k div 256) + k mod 256" by simp
  ultimately show ?thesis unfolding k_def by linarith
qed

lemma put_be32_inj:
  assumes "n \<le> maxField" "m \<le> maxField" "put_be32 n = put_be32 m"
  shows "n = m"
proof -
  have "n div 65536 mod 256 = m div 65536 mod 256" "n div 256 mod 256 = m div 256 mod 256" "n mod 256 = m mod 256"
    using assms(3) by (auto simp: put_be32_def intro: byte_of_nat_inj)
  moreover have "n div 65536 mod 256 = n div 65536" "m div 65536 mod 256 = m div 65536"
    using assms(1,2) by (simp_all add: maxField_def)
  ultimately show ?thesis using nat_bytes [of n] nat_bytes [of m] by simp
qed

lemma write_fields_inj:
  "write_fields fs = Inr b \<Longrightarrow> write_fields gs = Inr b \<Longrightarrow> fs = gs"
proof (induction fs arbitrary: gs b)
  case Nil
  then show ?case by (cases gs) (auto simp: put_be32_def split: if_splits sum.splits)
next
  case (Cons f fs)
  from Cons.prems(1) obtain b1 where f: "length f \<le> maxField" "write_fields fs = Inr b1"
    "b = put_be32 (length f) @ str_bytes f @ b1"
    by (auto split: if_splits sum.splits)
  then obtain g gs' where gs: "gs = g # gs'" using Cons.prems(2)
    by (cases gs) (auto simp: put_be32_def)
  with Cons.prems(2) obtain b2 where g: "length g \<le> maxField" "write_fields gs' = Inr b2"
    "b = put_be32 (length g) @ str_bytes g @ b2"
    by (auto split: if_splits sum.splits)
  from f(3) g(3) have "put_be32 (length f) = put_be32 (length g)" "str_bytes f @ b1 = str_bytes g @ b2"
    by (simp_all add: append_eq_append_conv)
  moreover from this(1) f(1) g(1) have "length f = length g" by (simp add: put_be32_inj)
  ultimately have "f = g" "b1 = b2" by (simp_all add: append_eq_append_conv str_bytes_inj)
  with Cons.IH [OF f(2)] g(2) gs show ?case by simp
qed

lemma pairs_inj:
  "concat (map (\<lambda>k. [k, h k]) ks) = concat (map (\<lambda>k. [k, h' k]) ks') \<Longrightarrow> ks = ks' \<and> (\<forall>k \<in> set ks. h k = h' k)"
proof (induction ks arbitrary: ks')
  case Nil
  then show ?case by (cases ks') auto
next
  case (Cons k ks)
  then show ?case by (cases ks') auto
qed

lemma extra_fields_inj:
  assumes "extra_fields m = extra_fields m'"
  shows "m = m'"
proof (rule fmap_ext)
  fix k
  have e: "sorted_list_of_fset (fmdom m) = sorted_list_of_fset (fmdom m')"
    "\<forall>k \<in> set (sorted_list_of_fset (fmdom m)). gm_get '''' m k = gm_get '''' m' k"
    using pairs_inj [of "gm_get '''' m" "sorted_list_of_fset (fmdom m)"] assms
    unfolding extra_fields_def by blast+
  have "set (sorted_list_of_fset (fmdom n)) = fset (fmdom n)" for n :: "(string, string) fmap"
    by (simp add: sorted_list_of_fset.rep_eq)
  with e have d: "fset (fmdom m) = fset (fmdom m')" "\<forall>k \<in> fset (fmdom m). gm_get '''' m k = gm_get '''' m' k"
    by metis+
  show "fmlookup m k = fmlookup m' k"
  proof (cases "k \<in> fset (fmdom m)")
    case True
    then obtain v v' where "fmlookup m k = Some v" "fmlookup m' k = Some v'"
      using d(1) by (metis fmlookup_dom_iff)
    with d(2) True show ?thesis by (auto simp: gm_get_def)
  next
    case False
    with d(1) show ?thesis by (metis fmdom_notD)
  qed
qed

section \<open>Properties\<close>

text \<open>C34: A signature binds everything that is signed. Two authentication requests with the same
  payload agree in every signed field and in the whole \<open>Extra\<close> map; two registration requests with
  the same payload agree in key, name, timestamp and nonce; and no authentication payload is a
  registration payload, so a signature for one can never be replayed as the other.\<close>

theorem payloads_bind_fields:
  "(SigningPayload a = Inr p \<and> SigningPayload a' = Inr p \<longrightarrow>
      ar_PublicKey a = ar_PublicKey a' \<and> ar_WireGuardPublicKey a = ar_WireGuardPublicKey a' \<and>
      ar_Timestamp a = ar_Timestamp a' \<and> ar_Nonce a = ar_Nonce a' \<and> ar_Info a = ar_Info a') \<and>
   (RelayRegisterPayload r = Inr q \<and> RelayRegisterPayload r' = Inr q \<longrightarrow>
      rr_PublicKey r = rr_PublicKey r' \<and> rr_Name r = rr_Name r' \<and>
      rr_Timestamp r = rr_Timestamp r' \<and> rr_Nonce r = rr_Nonce r') \<and>
   \<not> (SigningPayload a = Inr p \<and> RelayRegisterPayload r = Inr p)"
proof (intro conjI impI)
  assume "SigningPayload a = Inr p \<and> SigningPayload a' = Inr p"
  then obtain b where "write_fields (auth_fields a) = Inr b" "write_fields (auth_fields a') = Inr b"
    by (auto simp: SigningPayload_def split: if_splits sum.splits)
  from write_fields_inj [OF this]
  have "auth_fields a = auth_fields a'" .
  then show "ar_PublicKey a = ar_PublicKey a'" "ar_WireGuardPublicKey a = ar_WireGuardPublicKey a'"
    "ar_Timestamp a = ar_Timestamp a'" "ar_Nonce a = ar_Nonce a'" "ar_Info a = ar_Info a'"
    by (auto simp: auth_fields_def dest: extra_fields_inj intro!: clientInfo.equality)
next
  assume "RelayRegisterPayload r = Inr q \<and> RelayRegisterPayload r' = Inr q"
  then obtain b where "write_fields [rr_PublicKey r, rr_Name r, rr_Timestamp r, rr_Nonce r] = Inr b"
    "write_fields [rr_PublicKey r', rr_Name r', rr_Timestamp r', rr_Nonce r'] = Inr b"
    unfolding RelayRegisterPayload_def by (auto simp del: write_fields.simps split: if_splits sum.splits)
  from write_fields_inj [OF this]
  show "rr_PublicKey r = rr_PublicKey r'" "rr_Name r = rr_Name r'" "rr_Timestamp r = rr_Timestamp r'"
    "rr_Nonce r = rr_Nonce r'" by simp_all
next
  show "\<not> (SigningPayload a = Inr p \<and> RelayRegisterPayload r = Inr p)"
  proof
    assume "SigningPayload a = Inr p \<and> RelayRegisterPayload r = Inr p"
    then obtain b c where "relay_domain @ c = auth_domain @ b"
      unfolding SigningPayload_def RelayRegisterPayload_def
      by (auto simp del: write_fields.simps split: if_splits sum.splits)
    then have "(auth_domain @ b) ! 7 = (relay_domain @ c) ! 7" by simp
    then show False by (simp add: auth_domain_def relay_domain_def str_bytes_def nth_append)
  qed
qed

definition demo_register :: relayRegisterRequest where
  "demo_register = \<lparr>rr_Version = 1, rr_PublicKey = ''k'', rr_Name = ''n'', rr_Timestamp = ''t'', rr_Nonce = ''x'',
     rr_Signature = '''', rr_RequiredCapabilities = []\<rparr>"

theorem payloads_bind_fields_witness:
  "RelayRegisterPayload demo_register = RelayRegisterPayload (demo_register\<lparr>rr_Signature := ''s''\<rparr>) \<and>
   rr_Name demo_register = rr_Name (demo_register\<lparr>rr_Signature := ''s''\<rparr>)"
proof -
  have "\<exists>q. RelayRegisterPayload demo_register = Inr q \<and> RelayRegisterPayload (demo_register\<lparr>rr_Signature := ''s''\<rparr>) = Inr q"
    by (simp add: RelayRegisterPayload_def demo_register_def Version_def maxField_def)
  with payloads_bind_fields [where r = demo_register and r' = "demo_register\<lparr>rr_Signature := ''s''\<rparr>"]
  show ?thesis by (metis (no_types))
qed

end
