(* ===== verification/Registry.thy ===== *)
theory Registry
  imports Authlimit Protocol
begin

text \<open>
  \<^verbatim>\<open>pkg/relay/registry.go\<close> with the hand-off of \<^verbatim>\<open>handleData\<close> in \<^verbatim>\<open>agent.go\<close>: tenant
  registrations, live agents, the connection capabilities a public connection waits on, their
  accounting, and the discovered Kubernetes endpoints. Each definition is one critical section of
  the registry's lock; \<open>Open\<close>, which blocks, is split at the points where it lets go of the lock.
  Keys, signatures, timestamps and random identifiers come from libraries and are arguments.
\<close>

section \<open>Data\<close>

datatype registrationSource = SourceStatic | SourceOutbound | SourceKubernetes

record serverEndpoint =
  se_Hostname :: string
  se_Address :: string
  se_Namespace :: string
  se_Service :: string
  se_Tenant :: string
  se_Source :: registrationSource
  se_ID :: string

record 'key registration =
  rg_Name :: string
  rg_PublicKey :: 'key
  rg_Listen :: string

text \<open>An agent is an object; \<open>ag_id\<close> is its identity.\<close>

record agent =
  ag_id :: nat
  ag_Name :: string
  ag_Fingerprint :: string

record tenantState =
  ts_agent :: "agent option"
  ts_pending :: int
  ts_live :: int

definition newTenantState :: tenantState where
  "newTenantState = \<lparr>ts_agent = None, ts_pending = 0, ts_live = 0\<rparr>"

text \<open>\<open>pc_call\<close> identifies the \<open>Open\<close> whose channels the entry carries.\<close>

record pendingConn =
  pc_name :: string
  pc_call :: nat
  pc_expires :: gotime

record limits =
  lm_DialBackTimeout :: duration
  lm_MaxPendingPerServer :: int
  lm_MaxConnsPerServer :: int

record 'key registry =
  rs_byFingerprint :: "(string, 'key registration) fmap"
  rs_tenants :: "(string, tenantState) fmap"
  rs_pending :: "(string, pendingConn) fmap"
  rs_nonces :: nonceCache
  rs_kubernetes :: "(string, serverEndpoint) fmap"
  rs_conflicts :: "(string, (string, serverEndpoint) fmap) fmap"
  rs_limits :: limits
  rs_discoveredUsage :: "(string, tenantState) fmap"

definition maxNonces :: int where "maxNonces = DefaultMaxNonces"

definition add_registration :: "('key \<Rightarrow> string) \<Rightarrow> 'key registration \<Rightarrow> 'key registry \<Rightarrow> 'key registry" where
  "add_registration fingerprint reg r =
     r\<lparr>rs_byFingerprint := fmupd (fingerprint (rg_PublicKey reg)) reg (rs_byFingerprint r),
       rs_tenants := fmupd (rg_Name reg) newTenantState (rs_tenants r)\<rparr>"

definition NewRegistry ::
  "('key \<Rightarrow> string) \<Rightarrow> 'key registration list \<Rightarrow> limits \<Rightarrow> 'key registry" where
  "NewRegistry fingerprint registrations limits =
     fold (add_registration fingerprint) registrations
       \<lparr>rs_byFingerprint = fmempty, rs_tenants = fmempty, rs_pending = fmempty,
        rs_nonces = NewNonceCache (5 * minute) maxNonces, rs_kubernetes = fmempty,
        rs_conflicts = fmempty, rs_limits = limits, rs_discoveredUsage = fmempty\<rparr>"

section \<open>Discovered endpoints\<close>

datatype kubeError = InvalidEndpoint | DuplicateHostname string

definition UpsertKubernetes :: "serverEndpoint \<Rightarrow> 'key registry \<Rightarrow> kubeError option \<times> 'key registry" where
  "UpsertKubernetes ep r =
     (let host = se_Hostname ep in
      if se_Source ep \<noteq> SourceKubernetes \<or> host = '''' \<or> se_Address ep = '''' \<or> se_ID ep = ''''
      then (Some InvalidEndpoint, r)
      else case fmlookup (rs_kubernetes r) host of
        Some old \<Rightarrow>
          if se_ID old \<noteq> se_ID ep then
            let c = (case fmlookup (rs_conflicts r) host of
                       None \<Rightarrow> fmupd (se_ID old) old fmempty | Some c \<Rightarrow> c)
            in (Some (DuplicateHostname host),
                r\<lparr>rs_conflicts := fmupd host (fmupd (se_ID ep) ep c) (rs_conflicts r),
                  rs_kubernetes := fmdrop host (rs_kubernetes r)\<rparr>)
          else (case fmlookup (rs_conflicts r) host of
                  Some c \<Rightarrow> (Some (DuplicateHostname host),
                             r\<lparr>rs_conflicts := fmupd host (fmupd (se_ID ep) ep c) (rs_conflicts r)\<rparr>)
                | None \<Rightarrow> (None, r\<lparr>rs_kubernetes := fmupd host ep (rs_kubernetes r)\<rparr>))
      | None \<Rightarrow>
          (case fmlookup (rs_conflicts r) host of
             Some c \<Rightarrow> (Some (DuplicateHostname host),
                        r\<lparr>rs_conflicts := fmupd host (fmupd (se_ID ep) ep c) (rs_conflicts r)\<rparr>)
           | None \<Rightarrow> (None, r\<lparr>rs_kubernetes := fmupd host ep (rs_kubernetes r)\<rparr>)))"

text \<open>\<open>ks\<close> is the order in which the range loop visits the one entry that is left.\<close>

definition RemoveKubernetes :: "string list \<Rightarrow> string \<Rightarrow> string \<Rightarrow> 'key registry \<Rightarrow> 'key registry" where
  "RemoveKubernetes ks hostname uid r =
     (let r1 = (case fmlookup (rs_kubernetes r) hostname of
                  Some ep \<Rightarrow> if se_ID ep = uid then r\<lparr>rs_kubernetes := fmdrop hostname (rs_kubernetes r)\<rparr> else r
                | None \<Rightarrow> r)
      in case fmlookup (rs_conflicts r1) hostname of
           None \<Rightarrow> r1
         | Some c \<Rightarrow>
             let c' = fmdrop uid c;
                 r2 = r1\<lparr>rs_conflicts := fmupd hostname c' (rs_conflicts r1)\<rparr>
             in if gm_len c' = 1 then
                  fold (\<lambda>k r. case fmlookup c' k of None \<Rightarrow> r
                              | Some ep \<Rightarrow> r\<lparr>rs_kubernetes := fmupd hostname ep (rs_kubernetes r)\<rparr>) ks r2
                    \<lparr>rs_conflicts := fmdrop hostname (rs_conflicts r2)\<rparr>
                else if gm_len c' = 0 then r2\<lparr>rs_conflicts := fmdrop hostname (rs_conflicts r2)\<rparr>
                else r2)"

definition reg_Lookup :: "string \<Rightarrow> 'key registry \<Rightarrow> serverEndpoint option" where
  "reg_Lookup hostname r = fmlookup (rs_kubernetes r) hostname"

definition reg_List :: "string list \<Rightarrow> 'key registry \<Rightarrow> serverEndpoint list" where
  "reg_List ks r = List.map_filter (fmlookup (rs_kubernetes r)) ks"

section \<open>Registration\<close>

datatype registerError =
    ErrorInvalidRequest | ErrorUnsupportedCapability | ErrorClockSkew | ErrorUnknownKey
  | ErrorBadSignature | ErrorReplayedNonce | ErrorRelayNameNotAllowed

definition relayCapabilities :: "string list" where
  "relayCapabilities = [CapabilityMultipathV3, CapabilityNativeWireGuardRelay]"

definition reg_Register ::
  "'key crypto \<Rightarrow> gotime \<Rightarrow> string list \<Rightarrow> relayRegisterRequest \<Rightarrow> 'key registry
   \<Rightarrow> (registerError + string \<times> string) \<times> 'key registry" where
  "reg_Register cr now ks req r =
     (if rr_Version req \<noteq> Version then (Inl ErrorInvalidRequest, r)
      else if ValidateRequiredCapabilities relayCapabilities (rr_RequiredCapabilities req) \<noteq> None
      then (Inl ErrorUnsupportedCapability, r)
      else case cr_ParseTimestamp cr (rr_Timestamp req) of
        None \<Rightarrow> (Inl ErrorClockSkew, r)
      | Some ts \<Rightarrow>
          if now - ts > 2 * minute \<or> ts - now > 2 * minute then (Inl ErrorClockSkew, r)
          else case cr_ParsePublic cr (rr_PublicKey req) of
            None \<Rightarrow> (Inl ErrorUnknownKey, r)
          | Some key \<Rightarrow>
              let fp = cr_Fingerprint cr key in
              case fmlookup (rs_byFingerprint r) fp of
                None \<Rightarrow> (Inl ErrorUnknownKey, r)
              | Some reg \<Rightarrow>
                  (case RelayRegisterPayload req of
                     Inl _ \<Rightarrow> (Inl ErrorBadSignature, r)
                   | Inr payload \<Rightarrow>
                       if \<not> cr_Verify cr (rg_PublicKey reg) payload (rr_Signature req)
                       then (Inl ErrorBadSignature, r)
                       else let (fresh, nonces) = nonce_Use now ks (rr_Nonce req) (rs_nonces r);
                                r1 = r\<lparr>rs_nonces := nonces\<rparr>
                            in if \<not> fresh then (Inl ErrorReplayedNonce, r1)
                               else if rr_Name req \<noteq> rg_Name reg then (Inl ErrorRelayNameNotAllowed, r1)
                               else (Inr (rg_Name reg, fp), r1)))"

section \<open>Agents\<close>

text \<open>\<open>RegisterAgent\<close> also returns the agent it closes.\<close>

definition reg_RegisterAgent :: "string \<Rightarrow> agent \<Rightarrow> 'key registry \<Rightarrow> agent option \<times> 'key registry" where
  "reg_RegisterAgent name agent r =
     (let t = gm_get newTenantState (rs_tenants r) name
      in (ts_agent t, r\<lparr>rs_tenants := fmupd name (t\<lparr>ts_agent := Some agent\<rparr>) (rs_tenants r)\<rparr>))"

definition reg_DeregisterAgent :: "string \<Rightarrow> agent \<Rightarrow> 'key registry \<Rightarrow> 'key registry" where
  "reg_DeregisterAgent name agent r =
     (case fmlookup (rs_tenants r) name of
        None \<Rightarrow> r
      | Some t \<Rightarrow>
          if map_option ag_id (ts_agent t) = Some (ag_id agent)
          then r\<lparr>rs_tenants := fmupd name (t\<lparr>ts_agent := None\<rparr>) (rs_tenants r)\<rparr> else r)"

text \<open>One round of the eviction loop of \<open>ReplaceRegistrations\<close>, and the whole: the evicted agents are
  returned in the order \<open>ks\<close> of the range loop.\<close>

definition evict_step ::
  "(string, string) fmap \<Rightarrow> string \<Rightarrow> agent list \<times> 'key registry \<Rightarrow> agent list \<times> 'key registry" where
  "evict_step fpByName name er =
     (case er of (evicted, r) \<Rightarrow>
        (case fmlookup (rs_tenants r) name of
           None \<Rightarrow> (evicted, r)
         | Some t \<Rightarrow>
             (case ts_agent t of
                None \<Rightarrow> (evicted, r)
              | Some ag \<Rightarrow>
                  if fmlookup fpByName name \<noteq> Some (ag_Fingerprint ag)
                  then (evicted @ [ag], r\<lparr>rs_tenants := fmupd name (t\<lparr>ts_agent := None\<rparr>) (rs_tenants r)\<rparr>)
                  else (evicted, r))))"

definition reg_ReplaceRegistrations ::
  "('key \<Rightarrow> string) \<Rightarrow> string list \<Rightarrow> 'key registration list \<Rightarrow> 'key registry \<Rightarrow> agent list \<times> 'key registry" where
  "reg_ReplaceRegistrations fingerprint ks registrations r =
     (let byFP = fold (\<lambda>reg. fmupd (fingerprint (rg_PublicKey reg)) reg) registrations fmempty;
          fpByName = fold (\<lambda>reg. fmupd (rg_Name reg) (fingerprint (rg_PublicKey reg))) registrations fmempty
      in fold (evict_step fpByName) ks ([], r\<lparr>rs_byFingerprint := byFP\<rparr>))"

section \<open>Opening connections\<close>

datatype openError = ErrTenantUnknown | ErrTenantAtCapacity | ErrRand

text \<open>\<open>Open\<close> up to the push: \<open>rand\<close> is the random identifier, \<open>call\<close> the identity of this call.\<close>

definition open_begin ::
  "gotime \<Rightarrow> string option \<Rightarrow> nat \<Rightarrow> string \<Rightarrow> 'key registry \<Rightarrow> (openError + string \<times> agent) \<times> 'key registry" where
  "open_begin now rand call name r =
     (case fmlookup (rs_tenants r) name of
        None \<Rightarrow> (Inl ErrTenantUnknown, r)
      | Some t \<Rightarrow>
          (case ts_agent t of
             None \<Rightarrow> (Inl ErrTenantUnknown, r)
           | Some ag \<Rightarrow>
               if ts_pending t \<ge> lm_MaxPendingPerServer (rs_limits r) \<or>
                  ts_pending t + ts_live t \<ge> lm_MaxConnsPerServer (rs_limits r)
               then (Inl ErrTenantAtCapacity, r)
               else case rand of
                 None \<Rightarrow> (Inl ErrRand, r)
               | Some connID \<Rightarrow>
                   (Inr (connID, ag),
                    r\<lparr>rs_pending := fmupd connID
                         \<lparr>pc_name = name, pc_call = call, pc_expires = now + lm_DialBackTimeout (rs_limits r)\<rparr> (rs_pending r),
                      rs_tenants := fmupd name (t\<lparr>ts_pending := ts_pending t + 1\<rparr>) (rs_tenants r)\<rparr>)))"

text \<open>The accounting of a connection that arrived on the channel.\<close>

definition open_received :: "string \<Rightarrow> 'key registry \<Rightarrow> 'key registry" where
  "open_received name r =
     (case fmlookup (rs_tenants r) name of
        None \<Rightarrow> r
      | Some t \<Rightarrow> r\<lparr>rs_tenants := fmupd name (t\<lparr>ts_live := ts_live t + 1\<rparr>) (rs_tenants r)\<rparr>)"

definition drop_pending :: "string \<Rightarrow> 'key registry \<Rightarrow> pendingConn option \<times> 'key registry" where
  "drop_pending connID r =
     (case fmlookup (rs_pending r) connID of
        None \<Rightarrow> (None, r)
      | Some p \<Rightarrow>
          let r1 = r\<lparr>rs_pending := fmdrop connID (rs_pending r)\<rparr>
          in (Some p,
              case fmlookup (rs_tenants r1) (pc_name p) of
                None \<Rightarrow> r1
              | Some t \<Rightarrow> r1\<lparr>rs_tenants := fmupd (pc_name p) (t\<lparr>ts_pending := ts_pending t - 1\<rparr>) (rs_tenants r1)\<rparr>))"

definition cancelPending :: "string \<Rightarrow> 'key registry \<Rightarrow> 'key registry" where
  "cancelPending connID r = snd (drop_pending connID r)"

text \<open>\<open>Redeem\<close>: the result is the call whose channels the hand-off carries.\<close>

definition reg_Redeem :: "gotime \<Rightarrow> string \<Rightarrow> 'key registry \<Rightarrow> nat option \<times> 'key registry" where
  "reg_Redeem now connID r =
     (case drop_pending connID r of
        (None, r1) \<Rightarrow> (None, r1)
      | (Some p, r1) \<Rightarrow> (if now > pc_expires p then None else Some (pc_call p), r1))"

section \<open>Discovered services and release\<close>

datatype sniRoute = ViaAgent string | ViaService serverEndpoint | NoRoute

definition sni_route :: "string \<Rightarrow> string \<Rightarrow> 'key registry \<Rightarrow> sniRoute" where
  "sni_route tenant hostname r =
     (let active = (tenant \<noteq> '''' \<and> (case fmlookup (rs_tenants r) tenant of None \<Rightarrow> False | Some t \<Rightarrow> ts_agent t \<noteq> None))
      in if active then ViaAgent tenant
         else case fmlookup (rs_kubernetes r) hostname of
                Some ep \<Rightarrow> ViaService ep
              | None \<Rightarrow> if tenant = '''' then NoRoute else ViaAgent tenant)"

definition usage_key :: "serverEndpoint \<Rightarrow> string" where
  "usage_key ep = ''kubernetes:'' @ se_Hostname ep"

definition service_begin :: "serverEndpoint \<Rightarrow> 'key registry \<Rightarrow> bool \<times> 'key registry" where
  "service_begin ep r =
     (let key = usage_key ep;
          usage = gm_get newTenantState (rs_discoveredUsage r) key;
          mp = lm_MaxPendingPerServer (rs_limits r); mc = lm_MaxConnsPerServer (rs_limits r)
      in if (mp > 0 \<and> ts_pending usage \<ge> mp) \<or> (mc > 0 \<and> ts_pending usage + ts_live usage \<ge> mc)
         then (False, r\<lparr>rs_discoveredUsage := fmupd key usage (rs_discoveredUsage r)\<rparr>)
         else (True, r\<lparr>rs_discoveredUsage := fmupd key (usage\<lparr>ts_pending := ts_pending usage + 1\<rparr>) (rs_discoveredUsage r)\<rparr>))"

definition put_usage :: "string \<Rightarrow> tenantState \<Rightarrow> 'key registry \<Rightarrow> 'key registry" where
  "put_usage key usage r =
     (if ts_live usage + ts_pending usage = 0
      then r\<lparr>rs_discoveredUsage := fmdrop key (rs_discoveredUsage r)\<rparr>
      else r\<lparr>rs_discoveredUsage := fmupd key usage (rs_discoveredUsage r)\<rparr>)"

definition service_end :: "serverEndpoint \<Rightarrow> bool \<Rightarrow> 'key registry \<Rightarrow> 'key registry" where
  "service_end ep ok r =
     (case fmlookup (rs_discoveredUsage r) (usage_key ep) of
        None \<Rightarrow> r
      | Some usage \<Rightarrow>
          put_usage (usage_key ep)
            (usage\<lparr>ts_pending := ts_pending usage - 1, ts_live := (if ok then ts_live usage + 1 else ts_live usage)\<rparr>) r)"

definition reg_Release :: "string \<Rightarrow> 'key registry \<Rightarrow> 'key registry" where
  "reg_Release name r =
     (case fmlookup (rs_discoveredUsage r) name of
        Some usage \<Rightarrow>
          put_usage name (if ts_live usage > 0 then usage\<lparr>ts_live := ts_live usage - 1\<rparr> else usage) r
      | None \<Rightarrow>
          (case fmlookup (rs_tenants r) name of
             None \<Rightarrow> r
           | Some t \<Rightarrow>
               if ts_live t > 0
               then r\<lparr>rs_tenants := fmupd name (t\<lparr>ts_live := ts_live t - 1\<rparr>) (rs_tenants r)\<rparr> else r))"

section \<open>Discovered endpoints: the claims on a hostname\<close>

text \<open>The specification: every Service that currently claims a hostname, by its identity.\<close>

fun claims_of ::
  "(string, serverEndpoint) fmap option \<Rightarrow> serverEndpoint option \<Rightarrow> (string, serverEndpoint) fmap" where
  "claims_of (Some c) _ = c"
| "claims_of None (Some ep) = fmupd (se_ID ep) ep fmempty"
| "claims_of None None = fmempty"

definition claims :: "'key registry \<Rightarrow> string \<Rightarrow> (string, serverEndpoint) fmap" where
  "claims r host = claims_of (fmlookup (rs_conflicts r) host) (fmlookup (rs_kubernetes r) host)"

datatype kube_event = KUpsert serverEndpoint | KRemove string string

definition valid_endpoint :: "serverEndpoint \<Rightarrow> bool" where
  "valid_endpoint ep \<longleftrightarrow>
     se_Source ep = SourceKubernetes \<and> se_Hostname ep \<noteq> '''' \<and> se_Address ep \<noteq> '''' \<and> se_ID ep \<noteq> ''''"

fun claims_spec :: "kube_event \<Rightarrow> (string \<Rightarrow> (string, serverEndpoint) fmap) \<Rightarrow> string \<Rightarrow> (string, serverEndpoint) fmap" where
  "claims_spec (KUpsert ep) cl =
     (if valid_endpoint ep then cl(se_Hostname ep := fmupd (se_ID ep) ep (cl (se_Hostname ep))) else cl)"
| "claims_spec (KRemove host uid) cl = cl(host := fmdrop uid (cl host))"

inductive kube_step :: "'key registry \<Rightarrow> kube_event \<Rightarrow> 'key registry \<Rightarrow> bool" where
  kube_upsert: "UpsertKubernetes ep r = (err, r') \<Longrightarrow> kube_step r (KUpsert ep) r'"
| kube_remove: "range_order ks (fmdrop uid (claims r host)) \<Longrightarrow>
    kube_step r (KRemove host uid) (RemoveKubernetes ks host uid r)"

inductive_cases kube_stepE: "kube_step r e r'"

definition kube_inv :: "'key registry \<Rightarrow> bool" where
  "kube_inv r \<longleftrightarrow>
     (\<forall>host c. fmlookup (rs_conflicts r) host = Some c \<longrightarrow>
        2 \<le> gm_len c \<and> fmlookup (rs_kubernetes r) host = None)"

lemma kube_invD:
  "kube_inv r \<Longrightarrow> fmlookup (rs_conflicts r) host = Some c \<Longrightarrow> 2 \<le> gm_len c \<and> fmlookup (rs_kubernetes r) host = None"
  unfolding kube_inv_def by blast

lemma kube_inv_conflict:
  "kube_inv r \<Longrightarrow> 2 \<le> gm_len c \<Longrightarrow>
   kube_inv (r\<lparr>rs_conflicts := fmupd h c (rs_conflicts r), rs_kubernetes := fmdrop h (rs_kubernetes r)\<rparr>)"
  "kube_inv r \<Longrightarrow> 2 \<le> gm_len c \<Longrightarrow> fmlookup (rs_kubernetes r) h = None \<Longrightarrow>
   kube_inv (r\<lparr>rs_conflicts := fmupd h c (rs_conflicts r)\<rparr>)"
  unfolding kube_inv_def by auto

lemma kube_inv_single:
  "kube_inv r \<Longrightarrow> kube_inv (r\<lparr>rs_conflicts := fmdrop h cs, rs_kubernetes := fmupd h ep (rs_kubernetes r)\<rparr>)"
  if "\<And>k. k \<noteq> h \<Longrightarrow> fmlookup cs k = fmlookup (rs_conflicts r) k"
  using that unfolding kube_inv_def by auto

lemma kube_inv_kube:
  "kube_inv r \<Longrightarrow> fmlookup (rs_conflicts r) h = None \<Longrightarrow> kube_inv (r\<lparr>rs_kubernetes := fmupd h ep (rs_kubernetes r)\<rparr>)"
  "kube_inv r \<Longrightarrow> kube_inv (r\<lparr>rs_kubernetes := fmdrop h (rs_kubernetes r)\<rparr>)"
  unfolding kube_inv_def by auto

lemma single_claim:
  "se_ID old = se_ID ep \<Longrightarrow> fmupd (se_ID ep) ep (fmupd (se_ID old) old fmempty) = fmupd (se_ID ep) ep fmempty"
  "fmdrop uid (fmupd (se_ID ep) ep fmempty) = (if se_ID ep = uid then fmempty else fmupd (se_ID ep) ep fmempty)"
  by (auto intro: fmap_ext)

lemma upsert_refines:
  assumes "kube_inv r" "UpsertKubernetes ep r = (err, r')"
  shows "kube_inv r' \<and> claims r' = claims_spec (KUpsert ep) (claims r)"
proof (cases "valid_endpoint ep")
  case False
  then have "r' = r" using assms(2) by (auto simp: UpsertKubernetes_def valid_endpoint_def Let_def split: if_splits)
  with False assms(1) show ?thesis by simp
next
  case True
  let ?h = "se_Hostname ep"
  have guard: "\<not> (se_Source ep \<noteq> SourceKubernetes \<or> ?h = '''' \<or> se_Address ep = '''' \<or> se_ID ep = '''')"
    using True by (simp add: valid_endpoint_def)
  consider (conflict) c where "fmlookup (rs_conflicts r) ?h = Some c" "fmlookup (rs_kubernetes r) ?h = None" "2 \<le> gm_len c"
    | (other) old where "fmlookup (rs_conflicts r) ?h = None" "fmlookup (rs_kubernetes r) ?h = Some old" "se_ID old \<noteq> se_ID ep"
    | (same) old where "fmlookup (rs_conflicts r) ?h = None" "fmlookup (rs_kubernetes r) ?h = Some old" "se_ID old = se_ID ep"
    | (new) "fmlookup (rs_conflicts r) ?h = None" "fmlookup (rs_kubernetes r) ?h = None"
    using kube_invD [OF assms(1), of ?h]
    by (cases "fmlookup (rs_conflicts r) ?h"; cases "fmlookup (rs_kubernetes r) ?h") auto
  then show ?thesis
  proof cases
    case conflict
    then have r': "r' = r\<lparr>rs_conflicts := fmupd ?h (fmupd (se_ID ep) ep c) (rs_conflicts r)\<rparr>"
      using assms(2) guard by (simp add: UpsertKubernetes_def Let_def)
    have "2 \<le> gm_len (fmupd (se_ID ep) ep c)" using conflict(3) by simp
    with r' conflict assms(1) True show ?thesis by (auto simp: kube_inv_conflict claims_def fun_eq_iff)
  next
    case other
    then have r': "r' = r\<lparr>rs_conflicts := fmupd ?h (fmupd (se_ID ep) ep (fmupd (se_ID old) old fmempty)) (rs_conflicts r),
        rs_kubernetes := fmdrop ?h (rs_kubernetes r)\<rparr>"
      using assms(2) guard by (simp add: UpsertKubernetes_def Let_def)
    have "2 \<le> gm_len (fmupd (se_ID ep) ep (fmupd (se_ID old) old fmempty))" using other(3) by simp
    with r' other assms(1) True show ?thesis by (auto simp: kube_inv_conflict claims_def fun_eq_iff)
  next
    case same
    then have r': "r' = r\<lparr>rs_kubernetes := fmupd ?h ep (rs_kubernetes r)\<rparr>"
      using assms(2) guard by (simp add: UpsertKubernetes_def Let_def)
    with same assms(1) True single_claim(1) [OF same(3)] show ?thesis by (auto simp: kube_inv_kube claims_def fun_eq_iff)
  next
    case new
    then have r': "r' = r\<lparr>rs_kubernetes := fmupd ?h ep (rs_kubernetes r)\<rparr>"
      using assms(2) guard by (simp add: UpsertKubernetes_def Let_def)
    with new assms(1) True show ?thesis by (auto simp: kube_inv_kube claims_def fun_eq_iff)
  qed
qed

lemma gm_len_one:
  assumes "gm_len m = 1" "range_order ks m"
  obtains k v where "ks = [k]" "m = fmupd k v fmempty"
proof -
  from range_order_len [OF assms(2)] assms(1) obtain k where ks: "ks = [k]" by (auto simp: length_Suc_conv)
  with assms(2) obtain v where v: "fmlookup m k = Some v" by (auto simp: range_order_iff)
  have "m = fmupd k v fmempty"
  proof (rule fmap_ext)
    fix x
    have "x \<in> set ks \<longleftrightarrow> fmlookup m x \<noteq> None" using assms(2) by (simp add: range_order_iff)
    with ks v show "fmlookup m x = fmlookup (fmupd k v fmempty) x" by (cases "fmlookup m x") auto
  qed
  with ks that show ?thesis by blast
qed

text \<open>The identities under which a hostname is claimed are those of the endpoints.\<close>

definition claims_keyed :: "'key registry \<Rightarrow> bool" where
  "claims_keyed r \<longleftrightarrow> (\<forall>host k ep. fmlookup (claims r host) k = Some ep \<longrightarrow> se_ID ep = k)"

lemma remove_refines:
  assumes "kube_inv r" "claims_keyed r" "range_order ks (fmdrop uid (claims r host))"
  shows "kube_inv (RemoveKubernetes ks host uid r) \<and>
    claims (RemoveKubernetes ks host uid r) = claims_spec (KRemove host uid) (claims r)"
proof (cases "fmlookup (rs_conflicts r) host")
  case None
  then have r': "RemoveKubernetes ks host uid r = (case fmlookup (rs_kubernetes r) host of
      Some ep \<Rightarrow> if se_ID ep = uid then r\<lparr>rs_kubernetes := fmdrop host (rs_kubernetes r)\<rparr> else r | None \<Rightarrow> r)"
    by (simp add: RemoveKubernetes_def Let_def split: option.splits)
  show ?thesis
  proof (cases "fmlookup (rs_kubernetes r) host")
    case no: None
    with None assms(1) show ?thesis unfolding r' by (auto simp: claims_def fun_eq_iff)
  next
    case (Some ep)
    with None assms(1) show ?thesis
      unfolding r' by (auto simp: claims_def fun_eq_iff kube_inv_kube single_claim(2))
  qed
next
  case (Some c)
  from kube_invD [OF assms(1) Some] have c: "2 \<le> gm_len c" "fmlookup (rs_kubernetes r) host = None" by auto
  have cl: "claims r host = c" using Some by (simp add: claims_def)
  show ?thesis
  proof (cases "gm_len (fmdrop uid c) = 1")
    case True
    with assms(3) cl obtain k v where kv: "ks = [k]" "fmdrop uid c = fmupd k v fmempty"
      using gm_len_one by metis
    then have "fmlookup (fmdrop uid c) k = Some v" by simp
    then have "fmlookup (claims r host) k = Some v" unfolding cl by (simp split: if_splits)
    then have vk: "se_ID v = k" using assms(2) unfolding claims_keyed_def by blast
    have r': "RemoveKubernetes ks host uid r = r\<lparr>rs_conflicts := fmdrop host (fmupd host (fmdrop uid c) (rs_conflicts r)),
        rs_kubernetes := fmupd host v (rs_kubernetes r)\<rparr>"
      using Some c True kv by (simp add: RemoveKubernetes_def Let_def)
    show ?thesis
      using assms(1) kv(2) vk Some unfolding r' by (auto simp: kube_inv_single claims_def fun_eq_iff)
  next
    case False
    have "gm_len (fmdrop uid c) \<noteq> 0" using c(1) by simp
    with False Some c have r': "RemoveKubernetes ks host uid r =
        r\<lparr>rs_conflicts := fmupd host (fmdrop uid c) (rs_conflicts r)\<rparr>"
      by (simp add: RemoveKubernetes_def Let_def)
    have "2 \<le> gm_len (fmdrop uid c)" using False \<open>gm_len (fmdrop uid c) \<noteq> 0\<close> by linarith
    with c assms(1) Some show ?thesis unfolding r' by (auto simp: kube_inv_conflict claims_def fun_eq_iff)
  qed
qed

definition kube_ok :: "'key registry \<Rightarrow> bool" where
  "kube_ok r \<longleftrightarrow> kube_inv r \<and> claims_keyed r"

lemma kube_step_refines:
  assumes "kube_ok r" "kube_step r e r'"
  shows "kube_ok r' \<and> claims r' = claims_spec e (claims r)"
proof -
  have *: "kube_inv r' \<and> claims r' = claims_spec e (claims r)"
    using assms(2)
  proof (cases rule: kube_step.cases)
    case (kube_upsert ep err)
    with assms(1) upsert_refines show ?thesis unfolding kube_ok_def by blast
  next
    case (kube_remove ks uid host)
    with assms(1) remove_refines show ?thesis unfolding kube_ok_def by blast
  qed
  moreover have "claims_keyed r'"
    using assms(1) * by (cases e) (auto simp: kube_ok_def claims_keyed_def split: if_splits)
  ultimately show ?thesis by (simp add: kube_ok_def)
qed

interpretation kube: refines kube_step kube_ok claims claims_spec
  by unfold_locales (use kube_step_refines in blast)+

section \<open>Concurrent calls of Open\<close>

text \<open>
  A call of \<open>Open\<close> waits on its channel, whose buffer holds one connection; when it gives up it
  cancels the capability, drains the buffer and closes \<open>done\<close>, three separate actions. A dialled-back
  data connection (\<open>handleData\<close>) redeems the capability, checks \<open>done\<close> without blocking, and then
  either delivers itself or sees \<open>done\<close> closed.
\<close>

datatype callPhase = Waiting | Cancelled | Drained | Failed | Returned nat | Ended

record openCall =
  oc_name :: string
  oc_connID :: string
  oc_buf :: "nat option"
  oc_done :: bool
  oc_phase :: callPhase

record 'key openSystem =
  os_reg :: "'key registry"
  os_calls :: "(nat, openCall) fmap"
  os_nextCall :: nat
  os_handoffs :: "(nat, nat \<times> bool) fmap" \<comment> \<open>data connection to call, and whether \<open>done\<close> was checked\<close>
  os_nextConn :: nat
  os_used :: "string list" \<comment> \<open>the identifiers drawn so far\<close>

datatype 'key os_event =
    EvOpen string string nat
  | EvPushFail nat
  | EvRedeem string nat
  | EvRedeemExpired string
  | EvCheck nat
  | EvDeliver nat
  | EvAbandon nat
  | EvReceive nat nat
  | EvCancel nat
  | EvDrain nat
  | EvCloseDone nat
  | EvRelease nat
  | EvRegisterAgent string agent
  | EvDeregisterAgent string agent
  | EvReplace "'key registration list"

definition set_call :: "nat \<Rightarrow> openCall \<Rightarrow> 'key openSystem \<Rightarrow> 'key openSystem" where
  "set_call c call s = s\<lparr>os_calls := fmupd c call (os_calls s)\<rparr>"

inductive os_step :: "('key \<Rightarrow> string) \<Rightarrow> 'key openSystem \<Rightarrow> 'key os_event \<Rightarrow> 'key openSystem \<Rightarrow> bool"
  for fingerprint where
  os_open: "connID \<notin> set (os_used s) \<Longrightarrow>
    open_begin now (Some connID) (os_nextCall s) name (os_reg s) = (Inr (connID, ag), r) \<Longrightarrow>
    os_step fingerprint s (EvOpen name connID (os_nextCall s))
      (s\<lparr>os_reg := r, os_nextCall := Suc (os_nextCall s), os_used := connID # os_used s,
         os_calls := fmupd (os_nextCall s)
           \<lparr>oc_name = name, oc_connID = connID, oc_buf = None, oc_done = False, oc_phase = Waiting\<rparr> (os_calls s)\<rparr>)"
| os_pushFail: "fmlookup (os_calls s) c = Some call \<Longrightarrow> oc_phase call = Waiting \<Longrightarrow>
    os_step fingerprint s (EvPushFail c)
      (set_call c (call\<lparr>oc_phase := Failed\<rparr>) (s\<lparr>os_reg := cancelPending (oc_connID call) (os_reg s)\<rparr>))"
| os_redeem: "reg_Redeem now connID (os_reg s) = (Some c, r) \<Longrightarrow>
    os_step fingerprint s (EvRedeem connID (os_nextConn s))
      (s\<lparr>os_reg := r, os_handoffs := fmupd (os_nextConn s) (c, False) (os_handoffs s), os_nextConn := Suc (os_nextConn s)\<rparr>)"
| os_redeemExpired: "reg_Redeem now connID (os_reg s) = (None, r) \<Longrightarrow>
    os_step fingerprint s (EvRedeemExpired connID) (s\<lparr>os_reg := r\<rparr>)"
| os_check: "fmlookup (os_handoffs s) h = Some (c, False) \<Longrightarrow> fmlookup (os_calls s) c = Some call \<Longrightarrow>
    os_step fingerprint s (EvCheck h)
      (s\<lparr>os_handoffs := (if oc_done call then fmdrop h (os_handoffs s) else fmupd h (c, True) (os_handoffs s))\<rparr>)"
| os_deliver: "fmlookup (os_handoffs s) h = Some (c, True) \<Longrightarrow> fmlookup (os_calls s) c = Some call \<Longrightarrow>
    oc_buf call = None \<Longrightarrow>
    os_step fingerprint s (EvDeliver h)
      (set_call c (call\<lparr>oc_buf := Some h\<rparr>) (s\<lparr>os_handoffs := fmdrop h (os_handoffs s)\<rparr>))"
| os_abandon: "fmlookup (os_handoffs s) h = Some (c, True) \<Longrightarrow> fmlookup (os_calls s) c = Some call \<Longrightarrow>
    oc_done call \<Longrightarrow>
    os_step fingerprint s (EvAbandon h) (s\<lparr>os_handoffs := fmdrop h (os_handoffs s)\<rparr>)"
| os_receive: "fmlookup (os_calls s) c = Some call \<Longrightarrow> oc_phase call = Waiting \<Longrightarrow> oc_buf call = Some h \<Longrightarrow>
    os_step fingerprint s (EvReceive c h)
      (set_call c (call\<lparr>oc_buf := None, oc_phase := Returned h\<rparr>)
        (s\<lparr>os_reg := open_received (oc_name call) (os_reg s)\<rparr>))"
| os_cancel: "fmlookup (os_calls s) c = Some call \<Longrightarrow> oc_phase call = Waiting \<Longrightarrow>
    os_step fingerprint s (EvCancel c)
      (set_call c (call\<lparr>oc_phase := Cancelled\<rparr>) (s\<lparr>os_reg := cancelPending (oc_connID call) (os_reg s)\<rparr>))"
| os_drain: "fmlookup (os_calls s) c = Some call \<Longrightarrow> oc_phase call = Cancelled \<Longrightarrow>
    os_step fingerprint s (EvDrain c) (set_call c (call\<lparr>oc_buf := None, oc_phase := Drained\<rparr>) s)"
| os_closeDone: "fmlookup (os_calls s) c = Some call \<Longrightarrow> oc_phase call = Drained \<Longrightarrow>
    os_step fingerprint s (EvCloseDone c) (set_call c (call\<lparr>oc_done := True, oc_phase := Failed\<rparr>) s)"
| os_release: "fmlookup (os_calls s) c = Some call \<Longrightarrow> oc_phase call = Returned h \<Longrightarrow>
    os_step fingerprint s (EvRelease c)
      (set_call c (call\<lparr>oc_phase := Ended\<rparr>) (s\<lparr>os_reg := reg_Release (oc_name call) (os_reg s)\<rparr>))"
| os_registerAgent: "reg_RegisterAgent name ag (os_reg s) = (old, r) \<Longrightarrow>
    os_step fingerprint s (EvRegisterAgent name ag) (s\<lparr>os_reg := r\<rparr>)"
| os_deregisterAgent: "os_step fingerprint s (EvDeregisterAgent name ag) (s\<lparr>os_reg := reg_DeregisterAgent name ag (os_reg s)\<rparr>)"
| os_replace: "range_order ks (rs_tenants (os_reg s)) \<Longrightarrow>
    reg_ReplaceRegistrations fingerprint ks regs (os_reg s) = (evicted, r) \<Longrightarrow>
    os_step fingerprint s (EvReplace regs) (s\<lparr>os_reg := r\<rparr>)"

inductive_cases os_stepE: "os_step fingerprint s e s'"

section \<open>Accounting\<close>

definition pending_count :: "string \<Rightarrow> 'key registry \<Rightarrow> int" where
  "pending_count name r = int (gm_len (gm_filter (\<lambda>_ p. pc_name p = name) (rs_pending r)))"

definition is_returned :: "openCall \<Rightarrow> bool" where
  "is_returned call = (case oc_phase call of Returned _ \<Rightarrow> True | _ \<Rightarrow> False)"

definition live_count :: "string \<Rightarrow> (nat, openCall) fmap \<Rightarrow> int" where
  "live_count name calls = int (gm_len (gm_filter (\<lambda>_ c. oc_name c = name \<and> is_returned c) calls))"

text \<open>The counters of a registry are the numbers they stand for.\<close>

definition acct :: "'key registry \<Rightarrow> (nat, openCall) fmap \<Rightarrow> bool" where
  "acct r calls \<longleftrightarrow> rs_discoveredUsage r = fmempty \<and>
     (\<forall>name t. fmlookup (rs_tenants r) name = Some t \<longrightarrow>
        ts_pending t = pending_count name r \<and> ts_live t = live_count name calls \<and>
        ts_pending t \<le> max 0 (lm_MaxPendingPerServer (rs_limits r))) \<and>
     (\<forall>connID p. fmlookup (rs_pending r) connID = Some p \<longrightarrow> fmlookup (rs_tenants r) (pc_name p) \<noteq> None) \<and>
     (\<forall>c call. fmlookup calls c = Some call \<longrightarrow> fmlookup (rs_tenants r) (oc_name call) \<noteq> None)"

lemma gm_filter_upd:
  "gm_filter P (fmupd k v m) = (if P k v then fmupd k v (gm_filter P m) else fmdrop k (gm_filter P m))"
  by (rule fmap_ext) (auto split: option.splits)

lemma gm_filter_drop: "gm_filter P (fmdrop k m) = fmdrop k (gm_filter P m)"
  by (rule fmap_ext) (auto split: option.splits)

lemma pending_count_upd:
  assumes "fmlookup (rs_pending r) connID = None"
  shows "pending_count name (r\<lparr>rs_pending := fmupd connID p (rs_pending r)\<rparr>) =
    pending_count name r + (if pc_name p = name then 1 else 0)"
  using assms by (auto simp: pending_count_def gm_filter_upd)

lemma pending_count_drop:
  assumes "fmlookup (rs_pending r) connID = Some p"
  shows "pending_count name (r\<lparr>rs_pending := fmdrop connID (rs_pending r)\<rparr>) =
    pending_count name r - (if pc_name p = name then 1 else 0)"
proof (cases "pc_name p = name")
  case True
  then have "fmlookup (gm_filter (\<lambda>_ p. pc_name p = name) (rs_pending r)) connID = Some p" using assms by simp
  from gm_len_pos [OF this] True this show ?thesis
    by (simp add: pending_count_def gm_filter_drop del: gm_filter_lookup)
next
  case False
  then show ?thesis using assms by (simp add: pending_count_def gm_filter_drop)
qed

lemma pending_count_frame [simp]:
  "pending_count name (r\<lparr>rs_tenants := ts\<rparr>) = pending_count name r"
  "pending_count name (r\<lparr>rs_byFingerprint := bf\<rparr>) = pending_count name r"
  by (simp_all add: pending_count_def)

lemma live_count_upd:
  "live_count name (fmupd c call calls) =
     live_count name calls
     + (if oc_name call = name \<and> is_returned call then 1 else 0)
     - (case fmlookup calls c of Some old \<Rightarrow> if oc_name old = name \<and> is_returned old then 1 else 0 | None \<Rightarrow> 0)"
proof -
  let ?P = "\<lambda>_ c. oc_name c = name \<and> is_returned c"
  have "0 < gm_len (gm_filter ?P calls)" if "fmlookup (gm_filter ?P calls) c = Some old" for old
    using gm_len_pos [OF that] .
  then show ?thesis
    by (cases "fmlookup calls c") (auto simp: live_count_def gm_filter_upd)
qed

lemma acctD:
  assumes "acct r calls"
  shows "rs_discoveredUsage r = fmempty"
    "fmlookup (rs_tenants r) name = Some t \<Longrightarrow> ts_pending t = pending_count name r"
    "fmlookup (rs_tenants r) name = Some t \<Longrightarrow> ts_live t = live_count name calls"
    "fmlookup (rs_tenants r) name = Some t \<Longrightarrow> ts_pending t \<le> max 0 (lm_MaxPendingPerServer (rs_limits r))"
    "fmlookup (rs_pending r) connID = Some p \<Longrightarrow> fmlookup (rs_tenants r) (pc_name p) \<noteq> None"
    "fmlookup calls c = Some call \<Longrightarrow> fmlookup (rs_tenants r) (oc_name call) \<noteq> None"
  using assms unfolding acct_def by blast+

lemma acctI:
  assumes "rs_discoveredUsage r = fmempty"
    "\<And>name t. fmlookup (rs_tenants r) name = Some t \<Longrightarrow> ts_pending t = pending_count name r"
    "\<And>name t. fmlookup (rs_tenants r) name = Some t \<Longrightarrow> ts_live t = live_count name calls"
    "\<And>name t. fmlookup (rs_tenants r) name = Some t \<Longrightarrow> ts_pending t \<le> max 0 (lm_MaxPendingPerServer (rs_limits r))"
    "\<And>connID p. fmlookup (rs_pending r) connID = Some p \<Longrightarrow> fmlookup (rs_tenants r) (pc_name p) \<noteq> None"
    "\<And>c call. fmlookup calls c = Some call \<Longrightarrow> fmlookup (rs_tenants r) (oc_name call) \<noteq> None"
  shows "acct r calls"
  using assms unfolding acct_def by blast

lemma open_begin_result:
  assumes "open_begin now rand c name r = (Inr (connID, ag), r')"
  obtains t where "fmlookup (rs_tenants r) name = Some t" "ts_agent t = Some ag" "rand = Some connID"
    "ts_pending t < lm_MaxPendingPerServer (rs_limits r)"
    "ts_pending t + ts_live t < lm_MaxConnsPerServer (rs_limits r)"
    "r' = r\<lparr>rs_pending := fmupd connID
         \<lparr>pc_name = name, pc_call = c, pc_expires = now + lm_DialBackTimeout (rs_limits r)\<rparr> (rs_pending r),
       rs_tenants := fmupd name (t\<lparr>ts_pending := ts_pending t + 1\<rparr>) (rs_tenants r)\<rparr>"
  using assms by (auto simp: open_begin_def split: option.splits if_splits)

lemma open_begin_acct:
  assumes "acct r calls" "open_begin now rand c name r = (Inr (connID, ag), r')"
    "fmlookup (rs_pending r) connID = None" "fmlookup calls c = None" "oc_name call = name" "\<not> is_returned call"
  shows "acct r' (fmupd c call calls)"
proof -
  from assms(2) obtain t where t: "fmlookup (rs_tenants r) name = Some t" "ts_pending t < lm_MaxPendingPerServer (rs_limits r)"
    and r': "r' = r\<lparr>rs_pending := fmupd connID
         \<lparr>pc_name = name, pc_call = c, pc_expires = now + lm_DialBackTimeout (rs_limits r)\<rparr> (rs_pending r),
       rs_tenants := fmupd name (t\<lparr>ts_pending := ts_pending t + 1\<rparr>) (rs_tenants r)\<rparr>"
    by (rule open_begin_result)
  note a = acctD [OF assms(1)]
  note pc = pending_count_upd [OF assms(3)]
  show ?thesis
  proof (rule acctI)
    show "rs_discoveredUsage r' = fmempty" using a(1) by (simp add: r')
  next
    fix nm t' assume "fmlookup (rs_tenants r') nm = Some t'"
    then consider "nm = name" "t' = t\<lparr>ts_pending := ts_pending t + 1\<rparr>" | "nm \<noteq> name" "fmlookup (rs_tenants r) nm = Some t'"
      by (auto simp: r' split: if_splits)
    note cs = this
    from cs show "ts_pending t' = pending_count nm r'"
      by cases (use a(2) t(1) in \<open>auto simp: r' pc\<close>)
    from cs show "ts_live t' = live_count nm (fmupd c call calls)"
      by cases (use a(3) t(1) assms(4,6) in \<open>auto simp: live_count_upd\<close>)
    from cs show "ts_pending t' \<le> max 0 (lm_MaxPendingPerServer (rs_limits r'))"
      by cases (use a(4) t in \<open>auto simp: r'\<close>)
  next
    fix id' p assume "fmlookup (rs_pending r') id' = Some p"
    then show "fmlookup (rs_tenants r') (pc_name p) \<noteq> None" using a(5) by (auto simp: r' split: if_splits)
  next
    fix c' call' assume "fmlookup (fmupd c call calls) c' = Some call'"
    then show "fmlookup (rs_tenants r') (oc_name call') \<noteq> None" using a(6) assms(5) by (auto simp: r' split: if_splits)
  qed
qed

lemma drop_pending_some:
  assumes "fmlookup (rs_pending r) connID = Some p" "fmlookup (rs_tenants r) (pc_name p) = Some t"
  shows "drop_pending connID r = (Some p, r\<lparr>rs_pending := fmdrop connID (rs_pending r),
    rs_tenants := fmupd (pc_name p) (t\<lparr>ts_pending := ts_pending t - 1\<rparr>) (rs_tenants r)\<rparr>)"
  using assms by (simp add: drop_pending_def Let_def)

lemma drop_pending_acct:
  assumes "acct r calls"
  shows "acct (snd (drop_pending connID r)) calls"
proof (cases "fmlookup (rs_pending r) connID")
  case None
  with assms show ?thesis by (simp add: drop_pending_def)
next
  case (Some p)
  note a = acctD [OF assms]
  from a(5) [OF Some] obtain t where t: "fmlookup (rs_tenants r) (pc_name p) = Some t" by blast
  let ?r = "r\<lparr>rs_pending := fmdrop connID (rs_pending r),
    rs_tenants := fmupd (pc_name p) (t\<lparr>ts_pending := ts_pending t - 1\<rparr>) (rs_tenants r)\<rparr>"
  note pc = pending_count_drop [OF Some]
  have "acct ?r calls"
  proof (rule acctI)
    show "rs_discoveredUsage ?r = fmempty" using a(1) by simp
  next
    fix nm t' assume "fmlookup (rs_tenants ?r) nm = Some t'"
    then consider "nm = pc_name p" "t' = t\<lparr>ts_pending := ts_pending t - 1\<rparr>"
      | "nm \<noteq> pc_name p" "fmlookup (rs_tenants r) nm = Some t'" by (auto split: if_splits)
    note cs = this
    from cs show "ts_pending t' = pending_count nm ?r" by cases (use a(2) t in \<open>auto simp: pc\<close>)
    from cs show "ts_live t' = live_count nm calls" by cases (use a(3) t in auto)
    from cs show "ts_pending t' \<le> max 0 (lm_MaxPendingPerServer (rs_limits ?r))"
      by cases (use a(4) t in \<open>auto, force\<close>)
  next
    fix id' q assume "fmlookup (rs_pending ?r) id' = Some q"
    then show "fmlookup (rs_tenants ?r) (pc_name q) \<noteq> None" using a(5) by (auto split: if_splits)
  next
    fix c call assume "fmlookup calls c = Some call"
    then show "fmlookup (rs_tenants ?r) (oc_name call) \<noteq> None" using a(6) by auto
  qed
  then show ?thesis by (simp add: drop_pending_some [OF Some t])
qed

text \<open>Changing the call and the live counter of its tenant together.\<close>

lemma live_acct:
  assumes "acct r calls" "fmlookup calls c = Some old" "oc_name call = oc_name old"
    "fmlookup (rs_tenants r) (oc_name old) = Some t"
    "d = (if is_returned call then 1 else 0) - (if is_returned old then 1 else 0)"
  shows "acct (r\<lparr>rs_tenants := fmupd (oc_name old) (t\<lparr>ts_live := ts_live t + d\<rparr>) (rs_tenants r)\<rparr>) (fmupd c call calls)"
    (is "acct ?r ?calls")
proof (rule acctI)
  note a = acctD [OF assms(1)]
  show "rs_discoveredUsage ?r = fmempty" using a(1) by simp
  fix nm t' assume "fmlookup (rs_tenants ?r) nm = Some t'"
  then consider "nm = oc_name old" "t' = t\<lparr>ts_live := ts_live t + d\<rparr>"
    | "nm \<noteq> oc_name old" "fmlookup (rs_tenants r) nm = Some t'" by (auto split: if_splits)
  note cs = this
  from cs show "ts_pending t' = pending_count nm ?r" by cases (use a(2) assms(4) in auto)
  from cs show "ts_live t' = live_count nm ?calls"
    by cases (use a(3) assms in \<open>auto simp: live_count_upd\<close>)
  from cs show "ts_pending t' \<le> max 0 (lm_MaxPendingPerServer (rs_limits ?r))"
    by cases (use a(4) assms(4) in auto)
next
  note a = acctD [OF assms(1)]
  fix id' q assume "fmlookup (rs_pending ?r) id' = Some q"
  then show "fmlookup (rs_tenants ?r) (pc_name q) \<noteq> None" using a(5) by auto
next
  note a = acctD [OF assms(1)]
  fix c' call' assume "fmlookup ?calls c' = Some call'"
  then show "fmlookup (rs_tenants ?r) (oc_name call') \<noteq> None" using a(6) assms(2,3) by (auto split: if_splits)
qed

lemma call_acct:
  assumes "acct r calls" "fmlookup calls c = Some old" "oc_name call = oc_name old" "is_returned call = is_returned old"
  shows "acct r (fmupd c call calls)"
proof -
  from acctD(6) [OF assms(1,2)] obtain t where t: "fmlookup (rs_tenants r) (oc_name old) = Some t" by blast
  have "rs_tenants r = fmupd (oc_name old) t (rs_tenants r)" using t by (auto intro: fmap_ext)
  then have "r\<lparr>rs_tenants := fmupd (oc_name old) (t\<lparr>ts_live := ts_live t + 0\<rparr>) (rs_tenants r)\<rparr> = r" by simp
  with live_acct [OF assms(1-3) t, of 0] assms(4) show ?thesis by simp
qed

text \<open>Operations on agents leave the accounting alone.\<close>

definition same_counts :: "'key registry \<Rightarrow> 'key registry \<Rightarrow> bool" where
  "same_counts r r' \<longleftrightarrow> rs_pending r' = rs_pending r \<and> rs_discoveredUsage r' = rs_discoveredUsage r \<and>
     rs_limits r' = rs_limits r \<and>
     (\<forall>name. fmlookup (rs_tenants r) name \<noteq> None \<longrightarrow> fmlookup (rs_tenants r') name \<noteq> None) \<and>
     (\<forall>name t'. fmlookup (rs_tenants r') name = Some t' \<longrightarrow>
        (case fmlookup (rs_tenants r) name of
           Some t \<Rightarrow> ts_pending t' = ts_pending t \<and> ts_live t' = ts_live t
         | None \<Rightarrow> ts_pending t' = 0 \<and> ts_live t' = 0))"

lemma same_counts_refl: "same_counts r r"
  by (auto simp: same_counts_def)

lemma no_counts:
  assumes "acct r calls" "fmlookup (rs_tenants r) name = None"
  shows "pending_count name r = 0" "live_count name calls = 0"
proof -
  have "fmlookup (rs_pending r) x = Some p \<Longrightarrow> pc_name p \<noteq> name" for x p
    using acctD(5) [OF assms(1), of x p] assms(2) by auto
  then have "gm_filter (\<lambda>_ p. pc_name p = name) (rs_pending r) = fmempty"
    by (intro fmap_ext) (auto split: option.splits)
  then show "pending_count name r = 0" by (simp add: pending_count_def)
  have "fmlookup calls x = Some call \<Longrightarrow> oc_name call \<noteq> name" for x call
    using acctD(6) [OF assms(1), of x call] assms(2) by auto
  then have "gm_filter (\<lambda>_ c. oc_name c = name \<and> is_returned c) calls = fmempty"
    by (intro fmap_ext) (auto split: option.splits)
  then show "live_count name calls = 0" by (simp add: live_count_def)
qed

lemma same_counts_acct:
  assumes "acct r calls" "same_counts r r'"
  shows "acct r' calls"
proof (rule acctI)
  note a = acctD [OF assms(1)]
  have f: "rs_pending r' = rs_pending r" "rs_discoveredUsage r' = rs_discoveredUsage r" "rs_limits r' = rs_limits r"
    using assms(2) by (simp_all add: same_counts_def)
  have keep: "fmlookup (rs_tenants r) nm \<noteq> None \<Longrightarrow> fmlookup (rs_tenants r') nm \<noteq> None" for nm
    using assms(2) unfolding same_counts_def by blast
  have pc: "pending_count nm r' = pending_count nm r" for nm by (simp add: pending_count_def f)
  show "rs_discoveredUsage r' = fmempty" using a(1) f by simp
  show "fmlookup (rs_pending r') id' = Some p \<Longrightarrow> fmlookup (rs_tenants r') (pc_name p) \<noteq> None" for id' p
    using a(5) keep unfolding f by blast
  show "fmlookup calls c = Some call \<Longrightarrow> fmlookup (rs_tenants r') (oc_name call) \<noteq> None" for c call
    using a(6) keep by blast
  fix nm t' assume "fmlookup (rs_tenants r') nm = Some t'"
  then have s: "case fmlookup (rs_tenants r) nm of Some t \<Rightarrow> ts_pending t' = ts_pending t \<and> ts_live t' = ts_live t
      | None \<Rightarrow> ts_pending t' = 0 \<and> ts_live t' = 0"
    using assms(2) unfolding same_counts_def by blast
  then show "ts_pending t' = pending_count nm r'" "ts_live t' = live_count nm calls"
    "ts_pending t' \<le> max 0 (lm_MaxPendingPerServer (rs_limits r'))"
    using a(2-4) [of nm] no_counts [OF assms(1), of nm] by (auto simp: pc f split: option.splits)
qed

lemma registerAgent_counts: "same_counts r (snd (reg_RegisterAgent name ag r))"
  by (auto simp: same_counts_def reg_RegisterAgent_def Let_def gm_get_def newTenantState_def split: option.splits)

lemma deregisterAgent_counts: "same_counts r (reg_DeregisterAgent name ag r)"
  by (auto simp: same_counts_def reg_DeregisterAgent_def split: option.splits)

text \<open>What the eviction loop does to a tenant it visits.\<close>

definition evicted_tenant :: "(string, string) fmap \<Rightarrow> string \<Rightarrow> tenantState \<Rightarrow> tenantState" where
  "evicted_tenant fpByName name t =
     (case ts_agent t of
        None \<Rightarrow> t
      | Some ag \<Rightarrow> if fmlookup fpByName name \<noteq> Some (ag_Fingerprint ag) then t\<lparr>ts_agent := None\<rparr> else t)"

lemma evict_step_tenants:
  "fmlookup (rs_tenants (snd (evict_step fps name er))) nm =
     (if nm = name then map_option (evicted_tenant fps name) (fmlookup (rs_tenants (snd er)) nm)
      else fmlookup (rs_tenants (snd er)) nm)"
  by (auto simp: evict_step_def evicted_tenant_def split: prod.splits option.splits)

lemma evicted_tenant_idem: "evicted_tenant fps name (evicted_tenant fps name t) = evicted_tenant fps name t"
  by (auto simp: evicted_tenant_def split: option.splits)

lemma evict_loop_tenants:
  "fmlookup (rs_tenants (snd (fold (evict_step fps) ks er))) nm =
     (if nm \<in> set ks then map_option (evicted_tenant fps nm) (fmlookup (rs_tenants (snd er)) nm)
      else fmlookup (rs_tenants (snd er)) nm)"
proof (induction ks arbitrary: er)
  case (Cons k ks)
  have "map_option (evicted_tenant fps nm) (map_option (evicted_tenant fps nm) o1) = map_option (evicted_tenant fps nm) o1" for o1
    by (cases o1) (simp_all add: evicted_tenant_idem)
  then show ?case by (auto simp: Cons.IH evict_step_tenants)
qed simp

lemma evict_loop_frame:
  "rs_pending (snd (fold (evict_step fps) ks er)) = rs_pending (snd er) \<and>
   rs_discoveredUsage (snd (fold (evict_step fps) ks er)) = rs_discoveredUsage (snd er) \<and>
   rs_limits (snd (fold (evict_step fps) ks er)) = rs_limits (snd er) \<and>
   rs_byFingerprint (snd (fold (evict_step fps) ks er)) = rs_byFingerprint (snd er)"
proof (induction ks arbitrary: er)
  case (Cons k ks)
  have "rs_pending (snd (evict_step fps k er)) = rs_pending (snd er) \<and>
    rs_discoveredUsage (snd (evict_step fps k er)) = rs_discoveredUsage (snd er) \<and>
    rs_limits (snd (evict_step fps k er)) = rs_limits (snd er) \<and>
    rs_byFingerprint (snd (evict_step fps k er)) = rs_byFingerprint (snd er)"
    by (auto simp: evict_step_def split: prod.splits option.splits)
  with Cons.IH show ?case by simp
qed simp

lemma evicted_counts: "ts_pending (evicted_tenant fps nm t) = ts_pending t" "ts_live (evicted_tenant fps nm t) = ts_live t"
  by (auto simp: evicted_tenant_def split: option.splits)

lemma replace_counts: "same_counts r (snd (reg_ReplaceRegistrations fingerprint ks regs r))"
  unfolding same_counts_def reg_ReplaceRegistrations_def Let_def
  by (auto simp: evict_loop_frame evict_loop_tenants evicted_counts split: option.splits if_splits)

lemma open_received_acct:
  assumes "acct r calls" "fmlookup calls c = Some old" "\<not> is_returned old" "oc_name call = oc_name old" "is_returned call"
  shows "acct (open_received (oc_name old) r) (fmupd c call calls)"
proof -
  from acctD(6) [OF assms(1,2)] obtain t where t: "fmlookup (rs_tenants r) (oc_name old) = Some t" by blast
  from live_acct [OF assms(1,2,4) t, of 1] assms(3,5) t show ?thesis by (simp add: open_received_def)
qed

lemma release_acct:
  assumes "acct r calls" "fmlookup calls c = Some old" "is_returned old" "oc_name call = oc_name old" "\<not> is_returned call"
  shows "acct (reg_Release (oc_name old) r) (fmupd c call calls)"
proof -
  from acctD(6) [OF assms(1,2)] obtain t where t: "fmlookup (rs_tenants r) (oc_name old) = Some t" by blast
  have "fmlookup (gm_filter (\<lambda>_ c. oc_name c = oc_name old \<and> is_returned c) calls) c = Some old"
    using assms(2,3) by simp
  from gm_len_pos [OF this] acctD(3) [OF assms(1) t] have "0 < ts_live t" by (simp add: live_count_def)
  with live_acct [OF assms(1,2,4) t, of "-1"] assms(3,5) t acctD(1) [OF assms(1)] show ?thesis
    by (simp add: reg_Release_def)
qed

section \<open>The history invariant\<close>

fun redeemed :: "'key os_event list \<Rightarrow> string list" where
  "redeemed [] = []"
| "redeemed (EvRedeem connID h # es) = connID # redeemed es"
| "redeemed (e # es) = redeemed es"

lemma redeemed_append: "redeemed (es @ fs) = redeemed es @ redeemed fs"
  by (induction es rule: redeemed.induct) auto

lemma redeemed_mem: "connID \<in> set (redeemed es) \<longleftrightarrow> (\<exists>h. EvRedeem connID h \<in> set es)"
  by (induction es rule: redeemed.induct) auto

text \<open>A call, a capability and a hand-off each trace back to the events that made them.\<close>

definition call_ok :: "'key os_event list \<Rightarrow> 'key openSystem \<Rightarrow> nat \<Rightarrow> openCall \<Rightarrow> bool" where
  "call_ok es s c call \<longleftrightarrow> c < os_nextCall s \<and> oc_connID call \<in> set (os_used s) \<and>
     EvOpen (oc_name call) (oc_connID call) c \<in> set es \<and>
     (\<forall>h. oc_buf call = Some h \<or> oc_phase call = Returned h \<longrightarrow> EvRedeem (oc_connID call) h \<in> set es)"

definition cap_ok :: "'key openSystem \<Rightarrow> string \<Rightarrow> pendingConn \<Rightarrow> bool" where
  "cap_ok s connID p \<longleftrightarrow>
     (\<exists>call. fmlookup (os_calls s) (pc_call p) = Some call \<and> oc_connID call = connID \<and> oc_name call = pc_name p)"

definition handoff_ok :: "'key os_event list \<Rightarrow> 'key openSystem \<Rightarrow> nat \<Rightarrow> nat \<Rightarrow> bool" where
  "handoff_ok es s h c \<longleftrightarrow>
     (\<exists>call. fmlookup (os_calls s) c = Some call \<and> EvRedeem (oc_connID call) h \<in> set es)"

definition events_ok :: "'key os_event list \<Rightarrow> 'key openSystem \<Rightarrow> bool" where
  "events_ok es s \<longleftrightarrow> distinct (redeemed es) \<and>
     (\<forall>connID h. EvRedeem connID h \<in> set es \<longrightarrow>
        fmlookup (rs_pending (os_reg s)) connID = None \<and> connID \<in> set (os_used s)) \<and>
     (\<forall>c h. EvReceive c h \<in> set es \<longrightarrow>
        (\<exists>name connID. EvOpen name connID c \<in> set es \<and> EvRedeem connID h \<in> set es))"

definition os_hinv :: "'key os_event list \<Rightarrow> 'key openSystem \<Rightarrow> bool" where
  "os_hinv es s \<longleftrightarrow> acct (os_reg s) (os_calls s) \<and> events_ok es s \<and>
     (\<forall>c call. fmlookup (os_calls s) c = Some call \<longrightarrow> call_ok es s c call) \<and>
     (\<forall>connID p. fmlookup (rs_pending (os_reg s)) connID = Some p \<longrightarrow> cap_ok s connID p) \<and>
     (\<forall>h c b. fmlookup (os_handoffs s) h = Some (c, b) \<longrightarrow> handoff_ok es s h c)"

lemma os_hinvD:
  assumes "os_hinv es s"
  shows "acct (os_reg s) (os_calls s)" "events_ok es s"
    "fmlookup (os_calls s) c = Some call \<Longrightarrow> call_ok es s c call"
    "fmlookup (rs_pending (os_reg s)) connID = Some p \<Longrightarrow> cap_ok s connID p"
    "fmlookup (os_handoffs s) h = Some (c, b) \<Longrightarrow> handoff_ok es s h c"
  using assms unfolding os_hinv_def by blast+

lemma os_hinvI:
  assumes "acct (os_reg s) (os_calls s)" "events_ok es s"
    "\<And>c call. fmlookup (os_calls s) c = Some call \<Longrightarrow> call_ok es s c call"
    "\<And>connID p. fmlookup (rs_pending (os_reg s)) connID = Some p \<Longrightarrow> cap_ok s connID p"
    "\<And>h c b. fmlookup (os_handoffs s) h = Some (c, b) \<Longrightarrow> handoff_ok es s h c"
  shows "os_hinv es s"
  using assms unfolding os_hinv_def by blast

lemma call_ok_later: "call_ok es s c call \<Longrightarrow> os_nextCall s \<le> os_nextCall s' \<Longrightarrow>
    set (os_used s) \<subseteq> set (os_used s') \<Longrightarrow> call_ok (es @ [e]) s' c call"
  unfolding call_ok_def by auto

text \<open>A quiet event: neither a redemption nor a receipt.\<close>

fun quiet_event :: "'key os_event \<Rightarrow> bool" where
  "quiet_event (EvRedeem _ _) = False"
| "quiet_event (EvReceive _ _) = False"
| "quiet_event _ = True"

lemma quiet_redeemed: "quiet_event e \<Longrightarrow> redeemed (es @ [e]) = redeemed es"
  by (cases e) (simp_all add: redeemed_append)

lemma quiet_not: "quiet_event e \<Longrightarrow> e \<noteq> EvRedeem k h" "quiet_event e \<Longrightarrow> e \<noteq> EvReceive c h"
  by auto

lemma events_okD:
  assumes "events_ok es s"
  shows "distinct (redeemed es)"
    "EvRedeem k h \<in> set es \<Longrightarrow> fmlookup (rs_pending (os_reg s)) k = None"
    "EvRedeem k h \<in> set es \<Longrightarrow> k \<in> set (os_used s)"
    "EvReceive c h \<in> set es \<Longrightarrow> \<exists>name k. EvOpen name k c \<in> set es \<and> EvRedeem k h \<in> set es"
  using assms unfolding events_ok_def by blast+

lemma events_okI:
  assumes "distinct (redeemed es)"
    "\<And>k h. EvRedeem k h \<in> set es \<Longrightarrow> fmlookup (rs_pending (os_reg s)) k = None"
    "\<And>k h. EvRedeem k h \<in> set es \<Longrightarrow> k \<in> set (os_used s)"
    "\<And>c h. EvReceive c h \<in> set es \<Longrightarrow> \<exists>name k. EvOpen name k c \<in> set es \<and> EvRedeem k h \<in> set es"
  shows "events_ok es s"
  using assms unfolding events_ok_def by blast

lemma receive_later:
  "\<exists>name k. EvOpen name k c \<in> set es \<and> EvRedeem k h \<in> set es \<Longrightarrow>
   \<exists>name k. EvOpen name k c \<in> set (es @ [e]) \<and> EvRedeem k h \<in> set (es @ [e])"
  by auto

lemma events_ok_quiet:
  assumes "events_ok es s" "quiet_event e"
    "\<And>connID. fmlookup (rs_pending (os_reg s)) connID = None \<Longrightarrow> connID \<in> set (os_used s) \<Longrightarrow>
       fmlookup (rs_pending (os_reg s')) connID = None"
    "set (os_used s) \<subseteq> set (os_used s')"
  shows "events_ok (es @ [e]) s'"
proof (rule events_okI)
  note d = events_okD [OF assms(1)]
  have old: "EvRedeem k h \<in> set (es @ [e]) \<Longrightarrow> EvRedeem k h \<in> set es"
    "EvReceive c h \<in> set (es @ [e]) \<Longrightarrow> EvReceive c h \<in> set es" for k h c
    using quiet_not [OF assms(2)] by auto
  show "distinct (redeemed (es @ [e]))" using d(1) quiet_redeemed [OF assms(2)] by simp
  show "fmlookup (rs_pending (os_reg s')) k = None" "k \<in> set (os_used s')" if "EvRedeem k h \<in> set (es @ [e])" for k h
    using d(2,3) [OF old(1) [OF that]] assms(3,4) by blast+
  show "\<exists>name k. EvOpen name k c \<in> set (es @ [e]) \<and> EvRedeem k h \<in> set (es @ [e])"
    if "EvReceive c h \<in> set (es @ [e])" for c h
    by (rule receive_later [OF d(4) [OF old(2) [OF that]]])
qed

lemma reg_update_hinv:
  assumes "os_hinv es s" "acct r (os_calls s)" "quiet_event e"
    and sub: "\<And>connID p. fmlookup (rs_pending r) connID = Some p \<Longrightarrow> fmlookup (rs_pending (os_reg s)) connID = Some p"
    and ho: "\<And>h c b. fmlookup ho h = Some (c, b) \<Longrightarrow> \<exists>b'. fmlookup (os_handoffs s) h = Some (c, b')"
  shows "os_hinv (es @ [e]) (s\<lparr>os_reg := r, os_handoffs := ho\<rparr>)" (is "os_hinv _ ?s")
proof (rule os_hinvI)
  note d = os_hinvD [OF assms(1)]
  show "acct (os_reg ?s) (os_calls ?s)" using assms(2) by simp
  show "events_ok (es @ [e]) ?s"
  proof (rule events_ok_quiet [OF d(2) assms(3)])
    show "fmlookup (rs_pending (os_reg ?s)) k = None" if "fmlookup (rs_pending (os_reg s)) k = None" for k
      using sub [of k] that by (cases "fmlookup (rs_pending r) k") auto
  qed simp
  show "call_ok (es @ [e]) ?s c call" if "fmlookup (os_calls ?s) c = Some call" for c call
    by (rule call_ok_later [OF d(3)]) (use that in simp_all)
  show "cap_ok ?s connID p" if "fmlookup (rs_pending (os_reg ?s)) connID = Some p" for connID p
    using d(4) [of connID p] sub [of connID p] that by (simp add: cap_ok_def)
  show "handoff_ok (es @ [e]) ?s h c" if "fmlookup (os_handoffs ?s) h = Some (c, b)" for h c b
  proof -
    from ho [of h c b] that obtain b' where "fmlookup (os_handoffs s) h = Some (c, b')" by auto
    from d(5) [OF this] show ?thesis by (auto simp: handoff_ok_def)
  qed
qed

lemma call_update_hinv:
  assumes "os_hinv es s" "fmlookup (os_calls s) c = Some old" "acct r (fmupd c call (os_calls s))"
    and same: "oc_name call = oc_name old" "oc_connID call = oc_connID old"
    and e: "quiet_event e \<or> (\<exists>h. e = EvReceive c h \<and> EvRedeem (oc_connID old) h \<in> set es)"
    and sub: "\<And>connID p. fmlookup (rs_pending r) connID = Some p \<Longrightarrow> fmlookup (rs_pending (os_reg s)) connID = Some p"
    and ho: "\<And>h c b. fmlookup ho h = Some (c, b) \<Longrightarrow> \<exists>b'. fmlookup (os_handoffs s) h = Some (c, b')"
    and got: "\<And>h. oc_buf call = Some h \<or> oc_phase call = Returned h \<Longrightarrow> EvRedeem (oc_connID old) h \<in> set es"
  shows "os_hinv (es @ [e]) (set_call c call (s\<lparr>os_reg := r, os_handoffs := ho\<rparr>))" (is "os_hinv _ ?s")
proof (rule os_hinvI)
  note d = os_hinvD [OF assms(1)]
  have old: "call_ok es s c old" using d(3) assms(2) by blast
  have none: "fmlookup (rs_pending (os_reg s)) connID = None \<Longrightarrow> fmlookup (rs_pending r) connID = None" for connID
    using sub by (cases "fmlookup (rs_pending r) connID") auto
  show "acct (os_reg ?s) (os_calls ?s)" using assms(3) by (simp add: set_call_def)
  from e show "events_ok (es @ [e]) ?s"
  proof
    assume "quiet_event e"
    then show ?thesis by (rule events_ok_quiet [OF d(2)]) (simp_all add: set_call_def none)
  next
    assume "\<exists>h. e = EvReceive c h \<and> EvRedeem (oc_connID old) h \<in> set es"
    then obtain h where h: "e = EvReceive c h" "EvRedeem (oc_connID old) h \<in> set es" by blast
    have op: "EvOpen (oc_name old) (oc_connID old) c \<in> set es" using old by (simp add: call_ok_def)
    show ?thesis
    proof (rule events_okI)
      show "distinct (redeemed (es @ [e]))" using h(1) events_okD(1) [OF d(2)] by (simp add: redeemed_append)
      show "fmlookup (rs_pending (os_reg ?s)) k = None" "k \<in> set (os_used ?s)" if "EvRedeem k h' \<in> set (es @ [e])" for k h'
        using that h(1) events_okD(2,3) [OF d(2)] none by (auto simp: set_call_def)
      show "\<exists>name k. EvOpen name k c' \<in> set (es @ [e]) \<and> EvRedeem k h' \<in> set (es @ [e])"
        if "EvReceive c' h' \<in> set (es @ [e])" for c' h'
      proof (cases "EvReceive c' h' \<in> set es")
        case True
        then show ?thesis by (rule receive_later [OF events_okD(4) [OF d(2)]])
      next
        case False
        with that h op show ?thesis by auto
      qed
    qed
  qed
  show "call_ok (es @ [e]) ?s c' call'" if "fmlookup (os_calls ?s) c' = Some call'" for c' call'
  proof (cases "c' = c")
    case True
    with that have "call' = call" by (simp add: set_call_def)
    with True old same got show ?thesis by (auto simp: call_ok_def set_call_def)
  next
    case False
    with that have "call_ok es s c' call'" using d(3) by (simp add: set_call_def)
    then show ?thesis by (rule call_ok_later) (simp_all add: set_call_def)
  qed
  show "cap_ok ?s connID p" if "fmlookup (rs_pending (os_reg ?s)) connID = Some p" for connID p
    using d(4) [of connID p] sub [of connID p] that assms(2) same by (auto simp: cap_ok_def set_call_def)
  show "handoff_ok (es @ [e]) ?s h' c'" if "fmlookup (os_handoffs ?s) h' = Some (c', b)" for h' c' b
    using ho [of h' c' b] that d(5) assms(2) same by (fastforce simp: handoff_ok_def set_call_def)
qed

lemma drop_pending_sub:
  "fmlookup (rs_pending (snd (drop_pending connID r))) k = Some p \<Longrightarrow> fmlookup (rs_pending r) k = Some p \<and> k \<noteq> connID"
  by (auto simp: drop_pending_def Let_def split: option.splits if_splits)

lemma redeem_reg: "reg_Redeem now connID r = (res, r') \<Longrightarrow> r' = snd (drop_pending connID r)"
  by (auto simp: reg_Redeem_def split: prod.splits option.splits)

lemma redeem_some:
  "reg_Redeem now connID r = (Some c, r') \<Longrightarrow> \<exists>p. fmlookup (rs_pending r) connID = Some p \<and> pc_call p = c"
  by (auto simp: reg_Redeem_def drop_pending_def Let_def split: option.splits if_splits)

lemma os_open_hinv:
  assumes "os_hinv es s" "connID \<notin> set (os_used s)"
    "open_begin now (Some connID) (os_nextCall s) name (os_reg s) = (Inr (connID, ag), r)"
  shows "os_hinv (es @ [EvOpen name connID (os_nextCall s)])
      (s\<lparr>os_reg := r, os_nextCall := Suc (os_nextCall s), os_used := connID # os_used s,
         os_calls := fmupd (os_nextCall s)
           \<lparr>oc_name = name, oc_connID = connID, oc_buf = None, oc_done = False, oc_phase = Waiting\<rparr> (os_calls s)\<rparr>)"
    (is "os_hinv ?es ?s")
proof (rule os_hinvI)
  note d = os_hinvD [OF assms(1)]
  let ?call = "\<lparr>oc_name = name, oc_connID = connID, oc_buf = None, oc_done = False, oc_phase = Waiting\<rparr>"
  have nocall: "fmlookup (os_calls s) (os_nextCall s) = None"
    using d(3) [of "os_nextCall s"] by (cases "fmlookup (os_calls s) (os_nextCall s)") (auto simp: call_ok_def)
  have unused: "fmlookup (rs_pending (os_reg s)) connID = None"
  proof (cases "fmlookup (rs_pending (os_reg s)) connID")
    case (Some p)
    from d(4) [OF Some] obtain c where "fmlookup (os_calls s) (pc_call p) = Some c" "oc_connID c = connID"
      by (auto simp: cap_ok_def)
    with d(3) assms(2) show ?thesis by (auto simp: call_ok_def)
  qed simp
  have "fmlookup (rs_pending r) k = (if k = connID
      then Some \<lparr>pc_name = name, pc_call = os_nextCall s, pc_expires = now + lm_DialBackTimeout (rs_limits (os_reg s))\<rparr>
      else fmlookup (rs_pending (os_reg s)) k)" for k
    using assms(3) by (rule open_begin_result) simp
  note pend = this
  show "acct (os_reg ?s) (os_calls ?s)"
    using open_begin_acct [OF d(1) assms(3) unused nocall, of ?call] by (simp add: is_returned_def)
  show "events_ok ?es ?s"
    by (rule events_ok_quiet [OF d(2)]) (use assms(2) in \<open>auto simp: pend\<close>)
  show "call_ok ?es ?s c call" if "fmlookup (os_calls ?s) c = Some call" for c call
  proof (cases "c = os_nextCall s")
    case True
    with that show ?thesis by (auto simp: call_ok_def)
  next
    case False
    with that have "call_ok es s c call" using d(3) by simp
    then show ?thesis by (rule call_ok_later) auto
  qed
  show "cap_ok ?s k p" if "fmlookup (rs_pending (os_reg ?s)) k = Some p" for k p
  proof (cases "k = connID")
    case True
    with that show ?thesis by (auto simp: cap_ok_def pend)
  next
    case False
    with that d(4) [of k p] nocall show ?thesis by (auto simp: cap_ok_def pend)
  qed
  show "handoff_ok ?es ?s h c" if "fmlookup (os_handoffs ?s) h = Some (c, b)" for h c b
    using that d(5) [of h c b] nocall by (auto simp: handoff_ok_def)
qed

lemma os_redeem_hinv:
  assumes "os_hinv es s" "reg_Redeem now connID (os_reg s) = (Some c, r)"
  shows "os_hinv (es @ [EvRedeem connID (os_nextConn s)])
      (s\<lparr>os_reg := r, os_handoffs := fmupd (os_nextConn s) (c, False) (os_handoffs s), os_nextConn := Suc (os_nextConn s)\<rparr>)"
    (is "os_hinv ?es ?s")
proof (rule os_hinvI)
  note d = os_hinvD [OF assms(1)]
  have r: "r = snd (drop_pending connID (os_reg s))" using redeem_reg [OF assms(2)] .
  from redeem_some [OF assms(2)] obtain p where p: "fmlookup (rs_pending (os_reg s)) connID = Some p" "pc_call p = c" by blast
  from d(4) [OF p(1)] obtain call where call: "fmlookup (os_calls s) c = Some call" "oc_connID call = connID"
    using p(2) by (auto simp: cap_ok_def)
  then have used: "connID \<in> set (os_used s)" using d(3) by (auto simp: call_ok_def)
  note sub = drop_pending_sub [of connID "os_reg s", folded r]
  have none: "fmlookup (rs_pending r) k = None" if "k = connID \<or> fmlookup (rs_pending (os_reg s)) k = None" for k
    using sub that by (cases "fmlookup (rs_pending r) k") auto
  show "acct (os_reg ?s) (os_calls ?s)" using drop_pending_acct [OF d(1)] by (simp add: r)
  have "connID \<notin> set (redeemed es)" using d(2) p(1) by (auto simp: events_ok_def redeemed_mem)
  show "events_ok ?es ?s"
  proof (rule events_okI)
    show "distinct (redeemed ?es)"
      using events_okD(1) [OF d(2)] \<open>connID \<notin> set (redeemed es)\<close> by (simp add: redeemed_append)
    show "fmlookup (rs_pending (os_reg ?s)) k = None" "k \<in> set (os_used ?s)" if "EvRedeem k h' \<in> set ?es" for k h'
      using that events_okD(2,3) [OF d(2)] none used by auto
    show "\<exists>name k. EvOpen name k c' \<in> set ?es \<and> EvRedeem k h' \<in> set ?es" if "EvReceive c' h' \<in> set ?es" for c' h'
    proof -
      from that have "EvReceive c' h' \<in> set es" by simp
      then show ?thesis by (rule receive_later [OF events_okD(4) [OF d(2)]])
    qed
  qed
  show "call_ok ?es ?s c' call'" if "fmlookup (os_calls ?s) c' = Some call'" for c' call'
    by (rule call_ok_later [OF d(3)]) (use that in simp_all)
  show "cap_ok ?s k q" if "fmlookup (rs_pending (os_reg ?s)) k = Some q" for k q
    using d(4) [of k q] sub that by (auto simp: cap_ok_def)
  show "handoff_ok ?es ?s h' c'" if "fmlookup (os_handoffs ?s) h' = Some (c', b)" for h' c' b
  proof (cases "h' = os_nextConn s")
    case True
    with that call show ?thesis by (auto simp: handoff_ok_def)
  next
    case False
    with that d(5) [of h' c' b] show ?thesis by (auto simp: handoff_ok_def)
  qed
qed

lemma system_eta:
  "s\<lparr>os_reg := r\<rparr> = s\<lparr>os_reg := r, os_handoffs := os_handoffs s\<rparr>"
  "s\<lparr>os_handoffs := ho\<rparr> = s\<lparr>os_reg := os_reg s, os_handoffs := ho\<rparr>"
  "set_call c call s = set_call c call (s\<lparr>os_reg := os_reg s, os_handoffs := os_handoffs s\<rparr>)"
  by simp_all

lemma cancel_facts:
  assumes "os_hinv es s"
  shows "acct (cancelPending k (os_reg s)) (os_calls s)"
    "fmlookup (rs_pending (cancelPending k (os_reg s))) k' = Some p \<Longrightarrow> fmlookup (rs_pending (os_reg s)) k' = Some p"
  using drop_pending_acct [OF os_hinvD(1) [OF assms]] drop_pending_sub [of k "os_reg s" k' p]
  by (simp_all add: cancelPending_def)

lemma received_pending [simp]:
  "rs_pending (open_received name r) = rs_pending r" "rs_pending (reg_Release name r) = rs_pending r"
  by (simp_all add: open_received_def reg_Release_def put_usage_def split: option.splits)

lemma os_step_hinv:
  assumes "os_hinv es s" "os_step fingerprint s e s'"
  shows "os_hinv (es @ [e]) s'"
  using assms(2)
proof (cases rule: os_step.cases)
  note d = os_hinvD [OF assms(1)]
  case (os_open connID now name ag r)
  with os_open_hinv [OF assms(1)] show ?thesis by simp
next
  note d = os_hinvD [OF assms(1)]
  case (os_pushFail c call)
  have "acct (cancelPending (oc_connID call) (os_reg s)) (fmupd c (call\<lparr>oc_phase := Failed\<rparr>) (os_calls s))"
    using call_acct [OF cancel_facts(1) [OF assms(1)] os_pushFail(3)] os_pushFail(4) by (simp add: is_returned_def)
  with os_pushFail call_ok_def [of es s c call] d(3) [OF os_pushFail(3)] show ?thesis unfolding os_pushFail(2)
    by (subst system_eta(1)) (rule call_update_hinv [OF assms(1) os_pushFail(3)],
      auto dest: cancel_facts(2) [OF assms(1)])
next
  case (os_redeem now connID c r)
  with os_redeem_hinv [OF assms(1)] show ?thesis by simp
next
  note d = os_hinvD [OF assms(1)]
  case (os_redeemExpired now connID r)
  have r: "r = snd (drop_pending connID (os_reg s))" using redeem_reg [OF os_redeemExpired(3)] .
  have "acct r (os_calls s)" using drop_pending_acct [OF d(1)] unfolding r .
  with os_redeemExpired(1) drop_pending_sub [of connID "os_reg s", folded r] show ?thesis
    unfolding os_redeemExpired(2) by (subst system_eta(1)) (rule reg_update_hinv [OF assms(1)], auto)
next
  note d = os_hinvD [OF assms(1)]
  case (os_check h c call)
  show ?thesis unfolding os_check(1,2)
    by (subst system_eta(2)) (rule reg_update_hinv [OF assms(1) d(1)], use os_check(3) in \<open>auto split: if_splits\<close>)
next
  note d = os_hinvD [OF assms(1)]
  case (os_deliver h c call)
  have "handoff_ok es s h c" using d(5) [OF os_deliver(3)] .
  with os_deliver(4) have "EvRedeem (oc_connID call) h \<in> set es" by (simp add: handoff_ok_def)
  moreover have "acct (os_reg s) (fmupd c (call\<lparr>oc_buf := Some h\<rparr>) (os_calls s))"
    using call_acct [OF d(1) os_deliver(4)] by (simp add: is_returned_def)
  ultimately show ?thesis unfolding os_deliver(1,2) using d(3) [OF os_deliver(4)]
    by (subst system_eta(2)) (rule call_update_hinv [OF assms(1) os_deliver(4)], auto simp: call_ok_def split: if_splits)
next
  note d = os_hinvD [OF assms(1)]
  case (os_abandon h c call)
  show ?thesis unfolding os_abandon(1,2)
    by (subst system_eta(2)) (rule reg_update_hinv [OF assms(1) d(1)], auto split: if_splits)
next
  note d = os_hinvD [OF assms(1)]
  case (os_receive c call h)
  have red: "EvRedeem (oc_connID call) h \<in> set es" using d(3) [OF os_receive(3)] os_receive(5) by (simp add: call_ok_def)
  have "acct (open_received (oc_name call) (os_reg s)) (fmupd c (call\<lparr>oc_buf := None, oc_phase := Returned h\<rparr>) (os_calls s))"
    using os_receive(4) by (intro open_received_acct [OF d(1) os_receive(3)]) (simp_all add: is_returned_def)
  with red show ?thesis unfolding os_receive(1,2)
    by (subst system_eta(1)) (rule call_update_hinv [OF assms(1) os_receive(3)], auto)
next
  note d = os_hinvD [OF assms(1)]
  case (os_cancel c call)
  have "acct (cancelPending (oc_connID call) (os_reg s)) (fmupd c (call\<lparr>oc_phase := Cancelled\<rparr>) (os_calls s))"
    using call_acct [OF cancel_facts(1) [OF assms(1)] os_cancel(3)] os_cancel(4) by (simp add: is_returned_def)
  with os_cancel call_ok_def [of es s c call] d(3) [OF os_cancel(3)] show ?thesis unfolding os_cancel(2)
    by (subst system_eta(1)) (rule call_update_hinv [OF assms(1) os_cancel(3)],
      auto dest: cancel_facts(2) [OF assms(1)])
next
  note d = os_hinvD [OF assms(1)]
  case (os_drain c call)
  have "acct (os_reg s) (fmupd c (call\<lparr>oc_buf := None, oc_phase := Drained\<rparr>) (os_calls s))"
    using call_acct [OF d(1) os_drain(3)] os_drain(4) by (simp add: is_returned_def)
  then show ?thesis unfolding os_drain(1,2)
    by (subst system_eta(3)) (rule call_update_hinv [OF assms(1) os_drain(3)], auto)
next
  note d = os_hinvD [OF assms(1)]
  case (os_closeDone c call)
  have "acct (os_reg s) (fmupd c (call\<lparr>oc_done := True, oc_phase := Failed\<rparr>) (os_calls s))"
    using call_acct [OF d(1) os_closeDone(3)] os_closeDone(4) by (simp add: is_returned_def)
  then show ?thesis unfolding os_closeDone(1,2) using d(3) [OF os_closeDone(3)]
    by (subst system_eta(3)) (rule call_update_hinv [OF assms(1) os_closeDone(3)], auto simp: call_ok_def)
next
  note d = os_hinvD [OF assms(1)]
  case (os_release c call h)
  have "acct (reg_Release (oc_name call) (os_reg s)) (fmupd c (call\<lparr>oc_phase := Ended\<rparr>) (os_calls s))"
    using os_release(4) by (intro release_acct [OF d(1) os_release(3)]) (simp_all add: is_returned_def)
  then show ?thesis unfolding os_release(1,2) using d(3) [OF os_release(3)]
    by (subst system_eta(1)) (rule call_update_hinv [OF assms(1) os_release(3)], auto simp: call_ok_def)
next
  note d = os_hinvD [OF assms(1)]
  case (os_registerAgent name ag old r)
  have c: "same_counts (os_reg s) r" using registerAgent_counts [of "os_reg s" name ag] os_registerAgent(3) by simp
  from same_counts_acct [OF d(1) c] c show ?thesis unfolding os_registerAgent(1,2)
    by (subst system_eta(1)) (rule reg_update_hinv [OF assms(1)], auto simp: same_counts_def)
next
  note d = os_hinvD [OF assms(1)]
  case (os_deregisterAgent name ag)
  have c: "same_counts (os_reg s) (reg_DeregisterAgent name ag (os_reg s))" by (rule deregisterAgent_counts)
  from same_counts_acct [OF d(1) c] c show ?thesis unfolding os_deregisterAgent(1,2)
    by (subst system_eta(1)) (rule reg_update_hinv [OF assms(1)], auto simp: same_counts_def)
next
  note d = os_hinvD [OF assms(1)]
  case (os_replace ks regs evicted r)
  have c: "same_counts (os_reg s) r" using replace_counts [of "os_reg s" fingerprint ks regs] os_replace(4) by simp
  from same_counts_acct [OF d(1) c] c show ?thesis unfolding os_replace(1,2)
    by (subst system_eta(1)) (rule reg_update_hinv [OF assms(1)], auto simp: same_counts_def)
qed

interpretation os: history_system "os_step fingerprint" os_hinv for fingerprint
  by unfold_locales (rule os_step_hinv)

definition newOpenSystem :: "('key \<Rightarrow> string) \<Rightarrow> 'key registration list \<Rightarrow> limits \<Rightarrow> 'key openSystem" where
  "newOpenSystem fingerprint regs lim =
     \<lparr>os_reg = NewRegistry fingerprint regs lim, os_calls = fmempty, os_nextCall = 0, os_handoffs = fmempty,
      os_nextConn = 0, os_used = []\<rparr>"

lemma add_registrations_frame:
  "rs_pending (fold (add_registration fingerprint) regs r) = rs_pending r"
  "rs_discoveredUsage (fold (add_registration fingerprint) regs r) = rs_discoveredUsage r"
  "rs_kubernetes (fold (add_registration fingerprint) regs r) = rs_kubernetes r"
  "rs_conflicts (fold (add_registration fingerprint) regs r) = rs_conflicts r"
  "rs_limits (fold (add_registration fingerprint) regs r) = rs_limits r"
  "rs_nonces (fold (add_registration fingerprint) regs r) = rs_nonces r"
  by (induction regs arbitrary: r) (simp_all add: add_registration_def)

lemma add_registrations_tenants:
  "fmlookup (rs_tenants (fold (add_registration fingerprint) regs r)) nm = Some t \<Longrightarrow>
   t = newTenantState \<or> fmlookup (rs_tenants r) nm = Some t"
proof (induction regs arbitrary: r)
  case (Cons reg regs)
  from Cons.IH [of "add_registration fingerprint reg r"] Cons.prems show ?case
    by (auto simp: add_registration_def split: if_splits)
qed simp

lemma new_registry:
  "fmlookup (rs_tenants (NewRegistry fingerprint regs lim)) nm = Some t \<Longrightarrow> t = newTenantState"
  "rs_pending (NewRegistry fingerprint regs lim) = fmempty"
  "rs_discoveredUsage (NewRegistry fingerprint regs lim) = fmempty"
  "rs_kubernetes (NewRegistry fingerprint regs lim) = fmempty"
  "rs_conflicts (NewRegistry fingerprint regs lim) = fmempty"
  "rs_limits (NewRegistry fingerprint regs lim) = lim"
  "rs_nonces (NewRegistry fingerprint regs lim) = NewNonceCache (5 * minute) maxNonces"
  unfolding NewRegistry_def by (auto simp: add_registrations_frame dest: add_registrations_tenants)

lemma new_os_hinv: "os_hinv [] (newOpenSystem fingerprint regs lim)"
proof (rule os_hinvI)
  show "acct (os_reg (newOpenSystem fingerprint regs lim)) (os_calls (newOpenSystem fingerprint regs lim))"
    by (rule acctI) (auto simp: newOpenSystem_def new_registry newTenantState_def pending_count_def live_count_def
        gm_filter_def dest!: new_registry(1))
qed (auto simp: newOpenSystem_def new_registry events_ok_def)

section \<open>Properties\<close>

text \<open>C5: A connection capability is redeemed at most once, and what comes back is the right
  connection. Whatever calls, dial-backs, timeouts and reloads interleave, no identifier is redeemed
  twice, and a connection that a call of \<open>Open\<close> receives was dialled back with the identifier minted
  for that very call, and so for its tenant.\<close>

theorem capability_single_use:
  assumes "run (os_step fingerprint) (newOpenSystem fingerprint regs lim) es s"
  shows "distinct (redeemed es) \<and>
    (\<forall>c h. EvReceive c h \<in> set es \<longrightarrow>
       (\<exists>name connID. EvOpen name connID c \<in> set es \<and> EvRedeem connID h \<in> set es))"
  using events_okD [OF os_hinvD(2) [OF os.run_hinv [OF assms new_os_hinv]]] by blast

text \<open>The counters a tenant is limited by are exact in every reachable state: \<open>pending\<close> is the
  number of its unredeemed capabilities and never exceeds its limit, and \<open>live\<close> is the number of its
  connections that were returned and not yet released.\<close>

theorem tenant_counters_exact:
  assumes "run (os_step fingerprint) (newOpenSystem fingerprint regs lim) es s"
    and "fmlookup (rs_tenants (os_reg s)) name = Some t"
  shows "ts_pending t = pending_count name (os_reg s) \<and> ts_live t = live_count name (os_calls s) \<and>
    0 \<le> ts_pending t \<and> 0 \<le> ts_live t \<and> ts_pending t \<le> max 0 (lm_MaxPendingPerServer (rs_limits (os_reg s)))"
  using acctD(2-4) [OF os_hinvD(1) [OF os.run_hinv [OF assms(1) new_os_hinv]] assms(2)]
  by (simp add: pending_count_def live_count_def)

section \<open>Concrete runs\<close>

definition demo_limits :: "int \<Rightarrow> limits" where
  "demo_limits mx = \<lparr>lm_DialBackTimeout = 100, lm_MaxPendingPerServer = 8, lm_MaxConnsPerServer = mx\<rparr>"

definition demo_agent :: agent where
  "demo_agent = \<lparr>ag_id = 1, ag_Name = ''a'', ag_Fingerprint = ''fp''\<rparr>"

definition demo_reg :: "string registration" where
  "demo_reg = \<lparr>rg_Name = ''a'', rg_PublicKey = ''fp'', rg_Listen = ''''\<rparr>"

text \<open>The run of a list of events, as far as they are enabled.\<close>

fun os_exec :: "'key os_event \<Rightarrow> 'key openSystem \<Rightarrow> 'key openSystem option" where
  "os_exec (EvOpen name connID c) s =
     (if c = os_nextCall s \<and> connID \<notin> set (os_used s) then
        (case open_begin 0 (Some connID) c name (os_reg s) of
           (Inr (k, ag), r) \<Rightarrow> if k \<noteq> connID then None else
             Some (s\<lparr>os_reg := r, os_nextCall := Suc c, os_used := connID # os_used s,
               os_calls := fmupd c \<lparr>oc_name = name, oc_connID = connID, oc_buf = None, oc_done = False, oc_phase = Waiting\<rparr> (os_calls s)\<rparr>)
         | _ \<Rightarrow> None) else None)"
| "os_exec (EvRedeem connID h) s =
     (if h = os_nextConn s then
        (case reg_Redeem 0 connID (os_reg s) of
           (Some c, r) \<Rightarrow> Some (s\<lparr>os_reg := r, os_handoffs := fmupd h (c, False) (os_handoffs s), os_nextConn := Suc h\<rparr>)
         | _ \<Rightarrow> None) else None)"
| "os_exec (EvCheck h) s =
     (case fmlookup (os_handoffs s) h of
        Some (c, False) \<Rightarrow>
          (case fmlookup (os_calls s) c of
             Some call \<Rightarrow> if oc_done call then Some (s\<lparr>os_handoffs := fmdrop h (os_handoffs s)\<rparr>)
               else Some (s\<lparr>os_handoffs := fmupd h (c, True) (os_handoffs s)\<rparr>)
           | None \<Rightarrow> None)
      | _ \<Rightarrow> None)"
| "os_exec (EvDeliver h) s =
     (case fmlookup (os_handoffs s) h of
        Some (c, True) \<Rightarrow>
          (case fmlookup (os_calls s) c of
             Some call \<Rightarrow> if oc_buf call = None
               then Some (set_call c (call\<lparr>oc_buf := Some h\<rparr>) (s\<lparr>os_handoffs := fmdrop h (os_handoffs s)\<rparr>)) else None
           | None \<Rightarrow> None)
      | _ \<Rightarrow> None)"
| "os_exec (EvReceive c h) s =
     (case fmlookup (os_calls s) c of
        Some call \<Rightarrow> if oc_phase call = Waiting \<and> oc_buf call = Some h
          then Some (set_call c (call\<lparr>oc_buf := None, oc_phase := Returned h\<rparr>) (s\<lparr>os_reg := open_received (oc_name call) (os_reg s)\<rparr>))
          else None
      | None \<Rightarrow> None)"
| "os_exec (EvCancel c) s =
     (case fmlookup (os_calls s) c of
        Some call \<Rightarrow> if oc_phase call = Waiting
          then Some (set_call c (call\<lparr>oc_phase := Cancelled\<rparr>) (s\<lparr>os_reg := cancelPending (oc_connID call) (os_reg s)\<rparr>)) else None
      | None \<Rightarrow> None)"
| "os_exec (EvDrain c) s =
     (case fmlookup (os_calls s) c of
        Some call \<Rightarrow> if oc_phase call = Cancelled then Some (set_call c (call\<lparr>oc_buf := None, oc_phase := Drained\<rparr>) s) else None
      | None \<Rightarrow> None)"
| "os_exec (EvCloseDone c) s =
     (case fmlookup (os_calls s) c of
        Some call \<Rightarrow> if oc_phase call = Drained then Some (set_call c (call\<lparr>oc_done := True, oc_phase := Failed\<rparr>) s) else None
      | None \<Rightarrow> None)"
| "os_exec (EvRegisterAgent name ag) s = Some (s\<lparr>os_reg := snd (reg_RegisterAgent name ag (os_reg s))\<rparr>)"
| "os_exec _ s = None"

fun os_execs :: "'key os_event list \<Rightarrow> 'key openSystem \<Rightarrow> 'key openSystem option" where
  "os_execs [] s = Some s"
| "os_execs (e # es) s = (case os_exec e s of None \<Rightarrow> None | Some s' \<Rightarrow> os_execs es s')"

lemma os_step_shapes:
  "fmlookup (os_handoffs s) h = Some (c, False) \<Longrightarrow> fmlookup (os_calls s) c = Some call \<Longrightarrow> oc_done call \<Longrightarrow>
   os_step fingerprint s (EvCheck h) (s\<lparr>os_handoffs := fmdrop h (os_handoffs s)\<rparr>)"
  "fmlookup (os_handoffs s) h = Some (c, False) \<Longrightarrow> fmlookup (os_calls s) c = Some call \<Longrightarrow> \<not> oc_done call \<Longrightarrow>
   os_step fingerprint s (EvCheck h) (s\<lparr>os_handoffs := fmupd h (c, True) (os_handoffs s)\<rparr>)"
  "os_step fingerprint s (EvRegisterAgent name ag) (s\<lparr>os_reg := snd (reg_RegisterAgent name ag (os_reg s))\<rparr>)"
  using os_check [of s h c call fingerprint] os_registerAgent [of name ag s _ _ fingerprint]
  by (simp_all add: prod_eq_iff)

lemma os_exec_step: "os_exec e s = Some s' \<Longrightarrow> os_step fingerprint s e s'"
  by (induction e s rule: os_exec.induct)
    (auto split: if_splits option.splits sum.splits prod.splits bool.splits intro: os_step.intros os_step_shapes)

lemma os_execs_run: "os_execs es s = Some s' \<Longrightarrow> run (os_step fingerprint) s es s'"
  by (induction es arbitrary: s) (auto split: option.splits intro: run.intros os_exec_step)

lemmas os_eval = open_begin_def reg_Redeem_def drop_pending_def cancelPending_def open_received_def
  reg_RegisterAgent_def set_call_def newOpenSystem_def NewRegistry_def add_registration_def newTenantState_def
  demo_limits_def demo_agent_def demo_reg_def gm_get_def Let_def

definition two_opens :: "string os_event list" where
  "two_opens = [EvRegisterAgent ''a'' demo_agent, EvOpen ''a'' ''x'' 0, EvRedeem ''x'' 0, EvCheck 0, EvDeliver 0,
     EvOpen ''a'' ''y'' 1, EvReceive 0 0, EvRedeem ''y'' 1, EvCheck 1, EvDeliver 1, EvReceive 1 1]"

definition late_delivery :: "string os_event list" where
  "late_delivery = [EvRegisterAgent ''a'' demo_agent, EvOpen ''a'' ''x'' 0, EvRedeem ''x'' 0, EvCheck 0,
     EvCancel 0, EvDrain 0, EvCloseDone 0, EvDeliver 0]"

lemma two_opens_run:
  "\<exists>s t. os_execs two_opens (newOpenSystem id [demo_reg] (demo_limits 1)) = Some s \<and>
     fmlookup (rs_tenants (os_reg s)) ''a'' = Some t \<and> ts_live t = 2 \<and> rs_limits (os_reg s) = demo_limits 1"
  by (simp add: two_opens_def os_eval)

lemma late_delivery_run:
  "\<exists>s call. os_execs late_delivery (newOpenSystem id [demo_reg] (demo_limits 1)) = Some s \<and> os_nextCall s = 1 \<and>
     fmlookup (os_calls s) 0 = Some call \<and> oc_phase call = Failed \<and> oc_done call \<and> oc_buf call = Some 0"
  by (simp add: late_delivery_def os_eval)

theorem capability_single_use_witness:
  "distinct (redeemed two_opens) \<and> (\<exists>name connID. EvOpen name connID 1 \<in> set two_opens \<and> EvRedeem connID 1 \<in> set two_opens)"
proof -
  from two_opens_run obtain s where "run (os_step id) (newOpenSystem id [demo_reg] (demo_limits 1)) two_opens s"
    using os_execs_run by blast
  from capability_single_use [OF this] show ?thesis by (auto simp: two_opens_def)
qed

theorem tenant_counters_exact_witness:
  "\<exists>s t. os_execs two_opens (newOpenSystem id [demo_reg] (demo_limits 1)) = Some s \<and>
     fmlookup (rs_tenants (os_reg s)) ''a'' = Some t \<and> ts_live t = live_count ''a'' (os_calls s)"
proof -
  from two_opens_run obtain s t where s: "os_execs two_opens (newOpenSystem id [demo_reg] (demo_limits 1)) = Some s"
    "fmlookup (rs_tenants (os_reg s)) ''a'' = Some t" by blast
  from tenant_counters_exact [OF os_execs_run [OF s(1), of id] s(2)] s show ?thesis by blast
qed

text \<open>The limit on a tenant's connections can be exceeded. \<open>Redeem\<close> gives the pending slot back
  before \<open>Open\<close> counts the connection as live, and in between the connection is counted nowhere: with
  a limit of one, two calls of \<open>Open\<close> both return a connection and two are live.\<close>

theorem max_conns_can_be_exceeded:
  "\<exists>es s t. run (os_step id) (newOpenSystem id [demo_reg] (demo_limits 1)) es s \<and>
     fmlookup (rs_tenants (os_reg s)) ''a'' = Some t \<and>
     lm_MaxConnsPerServer (rs_limits (os_reg s)) = 1 \<and> ts_live t = 2"
  using two_opens_run os_execs_run [of two_opens _ _ id] by (force simp: demo_limits_def)

lemma stuck_step:
  assumes "os_step fingerprint s e s'" "fmlookup (os_calls s) c = Some call" "oc_phase call = Failed"
    "oc_buf call = Some h" "c < os_nextCall s"
  shows "fmlookup (os_calls s') c = Some call \<and> c < os_nextCall s'"
  using assms by (cases rule: os_step.cases) (auto simp: set_call_def)

lemma stuck_run:
  "run (os_step fingerprint) s es s' \<Longrightarrow> fmlookup (os_calls s) c = Some call \<Longrightarrow> oc_phase call = Failed \<Longrightarrow>
   oc_buf call = Some h \<Longrightarrow> c < os_nextCall s \<Longrightarrow> fmlookup (os_calls s') c = Some call"
  by (induction rule: run.induct) (auto dest: stuck_step)

text \<open>A dialled-back connection can be lost for good. The data handler checks \<open>done\<close> and then sends
  into a buffer of one; when \<open>Open\<close> gives up between the two, it has already drained the buffer, the send
  succeeds although \<open>done\<close> is closed, and the connection stays in the buffer of a call that has ended:
  nothing that can happen afterwards takes it out again.\<close>

theorem late_delivery_is_lost:
  "\<exists>es s call. run (os_step id) (newOpenSystem id [demo_reg] (demo_limits 1)) es s \<and>
     fmlookup (os_calls s) 0 = Some call \<and> oc_phase call = Failed \<and> oc_done call \<and> oc_buf call = Some 0 \<and>
     \<not> (\<exists>fs s'. run (os_step id) s fs s' \<and> fmlookup (os_calls s') 0 \<noteq> Some call)"
proof -
  from late_delivery_run obtain s call where
    s: "os_execs late_delivery (newOpenSystem id [demo_reg] (demo_limits 1)) = Some s" "os_nextCall s = 1"
      "fmlookup (os_calls s) 0 = Some call" "oc_phase call = Failed" "oc_done call" "oc_buf call = Some 0" by blast
  have "\<not> (\<exists>fs s'. run (os_step id) s fs s' \<and> fmlookup (os_calls s') 0 \<noteq> Some call)"
    using stuck_run [OF _ s(3,4,6)] s(2) by force
  with os_execs_run [OF s(1)] s(3-6) show ?thesis by blast
qed

section \<open>Discovery, registration and reload\<close>

text \<open>A discovered hostname is routed exactly when one Service claims it. After any sequence of
  upserts and removals, \<open>Lookup\<close> returns an endpoint if and only if that endpoint is the only one
  among all that were added and not removed; with two claims or none it returns nothing, and the
  survivor of a resolved conflict becomes available again.\<close>

theorem hostname_routed_iff_unique_claim:
  assumes "run kube_step (NewRegistry fingerprint regs lim) es r"
  shows "reg_Lookup host r = Some ep \<longleftrightarrow>
    fold claims_spec es (\<lambda>_. fmempty) host = fmupd (se_ID ep) ep fmempty"
proof -
  have ok: "kube_ok (NewRegistry fingerprint regs lim)"
    by (simp add: kube_ok_def kube_inv_def claims_keyed_def claims_def new_registry)
  have "claims (NewRegistry fingerprint regs lim) = (\<lambda>_. fmempty)"
    by (simp add: fun_eq_iff claims_def new_registry)
  with kube.run_spec [OF assms ok] have spec: "fold claims_spec es (\<lambda>_. fmempty) = claims r" by simp
  have inv: "kube_inv r" using kube.run_inv [OF assms ok] by (simp add: kube_ok_def)
  have single: "fmupd (se_ID ep') ep' fmempty = fmupd (se_ID ep) ep fmempty \<longleftrightarrow> ep' = ep" for ep'
    by (metis fmupd_lookup fmempty_lookup option.distinct(1) option.inject)
  show ?thesis
  proof (cases "fmlookup (rs_conflicts r) host")
    case (Some c)
    from kube_invD [OF inv Some] have "gm_len c \<noteq> gm_len (fmupd (se_ID ep) ep fmempty)"
      "fmlookup (rs_kubernetes r) host = None" by auto
    with Some show ?thesis by (auto simp: spec claims_def reg_Lookup_def)
  next
    case None
    moreover have "fmempty \<noteq> fmupd (se_ID ep) ep fmempty" by (metis gm_len_empty gm_len_upd fmempty_lookup nat.distinct(1))
    ultimately show ?thesis
      by (cases "fmlookup (rs_kubernetes r) host") (auto simp: spec claims_def reg_Lookup_def single)
  qed
qed

definition demo_ep :: "string \<Rightarrow> serverEndpoint" where
  "demo_ep uid = \<lparr>se_Hostname = ''h'', se_Address = ''s:1'', se_Namespace = '''', se_Service = '''', se_Tenant = '''',
     se_Source = SourceKubernetes, se_ID = uid\<rparr>"

theorem hostname_routed_iff_unique_claim_witness:
  "reg_Lookup ''h'' (snd (UpsertKubernetes (demo_ep ''1'') (NewRegistry id [demo_reg] (demo_limits 1)))) = Some (demo_ep ''1'')"
proof -
  let ?r = "NewRegistry id [demo_reg] (demo_limits 1)"
  have "kube_step ?r (KUpsert (demo_ep ''1'')) (snd (UpsertKubernetes (demo_ep ''1'') ?r))"
    by (rule kube_upsert) (rule prod.collapse [symmetric])
  from hostname_routed_iff_unique_claim [OF run_one [of kube_step, OF this], of "''h''" "demo_ep ''1''"]
  show ?thesis by (simp add: demo_ep_def valid_endpoint_def)
qed

text \<open>C15: A registration is accepted only for a fully authenticated request, and an unauthenticated one
  costs nothing. Success means a supported version and capabilities, a timestamp within two minutes, a
  registered key whose signature covers the request, an unused nonce, and the name registered for that
  key; and unless the signature verified under a registered key, the registry, including its bounded
  nonce cache, is left as it was.\<close>

theorem register_authenticates:
  assumes "reg_Register cr now ks req r = (res, r')"
  shows "(\<forall>name fp. res = Inr (name, fp) \<longrightarrow>
      (\<exists>ts key reg payload. cr_ParseTimestamp cr (rr_Timestamp req) = Some ts \<and> now - ts \<le> 2 * minute \<and> ts - now \<le> 2 * minute \<and>
         cr_ParsePublic cr (rr_PublicKey req) = Some key \<and> fp = cr_Fingerprint cr key \<and>
         fmlookup (rs_byFingerprint r) fp = Some reg \<and> rg_Name reg = name \<and> rr_Name req = name \<and>
         RelayRegisterPayload req = Inr payload \<and> cr_Verify cr (rg_PublicKey reg) payload (rr_Signature req) \<and>
         fst (nonce_Use now ks (rr_Nonce req) (rs_nonces r)) \<and>
         ValidateRequiredCapabilities relayCapabilities (rr_RequiredCapabilities req) = None)) \<and>
    (r' = r \<or> (\<exists>key reg payload. cr_ParsePublic cr (rr_PublicKey req) = Some key \<and>
         fmlookup (rs_byFingerprint r) (cr_Fingerprint cr key) = Some reg \<and> RelayRegisterPayload req = Inr payload \<and>
         cr_Verify cr (rg_PublicKey reg) payload (rr_Signature req) \<and>
         r' = r\<lparr>rs_nonces := snd (nonce_Use now ks (rr_Nonce req) (rs_nonces r))\<rparr>))"
  using assms unfolding reg_Register_def
  by (auto simp: Let_def split: if_splits option.splits sum.splits prod.splits)

definition demo_crypto :: "string crypto" where
  "demo_crypto = \<lparr>cr_ParseTimestamp = (\<lambda>_. Some 0), cr_ParsePublic = Some, cr_Fingerprint = id, cr_Verify = (\<lambda>k m s. s = ''good'')\<rparr>"

definition demo_request :: relayRegisterRequest where
  "demo_request = \<lparr>rr_Version = 1, rr_PublicKey = ''fp'', rr_Name = ''a'', rr_Timestamp = ''t'', rr_Nonce = ''n'',
     rr_Signature = ''good'', rr_RequiredCapabilities = []\<rparr>"

definition demo_registry :: "string registry" where
  "demo_registry = NewRegistry id [demo_reg] (demo_limits 1)"

lemma demo_registration:
  "reg_Register demo_crypto 5 [] demo_request demo_registry =
     (Inr (''a'', ''fp''), demo_registry\<lparr>rs_nonces := (rs_nonces demo_registry)\<lparr>nc_seen := fmupd ''n'' 5 fmempty\<rparr>\<rparr>)"
  by (simp add: reg_Register_def demo_crypto_def demo_request_def demo_registry_def NewRegistry_def add_registration_def
      demo_reg_def Version_def RelayRegisterPayload_def maxField_def nonce_Use_def NewNonceCache_def maxNonces_def
      DefaultMaxNonces_def Let_def)

theorem register_authenticates_witness:
  "\<exists>reg. fmlookup (rs_byFingerprint demo_registry) ''fp'' = Some reg \<and> rg_Name reg = ''a'' \<and> rr_Name demo_request = ''a''"
  using register_authenticates [OF demo_registration] by auto

text \<open>The clock window and the nonce cache leave no gap for a replay: once a registration has been
  accepted, the same request is refused at every later time as long as its nonce has not been evicted,
  by the nonce within five minutes and by its timestamp after that.\<close>

theorem register_replay_refused:
  assumes "reg_Register cr now ks req r = (Inr who, r1)" "now \<le> now2"
    and "fmlookup (nc_seen (rs_nonces r2)) (rr_Nonce req) = Some now" "nc_ttl (rs_nonces r2) = 5 * minute"
  shows "\<exists>err. fst (reg_Register cr now2 ks2 req r2) = Inl err"
proof -
  from assms(1) obtain ts where ts: "cr_ParseTimestamp cr (rr_Timestamp req) = Some ts" "ts - now \<le> 2 * minute"
    by (auto simp: reg_Register_def Let_def split: if_splits option.splits)
  show ?thesis
  proof (cases "now2 - ts > 2 * minute")
    case True
    with ts(1) show ?thesis by (simp add: reg_Register_def)
  next
    case False
    with ts(2) have "now2 - now \<le> 5 * minute" by simp
    with assms(3,4) have "\<not> fst (nonce_Use now2 ks2 (rr_Nonce req) (rs_nonces r2))" by (simp add: nonce_Use_def)
    then show ?thesis
      by (auto simp: reg_Register_def Let_def split: if_splits option.splits sum.splits prod.splits)
  qed
qed

theorem register_replay_refused_witness:
  "\<exists>err. fst (reg_Register demo_crypto 90 [] demo_request
      (demo_registry\<lparr>rs_nonces := (rs_nonces demo_registry)\<lparr>nc_seen := fmupd ''n'' 5 fmempty\<rparr>\<rparr>)) = Inl err"
  by (rule register_replay_refused [OF demo_registration])
    (simp_all add: demo_request_def demo_registry_def new_registry NewNonceCache_def)

lemma fold_fmupd_lookup:
  "fmlookup (fold (\<lambda>x. fmupd (f x) (g x)) xs m) k = Some v \<Longrightarrow> (\<exists>x \<in> set xs. f x = k \<and> g x = v) \<or> fmlookup m k = Some v"
proof (induction xs arbitrary: m)
  case (Cons x xs)
  from Cons.IH [of "fmupd (f x) (g x) m"] Cons.prems show ?case by (auto split: if_splits)
qed simp

lemma evict_loop_reports:
  "ag \<in> set (fst er) \<or> (\<exists>nm t. nm \<in> set ks \<and> fmlookup (rs_tenants (snd er)) nm = Some t \<and> ts_agent t = Some ag \<and>
      fmlookup fps nm \<noteq> Some (ag_Fingerprint ag)) \<Longrightarrow> ag \<in> set (fst (fold (evict_step fps) ks er))"
proof (induction ks arbitrary: er)
  case (Cons k ks)
  from Cons.prems have "ag \<in> set (fst (evict_step fps k er)) \<or>
      (\<exists>nm t. nm \<in> set ks \<and> fmlookup (rs_tenants (snd (evict_step fps k er))) nm = Some t \<and> ts_agent t = Some ag \<and>
        fmlookup fps nm \<noteq> Some (ag_Fingerprint ag))"
  proof (elim disjE exE conjE)
    fix nm t assume nm: "nm \<in> set (k # ks)" "fmlookup (rs_tenants (snd er)) nm = Some t" "ts_agent t = Some ag"
      "fmlookup fps nm \<noteq> Some (ag_Fingerprint ag)"
    show ?thesis
    proof (cases "nm = k")
      case True
      with nm show ?thesis by (auto simp: evict_step_def split: prod.splits)
    next
      case False
      with nm show ?thesis by (auto simp: evict_step_tenants)
    qed
  qed (auto simp: evict_step_def split: prod.splits option.splits)
  from Cons.IH [OF this] show ?case by simp
qed auto

lemma evicted_agent:
  "ts_agent (evicted_tenant fps nm t) = Some ag \<Longrightarrow> fmlookup fps nm = Some (ag_Fingerprint ag)"
  by (cases "ts_agent t") (auto simp: evicted_tenant_def split: if_splits)

text \<open>A reload revokes at once. After \<open>ReplaceRegistrations\<close> every agent that is still bound to a
  name is authorized by a new registration of that name with the agent's own key, only keys of the new
  set can register, and every agent that lost its authorization is unbound and among those closed.\<close>

theorem reload_revokes_agents:
  assumes "range_order ks (rs_tenants r)" "reg_ReplaceRegistrations fingerprint ks regs r = (evicted, r')"
  shows "(\<forall>name t ag. fmlookup (rs_tenants r') name = Some t \<and> ts_agent t = Some ag \<longrightarrow>
      (\<exists>reg \<in> set regs. rg_Name reg = name \<and> fingerprint (rg_PublicKey reg) = ag_Fingerprint ag)) \<and>
    (\<forall>fp reg. fmlookup (rs_byFingerprint r') fp = Some reg \<longrightarrow> reg \<in> set regs) \<and>
    (\<forall>name t ag. fmlookup (rs_tenants r) name = Some t \<and> ts_agent t = Some ag \<longrightarrow>
      ag \<in> set evicted \<or> fmlookup (rs_tenants r') name = Some t)"
proof -
  let ?fps = "fold (\<lambda>reg. fmupd (rg_Name reg) (fingerprint (rg_PublicKey reg))) regs fmempty"
  let ?er = "([], r\<lparr>rs_byFingerprint := fold (\<lambda>reg. fmupd (fingerprint (rg_PublicKey reg)) reg) regs fmempty\<rparr>)"
  have loop: "fold (evict_step ?fps) ks ?er = (evicted, r')"
    using assms(2) by (simp add: reg_ReplaceRegistrations_def Let_def)
  have ks: "nm \<in> set ks \<longleftrightarrow> fmlookup (rs_tenants r) nm \<noteq> None" for nm using assms(1) by (simp add: range_order_iff)
  have ten: "fmlookup (rs_tenants r') nm = map_option (evicted_tenant ?fps nm) (fmlookup (rs_tenants r) nm)" for nm
    using evict_loop_tenants [of ?fps ks ?er nm] ks [of nm] by (auto simp: loop)
  have "\<exists>reg \<in> set regs. rg_Name reg = name \<and> fingerprint (rg_PublicKey reg) = ag_Fingerprint ag"
    if "fmlookup (rs_tenants r') name = Some t" "ts_agent t = Some ag" for name t ag
  proof -
    from that have "fmlookup ?fps name = Some (ag_Fingerprint ag)"
      by (auto simp: ten intro: evicted_agent)
    from fold_fmupd_lookup [OF this] show ?thesis by simp
  qed
  moreover have "reg \<in> set regs" if "fmlookup (rs_byFingerprint r') fp = Some reg" for fp reg
    using that evict_loop_frame [of ?fps ks ?er]
      fold_fmupd_lookup [of "\<lambda>reg. fingerprint (rg_PublicKey reg)" "\<lambda>reg. reg" regs fmempty fp reg] by (auto simp: loop)
  moreover have "ag \<in> set evicted \<or> fmlookup (rs_tenants r') name = Some t"
    if "fmlookup (rs_tenants r) name = Some t" "ts_agent t = Some ag" for name t ag
  proof (cases "fmlookup ?fps name = Some (ag_Fingerprint ag)")
    case True
    with that show ?thesis by (simp add: ten evicted_tenant_def)
  next
    case False
    have "ag \<in> set (fst (fold (evict_step ?fps) ks ?er))"
      by (rule evict_loop_reports) (use that False ks in auto)
    then show ?thesis by (simp add: loop)
  qed
  ultimately show ?thesis by blast
qed

definition demo_bound :: "string registry" where
  "demo_bound = snd (reg_RegisterAgent ''a'' demo_agent demo_registry)"

theorem reload_revokes_agents_witness:
  "\<exists>evicted r'. reg_ReplaceRegistrations id [''a''] [] demo_bound = (evicted, r') \<and> demo_agent \<in> set evicted"
proof -
  have t: "rs_tenants demo_bound = fmupd ''a'' (newTenantState\<lparr>ts_agent := Some demo_agent\<rparr>) (rs_tenants demo_registry)"
    "fmlookup (rs_tenants demo_registry) k \<noteq> None \<longleftrightarrow> k = ''a''" for k
    by (simp_all add: demo_bound_def demo_registry_def reg_RegisterAgent_def NewRegistry_def add_registration_def demo_reg_def
        gm_get_def Let_def)
  then have o: "range_order [''a''] (rs_tenants demo_bound)" by (auto simp: range_order_iff)
  obtain ev r' where e: "reg_ReplaceRegistrations id [''a''] [] demo_bound = (ev, r')" by fastforce
  let ?t = "newTenantState\<lparr>ts_agent := Some demo_agent\<rparr>"
  note p = reload_revokes_agents [OF o e]
  have "fmlookup (rs_tenants demo_bound) ''a'' = Some ?t" "ts_agent ?t = Some demo_agent" by (simp_all add: t(1))
  with p have "demo_agent \<in> set ev \<or> fmlookup (rs_tenants r') ''a'' = Some ?t" by blast
  moreover from p have "fmlookup (rs_tenants r') ''a'' \<noteq> Some ?t" by force
  ultimately show ?thesis using e by blast
qed

text \<open>The revocation has a hole for a registration that is in flight: between the check of a
  registration and the binding of its agent the lock is not held, so a reload that removes the key in
  between evicts nothing, and the agent is then bound under a key that no registration authorizes.\<close>

theorem reload_misses_registration_in_flight:
  "\<exists>now r1 r2 r3 t. fst (reg_Register demo_crypto now [] demo_request demo_registry) = Inr (''a'', ag_Fingerprint demo_agent) \<and>
     r1 = snd (reg_Register demo_crypto now [] demo_request demo_registry) \<and>
     r2 = snd (reg_ReplaceRegistrations id [''a''] [] r1) \<and>
     r3 = snd (reg_RegisterAgent ''a'' demo_agent r2) \<and>
     fmlookup (rs_tenants r3) ''a'' = Some t \<and> ts_agent t = Some demo_agent \<and> rs_byFingerprint r3 = fmempty"
proof -
  let ?r1 = "demo_registry\<lparr>rs_nonces := (rs_nonces demo_registry)\<lparr>nc_seen := fmupd ''n'' 5 fmempty\<rparr>\<rparr>"
  have "fst (reg_Register demo_crypto 5 [] demo_request demo_registry) = Inr (''a'', ag_Fingerprint demo_agent)"
    "snd (reg_Register demo_crypto 5 [] demo_request demo_registry) = ?r1"
    by (simp_all add: demo_registration demo_agent_def)
  moreover have "\<exists>t. fmlookup (rs_tenants (snd (reg_RegisterAgent ''a'' demo_agent r))) ''a'' = Some t \<and> ts_agent t = Some demo_agent"
    for r :: "string registry" by (simp add: reg_RegisterAgent_def Let_def)
  moreover have "rs_byFingerprint (snd (reg_RegisterAgent ''a'' demo_agent (snd (reg_ReplaceRegistrations id [''a''] [] ?r1)))) = fmempty"
    by (simp add: reg_RegisterAgent_def Let_def reg_ReplaceRegistrations_def evict_step_def split: option.splits)
  ultimately show ?thesis by metis
qed

end
