(* ===== verification/Float64.thy ===== *)
theory Float64
  imports Complex_Main "HOL-Library.Log_Nat"
begin

text \<open>
  Go's \<open>float64\<close> arithmetic as far as the sources use it: exact rationals, rounded after each
  operation to 53 significant bits, to nearest with ties to even. The values here stay far from the
  ends of the exponent range.
\<close>

section \<open>Rounding\<close>

definition rne :: "rat \<Rightarrow> int" where
  "rne y = (let q = \<lfloor>y\<rfloor>; r = y - of_int q in if r > 1 / 2 \<or> (r = 1 / 2 \<and> odd q) then q + 1 else q)"

text \<open>The binary exponent of a positive rational.\<close>

definition expo :: "rat \<Rightarrow> int" where
  "expo x =
     (case quotient_of x of (p, q) \<Rightarrow>
        let k = int (floorlog 2 (nat p)) - int (floorlog 2 (nat q))
        in if 2 powi k \<le> x then k else k - 1)"

definition round_pos :: "rat \<Rightarrow> rat" where
  "round_pos x = (let u = 2 powi (expo x - 52) in of_int (rne (x / u)) * u)"

definition fl :: "rat \<Rightarrow> rat" where
  "fl x = (if x = 0 then 0 else if x < 0 then - round_pos (- x) else round_pos x)"

section \<open>Lemmas\<close>

lemma rne_int [simp]: "rne (of_int n) = n"
  by (simp add: rne_def)

lemma rne_bounds: "\<lfloor>y\<rfloor> \<le> rne y" "rne y \<le> \<lfloor>y\<rfloor> + 1"
  by (simp_all add: rne_def Let_def)

lemma rne_mono:
  assumes "y \<le> z"
  shows "rne y \<le> rne z"
proof (cases "\<lfloor>y\<rfloor> = \<lfloor>z\<rfloor>")
  case True
  with assms show ?thesis by (auto simp: rne_def Let_def)
next
  case False
  with floor_mono [OF assms] have "\<lfloor>y\<rfloor> + 1 \<le> \<lfloor>z\<rfloor>" by simp
  with rne_bounds [of y] rne_bounds [of z] show ?thesis by linarith
qed

lemma floorlog_nat: "0 < n \<Longrightarrow> 2 ^ (floorlog 2 n - 1) \<le> n \<and> n < 2 ^ floorlog 2 n \<and> 0 < floorlog 2 n"
  using floorlog_bounds [of n 2] by (cases "floorlog 2 n") auto

lemma pred_power: "0 < b \<Longrightarrow> (2 :: rat) ^ (b - 1) = 2 powi (int b - 1)"
  by (metis One_nat_def Suc_leI of_nat_1 of_nat_diff power_int_of_nat)

lemma power_int_mono2: "i \<le> j \<Longrightarrow> (2 :: rat) powi i \<le> 2 powi j"
  by (rule power_int_increasing) auto

lemma expo_bounds:
  assumes "0 < x"
  shows "2 powi (expo x) \<le> x" "x < 2 powi (expo x + 1)"
proof -
  obtain p q where pq: "quotient_of x = (p, q)" by (cases "quotient_of x")
  have q: "0 < q" using quotient_of_denom_pos [OF pq] .
  have x: "x = of_int p / of_int q" using quotient_of_div [OF pq] .
  have p: "0 < p" using assms q by (simp add: x zero_less_divide_iff)
  define a b where "a = floorlog 2 (nat p)" and "b = floorlog 2 (nat q)"
  have A: "2 ^ (a - 1) \<le> nat p" "nat p < 2 ^ a" "0 < a" using floorlog_nat [of "nat p"] p by (auto simp: a_def)
  have B: "2 ^ (b - 1) \<le> nat q" "nat q < 2 ^ b" "0 < b" using floorlog_nat [of "nat q"] q by (auto simp: b_def)
  have pr: "(2 :: rat) ^ (a - 1) \<le> of_int p" "(of_int p :: rat) < 2 ^ a"
    using A p by (metis (mono_tags, lifting) int_nat_eq of_int_le_iff of_int_numeral of_int_of_nat_eq of_int_power
        of_nat_le_iff of_nat_numeral of_nat_power order_less_imp_le of_nat_less_iff of_int_less_iff)+
  have qr: "(2 :: rat) ^ (b - 1) \<le> of_int q" "(of_int q :: rat) < 2 ^ b"
    using B q by (metis (mono_tags, lifting) int_nat_eq of_int_le_iff of_int_numeral of_int_of_nat_eq of_int_power
        of_nat_le_iff of_nat_numeral of_nat_power order_less_imp_le of_nat_less_iff of_int_less_iff)+
  have up: "x < 2 powi (int a - int b + 1)"
  proof -
    have "x < 2 ^ a / 2 ^ (b - 1)" unfolding x using pr(2) qr(1) q p
      by (intro frac_less) auto
    also have "\<dots> = 2 powi (int a) / 2 powi (int b - 1)" using pred_power [OF B(3)] by simp
    also have "\<dots> = 2 powi (int a - (int b - 1))" by (rule power_int_diff [symmetric]) simp
    also have "\<dots> = 2 powi (int a - int b + 1)" by (simp add: algebra_simps)
    finally show ?thesis .
  qed
  have low: "2 powi (int a - int b - 1) \<le> x"
  proof -
    have "(2 :: rat) powi (int a - int b - 1) = 2 powi ((int a - 1) - int b)" by (simp add: algebra_simps)
    also have "\<dots> = 2 powi (int a - 1) / 2 powi (int b)" by (rule power_int_diff) simp
    also have "\<dots> = (2 :: rat) ^ (a - 1) / 2 ^ b" using pred_power [OF A(3)] by simp
    also have "\<dots> \<le> x" unfolding x using pr(1) qr(2) q p by (intro frac_le) auto
    finally show ?thesis .
  qed
  have e: "expo x = (if 2 powi (int a - int b) \<le> x then int a - int b else int a - int b - 1)"
    by (simp add: expo_def pq a_def b_def Let_def)
  show "2 powi (expo x) \<le> x" using low by (simp add: e)
  show "x < 2 powi (expo x + 1)" using up by (simp add: e)
qed

lemma expo_mono:
  assumes "0 < x" "x \<le> y"
  shows "expo x \<le> expo y"
proof (rule ccontr)
  assume "\<not> expo x \<le> expo y"
  then have "expo y + 1 \<le> expo x" by simp
  then have "(2 :: rat) powi (expo y + 1) \<le> 2 powi (expo x)" by (rule power_int_mono2)
  with expo_bounds [OF assms(1)] expo_bounds [of y] assms show False by linarith
qed

text \<open>A positive value, scaled by its unit in the last place, lies between \<open>2^52\<close> and \<open>2^53\<close>.\<close>

lemma scaled_bounds:
  assumes "0 < x"
  shows "2 ^ 52 \<le> x / 2 powi (expo x - 52)" "x / 2 powi (expo x - 52) < 2 ^ 53"
proof -
  have s: "x / 2 powi (expo x - 52) = 2 ^ 52 * (x / 2 powi (expo x))"
    by (simp add: power_int_diff)
  have "1 \<le> x / 2 powi (expo x)" "x / 2 powi (expo x) < 2"
    using expo_bounds [OF assms] by (simp_all add: field_simps power_int_add)
  then have "2 ^ 52 * 1 \<le> 2 ^ 52 * (x / 2 powi (expo x))" "2 ^ 52 * (x / 2 powi (expo x)) < 2 ^ 52 * 2"
    by (intro mult_left_mono mult_strict_left_mono; simp)+
  then show "2 ^ 52 \<le> x / 2 powi (expo x - 52)" "x / 2 powi (expo x - 52) < 2 ^ 53" unfolding s by simp_all
qed

lemma round_pos_bounds:
  assumes "0 < x"
  shows "2 powi (expo x) \<le> round_pos x" "round_pos x \<le> 2 powi (expo x + 1)"
proof -
  let ?u = "2 powi (expo x - 52) :: rat"
  have u: "0 < ?u" by simp
  have "rne (of_int (2 ^ 52)) \<le> rne (x / ?u)" "rne (x / ?u) \<le> rne (of_int (2 ^ 53))"
    using scaled_bounds [OF assms] by (auto intro!: rne_mono)
  then have "2 ^ 52 \<le> rne (x / ?u)" "rne (x / ?u) \<le> 2 ^ 53" by (simp_all only: rne_int)
  then have b: "(2 ^ 52 :: rat) \<le> of_int (rne (x / ?u))" "of_int (rne (x / ?u)) \<le> (2 ^ 53 :: rat)"
    by (metis of_int_le_iff of_int_numeral of_int_power)+
  have "2 ^ 52 * ?u \<le> round_pos x" "round_pos x \<le> 2 ^ 53 * ?u"
    using mult_right_mono [OF b(1), of ?u] mult_right_mono [OF b(2), of ?u] u
    by (simp_all add: round_pos_def Let_def)
  moreover have "2 ^ 52 * ?u = 2 powi (expo x)" "2 ^ 53 * ?u = 2 powi (expo x + 1)"
    by (simp_all add: power_int_diff power_int_add)
  ultimately show "2 powi (expo x) \<le> round_pos x" "round_pos x \<le> 2 powi (expo x + 1)" by simp_all
qed

lemma round_pos_mono:
  assumes "0 < x" "x \<le> y"
  shows "round_pos x \<le> round_pos y"
proof (cases "expo x = expo y")
  case True
  let ?u = "2 powi (expo y - 52) :: rat"
  have "x / ?u \<le> y / ?u" using assms(2) by (simp add: divide_right_mono)
  then have "(of_int (rne (x / ?u)) :: rat) \<le> of_int (rne (y / ?u))" using rne_mono by simp
  then show ?thesis by (simp add: round_pos_def Let_def True mult_right_mono)
next
  case False
  with expo_mono [OF assms] have "expo x + 1 \<le> expo y" by simp
  then have "(2 :: rat) powi (expo x + 1) \<le> 2 powi (expo y)" by (rule power_int_mono2)
  with round_pos_bounds [OF assms(1)] round_pos_bounds [of y] assms show ?thesis by linarith
qed

lemma fl_0 [simp]: "fl 0 = 0"
  by (simp add: fl_def)

lemma fl_nonneg: "0 \<le> x \<Longrightarrow> 0 \<le> fl x"
  using round_pos_bounds(1) [of x] by (auto simp: fl_def intro: order_trans [rotated])

lemma fl_mono: "0 \<le> x \<Longrightarrow> x \<le> y \<Longrightarrow> fl x \<le> fl y"
  using round_pos_mono [of x y] fl_nonneg [of y] by (auto simp: fl_def)

lemma fl_nat:
  assumes "n < 2 ^ 53"
  shows "fl (of_nat n) = of_nat n"
proof (cases "n = 0")
  case False
  let ?x = "of_nat n :: rat"
  have pos: "0 < ?x" using False by simp
  have "2 powi (expo ?x) \<le> ?x" using expo_bounds [OF pos] by simp
  also have "\<dots> < 2 powi 53" using assms
    by (metis of_nat_less_iff of_nat_numeral of_nat_power power_int_numeral)
  finally have "(2 :: rat) powi (expo ?x) < 2 powi 53" .
  then have "expo ?x < 53" using power_int_mono2 [of 53 "expo ?x"] by linarith
  then have e: "expo ?x - 52 = - int (nat (52 - expo ?x))" by simp
  have u: "(2 :: rat) powi (expo ?x - 52) = 1 / 2 ^ nat (52 - expo ?x)"
    by (subst e) (simp only: power_int_minus power_int_of_nat divide_inverse mult_1)
  have "?x / 2 powi (expo ?x - 52) = of_int (int n * 2 ^ nat (52 - expo ?x))" unfolding u by simp
  then have "round_pos ?x = of_int (int n * 2 ^ nat (52 - expo ?x)) * (1 / 2 ^ nat (52 - expo ?x))"
    unfolding round_pos_def Let_def by (simp only: rne_int u)
  also have "\<dots> = ?x" by simp
  finally show ?thesis using False by (simp add: fl_def)
qed simp

lemma fl_le_nat: "0 \<le> x \<Longrightarrow> x \<le> of_nat n \<Longrightarrow> n < 2 ^ 53 \<Longrightarrow> fl x \<le> of_nat n"
  using fl_mono [of x "of_nat n"] fl_nat [of n] by simp

text \<open>Rounding error upwards: at most half a unit in the last place, so \<open>2 powi -53\<close> of the value, and at most a half below
  \<open>2 ^ 53\<close>.\<close>

lemma rne_half: "of_int (rne y) \<le> y + 1 / 2"
proof -
  define q where "q = \<lfloor>y\<rfloor>"
  have "of_int q \<le> y" by (simp add: q_def)
  then show ?thesis by (simp add: rne_def Let_def q_def [symmetric])
qed

lemma round_pos_half:
  assumes "0 < x"
  shows "round_pos x \<le> x + 2 powi (expo x - 53)"
proof -
  let ?u = "2 powi (expo x - 52) :: rat"
  have "of_int (rne (x / ?u)) * ?u \<le> (x / ?u + 1 / 2) * ?u"
    by (intro mult_right_mono rne_half) simp
  also have "\<dots> = x + ?u / 2" by (simp add: algebra_simps)
  also have "?u / 2 = 2 powi (expo x - 53)"
    using power_int_diff [of "2 :: rat" "expo x - 52" 1] by simp
  finally show ?thesis by (simp add: round_pos_def Let_def)
qed

lemma fl_le_scaled: "0 \<le> x \<Longrightarrow> fl x \<le> x * (1 + 1 / 2 ^ 53)"
proof (cases "x = 0")
  case False
  assume "0 \<le> x"
  with False have x: "0 < x" by simp
  have "(2 :: rat) powi (expo x - 53) = 2 powi (expo x) / 2 ^ 53" by (simp add: power_int_diff)
  also have "\<dots> \<le> x / 2 ^ 53" using expo_bounds(1) [OF x] by (intro divide_right_mono) simp_all
  finally show ?thesis using round_pos_half [OF x] x by (simp add: fl_def algebra_simps)
qed simp

lemma fl_le_half:
  assumes "0 \<le> x" "x < 2 ^ 53"
  shows "fl x \<le> x + 1 / 2"
proof (cases "x = 0")
  case False
  with assms have x: "0 < x" by simp
  have "(2 :: rat) powi (expo x) < 2 powi 53"
    using expo_bounds(1) [OF x] assms(2) by (simp add: order_le_less_trans)
  then have "expo x < 53" using power_int_mono2 [of 53 "expo x"] by linarith
  then have "(2 :: rat) powi (expo x - 53) \<le> 2 powi (-1)" by (intro power_int_mono2) simp
  with round_pos_half [OF x] x show ?thesis by (simp add: fl_def)
qed simp

lemma fl_big:
  assumes "2 ^ 53 \<le> x"
  shows "2 ^ 53 \<le> fl x"
proof -
  have x: "0 < x" using assms by (rule less_le_trans [rotated]) simp
  have "\<not> expo x + 1 \<le> 53"
  proof
    assume "expo x + 1 \<le> 53"
    then have "(2 :: rat) powi (expo x + 1) \<le> 2 powi 53" by (rule power_int_mono2)
    with expo_bounds(2) [OF x] assms show False by simp
  qed
  then have "(2 :: rat) powi 53 \<le> 2 powi (expo x)" by (intro power_int_mono2) simp
  with round_pos_bounds(1) [OF x] x show ?thesis by (simp add: fl_def)
qed

end
