(* ===== verification/Scheduler.thy ===== *)
theory Scheduler
  imports Control_Frames Float64 "HOL-Library.Char_ord" "HOL-Library.List_Lexorder" "HOL-Library.Product_Lexorder"
    "HOL-Library.Signed_Division"
begin

text \<open>
  The scheduler half of \<^verbatim>\<open>pkg/wstransport/multipath.go\<close> and \<^verbatim>\<open>multipath_options.go\<close>: candidate
  paths and their health, the sticky selection of a primary path, the cache that suppresses duplicated
  WireGuard packets, and the token bucket that bounds duplication. The clock and the order of range
  loops are arguments; \<open>float64\<close> values are rationals rounded as in \<open>Float64\<close>.
\<close>

section \<open>Transport names\<close>

definition PathWSS :: string where "PathWSS = ''wss''"
definition PathUDPRelay :: string where "PathUDPRelay = ''udp-relay''"
definition PathDirect :: string where "PathDirect = ''direct-udp''"

lemmas path_names = PathWSS_def PathUDPRelay_def PathDirect_def

definition NormalizeTransportName :: "string \<Rightarrow> string" where
  "NormalizeTransportName s =
     (if s \<in> set [''direct'', ''udp'', ''direct-udp''] then PathDirect
      else if s \<in> set [''relay'', ''udprelay'', ''udp-relay''] then PathUDPRelay
      else if s \<in> set [''ws'', ''wss'', ''websocket''] then PathWSS
      else if s \<in> set [''auto'', ''none'', ''''] then ''''
      else s)"

definition ValidateTransportName :: "string \<Rightarrow> string option" where
  "ValidateTransportName s =
     (let normalized = NormalizeTransportName s
      in if normalized = '''' \<or> normalized = PathDirect \<or> normalized = PathUDPRelay \<or> normalized = PathWSS
         then Some normalized else None)"

section \<open>Candidates\<close>

definition probeWindow :: nat where "probeWindow = 20"

record candidate =
  cd_Name :: string
  cd_Kind :: string
  cd_Healthy :: bool
  cd_RTT :: duration
  cd_Loss :: rat
  cd_LastSuccess :: "gotime option" \<comment> \<open>None is the zero time\<close>
  cd_DatagramMTU :: "16 word"
  cd_probes :: "bool list"
  cd_probeNext :: nat
  cd_used :: nat
  cd_misses :: int
  cd_duplicatedBytes :: "64 word"
  cd_duplicationSuppressedBytes :: "64 word"
  cd_controlSending :: bool

definition newCandidate :: "string \<Rightarrow> string \<Rightarrow> candidate" where
  "newCandidate name kind =
     \<lparr>cd_Name = name, cd_Kind = kind, cd_Healthy = False, cd_RTT = 0, cd_Loss = 0, cd_LastSuccess = None,
      cd_DatagramMTU = 1420, cd_probes = replicate probeWindow False, cd_probeNext = 0, cd_used = 0, cd_misses = 0,
      cd_duplicatedBytes = 0, cd_duplicationSuppressedBytes = 0, cd_controlSending = False\<rparr>"

definition cand_loss :: "candidate \<Rightarrow> rat" where
  "cand_loss p =
     (if cd_used p = 0 then 1
      else let good = length (filter id (take (cd_used p) (cd_probes p)))
           in fl (of_int (int (cd_used p) - int good) / of_nat (cd_used p)))"

text \<open>The conversion of a \<open>float64\<close> to an integer drops the fraction.\<close>

definition go_trunc :: "rat \<Rightarrow> int" where
  "go_trunc x = (if 0 \<le> x then \<lfloor>x\<rfloor> else \<lceil>x\<rceil>)"

definition score :: "candidate \<Rightarrow> duration" where
  "score p = cd_RTT p + go_trunc (fl (cd_Loss p * 10000000000))"

section \<open>The scheduler\<close>

record scheduler =
  sc_candidates :: "(string, candidate) fmap"
  sc_forced :: "string option"
  sc_primary :: "string option"

definition NewScheduler :: scheduler where
  "NewScheduler = \<lparr>sc_candidates = fmempty, sc_forced = None, sc_primary = None\<rparr>"

definition on_candidate :: "string \<Rightarrow> (candidate \<Rightarrow> candidate) \<Rightarrow> scheduler \<Rightarrow> scheduler" where
  "on_candidate name f s =
     (case fmlookup (sc_candidates s) name of
        None \<Rightarrow> s | Some p \<Rightarrow> s\<lparr>sc_candidates := fmupd name (f p) (sc_candidates s)\<rparr>)"

definition sched_Register :: "string \<Rightarrow> string \<Rightarrow> scheduler \<Rightarrow> scheduler" where
  "sched_Register name kind s =
     (case fmlookup (sc_candidates s) name of
        Some p \<Rightarrow> s\<lparr>sc_candidates := fmupd name (p\<lparr>cd_Kind := kind\<rparr>) (sc_candidates s)\<rparr>
      | None \<Rightarrow> s\<lparr>sc_candidates := fmupd name (newCandidate name kind) (sc_candidates s)\<rparr>)"

definition requiresActiveProbe :: "string \<Rightarrow> scheduler \<Rightarrow> bool" where
  "requiresActiveProbe name s =
     (case fmlookup (sc_candidates s) name of None \<Rightarrow> False | Some p \<Rightarrow> cd_Kind p \<noteq> PathWSS)"

definition ActivateCarrier :: "string \<Rightarrow> gotime \<Rightarrow> scheduler \<Rightarrow> scheduler" where
  "ActivateCarrier name now s =
     (let s1 = on_candidate name (\<lambda>p. p\<lparr>cd_Healthy := True, cd_LastSuccess := Some now, cd_misses := 0\<rparr>) s
      in if fmlookup (sc_candidates s) name \<noteq> None \<and> sc_primary s1 = None
         then s1\<lparr>sc_primary := Some name\<rparr> else s1)"

definition record_probe :: "bool \<Rightarrow> candidate \<Rightarrow> candidate" where
  "record_probe ok p =
     p\<lparr>cd_probes := (cd_probes p)[cd_probeNext p := ok],
       cd_probeNext := (cd_probeNext p + 1) mod length (cd_probes p),
       cd_used := (if cd_used p < length (cd_probes p) then cd_used p + 1 else cd_used p)\<rparr>"

definition probe_candidate :: "duration \<Rightarrow> bool \<Rightarrow> gotime \<Rightarrow> candidate \<Rightarrow> candidate" where
  "probe_candidate rtt ok now p =
     (let p1 = record_probe ok p
      in if \<not> ok then
           let p2 = p1\<lparr>cd_misses := cd_misses p1 + 1\<rparr>;
               p3 = (if cd_misses p2 \<ge> 3 then p2\<lparr>cd_Healthy := False\<rparr> else p2)
           in p3\<lparr>cd_Loss := cand_loss p3\<rparr>
         else
           let p2 = p1\<lparr>cd_misses := 0, cd_Healthy := True, cd_LastSuccess := Some now\<rparr>;
               p3 = (if rtt > 0 then
                       (if cd_RTT p2 = 0 then p2\<lparr>cd_RTT := rtt\<rparr>
                        else p2\<lparr>cd_RTT := (cd_RTT p2 * 7 + rtt) sdiv 8\<rparr>) else p2)
           in p3\<lparr>cd_Loss := cand_loss p3\<rparr>)"

definition ProbeResult :: "string \<Rightarrow> duration \<Rightarrow> bool \<Rightarrow> gotime \<Rightarrow> scheduler \<Rightarrow> scheduler" where
  "ProbeResult name rtt ok now s = on_candidate name (probe_candidate rtt ok now) s"

definition CarrierFailure :: "string \<Rightarrow> scheduler \<Rightarrow> scheduler" where
  "CarrierFailure name s = on_candidate name (\<lambda>p. p\<lparr>cd_Healthy := False, cd_misses := 3\<rparr>) s"

definition ReserveControlSend :: "string \<Rightarrow> scheduler \<Rightarrow> bool \<times> scheduler" where
  "ReserveControlSend name s =
     (case fmlookup (sc_candidates s) name of
        None \<Rightarrow> (False, s)
      | Some p \<Rightarrow> if cd_controlSending p then (False, s)
                  else (True, on_candidate name (\<lambda>p. p\<lparr>cd_controlSending := True\<rparr>) s))"

definition FinishControlSend :: "string \<Rightarrow> scheduler \<Rightarrow> scheduler" where
  "FinishControlSend name s = on_candidate name (\<lambda>p. p\<lparr>cd_controlSending := False\<rparr>) s"

definition RecordDuplication :: "string \<Rightarrow> nat \<Rightarrow> bool \<Rightarrow> scheduler \<Rightarrow> scheduler" where
  "RecordDuplication name n allowed s =
     on_candidate name (\<lambda>p. if allowed then p\<lparr>cd_duplicatedBytes := cd_duplicatedBytes p + of_nat n\<rparr>
       else p\<lparr>cd_duplicationSuppressedBytes := cd_duplicationSuppressedBytes p + of_nat n\<rparr>) s"

definition ReportDatagramMTU :: "string \<Rightarrow> 16 word \<Rightarrow> scheduler \<Rightarrow> scheduler" where
  "ReportDatagramMTU name mtu s =
     (if mtu < minPathMTUProbe \<or> mtu > of_nat MaxRelayDatagram then s
      else on_candidate name (\<lambda>p. if mtu > cd_DatagramMTU p then p\<lparr>cd_DatagramMTU := mtu\<rparr> else p) s)"

definition SetForced :: "string \<Rightarrow> scheduler \<Rightarrow> scheduler" where
  "SetForced name s =
     (let norm = NormalizeTransportName name in s\<lparr>sc_forced := (if norm = '''' then None else Some norm)\<rparr>)"

definition Forced :: "scheduler \<Rightarrow> string" where
  "Forced s = (case sc_forced s of None \<Rightarrow> '''' | Some n \<Rightarrow> n)"

section \<open>Selection\<close>

definition findCandidate :: "candidate list \<Rightarrow> string \<Rightarrow> candidate option" where
  "findCandidate paths name = (if name = '''' then None else find (\<lambda>c. cd_Name c = name) paths)"

definition sort_paths :: "candidate list \<Rightarrow> candidate list" where
  "sort_paths = sort_key (\<lambda>p. (score p, cd_Name p))"

definition primary_name :: "scheduler \<Rightarrow> string" where
  "primary_name s = (case sc_primary s of None \<Rightarrow> '''' | Some n \<Rightarrow> n)"

text \<open>
  \<open>selectLocked\<close>: the primary, the alternate and whether to duplicate; \<open>None\<close> would be the nil
  dereference of a missing alternate. \<open>ks\<close> is the order of the range loop over the candidates.
\<close>

definition selectLocked :: "string list \<Rightarrow> scheduler \<Rightarrow> (string \<times> string \<times> bool) option \<times> scheduler" where
  "selectLocked ks s =
     (let registered = List.map_filter (fmlookup (sc_candidates s)) ks;
          paths = sort_paths (filter cd_Healthy registered)
      in if paths = [] then
           (if registered = [] then (Some ('''', '''', False), s\<lparr>sc_primary := None\<rparr>)
            else case (case sc_primary s of None \<Rightarrow> None
                       | Some cur \<Rightarrow> find (\<lambda>p. cd_Name p = cur) registered) of
                   Some p \<Rightarrow> (Some (cd_Name p, '''', False), s)
                 | None \<Rightarrow>
                     (case (if Forced s = '''' then None
                            else find (\<lambda>p. cd_Name p = Forced s \<and> cd_LastSuccess p \<noteq> None) registered) of
                        Some p \<Rightarrow> (Some (cd_Name p, '''', False), s)
                      | None \<Rightarrow> (Some ('''', '''', False), s)))
         else
           let chosen = (case findCandidate paths (Forced s) of
                           Some c \<Rightarrow> c
                         | None \<Rightarrow> (case findCandidate paths (primary_name s) of
                                     Some c \<Rightarrow> c | None \<Rightarrow> hd paths));
               s1 = (if cd_Name chosen \<noteq> primary_name s then s\<lparr>sc_primary := Some (cd_Name chosen)\<rparr> else s);
               primary = cd_Name chosen
           in if length paths = 1 then (Some (primary, '''', False), s1)
              else if cd_misses chosen > 0 then
                (case find (\<lambda>c. cd_Name c \<noteq> primary) paths of
                   None \<Rightarrow> (None, s1)
                 | Some alt \<Rightarrow> (Some (primary, cd_Name alt, True), s1))
              else (Some (primary, '''', False), s1))"

record pathStatus =
  st_Candidate :: candidate
  st_Primary :: bool
  st_Forced :: bool

definition sched_Status :: "string list \<Rightarrow> scheduler \<Rightarrow> pathStatus list option \<times> scheduler" where
  "sched_Status ks s =
     (case selectLocked ks s of
        (None, s1) \<Rightarrow> (None, s1)
      | (Some (primary, _, _), s1) \<Rightarrow>
          (Some (sort_key (\<lambda>v. cd_Name (st_Candidate v))
             (map (\<lambda>p. \<lparr>st_Candidate = p, st_Primary = (cd_Name p = primary), st_Forced = (cd_Name p = Forced s1)\<rparr>)
               (List.map_filter (fmlookup (sc_candidates s1)) ks))), s1))"

section \<open>The duplicate cache\<close>

record duplicateCache =
  dc_entries :: "(bytes, gotime) fmap"
  dc_ttl :: duration
  dc_limit :: int

definition NewDuplicateCache :: "int \<Rightarrow> duration \<Rightarrow> duplicateCache" where
  "NewDuplicateCache limit ttl =
     \<lparr>dc_entries = fmempty, dc_ttl = (if ttl \<le> 0 then 10 * second else ttl),
      dc_limit = (if limit \<le> 0 then 4096 else limit)\<rparr>"

definition transportKey :: "bytes \<Rightarrow> bytes option" where
  "transportKey b = (if length b < 16 \<or> le32 b \<noteq> 4 then None else Some (take 12 (drop 4 b)))"

text \<open>\<open>victim\<close> is the key the range loop of the eviction meets first.\<close>

definition dup_Seen :: "bytes \<Rightarrow> gotime \<Rightarrow> bytes \<Rightarrow> duplicateCache \<Rightarrow> bool \<times> duplicateCache" where
  "dup_Seen b now victim c =
     (case transportKey b of
        None \<Rightarrow> (False, c)
      | Some k \<Rightarrow>
          (case fmlookup (dc_entries c) k of
             Some expiry \<Rightarrow>
               if expiry > now then (True, c)
               else let e1 = fmdrop k (dc_entries c);
                        e2 = (if int (gm_len e1) \<ge> dc_limit c then fmdrop victim e1 else e1)
                    in (False, c\<lparr>dc_entries := fmupd k (now + dc_ttl c) e2\<rparr>)
           | None \<Rightarrow>
               let e2 = (if int (gm_len (dc_entries c)) \<ge> dc_limit c then fmdrop victim (dc_entries c) else dc_entries c)
               in (False, c\<lparr>dc_entries := fmupd k (now + dc_ttl c) e2\<rparr>)))"

section \<open>The duplication budget\<close>

definition defaultDuplicateRateBytesPerSec :: int where "defaultDuplicateRateBytesPerSec = 262144"

record byteRateLimiter =
  bl_tokens :: rat
  bl_maxTokens :: rat
  bl_refillRate :: rat
  bl_last :: gotime

definition resolveDuplicateRate :: "int \<Rightarrow> int" where
  "resolveDuplicateRate r = (if r \<le> 0 then defaultDuplicateRateBytesPerSec else r)"

definition newByteRateLimiter :: "int \<Rightarrow> gotime \<Rightarrow> byteRateLimiter" where
  "newByteRateLimiter bytesPerSecond now =
     (let rate = fl (of_int (if bytesPerSecond \<le> 0 then defaultDuplicateRateBytesPerSec else bytesPerSecond))
      in \<lparr>bl_tokens = rate, bl_maxTokens = rate, bl_refillRate = rate, bl_last = now\<rparr>)"

text \<open>\<open>Duration.Seconds\<close>.\<close>

definition seconds_of :: "duration \<Rightarrow> rat" where
  "seconds_of d = fl (fl (of_int (d sdiv second)) + fl (fl (of_int (d smod second)) / 1000000000))"

definition byte_Allow :: "gotime \<Rightarrow> int \<Rightarrow> byteRateLimiter \<Rightarrow> bool \<times> byteRateLimiter" where
  "byte_Allow now n l =
     (let t1 = fl (bl_tokens l + fl (seconds_of (now - bl_last l) * bl_refillRate l));
          t2 = (if t1 > bl_maxTokens l then bl_maxTokens l else t1);
          l1 = l\<lparr>bl_tokens := t2, bl_last := now\<rparr>
      in if t2 < fl (of_int n) then (False, l1)
         else (True, l1\<lparr>bl_tokens := fl (t2 - fl (of_int n))\<rparr>))"

section \<open>Steps and the invariant\<close>

datatype sched_event =
    SRegister string string
  | SActivate string gotime
  | SProbe string duration bool gotime
  | SFailure string
  | SReserve string
  | SFinish string
  | SDuplicated string nat bool
  | SMTU string "16 word"
  | SForce string
  | SSelect "(string \<times> string \<times> bool) option"

inductive sched_step :: "scheduler \<Rightarrow> sched_event \<Rightarrow> scheduler \<Rightarrow> bool" where
  "name \<noteq> '''' \<Longrightarrow> sched_step s (SRegister name kind) (sched_Register name kind s)"
| "sched_step s (SActivate name now) (ActivateCarrier name now s)"
| "sched_step s (SProbe name rtt ok now) (ProbeResult name rtt ok now s)"
| "sched_step s (SFailure name) (CarrierFailure name s)"
| "sched_step s (SReserve name) (snd (ReserveControlSend name s))"
| "sched_step s (SFinish name) (FinishControlSend name s)"
| "sched_step s (SDuplicated name n allowed) (RecordDuplication name n allowed s)"
| "sched_step s (SMTU name mtu) (ReportDatagramMTU name mtu s)"
| "sched_step s (SForce name) (SetForced name s)"
| "range_order ks (sc_candidates s) \<Longrightarrow> selectLocked ks s = (res, s') \<Longrightarrow> sched_step s (SSelect res) s'"

inductive_cases sched_stepE: "sched_step s e s'"

definition cand_inv :: "string \<Rightarrow> candidate \<Rightarrow> bool" where
  "cand_inv k p \<longleftrightarrow> cd_Name p = k \<and> k \<noteq> '''' \<and> length (cd_probes p) = probeWindow \<and>
     cd_probeNext p < probeWindow \<and> cd_used p \<le> probeWindow \<and> 0 \<le> cd_misses p \<and>
     (cd_Healthy p \<longrightarrow> cd_misses p < 3 \<and> cd_LastSuccess p \<noteq> None) \<and>
     0 \<le> cd_RTT p \<and> 0 \<le> cd_Loss p \<and> cd_Loss p \<le> 1 \<and> 1420 \<le> cd_DatagramMTU p \<and> cd_DatagramMTU p \<le> 1500"

definition sched_inv :: "scheduler \<Rightarrow> bool" where
  "sched_inv s \<longleftrightarrow> (\<forall>k p. fmlookup (sc_candidates s) k = Some p \<longrightarrow> cand_inv k p) \<and>
     sc_primary s \<noteq> Some '''' \<and> sc_forced s \<noteq> Some ''''"

lemma sched_invD:
  assumes "sched_inv s"
  shows "fmlookup (sc_candidates s) k = Some p \<Longrightarrow> cand_inv k p" "sc_primary s \<noteq> Some ''''" "sc_forced s \<noteq> Some ''''"
  using assms unfolding sched_inv_def by blast+

lemma loss_bounds: "0 \<le> cand_loss p \<and> cand_loss p \<le> 1"
proof (cases "cd_used p = 0")
  case False
  define good where "good = length (filter id (take (cd_used p) (cd_probes p)))"
  have g: "good \<le> cd_used p" unfolding good_def
    by (rule order_trans [OF length_filter_le]) simp
  let ?x = "of_int (int (cd_used p) - int good) / of_nat (cd_used p) :: rat"
  have "0 \<le> ?x" "?x \<le> of_nat 1" using g False by (simp_all add: divide_le_eq of_nat_diff)
  then have "0 \<le> fl ?x" "fl ?x \<le> of_nat 1" using fl_nonneg fl_le_nat [of ?x 1] by simp_all
  with False show ?thesis by (simp add: cand_loss_def good_def Let_def)
qed (simp add: cand_loss_def)

lemma on_candidate_inv:
  assumes "sched_inv s" "\<And>p. fmlookup (sc_candidates s) name = Some p \<Longrightarrow> cand_inv name p \<Longrightarrow> cand_inv name (f p)"
  shows "sched_inv (on_candidate name f s)"
  using assms unfolding sched_inv_def on_candidate_def by (auto split: option.splits if_splits)

lemma ewma_nonneg: "0 \<le> a \<Longrightarrow> 0 < (r :: int) \<Longrightarrow> 0 \<le> (a * 7 + r) sdiv 8"
  by (simp add: signed_divide_int_def)

lemma probe_candidate_inv: "cand_inv k p \<Longrightarrow> cand_inv k (probe_candidate rtt ok now p)"
  using loss_bounds
  by (auto simp: cand_inv_def probe_candidate_def record_probe_def Let_def probeWindow_def ewma_nonneg)

lemma new_candidate_inv: "name \<noteq> '''' \<Longrightarrow> cand_inv name (newCandidate name kind)"
  by (simp add: cand_inv_def newCandidate_def probeWindow_def)

lemma register_inv: "sched_inv s \<Longrightarrow> name \<noteq> '''' \<Longrightarrow> sched_inv (sched_Register name kind s)"
  unfolding sched_inv_def sched_Register_def
  by (auto simp: new_candidate_inv split: option.splits if_splits) (auto simp: cand_inv_def)

lemma activate_inv:
  assumes "sched_inv s"
  shows "sched_inv (ActivateCarrier name now s)"
proof -
  let ?s = "on_candidate name (\<lambda>p. p\<lparr>cd_Healthy := True, cd_LastSuccess := Some now, cd_misses := 0\<rparr>) s"
  have i: "sched_inv ?s" by (rule on_candidate_inv [OF assms]) (simp add: cand_inv_def)
  have "fmlookup (sc_candidates s) name \<noteq> None \<Longrightarrow> name \<noteq> ''''"
    using sched_invD(1) [OF assms] by (auto simp: cand_inv_def)
  with i show ?thesis by (auto simp: ActivateCarrier_def Let_def sched_inv_def)
qed

lemma mtu_inv: "sched_inv s \<Longrightarrow> sched_inv (ReportDatagramMTU name mtu s)"
  unfolding ReportDatagramMTU_def
  by (auto intro!: on_candidate_inv simp: cand_inv_def MaxRelayDatagram_def)

lemma reserve_inv: "sched_inv s \<Longrightarrow> sched_inv (snd (ReserveControlSend name s))"
  unfolding ReserveControlSend_def
  by (auto intro!: on_candidate_inv simp: cand_inv_def split: option.splits)

subsection \<open>Selection\<close>

text \<open>The healthy candidates, and the sorted list the selection works on.\<close>

definition healthy :: "scheduler \<Rightarrow> string \<Rightarrow> bool" where
  "healthy s n = (case fmlookup (sc_candidates s) n of None \<Rightarrow> False | Some p \<Rightarrow> cd_Healthy p)"

definition registered_of :: "string list \<Rightarrow> scheduler \<Rightarrow> candidate list" where
  "registered_of ks s = List.map_filter (fmlookup (sc_candidates s)) ks"

definition paths_of :: "string list \<Rightarrow> scheduler \<Rightarrow> candidate list" where
  "paths_of ks s = sort_paths (filter cd_Healthy (registered_of ks s))"

lemma registered_set:
  "range_order ks (sc_candidates s) \<Longrightarrow> c \<in> set (registered_of ks s) \<longleftrightarrow> (\<exists>n. fmlookup (sc_candidates s) n = Some c)"
  unfolding registered_of_def range_order_iff List.map_filter_def by (force simp: image_iff)

lemma paths_set:
  "range_order ks (sc_candidates s) \<Longrightarrow>
   c \<in> set (paths_of ks s) \<longleftrightarrow> cd_Healthy c \<and> (\<exists>n. fmlookup (sc_candidates s) n = Some c)"
  using registered_set [of ks s c] by (auto simp: paths_of_def sort_paths_def)

lemma paths_sorted: "sorted (map (\<lambda>p. (score p, cd_Name p)) (paths_of ks s))"
  by (simp add: paths_of_def sort_paths_def)

lemma find_named:
  assumes "sched_inv s" "range_order ks (sc_candidates s)"
  shows "findCandidate (paths_of ks s) n = Some c \<longleftrightarrow> fmlookup (sc_candidates s) n = Some c \<and> cd_Healthy c"
proof -
  have nm: "fmlookup (sc_candidates s) m = Some d \<Longrightarrow> cd_Name d = m \<and> m \<noteq> ''''" for m d
    using sched_invD(1) [OF assms(1)] by (auto simp: cand_inv_def)
  have uniq: "d \<in> set (paths_of ks s) \<Longrightarrow> cd_Name d = n \<Longrightarrow> fmlookup (sc_candidates s) n = Some d \<and> cd_Healthy d" for d
    using paths_set [OF assms(2)] nm by blast
  show ?thesis
  proof
    assume "findCandidate (paths_of ks s) n = Some c"
    then have "c \<in> set (paths_of ks s)" "cd_Name c = n" by (auto simp: findCandidate_def find_Some_iff split: if_splits)
    then show "fmlookup (sc_candidates s) n = Some c \<and> cd_Healthy c" by (rule uniq)
  next
    assume c: "fmlookup (sc_candidates s) n = Some c \<and> cd_Healthy c"
    then have m: "c \<in> set (paths_of ks s)" "cd_Name c = n" "n \<noteq> ''''" using paths_set [OF assms(2)] nm by blast+
    then obtain d where d: "find (\<lambda>c. cd_Name c = n) (paths_of ks s) = Some d"
      by (cases "find (\<lambda>c. cd_Name c = n) (paths_of ks s)") (auto simp: find_None_iff)
    then have "d \<in> set (paths_of ks s)" "cd_Name d = n" by (auto simp: find_Some_iff)
    from uniq [OF this] c d m(3) show "findCandidate (paths_of ks s) n = Some c" by (simp add: findCandidate_def)
  qed
qed

lemma find_healthy:
  assumes "sched_inv s" "range_order ks (sc_candidates s)"
  shows "findCandidate (paths_of ks s) n = (if healthy s n then fmlookup (sc_candidates s) n else None)"
proof (cases "findCandidate (paths_of ks s) n")
  case None
  then have "\<not> healthy s n" using find_named [OF assms, of n] by (auto simp: healthy_def split: option.splits)
  with None show ?thesis by simp
next
  case (Some c)
  with find_named [OF assms, of n c] show ?thesis by (simp add: healthy_def)
qed

lemma find_sorted_least:
  assumes "find P xs = Some c" "sorted (map f xs)" "d \<in> set xs" "P d"
  shows "f c \<le> (f d :: 'b :: linorder)"
  using assms by (induction xs) (auto split: if_splits)

text \<open>The candidate a selection commits to when some candidate is healthy.\<close>

definition choice :: "string list \<Rightarrow> scheduler \<Rightarrow> string" where
  "choice ks s = (if healthy s (Forced s) then Forced s
     else if healthy s (primary_name s) then primary_name s else cd_Name (hd (paths_of ks s)))"

lemma no_empty_name: "sched_inv s \<Longrightarrow> fmlookup (sc_candidates s) '''' = None"
  using sched_invD(1) [of s "''''"] by (cases "fmlookup (sc_candidates s) ''''") (auto simp: cand_inv_def)

lemma primary_name_eq: "sched_inv s \<Longrightarrow> n \<noteq> '''' \<Longrightarrow> primary_name s = n \<longleftrightarrow> sc_primary s = Some n"
  by (auto simp: primary_name_def split: option.splits)

lemma paths_empty:
  assumes "range_order ks (sc_candidates s)"
  shows "paths_of ks s = [] \<longleftrightarrow> (\<forall>n. \<not> healthy s n)"
  using paths_set [OF assms] by (auto simp: healthy_def split: option.splits) (metis list.set_intros(1) neq_Nil_conv)

lemma choice_candidate:
  assumes "sched_inv s" "range_order ks (sc_candidates s)" "paths_of ks s \<noteq> []"
  shows "\<exists>c. (case findCandidate (paths_of ks s) (Forced s) of Some c \<Rightarrow> c
               | None \<Rightarrow> (case findCandidate (paths_of ks s) (primary_name s) of Some c \<Rightarrow> c | None \<Rightarrow> hd (paths_of ks s))) = c
           \<and> cd_Name c = choice ks s \<and> fmlookup (sc_candidates s) (choice ks s) = Some c \<and> cd_Healthy c"
proof -
  have hd: "hd (paths_of ks s) \<in> set (paths_of ks s)" using assms(3) by simp
  have nm: "fmlookup (sc_candidates s) m = Some d \<Longrightarrow> cd_Name d = m" for m d
    using sched_invD(1) [OF assms(1)] by (auto simp: cand_inv_def)
  from hd paths_set [OF assms(2)] nm
  have h: "cd_Healthy (hd (paths_of ks s))" "fmlookup (sc_candidates s) (cd_Name (hd (paths_of ks s))) = Some (hd (paths_of ks s))"
    by fastforce+
  have ex: "healthy s n \<Longrightarrow> \<exists>c. fmlookup (sc_candidates s) n = Some c \<and> cd_Healthy c \<and> cd_Name c = n" for n
    using nm by (fastforce simp: healthy_def split: option.splits)
  show ?thesis
  proof (cases "healthy s (Forced s)")
    case True
    with ex [OF True] show ?thesis by (auto simp: choice_def find_healthy [OF assms(1,2)])
  next
    case False
    show ?thesis
    proof (cases "healthy s (primary_name s)")
      case True
      with False ex [OF True] show ?thesis by (auto simp: choice_def find_healthy [OF assms(1,2)])
    next
      case nh: False
      with False h show ?thesis by (simp add: choice_def find_healthy [OF assms(1,2)])
    qed
  qed
qed

lemma select_healthy:
  assumes inv: "sched_inv s" and ks: "range_order ks (sc_candidates s)" and ne: "\<exists>n. healthy s n"
    and sel: "selectLocked ks s = (res, s')"
  shows "\<exists>c. fmlookup (sc_candidates s) (choice ks s) = Some c \<and> cd_Healthy c \<and> cd_Name c = choice ks s \<and>
    s' = s\<lparr>sc_primary := Some (choice ks s)\<rparr> \<and>
    res = (if length (paths_of ks s) = 1 \<or> cd_misses c \<le> 0 then Some (choice ks s, '''', False)
           else map_option (\<lambda>alt. (choice ks s, cd_Name alt, True)) (find (\<lambda>d. cd_Name d \<noteq> choice ks s) (paths_of ks s)))"
proof -
  have pne: "paths_of ks s \<noteq> []" using paths_empty [OF ks] ne by blast
  from choice_candidate [OF inv ks pne] obtain c where
    c: "(case findCandidate (paths_of ks s) (Forced s) of Some c \<Rightarrow> c
         | None \<Rightarrow> (case findCandidate (paths_of ks s) (primary_name s) of Some c \<Rightarrow> c | None \<Rightarrow> hd (paths_of ks s))) = c"
    "cd_Name c = choice ks s" "fmlookup (sc_candidates s) (choice ks s) = Some c" "cd_Healthy c" by blast
  have nz: "choice ks s \<noteq> ''''" using c(3) no_empty_name [OF inv] by force
  have "s\<lparr>sc_primary := Some (choice ks s)\<rparr> = s" if "primary_name s = choice ks s"
    using that primary_name_eq [OF inv nz] by simp
  then have st: "(if choice ks s \<noteq> primary_name s then s\<lparr>sc_primary := Some (choice ks s)\<rparr> else s) = s\<lparr>sc_primary := Some (choice ks s)\<rparr>"
    by auto
  have body: "(res, s') =
     (if length (paths_of ks s) = 1 then (Some (choice ks s, '''', False), s\<lparr>sc_primary := Some (choice ks s)\<rparr>)
      else if cd_misses c > 0 then
        (case find (\<lambda>d. cd_Name d \<noteq> choice ks s) (paths_of ks s) of
           None \<Rightarrow> (None, s\<lparr>sc_primary := Some (choice ks s)\<rparr>)
         | Some alt \<Rightarrow> (Some (choice ks s, cd_Name alt, True), s\<lparr>sc_primary := Some (choice ks s)\<rparr>))
      else (Some (choice ks s, '''', False), s\<lparr>sc_primary := Some (choice ks s)\<rparr>))"
    using sel unfolding selectLocked_def registered_of_def [symmetric] Let_def
    unfolding paths_of_def [symmetric] c(1) c(2) st if_not_P [OF pne] by (rule sym)
  have "s' = s\<lparr>sc_primary := Some (choice ks s)\<rparr> \<and>
    res = (if length (paths_of ks s) = 1 \<or> cd_misses c \<le> 0 then Some (choice ks s, '''', False)
           else map_option (\<lambda>alt. (choice ks s, cd_Name alt, True)) (find (\<lambda>d. cd_Name d \<noteq> choice ks s) (paths_of ks s)))"
    using body by (cases "find (\<lambda>d. cd_Name d \<noteq> choice ks s) (paths_of ks s)") (simp_all split: if_splits)
  with c show ?thesis by blast
qed

lemma select_degraded:
  assumes inv: "sched_inv s" and ks: "range_order ks (sc_candidates s)" and ne: "\<forall>n. \<not> healthy s n"
    and sel: "selectLocked ks s = (res, s')"
  shows "\<exists>pr. res = Some (pr, '''', False) \<and>
    (if sc_candidates s = fmempty then pr = '''' \<and> s' = s\<lparr>sc_primary := None\<rparr>
     else s' = s \<and>
       pr = (if fmlookup (sc_candidates s) (primary_name s) \<noteq> None then primary_name s
             else case fmlookup (sc_candidates s) (Forced s) of
                    None \<Rightarrow> '''' | Some p \<Rightarrow> if cd_LastSuccess p = None then '''' else Forced s))"
proof -
  have emp: "registered_of ks s = [] \<longleftrightarrow> sc_candidates s = fmempty"
  proof
    assume "registered_of ks s = []"
    then have "fmlookup (sc_candidates s) n = None" for n using registered_set [OF ks] by (cases "fmlookup (sc_candidates s) n") auto
    then show "sc_candidates s = fmempty" by (auto intro: fmap_ext)
  next
    assume "sc_candidates s = fmempty" then show "registered_of ks s = []" by (simp add: registered_of_def List.map_filter_def)
  qed
  have nm: "fmlookup (sc_candidates s) m = Some d \<Longrightarrow> cd_Name d = m" for m d
    using sched_invD(1) [OF inv] by (auto simp: cand_inv_def)
  have f: "find (\<lambda>p. cd_Name p = m \<and> Q p) (registered_of ks s) =
      (case fmlookup (sc_candidates s) m of None \<Rightarrow> None | Some p \<Rightarrow> if Q p then Some p else None)" for m Q
  proof (cases "find (\<lambda>p. cd_Name p = m \<and> Q p) (registered_of ks s)")
    case None
    then show ?thesis using registered_set [OF ks] nm by (auto simp: find_None_iff split: option.splits)
  next
    case (Some p)
    then have "p \<in> set (registered_of ks s)" "cd_Name p = m" "Q p" by (auto simp: find_Some_iff)
    then show ?thesis using registered_set [OF ks] nm Some by fastforce
  qed
  have p: "paths_of ks s = []" using paths_empty [OF ks] ne by blast
  have t: "find (\<lambda>p. cd_Name p = m) (registered_of ks s) = fmlookup (sc_candidates s) m" for m
    using f [of m "\<lambda>_. True"] by (simp split: option.splits)
  have e: "fmlookup (sc_candidates s) '''' = None" by (rule no_empty_name [OF inv])
  have body: "(res, s') = (if sc_candidates s = fmempty then (Some ('''', '''', False), s\<lparr>sc_primary := None\<rparr>)
      else case (case sc_primary s of None \<Rightarrow> None | Some cur \<Rightarrow> fmlookup (sc_candidates s) cur) of
             Some p \<Rightarrow> (Some (cd_Name p, '''', False), s)
           | None \<Rightarrow> (case (if Forced s = '''' then None
                           else case fmlookup (sc_candidates s) (Forced s) of None \<Rightarrow> None
                                | Some p \<Rightarrow> if cd_LastSuccess p \<noteq> None then Some p else None) of
                Some p \<Rightarrow> (Some (cd_Name p, '''', False), s)
              | None \<Rightarrow> (Some ('''', '''', False), s)))"
    using sel unfolding selectLocked_def registered_of_def [symmetric] Let_def
    unfolding paths_of_def [symmetric] p f t emp if_P [OF refl] by (rule sym)
  have "primary_name s = (case sc_primary s of None \<Rightarrow> '''' | Some n \<Rightarrow> n)" by (rule primary_name_def)
  with body e nm show ?thesis
    by (cases "sc_primary s"; cases "fmlookup (sc_candidates s) (primary_name s)";
        cases "fmlookup (sc_candidates s) (Forced s)"; cases "Forced s = ''''") (auto split: if_splits)
qed

lemma select_inv:
  assumes "sched_inv s" "range_order ks (sc_candidates s)" "selectLocked ks s = (res, s')"
  shows "sched_inv s' \<and> sc_candidates s' = sc_candidates s \<and> sc_forced s' = sc_forced s"
proof (cases "\<exists>n. healthy s n")
  case True
  from select_healthy [OF assms(1,2) True assms(3)] no_empty_name [OF assms(1)]
  have "s' = s\<lparr>sc_primary := Some (choice ks s)\<rparr>" "choice ks s \<noteq> ''''" by force+
  with assms(1) show ?thesis by (simp add: sched_inv_def)
next
  case False
  then have "\<forall>n. \<not> healthy s n" by blast
  from select_degraded [OF assms(1,2) this assms(3)] assms(1) show ?thesis
    by (auto simp: sched_inv_def split: if_splits)
qed

text \<open>Every operation keeps the scheduler's invariant.\<close>

lemma sched_step_inv: "sched_inv s \<Longrightarrow> sched_step s e t \<Longrightarrow> sched_inv t"
proof (erule sched_stepE, simp_all only:)
  show "sched_inv s \<Longrightarrow> sched_inv (ProbeResult name rtt ok now s)" for name rtt ok now
    unfolding ProbeResult_def by (rule on_candidate_inv) (auto intro: probe_candidate_inv)
  show "sched_inv s \<Longrightarrow> sched_inv (CarrierFailure name s)" for name
    unfolding CarrierFailure_def by (rule on_candidate_inv) (auto simp: cand_inv_def)
  show "sched_inv s \<Longrightarrow> sched_inv (FinishControlSend name s)" for name
    unfolding FinishControlSend_def by (rule on_candidate_inv) (auto simp: cand_inv_def)
  show "sched_inv s \<Longrightarrow> sched_inv (RecordDuplication name n allowed s)" for name n allowed
    unfolding RecordDuplication_def by (rule on_candidate_inv) (auto simp: cand_inv_def)
  show "sched_inv s \<Longrightarrow> sched_inv (SetForced name s)" for name
    by (auto simp: SetForced_def Let_def sched_inv_def)
  show "sched_inv s \<Longrightarrow> range_order ks (sc_candidates s) \<Longrightarrow> selectLocked ks s = (res, t) \<Longrightarrow> sched_inv t" for ks res
    using select_inv by blast
qed (auto intro: register_inv activate_inv reserve_inv mtu_inv)

text \<open>What the health of a candidate promises: it depends on the registrations, activations, probe
  results and carrier failures of that candidate alone. The pair is (healthy, consecutive misses).\<close>

fun health_spec :: "string \<Rightarrow> sched_event \<Rightarrow> (bool \<times> int) option \<Rightarrow> (bool \<times> int) option" where
  "health_spec k (SRegister n kind) h = (if n = k \<and> h = None then Some (False, 0) else h)"
| "health_spec k (SActivate n now) h = (if n = k then map_option (\<lambda>_. (True, 0)) h else h)"
| "health_spec k (SProbe n rtt ok now) h =
     (if n = k then map_option (\<lambda>(up, m). if ok then (True, 0) else (up \<and> m + 1 < 3, m + 1)) h else h)"
| "health_spec k (SFailure n) h = (if n = k then map_option (\<lambda>_. (False, 3)) h else h)"
| "health_spec k e h = h"

definition health_of :: "string \<Rightarrow> scheduler \<Rightarrow> (bool \<times> int) option" where
  "health_of k s = map_option (\<lambda>p. (cd_Healthy p, cd_misses p)) (fmlookup (sc_candidates s) k)"

lemma lookup_on_candidate [simp]:
  "fmlookup (sc_candidates (on_candidate n f s)) k =
     (if n = k then map_option f (fmlookup (sc_candidates s) k) else fmlookup (sc_candidates s) k)"
  by (auto simp: on_candidate_def split: option.splits)

lemma on_candidate_other [simp]:
  "sc_primary (on_candidate n f s) = sc_primary s" "sc_forced (on_candidate n f s) = sc_forced s"
  by (auto simp: on_candidate_def split: option.splits)

lemmas health_simps = health_of_def map_option_case

lemma sched_step_health: "sched_inv s \<Longrightarrow> sched_step s e t \<Longrightarrow> health_of k t = health_spec k e (health_of k s)"
proof (erule sched_stepE, simp_all only:)
  show "sched_inv s \<Longrightarrow> range_order ks (sc_candidates s) \<Longrightarrow> selectLocked ks s = (res, t) \<Longrightarrow>
      health_of k t = health_spec k (SSelect res) (health_of k s)" for ks res
    using select_inv [of s ks res t] by (simp add: health_of_def)
  show "health_of k (snd (ReserveControlSend name s)) = health_spec k (SReserve name) (health_of k s)" for name
    by (auto simp: ReserveControlSend_def health_simps split: option.splits)
  show "health_of k (ActivateCarrier name now s) = health_spec k (SActivate name now) (health_of k s)" for name now
    by (auto simp: ActivateCarrier_def Let_def health_simps split: option.splits)
  show "health_of k (ReportDatagramMTU name mtu s) = health_spec k (SMTU name mtu) (health_of k s)" for name mtu
    by (auto simp: ReportDatagramMTU_def health_simps split: option.splits)
qed (auto simp: sched_Register_def ProbeResult_def CarrierFailure_def FinishControlSend_def RecordDuplication_def
       SetForced_def Let_def health_simps probe_candidate_def record_probe_def newCandidate_def split: option.splits if_splits)

interpretation sched: inv_system sched_step sched_inv
  by unfold_locales (rule sched_step_inv)

interpretation path_health: refines sched_step sched_inv "health_of k" "health_spec k" for k
  by unfold_locales (rule sched_step_health)

lemma new_scheduler_inv: "sched_inv NewScheduler"
  by (simp add: sched_inv_def NewScheduler_def)

text \<open>A primary is always a registered candidate that has been reachable at least once.\<close>

definition proven :: "scheduler \<Rightarrow> string \<Rightarrow> bool" where
  "proven s n = (case fmlookup (sc_candidates s) n of None \<Rightarrow> False | Some p \<Rightarrow> cd_LastSuccess p \<noteq> None)"

definition proven_inv :: "scheduler \<Rightarrow> bool" where
  "proven_inv s \<longleftrightarrow> sched_inv s \<and> (\<forall>n. sc_primary s = Some n \<longrightarrow> proven s n)"

lemma healthy_proven: "sched_inv s \<Longrightarrow> healthy s n \<Longrightarrow> proven s n"
  using sched_invD(1) by (fastforce simp: healthy_def proven_def cand_inv_def split: option.splits)

lemma sched_step_proven:
  "sched_step s e t \<Longrightarrow> sched_inv s \<Longrightarrow> proven s n \<Longrightarrow> proven t n"
proof (erule sched_stepE, simp_all only:)
  show "range_order ks (sc_candidates s) \<Longrightarrow> selectLocked ks s = (res, t) \<Longrightarrow> sched_inv s \<Longrightarrow> proven s n \<Longrightarrow> proven t n" for ks res
    using select_inv [of s ks res t] by (simp add: proven_def)
qed (auto simp: proven_def sched_Register_def ProbeResult_def CarrierFailure_def FinishControlSend_def RecordDuplication_def
       ReserveControlSend_def ActivateCarrier_def ReportDatagramMTU_def SetForced_def Let_def probe_candidate_def
       record_probe_def split: option.splits if_splits)

lemma sched_step_primary:
  assumes "sched_step s e t" "sched_inv s" "sc_primary t = Some n"
  shows "sc_primary s = Some n \<or> proven t n"
  using assms(1)
proof (cases rule: sched_step.cases)

  case (2 name now)
  with assms(3) show ?thesis
    by (auto simp: ActivateCarrier_def Let_def proven_def split: option.splits if_splits)
next
  case sel: (10 ks res)
  show ?thesis
  proof (cases "\<exists>m. healthy s m")
    case True
    from select_healthy [OF assms(2) sel(2) True sel(3)] assms(3) have "healthy s n" "sc_candidates t = sc_candidates s"
      by (auto simp: healthy_def)
    with healthy_proven [OF assms(2)] show ?thesis by (simp add: proven_def)
  next
    case False
    then have "\<forall>m. \<not> healthy s m" by blast
    from select_degraded [OF assms(2) sel(2) this sel(3)] assms(3) show ?thesis by (auto split: if_splits)
  qed
qed (insert assms(3), auto simp: sched_Register_def ProbeResult_def CarrierFailure_def FinishControlSend_def
       RecordDuplication_def ReserveControlSend_def ReportDatagramMTU_def SetForced_def Let_def split: option.splits if_splits)

interpretation proven: inv_system sched_step proven_inv
proof
  fix s e t assume "proven_inv s" "sched_step s e t"
  then have s: "sched_inv s" "\<forall>n. sc_primary s = Some n \<longrightarrow> proven s n" and st: "sched_step s e t"
    by (auto simp: proven_inv_def)
  from sched_step_primary [OF st s(1)] sched_step_proven [OF st s(1)] s(2)
  have "\<forall>n. sc_primary t = Some n \<longrightarrow> proven t n" by blast
  with sched_step_inv [OF s(1) st] show "proven_inv t" by (simp add: proven_inv_def)
qed

lemma new_scheduler_proven: "proven_inv NewScheduler"
  using new_scheduler_inv by (simp add: proven_inv_def) (simp add: NewScheduler_def)

text \<open>The ranking of replacements: score first, then name.\<close>

definition rank :: "scheduler \<Rightarrow> string \<Rightarrow> duration \<times> string" where
  "rank s n = (case fmlookup (sc_candidates s) n of None \<Rightarrow> (0, n) | Some c \<Rightarrow> (score c, n))"

definition misses_of :: "scheduler \<Rightarrow> string \<Rightarrow> int" where
  "misses_of s n = (case fmlookup (sc_candidates s) n of None \<Rightarrow> 0 | Some c \<Rightarrow> cd_misses c)"

lemma healthy_path:
  assumes "sched_inv s" "range_order ks (sc_candidates s)" "healthy s n"
  shows "\<exists>c \<in> set (paths_of ks s). cd_Name c = n \<and> fmlookup (sc_candidates s) n = Some c \<and> (score c, cd_Name c) = rank s n"
proof -
  from assms(3) obtain c where c: "fmlookup (sc_candidates s) n = Some c" "cd_Healthy c"
    by (auto simp: healthy_def split: option.splits)
  then have "cd_Name c = n" using sched_invD(1) [OF assms(1)] by (auto simp: cand_inv_def)
  with c paths_set [OF assms(2)] show ?thesis by (auto simp: rank_def)
qed

lemma path_healthy:
  assumes "sched_inv s" "range_order ks (sc_candidates s)" "c \<in> set (paths_of ks s)"
  shows "healthy s (cd_Name c) \<and> (score c, cd_Name c) = rank s (cd_Name c)"
  using paths_set [OF assms(2), of c] assms(3) sched_invD(1) [OF assms(1)]
  by (force simp: healthy_def rank_def cand_inv_def)

lemma choice_least:
  assumes "sched_inv s" "range_order ks (sc_candidates s)" "healthy s n"
    "\<not> healthy s (Forced s)" "\<not> healthy s (primary_name s)"
  shows "rank s (choice ks s) \<le> rank s n"
proof -
  from healthy_path [OF assms(1-3)] obtain c where
    c: "c \<in> set (paths_of ks s)" "(score c, cd_Name c) = rank s n" by blast
  then obtain p ps where ps: "paths_of ks s = p # ps" by (cases "paths_of ks s") auto
  have ch: "choice ks s = cd_Name p" using ps assms(4,5) by (simp add: choice_def)
  have "(score p, cd_Name p) \<le> (score c, cd_Name c)"
    using paths_sorted [of ks s] c(1) ps by auto
  moreover have "(score p, cd_Name p) = rank s (cd_Name p)" using path_healthy [OF assms(1,2), of p] ps by simp
  ultimately show ?thesis by (simp add: ch c(2))
qed

lemma find_exists: "x \<in> set xs \<Longrightarrow> P x \<Longrightarrow> \<exists>y. find P xs = Some y"
  by (cases "find P xs") (auto simp: find_None_iff)

lemma paths_distinct:
  assumes "range_order ks (sc_candidates s)" "sched_inv s"
  shows "distinct (map cd_Name (paths_of ks s))"
proof -
  have d: "distinct (map cd_Name (List.map_filter f ks))" if "distinct ks" "\<And>k c. f k = Some c \<Longrightarrow> cd_Name c = k" for f
    using that(1) by (induction ks) (auto simp: List.map_filter_def that(2) dest: that(2))
  have "distinct (map cd_Name (registered_of ks s))" unfolding registered_of_def
    by (rule d) (use assms sched_invD(1) in \<open>auto simp: range_order_def cand_inv_def\<close>)
  then have "distinct (map cd_Name (filter cd_Healthy (registered_of ks s)))" by (rule distinct_map_filter)
  then show ?thesis
    by (simp add: paths_of_def sort_paths_def distinct_map inj_on_def) 
qed

lemma other_path:
  assumes "sched_inv s" "range_order ks (sc_candidates s)" "healthy s pr"
  shows "length (paths_of ks s) \<noteq> 1 \<longleftrightarrow> (\<exists>n. n \<noteq> pr \<and> healthy s n)"
proof
  from healthy_path [OF assms] obtain c where c: "c \<in> set (paths_of ks s)" "cd_Name c = pr" by blast
  assume "length (paths_of ks s) \<noteq> 1"
  then obtain p q r where pq: "paths_of ks s = p # q # r"
    using c(1) by (cases "paths_of ks s" rule: remdups_adj.cases) auto
  then have "cd_Name p \<noteq> cd_Name q" using paths_distinct [OF assms(2,1)] by simp
  with path_healthy [OF assms(1,2)] pq show "\<exists>n. n \<noteq> pr \<and> healthy s n"
    by (metis list.set_intros(1,2))
next
  from healthy_path [OF assms] obtain c where c: "c \<in> set (paths_of ks s)" "cd_Name c = pr" by blast
  assume "\<exists>n. n \<noteq> pr \<and> healthy s n"
  then obtain n where n: "n \<noteq> pr" "healthy s n" by blast
  from healthy_path [OF assms(1,2) n(2)] obtain d where d: "d \<in> set (paths_of ks s)" "cd_Name d = n" by blast
  show "length (paths_of ks s) \<noteq> 1"
    using c d n(1) by (cases "paths_of ks s" rule: remdups_adj.cases) auto
qed

lemma alternate_best:
  assumes "sched_inv s" "range_order ks (sc_candidates s)" "find (\<lambda>d. cd_Name d \<noteq> pr) (paths_of ks s) = Some alt"
  shows "cd_Name alt \<noteq> pr \<and> healthy s (cd_Name alt) \<and> (\<forall>n. n \<noteq> pr \<and> healthy s n \<longrightarrow> rank s (cd_Name alt) \<le> rank s n)"
proof -
  from assms(3) have a: "alt \<in> set (paths_of ks s)" "cd_Name alt \<noteq> pr" by (auto simp: find_Some_iff)
  have "rank s (cd_Name alt) \<le> rank s n" if n: "n \<noteq> pr" "healthy s n" for n
  proof -
    from healthy_path [OF assms(1,2) n(2)] obtain d where
      d: "d \<in> set (paths_of ks s)" "cd_Name d = n" "(score d, cd_Name d) = rank s n" by blast
    from find_sorted_least [OF assms(3) paths_sorted d(1)] d(2) n(1)
    have "(score alt, cd_Name alt) \<le> (score d, cd_Name d)" by simp
    with path_healthy [OF assms(1,2) a(1)] d(3) show ?thesis by simp
  qed
  with a path_healthy [OF assms(1,2) a(1)] show ?thesis by blast
qed

text \<open>What a selection promises, \<open>(pr, alt, dup)\<close> being its result and \<open>s'\<close> the scheduler after it.\<close>

definition selects :: "scheduler \<Rightarrow> string \<Rightarrow> string \<Rightarrow> bool \<Rightarrow> scheduler \<Rightarrow> bool" where
  "selects s pr alt dup s' \<longleftrightarrow> sc_candidates s' = sc_candidates s \<and> sc_forced s' = sc_forced s \<and>
    (if \<exists>n. healthy s n
     then healthy s pr \<and> sc_primary s' = Some pr \<and>
       (if healthy s (Forced s) then pr = Forced s
        else if healthy s (primary_name s) then pr = primary_name s
        else \<forall>n. healthy s n \<longrightarrow> rank s pr \<le> rank s n) \<and>
       dup = (misses_of s pr > 0 \<and> (\<exists>n. n \<noteq> pr \<and> healthy s n)) \<and>
       (if dup then alt \<noteq> pr \<and> healthy s alt \<and> (\<forall>n. n \<noteq> pr \<and> healthy s n \<longrightarrow> rank s alt \<le> rank s n) else alt = '''')
     else alt = '''' \<and> \<not> dup \<and> (pr = '''' \<or> (pr = primary_name s \<or> pr = Forced s) \<and> proven s pr))"

lemma selects_healthy:
  assumes inv: "sched_inv s" and ks: "range_order ks (sc_candidates s)" and ex: "\<exists>n. healthy s n"
  shows "\<exists>pr alt dup s'. selectLocked ks s = (Some (pr, alt, dup), s') \<and> selects s pr alt dup s'"
proof -
  let ?pr = "choice ks s"
  obtain res s' where sel: "selectLocked ks s = (res, s')" by fastforce
  from select_healthy [OF inv ks ex sel] obtain c where c: "fmlookup (sc_candidates s) ?pr = Some c" "cd_Healthy c"
    "s' = s\<lparr>sc_primary := Some ?pr\<rparr>" and
    res: "res = (if length (paths_of ks s) = 1 \<or> cd_misses c \<le> 0 then Some (?pr, '''', False)
      else map_option (\<lambda>alt. (?pr, cd_Name alt, True)) (find (\<lambda>d. cd_Name d \<noteq> ?pr) (paths_of ks s)))" by blast
  have h: "healthy s ?pr" and m: "misses_of s ?pr = cd_misses c" using c by (simp_all add: healthy_def misses_of_def)
  have ch: "if healthy s (Forced s) then ?pr = Forced s else if healthy s (primary_name s) then ?pr = primary_name s
      else \<forall>n. healthy s n \<longrightarrow> rank s ?pr \<le> rank s n"
    using choice_least [OF inv ks] by (auto simp: choice_def)
  note oth = other_path [OF inv ks h]
  show ?thesis
  proof (cases "length (paths_of ks s) = 1 \<or> cd_misses c \<le> 0")
    case one: True
    then have "\<not> (misses_of s ?pr > 0 \<and> (\<exists>n. n \<noteq> ?pr \<and> healthy s n))" using m oth by auto
    with one res sel c(3) ch h ex show ?thesis by (auto simp: selects_def)
  next
    case dup: False
    with oth obtain n where "n \<noteq> ?pr" "healthy s n" by blast
    with healthy_path [OF inv ks] obtain d where "d \<in> set (paths_of ks s)" "cd_Name d \<noteq> ?pr" by blast
    then obtain alt where alt: "find (\<lambda>d. cd_Name d \<noteq> ?pr) (paths_of ks s) = Some alt"
      using find_exists [of d "paths_of ks s" "\<lambda>d. cd_Name d \<noteq> ?pr"] by blast
    from dup alt res sel c(3) have "selectLocked ks s = (Some (?pr, cd_Name alt, True), s')" by simp
    moreover have "misses_of s ?pr > 0 \<and> (\<exists>n. n \<noteq> ?pr \<and> healthy s n)" using dup m oth by auto
    ultimately show ?thesis using alternate_best [OF inv ks alt] ch h ex c(3) by (auto simp: selects_def)
  qed
qed

lemma selects_degraded:
  assumes pv: "proven_inv s" and ks: "range_order ks (sc_candidates s)" and nh: "\<forall>n. \<not> healthy s n"
  shows "\<exists>pr alt dup s'. selectLocked ks s = (Some (pr, alt, dup), s') \<and> selects s pr alt dup s'"
proof -
  from pv have inv: "sched_inv s" by (simp add: proven_inv_def)
  obtain res s' where sel: "selectLocked ks s = (res, s')" by fastforce
  from select_degraded [OF inv ks nh sel] obtain pr where pr: "res = Some (pr, '''', False)"
    "if sc_candidates s = fmempty then pr = '''' \<and> s' = s\<lparr>sc_primary := None\<rparr>
     else s' = s \<and> pr = (if fmlookup (sc_candidates s) (primary_name s) \<noteq> None then primary_name s
           else case fmlookup (sc_candidates s) (Forced s) of
                  None \<Rightarrow> '''' | Some p \<Rightarrow> if cd_LastSuccess p = None then '''' else Forced s)" by blast
  have "fmlookup (sc_candidates s) (primary_name s) \<noteq> None \<Longrightarrow> proven s (primary_name s)"
    using pv no_empty_name [OF inv] by (auto simp: proven_inv_def primary_name_def split: option.splits)
  with pr(2) have "pr = '''' \<or> (pr = primary_name s \<or> pr = Forced s) \<and> proven s pr"
    "sc_candidates s' = sc_candidates s" "sc_forced s' = sc_forced s"
    by (auto simp: proven_def split: if_splits option.splits)
  with pr(1) sel nh show ?thesis by (auto simp: selects_def)
qed

lemma selection_spec:
  assumes "proven_inv s" "range_order ks (sc_candidates s)"
  shows "\<exists>pr alt dup s'. selectLocked ks s = (Some (pr, alt, dup), s') \<and> selects s pr alt dup s'"
  using selects_healthy [OF _ assms(2)] selects_degraded [OF assms] assms(1) unfolding proven_inv_def by blast

section \<open>Properties\<close>

text \<open>C36: the health of a candidate after any sequence of scheduler operations is the one its own
  history of registrations, carrier activations, probe results and carrier failures determines: three
  consecutive misses or a carrier failure make it unhealthy, one acknowledgement makes it healthy.\<close>

theorem health_follows_probes:
  assumes "run sched_step NewScheduler es s"
  shows "map_option (\<lambda>p. (cd_Healthy p, cd_misses p)) (fmlookup (sc_candidates s) k) = fold (health_spec k) es None"
  using path_health.run_spec [OF assms new_scheduler_inv, of k] by (simp add: health_of_def) (simp add: NewScheduler_def)

text \<open>C6: in every reachable scheduler, selection returns without a nil dereference and fulfils
  \<open>selects\<close>: if some candidate is healthy, the primary is the forced candidate when that is healthy, else
  the incumbent whatever the scores while it is healthy, else the healthy candidate of least score and
  name; traffic is duplicated exactly when the primary has a missed probe and another candidate is
  healthy, and then to the best other one. If none is healthy, only the incumbent or the forced
  candidate is used, and only if it was reachable before.\<close>

theorem selection_correct:
  assumes "run sched_step NewScheduler es s" "range_order ks (sc_candidates s)"
  shows "\<exists>pr alt dup s'. selectLocked ks s = (Some (pr, alt, dup), s') \<and> selects s pr alt dup s'"
  by (rule selection_spec [OF proven.run_inv [OF assms(1) new_scheduler_proven] assms(2)])

text \<open>A concrete session: an activated WSS carrier with one miss is kept, and duplicated, although the
  direct path scores better.\<close>

definition demo_sched :: scheduler where
  "demo_sched = ProbeResult ''wss'' 0 False 3 (ProbeResult ''direct-udp'' 5 True 2 (ActivateCarrier ''wss'' 1
     (sched_Register ''direct-udp'' PathDirect (sched_Register ''wss'' PathWSS NewScheduler))))"

definition demo_events :: "sched_event list" where
  "demo_events = [SRegister ''wss'' PathWSS, SRegister ''direct-udp'' PathDirect, SActivate ''wss'' 1,
     SProbe ''direct-udp'' 5 True 2, SProbe ''wss'' 0 False 3]"

lemma demo_sched_run: "run sched_step NewScheduler demo_events demo_sched"
  unfolding demo_events_def demo_sched_def
  by (rule run_cons, rule sched_step.intros, simp?)+ (rule run_nil)

lemma demo_sched_health:
  "health_of ''wss'' demo_sched = Some (True, 1)" "health_of ''direct-udp'' demo_sched = Some (True, 0)"
  "sc_primary demo_sched = Some ''wss''" "sc_forced demo_sched = None"
  by (simp_all add: demo_sched_def health_of_def ProbeResult_def ActivateCarrier_def sched_Register_def NewScheduler_def
      newCandidate_def probe_candidate_def record_probe_def Let_def on_candidate_def)

lemma demo_order: "range_order [''wss'', ''direct-udp''] (sc_candidates demo_sched)"
  by (simp add: range_order_def demo_sched_def ProbeResult_def ActivateCarrier_def sched_Register_def NewScheduler_def
      newCandidate_def Let_def on_candidate_def) auto

theorem health_follows_probes_witness:
  "run sched_step NewScheduler demo_events demo_sched \<and> health_of ''wss'' demo_sched = fold (health_spec ''wss'') demo_events None \<and>
   fold (health_spec ''wss'') demo_events None = Some (True, 1)"
  using health_follows_probes [OF demo_sched_run, of "''wss''"] demo_sched_run demo_sched_health(1) by (simp add: health_of_def)

theorem selection_correct_witness:
  "\<exists>s'. selectLocked [''wss'', ''direct-udp''] demo_sched = (Some (''wss'', ''direct-udp'', True), s')"
proof -
  have h: "healthy demo_sched ''wss''" "healthy demo_sched ''direct-udp''" "misses_of demo_sched ''wss'' = 1"
    using demo_sched_health by (auto simp: healthy_def misses_of_def health_of_def)
  have p: "primary_name demo_sched = ''wss''" "Forced demo_sched = ''''"
    using demo_sched_health by (simp_all add: primary_name_def Forced_def)
  have only: "healthy demo_sched n \<Longrightarrow> n = ''wss'' \<or> n = ''direct-udp''" for n
    using demo_order by (auto simp: range_order_iff healthy_def split: option.splits)
  from only [of "''''"] have nf: "\<not> healthy demo_sched ''''" by auto
  have ex: "(\<exists>n. healthy demo_sched n) = True" using h(1) by blast
  from selection_correct [OF demo_sched_run demo_order] obtain pr alt dup s' where
    s: "selectLocked [''wss'', ''direct-udp''] demo_sched = (Some (pr, alt, dup), s')" and
    pr: "pr = ''wss''" "dup = (misses_of demo_sched pr > 0 \<and> (\<exists>n. n \<noteq> pr \<and> healthy demo_sched n))" and
    alt: "if dup then alt \<noteq> pr \<and> healthy demo_sched alt \<and>
      (\<forall>n. n \<noteq> pr \<and> healthy demo_sched n \<longrightarrow> rank demo_sched alt \<le> rank demo_sched n) else alt = ''''"
    unfolding selects_def ex if_True p if_not_P [OF nf] if_P [OF h(1)] by blast
  have "\<exists>n. n \<noteq> ''wss'' \<and> healthy demo_sched n" using h(2) by (intro exI [of _ "''direct-udp''"]) simp
  with pr h(3) have "dup" by simp
  with alt have "alt \<noteq> pr" "healthy demo_sched alt" by simp_all
  with only [of alt] pr(1) have "alt = ''direct-udp''" by blast
  with s pr(1) \<open>dup\<close> show ?thesis by simp
qed

section \<open>The duplicate cache over time\<close>

text \<open>The evicted key is any key of the map: the first one the range loop meets.\<close>

inductive dup_step :: "duplicateCache \<Rightarrow> bytes \<times> gotime \<times> bool \<Rightarrow> duplicateCache \<Rightarrow> bool" where
  dup_seenI: "dup_Seen b now victim c = (seen, c') \<Longrightarrow>
     (\<And>k. transportKey b = Some k \<Longrightarrow> int (gm_len (fmdrop k (dc_entries c))) \<ge> dc_limit c \<Longrightarrow>
        fmlookup (fmdrop k (dc_entries c)) victim \<noteq> None) \<Longrightarrow>
     dup_step c (b, now, seen) c'"

inductive_cases dup_stepE: "dup_step c e c'"

definition delivered :: "(bytes \<times> gotime \<times> bool) list \<Rightarrow> bytes \<Rightarrow> gotime \<Rightarrow> bool" where
  "delivered es k t \<longleftrightarrow> (\<exists>b. (b, t, False) \<in> set es \<and> transportKey b = Some k)"

definition dup_inv :: "(bytes \<times> gotime \<times> bool) list \<Rightarrow> duplicateCache \<Rightarrow> bool" where
  "dup_inv es c \<longleftrightarrow> 0 < dc_limit c \<and> 0 < dc_ttl c \<and> int (gm_len (dc_entries c)) \<le> dc_limit c \<and> gm_len (dc_entries c) \<le> length es \<and>
     (\<forall>k e. fmlookup (dc_entries c) k = Some e \<longrightarrow> delivered es k (e - dc_ttl c)) \<and>
     (int (length es) \<le> dc_limit c \<longrightarrow>
       (\<forall>k t. delivered es k t \<longrightarrow> (\<exists>e. fmlookup (dc_entries c) k = Some e \<and> t + dc_ttl c \<le> e)))"

lemma dup_invD:
  assumes "dup_inv es c"
  shows "0 < dc_limit c" "0 < dc_ttl c" "int (gm_len (dc_entries c)) \<le> dc_limit c" "gm_len (dc_entries c) \<le> length es"
    "fmlookup (dc_entries c) k = Some e \<Longrightarrow> delivered es k (e - dc_ttl c)"
    "int (length es) \<le> dc_limit c \<Longrightarrow> delivered es k t \<Longrightarrow> \<exists>e. fmlookup (dc_entries c) k = Some e \<and> t + dc_ttl c \<le> e"
  using assms unfolding dup_inv_def by blast+

lemma delivered_snoc:
  "delivered (es @ [(b, now, seen)]) k t \<longleftrightarrow> delivered es k t \<or> \<not> seen \<and> t = now \<and> transportKey b = Some k"
  by (auto simp: delivered_def)

text \<open>The packet was new, or its entry had expired: it is delivered and remembered.\<close>

lemma dup_insert_inv:
  assumes inv: "dup_inv es c" and k: "transportKey b = Some k"
    and old: "\<And>e. fmlookup (dc_entries c) k = Some e \<Longrightarrow> e \<le> now"
    and vic: "int (gm_len (fmdrop k (dc_entries c))) \<ge> dc_limit c \<Longrightarrow> fmlookup (fmdrop k (dc_entries c)) victim \<noteq> None"
    and e2: "e2 = (if int (gm_len (fmdrop k (dc_entries c))) \<ge> dc_limit c then fmdrop victim (fmdrop k (dc_entries c)) else fmdrop k (dc_entries c))"
  shows "dup_inv (es @ [(b, now, False)]) (c\<lparr>dc_entries := fmupd k (now + dc_ttl c) e2\<rparr>)"
proof -
  note i = dup_invD [OF inv]
  let ?d = "fmdrop k (dc_entries c)"
  have kd: "fmlookup e2 k = None" using e2 by simp
  have sz: "gm_len ?d \<le> gm_len (dc_entries c)" by simp
  have d: "gm_len e2 < nat (dc_limit c)" "gm_len e2 \<le> gm_len ?d"
    using e2 vic i(1,3) sz by (auto simp: gm_len_pos)
  have a: "int (gm_len (fmupd k (now + dc_ttl c) e2)) \<le> dc_limit c" "gm_len (fmupd k (now + dc_ttl c) e2) \<le> Suc (length es)"
    using d i(1,4) sz kd by auto
  have b: "delivered (es @ [(b, now, False)]) m (e - dc_ttl c)" if "fmlookup (fmupd k (now + dc_ttl c) e2) m = Some e" for m e
    using that i(5) [of m e] e2 k by (auto simp: delivered_snoc split: if_splits)
  have c: "\<exists>e. fmlookup (fmupd k (now + dc_ttl c) e2) m = Some e \<and> t + dc_ttl c \<le> e"
    if len: "int (Suc (length es)) \<le> dc_limit c" and del: "delivered (es @ [(b, now, False)]) m t" for m t
  proof -
    have same: "e2 = ?d" using e2 i(4) sz len by simp
    show ?thesis
    proof (cases "m = k")
      case True
      have "t \<le> now"
      proof (cases "delivered es k t")
        case t: True
        from i(6) [OF _ t] len obtain e where "fmlookup (dc_entries c) k = Some e" "t + dc_ttl c \<le> e" by auto
        with old i(2) show ?thesis by fastforce
      next
        case False
        with del True show ?thesis by (simp add: delivered_snoc)
      qed
      with True show ?thesis by simp
    next
      case False
      with del k have "delivered es m t" by (auto simp: delivered_snoc)
      from i(6) [OF _ this] len False same show ?thesis by simp
    qed
  qed
  from a b c i(1,2) show ?thesis unfolding dup_inv_def by simp
qed

lemma dup_step_cases:
  assumes inv: "dup_inv es c" and st: "dup_step c (b, now, seen) c'"
  shows "dup_inv (es @ [(b, now, seen)]) c'" "dc_limit c' = dc_limit c \<and> dc_ttl c' = dc_ttl c"
    "seen \<longleftrightarrow> (\<exists>k e. transportKey b = Some k \<and> fmlookup (dc_entries c) k = Some e \<and> now < e)"
proof -
  from st obtain victim where d: "dup_Seen b now victim c = (seen, c')" and
    v: "\<And>k. transportKey b = Some k \<Longrightarrow> int (gm_len (fmdrop k (dc_entries c))) \<ge> dc_limit c \<Longrightarrow>
        fmlookup (fmdrop k (dc_entries c)) victim \<noteq> None" by (auto elim: dup_stepE)
  have keep: "dup_inv (es @ [(b, now, s)]) c" if "s \<or> transportKey b = None" for s
    using inv that unfolding dup_inv_def by (auto simp: delivered_snoc)
  have "dup_inv (es @ [(b, now, seen)]) c' \<and> (dc_limit c' = dc_limit c \<and> dc_ttl c' = dc_ttl c) \<and>
    (seen \<longleftrightarrow> (\<exists>k e. transportKey b = Some k \<and> fmlookup (dc_entries c) k = Some e \<and> now < e))"
  proof (cases "transportKey b")
    case None
    with d keep [of False] show ?thesis by (auto simp: dup_Seen_def)
  next
    case (Some k)
    note ins = dup_insert_inv [OF inv Some _ v [OF Some] refl, of now]
    have drop: "fmlookup (dc_entries c) k = None \<Longrightarrow> fmdrop k (dc_entries c) = dc_entries c"
      by (simp add: fmdrop_idle fmdom_notI)
    show ?thesis
    proof (cases "fmlookup (dc_entries c) k")
      case None
      with ins drop d Some show ?thesis by (auto simp: dup_Seen_def Let_def)
    next
      case e: (Some e)
      show ?thesis
      proof (cases "now < e")
        case True
        with d Some e keep [of True] show ?thesis by (auto simp: dup_Seen_def)
      next
        case False
        with ins e d Some show ?thesis by (auto simp: dup_Seen_def Let_def)
      qed
    qed
  qed
  then show "dup_inv (es @ [(b, now, seen)]) c'" "dc_limit c' = dc_limit c \<and> dc_ttl c' = dc_ttl c"
    "seen \<longleftrightarrow> (\<exists>k e. transportKey b = Some k \<and> fmlookup (dc_entries c) k = Some e \<and> now < e)" by blast+
qed

interpretation dup: history_system dup_step dup_inv
proof
  fix es s e t assume "dup_inv es s" "dup_step s e t"
  then show "dup_inv (es @ [e]) t" by (cases e) (auto dest: dup_step_cases(1))
qed

lemma new_dup_inv: "dup_inv [] (NewDuplicateCache limit ttl)"
  by (simp add: dup_inv_def NewDuplicateCache_def delivered_def)

lemma dup_run_const: "run dup_step c es c' \<Longrightarrow> dc_limit c' = dc_limit c \<and> dc_ttl c' = dc_ttl c"
  by (induction rule: run.induct) (auto elim!: dup_stepE simp: dup_Seen_def Let_def split: option.splits if_splits)

text \<open>The cache that removes duplicated WireGuard packets never holds more entries than its limit; it
  reports a packet as a duplicate only if a transport packet of the same receiver index and counter
  was let through before and has not yet expired; and as long as no more packets than the limit have
  been seen, it reports every such packet.\<close>

theorem duplicates_dropped_exactly:
  assumes "run dup_step (NewDuplicateCache limit ttl) (es @ [(b, now, seen)]) c"
  shows "int (gm_len (dc_entries c)) \<le> dc_limit c \<and> dc_limit c = (if limit \<le> 0 then 4096 else limit) \<and>
    (seen \<longrightarrow> (\<exists>k t. transportKey b = Some k \<and> delivered es k t \<and> now < t + dc_ttl c)) \<and>
    (int (length es) \<le> dc_limit c \<longrightarrow>
      (\<exists>k t. transportKey b = Some k \<and> delivered es k t \<and> now < t + dc_ttl c) \<longrightarrow> seen)"
proof -
  from run_split [OF assms] obtain s where s: "run dup_step (NewDuplicateCache limit ttl) es s" "dup_step s (b, now, seen) c"
    by (auto elim: run_consE run_nilE)
  have inv: "dup_inv es s" by (rule dup.run_hinv [OF s(1) new_dup_inv])
  note st = dup_step_cases [OF inv s(2)]
  note i = dup_invD [OF inv]
  have ttl: "dc_ttl c = dc_ttl s" "dc_limit c = dc_limit s" "dc_limit c = (if limit \<le> 0 then 4096 else limit)"
    using st(2) dup_run_const [OF s(1)] by (auto simp: NewDuplicateCache_def)
  have "seen \<longrightarrow> (\<exists>k t. transportKey b = Some k \<and> delivered es k t \<and> now < t + dc_ttl c)"
  proof
    assume seen
    with st(3) obtain k e where "transportKey b = Some k" "fmlookup (dc_entries s) k = Some e" "now < e" by blast
    with i(5) [of k e] ttl show "\<exists>k t. transportKey b = Some k \<and> delivered es k t \<and> now < t + dc_ttl c"
      by (intro exI [of _ k] exI [of _ "e - dc_ttl s"]) simp
  qed
  moreover have "seen" if "int (length es) \<le> dc_limit c" "transportKey b = Some k" "delivered es k t" "now < t + dc_ttl c" for k t
    using i(6) [of k t] that ttl st(3) by fastforce
  ultimately show ?thesis using dup_invD(3) [OF st(1)] ttl by blast
qed

text \<open>A transport packet delivered at time 0 and repeated one nanosecond later.\<close>

definition demo_packet :: bytes where
  "demo_packet = [4, 0, 0, 0] @ replicate 12 7"

lemma demo_packet_key: "transportKey demo_packet = Some (replicate 12 7)"
  by (simp add: demo_packet_def transportKey_def le32_def)

lemma demo_dup_run:
  "run dup_step (NewDuplicateCache 8 100) ([(demo_packet, 0, False)] @ [(demo_packet, 1, True)])
     (NewDuplicateCache 8 100\<lparr>dc_entries := fmupd (replicate 12 7) 100 fmempty\<rparr>)"
proof -
  let ?c = "NewDuplicateCache 8 100" and ?d = "NewDuplicateCache 8 100\<lparr>dc_entries := fmupd (replicate 12 7) 100 fmempty\<rparr>"
  have "dup_step ?c (demo_packet, 0, False) ?d" "dup_step ?d (demo_packet, 1, True) ?d"
    by (rule dup_seenI [of _ _ "[]"]; simp add: dup_Seen_def demo_packet_key NewDuplicateCache_def Let_def)+
  then show ?thesis unfolding append_Cons append_Nil by (rule run_two)
qed

theorem duplicates_dropped_exactly_witness:
  "run dup_step (NewDuplicateCache 8 100) ([(demo_packet, 0, False)] @ [(demo_packet, 1, True)])
     (NewDuplicateCache 8 100\<lparr>dc_entries := fmupd (replicate 12 7) 100 fmempty\<rparr>) \<and>
   (\<exists>k t. transportKey demo_packet = Some k \<and> delivered [(demo_packet, 0, False)] k t \<and> (1 :: int) < t + 100)"
  using duplicates_dropped_exactly [OF demo_dup_run] demo_dup_run by (simp add: NewDuplicateCache_def)

section \<open>The duplication budget\<close>

text \<open>A byte rate below \<open>2 ^ 53\<close> is a \<open>float64\<close>; the clock of \<open>time.Now\<close> is monotonic. The bucket never
  exceeds one second of the rate, and a granted batch was covered by it.\<close>

definition budget_inv :: "byteRateLimiter \<Rightarrow> bool" where
  "budget_inv l \<longleftrightarrow> 0 \<le> bl_tokens l \<and> bl_tokens l \<le> bl_maxTokens l \<and> 0 \<le> bl_refillRate l \<and>
     (\<exists>r < 2 ^ 53. bl_maxTokens l = of_nat r)"

lemma new_budget_inv: "bytesPerSecond < 2 ^ 53 \<Longrightarrow> budget_inv (newByteRateLimiter bytesPerSecond now)"
proof -
  assume b: "bytesPerSecond < 2 ^ 53"
  define r where "r = nat (if bytesPerSecond \<le> 0 then defaultDuplicateRateBytesPerSec else bytesPerSecond)"
  have r: "r < 2 ^ 53" "(of_int (if bytesPerSecond \<le> 0 then defaultDuplicateRateBytesPerSec else bytesPerSecond) :: rat) = of_nat r"
    using b by (auto simp: r_def defaultDuplicateRateBytesPerSec_def)
  show ?thesis using r fl_nat [OF r(1)]
    by (auto simp: budget_inv_def newByteRateLimiter_def Let_def simp del: of_int_of_nat_eq)
qed

lemma seconds_nonneg: "0 \<le> d \<Longrightarrow> 0 \<le> seconds_of d"
  unfolding seconds_of_def
  by (intro fl_nonneg add_nonneg_nonneg divide_nonneg_pos) (auto simp: signed_divide_int_def signed_modulo_int_def sgn_if)

lemma byte_Allow_inv:
  assumes "budget_inv l" "bl_last l \<le> now" "0 \<le> n"
  shows "budget_inv (snd (byte_Allow now n l)) \<and> (fst (byte_Allow now n l) \<longrightarrow> fl (of_int n) \<le> bl_maxTokens l)"
proof -
  from assms(1) obtain r where r: "r < 2 ^ 53" "bl_maxTokens l = of_nat r" and
    i: "0 \<le> bl_tokens l" "bl_tokens l \<le> bl_maxTokens l" "0 \<le> bl_refillRate l" by (auto simp: budget_inv_def)
  define t1 where "t1 = fl (bl_tokens l + fl (seconds_of (now - bl_last l) * bl_refillRate l))"
  have t1: "0 \<le> t1" unfolding t1_def using i seconds_nonneg [of "now - bl_last l"] assms(2)
    by (intro fl_nonneg add_nonneg_nonneg mult_nonneg_nonneg) simp_all
  define t2 where "t2 = (if t1 > bl_maxTokens l then bl_maxTokens l else t1)"
  have t2: "0 \<le> t2" "t2 \<le> of_nat r" using t1 r(2) by (auto simp: t2_def)
  have n: "0 \<le> fl (of_int n)" using assms(3) by (intro fl_nonneg) simp
  have sub: "0 \<le> fl (t2 - fl (of_int n))" "fl (t2 - fl (of_int n)) \<le> of_nat r" if "fl (of_int n) \<le> t2"
    using that t2 n r(1) by (auto intro!: fl_nonneg fl_le_nat)
  have body: "byte_Allow now n l = (if t2 < fl (of_int n) then (False, l\<lparr>bl_tokens := t2, bl_last := now\<rparr>)
      else (True, l\<lparr>bl_tokens := fl (t2 - fl (of_int n)), bl_last := now\<rparr>))"
    by (simp add: byte_Allow_def Let_def t1_def t2_def)
  show ?thesis unfolding body using sub t2 i(3) r by (auto simp: budget_inv_def)
qed

text \<open>The ledger of the bucket: what a call grants, and what is left afterwards, was there before or came with the time that
  passed since, up to the rounding of the refill and one byte.\<close>

lemma seconds_le: "0 \<le> d \<Longrightarrow> seconds_of d \<le> of_int d / 1000000000 * (1 + 1 / 2 ^ 53) ^ 3"
proof -
  assume d: "0 \<le> d"
  let ?e = "1 + 1 / 2 ^ 53 :: rat"
  define q r where "q = d sdiv second" and "r = d smod second"
  have qr: "0 \<le> q" "0 \<le> r" "d = q * second + r"
    using d by (auto simp: q_def r_def signed_divide_int_def signed_modulo_int_def sgn_if)
  have e: "1 \<le> ?e" by simp
  have fr: "fl (of_int r) \<le> of_int r * ?e" "fl (of_int q) \<le> of_int q * ?e" using qr by (intro fl_le_scaled; simp)+
  have nn: "0 \<le> fl (of_int r)" "0 \<le> fl (of_int q)" using qr by (intro fl_nonneg; simp)+
  have "fl (fl (of_int r) / 1000000000) \<le> fl (of_int r) / 1000000000 * ?e" using nn by (intro fl_le_scaled) simp
  also have "\<dots> \<le> of_int r * ?e / 1000000000 * ?e" using fr(1) by (intro mult_right_mono divide_right_mono) simp_all
  finally have b: "fl (fl (of_int r) / 1000000000) \<le> of_int r / 1000000000 * ?e ^ 2" by (simp add: power2_eq_square)
  have "of_int q * ?e \<le> of_int q * ?e ^ 2" using qr e by (intro mult_left_mono self_le_power) simp_all
  with fr(2) b have "fl (of_int q) + fl (fl (of_int r) / 1000000000) \<le> (of_int q + of_int r / 1000000000) * ?e ^ 2"
    by (simp only: distrib_right)
  moreover have "of_int q + of_int r / 1000000000 = (of_int d / 1000000000 :: rat)" unfolding qr(3) by simp
  ultimately have sum: "fl (of_int q) + fl (fl (of_int r) / 1000000000) \<le> of_int d / 1000000000 * ?e ^ 2" by (simp only:)
  have "seconds_of d \<le> (fl (of_int q) + fl (fl (of_int r) / 1000000000)) * ?e"
    unfolding seconds_of_def q_def [symmetric] r_def [symmetric]
    using nn by (intro fl_le_scaled add_nonneg_nonneg fl_nonneg [of "_ / _"]) simp_all
  also have "\<dots> \<le> of_int d / 1000000000 * ?e ^ 2 * ?e" by (rule mult_right_mono [OF sum]) simp
  also have "\<dots> = of_int d / 1000000000 * ?e ^ 3" by (simp only: power2_eq_square power3_eq_cube mult.assoc)
  finally show ?thesis .
qed

lemma byte_Allow_ledger:
  assumes i: "budget_inv l" and now: "bl_last l \<le> now" and n: "0 \<le> n" and a: "byte_Allow now n l = (granted, l')"
  shows "bl_tokens l' + (if granted then of_int n else 0) \<le>
      bl_tokens l + bl_refillRate l * of_int (now - bl_last l) / 1000000000 * (1 + 1 / 2 ^ 50) + 1"
    and "bl_last l' = now" "bl_maxTokens l' = bl_maxTokens l" "bl_refillRate l' = bl_refillRate l"
proof -
  let ?e = "1 + 1 / 2 ^ 53 :: rat" and ?d = "now - bl_last l"
  obtain c where c: "c < 2 ^ 53" "bl_maxTokens l = of_nat c" and t: "0 \<le> bl_tokens l" "bl_tokens l \<le> of_nat c" "0 \<le> bl_refillRate l"
    using i by (auto simp: budget_inv_def)
  have c53: "(of_nat c :: rat) < 2 ^ 53"
    using c(1) by (metis of_nat_less_iff of_nat_numeral of_nat_power)
  have e4: "?e ^ 4 \<le> 1 + 1 / 2 ^ 50" by (simp add: power4_eq_xxxx)
  define f where "f = fl (seconds_of ?d * bl_refillRate l)"
  define t2 where "t2 = (if fl (bl_tokens l + f) > of_nat c then of_nat c else fl (bl_tokens l + f))"
  have sec: "0 \<le> seconds_of ?d" using now by (intro seconds_nonneg) simp
  have f0: "0 \<le> f" unfolding f_def using sec t(3) by (intro fl_nonneg mult_nonneg_nonneg)
  have "f \<le> seconds_of ?d * bl_refillRate l * ?e" unfolding f_def using sec t(3) by (intro fl_le_scaled mult_nonneg_nonneg)
  also have "\<dots> \<le> of_int ?d / 1000000000 * ?e ^ 3 * bl_refillRate l * ?e"
    using seconds_le [of ?d] now t(3) by (intro mult_right_mono) simp_all
  also have "\<dots> = bl_refillRate l * of_int ?d / 1000000000 * ?e ^ 4" by (simp add: power4_eq_xxxx power3_eq_cube)
  also have "\<dots> \<le> bl_refillRate l * of_int ?d / 1000000000 * (1 + 1 / 2 ^ 50)"
    using t(3) now e4 by (intro mult_left_mono divide_nonneg_pos mult_nonneg_nonneg) simp_all
  finally have f: "f \<le> bl_refillRate l * of_int ?d / 1000000000 * (1 + 1 / 2 ^ 50)" .
  have t2: "t2 \<le> bl_tokens l + f + 1 / 2"
  proof (cases "bl_tokens l + f \<le> of_nat c")
    case True
    with fl_le_half [of "bl_tokens l + f"] t f0 c53 show ?thesis by (simp add: t2_def)
  qed (simp add: t2_def)
  have t2c: "0 \<le> t2" "t2 \<le> of_nat c" using t f0 by (auto simp: t2_def intro: fl_nonneg)
  have body: "byte_Allow now n l = (if t2 < fl (of_int n) then (False, l\<lparr>bl_tokens := t2, bl_last := now\<rparr>)
      else (True, l\<lparr>bl_tokens := fl (t2 - fl (of_int n)), bl_last := now\<rparr>))"
    by (simp add: byte_Allow_def Let_def t2_def f_def c(2))
  have grant: "fl (t2 - fl (of_int n)) + of_int n \<le> t2 + 1 / 2" if g: "fl (of_int n) \<le> t2"
  proof -
    obtain k where k: "n = int k" using n by (metis nonneg_int_cases)
    have "k < 2 ^ 53"
    proof (rule ccontr)
      assume "\<not> k < 2 ^ 53"
      then have "(2 ^ 53 :: rat) \<le> of_int n"
        unfolding k of_int_of_nat_eq by (metis not_less of_nat_le_iff of_nat_numeral of_nat_power)
      with fl_big [of "of_int n"] g t2c(2) c53 show False by simp
    qed
    then have "fl (of_int n) = of_int n" using fl_nat [of k] by (simp add: k)
    with g t2c c53 n fl_le_half [of "t2 - of_int n"] show ?thesis by simp
  qed
  show "bl_tokens l' + (if granted then of_int n else 0) \<le>
      bl_tokens l + bl_refillRate l * of_int (now - bl_last l) / 1000000000 * (1 + 1 / 2 ^ 50) + 1"
    using a t2 f grant unfolding body by (cases "t2 < fl (of_int n)") auto
  show "bl_last l' = now" "bl_maxTokens l' = bl_maxTokens l" "bl_refillRate l' = bl_refillRate l"
    using a unfolding body by (auto split: if_splits)
qed

end
