(* ===== verification/Path_Probing.thy ===== *)
theory Path_Probing
  imports Scheduler
begin

text \<open>
  The candidate paths of one peer and their probing, as both \<^verbatim>\<open>pkg/wstransport/multipath.go\<close>
  (client) and \<^verbatim>\<open>server_multipath.go\<close> (one instance per authenticated peer) keep them: the paths, the
  outstanding health and path-MTU probes, the scheduler, and the control-reply goroutines. The two
  files hold the same handlers on two structs; here the structs are two extensions of the record
  \<open>pathCore\<close>, and the handlers are defined once on it. Arguments stand for the clock, the random
  nonces (\<open>None\<close> when \<open>rand.Read\<close> fails) and the order of range loops.
\<close>

section \<open>Endpoints and carriers\<close>

text \<open>The endpoint of a carrier belongs to the WireGuard library or to the WSS carrier and is known
  by its string; the other two constructors are the stable endpoints of this package.\<close>

datatype endpoint = CarrierEndpoint string | multipathEndpoint string | serverMultipathEndpoint string

fun DstToString :: "endpoint \<Rightarrow> string" where
  "DstToString (CarrierEndpoint s) = s"
| "DstToString (multipathEndpoint s) = s"
| "DstToString (serverMultipathEndpoint s) = s"

text \<open>The calls of \<open>base.Send\<close> a handler makes, in order.\<close>

type_synonym sends = "(bytes list \<times> endpoint) list"

record outstandingProbe =
  op_nonce :: bytes
  op_sentAt :: gotime

record outstandingMTUProbe =
  om_nonce :: bytes
  om_target :: "16 word"

definition probeInterval :: duration where "probeInterval = second"
definition probeTimeout :: duration where "probeTimeout = 2 * second"

record pathCore =
  pc_scheduler :: scheduler
  pc_paths :: "(string, endpoint) fmap"
  pc_probes :: "(string, outstandingProbe) fmap"
  pc_mtuProbes :: "(string, outstandingMTUProbe) fmap"
  pc_mtuDone :: "(string, bool) fmap"
  pc_pathMTU :: bool
  pc_dupLimiter :: byteRateLimiter
  pc_replies :: "(string \<times> bytes \<times> endpoint) list" \<comment> \<open>goroutines of sendControlReply that have not sent yet\<close>

abbreviation with_scheduler :: "(scheduler \<Rightarrow> scheduler) \<Rightarrow> 'a pathCore_scheme \<Rightarrow> 'a pathCore_scheme" where
  "with_scheduler f p \<equiv> p\<lparr>pc_scheduler := f (pc_scheduler p)\<rparr>"

datatype sendError = NoHealthyCandidate | NotRegistered | UnknownPeer | CarrierError

section \<open>Handlers\<close>

definition nameForEndpoint :: "string list \<Rightarrow> endpoint \<Rightarrow> 'a pathCore_scheme \<Rightarrow> string option" where
  "nameForEndpoint ks ep p =
     find (\<lambda>name. case fmlookup (pc_paths p) name of
        None \<Rightarrow> False | Some e \<Rightarrow> DstToString e = DstToString ep) ks"

definition sendProbe ::
  "string \<Rightarrow> gotime \<Rightarrow> bytes option \<Rightarrow> 'a pathCore_scheme \<Rightarrow> sends \<times> 'a pathCore_scheme" where
  "sendProbe name now rnd p =
     (case fmlookup (pc_paths p) name of
        None \<Rightarrow> ([], p)
      | Some ep \<Rightarrow>
          (case rnd of
             None \<Rightarrow> ([], p)
           | Some nonce \<Rightarrow>
               ([([EncodeControlFrame FramePathProbe nonce], ep)],
                p\<lparr>pc_probes := fmupd name \<lparr>op_nonce = nonce, op_sentAt = now\<rparr> (pc_probes p)\<rparr>)))"

definition sendMTUProbe ::
  "string \<Rightarrow> 16 word \<Rightarrow> bytes option \<Rightarrow> 'a pathCore_scheme \<Rightarrow> sends \<times> 'a pathCore_scheme" where
  "sendMTUProbe name target rnd p =
     (if \<not> pc_pathMTU p \<or> target = 0 then ([], p)
      else case fmlookup (pc_paths p) name of
        None \<Rightarrow> ([], p)
      | Some ep \<Rightarrow>
          (case rnd of
             None \<Rightarrow> ([], p)
           | Some nonce \<Rightarrow>
               if gm_get False (pc_mtuDone p) name then ([], p)
               else if fmlookup (pc_mtuProbes p) name \<noteq> None then ([], p)
               else ([([EncodeControlFrame FramePathMTUProbe (EncodePathMTUProbe nonce target)], ep)],
                     p\<lparr>pc_mtuProbes := fmupd name \<lparr>om_nonce = nonce, om_target = target\<rparr> (pc_mtuProbes p)\<rparr>)))"

text \<open>The reply is written by a goroutine of its own: it joins \<open>pc_replies\<close>, and \<open>finishReply\<close> is
  its body (the write, then the deferred \<open>FinishControlSend\<close>).\<close>

definition sendControlReply ::
  "string list \<Rightarrow> endpoint \<Rightarrow> bytes \<Rightarrow> 'a pathCore_scheme \<Rightarrow> 'a pathCore_scheme" where
  "sendControlReply ks ep frame p =
     (case nameForEndpoint ks ep p of
        None \<Rightarrow> p
      | Some name \<Rightarrow>
          (case ReserveControlSend name (pc_scheduler p) of
             (False, _) \<Rightarrow> p
           | (True, s) \<Rightarrow> p\<lparr>pc_scheduler := s, pc_replies := pc_replies p @ [(name, frame, ep)]\<rparr>))"

definition finishReply :: "nat \<Rightarrow> 'a pathCore_scheme \<Rightarrow> sends \<times> 'a pathCore_scheme" where
  "finishReply i p =
     (if i < length (pc_replies p)
      then (case pc_replies p ! i of (name, frame, ep) \<Rightarrow>
              ([([frame], ep)],
               with_scheduler (FinishControlSend name)
                 (p\<lparr>pc_replies := take i (pc_replies p) @ drop (Suc i) (pc_replies p)\<rparr>)))
      else ([], p))"

definition pathAck ::
  "string list \<Rightarrow> bytes \<Rightarrow> endpoint \<Rightarrow> gotime \<Rightarrow> bytes option \<Rightarrow> 'a pathCore_scheme \<Rightarrow> sends \<times> 'a pathCore_scheme" where
  "pathAck ks payload ep now rnd p =
     (case nameForEndpoint ks ep p of
        None \<Rightarrow> ([], p)
      | Some name \<Rightarrow>
          (case fmlookup (pc_probes p) name of
             None \<Rightarrow> ([], p)
           | Some outstanding \<Rightarrow>
               if op_nonce outstanding = payload
               then sendMTUProbe name minPathMTUProbe rnd
                      (with_scheduler (ProbeResult name (now - op_sentAt outstanding) True now)
                        (p\<lparr>pc_probes := fmdrop name (pc_probes p)\<rparr>))
               else ([], p)))"

definition pathMTUAck ::
  "string list \<Rightarrow> pathMTUProbe \<Rightarrow> endpoint \<Rightarrow> bytes option \<Rightarrow> 'a pathCore_scheme \<Rightarrow> sends \<times> 'a pathCore_scheme" where
  "pathMTUAck ks ack ep rnd p =
     (case nameForEndpoint ks ep p of
        None \<Rightarrow> ([], p)
      | Some name \<Rightarrow>
          (case fmlookup (pc_mtuProbes p) name of
             None \<Rightarrow> ([], p)
           | Some outstanding \<Rightarrow>
               if om_target outstanding = mp_target ack \<and> om_nonce outstanding = mp_nonce ack
               then let p1 = with_scheduler (ReportDatagramMTU name (mp_target ack))
                               (p\<lparr>pc_mtuProbes := fmdrop name (pc_mtuProbes p)\<rparr>);
                        next = nextPathMTUProbe (mp_target ack)
                    in if next = 0 then ([], p1\<lparr>pc_mtuDone := fmupd name True (pc_mtuDone p1)\<rparr>)
                       else sendMTUProbe name next rnd p1
               else ([], p)))"

definition handlePathControl ::
  "string list \<Rightarrow> byte \<Rightarrow> bytes \<Rightarrow> endpoint \<Rightarrow> gotime \<Rightarrow> bytes option \<Rightarrow> 'a pathCore_scheme \<Rightarrow> sends \<times> 'a pathCore_scheme" where
  "handlePathControl ks ty payload ep now rnd p =
     (if (ty = FramePathProbe \<or> ty = FramePathAck) \<and> \<not> ValidPathControl ty payload then ([], p)
      else if (ty = FramePathMTUProbe \<or> ty = FramePathMTUAck) \<and> \<not> pc_pathMTU p then ([], p)
      else if ty = FramePathProbe then ([], sendControlReply ks ep (EncodeControlFrame FramePathAck payload) p)
      else if ty = FramePathAck then pathAck ks payload ep now rnd p
      else if ty = FramePathMTUProbe then
        (case DecodePathMTUProbe payload of
           None \<Rightarrow> ([], p)
         | Some probe \<Rightarrow>
             ([], sendControlReply ks ep
                    (EncodeControlFrame FramePathMTUAck (EncodePathMTUAck (mp_nonce probe) (mp_target probe))) p))
      else if ty = FramePathMTUAck then
        (case DecodePathMTUAck payload of None \<Rightarrow> ([], p) | Some ack \<Rightarrow> pathMTUAck ks ack ep rnd p)
      else ([], p))"

definition probeOne ::
  "string \<Rightarrow> gotime \<Rightarrow> bytes option \<Rightarrow> 'a pathCore_scheme \<Rightarrow> sends \<times> 'a pathCore_scheme" where
  "probeOne name now rnd p =
     (case fmlookup (pc_probes p) name of
        Some outstanding \<Rightarrow>
          if now - op_sentAt outstanding < probeTimeout then ([], p)
          else sendProbe name now rnd
                 (with_scheduler (ProbeResult name 0 False now) (p\<lparr>pc_probes := fmdrop name (pc_probes p)\<rparr>))
      | None \<Rightarrow> sendProbe name now rnd p)"

text \<open>\<open>names\<close> are the path names in the order of the range loop that collects them, and \<open>rnd\<close> the
  nonce drawn for each.\<close>

fun probeAll ::
  "string list \<Rightarrow> gotime \<Rightarrow> (string \<Rightarrow> bytes option) \<Rightarrow> 'a pathCore_scheme \<Rightarrow> sends \<times> 'a pathCore_scheme" where
  "probeAll [] now rnd p = ([], p)"
| "probeAll (name # names) now rnd p =
     (if \<not> requiresActiveProbe name (pc_scheduler p) then probeAll names now rnd p
      else let (o1, p1) = probeOne name now (rnd name) p;
               (o2, p2) = probeAll names now rnd p1
           in (o1 @ o2, p2))"

definition isWireGuardTransport :: "bytes \<Rightarrow> bool" where
  "isWireGuardTransport b \<longleftrightarrow> 4 \<le> length b \<and> le32 b = 4"

definition isWireGuardTransportBatch :: "bytes list \<Rightarrow> bool" where
  "isWireGuardTransportBatch bufs \<longleftrightarrow> bufs \<noteq> [] \<and> isWireGuardTransport (hd bufs)"

text \<open>The last part of both \<open>Send\<close> methods: a transport batch the scheduler asks to duplicate goes to the
  alternate path as well, if the byte budget allows. \<open>ok\<close> says whether a call of \<open>base.Send\<close> succeeds.\<close>

definition batch_size :: "bytes list \<Rightarrow> nat" where
  "batch_size bufs = sum_list (map length bufs)"

definition duplicateSend ::
  "(bytes list \<Rightarrow> endpoint \<Rightarrow> bool) \<Rightarrow> gotime \<Rightarrow> bytes list \<Rightarrow> string \<Rightarrow> bool \<Rightarrow> 'a pathCore_scheme
   \<Rightarrow> bool \<times> sends \<times> 'a pathCore_scheme" where
  "duplicateSend ok now bufs alternate duplicate p =
     (if \<not> isWireGuardTransportBatch bufs then (True, [], p)
      else if duplicate then
        (case fmlookup (pc_paths p) alternate of
           None \<Rightarrow> (True, [], p)
         | Some second_ep \<Rightarrow>
             let n = batch_size bufs
             in case byte_Allow now (int n) (pc_dupLimiter p) of
                  (False, l) \<Rightarrow>
                    (True, [], with_scheduler (RecordDuplication alternate n False) (p\<lparr>pc_dupLimiter := l\<rparr>))
                | (True, l) \<Rightarrow>
                    (ok bufs second_ep, [(bufs, second_ep)],
                     with_scheduler (RecordDuplication alternate n True) (p\<lparr>pc_dupLimiter := l\<rparr>)))
      else (True, [], p))"

section \<open>Lemmas\<close>

subsection \<open>What the handlers leave alone\<close>

lemma sendProbe_same [simp]:
  "pc_scheduler (snd (sendProbe name now rnd p)) = pc_scheduler p"
  "pc_paths (snd (sendProbe name now rnd p)) = pc_paths p"
  "pc_mtuProbes (snd (sendProbe name now rnd p)) = pc_mtuProbes p"
  "pc_mtuDone (snd (sendProbe name now rnd p)) = pc_mtuDone p"
  "pc_pathMTU (snd (sendProbe name now rnd p)) = pc_pathMTU p"
  "pc_replies (snd (sendProbe name now rnd p)) = pc_replies p"
  "pc_dupLimiter (snd (sendProbe name now rnd p)) = pc_dupLimiter p"
  by (auto simp: sendProbe_def split: option.splits)

lemma sendMTUProbe_same [simp]:
  "pc_scheduler (snd (sendMTUProbe name t rnd p)) = pc_scheduler p"
  "pc_paths (snd (sendMTUProbe name t rnd p)) = pc_paths p"
  "pc_probes (snd (sendMTUProbe name t rnd p)) = pc_probes p"
  "pc_mtuDone (snd (sendMTUProbe name t rnd p)) = pc_mtuDone p"
  "pc_pathMTU (snd (sendMTUProbe name t rnd p)) = pc_pathMTU p"
  "pc_replies (snd (sendMTUProbe name t rnd p)) = pc_replies p"
  "pc_dupLimiter (snd (sendMTUProbe name t rnd p)) = pc_dupLimiter p"
  by (auto simp: sendMTUProbe_def split: option.splits)

lemma sendControlReply_same [simp]:
  "pc_paths (sendControlReply ks ep f p) = pc_paths p"
  "pc_probes (sendControlReply ks ep f p) = pc_probes p"
  "pc_mtuProbes (sendControlReply ks ep f p) = pc_mtuProbes p"
  "pc_mtuDone (sendControlReply ks ep f p) = pc_mtuDone p"
  by (auto simp: sendControlReply_def split: option.splits prod.splits bool.splits)

lemma handlePathControl_paths [simp]:
  "pc_paths (snd (handlePathControl ks ty payload ep now rnd p)) = pc_paths p"
  by (simp add: handlePathControl_def pathAck_def pathMTUAck_def Let_def split: option.splits)

lemma probeOne_same [simp]:
  "pc_paths (snd (probeOne name now rnd p)) = pc_paths p"
  "pc_mtuProbes (snd (probeOne name now rnd p)) = pc_mtuProbes p"
  "pc_mtuDone (snd (probeOne name now rnd p)) = pc_mtuDone p"
  by (simp_all add: probeOne_def split: option.splits)

lemma probeAll_same [simp]:
  "pc_paths (snd (probeAll names now rnd p)) = pc_paths p"
  "pc_mtuProbes (snd (probeAll names now rnd p)) = pc_mtuProbes p"
  "pc_mtuDone (snd (probeAll names now rnd p)) = pc_mtuDone p"
  by (induction names arbitrary: p) (simp_all add: case_prod_beta Let_def)

lemma nameForEndpoint_path:
  "nameForEndpoint ks ep p = Some name \<Longrightarrow>
   \<exists>e. fmlookup (pc_paths p) name = Some e \<and> DstToString e = DstToString ep"
  by (auto simp: nameForEndpoint_def find_Some_iff split: option.splits)

subsection \<open>The scheduler is driven through its operations\<close>

definition drives :: "scheduler \<Rightarrow> scheduler \<Rightarrow> bool" where
  "drives s t \<longleftrightarrow> (\<exists>es. run sched_step s es t)"

named_theorems drive

lemma drives_refl [drive, simp]: "drives s s"
  unfolding drives_def using run_nil [of sched_step s] by blast

lemma drives_step: "sched_step s e t \<Longrightarrow> drives s t"
  unfolding drives_def using run_one [of sched_step] by blast

lemma drives_trans: "drives s t \<Longrightarrow> drives t u \<Longrightarrow> drives s u"
  unfolding drives_def using run_append [of sched_step] by blast

lemma drives_ops [drive]:
  "name \<noteq> '''' \<Longrightarrow> drives s (sched_Register name kind s)"
  "drives s (ActivateCarrier name now s)"
  "drives s (ProbeResult name rtt up now s)"
  "drives s (CarrierFailure name s)"
  "drives s (FinishControlSend name s)"
  "drives s (RecordDuplication name n allowed s)"
  "drives s (ReportDatagramMTU name mtu s)"
  "drives s (SetForced name s)"
  by (rule drives_step, rule sched_step.intros, simp?)+

lemma drives_reserve: "ReserveControlSend name s = (b, t) \<Longrightarrow> drives s t"
  using sched_step.intros(5) [of s name] drives_step by fastforce

lemma drives_select: "range_order ks (sc_candidates s) \<Longrightarrow> selectLocked ks s = (res, t) \<Longrightarrow> drives s t"
  by (blast intro: drives_step sched_step.intros)

lemma drives_reply [drive]: "drives (pc_scheduler p) (pc_scheduler (sendControlReply ks ep f p))"
  by (auto simp: sendControlReply_def split: option.splits prod.splits bool.splits dest: drives_reserve)

lemma drives_control [drive]: "drives (pc_scheduler p) (pc_scheduler (snd (handlePathControl ks ty payload ep now rnd p)))"
  by (auto simp: handlePathControl_def pathAck_def pathMTUAck_def Let_def drive split: option.splits)

lemma drives_finish [drive]: "drives (pc_scheduler p) (pc_scheduler (snd (finishReply i p)))"
  by (auto simp: finishReply_def drive split: prod.splits)

lemma drives_probeOne [drive]: "drives (pc_scheduler p) (pc_scheduler (snd (probeOne name now rnd p)))"
  by (auto simp: probeOne_def drive split: option.splits)

lemma drives_probeAll [drive]: "drives (pc_scheduler p) (pc_scheduler (snd (probeAll names now rnd p)))"
proof (induction names arbitrary: p)
  case (Cons name names)
  obtain o1 p1 where 1: "probeOne name now (rnd name) p = (o1, p1)" by fastforce
  obtain o2 p2 where 2: "probeAll names now rnd p1 = (o2, p2)" by fastforce
  have "drives (pc_scheduler p) (pc_scheduler p2)"
    using drives_probeOne [of p name now "rnd name"] Cons.IH [of p1] 1 2 by (auto intro: drives_trans)
  then show ?case using 1 2 Cons.IH [of p] by simp
qed simp

lemma drives_dup [drive]: "drives (pc_scheduler p) (pc_scheduler (snd (snd (duplicateSend ok now bufs alt dup p))))"
  by (auto simp: duplicateSend_def Let_def drive split: option.splits prod.splits bool.splits)

lemma drives_proven: "drives s t \<Longrightarrow> proven_inv s \<Longrightarrow> proven_inv t"
  unfolding drives_def by (blast intro: proven.run_inv)

subsection \<open>Health\<close>

lemma healthy_on_candidate:
  "healthy (on_candidate name f s) n =
     (case fmlookup (sc_candidates s) n of None \<Rightarrow> False | Some c \<Rightarrow> cd_Healthy (if n = name then f c else c))"
  by (auto simp: healthy_def split: option.splits)

lemma healthy_ops [simp]:
  "healthy (ReportDatagramMTU name mtu s) n = healthy s n"
  "healthy (FinishControlSend name s) n = healthy s n"
  "healthy (RecordDuplication name k allowed s) n = healthy s n"
  "healthy (ProbeResult name rtt True now s) n \<longleftrightarrow> healthy s n \<or> n = name \<and> fmlookup (sc_candidates s) n \<noteq> None"
  by (auto simp: ReportDatagramMTU_def FinishControlSend_def RecordDuplication_def ProbeResult_def healthy_on_candidate
      probe_candidate_def record_probe_def Let_def healthy_def split: option.splits)

lemma healthy_reserve: "ReserveControlSend name s = (b, t) \<Longrightarrow> healthy t n = healthy s n"
  by (auto simp: ReserveControlSend_def healthy_def on_candidate_def split: option.splits if_splits)

lemma healthy_reply [simp]: "healthy (pc_scheduler (sendControlReply ks ep f p)) n = healthy (pc_scheduler p) n"
  by (auto simp: sendControlReply_def split: option.splits prod.splits bool.splits dest: healthy_reserve)

lemma healthy_mtu_ack [simp]: "healthy (pc_scheduler (snd (pathMTUAck ks ack ep rnd p))) n = healthy (pc_scheduler p) n"
  by (simp add: pathMTUAck_def Let_def split: option.splits)

lemma frame_neq [simp]:
  "FramePathProbe \<noteq> FramePathAck" "FramePathAck \<noteq> FramePathProbe" "FramePathMTUProbe \<noteq> FramePathProbe"
  "FramePathMTUProbe \<noteq> FramePathAck" "FramePathMTUAck \<noteq> FramePathProbe" "FramePathMTUAck \<noteq> FramePathAck"
  "FramePathMTUAck \<noteq> FramePathMTUProbe" "FramePathMTUProbe \<noteq> FramePathMTUAck"
  "FramePathAck \<noteq> FramePathMTUProbe" "FramePathAck \<noteq> FramePathMTUAck"
  "FramePathProbe \<noteq> FramePathMTUProbe" "FramePathProbe \<noteq> FramePathMTUAck"
  by (simp_all add: frame_defs)

lemma handle_ack:
  "handlePathControl ks FramePathAck payload ep now rnd p =
     (if length payload = pathProbeSize then pathAck ks payload ep now rnd p else ([], p))"
  by (simp add: handlePathControl_def ValidPathControl_def)

lemma handle_probe:
  "handlePathControl ks FramePathProbe payload ep now rnd p =
     (if length payload = pathProbeSize
      then ([], sendControlReply ks ep (EncodeControlFrame FramePathAck payload) p) else ([], p))"
  by (simp add: handlePathControl_def ValidPathControl_def)

lemma handle_other_health:
  "ty \<noteq> FramePathAck \<Longrightarrow>
   healthy (pc_scheduler (snd (handlePathControl ks ty payload ep now rnd p))) n = healthy (pc_scheduler p) n"
  by (simp add: handlePathControl_def split: option.splits)

subsection \<open>The invariant of a peer's paths\<close>

text \<open>The scheduler's candidates are exactly the registered paths, and the duplication budget is sound.\<close>

definition core_inv :: "'a pathCore_scheme \<Rightarrow> bool" where
  "core_inv m \<longleftrightarrow> proven_inv (pc_scheduler m) \<and>
     (\<forall>n. fmlookup (sc_candidates (pc_scheduler m)) n = None \<longleftrightarrow> fmlookup (pc_paths m) n = None) \<and>
     budget_inv (pc_dupLimiter m)"

definition registered_names :: "scheduler \<Rightarrow> string set" where
  "registered_names s = {n. fmlookup (sc_candidates s) n \<noteq> None}"

lemma registered_ops [simp]:
  "registered_names (on_candidate name f s) = registered_names s"
  "registered_names (ActivateCarrier name now s) = registered_names s"
  "registered_names (ProbeResult name rtt up now s) = registered_names s"
  "registered_names (CarrierFailure name s) = registered_names s"
  "registered_names (FinishControlSend name s) = registered_names s"
  "registered_names (RecordDuplication name k allowed s) = registered_names s"
  "registered_names (ReportDatagramMTU name mtu s) = registered_names s"
  "registered_names (SetForced name s) = registered_names s"
  "registered_names (sched_Register name kind s) = insert name (registered_names s)"
  by (auto simp: registered_names_def ActivateCarrier_def ProbeResult_def CarrierFailure_def FinishControlSend_def
      RecordDuplication_def ReportDatagramMTU_def SetForced_def sched_Register_def Let_def split: option.splits if_splits)

lemma registered_reserve: "ReserveControlSend name s = (b, t) \<Longrightarrow> registered_names t = registered_names s"
  by (auto simp: ReserveControlSend_def split: option.splits if_splits)

lemma registered_reply [simp]: "registered_names (pc_scheduler (sendControlReply ks ep f p)) = registered_names (pc_scheduler p)"
  by (auto simp: sendControlReply_def split: option.splits prod.splits bool.splits dest: registered_reserve)

lemma registered_control [simp]:
  "registered_names (pc_scheduler (snd (handlePathControl ks ty payload ep now rnd p))) = registered_names (pc_scheduler p)"
  by (simp add: handlePathControl_def pathAck_def pathMTUAck_def Let_def split: option.splits)

lemma registered_probeOne [simp]:
  "registered_names (pc_scheduler (snd (probeOne name now rnd p))) = registered_names (pc_scheduler p)"
  by (simp add: probeOne_def split: option.splits)

lemma registered_probeAll [simp]:
  "registered_names (pc_scheduler (snd (probeAll names now rnd p))) = registered_names (pc_scheduler p)"
  by (induction names arbitrary: p) (simp_all add: case_prod_beta Let_def)

lemma limiter_same [simp]:
  "pc_dupLimiter (sendControlReply ks ep f p) = pc_dupLimiter p"
  "pc_dupLimiter (snd (handlePathControl ks ty payload ep now rnd p)) = pc_dupLimiter p"
  "pc_dupLimiter (snd (probeOne name now rnd p)) = pc_dupLimiter p"
proof -
  show r: "pc_dupLimiter (sendControlReply ks ep f p) = pc_dupLimiter p" for f
    by (auto simp: sendControlReply_def split: option.splits prod.splits bool.splits)
  show "pc_dupLimiter (snd (handlePathControl ks ty payload ep now rnd p)) = pc_dupLimiter p"
    by (simp add: handlePathControl_def pathAck_def pathMTUAck_def r Let_def split: option.splits)
  show "pc_dupLimiter (snd (probeOne name now rnd p)) = pc_dupLimiter p"
    by (simp add: probeOne_def split: option.splits)
qed

lemma limiter_probeAll [simp]: "pc_dupLimiter (snd (probeAll names now rnd p)) = pc_dupLimiter p"
  by (induction names arbitrary: p) (simp_all add: case_prod_beta Let_def)

lemma core_inv_alt:
  "core_inv m \<longleftrightarrow> proven_inv (pc_scheduler m) \<and> registered_names (pc_scheduler m) = {n. fmlookup (pc_paths m) n \<noteq> None} \<and>
     budget_inv (pc_dupLimiter m)"
  unfolding core_inv_def registered_names_def set_eq_iff mem_Collect_eq by (simp only: Not_eq_iff)

lemma core_path:
  assumes "core_inv p" "proven (pc_scheduler p) n"
  shows "\<exists>e. fmlookup (pc_paths p) n = Some e"
proof -
  from assms(2) have "fmlookup (sc_candidates (pc_scheduler p)) n \<noteq> None" by (auto simp: proven_def split: option.splits)
  with assms(1) have "fmlookup (pc_paths p) n \<noteq> None" by (simp add: core_inv_def del: not_None_eq)
  then show ?thesis by simp
qed

text \<open>A change that drives the scheduler and keeps the names, the paths and the budget keeps the invariant.\<close>

lemma core_inv_frame:
  assumes "core_inv m" "drives (pc_scheduler m) (pc_scheduler m')"
    "registered_names (pc_scheduler m') = registered_names (pc_scheduler m)"
    "pc_paths m' = pc_paths m" "pc_dupLimiter m' = pc_dupLimiter m"
  shows "core_inv m'"
  using assms drives_proven unfolding core_inv_alt by auto

text \<open>The scheduler decides which paths a batch takes: what \<open>duplicateSend\<close> adds to the primary.\<close>

lemma duplicateSend_spec:
  assumes "duplicateSend ok now bufs alt dup p = (sent, outs, p')" "core_inv p" "bl_last (pc_dupLimiter p) \<le> now"
  shows "core_inv p'"
    "outs = [] \<and> sent \<or>
     (\<exists>e. outs = [(bufs, e)] \<and> sent = ok bufs e \<and> dup \<and> isWireGuardTransportBatch bufs \<and> fmlookup (pc_paths p) alt = Some e \<and>
        fl (of_nat (batch_size bufs)) \<le> bl_maxTokens (pc_dupLimiter p))"
    "healthy (pc_scheduler p') n = healthy (pc_scheduler p) n"
proof -
  obtain b l where a: "byte_Allow now (int (batch_size bufs)) (pc_dupLimiter p) = (b, l)" by fastforce
  have bi: "budget_inv (pc_dupLimiter p)" using assms(2) by (simp add: core_inv_def)
  have l: "budget_inv l" "b \<longrightarrow> fl (of_nat (batch_size bufs)) \<le> bl_maxTokens (pc_dupLimiter p)"
    using byte_Allow_inv [OF bi assms(3), of "int (batch_size bufs)"] a by simp_all
  have r: "core_inv (with_scheduler (RecordDuplication alt k al) (p\<lparr>pc_dupLimiter := l\<rparr>))" for k al
    using assms(2) l(1) drives_proven [OF drives_ops(6)] by (auto simp: core_inv_alt)
  show "core_inv p'" using assms(1,2) a r
    by (auto simp: duplicateSend_def Let_def split: if_splits option.splits bool.splits)
  show "outs = [] \<and> sent \<or>
     (\<exists>e. outs = [(bufs, e)] \<and> sent = ok bufs e \<and> dup \<and> isWireGuardTransportBatch bufs \<and> fmlookup (pc_paths p) alt = Some e \<and>
        fl (of_nat (batch_size bufs)) \<le> bl_maxTokens (pc_dupLimiter p))"
    using assms(1) a l(2) by (auto simp: duplicateSend_def Let_def split: if_splits option.splits bool.splits)
  show "healthy (pc_scheduler p') n = healthy (pc_scheduler p) n"
    using assms(1) a by (auto simp: duplicateSend_def Let_def split: if_splits option.splits bool.splits)
qed

lemma core_inv_ops:
  assumes "core_inv p"
  shows "core_inv (snd (handlePathControl ks ty payload ep now rnd p))" "core_inv (snd (probeAll names now rnd' p))"
    "core_inv (snd (finishReply i p))" "core_inv (with_scheduler (ActivateCarrier name now) p)"
    "core_inv (with_scheduler (CarrierFailure name) p)" "core_inv (with_scheduler (SetForced name) p)"
    "core_inv (snd (sendProbe name now rnd p))"
proof -
  have f: "registered_names (pc_scheduler (snd (finishReply i p))) = registered_names (pc_scheduler p)"
    "pc_paths (snd (finishReply i p)) = pc_paths p" "pc_dupLimiter (snd (finishReply i p)) = pc_dupLimiter p"
    by (simp_all add: finishReply_def split: prod.splits)
  show "core_inv (snd (handlePathControl ks ty payload ep now rnd p))" "core_inv (snd (probeAll names now rnd' p))"
    "core_inv (snd (finishReply i p))" "core_inv (with_scheduler (ActivateCarrier name now) p)"
    "core_inv (with_scheduler (CarrierFailure name) p)" "core_inv (with_scheduler (SetForced name) p)"
    "core_inv (snd (sendProbe name now rnd p))"
    by (rule core_inv_frame [OF assms]; simp add: drive f)+
qed

text \<open>Registering a path: the candidate and the path appear together.\<close>

lemma core_inv_register:
  assumes "core_inv p" "name \<noteq> ''''" "drives (pc_scheduler p) s" "registered_names s = registered_names (pc_scheduler p)"
    "pc_paths p' = fmupd name ep (pc_paths p)" "pc_scheduler p' = sched_Register name kind s" "pc_dupLimiter p' = pc_dupLimiter p"
  shows "core_inv p'"
proof -
  have "drives (pc_scheduler p) (pc_scheduler p')" using assms(3,6) drives_ops(1) [OF assms(2)] drives_trans by metis
  then show ?thesis using assms(1,4-7) drives_proven by (auto simp: core_inv_alt)
qed

subsection \<open>Sending\<close>

lemma select_core_inv:
  assumes "core_inv m" "range_order ks (sc_candidates (pc_scheduler m))" "selectLocked ks (pc_scheduler m) = (res, s)"
  shows "core_inv (m\<lparr>pc_scheduler := s\<rparr>)" "sc_candidates s = sc_candidates (pc_scheduler m)"
proof -
  have c: "sched_inv (pc_scheduler m)" using assms(1) by (simp add: core_inv_def proven_inv_def)
  from select_inv [OF c assms(2,3)] show s: "sc_candidates s = sc_candidates (pc_scheduler m)" by simp
  show "core_inv (m\<lparr>pc_scheduler := s\<rparr>)" using assms(1) drives_proven [OF drives_select [OF assms(2,3)]] s
    by (simp add: core_inv_def)
qed

lemma status_core_inv:
  assumes "core_inv m" "range_order ks (sc_candidates (pc_scheduler m))"
  shows "core_inv (with_scheduler (\<lambda>s. snd (sched_Status ks s)) m)"
proof -
  obtain res s where "selectLocked ks (pc_scheduler m) = (res, s)" by fastforce
  with select_core_inv(1) [OF assms this] show ?thesis by (simp add: sched_Status_def split: option.splits prod.splits)
qed

lemma status_candidates:
  assumes "core_inv m" "range_order ks (sc_candidates (pc_scheduler m))"
  shows "sc_candidates (snd (sched_Status ks (pc_scheduler m))) = sc_candidates (pc_scheduler m)"
proof -
  obtain res s where "selectLocked ks (pc_scheduler m) = (res, s)" by fastforce
  with select_core_inv(2) [OF assms this] show ?thesis by (simp add: sched_Status_def split: option.splits prod.splits)
qed

text \<open>What a send of a batch over the selected paths does: without a path it sends nothing; a failing primary
  is sent to once and loses its health; otherwise the batch goes to the primary once, and to the
  alternate at most once, for a transport batch and within the duplication budget.\<close>

definition dispatches ::
  "(bytes list \<Rightarrow> endpoint \<Rightarrow> bool) \<Rightarrow> bytes list \<Rightarrow> 'a pathCore_scheme \<Rightarrow> string \<Rightarrow> string \<Rightarrow> bool
   \<Rightarrow> (sendError, unit) outcome \<Rightarrow> sends \<Rightarrow> 'a pathCore_scheme \<Rightarrow> bool" where
  "dispatches ok bufs m pr alt dup r outs m' \<longleftrightarrow>
    (if pr = '''' then r = Err NoHealthyCandidate \<and> outs = [] \<and> (\<forall>n. healthy (pc_scheduler m') n = healthy (pc_scheduler m) n)
     else \<exists>first. fmlookup (pc_paths m) pr = Some first \<and>
       (if ok bufs first
        then (\<forall>n. healthy (pc_scheduler m') n = healthy (pc_scheduler m) n) \<and>
          (outs = [(bufs, first)] \<and> r = Ok () \<or>
           (\<exists>e. outs = [(bufs, first), (bufs, e)] \<and> r = (if ok bufs e then Ok () else Err CarrierError) \<and> dup \<and>
              isWireGuardTransportBatch bufs \<and> fmlookup (pc_paths m) alt = Some e \<and>
              fl (of_nat (batch_size bufs)) \<le> bl_maxTokens (pc_dupLimiter m)))
        else r = Err CarrierError \<and> outs = [(bufs, first)] \<and> \<not> healthy (pc_scheduler m') pr \<and>
          (\<forall>n. n \<noteq> pr \<longrightarrow> healthy (pc_scheduler m') n = healthy (pc_scheduler m) n)))"

lemma dispatches_ok:
  assumes d: "duplicateSend ok now bufs alt dup m2 = (sent, dups, m')" and i: "core_inv m2"
    and now: "bl_last (pc_dupLimiter m2) \<le> now" and h: "\<And>n. healthy (pc_scheduler m2) n = healthy (pc_scheduler m) n"
    and same: "pc_paths m2 = pc_paths m" "pc_dupLimiter m2 = pc_dupLimiter m"
    and f: "pr \<noteq> ''''" "fmlookup (pc_paths m) pr = Some first" "ok bufs first"
  shows "core_inv m' \<and> dispatches ok bufs m pr alt dup (if sent then Ok () else Err CarrierError) ((bufs, first) # dups) m'"
proof -
  note ds = duplicateSend_spec [OF d i now]
  have h': "\<forall>n. healthy (pc_scheduler m') n = healthy (pc_scheduler m) n" using ds(3) h by simp
  from ds(2) show ?thesis
  proof (elim disjE conjE exE)
    assume "dups = []" sent
    with ds(1) h' f show ?thesis by (simp add: dispatches_def)
  next
    fix e assume "dups = [(bufs, e)]" "sent = ok bufs e" dup "isWireGuardTransportBatch bufs" "fmlookup (pc_paths m2) alt = Some e"
      "fl (of_nat (batch_size bufs)) \<le> bl_maxTokens (pc_dupLimiter m2)"
    with ds(1) h' f same show ?thesis by (simp add: dispatches_def)
  qed
qed

lemma dispatches_fail:
  assumes i: "core_inv (m\<lparr>pc_scheduler := s\<rparr>)" and c: "sc_candidates s = sc_candidates (pc_scheduler m)"
    and f: "pr \<noteq> ''''" "fmlookup (pc_paths m) pr = Some first" "\<not> ok bufs first"
  shows "core_inv (m\<lparr>pc_scheduler := CarrierFailure pr s\<rparr>) \<and>
    dispatches ok bufs m pr alt dup (Err CarrierError) [(bufs, first)] (m\<lparr>pc_scheduler := CarrierFailure pr s\<rparr>)"
proof -
  have "\<not> healthy (CarrierFailure pr s) pr" "\<forall>n. n \<noteq> pr \<longrightarrow> healthy (CarrierFailure pr s) n = healthy (pc_scheduler m) n"
    using c by (auto simp: CarrierFailure_def healthy_def split: option.splits)
  with core_inv_ops(5) [OF i, of pr] f show ?thesis by (simp add: dispatches_def)
qed

lemma selected_path:
  assumes "core_inv m" "selects (pc_scheduler m) pr alt dup s'" "pr \<noteq> ''''"
  shows "\<exists>first. fmlookup (pc_paths m) pr = Some first"
proof -
  have "proven (pc_scheduler m) pr"
    using assms healthy_proven by (auto simp: selects_def core_inv_def proven_inv_def split: if_splits)
  then show ?thesis by (rule core_path [OF assms(1)])
qed

section \<open>Properties\<close>

text \<open>A received control frame makes an unhealthy candidate healthy only if it is an acknowledgement
  that came from the endpoint registered for that candidate and echoes the nonce of the candidate's
  outstanding probe; that probe is then gone, so that the same frame has no second effect. No control
  frame makes a healthy candidate unhealthy.\<close>

theorem health_needs_matching_ack:
  assumes "handlePathControl ks ty payload ep now rnd p = (outs, p')"
  shows "(healthy (pc_scheduler p) n \<longrightarrow> healthy (pc_scheduler p') n) \<and>
    (healthy (pc_scheduler p') n \<and> \<not> healthy (pc_scheduler p) n \<longrightarrow>
      ty = FramePathAck \<and> length payload = pathProbeSize \<and>
      (\<exists>e pr. fmlookup (pc_paths p) n = Some e \<and> DstToString e = DstToString ep \<and>
        fmlookup (pc_probes p) n = Some pr \<and> op_nonce pr = payload \<and> fmlookup (pc_probes p') n = None))"
proof (cases "ty = FramePathAck")
  case False
  with assms handle_other_health [OF False, of ks payload ep now rnd p n] show ?thesis by simp
next
  case True
  have p': "p' = (if length payload = pathProbeSize then snd (pathAck ks payload ep now rnd p) else p)"
    using assms True by (auto simp: handle_ack split: if_splits)
  show ?thesis
  proof (cases "\<exists>name pr. nameForEndpoint ks ep p = Some name \<and> fmlookup (pc_probes p) name = Some pr \<and>
      op_nonce pr = payload \<and> length payload = pathProbeSize")
    case match: True
    then obtain name pr where m: "nameForEndpoint ks ep p = Some name" "fmlookup (pc_probes p) name = Some pr"
      "op_nonce pr = payload" "length payload = pathProbeSize" by blast
    have s: "pc_scheduler p' = ProbeResult name (now - op_sentAt pr) True now (pc_scheduler p)"
      "pc_probes p' = fmdrop name (pc_probes p)" using p' m by (simp_all add: pathAck_def)
    from nameForEndpoint_path [OF m(1)] m True show ?thesis by (auto simp: s)
  next
    case False
    then have "p' = p" using p' by (auto simp: pathAck_def split: option.splits if_splits)
    then show ?thesis by simp
  qed
qed

text \<open>A probe exchange completes. The probe frame one side sends, received by the other side from an
  endpoint it knows while no reply of that candidate is being written, is answered on that endpoint with a
  frame of the same length; and that answer makes the prober's candidate healthy, without misses, and
  sets its first RTT to the time between probe and answer.\<close>

theorem probe_round_trip:
  assumes A: "fmlookup (pc_paths A) name = Some epB" "length nonce = pathProbeSize"
    "sendProbe name t0 (Some nonce) A = (outs, A1)"
    "nameForEndpoint ksA epB A = Some name" "fmlookup (sc_candidates (pc_scheduler A)) name = Some ca" "t0 < t2"
    and B: "nameForEndpoint ksB epA B = Some nb" "fmlookup (sc_candidates (pc_scheduler B)) nb = Some cb" "\<not> cd_controlSending cb"
  shows "\<exists>probe ty1 pl1 ack ty2 pl2 B1 B2 A2 c.
    outs = [([probe], epB)] \<and> DecodeControlFrame probe = Some (ty1, pl1) \<and>
    handlePathControl ksB ty1 pl1 epA t1 r1 B = ([], B1) \<and>
    finishReply (length (pc_replies B)) B1 = ([([ack], epA)], B2) \<and> length ack = length probe \<and>
    DecodeControlFrame ack = Some (ty2, pl2) \<and> snd (handlePathControl ksA ty2 pl2 epB t2 r2 A1) = A2 \<and>
    fmlookup (sc_candidates (pc_scheduler A2)) name = Some c \<and> cd_Healthy c \<and> cd_misses c = 0 \<and>
    (cd_RTT ca = 0 \<longrightarrow> cd_RTT c = t2 - t0)"
proof -
  let ?probe = "EncodeControlFrame FramePathProbe nonce" and ?ack = "EncodeControlFrame FramePathAck nonce"
  let ?B1 = "sendControlReply ksB epA ?ack B"
  have A1: "outs = [([?probe], epB)]" "A1 = A\<lparr>pc_probes := fmupd name \<lparr>op_nonce = nonce, op_sentAt = t0\<rparr> (pc_probes A)\<rparr>"
    using A(1,3) by (auto simp: sendProbe_def)
  have h1: "handlePathControl ksB FramePathProbe nonce epA t1 r1 B = ([], ?B1)" using A(2) by (simp add: handle_probe)
  have B1: "pc_replies ?B1 = pc_replies B @ [(nb, ?ack, epA)]"
    using B by (simp add: sendControlReply_def ReserveControlSend_def)
  have f: "\<exists>B2. finishReply (length (pc_replies B)) ?B1 = ([([?ack], epA)], B2)"
    by (simp add: finishReply_def B1)
  have n1: "nameForEndpoint ksA epB A1 = Some name" using A(4) A1(2) by (simp add: nameForEndpoint_def)
  let ?A2 = "snd (handlePathControl ksA FramePathAck nonce epB t2 r2 A1)"
  have "pc_scheduler ?A2 = ProbeResult name (t2 - t0) True t2 (pc_scheduler A)"
    using n1 A(2) by (simp add: handle_ack pathAck_def A1(2))
  then have c: "fmlookup (sc_candidates (pc_scheduler ?A2)) name = Some (probe_candidate (t2 - t0) True t2 ca)"
    using A(5) by (simp add: ProbeResult_def)
  have q: "cd_Healthy (probe_candidate (t2 - t0) True t2 ca)" "cd_misses (probe_candidate (t2 - t0) True t2 ca) = 0"
    "cd_RTT ca = 0 \<longrightarrow> cd_RTT (probe_candidate (t2 - t0) True t2 ca) = t2 - t0"
    using A(6) by (auto simp: probe_candidate_def record_probe_def Let_def)
  have d: "DecodeControlFrame ?probe = Some (FramePathProbe, nonce)" "DecodeControlFrame ?ack = Some (FramePathAck, nonce)"
    "length ?ack = length ?probe" by simp_all
  from A1(1) d h1 f c q show ?thesis by blast
qed

text \<open>Two peers with one direct path each.\<close>

definition demo_core :: "endpoint \<Rightarrow> pathCore" where
  "demo_core ep = \<lparr>pc_scheduler = sched_Register ''direct-udp'' PathDirect NewScheduler,
     pc_paths = fmupd ''direct-udp'' ep fmempty, pc_probes = fmempty, pc_mtuProbes = fmempty, pc_mtuDone = fmempty,
     pc_pathMTU = True, pc_dupLimiter = newByteRateLimiter 0 0, pc_replies = []\<rparr>"

definition demo_probed :: pathCore where
  "demo_probed = demo_core (CarrierEndpoint ''10.0.0.2:51820'')
     \<lparr>pc_probes := fmupd ''direct-udp'' \<lparr>op_nonce = replicate 12 9, op_sentAt = 3\<rparr> fmempty\<rparr>"

lemma demo_core_facts:
  "nameForEndpoint [''direct-udp''] ep (demo_core ep) = Some ''direct-udp''"
  "fmlookup (pc_paths (demo_core ep)) ''direct-udp'' = Some ep"
  "fmlookup (sc_candidates (pc_scheduler (demo_core ep))) ''direct-udp'' = Some (newCandidate ''direct-udp'' PathDirect)"
  "\<not> cd_controlSending (newCandidate ''direct-udp'' PathDirect)"
  "\<not> healthy (pc_scheduler (demo_core ep)) ''direct-udp''"
  by (simp_all add: nameForEndpoint_def demo_core_def sched_Register_def NewScheduler_def newCandidate_def healthy_def)

theorem health_needs_matching_ack_witness:
  "\<exists>outs p'. handlePathControl [''direct-udp''] FramePathAck (replicate 12 9) (CarrierEndpoint ''10.0.0.2:51820'') 8 None demo_probed
     = (outs, p') \<and> healthy (pc_scheduler p') ''direct-udp'' \<and> fmlookup (pc_probes p') ''direct-udp'' = None"
proof -
  let ?ep = "CarrierEndpoint ''10.0.0.2:51820''"
  obtain outs p' where h: "handlePathControl [''direct-udp''] FramePathAck (replicate 12 9) ?ep 8 None demo_probed = (outs, p')"
    by fastforce
  have n: "nameForEndpoint [''direct-udp''] ?ep demo_probed = Some ''direct-udp''"
    by (simp add: demo_probed_def nameForEndpoint_def demo_core_def)
  have s: "pc_scheduler demo_probed = pc_scheduler (demo_core ?ep)" by (simp add: demo_probed_def)
  have "pc_scheduler p' = ProbeResult ''direct-udp'' 5 True 8 (pc_scheduler demo_probed)"
    using arg_cong [OF h, of "\<lambda>r. pc_scheduler (snd r)"]
    by (simp add: handle_ack pathAck_def pathProbeSize_def n) (simp add: demo_probed_def)
  with demo_core_facts(3) [of ?ep] have up: "healthy (pc_scheduler p') ''direct-udp''" by (simp add: s)
  from health_needs_matching_ack [OF h, of "''direct-udp''"] up demo_core_facts(5) [of ?ep]
  have "fmlookup (pc_probes p') ''direct-udp'' = None" by (auto simp: s)
  with h up show ?thesis by blast
qed

theorem probe_round_trip_witness:
  "\<exists>probe ty1 pl1 ack ty2 pl2 B1 B2 A2 c.
    fst (sendProbe ''direct-udp'' 3 (Some (replicate 12 9)) (demo_core (CarrierEndpoint ''b''))) = [([probe], CarrierEndpoint ''b'')] \<and>
    DecodeControlFrame probe = Some (ty1, pl1) \<and>
    handlePathControl [''direct-udp''] ty1 pl1 (CarrierEndpoint ''a'') 4 None (demo_core (CarrierEndpoint ''a'')) = ([], B1) \<and>
    finishReply 0 B1 = ([([ack], CarrierEndpoint ''a'')], B2) \<and> DecodeControlFrame ack = Some (ty2, pl2) \<and>
    snd (handlePathControl [''direct-udp''] ty2 pl2 (CarrierEndpoint ''b'') 5 None
      (snd (sendProbe ''direct-udp'' 3 (Some (replicate 12 9)) (demo_core (CarrierEndpoint ''b''))))) = A2 \<and>
    fmlookup (sc_candidates (pc_scheduler A2)) ''direct-udp'' = Some c \<and> cd_Healthy c \<and> cd_RTT c = 2"
proof -
  have len: "length (replicate 12 9 :: bytes) = pathProbeSize" by (simp add: pathProbeSize_def)
  have r: "length (pc_replies (demo_core (CarrierEndpoint ''a''))) = 0" by (simp add: demo_core_def)
  have rtt: "cd_RTT (newCandidate ''direct-udp'' PathDirect) = 0" by (simp add: newCandidate_def)
  note f = demo_core_facts
  from probe_round_trip [OF f(2) len prod.collapse [symmetric] f(1) f(3) _ f(1) f(3) f(4),
      of 3 5 "CarrierEndpoint ''b''" "CarrierEndpoint ''a''" 4 None None] r rtt
  show ?thesis by simp blast
qed

end
