(* ===== verification/Multipath.thy ===== *)
theory Multipath
  imports Path_Probing
begin

text \<open>
  \<^verbatim>\<open>MultipathBind\<close> of \<^verbatim>\<open>pkg/wstransport/multipath.go\<close>: the client's bind, one logical WireGuard endpoint over
  several carrier paths. The underlying bind is a parameter: \<open>ok\<close> says whether a call of its \<open>Send\<close>
  succeeds, and the results of its receive functions are arguments.
\<close>

section \<open>The bind\<close>

record multipathBind = pathCore +
  mb_cache :: duplicateCache
  mb_id :: string
  mb_stopped :: bool
  mb_probeLoops :: nat \<comment> \<open>probe-loop goroutines that have not been told to stop\<close>
  mb_relayEndpointID :: "string option"
  mb_relaySentBytes :: "64 word"
  mb_relaySentPackets :: "64 word"
  mb_relayReceivedBytes :: "64 word"
  mb_relayReceivedPackets :: "64 word"

definition MultipathSentinel :: string where "MultipathSentinel = ''mp:relay''"

definition NewMultipathBind :: "string \<Rightarrow> bool \<Rightarrow> int \<Rightarrow> gotime \<Rightarrow> multipathBind" where
  "NewMultipathBind bid pathMTU duplicateRate now =
     \<lparr>pc_scheduler = NewScheduler, pc_paths = fmempty, pc_probes = fmempty, pc_mtuProbes = fmempty,
      pc_mtuDone = fmempty, pc_pathMTU = pathMTU,
      pc_dupLimiter = newByteRateLimiter (resolveDuplicateRate duplicateRate) now, pc_replies = [],
      mb_cache = NewDuplicateCache 4096 (10 * second), mb_id = bid, mb_stopped = False, mb_probeLoops = 1,
      mb_relayEndpointID = None, mb_relaySentBytes = 0, mb_relaySentPackets = 0,
      mb_relayReceivedBytes = 0, mb_relayReceivedPackets = 0\<rparr>"

definition RelayLegStats :: "multipathBind \<Rightarrow> 64 word \<times> 64 word \<times> 64 word \<times> 64 word" where
  "RelayLegStats m =
     (mb_relaySentBytes m, mb_relaySentPackets m, mb_relayReceivedBytes m, mb_relayReceivedPackets m)"

definition ResetRelayLegStats :: "multipathBind \<Rightarrow> multipathBind" where
  "ResetRelayLegStats m =
     m\<lparr>mb_relaySentBytes := 0, mb_relaySentPackets := 0, mb_relayReceivedBytes := 0, mb_relayReceivedPackets := 0\<rparr>"

definition mp_RegisterPath ::
  "string \<Rightarrow> string \<Rightarrow> endpoint \<Rightarrow> gotime \<Rightarrow> bytes option \<Rightarrow> multipathBind \<Rightarrow> sends \<times> multipathBind" where
  "mp_RegisterPath name kind ep now rnd m =
     (let m1 = m\<lparr>pc_paths := fmupd name ep (pc_paths m)\<rparr>;
          m2 = (if name = PathUDPRelay then m1\<lparr>mb_relayEndpointID := Some (DstToString ep)\<rparr> else m1);
          m3 = with_scheduler (sched_Register name kind) m2
      in if kind \<noteq> PathWSS then sendProbe name now rnd m3 else ([], m3))"

definition mp_SetForced :: "string \<Rightarrow> multipathBind \<Rightarrow> multipathBind" where
  "mp_SetForced name m = with_scheduler (SetForced name) m"

definition restartProbeLoop :: "multipathBind \<Rightarrow> multipathBind" where
  "restartProbeLoop m =
     (if mb_stopped m then m\<lparr>mb_stopped := False, mb_probeLoops := mb_probeLoops m + 1\<rparr> else m)"

definition mp_Close :: "multipathBind \<Rightarrow> multipathBind" where
  "mp_Close m = (if mb_stopped m then m else m\<lparr>mb_stopped := True, mb_probeLoops := mb_probeLoops m - 1\<rparr>)"

text \<open>The results of \<open>base.Open\<close> and of the \<open>onOpen\<close> callback are arguments; a failing callback closes the
  underlying bind.\<close>

datatype 'e openResult = Opened nat | OpenFailed 'e | OpenCallbackFailed 'e

definition mp_Open :: "'e + nat \<Rightarrow> 'e option \<Rightarrow> multipathBind \<Rightarrow> 'e openResult \<times> multipathBind" where
  "mp_Open base_open onOpen m =
     (let m1 = restartProbeLoop m
      in case base_open of
           Inl e \<Rightarrow> (OpenFailed e, m1)
         | Inr port \<Rightarrow> (case onOpen of Some e \<Rightarrow> (OpenCallbackFailed e, m1) | None \<Rightarrow> (Opened port, m1)))"

definition mp_ParseEndpoint :: "(string \<Rightarrow> endpoint option) \<Rightarrow> string \<Rightarrow> multipathBind \<Rightarrow> endpoint option" where
  "mp_ParseEndpoint base_parse s m =
     (if s = MultipathSentinel then Some (multipathEndpoint (mb_id m)) else base_parse s)"

section \<open>Sending\<close>

fun is_multipathEndpoint :: "endpoint \<Rightarrow> bool" where
  "is_multipathEndpoint (multipathEndpoint _) = True"
| "is_multipathEndpoint _ = False"

text \<open>\<open>ks\<close> and \<open>ks'\<close> are the orders of the range loops of \<open>Select\<close> and of the \<open>Status\<close> call whose result
  the debug messages carry.\<close>

definition mp_Send ::
  "(bytes list \<Rightarrow> endpoint \<Rightarrow> bool) \<Rightarrow> string list \<Rightarrow> string list \<Rightarrow> gotime \<Rightarrow> bytes list \<Rightarrow> endpoint \<Rightarrow> multipathBind
   \<Rightarrow> (sendError, unit) outcome \<times> sends \<times> multipathBind" where
  "mp_Send ok ks ks' now bufs ep m =
     (if \<not> is_multipathEndpoint ep then (if ok bufs ep then Ok () else Err CarrierError, [(bufs, ep)], m)
      else case selectLocked ks (pc_scheduler m) of
        (None, s) \<Rightarrow> (Panic, [], m\<lparr>pc_scheduler := s\<rparr>)
      | (Some (primary, alternate, duplicate), s) \<Rightarrow>
          let m1 = m\<lparr>pc_scheduler := s\<rparr> in
          if primary = '''' then (Err NoHealthyCandidate, [], with_scheduler (\<lambda>s. snd (sched_Status ks' s)) m1)
          else case fmlookup (pc_paths m1) primary of
            None \<Rightarrow> (Err NotRegistered, [], with_scheduler (\<lambda>s. snd (sched_Status ks' s)) m1)
          | Some first \<Rightarrow>
              if \<not> ok bufs first then (Err CarrierError, [(bufs, first)], with_scheduler (CarrierFailure primary) m1)
              else
                let m2 = (if primary = PathUDPRelay
                          then m1\<lparr>mb_relaySentBytes := mb_relaySentBytes m1 + of_nat (batch_size bufs),
                                  mb_relaySentPackets := mb_relaySentPackets m1 + of_nat (length bufs)\<rparr> else m1);
                    (sent, dups, m3) = duplicateSend ok now bufs alternate duplicate m2
                in (if sent then Ok () else Err CarrierError, (bufs, first) # dups, m3))"

section \<open>Receiving\<close>

text \<open>What the receive loop draws for one slot: the clock, the order of \<open>nameForEndpoint\<close>, a nonce, and the
  key the duplicate cache would evict.\<close>

record recvEnv =
  re_now :: gotime
  re_order :: "string list"
  re_rnd :: "bytes option"
  re_victim :: bytes

definition countRelayReceived :: "bytes \<Rightarrow> endpoint \<Rightarrow> multipathBind \<Rightarrow> multipathBind" where
  "countRelayReceived b ep m =
     (if mb_relayEndpointID m = Some (DstToString ep)
      then m\<lparr>mb_relayReceivedBytes := mb_relayReceivedBytes m + of_nat (length b),
             mb_relayReceivedPackets := mb_relayReceivedPackets m + 1\<rparr> else m)"

text \<open>One surviving packet: the slot at \<open>out\<close> gets the packet of slot \<open>i\<close> and the stable endpoint.\<close>

definition deliver_slot :: "nat \<Rightarrow> nat \<Rightarrow> endpoint \<Rightarrow> endpoint slot list \<Rightarrow> endpoint slot list" where
  "deliver_slot out i ep slots =
     (let slots1 = slots[out := (slots ! out)\<lparr>sl_ep := ep\<rparr>]
      in if out \<noteq> i
         then let (buf, k) = copy_into (sl_buf (slots1 ! out)) (slot_pkt (slots ! i))
              in slots1[out := (slots1 ! out)\<lparr>sl_buf := buf, sl_size := k\<rparr>]
         else slots1)"

fun mp_compact ::
  "(nat \<Rightarrow> recvEnv) \<Rightarrow> nat \<Rightarrow> nat \<Rightarrow> nat \<Rightarrow> endpoint slot list \<Rightarrow> multipathBind
   \<Rightarrow> nat \<times> endpoint slot list \<times> sends \<times> multipathBind" where
  "mp_compact env 0 i out slots m = (out, slots, [], m)"
| "mp_compact env (Suc left) i out slots m =
     (let b = slot_pkt (slots ! i); ep = sl_ep (slots ! i); e = env i in
      case DecodeControlFrame b of
        Some (ty, payload) \<Rightarrow>
          (let (o1, m1) = handlePathControl (re_order e) ty payload ep (re_now e) (re_rnd e) m;
               (out', slots', o2, m2) = mp_compact env left (Suc i) out slots m1
           in (out', slots', o1 @ o2, m2))
      | None \<Rightarrow>
          (case dup_Seen b (re_now e) (re_victim e) (mb_cache m) of
             (True, c) \<Rightarrow> mp_compact env left (Suc i) out slots (m\<lparr>mb_cache := c\<rparr>)
           | (False, c) \<Rightarrow>
               let m1 = countRelayReceived b ep (m\<lparr>mb_cache := c\<rparr>);
                   slots2 = deliver_slot out i (multipathEndpoint (mb_id m1)) slots
               in mp_compact env left (Suc i) (Suc out) slots2 m1))"

fun mp_receive ::
  "(nat \<Rightarrow> nat \<Rightarrow> recvEnv) \<Rightarrow> ('err + endpoint slot list) list \<Rightarrow> multipathBind
   \<Rightarrow> (('err + nat \<times> endpoint slot list) \<times> sends \<times> multipathBind) option" where
  "mp_receive env [] m = None"
| "mp_receive env (Inl e # rs) m = Some (Inl e, [], m)"
| "mp_receive env (Inr slots # rs) m =
     (case mp_compact (env (length rs)) (length slots) 0 0 slots m of
        (out, slots', o1, m1) \<Rightarrow>
          if out > 0 then Some (Inr (out, slots'), o1, m1)
          else (case mp_receive env rs m1 of
                  None \<Rightarrow> None | Some (r, o2, m2) \<Rightarrow> Some (r, o1 @ o2, m2)))"

section \<open>Runs of the bind\<close>

text \<open>The events of a client: the operations of the bind, the frames its receive functions hand to
  \<open>handlePathControl\<close>, the ticks of the probe loop, and the carrier callbacks that reach its scheduler.\<close>

datatype mp_event =
    MRegister string string endpoint
  | MControl byte bytes endpoint
  | MSend "bytes list" endpoint "(sendError, unit) outcome"
  | MTick
  | MReply
  | MForce string
  | MActivate string
  | MCarrierFailure string
  | MLifecycle
  | MResetStats

inductive mp_step :: "multipathBind \<Rightarrow> mp_event \<times> sends \<Rightarrow> multipathBind \<Rightarrow> bool" where
  mp_register: "name \<noteq> '''' \<Longrightarrow> mp_RegisterPath name kind ep now rnd m = (outs, m') \<Longrightarrow>
     mp_step m (MRegister name kind ep, outs) m'"
| mp_control: "handlePathControl ks ty payload ep now rnd m = (outs, m') \<Longrightarrow> mp_step m (MControl ty payload ep, outs) m'"
| mp_send: "range_order ks (sc_candidates (pc_scheduler m)) \<Longrightarrow> range_order ks' (sc_candidates (pc_scheduler m)) \<Longrightarrow>
     bl_last (pc_dupLimiter m) \<le> now \<Longrightarrow> mp_Send ok ks ks' now bufs ep m = (r, outs, m') \<Longrightarrow>
     mp_step m (MSend bufs ep r, outs) m'"
| mp_tick: "probeAll names now rnd m = (outs, m') \<Longrightarrow> mp_step m (MTick, outs) m'"
| mp_reply: "finishReply i m = (outs, m') \<Longrightarrow> mp_step m (MReply, outs) m'"
| mp_force: "mp_step m (MForce name, []) (mp_SetForced name m)"
| mp_activate: "mp_step m (MActivate name, []) (with_scheduler (ActivateCarrier name now) m)"
| mp_carrierFailure: "mp_step m (MCarrierFailure name, []) (with_scheduler (CarrierFailure name) m)"
| mp_close: "mp_step m (MLifecycle, []) (mp_Close m)"
| mp_open: "mp_Open (base_open :: unit + nat) cb m = (r, m') \<Longrightarrow> mp_step m (MLifecycle, []) m'"
| mp_reset: "mp_step m (MResetStats, []) (ResetRelayLegStats m)"

lemma NewMultipathBind_inv: "rate < 2 ^ 53 \<Longrightarrow> core_inv (NewMultipathBind bid pathMTU rate now)"
  using new_scheduler_proven new_budget_inv [of "resolveDuplicateRate rate" now]
  by (simp add: core_inv_def NewMultipathBind_def resolveDuplicateRate_def defaultDuplicateRateBytesPerSec_def)
    (simp add: NewScheduler_def)

lemma mp_Send_spec:
  assumes inv: "core_inv m" and ks: "range_order ks (sc_candidates (pc_scheduler m))" "range_order ks' (sc_candidates (pc_scheduler m))"
    and now: "bl_last (pc_dupLimiter m) \<le> now" and s: "mp_Send ok ks ks' now bufs (multipathEndpoint i) m = (r, outs, m')"
  shows "\<exists>pr alt dup s'. selects (pc_scheduler m) pr alt dup s' \<and> core_inv m' \<and> dispatches ok bufs m pr alt dup r outs m'"
proof -
  have pv: "proven_inv (pc_scheduler m)" using inv by (simp add: core_inv_def)
  from selection_spec [OF pv ks(1)] obtain pr alt dup s' where
    sel: "selectLocked ks (pc_scheduler m) = (Some (pr, alt, dup), s')" and spec: "selects (pc_scheduler m) pr alt dup s'" by blast
  let ?m1 = "m\<lparr>pc_scheduler := s'\<rparr>"
  note m1 = select_core_inv [OF inv ks(1) sel]
  have h1: "healthy s' n = healthy (pc_scheduler m) n" for n using m1(2) by (simp add: healthy_def)
  have "core_inv m' \<and> dispatches ok bufs m pr alt dup r outs m'"
  proof (cases "pr = ''''")
    case True
    have o: "range_order ks' (sc_candidates (pc_scheduler ?m1))" using ks(2) m1(2) by simp
    from True s sel have "r = Err NoHealthyCandidate" "outs = []" "m' = with_scheduler (\<lambda>s. snd (sched_Status ks' s)) ?m1"
      by (auto simp: mp_Send_def Let_def)
    with status_core_inv [OF m1(1) o] status_candidates [OF m1(1) o] m1(2) True show ?thesis
      by (simp add: dispatches_def healthy_def)
  next
    case False
    then obtain first where f: "fmlookup (pc_paths m) pr = Some first" using selected_path [OF inv spec] by blast
    show ?thesis
    proof (cases "ok bufs first")
      case ok: True
      define m2 where "m2 = (if pr = PathUDPRelay
        then ?m1\<lparr>mb_relaySentBytes := mb_relaySentBytes ?m1 + of_nat (batch_size bufs),
                 mb_relaySentPackets := mb_relaySentPackets ?m1 + of_nat (length bufs)\<rparr> else ?m1)"
      obtain sent dups where d: "duplicateSend ok now bufs alt dup m2 = (sent, dups, m')"
        and r: "r = (if sent then Ok () else Err CarrierError)" "outs = (bufs, first) # dups"
        using s sel False f ok by (auto simp: mp_Send_def Let_def m2_def split: prod.splits)
      have same: "pc_paths m2 = pc_paths m" "pc_dupLimiter m2 = pc_dupLimiter m" "pc_scheduler m2 = s'" by (auto simp: m2_def)
      have i2: "core_inv m2" using m1(1) same by (simp add: core_inv_def)
      show ?thesis unfolding r
        by (rule dispatches_ok [where m = m, OF d i2]) (use now same h1 False f ok in auto)
    next
      case nok: False
      with s sel False f have r: "r = Err CarrierError" "outs = [(bufs, first)]" "m' = m\<lparr>pc_scheduler := CarrierFailure pr s'\<rparr>"
        by (auto simp: mp_Send_def Let_def)
      show ?thesis unfolding r by (rule dispatches_fail [where m = m and ok = ok, OF m1 False f nok])
    qed
  qed
  with spec show ?thesis by blast
qed

lemma mp_Send_other:
  "\<not> is_multipathEndpoint ep \<Longrightarrow> mp_Send ok ks ks' now bufs ep m = (r, outs, m') \<Longrightarrow> m' = m \<and> outs = [(bufs, ep)]"
  by (simp add: mp_Send_def)

lemma mp_register_inv: "core_inv m \<Longrightarrow> name \<noteq> '''' \<Longrightarrow> mp_RegisterPath name kind ep now rnd m = (outs, m') \<Longrightarrow> core_inv m'"
proof -
  assume m: "core_inv m" "name \<noteq> ''''" "mp_RegisterPath name kind ep now rnd m = (outs, m')"
  define m3 where "m3 = with_scheduler (sched_Register name kind)
    (if name = PathUDPRelay then m\<lparr>pc_paths := fmupd name ep (pc_paths m), mb_relayEndpointID := Some (DstToString ep)\<rparr>
     else m\<lparr>pc_paths := fmupd name ep (pc_paths m)\<rparr>)"
  have "core_inv m3"
    by (rule core_inv_register [OF m(1,2) drives_refl refl, where ep = ep and kind = kind]) (simp_all add: m3_def)
  moreover have "m' = m3 \<or> m' = snd (sendProbe name now rnd m3)"
    using arg_cong [OF m(3), of snd] by (auto simp: mp_RegisterPath_def Let_def m3_def split: if_splits)
  ultimately show ?thesis using core_inv_ops(7) by blast
qed

lemma mp_step_inv:
  assumes "core_inv m" "mp_step m e m'"
  shows "core_inv m'"
  using assms(2)
proof (cases rule: mp_step.cases)
  case (mp_send ks ks' now ok bufs ep r outs)
  show ?thesis
  proof (cases ep)
    case (multipathEndpoint i)
    with mp_Send_spec [OF assms(1) mp_send(2-4)] mp_send(5) show ?thesis by blast
  qed (use mp_Send_other [of ep ok ks ks' now bufs m r outs m'] mp_send(5) assms(1) in auto)
next
  case (mp_control ks ty payload ep now rnd outs)
  with core_inv_ops(1) [OF assms(1), of ks ty payload ep now rnd] show ?thesis by simp
next
  case (mp_tick names now rnd outs)
  with core_inv_ops(2) [OF assms(1), of names now rnd] show ?thesis by simp
next
  case (mp_reply i outs)
  with core_inv_ops(3) [OF assms(1), of i] show ?thesis by simp
next
  case (mp_open base_open cb r)
  then show ?thesis using assms(1)
    by (auto simp: mp_Open_def restartProbeLoop_def Let_def core_inv_def split: sum.splits option.splits if_splits)
next
  case (mp_register name kind ep now rnd outs)
  with mp_register_inv [OF assms(1)] show ?thesis by blast
next
  case (mp_force name)
  with core_inv_ops(6) [OF assms(1), of name] show ?thesis by (simp add: mp_SetForced_def)
next
  case (mp_activate name now)
  with core_inv_ops(4) [OF assms(1), of name now] show ?thesis by simp
next
  case (mp_carrierFailure name)
  with core_inv_ops(5) [OF assms(1), of name] show ?thesis by simp
qed (use assms(1) in \<open>simp_all add: mp_Close_def ResetRelayLegStats_def core_inv_def\<close>)

interpretation mp: inv_system mp_step core_inv
  by unfold_locales (rule mp_step_inv)

section \<open>The duplication budget over a run\<close>

text \<open>The bytes a send duplicated: all calls of \<open>base.Send\<close> after the first one.\<close>

fun duplicated :: "mp_event \<times> sends \<Rightarrow> nat" where
  "duplicated (MSend bufs ep r, outs) = sum_list (map (batch_size \<circ> fst) (tl outs))"
| "duplicated _ = 0"

fun is_send :: "mp_event \<times> sends \<Rightarrow> bool" where
  "is_send (MSend bufs ep r, outs) = True"
| "is_send _ = False"

definition total_duplicated :: "(mp_event \<times> sends) list \<Rightarrow> nat" where
  "total_duplicated es = sum_list (map duplicated es)"

text \<open>A burst of one second of the rate, what the rate gives over the elapsed time, and one byte per send for rounding.\<close>

definition duplication_budget :: "int \<Rightarrow> duration \<Rightarrow> nat \<Rightarrow> rat" where
  "duplication_budget rate elapsed sent =
     of_int rate + of_int rate * of_int elapsed / 1000000000 * (1 + 1 / 2 ^ 50) + of_nat sent"

text \<open>The limiter after a send: a call of the bucket, or no change.\<close>

definition spends :: "byteRateLimiter \<Rightarrow> gotime \<Rightarrow> nat \<Rightarrow> byteRateLimiter \<Rightarrow> bool" where
  "spends l now n l' \<longleftrightarrow> l' = l \<and> n = 0 \<or> (\<exists>k granted. byte_Allow now (int k) l = (granted, l') \<and> n = (if granted then k else 0))"

lemma duplicateSend_spends:
  assumes "duplicateSend ok now bufs alt dup p = (sent, outs, p')"
  shows "spends (pc_dupLimiter p) now (sum_list (map (batch_size \<circ> fst) outs)) (pc_dupLimiter p')"
proof (cases "isWireGuardTransportBatch bufs \<and> dup \<and> fmlookup (pc_paths p) alt \<noteq> None")
  case True
  obtain g l where a: "byte_Allow now (int (batch_size bufs)) (pc_dupLimiter p) = (g, l)" by fastforce
  have "pc_dupLimiter p' = l \<and> sum_list (map (batch_size \<circ> fst) outs) = (if g then batch_size bufs else 0)"
    using assms True a by (cases g) (auto simp: duplicateSend_def Let_def)
  with a show ?thesis unfolding spends_def by blast
next
  case False
  with assms have "outs = []" "p' = p" by (auto simp: duplicateSend_def split: if_splits)
  then show ?thesis by (simp add: spends_def)
qed

lemma mp_Send_spends:
  assumes "mp_Send ok ks ks' now bufs ep m = (r, outs, m')"
  shows "spends (pc_dupLimiter m) now (duplicated (MSend bufs ep r, outs)) (pc_dupLimiter m')"
proof -
  obtain res s where sel: "selectLocked ks (pc_scheduler m) = (res, s)" by fastforce
  consider (quiet) "pc_dupLimiter m' = pc_dupLimiter m" "tl outs = []"
    | (dup) m2 alt dup sent where "duplicateSend ok now bufs alt dup m2 = (sent, tl outs, m')" "pc_dupLimiter m2 = pc_dupLimiter m"
    using assms sel by (fastforce simp: mp_Send_def Let_def split: if_splits option.splits prod.splits)
  then show ?thesis
  proof cases
    case (dup m2 alt dup sent)
    with duplicateSend_spends [OF dup(1)] show ?thesis by simp
  qed (simp add: spends_def)
qed

lemma other_step_limiter:
  "mp_step m e m' \<Longrightarrow> \<not> is_send e \<Longrightarrow> pc_dupLimiter m' = pc_dupLimiter m \<and> duplicated e = 0"
  by (erule mp_step.cases)
    (auto simp: mp_RegisterPath_def mp_SetForced_def mp_Close_def mp_Open_def restartProbeLoop_def ResetRelayLegStats_def
      finishReply_def Let_def split: if_splits sum.splits option.splits prod.splits dest!: arg_cong [of _ _ snd])

text \<open>Potential: what was duplicated so far and the tokens left stay within the budget.\<close>

definition budget_kept :: "int \<Rightarrow> gotime \<Rightarrow> (mp_event \<times> sends) list \<Rightarrow> multipathBind \<Rightarrow> bool" where
  "budget_kept rate t0 es m \<longleftrightarrow> core_inv m \<and> bl_refillRate (pc_dupLimiter m) = of_int rate \<and> 0 \<le> rate \<and>
     of_nat (total_duplicated es) + bl_tokens (pc_dupLimiter m) \<le>
       duplication_budget rate (bl_last (pc_dupLimiter m) - t0) (length (filter is_send es))"

lemma spends_ledger:
  assumes "spends l now n l'" "budget_inv l" "bl_last l \<le> now"
  shows "of_nat n + bl_tokens l' \<le> bl_tokens l + bl_refillRate l * of_int (bl_last l' - bl_last l) / 1000000000 * (1 + 1 / 2 ^ 50) + 1
    \<and> bl_refillRate l' = bl_refillRate l"
  using assms(1) unfolding spends_def
proof (elim disjE exE conjE)
  fix k granted
  assume a: "byte_Allow now (int k) l = (granted, l')" "n = (if granted then k else 0)"
  note led = byte_Allow_ledger [OF assms(2,3) of_nat_0_le_iff a(1)]
  have "of_nat n = (if granted then of_int (int k) else (0 :: rat))" using a(2) by simp
  with led(1,4) show ?thesis unfolding led(2) by (simp only: add.commute)
qed simp

lemma duplication_budget_later:
  "duplication_budget rate (t + d) (Suc k) =
     duplication_budget rate t k + (of_int rate * of_int d / 1000000000 * (1 + 1 / 2 ^ 50) + 1)"
proof -
  have "of_int rate * of_int (t + d) / 1000000000 * c =
      of_int rate * of_int t / 1000000000 * c + of_int rate * of_int d / 1000000000 * (c :: rat)" for c
    by (simp add: distrib_left distrib_right add_divide_distrib)
  then show ?thesis unfolding duplication_budget_def by (simp only: of_nat_Suc add_ac)
qed

lemma budget_step:
  assumes "budget_kept rate t0 es m" "mp_step m e m'"
  shows "budget_kept rate t0 (es @ [e]) m'"
proof -
  let ?l = "pc_dupLimiter m" and ?l' = "pc_dupLimiter m'" and ?n = "length (filter is_send es)"
  have m: "core_inv m" and rate: "bl_refillRate ?l = of_int rate" "0 \<le> rate"
    and k: "of_nat (total_duplicated es) + bl_tokens ?l \<le> duplication_budget rate (bl_last ?l - t0) ?n"
    using assms(1) by (simp_all add: budget_kept_def)
  have core: "core_inv m'" "budget_inv ?l"
    using mp_step_inv [OF m assms(2)] m by (simp_all add: core_inv_def)
  have tot: "total_duplicated (es @ [e]) = total_duplicated es + duplicated e" by (simp add: total_duplicated_def)
  show ?thesis
  proof (cases "is_send e")
    case True
    then obtain bufs ep r outs where e: "e = (MSend bufs ep r, outs)" by (cases e rule: is_send.cases) auto
    from assms(2) obtain now where now: "bl_last ?l \<le> now" and s: "spends ?l now (duplicated e) ?l'"
      unfolding e by (cases rule: mp_step.cases) (use mp_Send_spends in blast)
    note led = spends_ledger [OF s core(2) now, unfolded rate(1)]
    have "of_nat (total_duplicated (es @ [e])) + bl_tokens ?l' \<le>
        duplication_budget rate (bl_last ?l - t0) ?n +
        (of_int rate * of_int (bl_last ?l' - bl_last ?l) / 1000000000 * (1 + 1 / 2 ^ 50) + 1)"
      using conjunct1 [OF led] k unfolding tot of_nat_add by (simp only: add_ac)
    also have "\<dots> = duplication_budget rate (bl_last ?l' - t0) (Suc ?n)"
      using duplication_budget_later [of rate "bl_last ?l - t0" "bl_last ?l' - bl_last ?l" ?n] by simp
    finally show ?thesis using led rate(2) core(1) True by (simp add: budget_kept_def)
  next
    case False
    with other_step_limiter [OF assms(2)] k rate core(1) show ?thesis
      by (simp add: budget_kept_def tot)
  qed
qed

lemma spends_last: "spends l now n l' \<Longrightarrow> bl_last l \<le> now \<Longrightarrow> bl_last l' \<le> now"
proof -
  have "byte_Allow now k l = (g, l') \<Longrightarrow> bl_last l' = now" for k g
    by (auto simp: byte_Allow_def Let_def split: if_splits dest: sym)
  then show "spends l now n l' \<Longrightarrow> bl_last l \<le> now \<Longrightarrow> bl_last l' \<le> now"
    unfolding spends_def by fastforce
qed

interpretation mp_budget: history_system mp_step "budget_kept rate t0" for rate t0
  by unfold_locales (rule budget_step)

lemma budget_kept_New:
  assumes "rate < 2 ^ 53"
  shows "budget_kept (resolveDuplicateRate rate) t0 [] (NewMultipathBind bid pathMTU rate t0)"
proof -
  define R where "R = nat (resolveDuplicateRate rate)"
  have R: "R < 2 ^ 53" "resolveDuplicateRate rate = int R" "0 < R"
    using assms by (auto simp: R_def resolveDuplicateRate_def defaultDuplicateRateBytesPerSec_def)
  then show ?thesis
    using NewMultipathBind_inv [OF assms, of bid pathMTU t0] fl_nat [OF R(1)]
    by (simp add: budget_kept_def NewMultipathBind_def newByteRateLimiter_def duplication_budget_def total_duplicated_def Let_def)
qed

lemma duplication_within_budget:
  assumes "run mp_step (NewMultipathBind bid pathMTU rate t0) es m" "rate < 2 ^ 53" "bl_last (pc_dupLimiter m) \<le> now"
  shows "of_nat (total_duplicated es) \<le> duplication_budget (resolveDuplicateRate rate) (now - t0) (length (filter is_send es))"
proof -
  let ?R = "resolveDuplicateRate rate" and ?n = "length (filter is_send es)" and ?l = "pc_dupLimiter m"
  have k: "budget_kept ?R t0 es m"
    using mp_budget.run_hinv [OF assms(1) budget_kept_New [OF assms(2)]] .
  then have "0 \<le> bl_tokens ?l" by (simp add: budget_kept_def core_inv_def budget_inv_def)
  with k have "of_nat (total_duplicated es) \<le> duplication_budget ?R (bl_last ?l - t0) ?n" by (simp add: budget_kept_def)
  also have "\<dots> \<le> duplication_budget ?R (now - t0) ?n"
    unfolding duplication_budget_def using k assms(3)
    by (intro add_mono order_refl mult_right_mono divide_right_mono mult_left_mono) (simp_all add: budget_kept_def)
  finally show ?thesis .
qed

section \<open>Receiving\<close>

text \<open>The packets of a batch that are neither control frames nor duplicates, in order.\<close>

fun fresh :: "(nat \<Rightarrow> recvEnv) \<Rightarrow> nat \<Rightarrow> bytes list \<Rightarrow> duplicateCache \<Rightarrow> bytes list" where
  "fresh env i [] c = []"
| "fresh env i (b # bs) c =
     (if isControlFrame b then fresh env (Suc i) bs c
      else case dup_Seen b (re_now (env i)) (re_victim (env i)) c of
        (True, c') \<Rightarrow> fresh env (Suc i) bs c' | (False, c') \<Rightarrow> b # fresh env (Suc i) bs c')"

lemma more_control: "pathCore.more (snd (handlePathControl ks ty payload ep now rnd p)) = pathCore.more p"
proof -
  have r: "pathCore.more (sendControlReply ks ep f p) = pathCore.more p" for f
    by (auto simp: sendControlReply_def split: option.splits prod.splits bool.splits)
  have s: "pathCore.more (snd (sendMTUProbe name t rnd q)) = pathCore.more q" for name t and q :: "'a pathCore_scheme"
    by (auto simp: sendMTUProbe_def split: option.splits)
  show ?thesis by (simp add: handlePathControl_def pathAck_def pathMTUAck_def r s Let_def split: option.splits)
qed

lemma control_same:
  assumes "handlePathControl ks ty payload ep now rnd m = (outs, m')"
  shows "mb_cache m' = mb_cache m" "mb_id m' = mb_id m"
proof -
  from assms more_control [of ks ty payload ep now rnd m] have "pathCore.more m' = pathCore.more m" by simp
  then show "mb_cache m' = mb_cache m" "mb_id m' = mb_id m" by (cases m, cases m', simp)+
qed

lemma decode_control: "DecodeControlFrame b = None \<longleftrightarrow> \<not> isControlFrame b"
  by (simp add: DecodeControlFrame_def)

lemma count_same [simp]: "mb_cache (countRelayReceived b ep m) = mb_cache m" "mb_id (countRelayReceived b ep m) = mb_id m"
  by (simp_all add: countRelayReceived_def)

lemma deliver_slot_view:
  assumes "out \<le> i" "i < length slots" "uniform L slots"
  shows "length (deliver_slot out i ep slots) = length slots" "drop (Suc i) (deliver_slot out i ep slots) = drop (Suc i) slots"
    "uniform L (deliver_slot out i ep slots)"
    "map slot_view (take (Suc out) (deliver_slot out i ep slots)) = map slot_view (take out slots) @ [(slot_pkt (slots ! i), ep)]"
proof -
  let ?b = "slot_pkt (slots ! i)"
  obtain buf k where bk: "copy_into (sl_buf (slots ! out)) ?b = (buf, k)" by fastforce
  define t where "t = (slots ! out)\<lparr>sl_ep := ep, sl_buf := (if out = i then sl_buf (slots ! i) else buf),
    sl_size := (if out = i then sl_size (slots ! i) else k)\<rparr>"
  have o: "out < length slots" using assms by simp
  have eq: "deliver_slot out i ep slots = slots[out := t]"
    using o by (auto simp: deliver_slot_def Let_def t_def bk)
  have u: "length (sl_buf (slots ! out)) = L" "length (sl_buf (slots ! i)) = L" "sl_size (slots ! i) \<le> L"
    using assms o by (simp_all add: uniform_def)
  have "length ?b \<le> L" using u by (simp add: slot_pkt_def)
  note cv = copy_into_view [OF u(1) this bk]
  have t: "slot_view t = (?b, ep)" "length (sl_buf t) = L" "sl_size t \<le> L"
    using cv u by (auto simp: t_def slot_view_def slot_pkt_def)
  show "length (deliver_slot out i ep slots) = length slots" "drop (Suc i) (deliver_slot out i ep slots) = drop (Suc i) slots"
    using assms by (simp_all add: eq)
  show "uniform L (deliver_slot out i ep slots)"
    using assms(3) t by (auto simp: eq uniform_def dest: set_update_subset_insert [THEN subsetD])
  show "map slot_view (take (Suc out) (deliver_slot out i ep slots)) = map slot_view (take out slots) @ [(?b, ep)]"
    using o t(1) by (simp add: eq take_Suc_conv_app_nth)
qed

lemma mp_compact_view:
  "mp_compact env left i out slots m = (out', slots', outs, m') \<Longrightarrow> i + left = length slots \<Longrightarrow> out \<le> i \<Longrightarrow> uniform L slots \<Longrightarrow>
   map slot_view (take out' slots') = map slot_view (take out slots) @
     map (\<lambda>b. (b, multipathEndpoint (mb_id m))) (fresh env i (map slot_pkt (drop i slots)) (mb_cache m)) \<and>
   out' = out + length (fresh env i (map slot_pkt (drop i slots)) (mb_cache m)) \<and> out' \<le> length slots'"
proof (induction left arbitrary: i out slots m outs)
  case (Suc left)
  let ?b = "slot_pkt (slots ! i)" and ?ep = "sl_ep (slots ! i)" and ?e = "env i"
  have i: "i < length slots" using Suc.prems(2) by simp
  have drop_i: "drop i slots = slots ! i # drop (Suc i) slots" using i by (simp add: Cons_nth_drop_Suc)
  show ?case
  proof (cases "DecodeControlFrame ?b")
    case (Some f)
    obtain ty payload where f: "f = (ty, payload)" by fastforce
    obtain o1 m1 where h: "handlePathControl (re_order ?e) ty payload ?ep (re_now ?e) (re_rnd ?e) m = (o1, m1)" by fastforce
    obtain o2 where l: "mp_compact env left (Suc i) out slots m1 = (out', slots', o2, m')"
      using Suc.prems(1) Some f h by (auto simp: Let_def split: prod.splits)
    have "isControlFrame ?b" using Some decode_control [of ?b] by simp
    with Suc.IH [OF l] Suc.prems(2-4) control_same [OF h] show ?thesis by (auto simp: drop_i)
  next
    case None
    then have nc: "\<not> isControlFrame ?b" by (simp add: decode_control)
    obtain seen c where d: "dup_Seen ?b (re_now ?e) (re_victim ?e) (mb_cache m) = (seen, c)" by fastforce
    show ?thesis
    proof (cases seen)
      case True
      with Suc.prems(1) None d have l: "mp_compact env left (Suc i) out slots (m\<lparr>mb_cache := c\<rparr>) = (out', slots', outs, m')"
        by (simp add: Let_def)
      from Suc.IH [OF l] Suc.prems(2-4) True nc d show ?thesis by (auto simp: drop_i)
    next
      case False
      let ?m1 = "countRelayReceived ?b ?ep (m\<lparr>mb_cache := c\<rparr>)"
      let ?s2 = "deliver_slot out i (multipathEndpoint (mb_id ?m1)) slots"
      from Suc.prems(1) None d False have l: "mp_compact env left (Suc i) (Suc out) ?s2 ?m1 = (out', slots', outs, m')"
        by (simp add: Let_def)
      note dv = deliver_slot_view [OF Suc.prems(3) i Suc.prems(4), of "multipathEndpoint (mb_id ?m1)"]
      from Suc.IH [OF l] Suc.prems(2,3) dv False nc d show ?thesis by (auto simp: drop_i)
    qed
  qed
qed simp

section \<open>Path-MTU discovery after a lost frame\<close>

definition mtu_of :: "string \<Rightarrow> scheduler \<Rightarrow> 16 word option" where
  "mtu_of n s = map_option cd_DatagramMTU (fmlookup (sc_candidates s) n)"

lemma mtu_ops [simp]:
  "mtu_of n (ActivateCarrier name now s) = mtu_of n s"
  "mtu_of n (ProbeResult name rtt up now s) = mtu_of n s"
  "mtu_of n (CarrierFailure name s) = mtu_of n s"
  "mtu_of n (FinishControlSend name s) = mtu_of n s"
  "mtu_of n (RecordDuplication name k allowed s) = mtu_of n s"
  "mtu_of n (SetForced name s) = mtu_of n s"
  "n \<noteq> name \<Longrightarrow> mtu_of n (ReportDatagramMTU name mtu s) = mtu_of n s"
  "mtu_of n s \<noteq> None \<Longrightarrow> mtu_of n (sched_Register name kind s) = mtu_of n s"
  by (auto simp: mtu_of_def ActivateCarrier_def ProbeResult_def CarrierFailure_def FinishControlSend_def RecordDuplication_def
      ReportDatagramMTU_def SetForced_def sched_Register_def probe_candidate_def record_probe_def Let_def map_option_case
      split: option.splits if_splits)

lemma mtu_reserve: "ReserveControlSend name s = (b, t) \<Longrightarrow> mtu_of n t = mtu_of n s"
  by (auto simp: ReserveControlSend_def mtu_of_def map_option_case split: option.splits if_splits)

lemma mtu_reply [simp]: "mtu_of n (pc_scheduler (sendControlReply ks ep f p)) = mtu_of n (pc_scheduler p)"
  by (auto simp: sendControlReply_def split: option.splits prod.splits bool.splits dest: mtu_reserve)

lemma mtu_probeOne [simp]: "mtu_of n (pc_scheduler (snd (probeOne name now rnd p))) = mtu_of n (pc_scheduler p)"
  by (simp add: probeOne_def split: option.splits)

lemma mtu_probeAll [simp]: "mtu_of n (pc_scheduler (snd (probeAll names now rnd p))) = mtu_of n (pc_scheduler p)"
  by (induction names arbitrary: p) (simp_all add: case_prod_beta Let_def)

text \<open>\<open>answers\<close>: the frame acknowledges the outstanding MTU probe.\<close>

definition answers :: "outstandingMTUProbe \<Rightarrow> byte \<Rightarrow> bytes \<Rightarrow> bool" where
  "answers pr ty payload \<longleftrightarrow> ty = FramePathMTUAck \<and>
     DecodePathMTUAck payload = Some \<lparr>mp_nonce = om_nonce pr, mp_target = om_target pr\<rparr>"

definition waiting :: "string \<Rightarrow> outstandingMTUProbe \<Rightarrow> 16 word \<Rightarrow> 'a pathCore_scheme \<Rightarrow> bool" where
  "waiting name pr mtu p \<longleftrightarrow> fmlookup (pc_mtuProbes p) name = Some pr \<and> mtu_of name (pc_scheduler p) = Some mtu"

lemma waiting_sendMTU: "waiting name pr mtu p \<Longrightarrow> waiting name pr mtu (snd (sendMTUProbe name' t rnd p))"
  by (auto simp: waiting_def sendMTUProbe_def split: option.splits)

lemma waiting_mtu_ack:
  assumes "waiting name pr mtu p" "ack \<noteq> \<lparr>mp_nonce = om_nonce pr, mp_target = om_target pr\<rparr>"
  shows "waiting name pr mtu (snd (pathMTUAck ks ack ep rnd p))"
proof (cases "\<exists>n o'. nameForEndpoint ks ep p = Some n \<and> fmlookup (pc_mtuProbes p) n = Some o' \<and> om_target o' = mp_target ack \<and> om_nonce o' = mp_nonce ack")
  case True
  then obtain n o' where n: "nameForEndpoint ks ep p = Some n" "fmlookup (pc_mtuProbes p) n = Some o'"
    "om_target o' = mp_target ack" "om_nonce o' = mp_nonce ack" by blast
  have "n \<noteq> name" using n assms by (auto simp: waiting_def)
  let ?p1 = "with_scheduler (ReportDatagramMTU n (mp_target ack)) (p\<lparr>pc_mtuProbes := fmdrop n (pc_mtuProbes p)\<rparr>)"
  have w: "waiting name pr mtu ?p1" using assms(1) \<open>n \<noteq> name\<close> by (simp add: waiting_def)
  show ?thesis using w waiting_sendMTU [OF w] n by (auto simp: pathMTUAck_def Let_def waiting_def)
next
  case False
  then have "pathMTUAck ks ack ep rnd p = ([], p)" by (auto simp: pathMTUAck_def split: option.splits if_splits)
  with assms(1) show ?thesis by simp
qed

lemma waiting_control:
  assumes "waiting name pr mtu p" "\<not> answers pr ty payload"
  shows "waiting name pr mtu (snd (handlePathControl ks ty payload ep now rnd p))"
proof -
  have "waiting name pr mtu (sendControlReply ks ep f p)" for f using assms(1) by (simp add: waiting_def)
  moreover have "waiting name pr mtu (snd (pathAck ks payload ep now rnd p))"
  proof -
    have "waiting name pr mtu (p\<lparr>pc_probes := ps, pc_scheduler := ProbeResult n rtt True now (pc_scheduler p)\<rparr>)" for n rtt ps
      using assms(1) by (simp add: waiting_def)
    from waiting_sendMTU [OF this] assms(1) show ?thesis by (simp add: pathAck_def split: option.splits)
  qed
  moreover have "DecodePathMTUAck payload = Some ack \<Longrightarrow> ty = FramePathMTUAck \<Longrightarrow> waiting name pr mtu (snd (pathMTUAck ks ack ep rnd p))" for ack
    using waiting_mtu_ack [OF assms(1)] assms(2) by (auto simp: answers_def)
  ultimately show ?thesis using assms(1) by (auto simp: handlePathControl_def split: option.splits)
qed

lemma waiting_dup: "waiting name pr mtu p \<Longrightarrow> waiting name pr mtu (snd (snd (duplicateSend ok now bufs alt dup p)))"
  by (auto simp: duplicateSend_def waiting_def Let_def split: option.splits prod.splits bool.splits)

lemma waiting_send:
  assumes "waiting name pr mtu m" "core_inv m" "range_order ks (sc_candidates (pc_scheduler m))"
    "range_order ks' (sc_candidates (pc_scheduler m))" "mp_Send ok ks ks' now bufs ep m = (r, outs, m')"
  shows "waiting name pr mtu m'"
proof -
  obtain res s where sel: "selectLocked ks (pc_scheduler m) = (res, s)" by fastforce
  note m1 = select_core_inv [OF assms(2,3) sel]
  have s: "mtu_of name s = mtu_of name (pc_scheduler m)" using m1(2) by (simp add: mtu_of_def)
  have st: "mtu_of name (snd (sched_Status ks' s)) = mtu_of name s"
    using status_candidates [OF m1(1), of ks'] assms(4) m1(2) by (simp add: mtu_of_def)
  have w: "waiting name pr mtu (m\<lparr>pc_scheduler := s, mb_relaySentBytes := a, mb_relaySentPackets := b\<rparr>)"
    "waiting name pr mtu (m\<lparr>pc_scheduler := s\<rparr>)" for a b
    using assms(1) s by (simp_all add: waiting_def)
  have d: "duplicateSend ok now bufs alt dup (m\<lparr>pc_scheduler := s, mb_relaySentBytes := a, mb_relaySentPackets := b\<rparr>) = (sent, dups, m')
      \<Longrightarrow> waiting name pr mtu m'" "duplicateSend ok now bufs alt dup (m\<lparr>pc_scheduler := s\<rparr>) = (sent, dups, m')
      \<Longrightarrow> waiting name pr mtu m'" for alt dup sent dups a b
    using waiting_dup [OF w(1), of ok now bufs alt dup b a] waiting_dup [OF w(2), of ok now bufs alt dup] by simp_all
  show ?thesis
  proof (cases "is_multipathEndpoint ep \<and> res \<noteq> None")
    case True
    then obtain pr' alt dup where res: "res = Some (pr', alt, dup)" by auto
    have f: "waiting name pr mtu (m\<lparr>pc_scheduler := CarrierFailure pr' s\<rparr>)"
      "waiting name pr mtu (m\<lparr>pc_scheduler := snd (sched_Status ks' s)\<rparr>)"
      using assms(1) s st by (simp_all add: waiting_def)
    from assms(5) True sel res f show ?thesis
      by (auto simp: mp_Send_def Let_def split: if_splits option.splits prod.splits intro: d)
  next
    case False
    then have "res = None \<or> \<not> is_multipathEndpoint ep" by blast
    with assms(1,5) sel w(2) show ?thesis by (auto simp: mp_Send_def split: if_splits)
  qed
qed

lemma waiting_step:
  assumes "mp_step m (e, outs) m'" "waiting name pr mtu m" "core_inv m" "\<And>ty payload ep. e = MControl ty payload ep \<Longrightarrow> \<not> answers pr ty payload"
  shows "waiting name pr mtu m'"
  using assms(1)
proof (cases rule: mp_step.cases)
  case (mp_register name' kind ep now rnd)
  from mp_register(3) assms(2) show ?thesis
    unfolding mp_RegisterPath_def Let_def waiting_def
    by (auto simp: sendProbe_def split: if_splits option.splits)
next
  case (mp_control ks ty payload ep now rnd)
  with waiting_control [OF assms(2) assms(4), of ty payload ep ks ep now rnd] show ?thesis by simp
next
  case (mp_send ks ks' now ok bufs ep r)
  with waiting_send [OF assms(2,3)] show ?thesis by blast
next
  case (mp_tick names now rnd)
  with assms(2) arg_cong [OF mp_tick(2), of snd] show ?thesis
    using mtu_probeAll [of name names now rnd m] probeAll_same(2) [of names now rnd m] by (simp add: waiting_def)
next
  case (mp_reply i)
  with assms(2) show ?thesis by (auto simp: finishReply_def waiting_def split: if_splits prod.splits)
next
  case (mp_open base_open cb r)
  then show ?thesis using assms(2)
    by (auto simp: mp_Open_def restartProbeLoop_def Let_def waiting_def split: sum.splits option.splits if_splits)
qed (use assms(2) in \<open>simp_all add: mp_SetForced_def mp_Close_def ResetRelayLegStats_def waiting_def\<close>)

lemma waiting_run:
  "run mp_step m es m' \<Longrightarrow> core_inv m \<Longrightarrow> waiting name pr mtu m \<Longrightarrow>
   (\<forall>(e, outs) \<in> set es. \<forall>ty payload ep. e = MControl ty payload ep \<longrightarrow> \<not> answers pr ty payload) \<Longrightarrow> waiting name pr mtu m'"
proof (induction rule: run.induct)
  case (run_cons m e t es u)
  obtain ev outs where e: "e = (ev, outs)" by fastforce
  have "waiting name pr mtu t"
    by (rule waiting_step [OF run_cons.hyps(1) [unfolded e] run_cons.prems(2,1)]) (use run_cons.prems(3) e in auto)
  with run_cons.IH [OF mp_step_inv [OF run_cons.prems(1) run_cons.hyps(1)]] run_cons.prems(3) show ?case by simp
qed simp

section \<open>Properties\<close>

text \<open>C35: in every reachable client bind, sending a batch on the logical endpoint never panics and never meets a
  selected path that is not registered. It follows the scheduler's selection: nothing is sent if no path
  is usable; a failing primary is sent to once and loses its health, so that the next selection avoids
  it; otherwise the batch goes exactly once to the primary, and to the alternate at most once, only for a
  transport batch and only when the scheduler asks for it. All bytes duplicated since the bind was made, this batch
  included, stay within the token budget: one second of the configured rate, what the rate gave since then, and one byte per
  send for the rounding of \<open>float64\<close>.\<close>

theorem client_send_correct:
  assumes "run mp_step (NewMultipathBind bid pathMTU rate t0) es m" "rate < 2 ^ 53"
    "range_order ks (sc_candidates (pc_scheduler m))" "range_order ks' (sc_candidates (pc_scheduler m))"
    "bl_last (pc_dupLimiter m) \<le> now" "mp_Send ok ks ks' now bufs (multipathEndpoint i) m = (r, outs, m')"
  shows "(\<exists>pr alt dup s'. selects (pc_scheduler m) pr alt dup s' \<and> dispatches ok bufs m pr alt dup r outs m' \<and>
      r \<noteq> Panic \<and> r \<noteq> Err NotRegistered) \<and>
    of_nat (total_duplicated (es @ [(MSend bufs (multipathEndpoint i) r, outs)])) \<le>
      duplication_budget (resolveDuplicateRate rate) (now - t0) (Suc (length (filter is_send es)))"
proof -
  let ?e = "(MSend bufs (multipathEndpoint i) r, outs)"
  from mp_Send_spec [OF mp.run_inv [OF assms(1) NewMultipathBind_inv [OF assms(2)]] assms(3-6)]
  obtain pr alt dup s' where "selects (pc_scheduler m) pr alt dup s'" and d: "dispatches ok bufs m pr alt dup r outs m'" by blast
  moreover have "r \<noteq> Panic \<and> r \<noteq> Err NotRegistered" using d by (auto simp: dispatches_def split: if_splits)
  moreover have step: "mp_step m ?e m'" by (rule mp_send [OF assms(3-6)])
  moreover have "of_nat (total_duplicated (es @ [?e])) \<le>
      duplication_budget (resolveDuplicateRate rate) (now - t0) (length (filter is_send (es @ [?e])))"
    by (rule duplication_within_budget [OF run_append [OF assms(1) run_one, of ?e] assms(2)])
      (use step spends_last [OF mp_Send_spends [OF assms(6)] assms(5)] in auto)
  then have "of_nat (total_duplicated (es @ [?e])) \<le>
      duplication_budget (resolveDuplicateRate rate) (now - t0) (Suc (length (filter is_send es)))" by simp
  ultimately show ?thesis by blast
qed

text \<open>The client's receive function hands WireGuard exactly the packets of a batch that are neither control
  frames nor reported as duplicates by the cache, in their order, each under the stable logical endpoint.\<close>

theorem client_receive_exact:
  assumes "mp_compact env (length slots) 0 0 slots m = (out, slots', outs, m')" "uniform L slots"
  shows "map slot_view (take out slots') =
    map (\<lambda>b. (b, multipathEndpoint (mb_id m))) (fresh env 0 (map slot_pkt slots) (mb_cache m))"
  using mp_compact_view [OF assms(1) _ _ assms(2)] by auto

text \<open>Path-MTU discovery does not recover from a lost frame. Once an MTU probe of a path is outstanding and its
  answer does not arrive, then whatever else happens, for however long, and even after the path has been registered again
  at another endpoint, the probe stays outstanding, no further MTU probe is sent for the path, and the path's
  datagram MTU stays what it was.\<close>

theorem mtu_probe_never_retried:
  assumes "run mp_step (NewMultipathBind bid pathMTU rate t0) es0 m" "rate < 2 ^ 53"
    "fmlookup (pc_mtuProbes m) name = Some pr" "mtu_of name (pc_scheduler m) = Some mtu"
    "run mp_step m es m'" "\<forall>(e, outs) \<in> set es. \<forall>ty payload ep. e = MControl ty payload ep \<longrightarrow> \<not> answers pr ty payload"
  shows "fmlookup (pc_mtuProbes m') name = Some pr \<and> mtu_of name (pc_scheduler m') = Some mtu \<and>
    (\<forall>t rnd. sendMTUProbe name t rnd m' = ([], m'))"
proof -
  have "core_inv m" by (rule mp.run_inv [OF assms(1) NewMultipathBind_inv [OF assms(2)]])
  from waiting_run [OF assms(5) this] assms(3,4,6) have "waiting name pr mtu m'" by (simp add: waiting_def)
  then show ?thesis by (auto simp: waiting_def sendMTUProbe_def split: option.splits)
qed

text \<open>A client with an activated WSS carrier.\<close>

definition demo_client :: multipathBind where
  "demo_client = with_scheduler (ActivateCarrier ''wss'' 1)
     (snd (mp_RegisterPath ''wss'' PathWSS (CarrierEndpoint ''ws:relay'') 0 None (NewMultipathBind ''mp'' True 0 0)))"

lemma demo_client_run:
  "run mp_step (NewMultipathBind ''mp'' True 0 0) [(MRegister ''wss'' PathWSS (CarrierEndpoint ''ws:relay''), []), (MActivate ''wss'', [])] demo_client"
  unfolding demo_client_def
proof (rule run_two)
  show "mp_step (NewMultipathBind ''mp'' True 0 0) (MRegister ''wss'' PathWSS (CarrierEndpoint ''ws:relay''), [])
      (snd (mp_RegisterPath ''wss'' PathWSS (CarrierEndpoint ''ws:relay'') 0 None (NewMultipathBind ''mp'' True 0 0)))"
    by (rule mp_register [where now = 0 and rnd = None]) (simp_all add: mp_RegisterPath_def Let_def)
qed (rule mp_activate)

lemma demo_client_facts:
  "fmlookup (sc_candidates (pc_scheduler demo_client)) n =
     (if n = ''wss'' then Some ((newCandidate ''wss'' PathWSS)\<lparr>cd_Healthy := True, cd_LastSuccess := Some 1, cd_misses := 0\<rparr>) else None)"
  "sc_primary (pc_scheduler demo_client) = Some ''wss''" "sc_forced (pc_scheduler demo_client) = None"
  "fmlookup (pc_paths demo_client) n = (if n = ''wss'' then Some (CarrierEndpoint ''ws:relay'') else None)"
  "bl_last (pc_dupLimiter demo_client) = 0"
  by (simp_all add: demo_client_def mp_RegisterPath_def Let_def NewMultipathBind_def ActivateCarrier_def sched_Register_def
      NewScheduler_def path_names newByteRateLimiter_def)

lemma demo_client_order: "range_order [''wss''] (sc_candidates (pc_scheduler demo_client))"
  by (simp add: range_order_iff demo_client_facts)

theorem client_send_correct_witness:
  "\<exists>r outs m'. mp_Send (\<lambda>_ _. True) [''wss''] [''wss''] 2 [[1, 2]] (multipathEndpoint ''mp'') demo_client = (r, outs, m') \<and>
     outs = [([[1, 2]], CarrierEndpoint ''ws:relay'')] \<and> r = Ok ()"
proof -
  let ?s = "pc_scheduler demo_client"
  obtain r outs m' where s: "mp_Send (\<lambda>_ _. True) [''wss''] [''wss''] 2 [[1, 2]] (multipathEndpoint ''mp'') demo_client = (r, outs, m')"
    by (metis prod_cases3)
  have h: "healthy ?s n \<longleftrightarrow> n = ''wss''" for n by (simp add: healthy_def demo_client_facts)
  have t: "bl_last (pc_dupLimiter demo_client) \<le> 2" by (simp add: demo_client_facts)
  have b: "\<not> isWireGuardTransportBatch [[1, 2]]" by (simp add: isWireGuardTransportBatch_def isWireGuardTransport_def)
  from client_send_correct [OF demo_client_run _ demo_client_order demo_client_order t s]
  obtain pr alt dup s' where sel: "selects ?s pr alt dup s'" and d: "dispatches (\<lambda>_ _. True) [[1, 2]] demo_client pr alt dup r outs m'"
    by auto
  have pr: "pr = ''wss''" using sel h unfolding selects_def by metis
  from d have "outs = [([[1, 2]], CarrierEndpoint ''ws:relay'')] \<and> r = Ok ()"
    by (auto simp: dispatches_def pr demo_client_facts b)
  with s show ?thesis by blast
qed

theorem client_receive_exact_witness:
  "\<exists>out slots' outs m'. mp_compact (\<lambda>_. \<lparr>re_now = 2, re_order = [], re_rnd = None, re_victim = []\<rparr>) 1 0 0
      [\<lparr>sl_buf = demo_packet, sl_size = 16, sl_ep = CarrierEndpoint ''ws:relay''\<rparr>] demo_client = (out, slots', outs, m') \<and>
     map slot_view (take out slots') = [(demo_packet, multipathEndpoint ''mp'')]"
proof -
  let ?env = "\<lambda>_ :: nat. \<lparr>re_now = 2, re_order = [], re_rnd = None, re_victim = []\<rparr>"
  let ?slots = "[\<lparr>sl_buf = demo_packet, sl_size = 16, sl_ep = CarrierEndpoint ''ws:relay''\<rparr>]"
  obtain out slots' outs m' where c: "mp_compact ?env (length ?slots) 0 0 ?slots demo_client = (out, slots', outs, m')"
    by (metis prod_cases4)
  have u: "uniform 16 ?slots" and p: "slot_pkt (hd ?slots) = demo_packet" by (simp_all add: uniform_def slot_pkt_def demo_packet_def)
  have nc: "\<not> isControlFrame demo_packet" by (simp add: isControlFrame_def controlMagic_def demo_packet_def)
  have cache: "mb_cache demo_client = NewDuplicateCache 4096 (10 * second)" "mb_id demo_client = ''mp''"
    by (simp_all add: demo_client_def mp_RegisterPath_def Let_def NewMultipathBind_def path_names)
  have "fresh ?env 0 (map slot_pkt ?slots) (mb_cache demo_client) = [demo_packet]"
    using p nc by (simp add: cache dup_Seen_def demo_packet_key NewDuplicateCache_def Let_def)
  with client_receive_exact [OF c u] c cache show ?thesis by simp
qed

text \<open>A client whose first MTU probe of the direct path is outstanding, and which then registers the path at a new endpoint.\<close>

definition demo_direct :: "sends \<times> multipathBind" where
  "demo_direct = mp_RegisterPath ''direct-udp'' PathDirect (CarrierEndpoint ''b'') 0 (Some (replicate 12 9)) (NewMultipathBind ''mp'' True 0 0)"

definition demo_mtu :: "sends \<times> multipathBind" where
  "demo_mtu = handlePathControl [''direct-udp''] FramePathAck (replicate 12 9) (CarrierEndpoint ''b'') 1 (Some (replicate 12 7)) (snd demo_direct)"

definition demo_moved :: "sends \<times> multipathBind" where
  "demo_moved = mp_RegisterPath ''direct-udp'' PathDirect (CarrierEndpoint ''c'') 2 (Some (replicate 12 8)) (snd demo_mtu)"

lemma demo_mtu_run:
  "run mp_step (NewMultipathBind ''mp'' True 0 0)
     [(MRegister ''direct-udp'' PathDirect (CarrierEndpoint ''b''), fst demo_direct), (MControl FramePathAck (replicate 12 9) (CarrierEndpoint ''b''), fst demo_mtu)]
     (snd demo_mtu)"
proof (rule run_two)
  show "mp_step (NewMultipathBind ''mp'' True 0 0) (MRegister ''direct-udp'' PathDirect (CarrierEndpoint ''b''), fst demo_direct) (snd demo_direct)"
    by (rule mp_register [where now = 0 and rnd = "Some (replicate 12 9)"]) (simp_all add: demo_direct_def)
  show "mp_step (snd demo_direct) (MControl FramePathAck (replicate 12 9) (CarrierEndpoint ''b''), fst demo_mtu) (snd demo_mtu)"
    by (rule mp_control [where now = 1 and ks = "[''direct-udp'']" and rnd = "Some (replicate 12 7)"]) (simp add: demo_mtu_def)
qed

lemma demo_moved_run: "run mp_step (snd demo_mtu) [(MRegister ''direct-udp'' PathDirect (CarrierEndpoint ''c''), fst demo_moved)] (snd demo_moved)"
  by (rule run_one, rule mp_register [where now = 2 and rnd = "Some (replicate 12 8)"]) (simp_all add: demo_moved_def)

lemma demo_mtu_facts:
  "fmlookup (pc_mtuProbes (snd demo_mtu)) ''direct-udp'' = Some \<lparr>om_nonce = replicate 12 7, om_target = 1200\<rparr>"
  "mtu_of ''direct-udp'' (pc_scheduler (snd demo_mtu)) = Some 1420"
proof -
  have d: "snd demo_direct = NewMultipathBind ''mp'' True 0 0
    \<lparr>pc_paths := fmupd ''direct-udp'' (CarrierEndpoint ''b'') fmempty, pc_scheduler := sched_Register ''direct-udp'' PathDirect NewScheduler,
     pc_probes := fmupd ''direct-udp'' \<lparr>op_nonce = replicate 12 9, op_sentAt = 0\<rparr> fmempty\<rparr>"
    by (simp add: demo_direct_def mp_RegisterPath_def path_names sendProbe_def Let_def NewMultipathBind_def)
  have n: "nameForEndpoint [''direct-udp''] (CarrierEndpoint ''b'') (snd demo_direct) = Some ''direct-udp''"
    by (simp add: nameForEndpoint_def d)
  have m: "demo_mtu = sendMTUProbe ''direct-udp'' minPathMTUProbe (Some (replicate 12 7))
     (with_scheduler (ProbeResult ''direct-udp'' 1 True 1) ((snd demo_direct)\<lparr>pc_probes := fmdrop ''direct-udp'' (pc_probes (snd demo_direct))\<rparr>))"
    unfolding demo_mtu_def handle_ack pathAck_def n by (simp add: pathProbeSize_def) (simp add: d)
  show "fmlookup (pc_mtuProbes (snd demo_mtu)) ''direct-udp'' = Some \<lparr>om_nonce = replicate 12 7, om_target = 1200\<rparr>"
    unfolding m by (simp add: sendMTUProbe_def d NewMultipathBind_def minPathMTUProbe_def gm_get_def)
  show "mtu_of ''direct-udp'' (pc_scheduler (snd demo_mtu)) = Some 1420"
    unfolding m by (simp add: d) (simp add: mtu_of_def sched_Register_def NewScheduler_def newCandidate_def)
qed

theorem mtu_probe_never_retried_witness:
  "fmlookup (pc_mtuProbes (snd demo_moved)) ''direct-udp'' = Some \<lparr>om_nonce = replicate 12 7, om_target = 1200\<rparr> \<and>
   mtu_of ''direct-udp'' (pc_scheduler (snd demo_moved)) = Some 1420 \<and>
   fst (sendMTUProbe ''direct-udp'' 1200 (Some (replicate 12 1)) (snd demo_moved)) = []"
  using mtu_probe_never_retried [OF demo_mtu_run _ demo_mtu_facts demo_moved_run] by simp

end
