(* ===== verification/Server_Multipath.thy ===== *)
theory Server_Multipath
  imports Multipath
begin

text \<open>
  \<^verbatim>\<open>ServerMultipathBind\<close> of \<^verbatim>\<open>pkg/wstransport/server_multipath.go\<close>: the server's bind, with one set of candidate
  paths per authenticated peer and a table that attributes every carrier source to the peer that owns it. A peer
  object is shared between the table of peers and the table of sources, so the objects live in an explicit store and
  both tables hold references; comparing pointers is comparing references.
\<close>

section \<open>State\<close>

record serverMultipathPeer = pathCore +
  sp_id :: string

definition sp_endpoint :: "serverMultipathPeer \<Rightarrow> endpoint" where
  "sp_endpoint p = serverMultipathEndpoint (sp_id p)"

record serverMultipathBind =
  sm_store :: "(nat, serverMultipathPeer) fmap"
  sm_next :: nat
  sm_peers :: "(string, nat) fmap"
  sm_bySource :: "(string, nat) fmap"
  sm_cache :: duplicateCache
  sm_rate :: int
  sm_forced :: string
  sm_reserved :: "(string, bool) fmap"
  sm_stopped :: bool
  sm_probeLoops :: nat

definition NewServerMultipathBind :: "int \<Rightarrow> serverMultipathBind" where
  "NewServerMultipathBind rate =
     \<lparr>sm_store = fmempty, sm_next = 0, sm_peers = fmempty, sm_bySource = fmempty,
      sm_cache = NewDuplicateCache 4096 (10 * second), sm_rate = resolveDuplicateRate rate, sm_forced = '''',
      sm_reserved = fmempty, sm_stopped = False, sm_probeLoops = 1\<rparr>"

text \<open>A handler applied to the object behind a reference.\<close>

definition with_peer ::
  "nat \<Rightarrow> (serverMultipathPeer \<Rightarrow> sends \<times> serverMultipathPeer) \<Rightarrow> serverMultipathBind \<Rightarrow> sends \<times> serverMultipathBind" where
  "with_peer r f m =
     (case fmlookup (sm_store m) r of
        None \<Rightarrow> ([], m)
      | Some p \<Rightarrow> (case f p of (outs, p') \<Rightarrow> (outs, m\<lparr>sm_store := fmupd r p' (sm_store m)\<rparr>)))"

definition newServerPeer :: "string \<Rightarrow> int \<Rightarrow> gotime \<Rightarrow> serverMultipathPeer" where
  "newServerPeer pid rate now =
     \<lparr>pc_scheduler = NewScheduler, pc_paths = fmempty, pc_probes = fmempty, pc_mtuProbes = fmempty, pc_mtuDone = fmempty,
      pc_pathMTU = False, pc_dupLimiter = newByteRateLimiter rate now, pc_replies = [], sp_id = pid\<rparr>"

definition sm_peer :: "string \<Rightarrow> gotime \<Rightarrow> serverMultipathBind \<Rightarrow> nat \<times> serverMultipathBind" where
  "sm_peer pid now m =
     (case fmlookup (sm_peers m) pid of
        Some r \<Rightarrow> (r, m)
      | None \<Rightarrow> (sm_next m, m\<lparr>sm_store := fmupd (sm_next m) (newServerPeer pid (sm_rate m) now) (sm_store m),
                              sm_next := sm_next m + 1, sm_peers := fmupd pid (sm_next m) (sm_peers m)\<rparr>))"

section \<open>Registration\<close>

text \<open>The guard of \<open>RegisterPath\<close>: a datagram source that is reserved, or owned by another peer.\<close>

definition sm_refused :: "string \<Rightarrow> string \<Rightarrow> string \<Rightarrow> serverMultipathBind \<Rightarrow> bool" where
  "sm_refused pid kind src m \<longleftrightarrow> kind \<noteq> PathWSS \<and>
     (gm_get False (sm_reserved m) src \<or>
      (case fmlookup (sm_bySource m) src of
         None \<Rightarrow> False
       | Some r \<Rightarrow> (case fmlookup (sm_store m) r of None \<Rightarrow> False | Some owner \<Rightarrow> sp_id owner \<noteq> pid)))"

text \<open>The critical section on the peer: a replaced carrier no longer classifies traffic as this peer's, unless
  another of its paths shares the source, and its outstanding probes are forgotten.\<close>

definition replaced :: "string \<Rightarrow> endpoint \<Rightarrow> serverMultipathPeer \<Rightarrow> string option" where
  "replaced name ep p =
     (case fmlookup (pc_paths p) name of
        None \<Rightarrow> None
      | Some old \<Rightarrow> if DstToString old \<noteq> DstToString ep then Some (DstToString old) else None)"

definition shared_source :: "string \<Rightarrow> string \<Rightarrow> serverMultipathPeer \<Rightarrow> bool" where
  "shared_source name src p \<longleftrightarrow>
     fBex (fmdom (pc_paths p)) (\<lambda>n. n \<noteq> name \<and> map_option DstToString (fmlookup (pc_paths p) n) = Some src)"

definition sm_RegisterPath ::
  "string \<Rightarrow> string \<Rightarrow> string \<Rightarrow> endpoint \<Rightarrow> bool \<Rightarrow> gotime \<Rightarrow> bytes option \<Rightarrow> serverMultipathBind \<Rightarrow> sends \<times> serverMultipathBind" where
  "sm_RegisterPath pid name kind ep pathMTU now rnd m =
     (if sm_refused pid kind (DstToString ep) m then ([], m)
      else case sm_peer pid now m of (r, m1) \<Rightarrow>
        (case fmlookup (sm_store m1) r of
           None \<Rightarrow> ([], m1)
         | Some p \<Rightarrow>
             let (bySource1, p1) =
                   (case replaced name ep p of
                      None \<Rightarrow> (sm_bySource m1, p)
                    | Some old \<Rightarrow>
                        (if \<not> shared_source name old p \<and> fmlookup (sm_bySource m1) old = Some r
                         then fmdrop old (sm_bySource m1) else sm_bySource m1,
                         p\<lparr>pc_probes := fmdrop name (pc_probes p), pc_mtuProbes := fmdrop name (pc_mtuProbes p),
                           pc_mtuDone := fmdrop name (pc_mtuDone p)\<rparr>));
                 p2 = p1\<lparr>pc_paths := fmupd name ep (pc_paths p1), pc_pathMTU := pathMTU\<rparr>;
                 p3 = with_scheduler (sched_Register name kind \<circ> SetForced (sm_forced m1)) p2;
                 (outs, p4) = (if kind \<noteq> PathWSS then sendProbe name now rnd p3 else ([], p3))
             in (outs, m1\<lparr>sm_bySource := fmupd (DstToString ep) r bySource1,
                          sm_store := fmupd r p4 (sm_store m1)\<rparr>)))"

definition on_peer :: "string \<Rightarrow> (serverMultipathPeer \<Rightarrow> serverMultipathPeer) \<Rightarrow> serverMultipathBind \<Rightarrow> serverMultipathBind" where
  "on_peer pid f m =
     (case fmlookup (sm_peers m) pid of None \<Rightarrow> m | Some r \<Rightarrow> snd (with_peer r (\<lambda>p. ([], f p)) m))"

definition sm_ActivatePath :: "string \<Rightarrow> string \<Rightarrow> gotime \<Rightarrow> serverMultipathBind \<Rightarrow> serverMultipathBind" where
  "sm_ActivatePath pid name now m = on_peer pid (with_scheduler (ActivateCarrier name now)) m"

definition sm_DeactivatePath :: "string \<Rightarrow> string \<Rightarrow> serverMultipathBind \<Rightarrow> serverMultipathBind" where
  "sm_DeactivatePath pid name m = on_peer pid (with_scheduler (CarrierFailure name)) m"

text \<open>Every peer in the table gets the forced name; the order does not matter.\<close>

definition sm_SetForced :: "string \<Rightarrow> serverMultipathBind \<Rightarrow> serverMultipathBind" where
  "sm_SetForced name m =
     (let normalized = NormalizeTransportName name
      in m\<lparr>sm_forced := normalized,
           sm_store := fmmap_keys (\<lambda>r p. if fmlookup (sm_peers m) (sp_id p) = Some r
                         then with_scheduler (SetForced normalized) p else p) (sm_store m)\<rparr>)"

definition sm_ReserveSources :: "string list \<Rightarrow> serverMultipathBind \<Rightarrow> serverMultipathBind" where
  "sm_ReserveSources addrs m = m\<lparr>sm_reserved := fmap_of_list (map (\<lambda>a. (a, True)) addrs)\<rparr>"

definition sm_RemovePeer :: "string \<Rightarrow> serverMultipathBind \<Rightarrow> serverMultipathBind" where
  "sm_RemovePeer pid m =
     m\<lparr>sm_peers := fmdrop pid (sm_peers m),
       sm_bySource := gm_filter (\<lambda>k r. case fmlookup (sm_store m) r of None \<Rightarrow> True | Some p \<Rightarrow> sp_id p \<noteq> pid) (sm_bySource m)\<rparr>"

section \<open>Control frames and probing\<close>

definition sm_dispatchControl ::
  "string list \<Rightarrow> nat \<Rightarrow> byte \<Rightarrow> bytes \<Rightarrow> endpoint \<Rightarrow> gotime \<Rightarrow> bytes option \<Rightarrow> serverMultipathBind \<Rightarrow> sends \<times> serverMultipathBind" where
  "sm_dispatchControl ks r ty payload ep now rnd m = with_peer r (handlePathControl ks ty payload ep now rnd) m"

definition sm_HandlePathControl ::
  "string list \<Rightarrow> byte \<Rightarrow> bytes \<Rightarrow> endpoint \<Rightarrow> gotime \<Rightarrow> bytes option \<Rightarrow> serverMultipathBind \<Rightarrow> sends \<times> serverMultipathBind" where
  "sm_HandlePathControl ks ty payload ep now rnd m =
     (case fmlookup (sm_bySource m) (DstToString ep) of
        None \<Rightarrow> ([], m) | Some r \<Rightarrow> sm_dispatchControl ks r ty payload ep now rnd m)"

definition sm_finishReply :: "nat \<Rightarrow> nat \<Rightarrow> serverMultipathBind \<Rightarrow> sends \<times> serverMultipathBind" where
  "sm_finishReply r i m = with_peer r (finishReply i) m"

text \<open>\<open>peers\<close> is the order in which the range loop collects the peers, each with the order of its paths.\<close>

fun sm_probeAll ::
  "(nat \<times> string list) list \<Rightarrow> gotime \<Rightarrow> (nat \<Rightarrow> string \<Rightarrow> bytes option) \<Rightarrow> serverMultipathBind \<Rightarrow> sends \<times> serverMultipathBind" where
  "sm_probeAll [] now rnd m = ([], m)"
| "sm_probeAll ((r, names) # ps) now rnd m =
     (let (o1, m1) = with_peer r (probeAll names now (rnd r)) m;
          (o2, m2) = sm_probeAll ps now rnd m1
      in (o1 @ o2, m2))"

definition sm_restartProbeLoop :: "serverMultipathBind \<Rightarrow> serverMultipathBind" where
  "sm_restartProbeLoop m =
     (if sm_stopped m then m\<lparr>sm_stopped := False, sm_probeLoops := sm_probeLoops m + 1\<rparr> else m)"

definition sm_Close :: "serverMultipathBind \<Rightarrow> serverMultipathBind" where
  "sm_Close m = (if sm_stopped m then m else m\<lparr>sm_stopped := True, sm_probeLoops := sm_probeLoops m - 1\<rparr>)"

definition sm_Open :: "'e + nat \<Rightarrow> serverMultipathBind \<Rightarrow> ('e + nat) \<times> serverMultipathBind" where
  "sm_Open base_open m = (base_open, sm_restartProbeLoop m)"

definition sm_ParseEndpoint :: "(string \<Rightarrow> endpoint option) \<Rightarrow> string \<Rightarrow> serverMultipathBind \<Rightarrow> endpoint option" where
  "sm_ParseEndpoint base_parse s m =
     (case fmlookup (sm_peers m) s of
        None \<Rightarrow> base_parse s | Some r \<Rightarrow> map_option sp_endpoint (fmlookup (sm_store m) r))"

section \<open>Receiving\<close>

text \<open>A slot of the server's receive function may have no endpoint. A transport packet from a known source confirms
  the path it arrived on; the packet then carries the peer's stable endpoint, a packet of an unknown source its own.\<close>

definition sm_confirm :: "string list \<Rightarrow> bytes \<Rightarrow> endpoint \<Rightarrow> gotime \<Rightarrow> serverMultipathBind \<Rightarrow> serverMultipathBind" where
  "sm_confirm ks b ep now m =
     (case fmlookup (sm_bySource m) (DstToString ep) of
        None \<Rightarrow> m
      | Some r \<Rightarrow>
          if isWireGuardTransport b
          then snd (with_peer r (\<lambda>p. case nameForEndpoint ks ep p of
                 None \<Rightarrow> ([], p) | Some name \<Rightarrow> ([], with_scheduler (ProbeResult name 0 True now) p)) m)
          else m)"

definition sm_tag :: "serverMultipathBind \<Rightarrow> endpoint \<Rightarrow> endpoint" where
  "sm_tag m ep =
     (case fmlookup (sm_bySource m) (DstToString ep) of
        None \<Rightarrow> ep
      | Some r \<Rightarrow> (case fmlookup (sm_store m) r of None \<Rightarrow> ep | Some p \<Rightarrow> sp_endpoint p))"

definition sm_deliver_slot :: "nat \<Rightarrow> nat \<Rightarrow> endpoint \<Rightarrow> endpoint option slot list \<Rightarrow> endpoint option slot list" where
  "sm_deliver_slot out i ep slots =
     (let slots1 = slots[i := (slots ! i)\<lparr>sl_ep := Some ep\<rparr>]
      in if out \<noteq> i
         then let (buf, k) = copy_into (sl_buf (slots1 ! out)) (slot_pkt (slots1 ! i))
              in slots1[out := \<lparr>sl_buf = buf, sl_size = k, sl_ep = sl_ep (slots1 ! i)\<rparr>]
         else slots1)"

fun sm_compact ::
  "(nat \<Rightarrow> recvEnv) \<Rightarrow> nat \<Rightarrow> nat \<Rightarrow> nat \<Rightarrow> endpoint option slot list \<Rightarrow> serverMultipathBind
   \<Rightarrow> nat \<times> endpoint option slot list \<times> sends \<times> serverMultipathBind" where
  "sm_compact env 0 i out slots m = (out, slots, [], m)"
| "sm_compact env (Suc left) i out slots m =
     (let e = env i; b = slot_pkt (slots ! i) in
      case (if sl_size (slots ! i) \<le> 0 then None else sl_ep (slots ! i)) of
        None \<Rightarrow> sm_compact env left (Suc i) out slots m
      | Some ep \<Rightarrow>
          (case DecodeControlFrame b of
             Some (ty, payload) \<Rightarrow>
               (let (o1, m1) = sm_HandlePathControl (re_order e) ty payload ep (re_now e) (re_rnd e) m;
                    (out', slots', o2, m2) = sm_compact env left (Suc i) out slots m1
                in (out', slots', o1 @ o2, m2))
           | None \<Rightarrow>
               let m1 = sm_confirm (re_order e) b ep (re_now e) m
               in case dup_Seen b (re_now e) (re_victim e) (sm_cache m1) of
                    (True, c) \<Rightarrow> sm_compact env left (Suc i) out slots (m1\<lparr>sm_cache := c\<rparr>)
                  | (False, c) \<Rightarrow>
                      sm_compact env left (Suc i) (Suc out) (sm_deliver_slot out i (sm_tag m1 ep) slots) (m1\<lparr>sm_cache := c\<rparr>)))"

fun sm_receive ::
  "(nat \<Rightarrow> nat \<Rightarrow> recvEnv) \<Rightarrow> ('err + endpoint option slot list) list \<Rightarrow> serverMultipathBind
   \<Rightarrow> (('err + nat \<times> endpoint option slot list) \<times> sends \<times> serverMultipathBind) option" where
  "sm_receive env [] m = None"
| "sm_receive env (Inl e # rs) m = Some (Inl e, [], m)"
| "sm_receive env (Inr slots # rs) m =
     (case sm_compact (env (length rs)) (length slots) 0 0 slots m of
        (out, slots', o1, m1) \<Rightarrow>
          if out > 0 then Some (Inr (out, slots'), o1, m1)
          else (case sm_receive env rs m1 of
                  None \<Rightarrow> None | Some (r, o2, m2) \<Rightarrow> Some (r, o1 @ o2, m2)))"

section \<open>Sending\<close>

definition peer_Send ::
  "(bytes list \<Rightarrow> endpoint \<Rightarrow> bool) \<Rightarrow> string list \<Rightarrow> string list \<Rightarrow> gotime \<Rightarrow> bytes list \<Rightarrow> serverMultipathPeer
   \<Rightarrow> (sendError, unit) outcome \<times> sends \<times> serverMultipathPeer" where
  "peer_Send ok ks ks' now bufs p =
     (case selectLocked ks (pc_scheduler p) of
        (None, s) \<Rightarrow> (Panic, [], p\<lparr>pc_scheduler := s\<rparr>)
      | (Some (primary, alternate, duplicate), s) \<Rightarrow>
          let p1 = p\<lparr>pc_scheduler := s\<rparr> in
          case fmlookup (pc_paths p1) primary of
            None \<Rightarrow> (Err NoHealthyCandidate, [], with_scheduler (\<lambda>s. snd (sched_Status ks' s)) p1)
          | Some first \<Rightarrow>
              if \<not> ok bufs first then (Err CarrierError, [(bufs, first)], with_scheduler (CarrierFailure primary) p1)
              else let (sent, dups, p2) = duplicateSend ok now bufs alternate duplicate p1
                   in (if sent then Ok () else Err CarrierError, (bufs, first) # dups, p2))"

fun sm_Send ::
  "(bytes list \<Rightarrow> endpoint \<Rightarrow> bool) \<Rightarrow> string list \<Rightarrow> string list \<Rightarrow> gotime \<Rightarrow> bytes list \<Rightarrow> endpoint \<Rightarrow> serverMultipathBind
   \<Rightarrow> (sendError, unit) outcome \<times> sends \<times> serverMultipathBind" where
  "sm_Send ok ks ks' now bufs (serverMultipathEndpoint pid) m =
     (case fmlookup (sm_peers m) pid of
        None \<Rightarrow> (Err UnknownPeer, [], m)
      | Some r \<Rightarrow>
          (case fmlookup (sm_store m) r of
             None \<Rightarrow> (Err UnknownPeer, [], m)
           | Some p \<Rightarrow> (case peer_Send ok ks ks' now bufs p of
                         (res, outs, p') \<Rightarrow> (res, outs, m\<lparr>sm_store := fmupd r p' (sm_store m)\<rparr>))))"
| "sm_Send ok ks ks' now bufs ep m = (if ok bufs ep then Ok () else Err CarrierError, [(bufs, ep)], m)"

section \<open>Runs\<close>

datatype sm_event =
    SMRegister string string string endpoint
  | SMActivate string string
  | SMDeactivate string string
  | SMForce string
  | SMReserve "string list"
  | SMRemove string
  | SMControl byte bytes endpoint
  | SMReply
  | SMTick
  | SMReceive "endpoint option slot list"
  | SMSend "bytes list" endpoint "(sendError, unit) outcome"
  | SMLifecycle

inductive sm_step :: "serverMultipathBind \<Rightarrow> sm_event \<times> sends \<Rightarrow> serverMultipathBind \<Rightarrow> bool" where
  sm_register: "name \<noteq> '''' \<Longrightarrow> sm_RegisterPath pid name kind ep pathMTU now rnd m = (outs, m') \<Longrightarrow>
     sm_step m (SMRegister pid name kind ep, outs) m'"
| sm_activate: "sm_step m (SMActivate pid name, []) (sm_ActivatePath pid name now m)"
| sm_deactivate: "sm_step m (SMDeactivate pid name, []) (sm_DeactivatePath pid name m)"
| sm_force: "sm_step m (SMForce name, []) (sm_SetForced name m)"
| sm_reserve: "sm_step m (SMReserve addrs, []) (sm_ReserveSources addrs m)"
| sm_remove: "sm_step m (SMRemove pid, []) (sm_RemovePeer pid m)"
| sm_control: "sm_HandlePathControl ks ty payload ep now rnd m = (outs, m') \<Longrightarrow> sm_step m (SMControl ty payload ep, outs) m'"
| sm_reply: "sm_finishReply r i m = (outs, m') \<Longrightarrow> sm_step m (SMReply, outs) m'"
| sm_tick: "sm_probeAll ps now rnd m = (outs, m') \<Longrightarrow> sm_step m (SMTick, outs) m'"
| sm_recv: "sm_compact env (length slots) 0 0 slots m = (out, slots', outs, m') \<Longrightarrow> sm_step m (SMReceive slots, outs) m'"
| sm_send: "(\<And>r p. fmlookup (sm_store m) r = Some p \<Longrightarrow> ep = sp_endpoint p \<Longrightarrow> fmlookup (sm_peers m) (sp_id p) = Some r \<Longrightarrow>
        range_order ks (sc_candidates (pc_scheduler p)) \<and> range_order ks' (sc_candidates (pc_scheduler p)) \<and>
        bl_last (pc_dupLimiter p) \<le> now) \<Longrightarrow>
     sm_Send ok ks ks' now bufs ep m = (r, outs, m') \<Longrightarrow> sm_step m (SMSend bufs ep r, outs) m'"
| sm_close: "sm_step m (SMLifecycle, []) (sm_Close m)"
| sm_open: "sm_step m (SMLifecycle, []) (snd (sm_Open (base_open :: unit + nat) m))"

text \<open>Every reference in the two tables points to an object of the store that is in use, and a source is attributed to
  a peer only while one of the peer's paths has it.\<close>

definition attributed :: "serverMultipathBind \<Rightarrow> string \<Rightarrow> nat \<Rightarrow> bool" where
  "attributed m src r \<longleftrightarrow> (\<exists>p n e. fmlookup (sm_store m) r = Some p \<and> fmlookup (sm_peers m) (sp_id p) = Some r \<and>
     fmlookup (pc_paths p) n = Some e \<and> DstToString e = src)"

definition sm_inv :: "serverMultipathBind \<Rightarrow> bool" where
  "sm_inv m \<longleftrightarrow> (\<forall>r p. fmlookup (sm_store m) r = Some p \<longrightarrow> r < sm_next m \<and> core_inv p) \<and>
     (\<forall>pid r. fmlookup (sm_peers m) pid = Some r \<longrightarrow> (\<exists>p. fmlookup (sm_store m) r = Some p \<and> sp_id p = pid)) \<and>
     (\<forall>src r. fmlookup (sm_bySource m) src = Some r \<longrightarrow> attributed m src r) \<and> sm_rate m < 2 ^ 53"

lemma sm_invD:
  assumes "sm_inv m"
  shows "fmlookup (sm_store m) r = Some p \<Longrightarrow> r < sm_next m \<and> core_inv p"
    "fmlookup (sm_peers m) pid = Some r \<Longrightarrow> \<exists>p. fmlookup (sm_store m) r = Some p \<and> sp_id p = pid"
    "fmlookup (sm_bySource m) src = Some r \<Longrightarrow> attributed m src r" "sm_rate m < 2 ^ 53"
  using assms unfolding sm_inv_def by blast+

text \<open>A handler that works on one peer object, and keeps its identity and its paths, changes neither table.\<close>

definition peer_handler :: "(serverMultipathPeer \<Rightarrow> sends \<times> serverMultipathPeer) \<Rightarrow> bool" where
  "peer_handler f \<longleftrightarrow> (\<forall>p. sp_id (snd (f p)) = sp_id p \<and> pc_paths (snd (f p)) = pc_paths p \<and> (core_inv p \<longrightarrow> core_inv (snd (f p))))"

definition tables :: "serverMultipathBind \<Rightarrow> _" where
  "tables m = (sm_peers m, sm_bySource m, sm_next m, sm_rate m, fmmap (\<lambda>p. (sp_id p, pc_paths p)) (sm_store m))"

definition all_core :: "serverMultipathBind \<Rightarrow> bool" where
  "all_core m \<longleftrightarrow> (\<forall>r p. fmlookup (sm_store m) r = Some p \<longrightarrow> core_inv p)"

definition same_tables :: "serverMultipathBind \<Rightarrow> serverMultipathBind \<Rightarrow> bool" where
  "same_tables m m' \<longleftrightarrow> tables m' = tables m \<and> (all_core m \<longrightarrow> all_core m')"

lemma same_tables_refl [simp]: "same_tables m m"
  by (simp add: same_tables_def)

lemma same_tables_trans: "same_tables m1 m2 \<Longrightarrow> same_tables m2 m3 \<Longrightarrow> same_tables m1 m3"
  by (simp add: same_tables_def)

lemma same_tables_eq:
  assumes "same_tables m m'"
  shows "sm_peers m' = sm_peers m" "sm_bySource m' = sm_bySource m" "sm_next m' = sm_next m" "sm_rate m' = sm_rate m"
    "map_option (\<lambda>p. (sp_id p, pc_paths p)) (fmlookup (sm_store m') r) = map_option (\<lambda>p. (sp_id p, pc_paths p)) (fmlookup (sm_store m) r)"
proof -
  have t: "tables m' = tables m" using assms by (simp add: same_tables_def)
  show "sm_peers m' = sm_peers m" "sm_bySource m' = sm_bySource m" "sm_next m' = sm_next m" "sm_rate m' = sm_rate m"
    using t by (simp_all add: tables_def)
  have "fmmap (\<lambda>p. (sp_id p, pc_paths p)) (sm_store m') = fmmap (\<lambda>p. (sp_id p, pc_paths p)) (sm_store m)"
    using t by (simp add: tables_def)
  from arg_cong [OF this, of "\<lambda>s. fmlookup s r"]
  show "map_option (\<lambda>p. (sp_id p, pc_paths p)) (fmlookup (sm_store m') r) = map_option (\<lambda>p. (sp_id p, pc_paths p)) (fmlookup (sm_store m) r)"
    by simp
qed

lemma same_tables_peer:
  assumes "same_tables m m'" "fmlookup (sm_store m) r = Some p"
  shows "\<exists>p'. fmlookup (sm_store m') r = Some p' \<and> sp_id p' = sp_id p \<and> pc_paths p' = pc_paths p"
  using same_tables_eq(5) [OF assms(1), of r] assms(2) by (cases "fmlookup (sm_store m') r") auto

lemma same_tables_inv: "same_tables m m' \<Longrightarrow> sm_inv m \<Longrightarrow> sm_inv m'"
proof -
  assume st: "same_tables m m'" and inv: "sm_inv m"
  note i = sm_invD [OF inv]
  note eq = same_tables_eq(1-4) [OF st]
  have "r < sm_next m' \<and> core_inv p'" if r: "fmlookup (sm_store m') r = Some p'" for r p'
  proof -
    obtain p where "fmlookup (sm_store m) r = Some p"
      using same_tables_eq(5) [OF st, of r] r by (cases "fmlookup (sm_store m) r") auto
    with i(1) have "r < sm_next m" by blast
    moreover have "core_inv p'" using st r i(1) unfolding same_tables_def all_core_def by blast
    ultimately show ?thesis by (simp add: eq)
  qed
  moreover have "\<exists>p. fmlookup (sm_store m') r = Some p \<and> sp_id p = pid" if "fmlookup (sm_peers m') pid = Some r" for pid r
    using i(2) that same_tables_peer [OF st] unfolding eq by metis
  moreover have "attributed m' src r" if "fmlookup (sm_bySource m') src = Some r" for src r
    using i(3) that same_tables_peer [OF st] unfolding eq attributed_def by metis
  ultimately show "sm_inv m'" using i(4) unfolding sm_inv_def eq(4) by blast
qed

lemma store_upd_same:
  assumes "fmlookup (sm_store m) r = Some p" "sp_id p' = sp_id p" "pc_paths p' = pc_paths p" "core_inv p \<Longrightarrow> core_inv p'"
  shows "same_tables m (m\<lparr>sm_store := fmupd r p' (sm_store m)\<rparr>)"
proof -
  have "fmmap (\<lambda>p. (sp_id p, pc_paths p)) (fmupd r p' (sm_store m)) = fmmap (\<lambda>p. (sp_id p, pc_paths p)) (sm_store m)"
    by (rule fmap_ext) (use assms in auto)
  moreover have "all_core m \<Longrightarrow> all_core (m\<lparr>sm_store := fmupd r p' (sm_store m)\<rparr>)"
    using assms(1,4) by (auto simp: all_core_def split: if_splits)
  ultimately show ?thesis by (simp add: same_tables_def tables_def)
qed

lemma with_peer_same:
  assumes "peer_handler f"
  shows "same_tables m (snd (with_peer r f m))"
proof (cases "fmlookup (sm_store m) r")
  case None
  then show ?thesis by (simp add: with_peer_def)
next
  case (Some p)
  then have "snd (with_peer r f m) = m\<lparr>sm_store := fmupd r (snd (f p)) (sm_store m)\<rparr>"
    by (simp add: with_peer_def split: prod.splits)
  with store_upd_same [OF Some, of "snd (f p)"] assms show ?thesis by (simp add: peer_handler_def)
qed

lemma more_sp_id: "pathCore.more p' = pathCore.more p \<Longrightarrow> sp_id p' = sp_id p"
  by (cases p, cases p') simp

lemma more_sendProbe: "pathCore.more (snd (sendProbe name now rnd p)) = pathCore.more p"
  by (auto simp: sendProbe_def split: option.splits)

lemma more_probeOne: "pathCore.more (snd (probeOne name now rnd p)) = pathCore.more p"
  by (simp add: probeOne_def more_sendProbe split: option.splits)

lemma more_probeAll: "pathCore.more (snd (probeAll names now rnd p)) = pathCore.more p"
  by (induction names arbitrary: p) (simp_all add: case_prod_beta Let_def more_probeOne)

lemma more_finish: "pathCore.more (snd (finishReply i p)) = pathCore.more p"
  by (simp add: finishReply_def split: prod.splits)

lemma finishReply_paths [simp]: "pc_paths (snd (finishReply i p)) = pc_paths p"
  by (simp add: finishReply_def split: prod.splits)

lemma peer_handlers:
  "peer_handler (handlePathControl ks ty payload ep now rnd)"
  "peer_handler (probeAll names now rnds)"
  "peer_handler (finishReply i)"
  "peer_handler (\<lambda>p. ([], with_scheduler (ActivateCarrier name now) p))"
  "peer_handler (\<lambda>p. ([], with_scheduler (CarrierFailure name) p))"
  by (auto simp: peer_handler_def core_inv_ops intro!: more_sp_id more_control more_probeAll more_finish)

lemma confirm_handler:
  "peer_handler (\<lambda>p. case nameForEndpoint ks ep p of None \<Rightarrow> ([], p) | Some name \<Rightarrow> ([], with_scheduler (ProbeResult name 0 True now) p))"
  unfolding peer_handler_def
proof (intro allI conjI impI)
  fix p :: serverMultipathPeer assume "core_inv p"
  then show "core_inv (snd (case nameForEndpoint ks ep p of None \<Rightarrow> ([], p) | Some name \<Rightarrow> ([], with_scheduler (ProbeResult name 0 True now) p)))"
    by (cases "nameForEndpoint ks ep p") (auto intro: core_inv_frame simp: drive)
qed (simp_all split: option.splits)

subsection \<open>Registration\<close>

lemma new_peer_inv: "rate < 2 ^ 53 \<Longrightarrow> core_inv (newServerPeer pid rate now)"
  using new_scheduler_proven new_budget_inv [of rate now] by (simp add: core_inv_def newServerPeer_def) (simp add: NewScheduler_def)

lemma sm_peer_inv:
  assumes inv: "sm_inv m" and p: "sm_peer pid now m = (r, m1)"
  shows "sm_inv m1" "\<exists>p. fmlookup (sm_store m1) r = Some p \<and> sp_id p = pid" "fmlookup (sm_peers m1) pid = Some r"
    "sm_bySource m1 = sm_bySource m" "sm_forced m1 = sm_forced m"
    "fmlookup (sm_bySource m) src = Some r' \<Longrightarrow> fmlookup (sm_store m1) r' = fmlookup (sm_store m) r'"
proof -
  note i = sm_invD [OF inv]
  have fresh: "fmlookup (sm_store m) (sm_next m) = None" using i(1) by (cases "fmlookup (sm_store m) (sm_next m)") auto
  show s: "sm_bySource m1 = sm_bySource m" "sm_forced m1 = sm_forced m"
    using p by (auto simp: sm_peer_def split: option.splits)
  show "\<exists>p. fmlookup (sm_store m1) r = Some p \<and> sp_id p = pid" "fmlookup (sm_peers m1) pid = Some r"
    using p i(2) [of pid] by (auto simp: sm_peer_def newServerPeer_def split: option.splits)
  have old: "fmlookup (sm_store m) q = Some x \<Longrightarrow> fmlookup (sm_store m1) q = Some x" for q x
    using p fresh by (auto simp: sm_peer_def split: option.splits)
  show "fmlookup (sm_bySource m) src = Some r' \<Longrightarrow> fmlookup (sm_store m1) r' = fmlookup (sm_store m) r'"
    using i(3) [of src r'] old unfolding attributed_def by fastforce
  show "sm_inv m1"
  proof (cases "fmlookup (sm_peers m) pid")
    case None
    then have m1: "m1 = m\<lparr>sm_store := fmupd (sm_next m) (newServerPeer pid (sm_rate m) now) (sm_store m),
        sm_next := sm_next m + 1, sm_peers := fmupd pid (sm_next m) (sm_peers m)\<rparr>" using p by (auto simp: sm_peer_def)
    have "attributed m1 src' q" if "fmlookup (sm_bySource m) src' = Some q" for src' q
    proof -
      from i(3) [OF that] obtain x n e where x: "fmlookup (sm_store m) q = Some x" "fmlookup (sm_peers m) (sp_id x) = Some q"
        "fmlookup (pc_paths x) n = Some e" "DstToString e = src'" by (auto simp: attributed_def)
      have "sp_id x \<noteq> pid" using x(2) None by auto
      with x old [OF x(1)] show ?thesis by (auto simp: attributed_def m1)
    qed
    moreover have "\<exists>x. fmlookup (sm_store m1) q = Some x \<and> sp_id x = k" if "fmlookup (sm_peers m1) k = Some q" for k q
    proof (cases "k = pid")
      case True
      with that show ?thesis by (simp add: m1 newServerPeer_def)
    next
      case False
      with that i(2) [of k q] fresh show ?thesis by (auto simp: m1)
    qed
    moreover have "q < sm_next m1 \<and> core_inv x" if "fmlookup (sm_store m1) q = Some x" for q x
      using that i(1) new_peer_inv [OF i(4)] by (auto simp: m1 less_Suc_eq split: if_splits)
    ultimately show ?thesis using i(4) s(1) unfolding sm_inv_def by (auto simp: m1)
  next
    case (Some q)
    then show ?thesis using inv p by (simp add: sm_peer_def)
  qed
qed

text \<open>The tables after a registration that is not refused.\<close>

lemma register_shape:
  assumes reg: "sm_RegisterPath pid name kind ep pathMTU now rnd m = (outs, m')" and nr: "\<not> sm_refused pid kind (DstToString ep) m"
    and pm: "sm_peer pid now m = (r, m1)" and p: "fmlookup (sm_store m1) r = Some p"
  shows "\<exists>p4 bs. m' = m1\<lparr>sm_bySource := fmupd (DstToString ep) r bs, sm_store := fmupd r p4 (sm_store m1)\<rparr> \<and>
    bs = (case replaced name ep p of None \<Rightarrow> sm_bySource m1
          | Some old \<Rightarrow> if \<not> shared_source name old p \<and> fmlookup (sm_bySource m1) old = Some r
                        then fmdrop old (sm_bySource m1) else sm_bySource m1) \<and>
    sp_id p4 = sp_id p \<and> pc_paths p4 = fmupd name ep (pc_paths p) \<and> (core_inv p \<longrightarrow> name \<noteq> '''' \<longrightarrow> core_inv p4)"
proof -
  define p1 where "p1 = (case replaced name ep p of None \<Rightarrow> p
    | Some old \<Rightarrow> p\<lparr>pc_probes := fmdrop name (pc_probes p), pc_mtuProbes := fmdrop name (pc_mtuProbes p), pc_mtuDone := fmdrop name (pc_mtuDone p)\<rparr>)"
  define p3 where "p3 = with_scheduler (sched_Register name kind \<circ> SetForced (sm_forced m1)) (p1\<lparr>pc_paths := fmupd name ep (pc_paths p1), pc_pathMTU := pathMTU\<rparr>)"
  define p4 where "p4 = (if kind \<noteq> PathWSS then snd (sendProbe name now rnd p3) else p3)"
  have f: "pc_scheduler p1 = pc_scheduler p" "pc_paths p1 = pc_paths p" "sp_id p1 = sp_id p" "pc_dupLimiter p1 = pc_dupLimiter p"
    by (simp_all add: p1_def split: option.splits)
  have p3: "core_inv p3" if "core_inv p" "name \<noteq> ''''"
    by (rule core_inv_register [OF that drives_ops(8) [of _ "sm_forced m1"], where ep = ep and kind = kind]) (simp_all add: p3_def f)
  have "sp_id p4 = sp_id p3" using more_sp_id [OF more_sendProbe [of name now rnd p3]] by (simp add: p4_def)
  then have f4: "sp_id p4 = sp_id p" "pc_paths p4 = fmupd name ep (pc_paths p)" "core_inv p \<longrightarrow> name \<noteq> '''' \<longrightarrow> core_inv p4"
    using p3 core_inv_ops(7) [of p3] by (auto simp: p4_def p3_def f)
  have "m' = m1\<lparr>sm_bySource := fmupd (DstToString ep) r (case replaced name ep p of None \<Rightarrow> sm_bySource m1
          | Some old \<Rightarrow> if \<not> shared_source name old p \<and> fmlookup (sm_bySource m1) old = Some r
                        then fmdrop old (sm_bySource m1) else sm_bySource m1), sm_store := fmupd r p4 (sm_store m1)\<rparr>"
    using arg_cong [OF reg, of snd] nr pm p
    by (cases "replaced name ep p") (auto simp: sm_RegisterPath_def p4_def p3_def p1_def Let_def split: prod.splits)
  with f4 show ?thesis by blast
qed

lemma register_inv_sm:
  assumes inv: "sm_inv m" and name: "name \<noteq> ''''" and reg: "sm_RegisterPath pid name kind ep pathMTU now rnd m = (outs, m')"
  shows "sm_inv m'"
proof (cases "sm_refused pid kind (DstToString ep) m")
  case True
  with inv reg show ?thesis by (simp add: sm_RegisterPath_def)
next
  case False
  obtain r m1 where pm: "sm_peer pid now m = (r, m1)" by fastforce
  note sp = sm_peer_inv [OF inv pm]
  from sp(2) obtain p where p: "fmlookup (sm_store m1) r = Some p" "sp_id p = pid" by blast
  note i = sm_invD [OF sp(1)]
  from register_shape [OF reg False pm p(1)] obtain p4 bs where
    m': "m' = m1\<lparr>sm_bySource := fmupd (DstToString ep) r bs, sm_store := fmupd r p4 (sm_store m1)\<rparr>" and
    bs: "bs = (case replaced name ep p of None \<Rightarrow> sm_bySource m1
          | Some old \<Rightarrow> if \<not> shared_source name old p \<and> fmlookup (sm_bySource m1) old = Some r
                        then fmdrop old (sm_bySource m1) else sm_bySource m1)" and
    p4: "sp_id p4 = sp_id p" "pc_paths p4 = fmupd name ep (pc_paths p)" "core_inv p4" using i(1) [OF p(1)] name by blast
  have sub: "fmlookup bs src = Some q \<Longrightarrow> fmlookup (sm_bySource m1) src = Some q" for src q
    by (auto simp: bs split: option.splits if_splits)
  have "attributed m' src q" if s: "fmlookup (fmupd (DstToString ep) r bs) src = Some q" for src q
  proof (cases "src = DstToString ep")
    case True
    with s have "q = r" by simp
    with True p4 p sp(3) show ?thesis unfolding attributed_def m'
      by (intro exI [of _ p4] exI [of _ name] exI [of _ ep]) simp
  next
    case ne: False
    with s have bsq: "fmlookup bs src = Some q" by simp
    from i(3) [OF sub [OF bsq]] obtain x n e where x: "fmlookup (sm_store m1) q = Some x"
      "fmlookup (sm_peers m1) (sp_id x) = Some q" "fmlookup (pc_paths x) n = Some e" "DstToString e = src"
      by (auto simp: attributed_def)
    show ?thesis
    proof (cases "q = r")
      case False
      with x show ?thesis unfolding attributed_def m' by (intro exI [of _ x] exI [of _ n] exI [of _ e]) simp
    next
      case qr: True
      have "\<exists>n' e'. n' \<noteq> name \<and> fmlookup (pc_paths p) n' = Some e' \<and> DstToString e' = src"
      proof (rule ccontr)
        assume no: "\<not> ?thesis"
        with x qr p(1) have "n = name" by auto
        then have rp: "replaced name ep p = Some src" using x qr p(1) ne by (simp add: replaced_def)
        have "\<not> shared_source name src p" using no
          by (auto simp: shared_source_def)
        then have "fmlookup bs src = None" using rp sub [OF bsq] qr by (simp add: bs)
        with bsq show False by simp
      qed
      then obtain n' e' where ne': "n' \<noteq> name" "fmlookup (pc_paths p) n' = Some e'" "DstToString e' = src" by blast
      with p4 p sp(3) qr show ?thesis unfolding attributed_def m'
        by (intro exI [of _ p4] exI [of _ n'] exI [of _ e']) simp
    qed
  qed
  moreover have "\<exists>x. fmlookup (sm_store m') q = Some x \<and> sp_id x = k" if "fmlookup (sm_peers m') k = Some q" for k q
    using that i(2) [of k q] p p4(1) by (auto simp: m')
  moreover have "q < sm_next m' \<and> core_inv x" if "fmlookup (sm_store m') q = Some x" for q x
    using that i(1) [of q] i(1) [OF p(1)] p4(3) by (auto simp: m' split: if_splits)
  ultimately show ?thesis using i(4) unfolding sm_inv_def by (simp add: m')
qed

subsection \<open>The other operations\<close>

lemma control_same_tables: "same_tables m (snd (sm_HandlePathControl ks ty payload ep now rnd m))"
  using with_peer_same [OF peer_handlers(1)] by (simp add: sm_HandlePathControl_def sm_dispatchControl_def split: option.splits)

lemma confirm_same_tables: "same_tables m (sm_confirm ks b ep now m)"
  using with_peer_same [OF confirm_handler] by (simp add: sm_confirm_def split: option.splits)

lemma cache_same_tables: "same_tables m (m\<lparr>sm_cache := c\<rparr>)"
  by (simp add: same_tables_def tables_def all_core_def)

lemma probeAll_same_tables: "same_tables m (snd (sm_probeAll ps now rnd m))"
proof (induction ps now rnd m rule: sm_probeAll.induct)
  case (2 r names ps now rnd m)
  have "same_tables m (snd (with_peer r (probeAll names now (rnd r)) m))" by (rule with_peer_same [OF peer_handlers(2)])
  from same_tables_trans [OF this "2.IH" [OF refl prod.collapse]] show ?case by (simp add: case_prod_beta Let_def)
qed simp

lemma on_peer_same: "peer_handler (\<lambda>p. ([], f p)) \<Longrightarrow> same_tables m (on_peer pid f m)"
  using with_peer_same by (simp add: on_peer_def split: option.splits)

lemma lifecycle_same_tables:
  "same_tables m (sm_Close m)" "same_tables m (snd (sm_Open b m))" "same_tables m (sm_ReserveSources addrs m)"
  by (simp_all add: sm_Close_def sm_Open_def sm_restartProbeLoop_def sm_ReserveSources_def same_tables_def tables_def all_core_def)

lemma force_same_tables: "same_tables m (sm_SetForced name m)"
proof -
  let ?f = "\<lambda>r p. if fmlookup (sm_peers m) (sp_id p) = Some r then with_scheduler (SetForced (NormalizeTransportName name)) p else p"
  have "fmmap (\<lambda>p. (sp_id p, pc_paths p)) (fmmap_keys ?f (sm_store m)) = fmmap (\<lambda>p. (sp_id p, pc_paths p)) (sm_store m)"
    by (rule fmap_ext) (auto simp: option.map_comp o_def intro!: option.map_cong)
  moreover have "all_core m \<Longrightarrow> all_core (sm_SetForced name m)"
    using core_inv_ops(6) by (auto simp: all_core_def sm_SetForced_def Let_def)
  ultimately show ?thesis by (simp add: same_tables_def tables_def sm_SetForced_def Let_def)
qed

lemma compact_same_tables: "sm_compact env left i out slots m = (out', slots', outs, m') \<Longrightarrow> same_tables m m'"
proof (induction left arbitrary: i out slots m outs)
  case (Suc left)
  let ?b = "slot_pkt (slots ! i)" and ?e = "env i"
  show ?case
  proof (cases "if sl_size (slots ! i) \<le> 0 then None else sl_ep (slots ! i)")
    case None
    with Suc.prems have "sm_compact env left (Suc i) out slots m = (out', slots', outs, m')" by (simp add: Let_def)
    then show ?thesis by (rule Suc.IH)
  next
    case ep: (Some ep)
    show ?thesis
    proof (cases "DecodeControlFrame ?b")
      case (Some f)
      obtain ty payload where f: "f = (ty, payload)" by fastforce
      obtain o1 m1 where h: "sm_HandlePathControl (re_order ?e) ty payload ep (re_now ?e) (re_rnd ?e) m = (o1, m1)" by fastforce
      obtain o2 where l: "sm_compact env left (Suc i) out slots m1 = (out', slots', o2, m')"
        using Suc.prems ep Some f h by (auto simp: Let_def split: prod.splits)
      from control_same_tables [of m "re_order ?e" ty payload ep "re_now ?e" "re_rnd ?e"] h have "same_tables m m1" by simp
      then show ?thesis using Suc.IH [OF l] by (rule same_tables_trans)
    next
      case None
      let ?m1 = "sm_confirm (re_order ?e) ?b ep (re_now ?e) m"
      obtain seen c where d: "dup_Seen ?b (re_now ?e) (re_victim ?e) (sm_cache ?m1) = (seen, c)" by fastforce
      have "\<exists>out2 slots2. sm_compact env left (Suc i) out2 slots2 (?m1\<lparr>sm_cache := c\<rparr>) = (out', slots', outs, m')"
        using Suc.prems ep None d by (cases seen) (auto simp: Let_def)
      then have "same_tables (?m1\<lparr>sm_cache := c\<rparr>) m'" using Suc.IH by blast
      with same_tables_trans [OF confirm_same_tables cache_same_tables] show ?thesis by (rule same_tables_trans)
    qed
  qed
qed simp

lemma peer_Send_spec:
  assumes inv: "core_inv p" and ks: "range_order ks (sc_candidates (pc_scheduler p))" "range_order ks' (sc_candidates (pc_scheduler p))"
    and now: "bl_last (pc_dupLimiter p) \<le> now" and s: "peer_Send ok ks ks' now bufs p = (r, outs, p')"
  shows "\<exists>pr alt dup s'. selects (pc_scheduler p) pr alt dup s' \<and> core_inv p' \<and> dispatches ok bufs p pr alt dup r outs p'"
    "sp_id p' = sp_id p \<and> pc_paths p' = pc_paths p"
proof -
  have pv: "proven_inv (pc_scheduler p)" using inv by (simp add: core_inv_def)
  from selection_spec [OF pv ks(1)] obtain pr alt dup s' where
    sel: "selectLocked ks (pc_scheduler p) = (Some (pr, alt, dup), s')" and spec: "selects (pc_scheduler p) pr alt dup s'" by blast
  let ?p1 = "p\<lparr>pc_scheduler := s'\<rparr>"
  note p1 = select_core_inv [OF inv ks(1) sel]
  have h1: "healthy s' n = healthy (pc_scheduler p) n" for n using p1(2) by (simp add: healthy_def)
  have np: "fmlookup (pc_paths p) '''' = None"
    using inv no_empty_name [of "pc_scheduler p"] by (simp add: core_inv_def proven_inv_def)
  have "core_inv p' \<and> dispatches ok bufs p pr alt dup r outs p'"
  proof (cases "pr = ''''")
    case True
    have o: "range_order ks' (sc_candidates (pc_scheduler ?p1))" using ks(2) p1(2) by simp
    from True s sel np have "r = Err NoHealthyCandidate" "outs = []" "p' = with_scheduler (\<lambda>s. snd (sched_Status ks' s)) ?p1"
      by (auto simp: peer_Send_def Let_def)
    with status_core_inv [OF p1(1) o] status_candidates [OF p1(1) o] p1(2) True show ?thesis
      by (simp add: dispatches_def healthy_def)
  next
    case False
    then obtain first where f: "fmlookup (pc_paths p) pr = Some first" using selected_path [OF inv spec] by blast
    show ?thesis
    proof (cases "ok bufs first")
      case ok: True
      obtain sent dups where d: "duplicateSend ok now bufs alt dup ?p1 = (sent, dups, p')"
        and r: "r = (if sent then Ok () else Err CarrierError)" "outs = (bufs, first) # dups"
        using s sel f ok by (auto simp: peer_Send_def Let_def split: prod.splits)
      show ?thesis unfolding r
        by (rule dispatches_ok [where m = p, OF d p1(1)]) (use now h1 False f ok in auto)
    next
      case nok: False
      with s sel f have r: "r = Err CarrierError" "outs = [(bufs, first)]" "p' = p\<lparr>pc_scheduler := CarrierFailure pr s'\<rparr>"
        by (auto simp: peer_Send_def Let_def)
      show ?thesis unfolding r by (rule dispatches_fail [where m = p and ok = ok, OF p1 False f nok])
    qed
  qed
  with spec show "\<exists>pr alt dup s'. selects (pc_scheduler p) pr alt dup s' \<and> core_inv p' \<and> dispatches ok bufs p pr alt dup r outs p'" by blast
  have dupf: "sp_id (snd (snd (duplicateSend ok now bufs alt dup q))) = sp_id q \<and> pc_paths (snd (snd (duplicateSend ok now bufs alt dup q))) = pc_paths q" for q
    by (auto simp: duplicateSend_def Let_def split: option.splits prod.splits bool.splits)
  show "sp_id p' = sp_id p \<and> pc_paths p' = pc_paths p"
    using s sel dupf [of ?p1] by (auto simp: peer_Send_def Let_def split: option.splits if_splits prod.splits)
qed

lemma send_same_tables:
  assumes inv: "sm_inv m" and s: "sm_Send ok ks ks' now bufs ep m = (r, outs, m')"
    and oo: "\<And>q p. fmlookup (sm_store m) q = Some p \<Longrightarrow> ep = sp_endpoint p \<Longrightarrow> fmlookup (sm_peers m) (sp_id p) = Some q \<Longrightarrow>
        range_order ks (sc_candidates (pc_scheduler p)) \<and> range_order ks' (sc_candidates (pc_scheduler p)) \<and> bl_last (pc_dupLimiter p) \<le> now"
  shows "same_tables m m'"
proof (cases ep)
  case (serverMultipathEndpoint pid)
  show ?thesis
  proof (cases "fmlookup (sm_peers m) pid")
    case None
    with s serverMultipathEndpoint show ?thesis by simp
  next
    case (Some q)
    from sm_invD(2) [OF inv Some] obtain p where p: "fmlookup (sm_store m) q = Some p" "sp_id p = pid" by blast
    obtain res outs2 p' where ps: "peer_Send ok ks ks' now bufs p = (res, outs2, p')" by (metis prod_cases3)
    have m': "m' = m\<lparr>sm_store := fmupd q p' (sm_store m)\<rparr>" using s serverMultipathEndpoint Some p ps by simp
    have o3: "range_order ks (sc_candidates (pc_scheduler p))" "range_order ks' (sc_candidates (pc_scheduler p))" "bl_last (pc_dupLimiter p) \<le> now"
      using oo [OF p(1)] serverMultipathEndpoint p(2) Some by (simp_all add: sp_endpoint_def)
    have c: "core_inv p" using sm_invD(1) [OF inv p(1)] by simp
    from peer_Send_spec [OF c o3 ps] show ?thesis unfolding m' by (intro store_upd_same [OF p(1)]) auto
  qed
qed (use s in auto)

lemma sm_remove_inv:
  assumes inv: "sm_inv m"
  shows "sm_inv (sm_RemovePeer pid m)"
proof -
  note i = sm_invD [OF inv]
  let ?m = "sm_RemovePeer pid m"
  have "attributed ?m src r" if s: "fmlookup (sm_bySource ?m) src = Some r" for src r
  proof -
    have b: "fmlookup (sm_bySource m) src = Some r"
      "case fmlookup (sm_store m) r of None \<Rightarrow> True | Some p \<Rightarrow> sp_id p \<noteq> pid"
      using s by (auto simp: sm_RemovePeer_def split: option.splits if_splits)
    from i(3) [OF b(1)] obtain p n e where "fmlookup (sm_store m) r = Some p" "fmlookup (sm_peers m) (sp_id p) = Some r"
      "fmlookup (pc_paths p) n = Some e" "DstToString e = src" by (auto simp: attributed_def)
    with b(2) show ?thesis unfolding attributed_def sm_RemovePeer_def
      by (intro exI [of _ p] exI [of _ n] exI [of _ e]) simp
  qed
  with i show ?thesis unfolding sm_inv_def by (auto simp: sm_RemovePeer_def)
qed

text \<open>Steps that are neither registrations nor removals leave both tables alone.\<close>

lemma sm_step_tables:
  assumes "sm_step m (e, outs) m'" "sm_inv m" "\<And>pid name kind ep. e \<noteq> SMRegister pid name kind ep" "\<And>pid. e \<noteq> SMRemove pid"
  shows "same_tables m m'"
  using assms(1)
proof (cases rule: sm_step.cases)
  case (sm_activate pid name now)
  then show ?thesis by (simp add: sm_ActivatePath_def on_peer_same [OF peer_handlers(4)])
next
  case (sm_deactivate pid name)
  then show ?thesis by (simp add: sm_DeactivatePath_def on_peer_same [OF peer_handlers(5)])
next
  case (sm_control ks ty payload ep now rnd)
  with control_same_tables [of m ks ty payload ep now rnd] show ?thesis by simp
next
  case (sm_reply r i)
  with with_peer_same [OF peer_handlers(3), of m r i] show ?thesis by (simp add: sm_finishReply_def)
next
  case (sm_tick ps now rnd)
  with probeAll_same_tables [of m ps now rnd] show ?thesis by simp
next
  case (sm_recv env slots out slots')
  with compact_same_tables show ?thesis by blast
next
  case (sm_send ep ks ks' now ok bufs r)
  with send_same_tables [OF assms(2) sm_send(3)] show ?thesis by blast
qed (use assms(3,4) force_same_tables lifecycle_same_tables in auto)

lemma sm_step_inv:
  assumes inv: "sm_inv m" and st: "sm_step m e m'"
  shows "sm_inv m'"
proof -
  obtain ev outs where e: "e = (ev, outs)" by fastforce
  show ?thesis
  proof (cases "(\<exists>pid name kind ep. ev = SMRegister pid name kind ep) \<or> (\<exists>pid. ev = SMRemove pid)")
    case True
    from st [unfolded e] True show ?thesis
      by (cases rule: sm_step.cases) (auto intro: register_inv_sm [OF inv] sm_remove_inv [OF inv])
  next
    case False
    with sm_step_tables [OF st [unfolded e] inv] same_tables_inv inv show ?thesis by blast
  qed
qed

interpretation sm: inv_system sm_step sm_inv
  by unfold_locales (rule sm_step_inv)

lemma new_server_inv: "rate < 2 ^ 53 \<Longrightarrow> sm_inv (NewServerMultipathBind rate)"
  by (simp add: sm_inv_def NewServerMultipathBind_def resolveDuplicateRate_def defaultDuplicateRateBytesPerSec_def)

subsection \<open>Who owns a source\<close>

definition source_owner :: "serverMultipathBind \<Rightarrow> string \<Rightarrow> string option" where
  "source_owner m src =
     (case fmlookup (sm_bySource m) src of None \<Rightarrow> None | Some r \<Rightarrow> map_option sp_id (fmlookup (sm_store m) r))"

lemma same_tables_owner:
  assumes "same_tables m m'"
  shows "source_owner m' src = source_owner m src"
proof -
  have "map_option sp_id (fmlookup (sm_store m') r) = map_option sp_id (fmlookup (sm_store m) r)" for r
    using arg_cong [OF same_tables_eq(5) [OF assms, of r], of "map_option fst"] by (simp add: option.map_comp o_def)
  then show ?thesis by (simp add: source_owner_def same_tables_eq(2) [OF assms] split: option.splits)
qed

lemma refused_owner: "sm_refused pid kind src m \<longleftrightarrow> kind \<noteq> PathWSS \<and>
    (gm_get False (sm_reserved m) src \<or> (\<exists>own. source_owner m src = Some own \<and> own \<noteq> pid))"
  by (auto simp: sm_refused_def source_owner_def split: option.splits)

lemma register_owner:
  assumes inv: "sm_inv m" and reg: "sm_RegisterPath pid name kind ep pathMTU now rnd m = (outs, m')"
    and nr: "\<not> sm_refused pid kind (DstToString ep) m"
  shows "source_owner m' (DstToString ep) = Some pid"
    "src \<noteq> DstToString ep \<Longrightarrow> source_owner m' src = source_owner m src \<or> source_owner m' src = None"
proof -
  obtain r m1 where pm: "sm_peer pid now m = (r, m1)" by fastforce
  note sp = sm_peer_inv [OF inv pm]
  from sp(2) obtain p where p: "fmlookup (sm_store m1) r = Some p" "sp_id p = pid" by blast
  from register_shape [OF reg nr pm p(1)] obtain p4 bs where
    m': "m' = m1\<lparr>sm_bySource := fmupd (DstToString ep) r bs, sm_store := fmupd r p4 (sm_store m1)\<rparr>" and
    bs: "bs = (case replaced name ep p of None \<Rightarrow> sm_bySource m1
          | Some old \<Rightarrow> if \<not> shared_source name old p \<and> fmlookup (sm_bySource m1) old = Some r
                        then fmdrop old (sm_bySource m1) else sm_bySource m1)" and p4: "sp_id p4 = sp_id p" by blast
  show "source_owner m' (DstToString ep) = Some pid" using p p4 by (simp add: source_owner_def m')
  assume ne: "src \<noteq> DstToString ep"
  have "fmlookup bs src = fmlookup (sm_bySource m) src \<or> fmlookup bs src = None"
    using sp(4) by (auto simp: bs split: option.splits)
  moreover have "map_option sp_id (fmlookup (fmupd r p4 (sm_store m1)) q) = map_option sp_id (fmlookup (sm_store m) q)"
    if "fmlookup (sm_bySource m) src = Some q" for q
    unfolding sp(6) [OF that, symmetric] using p p4 by (cases "r = q") auto
  ultimately show "source_owner m' src = source_owner m src \<or> source_owner m' src = None"
    using ne by (auto simp: source_owner_def m' split: option.splits)
qed

subsection \<open>What WireGuard receives\<close>

text \<open>The packets of a batch that have a source, are not control frames and are not duplicates, each with the endpoint
  WireGuard sees.\<close>

fun tagged :: "(nat \<Rightarrow> recvEnv) \<Rightarrow> (endpoint \<Rightarrow> endpoint) \<Rightarrow> nat \<Rightarrow> endpoint option slot list \<Rightarrow> duplicateCache \<Rightarrow> (bytes \<times> endpoint option) list" where
  "tagged env tag i [] c = []"
| "tagged env tag i (s # ss) c =
     (case (if sl_size s \<le> 0 then None else sl_ep s) of
        None \<Rightarrow> tagged env tag (Suc i) ss c
      | Some ep \<Rightarrow>
          if isControlFrame (slot_pkt s) then tagged env tag (Suc i) ss c
          else case dup_Seen (slot_pkt s) (re_now (env i)) (re_victim (env i)) c of
            (True, c') \<Rightarrow> tagged env tag (Suc i) ss c'
          | (False, c') \<Rightarrow> (slot_pkt s, Some (tag ep)) # tagged env tag (Suc i) ss c')"

definition owner_tag :: "serverMultipathBind \<Rightarrow> endpoint \<Rightarrow> endpoint" where
  "owner_tag m ep = (case source_owner m (DstToString ep) of None \<Rightarrow> ep | Some pid \<Rightarrow> serverMultipathEndpoint pid)"

lemma sm_tag_owner: "sm_tag m ep = owner_tag m ep"
  by (simp add: sm_tag_def owner_tag_def source_owner_def sp_endpoint_def split: option.splits)

lemma owner_tag_same: "same_tables m m' \<Longrightarrow> owner_tag m' = owner_tag m"
  by (rule ext) (simp add: owner_tag_def same_tables_owner)

lemma with_peer_cache [simp]: "sm_cache (snd (with_peer r f m)) = sm_cache m"
  by (simp add: with_peer_def split: option.splits prod.splits)

lemma control_cache: "sm_cache (snd (sm_HandlePathControl ks ty payload ep now rnd m)) = sm_cache m"
  by (simp add: sm_HandlePathControl_def sm_dispatchControl_def split: option.splits)

lemma confirm_cache [simp]: "sm_cache (sm_confirm ks b ep now m) = sm_cache m"
  by (simp add: sm_confirm_def split: option.splits)

lemma sm_deliver_slot_view:
  assumes "out \<le> i" "i < length slots" "uniform L slots"
  shows "length (sm_deliver_slot out i ep slots) = length slots" "drop (Suc i) (sm_deliver_slot out i ep slots) = drop (Suc i) slots"
    "uniform L (sm_deliver_slot out i ep slots)"
    "map slot_view (take (Suc out) (sm_deliver_slot out i ep slots)) = map slot_view (take out slots) @ [(slot_pkt (slots ! i), Some ep)]"
proof -
  let ?b = "slot_pkt (slots ! i)"
  define s1 where "s1 = slots[i := (slots ! i)\<lparr>sl_ep := Some ep\<rparr>]"
  have o: "out < length slots" using assms by simp
  have u: "length (sl_buf (slots ! out)) = L" "length (sl_buf (slots ! i)) = L" "sl_size (slots ! i) \<le> L"
    using assms o by (simp_all add: uniform_def)
  have b1: "slot_pkt (s1 ! i) = ?b" "sl_ep (s1 ! i) = Some ep" "sl_buf (s1 ! out) = sl_buf (slots ! out)"
    using assms(2) o by (auto simp: s1_def slot_pkt_def nth_list_update)
  obtain buf k where bk: "copy_into (sl_buf (slots ! out)) ?b = (buf, k)" by fastforce
  have "length ?b \<le> L" using u by (simp add: slot_pkt_def)
  note cv = copy_into_view [OF u(1) this bk]
  define t where "t = (if out = i then (slots ! i)\<lparr>sl_ep := Some ep\<rparr> else \<lparr>sl_buf = buf, sl_size = k, sl_ep = Some ep\<rparr>)"
  have eq: "sm_deliver_slot out i ep slots = s1[out := t]"
    using assms(2) b1 bk by (auto simp: sm_deliver_slot_def Let_def t_def s1_def)
  have t: "slot_view t = (?b, Some ep)" "length (sl_buf t) = L" "sl_size t \<le> L"
    using cv u by (auto simp: t_def slot_view_def slot_pkt_def)
  have u1: "uniform L s1" using assms(3) u by (auto simp: s1_def uniform_def dest: set_update_subset_insert [THEN subsetD])
  show "length (sm_deliver_slot out i ep slots) = length slots" "drop (Suc i) (sm_deliver_slot out i ep slots) = drop (Suc i) slots"
    using assms by (simp_all add: eq s1_def)
  show "uniform L (sm_deliver_slot out i ep slots)"
    using u1 t by (auto simp: eq uniform_def dest: set_update_subset_insert [THEN subsetD])
  show "map slot_view (take (Suc out) (sm_deliver_slot out i ep slots)) = map slot_view (take out slots) @ [(?b, Some ep)]"
    using o t(1) assms(1) by (simp add: eq s1_def take_Suc_conv_app_nth)
qed

lemma sm_compact_view:
  "sm_compact env left i out slots m = (out', slots', outs, m') \<Longrightarrow> i + left = length slots \<Longrightarrow> out \<le> i \<Longrightarrow> uniform L slots \<Longrightarrow>
   map slot_view (take out' slots') = map slot_view (take out slots) @ tagged env (owner_tag m) i (drop i slots) (sm_cache m)"
proof (induction left arbitrary: i out slots m outs)
  case (Suc left)
  let ?s = "slots ! i" and ?b = "slot_pkt (slots ! i)" and ?e = "env i"
  have i: "i < length slots" using Suc.prems(2) by simp
  have drop_i: "drop i slots = ?s # drop (Suc i) slots" using i by (simp add: Cons_nth_drop_Suc)
  have len: "Suc i + left = length slots" using Suc.prems(2) by simp
  show ?case
  proof (cases "if sl_size ?s \<le> 0 then None else sl_ep ?s")
    case None
    with Suc.prems(1) have l: "sm_compact env left (Suc i) out slots m = (out', slots', outs, m')" by (simp add: Let_def)
    from Suc.IH [OF l len] Suc.prems(3,4) None show ?thesis by (simp add: drop_i)
  next
    case ep: (Some ep)
    show ?thesis
    proof (cases "DecodeControlFrame ?b")
      case (Some f)
      obtain ty payload where f: "f = (ty, payload)" by fastforce
      obtain o1 m1 where h: "sm_HandlePathControl (re_order ?e) ty payload ep (re_now ?e) (re_rnd ?e) m = (o1, m1)" by fastforce
      obtain o2 where l: "sm_compact env left (Suc i) out slots m1 = (out', slots', o2, m')"
        using Suc.prems(1) ep Some f h by (auto simp: Let_def split: prod.splits)
      have m1: "owner_tag m1 = owner_tag m" "sm_cache m1 = sm_cache m"
        using owner_tag_same [OF control_same_tables] control_cache arg_cong [OF h, of snd] by (metis snd_conv)+
      have "isControlFrame ?b" using Some decode_control [of ?b] by simp
      with Suc.IH [OF l len] Suc.prems(3,4) ep m1 show ?thesis by (simp add: drop_i)
    next
      case None
      then have nc: "\<not> isControlFrame ?b" by (simp add: decode_control)
      let ?m1 = "sm_confirm (re_order ?e) ?b ep (re_now ?e) m"
      obtain seen c where d: "dup_Seen ?b (re_now ?e) (re_victim ?e) (sm_cache m) = (seen, c)" by fastforce
      let ?m2 = "?m1\<lparr>sm_cache := c\<rparr>"
      have tg: "owner_tag ?m1 = owner_tag m" "owner_tag ?m2 = owner_tag m"
        using owner_tag_same [OF confirm_same_tables] owner_tag_same [OF cache_same_tables] by metis+
      show ?thesis
      proof (cases seen)
        case True
        with Suc.prems(1) ep None d have l: "sm_compact env left (Suc i) out slots ?m2 = (out', slots', outs, m')" by (simp add: Let_def)
        from Suc.IH [OF l len] Suc.prems(3,4) True nc d ep tg show ?thesis by (simp add: drop_i)
      next
        case False
        let ?s2 = "sm_deliver_slot out i (owner_tag m ep) slots"
        from Suc.prems(1) ep None d False have l: "sm_compact env left (Suc i) (Suc out) ?s2 ?m2 = (out', slots', outs, m')"
          by (simp add: Let_def sm_tag_owner tg)
        note dv = sm_deliver_slot_view [OF Suc.prems(3) i Suc.prems(4), of "owner_tag m ep"]
        from Suc.IH [OF l] len Suc.prems(3) dv False nc d ep tg show ?thesis by (simp add: drop_i)
      qed
    qed
  qed
qed simp

section \<open>Properties\<close>

text \<open>In every reachable server bind, a carrier source that classifies traffic belongs to a peer that is still in
  the table of peers and has that source as one of its registered paths, and after a peer has been removed no
  source is attributed to it.\<close>

theorem source_table_sound:
  assumes "run sm_step (NewServerMultipathBind rate) es m" "rate < 2 ^ 53"
  shows "(\<forall>src pid. source_owner m src = Some pid \<longrightarrow>
      (\<exists>r p n e. fmlookup (sm_peers m) pid = Some r \<and> fmlookup (sm_store m) r = Some p \<and>
        fmlookup (pc_paths p) n = Some e \<and> DstToString e = src)) \<and>
    (\<forall>pid src. source_owner (sm_RemovePeer pid m) src \<noteq> Some pid \<and> fmlookup (sm_peers (sm_RemovePeer pid m)) pid = None)"
proof (intro conjI allI impI)
  have inv: "sm_inv m" by (rule sm.run_inv [OF assms(1) new_server_inv [OF assms(2)]])
  fix src pid
  show "\<exists>r p n e. fmlookup (sm_peers m) pid = Some r \<and> fmlookup (sm_store m) r = Some p \<and> fmlookup (pc_paths p) n = Some e \<and> DstToString e = src"
    if "source_owner m src = Some pid"
    using that sm_invD(3) [OF inv, of src] by (fastforce simp: source_owner_def attributed_def split: option.splits)
  show "source_owner (sm_RemovePeer pid m) src \<noteq> Some pid" "fmlookup (sm_peers (sm_RemovePeer pid m)) pid = None"
    by (auto simp: source_owner_def sm_RemovePeer_def split: option.splits if_splits)
qed

text \<open>C28: no operation moves a carrier source from one peer to another, except the registration of an
  authenticated WebSocket carrier for the new peer; in particular a datagram registration of a source that is
  owned by another peer, or reserved, changes nothing and sends nothing.\<close>

theorem source_not_hijacked:
  assumes "run sm_step (NewServerMultipathBind rate) es m" "rate < 2 ^ 53" "sm_step m (e, outs) m'"
  shows "(\<forall>src a b. source_owner m src = Some a \<and> source_owner m' src = Some b \<and> a \<noteq> b \<longrightarrow>
      (\<exists>name ep. e = SMRegister b name PathWSS ep \<and> DstToString ep = src)) \<and>
    (\<forall>pid name kind ep pathMTU now rnd. kind \<noteq> PathWSS \<and>
      (gm_get False (sm_reserved m) (DstToString ep) \<or> (\<exists>own. source_owner m (DstToString ep) = Some own \<and> own \<noteq> pid)) \<longrightarrow>
      sm_RegisterPath pid name kind ep pathMTU now rnd m = ([], m))"
proof (intro conjI allI impI)
  have inv: "sm_inv m" by (rule sm.run_inv [OF assms(1) new_server_inv [OF assms(2)]])
  fix src a b assume ab: "source_owner m src = Some a \<and> source_owner m' src = Some b \<and> a \<noteq> b"
  have "\<not> same_tables m m'" using same_tables_owner [of m m' src] ab by auto
  with sm_step_tables [OF assms(3) inv] consider pid name kind ep where "e = SMRegister pid name kind ep" | pid where "e = SMRemove pid" by blast
  then show "\<exists>name ep. e = SMRegister b name PathWSS ep \<and> DstToString ep = src"
  proof cases
    case 1
    with assms(3) obtain pathMTU now rnd where reg: "sm_RegisterPath pid name kind ep pathMTU now rnd m = (outs, m')"
      by (auto elim: sm_step.cases)
    have nr: "\<not> sm_refused pid kind (DstToString ep) m" using reg ab by (auto simp: sm_RegisterPath_def)
    have src: "src = DstToString ep" using register_owner(2) [OF inv reg nr, of src] ab by (cases "src = DstToString ep") auto
    then have "b = pid" using register_owner(1) [OF inv reg nr] ab by simp
    note src = src this
    then have "kind = PathWSS" using nr ab refused_owner [of pid kind "DstToString ep" m] by auto
    with 1 src show ?thesis by blast
  next
    case 2
    with assms(3) have "m' = sm_RemovePeer pid m" by (auto elim: sm_step.cases)
    with ab show ?thesis by (auto simp: source_owner_def sm_RemovePeer_def split: option.splits if_splits)
  qed
next
  fix pid name kind ep pathMTU now rnd
  assume "kind \<noteq> PathWSS \<and> (gm_get False (sm_reserved m) (DstToString ep) \<or> (\<exists>own. source_owner m (DstToString ep) = Some own \<and> own \<noteq> pid))"
  then have "sm_refused pid kind (DstToString ep) m" by (simp add: refused_owner)
  then show "sm_RegisterPath pid name kind ep pathMTU now rnd m = ([], m)" by (simp add: sm_RegisterPath_def)
qed

text \<open>The server's receive function hands WireGuard exactly the packets of a batch that have a source and are
  neither control frames nor duplicates, in their order; each carries the stable endpoint of the peer that owns its
  source, or its own endpoint if no peer does.\<close>

theorem server_receive_exact:
  assumes "sm_compact env (length slots) 0 0 slots m = (out, slots', outs, m')" "uniform L slots"
  shows "map slot_view (take out slots') = tagged env (owner_tag m) 0 slots (sm_cache m)"
  using sm_compact_view [OF assms(1) _ _ assms(2)] by simp

text \<open>A server with one peer on a WSS carrier.\<close>

definition demo_server_reg :: "sends \<times> serverMultipathBind" where
  "demo_server_reg = sm_RegisterPath ''alice'' ''wss'' PathWSS (CarrierEndpoint ''ws:1'') True 0 None (NewServerMultipathBind 0)"

definition demo_steal :: "sends \<times> serverMultipathBind" where
  "demo_steal = sm_RegisterPath ''bob'' ''wss'' PathWSS (CarrierEndpoint ''ws:1'') True 1 None (snd demo_server_reg)"

lemma demo_server_run:
  "run sm_step (NewServerMultipathBind 0) [(SMRegister ''alice'' ''wss'' PathWSS (CarrierEndpoint ''ws:1''), fst demo_server_reg)] (snd demo_server_reg)"
  by (rule run_one, rule sm_register [where pathMTU = True and now = 0 and rnd = None]) (simp_all add: demo_server_reg_def)

lemma demo_steal_step:
  "sm_step (snd demo_server_reg) (SMRegister ''bob'' ''wss'' PathWSS (CarrierEndpoint ''ws:1''), fst demo_steal) (snd demo_steal)"
  by (rule sm_register [where pathMTU = True and now = 1 and rnd = None]) (simp_all add: demo_steal_def)

lemma demo_owner: "source_owner (snd demo_server_reg) ''ws:1'' = Some ''alice''" "source_owner (snd demo_steal) ''ws:1'' = Some ''bob''"
proof -
  have "sm_inv (NewServerMultipathBind 0)" by (rule new_server_inv) simp
  moreover have "\<not> sm_refused ''alice'' PathWSS (DstToString (CarrierEndpoint ''ws:1'')) (NewServerMultipathBind 0)"
    "\<not> sm_refused ''bob'' PathWSS (DstToString (CarrierEndpoint ''ws:1'')) (snd demo_server_reg)" by (simp_all add: sm_refused_def)
  moreover have "sm_inv (snd demo_server_reg)" using sm.run_inv [OF demo_server_run new_server_inv] by simp
  ultimately show "source_owner (snd demo_server_reg) ''ws:1'' = Some ''alice''" "source_owner (snd demo_steal) ''ws:1'' = Some ''bob''"
    using register_owner(1) [of "NewServerMultipathBind 0" "''alice''" "''wss''" PathWSS "CarrierEndpoint ''ws:1''" True 0 None "fst demo_server_reg" "snd demo_server_reg"]
      register_owner(1) [of "snd demo_server_reg" "''bob''" "''wss''" PathWSS "CarrierEndpoint ''ws:1''" True 1 None "fst demo_steal" "snd demo_steal"]
    by (simp_all add: demo_server_reg_def demo_steal_def)
qed

theorem source_table_sound_witness:
  "\<exists>r p n e. fmlookup (sm_peers (snd demo_server_reg)) ''alice'' = Some r \<and> fmlookup (sm_store (snd demo_server_reg)) r = Some p \<and>
     fmlookup (pc_paths p) n = Some e \<and> DstToString e = ''ws:1''"
  using source_table_sound [OF demo_server_run] demo_owner(1) by simp

theorem source_not_hijacked_witness:
  "source_owner (snd demo_server_reg) ''ws:1'' = Some ''alice'' \<and> source_owner (snd demo_steal) ''ws:1'' = Some ''bob'' \<and>
   sm_RegisterPath ''bob'' ''direct-udp'' PathDirect (CarrierEndpoint ''ws:1'') True 2 None (snd demo_server_reg) = ([], snd demo_server_reg) \<and>
   (\<exists>name ep. SMRegister ''bob'' ''wss'' PathWSS (CarrierEndpoint ''ws:1'') = SMRegister ''bob'' name PathWSS ep \<and> DstToString ep = ''ws:1'')"
proof -
  note h = source_not_hijacked [OF demo_server_run _ demo_steal_step]
  from h have 1: "\<exists>name ep. SMRegister ''bob'' ''wss'' PathWSS (CarrierEndpoint ''ws:1'') = SMRegister ''bob'' name PathWSS ep \<and> DstToString ep = ''ws:1''"
    using demo_owner by simp
  have "PathDirect \<noteq> PathWSS" by (simp add: path_names)
  with h have 2: "sm_RegisterPath ''bob'' ''direct-udp'' PathDirect (CarrierEndpoint ''ws:1'') True 2 None (snd demo_server_reg) = ([], snd demo_server_reg)"
    using demo_owner(1) by simp
  from 1 2 demo_owner show ?thesis by blast
qed

theorem server_receive_exact_witness:
  "\<exists>out slots' outs m'. sm_compact (\<lambda>_. \<lparr>re_now = 2, re_order = [], re_rnd = None, re_victim = []\<rparr>) 1 0 0
      [\<lparr>sl_buf = demo_packet, sl_size = 16, sl_ep = Some (CarrierEndpoint ''ws:1'')\<rparr>] (snd demo_server_reg) = (out, slots', outs, m') \<and>
     map slot_view (take out slots') = [(demo_packet, Some (serverMultipathEndpoint ''alice''))]"
proof -
  let ?env = "\<lambda>_ :: nat. \<lparr>re_now = 2, re_order = [], re_rnd = None, re_victim = []\<rparr>"
  let ?slots = "[\<lparr>sl_buf = demo_packet, sl_size = 16, sl_ep = Some (CarrierEndpoint ''ws:1'')\<rparr>]"
  obtain out slots' outs m' where c: "sm_compact ?env (length ?slots) 0 0 ?slots (snd demo_server_reg) = (out, slots', outs, m')"
    by (metis prod_cases4)
  have u: "uniform 16 ?slots" and p: "slot_pkt (hd ?slots) = demo_packet" by (simp_all add: uniform_def slot_pkt_def demo_packet_def)
  have nc: "\<not> isControlFrame demo_packet" by (simp add: isControlFrame_def controlMagic_def demo_packet_def)
  have cache: "sm_cache (snd demo_server_reg) = NewDuplicateCache 4096 (10 * second)"
    by (simp add: demo_server_reg_def sm_RegisterPath_def sm_refused_def sm_peer_def NewServerMultipathBind_def replaced_def newServerPeer_def Let_def)
  have "tagged ?env (owner_tag (snd demo_server_reg)) 0 ?slots (sm_cache (snd demo_server_reg)) = [(demo_packet, Some (serverMultipathEndpoint ''alice''))]"
    using p nc demo_owner(1) by (simp add: cache dup_Seen_def demo_packet_key NewDuplicateCache_def Let_def owner_tag_def)
  with server_receive_exact [OF c u] c show ?thesis by simp
qed

end
