(* ===== verification/Wg_Keys.thy ===== *)
theory Wg_Keys
  imports Protocol
begin

text \<open>
  WireGuard public keys as \<^verbatim>\<open>pkg/wgnet/wgnet.go\<close> reads them: the base64 standard encoding
  (padded; the decoder skips line breaks and ignores the unused bits of a final quantum), the
  32-byte check and the canonical form under which keys are compared. A key has exactly one
  canonical form, so no two strings for one key are taken for different peers.
\<close>

section \<open>Base64\<close>

text \<open>The six bits of a character, and back: the letters, the digits, plus and slash.\<close>

definition b64_char :: "nat \<Rightarrow> char" where
  "b64_char n = char_of (if n < 26 then 65 + n else if n < 52 then 71 + n
     else if n < 62 then n - 4 else if n = 62 then 43 else 47)"

definition b64_val :: "char \<Rightarrow> nat option" where
  "b64_val c = (let n = (of_char c :: nat) in
     if 65 \<le> n \<and> n \<le> 90 then Some (n - 65)
     else if 97 \<le> n \<and> n \<le> 122 then Some (n - 71)
     else if 48 \<le> n \<and> n \<le> 57 then Some (n + 4)
     else if n = 43 then Some 62 else if n = 47 then Some 63 else None)"

abbreviation pad :: char where "pad \<equiv> CHR ''=''"

fun EncodeToString :: "bytes \<Rightarrow> string" where
  "EncodeToString (a # b # c # rest) =
     b64_char (unat a div 4) # b64_char (unat a mod 4 * 16 + unat b div 16) #
     b64_char (unat b mod 16 * 4 + unat c div 64) # b64_char (unat c mod 64) # EncodeToString rest"
| "EncodeToString [a, b] =
     [b64_char (unat a div 4), b64_char (unat a mod 4 * 16 + unat b div 16), b64_char (unat b mod 16 * 4), pad]"
| "EncodeToString [a] = [b64_char (unat a div 4), b64_char (unat a mod 4 * 16), pad, pad]"
| "EncodeToString [] = []"

definition sextets3 :: "nat \<Rightarrow> nat \<Rightarrow> nat \<Rightarrow> nat \<Rightarrow> bytes" where
  "sextets3 w x y z = [of_nat (w * 4 + x div 16), of_nat (x mod 16 * 16 + y div 4), of_nat (y mod 4 * 64 + z)]"

text \<open>The quanta of a string without line breaks; padding may only end the last one.\<close>

fun decode_quanta :: "string \<Rightarrow> bytes option" where
  "decode_quanta (c1 # c2 # c3 # c4 # rest) =
     (case (b64_val c1, b64_val c2) of
        (Some w, Some x) \<Rightarrow>
          if c3 = pad then (if c4 = pad \<and> rest = [] then Some (take 1 (sextets3 w x 0 0)) else None)
          else (case b64_val c3 of None \<Rightarrow> None | Some y \<Rightarrow>
            if c4 = pad then (if rest = [] then Some (take 2 (sextets3 w x y 0)) else None)
            else (case b64_val c4 of None \<Rightarrow> None | Some z \<Rightarrow>
              (case decode_quanta rest of None \<Rightarrow> None | Some bs \<Rightarrow> Some (sextets3 w x y z @ bs))))
      | _ \<Rightarrow> None)"
| "decode_quanta [] = Some []"
| "decode_quanta _ = None"

definition DecodeString :: "string \<Rightarrow> bytes option" where
  "DecodeString s = decode_quanta (filter (\<lambda>c. c \<noteq> CHR 0x0A \<and> c \<noteq> CHR 0x0D) s)"

section \<open>Keys\<close>

definition decodeKey :: "string \<Rightarrow> bytes option" where
  "decodeKey encoded = (case DecodeString encoded of None \<Rightarrow> None
     | Some key \<Rightarrow> if length key \<noteq> 32 then None else Some key)"

definition ValidatePublicKey :: "string \<Rightarrow> bool" where
  "ValidatePublicKey publicKey = (decodeKey publicKey \<noteq> None)"

definition CanonicalPublicKey :: "string \<Rightarrow> string option" where
  "CanonicalPublicKey key = map_option EncodeToString (decodeKey key)"

section \<open>Encoding and decoding are inverse\<close>

lemma b64_val_char: "n < 64 \<Longrightarrow> b64_val (b64_char n) = Some n"
  by (auto simp: b64_val_def b64_char_def Let_def)

lemma b64_char_code: "n < 64 \<Longrightarrow> (of_char (b64_char n) :: nat) \<notin> {61, 10, 13}"
  by (auto simp: b64_char_def split: if_splits)

lemma b64_char_plain:
  assumes "n < 64"
  shows "b64_char n \<noteq> pad" "b64_char n \<noteq> CHR 0x0A" "b64_char n \<noteq> CHR 0x0D"
  using b64_char_code [OF assms] by auto

lemma unat_byte: "unat (b :: byte) < 256"
  using unsigned_less [of b] by simp

lemma sextet_bounds:
  fixes a b :: byte
  shows "unat a div 4 < 64" "unat a mod 4 * 16 + unat b div 16 < 64" "unat a mod 4 * 16 < 64"
    "unat a mod 16 * 4 + unat b div 64 < 64" "unat a mod 16 * 4 < 64" "unat a mod 64 < 64"
  using unat_byte [of a] unat_byte [of b] by linarith+

lemma sextets3_inv:
  "sextets3 (unat a div 4) (unat a mod 4 * 16 + unat b div 16) (unat b mod 16 * 4 + unat c div 64) (unat c mod 64) = [a, b, c]"
proof -
  have "unat b div 16 < 16" "unat c div 64 < 4" using unat_byte [of b] unat_byte [of c] by linarith+
  then have "unat a div 4 * 4 + (unat a mod 4 * 16 + unat b div 16) div 16 = unat a"
    "(unat a mod 4 * 16 + unat b div 16) mod 16 * 16 + (unat b mod 16 * 4 + unat c div 64) div 4 = unat b"
    "(unat b mod 16 * 4 + unat c div 64) mod 4 * 64 + unat c mod 64 = unat c"
    by simp_all
  then show ?thesis by (simp add: sextets3_def)
qed

lemmas b64_simps = b64_val_char b64_char_plain sextet_bounds

lemma decode_encode: "decode_quanta (EncodeToString bs) = Some bs"
proof (induction bs rule: EncodeToString.induct)
  case (1 a b c rest)
  then show ?case by (simp add: b64_simps sextets3_inv del: unat_mod unat_div)
next
  case (2 a b)
  have "take 2 (sextets3 (unat a div 4) (unat a mod 4 * 16 + unat b div 16) (unat b mod 16 * 4) 0) = [a, b]"
    using sextets3_inv [of a b 0] by simp
  then show ?case by (simp add: b64_simps)
next
  case (3 a)
  have "take 1 (sextets3 (unat a div 4) (unat a mod 4 * 16) 0 0) = [a]" using sextets3_inv [of a 0 0] by simp
  then show ?case by (simp add: b64_simps)
qed simp

lemma encode_no_breaks: "filter (\<lambda>c. c \<noteq> CHR 0x0A \<and> c \<noteq> CHR 0x0D) (EncodeToString bs) = EncodeToString bs"
  by (induction bs rule: EncodeToString.induct) (simp_all add: b64_simps)

lemma DecodeString_EncodeToString: "DecodeString (EncodeToString bs) = Some bs"
  by (simp add: DecodeString_def encode_no_breaks decode_encode)

interpretation b64: codec "\<lambda>b. str_bytes (EncodeToString b)" "\<lambda>w. DecodeString (string_of_bytes w)" "\<lambda>_. True"
  by unfold_locales (simp add: DecodeString_EncodeToString)

lemma canonical_decode: "CanonicalPublicKey key = Some c \<Longrightarrow> decodeKey c = decodeKey key"
  by (auto simp: CanonicalPublicKey_def decodeKey_def DecodeString_EncodeToString split: option.splits if_splits)

lemma canonical_idem: "CanonicalPublicKey key = Some c \<Longrightarrow> CanonicalPublicKey c = Some c"
  using canonical_decode [of key c] by (auto simp: CanonicalPublicKey_def)

text \<open>The canonical form identifies a WireGuard key. Two valid key strings, whatever their line
  breaks and unused bits, have the same canonical form exactly when they decode to the same 32 bytes;
  the canonical form is itself valid, decodes to those bytes and is its own canonical form; an invalid
  string has none.\<close>

theorem canonical_key_unique:
  "(CanonicalPublicKey k = None \<longleftrightarrow> \<not> ValidatePublicKey k) \<and>
   (\<forall>c. CanonicalPublicKey k = Some c \<longrightarrow>
      ValidatePublicKey c \<and> CanonicalPublicKey c = Some c \<and> decodeKey c = decodeKey k \<and>
      (\<forall>k'. CanonicalPublicKey k' = Some c \<longleftrightarrow> decodeKey k' = decodeKey k))"
proof -
  have "decodeKey k' = decodeKey k" if "CanonicalPublicKey k = Some c" "CanonicalPublicKey k' = Some c" for c k'
    using canonical_decode [OF that(1)] canonical_decode [OF that(2)] by simp
  moreover have "CanonicalPublicKey k' = Some c" if "CanonicalPublicKey k = Some c" "decodeKey k' = decodeKey k" for c k'
    using that by (simp add: CanonicalPublicKey_def)
  ultimately show ?thesis
    using canonical_decode [of k] canonical_idem [of k] by (auto simp: ValidatePublicKey_def CanonicalPublicKey_def)
qed

theorem canonical_key_unique_witness:
  "let k = replicate 42 CHR ''A'' @ [CHR ''B'', CHR ''='', CHR 0x0A]; c = replicate 43 CHR ''A'' @ ''='' in
     CanonicalPublicKey k = Some c \<and> k \<noteq> c \<and> ValidatePublicKey c \<and> decodeKey c = decodeKey k \<and>
     CanonicalPublicKey k \<noteq> CanonicalPublicKey ''AAAA''"
proof -
  have gen: "CanonicalPublicKey k = Some c \<and> k \<noteq> c \<and> ValidatePublicKey c \<and> decodeKey c = decodeKey k \<and>
      CanonicalPublicKey k \<noteq> CanonicalPublicKey d"
    if "CanonicalPublicKey k = Some c" "CanonicalPublicKey d = None" "k \<noteq> c" for k c d
    using canonical_key_unique [of k] that by auto
  show ?thesis unfolding Let_def by (rule gen) code_simp+
qed

end
