(* ===== verification/Sessions.thy ===== *)
theory Sessions
  imports Wg_Keys "HOL-Library.Multiset" Netip
begin

text \<open>
  The session store of \<^verbatim>\<open>pkg/server/session.go\<close>. Sessions are kept by bearer token; an expired
  session stays until \<open>Reap\<close> hands it to the owner of its resources. The clock and the random
  tokens are arguments; a loop over the map whose result depends on the order takes the order.
  A tunnel address is the address the stored string denotes, \<open>IPInvalid\<close> for the empty string:
  the code only stores the canonical text of an address it allocated.
\<close>

section \<open>Data\<close>

record ptunnel =
  pt_Name :: string
  pt_VirtualPort :: int
  pt_Protocol :: string
  pt_UDPIdleTimeout :: duration
  pt_LocalPort :: int
  pt_LocalHost :: string
  pt_TargetHint :: string

record session =
  se_ID :: string
  se_Token :: string
  se_Method :: string
  se_Identity :: string
  se_Fingerprint :: string
  se_WireGuardPublicKey :: string
  se_TunnelIP :: ipAddr
  se_Issuer :: string
  se_Groups :: "string list"
  se_Tunnels :: "ptunnel list"
  se_LatencyMillis :: "64 word"
  se_Reconnections :: "64 word"
  se_Multipath :: bool
  se_PathMTU :: bool
  se_ClientInfo :: clientInfo
  se_Expires :: gotime

record createParams =
  cp_Method :: string
  cp_Identity :: string
  cp_Fingerprint :: string
  cp_Issuer :: string
  cp_Groups :: "string list"
  cp_WireGuardPublicKey :: string
  cp_TunnelIP :: ipAddr
  cp_Tunnels :: "ptunnel list"
  cp_LatencyMillis :: "64 word"
  cp_Reconnections :: "64 word"
  cp_Multipath :: bool
  cp_PathMTU :: bool
  cp_ClientInfo :: clientInfo
  cp_TTL :: duration

type_synonym sessions = "(string, session) fmap"

definition NewSessions :: sessions where
  "NewSessions = fmempty"

section \<open>Operations\<close>

definition canonical_or :: "string \<Rightarrow> string" where
  "canonical_or key = (case CanonicalPublicKey key of Some c \<Rightarrow> c | None \<Rightarrow> key)"

definition expired :: "gotime \<Rightarrow> session \<Rightarrow> bool" where
  "expired now v \<longleftrightarrow> now > se_Expires v"

text \<open>\<open>Create\<close>, with the two tokens it draws and the clock it reads.\<close>

definition ses_Create :: "string \<Rightarrow> string \<Rightarrow> gotime \<Rightarrow> createParams \<Rightarrow> sessions \<Rightarrow> session \<times> sessions" where
  "ses_Create i tok now p s =
     (let v = \<lparr>se_ID = i, se_Token = tok, se_Method = cp_Method p, se_Identity = cp_Identity p,
           se_Fingerprint = cp_Fingerprint p, se_WireGuardPublicKey = canonical_or (cp_WireGuardPublicKey p),
           se_TunnelIP = cp_TunnelIP p, se_Issuer = cp_Issuer p, se_Groups = cp_Groups p,
           se_Tunnels = cp_Tunnels p, se_LatencyMillis = cp_LatencyMillis p,
           se_Reconnections = cp_Reconnections p, se_Multipath = cp_Multipath p, se_PathMTU = cp_PathMTU p,
           se_ClientInfo = cp_ClientInfo p, se_Expires = now + cp_TTL p\<rparr>
      in (v, fmupd tok v s))"

text \<open>The first live session of the loop that passes a test.\<close>

fun find_live :: "gotime \<Rightarrow> (session \<Rightarrow> bool) \<Rightarrow> string list \<Rightarrow> sessions \<Rightarrow> session option" where
  "find_live now P [] s = None"
| "find_live now P (k # ks) s = (case fmlookup s k of
       None \<Rightarrow> find_live now P ks s
     | Some v \<Rightarrow> if expired now v then find_live now P ks s
         else if P v then Some v else find_live now P ks s)"

definition FindWireGuardPublicKey :: "gotime \<Rightarrow> string list \<Rightarrow> string \<Rightarrow> sessions \<Rightarrow> session option" where
  "FindWireGuardPublicKey now ks key0 s = (let key = canonical_or key0 in
     find_live now (\<lambda>v. key \<noteq> [] \<and> canonical_or (se_WireGuardPublicKey v) = key) ks s)"

definition ses_Get :: "gotime \<Rightarrow> string \<Rightarrow> sessions \<Rightarrow> session option" where
  "ses_Get now t s = (case fmlookup s t of None \<Rightarrow> None
     | Some v \<Rightarrow> if expired now v then None else Some v)"

definition FindID :: "gotime \<Rightarrow> string list \<Rightarrow> string \<Rightarrow> sessions \<Rightarrow> session option" where
  "FindID now ks i s = find_live now (\<lambda>v. se_ID v = i) ks s"

definition ses_Delete :: "string \<Rightarrow> sessions \<Rightarrow> sessions" where
  "ses_Delete t s = fmdrop t s"

definition DeleteByID :: "gotime \<Rightarrow> string list \<Rightarrow> string \<Rightarrow> sessions \<Rightarrow> session option \<times> sessions" where
  "DeleteByID now ks i s = (case find_live now (\<lambda>v. se_ID v = i) ks s of
       None \<Rightarrow> (None, s)
     | Some v \<Rightarrow> (Some v, fmdrop (se_Token v) s))"

definition CountIdentity :: "gotime \<Rightarrow> string \<Rightarrow> string \<Rightarrow> sessions \<Rightarrow> nat" where
  "CountIdentity now method identity s =
     gm_len (gm_filter (\<lambda>_ v. \<not> expired now v \<and> se_Method v = method \<and> se_Identity v = identity) s)"

definition ses_All :: "string list \<Rightarrow> sessions \<Rightarrow> session list" where
  "ses_All ks s = List.map_filter (fmlookup s) ks"

definition Reap :: "gotime \<Rightarrow> string list \<Rightarrow> sessions \<Rightarrow> session list \<times> sessions" where
  "Reap now ks s = (filter (expired now) (ses_All ks s), gm_filter (\<lambda>_ v. \<not> expired now v) s)"

section \<open>What the operations return\<close>

text \<open>A store keeps every session under its own token.\<close>

definition keyed :: "sessions \<Rightarrow> bool" where
  "keyed s \<longleftrightarrow> (\<forall>t v. fmlookup s t = Some v \<longrightarrow> se_Token v = t)"

lemma find_live_Some:
  "find_live now P ks s = Some v \<Longrightarrow> \<exists>k \<in> set ks. fmlookup s k = Some v \<and> \<not> expired now v \<and> P v"
  by (induction ks) (auto split: option.splits if_splits)

lemma find_live_None:
  "find_live now P ks s = None \<longleftrightarrow> (\<forall>k \<in> set ks. \<forall>v. fmlookup s k = Some v \<longrightarrow> expired now v \<or> \<not> P v)"
  by (induction ks) (auto split: option.splits if_splits)

lemma find_live_order:
  assumes "range_order ks s"
  shows "find_live now P ks s = None \<longleftrightarrow> (\<forall>k v. fmlookup s k = Some v \<longrightarrow> expired now v \<or> \<not> P v)"
  using assms by (auto simp: find_live_None range_order_iff)

lemma set_ses_All: "range_order ks s \<Longrightarrow> v \<in> set (ses_All ks s) \<longleftrightarrow> (\<exists>t. fmlookup s t = Some v)"
  by (auto simp: ses_All_def List.map_filter_def range_order_iff intro!: image_eqI)

section \<open>No session is lost\<close>

text \<open>The sessions of a store, with their multiplicity.\<close>

definition stored :: "sessions \<Rightarrow> session multiset" where
  "stored s = image_mset (\<lambda>k. the (fmlookup s k)) (mset_set (fset (fmdom s)))"

lemma stored_upd:
  assumes "fmlookup s t = None"
  shows "stored (fmupd t v s) = add_mset v (stored s)"
proof -
  have "t |\<notin>| fmdom s" using assms by (rule fmdom_notI)
  moreover from this have "image_mset (\<lambda>k. the (fmlookup (fmupd t v s) k)) (mset_set (fset (fmdom s))) = stored s"
    unfolding stored_def by (intro image_mset_cong) auto
  ultimately show ?thesis by (simp add: stored_def)
qed

lemma stored_drop:
  assumes "fmlookup s t = Some v"
  shows "stored s = add_mset v (stored (fmdrop t s))"
proof -
  have "fmupd t v (fmdrop t s) = s" using assms by (intro fmap_ext) auto
  with stored_upd [of "fmdrop t s" t v] show ?thesis by simp
qed

lemma fmdrop_absent: "fmlookup s t = None \<Longrightarrow> fmdrop t s = s"
  by (simp add: fmdrop_idle fmdom_notI)

lemma stored_All:
  assumes "range_order ks s"
  shows "mset (ses_All ks s) = stored s"
proof -
  have "mset (ses_All xs s) = image_mset (\<lambda>k. the (fmlookup s k)) (mset xs)"
    if "\<forall>k \<in> set xs. fmlookup s k \<noteq> None" for xs
    using that by (induction xs) (auto simp: ses_All_def map_filter_simps)
  moreover have "mset ks = mset_set (fset (fmdom s))"
    using assms mset_set_set [of ks] by (auto simp: range_order_def fset_of_list.rep_eq [symmetric])
  ultimately show ?thesis using assms by (auto simp: stored_def range_order_iff)
qed

lemma stored_filter: "stored (gm_filter (\<lambda>_ v. P v) s) = filter_mset P (stored s)"
proof -
  have "fset (fmdom (gm_filter (\<lambda>_ v. P v) s)) = {k \<in> fset (fmdom s). P (the (fmlookup s k))}"
    by (auto simp: fmlookup_dom_iff split: option.splits if_splits)
  moreover have "image_mset (\<lambda>k. the (fmlookup (gm_filter (\<lambda>_ v. P v) s) k)) (mset_set {k \<in> fset (fmdom s). P (the (fmlookup s k))}) =
      image_mset (\<lambda>k. the (fmlookup s k)) (mset_set {k \<in> fset (fmdom s). P (the (fmlookup s k))})"
    by (intro image_mset_cong) (auto elim!: fmdomE)
  ultimately show ?thesis
    by (simp add: stored_def filter_mset_image_mset filter_mset_mset_set)
qed

text \<open>One call on the store, with what it hands out of it for good.\<close>

datatype sessions_event = SCreate session | SDelete string "session option" | SDeleteByID string "session option"
  | SReap gotime "session list"

inductive sessions_step :: "sessions \<Rightarrow> sessions_event \<Rightarrow> sessions \<Rightarrow> bool" where
  create: "fmlookup s tok = None \<Longrightarrow> ses_Create i tok now p s = (v, s') \<Longrightarrow> sessions_step s (SCreate v) s'"
| delete: "sessions_step s (SDelete t (fmlookup s t)) (ses_Delete t s)"
| delete_id: "range_order ks s \<Longrightarrow> DeleteByID now ks i s = (r, s') \<Longrightarrow> sessions_step s (SDeleteByID i r) s'"
| reap: "range_order ks s \<Longrightarrow> Reap now ks s = (dead, s') \<Longrightarrow> sessions_step s (SReap now dead) s'"

inductive_cases sessions_stepE: "sessions_step s e s'"

fun created :: "sessions_event \<Rightarrow> session multiset" where
  "created (SCreate v) = {#v#}"
| "created _ = {#}"

fun handed_out :: "sessions_event \<Rightarrow> session multiset" where
  "handed_out (SDelete t r) = mset_set (set_option r)"
| "handed_out (SDeleteByID i r) = mset_set (set_option r)"
| "handed_out (SReap now dead) = mset dead"
| "handed_out _ = {#}"

definition accounted :: "sessions_event list \<Rightarrow> sessions \<Rightarrow> bool" where
  "accounted es s \<longleftrightarrow> keyed s \<and>
     sum_list (map created es) = stored s + sum_list (map handed_out es) \<and>
     (\<forall>now dead v. SReap now dead \<in> set es \<and> v \<in> set dead \<longrightarrow> expired now v)"

lemma keyed_step: "keyed s \<Longrightarrow> sessions_step s e s' \<Longrightarrow> keyed s'"
  by (erule sessions_stepE)
     (auto simp: keyed_def ses_Create_def Let_def ses_Delete_def DeleteByID_def Reap_def split: option.splits if_splits)

lemma stored_step:
  assumes "keyed s" and "sessions_step s e s'"
  shows "stored s + created e = stored s' + handed_out e"
  using assms(2)
proof (cases rule: sessions_step.cases)
  case (create tok i now p v)
  then show ?thesis by (auto simp: ses_Create_def Let_def stored_upd)
next
  case (delete t)
  then show ?thesis
    using stored_drop [of s t] fmdrop_absent [of s t] by (cases "fmlookup s t") (auto simp: ses_Delete_def)
next
  case (delete_id ks now i r)
  show ?thesis
  proof (cases "find_live now (\<lambda>v. se_ID v = i) ks s")
    case (Some v)
    from find_live_Some [OF Some] assms(1) have "fmlookup s (se_Token v) = Some v" by (auto simp: keyed_def)
    moreover have "r = Some v" "s' = fmdrop (se_Token v) s" using delete_id(3) Some by (auto simp: DeleteByID_def)
    ultimately show ?thesis using delete_id(1) stored_drop [of s "se_Token v" v] by simp
  qed (use delete_id in \<open>simp add: DeleteByID_def\<close>)
next
  case (reap ks now dead)
  have "mset dead = filter_mset (expired now) (stored s)" using reap by (auto simp: Reap_def stored_All [symmetric] mset_filter)
  moreover have "stored s' = filter_mset (\<lambda>v. \<not> expired now v) (stored s)" using reap by (auto simp: Reap_def stored_filter)
  ultimately show ?thesis using reap(1) multiset_partition [of "stored s" "expired now"] by simp
qed

interpretation sessions_h: history_system sessions_step accounted
proof
  fix es s e s'
  assume acc: "accounted es s" and step: "sessions_step s e s'"
  have "sum_list (map created (es @ [e])) = stored s' + sum_list (map handed_out (es @ [e]))"
    using acc stored_step [OF _ step] by (simp add: accounted_def add_ac)
  moreover have "expired now v" if "SReap now dead = e" "v \<in> set dead" for now dead v
    using step that by (auto elim!: sessions_stepE simp: Reap_def)
  ultimately show "accounted (es @ [e]) s'"
    using acc keyed_step [OF _ step] by (auto simp: accounted_def)
qed

text \<open>No session is lost or handed out twice. After any calls on the store with fresh tokens, the
  sessions ever created are exactly those still stored plus those handed out by a deletion or a
  reap; a reap hands out expired sessions only, all of them, and a lookup never returns one.\<close>

theorem sessions_accounted:
  assumes "run sessions_step NewSessions es s"
  shows "sum_list (map created es) = stored s + sum_list (map handed_out es) \<and>
    (\<forall>now ks dead s'. range_order ks s \<and> Reap now ks s = (dead, s') \<longrightarrow>
       mset dead = filter_mset (expired now) (stored s) \<and> (\<forall>v. v \<in># stored s' \<longrightarrow> \<not> expired now v)) \<and>
    (\<forall>now t v. ses_Get now t s = Some v \<longrightarrow> \<not> expired now v \<and> se_Token v = t \<and> v \<in># stored s)"
proof -
  have "accounted [] NewSessions" by (simp add: accounted_def keyed_def NewSessions_def stored_def)
  from sessions_h.run_hinv [OF assms this] have acc: "accounted es s" .
  have "mset dead = filter_mset (expired now) (stored s) \<and> (\<forall>v. v \<in># stored s' \<longrightarrow> \<not> expired now v)"
    if "range_order ks s" "Reap now ks s = (dead, s')" for now ks dead s'
    using that by (auto simp: Reap_def stored_All [symmetric] mset_filter stored_filter)
  moreover have "\<not> expired now v \<and> se_Token v = t \<and> v \<in># stored s" if "ses_Get now t s = Some v" for now t v
    using that acc stored_drop [of s t v] by (auto simp: ses_Get_def accounted_def keyed_def split: option.splits if_splits)
  ultimately show ?thesis using acc by (auto simp: accounted_def)
qed

definition demo_params :: createParams where
  "demo_params = \<lparr>cp_Method = ''ssh'', cp_Identity = ''fp'', cp_Fingerprint = ''fp'', cp_Issuer = [], cp_Groups = [],
     cp_WireGuardPublicKey = ''k'', cp_TunnelIP = IP4 0x64400002, cp_Tunnels = [], cp_LatencyMillis = 0,
     cp_Reconnections = 0, cp_Multipath = False, cp_PathMTU = False,
     cp_ClientInfo = \<lparr>ci_OS = [], ci_Arch = [], ci_Hostname = [], ci_Username = [], ci_ClientVersion = [], ci_Extra = fmempty\<rparr>,
     cp_TTL = 10\<rparr>"

lemma demo_sessions_run:
  "\<exists>v. run sessions_step NewSessions [SCreate v, SReap 200 [v]] fmempty"
proof -
  obtain v s where c: "ses_Create ''i'' ''t'' 100 demo_params NewSessions = (v, s)" by fastforce
  have v: "s = fmupd ''t'' v fmempty" "expired 200 v"
    using c by (auto simp: ses_Create_def Let_def NewSessions_def demo_params_def expired_def)
  have "range_order [''t''] s" by (simp add: range_order_def v)
  moreover have "Reap 200 [''t''] s = ([v], fmempty)"
    using v by (auto simp: Reap_def ses_All_def map_filter_simps intro!: fmap_ext)
  moreover have "sessions_step NewSessions (SCreate v) s"
    by (rule sessions_step.create [OF _ c]) (simp add: NewSessions_def)
  ultimately show ?thesis by (blast intro: run_two sessions_step.reap)
qed

theorem sessions_accounted_witness:
  "\<exists>v. run sessions_step NewSessions [SCreate v, SReap 200 [v]] fmempty \<and>
     sum_list (map created [SCreate v, SReap 200 [v]]) = stored fmempty + sum_list (map handed_out [SCreate v, SReap 200 [v]])"
  using demo_sessions_run sessions_accounted by blast

end
