(* ===== verification/Ip_Alloc.thy ===== *)
theory Ip_Alloc
  imports Netip
begin

text \<open>
  Allocation of tunnel addresses (\<open>allocateIP\<close> of \<^verbatim>\<open>pkg/server/dataplane.go\<close>): a cyclic scan of
  the tunnel prefix from a cursor, bounded by the number of occupied addresses. The scan is
  proved sound and complete: it returns a free address of the prefix, and fails only when there is none.
\<close>

unbundle bit_operations_syntax

section \<open>Cyclic scans\<close>

lemma mod_shift_inj:
  fixes i j k n :: nat
  assumes "i \<le> j" "j < n" "(k + i) mod n = (k + j) mod n"
  shows "i = j"
proof -
  from assms(3) have "n dvd (k + j) - (k + i)" using assms(1) by (subst mod_eq_dvd_iff_nat [symmetric]) auto
  then have "n dvd j - i" by simp
  with assms(1,2) show ?thesis by (auto dest: dvd_imp_le)
qed

text \<open>A finite pool that a successor function runs through cyclically.\<close>

locale cyclic_pool =
  fixes inpool :: "'a \<Rightarrow> bool" and succ :: "'a \<Rightarrow> 'a" and idx :: "'a \<Rightarrow> nat" and size :: nat
  assumes idx_lt: "inpool a \<Longrightarrow> idx a < size"
    and idx_inj: "inpool a \<Longrightarrow> inpool b \<Longrightarrow> idx a = idx b \<Longrightarrow> a = b"
    and succ_in: "inpool a \<Longrightarrow> inpool (succ a)"
    and idx_succ: "inpool a \<Longrightarrow> idx (succ a) = (idx a + 1) mod size"
begin

lemma orbit: "inpool a \<Longrightarrow> inpool ((succ ^^ i) a) \<and> idx ((succ ^^ i) a) = (idx a + i) mod size"
  by (induction i) (auto simp: succ_in idx_succ idx_lt mod_simps)

lemma orbit_covers:
  assumes "inpool a" "inpool b"
  shows "\<exists>i < size. (succ ^^ i) a = b"
proof -
  define i where "i = (idx b + (size - idx a)) mod size"
  have "idx a < size" "idx b < size" using assms idx_lt by auto
  then have "(idx a + i) mod size = idx b" "i < size" by (simp_all add: i_def mod_simps)
  with orbit [OF assms(1), of i] assms(2) idx_inj show ?thesis by metis
qed

lemma orbit_inj:
  assumes "inpool a" "i < size" "j < size" "(succ ^^ i) a = (succ ^^ j) a"
  shows "i = j"
proof -
  have "(idx a + i) mod size = (idx a + j) mod size" using orbit [OF assms(1)] assms(4) by metis
  then show ?thesis using mod_shift_inj [of i j] mod_shift_inj [of j i] assms(2,3) by (metis linear)
qed

lemma scan_complete:
  assumes "inpool a" "finite used" and all: "\<And>i. i \<le> card used \<Longrightarrow> (succ ^^ i) a \<in> used"
  shows "inpool b \<Longrightarrow> b \<in> used"
proof -
  assume b: "inpool b"
  show "b \<in> used"
  proof (cases "size \<le> card used")
    case True
    from orbit_covers [OF assms(1) b] obtain i where "i < size" "(succ ^^ i) a = b" by blast
    with all [of i] True show ?thesis by simp
  next
    case False
    have "inj_on (\<lambda>i. (succ ^^ i) a) {..card used}"
      using orbit_inj [OF assms(1)] False by (auto intro!: inj_onI)
    moreover have "(\<lambda>i. (succ ^^ i) a) ` {..card used} \<subseteq> used" using all by auto
    ultimately have "card {..card used} \<le> card used" using card_inj_on_le assms(2) by blast
    then show ?thesis by simp
  qed
qed

end

section \<open>The allocator\<close>

text \<open>The loop that sets the host bits of the last address of an IPv4 prefix.\<close>

definition last4 :: "32 word \<Rightarrow> nat \<Rightarrow> 32 word" where
  "last4 p bits = foldl (\<lambda>w bit. w OR push_bit (31 - bit) 1) p [bits ..< 32]"

definition alloc_used :: "ipPrefix \<Rightarrow> ipAddr \<Rightarrow> ipAddr list \<Rightarrow> ipAddr list \<Rightarrow> ipAddr fset" where
  "alloc_used p serverIP natives sess =
     {|prefix_Addr p, addr_Next (prefix_Addr p), serverIP|} |\<union>|
     (case p of Prefix4 w n \<Rightarrow> {|IP4 (last4 w n)|} | Prefix6 _ _ \<Rightarrow> {||}) |\<union>|
     fset_of_list (map Unmap (filter addr_IsValid natives)) |\<union>|
     fset_of_list (map Unmap (filter addr_IsValid sess))"

fun alloc_loop :: "nat \<Rightarrow> ipPrefix \<Rightarrow> ipAddr fset \<Rightarrow> ipAddr \<Rightarrow> ipAddr option \<times> ipAddr" where
  "alloc_loop 0 p used nextIP = (None, nextIP)"
| "alloc_loop (Suc tries) p used nextIP =
     (let ip = (if \<not> addr_IsValid nextIP \<or> \<not> prefix_Contains p nextIP then prefix_Addr p else nextIP)
      in if ip |\<notin>| used then (Some ip, addr_Next ip) else alloc_loop tries p used (addr_Next ip))"

text \<open>\<open>natives\<close> and \<open>sess\<close> are the tunnel addresses of the configured native peers and of all
  stored sessions; the result is the address and the advanced cursor.\<close>

definition allocateIP ::
  "ipPrefix \<Rightarrow> ipAddr \<Rightarrow> ipAddr list \<Rightarrow> ipAddr list \<Rightarrow> ipAddr \<Rightarrow> ipAddr option \<times> ipAddr" where
  "allocateIP cidr serverIP natives sess nextIP =
     (let p = prefix_Masked cidr; used = alloc_used p serverIP natives sess
      in alloc_loop (fcard used + 1) p used nextIP)"

section \<open>The scan is cyclic\<close>

definition start_ip :: "ipPrefix \<Rightarrow> ipAddr \<Rightarrow> ipAddr" where
  "start_ip p ip = (if prefix_Contains p ip then ip else prefix_Addr p)"

definition succ_ip :: "ipPrefix \<Rightarrow> ipAddr \<Rightarrow> ipAddr" where
  "succ_ip p ip = start_ip p (addr_Next ip)"

fun addr_nat :: "ipAddr \<Rightarrow> nat" where
  "addr_nat (IP4 w) = unat w"
| "addr_nat (IP6 w z) = unat w"
| "addr_nat IPInvalid = 0"

fun host_bits :: "ipPrefix \<Rightarrow> nat" where
  "host_bits (Prefix4 p n) = 32 - n"
| "host_bits (Prefix6 p n) = 128 - n"

fun addr_width :: "ipPrefix \<Rightarrow> nat" where
  "addr_width (Prefix4 p n) = 32"
| "addr_width (Prefix6 p n) = 128"

definition masked :: "ipPrefix \<Rightarrow> bool" where
  "masked p \<longleftrightarrow> addr_nat (prefix_Addr p) mod 2 ^ host_bits p = 0"

lemma not_contains_invalid [simp]: "\<not> prefix_Contains p IPInvalid"
  by (cases p) auto

lemma alloc_loop_start:
  "alloc_loop (Suc tries) p used nextIP =
     (let ip = start_ip p nextIP in if ip |\<notin>| used then (Some ip, addr_Next ip) else alloc_loop tries p used (addr_Next ip))"
proof -
  have "(if \<not> addr_IsValid nextIP \<or> \<not> prefix_Contains p nextIP then prefix_Addr p else nextIP) = start_ip p nextIP"
    by (cases "nextIP = IPInvalid") (auto simp: start_ip_def addr_IsValid_def)
  then show ?thesis by simp
qed

lemma alloc_loop_spec:
  "alloc_loop tries p used nextIP = (r, c) \<Longrightarrow>
     (case r of
        Some ip \<Rightarrow> ip |\<notin>| used \<and> (\<exists>i. ip = (succ_ip p ^^ i) (start_ip p nextIP))
      | None \<Rightarrow> \<forall>i < tries. (succ_ip p ^^ i) (start_ip p nextIP) |\<in>| used)"
proof (induction tries arbitrary: nextIP)
  case (Suc tries)
  let ?ip = "start_ip p nextIP"
  have shift: "(succ_ip p ^^ i) (start_ip p (addr_Next ?ip)) = (succ_ip p ^^ Suc i) ?ip" for i
    by (simp add: succ_ip_def funpow_swap1)
  show ?case
  proof (cases "?ip |\<in>| used")
    case False
    with Suc.prems show ?thesis 
      by (auto simp: alloc_loop_start Let_def simp del: alloc_loop.simps intro!: exI [of _ "0 :: nat"])
  next
    case True
    with Suc.prems have "alloc_loop tries p used (addr_Next ?ip) = (r, c)"
      by (simp add: alloc_loop_start Let_def del: alloc_loop.simps)
    from Suc.IH [OF this] True show ?thesis
      unfolding shift by (auto split: option.splits simp: less_Suc_eq_0_disj simp del: funpow.simps)
  qed
qed simp

lemma push_bit_mod:
  fixes v :: "'a::len word"
  shows "unat (push_bit k v) mod 2 ^ k = 0"
proof -
  have "take_bit k (push_bit k v) = 0" by (rule bit_word_eqI) (auto simp: bit_simps)
  then have "unat (take_bit k (push_bit k v)) = 0" by (simp only: unsigned_0)
  then have "take_bit k (unat (push_bit k v)) = 0" by (simp only: unsigned_take_bit_eq)
  then show ?thesis by (simp only: take_bit_eq_mod)
qed

lemma masked_Masked: "masked (prefix_Masked p)"
  by (cases p) (simp_all only: masked_def prefix_Masked.simps prefix_Addr.simps addr_nat.simps host_bits.simps push_bit_mod)

text \<open>The addresses of a prefix are those with its leading part, numbered by their host part.\<close>

definition host_part :: "ipPrefix \<Rightarrow> ipAddr \<Rightarrow> nat" where
  "host_part p ip = addr_nat ip mod 2 ^ host_bits p"

lemma contains_nat:
  "prefix_Contains p ip \<longleftrightarrow> Is4 ip = Is4 (prefix_Addr p) \<and> plain_addr ip \<and>
     addr_nat ip div 2 ^ host_bits p = addr_nat (prefix_Addr p) div 2 ^ host_bits p"
  unfolding prefix_Contains_range by (cases p; cases ip) auto

lemma addr_nat_inj: "plain_addr a \<Longrightarrow> plain_addr b \<Longrightarrow> Is4 a = Is4 b \<Longrightarrow> addr_nat a = addr_nat b \<Longrightarrow> a = b"
  by (cases a; cases b) (auto simp: word_unat_eq_iff)

lemma word_next:
  fixes w :: "'a::len word"
  shows "unat w + 1 < 2 ^ LENGTH('a) \<Longrightarrow> w \<noteq> - 1 \<and> unat (w + 1) = unat w + 1"
    and "2 ^ LENGTH('a) \<le> unat w + 1 \<Longrightarrow> w = - 1"
proof -
  have top: "unat (- 1 :: 'a word) = 2 ^ LENGTH('a) - 1" by (simp add: unsigned_minus_1_eq_mask mask_eq_exp_minus_1)
  show "2 ^ LENGTH('a) \<le> unat w + 1 \<Longrightarrow> w = - 1"
  proof -
    assume "2 ^ LENGTH('a) \<le> unat w + 1"
    moreover have "unat w < 2 ^ LENGTH('a)" by (rule unsigned_less)
    ultimately have "unat w = unat (- 1 :: 'a word)" using top by linarith
    then show "w = - 1" by (simp add: word_unat_eq_iff)
  qed
  assume less: "unat w + 1 < 2 ^ LENGTH('a)"
  then have "w \<noteq> - 1" using top by auto
  moreover from this have "unat (w + 1) = unat w + 1" using less by (simp add: unat_word_ariths(1))
  ultimately show "w \<noteq> - 1 \<and> unat (w + 1) = unat w + 1" by simp
qed

lemma addr_Next_nat:
  assumes "plain_addr ip" and "addr_width p = (if Is4 ip then 32 else 128)"
  shows "addr_nat ip + 1 < 2 ^ addr_width p \<Longrightarrow>
      plain_addr (addr_Next ip) \<and> Is4 (addr_Next ip) = Is4 ip \<and> addr_nat (addr_Next ip) = addr_nat ip + 1"
    and "addr_nat ip + 1 \<ge> 2 ^ addr_width p \<Longrightarrow> addr_Next ip = IPInvalid"
proof -
  show "addr_nat ip + 1 < 2 ^ addr_width p \<Longrightarrow>
      plain_addr (addr_Next ip) \<and> Is4 (addr_Next ip) = Is4 ip \<and> addr_nat (addr_Next ip) = addr_nat ip + 1"
    using assms word_next(1) [where ?'a = 32] word_next(1) [where ?'a = 128] by (cases ip) auto
  show "addr_nat ip + 1 \<ge> 2 ^ addr_width p \<Longrightarrow> addr_Next ip = IPInvalid"
    using assms word_next(2) [where ?'a = 32] word_next(2) [where ?'a = 128] by (cases ip) auto
qed

lemma contains_decomp:
  assumes "prefix_Contains p ip"
  shows "addr_nat ip = 2 ^ host_bits p * (addr_nat (prefix_Addr p) div 2 ^ host_bits p) + host_part p ip"
proof -
  have "addr_nat ip div 2 ^ host_bits p = addr_nat (prefix_Addr p) div 2 ^ host_bits p"
    using assms by (simp add: contains_nat)
  then show ?thesis unfolding host_part_def by (metis mult_div_mod_eq)
qed

lemma addr_width_contains: "prefix_Contains p ip \<Longrightarrow> addr_width p = (if Is4 ip then 32 else 128)"
  by (cases p; cases ip) auto

lemma addr_nat_bound: "prefix_Contains p ip \<Longrightarrow> addr_nat ip < 2 ^ addr_width p"
proof -
  have "unat (w :: 32 word) < 2 ^ 32" "unat (v :: 128 word) < 2 ^ 128" for w v
    using unsigned_less [of w, where ?'a = nat] unsigned_less [of v, where ?'a = nat] by simp_all
  then show "prefix_Contains p ip \<Longrightarrow> addr_nat ip < 2 ^ addr_width p" by (cases p; cases ip) auto
qed

lemma base_contained: "prefix_Contains p (prefix_Addr p)"
  by (cases p) auto

lemma start_contained: "prefix_Contains p (start_ip p ip)"
  by (simp add: start_ip_def base_contained)

text \<open>The successor of an address with a further host number is the next address of the prefix; after
  the last one the scan starts again at the base.\<close>

lemma succ_host:
  assumes "masked p" and ip: "prefix_Contains p ip"
  shows "host_part p (succ_ip p ip) = (host_part p ip + 1) mod 2 ^ host_bits p"
proof -
  let ?N = "2 ^ host_bits p :: nat" and ?q = "addr_nat (prefix_Addr p) div 2 ^ host_bits p"
  have nat_ip: "addr_nat ip = ?N * ?q + host_part p ip" using ip by (rule contains_decomp)
  have base: "host_part p (prefix_Addr p) = 0" using assms(1) by (simp add: masked_def host_part_def)
  have lt: "host_part p ip < ?N" by (simp add: host_part_def)
  have pl: "plain_addr ip" using ip by (simp add: contains_nat)
  note nxt = addr_Next_nat [OF pl addr_width_contains [OF ip]]
  show ?thesis
  proof (cases "host_part p ip + 1 < ?N")
    case True
    have "addr_nat ip + 1 < 2 ^ addr_width p"
    proof (rule ccontr)
      assume "\<not> ?thesis"
      with addr_nat_bound [OF ip] have "addr_nat ip + 1 = 2 ^ addr_width p" by simp
      moreover have "host_bits p \<le> addr_width p" by (cases p) auto
      then have "?N dvd 2 ^ addr_width p" by (simp add: le_imp_power_dvd)
      ultimately have "?N dvd host_part p ip + 1" using nat_ip
        by (metis add.assoc dvd_add_right_iff dvd_triv_left)
      with True show False by (auto dest: dvd_imp_le)
    qed
    from nxt(1) [OF this] have n: "plain_addr (addr_Next ip)" "Is4 (addr_Next ip) = Is4 ip"
      "addr_nat (addr_Next ip) = ?N * ?q + (host_part p ip + 1)" using nat_ip by auto
    have parts: "addr_nat (addr_Next ip) div ?N = ?q" "addr_nat (addr_Next ip) mod ?N = host_part p ip + 1"
      unfolding n(3) using div_mult_self4 [of ?N ?q "host_part p ip + 1"] mod_mult_self4 [of ?N ?q "host_part p ip + 1"] True
      by (simp_all only: div_less mod_less)
    have "prefix_Contains p (addr_Next ip)" using n(1,2) ip parts(1) by (simp add: contains_nat)
    then show ?thesis using parts(2) True by (simp add: succ_ip_def start_ip_def host_part_def)
  next
    case False
    with lt have last: "host_part p ip + 1 = ?N" by simp
    have "\<not> prefix_Contains p (addr_Next ip)"
    proof (cases "addr_nat ip + 1 < 2 ^ addr_width p")
      case True
      with nxt(1) nat_ip last have "addr_nat (addr_Next ip) = ?N * (?q + 1)" by (simp add: algebra_simps)
      then have "addr_nat (addr_Next ip) div ?N = ?q + 1" by simp
      then show ?thesis by (simp add: contains_nat)
    qed (use nxt(2) in simp)
    then show ?thesis using base last by (simp add: succ_ip_def start_ip_def)
  qed
qed

interpretation pool: cyclic_pool "prefix_Contains (prefix_Masked p)" "succ_ip (prefix_Masked p)"
    "host_part (prefix_Masked p)" "2 ^ host_bits (prefix_Masked p)" for p
proof
  fix a b
  assume a: "prefix_Contains (prefix_Masked p) a"
  show "host_part (prefix_Masked p) a < 2 ^ host_bits (prefix_Masked p)" by (simp add: host_part_def)
  show "prefix_Contains (prefix_Masked p) (succ_ip (prefix_Masked p) a)" by (simp add: succ_ip_def start_contained)
  show "host_part (prefix_Masked p) (succ_ip (prefix_Masked p) a) =
      (host_part (prefix_Masked p) a + 1) mod 2 ^ host_bits (prefix_Masked p)"
    by (rule succ_host [OF masked_Masked a])
  assume "prefix_Contains (prefix_Masked p) b" "host_part (prefix_Masked p) a = host_part (prefix_Masked p) b"
  then have "addr_nat a = addr_nat b" using contains_decomp [OF a] contains_decomp [of "prefix_Masked p" b] by metis
  with a \<open>prefix_Contains (prefix_Masked p) b\<close> show "a = b" unfolding contains_nat by (intro addr_nat_inj) auto
qed

section \<open>Soundness and completeness\<close>

lemma last4_bit: "bit (foldl (\<lambda>w b. w OR push_bit (31 - b) 1) p bs) i \<longleftrightarrow> bit (p :: 32 word) i \<or> (i < 32 \<and> (\<exists>b \<in> set bs. i = 31 - b))"
  by (induction bs arbitrary: p) (auto simp: bit_simps)

lemma last4_eq: "last4 p n = p OR mask (32 - n)"
proof (rule bit_word_eqI)
  fix i :: nat
  assume "i < LENGTH(32)"
  then have i: "i < 32" by simp
  have "(\<exists>b \<in> set [n ..< 32]. i = 31 - b) \<longleftrightarrow> i < 32 - n"
  proof
    assume "i < 32 - n"
    then have "31 - i \<in> set [n ..< 32]" "i = 31 - (31 - i)" using i by auto
    then show "\<exists>b \<in> set [n ..< 32]. i = 31 - b" by blast
  qed auto
  then show "bit (last4 p n) i = bit (p OR mask (32 - n)) i"
    unfolding last4_def last4_bit using i by (auto simp: bit_simps)
qed

lemma alloc_sound_complete:
  assumes "allocateIP cidr serverIP natives sess nextIP = (r, nextIP')"
  shows "case r of
      Some ip \<Rightarrow> prefix_Contains (prefix_Masked cidr) ip \<and> ip |\<notin>| alloc_used (prefix_Masked cidr) serverIP natives sess
    | None \<Rightarrow> \<forall>ip. prefix_Contains (prefix_Masked cidr) ip \<longrightarrow> ip |\<in>| alloc_used (prefix_Masked cidr) serverIP natives sess"
proof -
  let ?p = "prefix_Masked cidr"
  let ?used = "alloc_used ?p serverIP natives sess"
  have start: "prefix_Contains ?p (start_ip ?p nextIP)" by (rule start_contained)
  from assms have loop: "alloc_loop (fcard ?used + 1) ?p ?used nextIP = (r, nextIP')"
    by (simp add: allocateIP_def Let_def del: alloc_loop.simps)
  note spec = alloc_loop_spec [OF loop]
  show ?thesis
  proof (cases r)
    case (Some ip)
    with spec pool.orbit [OF start] show ?thesis by auto
  next
    case None
    with spec have "(succ_ip ?p ^^ i) (start_ip ?p nextIP) \<in> fset ?used" if "i \<le> card (fset ?used)" for i
      using that by (simp add: fcard.rep_eq)
    then have "ip \<in> fset ?used" if "prefix_Contains ?p ip" for ip
      using pool.scan_complete [OF start finite_fset _ that] by blast
    with None show ?thesis by simp
  qed
qed

definition occupied :: "ipPrefix \<Rightarrow> ipAddr \<Rightarrow> ipAddr list \<Rightarrow> ipAddr set" where
  "occupied p serverIP addrs = {prefix_Addr p, addr_Next (prefix_Addr p), serverIP} \<union>
    (case p of Prefix4 w n \<Rightarrow> {IP4 (w OR mask (32 - n))} | Prefix6 _ _ \<Rightarrow> {}) \<union>
    Unmap ` {a \<in> set addrs. addr_IsValid a}"

lemma alloc_used_occupied: "ip |\<in>| alloc_used p serverIP natives sess \<longleftrightarrow> ip \<in> occupied p serverIP (natives @ sess)"
  unfolding alloc_used_def occupied_def last4_eq by (cases p) (auto simp: fset_of_list_elem)

text \<open>C14: tunnel addresses are allocated exactly. Whatever the cursor and whatever is occupied, the
  allocator returns an address of the tunnel prefix that is not the network address, the one after it,
  the server's, the broadcast address of an IPv4 prefix, nor that of a native peer or a stored session;
  and when its bounded scan gives up, every address of the prefix is one of these.\<close>

theorem allocation_exact:
  assumes "allocateIP cidr serverIP natives sess nextIP = (r, nextIP')"
  shows "case r of
      Some ip \<Rightarrow> prefix_Contains (prefix_Masked cidr) ip \<and> ip \<notin> occupied (prefix_Masked cidr) serverIP (natives @ sess)
    | None \<Rightarrow> \<forall>ip. prefix_Contains (prefix_Masked cidr) ip \<longrightarrow> ip \<in> occupied (prefix_Masked cidr) serverIP (natives @ sess)"
  using alloc_sound_complete [OF assms] unfolding alloc_used_occupied .

theorem allocation_exact_witness:
  "prefix_Contains (prefix_Masked (Prefix4 0x0a141e00 30)) (IP4 0x0a141e02) \<and>
   Collect (prefix_Contains (prefix_Masked (Prefix4 0x0a141e00 30))) \<subseteq>
      {IP4 0x0a141e00, IP4 0x0a141e01, IP4 0x0a141e02, IP4 0x0a141e03}"
proof -
  have "allocateIP (Prefix4 0x0a141e00 30) (IP4 0x0a141e01) [] [] IPInvalid = (Some (IP4 0x0a141e02), IP4 0x0a141e03)"
    and "allocateIP (Prefix4 0x0a141e00 30) (IP4 0x0a141e01) [] [IP4 0x0a141e02] IPInvalid = (None, IP4 0x0a141e01)"
    by code_simp+
  from allocation_exact [OF this(1)] allocation_exact [OF this(2)] show ?thesis
    by (auto simp: occupied_def Unmap_def mask_eq_exp_minus_1 simp del: prefix_Contains.simps)
qed

end
