(* ===== verification/Socks_Filter.thy ===== *)
theory Socks_Filter
  imports Netip "HOL-Library.Sublist"
begin

text \<open>
  Egress authorisation of the SOCKS proxy: the destination filter of
  \<^verbatim>\<open>pkg/socks/filter.go\<close> and the ASN index of \<^verbatim>\<open>pkg/socks/asn.go\<close>. The filter is proved equal
  to a declarative specification over address ranges and the binary search of the index to a
  search for the range that holds the address.
\<close>

unbundle bit_operations_syntax

section \<open>Filters\<close>

record filterConfig =
  cfg_OnlyLocal :: bool
  cfg_CIDRs :: "string list"
  cfg_DomainSuffixes :: "string list"
  cfg_ASNs :: "32 word list"
  cfg_Invert :: bool
  cfg_AllowAll :: bool
  cfg_AllowLocalEgress :: bool

definition deniedByDefault :: "ipAddr \<Rightarrow> bool" where
  "deniedByDefault ip0 = (let ip = Unmap ip0 in
     \<not> addr_IsValid ip \<or> IsLoopback ip \<or> IsUnspecified ip \<or> IsLinkLocalUnicast ip \<or>
     IsLinkLocalMulticast ip \<or> IsInterfaceLocalMulticast ip)"

text \<open>The built-in prefixes; \<open>mustParsePrefixes\<close> panics on a malformed one, which is an error
  value here.\<close>

fun mustParsePrefixes :: "string list \<Rightarrow> (string, ipPrefix list) outcome" where
  "mustParsePrefixes [] = Ok []"
| "mustParsePrefixes (c # cs) = (case ParsePrefix c of None \<Rightarrow> Panic
     | Some p \<Rightarrow> obind (mustParsePrefixes cs) (\<lambda>ps. Ok (p # ps)))"

definition localCIDR_strings :: "string list" where
  "localCIDR_strings = [''10.0.0.0/8'', ''172.16.0.0/12'', ''192.168.0.0/16'', ''fc00::/7'']"

definition localCIDRs :: "ipPrefix list" where
  "localCIDRs = (case mustParsePrefixes localCIDR_strings of Ok ps \<Rightarrow> ps | _ \<Rightarrow> [])"

text \<open>An \<open>ASNLookup\<close> is a function; the nil interface is \<open>None\<close>.\<close>

type_synonym asnLookup = "ipAddr \<Rightarrow> 32 word option"

record socksFilter =
  f_allowLocal :: bool
  f_onlyLocal :: bool
  f_cidrs :: "ipPrefix list"
  f_domains :: "string list"
  f_asns :: "32 word fset"
  f_invert :: bool
  f_allowAll :: bool
  f_hasFilters :: bool
  f_asnLookup :: "asnLookup option"

fun parse_cidrs :: "string list \<Rightarrow> string + ipPrefix list" where
  "parse_cidrs [] = Inr []"
| "parse_cidrs (c # cs) = (case ParsePrefix c of None \<Rightarrow> Inl c
     | Some p \<Rightarrow> (case parse_cidrs cs of Inl e \<Rightarrow> Inl e | Inr ps \<Rightarrow> Inr (p # ps)))"

definition NewFilter :: "filterConfig \<Rightarrow> asnLookup option \<Rightarrow> string + socksFilter" where
  "NewFilter cfg lookup = (case parse_cidrs (cfg_CIDRs cfg) of
       Inl e \<Rightarrow> Inl e
     | Inr cidrs \<Rightarrow> let asns = fset_of_list (cfg_ASNs cfg) in
         Inr \<lparr>f_allowLocal = cfg_AllowLocalEgress cfg, f_onlyLocal = cfg_OnlyLocal cfg,
              f_cidrs = cidrs, f_domains = cfg_DomainSuffixes cfg, f_asns = asns,
              f_invert = cfg_Invert cfg, f_allowAll = cfg_AllowAll cfg,
              f_hasFilters = (cidrs \<noteq> [] \<or> cfg_DomainSuffixes cfg \<noteq> [] \<or> asns \<noteq> {||} \<or> cfg_Invert cfg),
              f_asnLookup = lookup\<rparr>)"

fun matches_loop :: "ipAddr \<Rightarrow> ipPrefix list \<Rightarrow> bool" where
  "matches_loop ip [] = False"
| "matches_loop ip (p # ps) =
     (if Is4 (prefix_Addr p) \<noteq> Is4 ip then matches_loop ip ps
      else if prefix_Contains p ip then True
      else matches_loop ip ps)"

definition matchesAnyCIDR :: "ipAddr \<Rightarrow> ipPrefix list \<Rightarrow> bool" where
  "matchesAnyCIDR ip ps = (if \<not> addr_IsValid ip then False else matches_loop (Unmap ip) ps)"

definition HasSuffix :: "string \<Rightarrow> string \<Rightarrow> bool" where
  "HasSuffix s suf \<longleftrightarrow> length suf \<le> length s \<and> drop (length s - length suf) s = suf"

text \<open>\<open>strings.TrimSuffix\<close>.\<close>

definition trim_suffix :: "string \<Rightarrow> string \<Rightarrow> string" where
  "trim_suffix s suf = (if HasSuffix s suf then take (length s - length suf) s else s)"

fun suffix_loop :: "string \<Rightarrow> string list \<Rightarrow> bool" where
  "suffix_loop h [] = False"
| "suffix_loop h (suf # sufs) = (if suf \<noteq> [] \<and> HasSuffix h suf then True else suffix_loop h sufs)"

definition matchesDomainSuffix :: "string \<Rightarrow> string list \<Rightarrow> bool" where
  "matchesDomainSuffix hostname sufs = (if hostname = [] then False else suffix_loop hostname sufs)"

definition Allowed :: "socksFilter \<Rightarrow> string \<Rightarrow> ipAddr \<Rightarrow> bool" where
  "Allowed f hostname ip =
     (if \<not> f_allowLocal f \<and> deniedByDefault ip then False
      else if f_onlyLocal f then matchesAnyCIDR ip localCIDRs
      else if \<not> f_hasFilters f then f_allowAll f
      else let
        cidrMatch = matchesAnyCIDR ip (f_cidrs f);
        asnMatch = (if \<not> cidrMatch \<and> f_asns f \<noteq> {||} then
             (case f_asnLookup f of None \<Rightarrow> False
              | Some lookup \<Rightarrow> (case lookup ip of None \<Rightarrow> False | Some asn \<Rightarrow> asn |\<in>| f_asns f))
           else False);
        netMatch = cidrMatch \<or> asnMatch;
        m = (if f_domains f = [] then netMatch
             else if f_cidrs f \<noteq> [] \<and> \<not> netMatch then False
             else matchesDomainSuffix hostname (f_domains f))
      in if f_invert f then \<not> m else m)"

section \<open>The ASN index\<close>

record asnIndexEntry =
  asn_ASN :: "32 word"
  asn_Start :: "32 word"
  asn_End :: "32 word"

record asnIndex =
  ix_entries :: "asnIndexEntry list"
  ix_loadedAt :: "gotime option"

definition NewASNIndex :: asnIndex where
  "NewASNIndex = \<lparr>ix_entries = [], ix_loadedAt = None\<rparr>"

text \<open>\<open>sort.Search\<close>: the least index for which a monotone test holds, by bisection.\<close>

function search_loop :: "(nat \<Rightarrow> bool) \<Rightarrow> nat \<Rightarrow> nat \<Rightarrow> nat" where
  "search_loop f i j =
     (if i < j then let h = (i + j) div 2 in
        if \<not> f h then search_loop f (h + 1) j else search_loop f i h
      else i)"
  by pat_completeness auto
termination
  by (relation "measure (\<lambda>(f, i, j). j - i)") auto

definition sort_Search :: "nat \<Rightarrow> (nat \<Rightarrow> bool) \<Rightarrow> nat" where
  "sort_Search n f = search_loop f 0 n"

definition asn_Lookup :: "asnIndex \<Rightarrow> ipAddr \<Rightarrow> 32 word option" where
  "asn_Lookup a ip0 = (case Unmap ip0 of
       IP4 n \<Rightarrow>
         (let entries = ix_entries a;
              i = sort_Search (length entries) (\<lambda>i. n < asn_Start (entries ! i)) in
          if i = 0 then None
          else let e = entries ! (i - 1) in
            if asn_Start e \<le> n \<and> n \<le> asn_End e then Some (asn_ASN e) else None)
     | _ \<Rightarrow> None)"

definition asn_Loaded :: "asnIndex \<Rightarrow> bool \<times> gotime option" where
  "asn_Loaded a = (ix_entries a \<noteq> [], ix_loadedAt a)"

text \<open>\<open>Update\<close> replaces the index by the downloaded entries, sorted by start; the download is an
  argument (\<open>None\<close> for any failure before the swap). \<open>sort.Slice\<close> is not stable: \<open>raw\<close> is
  the result of the sort, one of the orders it may leave entries with equal starts in.\<close>

definition asn_Update :: "gotime \<Rightarrow> asnIndexEntry list option \<Rightarrow> asnIndex \<Rightarrow> asnIndex" where
  "asn_Update now download a = (case download of None \<Rightarrow> a
     | Some raw \<Rightarrow> a\<lparr>ix_entries := raw, ix_loadedAt := Some now\<rparr>)"

section \<open>The filter against its specification\<close>

definition in_CIDR :: "string \<Rightarrow> ipAddr \<Rightarrow> bool" where
  "in_CIDR c ip = (case ParsePrefix c of None \<Rightarrow> False | Some p \<Rightarrow> in_range p (Unmap ip))"

definition announced_by :: "asnLookup option \<Rightarrow> 32 word list \<Rightarrow> ipAddr \<Rightarrow> bool" where
  "announced_by lookup asns ip \<longleftrightarrow> (\<exists>lk a. lookup = Some lk \<and> lk ip = Some a \<and> a \<in> set asns)"

text \<open>What a configuration permits: the floor first, then only-local, then the default, then a
  match of the networks (vetoing when prefixes are configured or there is nothing else) and of
  the host name's suffix (decisive when suffixes are configured), inverted on request.\<close>

definition egress_spec :: "filterConfig \<Rightarrow> asnLookup option \<Rightarrow> string \<Rightarrow> ipAddr \<Rightarrow> bool" where
  "egress_spec cfg lookup hostname ip \<longleftrightarrow>
     (cfg_AllowLocalEgress cfg \<or> \<not> deniedByDefault ip) \<and>
     (if cfg_OnlyLocal cfg then \<exists>c \<in> set localCIDR_strings. in_CIDR c ip
      else if cfg_CIDRs cfg = [] \<and> cfg_DomainSuffixes cfg = [] \<and> cfg_ASNs cfg = [] \<and> \<not> cfg_Invert cfg
      then cfg_AllowAll cfg
      else cfg_Invert cfg \<noteq>
        (((\<exists>c \<in> set (cfg_CIDRs cfg). in_CIDR c ip) \<or> announced_by lookup (cfg_ASNs cfg) ip \<or>
            (cfg_CIDRs cfg = [] \<and> cfg_DomainSuffixes cfg \<noteq> [])) \<and>
         (cfg_DomainSuffixes cfg = [] \<or>
            (\<exists>s \<in> set (cfg_DomainSuffixes cfg). s \<noteq> [] \<and> suffix s hostname))))"

lemma localCIDRs_eq:
  "localCIDRs = [Prefix4 0x0a000000 8, Prefix4 0xac100000 12, Prefix4 0xc0a80000 16,
     Prefix6 0xfc000000000000000000000000000000 7]"
  by code_simp

lemma local_strings: "map ParsePrefix localCIDR_strings = map Some localCIDRs"
  by code_simp

lemma matches_loop_iff: "matches_loop ip ps \<longleftrightarrow> (\<exists>p \<in> set ps. in_range p ip)"
proof (induction ps)
  case (Cons p ps)
  have "Is4 (prefix_Addr p) \<noteq> Is4 ip \<Longrightarrow> \<not> in_range p ip" by (cases p; cases ip) auto
  with Cons.IH show ?case by (auto simp: prefix_Contains_range)
qed simp

lemma matchesAnyCIDR_iff: "matchesAnyCIDR ip ps \<longleftrightarrow> (\<exists>p \<in> set ps. in_range p (Unmap ip))"
proof (cases ip)
  case IPInvalid
  have "\<not> in_range p IPInvalid" for p by (cases p) auto
  with IPInvalid show ?thesis by (simp add: matchesAnyCIDR_def addr_IsValid_def Unmap_def)
qed (auto simp: matchesAnyCIDR_def addr_IsValid_def matches_loop_iff)

lemma matches_strings:
  assumes "map ParsePrefix cs = map Some ps"
  shows "matchesAnyCIDR ip ps \<longleftrightarrow> (\<exists>c \<in> set cs. in_CIDR c ip)"
  using assms unfolding matchesAnyCIDR_iff
  by (induction cs arbitrary: ps) (auto simp: in_CIDR_def Cons_eq_map_conv)

lemma parse_cidrs_Inr: "parse_cidrs cs = Inr ps \<Longrightarrow> map ParsePrefix cs = map Some ps"
  by (induction cs arbitrary: ps) (auto split: option.splits sum.splits)

lemma HasSuffix_iff: "HasSuffix h s \<longleftrightarrow> suffix s h"
  unfolding HasSuffix_def suffix_def
  by (metis append_take_drop_id append_eq_conv_conj diff_diff_cancel length_append length_drop le_add2 add_diff_cancel_right')

lemma suffix_loop_iff: "suffix_loop h sufs \<longleftrightarrow> (\<exists>s \<in> set sufs. s \<noteq> [] \<and> suffix s h)"
  by (induction sufs) (auto simp: HasSuffix_iff)

lemma matchesDomainSuffix_iff:
  "matchesDomainSuffix h sufs \<longleftrightarrow> (\<exists>s \<in> set sufs. s \<noteq> [] \<and> suffix s h)"
  by (auto simp: matchesDomainSuffix_def suffix_loop_iff suffix_bot.extremum_uniqueI)

lemma filter_iff_spec:
  assumes "NewFilter cfg lookup = Inr f"
  shows "Allowed f hostname ip \<longleftrightarrow> egress_spec cfg lookup hostname ip"
proof -
  from assms obtain ps where ps: "parse_cidrs (cfg_CIDRs cfg) = Inr ps"
    and f: "f_cidrs f = ps" "f_allowLocal f = cfg_AllowLocalEgress cfg" "f_onlyLocal f = cfg_OnlyLocal cfg"
      "f_domains f = cfg_DomainSuffixes cfg" "f_asns f = fset_of_list (cfg_ASNs cfg)"
      "f_invert f = cfg_Invert cfg" "f_allowAll f = cfg_AllowAll cfg" "f_asnLookup f = lookup"
      "f_hasFilters f = (ps \<noteq> [] \<or> cfg_DomainSuffixes cfg \<noteq> [] \<or> fset_of_list (cfg_ASNs cfg) \<noteq> {||} \<or> cfg_Invert cfg)"
    by (auto simp: NewFilter_def Let_def split: sum.splits)
  note strs = parse_cidrs_Inr [OF ps]
  have asns: "fset_of_list (cfg_ASNs cfg) = {||} \<longleftrightarrow> cfg_ASNs cfg = []"
    by (cases "cfg_ASNs cfg") auto
  have empty: "ps = [] \<longleftrightarrow> cfg_CIDRs cfg = []" using strs by auto
  have ann: "(case lookup of None \<Rightarrow> False | Some lk \<Rightarrow> (case lk ip of None \<Rightarrow> False
      | Some a \<Rightarrow> a |\<in>| fset_of_list (cfg_ASNs cfg))) \<longleftrightarrow> announced_by lookup (cfg_ASNs cfg) ip"
    by (auto simp: announced_by_def fset_of_list_elem split: option.splits)
  have none: "cfg_ASNs cfg = [] \<Longrightarrow> \<not> announced_by lookup (cfg_ASNs cfg) ip" by (simp add: announced_by_def)
  show ?thesis
    unfolding Allowed_def egress_spec_def Let_def f ann asns matches_strings [OF strs]
      matches_strings [OF local_strings] matchesDomainSuffix_iff empty
    using none by auto
qed

text \<open>C32: a compiled filter decides exactly what its configuration specifies, for every host name,
  address and ASN table: bitwise prefix tests are the ranges the prefixes denote, a 4-in-6 address is
  treated as the IPv4 address, only-local ignores every other option, an empty configuration denies
  unless allow-all is set, and inversion never applies to the floor.\<close>

theorem filter_equals_spec:
  assumes "NewFilter cfg lookup = Inr f"
  shows "Allowed f hostname ip \<longleftrightarrow> egress_spec cfg lookup hostname ip"
  using assms by (rule filter_iff_spec)

lemma mask_and:
  fixes x :: "128 word"
  assumes "drop_bit 6 x = 0x3fa"
  shows "x AND 0xffc0 = 0xfe80"
proof -
  have "x = push_bit 6 (drop_bit 6 x) OR take_bit 6 x" by (rule bit_word_eqI) (auto simp: bit_simps)
  then have "x AND 0xffc0 = (push_bit 6 0x3fa OR (x AND mask 6)) AND 0xffc0"
    by (simp add: assms take_bit_eq_mask)
  also have "\<dots> = 0xfe80 OR (x AND (mask 6 AND 0xffc0))"
    by (simp add: bit.conj_disj_distrib2 and.assoc)
  finally show ?thesis by (simp add: mask_eq_exp_minus_1)
qed

definition floor_groups :: "128 word list" where
  "floor_groups = [0xff01, 0xff02, 0xff11, 0xff12, 0xff21, 0xff22, 0xff31, 0xff32, 0xff41, 0xff42, 0xff51,
     0xff52, 0xff61, 0xff62, 0xff71, 0xff72, 0xff81, 0xff82, 0xff91, 0xff92, 0xffa1, 0xffa2, 0xffb1, 0xffb2,
     0xffc1, 0xffc2, 0xffd1, 0xffd2, 0xffe1, 0xffe2, 0xfff1, 0xfff2]"

text \<open>The destination classes of the floor as prefixes: \<^verbatim>\<open>0.0.0.0\<close>, \<^verbatim>\<open>127.0.0.0/8\<close>,
  \<^verbatim>\<open>169.254.0.0/16\<close>, \<^verbatim>\<open>224.0.0.0/24\<close>, \<^verbatim>\<open>::\<close>, \<^verbatim>\<open>::1\<close>, \<^verbatim>\<open>fe80::/10\<close> and the link-local and
  interface-local multicast groups \<^verbatim>\<open>ff01::/16\<close> to \<^verbatim>\<open>fff2::/16\<close>.\<close>

definition floor4 :: "ipPrefix list" where
  "floor4 = [Prefix4 0 32, Prefix4 0x7f000000 8, Prefix4 0xa9fe0000 16, Prefix4 0xe0000000 24]"

definition floor6 :: "ipPrefix list" where
  "floor6 = [Prefix6 0 128, Prefix6 1 128, Prefix6 0xfe800000000000000000000000000000 10] @
     map (\<lambda>g. Prefix6 (push_bit 112 g) 16) floor_groups"

lemma in_range_drop4: "in_range (Prefix4 p n) (IP4 w) \<longleftrightarrow> drop_bit (32 - n) w = drop_bit (32 - n) p"
  by (simp add: word_unat_eq_iff unat_drop_bit_eq drop_bit_eq_div [where ?'a = nat])

lemma in_range_drop6:
  "in_range (Prefix6 p n) (IP6 w z) \<longleftrightarrow> z = '''' \<and> drop_bit (128 - n) w = drop_bit (128 - n) p"
  by (simp add: word_unat_eq_iff unat_drop_bit_eq drop_bit_eq_div [where ?'a = nat])

lemma floor_denied4:
  assumes "in_range p (IP4 w)" and "p \<in> set floor4"
  shows "deniedByDefault (IP4 w)"
  using assms
  by (auto simp: floor4_def in_range_drop4 deniedByDefault_def Unmap_def IsUnspecified_def simp del: in_range.simps)

lemma group_denied:
  assumes "drop_bit 112 w = g" and "g \<in> set floor_groups" and "drop_bit 32 w \<noteq> 0xffff"
  shows "IsLinkLocalMulticast (IP6 w z) \<or> IsInterfaceLocalMulticast (IP6 w z)"
proof -
  have "list_all (\<lambda>g. g AND 0xff0f = 0xff02 \<or> g AND 0xff0f = 0xff01) floor_groups"
    by (simp add: floor_groups_def)
  with assms show ?thesis by (auto simp: list_all_iff v6u16_0_def)
qed

lemma floor_denied6:
  assumes "in_range p (IP6 w z)" and "p \<in> set floor6" and "Unmap (IP6 w z) = IP6 w z"
  shows "deniedByDefault (IP6 w z)"
proof -
  from assms(3) have n: "drop_bit 32 w \<noteq> 0xffff" by (rule unmapped_not_4in6)
  from assms(2) consider "p = Prefix6 0 128" | "p = Prefix6 1 128"
    | "p = Prefix6 0xfe800000000000000000000000000000 10"
    | g where "p = Prefix6 (push_bit 112 g) 16" "g \<in> set floor_groups"
    by (auto simp: floor6_def)
  then show ?thesis
  proof cases
    case 3
    with assms(1) have "drop_bit 118 w = 0x3fa" by (simp add: in_range_drop6 del: in_range.simps)
    then have "v6u16_0 w AND 0xffc0 = 0xfe80" by (intro mask_and) (simp add: v6u16_0_def)
    with assms(3) n show ?thesis by (simp add: deniedByDefault_def)
  next
    case (4 g)
    have "list_all (\<lambda>g. drop_bit 112 (push_bit 112 g) = g) floor_groups" by (simp add: floor_groups_def)
    with 4 assms(1) have "drop_bit 112 w = g"
      by (auto simp: in_range_drop6 list_all_iff simp del: in_range.simps)
    from group_denied [OF this 4(2) n, of z] assms(3) show ?thesis by (auto simp: deniedByDefault_def)
  qed (use assms n in \<open>auto simp: in_range_drop6 deniedByDefault_def IsUnspecified_def simp del: in_range.simps\<close>)
qed

lemma floor_denied:
  assumes "in_range p (Unmap ip)" and "p \<in> set (floor4 @ floor6)"
  shows "deniedByDefault ip"
proof -
  have same: "deniedByDefault (Unmap ip) = deniedByDefault ip"
    by (simp add: deniedByDefault_def Unmap_idem)
  have "p \<in> set floor4 \<Longrightarrow> Is4 (prefix_Addr p)" "p \<in> set floor6 \<Longrightarrow> \<not> Is4 (prefix_Addr p)"
    by (auto simp: floor4_def floor6_def)
  then have "deniedByDefault (Unmap ip)"
    using assms floor_denied4 [of p] floor_denied6 [of p] Unmap_idem [of ip]
    by (cases "Unmap ip"; cases p) auto
  with same show ?thesis by simp
qed

lemma floor_unreachable:
  assumes "NewFilter cfg lookup = Inr f" and "\<not> cfg_AllowLocalEgress cfg" and "Allowed f hostname ip"
  shows "addr_IsValid ip \<and> (\<forall>p \<in> set (floor4 @ floor6). \<not> in_range p (Unmap ip))"
proof -
  have "\<not> f_allowLocal f" using assms(1,2) by (auto simp: NewFilter_def Let_def split: sum.splits)
  with assms(3) have "\<not> deniedByDefault ip" by (auto simp: Allowed_def split: if_splits)
  moreover from this have "addr_IsValid ip"
    by (auto simp: deniedByDefault_def Let_def addr_IsValid_def Unmap_def split: ipAddr.splits)
  ultimately show ?thesis using floor_denied by blast
qed

text \<open>Whatever the filters, no configuration reaches the server's own loopback, the link-local
  range with the cloud metadata service, link-local or interface-local multicast, or the unspecified
  address, in IPv4, IPv6 or 4-in-6 form, unless \<open>AllowLocalEgress\<close> is set; an invalid address is
  refused as well.\<close>

theorem egress_floor:
  assumes "NewFilter cfg lookup = Inr f" and "\<not> cfg_AllowLocalEgress cfg" and "Allowed f hostname ip"
  shows "addr_IsValid ip \<and> (\<forall>p \<in> set (floor4 @ floor6). \<not> in_range p (Unmap ip))"
  using assms by (rule floor_unreachable)

section \<open>The ASN index against its specification\<close>

declare search_loop.simps [simp del]

definition upward :: "nat \<Rightarrow> (nat \<Rightarrow> bool) \<Rightarrow> bool" where
  "upward n f \<longleftrightarrow> (\<forall>a b. a \<le> b \<and> b < n \<and> f a \<longrightarrow> f b)"

lemma search_loop_least:
  assumes "i \<le> j" and "upward n f" and "j \<le> n"
    and "\<And>k. k < i \<Longrightarrow> \<not> f k" and "\<And>k. j \<le> k \<Longrightarrow> k < n \<Longrightarrow> f k"
  shows "search_loop f i j \<le> n \<and> (\<forall>k < search_loop f i j. \<not> f k) \<and>
    (\<forall>k. search_loop f i j \<le> k \<and> k < n \<longrightarrow> f k)"
  using assms
proof (induction f i j rule: search_loop.induct)
  case (1 f i j)
  let ?h = "(i + j) div 2"
  show ?case
  proof (cases "i < j")
    case less: True
    show ?thesis
    proof (cases "f ?h")
      case True
      have "search_loop f i j = search_loop f i ?h" using less True by (subst search_loop.simps) simp
      moreover have "f k" if "?h \<le> k" "k < n" for k using "1.prems"(2) that True unfolding upward_def by blast
      moreover have "search_loop f i ?h \<le> n \<and> (\<forall>k < search_loop f i ?h. \<not> f k) \<and>
          (\<forall>k. search_loop f i ?h \<le> k \<and> k < n \<longrightarrow> f k)"
        by (rule "1.IH"(2) [OF less refl]) (use True less "1.prems" calculation(2) in \<open>simp_all\<close>)
      ultimately show ?thesis by simp
    next
      case False
      have "search_loop f i j = search_loop f (?h + 1) j" using less False by (subst search_loop.simps) simp
      moreover have "\<not> f k" if "k < ?h + 1" for k
      proof
        assume "f k"
        moreover have "k \<le> ?h" "?h < n" using that less "1.prems"(3) by auto
        ultimately show False using "1.prems"(2) False unfolding upward_def by blast
      qed
      moreover have "search_loop f (?h + 1) j \<le> n \<and> (\<forall>k < search_loop f (?h + 1) j. \<not> f k) \<and>
          (\<forall>k. search_loop f (?h + 1) j \<le> k \<and> k < n \<longrightarrow> f k)"
        by (rule "1.IH"(1) [OF less refl False]) (use less "1.prems" calculation(2) in \<open>simp_all\<close>)
      ultimately show ?thesis by simp
    qed
  next
    case False
    then have "search_loop f i j = i" by (subst search_loop.simps) simp
    with False "1.prems" show ?thesis by auto
  qed
qed

lemma sort_Search_least:
  assumes "upward n f"
  shows "sort_Search n f \<le> n" "k < sort_Search n f \<Longrightarrow> \<not> f k"
    "sort_Search n f \<le> k \<Longrightarrow> k < n \<Longrightarrow> f k"
  using search_loop_least [of 0 n n f, OF _ assms] by (simp_all add: sort_Search_def)

text \<open>An index a download leaves behind: sorted by start, with ranges that do not overlap.\<close>

definition index_ok :: "asnIndexEntry list \<Rightarrow> bool" where
  "index_ok es \<longleftrightarrow> sorted_wrt (\<lambda>d e. asn_Start d \<le> asn_Start e \<and> asn_End d < asn_Start e) es"

lemma lookup_index:
  fixes n :: "32 word"
  assumes "index_ok es"
  defines "i \<equiv> sort_Search (length es) (\<lambda>i. n < asn_Start (es ! i))"
  shows "i \<le> length es" and "k < i \<Longrightarrow> asn_Start (es ! k) \<le> n"
    and "i \<le> k \<Longrightarrow> k < length es \<Longrightarrow> n < asn_Start (es ! k)"
proof -
  have "asn_Start (es ! a) \<le> asn_Start (es ! b)" if "a \<le> b" "b < length es" for a b
    using assms(1) that by (cases "a = b") (auto simp: index_ok_def sorted_wrt_iff_nth_less)
  then have up: "upward (length es) (\<lambda>i. n < asn_Start (es ! i))"
    unfolding upward_def using order_less_le_trans by blast
  note * = sort_Search_least [OF up, folded i_def]
  show "i \<le> length es" by (rule *(1))
  show "asn_Start (es ! k) \<le> n" if "k < i" using *(2) [OF that] by simp
  show "n < asn_Start (es ! k)" if "i \<le> k" "k < length es" by (rule *(3) [OF that])
qed

text \<open>On an index of disjoint ranges sorted by start, the bisection of \<open>Lookup\<close> finds the ASN of
  exactly the range that holds the address, with no range missed at the ends, on an empty index or
  on a boundary; IPv6 addresses never match and 4-in-6 addresses are looked up as IPv4.\<close>

theorem asn_lookup_exact:
  assumes "index_ok (ix_entries a)"
  shows "asn_Lookup a ip = Some x \<longleftrightarrow>
    (\<exists>n e. Unmap ip = IP4 n \<and> e \<in> set (ix_entries a) \<and> asn_Start e \<le> n \<and> n \<le> asn_End e \<and> x = asn_ASN e)"
proof (cases "Unmap ip")
  case (IP4 n)
  let ?es = "ix_entries a"
  define i where "i = sort_Search (length ?es) (\<lambda>i. n < asn_Start (?es ! i))"
  note idx = lookup_index [OF assms, where n = n, folded i_def]
  have last: "k = i - 1 \<and> 0 < i" if "k < length ?es" "asn_Start (?es ! k) \<le> n" "n \<le> asn_End (?es ! k)" for k
  proof -
    have "k < i" using idx(3) [of k] that by (cases "i \<le> k") auto
    moreover have False if before: "k < i - 1"
    proof -
      have "asn_End (?es ! k) < asn_Start (?es ! (i - 1))"
        using assms idx(1) before by (simp add: index_ok_def sorted_wrt_iff_nth_less)
      moreover have "asn_Start (?es ! (i - 1)) \<le> n" using idx(2) before by simp
      ultimately show False using \<open>n \<le> asn_End (?es ! k)\<close> by order
    qed
    ultimately show ?thesis by (cases "k < i - 1") auto
  qed
  have eq: "asn_Lookup a ip = (if i = 0 then None else
      if asn_Start (?es ! (i - 1)) \<le> n \<and> n \<le> asn_End (?es ! (i - 1)) then Some (asn_ASN (?es ! (i - 1))) else None)"
    by (simp add: asn_Lookup_def IP4 i_def Let_def)
  have "i \<noteq> 0 \<Longrightarrow> ?es ! (i - 1) \<in> set ?es" using idx(1) by simp
  then show ?thesis using last unfolding eq IP4 by (auto simp: in_set_conv_nth split: if_splits)
qed (auto simp: asn_Lookup_def)

section \<open>Witnesses\<close>

definition demo_index :: asnIndex where
  "demo_index = asn_Update 7 (Some [\<lparr>asn_ASN = 64500, asn_Start = 0x01000000, asn_End = 0x010000ff\<rparr>,
     \<lparr>asn_ASN = 64501, asn_Start = 0x08080000, asn_End = 0x0808ffff\<rparr>]) NewASNIndex"

definition demo_cfg :: filterConfig where
  "demo_cfg = \<lparr>cfg_OnlyLocal = False, cfg_CIDRs = [''203.0.113.0/24''], cfg_DomainSuffixes = [''.example.com''],
     cfg_ASNs = [64501], cfg_Invert = False, cfg_AllowAll = True, cfg_AllowLocalEgress = False\<rparr>"

definition demo_filter :: socksFilter where
  "demo_filter = \<lparr>f_allowLocal = False, f_onlyLocal = False, f_cidrs = [Prefix4 0xcb007100 24],
     f_domains = [''.example.com''], f_asns = {|64501|}, f_invert = False, f_allowAll = True,
     f_hasFilters = True, f_asnLookup = Some (asn_Lookup demo_index)\<rparr>"

lemma demo_parse: "ParsePrefix ''203.0.113.0/24'' = Some (Prefix4 0xcb007100 24)"
  by code_simp

lemma demo_compiled: "NewFilter demo_cfg (Some (asn_Lookup demo_index)) = Inr demo_filter"
  by (simp add: NewFilter_def demo_cfg_def demo_filter_def demo_parse)

lemma demo_found: "asn_Lookup demo_index (IP4 0x08080808) = Some 64501"
  by code_simp

lemma demo_index_ok: "index_ok (ix_entries demo_index)"
  by code_simp

theorem asn_lookup_exact_witness:
  "\<exists>n e. Unmap (IP4 0x08080808) = IP4 n \<and> e \<in> set (ix_entries demo_index) \<and> asn_Start e \<le> n \<and>
     n \<le> asn_End e \<and> 64501 = asn_ASN e"
  using iffD1 [OF asn_lookup_exact [OF demo_index_ok] demo_found] .

lemma demo_suffix: "matchesDomainSuffix ''www.example.com'' [''.example.com'']"
  by code_simp

lemma demo_allowed: "Allowed demo_filter ''www.example.com'' (IP4 0x08080808)"
  by (simp add: Allowed_def demo_filter_def Let_def demo_found demo_suffix)
     (simp add: deniedByDefault_def Unmap_def addr_IsValid_def IsUnspecified_def)

theorem filter_equals_spec_witness:
  "egress_spec demo_cfg (Some (asn_Lookup demo_index)) ''www.example.com'' (IP4 0x08080808)"
  using filter_equals_spec [OF demo_compiled] demo_allowed by simp

theorem egress_floor_witness:
  "addr_IsValid (IP4 0x08080808) \<and> (\<forall>p \<in> set (floor4 @ floor6). \<not> in_range p (Unmap (IP4 0x08080808)))"
  by (rule egress_floor [OF demo_compiled _ demo_allowed]) (simp add: demo_cfg_def)

end
