(* ===== verification/Server_Config.thy ===== *)
theory Server_Config
  imports Netip "HOL-Library.Char_ord" "HOL-Library.List_Lexorder"
begin

text \<open>
  The part of the server's configuration (\<^verbatim>\<open>pkg/server/config.go\<close>) that the control and data
  planes read, the predicates derived from it, the grant matching of \<^verbatim>\<open>pkg/server/server.go\<close>
  and the capability report of \<^verbatim>\<open>pkg/server/security.go\<close>.
\<close>

section \<open>Strings\<close>

text \<open>\<open>strings.ToLower\<close> and \<open>strings.TrimSpace\<close> on ASCII strings; on a string with a byte above
  127 they are the library's Unicode routines, an argument.\<close>

definition ascii_str :: "string \<Rightarrow> bool" where
  "ascii_str s = list_all (\<lambda>c. (of_char c :: nat) < 128) s"

definition lower_char :: "char \<Rightarrow> char" where
  "lower_char c = (let n = (of_char c :: nat) in if 65 \<le> n \<and> n \<le> 90 then char_of (n + 32) else c)"

definition space_char :: "char \<Rightarrow> bool" where
  "space_char c \<longleftrightarrow> (of_char c :: nat) \<in> {9, 10, 11, 12, 13, 32}"

record unicode =
  uni_lower :: "string \<Rightarrow> string"
  uni_trim :: "string \<Rightarrow> string"

definition ToLower :: "unicode \<Rightarrow> string \<Rightarrow> string" where
  "ToLower u s = (if ascii_str s then map lower_char s else uni_lower u s)"

definition TrimSpace :: "unicode \<Rightarrow> string \<Rightarrow> string" where
  "TrimSpace u s = (if ascii_str s then rev (dropWhile space_char (rev (dropWhile space_char s)))
     else uni_trim u s)"

definition HasPrefix :: "string \<Rightarrow> string \<Rightarrow> bool" where
  "HasPrefix s p \<longleftrightarrow> take (length p) s = p"

definition CutPrefix :: "string \<Rightarrow> string \<Rightarrow> string option" where
  "CutPrefix s p = (if HasPrefix s p then Some (drop (length p) s) else None)"

definition trim_prefix :: "string \<Rightarrow> string \<Rightarrow> string" where
  "trim_prefix s p = (if HasPrefix s p then drop (length p) s else s)"

section \<open>Records\<close>

record socksConfig =
  so_Transparent :: bool
  so_OnlyLocal :: bool
  so_Filters :: "string list"
  so_DomainFilters :: "string list"
  so_ASNFilters :: "32 word list"
  so_ASNUpdates :: "bool option"
  so_ASNURL :: string
  so_ReverseFilters :: bool
  so_DNSTimeout :: duration
  so_AllowAll :: bool
  so_AllowBind :: bool
  so_AllowLocalEgress :: bool
  so_Upstream :: string
  so_UDPIdleTimeout :: duration

text \<open>Presentation fields of a tunnel (description, instructions, portal) are not read by the
  modelled code and left out.\<close>

record tunnelConfig =
  tc_Name :: string
  tc_Target :: string
  tc_VirtualPort :: int
  tc_Protocol :: string
  tc_UDPIdleTimeout :: duration
  tc_LocalPort :: int
  tc_LocalHost :: string
  tc_Allow :: "string list"
  tc_DestinationPolicy :: string
  tc_Socks :: "socksConfig option"

text \<open>\<open>LoadConfig\<close> replaces a native peer's tunnel address by the canonical text of a valid address and
  its key by the canonical key; the address stands for its text.\<close>

record nativePeer =
  np_Name :: string
  np_PublicKey :: string
  np_TunnelIP :: ipAddr
  np_Tunnels :: "string list"
  np_DestinationPolicy :: string

record authorizerConfig =
  az_WebhookURL :: string
  az_Exec :: string

section \<open>Derived predicates\<close>

definition WantsASNUpdates :: "socksConfig \<Rightarrow> bool" where
  "WantsASNUpdates c = (case so_ASNUpdates c of Some b \<Rightarrow> b | None \<Rightarrow> so_ASNFilters c \<noteq> [])"

definition deniesAllByDefault :: "socksConfig \<Rightarrow> bool" where
  "deniesAllByDefault c \<longleftrightarrow> \<not> so_OnlyLocal c \<and> \<not> so_AllowAll c \<and> so_Filters c = [] \<and>
     so_DomainFilters c = [] \<and> so_ASNFilters c = [] \<and> \<not> so_ReverseFilters c"

definition socksTarget :: string where "socksTarget = ''socks''"

definition IsSocks :: "tunnelConfig \<Rightarrow> bool" where
  "IsSocks t \<longleftrightarrow> tc_Target t = socksTarget"

fun find_tunnel :: "tunnelConfig list \<Rightarrow> string \<Rightarrow> tunnelConfig option" where
  "find_tunnel [] name = None"
| "find_tunnel (t # ts) name = (if tc_Name t = name then Some t else find_tunnel ts name)"

section \<open>Grants\<close>

record grantSubject =
  gs_Method :: string
  gs_Fingerprint :: string
  gs_Comment :: string
  gs_Email :: string
  gs_Domain :: string
  gs_Groups :: "string list"

definition matchesAllow :: "grantSubject \<Rightarrow> string \<Rightarrow> bool" where
  "matchesAllow sub entry =
     (if entry = ''*'' then True
      else if gs_Method sub = ''ssh'' then
        entry = gs_Fingerprint sub \<or> (gs_Comment sub \<noteq> [] \<and> entry = gs_Comment sub)
      else if gs_Method sub = ''oidc'' then
        (if entry = gs_Email sub \<or> (gs_Domain sub \<noteq> [] \<and> entry = gs_Domain sub) then True
         else case CutPrefix entry ''group:'' of
           None \<Rightarrow> False
         | Some grp \<Rightarrow> list_ex (\<lambda>g. g = grp) (gs_Groups sub))
      else False)"

definition grants :: "tunnelConfig list \<Rightarrow> grantSubject \<Rightarrow> tunnelConfig list" where
  "grants tunnels sub = filter (\<lambda>t. list_ex (matchesAllow sub) (tc_Allow t)) tunnels"

text \<open>\<open>strings.LastIndex\<close> of the at sign.\<close>

definition emailDomain :: "string \<Rightarrow> string" where
  "emailDomain email = (if CHR ''@'' \<in> set email
     then CHR ''@'' # rev (takeWhile (\<lambda>c. c \<noteq> CHR ''@'') (rev email)) else [])"

section \<open>Capability report\<close>

fun tunnel_capabilities :: "tunnelConfig list \<Rightarrow> string fset \<Rightarrow> string fset" where
  "tunnel_capabilities [] s = s"
| "tunnel_capabilities (t # ts) s = tunnel_capabilities ts (case tc_Socks t of None \<Rightarrow> s
     | Some c \<Rightarrow>
       (if so_AllowLocalEgress c then finsert ''socks_local_egress'' else id)
       ((if so_AllowBind c then finsert ''socks_bind'' else id)
        ((if so_AllowAll c then finsert ''socks_unrestricted'' else id) s)))"

definition securityCapabilities ::
  "authorizerConfig \<Rightarrow> bool \<Rightarrow> bool \<Rightarrow> tunnelConfig list \<Rightarrow> string list" where
  "securityCapabilities az relayEnabled advertiseDirect tunnels =
     sorted_list_of_fset (tunnel_capabilities tunnels
       ((if relayEnabled \<and> advertiseDirect then finsert ''direct_udp_relay_bypass'' else id)
        ((if relayEnabled then finsert ''relay_mediated_udp'' else id)
         ((if az_WebhookURL az \<noteq> [] \<or> az_Exec az \<noteq> [] then finsert ''authorization_hook'' else id) {||}))))"

end
