(* ===== verification/Dest_Policy.thy ===== *)
theory Dest_Policy
  imports Socks_Filter Server_Config
begin

text \<open>
  The server-wide destination authorisation of \<^verbatim>\<open>pkg/server/policy.go\<close>: compilation of a policy,
  its decision, and the composition of a principal's and a tunnel's policy, proved to be a
  conjunction that no configuration lifts the loopback and link-local floor of.
\<close>

section \<open>Destination policies\<close>

record destinationPolicy =
  dp_Filters :: "string list"
  dp_DomainFilters :: "string list"
  dp_ASNFilters :: "32 word list"
  dp_OnlyLocal :: bool
  dp_ReverseFilters :: bool
  dp_AllowAll :: bool
  dp_Protocols :: "string list"
  dp_Ports :: "16 word list"

record compiledPolicy =
  cp_filter :: socksFilter
  cp_protocols :: "string fset"
  cp_ports :: "16 word fset"

datatype policyError = BadFilter string | UnsupportedProtocol string | PortZero

fun compile_protocols :: "unicode \<Rightarrow> string list \<Rightarrow> string fset \<Rightarrow> policyError + string fset" where
  "compile_protocols u [] acc = Inr acc"
| "compile_protocols u (v0 # vs) acc = (let v = ToLower u (TrimSpace u v0) in
     if v \<noteq> ''tcp'' \<and> v \<noteq> ''udp'' then Inl (UnsupportedProtocol v)
     else compile_protocols u vs (finsert v acc))"

fun compile_ports :: "16 word list \<Rightarrow> 16 word fset \<Rightarrow> policyError + 16 word fset" where
  "compile_ports [] acc = Inr acc"
| "compile_ports (v # vs) acc = (if v = 0 then Inl PortZero else compile_ports vs (finsert v acc))"

definition policy_filterConfig :: "destinationPolicy \<Rightarrow> filterConfig" where
  "policy_filterConfig p = \<lparr>cfg_OnlyLocal = dp_OnlyLocal p, cfg_CIDRs = dp_Filters p,
     cfg_DomainSuffixes = dp_DomainFilters p, cfg_ASNs = dp_ASNFilters p,
     cfg_Invert = dp_ReverseFilters p, cfg_AllowAll = dp_AllowAll p, cfg_AllowLocalEgress = False\<rparr>"

definition compilePolicy ::
  "unicode \<Rightarrow> destinationPolicy \<Rightarrow> asnLookup option \<Rightarrow> policyError + compiledPolicy" where
  "compilePolicy u p asn = (case NewFilter (policy_filterConfig p) asn of
       Inl e \<Rightarrow> Inl (BadFilter e)
     | Inr f \<Rightarrow> (case compile_protocols u (dp_Protocols p) {||} of
         Inl e \<Rightarrow> Inl e
       | Inr prs \<Rightarrow> (case compile_ports (dp_Ports p) {||} of
           Inl e \<Rightarrow> Inl e
         | Inr pos \<Rightarrow> Inr \<lparr>cp_filter = f, cp_protocols = prs, cp_ports = pos\<rparr>)))"

record dataPlanePrincipal =
  pr_Method :: string
  pr_Identity :: string
  pr_TunnelIP :: ipAddr
  pr_Tunnels :: "string fset"
  pr_Policy :: string

record destinationContext =
  dc_Principal :: dataPlanePrincipal
  dc_Tunnel :: string
  dc_Hostname :: string
  dc_Protocol :: string
  dc_IP :: ipAddr
  dc_Port :: "16 word"

record destinationDecision =
  dd_Allowed :: bool
  dd_Reason :: string

definition decide :: "unicode \<Rightarrow> compiledPolicy \<Rightarrow> destinationContext \<Rightarrow> destinationDecision" where
  "decide u c ctx =
     (if cp_protocols c \<noteq> {||} \<and> ToLower u (dc_Protocol ctx) |\<notin>| cp_protocols c
      then \<lparr>dd_Allowed = False, dd_Reason = ''protocol denied''\<rparr>
      else if cp_ports c \<noteq> {||} \<and> dc_Port ctx |\<notin>| cp_ports c
      then \<lparr>dd_Allowed = False, dd_Reason = ''port denied''\<rparr>
      else if \<not> Allowed (cp_filter c) (dc_Hostname ctx) (dc_IP ctx)
      then \<lparr>dd_Allowed = False, dd_Reason = ''destination denied''\<rparr>
      else \<lparr>dd_Allowed = True, dd_Reason = ''policy allowed''\<rparr>)"

type_synonym policies = "(string, compiledPolicy) fmap"

fun policy_loop :: "unicode \<Rightarrow> policies \<Rightarrow> destinationContext \<Rightarrow> string list \<Rightarrow> bool" where
  "policy_loop u pols ctx [] = True"
| "policy_loop u pols ctx (name # names) =
     (if name = [] then policy_loop u pols ctx names
      else case fmlookup pols name of
        None \<Rightarrow> False
      | Some p \<Rightarrow> if dd_Allowed (decide u p ctx) then policy_loop u pols ctx names else False)"

definition destinationAllowed ::
  "unicode \<Rightarrow> policies \<Rightarrow> dataPlanePrincipal \<Rightarrow> tunnelConfig \<Rightarrow> string \<Rightarrow> ipAddr \<Rightarrow> 16 word \<Rightarrow> string \<Rightarrow> bool" where
  "destinationAllowed u pols prin tunnel hostname ip port protocol =
     policy_loop u pols
       \<lparr>dc_Principal = prin, dc_Tunnel = tc_Name tunnel, dc_Hostname = hostname, dc_Protocol = protocol,
        dc_IP = ip, dc_Port = port\<rparr>
       [pr_Policy prin, tc_DestinationPolicy tunnel]"

text \<open>The policy table that \<open>New\<close> and \<open>Reload\<close> build: every policy of the configuration that compiles.\<close>

definition compile_policies ::
  "unicode \<Rightarrow> asnLookup option \<Rightarrow> (string, destinationPolicy) fmap \<Rightarrow> policies" where
  "compile_policies u asn src = fmmap projr (gm_filter (\<lambda>_ c. \<not> isl c) (fmmap (\<lambda>p. compilePolicy u p asn) src))"

section \<open>Decisions\<close>

lemma decide_iff:
  "dd_Allowed (decide u c ctx) \<longleftrightarrow>
     (cp_protocols c = {||} \<or> ToLower u (dc_Protocol ctx) |\<in>| cp_protocols c) \<and>
     (cp_ports c = {||} \<or> dc_Port ctx |\<in>| cp_ports c) \<and>
     Allowed (cp_filter c) (dc_Hostname ctx) (dc_IP ctx)"
  by (auto simp: decide_def)

lemma policy_loop_iff:
  "policy_loop u pols ctx names \<longleftrightarrow>
     (\<forall>name \<in> set names. name \<noteq> [] \<longrightarrow> (\<exists>p. fmlookup pols name = Some p \<and> dd_Allowed (decide u p ctx)))"
  by (induction names) (auto split: option.splits)

lemma compile_protocols_Inr:
  "compile_protocols u vs acc = Inr s \<Longrightarrow> s = acc |\<union>| fset_of_list (map (\<lambda>v. ToLower u (TrimSpace u v)) vs)"
  by (induction vs arbitrary: acc) (auto simp: Let_def split: if_splits)

lemma compile_ports_Inr: "compile_ports vs acc = Inr s \<Longrightarrow> s = acc |\<union>| fset_of_list vs"
  by (induction vs arbitrary: acc) (auto split: if_splits)

lemma compilePolicy_Inr:
  assumes "compilePolicy u p asn = Inr c"
  shows "NewFilter (policy_filterConfig p) asn = Inr (cp_filter c)"
    and "cp_protocols c = fset_of_list (map (\<lambda>v. ToLower u (TrimSpace u v)) (dp_Protocols p))"
    and "cp_ports c = fset_of_list (dp_Ports p)"
proof -
  from assms obtain f prs pos where "c = \<lparr>cp_filter = f, cp_protocols = prs, cp_ports = pos\<rparr>"
    "NewFilter (policy_filterConfig p) asn = Inr f" "compile_protocols u (dp_Protocols p) {||} = Inr prs"
    "compile_ports (dp_Ports p) {||} = Inr pos"
    by (auto simp: compilePolicy_def split: sum.splits)
  with compile_protocols_Inr [of u "dp_Protocols p" "{||}" prs] compile_ports_Inr [of "dp_Ports p" "{||}" pos]
  show "NewFilter (policy_filterConfig p) asn = Inr (cp_filter c)"
    "cp_protocols c = fset_of_list (map (\<lambda>v. ToLower u (TrimSpace u v)) (dp_Protocols p))"
    "cp_ports c = fset_of_list (dp_Ports p)"
    by simp_all
qed

text \<open>\<open>policy_permits\<close> is what a policy as written in the configuration permits.\<close>

definition policy_permits ::
  "unicode \<Rightarrow> asnLookup option \<Rightarrow> destinationPolicy \<Rightarrow> string \<Rightarrow> ipAddr \<Rightarrow> 16 word \<Rightarrow> string \<Rightarrow> bool" where
  "policy_permits u asn p hostname ip port protocol \<longleftrightarrow>
     (dp_Protocols p = [] \<or> ToLower u protocol \<in> (\<lambda>v. ToLower u (TrimSpace u v)) ` set (dp_Protocols p)) \<and>
     (dp_Ports p = [] \<or> port \<in> set (dp_Ports p)) \<and>
     egress_spec (policy_filterConfig p) asn hostname ip"

lemma fset_of_list_empty_iff: "fset_of_list xs = {||} \<longleftrightarrow> xs = []"
  by (cases xs) auto

lemma decide_permits:
  assumes "compilePolicy u p asn = Inr c"
  shows "dd_Allowed (decide u c ctx) =
    policy_permits u asn p (dc_Hostname ctx) (dc_IP ctx) (dc_Port ctx) (dc_Protocol ctx)"
  unfolding decide_iff policy_permits_def filter_iff_spec [OF compilePolicy_Inr(1) [OF assms]]
    compilePolicy_Inr(2,3) [OF assms] fset_of_list_empty_iff
  by (auto simp: fset_of_list_elem)

lemma compile_policies_lookup:
  "fmlookup (compile_policies u asn src) name = Some c \<longleftrightarrow>
     (\<exists>p. fmlookup src name = Some p \<and> compilePolicy u p asn = Inr c)"
proof -
  have "\<not> isl x \<and> projr x = c \<longleftrightarrow> x = Inr c" for x :: "policyError + compiledPolicy"
    by (cases x) auto
  then show ?thesis by (auto simp: compile_policies_def split: option.splits)
qed

lemma policy_floor:
  assumes "compilePolicy u p asn = Inr c" and "dd_Allowed (decide u c ctx)"
  shows "\<forall>r \<in> set (floor4 @ floor6). \<not> in_range r (Unmap (dc_IP ctx))"
proof -
  have "Allowed (cp_filter c) (dc_Hostname ctx) (dc_IP ctx)" using assms(2) by (simp add: decide_iff)
  from floor_unreachable [OF compilePolicy_Inr(1) [OF assms(1)] _ this] show ?thesis
    by (simp add: policy_filterConfig_def)
qed

text \<open>C13: destination policies compose restrictively. A destination is allowed exactly when every
  policy named by the principal or the tunnel is one of the configuration that compiles and permits
  its protocol, its port and the address under that host name; an unknown or broken policy denies.
  As soon as one policy is named, the loopback and link-local floor holds for the destination,
  whatever the policies say.\<close>

theorem policy_conjunction:
  "let ok = destinationAllowed u (compile_policies u asn src) prin tunnel hostname ip port protocol;
       names = {pr_Policy prin, tc_DestinationPolicy tunnel} - {[]}
   in (ok \<longleftrightarrow> (\<forall>name \<in> names. \<exists>p c. fmlookup src name = Some p \<and> compilePolicy u p asn = Inr c \<and>
         policy_permits u asn p hostname ip port protocol)) \<and>
      (ok \<and> names \<noteq> {} \<longrightarrow> (\<forall>r \<in> set (floor4 @ floor6). \<not> in_range r (Unmap ip)))"
proof -
  let ?ctx = "\<lparr>dc_Principal = prin, dc_Tunnel = tc_Name tunnel, dc_Hostname = hostname, dc_Protocol = protocol,
     dc_IP = ip, dc_Port = port\<rparr>"
  let ?names = "{pr_Policy prin, tc_DestinationPolicy tunnel} - {[]}"
  have ok: "destinationAllowed u (compile_policies u asn src) prin tunnel hostname ip port protocol \<longleftrightarrow>
      (\<forall>name \<in> ?names. \<exists>p c. fmlookup src name = Some p \<and> compilePolicy u p asn = Inr c \<and> dd_Allowed (decide u c ?ctx))"
    unfolding destinationAllowed_def policy_loop_iff compile_policies_lookup
    by simp blast
  have permits: "(\<exists>p c. fmlookup src name = Some p \<and> compilePolicy u p asn = Inr c \<and> dd_Allowed (decide u c ?ctx)) \<longleftrightarrow>
      (\<exists>p c. fmlookup src name = Some p \<and> compilePolicy u p asn = Inr c \<and> policy_permits u asn p hostname ip port protocol)" for name
    using decide_permits [where ctx = ?ctx] by auto
  have "\<forall>r \<in> set (floor4 @ floor6). \<not> in_range r (Unmap ip)"
    if "compilePolicy u p asn = Inr c" "dd_Allowed (decide u c ?ctx)" for p c
    using policy_floor [OF that] by simp
  then show ?thesis unfolding Let_def ok permits [symmetric] by blast
qed

section \<open>Witness\<close>

definition demo_policy :: destinationPolicy where
  "demo_policy = \<lparr>dp_Filters = [''203.0.113.0/24''], dp_DomainFilters = [], dp_ASNFilters = [], dp_OnlyLocal = False,
     dp_ReverseFilters = False, dp_AllowAll = False, dp_Protocols = ['' TCP''], dp_Ports = [443]\<rparr>"

definition demo_unicode :: unicode where
  "demo_unicode = \<lparr>uni_lower = id, uni_trim = id\<rparr>"

definition demo_tunnel :: tunnelConfig where
  "demo_tunnel = \<lparr>tc_Name = ''web'', tc_Target = ''socks'', tc_VirtualPort = 1080, tc_Protocol = [],
     tc_UDPIdleTimeout = 0, tc_LocalPort = 1080, tc_LocalHost = [], tc_Allow = [''*''],
     tc_DestinationPolicy = ''web'', tc_Socks = None\<rparr>"

definition demo_principal :: dataPlanePrincipal where
  "demo_principal = \<lparr>pr_Method = ''ssh'', pr_Identity = ''k'', pr_TunnelIP = IP4 0x64400002,
     pr_Tunnels = {|''web''|}, pr_Policy = []\<rparr>"

lemma demo_policy_allows:
  "destinationAllowed demo_unicode (compile_policies demo_unicode None (fmupd ''web'' demo_policy fmempty))
     demo_principal demo_tunnel [] (IP4 0xcb007105) 443 ''tcp''"
proof -
  have protocols: "ToLower demo_unicode (TrimSpace demo_unicode '' TCP'') = ''tcp''"
    and lower: "ToLower demo_unicode ''tcp'' = ''tcp''" by code_simp+
  obtain c where c: "compilePolicy demo_unicode demo_policy None = Inr c" and f: "cp_protocols c = {|''tcp''|}"
      "cp_ports c = {|443|}" "f_cidrs (cp_filter c) = [Prefix4 0xcb007100 24]" "f_hasFilters (cp_filter c)"
      "\<not> f_onlyLocal (cp_filter c)" "f_domains (cp_filter c) = []" "\<not> f_invert (cp_filter c)" "f_asns (cp_filter c) = {||}"
    by (simp add: compilePolicy_def demo_policy_def policy_filterConfig_def NewFilter_def demo_parse protocols Let_def)
  have look: "fmlookup (compile_policies demo_unicode None (fmupd ''web'' demo_policy fmempty)) ''web'' = Some c"
    by (simp add: compile_policies_lookup c)
  have "Allowed (cp_filter c) [] (IP4 0xcb007105)"
    by (simp add: Allowed_def f matchesAnyCIDR_def addr_IsValid_def Unmap_def deniedByDefault_def IsUnspecified_def)
  then show ?thesis
    by (simp add: destinationAllowed_def look decide_iff f demo_tunnel_def demo_principal_def lower)
qed

theorem policy_conjunction_witness:
  "(\<exists>p c. fmlookup (fmupd ''web'' demo_policy fmempty) ''web'' = Some p \<and> compilePolicy demo_unicode p None = Inr c \<and>
      policy_permits demo_unicode None p [] (IP4 0xcb007105) 443 ''tcp'') \<and>
   set (floor4 @ floor6) \<subseteq> {r. \<not> in_range r (Unmap (IP4 0xcb007105))}"
proof -
  have "''web'' \<in> {pr_Policy demo_principal, tc_DestinationPolicy demo_tunnel} - {[]}" by (simp add: demo_tunnel_def)
  with policy_conjunction [of demo_unicode None "fmupd ''web'' demo_policy fmempty" demo_principal demo_tunnel
      "[]" "IP4 0xcb007105" 443 "''tcp''"] demo_policy_allows
  show ?thesis unfolding Let_def by blast
qed

end
