(* ===== verification/Server_Control.thy ===== *)
theory Server_Control
  imports Sessions Ip_Alloc Dest_Policy Authlimit
begin

text \<open>
  The control plane of \<^verbatim>\<open>ntwire-server\<close>: authentication, session establishment, renewal,
  disconnection, revocation, expiry and configuration reload (\<^verbatim>\<open>pkg/server/server.go\<close>,
  \<^verbatim>\<open>pkg/server/authorizer.go\<close>, \<^verbatim>\<open>pkg/server/metrics.go\<close>, \<^verbatim>\<open>pkg/server/dataplane.go\<close>). Every operation runs
  under \<open>operationMu\<close> and is one step. Cryptography, the key directory, the OIDC verifier, the
  authorisation hook, the clock, random tokens and the WireGuard device's answers are arguments;
  the order of a map iteration is a function of the call site and the map.
\<close>

section \<open>State\<close>

record serverConfig =
  cf_Tunnels :: "tunnelConfig list"
  cf_SessionTTL :: duration
  cf_MaxSessionsPerKey :: int
  cf_Authorizer :: authorizerConfig
  cf_NativeEnabled :: bool
  cf_Natives :: "nativePeer list"
  cf_Issuers :: "string list" \<comment> \<open>names of the OIDC issuers\<close>
  cf_TunnelCIDR :: ipPrefix

text \<open>What dropping a session releases, in order: the relay's UDP sessions, the tunnel statistics,
  the WireGuard peer, the multipath peer and the WebSocket carrier of its key.\<close>

datatype releaseAction = ReleaseUDP string | DeleteStats ipAddr string | RemovePeer string
  | RemoveMultipath string | CloseCarrier string

text \<open>\<open>st_peers\<close> is what the WireGuard device was configured with: the allowed address of every
  installed peer, by canonical key.\<close>

record serverState =
  st_config :: serverConfig
  st_sessions :: sessions
  st_peers :: "(string, ipAddr) fmap"
  st_nextIP :: ipAddr
  st_data :: bool
  st_multipath :: bool \<comment> \<open>the data plane has a multipath bind\<close>
  st_udpr :: bool \<comment> \<open>the relay's UDP session manager is running\<close>
  st_nonces :: nonceCache
  st_rates :: sourceLimiter
  st_released :: "releaseAction list"

definition server_ip :: "serverState \<Rightarrow> ipAddr" where
  "server_ip st = addr_Next (prefix_Addr (prefix_Masked (cf_TunnelCIDR (st_config st))))"

section \<open>Authorisation hook\<close>

text \<open>The value of \<open>allowed_tunnels\<close> in the hook's answer: the star, a list (of which only strings
  count), or anything else.\<close>

datatype allowedTunnels = AllowedStar | AllowedList "string option list" | AllowedOther

record authorizationResult =
  azr_Allow :: bool
  azr_AllowedTunnels :: allowedTunnels
  azr_TTLSeconds :: int

definition Authorize :: "authorizerConfig \<Rightarrow> authorizationResult option \<Rightarrow> authorizationResult option" where
  "Authorize c hook = (if az_WebhookURL c = [] \<and> az_Exec c = []
     then Some \<lparr>azr_Allow = True, azr_AllowedTunnels = AllowedStar, azr_TTLSeconds = 0\<rparr>
     else hook)"

text \<open>A duration is 64 bits; the product of the hook's seconds wraps.\<close>

definition seconds64 :: "int \<Rightarrow> duration" where
  "seconds64 n = sint (of_int (n * second) :: 64 word)"

definition authorize ::
  "serverConfig \<Rightarrow> authorizationResult option \<Rightarrow> tunnelConfig list \<Rightarrow> (tunnelConfig list \<times> duration) option" where
  "authorize cf hook grs = (case Authorize (cf_Authorizer cf) hook of
       None \<Rightarrow> None
     | Some r \<Rightarrow>
         if \<not> azr_Allow r then None
         else let gs = (case azr_AllowedTunnels r of
                  AllowedStar \<Rightarrow> grs
                | AllowedList xs \<Rightarrow> filter (\<lambda>g. Some (tc_Name g) \<in> set xs) grs
                | AllowedOther \<Rightarrow> []);
              ttl = (if 0 < azr_TTLSeconds r \<and> seconds64 (azr_TTLSeconds r) < cf_SessionTTL cf
                  then seconds64 (azr_TTLSeconds r) else cf_SessionTTL cf)
           in Some (gs, ttl))"

section \<open>Dropping and reaping\<close>

definition dropSession :: "session \<Rightarrow> serverState \<Rightarrow> serverState" where
  "dropSession v st =
     (let key = se_WireGuardPublicKey v;
          acts = (if st_udpr st \<and> key \<noteq> [] then [ReleaseUDP key] else []) @
            map (\<lambda>t. DeleteStats (se_TunnelIP v) (pt_Name t)) (se_Tunnels v) @
            (if st_data st \<and> key \<noteq> [] then [RemovePeer key] else []) @
            (if st_data st \<and> st_multipath st \<and> key \<noteq> [] then [RemoveMultipath key] else []) @
            (if st_data st \<and> key \<noteq> [] then [CloseCarrier key] else [])
      in st\<lparr>st_peers := (if st_data st \<and> key \<noteq> [] then fmdrop (canonical_or key) (st_peers st) else st_peers st),
            st_released := st_released st @ acts\<rparr>)"

definition reapSessionsLocked :: "gotime \<Rightarrow> string list \<Rightarrow> serverState \<Rightarrow> serverState" where
  "reapSessionsLocked now ks st =
     (let (dead, s) = Reap now ks (st_sessions st) in fold dropSession dead (st\<lparr>st_sessions := s\<rparr>))"

text \<open>\<open>addPeer\<close>: an address without text is an error; \<open>ipc\<close> is the answer of the device. The peer's
  key is the decoded one, for which the canonical form stands.\<close>

definition addPeer :: "(string \<Rightarrow> ipAddr \<Rightarrow> bool) \<Rightarrow> string \<Rightarrow> ipAddr \<Rightarrow> serverState \<Rightarrow> bool \<times> serverState" where
  "addPeer ipc key ip st =
     (if \<not> st_data st then (True, st)
      else if \<not> addr_IsValid ip then (False, st)
      else case CanonicalPublicKey key of
        None \<Rightarrow> (False, st)
      | Some c \<Rightarrow> if ipc key ip then (True, st\<lparr>st_peers := fmupd c ip (st_peers st)\<rparr>) else (False, st))"

section \<open>Establishing a session\<close>

datatype controlError = ErrRateLimited | ErrInvalidRequest | ErrVersion | ErrUnsupportedCapability
  | ErrClockSkew | ErrUnknownKey | ErrBadSignature | ErrReplayedNonce | ErrOIDCNotConfigured
  | ErrOIDCInvalidToken | ErrMaxSessions | ErrNotAllowed | ErrKeyRequired | ErrInvalidWireGuardKey
  | ErrNativePeerKey | ErrOtherPrincipal | ErrNoCapacity | ErrInvalidSession

datatype controlResponse = Refused controlError | Queried "ptunnel list" | Established session | Done

record sessionRequest =
  rq_Method :: string
  rq_Identity :: string
  rq_Fingerprint :: string
  rq_Comment :: string
  rq_Issuer :: string
  rq_Groups :: "string list"
  rq_WireGuardPublicKey :: string
  rq_Info :: clientInfo
  rq_LatencyMillis :: "64 word"
  rq_Reconnections :: "64 word"
  rq_TransportCapabilities :: "string list"
  rq_QueryOnly :: bool

text \<open>The surroundings of one operation: the clock at each reading in the order of the code, the
  iteration order at each loop, the two random tokens, the device's and the hook's answers, the
  transport capabilities the live data plane offers when they are required and later when they are negotiated, and \<open>strings.TrimSpace\<close>.\<close>

record controlEnv =
  ev_clock :: "nat \<Rightarrow> gotime"
  ev_order :: "nat \<Rightarrow> sessions \<Rightarrow> string list"
  ev_id :: string
  ev_token :: string
  ev_ipc :: "string \<Rightarrow> ipAddr \<Rightarrow> bool"
  ev_hook :: "authorizationResult option"
  ev_transport :: "string list"
  ev_negotiable :: "string list"
  ev_unicode :: unicode

definition to_ptunnel :: "tunnelConfig \<Rightarrow> ptunnel" where
  "to_ptunnel t = \<lparr>pt_Name = tc_Name t, pt_VirtualPort = tc_VirtualPort t, pt_Protocol = tc_Protocol t,
     pt_UDPIdleTimeout = tc_UDPIdleTimeout t, pt_LocalPort = tc_LocalPort t, pt_LocalHost = tc_LocalHost t,
     pt_TargetHint = tc_Target t\<rparr>"

text \<open>The last part: capability negotiation and creation of the session.\<close>

definition finish_session ::
  "controlEnv \<Rightarrow> sessionRequest \<Rightarrow> string \<Rightarrow> ipAddr \<Rightarrow> ptunnel list \<Rightarrow> duration \<Rightarrow> serverState \<Rightarrow>
   controlResponse \<times> serverState" where
  "finish_session ev req key ip v ttl st =
     (let negotiated = IntersectCapabilities (TrimSpace (ev_unicode ev)) (rq_TransportCapabilities req) (ev_negotiable ev);
          multipath = HasCapability negotiated CapabilityMultipathV3;
          pathMTU = (multipath \<and> HasCapability negotiated CapabilityPathMTUV1);
          (n, s) = ses_Create (ev_id ev) (ev_token ev) (ev_clock ev 4)
            \<lparr>cp_Method = rq_Method req, cp_Identity = rq_Identity req, cp_Fingerprint = rq_Fingerprint req,
             cp_Issuer = rq_Issuer req, cp_Groups = rq_Groups req, cp_WireGuardPublicKey = key,
             cp_TunnelIP = ip, cp_Tunnels = v, cp_LatencyMillis = rq_LatencyMillis req,
             cp_Reconnections = rq_Reconnections req, cp_Multipath = multipath, cp_PathMTU = pathMTU,
             cp_ClientInfo = rq_Info req, cp_TTL = ttl\<rparr> (st_sessions st)
      in (Established n, st\<lparr>st_sessions := s\<rparr>))"

definition join_peer ::
  "controlEnv \<Rightarrow> sessionRequest \<Rightarrow> string \<Rightarrow> ipAddr \<Rightarrow> ptunnel list \<Rightarrow> duration \<Rightarrow> serverState \<Rightarrow>
   controlResponse \<times> serverState" where
  "join_peer ev req key ip v ttl st =
     (let (ok, st') = addPeer (ev_ipc ev) key ip st in
      if \<not> ok then (Refused ErrInvalidWireGuardKey, st') else finish_session ev req key ip v ttl st')"

definition native_key :: "serverConfig \<Rightarrow> string \<Rightarrow> bool" where
  "native_key cf c \<longleftrightarrow> list_ex (\<lambda>p. CanonicalPublicKey (np_PublicKey p) = Some c) (cf_Natives cf)"

definition session_ips :: "string list \<Rightarrow> serverState \<Rightarrow> ipAddr list" where
  "session_ips ks st = map se_TunnelIP (ses_All ks (st_sessions st))"

text \<open>The part that binds the key to an address: a live session of the key is taken over by its own
  principal and keeps its address, else an address is allocated.\<close>

definition bind_key ::
  "controlEnv \<Rightarrow> sessionRequest \<Rightarrow> ptunnel list \<Rightarrow> duration \<Rightarrow> serverState \<Rightarrow> controlResponse \<times> serverState" where
  "bind_key ev req v ttl st1 =
     (if rq_WireGuardPublicKey req = [] then (Refused ErrKeyRequired, st1)
      else case CanonicalPublicKey (rq_WireGuardPublicKey req) of
        None \<Rightarrow> (Refused ErrInvalidWireGuardKey, st1)
      | Some canonical \<Rightarrow>
          if cf_NativeEnabled (st_config st1) \<and> native_key (st_config st1) canonical then (Refused ErrNativePeerKey, st1)
          else case FindWireGuardPublicKey (ev_clock ev 2) (ev_order ev 1 (st_sessions st1)) canonical (st_sessions st1) of
            Some old \<Rightarrow>
              if se_Method old \<noteq> rq_Method req \<or> se_Identity old \<noteq> rq_Identity req \<or> se_Issuer old \<noteq> rq_Issuer req
              then (Refused ErrOtherPrincipal, st1)
              else join_peer ev req canonical (se_TunnelIP old) v ttl
                     (st1\<lparr>st_sessions := ses_Delete (se_Token old) (st_sessions st1)\<rparr>)
          | None \<Rightarrow>
              let st2 = reapSessionsLocked (ev_clock ev 3) (ev_order ev 2 (st_sessions st1)) st1;
                  (r, nxt) = allocateIP (cf_TunnelCIDR (st_config st2)) (server_ip st2)
                    (map np_TunnelIP (cf_Natives (st_config st2)))
                    (session_ips (ev_order ev 3 (st_sessions st2)) st2) (st_nextIP st2);
                  st3 = st2\<lparr>st_nextIP := nxt\<rparr>
              in (case r of None \<Rightarrow> (Refused ErrNoCapacity, st3)
                  | Some ip \<Rightarrow> join_peer ev req canonical ip v ttl st3))"

definition establishSession ::
  "controlEnv \<Rightarrow> sessionRequest \<Rightarrow> tunnelConfig list \<Rightarrow> serverState \<Rightarrow> controlResponse \<times> serverState" where
  "establishSession ev req grs st =
     (let cf = st_config st in
      if \<not> rq_QueryOnly req \<and> 0 < cf_MaxSessionsPerKey cf \<and>
         cf_MaxSessionsPerKey cf \<le> int (CountIdentity (ev_clock ev 0) (rq_Method req) (rq_Identity req) (st_sessions st))
      then (Refused ErrMaxSessions, st)
      else case authorize cf (ev_hook ev) grs of
        None \<Rightarrow> (Refused ErrNotAllowed, st)
      | Some (gs, ttl) \<Rightarrow>
          let v = map to_ptunnel gs in
          if rq_QueryOnly req then (Queried v, st)
          else let st1 = reapSessionsLocked (ev_clock ev 1) (ev_order ev 0 (st_sessions st)) st in
            if \<not> st_data st1 then finish_session ev req (rq_WireGuardPublicKey req) IPInvalid v ttl st1
            else bind_key ev req v ttl st1)"

section \<open>Authentication\<close>

text \<open>The unsigned fields of an authentication request.\<close>

record signedAuth = authRequest +
  ar_Signature :: string
  ar_LatencyMillis :: "64 word"
  ar_Reconnections :: "64 word"
  ar_TransportCapabilities :: "string list"
  ar_RequiredTransportCapabilities :: "string list"
  ar_QueryOnly :: bool

text \<open>\<open>auth\<close>: \<open>host\<close> is the source of the request, \<open>body\<close> the decoded body, \<open>entry\<close> the scan of the
  key directory for a key, \<open>clk\<close> the readings of the clock in the order of the checks, \<open>nks\<close> and \<open>rks\<close>
  the orders of the caches' sweeps.\<close>

definition auth ::
  "'key crypto \<Rightarrow> ('key \<Rightarrow> string option) \<Rightarrow> (nat \<Rightarrow> gotime) \<Rightarrow> string list \<Rightarrow> string list \<Rightarrow> string \<Rightarrow> signedAuth option \<Rightarrow>
   controlEnv \<Rightarrow> serverState \<Rightarrow> controlResponse \<times> serverState" where
  "auth cr entry clk rks nks host body ev st0 =
     (let (ok, rates) = source_Allow (clk 0) rks host (st_rates st0); st = st0\<lparr>st_rates := rates\<rparr> in
      if \<not> ok then (Refused ErrRateLimited, st)
      else case body of None \<Rightarrow> (Refused ErrInvalidRequest, st)
      | Some a \<Rightarrow>
        if ar_Version a \<noteq> Version then (Refused ErrVersion, st)
        else if ValidateRequiredCapabilities (ev_transport ev) (ar_RequiredTransportCapabilities a) \<noteq> None
        then (Refused ErrUnsupportedCapability, st)
        else case cr_ParseTimestamp cr (ar_Timestamp a) of
          None \<Rightarrow> (Refused ErrClockSkew, st)
        | Some at \<Rightarrow>
          if clk 1 - at > 2 * minute \<or> at - clk 2 > 2 * minute then (Refused ErrClockSkew, st)
          else case cr_ParsePublic cr (ar_PublicKey a) of
            None \<Rightarrow> (Refused ErrUnknownKey, st)
          | Some key \<Rightarrow>
            (case entry key of
               None \<Rightarrow> (Refused ErrUnknownKey, st)
             | Some comment \<Rightarrow>
               (case SigningPayload (authRequest.truncate a) of
                  Inl _ \<Rightarrow> (Refused ErrBadSignature, st)
                | Inr payload \<Rightarrow>
                  if \<not> cr_Verify cr key payload (ar_Signature a) then (Refused ErrBadSignature, st)
                  else let (fresh, nonces) = nonce_Use (clk 3) nks (ar_Nonce a) (st_nonces st);
                           st' = st\<lparr>st_nonces := nonces\<rparr> in
                    if \<not> fresh then (Refused ErrReplayedNonce, st')
                    else let fp = cr_Fingerprint cr key in
                      establishSession ev
                        \<lparr>rq_Method = ''ssh'', rq_Identity = fp, rq_Fingerprint = fp, rq_Comment = comment,
                         rq_Issuer = [], rq_Groups = [], rq_WireGuardPublicKey = ar_WireGuardPublicKey a,
                         rq_Info = ar_Info a, rq_LatencyMillis = ar_LatencyMillis a,
                         rq_Reconnections = ar_Reconnections a,
                         rq_TransportCapabilities = ar_TransportCapabilities a, rq_QueryOnly = ar_QueryOnly a\<rparr>
                        (grants (cf_Tunnels (st_config st'))
                          \<lparr>gs_Method = ''ssh'', gs_Fingerprint = fp, gs_Comment = comment, gs_Email = [],
                           gs_Domain = [], gs_Groups = []\<rparr>) st')))"

text \<open>The verified identity of an ID token.\<close>

record oidcIdentity =
  oi_Email :: string
  oi_Domain :: string
  oi_Groups :: "string list"
  oi_IssuerName :: string

record oidcAuthRequest =
  oa_Version :: int
  oa_IssuerName :: string
  oa_IDToken :: string
  oa_WireGuardPublicKey :: string
  oa_Timestamp :: string
  oa_Info :: clientInfo
  oa_LatencyMillis :: "64 word"
  oa_Reconnections :: "64 word"
  oa_TransportCapabilities :: "string list"
  oa_RequiredTransportCapabilities :: "string list"
  oa_QueryOnly :: bool

text \<open>\<open>authOIDC\<close>: \<open>verify\<close> is the configured verifiers, \<open>None\<close> when there are none.\<close>

definition authOIDC ::
  "(string \<Rightarrow> gotime option) \<Rightarrow> (string \<Rightarrow> string \<Rightarrow> oidcIdentity option) option \<Rightarrow> (nat \<Rightarrow> gotime) \<Rightarrow> string list \<Rightarrow>
   string \<Rightarrow> oidcAuthRequest option \<Rightarrow> controlEnv \<Rightarrow> serverState \<Rightarrow> controlResponse \<times> serverState" where
  "authOIDC parseTimestamp verifiers clk rks host body ev st0 =
     (let (ok, rates) = source_Allow (clk 0) rks host (st_rates st0); st = st0\<lparr>st_rates := rates\<rparr> in
      if \<not> ok then (Refused ErrRateLimited, st)
      else case body of None \<Rightarrow> (Refused ErrInvalidRequest, st)
      | Some a \<Rightarrow>
        if oa_Version a \<noteq> Version then (Refused ErrVersion, st)
        else if ValidateRequiredCapabilities (ev_transport ev) (oa_RequiredTransportCapabilities a) \<noteq> None
        then (Refused ErrUnsupportedCapability, st)
        else case parseTimestamp (oa_Timestamp a) of
          None \<Rightarrow> (Refused ErrClockSkew, st)
        | Some at \<Rightarrow>
          if clk 1 - at > 2 * minute \<or> at - clk 2 > 2 * minute then (Refused ErrClockSkew, st)
          else case verifiers of None \<Rightarrow> (Refused ErrOIDCNotConfigured, st)
          | Some verify \<Rightarrow>
            (case verify (oa_IssuerName a) (oa_IDToken a) of
               None \<Rightarrow> (Refused ErrOIDCInvalidToken, st)
             | Some ident \<Rightarrow>
               establishSession ev
                 \<lparr>rq_Method = ''oidc'', rq_Identity = oi_Email ident, rq_Fingerprint = [], rq_Comment = [],
                  rq_Issuer = oi_IssuerName ident, rq_Groups = oi_Groups ident,
                  rq_WireGuardPublicKey = oa_WireGuardPublicKey a, rq_Info = oa_Info a,
                  rq_LatencyMillis = oa_LatencyMillis a, rq_Reconnections = oa_Reconnections a,
                  rq_TransportCapabilities = oa_TransportCapabilities a, rq_QueryOnly = oa_QueryOnly a\<rparr>
                 (grants (cf_Tunnels (st_config st))
                   \<lparr>gs_Method = ''oidc'', gs_Fingerprint = [], gs_Comment = [], gs_Email = oi_Email ident,
                    gs_Domain = oi_Domain ident, gs_Groups = oi_Groups ident\<rparr>) st))"

section \<open>Renewal, disconnection, revocation and expiry\<close>

text \<open>The grants a renewal starts from: every configured tunnel of a name the session has.\<close>

definition renew_grants :: "tunnelConfig list \<Rightarrow> ptunnel list \<Rightarrow> tunnelConfig list" where
  "renew_grants tunnels olds = concat (map (\<lambda>p. filter (\<lambda>c. tc_Name c = pt_Name p) tunnels) olds)"

text \<open>\<open>renew\<close> with the bearer token \<open>t\<close>, the decoded body's client information, and the clock at
  the second lookup; the first one only refuses earlier.\<close>

definition renew ::
  "gotime \<Rightarrow> string \<Rightarrow> (clientInfo \<times> 64 word \<times> 64 word) option \<Rightarrow> controlEnv \<Rightarrow> serverState \<Rightarrow> controlResponse \<times> serverState" where
  "renew now t body ev st =
     (if ses_Get (ev_clock ev 0) t (st_sessions st) = None then (Refused ErrInvalidSession, st)
      else case body of None \<Rightarrow> (Refused ErrInvalidRequest, st)
      | Some (info, latency, reconnections) \<Rightarrow>
        (case ses_Get now t (st_sessions st) of
           None \<Rightarrow> (Refused ErrInvalidSession, st)
         | Some old \<Rightarrow>
           let cf = st_config st in
           (case authorize cf (ev_hook ev) (renew_grants (cf_Tunnels cf) (se_Tunnels old)) of
              None \<Rightarrow> (Refused ErrNotAllowed, dropSession old (st\<lparr>st_sessions := ses_Delete t (st_sessions st)\<rparr>))
            | Some (gs, ttl) \<Rightarrow>
              let (n, s) = ses_Create (ev_id ev) (ev_token ev) (ev_clock ev 4)
                    \<lparr>cp_Method = se_Method old, cp_Identity = se_Identity old, cp_Fingerprint = se_Fingerprint old,
                     cp_Issuer = se_Issuer old, cp_Groups = se_Groups old,
                     cp_WireGuardPublicKey = se_WireGuardPublicKey old, cp_TunnelIP = se_TunnelIP old,
                     cp_Tunnels = map to_ptunnel gs, cp_LatencyMillis = latency, cp_Reconnections = reconnections,
                     cp_Multipath = se_Multipath old, cp_PathMTU = se_PathMTU old, cp_ClientInfo = info,
                     cp_TTL = ttl\<rparr> (ses_Delete t (st_sessions st));
                  st' = st\<lparr>st_sessions := s\<rparr>
              in (Established n, if se_WireGuardPublicKey old \<noteq> []
                   then snd (addPeer (ev_ipc ev) (se_WireGuardPublicKey old) (se_TunnelIP old) st') else st'))))"

definition disconnect :: "gotime \<Rightarrow> string \<Rightarrow> serverState \<Rightarrow> controlResponse \<times> serverState" where
  "disconnect now t st = (case ses_Get now t (st_sessions st) of
       None \<Rightarrow> (Refused ErrInvalidSession, st)
     | Some old \<Rightarrow> (Done, dropSession old (st\<lparr>st_sessions := ses_Delete t (st_sessions st)\<rparr>)))"

text \<open>\<open>revokeSession\<close>, after its token check.\<close>

definition revokeSession :: "gotime \<Rightarrow> string list \<Rightarrow> string \<Rightarrow> serverState \<Rightarrow> controlResponse \<times> serverState" where
  "revokeSession now ks i st = (let (r, s) = DeleteByID now ks i (st_sessions st) in
     case r of None \<Rightarrow> (Refused ErrInvalidSession, st)
     | Some old \<Rightarrow> (Done, dropSession old (st\<lparr>st_sessions := s\<rparr>)))"

section \<open>Reload\<close>

text \<open>Deleting and dropping one session of the store.\<close>

definition retire :: "session \<Rightarrow> serverState \<Rightarrow> serverState" where
  "retire v st = dropSession v (st\<lparr>st_sessions := ses_Delete (se_Token v) (st_sessions st)\<rparr>)"

text \<open>A session conflicts with a native peer when it has its key or its address.\<close>

definition native_conflict :: "nativePeer \<Rightarrow> session \<Rightarrow> bool" where
  "native_conflict p v \<longleftrightarrow>
     (CanonicalPublicKey (np_PublicKey p) \<noteq> None \<and>
        CanonicalPublicKey (np_PublicKey p) = CanonicalPublicKey (se_WireGuardPublicKey v)) \<or>
     (addr_IsValid (np_TunnelIP p) \<and> Unmap (np_TunnelIP p) = Unmap (se_TunnelIP v))"

definition reconcileNativePeers ::
  "(string \<Rightarrow> ipAddr \<Rightarrow> bool) \<Rightarrow> nativePeer list \<Rightarrow> nativePeer list \<Rightarrow> serverState \<Rightarrow> serverState" where
  "reconcileNativePeers ipc old next st =
     (if \<not> st_data st then st
      else let st1 = fold (\<lambda>p st. st\<lparr>st_peers := fmdrop (canonical_or (np_PublicKey p)) (st_peers st)\<rparr>) old st
      in fold (\<lambda>p st. snd (addPeer ipc (np_PublicKey p) (np_TunnelIP p) st)) next st1)"

text \<open>The names a session's principal is granted now; \<open>None\<close> when the issuer or the key is gone.
  \<open>fpEntry\<close> is the scan of the key directory for a fingerprint.\<close>

definition regrant :: "(string \<Rightarrow> string option) \<Rightarrow> serverConfig \<Rightarrow> session \<Rightarrow> string set option" where
  "regrant fpEntry cf v =
     (if se_Method v = ''oidc'' then
        (if se_Issuer v \<notin> set (cf_Issuers cf) then None
         else Some (tc_Name ` set (grants (cf_Tunnels cf)
           \<lparr>gs_Method = ''oidc'', gs_Fingerprint = [], gs_Comment = [], gs_Email = se_Identity v,
            gs_Domain = emailDomain (se_Identity v), gs_Groups = se_Groups v\<rparr>)))
      else (case fpEntry (se_Fingerprint v) of None \<Rightarrow> None
        | Some comment \<Rightarrow> Some (tc_Name ` set (grants (cf_Tunnels cf)
            \<lparr>gs_Method = ''ssh'', gs_Fingerprint = se_Fingerprint v, gs_Comment = comment, gs_Email = [],
             gs_Domain = [], gs_Groups = []\<rparr>))))"

text \<open>One round of the last loop: a session whose principal is gone or that lost a tunnel goes.\<close>

definition reconcile_session :: "(string \<Rightarrow> string option) \<Rightarrow> session \<Rightarrow> serverState \<Rightarrow> serverState" where
  "reconcile_session fpEntry v st = (case regrant fpEntry (st_config st) v of
       None \<Rightarrow> retire v st
     | Some allowed \<Rightarrow>
         if length (filter (\<lambda>t. pt_Name t \<in> allowed) (se_Tunnels v)) \<noteq> length (se_Tunnels v) then retire v st else st)"

text \<open>\<open>Reload\<close> of the parts the control plane keeps. The tunnel prefix is not reloaded.\<close>

definition Reload ::
  "(string \<Rightarrow> string option) \<Rightarrow> (nat \<Rightarrow> sessions \<Rightarrow> string list) \<Rightarrow> (string \<Rightarrow> ipAddr \<Rightarrow> bool) \<Rightarrow> serverConfig \<Rightarrow>
   serverState \<Rightarrow> serverState" where
  "Reload fpEntry order ipc c0 st =
     (let old = st_config st;
          c = c0\<lparr>cf_TunnelCIDR := cf_TunnelCIDR old\<rparr>;
          st1 = st\<lparr>st_config := c\<rparr>;
          st2 = (if cf_NativeEnabled c then
              fold (\<lambda>v st. if list_ex (\<lambda>p. native_conflict p v) (cf_Natives c) then retire v st else st)
                (ses_All (order 0 (st_sessions st1)) (st_sessions st1)) st1
            else st1);
          st3 = (if cf_NativeEnabled old \<noteq> cf_NativeEnabled c \<or> cf_Natives old \<noteq> cf_Natives c then
              reconcileNativePeers ipc (if cf_NativeEnabled old then cf_Natives old else [])
                (if cf_NativeEnabled c then cf_Natives c else []) st2
            else st2)
      in fold (reconcile_session fpEntry) (ses_All (order 1 (st_sessions st3)) (st_sessions st3)) st3)"

section \<open>Attribution of traffic\<close>

definition session_principal :: "session \<Rightarrow> dataPlanePrincipal" where
  "session_principal v = \<lparr>pr_Method = se_Method v, pr_Identity = se_Identity v, pr_TunnelIP = se_TunnelIP v,
     pr_Tunnels = fset_of_list (map pt_Name (se_Tunnels v)), pr_Policy = []\<rparr>"

definition native_principal :: "nativePeer \<Rightarrow> dataPlanePrincipal" where
  "native_principal p = \<lparr>pr_Method = ''native-wireguard'', pr_Identity = np_Name p, pr_TunnelIP = np_TunnelIP p,
     pr_Tunnels = fset_of_list (np_Tunnels p), pr_Policy = np_DestinationPolicy p\<rparr>"

text \<open>\<open>principalForIP\<close>, for the address the source of a packet denotes.\<close>

definition principalForIP :: "gotime \<Rightarrow> string list \<Rightarrow> ipAddr \<Rightarrow> serverState \<Rightarrow> dataPlanePrincipal option" where
  "principalForIP now ks ip st =
     (case find (\<lambda>v. now < se_Expires v \<and> se_TunnelIP v = ip) (ses_All ks (st_sessions st)) of
        Some v \<Rightarrow> Some (session_principal v)
      | None \<Rightarrow> (case find (\<lambda>p. np_TunnelIP p = ip) (cf_Natives (st_config st)) of
          Some p \<Rightarrow> Some (native_principal p)
        | None \<Rightarrow> None))"

definition allowedIP :: "gotime \<Rightarrow> string list \<Rightarrow> ipAddr \<Rightarrow> string \<Rightarrow> serverState \<Rightarrow> bool" where
  "allowedIP now ks ip tunnel st = (case principalForIP now ks ip st of None \<Rightarrow> False
     | Some p \<Rightarrow> tunnel |\<in>| pr_Tunnels p)"

section \<open>Invariant\<close>

text \<open>What \<open>LoadConfig\<close> ensures of the native peers, and that the tunnel prefix holds no 4-in-6
  address (it refuses a prefix that starts with one).\<close>

definition prefix_plain :: "ipPrefix \<Rightarrow> bool" where
  "prefix_plain p \<longleftrightarrow> (\<forall>a. prefix_Contains p a \<longrightarrow> Unmap a = a)"

definition config_ok :: "serverConfig \<Rightarrow> bool" where
  "config_ok cf \<longleftrightarrow>
     prefix_plain (prefix_Masked (cf_TunnelCIDR cf)) \<and> (\<not> cf_NativeEnabled cf \<longrightarrow> cf_Natives cf = []) \<and>
     (\<forall>p \<in> set (cf_Natives cf). CanonicalPublicKey (np_PublicKey p) = Some (np_PublicKey p) \<and>
        prefix_Contains (prefix_Masked (cf_TunnelCIDR cf)) (np_TunnelIP p)) \<and>
     distinct (map np_TunnelIP (cf_Natives cf)) \<and> distinct (map np_PublicKey (cf_Natives cf))"

definition taken :: "serverConfig \<Rightarrow> ipAddr list \<Rightarrow> ipAddr set" where
  "taken cf addrs = (let p = prefix_Masked (cf_TunnelCIDR cf) in
     occupied p (addr_Next (prefix_Addr p)) (map np_TunnelIP (cf_Natives cf) @ addrs))"

text \<open>A stored session has a canonical key that is no native peer's, an address of the prefix that
  is neither reserved nor a native peer's, and its peer is installed with that address.\<close>

definition session_ok :: "serverState \<Rightarrow> session \<Rightarrow> bool" where
  "session_ok st v \<longleftrightarrow>
     CanonicalPublicKey (se_WireGuardPublicKey v) = Some (se_WireGuardPublicKey v) \<and>
     prefix_Contains (prefix_Masked (cf_TunnelCIDR (st_config st))) (se_TunnelIP v) \<and>
     se_TunnelIP v \<notin> taken (st_config st) [] \<and> \<not> native_key (st_config st) (se_WireGuardPublicKey v) \<and>
     fmlookup (st_peers st) (se_WireGuardPublicKey v) = Some (se_TunnelIP v)"

definition control_inv :: "serverState \<Rightarrow> bool" where
  "control_inv st \<longleftrightarrow> st_data st \<and> config_ok (st_config st) \<and> keyed (st_sessions st) \<and>
     (\<forall>t v. fmlookup (st_sessions st) t = Some v \<longrightarrow> session_ok st v) \<and>
     (\<forall>t u v w. fmlookup (st_sessions st) t = Some v \<and> fmlookup (st_sessions st) u = Some w \<and> t \<noteq> u \<longrightarrow>
        se_TunnelIP v \<noteq> se_TunnelIP w \<and> se_WireGuardPublicKey v \<noteq> se_WireGuardPublicKey w)"

text \<open>The environment of an operation: a clock that does not run backwards, orders the language
  allows, and a token that is not in use.\<close>

definition env_ok :: "controlEnv \<Rightarrow> serverState \<Rightarrow> bool" where
  "env_ok ev st \<longleftrightarrow> (\<forall>i j. i \<le> j \<longrightarrow> ev_clock ev i \<le> ev_clock ev j) \<and> (\<forall>i s. range_order (ev_order ev i s) s) \<and>
     fmlookup (st_sessions st) (ev_token ev) = None"

lemma canonical_or_Some: "CanonicalPublicKey k = Some c \<Longrightarrow> canonical_or k = c"
  by (simp add: canonical_or_def)

lemma canonical_nonempty: "CanonicalPublicKey k = Some c \<Longrightarrow> c \<noteq> []"
proof
  assume "CanonicalPublicKey k = Some c" "c = []"
  with canonical_idem have "CanonicalPublicKey [] = Some []" by blast
  then show False by (simp add: CanonicalPublicKey_def decodeKey_def DecodeString_def)
qed

lemma prefix_contains_valid: "prefix_Contains p a \<Longrightarrow> addr_IsValid a"
  by (cases a) (auto simp: addr_IsValid_def)

lemma taken_append: "a \<in> taken cf addrs \<longleftrightarrow> a \<in> taken cf [] \<or> a \<in> Unmap ` {b \<in> set addrs. addr_IsValid b}"
  by (auto simp: taken_def occupied_def Let_def)

lemma invD:
  assumes "control_inv st" "fmlookup (st_sessions st) t = Some v"
  shows "session_ok st v" "se_Token v = t" "canonical_or (se_WireGuardPublicKey v) = se_WireGuardPublicKey v"
    "se_WireGuardPublicKey v \<noteq> []" "Unmap (se_TunnelIP v) = se_TunnelIP v" "addr_IsValid (se_TunnelIP v)"
proof -
  show ok: "session_ok st v" and "se_Token v = t" using assms by (auto simp: control_inv_def keyed_def)
  then have c: "CanonicalPublicKey (se_WireGuardPublicKey v) = Some (se_WireGuardPublicKey v)"
    and p: "prefix_Contains (prefix_Masked (cf_TunnelCIDR (st_config st))) (se_TunnelIP v)" by (auto simp: session_ok_def)
  show "canonical_or (se_WireGuardPublicKey v) = se_WireGuardPublicKey v" "se_WireGuardPublicKey v \<noteq> []"
    using canonical_or_Some [OF c] canonical_nonempty [OF c] by auto
  show "Unmap (se_TunnelIP v) = se_TunnelIP v" "addr_IsValid (se_TunnelIP v)"
    using assms(1) p prefix_contains_valid by (auto simp: control_inv_def config_ok_def prefix_plain_def)
qed

lemma inv_unique:
  assumes "control_inv st" "fmlookup (st_sessions st) t = Some v" "fmlookup (st_sessions st) u = Some w"
    and "se_TunnelIP v = se_TunnelIP w \<or> se_WireGuardPublicKey v = se_WireGuardPublicKey w"
  shows "t = u \<and> v = w"
  using assms unfolding control_inv_def by (metis option.inject)

text \<open>Removing sessions keeps the invariant as long as the peers of the others stay.\<close>

lemma inv_shrink:
  assumes "control_inv st" and "st_data st' = st_data st" and "st_config st' = st_config st"
    and "\<And>t v. fmlookup (st_sessions st') t = Some v \<Longrightarrow> fmlookup (st_sessions st) t = Some v \<and>
      fmlookup (st_peers st') (se_WireGuardPublicKey v) = fmlookup (st_peers st) (se_WireGuardPublicKey v)"
  shows "control_inv st'"
proof -
  have "session_ok st' v" if "fmlookup (st_sessions st') t = Some v" for t v
    using assms(4) [OF that] invD(1) [OF assms(1)] assms(3) by (auto simp: session_ok_def)
  moreover have sub: "fmlookup (st_sessions st) t = Some v" if "fmlookup (st_sessions st') t = Some v" for t v
    using assms(4) [OF that] by simp
  have "se_TunnelIP v \<noteq> se_TunnelIP w \<and> se_WireGuardPublicKey v \<noteq> se_WireGuardPublicKey w"
    if "fmlookup (st_sessions st') t = Some v" "fmlookup (st_sessions st') u = Some w" "t \<noteq> u" for t u v w
    using inv_unique [OF assms(1) sub [OF that(1)] sub [OF that(2)]] that(3) by blast
  moreover have "keyed (st_sessions st')" using invD(2) [OF assms(1) sub] by (simp add: keyed_def)
  moreover have "st_data st'" "config_ok (st_config st')" using assms(1-3) by (auto simp: control_inv_def)
  ultimately show ?thesis unfolding control_inv_def by blast
qed

lemma dropSession_frame [simp]:
  "st_sessions (dropSession v st) = st_sessions st" "st_config (dropSession v st) = st_config st"
  "st_data (dropSession v st) = st_data st" "st_nextIP (dropSession v st) = st_nextIP st"
  "st_data st \<Longrightarrow> fmlookup (st_peers (dropSession v st)) k =
     (if se_WireGuardPublicKey v \<noteq> [] \<and> canonical_or (se_WireGuardPublicKey v) = k then None else fmlookup (st_peers st) k)"
  by (auto simp: dropSession_def Let_def)

lemma fold_dropSession [simp]:
  "st_sessions (fold dropSession vs st) = st_sessions st" "st_config (fold dropSession vs st) = st_config st"
  "st_data (fold dropSession vs st) = st_data st" "st_nextIP (fold dropSession vs st) = st_nextIP st"
  by (induction vs arbitrary: st) simp_all

lemma fold_dropSession_peers:
  "st_data st \<Longrightarrow> fmlookup (st_peers (fold dropSession vs st)) k =
     (if \<exists>v \<in> set vs. se_WireGuardPublicKey v \<noteq> [] \<and> canonical_or (se_WireGuardPublicKey v) = k then None
      else fmlookup (st_peers st) k)"
  by (induction vs arbitrary: st) auto

lemma reap_frame [simp]:
  "st_config (reapSessionsLocked now ks st) = st_config st" "st_data (reapSessionsLocked now ks st) = st_data st"
  "st_nextIP (reapSessionsLocked now ks st) = st_nextIP st"
  "st_sessions (reapSessionsLocked now ks st) = gm_filter (\<lambda>_ v. \<not> expired now v) (st_sessions st)"
  by (simp_all add: reapSessionsLocked_def Reap_def)

lemma reap_inv:
  assumes "control_inv st" "range_order ks (st_sessions st)"
  shows "control_inv (reapSessionsLocked now ks st)"
proof (rule inv_shrink [OF assms(1)])
  fix t v
  assume "fmlookup (st_sessions (reapSessionsLocked now ks st)) t = Some v"
  then have v: "fmlookup (st_sessions st) t = Some v" "\<not> expired now v" by (auto split: option.splits if_splits)
  have "canonical_or (se_WireGuardPublicKey w) \<noteq> se_WireGuardPublicKey v"
    if w: "w \<in> set (ses_All ks (st_sessions st))" "expired now w" for w
  proof -
    from w(1) obtain u where u: "fmlookup (st_sessions st) u = Some w" using set_ses_All [OF assms(2)] by auto
    show ?thesis using inv_unique [OF assms(1) u v(1)] invD(3) [OF assms(1) u] w(2) v(2) by auto
  qed
  moreover have "st_data st" using assms(1) by (simp add: control_inv_def)
  ultimately show "fmlookup (st_sessions st) t = Some v \<and>
      fmlookup (st_peers (reapSessionsLocked now ks st)) (se_WireGuardPublicKey v) = fmlookup (st_peers st) (se_WireGuardPublicKey v)"
    using v(1) by (auto simp: reapSessionsLocked_def Reap_def fold_dropSession_peers)
qed simp_all

text \<open>Adding a session with a fresh token, an unused key and an unused address.\<close>

lemma inv_add:
  assumes inv: "control_inv st" and fresh: "fmlookup (st_sessions st) tok = None"
    and st': "st' = st\<lparr>st_sessions := fmupd tok n (st_sessions st), st_peers := peers\<rparr>"
    and peers: "fmlookup peers (se_WireGuardPublicKey n) = Some (se_TunnelIP n)"
      "\<And>k. k \<noteq> se_WireGuardPublicKey n \<Longrightarrow> fmlookup peers k = fmlookup (st_peers st) k"
    and n: "se_Token n = tok" "CanonicalPublicKey (se_WireGuardPublicKey n) = Some (se_WireGuardPublicKey n)"
      "prefix_Contains (prefix_Masked (cf_TunnelCIDR (st_config st))) (se_TunnelIP n)"
      "se_TunnelIP n \<notin> taken (st_config st) []" "\<not> native_key (st_config st) (se_WireGuardPublicKey n)"
    and unused: "\<And>t v. fmlookup (st_sessions st) t = Some v \<Longrightarrow>
      se_WireGuardPublicKey v \<noteq> se_WireGuardPublicKey n \<and> se_TunnelIP v \<noteq> se_TunnelIP n"
  shows "control_inv st'"
proof -
  have ok: "session_ok st' v" if "fmlookup (st_sessions st') t = Some v" for t v
  proof (cases "t = tok")
    case True
    then have "v = n" using that by (simp add: st')
    then show ?thesis using n peers(1) by (simp add: session_ok_def st')
  next
    case False
    then have v: "fmlookup (st_sessions st) t = Some v" using that by (simp add: st')
    show ?thesis using invD(1) [OF inv v] unused [OF v] peers(2) [of "se_WireGuardPublicKey v"]
      by (simp add: session_ok_def st')
  qed
  have uniq: "se_TunnelIP v \<noteq> se_TunnelIP w \<and> se_WireGuardPublicKey v \<noteq> se_WireGuardPublicKey w"
    if "fmlookup (st_sessions st') t = Some v" "fmlookup (st_sessions st') u = Some w" "t \<noteq> u" for t u v w
    using that inv_unique [OF inv, of t v u w] unused [of t v] unused [of u w] by (auto simp: st' split: if_splits)
  have "keyed (st_sessions st')" "st_data st'" "config_ok (st_config st')"
    using inv n(1) by (auto simp: control_inv_def keyed_def st')
  with ok uniq show ?thesis unfolding control_inv_def by blast
qed

lemma addPeer_frame [simp]:
  "st_sessions (snd (addPeer ipc key ip st)) = st_sessions st" "st_config (snd (addPeer ipc key ip st)) = st_config st"
  "st_data (snd (addPeer ipc key ip st)) = st_data st"
  by (auto simp: addPeer_def split: option.splits)

lemma addPeer_cases:
  assumes "addPeer ipc key ip st = (ok, st')" and "st_data st" and "CanonicalPublicKey key = Some key"
  shows "st' = st \<or> st' = st\<lparr>st_peers := fmupd key ip (st_peers st)\<rparr>"
    and "ok \<Longrightarrow> st' = st\<lparr>st_peers := fmupd key ip (st_peers st)\<rparr>"
  using assms by (auto simp: addPeer_def split: if_splits)

lemma addPeer_other:
  assumes "CanonicalPublicKey key = Some key" "k \<noteq> key"
  shows "fmlookup (st_peers (snd (addPeer ipc key ip st))) k = fmlookup (st_peers st) k"
  using assms by (auto simp: addPeer_def)

lemma Create_fields:
  assumes "ses_Create i tok now p s = (v, s')"
  shows "s' = fmupd tok v s" "se_Token v = tok" "se_TunnelIP v = cp_TunnelIP p" "se_Method v = cp_Method p"
    "se_Identity v = cp_Identity p" "se_Tunnels v = cp_Tunnels p" "se_Expires v = now + cp_TTL p"
    "se_WireGuardPublicKey v = canonical_or (cp_WireGuardPublicKey p)" "se_Issuer v = cp_Issuer p"
    "se_Fingerprint v = cp_Fingerprint p" "se_Groups v = cp_Groups p"
  using assms by (auto simp: ses_Create_def Let_def)

text \<open>The end of an establishment: installing the peer and creating the session.\<close>

lemma join_inv:
  assumes inv: "control_inv st" and fresh: "fmlookup (st_sessions st) (ev_token ev) = None"
    and key: "CanonicalPublicKey key = Some key" and ip: "prefix_Contains (prefix_Masked (cf_TunnelCIDR (st_config st))) ip"
      "ip \<notin> taken (st_config st) []" and nat: "\<not> native_key (st_config st) key"
    and unused: "\<And>t v. fmlookup (st_sessions st) t = Some v \<Longrightarrow> se_WireGuardPublicKey v \<noteq> key \<and> se_TunnelIP v \<noteq> ip"
    and step: "join_peer ev req key ip v ttl st = (r, st')"
  shows "control_inv st'"
proof -
  obtain ok st1 where add: "addPeer (ev_ipc ev) key ip st = (ok, st1)" by fastforce
  have data: "st_data st" using inv by (simp add: control_inv_def)
  note cases = addPeer_cases [OF add data key]
  show ?thesis
  proof (cases ok)
    case False
    then have "st' = st1" using step add by (simp add: join_peer_def)
    moreover have "st_sessions st1 = st_sessions st" "st_config st1 = st_config st" "st_data st1 = st_data st"
      "\<And>k. k \<noteq> key \<Longrightarrow> fmlookup (st_peers st1) k = fmlookup (st_peers st) k" using cases(1) by auto
    then have "control_inv st1" by (intro inv_shrink [OF inv]) (simp_all add: unused)
    ultimately show ?thesis by simp
  next
    case True
    obtain n s where c: "st' = st1\<lparr>st_sessions := s\<rparr>" "s = fmupd (ev_token ev) n (st_sessions st1)"
      "se_Token n = ev_token ev" "se_TunnelIP n = ip" "se_WireGuardPublicKey n = key"
      using step add True by (auto simp: join_peer_def finish_session_def Let_def ses_Create_def canonical_or_Some [OF key])
    show ?thesis
      by (rule inv_add [OF inv fresh, where st' = st' and n = n and peers = "fmupd key ip (st_peers st)"])
         (use c cases(2) [OF True] key ip nat unused in auto)
  qed
qed

lemma fresh_shrink:
  "fmlookup (st_sessions st) tok = None \<Longrightarrow> fmlookup (st_sessions (reapSessionsLocked now ks st)) tok = None"
  by simp

lemma not_native:
  assumes "control_inv st" "\<not> (cf_NativeEnabled (st_config st) \<and> native_key (st_config st) c)"
  shows "\<not> native_key (st_config st) c"
  using assms by (auto simp: control_inv_def config_ok_def native_key_def)

lemma delete_inv:
  assumes "control_inv st" shows "control_inv (st\<lparr>st_sessions := ses_Delete t (st_sessions st)\<rparr>)"
  by (rule inv_shrink [OF assms]) (auto simp: ses_Delete_def split: if_splits)

lemma FindKey_Some:
  assumes "control_inv st" "CanonicalPublicKey key = Some key"
    and "FindWireGuardPublicKey now ks key (st_sessions st) = Some old"
  shows "fmlookup (st_sessions st) (se_Token old) = Some old" "se_WireGuardPublicKey old = key"
proof -
  from find_live_Some [OF assms(3) [unfolded FindWireGuardPublicKey_def Let_def]] obtain t where
    t: "fmlookup (st_sessions st) t = Some old" "canonical_or (se_WireGuardPublicKey old) = canonical_or key" by blast
  show "fmlookup (st_sessions st) (se_Token old) = Some old" using t(1) invD(2) [OF assms(1) t(1)] by simp
  show "se_WireGuardPublicKey old = key" using t(2) invD(3) [OF assms(1) t(1)] canonical_or_Some [OF assms(2)] by simp
qed

lemma FindKey_None:
  assumes "control_inv st" "CanonicalPublicKey key = Some key" "range_order ks (st_sessions st)"
    and "FindWireGuardPublicKey now ks key (st_sessions st) = None"
    and "fmlookup (st_sessions st) t = Some v" "se_WireGuardPublicKey v = key"
  shows "expired now v"
  using assms(4,5) find_live_order [OF assms(3)] invD(3) [OF assms(1,5)] assms(6) canonical_or_Some [OF assms(2)]
    canonical_nonempty [OF assms(2)]
  unfolding FindWireGuardPublicKey_def Let_def by auto

lemma bind_inv:
  assumes inv: "control_inv st" and ev: "env_ok ev st" and step: "bind_key ev req v ttl st = (r, st')"
  shows "control_inv st'"
proof (cases "rq_WireGuardPublicKey req = [] \<or> CanonicalPublicKey (rq_WireGuardPublicKey req) = None")
  case True
  then have "st' = st" using step by (auto simp: bind_key_def split: option.splits if_splits)
  with inv show ?thesis by simp
next
  case False
  then obtain key where k: "rq_WireGuardPublicKey req \<noteq> []" "CanonicalPublicKey (rq_WireGuardPublicKey req) = Some key" by auto
  have key: "CanonicalPublicKey key = Some key" by (rule canonical_idem [OF k(2)])
  show ?thesis
  proof (cases "cf_NativeEnabled (st_config st) \<and> native_key (st_config st) key")
    case True
    with step k inv show ?thesis by (simp add: bind_key_def)
  next
    case nat: False
    note nat' = not_native [OF inv nat]
    let ?find = "FindWireGuardPublicKey (ev_clock ev 2) (ev_order ev 1 (st_sessions st)) key (st_sessions st)"
    show ?thesis
    proof (cases ?find)
      case (Some old)
      note old = FindKey_Some [OF inv key Some]
      let ?st = "st\<lparr>st_sessions := ses_Delete (se_Token old) (st_sessions st)\<rparr>"
      have unused: "se_WireGuardPublicKey w \<noteq> key \<and> se_TunnelIP w \<noteq> se_TunnelIP old"
        if "fmlookup (st_sessions ?st) t = Some w" for t w
        using that inv_unique [OF inv, of t w "se_Token old" old] old by (auto simp: ses_Delete_def split: if_splits)
      have "control_inv st'" if "join_peer ev req key (se_TunnelIP old) v ttl ?st = (r, st')"
        by (rule join_inv [OF delete_inv [OF inv] _ key _ _ _ unused that])
           (use invD(1) [OF inv old(1)] nat' ev in \<open>auto simp: session_ok_def env_ok_def ses_Delete_def\<close>)
      with step k nat Some inv show ?thesis by (auto simp: bind_key_def split: if_splits)
    next
      case None
      let ?st2 = "reapSessionsLocked (ev_clock ev 3) (ev_order ev 2 (st_sessions st)) st"
      obtain a nxt where al: "allocateIP (cf_TunnelCIDR (st_config ?st2)) (server_ip ?st2)
          (map np_TunnelIP (cf_Natives (st_config ?st2))) (session_ips (ev_order ev 3 (st_sessions ?st2)) ?st2)
          (st_nextIP ?st2) = (a, nxt)" by fastforce
      have inv2: "control_inv ?st2" by (rule reap_inv [OF inv]) (use ev in \<open>simp add: env_ok_def\<close>)
      have inv3: "control_inv (?st2\<lparr>st_nextIP := nxt\<rparr>)" by (rule inv_shrink [OF inv2]) auto
      have res: "(case a of None \<Rightarrow> (Refused ErrNoCapacity, ?st2\<lparr>st_nextIP := nxt\<rparr>)
          | Some ip \<Rightarrow> join_peer ev req key ip v ttl (?st2\<lparr>st_nextIP := nxt\<rparr>)) = (r, st')"
        using step k nat None al by (simp add: bind_key_def Let_def split: if_splits)
      show ?thesis
      proof (cases a)
        case (Some ip)
        have free: "prefix_Contains (prefix_Masked (cf_TunnelCIDR (st_config st))) ip"
          "ip \<notin> taken (st_config st) (session_ips (ev_order ev 3 (st_sessions ?st2)) ?st2)"
          using alloc_sound_complete [OF al] Some unfolding alloc_used_occupied
          by (auto simp: taken_def server_ip_def Let_def)
        have unused: "se_WireGuardPublicKey w \<noteq> key \<and> se_TunnelIP w \<noteq> ip"
          if "fmlookup (st_sessions (?st2\<lparr>st_nextIP := nxt\<rparr>)) t = Some w" for t w
        proof
          from that have w: "fmlookup (st_sessions st) t = Some w" "\<not> expired (ev_clock ev 3) w"
            by (auto split: option.splits if_splits)
          have "ev_clock ev 2 \<le> ev_clock ev 3" using ev by (simp add: env_ok_def)
          then have "\<not> expired (ev_clock ev 2) w" using w(2) by (simp add: expired_def)
          with FindKey_None [OF inv key _ None w(1)] ev show "se_WireGuardPublicKey w \<noteq> key" by (auto simp: env_ok_def)
          have "w \<in> set (ses_All (ev_order ev 3 (st_sessions ?st2)) (st_sessions ?st2))"
            using that ev by (subst set_ses_All) (auto simp: env_ok_def)
          then have "se_TunnelIP w \<in> set (session_ips (ev_order ev 3 (st_sessions ?st2)) ?st2)" by (simp add: session_ips_def)
          with invD(5,6) [OF inv w(1)] free(2) show "se_TunnelIP w \<noteq> ip"
            unfolding taken_append [of _ _ "session_ips (ev_order ev 3 (st_sessions ?st2)) ?st2"] by (metis (mono_tags, lifting) image_eqI mem_Collect_eq)
        qed
        show ?thesis
          by (rule join_inv [OF inv3 _ key _ _ _ unused])
             (use res Some free nat' ev in \<open>auto simp: env_ok_def taken_append [of _ _ "session_ips _ _"]\<close>)
      qed (use res inv3 in simp)
    qed
  qed
qed

lemma env_ok_reap: "env_ok ev st \<Longrightarrow> env_ok ev (reapSessionsLocked now ks st)"
  by (simp add: env_ok_def)

lemma establish_inv:
  assumes inv: "control_inv st" and ev: "env_ok ev st" and step: "establishSession ev req grs st = (r, st')"
  shows "control_inv st'"
proof -
  let ?st1 = "reapSessionsLocked (ev_clock ev 1) (ev_order ev 0 (st_sessions st)) st"
  have inv1: "control_inv ?st1" by (rule reap_inv [OF inv]) (use ev in \<open>simp add: env_ok_def\<close>)
  have data: "st_data ?st1" using inv1 by (simp add: control_inv_def)
  have "st' = st \<or> (\<exists>v ttl. bind_key ev req v ttl ?st1 = (r, st'))"
    using step data by (auto simp: establishSession_def Let_def split: if_splits option.splits)
  with inv bind_inv [OF inv1 env_ok_reap [OF ev]] show ?thesis by blast
qed

text \<open>Steps that touch neither sessions, peers nor configuration.\<close>

lemma inv_same:
  assumes "control_inv st" "st_data st' = st_data st" "st_config st' = st_config st" "st_sessions st' = st_sessions st"
    "st_peers st' = st_peers st"
  shows "control_inv st'"
  by (rule inv_shrink [OF assms(1-3)]) (simp add: assms(4,5))

text \<open>What an authentication request has passed when it reaches \<open>establishSession\<close>.\<close>

definition auth_passes ::
  "'key crypto \<Rightarrow> ('key \<Rightarrow> string option) \<Rightarrow> (nat \<Rightarrow> gotime) \<Rightarrow> string list \<Rightarrow> string list \<Rightarrow> string \<Rightarrow> string list \<Rightarrow> serverState \<Rightarrow>
   signedAuth \<Rightarrow> 'key \<Rightarrow> string \<Rightarrow> bool" where
  "auth_passes cr entry clk rks nks host offered st a key comment \<longleftrightarrow>
     fst (source_Allow (clk 0) rks host (st_rates st)) \<and> ar_Version a = Version \<and>
     ValidateRequiredCapabilities offered (ar_RequiredTransportCapabilities a) = None \<and>
     (\<exists>at. cr_ParseTimestamp cr (ar_Timestamp a) = Some at \<and> clk 1 - at \<le> 2 * minute \<and> at - clk 2 \<le> 2 * minute) \<and>
     cr_ParsePublic cr (ar_PublicKey a) = Some key \<and> entry key = Some comment \<and>
     (\<exists>payload. SigningPayload (authRequest.truncate a) = Inr payload \<and> cr_Verify cr key payload (ar_Signature a)) \<and>
     fst (nonce_Use (clk 3) nks (ar_Nonce a) (st_nonces st))"

definition same_control :: "serverState \<Rightarrow> serverState \<Rightarrow> bool" where
  "same_control st st' \<longleftrightarrow> st_data st' = st_data st \<and> st_config st' = st_config st \<and>
     st_sessions st' = st_sessions st \<and> st_peers st' = st_peers st"

definition ssh_subject :: "string \<Rightarrow> string \<Rightarrow> grantSubject" where
  "ssh_subject fp comment = \<lparr>gs_Method = ''ssh'', gs_Fingerprint = fp, gs_Comment = comment, gs_Email = [],
     gs_Domain = [], gs_Groups = []\<rparr>"

definition ssh_request :: "string \<Rightarrow> string \<Rightarrow> signedAuth \<Rightarrow> sessionRequest" where
  "ssh_request fp comment a =
     \<lparr>rq_Method = ''ssh'', rq_Identity = fp, rq_Fingerprint = fp, rq_Comment = comment,
      rq_Issuer = [], rq_Groups = [], rq_WireGuardPublicKey = ar_WireGuardPublicKey a,
      rq_Info = ar_Info a, rq_LatencyMillis = ar_LatencyMillis a, rq_Reconnections = ar_Reconnections a,
      rq_TransportCapabilities = ar_TransportCapabilities a, rq_QueryOnly = ar_QueryOnly a\<rparr>"

lemma auth_shape:
  assumes "auth cr entry clk rks nks host body ev st = (r, st')"
  shows "((\<exists>e. r = Refused e) \<and> same_control st st') \<or>
    (\<exists>a key comment. body = Some a \<and> auth_passes cr entry clk rks nks host (ev_transport ev) st a key comment \<and>
       establishSession ev (ssh_request (cr_Fingerprint cr key) comment a)
         (grants (cf_Tunnels (st_config st)) (ssh_subject (cr_Fingerprint cr key) comment))
         (st\<lparr>st_rates := snd (source_Allow (clk 0) rks host (st_rates st)),
             st_nonces := snd (nonce_Use (clk 3) nks (ar_Nonce a) (st_nonces st))\<rparr>) = (r, st'))"
  using assms unfolding auth_def Let_def auth_passes_def same_control_def ssh_subject_def ssh_request_def
  by (auto split: prod.splits if_splits option.splits sum.splits)

definition oidc_subject :: "oidcIdentity \<Rightarrow> grantSubject" where
  "oidc_subject i = \<lparr>gs_Method = ''oidc'', gs_Fingerprint = [], gs_Comment = [], gs_Email = oi_Email i,
     gs_Domain = oi_Domain i, gs_Groups = oi_Groups i\<rparr>"

lemma authOIDC_shape:
  assumes "authOIDC pt verifiers clk rks host body ev st = (r, st')"
  shows "((\<exists>e. r = Refused e) \<and> same_control st st') \<or>
    (\<exists>a verify i req. body = Some a \<and> verifiers = Some verify \<and> verify (oa_IssuerName a) (oa_IDToken a) = Some i \<and>
       establishSession ev req (grants (cf_Tunnels (st_config st)) (oidc_subject i))
         (st\<lparr>st_rates := snd (source_Allow (clk 0) rks host (st_rates st))\<rparr>) = (r, st'))"
  using assms unfolding authOIDC_def Let_def same_control_def oidc_subject_def
  by (auto split: prod.splits if_splits option.splits sum.splits)

lemma same_inv: "control_inv st \<Longrightarrow> same_control st st' \<Longrightarrow> control_inv st'"
  by (erule inv_same) (auto simp: same_control_def)

lemma env_same: "env_ok ev st \<Longrightarrow> same_control st st' \<Longrightarrow> env_ok ev st'"
  by (simp add: env_ok_def same_control_def)

lemma auth_inv:
  assumes "control_inv st" "env_ok ev st" "auth cr entry clk rks nks host body ev st = (r, st')"
  shows "control_inv st'"
proof -
  have "same_control st (st\<lparr>st_rates := x, st_nonces := y\<rparr>)" for x y by (simp add: same_control_def)
  then show ?thesis using auth_shape [OF assms(3)] assms(1,2) same_inv env_same establish_inv by blast
qed

lemma authOIDC_inv:
  assumes "control_inv st" "env_ok ev st" "authOIDC pt verifiers clk rks host body ev st = (r, st')"
  shows "control_inv st'"
proof -
  have "same_control st (st\<lparr>st_rates := x\<rparr>)" for x by (simp add: same_control_def)
  then show ?thesis using authOIDC_shape [OF assms(3)] assms(1,2) same_inv env_same establish_inv by blast
qed

text \<open>Dropping a stored session.\<close>

lemma retire_frame [simp]:
  "st_config (retire v st) = st_config st" "st_data (retire v st) = st_data st"
  "st_sessions (retire v st) = fmdrop (se_Token v) (st_sessions st)"
  by (auto simp: retire_def ses_Delete_def)

lemma retire_peers:
  assumes "st_data st" "canonical_or (se_WireGuardPublicKey v) = se_WireGuardPublicKey v"
    "k \<noteq> se_WireGuardPublicKey v"
  shows "fmlookup (st_peers (retire v st)) k = fmlookup (st_peers st) k"
  using assms by (auto simp: retire_def)

lemma retire_inv:
  assumes "control_inv st" "fmlookup (st_sessions st) t = Some v"
  shows "control_inv (retire v st)"
proof (rule inv_shrink [OF assms(1)])
  fix u w
  assume "fmlookup (st_sessions (retire v st)) u = Some w"
  then have w: "fmlookup (st_sessions st) u = Some w" "u \<noteq> t" using invD(2) [OF assms] by (auto split: if_splits)
  then have "se_WireGuardPublicKey w \<noteq> se_WireGuardPublicKey v"
    using inv_unique [OF assms(1) w(1) assms(2)] by blast
  moreover have "st_data st" using assms(1) by (simp add: control_inv_def)
  ultimately show "fmlookup (st_sessions st) u = Some w \<and>
      fmlookup (st_peers (retire v st)) (se_WireGuardPublicKey w) = fmlookup (st_peers st) (se_WireGuardPublicKey w)"
    using w retire_peers [OF _ invD(3) [OF assms]] by blast
qed simp_all

lemma Get_Some: "ses_Get now t s = Some v \<Longrightarrow> fmlookup s t = Some v \<and> \<not> expired now v"
  by (auto simp: ses_Get_def split: option.splits if_splits)

lemma disconnect_inv:
  assumes "control_inv st" "disconnect now t st = (r, st')" shows "control_inv st'"
proof (cases "ses_Get now t (st_sessions st)")
  case (Some old)
  then have old: "fmlookup (st_sessions st) t = Some old" by (simp add: Get_Some)
  then have "st' = retire old st" using assms(2) Some invD(2) [OF assms(1)] by (auto simp: disconnect_def retire_def)
  with retire_inv [OF assms(1) old] show ?thesis by simp
qed (use assms in \<open>simp add: disconnect_def\<close>)

lemma revoke_inv:
  assumes "control_inv st" "revokeSession now ks i st = (r, st')" shows "control_inv st'"
proof (cases "find_live now (\<lambda>v. se_ID v = i) ks (st_sessions st)")
  case (Some old)
  from find_live_Some [OF Some] obtain t where t: "fmlookup (st_sessions st) t = Some old" by blast
  then have "st' = retire old st"
    using assms(2) Some invD(2) [OF assms(1) t] by (auto simp: revokeSession_def retire_def DeleteByID_def ses_Delete_def)
  with retire_inv [OF assms(1) t] show ?thesis by simp
qed (use assms in \<open>simp add: revokeSession_def DeleteByID_def\<close>)

text \<open>A renewal replaces the session by one with the same key and address.\<close>

lemma renew_shape:
  assumes inv: "control_inv st" and step: "renew now t body ev st = (r, st')"
  shows "((\<exists>e. r = Refused e) \<and> st' = st) \<or>
    (\<exists>old. fmlookup (st_sessions st) t = Some old \<and> \<not> expired now old \<and> authorize (st_config st) (ev_hook ev)
        (renew_grants (cf_Tunnels (st_config st)) (se_Tunnels old)) = None \<and>
      r = Refused ErrNotAllowed \<and> st' = retire old st) \<or>
    (\<exists>old gs ttl n. fmlookup (st_sessions st) t = Some old \<and> \<not> expired now old \<and> authorize (st_config st) (ev_hook ev)
        (renew_grants (cf_Tunnels (st_config st)) (se_Tunnels old)) = Some (gs, ttl) \<and> r = Established n \<and>
      se_Token n = ev_token ev \<and> se_TunnelIP n = se_TunnelIP old \<and>
      se_WireGuardPublicKey n = se_WireGuardPublicKey old \<and> se_Method n = se_Method old \<and>
      se_Identity n = se_Identity old \<and> se_Tunnels n = map to_ptunnel gs \<and> se_Expires n = ev_clock ev 4 + ttl \<and>
      (st' = st\<lparr>st_sessions := fmupd (ev_token ev) n (fmdrop t (st_sessions st))\<rparr> \<or>
       st' = st\<lparr>st_sessions := fmupd (ev_token ev) n (fmdrop t (st_sessions st)),
                st_peers := fmupd (se_WireGuardPublicKey old) (se_TunnelIP old) (st_peers st)\<rparr>))"
proof (cases "body = None \<or> ses_Get (ev_clock ev 0) t (st_sessions st) = None \<or> ses_Get now t (st_sessions st) = None")
  case True
  then have "(\<exists>e. r = Refused e) \<and> st' = st"
    using step by (auto simp: renew_def Let_def split: option.splits if_splits)
  then show ?thesis by blast
next
  case False
  then obtain b old where b: "body = Some b" "ses_Get (ev_clock ev 0) t (st_sessions st) \<noteq> None"
    "ses_Get now t (st_sessions st) = Some old" by auto
  have old: "fmlookup (st_sessions st) t = Some old" "\<not> expired now old" using Get_Some [OF b(3)] by auto
  have key: "CanonicalPublicKey (se_WireGuardPublicKey old) = Some (se_WireGuardPublicKey old)"
    using invD(1) [OF inv old(1)] by (simp add: session_ok_def)
  have data: "st_data st" using inv by (simp add: control_inv_def)
  obtain info lat rec where body: "b = (info, lat, rec)" by (cases b)
  show ?thesis
  proof (cases "authorize (st_config st) (ev_hook ev) (renew_grants (cf_Tunnels (st_config st)) (se_Tunnels old))")
    case None
    then show ?thesis using step b body old invD(2) [OF inv old(1)] by (auto simp: renew_def retire_def)
  next
    case (Some p)
    then obtain gs ttl where p: "authorize (st_config st) (ev_hook ev)
      (renew_grants (cf_Tunnels (st_config st)) (se_Tunnels old)) = Some (gs, ttl)" by (cases p) auto
    let ?par = "\<lparr>cp_Method = se_Method old, cp_Identity = se_Identity old, cp_Fingerprint = se_Fingerprint old,
      cp_Issuer = se_Issuer old, cp_Groups = se_Groups old, cp_WireGuardPublicKey = se_WireGuardPublicKey old,
      cp_TunnelIP = se_TunnelIP old, cp_Tunnels = map to_ptunnel gs, cp_LatencyMillis = lat, cp_Reconnections = rec,
      cp_Multipath = se_Multipath old, cp_PathMTU = se_PathMTU old, cp_ClientInfo = info, cp_TTL = ttl\<rparr>"
    obtain n s where c: "ses_Create (ev_id ev) (ev_token ev) (ev_clock ev 4) ?par (ses_Delete t (st_sessions st)) = (n, s)"
      by fastforce
    note f = Create_fields [OF c, simplified]
    obtain ok st2 where add: "addPeer (ev_ipc ev) (se_WireGuardPublicKey old) (se_TunnelIP old)
      (st\<lparr>st_sessions := s\<rparr>) = (ok, st2)" by fastforce
    have "r = Established n" "st' = st2" using step b body p c add invD(4) [OF inv old(1)] by (simp_all add: renew_def)
    with addPeer_cases(1) [OF add _ key] f old p data invD(3) [OF inv old(1)] show ?thesis by (auto simp: ses_Delete_def)
  qed
qed

lemma renew_inv:
  assumes inv: "control_inv st" and ev: "env_ok ev st" and step: "renew now t body ev st = (r, st')"
  shows "control_inv st'"
proof -
  have "control_inv st'" if old: "fmlookup (st_sessions st) t = Some old"
    and n: "se_Token n = ev_token ev" "se_TunnelIP n = se_TunnelIP old" "se_WireGuardPublicKey n = se_WireGuardPublicKey old"
    and st': "st' = st\<lparr>st_sessions := fmupd (ev_token ev) n (fmdrop t (st_sessions st))\<rparr> \<or>
      st' = st\<lparr>st_sessions := fmupd (ev_token ev) n (fmdrop t (st_sessions st)),
                st_peers := fmupd (se_WireGuardPublicKey old) (se_TunnelIP old) (st_peers st)\<rparr>" for old n
  proof -
    let ?st = "st\<lparr>st_sessions := fmdrop t (st_sessions st)\<rparr>"
    have ok: "session_ok st old" by (rule invD(1) [OF inv old])
    have del: "control_inv ?st" using delete_inv [OF inv] by (simp add: ses_Delete_def)
    have fresh: "fmlookup (st_sessions ?st) (ev_token ev) = None" using ev by (simp add: env_ok_def)
    have unused: "se_WireGuardPublicKey w \<noteq> se_WireGuardPublicKey n \<and> se_TunnelIP w \<noteq> se_TunnelIP n"
      if "fmlookup (st_sessions ?st) u = Some w" for u w
      using that inv_unique [OF inv, of u w t old] old n by (auto split: if_splits)
    have st'': "st' = ?st\<lparr>st_sessions := fmupd (ev_token ev) n (st_sessions ?st), st_peers := st_peers st'\<rparr>" using st' by auto
    show ?thesis
      by (rule inv_add [OF del fresh st'' _ _ n(1) _ _ _ _ unused]) (use st' n ok in \<open>auto simp: session_ok_def\<close>)
  qed
  then show ?thesis using renew_shape [OF inv step] retire_inv [OF inv] inv by blast
qed

end
