(* ===== verification/Control_Safety.thy ===== *)
theory Control_Safety
  imports Server_Control
begin

text \<open>
  The control plane as a transition system: configuration reload keeps the invariant of
  \<^verbatim>\<open>Server_Control\<close>, every operation is a step, and the properties of reachable states: who a tunnel
  address belongs to, what a reload enforces, and what an authentication proves.
\<close>

section \<open>Reload\<close>

text \<open>Retiring the sessions of a list that satisfy a predicate.\<close>

definition retire_if :: "(session \<Rightarrow> bool) \<Rightarrow> session \<Rightarrow> serverState \<Rightarrow> serverState" where
  "retire_if P v st = (if P v then retire v st else st)"

lemma retire_if_fold [simp]:
  "st_config (fold (retire_if P) vs st) = st_config st" "st_data (fold (retire_if P) vs st) = st_data st"
  by (induction vs arbitrary: st) (simp_all add: retire_if_def)

lemma retire_if_sessions:
  "fmlookup (st_sessions (fold (retire_if P) vs st)) t =
     (if \<exists>v \<in> set vs. P v \<and> se_Token v = t then None else fmlookup (st_sessions st) t)"
  by (induction vs arbitrary: st) (auto simp: retire_if_def)

lemma retire_if_peers:
  "st_data st \<Longrightarrow> fmlookup (st_peers (fold (retire_if P) vs st)) k =
     (if \<exists>v \<in> set vs. P v \<and> se_WireGuardPublicKey v \<noteq> [] \<and> canonical_or (se_WireGuardPublicKey v) = k then None
      else fmlookup (st_peers st) k)"
proof (induction vs arbitrary: st)
  case (Cons v vs)
  have "st_data (retire_if P v st)" using Cons.prems by (simp add: retire_if_def)
  from Cons.IH [OF this] Cons.prems show ?case by (auto simp: retire_if_def retire_def)
qed simp

text \<open>The sessions a reload removes because their principal or one of their tunnels is gone.\<close>

definition loses :: "(string \<Rightarrow> string option) \<Rightarrow> serverConfig \<Rightarrow> session \<Rightarrow> bool" where
  "loses fpEntry cf v \<longleftrightarrow> (case regrant fpEntry cf v of None \<Rightarrow> True
     | Some allowed \<Rightarrow> \<not> pt_Name ` set (se_Tunnels v) \<subseteq> allowed)"

lemma filter_length_all: "length (filter P xs) = length xs \<longleftrightarrow> (\<forall>x \<in> set xs. P x)"
  by (metis filter_id_conv filter_True length_filter_less less_irrefl)

lemma reconcile_session_eq: "reconcile_session fpEntry v st = retire_if (loses fpEntry (st_config st)) v st"
  by (auto simp: reconcile_session_def retire_if_def loses_def filter_length_all split: option.splits)

lemma fold_reconcile:
  "st_config st = cf \<Longrightarrow> fold (reconcile_session fpEntry) vs st = fold (retire_if (loses fpEntry cf)) vs st"
proof (induction vs arbitrary: st)
  case (Cons v vs)
  have "st_config (retire_if P v st) = cf" for P using Cons.prems by (simp add: retire_if_def)
  with Cons show ?case by (simp add: reconcile_session_eq)
qed simp

text \<open>Native peers are reconciled without touching any other key.\<close>

lemma drop_natives:
  fixes old :: "nativePeer list" and st :: serverState
  defines "st' \<equiv> fold (\<lambda>p st. st\<lparr>st_peers := fmdrop (canonical_or (np_PublicKey p)) (st_peers st)\<rparr>) old st"
  shows "st_config st' = st_config st \<and> st_data st' = st_data st \<and> st_sessions st' = st_sessions st \<and>
    (\<forall>k. (\<forall>p \<in> set old. canonical_or (np_PublicKey p) \<noteq> k) \<longrightarrow> fmlookup (st_peers st') k = fmlookup (st_peers st) k)"
  unfolding st'_def by (induction old arbitrary: st) auto

lemma add_natives:
  fixes ns :: "nativePeer list" and st :: serverState and ipc :: "string \<Rightarrow> ipAddr \<Rightarrow> bool"
  defines "st' \<equiv> fold (\<lambda>p st. snd (addPeer ipc (np_PublicKey p) (np_TunnelIP p) st)) ns st"
  assumes "\<forall>p \<in> set ns. CanonicalPublicKey (np_PublicKey p) = Some (np_PublicKey p)"
  shows "st_config st' = st_config st \<and> st_data st' = st_data st \<and> st_sessions st' = st_sessions st \<and>
    (\<forall>k. (\<forall>p \<in> set ns. np_PublicKey p \<noteq> k) \<longrightarrow> fmlookup (st_peers st') k = fmlookup (st_peers st) k)"
  using assms(2) unfolding st'_def
proof (induction ns arbitrary: st)
  case (Cons p ns)
  then show ?case using addPeer_other [of "np_PublicKey p"] by auto
qed simp

lemma natives_frame:
  assumes "\<forall>p \<in> set old. CanonicalPublicKey (np_PublicKey p) = Some (np_PublicKey p)"
    and "\<forall>p \<in> set ns. CanonicalPublicKey (np_PublicKey p) = Some (np_PublicKey p)"
  shows "st_config (reconcileNativePeers ipc old ns st) = st_config st"
    and "st_data (reconcileNativePeers ipc old ns st) = st_data st"
    and "st_sessions (reconcileNativePeers ipc old ns st) = st_sessions st"
    and "\<forall>p \<in> set old \<union> set ns. np_PublicKey p \<noteq> k \<Longrightarrow>
      fmlookup (st_peers (reconcileNativePeers ipc old ns st)) k = fmlookup (st_peers st) k"
  using drop_natives [of old st] add_natives [OF assms(2), of ipc] assms(1)
  by (auto simp: reconcileNativePeers_def Let_def canonical_or_Some)

text \<open>The three phases of a reload.\<close>

definition conflicts :: "serverConfig \<Rightarrow> session \<Rightarrow> bool" where
  "conflicts cf v \<longleftrightarrow> (\<exists>p \<in> set (cf_Natives cf). native_conflict p v)"

definition reload_config :: "serverConfig \<Rightarrow> serverState \<Rightarrow> serverConfig" where
  "reload_config c st = c\<lparr>cf_TunnelCIDR := cf_TunnelCIDR (st_config st)\<rparr>"

definition reload_conflicts :: "(nat \<Rightarrow> sessions \<Rightarrow> string list) \<Rightarrow> serverConfig \<Rightarrow> serverState \<Rightarrow> serverState" where
  "reload_conflicts order c st =
     fold (retire_if (conflicts c)) (ses_All (order 0 (st_sessions st)) (st_sessions st)) (st\<lparr>st_config := c\<rparr>)"

definition reload_natives :: "(string \<Rightarrow> ipAddr \<Rightarrow> bool) \<Rightarrow> serverConfig \<Rightarrow> serverState \<Rightarrow> serverState" where
  "reload_natives ipc old st =
     (if cf_NativeEnabled old \<noteq> cf_NativeEnabled (st_config st) \<or> cf_Natives old \<noteq> cf_Natives (st_config st)
      then reconcileNativePeers ipc (cf_Natives old) (cf_Natives (st_config st)) st else st)"

lemma fold_retire_none: "(\<forall>v. \<not> P v) \<Longrightarrow> fold (retire_if P) vs st = st"
  by (induction vs) (simp_all add: retire_if_def)

lemma Reload_phases:
  assumes "config_ok (st_config st)" "config_ok (reload_config c st)"
    and st3_def: "st3 = reload_natives ipc (st_config st) (reload_conflicts order (reload_config c st) st)"
  shows "Reload fpEntry order ipc c st =
    fold (retire_if (loses fpEntry (reload_config c st))) (ses_All (order 1 (st_sessions st3)) (st_sessions st3)) st3"
proof -
  let ?c = "reload_config c st"
  have off: "\<not> cf_NativeEnabled cf \<Longrightarrow> cf_Natives cf = []" if "config_ok cf" for cf using that by (simp add: config_ok_def)
  have if_eq: "(\<lambda>v st. if list_ex (\<lambda>p. native_conflict p v) (cf_Natives ?c) then retire v st else st) = retire_if (conflicts ?c)"
    by (intro ext) (simp add: retire_if_def conflicts_def list_ex_iff)
  have none: "\<not> conflicts ?c v" if "\<not> cf_NativeEnabled ?c" for v using off [OF assms(2) that] by (simp add: conflicts_def)
  have off_eq: "st\<lparr>st_config := ?c\<rparr> = reload_conflicts order ?c st" if "\<not> cf_NativeEnabled ?c"
    using none [OF that] by (simp add: reload_conflicts_def fold_retire_none)
  have cf: "st_config (reload_conflicts order ?c st) = ?c" by (simp add: reload_conflicts_def)
  have en: "(if cf_NativeEnabled cf then cf_Natives cf else []) = cf_Natives cf" if "config_ok cf" for cf
    using off [OF that] by auto
  have "Reload fpEntry order ipc c st =
      fold (reconcile_session fpEntry) (ses_All (order 1 (st_sessions st3)) (st_sessions st3)) st3"
    unfolding Reload_def Let_def reload_config_def [symmetric] if_eq st3_def reload_natives_def
    using off_eq off [OF assms(2)] by (cases "cf_NativeEnabled ?c") (simp_all add: reload_conflicts_def en [OF assms(1)] en [OF assms(2)])
  moreover have "st_config st3 = ?c"
    using assms(1,2) by (auto simp: st3_def reload_natives_def cf natives_frame(1) config_ok_def)
  ultimately show ?thesis by (simp add: fold_reconcile)
qed

text \<open>After the first phase no stored session has a native peer's key or address.\<close>

lemma no_conflict_ok:
  assumes inv: "control_inv st" and v: "fmlookup (st_sessions st) t = Some v"
    and c: "config_ok c" "cf_TunnelCIDR c = cf_TunnelCIDR (st_config st)" and nc: "\<not> conflicts c v"
  shows "se_TunnelIP v \<notin> taken c []" "\<not> native_key c (se_WireGuardPublicKey v)"
proof -
  have ok: "session_ok st v" by (rule invD(1) [OF inv v])
  show "\<not> native_key c (se_WireGuardPublicKey v)"
    using ok nc by (auto simp: native_key_def list_ex_iff conflicts_def native_conflict_def session_ok_def)
  show "se_TunnelIP v \<notin> taken c []"
    using ok nc invD(5) [OF inv v]
    by (auto simp: taken_def occupied_def Let_def session_ok_def conflicts_def native_conflict_def c(2))
qed

lemma conflicts_inv:
  assumes inv: "control_inv st" and c: "config_ok c" "cf_TunnelCIDR c = cf_TunnelCIDR (st_config st)"
    and ord: "range_order (order 0 (st_sessions st)) (st_sessions st)"
  shows "control_inv (reload_conflicts order c st)"
    and "fmlookup (st_sessions (reload_conflicts order c st)) t = Some v \<longleftrightarrow>
      fmlookup (st_sessions st) t = Some v \<and> \<not> conflicts c v"
proof -
  let ?st = "reload_conflicts order c st"
  have stored: "w \<in> set (ses_All (order 0 (st_sessions st)) (st_sessions st)) \<longleftrightarrow> (\<exists>u. fmlookup (st_sessions st) u = Some w)" for w
    using set_ses_All [OF ord] .
  have data: "st_data st" using inv by (simp add: control_inv_def)
  have iff: "fmlookup (st_sessions ?st) t = Some v \<longleftrightarrow> fmlookup (st_sessions st) t = Some v \<and> \<not> conflicts c v" for t v
    using invD(2) [OF inv] by (auto simp: reload_conflicts_def retire_if_sessions stored split: if_splits)
  then show "fmlookup (st_sessions ?st) t = Some v \<longleftrightarrow> fmlookup (st_sessions st) t = Some v \<and> \<not> conflicts c v" .
  have peers: "fmlookup (st_peers ?st) (se_WireGuardPublicKey v) = fmlookup (st_peers st) (se_WireGuardPublicKey v)"
    if v: "fmlookup (st_sessions st) t = Some v" "\<not> conflicts c v" for t v
  proof -
    have "canonical_or (se_WireGuardPublicKey w) \<noteq> se_WireGuardPublicKey v"
      if "fmlookup (st_sessions st) u = Some w" "conflicts c w" for u w
      using that v inv_unique [OF inv that(1) v(1)] invD(3) [OF inv that(1)] by auto
    then show ?thesis using data by (auto simp: reload_conflicts_def retire_if_peers stored)
  qed
  have "session_ok ?st v" if "fmlookup (st_sessions ?st) t = Some v" for t v
    using invD(1) [OF inv, of t v] no_conflict_ok [OF inv _ c, of t v] peers [of t v] that [unfolded iff]
    by (auto simp: session_ok_def reload_conflicts_def c(2))
  moreover have "keyed (st_sessions ?st)" using invD(2) [OF inv] by (auto simp: keyed_def iff)
  moreover have "se_TunnelIP v \<noteq> se_TunnelIP w \<and> se_WireGuardPublicKey v \<noteq> se_WireGuardPublicKey w"
    if "fmlookup (st_sessions ?st) t = Some v" "fmlookup (st_sessions ?st) u = Some w" "t \<noteq> u" for t u v w
    using that inv_unique [OF inv, of t v u w] unfolding iff by blast
  moreover have "st_data ?st" "config_ok (st_config ?st)" using data c by (simp_all add: reload_conflicts_def)
  ultimately show "control_inv ?st" unfolding control_inv_def by blast
qed

lemma natives_inv:
  assumes inv: "control_inv st" and old: "config_ok old"
    and apart: "\<And>t v p. fmlookup (st_sessions st) t = Some v \<Longrightarrow> p \<in> set (cf_Natives old) \<Longrightarrow> np_PublicKey p \<noteq> se_WireGuardPublicKey v"
  shows "control_inv (reload_natives ipc old st)"
    and "st_sessions (reload_natives ipc old st) = st_sessions st" "st_config (reload_natives ipc old st) = st_config st"
    and "\<forall>p \<in> set (cf_Natives old) \<union> set (cf_Natives (st_config st)). np_PublicKey p \<noteq> k \<Longrightarrow>
      fmlookup (st_peers (reload_natives ipc old st)) k = fmlookup (st_peers st) k"
proof -
  have new: "config_ok (st_config st)" using inv by (simp add: control_inv_def)
  have can: "\<forall>p \<in> set (cf_Natives cf). CanonicalPublicKey (np_PublicKey p) = Some (np_PublicKey p)" if "config_ok cf" for cf
    using that by (simp add: config_ok_def)
  note frame = natives_frame [OF can [OF old] can [OF new]]
  show sess: "st_sessions (reload_natives ipc old st) = st_sessions st" "st_config (reload_natives ipc old st) = st_config st"
    by (simp_all add: reload_natives_def frame)
  show peers: "fmlookup (st_peers (reload_natives ipc old st)) k = fmlookup (st_peers st) k"
    if "\<forall>p \<in> set (cf_Natives old) \<union> set (cf_Natives (st_config st)). np_PublicKey p \<noteq> k" for k
    using frame(4) [OF that] by (simp add: reload_natives_def)
  show "control_inv (reload_natives ipc old st)"
  proof (rule inv_shrink [OF inv])
    fix t v
    assume "fmlookup (st_sessions (reload_natives ipc old st)) t = Some v"
    then have v: "fmlookup (st_sessions st) t = Some v" by (simp add: sess)
    have "np_PublicKey p \<noteq> se_WireGuardPublicKey v" if "p \<in> set (cf_Natives (st_config st))" for p
      using invD(1) [OF inv v] can [OF new] that by (auto simp: session_ok_def native_key_def list_ex_iff)
    with apart [OF v] v peers show "fmlookup (st_sessions st) t = Some v \<and>
      fmlookup (st_peers (reload_natives ipc old st)) (se_WireGuardPublicKey v) = fmlookup (st_peers st) (se_WireGuardPublicKey v)"
      by blast
  qed (simp_all add: reload_natives_def frame)
qed

text \<open>Retiring stored sessions keeps the invariant and takes their peers along.\<close>

lemma retire_all:
  assumes inv: "control_inv st" and ord: "range_order ks (st_sessions st)"
    and st': "st' = fold (retire_if P) (ses_All ks (st_sessions st)) st"
  shows "control_inv st'"
    and "fmlookup (st_sessions st') t = Some v \<longleftrightarrow> fmlookup (st_sessions st) t = Some v \<and> \<not> P v"
    and "fmlookup (st_sessions st) t = Some v \<Longrightarrow>
      fmlookup (st_peers st') (se_WireGuardPublicKey v) = (if P v then None else Some (se_TunnelIP v))"
    and "fmlookup (st_peers st) k = None \<Longrightarrow> fmlookup (st_peers st') k = None"
proof -
  have stored: "w \<in> set (ses_All ks (st_sessions st)) \<longleftrightarrow> (\<exists>u. fmlookup (st_sessions st) u = Some w)" for w
    using set_ses_All [OF ord] .
  have data: "st_data st" using inv by (simp add: control_inv_def)
  show iff: "fmlookup (st_sessions st') t = Some v \<longleftrightarrow> fmlookup (st_sessions st) t = Some v \<and> \<not> P v" for t v
    using invD(2) [OF inv] by (auto simp: st' retire_if_sessions stored split: if_splits)
  show peers: "fmlookup (st_peers st') (se_WireGuardPublicKey v) = (if P v then None else Some (se_TunnelIP v))"
    if v: "fmlookup (st_sessions st) t = Some v" for t v
  proof -
    have "fmlookup (st_peers st) (se_WireGuardPublicKey v) = Some (se_TunnelIP v)"
      using invD(1) [OF inv v] by (simp add: session_ok_def)
    moreover have "(\<exists>w \<in> set (ses_All ks (st_sessions st)). P w \<and> se_WireGuardPublicKey w \<noteq> [] \<and>
        canonical_or (se_WireGuardPublicKey w) = se_WireGuardPublicKey v) \<longleftrightarrow> P v"
    proof
      assume "\<exists>w \<in> set (ses_All ks (st_sessions st)). P w \<and> se_WireGuardPublicKey w \<noteq> [] \<and>
        canonical_or (se_WireGuardPublicKey w) = se_WireGuardPublicKey v"
      then obtain w u where w: "fmlookup (st_sessions st) u = Some w" "P w"
        "canonical_or (se_WireGuardPublicKey w) = se_WireGuardPublicKey v" using stored by blast
      with inv_unique [OF inv w(1) v] invD(3) [OF inv w(1)] show "P v" by auto
    next
      assume "P v"
      with v invD(3,4) [OF inv v] show "\<exists>w \<in> set (ses_All ks (st_sessions st)). P w \<and> se_WireGuardPublicKey w \<noteq> [] \<and>
        canonical_or (se_WireGuardPublicKey w) = se_WireGuardPublicKey v" using stored by blast
    qed
    ultimately show ?thesis using data by (simp add: st' retire_if_peers)
  qed
  show "fmlookup (st_peers st) k = None \<Longrightarrow> fmlookup (st_peers st') k = None"
    using data by (simp add: st' retire_if_peers)
  show "control_inv st'"
  proof (rule inv_shrink [OF inv])
    fix t v
    assume "fmlookup (st_sessions st') t = Some v"
    then have v: "fmlookup (st_sessions st) t = Some v" "\<not> P v" by (simp_all add: iff)
    then show "fmlookup (st_sessions st) t = Some v \<and>
      fmlookup (st_peers st') (se_WireGuardPublicKey v) = fmlookup (st_peers st) (se_WireGuardPublicKey v)"
      using peers [OF v(1)] invD(1) [OF inv v(1)] by (simp add: session_ok_def)
  qed (simp_all add: st')
qed

text \<open>The hypotheses of a reload: a checked configuration and orders the language allows.\<close>

definition reload_ok :: "(nat \<Rightarrow> sessions \<Rightarrow> string list) \<Rightarrow> serverConfig \<Rightarrow> serverState \<Rightarrow> bool" where
  "reload_ok order c st \<longleftrightarrow> config_ok (reload_config c st) \<and> (\<forall>i s. range_order (order i s) s)"

lemma reload_spec:
  assumes inv: "control_inv st" and ok: "reload_ok order c st" and st': "st' = Reload fpEntry order ipc c st"
  shows "control_inv st'" and "st_config st' = reload_config c st"
    and "fmlookup (st_sessions st') t = Some v \<longleftrightarrow>
      fmlookup (st_sessions st) t = Some v \<and> \<not> conflicts (st_config st') v \<and> \<not> loses fpEntry (st_config st') v"
    and "fmlookup (st_sessions st) t = Some v \<Longrightarrow> fmlookup (st_sessions st') t = None \<Longrightarrow>
      \<not> native_key (st_config st') (se_WireGuardPublicKey v) \<Longrightarrow> fmlookup (st_peers st') (se_WireGuardPublicKey v) = None"
proof -
  let ?c = "reload_config c st"
  let ?st2 = "reload_conflicts order ?c st"
  let ?st3 = "reload_natives ipc (st_config st) ?st2"
  have cs: "config_ok (st_config st)" "config_ok ?c" using inv ok by (simp_all add: control_inv_def reload_ok_def)
  have ord: "range_order (order i s) s" for i s using ok by (simp add: reload_ok_def)
  have cidr: "cf_TunnelCIDR ?c = cf_TunnelCIDR (st_config st)" by (simp add: reload_config_def)
  note A = conflicts_inv [OF inv cs(2) cidr, of order, OF ord]
  have c2: "st_config ?st2 = ?c" by (simp add: reload_conflicts_def)
  have apart: "np_PublicKey p \<noteq> se_WireGuardPublicKey v"
    if "fmlookup (st_sessions st) t = Some v" "p \<in> set (cf_Natives (st_config st))" for t v p
    using invD(1) [OF inv that(1)] cs(1) that(2) by (auto simp: session_ok_def native_key_def list_ex_iff config_ok_def)
  have apart2: "np_PublicKey p \<noteq> se_WireGuardPublicKey v"
    if "fmlookup (st_sessions ?st2) t = Some v" "p \<in> set (cf_Natives (st_config st))" for t v p
    using apart A(2) that by blast
  have B1: "control_inv ?st3" by (rule natives_inv(1) [OF A(1) cs(1)]) (rule apart2)
  have B: "st_sessions ?st3 = st_sessions ?st2" "st_config ?st3 = ?c"
    using natives_inv(2,3) [OF A(1) cs(1)] apart2 by (auto simp: c2)
  have B4: "fmlookup (st_peers ?st3) k = fmlookup (st_peers ?st2) k"
    if "\<forall>p \<in> set (cf_Natives (st_config st)) \<union> set (cf_Natives ?c). np_PublicKey p \<noteq> k" for k
    by (rule natives_inv(4) [OF A(1) cs(1)]) (use apart2 that in \<open>auto simp: c2\<close>)
  note C = retire_all [OF B1, of "order 1 (st_sessions ?st3)", OF ord st' [unfolded Reload_phases [OF cs refl]]]
  show "control_inv st'" by (rule C(1))
  show c': "st_config st' = ?c" by (simp add: st' Reload_phases [OF cs refl] B)
  show iff: "fmlookup (st_sessions st') t = Some v \<longleftrightarrow>
      fmlookup (st_sessions st) t = Some v \<and> \<not> conflicts (st_config st') v \<and> \<not> loses fpEntry (st_config st') v" for t v
    using C(2) A(2) by (auto simp: B c')
  show "fmlookup (st_peers st') (se_WireGuardPublicKey v) = None"
    if v: "fmlookup (st_sessions st) t = Some v" "fmlookup (st_sessions st') t = None"
      "\<not> native_key (st_config st') (se_WireGuardPublicKey v)"
  proof (cases "conflicts ?c v")
    case False
    then have s3: "fmlookup (st_sessions ?st3) t = Some v" using v(1) A(2) by (simp add: B)
    moreover have "loses fpEntry ?c v" using iff [of t v] v False by (simp add: c')
    ultimately show ?thesis using C(3) by simp
  next
    case True
    have data: "st_data (st\<lparr>st_config := ?c\<rparr>)" using inv by (simp add: control_inv_def)
    have "v \<in> set (ses_All (order 0 (st_sessions st)) (st_sessions st))" using v(1) set_ses_All [OF ord] by blast
    then have "fmlookup (st_peers ?st2) (se_WireGuardPublicKey v) = None"
      using True invD(3,4) [OF inv v(1)] data by (auto simp: reload_conflicts_def retire_if_peers)
    moreover have "np_PublicKey p \<noteq> se_WireGuardPublicKey v" if "p \<in> set (cf_Natives ?c)" for p
      using v(3) cs(2) that by (auto simp: c' native_key_def list_ex_iff config_ok_def)
    ultimately have "fmlookup (st_peers ?st3) (se_WireGuardPublicKey v) = None"
      using B4 [of "se_WireGuardPublicKey v"] apart [OF v(1)] by auto
    then show ?thesis by (rule C(4))
  qed
qed

section \<open>The control plane as a transition system\<close>

datatype controlEvent = EvAuth controlResponse | EvOIDC controlResponse | EvRenew controlResponse
  | EvDisconnect controlResponse | EvRevoke controlResponse | EvReap | EvReload

text \<open>Every operation with its whole surroundings free; \<open>cr\<close> is the cryptography.\<close>

inductive control_step :: "'key crypto \<Rightarrow> serverState \<Rightarrow> controlEvent \<Rightarrow> serverState \<Rightarrow> bool" for cr where
  auth: "env_ok ev st \<Longrightarrow> auth cr entry clk rks nks host body ev st = (r, st') \<Longrightarrow> control_step cr st (EvAuth r) st'"
| oidc: "env_ok ev st \<Longrightarrow> authOIDC pt verifiers clk rks host obody ev st = (r, st') \<Longrightarrow> control_step cr st (EvOIDC r) st'"
| renew: "env_ok ev st \<Longrightarrow> renew now t rbody ev st = (r, st') \<Longrightarrow> control_step cr st (EvRenew r) st'"
| disconnect: "disconnect now t st = (r, st') \<Longrightarrow> control_step cr st (EvDisconnect r) st'"
| revoke: "revokeSession now ks i st = (r, st') \<Longrightarrow> control_step cr st (EvRevoke r) st'"
| reap: "range_order ks (st_sessions st) \<Longrightarrow> control_step cr st EvReap (reapSessionsLocked now ks st)"
| reload: "reload_ok order c st \<Longrightarrow> control_step cr st EvReload (Reload fpEntry order ipc c st)"

lemma control_step_inv: "control_step cr st e st' \<Longrightarrow> control_inv st \<Longrightarrow> control_inv st'"
  by (induction rule: control_step.induct)
     (auto intro: auth_inv authOIDC_inv renew_inv disconnect_inv revoke_inv reap_inv reload_spec(1))

interpretation control: inv_system "control_step cr" control_inv for cr
  by unfold_locales (use control_step_inv in blast)

text \<open>A started server: no session, a checked configuration.\<close>

definition started :: "serverState \<Rightarrow> bool" where
  "started st \<longleftrightarrow> st_data st \<and> config_ok (st_config st) \<and> st_sessions st = fmempty"

lemma started_inv: "started st \<Longrightarrow> control_inv st"
  by (simp add: started_def control_inv_def keyed_def)

lemma reachable_inv: "started st0 \<Longrightarrow> run (control_step cr) st0 es st \<Longrightarrow> control_inv st"
  using control.run_inv started_inv by blast

section \<open>Properties\<close>

lemma find_unique:
  assumes "\<And>x y. x \<in> set xs \<Longrightarrow> y \<in> set xs \<Longrightarrow> P x \<Longrightarrow> P y \<Longrightarrow> x = y"
  shows "find P xs = Some x \<longleftrightarrow> x \<in> set xs \<and> P x"
  using assms by (metis find_None_iff find_Some_iff nth_mem option.exhaust in_set_conv_nth)

lemma native_not_session:
  assumes "control_inv st" "fmlookup (st_sessions st) t = Some v" "p \<in> set (cf_Natives (st_config st))"
  shows "np_TunnelIP p \<noteq> se_TunnelIP v"
proof
  assume eq: "np_TunnelIP p = se_TunnelIP v"
  have "se_TunnelIP v \<in> taken (st_config st) []"
    using assms(3) invD(5,6) [OF assms(1,2)] eq
    by (auto simp: taken_def occupied_def Let_def intro!: image_eqI [of _ _ "np_TunnelIP p"])
  with invD(1) [OF assms(1,2)] show False by (simp add: session_ok_def)
qed

lemma principal_exact:
  assumes inv: "control_inv st" and ord: "range_order ks (st_sessions st)"
  shows "principalForIP now ks ip st = Some p \<longleftrightarrow>
    (\<exists>t v. fmlookup (st_sessions st) t = Some v \<and> now < se_Expires v \<and> se_TunnelIP v = ip \<and> p = session_principal v) \<or>
    (\<exists>n \<in> set (cf_Natives (st_config st)). np_TunnelIP n = ip \<and> p = native_principal n)"
proof -
  have S: "find (\<lambda>v. now < se_Expires v \<and> se_TunnelIP v = ip) (ses_All ks (st_sessions st)) = Some v \<longleftrightarrow>
      (\<exists>t. fmlookup (st_sessions st) t = Some v) \<and> now < se_Expires v \<and> se_TunnelIP v = ip" for v
    unfolding set_ses_All [OF ord, symmetric]
    by (rule find_unique) (use inv_unique [OF inv] set_ses_All [OF ord] in blast)
  have "distinct (map np_TunnelIP (cf_Natives (st_config st)))" using inv by (simp add: control_inv_def config_ok_def)
  then have N: "find (\<lambda>p. np_TunnelIP p = ip) (cf_Natives (st_config st)) = Some n \<longleftrightarrow>
      n \<in> set (cf_Natives (st_config st)) \<and> np_TunnelIP n = ip" for n
    by (intro find_unique) (auto simp: distinct_map inj_on_def)
  show ?thesis
  proof (cases "find (\<lambda>v. now < se_Expires v \<and> se_TunnelIP v = ip) (ses_All ks (st_sessions st))")
    case (Some v)
    with S have v: "\<exists>t. fmlookup (st_sessions st) t = Some v" "now < se_Expires v" "se_TunnelIP v = ip" by blast+
    have "w = v" if "fmlookup (st_sessions st) u = Some w" "se_TunnelIP w = ip" for u w
      using inv_unique [OF inv that(1)] v(1,3) that(2) by blast
    then show ?thesis using Some v native_not_session [OF inv] by (auto simp: principalForIP_def)
  next
    case None
    then have "\<not> ((\<exists>t. fmlookup (st_sessions st) t = Some v) \<and> now < se_Expires v \<and> se_TunnelIP v = ip)" for v using S by auto
    moreover have "principalForIP now ks ip st = Some p \<longleftrightarrow>
        (\<exists>n. find (\<lambda>p. np_TunnelIP p = ip) (cf_Natives (st_config st)) = Some n \<and> p = native_principal n)"
      using None by (auto simp: principalForIP_def split: option.splits)
    ultimately show ?thesis unfolding N by blast
  qed
qed

text \<open>C1: a tunnel address names one principal. In every reachable state of the control plane, whatever the
  order in which the store is iterated, a packet's source address is attributed to a principal exactly
  when that principal owns it: the only unexpired session with the address, whose WireGuard peer is
  installed with it under the session's own key, or the only native peer configured with it; never both.\<close>

theorem tunnel_ip_identifies_principal:
  assumes "started st0" and "run (control_step cr) st0 es st" and "range_order ks (st_sessions st)"
  shows "(\<forall>now ip p. principalForIP now ks ip st = Some p \<longleftrightarrow>
      (\<exists>t v. fmlookup (st_sessions st) t = Some v \<and> now < se_Expires v \<and> se_TunnelIP v = ip \<and> p = session_principal v) \<or>
      (\<exists>n \<in> set (cf_Natives (st_config st)). np_TunnelIP n = ip \<and> p = native_principal n)) \<and>
    (\<forall>t v. fmlookup (st_sessions st) t = Some v \<longrightarrow>
      fmlookup (st_peers st) (se_WireGuardPublicKey v) = Some (se_TunnelIP v) \<and>
      (\<forall>n \<in> set (cf_Natives (st_config st)). np_TunnelIP n \<noteq> se_TunnelIP v \<and> np_PublicKey n \<noteq> se_WireGuardPublicKey v) \<and>
      (\<forall>u w. fmlookup (st_sessions st) u = Some w \<and> u \<noteq> t \<longrightarrow>
         se_TunnelIP w \<noteq> se_TunnelIP v \<and> se_WireGuardPublicKey w \<noteq> se_WireGuardPublicKey v))"
proof -
  have inv: "control_inv st" by (rule reachable_inv [OF assms(1,2)])
  have "fmlookup (st_peers st) (se_WireGuardPublicKey v) = Some (se_TunnelIP v) \<and>
      (\<forall>n \<in> set (cf_Natives (st_config st)). np_TunnelIP n \<noteq> se_TunnelIP v \<and> np_PublicKey n \<noteq> se_WireGuardPublicKey v)"
    if v: "fmlookup (st_sessions st) t = Some v" for t v
    using invD(1) [OF inv v] native_not_session [OF inv v] inv
    by (auto simp: session_ok_def native_key_def list_ex_iff control_inv_def config_ok_def)
  then show ?thesis using principal_exact [OF inv assms(3)] inv_unique [OF inv] by blast
qed

text \<open>C3: a reload leaves no session the new configuration does not warrant. After a reload in any reachable
  state, exactly those sessions remain that have neither the key nor the address of a native peer of
  the new configuration, whose issuer or SSH key is still accepted, and all of whose tunnels their
  principal is granted now; the WireGuard peer of every other session is gone, unless its key is now a
  native peer's, and the reload leads to a state with the control plane's invariant.\<close>

theorem reload_enforces_grants:
  assumes "started st0" and "run (control_step cr) st0 es st" and "reload_ok order c st"
    and "st' = Reload fpEntry order ipc c st"
  shows "control_inv st' \<and>
    (\<forall>t v. fmlookup (st_sessions st') t = Some v \<longleftrightarrow> fmlookup (st_sessions st) t = Some v \<and>
       (\<forall>p \<in> set (cf_Natives (st_config st')). \<not> native_conflict p v) \<and>
       (\<exists>allowed. regrant fpEntry (st_config st') v = Some allowed \<and> pt_Name ` set (se_Tunnels v) \<subseteq> allowed)) \<and>
    (\<forall>t v. fmlookup (st_sessions st) t = Some v \<and> fmlookup (st_sessions st') t = None \<and>
       \<not> native_key (st_config st') (se_WireGuardPublicKey v) \<longrightarrow> fmlookup (st_peers st') (se_WireGuardPublicKey v) = None)"
proof -
  note spec = reload_spec [OF reachable_inv [OF assms(1,2)] assms(3,4)]
  have "\<not> loses fpEntry cf v \<longleftrightarrow>
      (\<exists>allowed. regrant fpEntry cf v = Some allowed \<and> pt_Name ` set (se_Tunnels v) \<subseteq> allowed)" for cf v
    by (auto simp: loses_def split: option.splits)
  with spec show ?thesis by (auto simp: conflicts_def)
qed

section \<open>What an authentication proves\<close>

lemma authorize_subset:
  assumes "authorize cf hook grs = Some (gs, ttl)"
  shows "set gs \<subseteq> set grs \<and> ttl \<le> cf_SessionTTL cf"
  using assms by (auto simp: authorize_def Let_def split: option.splits if_splits allowedTunnels.splits)

lemma finish_established:
  assumes "finish_session ev req key ip v ttl st = (r, st')"
  obtains n where "r = Established n" "se_Method n = rq_Method req" "se_Identity n = rq_Identity req" "se_Tunnels n = v"
    "se_Expires n = ev_clock ev 4 + ttl" "se_Token n = ev_token ev" "st_sessions st' = fmupd (ev_token ev) n (st_sessions st)"
  using assms by (auto simp: finish_session_def Let_def ses_Create_def)

definition no_new_session :: "serverState \<Rightarrow> serverState \<Rightarrow> bool" where
  "no_new_session st st' \<longleftrightarrow> (\<forall>t v. fmlookup (st_sessions st') t = Some v \<longrightarrow> fmlookup (st_sessions st) t = Some v)"

definition created_as :: "controlEnv \<Rightarrow> sessionRequest \<Rightarrow> ptunnel list \<Rightarrow> duration \<Rightarrow> serverState \<Rightarrow> controlResponse \<Rightarrow> serverState \<Rightarrow> bool" where
  "created_as ev req v ttl st r st' \<longleftrightarrow> (case r of
      Established n \<Rightarrow> se_Method n = rq_Method req \<and> se_Identity n = rq_Identity req \<and> se_Tunnels n = v \<and>
        se_Expires n = ev_clock ev 4 + ttl \<and> fmlookup (st_sessions st') (ev_token ev) = Some n \<and>
        (\<forall>t w. t \<noteq> ev_token ev \<and> fmlookup (st_sessions st') t = Some w \<longrightarrow> fmlookup (st_sessions st) t = Some w)
    | _ \<Rightarrow> no_new_session st st')"

lemma created_mono:
  assumes "created_as ev req v ttl st1 r st'" "no_new_session st st1" shows "created_as ev req v ttl st r st'"
  using assms by (auto simp: created_as_def no_new_session_def split: controlResponse.splits)

lemma join_created: "join_peer ev req key ip v ttl st = (r, st') \<Longrightarrow> created_as ev req v ttl st r st'"
  by (auto simp: join_peer_def Let_def created_as_def no_new_session_def split: prod.splits if_splits
      elim!: finish_established dest: arg_cong [where f = "\<lambda>p. st_sessions (snd p)"])

lemma created_refused: "created_as ev req v ttl st (Refused e) st' \<longleftrightarrow> no_new_session st st'"
  by (simp add: created_as_def)

lemma no_new_reap: "st_sessions st1 = st_sessions (reapSessionsLocked now ks st) \<Longrightarrow> no_new_session st st1"
  by (auto simp: no_new_session_def split: option.splits if_splits)

lemma no_new_delete: "no_new_session st (st\<lparr>st_sessions := ses_Delete t (st_sessions st)\<rparr>)" "no_new_session st st"
  by (auto simp: no_new_session_def ses_Delete_def)

lemma bind_created:
  assumes "bind_key ev req v ttl st = (r, st')"
  shows "created_as ev req v ttl st r st'"
proof -
  let ?st2 = "reapSessionsLocked (ev_clock ev 3) (ev_order ev 2 (st_sessions st)) st"
  have reap: "no_new_session st (?st2\<lparr>st_nextIP := x\<rparr>)" for x by (rule no_new_reap) simp
  show ?thesis
    using assms unfolding bind_key_def Let_def
    by (auto simp: created_refused reap no_new_delete split: option.splits if_splits prod.splits
        intro: created_mono [OF join_created reap] created_mono [OF join_created no_new_delete(1)])
qed

text \<open>What \<open>establishSession\<close> ensures of its answer.\<close>

lemma establish_created:
  assumes st: "st_data st" and step: "establishSession ev req grs st = (r, st')"
  shows "no_new_session st st' \<and> (\<forall>n. r \<noteq> Established n) \<or>
    (\<exists>gs ttl n. r = Established n \<and> \<not> rq_QueryOnly req \<and> authorize (st_config st) (ev_hook ev) grs = Some (gs, ttl) \<and>
      created_as ev req (map to_ptunnel gs) ttl st r st' \<and>
      (0 < cf_MaxSessionsPerKey (st_config st) \<longrightarrow>
        int (CountIdentity (ev_clock ev 0) (rq_Method req) (rq_Identity req) (st_sessions st)) < cf_MaxSessionsPerKey (st_config st)))"
proof -
  let ?st1 = "reapSessionsLocked (ev_clock ev 1) (ev_order ev 0 (st_sessions st)) st"
  have one: "no_new_session st ?st1" by (auto simp: no_new_session_def split: option.splits if_splits)
  have shape: "(\<forall>n. r \<noteq> Established n) \<and> st' = st \<or>
    (\<exists>gs ttl. \<not> rq_QueryOnly req \<and> authorize (st_config st) (ev_hook ev) grs = Some (gs, ttl) \<and>
      bind_key ev req (map to_ptunnel gs) ttl ?st1 = (r, st') \<and>
      (0 < cf_MaxSessionsPerKey (st_config st) \<longrightarrow>
        int (CountIdentity (ev_clock ev 0) (rq_Method req) (rq_Identity req) (st_sessions st)) < cf_MaxSessionsPerKey (st_config st)))"
    using step st by (auto simp: establishSession_def Let_def split: if_splits option.splits)
  show ?thesis
  proof (cases "\<exists>n. r = Established n")
    case True
    with shape show ?thesis using created_mono [OF bind_created one] by blast
  next
    case False
    have "no_new_session st st'" if "bind_key ev req v ttl ?st1 = (r, st')" for v ttl
      using created_mono [OF bind_created [OF that] one] False by (auto simp: created_as_def split: controlResponse.splits)
    with False shape no_new_delete(2) show ?thesis by blast
  qed
qed

text \<open>C2: a session is only ever opened for a proven key. When \<open>auth\<close> answers with a session, the source was
  within its rate, version and required capabilities matched, the timestamp was within two minutes of
  the clock, the key is one of the authorised directory and signed this very request, and its nonce was
  unused; the session carries the key's fingerprint as identity, only tunnels that the server's own
  comment or the fingerprint are granted by the configuration, expires no later than the configured
  lifetime allows whatever lifetime the hook asks for, and respects the limit per identity. Any other
  answer adds no session.\<close>

theorem auth_requires_proof:
  assumes "st_data st" and "auth cr entry clk rks nks host body ev st = (r, st')"
  shows "(no_new_session st st' \<and> (\<forall>n. r \<noteq> Established n)) \<or>
    (\<exists>a key comment n. r = Established n \<and> body = Some a \<and> \<not> ar_QueryOnly a \<and>
       auth_passes cr entry clk rks nks host (ev_transport ev) st a key comment \<and>
       fmlookup (st_sessions st') (ev_token ev) = Some n \<and>
       (\<forall>t v. t \<noteq> ev_token ev \<and> fmlookup (st_sessions st') t = Some v \<longrightarrow> fmlookup (st_sessions st) t = Some v) \<and>
       se_Method n = ''ssh'' \<and> se_Identity n = cr_Fingerprint cr key \<and>
       set (se_Tunnels n) \<subseteq> to_ptunnel ` set (grants (cf_Tunnels (st_config st)) (ssh_subject (cr_Fingerprint cr key) comment)) \<and>
       se_Expires n \<le> ev_clock ev 4 + cf_SessionTTL (st_config st) \<and>
       (0 < cf_MaxSessionsPerKey (st_config st) \<longrightarrow>
          int (CountIdentity (ev_clock ev 0) ''ssh'' (cr_Fingerprint cr key) (st_sessions st)) < cf_MaxSessionsPerKey (st_config st)))"
proof -
  from auth_shape [OF assms(2)] show ?thesis
  proof (elim disjE exE conjE, goal_cases)
    case 1
    then show ?case by (auto simp: same_control_def no_new_session_def)
  next
    case (2 a key comment)
    let ?st = "st\<lparr>st_rates := snd (source_Allow (clk 0) rks host (st_rates st)),
             st_nonces := snd (nonce_Use (clk 3) nks (ar_Nonce a) (st_nonces st))\<rparr>"
    have "st_data ?st" using assms(1) by simp
    from establish_created [OF this 2(3)] show ?case
    proof (elim disjE exE conjE, goal_cases)
      case 1
      then show ?case by (simp add: no_new_session_def)
    next
      case e: (2 gs ttl n)
      have "set gs \<subseteq> set (grants (cf_Tunnels (st_config st)) (ssh_subject (cr_Fingerprint cr key) comment)) \<and>
          ttl \<le> cf_SessionTTL (st_config st)" using authorize_subset [OF e(3)] by simp
      with e 2 have "r = Established n \<and> body = Some a \<and> \<not> ar_QueryOnly a \<and>
        auth_passes cr entry clk rks nks host (ev_transport ev) st a key comment \<and>
        fmlookup (st_sessions st') (ev_token ev) = Some n \<and>
        (\<forall>t v. t \<noteq> ev_token ev \<and> fmlookup (st_sessions st') t = Some v \<longrightarrow> fmlookup (st_sessions st) t = Some v) \<and>
        se_Method n = ''ssh'' \<and> se_Identity n = cr_Fingerprint cr key \<and>
        set (se_Tunnels n) \<subseteq> to_ptunnel ` set (grants (cf_Tunnels (st_config st)) (ssh_subject (cr_Fingerprint cr key) comment)) \<and>
        se_Expires n \<le> ev_clock ev 4 + cf_SessionTTL (st_config st) \<and>
        (0 < cf_MaxSessionsPerKey (st_config st) \<longrightarrow>
          int (CountIdentity (ev_clock ev 0) ''ssh'' (cr_Fingerprint cr key) (st_sessions st)) < cf_MaxSessionsPerKey (st_config st))"
        by (auto simp: created_as_def ssh_request_def)
      then show ?case by blast
    qed
  qed
qed

section \<open>Witnesses\<close>

definition ctl_key :: string where "ctl_key = replicate 43 CHR ''A'' @ ''=''"

definition ctl_tunnel :: tunnelConfig where
  "ctl_tunnel = \<lparr>tc_Name = ''db'', tc_Target = ''db:5432'', tc_VirtualPort = 5432, tc_Protocol = ''tcp'', tc_UDPIdleTimeout = 0,
     tc_LocalPort = 0, tc_LocalHost = [], tc_Allow = [''alice''], tc_DestinationPolicy = [], tc_Socks = None\<rparr>"

definition ctl_config :: "string list \<Rightarrow> serverConfig" where
  "ctl_config allow = \<lparr>cf_Tunnels = [ctl_tunnel\<lparr>tc_Allow := allow\<rparr>], cf_SessionTTL = 60 * second, cf_MaxSessionsPerKey = 1,
     cf_Authorizer = \<lparr>az_WebhookURL = [], az_Exec = []\<rparr>, cf_NativeEnabled = False, cf_Natives = [], cf_Issuers = [],
     cf_TunnelCIDR = Prefix4 0x64400000 29\<rparr>"

definition ctl_state :: serverState where
  "ctl_state = \<lparr>st_config = ctl_config [''alice''], st_sessions = fmempty, st_peers = fmempty, st_nextIP = IPInvalid,
     st_data = True, st_multipath = True, st_udpr = False, st_nonces = NewNonceCache 0 0, st_rates = NewSourceLimiter 10 minute 10, st_released = []\<rparr>"

definition ctl_crypto :: "string crypto" where
  "ctl_crypto = \<lparr>cr_ParseTimestamp = (\<lambda>_. Some 0), cr_ParsePublic = Some, cr_Fingerprint = (@) ''SHA256:'',
     cr_Verify = (\<lambda>k _ s. k = s)\<rparr>"

definition ctl_env :: controlEnv where
  "ctl_env = \<lparr>ev_clock = (\<lambda>_. 0), ev_order = (\<lambda>_ s. sorted_list_of_fset (fmdom s)), ev_id = ''i'', ev_token = ''t'',
     ev_ipc = (\<lambda>_ _. True), ev_hook = None, ev_transport = [], ev_negotiable = [], ev_unicode = \<lparr>uni_lower = id, uni_trim = id\<rparr>\<rparr>"

definition ctl_auth :: signedAuth where
  "ctl_auth = \<lparr>ar_Version = Version, ar_PublicKey = ''k'', ar_WireGuardPublicKey = ctl_key, ar_Timestamp = [], ar_Nonce = ''n'',
     ar_Info = \<lparr>ci_OS = [], ci_Arch = [], ci_Hostname = [], ci_Username = [], ci_ClientVersion = [], ci_Extra = fmempty\<rparr>,
     ar_Signature = ''k'', ar_LatencyMillis = 0, ar_Reconnections = 0, ar_TransportCapabilities = [],
     ar_RequiredTransportCapabilities = [], ar_QueryOnly = False\<rparr>"

abbreviation ctl_step :: "controlResponse \<times> serverState" where
  "ctl_step \<equiv> auth ctl_crypto (\<lambda>_. Some ''alice'') (\<lambda>_. 0) [] [] ''h'' (Some ctl_auth) ctl_env ctl_state"

lemma ctl_canonical: "CanonicalPublicKey ctl_key = Some ctl_key"
  by code_simp

lemma ctl_alloc: "allocateIP (Prefix4 0x64400000 29) (IP4 0x64400001) [] [] IPInvalid = (Some (IP4 0x64400002), IP4 0x64400003)"
  by code_simp

lemma ctl_source: "fst (source_Allow 0 [] ''h'' (NewSourceLimiter 10 minute 10))"
  by code_simp

lemma ctl_nonce: "fst (nonce_Use 0 [] ''n'' (NewNonceCache 0 0))"
  by code_simp

lemma ctl_order: "range_order (sorted_list_of_fset (fmdom s)) (s :: sessions)"
  by (auto simp: range_order_def sorted_list_of_fset.rep_eq fset_eq_iff fset_of_list_elem)

lemma filter_fmempty: "gm_filter P fmempty = fmempty"
  by (rule fmap_ext) simp

lemma reap_empty: "st_sessions st = fmempty \<Longrightarrow> reapSessionsLocked now ks st = st"
  by (auto simp: reapSessionsLocked_def Reap_def ses_All_def List.map_filter_def filter_fmempty)

lemma ctl_payload: "\<exists>b. SigningPayload (authRequest.truncate ctl_auth) = Inr b"
  by (simp add: SigningPayload_def ctl_auth_def authRequest.truncate_def auth_fields_def extra_fields_def
      sorted_list_of_fset.rep_eq maxField_def ctl_key_def)

lemma ctl_established:
  obtains n st where "ctl_step = (Established n, st)" "fmlookup (st_sessions st) ''t'' = Some n" "se_TunnelIP n = IP4 0x64400002"
    "se_WireGuardPublicKey n = ctl_key" "se_Tunnels n = [to_ptunnel ctl_tunnel]" "se_Method n = ''ssh''" "se_Expires n = 60 * second"
proof -
  obtain rates where rates: "source_Allow 0 [] ''h'' (NewSourceLimiter 10 minute 10) = (True, rates)"
    using ctl_source by (metis (full_types) prod.exhaust_sel)
  obtain nonces where nonces: "nonce_Use 0 [] ''n'' (NewNonceCache 0 0) = (True, nonces)"
    using ctl_nonce by (metis (full_types) prod.exhaust_sel)
  obtain b where b: "SigningPayload (authRequest.truncate ctl_auth) = Inr b" using ctl_payload by blast
  let ?st = "ctl_state\<lparr>st_rates := rates, st_nonces := nonces\<rparr>"
  let ?req = "ssh_request ''SHA256:k'' ''alice'' ctl_auth"
  have grant: "grants (cf_Tunnels (st_config ?st)) (ssh_subject ''SHA256:k'' ''alice'') = [ctl_tunnel]"
    by (simp add: grants_def ssh_subject_def ctl_state_def ctl_config_def ctl_tunnel_def matchesAllow_def)
  have "ctl_step = establishSession ctl_env ?req [ctl_tunnel] ?st"
    using rates nonces b grant
    by (simp add: auth_def ctl_state_def ctl_crypto_def ctl_auth_def ctl_env_def ssh_request_def ssh_subject_def Let_def)
  moreover have "establishSession ctl_env ?req [ctl_tunnel] ?st =
      bind_key ctl_env ?req [to_ptunnel ctl_tunnel] (60 * second) ?st"
    by (simp add: establishSession_def ctl_state_def ctl_config_def ctl_env_def ssh_request_def CountIdentity_def
        filter_fmempty authorize_def Authorize_def Let_def reap_empty ctl_auth_def)
  moreover have "bind_key ctl_env ?req [to_ptunnel ctl_tunnel] (60 * second) ?st =
      join_peer ctl_env ?req ctl_key (IP4 0x64400002) [to_ptunnel ctl_tunnel] (60 * second) (?st\<lparr>st_nextIP := IP4 0x64400003\<rparr>)"
    using ctl_canonical ctl_alloc canonical_nonempty [OF ctl_canonical]
    by (simp add: bind_key_def reap_empty ctl_state_def ctl_config_def ctl_env_def ssh_request_def ctl_auth_def
        FindWireGuardPublicKey_def server_ip_def session_ips_def ses_All_def map_filter_simps sorted_list_of_fset.rep_eq Let_def)
  moreover have "\<exists>n st. join_peer ctl_env ?req ctl_key (IP4 0x64400002) [to_ptunnel ctl_tunnel] (60 * second)
      (?st\<lparr>st_nextIP := IP4 0x64400003\<rparr>) = (Established n, st) \<and> fmlookup (st_sessions st) ''t'' = Some n \<and>
      se_TunnelIP n = IP4 0x64400002 \<and> se_WireGuardPublicKey n = ctl_key \<and> se_Tunnels n = [to_ptunnel ctl_tunnel] \<and>
      se_Method n = ''ssh'' \<and> se_Expires n = 60 * second"
    by (simp add: join_peer_def addPeer_def addr_IsValid_def ctl_canonical ctl_env_def finish_session_def ses_Create_def
        canonical_or_Some [OF ctl_canonical] ssh_request_def ctl_state_def Let_def)
  ultimately show ?thesis using that by (elim exE conjE) simp
qed

lemma ctl_started: "started ctl_state"
proof -
  have "Unmap a = a" if "prefix_Contains (Prefix4 p n) a" for a p n using that by (cases a) (auto simp: Unmap_def)
  then show ?thesis by (simp add: started_def ctl_state_def ctl_config_def config_ok_def prefix_plain_def)
qed

lemma ctl_run:
  assumes "ctl_step = (r, st)" shows "run (control_step ctl_crypto) ctl_state [EvAuth r] st"
proof -
  have "env_ok ctl_env ctl_state" using ctl_order by (simp add: env_ok_def ctl_env_def ctl_state_def)
  from control_step.auth [OF this assms] show ?thesis by (rule run_cons) (rule run_nil)
qed

theorem tunnel_ip_identifies_principal_witness:
  "\<exists>es st ks. started ctl_state \<and> run (control_step ctl_crypto) ctl_state es st \<and> range_order ks (st_sessions st) \<and>
     (\<exists>p. principalForIP 0 ks (IP4 0x64400002) st = Some p \<and> pr_Tunnels p = {|''db''|})"
proof -
  obtain n st where n: "ctl_step = (Established n, st)" "fmlookup (st_sessions st) ''t'' = Some n" "se_TunnelIP n = IP4 0x64400002"
    "se_Tunnels n = [to_ptunnel ctl_tunnel]" "se_Expires n = 60 * second" by (rule ctl_established) blast
  note run = ctl_run [OF n(1)]
  have "principalForIP 0 (sorted_list_of_fset (fmdom (st_sessions st))) (IP4 0x64400002) st = Some (session_principal n)"
  proof -
    have "\<exists>t v. fmlookup (st_sessions st) t = Some v \<and> 0 < se_Expires v \<and> se_TunnelIP v = IP4 0x64400002 \<and>
        session_principal n = session_principal v" using n by (intro exI [of _ "''t''"] exI [of _ n]) simp
    then show ?thesis using tunnel_ip_identifies_principal [OF ctl_started run ctl_order] by blast
  qed
  moreover have "pr_Tunnels (session_principal n) = {|''db''|}"
    using n by (simp add: session_principal_def to_ptunnel_def ctl_tunnel_def)
  ultimately show ?thesis using ctl_started run ctl_order by blast
qed

theorem reload_enforces_grants_witness:
  "\<exists>es st order n. started ctl_state \<and> run (control_step ctl_crypto) ctl_state es st \<and> reload_ok order (ctl_config []) st \<and>
     fmlookup (st_sessions st) ''t'' = Some n \<and> fmlookup (st_peers st) ctl_key = Some (IP4 0x64400002) \<and>
     fmlookup (st_sessions (Reload (\<lambda>_. Some ''alice'') order (\<lambda>_ _. True) (ctl_config []) st)) ''t'' = None \<and>
     fmlookup (st_peers (Reload (\<lambda>_. Some ''alice'') order (\<lambda>_ _. True) (ctl_config []) st)) ctl_key = None"
proof -
  obtain n st where n: "ctl_step = (Established n, st)" "fmlookup (st_sessions st) ''t'' = Some n" "se_TunnelIP n = IP4 0x64400002"
    "se_WireGuardPublicKey n = ctl_key" "se_Tunnels n = [to_ptunnel ctl_tunnel]" "se_Method n = ''ssh''" by (rule ctl_established) blast
  note run = ctl_run [OF n(1)]
  have inv: "control_inv st" by (rule reachable_inv [OF ctl_started run])
  let ?order = "\<lambda>(i :: nat) (s :: sessions). sorted_list_of_fset (fmdom s)"
  let ?st = "Reload (\<lambda>_. Some ''alice'') ?order (\<lambda>_ _. True) (ctl_config []) st"
  have ok: "reload_ok ?order (ctl_config []) st"
    using inv ctl_order by (auto simp: reload_ok_def control_inv_def config_ok_def reload_config_def ctl_config_def)
  have cf: "st_config ?st = (ctl_config [])\<lparr>cf_TunnelCIDR := cf_TunnelCIDR (st_config st)\<rparr>"
    using reload_spec(2) [OF inv ok refl] by (simp add: reload_config_def)
  have "regrant (\<lambda>_. Some ''alice'') (st_config ?st) n = Some {}"
    using n unfolding cf by (simp add: regrant_def grants_def ctl_config_def)
  then have "\<not> (\<exists>allowed. regrant (\<lambda>_. Some ''alice'') (st_config ?st) n = Some allowed \<and> pt_Name ` set (se_Tunnels n) \<subseteq> allowed)"
    using n(5) by simp
  then have "fmlookup (st_sessions ?st) ''t'' \<noteq> Some n"
    using reload_enforces_grants [OF ctl_started run ok refl, of "\<lambda>_. Some ''alice''" "\<lambda>_ _. True"] by blast
  moreover have "v = n" if "fmlookup (st_sessions ?st) ''t'' = Some v" for v
    using reload_spec(3) [OF inv ok refl] that n(2) by simp
  ultimately have none: "fmlookup (st_sessions ?st) ''t'' = None" by (cases "fmlookup (st_sessions ?st) ''t''") auto
  have "\<not> native_key (st_config ?st) ctl_key" unfolding cf by (simp add: native_key_def ctl_config_def)
  with none have "fmlookup (st_peers ?st) ctl_key = None"
    using reload_spec(4) [OF inv ok refl n(2)] n(4) by simp
  moreover have "fmlookup (st_peers st) ctl_key = Some (IP4 0x64400002)"
    using invD(1) [OF inv n(2)] n by (simp add: session_ok_def)
  ultimately show ?thesis using ctl_started run ok n(2) none by blast
qed

theorem auth_requires_proof_witness:
  "\<exists>n st. ctl_step = (Established n, st) \<and> se_Identity n = ''SHA256:k'' \<and> se_Expires n \<le> 60 * second \<and>
     set (se_Tunnels n) \<subseteq> {to_ptunnel ctl_tunnel}"
proof -
  obtain n st where n: "ctl_step = (Established n, st)" "fmlookup (st_sessions st) ''t'' = Some n" "se_Expires n = 60 * second"
    "se_Tunnels n = [to_ptunnel ctl_tunnel]" by (rule ctl_established) blast
  have "st_data ctl_state" by (simp add: ctl_state_def)
  from auth_requires_proof [OF this n(1)] obtain a key comment m where "Established n = Established m" "Some ctl_auth = Some a"
    "auth_passes ctl_crypto (\<lambda>_. Some ''alice'') (\<lambda>_. 0) [] [] ''h'' (ev_transport ctl_env) ctl_state a key comment"
    "se_Identity m = cr_Fingerprint ctl_crypto key"
    by (elim disjE exE conjE) blast+
  then have "se_Identity n = ''SHA256:k''" by (auto simp: auth_passes_def ctl_crypto_def ctl_auth_def)
  with n show ?thesis by auto
qed

end
