(* ===== verification/Socks_Server.thy ===== *)
theory Socks_Server
  imports Socks_Filter
begin

text \<open>
  The embedded SOCKS4/SOCKS5 proxy of \<^verbatim>\<open>pkg/socks\<close> (\<^verbatim>\<open>socks.go\<close>, \<^verbatim>\<open>socks4.go\<close>, \<^verbatim>\<open>socks5.go\<close>):
  request parsing, destination filtering, CONNECT, BIND and UDP ASSOCIATE, and the replies. A
  session is a function from the bytes the client sends to the trace of its externally visible
  actions. The resolver, the dialler, the listener and the accepted peer are arguments, as they
  are fields of the server or system calls in the code.
\<close>

unbundle bit_operations_syntax

section \<open>Addresses as bytes\<close>

text \<open>\<open>AddrFrom4\<close>, \<open>AddrFrom16\<close>, \<open>As4\<close>, \<open>As16\<close> and the big-endian port.\<close>

definition be_word :: "bytes \<Rightarrow> 'a::len word" where
  "be_word bs = foldl (\<lambda>w b. push_bit 8 w OR ucast b) 0 bs"

fun be_bytes :: "nat \<Rightarrow> 'a::len word \<Rightarrow> bytes" where
  "be_bytes 0 w = []"
| "be_bytes (Suc n) w = ucast (drop_bit (8 * n) w) # be_bytes n w"

abbreviation AddrFrom4 :: "bytes \<Rightarrow> ipAddr" where
  "AddrFrom4 b \<equiv> IP4 (be_word b)"

abbreviation AddrFrom16 :: "bytes \<Rightarrow> ipAddr" where
  "AddrFrom16 b \<equiv> IP6 (be_word b) ''''"

text \<open>\<open>As4\<close> panics on the zero address and on an IPv6 address that is not 4-in-6.\<close>

definition As4 :: "ipAddr \<Rightarrow> bytes option" where
  "As4 a = (case Unmap a of IP4 w \<Rightarrow> Some (be_bytes 4 w) | _ \<Rightarrow> None)"

section \<open>The server and its environment\<close>

datatype dialTarget = DialAddr addrPort | DialHost string "16 word"

text \<open>A dialled or accepted connection carries the address the code reads from it: a TCP address
  (its IP as \<open>AddrFromSlice\<close> reads it) or \<open>None\<close> when it is not a TCP address.\<close>

type_synonym connAddr = "(ipAddr \<times> 16 word) option"

datatype dialResult = DialOk connAddr | DialTimeout | DialErr

datatype listenResult = ListenErr | ListenNotTCP | ListenBadIP | Listening ipAddr "16 word"

datatype acceptResult = Accepted connAddr | AcceptTimeout | AcceptErr

record udpAssociation =
  ua_Addr :: ipAddr
  ua_Port :: "16 word"

record 'ctx socksServer =
  sv_filter :: socksFilter
  sv_allowBind :: bool
  sv_dialRemoteHostname :: bool
  sv_udpAssociate :: "('ctx \<Rightarrow> string \<Rightarrow> ipAddr \<Rightarrow> 16 word \<Rightarrow> udpAssociation option) option"
  sv_resolver :: "string \<Rightarrow> ipAddr list option"
  sv_dial :: "dialTarget \<Rightarrow> dialResult"
  sv_authorize :: "('ctx \<Rightarrow> string \<Rightarrow> ipAddr \<Rightarrow> 16 word \<Rightarrow> string \<Rightarrow> bool) option"
  sv_dnsTimeout :: duration
  sv_dialTimeout :: duration
  sv_bindTimeout :: duration

record 'ctx socksServerConfig =
  sg_Filter :: filterConfig
  sg_ASNLookup :: "asnLookup option"
  sg_Authorize :: "('ctx \<Rightarrow> string \<Rightarrow> ipAddr \<Rightarrow> 16 word \<Rightarrow> string \<Rightarrow> bool) option"
  sg_DNSTimeout :: duration
  sg_DialTimeout :: duration
  sg_BindTimeout :: duration
  sg_AllowBind :: bool
  sg_DialRemoteHostname :: bool
  sg_UDPAssociate :: "('ctx \<Rightarrow> string \<Rightarrow> ipAddr \<Rightarrow> 16 word \<Rightarrow> udpAssociation option) option"
  sg_Resolver :: "(string \<Rightarrow> ipAddr list option) option"
  sg_Dial :: "(dialTarget \<Rightarrow> dialResult) option"

text \<open>\<open>New\<close>, with the default resolver and dialler of the standard library as arguments.\<close>

definition socks_New ::
  "(string \<Rightarrow> ipAddr list option) \<Rightarrow> (dialTarget \<Rightarrow> dialResult) \<Rightarrow> 'ctx socksServerConfig \<Rightarrow>
   string + 'ctx socksServer" where
  "socks_New defaultResolver defaultDial cfg = (case NewFilter (sg_Filter cfg) (sg_ASNLookup cfg) of
       Inl e \<Rightarrow> Inl e
     | Inr f \<Rightarrow> Inr \<lparr>sv_filter = f, sv_allowBind = sg_AllowBind cfg,
         sv_dialRemoteHostname = sg_DialRemoteHostname cfg, sv_udpAssociate = sg_UDPAssociate cfg,
         sv_resolver = (case sg_Resolver cfg of None \<Rightarrow> defaultResolver | Some r \<Rightarrow> r),
         sv_dial = (case sg_Dial cfg of None \<Rightarrow> defaultDial | Some d \<Rightarrow> d),
         sv_authorize = sg_Authorize cfg,
         sv_dnsTimeout = (if sg_DNSTimeout cfg \<le> 0 then 10 * second else sg_DNSTimeout cfg),
         sv_dialTimeout = (if sg_DialTimeout cfg \<le> 0 then 10 * second else sg_DialTimeout cfg),
         sv_bindTimeout = (if sg_BindTimeout cfg \<le> 0 then 2 * minute else sg_BindTimeout cfg)\<rparr>)"

text \<open>What the session's surroundings do: whether the write of the method selection succeeds, what
  a listen call and the accept on it return.\<close>

record socksWorld =
  sw_writeOk :: bool
  sw_listen :: listenResult
  sw_accept :: acceptResult

text \<open>The visible actions: bytes written to the client, a connection attempt, an opened and a
  closed BIND listener, the start of the relay with the client bytes that follow the handshake, an
  opened and a closed UDP association, the close of the connection, and a run-time panic.\<close>

datatype socksEvent = EvWrite bytes | EvDial dialTarget | EvListen | EvUnlisten | EvRelay bytes
  | EvAssociate | EvDisassociate | EvClose | EvPanic

section \<open>Outcomes\<close>

datatype socksOutcome = OutcomeGranted | OutcomeGeneralFailure | OutcomeNotAllowed
  | OutcomeHostUnreachable | OutcomeConnRefused | OutcomeTTLExpired
  | OutcomeCommandNotSupported | OutcomeAddressTypeNotSupported

definition filterDestinationProtocol ::
  "'ctx socksServer \<Rightarrow> 'ctx \<Rightarrow> string \<Rightarrow> ipAddr \<Rightarrow> 16 word \<Rightarrow> string \<Rightarrow> ipAddr \<times> socksOutcome" where
  "filterDestinationProtocol s ctx hostname ip port protocol =
     (let resolved = (if addr_IsValid ip then Some ip
           else case sv_resolver s hostname of None \<Rightarrow> None | Some [] \<Rightarrow> None | Some (a # _) \<Rightarrow> Some a) in
      case resolved of
        None \<Rightarrow> (IPInvalid, OutcomeHostUnreachable)
      | Some r \<Rightarrow>
          (let ok = Allowed (sv_filter s) hostname r;
               allowed = (if ok then (case sv_authorize s of None \<Rightarrow> True
                 | Some az \<Rightarrow> az ctx hostname r port protocol) else False)
           in if \<not> allowed then (r, OutcomeNotAllowed) else (r, OutcomeGranted)))"

definition filterDestination ::
  "'ctx socksServer \<Rightarrow> 'ctx \<Rightarrow> string \<Rightarrow> ipAddr \<Rightarrow> 16 word \<Rightarrow> ipAddr \<times> socksOutcome" where
  "filterDestination s ctx hostname ip port = filterDestinationProtocol s ctx hostname ip port ''tcp''"

definition AuthorizeUDP ::
  "'ctx socksServer \<Rightarrow> 'ctx \<Rightarrow> string \<Rightarrow> ipAddr \<Rightarrow> 16 word \<Rightarrow> ipAddr \<times> bool" where
  "AuthorizeUDP s ctx hostname ip port =
     (let (resolved, oc) = filterDestinationProtocol s ctx hostname ip port ''udp'' in (resolved, oc = OutcomeGranted))"

text \<open>\<open>connect\<close> returns the connection's address on success, and the dial attempt it made.\<close>

definition socks_connect ::
  "'ctx socksServer \<Rightarrow> 'ctx \<Rightarrow> string \<Rightarrow> ipAddr \<Rightarrow> 16 word \<Rightarrow> (socksOutcome + connAddr) \<times> socksEvent list" where
  "socks_connect s ctx hostname ip port =
     (let (resolved, oc) = filterDestination s ctx hostname ip port in
      if oc \<noteq> OutcomeGranted then (Inl oc, [])
      else let target = (if sv_dialRemoteHostname s \<and> hostname \<noteq> [] then DialHost hostname port
             else DialAddr (AddrPort (Unmap resolved) port)) in
        ((case sv_dial s target of DialOk c \<Rightarrow> Inr c | DialTimeout \<Rightarrow> Inl OutcomeTTLExpired
           | DialErr \<Rightarrow> Inl OutcomeGeneralFailure), [EvDial target]))"

definition startBind :: "socksWorld \<Rightarrow> (socksOutcome + ipAddr \<times> 16 word) \<times> socksEvent list" where
  "startBind w = (case sw_listen w of
       ListenErr \<Rightarrow> (Inl OutcomeGeneralFailure, [])
     | ListenNotTCP \<Rightarrow> (Inl OutcomeGeneralFailure, [EvListen, EvUnlisten])
     | ListenBadIP \<Rightarrow> (Inl OutcomeGeneralFailure, [EvListen, EvUnlisten])
     | Listening a p \<Rightarrow> (Inr (Unmap a, p), [EvListen]))"

definition acceptBind :: "socksWorld \<Rightarrow> (socksOutcome + connAddr) \<times> socksEvent list" where
  "acceptBind w = ((case sw_accept w of Accepted c \<Rightarrow> Inr c | AcceptTimeout \<Rightarrow> Inl OutcomeTTLExpired
     | AcceptErr \<Rightarrow> Inl OutcomeGeneralFailure), [EvUnlisten])"

text \<open>\<open>localAddrParts\<close> and \<open>remoteAddrParts\<close> read the address of the one or the other side.\<close>

definition addrParts :: "connAddr \<Rightarrow> ipAddr \<times> 16 word" where
  "addrParts c = (case c of Some (ip, port) \<Rightarrow> (Unmap ip, port) | None \<Rightarrow> (IP4 0, 0))"

section \<open>Reading\<close>

fun readByte :: "bytes \<Rightarrow> (byte \<times> bytes) option" where
  "readByte [] = None"
| "readByte (b # bs) = Some (b, bs)"

definition readFull :: "nat \<Rightarrow> bytes \<Rightarrow> (bytes \<times> bytes) option" where
  "readFull n bs = (if n \<le> length bs then Some (take n bs, drop n bs) else None)"

fun skipCString :: "bytes \<Rightarrow> bytes option" where
  "skipCString [] = None"
| "skipCString (b # bs) = (if b = 0 then Some bs else skipCString bs)"

section \<open>SOCKS4\<close>

definition writeSocks4Reply :: "byte \<Rightarrow> 16 word \<Rightarrow> bytes \<Rightarrow> socksEvent" where
  "writeSocks4Reply code port ip = EvWrite ([0, code] @ be_bytes 2 port @ take 4 ip)"

definition socks4Granted :: byte where "socks4Granted = 0x5a"
definition socks4Rejected :: byte where "socks4Rejected = 0x5b"

definition as4_or_zero :: "ipAddr \<Rightarrow> bytes" where
  "as4_or_zero a = (case a of IP4 w \<Rightarrow> be_bytes 4 w | _ \<Rightarrow> [0, 0, 0, 0])"

definition doSocks4Bind ::
  "'ctx socksServer \<Rightarrow> 'ctx \<Rightarrow> socksWorld \<Rightarrow> bytes \<Rightarrow> ipAddr \<Rightarrow> 16 word \<Rightarrow> bytes \<Rightarrow> socksEvent list" where
  "doSocks4Bind s ctx w rest dstIP dstPort reqIP =
     (if snd (filterDestination s ctx [] dstIP dstPort) \<noteq> OutcomeGranted
      then [writeSocks4Reply socks4Rejected dstPort reqIP]
      else let (bl, evs) = startBind w in evs @
        (case bl of
           Inl _ \<Rightarrow> [writeSocks4Reply socks4Rejected dstPort reqIP]
         | Inr (addr, port) \<Rightarrow>
             writeSocks4Reply socks4Granted port (as4_or_zero addr) #
             (let (peer, evs2) = acceptBind w in evs2 @
               (case peer of
                  Inl _ \<Rightarrow> [writeSocks4Reply socks4Rejected dstPort reqIP]
                | Inr c \<Rightarrow> let (pa, pp) = addrParts c in
                    [writeSocks4Reply socks4Granted pp (as4_or_zero pa), EvRelay rest]))))"

definition serveSocks4 :: "'ctx socksServer \<Rightarrow> 'ctx \<Rightarrow> socksWorld \<Rightarrow> bytes \<Rightarrow> socksEvent list" where
  "serveSocks4 s ctx w b0 =
     (case readByte b0 of None \<Rightarrow> [] | Some (cmd, b1) \<Rightarrow>
      case readFull 2 b1 of None \<Rightarrow> [] | Some (portBuf, b2) \<Rightarrow>
      case readFull 4 b2 of None \<Rightarrow> [] | Some (ipBuf, b3) \<Rightarrow>
      case skipCString b3 of None \<Rightarrow> [] | Some rest \<Rightarrow>
      let port = be_word portBuf; ip = AddrFrom4 ipBuf in
      if cmd = 1 then
        (let (out, evs) = socks_connect s ctx [] ip port in evs @
          (case out of Inl _ \<Rightarrow> [writeSocks4Reply socks4Rejected port ipBuf]
           | Inr _ \<Rightarrow> [writeSocks4Reply socks4Granted port ipBuf, EvRelay rest]))
      else if cmd = 2 then
        (if \<not> sv_allowBind s then [writeSocks4Reply socks4Rejected port ipBuf]
         else doSocks4Bind s ctx w rest ip port ipBuf)
      else [writeSocks4Reply socks4Rejected port ipBuf])"

section \<open>SOCKS5\<close>

fun socks5ReplyCode :: "socksOutcome \<Rightarrow> byte" where
  "socks5ReplyCode OutcomeNotAllowed = 2"
| "socks5ReplyCode OutcomeHostUnreachable = 4"
| "socks5ReplyCode OutcomeConnRefused = 5"
| "socks5ReplyCode OutcomeTTLExpired = 6"
| "socks5ReplyCode OutcomeCommandNotSupported = 7"
| "socks5ReplyCode OutcomeAddressTypeNotSupported = 8"
| "socks5ReplyCode _ = 1"

definition writeSocks5Reply :: "byte \<Rightarrow> ipAddr \<Rightarrow> 16 word \<Rightarrow> socksEvent" where
  "writeSocks5Reply rep addr port = (case addr of
       IP6 w _ \<Rightarrow> EvWrite ([5, rep, 0, 4] @ be_bytes 16 w @ be_bytes 2 port)
     | IP4 w \<Rightarrow> EvWrite ([5, rep, 0, 1] @ be_bytes 4 w @ be_bytes 2 port)
     | IPInvalid \<Rightarrow> EvPanic)"

abbreviation IPv4Unspecified :: ipAddr where
  "IPv4Unspecified \<equiv> IP4 0"

definition doSocks5Bind ::
  "'ctx socksServer \<Rightarrow> 'ctx \<Rightarrow> socksWorld \<Rightarrow> bytes \<Rightarrow> string \<Rightarrow> ipAddr \<Rightarrow> 16 word \<Rightarrow> socksEvent list" where
  "doSocks5Bind s ctx w rest hostname dstIP dstPort =
     (let oc = snd (filterDestination s ctx hostname dstIP dstPort) in
      if oc \<noteq> OutcomeGranted then [writeSocks5Reply (socks5ReplyCode oc) IPv4Unspecified 0]
      else let (bl, evs) = startBind w in evs @
        (case bl of
           Inl oc2 \<Rightarrow> [writeSocks5Reply (socks5ReplyCode oc2) IPv4Unspecified 0]
         | Inr (addr, port) \<Rightarrow>
             writeSocks5Reply 0 addr port #
             (let (peer, evs2) = acceptBind w in evs2 @
               (case peer of
                  Inl oc3 \<Rightarrow> [writeSocks5Reply (socks5ReplyCode oc3) IPv4Unspecified 0]
                | Inr c \<Rightarrow> let (pa, pp) = addrParts c in [writeSocks5Reply 0 pa pp, EvRelay rest]))))"

text \<open>The destination of a request: an address, a host name, or an unknown address type.\<close>

datatype socksDest = DestIP ipAddr | DestName string | DestUnsupported

definition readDest :: "byte \<Rightarrow> bytes \<Rightarrow> (socksDest \<times> bytes) option" where
  "readDest atyp b =
     (if atyp = 1 then map_option (\<lambda>(x, r). (DestIP (AddrFrom4 x), r)) (readFull 4 b)
      else if atyp = 4 then map_option (\<lambda>(x, r). (DestIP (AddrFrom16 x), r)) (readFull 16 b)
      else if atyp = 3 then
        (case readByte b of None \<Rightarrow> None
         | Some (l, b1) \<Rightarrow> map_option (\<lambda>(x, r). (DestName (string_of_bytes x), r)) (readFull (unat l) b1))
      else Some (DestUnsupported, b))"

definition socks5Command ::
  "'ctx socksServer \<Rightarrow> 'ctx \<Rightarrow> socksWorld \<Rightarrow> byte \<Rightarrow> string \<Rightarrow> ipAddr \<Rightarrow> 16 word \<Rightarrow> bytes \<Rightarrow> socksEvent list" where
  "socks5Command s ctx w cmd hostname ip port rest =
     (if cmd = 1 then
        (let (out, evs) = socks_connect s ctx hostname ip port in evs @
          (case out of Inl oc \<Rightarrow> [writeSocks5Reply (socks5ReplyCode oc) IPv4Unspecified 0]
           | Inr c \<Rightarrow> let (ba, bp) = addrParts c in [writeSocks5Reply 0 ba bp, EvRelay rest]))
      else if cmd = 2 then
        (if \<not> sv_allowBind s then [writeSocks5Reply 7 IPv4Unspecified 0]
         else doSocks5Bind s ctx w rest hostname ip port)
      else if cmd = 3 then
        (case sv_udpAssociate s of
           None \<Rightarrow> [writeSocks5Reply 7 IPv4Unspecified 0]
         | Some assoc \<Rightarrow> (case assoc ctx hostname ip port of
             None \<Rightarrow> [writeSocks5Reply 2 IPv4Unspecified 0]
           | Some a \<Rightarrow> [EvAssociate, writeSocks5Reply 0 (ua_Addr a) (ua_Port a), EvDisassociate]))
      else [writeSocks5Reply 7 IPv4Unspecified 0])"

definition serveSocks5 :: "'ctx socksServer \<Rightarrow> 'ctx \<Rightarrow> socksWorld \<Rightarrow> bytes \<Rightarrow> socksEvent list" where
  "serveSocks5 s ctx w b0 =
     (case readByte b0 of None \<Rightarrow> [] | Some (nmethods, b1) \<Rightarrow>
      case readFull (unat nmethods) b1 of None \<Rightarrow> [] | Some (methods, b2) \<Rightarrow>
      if \<not> list_ex (\<lambda>m. m = 0) methods then [EvWrite [5, 0xff]]
      else if \<not> sw_writeOk w then []
      else EvWrite [5, 0] #
       (case readFull 4 b2 of None \<Rightarrow> [] | Some (hdr, b3) \<Rightarrow>
        if hdr ! 0 \<noteq> 5 then []
        else case readDest (hdr ! 3) b3 of None \<Rightarrow> [] | Some (dest, b4) \<Rightarrow>
          (case dest of
             DestUnsupported \<Rightarrow> [writeSocks5Reply 8 IPv4Unspecified 0]
           | DestIP ip \<Rightarrow> (case readFull 2 b4 of None \<Rightarrow> []
               | Some (portBuf, rest) \<Rightarrow> socks5Command s ctx w (hdr ! 1) [] ip (be_word portBuf) rest)
           | DestName hostname \<Rightarrow> (case readFull 2 b4 of None \<Rightarrow> []
               | Some (portBuf, rest) \<Rightarrow> socks5Command s ctx w (hdr ! 1) hostname IPInvalid (be_word portBuf) rest))))"

definition ServeConn :: "'ctx socksServer \<Rightarrow> 'ctx \<Rightarrow> socksWorld \<Rightarrow> bytes \<Rightarrow> socksEvent list" where
  "ServeConn s ctx w b =
     (case readByte b of None \<Rightarrow> []
      | Some (ver, rest) \<Rightarrow> if ver = 4 then serveSocks4 s ctx w rest
          else if ver = 5 then serveSocks5 s ctx w rest else []) @ [EvClose]"

section \<open>Bytes and addresses\<close>

lemma length_be_bytes [simp]: "length (be_bytes n w) = n"
  by (induction n) auto

lemma be_foldl:
  fixes w :: "'a::len word"
  shows "foldl (\<lambda>w b. push_bit 8 w OR ucast b) acc (be_bytes n w) = push_bit (8 * n) acc OR take_bit (8 * n) w"
proof (induction n arbitrary: acc)
  case (Suc n)
  have "push_bit (8 * n) (push_bit 8 acc OR ucast (ucast (drop_bit (8 * n) w) :: byte)) OR take_bit (8 * n) w =
      push_bit (8 * Suc n) acc OR take_bit (8 * Suc n) w"
    by (rule bit_word_eqI) (auto simp: bit_simps not_less add.commute dest: bit_imp_le_length)
  with Suc show ?case by simp
qed simp

lemma be_word_be_bytes:
  fixes w :: "'a::len word"
  assumes "8 * n = LENGTH('a)"
  shows "be_word (be_bytes n w) = w"
  by (simp add: be_word_def be_foldl assms)

lemma be_word_port [simp]: "be_word (be_bytes 2 (p :: 16 word)) = p"
  by (rule be_word_be_bytes) simp

lemma be_word_v4 [simp]: "be_word (be_bytes 4 (w :: 32 word)) = w"
  by (rule be_word_be_bytes) simp

lemma be_word_v6 [simp]: "be_word (be_bytes 16 (w :: 128 word)) = w"
  by (rule be_word_be_bytes) simp

lemma readFull_append [simp]: "length xs = n \<Longrightarrow> readFull n (xs @ ys) = Some (xs, ys)"
  by (simp add: readFull_def)

section \<open>Authorised egress\<close>

text \<open>The filter and the host's callback approve the address \<open>r\<close> under the requested name.\<close>

definition authorised :: "'ctx socksServer \<Rightarrow> 'ctx \<Rightarrow> string \<Rightarrow> ipAddr \<Rightarrow> 16 word \<Rightarrow> string \<Rightarrow> bool" where
  "authorised s ctx hostname r port protocol \<longleftrightarrow> Allowed (sv_filter s) hostname r \<and>
     (case sv_authorize s of None \<Rightarrow> True | Some az \<Rightarrow> az ctx hostname r port protocol)"

text \<open>The address a request stands for: the literal, or the first answer of the one lookup.\<close>

definition resolves :: "'ctx socksServer \<Rightarrow> string \<Rightarrow> ipAddr \<Rightarrow> ipAddr \<Rightarrow> bool" where
  "resolves s hostname ip r \<longleftrightarrow>
     (if addr_IsValid ip then r = ip else \<exists>rs. sv_resolver s hostname = Some (r # rs))"

lemma filter_cases:
  obtains (unresolved) "filterDestinationProtocol s ctx hostname ip port protocol = (IPInvalid, OutcomeHostUnreachable)"
      "\<nexists>r. resolves s hostname ip r"
  | (denied) r where "filterDestinationProtocol s ctx hostname ip port protocol = (r, OutcomeNotAllowed)"
      "resolves s hostname ip r" "\<not> authorised s ctx hostname r port protocol"
  | (granted) r where "filterDestinationProtocol s ctx hostname ip port protocol = (r, OutcomeGranted)"
      "resolves s hostname ip r" "authorised s ctx hostname r port protocol"
proof -
  have step: "filterDestinationProtocol s ctx hostname ip port protocol =
      (r, if authorised s ctx hostname r port protocol then OutcomeGranted else OutcomeNotAllowed)"
    if "resolves s hostname ip r" for r
    using that
    by (auto simp: filterDestinationProtocol_def resolves_def authorised_def Let_def split: if_splits)
  show ?thesis
  proof (cases "\<exists>r. resolves s hostname ip r")
    case True
    then obtain r where r: "resolves s hostname ip r" by blast
    show ?thesis using step [OF r] r denied [of r] granted [of r]
      by (cases "authorised s ctx hostname r port protocol") simp_all
  next
    case False
    moreover from this have "filterDestinationProtocol s ctx hostname ip port protocol = (IPInvalid, OutcomeHostUnreachable)"
      by (auto simp: filterDestinationProtocol_def resolves_def split: if_splits option.splits list.splits)
    ultimately show ?thesis using unresolved by blast
  qed
qed

text \<open>What a session may do to the outside.\<close>

fun outward :: "socksEvent \<Rightarrow> bool" where
  "outward (EvDial _) = True"
| "outward EvListen = True"
| "outward _ = False"

definition permitted :: "'ctx socksServer \<Rightarrow> 'ctx \<Rightarrow> socksEvent \<Rightarrow> bool" where
  "permitted s ctx e = (case e of
       EvDial t \<Rightarrow> (\<exists>hostname ip r port. resolves s hostname ip r \<and> authorised s ctx hostname r port ''tcp'' \<and>
         t = (if sv_dialRemoteHostname s \<and> hostname \<noteq> [] then DialHost hostname port
              else DialAddr (AddrPort (Unmap r) port)))
     | EvListen \<Rightarrow> sv_allowBind s \<and>
         (\<exists>hostname ip r port. resolves s hostname ip r \<and> authorised s ctx hostname r port ''tcp'')
     | _ \<Rightarrow> True)"

definition trace_ok :: "'ctx socksServer \<Rightarrow> 'ctx \<Rightarrow> socksEvent list \<Rightarrow> bool" where
  "trace_ok s ctx tr \<longleftrightarrow> list_all (permitted s ctx) tr \<and> length (filter outward tr) \<le> 1 \<and>
     count_list tr EvListen = count_list tr EvUnlisten"

lemma write_simps [simp]:
  "permitted s ctx (writeSocks4Reply c p i)" "permitted s ctx (writeSocks5Reply c a p)"
  "\<not> outward (writeSocks4Reply c p i)" "\<not> outward (writeSocks5Reply c a p)"
  "writeSocks4Reply c p i \<noteq> EvListen" "writeSocks4Reply c p i \<noteq> EvUnlisten"
  "writeSocks5Reply c a p \<noteq> EvListen" "writeSocks5Reply c a p \<noteq> EvUnlisten"
  by (auto simp: writeSocks4Reply_def writeSocks5Reply_def permitted_def split: ipAddr.splits)

lemma permitted_simps [simp]:
  "permitted s ctx (EvWrite b)" "permitted s ctx (EvRelay b)" "permitted s ctx EvClose"
  "permitted s ctx EvUnlisten" "permitted s ctx EvAssociate" "permitted s ctx EvDisassociate"
  by (simp_all add: permitted_def)

lemma permitted_dial:
  assumes "resolves s hostname ip r" "authorised s ctx hostname r port ''tcp''"
  shows "sv_dialRemoteHostname s \<Longrightarrow> hostname \<noteq> [] \<Longrightarrow> permitted s ctx (EvDial (DialHost hostname port))"
    and "\<not> sv_dialRemoteHostname s \<or> hostname = [] \<Longrightarrow>
      permitted s ctx (EvDial (DialAddr (AddrPort (Unmap r) port)))"
  unfolding permitted_def socksEvent.case
  by (rule exI [of _ hostname], rule exI [of _ ip], rule exI [of _ r], rule exI [of _ port], use assms in auto)+

lemma permitted_listen:
  "sv_allowBind s \<Longrightarrow> resolves s hostname ip r \<Longrightarrow> authorised s ctx hostname r port ''tcp'' \<Longrightarrow>
   permitted s ctx EvListen"
  by (auto simp: permitted_def)

lemma connect_trace:
  "trace_ok s ctx (snd (socks_connect s ctx hostname ip port))"
  "count_list (snd (socks_connect s ctx hostname ip port)) EvListen = 0"
  "count_list (snd (socks_connect s ctx hostname ip port)) EvUnlisten = 0"
proof -
  show "trace_ok s ctx (snd (socks_connect s ctx hostname ip port))"
    by (rule filter_cases [of s ctx hostname ip port "''tcp''"])
       (auto simp: socks_connect_def filterDestination_def trace_ok_def Let_def intro: permitted_dial)
qed (auto simp: socks_connect_def Let_def split: prod.splits)

lemma bind4_trace: "sv_allowBind s \<Longrightarrow> trace_ok s ctx (doSocks4Bind s ctx w rest ip port req)"
  by (rule filter_cases [of s ctx "[]" ip port "''tcp''"])
     (auto simp: doSocks4Bind_def filterDestination_def trace_ok_def startBind_def acceptBind_def Let_def
       split: listenResult.splits acceptResult.splits prod.splits intro: permitted_listen)

lemma bind5_trace: "sv_allowBind s \<Longrightarrow> trace_ok s ctx (doSocks5Bind s ctx w rest hostname ip port)"
  by (rule filter_cases [of s ctx hostname ip port "''tcp''"])
     (auto simp: doSocks5Bind_def filterDestination_def trace_ok_def startBind_def acceptBind_def Let_def
       split: listenResult.splits acceptResult.splits prod.splits intro: permitted_listen)

text \<open>Replies, relays and closes do not matter to a trace.\<close>

lemma trace_ok_skip [simp]:
  assumes "permitted s ctx e" "\<not> outward e" "e \<noteq> EvListen" "e \<noteq> EvUnlisten"
  shows "trace_ok s ctx (xs @ e # ys) = trace_ok s ctx (xs @ ys)"
    and "trace_ok s ctx (e # ys) = trace_ok s ctx ys"
  using assms by (auto simp: trace_ok_def)

lemma trace_ok_Nil [simp]: "trace_ok s ctx []"
  by (simp add: trace_ok_def)

lemma trace_ok_associated [simp]: "trace_ok s ctx [EvAssociate, writeSocks5Reply c a p, EvDisassociate]"
  by simp

lemma serveSocks4_trace: "trace_ok s ctx (serveSocks4 s ctx w b)"
  unfolding serveSocks4_def Let_def
  by (auto simp: split_beta connect_trace bind4_trace split: option.splits sum.splits)

lemma socks5Command_trace: "trace_ok s ctx (socks5Command s ctx w cmd hostname ip port rest)"
  unfolding socks5Command_def Let_def
  by (auto simp: split_beta connect_trace bind5_trace split: option.splits sum.splits)

lemma serveSocks5_trace: "trace_ok s ctx (serveSocks5 s ctx w b)"
  unfolding serveSocks5_def Let_def
  by (auto simp: socks5Command_trace split: option.splits socksDest.splits)

lemma ServeConn_trace: "trace_ok s ctx (ServeConn s ctx w b)"
  unfolding ServeConn_def
  by (auto simp: serveSocks4_trace serveSocks5_trace split: option.splits)


section \<open>Requests and replies of RFC 1928\<close>

text \<open>A client's side of the protocol: the encoding of a request and the decoding of a reply.
  Addresses on the wire have no zone, and a host name has at most 255 bytes.\<close>

fun dest_ok :: "socksDest \<Rightarrow> bool" where
  "dest_ok (DestIP a) = plain_addr a"
| "dest_ok (DestName h) = (length h < 256)"
| "dest_ok DestUnsupported = False"

fun dest_name :: "socksDest \<Rightarrow> string" where
  "dest_name (DestName h) = h"
| "dest_name _ = []"

fun dest_ip :: "socksDest \<Rightarrow> ipAddr" where
  "dest_ip (DestIP a) = a"
| "dest_ip _ = IPInvalid"

fun dest_bytes :: "socksDest \<Rightarrow> bytes" where
  "dest_bytes (DestIP (IP4 w)) = 1 # be_bytes 4 w"
| "dest_bytes (DestIP (IP6 w z)) = 4 # be_bytes 16 w"
| "dest_bytes (DestName h) = 3 # of_nat (length h) # str_bytes h"
| "dest_bytes _ = []"

definition socks5_request :: "bytes \<Rightarrow> byte \<Rightarrow> socksDest \<Rightarrow> 16 word \<Rightarrow> bytes \<Rightarrow> bytes" where
  "socks5_request methods cmd dest port payload =
     [5, of_nat (length methods)] @ methods @ [5, cmd, 0] @ dest_bytes dest @ be_bytes 2 port @ payload"

definition decode_reply :: "bytes \<Rightarrow> (byte \<times> ipAddr \<times> 16 word) option" where
  "decode_reply b =
     (if length b = 10 \<and> b ! 0 = 5 \<and> b ! 3 = 1 then Some (b ! 1, AddrFrom4 (take 4 (drop 4 b)), be_word (drop 8 b))
      else if length b = 22 \<and> b ! 0 = 5 \<and> b ! 3 = 4 then Some (b ! 1, AddrFrom16 (take 16 (drop 4 b)), be_word (drop 20 b))
      else None)"

lemma unat_of_nat_byte: "n < 256 \<Longrightarrow> unat (of_nat n :: byte) = n"
  by (simp add: unat_of_nat)

lemma readDest_bytes:
  assumes "dest_ok dest"
  shows "\<exists>atyp rest. dest_bytes dest = atyp # rest \<and> readDest atyp (rest @ tail) = Some (dest, tail)"
proof (cases dest)
  case (DestIP a)
  with assms show ?thesis by (cases a) (auto simp: readDest_def)
next
  case (DestName h)
  with assms show ?thesis by (simp add: readDest_def unat_of_nat_byte)
qed (use assms in simp)

lemma ServeConn_request:
  assumes "dest_ok dest" and "0 \<in> set methods" and "length methods < 256" and "sw_writeOk w"
  shows "ServeConn s ctx w (socks5_request methods cmd dest port payload) =
    EvWrite [5, 0] # socks5Command s ctx w cmd (dest_name dest) (dest_ip dest) port payload @ [EvClose]"
proof -
  from readDest_bytes [OF assms(1)] obtain atyp rest where
    d: "dest_bytes dest = atyp # rest" "readDest atyp (rest @ be_bytes 2 port @ payload) = Some (dest, be_bytes 2 port @ payload)"
    by blast
  have "readFull 4 ([5, cmd, 0, atyp] @ rest @ be_bytes 2 port @ payload) =
      Some ([5, cmd, 0, atyp], rest @ be_bytes 2 port @ payload)" by (rule readFull_append) simp
  then have hdr: "readFull 4 (5 # cmd # 0 # atyp # rest @ be_bytes 2 port @ payload) =
      Some ([5, cmd, 0, atyp], rest @ be_bytes 2 port @ payload)" by simp
  have "list_ex (\<lambda>m. m = 0) methods" using assms(2) by (auto simp: list_ex_iff)
  then show ?thesis
    using assms(1,4) d hdr
    by (cases dest) (simp_all add: ServeConn_def socks5_request_def serveSocks5_def unat_of_nat_byte assms(3))
qed

lemma decode_written:
  assumes "plain_addr a"
  shows "\<exists>b. writeSocks5Reply rep a port = EvWrite b \<and> decode_reply b = Some (rep, a, port)"
proof (cases a)
  case (IP4 w)
  have "take 4 (be_bytes 4 w @ be_bytes 2 port) = be_bytes 4 w" "drop 4 (be_bytes 4 w @ be_bytes 2 port) = be_bytes 2 port"
    by simp_all
  with IP4 show ?thesis by (simp add: writeSocks5Reply_def decode_reply_def)
next
  case (IP6 w z)
  have "take 16 (be_bytes 16 w @ be_bytes 2 port) = be_bytes 16 w" "drop 16 (be_bytes 16 w @ be_bytes 2 port) = be_bytes 2 port"
    by simp_all
  with IP6 assms show ?thesis by (simp add: writeSocks5Reply_def decode_reply_def)
qed (use assms in simp)

text \<open>The result of a CONNECT: the dial attempts, the reply's code, address and port, and what is relayed.\<close>

inductive connect_result ::
  "'ctx socksServer \<Rightarrow> 'ctx \<Rightarrow> string \<Rightarrow> ipAddr \<Rightarrow> 16 word \<Rightarrow> bytes \<Rightarrow>
   socksEvent list \<Rightarrow> byte \<times> ipAddr \<times> 16 word \<Rightarrow> socksEvent list \<Rightarrow> bool"
  for s ctx hostname ip port payload where
  unreachable: "\<nexists>r. resolves s hostname ip r \<Longrightarrow>
    connect_result s ctx hostname ip port payload [] (4, IP4 0, 0) []"
| refused: "resolves s hostname ip r \<Longrightarrow> \<not> authorised s ctx hostname r port ''tcp'' \<Longrightarrow>
    connect_result s ctx hostname ip port payload [] (2, IP4 0, 0) []"
| dialled: "resolves s hostname ip r \<Longrightarrow> authorised s ctx hostname r port ''tcp'' \<Longrightarrow>
    target = (if sv_dialRemoteHostname s \<and> hostname \<noteq> [] then DialHost hostname port
      else DialAddr (AddrPort (Unmap r) port)) \<Longrightarrow>
    (reply, relayed) = (case sv_dial s target of
        DialOk c \<Rightarrow> ((0, addrParts c), [EvRelay payload])
      | DialTimeout \<Rightarrow> ((6, IP4 0, 0), [])
      | DialErr \<Rightarrow> ((1, IP4 0, 0), [])) \<Longrightarrow>
    connect_result s ctx hostname ip port payload [EvDial target] reply relayed"

lemma answered:
  assumes "connect_result s ctx hostname ip port payload dials (rep, a, p) relayed" and "plain_addr a"
    and "tr = dials @ writeSocks5Reply rep a p # relayed"
  shows "\<exists>dials reply b relayed. connect_result s ctx hostname ip port payload dials reply relayed \<and>
    decode_reply b = Some reply \<and> tr = dials @ EvWrite b # relayed"
  using decode_written [OF assms(2), of rep p] assms(1) unfolding assms(3) by metis

lemma command_connect:
  assumes "\<And>t c. sv_dial s t = DialOk c \<Longrightarrow> plain_addr (fst (addrParts c))"
  shows "\<exists>dials reply b relayed. connect_result s ctx hostname ip port payload dials reply relayed \<and>
    decode_reply b = Some reply \<and>
    socks5Command s ctx w 1 hostname ip port payload = dials @ EvWrite b # relayed"
proof (rule filter_cases [of s ctx hostname ip port "''tcp''"])
  assume "filterDestinationProtocol s ctx hostname ip port ''tcp'' = (IPInvalid, OutcomeHostUnreachable)"
    and none: "\<nexists>r. resolves s hostname ip r"
  then show ?thesis
    by (intro answered [OF unreachable [OF none]]) (simp_all add: socks5Command_def socks_connect_def filterDestination_def)
next
  fix r
  assume "filterDestinationProtocol s ctx hostname ip port ''tcp'' = (r, OutcomeNotAllowed)"
    and r: "resolves s hostname ip r" "\<not> authorised s ctx hostname r port ''tcp''"
  then show ?thesis
    by (intro answered [OF refused [OF r]]) (simp_all add: socks5Command_def socks_connect_def filterDestination_def)
next
  fix r
  assume flt: "filterDestinationProtocol s ctx hostname ip port ''tcp'' = (r, OutcomeGranted)"
    and r: "resolves s hostname ip r" "authorised s ctx hostname r port ''tcp''"
  define target where "target = (if sv_dialRemoteHostname s \<and> hostname \<noteq> [] then DialHost hostname port
      else DialAddr (AddrPort (Unmap r) port))"
  have conn: "socks_connect s ctx hostname ip port = ((case sv_dial s target of DialOk c \<Rightarrow> Inr c
      | DialTimeout \<Rightarrow> Inl OutcomeTTLExpired | DialErr \<Rightarrow> Inl OutcomeGeneralFailure), [EvDial target])"
    by (simp add: socks_connect_def filterDestination_def flt target_def Let_def)
  note result = dialled [OF r target_def]
  show ?thesis
  proof (cases "sv_dial s target")
    case (DialOk c)
    show ?thesis
      by (rule answered [OF result [of "(0, fst (addrParts c), snd (addrParts c))" "[EvRelay payload]"]])
         (use assms DialOk in \<open>simp_all add: socks5Command_def conn split_beta\<close>)
  next
    case DialTimeout
    then show ?thesis by (intro answered [OF result [of "(6, IP4 0, 0)" "[]"]]) (simp_all add: socks5Command_def conn)
  next
    case DialErr
    then show ?thesis by (intro answered [OF result [of "(1, IP4 0, 0)" "[]"]]) (simp_all add: socks5Command_def conn)
  qed
qed

text \<open>A well-formed SOCKS5 CONNECT, for any methods that include no-authentication, any address type,
  host name up to 255 bytes, port and following data, is answered exactly once after the method
  selection: with code 4 when the name does not resolve, 2 when the destination is not authorised, 6 or
  1 when the dial fails, and else with success, the local address of the connection, and a relay that
  starts with exactly the data after the request.\<close>

theorem socks5_connect_exact:
  assumes "dest_ok dest" and "0 \<in> set methods" and "length methods < 256" and "sw_writeOk w"
    and "\<And>t c. sv_dial s t = DialOk c \<Longrightarrow> plain_addr (fst (addrParts c))"
  shows "\<exists>dials reply b relayed.
    connect_result s ctx (dest_name dest) (dest_ip dest) port payload dials reply relayed \<and>
    decode_reply b = Some reply \<and>
    ServeConn s ctx w (socks5_request methods 1 dest port payload) =
      EvWrite [5, 0] # dials @ EvWrite b # relayed @ [EvClose]"
  using command_connect [OF assms(5), where ctx = ctx and hostname = "dest_name dest" and ip = "dest_ip dest" and port = port and payload = payload and w = w]
  by (auto simp: ServeConn_request [OF assms(1-4)])

section \<open>Witnesses\<close>

text \<open>A proxy that permits \<^verbatim>\<open>203.0.113.0/24\<close> under \<^verbatim>\<open>.example.com\<close>, with a resolver and a dialler.\<close>

definition demo_socks_config :: "unit socksServerConfig" where
  "demo_socks_config = \<lparr>sg_Filter = demo_cfg, sg_ASNLookup = Some (asn_Lookup demo_index), sg_Authorize = None,
     sg_DNSTimeout = 0, sg_DialTimeout = 0, sg_BindTimeout = 0, sg_AllowBind = False, sg_DialRemoteHostname = False,
     sg_UDPAssociate = None, sg_Resolver = None, sg_Dial = None\<rparr>"

definition demo_resolver :: "string \<Rightarrow> ipAddr list option" where
  "demo_resolver h = (if h = ''www.example.com'' then Some [IP4 0x08080808] else None)"

definition demo_dial :: "dialTarget \<Rightarrow> dialResult" where
  "demo_dial t = DialOk (Some (IP4 0xc0000201, 40000))"

definition demo_socks :: "unit socksServer" where
  "demo_socks = \<lparr>sv_filter = demo_filter, sv_allowBind = False, sv_dialRemoteHostname = False,
     sv_udpAssociate = None, sv_resolver = demo_resolver, sv_dial = demo_dial, sv_authorize = None,
     sv_dnsTimeout = 10 * second, sv_dialTimeout = 10 * second, sv_bindTimeout = 2 * minute\<rparr>"

definition demo_world :: socksWorld where
  "demo_world = \<lparr>sw_writeOk = True, sw_listen = ListenErr, sw_accept = AcceptErr\<rparr>"

lemma demo_socks_built: "socks_New demo_resolver demo_dial demo_socks_config = Inr demo_socks"
  by (simp add: socks_New_def demo_socks_config_def demo_socks_def demo_compiled)

lemma demo_command:
  "socks5Command demo_socks () w 1 ''www.example.com'' IPInvalid 443 [7] =
    [EvDial (DialAddr (AddrPort (IP4 0x08080808) 443)), writeSocks5Reply 0 (IP4 0xc0000201) 40000, EvRelay [7]]"
  by (simp add: socks5Command_def socks_connect_def filterDestination_def filterDestinationProtocol_def
      demo_socks_def demo_resolver_def demo_dial_def demo_allowed addr_IsValid_def addrParts_def Unmap_def)

theorem socks5_connect_exact_witness:
  "\<exists>dials reply b relayed.
    connect_result demo_socks () ''www.example.com'' IPInvalid 443 [7] dials reply relayed \<and>
    decode_reply b = Some reply \<and>
    ServeConn demo_socks () demo_world (socks5_request [0] 1 (DestName ''www.example.com'') 443 [7]) =
      EvWrite [5, 0] # dials @ EvWrite b # relayed @ [EvClose]"
  using socks5_connect_exact [of "DestName ''www.example.com''" "[0]" demo_world demo_socks "()" 443 "[7]"]
  by (simp add: demo_world_def demo_socks_def demo_dial_def addrParts_def Unmap_def)


end
