(* ===== verification/Data_Plane.thy ===== *)
theory Data_Plane
  imports Control_Safety Socks_Server
begin

text \<open>
  The data plane of \<^verbatim>\<open>ntwire-server\<close> (\<^verbatim>\<open>pkg/server/dataplane.go\<close>): dialling a fixed target under
  the destination policy, the per-source UDP proxy of a tunnel, the embedded SOCKS runtime with its
  UDP relay and framing, and the reconciliation of the tunnel listeners on a reload. The resolver,
  the service table, URL parsing, the upstream proxy's dialler and the sockets' answers are arguments.
\<close>

section \<open>Addresses in text\<close>

text \<open>\<open>net.SplitHostPort\<close>.\<close>

fun index_of :: "char \<Rightarrow> string \<Rightarrow> nat option" where
  "index_of c [] = None"
| "index_of c (x # xs) = (if x = c then Some 0 else map_option Suc (index_of c xs))"

definition last_index_of :: "char \<Rightarrow> string \<Rightarrow> nat option" where
  "last_index_of c s = map_option (\<lambda>k. length s - 1 - k) (index_of c (rev s))"

definition split_rest :: "string \<Rightarrow> nat \<Rightarrow> string \<Rightarrow> nat \<Rightarrow> nat \<Rightarrow> (string \<times> string) option" where
  "split_rest s i host j k =
     (if index_of CHR ''['' (drop j s) \<noteq> None \<or> index_of CHR '']'' (drop k s) \<noteq> None then None
      else Some (host, drop (i + 1) s))"

definition SplitHostPort :: "string \<Rightarrow> (string \<times> string) option" where
  "SplitHostPort s = (case last_index_of CHR '':'' s of
       None \<Rightarrow> None
     | Some i \<Rightarrow>
         if s ! 0 = CHR ''['' then
           (case index_of CHR '']'' s of
              None \<Rightarrow> None
            | Some e \<Rightarrow> if e + 1 = i then split_rest s i (take (e - 1) (drop 1 s)) 1 (e + 1) else None)
         else if index_of CHR '':'' (take i s) \<noteq> None then None
         else split_rest s i (take i s) 0 0)"

text \<open>\<open>net.LookupPort\<close>: a number with an optional sign, accumulated in 32 bits that wrap, or a name
  of the service table.\<close>

fun parsePort_loop :: "32 word \<Rightarrow> string \<Rightarrow> 32 word option" where
  "parsePort_loop n [] = Some n"
| "parsePort_loop n (c # cs) =
     (let d = (of_char c :: nat) in
      if d < 48 \<or> 57 < d then None
      else if 0x40000000 \<le> n then Some (- 1)
      else let m = n * 10; nn = m + of_nat (d - 48) in
        if nn < m then Some (- 1) else parsePort_loop nn cs)"

definition parsePort :: "string \<Rightarrow> int option" where
  "parsePort s =
     (if s = [] then Some 0
      else let neg = (hd s = CHR ''-''); body = (if hd s = CHR ''+'' \<or> neg then tl s else s) in
        (case parsePort_loop 0 body of
           None \<Rightarrow> None
         | Some n \<Rightarrow>
             let port = (if \<not> neg \<and> 0x40000000 \<le> n then 0x3fffffff
                else if neg \<and> 0x40000000 < n then 0x40000000 else uint n)
             in Some (if neg then - port else port)))"

definition LookupPort :: "(string \<Rightarrow> string \<Rightarrow> int option) \<Rightarrow> string \<Rightarrow> string \<Rightarrow> int option" where
  "LookupPort services network service =
     (case (case parsePort service of Some p \<Rightarrow> Some p | None \<Rightarrow> services network service) of
        None \<Rightarrow> None
      | Some p \<Rightarrow> if 0 > p \<or> p > 65535 then None else Some p)"

section \<open>Dialling a fixed target\<close>

text \<open>The surroundings of a dial: Unicode routines, resolver, service table, whether a socket to an
  address can be opened, and the text of an address.\<close>

record planeEnv =
  pe_unicode :: unicode
  pe_resolver :: "string \<Rightarrow> ipAddr list option"
  pe_services :: "string \<Rightarrow> string \<Rightarrow> int option"
  pe_dialOk :: "addrPort \<Rightarrow> bool"
  pe_String :: "ipAddr \<Rightarrow> string" \<comment> \<open>\<open>netip.Addr.String\<close>\<close>

text \<open>The loop over the addresses: the connection, if any, and the attempts made.\<close>

fun dial_loop :: "(addrPort \<Rightarrow> bool) \<Rightarrow> (ipAddr \<Rightarrow> bool) \<Rightarrow> 16 word \<Rightarrow> ipAddr list \<Rightarrow> addrPort option \<times> addrPort list" where
  "dial_loop ok allowed port [] = (None, [])"
| "dial_loop ok allowed port (ip # ips) =
     (if \<not> allowed ip then dial_loop ok allowed port ips
      else let target = AddrPort (Unmap ip) port in
        if ok target then (Some target, [target])
        else let (r, tried) = dial_loop ok allowed port ips in (r, target # tried))"

definition dialFixedUDP ::
  "planeEnv \<Rightarrow> policies \<Rightarrow> dataPlanePrincipal \<Rightarrow> tunnelConfig \<Rightarrow> addrPort option \<times> addrPort list" where
  "dialFixedUDP env pols prin t = (case SplitHostPort (tc_Target t) of
       None \<Rightarrow> (None, [])
     | Some (host, portText) \<Rightarrow> (case LookupPort (pe_services env) ''udp'' portText of
         None \<Rightarrow> (None, [])
       | Some p \<Rightarrow>
           let port = of_int p;
               ips = (case ParseAddr host of Some ip \<Rightarrow> Some [ip] | None \<Rightarrow> pe_resolver env host) in
           (case ips of None \<Rightarrow> (None, [])
            | Some as \<Rightarrow> dial_loop (pe_dialOk env)
                (\<lambda>ip. destinationAllowed (pe_unicode env) pols prin t host ip port ''udp'') port as)))"

definition dialTargetContext ::
  "planeEnv \<Rightarrow> policies \<Rightarrow> dataPlanePrincipal \<Rightarrow> tunnelConfig \<Rightarrow> string \<Rightarrow> addrPort option \<times> addrPort list" where
  "dialTargetContext env pols prin t target = (case SplitHostPort target of
       None \<Rightarrow> (None, [])
     | Some (host, portText) \<Rightarrow> (case LookupPort (pe_services env) ''tcp'' portText of
         None \<Rightarrow> (None, [])
       | Some p \<Rightarrow>
           let port = of_int p in
           (case ParseAddr host of
              Some ip \<Rightarrow>
                if \<not> destinationAllowed (pe_unicode env) pols prin t [] ip port ''tcp'' then (None, [])
                else let a = AddrPort (Unmap ip) port in (if pe_dialOk env a then Some a else None, [a])
            | None \<Rightarrow> (case pe_resolver env host of
                None \<Rightarrow> (None, [])
              | Some as \<Rightarrow> dial_loop (pe_dialOk env)
                  (\<lambda>ip. destinationAllowed (pe_unicode env) pols prin t host ip port ''tcp'') port as))))"

definition dialFixedTarget ::
  "planeEnv \<Rightarrow> policies \<Rightarrow> dataPlanePrincipal \<Rightarrow> tunnelConfig \<Rightarrow> addrPort option \<times> addrPort list" where
  "dialFixedTarget env pols prin t = dialTargetContext env pols prin t (tc_Target t)"

section \<open>The TCP proxy\<close>

text \<open>What an accepted connection leads to: it is closed, dialled through to its target, handed to the
  tunnel's SOCKS server with its principal in the context, or (a SOCKS tunnel without SOCKS section,
  which \<open>LoadConfig\<close> refuses) a nil dereference.\<close>

datatype proxyAction = ProxyClosed | ProxyTarget addrPort | ProxySocks dataPlanePrincipal | ProxyPanic

definition proxySocks ::
  "planeEnv \<Rightarrow> (string \<Rightarrow> string option) \<Rightarrow> bool \<Rightarrow> policies \<Rightarrow> dataPlanePrincipal \<Rightarrow> tunnelConfig \<Rightarrow> proxyAction \<times> addrPort list" where
  "proxySocks env urlHost hasServer pols prin t = (case tc_Socks t of
       None \<Rightarrow> (ProxyPanic, [])
     | Some sc \<Rightarrow>
         if so_Transparent sc then
           (case urlHost (so_Upstream sc) of
              None \<Rightarrow> (ProxyClosed, [])
            | Some h \<Rightarrow> let (r, tried) = dialTargetContext env pols prin t h in
                (case r of None \<Rightarrow> ProxyClosed | Some a \<Rightarrow> ProxyTarget a, tried))
         else if \<not> hasServer then (ProxyClosed, []) else (ProxySocks prin, []))"

text \<open>\<open>proxy\<close>: \<open>ip\<close> is the remote host, \<open>prin\<close> what \<open>principalForIP\<close> answers for it.\<close>

definition proxy ::
  "planeEnv \<Rightarrow> (string \<Rightarrow> string option) \<Rightarrow> bool \<Rightarrow> policies \<Rightarrow> dataPlanePrincipal option \<Rightarrow> tunnelConfig \<Rightarrow>
   proxyAction \<times> addrPort list" where
  "proxy env urlHost hasServer pols prin t = (case prin of
       None \<Rightarrow> (ProxyClosed, [])
     | Some p \<Rightarrow>
         if tc_Name t |\<notin>| pr_Tunnels p then (ProxyClosed, [])
         else if IsSocks t then proxySocks env urlHost hasServer pols p t
         else let (r, tried) = dialFixedTarget env pols p t in
           (case r of None \<Rightarrow> ProxyClosed | Some a \<Rightarrow> ProxyTarget a, tried))"

section \<open>The UDP proxy of a tunnel\<close>

text \<open>\<open>proxyUDP\<close> keeps one connected socket per source; the map of the flows has the target's address of
  the socket. A datagram of a flow to its target, and a reply of a flow to its source.\<close>

datatype udpOut = ToTarget addrPort addrPort bytes | ToClient addrPort bytes

type_synonym udpFlows = "(addrPort, addrPort) fmap"

definition proxyUDP_datagram ::
  "planeEnv \<Rightarrow> policies \<Rightarrow> dataPlanePrincipal option \<Rightarrow> tunnelConfig \<Rightarrow> addrPort \<Rightarrow> bytes \<Rightarrow> udpFlows \<Rightarrow> udpOut list \<times> udpFlows" where
  "proxyUDP_datagram env pols prin t src data flows = (case prin of
       None \<Rightarrow> ([], flows)
     | Some p \<Rightarrow>
         if tc_Name t |\<notin>| pr_Tunnels p then ([], flows)
         else case fmlookup flows src of
           Some dst \<Rightarrow> ([ToTarget src dst data], flows)
         | None \<Rightarrow> (case fst (dialFixedUDP env pols p t) of
             None \<Rightarrow> ([], flows)
           | Some dst \<Rightarrow> ([ToTarget src dst data], fmupd src dst flows)))"

text \<open>\<open>closeFlow\<close>, and one round of the reader of a flow: a reply is written to the flow's source, a
  failed write ends the reader, which closes the flow.\<close>

definition closeFlow :: "addrPort \<Rightarrow> udpFlows \<Rightarrow> udpFlows" where
  "closeFlow key flows = fmdrop key flows"

definition proxyUDP_reply :: "addrPort \<Rightarrow> bytes \<Rightarrow> bool \<Rightarrow> udpFlows \<Rightarrow> udpOut list \<times> udpFlows" where
  "proxyUDP_reply key data writeOk flows = (case fmlookup flows key of
       None \<Rightarrow> ([], flows)
     | Some _ \<Rightarrow> ([ToClient key data], if writeOk then flows else closeFlow key flows))"

text \<open>What happens to the proxy: a datagram (the control plane's state, the clock and the iteration
  order give its principal), a reply on a flow, a flow that is idle or broken, and the end.\<close>

datatype udpEvent = UDatagram policies serverState gotime "string list" addrPort bytes
  | UReply addrPort bytes bool | UIdle addrPort | UStop

fun udp_exec :: "planeEnv \<Rightarrow> tunnelConfig \<Rightarrow> udpEvent \<Rightarrow> udpFlows \<Rightarrow> udpOut list \<times> udpFlows" where
  "udp_exec env t (UDatagram pols st now ks src data) flows =
     proxyUDP_datagram env pols (principalForIP now ks (ap_Addr src) st) t src data flows"
| "udp_exec env t (UReply key data writeOk) flows = proxyUDP_reply key data writeOk flows"
| "udp_exec env t (UIdle key) flows = ([], closeFlow key flows)"
| "udp_exec env t UStop flows = ([], fmempty)"

section \<open>The SOCKS runtime\<close>

text \<open>Configuration and policies as the server has them at the time of a callback.\<close>

record liveConfig =
  lv_Tunnels :: "tunnelConfig list"
  lv_Policies :: policies

text \<open>What the runtime takes from elsewhere: \<open>urlpkg.Parse\<close> (scheme and host), the dialler of an
  upstream proxy, the plain dialler and resolver, and the socket of an association, if the data plane
  is there and it can be opened.\<close>

record runtimeEnv =
  re_unicode :: unicode
  re_parseURL :: "string \<Rightarrow> (string \<times> string) option"
  re_socks5 :: "string \<Rightarrow> (dialTarget \<Rightarrow> dialResult) option"
  re_dial :: "dialTarget \<Rightarrow> dialResult"
  re_resolver :: "string \<Rightarrow> ipAddr list option"
  re_listenUDP :: "udpAssociation option"
  re_asn :: "asnLookup option"

definition socks_filter_config :: "socksConfig \<Rightarrow> filterConfig" where
  "socks_filter_config sc = \<lparr>cfg_OnlyLocal = so_OnlyLocal sc,
     cfg_CIDRs = so_Filters sc, cfg_DomainSuffixes = so_DomainFilters sc, cfg_ASNs = so_ASNFilters sc,
     cfg_Invert = so_ReverseFilters sc, cfg_AllowAll = so_AllowAll sc, cfg_AllowLocalEgress = so_AllowLocalEgress sc\<rparr>"

text \<open>The context of a SOCKS session is the principal put into it; \<open>context.Background()\<close> has none.\<close>

definition socks_authorize ::
  "runtimeEnv \<Rightarrow> liveConfig \<Rightarrow> string \<Rightarrow> dataPlanePrincipal option \<Rightarrow> string \<Rightarrow> ipAddr \<Rightarrow> 16 word \<Rightarrow> string \<Rightarrow> bool" where
  "socks_authorize env live name ctx hostname ip port protocol = (case ctx of
       None \<Rightarrow> False
     | Some prin \<Rightarrow> (case find_tunnel (lv_Tunnels live) name of
         None \<Rightarrow> False
       | Some current \<Rightarrow> IsSocks current \<and>
           destinationAllowed (re_unicode env) (lv_Policies live) prin current hostname ip port protocol))"

definition socks_runtime_config ::
  "runtimeEnv \<Rightarrow> liveConfig \<Rightarrow> string \<Rightarrow> socksConfig \<Rightarrow> (dialTarget \<Rightarrow> dialResult) \<Rightarrow> bool \<Rightarrow> dataPlanePrincipal option socksServerConfig" where
  "socks_runtime_config env live name sc dial remoteHostname =
     \<lparr>sg_Filter = socks_filter_config sc, sg_ASNLookup = re_asn env,
      sg_Authorize = Some (socks_authorize env live name), sg_DNSTimeout = so_DNSTimeout sc, sg_DialTimeout = 0,
      sg_BindTimeout = 0, sg_AllowBind = so_AllowBind sc, sg_DialRemoteHostname = remoteHostname,
      sg_UDPAssociate = Some (\<lambda>ctx _ _ _. case ctx of None \<Rightarrow> None | Some _ \<Rightarrow> re_listenUDP env),
      sg_Resolver = None, sg_Dial = Some dial\<rparr>"

definition newSocksRuntime ::
  "runtimeEnv \<Rightarrow> liveConfig \<Rightarrow> tunnelConfig \<Rightarrow> socksConfig \<Rightarrow> dataPlanePrincipal option socksServer option" where
  "newSocksRuntime env live t sc =
     (if so_Transparent sc then None
      else let dialer = (if so_Upstream sc = [] then Some (re_dial env, False)
            else case re_parseURL env (so_Upstream sc) of None \<Rightarrow> None
              | Some (scheme, host) \<Rightarrow> map_option (\<lambda>up. (up, scheme = ''socks5h'')) (re_socks5 env (so_Upstream sc))) in
        (case dialer of None \<Rightarrow> None
         | Some (dial, remoteHostname) \<Rightarrow>
             (case socks_New (re_resolver env) (re_dial env)
                 (socks_runtime_config env live (tc_Name t) sc dial remoteHostname) of
                Inl e \<Rightarrow> None | Inr sv \<Rightarrow> Some sv)))"

section \<open>The SOCKS UDP relay\<close>

text \<open>RFC 1928 framing: \<open>parseSocksUDP\<close> yields host name, address, port and payload.\<close>

definition parse_tail :: "string \<Rightarrow> ipAddr \<Rightarrow> bytes \<Rightarrow> nat \<Rightarrow> string \<times> ipAddr \<times> 16 word \<times> bytes" where
  "parse_tail host ip b i =
     (host, ip, push_bit 8 (ucast (b ! i)) OR ucast (b ! (i + 1)), drop (i + 2) b)"

definition parseSocksUDP :: "bytes \<Rightarrow> (string \<times> ipAddr \<times> 16 word \<times> bytes) option" where
  "parseSocksUDP b =
     (if length b < 4 \<or> b ! 0 \<noteq> 0 \<or> b ! 1 \<noteq> 0 \<or> b ! 2 \<noteq> 0 then None
      else if b ! 3 = 1 then
        (if length b < 4 + 4 + 2 then None else Some (parse_tail [] (AddrFrom4 (take 4 (drop 4 b))) b 8))
      else if b ! 3 = 4 then
        (if length b < 4 + 16 + 2 then None else Some (parse_tail [] (AddrFrom16 (take 16 (drop 4 b))) b 20))
      else if b ! 3 = 3 then
        (if length b < 5 then None
         else let l = unat (b ! 4) in
           if length b < 5 + l + 2 \<or> l = 0 then None
           else Some (parse_tail (string_of_bytes (take l (drop 5 b))) IPInvalid b (5 + l)))
      else None)"

text \<open>\<open>As16\<close> of the zero address is sixteen zero bytes.\<close>

definition socksUDPFrame :: "addrPort \<Rightarrow> bytes \<Rightarrow> bytes" where
  "socksUDPFrame ap p = (case Unmap (ap_Addr ap) of
       IP4 w \<Rightarrow> [0, 0, 0, 1] @ be_bytes 4 w @ be_bytes 2 (ap_Port ap) @ p
     | IP6 w _ \<Rightarrow> [0, 0, 0, 4] @ be_bytes 16 w @ be_bytes 2 (ap_Port ap) @ p
     | IPInvalid \<Rightarrow> [0, 0, 0, 4] @ replicate 16 0 @ be_bytes 2 (ap_Port ap) @ p)"

text \<open>The flows of an association are keyed by a host text and a port, which the code joins with a
  colon; an address with a colon is bracketed, as by \<open>net.JoinHostPort\<close>.\<close>

type_synonym socksFlows = "(string \<times> 16 word, addrPort) fmap"

definition flow_key :: "planeEnv \<Rightarrow> string \<Rightarrow> ipAddr \<Rightarrow> 16 word \<Rightarrow> string \<times> 16 word" where
  "flow_key env hostname ip port =
     (if hostname \<noteq> [] then (hostname, port)
      else let s = pe_String env ip in
        (if CHR '':'' \<in> set s \<or> CHR ''%'' \<in> set s then ''['' @ s @ '']'' else s, port))"

definition dialSocksUDP ::
  "planeEnv \<Rightarrow> policies \<Rightarrow> dataPlanePrincipal \<Rightarrow> tunnelConfig \<Rightarrow> string \<Rightarrow> ipAddr \<Rightarrow> 16 word \<Rightarrow> addrPort option" where
  "dialSocksUDP env pols p t hostname ip port =
     (let chosen = (if \<not> addr_IsValid ip then
            map_option (\<lambda>as. case find (\<lambda>a. destinationAllowed (pe_unicode env) pols p t hostname a port ''udp'') as of
              None \<Rightarrow> ip | Some a \<Rightarrow> a) (pe_resolver env hostname)
          else if \<not> destinationAllowed (pe_unicode env) pols p t [] ip port ''udp'' then None
          else Some ip) in
      case chosen of
        None \<Rightarrow> None
      | Some a \<Rightarrow> if \<not> addr_IsValid a then None
          else let target = AddrPort (Unmap a) port in if pe_dialOk env target then Some target else None)"

text \<open>One datagram of \<open>proxySocksUDP\<close>: only the association's own tunnel address is heard; the
  destination of a new flow is authorised in the context the code gives, \<open>context.Background()\<close>.\<close>

definition proxySocksUDP_datagram ::
  "planeEnv \<Rightarrow> policies \<Rightarrow> dataPlanePrincipal \<Rightarrow> tunnelConfig \<Rightarrow> dataPlanePrincipal option socksServer \<Rightarrow> addrPort \<Rightarrow> bytes \<Rightarrow>
   socksFlows \<Rightarrow> (addrPort \<times> bytes) list \<times> socksFlows" where
  "proxySocksUDP_datagram env pols prin t sv src b flows =
     (if ap_Addr src \<noteq> pr_TunnelIP prin then ([], flows)
      else case parseSocksUDP b of
        None \<Rightarrow> ([], flows)
      | Some (hostname, ip, port, payload) \<Rightarrow>
          let key = flow_key env hostname ip port in
          (case fmlookup flows key of
             Some dst \<Rightarrow> ([(dst, payload)], flows)
           | None \<Rightarrow>
               let (resolved, allowed) = AuthorizeUDP sv None hostname ip port in
               if \<not> allowed then ([], flows)
               else (case dialSocksUDP env pols prin t [] resolved port of
                  None \<Rightarrow> ([], flows)
                | Some dst \<Rightarrow> ([(dst, payload)], fmupd key dst flows))))"

section \<open>Tunnel listeners\<close>

text \<open>A listener has the configuration it was opened for and its socket. \<open>dl_open\<close> has every socket
  that listens on the server's tunnel address, by transport and port: those of the listeners and the
  ones of the portal and its resolver.\<close>

record tunnelListener =
  tl_config :: tunnelConfig
  tl_conn :: nat

record listenPlane =
  dl_listeners :: "(string, tunnelListener) fmap"
  dl_open :: "(nat, bool \<times> int) fmap"
  dl_next :: nat

definition tunnel_sock :: "tunnelConfig \<Rightarrow> bool \<times> int" where
  "tunnel_sock t = (tc_Protocol t = ''udp'', tc_VirtualPort t)"

text \<open>\<open>listenTunnel\<close>; \<open>stack\<close> is whether the network stack lets a socket listen beside the open ones.\<close>

definition listenTunnel ::
  "((nat, bool \<times> int) fmap \<Rightarrow> bool \<times> int \<Rightarrow> bool) \<Rightarrow> tunnelConfig \<Rightarrow> listenPlane \<Rightarrow> bool \<times> listenPlane" where
  "listenTunnel stack t d =
     (if \<not> stack (dl_open d) (tunnel_sock t) then (False, d)
      else (True, d\<lparr>dl_listeners := fmupd (tc_Name t) \<lparr>tl_config = t, tl_conn = dl_next d\<rparr> (dl_listeners d),
              dl_open := fmupd (dl_next d) (tunnel_sock t) (dl_open d), dl_next := dl_next d + 1\<rparr>))"

definition closeTunnelListener :: "tunnelListener \<Rightarrow> listenPlane \<Rightarrow> listenPlane" where
  "closeTunnelListener lis d = d\<lparr>dl_open := fmdrop (tl_conn lis) (dl_open d)\<rparr>"

definition listener_changed :: "tunnelConfig \<Rightarrow> tunnelListener \<Rightarrow> bool" where
  "listener_changed nt lis \<longleftrightarrow> (let c = tl_config lis in
     tc_DestinationPolicy nt \<noteq> tc_DestinationPolicy c \<or> tc_VirtualPort nt \<noteq> tc_VirtualPort c \<or>
     tc_Target nt \<noteq> tc_Target c \<or> tc_Protocol nt \<noteq> tc_Protocol c \<or>
     tc_UDPIdleTimeout nt \<noteq> tc_UDPIdleTimeout c \<or> tc_Socks nt \<noteq> tc_Socks c)"

definition listener_stays :: "(string, tunnelConfig) fmap \<Rightarrow> string \<Rightarrow> tunnelListener \<Rightarrow> bool" where
  "listener_stays wanted name lis = (case fmlookup wanted name of None \<Rightarrow> False | Some nt \<Rightarrow> \<not> listener_changed nt lis)"

text \<open>\<open>reloadTunnels\<close>: \<open>order0\<close> and \<open>order1\<close> are the orders of the loops over the listeners and over the
  wanted tunnels.\<close>

definition wanted_tunnels :: "tunnelConfig list \<Rightarrow> (string, tunnelConfig) fmap" where
  "wanted_tunnels ts = fold (\<lambda>t m. fmupd (tc_Name t) t m) ts fmempty"

definition to_close :: "(string, tunnelConfig) fmap \<Rightarrow> string list \<Rightarrow> (string, tunnelListener) fmap \<Rightarrow> tunnelListener list" where
  "to_close wanted order lm = List.map_filter (\<lambda>n. case fmlookup lm n of None \<Rightarrow> None
     | Some lis \<Rightarrow> if listener_stays wanted n lis then None else Some lis) order"

definition to_open :: "(string, tunnelConfig) fmap \<Rightarrow> string list \<Rightarrow> (string, tunnelListener) fmap \<Rightarrow> tunnelConfig list" where
  "to_open wanted order lm = List.map_filter (\<lambda>n. case fmlookup lm n of None \<Rightarrow> fmlookup wanted n | Some _ \<Rightarrow> None) order"

definition reloadTunnels ::
  "((nat, bool \<times> int) fmap \<Rightarrow> bool \<times> int \<Rightarrow> bool) \<Rightarrow> string list \<Rightarrow> string list \<Rightarrow> tunnelConfig list \<Rightarrow> listenPlane \<Rightarrow> listenPlane" where
  "reloadTunnels stack order0 order1 newTunnels d =
     (let wanted = wanted_tunnels newTunnels;
          lm = gm_filter (listener_stays wanted) (dl_listeners d);
          d1 = fold closeTunnelListener (to_close wanted order0 (dl_listeners d)) (d\<lparr>dl_listeners := lm\<rparr>)
      in fold (\<lambda>t d. snd (listenTunnel stack t d)) (to_open wanted order1 lm) d1)"

section \<open>Dials stay within the policy\<close>

lemma dial_loop_spec:
  assumes "dial_loop ok allowed port ips = (r, tried)"
  shows "set tried \<subseteq> {AddrPort (Unmap ip) port | ip. ip \<in> set ips \<and> allowed ip}"
    and "r = Some a \<Longrightarrow> a \<in> set tried \<and> ok a"
    and "r = None \<Longrightarrow> ip \<in> set ips \<Longrightarrow> allowed ip \<Longrightarrow> \<not> ok (AddrPort (Unmap ip) port)"
  using assms
  by (induction ips arbitrary: r tried) (fastforce simp: Let_def split: if_splits prod.splits)+

text \<open>The addresses a target text stands for, and the host name the policy is asked about.\<close>

definition target_addrs :: "planeEnv \<Rightarrow> string \<Rightarrow> string \<Rightarrow> (string \<times> ipAddr \<times> 16 word) set" where
  "target_addrs env network target = {(host, ip, of_int p) | host ip p portText.
     SplitHostPort target = Some (host, portText) \<and> LookupPort (pe_services env) network portText = Some p \<and>
     (ParseAddr host = Some ip \<or> ParseAddr host = None \<and> (\<exists>as. pe_resolver env host = Some as \<and> ip \<in> set as))}"

lemma dialFixedUDP_spec:
  assumes "dialFixedUDP env pols prin t = (r, tried)"
  shows "set tried \<subseteq> {AddrPort (Unmap ip) port | host ip port. (host, ip, port) \<in> target_addrs env ''udp'' (tc_Target t) \<and>
      destinationAllowed (pe_unicode env) pols prin t host ip port ''udp''} \<and>
    (case r of Some a \<Rightarrow> a \<in> set tried \<and> pe_dialOk env a
     | None \<Rightarrow> \<forall>host ip port. (host, ip, port) \<in> target_addrs env ''udp'' (tc_Target t) \<and>
         destinationAllowed (pe_unicode env) pols prin t host ip port ''udp'' \<longrightarrow> \<not> pe_dialOk env (AddrPort (Unmap ip) port))"
proof (cases "SplitHostPort (tc_Target t)")
  case None
  with assms show ?thesis by (auto simp: dialFixedUDP_def target_addrs_def)
next
  case (Some hp)
  obtain host portText where hp: "SplitHostPort (tc_Target t) = Some (host, portText)" using Some by (cases hp) auto
  show ?thesis
  proof (cases "LookupPort (pe_services env) ''udp'' portText")
    case None
    with hp assms show ?thesis by (auto simp: dialFixedUDP_def target_addrs_def)
  next
    case (Some p)
    let ?ips = "case ParseAddr host of Some ip \<Rightarrow> Some [ip] | None \<Rightarrow> pe_resolver env host"
    have addrs: "(h, ip, port) \<in> target_addrs env ''udp'' (tc_Target t) \<longleftrightarrow>
        h = host \<and> port = of_int p \<and> (\<exists>as. ?ips = Some as \<and> ip \<in> set as)" for h ip port
      using hp Some by (auto simp: target_addrs_def split: option.splits)
    show ?thesis
    proof (cases ?ips)
      case None
      with hp Some assms show ?thesis unfolding addrs by (simp add: dialFixedUDP_def Let_def)
    next
      case as: (Some as)
      then have loop: "dial_loop (pe_dialOk env)
          (\<lambda>ip. destinationAllowed (pe_unicode env) pols prin t host ip (of_int p) ''udp'') (of_int p) as = (r, tried)"
        using hp Some assms by (simp add: dialFixedUDP_def Let_def)
      show ?thesis unfolding addrs using dial_loop_spec [OF loop] as by (auto split: option.splits)
    qed
  qed
qed

section \<open>Flows of the UDP proxy\<close>

text \<open>A flow of a source is opened by a datagram of that source whose principal is granted the tunnel,
  towards an address of the target that the policy in force allows this principal.\<close>

definition opens_flow :: "planeEnv \<Rightarrow> tunnelConfig \<Rightarrow> addrPort \<Rightarrow> addrPort \<Rightarrow> udpEvent \<Rightarrow> bool" where
  "opens_flow env t src dst e \<longleftrightarrow> (\<exists>pols st now ks data p host ip.
     e = UDatagram pols st now ks src data \<and> principalForIP now ks (ap_Addr src) st = Some p \<and> tc_Name t |\<in>| pr_Tunnels p \<and>
     (host, ip, ap_Port dst) \<in> target_addrs env ''udp'' (tc_Target t) \<and> ap_Addr dst = Unmap ip \<and>
     destinationAllowed (pe_unicode env) pols p t host ip (ap_Port dst) ''udp'')"

text \<open>Outputs that the events up to and including the one that caused them justify.\<close>

definition justified :: "planeEnv \<Rightarrow> tunnelConfig \<Rightarrow> udpEvent list \<Rightarrow> udpEvent \<Rightarrow> udpOut \<Rightarrow> bool" where
  "justified env t es e out = (case out of
       ToTarget src dst data \<Rightarrow> (\<exists>f \<in> set (es @ [e]). opens_flow env t src dst f) \<and>
         (\<exists>pols st now ks p. e = UDatagram pols st now ks src data \<and>
            principalForIP now ks (ap_Addr src) st = Some p \<and> tc_Name t |\<in>| pr_Tunnels p)
     | ToClient src data \<Rightarrow> (\<exists>ok. e = UReply src data ok) \<and> (\<exists>dst. \<exists>f \<in> set es. opens_flow env t src dst f))"

inductive udp_step :: "planeEnv \<Rightarrow> tunnelConfig \<Rightarrow> udpFlows \<Rightarrow> udpEvent \<times> udpOut list \<Rightarrow> udpFlows \<Rightarrow> bool" for env t where
  exec: "udp_exec env t e flows = (outs, flows') \<Longrightarrow> udp_step env t flows (e, outs) flows'"

inductive_cases udp_stepE: "udp_step env t flows l flows'"

definition flows_hinv :: "planeEnv \<Rightarrow> tunnelConfig \<Rightarrow> (udpEvent \<times> udpOut list) list \<Rightarrow> udpFlows \<Rightarrow> bool" where
  "flows_hinv env t ls flows \<longleftrightarrow>
     (\<forall>src dst. fmlookup flows src = Some dst \<longrightarrow> (\<exists>f \<in> set (map fst ls). opens_flow env t src dst f)) \<and>
     (\<forall>pre e outs post. ls = pre @ (e, outs) # post \<longrightarrow> (\<forall>out \<in> set outs. justified env t (map fst pre) e out))"

lemma dialFixedUDP_opens:
  assumes "fst (dialFixedUDP env pols p t) = Some dst" "principalForIP now ks (ap_Addr src) st = Some p" "tc_Name t |\<in>| pr_Tunnels p"
  shows "opens_flow env t src dst (UDatagram pols st now ks src data)"
proof -
  obtain tried where d: "dialFixedUDP env pols p t = (Some dst, tried)" using assms(1) by (cases "dialFixedUDP env pols p t") auto
  from dialFixedUDP_spec [OF d] obtain host ip port where "dst = AddrPort (Unmap ip) port"
    "(host, ip, port) \<in> target_addrs env ''udp'' (tc_Target t)"
    "destinationAllowed (pe_unicode env) pols p t host ip port ''udp''" by auto
  then have "(host, ip, ap_Port dst) \<in> target_addrs env ''udp'' (tc_Target t)" "ap_Addr dst = Unmap ip"
    "destinationAllowed (pe_unicode env) pols p t host ip (ap_Port dst) ''udp''" by auto
  with assms(2,3) show ?thesis unfolding opens_flow_def by blast
qed

lemma datagram_step:
  assumes "proxyUDP_datagram env pols (principalForIP now ks (ap_Addr src) st) t src data flows = (outs, flows')"
    and e: "e = UDatagram pols st now ks src data"
    and old: "\<forall>s d. fmlookup flows s = Some d \<longrightarrow> (\<exists>f \<in> set es. opens_flow env t s d f)"
  shows "(\<forall>s d. fmlookup flows' s = Some d \<longrightarrow> (\<exists>f \<in> set (es @ [e]). opens_flow env t s d f)) \<and>
    (\<forall>out \<in> set outs. justified env t es e out)"
proof (cases "principalForIP now ks (ap_Addr src) st")
  case None
  with assms show ?thesis by (auto simp: proxyUDP_datagram_def)
next
  case (Some p)
  show ?thesis
  proof (cases "tc_Name t |\<in>| pr_Tunnels p")
    case False
    with Some assms show ?thesis by (auto simp: proxyUDP_datagram_def)
  next
    case granted: True
    have just: "justified env t es e (ToTarget src dst data)" if "\<exists>f \<in> set (es @ [e]). opens_flow env t src dst f" for dst
      using that Some granted e by (auto simp: justified_def)
    show ?thesis
    proof (cases "fmlookup flows src")
      case flow: (Some dst)
      then have "outs = [ToTarget src dst data]" "flows' = flows"
        using assms(1) Some granted by (auto simp: proxyUDP_datagram_def)
      with old flow just [of dst] show ?thesis by auto
    next
      case flow: None
      show ?thesis
      proof (cases "fst (dialFixedUDP env pols p t)")
        case None
        with assms(1) Some granted flow have "outs = []" "flows' = flows" by (auto simp: proxyUDP_datagram_def)
        with old show ?thesis by auto
      next
        case dial: (Some dst)
        then have out: "outs = [ToTarget src dst data]" "flows' = fmupd src dst flows"
          using assms(1) Some granted flow by (auto simp: proxyUDP_datagram_def)
        have new: "opens_flow env t src dst e" unfolding e by (rule dialFixedUDP_opens [OF dial Some granted])
        show ?thesis using old new just [of dst] by (auto simp: out)
      qed
    qed
  qed
qed

lemma snoc_split:
  assumes "ls @ [x] = pre @ y # post"
  shows "pre = ls \<and> y = x \<or> (\<exists>post'. ls = pre @ y # post')"
  using assms by (cases post rule: rev_cases) auto

lemma flows_step_hinv:
  assumes inv: "flows_hinv env t ls flows" and step: "udp_step env t flows l flows'"
  shows "flows_hinv env t (ls @ [l]) flows'"
proof -
  obtain e outs where l: "l = (e, outs)" by (cases l)
  then have ex: "udp_exec env t e flows = (outs, flows')" using step by (auto elim: udp_stepE)
  have old: "\<forall>s d. fmlookup flows s = Some d \<longrightarrow> (\<exists>f \<in> set (map fst ls). opens_flow env t s d f)"
    using inv by (simp add: flows_hinv_def)
  have "(\<forall>s d. fmlookup flows' s = Some d \<longrightarrow> (\<exists>f \<in> set (map fst ls @ [e]). opens_flow env t s d f)) \<and>
    (\<forall>out \<in> set outs. justified env t (map fst ls) e out)"
  proof (cases e)
    case (UDatagram pols st now ks src data)
    show ?thesis using datagram_step [OF _ UDatagram old] ex UDatagram by simp
  next
    case (UReply key data ok)
    show ?thesis
    proof (cases "fmlookup flows key")
      case None
      with ex old UReply show ?thesis by (auto simp: proxyUDP_reply_def)
    next
      case (Some dst)
      then have "outs = [ToClient key data]" and sub: "fmlookup flows' s = Some d \<Longrightarrow> fmlookup flows s = Some d" for s d
        using ex UReply by (auto simp: proxyUDP_reply_def closeFlow_def split: if_splits)
      with old Some UReply show ?thesis by (fastforce simp: justified_def)
    qed
  next
    case (UIdle key)
    then have "outs = []" and sub: "fmlookup flows' s = Some d \<Longrightarrow> fmlookup flows s = Some d" for s d
      using ex by (auto simp: closeFlow_def split: if_splits)
    with old show ?thesis by fastforce
  next
    case UStop
    with ex show ?thesis by auto
  qed
  then have new: "\<forall>s d. fmlookup flows' s = Some d \<longrightarrow> (\<exists>f \<in> set (map fst (ls @ [l])). opens_flow env t s d f)"
    and just: "\<forall>out \<in> set outs. justified env t (map fst ls) e out" by (simp_all add: l)
  have "\<forall>out \<in> set outs'. justified env t (map fst pre) e' out" if "ls @ [l] = pre @ (e', outs') # post" for pre e' outs' post
    using snoc_split [OF that] just inv unfolding l flows_hinv_def by blast
  with new show ?thesis unfolding flows_hinv_def by blast
qed

interpretation udp_flows: history_system "udp_step env t" "flows_hinv env t" for env t
  by unfold_locales (rule flows_step_hinv)

text \<open>C8: the UDP proxy keeps its clients apart and its targets within the policy. Over any sequence of
  datagrams, replies, idle flows and restarts, under control-plane states and policies that may change
  at every datagram, a datagram goes out only for a source whose principal is granted the tunnel at
  that moment, through the flow of that very source, to an address of the tunnel's target that the
  policy allowed to the principal who opened the flow; and a reply only ever goes to the source that
  opened the flow it arrived on.\<close>

theorem udp_flows_isolated:
  assumes "run (udp_step env t) fmempty (pre @ (e, outs) # post) flows" and "out \<in> set outs"
  shows "case out of
      ToTarget src dst data \<Rightarrow>
        (\<exists>pols st now ks p. e = UDatagram pols st now ks src data \<and>
           principalForIP now ks (ap_Addr src) st = Some p \<and> tc_Name t |\<in>| pr_Tunnels p) \<and>
        (\<exists>f \<in> set (map fst pre @ [e]). opens_flow env t src dst f)
    | ToClient src data \<Rightarrow>
        (\<exists>ok. e = UReply src data ok) \<and> (\<exists>dst. \<exists>f \<in> set (map fst pre). opens_flow env t src dst f)"
proof -
  have "flows_hinv env t [] fmempty" by (simp add: flows_hinv_def)
  from udp_flows.run_hinv [OF assms(1) this] have "justified env t (map fst pre) e out"
    using assms(2) unfolding flows_hinv_def by blast
  then show ?thesis by (auto simp: justified_def split: udpOut.splits)
qed

section \<open>The SOCKS UDP relay\<close>

lemma be_bytes_two: "be_bytes 2 (p :: 16 word) = [ucast (drop_bit 8 p), ucast p]"
  by (simp add: numeral_2_eq_2)

lemma port_bytes: "push_bit 8 (ucast (ucast (drop_bit 8 p) :: byte)) OR ucast (ucast p :: byte) = (p :: 16 word)"
  by (rule bit_word_eqI) (auto simp: bit_simps)

lemma parse_tail_append:
  "length hdr = i \<Longrightarrow> parse_tail host ip (hdr @ be_bytes 2 port @ p) i = (host, ip, port, p)"
  by (auto simp: parse_tail_def be_bytes_two nth_append port_bytes)

lemma parse_client_frame:
  assumes "dest_ok d" "d \<noteq> DestName []"
  shows "parseSocksUDP ([0, 0, 0] @ dest_bytes d @ be_bytes 2 port @ p) = Some (dest_name d, dest_ip d, port, p)"
proof (cases d)
  case (DestIP ip)
  show ?thesis
  proof (cases ip)
    case (IP4 w)
    then show ?thesis using DestIP parse_tail_append [of "[0, 0, 0, 1] @ be_bytes 4 w" 8 "[]" "IP4 w" port p]
      by (simp add: parseSocksUDP_def)
  next
    case (IP6 w z)
    then show ?thesis using DestIP assms(1) parse_tail_append [of "[0, 0, 0, 4] @ be_bytes 16 w" 20 "[]" "IP6 w []" port p]
      by (simp add: parseSocksUDP_def)
  qed (use DestIP assms in simp)
next
  case (DestName h)
  then have "unat (of_nat (length h) :: byte) = length h" "h \<noteq> []" using assms by (auto simp: unat_of_nat)
  then show ?thesis
    using DestName parse_tail_append [of "[0, 0, 0, 3, of_nat (length h)] @ str_bytes h" "5 + length h" h IPInvalid port p]
    by (simp add: parseSocksUDP_def)
qed (use assms in simp)

text \<open>The framing of the SOCKS UDP relay is exact. A frame the relay builds for a datagram from an address
  parses back to the unmapped address, the port and the payload, without host name; a client's frame
  for a host name of 1 to 255 bytes or for an address parses to it; and whatever parses has three zero
  bytes first, so that a fragment is never accepted.\<close>

theorem socks_udp_frame_exact:
  "(addr_IsValid (ap_Addr a) \<and> plain_addr (ap_Addr a) \<longrightarrow>
      parseSocksUDP (socksUDPFrame a p) = Some ([], Unmap (ap_Addr a), ap_Port a, p)) \<and>
   (dest_ok d \<and> d \<noteq> DestName [] \<longrightarrow>
      parseSocksUDP ([0, 0, 0] @ dest_bytes d @ be_bytes 2 port @ p) = Some (dest_name d, dest_ip d, port, p)) \<and>
   (\<forall>r. parseSocksUDP b = Some r \<longrightarrow> take 3 b = [0, 0, 0] \<and> 7 < length b)"
proof (intro conjI impI allI)
  assume "addr_IsValid (ap_Addr a) \<and> plain_addr (ap_Addr a)"
  then have "plain_addr (Unmap (ap_Addr a))" by (cases "ap_Addr a") (auto simp: Unmap_def)
  then show "parseSocksUDP (socksUDPFrame a p) = Some ([], Unmap (ap_Addr a), ap_Port a, p)"
    using parse_client_frame [of "DestIP (Unmap (ap_Addr a))" "ap_Port a" p]
    by (cases "Unmap (ap_Addr a)") (simp_all add: socksUDPFrame_def)
next
  assume "dest_ok d \<and> d \<noteq> DestName []"
  then show "parseSocksUDP ([0, 0, 0] @ dest_bytes d @ be_bytes 2 port @ p) = Some (dest_name d, dest_ip d, port, p)"
    using parse_client_frame by blast
next
  fix r assume r: "parseSocksUDP b = Some r"
  then have "4 \<le> length b" "b ! 0 = 0" "b ! 1 = 0" "b ! 2 = 0" by (auto simp: parseSocksUDP_def split: if_splits)
  then show "take 3 b = [0, 0, 0]" by (simp add: list_eq_iff_nth_eq less_Suc_eq numeral_3_eq_3 numeral_2_eq_2)
  show "7 < length b" using r by (auto simp: parseSocksUDP_def Let_def split: if_splits)
qed

text \<open>The runtime's authorisation callback, whatever the configuration.\<close>

lemma runtime_authorize:
  assumes "newSocksRuntime env live t sc = Some sv"
  shows "sv_authorize sv = Some (socks_authorize env live (tc_Name t))"
  using assms by (auto simp: newSocksRuntime_def socks_New_def socks_runtime_config_def Let_def split: if_splits option.splits sum.splits)

lemma no_principal_denied:
  assumes "newSocksRuntime env live t sc = Some sv"
  shows "AuthorizeUDP sv None hostname ip port \<noteq> (r, True)"
  by (rule filter_cases [of sv None hostname ip port "''udp''"])
     (auto simp: AuthorizeUDP_def authorised_def runtime_authorize [OF assms] socks_authorize_def)

fun socks_udp_all ::
  "planeEnv \<Rightarrow> policies \<Rightarrow> dataPlanePrincipal \<Rightarrow> tunnelConfig \<Rightarrow> dataPlanePrincipal option socksServer \<Rightarrow> (addrPort \<times> bytes) list \<Rightarrow>
   socksFlows \<Rightarrow> (addrPort \<times> bytes) list" where
  "socks_udp_all env pols prin t sv [] flows = []"
| "socks_udp_all env pols prin t sv ((src, b) # ins) flows =
     (let (outs, flows') = proxySocksUDP_datagram env pols prin t sv src b flows
      in outs @ socks_udp_all env pols prin t sv ins flows')"

text \<open>C40: the SOCKS UDP relay forwards nothing. With the runtime the server builds for a tunnel, whatever its
  configuration and policies, no datagram of an association is ever forwarded: the relay authorises a
  new flow without a principal in the context, and the runtime's callback denies that. The same
  callback grants the destination under the association's own principal whenever the policy does.\<close>

theorem socks_udp_always_denied:
  assumes "newSocksRuntime env live t sc = Some sv"
  shows "socks_udp_all penv pols prin t sv ins fmempty = [] \<and>
    (AuthorizeUDP sv (Some prin) hostname ip port =
       (let (r, oc) = filterDestinationProtocol (sv\<lparr>sv_authorize := None\<rparr>) None hostname ip port ''udp''
        in (r, oc = OutcomeGranted \<and> socks_authorize env live (tc_Name t) (Some prin) hostname r port ''udp'')))"
proof
  have "proxySocksUDP_datagram penv pols prin t sv src b fmempty = ([], fmempty)" for src b
    using no_principal_denied [OF assms] by (auto simp: proxySocksUDP_datagram_def Let_def split: option.splits prod.splits)
  then show "socks_udp_all penv pols prin t sv ins fmempty = []"
    by (induction ins) (auto simp: Let_def split: prod.splits)
  show "AuthorizeUDP sv (Some prin) hostname ip port =
       (let (r, oc) = filterDestinationProtocol (sv\<lparr>sv_authorize := None\<rparr>) None hostname ip port ''udp''
        in (r, oc = OutcomeGranted \<and> socks_authorize env live (tc_Name t) (Some prin) hostname r port ''udp''))"
    by (auto simp: AuthorizeUDP_def filterDestinationProtocol_def Let_def runtime_authorize [OF assms] split: option.splits list.splits)
qed

section \<open>Reconciling the listeners\<close>

text \<open>Every listener is stored under its tunnel's name with its own open socket.\<close>

definition plane_inv :: "listenPlane \<Rightarrow> bool" where
  "plane_inv d \<longleftrightarrow>
     (\<forall>n lis. fmlookup (dl_listeners d) n = Some lis \<longrightarrow> tc_Name (tl_config lis) = n \<and>
        fmlookup (dl_open d) (tl_conn lis) = Some (tunnel_sock (tl_config lis))) \<and>
     (\<forall>n m lis lis'. fmlookup (dl_listeners d) n = Some lis \<and> fmlookup (dl_listeners d) m = Some lis' \<and> n \<noteq> m \<longrightarrow>
        tl_conn lis \<noteq> tl_conn lis') \<and>
     (\<forall>i s. fmlookup (dl_open d) i = Some s \<longrightarrow> i < dl_next d)"

lemma plane_invD:
  assumes "plane_inv d"
  shows "fmlookup (dl_listeners d) n = Some lis \<Longrightarrow> tc_Name (tl_config lis) = n"
    and "fmlookup (dl_listeners d) n = Some lis \<Longrightarrow> fmlookup (dl_open d) (tl_conn lis) = Some (tunnel_sock (tl_config lis))"
    and "fmlookup (dl_listeners d) n = Some lis \<Longrightarrow> fmlookup (dl_listeners d) m = Some lis' \<Longrightarrow> tl_conn lis = tl_conn lis' \<Longrightarrow> n = m"
    and "fmlookup (dl_open d) i = Some s \<Longrightarrow> i < dl_next d"
  using assms unfolding plane_inv_def by blast+

text \<open>The sockets that belong to no listener.\<close>

definition other_socks :: "listenPlane \<Rightarrow> (bool \<times> int) set" where
  "other_socks d = {s. \<exists>i. fmlookup (dl_open d) i = Some s \<and>
     (\<forall>n lis. fmlookup (dl_listeners d) n = Some lis \<longrightarrow> tl_conn lis \<noteq> i)}"

lemma open_sock_cases:
  assumes "fmlookup (dl_open d) i = Some s"
  shows "s \<in> other_socks d \<or> (\<exists>n lis. fmlookup (dl_listeners d) n = Some lis \<and> tl_conn lis = i)"
  using assms by (auto simp: other_socks_def)

lemma listen_ok:
  assumes inv: "plane_inv d" and st: "stack (dl_open d) (tunnel_sock t)"
    and name: "fmlookup (dl_listeners d) (tc_Name t) = None"
    and d': "d' = snd (listenTunnel stack t d)"
  shows "plane_inv d'" and "dl_listeners d' = fmupd (tc_Name t) \<lparr>tl_config = t, tl_conn = dl_next d\<rparr> (dl_listeners d)"
    and "fmlookup (dl_open d') i = (if i = dl_next d then Some (tunnel_sock t) else fmlookup (dl_open d) i)"
    and "dl_next d' = dl_next d + 1"
proof -
  show ls: "dl_listeners d' = fmupd (tc_Name t) \<lparr>tl_config = t, tl_conn = dl_next d\<rparr> (dl_listeners d)"
    and op: "fmlookup (dl_open d') i = (if i = dl_next d then Some (tunnel_sock t) else fmlookup (dl_open d) i)"
    and nx: "dl_next d' = dl_next d + 1" for i
    using st by (simp_all add: d' listenTunnel_def)
  have lt: "tl_conn lis < dl_next d" if "fmlookup (dl_listeners d) n = Some lis" for n lis
    using plane_invD(4) [OF inv plane_invD(2) [OF inv that]] .
  show "plane_inv d'" unfolding plane_inv_def
  proof (intro conjI allI impI)
    fix n lis assume "fmlookup (dl_listeners d') n = Some lis"
    then show "tc_Name (tl_config lis) = n" "fmlookup (dl_open d') (tl_conn lis) = Some (tunnel_sock (tl_config lis))"
      using plane_invD(1,2) [OF inv, of n lis] lt [of n lis] by (auto simp: ls op split: if_splits)
  next
    fix n m lis lis'
    assume "fmlookup (dl_listeners d') n = Some lis \<and> fmlookup (dl_listeners d') m = Some lis' \<and> n \<noteq> m"
    then show "tl_conn lis \<noteq> tl_conn lis'"
      using plane_invD(3) [OF inv, of n lis m lis'] lt [of n lis] lt [of m lis'] by (auto simp: ls split: if_splits)
  next
    fix i s assume "fmlookup (dl_open d') i = Some s"
    then show "i < dl_next d'" using plane_invD(4) [OF inv, of i s] by (auto simp: op nx split: if_splits)
  qed
qed

text \<open>Opening a list of tunnels whose names are free: each gets a new listener unless its socket is taken, and nothing that is open
  is closed.\<close>

definition newly_open :: "nat \<Rightarrow> tunnelConfig \<Rightarrow> listenPlane \<Rightarrow> bool" where
  "newly_open k t d \<longleftrightarrow> (\<exists>i. k \<le> i \<and> fmlookup (dl_listeners d) (tc_Name t) = Some \<lparr>tl_config = t, tl_conn = i\<rparr>)"

definition sock_taken :: "tunnelConfig \<Rightarrow> listenPlane \<Rightarrow> bool" where
  "sock_taken t d \<longleftrightarrow> fmlookup (dl_listeners d) (tc_Name t) = None \<and> (\<exists>i. fmlookup (dl_open d) i = Some (tunnel_sock t))"

definition plane_extends :: "listenPlane \<Rightarrow> listenPlane \<Rightarrow> bool" where
  "plane_extends d d' \<longleftrightarrow> (\<forall>n lis. fmlookup (dl_listeners d) n = Some lis \<longrightarrow> fmlookup (dl_listeners d') n = Some lis) \<and>
     (\<forall>i s. fmlookup (dl_open d) i = Some s \<longrightarrow> fmlookup (dl_open d') i = Some s) \<and>
     (\<forall>i s. fmlookup (dl_open d') i = Some s \<longrightarrow> fmlookup (dl_open d) i = Some s \<or>
        (\<exists>n lis. fmlookup (dl_listeners d') n = Some lis \<and> tl_conn lis = i))"

lemma plane_extends_refl: "plane_extends d d"
  by (simp add: plane_extends_def)

lemma plane_extends_trans: "plane_extends d d1 \<Longrightarrow> plane_extends d1 d2 \<Longrightarrow> plane_extends d d2"
  unfolding plane_extends_def by meson

lemma newly_open_kept: "newly_open k t d \<Longrightarrow> plane_extends d d' \<Longrightarrow> j \<le> k \<Longrightarrow> newly_open j t d'"
  unfolding newly_open_def plane_extends_def by (meson order_trans)

lemma listen_one:
  assumes inv: "plane_inv d" and free: "\<forall>open s. (\<forall>i. fmlookup open i \<noteq> Some s) \<longrightarrow> stack open s"
    and name: "fmlookup (dl_listeners d) (tc_Name t) = None" and d': "d' = snd (listenTunnel stack t d)"
  shows "plane_inv d'" "plane_extends d d'" "dl_next d \<le> dl_next d'"
    and "n \<noteq> tc_Name t \<Longrightarrow> fmlookup (dl_listeners d') n = fmlookup (dl_listeners d) n"
    and "newly_open (dl_next d) t d' \<or> sock_taken t d'"
proof -
  have "plane_inv d' \<and> plane_extends d d' \<and> dl_next d \<le> dl_next d' \<and>
      (\<forall>n. n \<noteq> tc_Name t \<longrightarrow> fmlookup (dl_listeners d') n = fmlookup (dl_listeners d) n) \<and> (newly_open (dl_next d) t d' \<or> sock_taken t d')"
  proof (cases "stack (dl_open d) (tunnel_sock t)")
    case st: True
    note one = listen_ok [OF inv st name d']
    have "fmlookup (dl_open d) (dl_next d) = None"
      using plane_invD(4) [OF inv, of "dl_next d"] by (cases "fmlookup (dl_open d) (dl_next d)") auto
    then have "plane_extends d d'" using name by (auto simp: plane_extends_def one(2,3))
    then show ?thesis using one by (simp add: newly_open_def)
  next
    case False
    then have "d' = d" by (simp add: d' listenTunnel_def)
    moreover have "\<exists>i. fmlookup (dl_open d) i = Some (tunnel_sock t)" using free False by blast
    ultimately show ?thesis using inv name by (simp add: plane_extends_refl sock_taken_def)
  qed
  then show "plane_inv d'" "plane_extends d d'" "dl_next d \<le> dl_next d'" "newly_open (dl_next d) t d' \<or> sock_taken t d'"
    "n \<noteq> tc_Name t \<Longrightarrow> fmlookup (dl_listeners d') n = fmlookup (dl_listeners d) n" by blast+
qed

lemma open_all:
  assumes "plane_inv d" and free: "\<forall>open s. (\<forall>i. fmlookup open i \<noteq> Some s) \<longrightarrow> stack open s"
    and "distinct (map tc_Name ts)" "\<forall>t \<in> set ts. fmlookup (dl_listeners d) (tc_Name t) = None"
    and "d' = fold (\<lambda>t d. snd (listenTunnel stack t d)) ts d"
  shows "plane_inv d' \<and> plane_extends d d' \<and> (\<forall>t \<in> set ts. newly_open (dl_next d) t d' \<or> sock_taken t d') \<and>
    (\<forall>n. n \<notin> tc_Name ` set ts \<longrightarrow> fmlookup (dl_listeners d') n = fmlookup (dl_listeners d) n)"
  using assms(1,3-5)
proof (induction ts arbitrary: d)
  case (Cons t ts)
  let ?d = "snd (listenTunnel stack t d)"
  have t: "fmlookup (dl_listeners d) (tc_Name t) = None" using Cons.prems(3) by simp
  note one = listen_one [OF Cons.prems(1) free t refl]
  have ne: "tc_Name u \<noteq> tc_Name t" if "u \<in> set ts" for u
    using Cons.prems(2) that by (auto simp: image_iff)
  have "\<forall>u \<in> set ts. fmlookup (dl_listeners ?d) (tc_Name u) = None"
    using Cons.prems(3) one(4) [OF ne] by simp
  from Cons.IH [OF one(1) _ this] Cons.prems(2,4) have IH: "plane_inv d'" "plane_extends ?d d'"
    "\<forall>u \<in> set ts. newly_open (dl_next ?d) u d' \<or> sock_taken u d'"
    "\<forall>n. n \<notin> tc_Name ` set ts \<longrightarrow> fmlookup (dl_listeners d') n = fmlookup (dl_listeners ?d) n" by simp_all
  have "newly_open (dl_next d) t d' \<or> sock_taken t d'"
  proof -
    have "fmlookup (dl_listeners d') (tc_Name t) = fmlookup (dl_listeners ?d) (tc_Name t)"
      using IH(4) ne by (metis imageE)
    then have "sock_taken t ?d \<Longrightarrow> sock_taken t d'"
      using IH(2) unfolding sock_taken_def plane_extends_def by metis
    with one(5) newly_open_kept [OF _ IH(2) order_refl] show ?thesis by blast
  qed
  moreover have "newly_open (dl_next d) u d' \<or> sock_taken u d'" if "u \<in> set ts" for u
    using IH(3) that newly_open_kept [OF _ plane_extends_refl one(3)] by blast
  ultimately show ?case using IH(1,4) plane_extends_trans [OF one(2) IH(2)] one(4) by auto
qed (simp add: plane_extends_refl)

lemma wanted_iff:
  assumes "distinct (map tc_Name ts)"
  shows "fmlookup (wanted_tunnels ts) n = Some t \<longleftrightarrow> t \<in> set ts \<and> tc_Name t = n"
proof -
  have "fmlookup (fold (\<lambda>t m. fmupd (tc_Name t) t m) ts m) n = Some t \<longleftrightarrow>
      t \<in> set ts \<and> tc_Name t = n \<or> n \<notin> tc_Name ` set ts \<and> fmlookup m n = Some t" for m
    using assms by (induction ts arbitrary: m) (auto simp: image_iff)
  then show ?thesis by (simp add: wanted_tunnels_def)
qed

lemma set_map_filter_iff: "y \<in> set (List.map_filter f xs) \<longleftrightarrow> (\<exists>x \<in> set xs. f x = Some y)"
  by (force simp: List.map_filter_def image_iff)

lemma set_to_close:
  assumes "range_order order lm"
  shows "set (to_close wanted order lm) = {lis. \<exists>n. fmlookup lm n = Some lis \<and> \<not> listener_stays wanted n lis}"
proof -
  have "(case fmlookup lm n of None \<Rightarrow> None | Some lis \<Rightarrow> if listener_stays wanted n lis then None else Some lis) = Some x \<longleftrightarrow>
      fmlookup lm n = Some x \<and> \<not> listener_stays wanted n x" for n x
    by (auto split: option.splits if_splits)
  then show ?thesis using assms unfolding to_close_def set_eq_iff set_map_filter_iff range_order_iff by fastforce
qed

lemma names_to_open:
  assumes "\<And>n t. fmlookup wanted n = Some t \<Longrightarrow> tc_Name t = n" "\<forall>n \<in> set order. fmlookup wanted n \<noteq> None"
  shows "map tc_Name (to_open wanted order lm) = filter (\<lambda>n. fmlookup lm n = None) order"
  using assms(2)
  by (induction order) (auto simp: to_open_def map_filter_simps assms(1) split: option.splits)

lemma set_to_open:
  "set (to_open wanted order lm) = {t. \<exists>n \<in> set order. fmlookup lm n = None \<and> fmlookup wanted n = Some t}"
  by (auto simp: to_open_def set_map_filter_iff split: option.splits)

lemma close_all:
  "dl_listeners (fold closeTunnelListener ls d) = dl_listeners d \<and> dl_next (fold closeTunnelListener ls d) = dl_next d \<and>
   fmlookup (dl_open (fold closeTunnelListener ls d)) i = (if i \<in> tl_conn ` set ls then None else fmlookup (dl_open d) i)"
  by (induction ls arbitrary: d) (auto simp: closeTunnelListener_def)

text \<open>The state between closing and opening: the listeners that stay, and only their sockets and those
  that belong to no listener.\<close>

lemma closed_phase:
  assumes inv: "plane_inv d" and ls: "set ls = {lis. \<exists>n. fmlookup (dl_listeners d) n = Some lis \<and> \<not> stays n lis}"
    and d2: "d2 = fold closeTunnelListener ls (d\<lparr>dl_listeners := gm_filter stays (dl_listeners d)\<rparr>)"
  shows "plane_inv d2" and "fmlookup (dl_listeners d2) n = Some lis \<longleftrightarrow> fmlookup (dl_listeners d) n = Some lis \<and> stays n lis"
    and "fmlookup (dl_open d2) i = Some s \<Longrightarrow>
      s \<in> other_socks d \<or> (\<exists>n lis. fmlookup (dl_listeners d2) n = Some lis \<and> s = tunnel_sock (tl_config lis))"
    and "dl_next d2 = dl_next d"
proof -
  note cl = close_all [of ls "d\<lparr>dl_listeners := gm_filter stays (dl_listeners d)\<rparr>", folded d2]
  show nx: "dl_next d2 = dl_next d" using cl by simp
  show L: "fmlookup (dl_listeners d2) n = Some lis \<longleftrightarrow> fmlookup (dl_listeners d) n = Some lis \<and> stays n lis" for n lis
    using cl by (auto split: option.splits)
  have O: "fmlookup (dl_open d2) i = (if i \<in> tl_conn ` set ls then None else fmlookup (dl_open d) i)" for i using cl by simp
  have kept: "tl_conn lis \<notin> tl_conn ` set ls" if "fmlookup (dl_listeners d2) n = Some lis" for n lis
  proof
    assume "tl_conn lis \<in> tl_conn ` set ls"
    then obtain m lis' where m: "fmlookup (dl_listeners d) m = Some lis'" "\<not> stays m lis'" "tl_conn lis = tl_conn lis'"
      using ls by auto
    from that have n: "fmlookup (dl_listeners d) n = Some lis" "stays n lis" by (simp_all add: L)
    from plane_invD(3) [OF inv n(1) m(1,3)] n m show False by simp
  qed
  show "plane_inv d2" unfolding plane_inv_def
  proof (intro conjI allI impI)
    fix n lis assume a: "fmlookup (dl_listeners d2) n = Some lis"
    then show "tc_Name (tl_config lis) = n" "fmlookup (dl_open d2) (tl_conn lis) = Some (tunnel_sock (tl_config lis))"
      using plane_invD(1,2) [OF inv, of n lis] kept [OF a] by (auto simp: L O)
  next
    fix n m lis lis'
    assume "fmlookup (dl_listeners d2) n = Some lis \<and> fmlookup (dl_listeners d2) m = Some lis' \<and> n \<noteq> m"
    then show "tl_conn lis \<noteq> tl_conn lis'" using plane_invD(3) [OF inv, of n lis m lis'] by (auto simp: L)
  next
    fix i s assume "fmlookup (dl_open d2) i = Some s"
    then show "i < dl_next d2" using plane_invD(4) [OF inv, of i s] by (auto simp: O nx split: if_splits)
  qed
  assume s: "fmlookup (dl_open d2) i = Some s"
  then have o: "fmlookup (dl_open d) i = Some s" "i \<notin> tl_conn ` set ls" by (auto simp: O split: if_splits)
  from open_sock_cases [OF o(1)] show "s \<in> other_socks d \<or> (\<exists>n lis. fmlookup (dl_listeners d2) n = Some lis \<and> s = tunnel_sock (tl_config lis))"
  proof (elim disjE exE conjE, goal_cases)
    case (2 n lis)
    then have "stays n lis" using o(2) ls by auto
    moreover have "s = tunnel_sock (tl_config lis)" using plane_invD(2) [OF inv 2(1)] 2(2) o(1) by simp
    ultimately show ?case using 2(1) L by blast
  qed simp
qed

lemma unchanged_sock: "\<not> listener_changed t lis \<Longrightarrow> tunnel_sock (tl_config lis) = tunnel_sock t"
  by (auto simp: listener_changed_def tunnel_sock_def Let_def)

text \<open>Why a tunnel has no listener: its socket is the portal's or the resolver's (open before, but of no listener), or that of
  another new tunnel that is served.\<close>

definition sock_clash :: "tunnelConfig list \<Rightarrow> tunnelConfig \<Rightarrow> listenPlane \<Rightarrow> listenPlane \<Rightarrow> bool" where
  "sock_clash ts t d d' \<longleftrightarrow> tunnel_sock t \<in> other_socks d \<or>
     (\<exists>u \<in> set ts. u \<noteq> t \<and> tunnel_sock u = tunnel_sock t \<and> fmlookup (dl_listeners d') (tc_Name u) \<noteq> None)"

text \<open>C25: a reload disturbs no unchanged tunnel and serves the new ones. The new tunnels have different names, and the network
  stack lets a socket listen on a free port; nothing is assumed of their ports. After the reload only new tunnels have a
  listener. A tunnel nothing of which the listener depends on changed keeps the very same listener; any other has a newly opened
  listener with its new configuration, or none when its socket clashes with the portal's, the resolver's or that of another tunnel
  that is served. Tunnels may therefore exchange their ports, whatever the order of the loops, because every changed
  listener is closed before any is opened.\<close>

theorem reload_tunnels_exact:
  assumes inv: "plane_inv d" and free: "\<forall>open s. (\<forall>i. fmlookup open i \<noteq> Some s) \<longrightarrow> stack open s"
    and new: "distinct (map tc_Name ts)"
    and ord: "range_order order0 (dl_listeners d)" "distinct order1" "set order1 = tc_Name ` set ts"
    and d': "d' = reloadTunnels stack order0 order1 ts d"
  shows "plane_inv d' \<and> (\<forall>n. n \<notin> tc_Name ` set ts \<longrightarrow> fmlookup (dl_listeners d') n = None) \<and>
    (\<forall>t \<in> set ts. case fmlookup (dl_listeners d) (tc_Name t) of
        Some lis \<Rightarrow> if listener_changed t lis
          then newly_open (dl_next d) t d' \<or> fmlookup (dl_listeners d') (tc_Name t) = None \<and> sock_clash ts t d d'
          else fmlookup (dl_listeners d') (tc_Name t) = Some lis
      | None \<Rightarrow> newly_open (dl_next d) t d' \<or> fmlookup (dl_listeners d') (tc_Name t) = None \<and> sock_clash ts t d d')"
proof -
  let ?w = "wanted_tunnels ts"
  let ?lm = "gm_filter (listener_stays ?w) (dl_listeners d)"
  define d2 where "d2 = fold closeTunnelListener (to_close ?w order0 (dl_listeners d)) (d\<lparr>dl_listeners := ?lm\<rparr>)"
  have want: "fmlookup ?w n = Some t \<longleftrightarrow> t \<in> set ts \<and> tc_Name t = n" for n t by (rule wanted_iff [OF new])
  note ph = closed_phase [OF inv set_to_close [OF ord(1)] d2_def]
  have stays: "fmlookup (dl_listeners d2) n = Some lis \<longleftrightarrow>
      fmlookup (dl_listeners d) n = Some lis \<and> (\<exists>t \<in> set ts. tc_Name t = n \<and> \<not> listener_changed t lis)" for n lis
  proof -
    have "listener_stays ?w n lis \<longleftrightarrow> (\<exists>t. fmlookup ?w n = Some t \<and> \<not> listener_changed t lis)"
      by (auto simp: listener_stays_def split: option.splits)
    then show ?thesis unfolding ph(2) want by blast
  qed
  have L1: "fmlookup ?lm n = fmlookup (dl_listeners d2) n" for n
    using close_all [of "to_close ?w order0 (dl_listeners d)" "d\<lparr>dl_listeners := ?lm\<rparr>"] by (simp add: d2_def)
  let ?open = "to_open ?w order1 ?lm"
  have opens: "set ?open = {t \<in> set ts. fmlookup (dl_listeners d2) (tc_Name t) = None}"
    unfolding set_to_open L1 using ord(3) want by auto
  have names: "distinct (map tc_Name ?open)"
    by (subst names_to_open) (use want ord in auto)
  have res: "plane_inv d'" "plane_extends d2 d'" "\<forall>t \<in> set ?open. newly_open (dl_next d2) t d' \<or> sock_taken t d'"
      "\<forall>n. n \<notin> tc_Name ` set ?open \<longrightarrow> fmlookup (dl_listeners d') n = fmlookup (dl_listeners d2) n"
    using open_all [OF ph(1) free names, of d'] opens by (auto simp: d' reloadTunnels_def d2_def Let_def)
  have only: "t = u" if "t \<in> set ts" "u \<in> set ts" "tc_Name t = tc_Name u" for t u
    using new that by (auto simp: distinct_map inj_on_def)
  have none: "fmlookup (dl_listeners d') n = None" if "n \<notin> tc_Name ` set ts" for n
  proof -
    have "fmlookup (dl_listeners d2) n = None" using that stays [of n] by (cases "fmlookup (dl_listeners d2) n") blast+
    with that res(4) opens show ?thesis by auto
  qed
  have served: "\<exists>u \<in> set ts. tc_Name u = n \<and> tunnel_sock u = tunnel_sock (tl_config lis)"
    if l: "fmlookup (dl_listeners d') n = Some lis" for n lis
  proof (cases "n \<in> tc_Name ` set ?open")
    case True
    then obtain u where u: "u \<in> set ?open" "tc_Name u = n" by blast
    with res(3) have "newly_open (dl_next d2) u d' \<or> sock_taken u d'" by blast
    with l u(2) have "tl_config lis = u" by (auto simp: newly_open_def sock_taken_def)
    with u opens show ?thesis by auto
  next
    case False
    with res(4) l have "fmlookup (dl_listeners d2) n = Some lis" by simp
    with stays unchanged_sock show ?thesis by metis
  qed
  have clash: "sock_clash ts t d d'" if t: "t \<in> set ts" "sock_taken t d'" for t
  proof -
    obtain i where i: "fmlookup (dl_open d') i = Some (tunnel_sock t)" and no: "fmlookup (dl_listeners d') (tc_Name t) = None"
      using t(2) by (auto simp: sock_taken_def)
    have "tunnel_sock t \<in> other_socks d \<or> (\<exists>n lis. fmlookup (dl_listeners d') n = Some lis \<and> tunnel_sock t = tunnel_sock (tl_config lis))"
      using res(2) i ph(3) [of i "tunnel_sock t"] plane_invD(2) [OF res(1)] unfolding plane_extends_def by (metis option.inject)
    with served no show ?thesis by (fastforce simp: sock_clash_def)
  qed
  have fresh: "newly_open (dl_next d) t d' \<or> fmlookup (dl_listeners d') (tc_Name t) = None \<and> sock_clash ts t d d'"
    if "t \<in> set ts" "fmlookup (dl_listeners d2) (tc_Name t) = None" for t
    using res(3) opens that clash [OF that(1)] by (auto simp: ph(4) sock_taken_def)
  have "case fmlookup (dl_listeners d) (tc_Name t) of
        Some lis \<Rightarrow> if listener_changed t lis
          then newly_open (dl_next d) t d' \<or> fmlookup (dl_listeners d') (tc_Name t) = None \<and> sock_clash ts t d d'
          else fmlookup (dl_listeners d') (tc_Name t) = Some lis
      | None \<Rightarrow> newly_open (dl_next d) t d' \<or> fmlookup (dl_listeners d') (tc_Name t) = None \<and> sock_clash ts t d d'"
    if t: "t \<in> set ts" for t
  proof (cases "fmlookup (dl_listeners d2) (tc_Name t)")
    case None
    have "listener_changed t lis" if "fmlookup (dl_listeners d) (tc_Name t) = Some lis" for lis
      using None stays [of "tc_Name t" lis] that t by auto
    with fresh [OF t None] show ?thesis by (auto split: option.splits)
  next
    case (Some lis)
    then have "fmlookup (dl_listeners d) (tc_Name t) = Some lis" "\<not> listener_changed t lis" using stays only t by blast+
    moreover have "fmlookup (dl_listeners d') (tc_Name t) = Some lis" using Some res(2) by (simp add: plane_extends_def)
    ultimately show ?thesis by simp
  qed
  with res(1) none show ?thesis by blast
qed

section \<open>The TCP proxy stays within the policy\<close>

text \<open>The name the policy is asked about: none for a literal address.\<close>

definition policy_host :: "string \<Rightarrow> string" where
  "policy_host host = (if ParseAddr host = None then host else [])"

lemma dialTarget_attempts:
  assumes "dialTargetContext env pols prin t target = (r, tried)"
  shows "set tried \<subseteq> {AddrPort (Unmap ip) port | host ip port. (host, ip, port) \<in> target_addrs env ''tcp'' target \<and>
      destinationAllowed (pe_unicode env) pols prin t (policy_host host) ip port ''tcp''} \<and>
    (\<forall>a. r = Some a \<longrightarrow> a \<in> set tried \<and> pe_dialOk env a)"
proof (cases "SplitHostPort target")
  case None
  with assms show ?thesis by (auto simp: dialTargetContext_def)
next
  case (Some hp)
  obtain host portText where hp: "SplitHostPort target = Some (host, portText)" using Some by (cases hp) auto
  show ?thesis
  proof (cases "LookupPort (pe_services env) ''tcp'' portText")
    case None
    with hp assms show ?thesis by (auto simp: dialTargetContext_def)
  next
    case port: (Some p)
    show ?thesis
    proof (cases "ParseAddr host")
      case (Some ip)
      then have "(host, ip, of_int p) \<in> target_addrs env ''tcp'' target" using hp port by (simp add: target_addrs_def)
      moreover have "policy_host host = []" using Some by (simp add: policy_host_def)
      ultimately show ?thesis using assms hp port Some by (auto simp: dialTargetContext_def Let_def split: if_splits) metis+
    next
      case None
      show ?thesis
      proof (cases "pe_resolver env host")
        case (Some as)
        have addrs: "(host, ip, of_int p) \<in> target_addrs env ''tcp'' target" if "ip \<in> set as" for ip
          using hp port None Some that by (auto simp: target_addrs_def)
        have loop: "dial_loop (pe_dialOk env)
            (\<lambda>ip. destinationAllowed (pe_unicode env) pols prin t host ip (of_int p) ''tcp'') (of_int p) as = (r, tried)"
          using assms hp port None Some by (simp add: dialTargetContext_def Let_def)
        have "policy_host host = host" using None by (simp add: policy_host_def)
        with dial_loop_spec(1,2) [OF loop] addrs show ?thesis by fastforce
      qed (use assms hp port None in \<open>auto simp: dialTargetContext_def\<close>)
    qed
  qed
qed

text \<open>The target a tunnel's connections go to: the upstream proxy's of a transparent SOCKS tunnel, else its own.\<close>

definition proxy_target :: "(string \<Rightarrow> string option) \<Rightarrow> tunnelConfig \<Rightarrow> string option" where
  "proxy_target urlHost t = (if \<not> IsSocks t then Some (tc_Target t)
     else case tc_Socks t of None \<Rightarrow> None
       | Some sc \<Rightarrow> if so_Transparent sc then urlHost (so_Upstream sc) else None)"

text \<open>C9: an accepted connection reaches only what its principal may reach. Whatever the resolver, the service
  table and the network answer, the proxy attempts connections only for a principal that is granted the
  tunnel, only to addresses that the one resolution of the tunnel's target (or transparent upstream)
  gave, and only to those the destination policy allows this principal under the name it resolved;
  the connection it joins is one of these attempts, and a SOCKS session always carries the granted
  principal in its context.\<close>

theorem proxy_within_policy:
  assumes "proxy env urlHost hasServer pols prin t = (act, tried)"
  shows "(\<forall>a \<in> set tried. \<exists>p target host ip. prin = Some p \<and> tc_Name t |\<in>| pr_Tunnels p \<and>
       proxy_target urlHost t = Some target \<and> (host, ip, ap_Port a) \<in> target_addrs env ''tcp'' target \<and> ap_Addr a = Unmap ip \<and>
       destinationAllowed (pe_unicode env) pols p t (policy_host host) ip (ap_Port a) ''tcp'') \<and>
    (case act of
       ProxyTarget a \<Rightarrow> a \<in> set tried \<and> pe_dialOk env a
     | ProxySocks p \<Rightarrow> tried = [] \<and> prin = Some p \<and> tc_Name t |\<in>| pr_Tunnels p \<and> IsSocks t \<and> hasServer
     | ProxyPanic \<Rightarrow> IsSocks t \<and> tc_Socks t = None
     | ProxyClosed \<Rightarrow> True)"
proof (cases "\<exists>p target r. prin = Some p \<and> tc_Name t |\<in>| pr_Tunnels p \<and> proxy_target urlHost t = Some target \<and>
    dialTargetContext env pols p t target = (r, tried) \<and> act = (case r of None \<Rightarrow> ProxyClosed | Some a \<Rightarrow> ProxyTarget a)")
  case True
  then obtain p target r where d: "prin = Some p" "tc_Name t |\<in>| pr_Tunnels p" "proxy_target urlHost t = Some target"
    "dialTargetContext env pols p t target = (r, tried)" "act = (case r of None \<Rightarrow> ProxyClosed | Some a \<Rightarrow> ProxyTarget a)" by blast
  note at = dialTarget_attempts [OF d(4)]
  have "\<exists>p target host ip. prin = Some p \<and> tc_Name t |\<in>| pr_Tunnels p \<and> proxy_target urlHost t = Some target \<and>
      (host, ip, ap_Port a) \<in> target_addrs env ''tcp'' target \<and> ap_Addr a = Unmap ip \<and>
      destinationAllowed (pe_unicode env) pols p t (policy_host host) ip (ap_Port a) ''tcp''"
    if "a \<in> set tried" for a using at that d(1-3) by fastforce
  with at d(5) show ?thesis by (auto split: option.splits)
next
  case False
  with assms have "tried = [] \<and> (act = ProxyClosed \<or> (\<exists>p. act = ProxySocks p \<and> prin = Some p \<and> tc_Name t |\<in>| pr_Tunnels p \<and> IsSocks t \<and> hasServer) \<or>
      act = ProxyPanic \<and> IsSocks t \<and> tc_Socks t = None)"
    by (auto simp: proxy_def proxySocks_def dialFixedTarget_def proxy_target_def Let_def split: option.splits if_splits prod.splits)
  then show ?thesis by (auto split: proxyAction.splits)
qed

section \<open>Witnesses\<close>

definition dp_env :: planeEnv where
  "dp_env = \<lparr>pe_unicode = \<lparr>uni_lower = id, uni_trim = id\<rparr>, pe_resolver = (\<lambda>_. None), pe_services = (\<lambda>_ _. None),
     pe_dialOk = (\<lambda>_. True), pe_String = (\<lambda>_. [])\<rparr>"

definition dp_tunnel :: "string \<Rightarrow> int \<Rightarrow> tunnelConfig" where
  "dp_tunnel name port = \<lparr>tc_Name = name, tc_Target = ''203.0.113.5:53'', tc_VirtualPort = port, tc_Protocol = ''udp'',
     tc_UDPIdleTimeout = 0, tc_LocalPort = 0, tc_LocalHost = [], tc_Allow = [], tc_DestinationPolicy = [], tc_Socks = None\<rparr>"

definition dp_peer :: nativePeer where
  "dp_peer = \<lparr>np_Name = ''router'', np_PublicKey = ctl_key, np_TunnelIP = IP4 0x64400005, np_Tunnels = [''dns''], np_DestinationPolicy = []\<rparr>"

definition dp_state :: serverState where
  "dp_state = ctl_state\<lparr>st_config := (ctl_config [])\<lparr>cf_NativeEnabled := True, cf_Natives := [dp_peer]\<rparr>\<rparr>"

definition dp_src :: addrPort where "dp_src = AddrPort (IP4 0x64400005) 40000"
definition dp_dst :: addrPort where "dp_dst = AddrPort (IP4 0xcb007105) 53"

lemma dp_target: "SplitHostPort ''203.0.113.5:53'' = Some (''203.0.113.5'', ''53'')"
    "LookupPort services network ''53'' = Some 53" "ParseAddr ''203.0.113.5'' = Some (IP4 0xcb007105)"
proof -
  have "parsePort ''53'' = Some 53" by code_simp
  then show "LookupPort services network ''53'' = Some 53" by (simp add: LookupPort_def)
qed code_simp+

lemma dp_principal: "principalForIP 0 [] (IP4 0x64400005) dp_state = Some (native_principal dp_peer)"
  by (simp add: principalForIP_def dp_state_def ses_All_def map_filter_simps dp_peer_def)

lemma dp_allowed:
  "destinationAllowed u fmempty (native_principal dp_peer) (dp_tunnel name port) h ip p proto"
  by (simp add: destinationAllowed_def native_principal_def dp_peer_def dp_tunnel_def)

lemma dp_dial: "dialFixedUDP dp_env fmempty (native_principal dp_peer) (dp_tunnel ''dns'' 53) = (Some dp_dst, [dp_dst])"
  using dp_allowed [of _ "''dns''" 53] dp_target
  by (simp add: dialFixedUDP_def dp_tunnel_def dp_env_def dp_dst_def Unmap_def Let_def)

theorem udp_flows_isolated_witness:
  "run (udp_step dp_env (dp_tunnel ''dns'' 53)) fmempty
     [(UDatagram fmempty dp_state 0 [] dp_src [7], [ToTarget dp_src dp_dst [7]]), (UReply dp_src [8] True, [ToClient dp_src [8]])]
     (fmupd dp_src dp_dst fmempty) \<and>
   opens_flow dp_env (dp_tunnel ''dns'' 53) dp_src dp_dst (UDatagram fmempty dp_state 0 [] dp_src [7])"
proof -
  have "udp_exec dp_env (dp_tunnel ''dns'' 53) (UDatagram fmempty dp_state 0 [] dp_src [7]) fmempty =
      ([ToTarget dp_src dp_dst [7]], fmupd dp_src dp_dst fmempty)"
    using dp_principal dp_dial by (simp add: proxyUDP_datagram_def dp_src_def native_principal_def dp_peer_def dp_tunnel_def)
  moreover have "udp_exec dp_env (dp_tunnel ''dns'' 53) (UReply dp_src [8] True) (fmupd dp_src dp_dst fmempty) =
      ([ToClient dp_src [8]], fmupd dp_src dp_dst fmempty)" by (simp add: proxyUDP_reply_def)
  ultimately have r: "run (udp_step dp_env (dp_tunnel ''dns'' 53)) fmempty
     ([] @ (UDatagram fmempty dp_state 0 [] dp_src [7], [ToTarget dp_src dp_dst [7]]) # [(UReply dp_src [8] True, [ToClient dp_src [8]])])
     (fmupd dp_src dp_dst fmempty)" by (auto intro!: run_two udp_step.exec)
  from udp_flows_isolated [OF this, of "ToTarget dp_src dp_dst [7]"] r show ?thesis by simp
qed

theorem proxy_within_policy_witness:
  "proxy dp_env (\<lambda>_. None) False fmempty (Some (native_principal dp_peer)) (dp_tunnel ''dns'' 53) = (ProxyTarget dp_dst, [dp_dst]) \<and>
   (\<exists>host ip. (host, ip, 53) \<in> target_addrs dp_env ''tcp'' ''203.0.113.5:53'' \<and> ap_Addr dp_dst = Unmap ip)"
proof -
  have p: "proxy dp_env (\<lambda>_. None) False fmempty (Some (native_principal dp_peer)) (dp_tunnel ''dns'' 53) = (ProxyTarget dp_dst, [dp_dst])"
    using dp_allowed [of _ "''dns''" 53] dp_target
    by (simp add: proxy_def dialFixedTarget_def dialTargetContext_def dp_tunnel_def dp_env_def dp_dst_def Unmap_def
        native_principal_def dp_peer_def IsSocks_def socksTarget_def Let_def)
  moreover have "proxy_target (\<lambda>_. None) (dp_tunnel ''dns'' 53) = Some ''203.0.113.5:53''"
    by (simp add: proxy_target_def dp_tunnel_def IsSocks_def socksTarget_def)
  ultimately show ?thesis using proxy_within_policy [OF p] by (auto simp: dp_dst_def)
qed

theorem socks_udp_frame_exact_witness:
  "parseSocksUDP (socksUDPFrame dp_dst [1, 2]) = Some ([], IP4 0xcb007105, 53, [1, 2]) \<and>
   parseSocksUDP ([0, 0, 0] @ dest_bytes (DestName ''h'') @ be_bytes 2 (53 :: 16 word) @ [9]) = Some (''h'', IPInvalid, 53, [9])"
  using socks_udp_frame_exact [of dp_dst "[1, 2]" "DestName ''h''" 53 "[]"] socks_udp_frame_exact [of dp_dst "[9]" "DestName ''h''" 53 "[]"]
  by (simp add: dp_dst_def addr_IsValid_def Unmap_def)

definition dp_socks :: socksConfig where
  "dp_socks = \<lparr>so_Transparent = False, so_OnlyLocal = False, so_Filters = [], so_DomainFilters = [], so_ASNFilters = [],
     so_ASNUpdates = None, so_ASNURL = [], so_ReverseFilters = False, so_DNSTimeout = 0, so_AllowAll = True, so_AllowBind = False,
     so_AllowLocalEgress = False, so_Upstream = [], so_UDPIdleTimeout = 0\<rparr>"

definition dp_web :: tunnelConfig where
  "dp_web = (dp_tunnel ''dns'' 1080)\<lparr>tc_Target := ''socks'', tc_Socks := Some dp_socks\<rparr>"

definition dp_renv :: runtimeEnv where
  "dp_renv = \<lparr>re_unicode = \<lparr>uni_lower = id, uni_trim = id\<rparr>, re_parseURL = (\<lambda>_. None), re_socks5 = (\<lambda>_. None),
     re_dial = (\<lambda>_. DialErr), re_resolver = (\<lambda>_. None), re_listenUDP = None, re_asn = None\<rparr>"

definition dp_live :: liveConfig where
  "dp_live = \<lparr>lv_Tunnels = [dp_web], lv_Policies = fmempty\<rparr>"

theorem socks_udp_always_denied_witness:
  "\<exists>sv. newSocksRuntime dp_renv dp_live dp_web dp_socks = Some sv \<and>
     socks_udp_all dp_env fmempty (native_principal dp_peer) dp_web sv [(dp_src, socksUDPFrame dp_dst [7])] fmempty = [] \<and>
     AuthorizeUDP sv (Some (native_principal dp_peer)) [] (IP4 0xcb007105) 53 = (IP4 0xcb007105, True)"
proof -
  obtain sv where sv: "newSocksRuntime dp_renv dp_live dp_web dp_socks = Some sv"
    and f: "Allowed (sv_filter sv) [] (IP4 0xcb007105)"
  proof -
    obtain f where nf: "NewFilter (socks_filter_config dp_socks) None = Inr f" and al: "Allowed f [] (IP4 0xcb007105)"
      by (simp add: NewFilter_def socks_filter_config_def dp_socks_def Allowed_def addr_IsValid_def Unmap_def deniedByDefault_def
          IsUnspecified_def Let_def)
    then show ?thesis using that
      by (simp add: newSocksRuntime_def socks_New_def socks_runtime_config_def dp_socks_def dp_renv_def Let_def)
  qed
  have "destinationAllowed u fmempty (native_principal dp_peer) dp_web h ip p proto" for u h ip p proto
    by (simp add: destinationAllowed_def native_principal_def dp_peer_def dp_tunnel_def dp_web_def)
  then have "socks_authorize dp_renv dp_live (tc_Name dp_web) (Some (native_principal dp_peer)) [] (IP4 0xcb007105) 53 ''udp''"
    by (simp add: socks_authorize_def dp_live_def IsSocks_def socksTarget_def) (simp add: dp_web_def)
  then show ?thesis
    using sv socks_udp_always_denied [OF sv, where penv = dp_env and pols = fmempty and prin = "native_principal dp_peer" and
        ins = "[(dp_src, socksUDPFrame dp_dst [7])]" and hostname = "[]" and ip = "IP4 0xcb007105" and port = 53] f
    by (auto simp: filterDestinationProtocol_def addr_IsValid_def)
qed

text \<open>Two tunnels that exchange their ports.\<close>

definition dp_plane :: listenPlane where
  "dp_plane = \<lparr>dl_listeners = fmupd ''a'' \<lparr>tl_config = dp_tunnel ''a'' 1, tl_conn = 0\<rparr>
       (fmupd ''b'' \<lparr>tl_config = dp_tunnel ''b'' 2, tl_conn = 1\<rparr> fmempty),
     dl_open = fmupd 0 (True, 1) (fmupd 1 (True, 2) fmempty), dl_next = 2\<rparr>"

theorem reload_tunnels_exact_witness:
  "\<exists>i j. 2 \<le> i \<and> 2 \<le> j \<and>
     fmlookup (dl_listeners (reloadTunnels (\<lambda>open s. s |\<notin>| fmran open) [''a'', ''b''] [''b'', ''a''] [dp_tunnel ''a'' 2, dp_tunnel ''b'' 1] dp_plane)) ''a'' =
       Some \<lparr>tl_config = dp_tunnel ''a'' 2, tl_conn = i\<rparr> \<and>
     fmlookup (dl_listeners (reloadTunnels (\<lambda>open s. s |\<notin>| fmran open) [''a'', ''b''] [''b'', ''a''] [dp_tunnel ''a'' 2, dp_tunnel ''b'' 1] dp_plane)) ''b'' =
       Some \<lparr>tl_config = dp_tunnel ''b'' 1, tl_conn = j\<rparr>"
proof -
  have inv: "plane_inv dp_plane" by (auto simp: plane_inv_def dp_plane_def dp_tunnel_def tunnel_sock_def)
  have free: "\<forall>open s. (\<forall>i. fmlookup open i \<noteq> Some s) \<longrightarrow> s |\<notin>| fmran open" by (auto simp: fmlookup_ran_iff)
  have other: "other_socks dp_plane = {}" by (auto simp: other_socks_def dp_plane_def)
  have ord: "range_order [''a'', ''b''] (dl_listeners dp_plane)" by (auto simp: range_order_def dp_plane_def)
  let ?ts = "[dp_tunnel ''a'' 2, dp_tunnel ''b'' 1]"
  have names: "distinct (map tc_Name ?ts)" "set [''b'', ''a''] = tc_Name ` set ?ts" by (auto simp: dp_tunnel_def)
  define d' where "d' = reloadTunnels (\<lambda>open s. s |\<notin>| fmran open) [''a'', ''b''] [''b'', ''a''] ?ts dp_plane"
  have no_clash: "\<not> sock_clash ?ts t dp_plane d'" if "t \<in> set ?ts" for t
    using that by (auto simp: sock_clash_def other dp_tunnel_def tunnel_sock_def)
  have changed: "listener_changed (dp_tunnel ''a'' 2) \<lparr>tl_config = dp_tunnel ''a'' 1, tl_conn = 0\<rparr>"
      "listener_changed (dp_tunnel ''b'' 1) \<lparr>tl_config = dp_tunnel ''b'' 2, tl_conn = 1\<rparr>"
    by (simp_all add: listener_changed_def dp_tunnel_def)
  have before: "fmlookup (dl_listeners dp_plane) ''a'' = Some \<lparr>tl_config = dp_tunnel ''a'' 1, tl_conn = 0\<rparr>"
      "fmlookup (dl_listeners dp_plane) ''b'' = Some \<lparr>tl_config = dp_tunnel ''b'' 2, tl_conn = Suc 0\<rparr>" "dl_next dp_plane = 2"
    by (simp_all add: dp_plane_def)
  have named: "tc_Name (dp_tunnel n p) = n" for n p by (simp add: dp_tunnel_def)
  have distinct_order: "distinct [''b'', ''a'']" by simp
  from reload_tunnels_exact [OF inv free names(1) ord distinct_order names(2) d'_def]
  have "newly_open 2 (dp_tunnel ''a'' 2) d'" "newly_open 2 (dp_tunnel ''b'' 1) d'"
    using no_clash by (simp_all add: named before changed [unfolded One_nat_def])
  then show ?thesis unfolding newly_open_def named d'_def by blast
qed

end
