(* ===== verification/Relay_Pool.thy ===== *)
theory Relay_Pool
  imports Ntwire_Prelude Float64
begin

text \<open>
  The server's relay pool (src/pkg/server/relaypool.go): the members and their
  registrations, the sticky choice of the preferred member, and the publication of changes
  to the callbacks. \<open>RelayPool.update\<close> has two critical sections: one changes the pool under
  \<open>p.mu\<close> and takes a snapshot with a revision number, the other waits for
  \<open>p.callbacksMu\<close>, decides under \<open>p.mu\<close> whether the snapshot is still the latest and then
  runs the callbacks with only \<open>p.callbacksMu\<close> held. They are three steps of the model
  (\<open>update_commit\<close>, \<open>update_claim\<close>, \<open>deliver\<close>), and any number of updates of any
  members, and \<open>Close\<close>, may interleave between them.
\<close>

section \<open>State\<close>

text \<open>The fields of the registration response that the pool reads.\<close>

record RelayRegisterResponse =
  rr_Domain :: string
  rr_ReflectAddr :: string
  rr_UDPRelayAddr :: string
  rr_NativeWireGuardAddr :: string
  rr_NativeWireGuardToken :: string

definition zero_response :: RelayRegisterResponse where
  "zero_response = \<lparr>rr_Domain = [], rr_ReflectAddr = [], rr_UDPRelayAddr = [],
     rr_NativeWireGuardAddr = [], rr_NativeWireGuardToken = []\<rparr>"

text \<open>A member carries the two allocation counters of its agent; the agent itself is
  identified by the member's index.\<close>

record relayPoolMember =
  pm_registered :: bool
  pm_response :: RelayRegisterResponse
  pm_allocSuccess :: "64 word"
  pm_allocFailure :: "64 word"

record RelayPool =
  rp_members :: "relayPoolMember list"
  rp_revision :: "64 word"
  rp_preferredPending :: bool
  rp_nativeSetPending :: bool
  rp_closed :: bool
  rp_domain :: string
  rp_preferred :: "nat option"

type_synonym NativeAssociation = "string \<times> string"

section \<open>Choosing the preferred member\<close>

definition rp_native :: "relayPoolMember \<Rightarrow> bool" where
  "rp_native m \<longleftrightarrow> pm_registered m \<and> rr_NativeWireGuardAddr (pm_response m) \<noteq> []
     \<and> rr_NativeWireGuardToken (pm_response m) \<noteq> []"

definition nativeSet :: "RelayPool \<Rightarrow> NativeAssociation list" where
  "nativeSet p = map (\<lambda>m. (rr_NativeWireGuardAddr (pm_response m),
     rr_NativeWireGuardToken (pm_response m))) (filter rp_native (rp_members p))"

definition score_member :: "relayPoolMember \<Rightarrow> rat" where
  "score_member m =
     (let sc = (if rr_UDPRelayAddr (pm_response m) = [] then 1 else 0);
          total = pm_allocSuccess m + pm_allocFailure m
      in if 0 < total
         then fl (sc + fl (fl (of_nat (unat (pm_allocFailure m))) / fl (of_nat (unat total))))
         else sc)"

fun chooseBest :: "relayPoolMember list \<Rightarrow> nat list \<Rightarrow> nat option \<Rightarrow> nat option" where
  "chooseBest ms [] best = best"
| "chooseBest ms (i # is) best =
     (if \<not> pm_registered (ms ! i) then chooseBest ms is best
      else chooseBest ms is
        (case best of None \<Rightarrow> Some i
         | Some b \<Rightarrow> if score_member (ms ! i) < score_member (ms ! b) then Some i else best))"

definition choosePreferred :: "RelayPool \<Rightarrow> nat option \<Rightarrow> nat option" where
  "choosePreferred p current =
     (case current of
        Some i \<Rightarrow> if pm_registered (rp_members p ! i) then current
                  else chooseBest (rp_members p) [0..<length (rp_members p)] None
      | None \<Rightarrow> chooseBest (rp_members p) [0..<length (rp_members p)] None)"

definition Healthy :: "RelayPool \<Rightarrow> bool" where
  "Healthy p \<longleftrightarrow> (\<exists>m \<in> set (rp_members p). pm_registered m)"

section \<open>Publication\<close>

text \<open>What the callbacks are given: the addresses of the preferred member and the set of
  native associations. The same record is the state of the subscribers, which keep the last
  values given to them.\<close>

record pool_view =
  pv_reflect :: string
  pv_udp :: "nat option \<times> string"
  pv_native :: "string \<times> string"
  pv_set :: "NativeAssociation list"

definition empty_view :: pool_view where
  "empty_view = \<lparr>pv_reflect = [], pv_udp = (None, []), pv_native = ([], []), pv_set = []\<rparr>"

definition rp_view :: "RelayPool \<Rightarrow> pool_view" where
  "rp_view p = (case rp_preferred p of
       None \<Rightarrow> empty_view\<lparr>pv_set := nativeSet p\<rparr>
     | Some i \<Rightarrow> (let r = pm_response (rp_members p ! i) in
         \<lparr>pv_reflect = rr_ReflectAddr r, pv_udp = (Some i, rr_UDPRelayAddr r),
          pv_native = (rr_NativeWireGuardAddr r, rr_NativeWireGuardToken r),
          pv_set = nativeSet p\<rparr>))"

text \<open>Which of the four optional callbacks are set.\<close>

record pool_hooks =
  OnReflectAddr :: bool
  OnUDPRelayAddr :: bool
  OnNativeWireGuard :: bool
  OnNativeWireGuardSet :: bool

definition publish_preferred :: "pool_hooks \<Rightarrow> pool_view \<Rightarrow> pool_view \<Rightarrow> pool_view" where
  "publish_preferred h v s =
     s\<lparr>pv_reflect := (if OnReflectAddr h then pv_reflect v else pv_reflect s),
       pv_udp := (if OnUDPRelayAddr h then pv_udp v else pv_udp s),
       pv_native := (if OnNativeWireGuard h then pv_native v else pv_native s)\<rparr>"

definition publish_set :: "pool_hooks \<Rightarrow> pool_view \<Rightarrow> pool_view \<Rightarrow> pool_view" where
  "publish_set h v s = s\<lparr>pv_set := (if OnNativeWireGuardSet h then pv_set v else pv_set s)\<rparr>"

section \<open>The critical sections\<close>

definition addr_fields :: "RelayRegisterResponse \<Rightarrow> string \<times> string \<times> string \<times> string" where
  "addr_fields r = (rr_ReflectAddr r, rr_UDPRelayAddr r, rr_NativeWireGuardAddr r,
     rr_NativeWireGuardToken r)"

text \<open>The first critical section of \<open>update\<close>. The second component is the work left for the
  second one: the snapshot and its revision, or nothing when the update changed nothing or
  the pool is closed.\<close>

definition update_commit ::
  "nat \<Rightarrow> bool \<Rightarrow> RelayRegisterResponse \<Rightarrow> RelayPool \<Rightarrow> RelayPool \<times> (pool_view \<times> 64 word) option" where
  "update_commit i registered0 response p =
     (if rp_closed p then (p, None)
      else
        let mismatch = registered0 \<and> rr_Domain response \<noteq> [] \<and> rp_domain p \<noteq> []
              \<and> rr_Domain response \<noteq> rp_domain p;
            registered = (registered0 \<and> \<not> mismatch);
            domain = (if registered \<and> rr_Domain response \<noteq> [] \<and> rp_domain p = []
                      then rr_Domain response else rp_domain p);
            oldResponse = pm_response (rp_members p ! i);
            oldSet = nativeSet p;
            oldPreferred = rp_preferred p;
            p1 = p\<lparr>rp_domain := domain, rp_members := (rp_members p)[i := (rp_members p ! i)
                     \<lparr>pm_registered := registered, pm_response := response\<rparr>]\<rparr>;
            preferred = choosePreferred p1 oldPreferred;
            p2 = p1\<lparr>rp_preferred := preferred\<rparr>;
            setChanged = (oldSet \<noteq> nativeSet p2);
            changed = (oldPreferred \<noteq> preferred
              \<or> preferred = Some i \<and> registered \<and> addr_fields oldResponse \<noteq> addr_fields response);
            p3 = p2\<lparr>rp_preferredPending := rp_preferredPending p \<or> changed,
                    rp_nativeSetPending := rp_nativeSetPending p \<or> setChanged,
                    rp_revision := (if changed \<or> setChanged then rp_revision p + 1
                                    else rp_revision p)\<rparr>
        in (p3, if changed \<or> setChanged then Some (rp_view p2, rp_revision p3) else None))"

text \<open>The work that the holder of \<open>p.callbacksMu\<close> has in hand.\<close>

datatype pool_delivery = Deliver_update bool bool pool_view | Deliver_close

definition update_claim ::
  "pool_view \<times> 64 word \<Rightarrow> RelayPool \<Rightarrow> RelayPool \<times> pool_delivery option" where
  "update_claim job p =
     (if \<not> rp_closed p \<and> rp_revision p = snd job
      then (p\<lparr>rp_preferredPending := False, rp_nativeSetPending := False\<rparr>,
            Some (Deliver_update (rp_preferredPending p) (rp_nativeSetPending p) (fst job)))
      else (p, None))"

fun deliver :: "pool_hooks \<Rightarrow> pool_delivery \<Rightarrow> pool_view \<Rightarrow> pool_view" where
  "deliver h (Deliver_update changed setChanged v) s =
     (let s1 = (if changed then publish_preferred h v s else s)
      in if setChanged then publish_set h v s1 else s1)"
| "deliver h Deliver_close s = publish_preferred h empty_view (publish_set h empty_view s)"

definition pool_Close :: "RelayPool \<Rightarrow> RelayPool \<times> pool_delivery option" where
  "pool_Close p =
     (if rp_closed p then (p, None)
      else (p\<lparr>rp_closed := True, rp_preferred := None,
              rp_members := map (pm_registered_update (\<lambda>_. False)) (rp_members p)\<rparr>,
            Some Deliver_close))"

text \<open>The outcome of an allocation on a member's agent (\<open>AllocateUDPSession\<close>).\<close>

definition count_alloc :: "nat \<Rightarrow> bool \<Rightarrow> RelayPool \<Rightarrow> RelayPool" where
  "count_alloc i success p = p\<lparr>rp_members := (rp_members p)[i :=
     (if success then (rp_members p ! i)\<lparr>pm_allocSuccess := pm_allocSuccess (rp_members p ! i) + 1\<rparr>
      else (rp_members p ! i)\<lparr>pm_allocFailure := pm_allocFailure (rp_members p ! i) + 1\<rparr>)]\<rparr>"

section \<open>The pool as a transition system\<close>

text \<open>The pool, the updates that wait for \<open>p.callbacksMu\<close>, the work of its holder, and the
  subscribers.\<close>

record pool_sys =
  sy_pool :: RelayPool
  sy_waiting :: "(pool_view \<times> 64 word) list"
  sy_holder :: "pool_delivery option"
  sy_sub :: pool_view

datatype pool_event =
    EvUpdate nat bool RelayRegisterResponse
  | EvClaim nat
  | EvDeliver
  | EvClose
  | EvAlloc nat bool

definition remove_nth :: "nat \<Rightarrow> 'x list \<Rightarrow> 'x list" where
  "remove_nth k xs = take k xs @ drop (Suc k) xs"

definition opt_list :: "'x option \<Rightarrow> 'x list" where
  "opt_list x = (case x of None \<Rightarrow> [] | Some y \<Rightarrow> [y])"

inductive pool_step :: "pool_hooks \<Rightarrow> pool_sys \<Rightarrow> pool_event \<Rightarrow> pool_sys \<Rightarrow> bool" for h where
  st_update: "i < length (rp_members (sy_pool s)) \<Longrightarrow> update_commit i reg resp (sy_pool s) = (p, job) \<Longrightarrow>
     pool_step h s (EvUpdate i reg resp) (s\<lparr>sy_pool := p, sy_waiting := sy_waiting s @ opt_list job\<rparr>)"
| st_claim: "sy_holder s = None \<Longrightarrow> k < length (sy_waiting s) \<Longrightarrow>
     update_claim (sy_waiting s ! k) (sy_pool s) = (p, d) \<Longrightarrow>
     pool_step h s (EvClaim k)
       (s\<lparr>sy_pool := p, sy_waiting := remove_nth k (sy_waiting s), sy_holder := d\<rparr>)"
| st_deliver: "sy_holder s = Some d \<Longrightarrow>
     pool_step h s EvDeliver (s\<lparr>sy_holder := None, sy_sub := deliver h d (sy_sub s)\<rparr>)"
| st_close: "sy_holder s = None \<Longrightarrow> pool_Close (sy_pool s) = (p, d) \<Longrightarrow>
     pool_step h s EvClose (s\<lparr>sy_pool := p, sy_holder := d\<rparr>)"
| st_alloc: "i < length (rp_members (sy_pool s)) \<Longrightarrow>
     pool_step h s (EvAlloc i ok) (s\<lparr>sy_pool := count_alloc i ok (sy_pool s)\<rparr>)"

inductive_cases pool_stepE: "pool_step h s e t"

text \<open>Building the pool. \<open>newAgent\<close> tells whether the agent of an endpoint can be made (the TLS
  configuration of \<open>relayHTTPClient\<close>); the first failure gives up the whole pool.\<close>

type_synonym RelayEndpoint = "string \<times> string"

definition pool_endpoints :: "RelayEndpoint \<Rightarrow> RelayEndpoint list \<Rightarrow> RelayEndpoint list" where
  "pool_endpoints legacy endpoints = (if endpoints = [] then [legacy] else endpoints)"

fun new_members :: "(RelayEndpoint \<Rightarrow> bool) \<Rightarrow> RelayEndpoint list \<Rightarrow> relayPoolMember list option" where
  "new_members newAgent [] = Some []"
| "new_members newAgent (e # es) =
     (if \<not> newAgent e then None
      else map_option ((#) \<lparr>pm_registered = False, pm_response = zero_response,
             pm_allocSuccess = 0, pm_allocFailure = 0\<rparr>) (new_members newAgent es))"

definition NewRelayPool ::
  "(RelayEndpoint \<Rightarrow> bool) \<Rightarrow> RelayEndpoint \<Rightarrow> RelayEndpoint list \<Rightarrow> RelayPool option" where
  "NewRelayPool newAgent legacy endpoints =
     map_option (\<lambda>ms. \<lparr>rp_members = ms, rp_revision = 0, rp_preferredPending = False,
         rp_nativeSetPending = False, rp_closed = False, rp_domain = [], rp_preferred = None\<rparr>)
       (new_members newAgent (pool_endpoints legacy endpoints))"

definition pool_init :: "RelayPool \<Rightarrow> pool_sys" where
  "pool_init p = \<lparr>sy_pool = p, sy_waiting = [], sy_holder = None, sy_sub = empty_view\<rparr>"

section \<open>The choice\<close>

text \<open>The first of the registered members with the least score, among the first \<open>n\<close>.\<close>

definition first_min :: "relayPoolMember list \<Rightarrow> nat \<Rightarrow> nat option \<Rightarrow> bool" where
  "first_min ms n best \<longleftrightarrow> (case best of
       None \<Rightarrow> \<forall>i<n. \<not> pm_registered (ms ! i)
     | Some b \<Rightarrow> b < n \<and> pm_registered (ms ! b)
         \<and> (\<forall>i<n. pm_registered (ms ! i) \<longrightarrow> score_member (ms ! b) \<le> score_member (ms ! i)
              \<and> (i < b \<longrightarrow> score_member (ms ! b) < score_member (ms ! i))))"

lemma first_min_Suc:
  assumes "first_min ms k best"
  shows "first_min ms (Suc k) (if \<not> pm_registered (ms ! k) then best
    else case best of None \<Rightarrow> Some k
      | Some b \<Rightarrow> if score_member (ms ! k) < score_member (ms ! b) then Some k else best)"
  using assms by (cases best) (fastforce simp: first_min_def less_Suc_eq)+

lemma chooseBest_first_min:
  "first_min ms k best \<Longrightarrow> k \<le> n \<Longrightarrow> first_min ms n (chooseBest ms [k..<n] best)"
proof (induction "n - k" arbitrary: k best)
  case (Suc d)
  then have "[k..<n] = k # [Suc k..<n]" by (simp add: upt_conv_Cons)
  with Suc.hyps(1) [of "Suc k"] Suc.hyps(2) Suc.prems first_min_Suc [of ms k best] show ?case
    by (cases "pm_registered (ms ! k)") auto
qed simp

lemma first_min_unique: "first_min ms n a \<Longrightarrow> first_min ms n b \<Longrightarrow> a = b"
  by (cases a; cases b; simp add: first_min_def) (metis leD linorder_neqE_nat)+

definition preferred_ok :: "RelayPool \<Rightarrow> bool" where
  "preferred_ok p \<longleftrightarrow> (case rp_preferred p of
       None \<Rightarrow> \<forall>m \<in> set (rp_members p). \<not> pm_registered m
     | Some i \<Rightarrow> i < length (rp_members p) \<and> pm_registered (rp_members p ! i))"

lemma chooseBest_ok:
  "preferred_ok (p\<lparr>rp_preferred := chooseBest (rp_members p) [0..<length (rp_members p)] None\<rparr>)"
  using chooseBest_first_min [of "rp_members p" 0 None "length (rp_members p)"]
  by (auto simp: preferred_ok_def first_min_def in_set_conv_nth split: option.splits)

lemma choosePreferred_ok:
  "(\<And>i. c = Some i \<Longrightarrow> i < length (rp_members p)) \<Longrightarrow>
     preferred_ok (p\<lparr>rp_preferred := choosePreferred p c\<rparr>)"
  using chooseBest_ok [of p]
  by (cases c) (auto simp: choosePreferred_def preferred_ok_def)

lemma healthy_iff_preferred: "preferred_ok p \<Longrightarrow> Healthy p \<longleftrightarrow> rp_preferred p \<noteq> None"
  by (cases "rp_preferred p") (auto simp: preferred_ok_def Healthy_def)

section \<open>One update\<close>

definition pref_part :: "pool_view \<Rightarrow> string \<times> (nat option \<times> string) \<times> string \<times> string" where
  "pref_part v = (pv_reflect v, pv_udp v, pv_native v)"

lemma view_eqI: "pref_part v = pref_part w \<Longrightarrow> pv_set v = pv_set w \<Longrightarrow> v = w" for v w :: pool_view
  by (cases v; cases w) (simp add: pref_part_def)

lemma rp_view_simps [simp]:
  "rp_view (p\<lparr>rp_preferredPending := a\<rparr>) = rp_view p"
  "rp_view (p\<lparr>rp_nativeSetPending := b\<rparr>) = rp_view p"
  "rp_view (p\<lparr>rp_revision := r\<rparr>) = rp_view p"
  "pv_set (rp_view p) = nativeSet p"
  by (simp_all add: rp_view_def nativeSet_def Let_def split: option.split)

lemma rp_view_pref:
  "pref_part (rp_view p) = (case rp_preferred p of None \<Rightarrow> ([], (None, []), [], [])
     | Some i \<Rightarrow> (rr_ReflectAddr (pm_response (rp_members p ! i)),
         (Some i, rr_UDPRelayAddr (pm_response (rp_members p ! i))),
         rr_NativeWireGuardAddr (pm_response (rp_members p ! i)),
         rr_NativeWireGuardToken (pm_response (rp_members p ! i))))"
  by (simp add: rp_view_def pref_part_def empty_view_def Let_def split: option.split)

definition domain_ok :: "RelayPool \<Rightarrow> bool" where
  "domain_ok p \<longleftrightarrow> (\<forall>m \<in> set (rp_members p). pm_registered m \<longrightarrow>
     rr_Domain (pm_response m) = [] \<or> rr_Domain (pm_response m) = rp_domain p)"

text \<open>The pool after the first critical section: what changed is exactly what is marked as
  pending, and the snapshot is the view of the new state.\<close>

lemma update_commit_spec:
  assumes "\<not> rp_closed p" "i < length (rp_members p)" "preferred_ok p"
    and u: "update_commit i reg resp p = (p', job)"
  obtains ch sc where
    "preferred_ok p'" "\<not> rp_closed p'" "length (rp_members p') = length (rp_members p)"
    "rp_preferredPending p' = (rp_preferredPending p \<or> ch)"
    "rp_nativeSetPending p' = (rp_nativeSetPending p \<or> sc)"
    "\<not> ch \<longrightarrow> pref_part (rp_view p') = pref_part (rp_view p)"
    "\<not> sc \<longrightarrow> nativeSet p' = nativeSet p"
    "rp_revision p' = (if ch \<or> sc then rp_revision p + 1 else rp_revision p)"
    "job = (if ch \<or> sc then Some (rp_view p', rp_revision p') else None)"
proof -
  define registered where "registered = (reg \<and> \<not> (reg \<and> rr_Domain resp \<noteq> [] \<and> rp_domain p \<noteq> []
    \<and> rr_Domain resp \<noteq> rp_domain p))"
  define domain where "domain = (if registered \<and> rr_Domain resp \<noteq> [] \<and> rp_domain p = []
    then rr_Domain resp else rp_domain p)"
  define p1 where "p1 = p\<lparr>rp_domain := domain, rp_members := (rp_members p)[i := (rp_members p ! i)
    \<lparr>pm_registered := registered, pm_response := resp\<rparr>]\<rparr>"
  define p2 where "p2 = p1\<lparr>rp_preferred := choosePreferred p1 (rp_preferred p)\<rparr>"
  define sc where "sc = (nativeSet p \<noteq> nativeSet p2)"
  define ch where "ch = (rp_preferred p \<noteq> rp_preferred p2 \<or> rp_preferred p2 = Some i \<and> registered
    \<and> addr_fields (pm_response (rp_members p ! i)) \<noteq> addr_fields resp)"
  have p': "p' = p2\<lparr>rp_preferredPending := rp_preferredPending p \<or> ch,
      rp_nativeSetPending := rp_nativeSetPending p \<or> sc,
      rp_revision := (if ch \<or> sc then rp_revision p + 1 else rp_revision p)\<rparr>"
    and job: "job = (if ch \<or> sc then Some (rp_view p2, rp_revision p') else None)"
    using u assms(1)
    by (auto simp: update_commit_def Let_def registered_def domain_def p1_def p2_def sc_def ch_def
        split: if_splits)
  have ok2: "preferred_ok p2"
    unfolding p2_def using assms(3) by (intro choosePreferred_ok) (auto simp: p1_def preferred_ok_def)
  have keep: "pref_part (rp_view p2) = pref_part (rp_view p)" if "\<not> ch"
  proof (cases "rp_preferred p2")
    case (Some j)
    with that ok2 assms(2) show ?thesis
      by (cases "j = i") (auto simp: ch_def rp_view_pref preferred_ok_def p2_def p1_def addr_fields_def)
  qed (use that in \<open>auto simp: ch_def rp_view_pref\<close>)
  have nat: "nativeSet p' = nativeSet p2" by (simp add: p' nativeSet_def)
  show thesis
  proof (rule that [of ch sc])
    have "rp_members p' = rp_members p2" "rp_preferred p' = rp_preferred p2" by (simp_all add: p')
    with ok2 show "preferred_ok p'" by (simp add: preferred_ok_def split: option.splits)
    show "\<not> rp_closed p'" "length (rp_members p') = length (rp_members p)"
      using assms(1) by (simp_all add: p' p2_def p1_def)
    show "\<not> sc \<longrightarrow> nativeSet p' = nativeSet p" by (simp add: sc_def nat)
  qed (use keep job in \<open>simp_all add: p'\<close>)
qed

lemma update_commit_closed: "rp_closed p \<Longrightarrow> update_commit i reg resp p = (p, None)"
  by (simp add: update_commit_def)

text \<open>The registration an update leaves: it is refused when it names another domain than the
  pool's.\<close>

lemma choosePreferred_cong: "rp_members p = rp_members q \<Longrightarrow> choosePreferred p c = choosePreferred q c"
  by (simp add: choosePreferred_def split: option.split)

definition accepted_registration :: "bool \<Rightarrow> RelayRegisterResponse \<Rightarrow> RelayPool \<Rightarrow> bool" where
  "accepted_registration reg resp p \<longleftrightarrow>
     reg \<and> (rr_Domain resp = [] \<or> rp_domain p = [] \<or> rr_Domain resp = rp_domain p)"

lemma update_commit_fields:
  assumes "\<not> rp_closed p"
  shows "rp_members (fst (update_commit i reg resp p)) = (rp_members p)[i := (rp_members p ! i)
      \<lparr>pm_registered := accepted_registration reg resp p, pm_response := resp\<rparr>]"
    and "rp_domain (fst (update_commit i reg resp p)) =
      (if accepted_registration reg resp p \<and> rp_domain p = [] then rr_Domain resp else rp_domain p)"
    and "rp_preferred (fst (update_commit i reg resp p)) =
      choosePreferred (fst (update_commit i reg resp p)) (rp_preferred p)"
proof -
  have reg: "accepted_registration reg resp p = (reg \<and> \<not> (reg \<and> rr_Domain resp \<noteq> [] \<and> rp_domain p \<noteq> []
    \<and> rr_Domain resp \<noteq> rp_domain p))" by (auto simp: accepted_registration_def)
  show "rp_members (fst (update_commit i reg resp p)) = (rp_members p)[i := (rp_members p ! i)
      \<lparr>pm_registered := accepted_registration reg resp p, pm_response := resp\<rparr>]"
    using assms by (simp add: update_commit_def Let_def reg)
  show "rp_domain (fst (update_commit i reg resp p)) =
      (if accepted_registration reg resp p \<and> rp_domain p = [] then rr_Domain resp else rp_domain p)"
    using assms by (auto simp: update_commit_def Let_def accepted_registration_def)
  have "rp_preferred (fst (update_commit i reg resp p)) = choosePreferred
      (p\<lparr>rp_domain := rp_domain (fst (update_commit i reg resp p)),
         rp_members := rp_members (fst (update_commit i reg resp p))\<rparr>) (rp_preferred p)"
    using assms by (simp add: update_commit_def Let_def)
  also have "\<dots> = choosePreferred (fst (update_commit i reg resp p)) (rp_preferred p)"
    by (rule choosePreferred_cong) simp
  finally show "rp_preferred (fst (update_commit i reg resp p)) =
      choosePreferred (fst (update_commit i reg resp p)) (rp_preferred p)" .
qed

text \<open>A registered member has the pool's domain or names none, and a domain once adopted
  stays.\<close>

lemma update_commit_domain:
  assumes "domain_ok p" "i < length (rp_members p)"
  shows "domain_ok (fst (update_commit i reg resp p))"
    and "rp_domain p \<noteq> [] \<Longrightarrow> rp_domain (fst (update_commit i reg resp p)) = rp_domain p"
proof -
  show "rp_domain p \<noteq> [] \<Longrightarrow> rp_domain (fst (update_commit i reg resp p)) = rp_domain p"
    by (cases "rp_closed p") (simp_all add: update_commit_closed update_commit_fields)
  show "domain_ok (fst (update_commit i reg resp p))"
  proof (cases "rp_closed p")
    case False
    show ?thesis
      unfolding domain_ok_def update_commit_fields [OF False]
    proof
      fix m assume "m \<in> set ((rp_members p)[i := (rp_members p ! i)
        \<lparr>pm_registered := accepted_registration reg resp p, pm_response := resp\<rparr>])"
      then consider "m = (rp_members p ! i)\<lparr>pm_registered := accepted_registration reg resp p,
          pm_response := resp\<rparr>" | "m \<in> set (rp_members p)"
        using set_update_subset_insert by fastforce
      then show "pm_registered m \<longrightarrow> rr_Domain (pm_response m) = [] \<or> rr_Domain (pm_response m) =
          (if accepted_registration reg resp p \<and> rp_domain p = [] then rr_Domain resp else rp_domain p)"
      proof cases
        case 1
        then show ?thesis by (auto simp: accepted_registration_def)
      next
        case 2
        with assms(1) show ?thesis by (auto simp: domain_ok_def)
      qed
    qed
  qed (use assms in \<open>simp add: update_commit_closed\<close>)
qed

section \<open>The invariant of the system\<close>

text \<open>What the subscribers have once the holder of \<open>p.callbacksMu\<close> is done, and agreement on
  the values whose callback is set.\<close>

definition sy_final :: "pool_hooks \<Rightarrow> pool_sys \<Rightarrow> pool_view" where
  "sy_final h s = (case sy_holder s of None \<Rightarrow> sy_sub s | Some d \<Rightarrow> deliver h d (sy_sub s))"

definition agree_pref :: "pool_hooks \<Rightarrow> pool_view \<Rightarrow> pool_view \<Rightarrow> bool" where
  "agree_pref h v w \<longleftrightarrow> (OnReflectAddr h \<longrightarrow> pv_reflect v = pv_reflect w)
     \<and> (OnUDPRelayAddr h \<longrightarrow> pv_udp v = pv_udp w) \<and> (OnNativeWireGuard h \<longrightarrow> pv_native v = pv_native w)"

definition agree_set :: "pool_hooks \<Rightarrow> pool_view \<Rightarrow> pool_view \<Rightarrow> bool" where
  "agree_set h v w \<longleftrightarrow> (OnNativeWireGuardSet h \<longrightarrow> pv_set v = pv_set w)"

lemma publish_agree [simp]:
  "agree_pref h (publish_preferred h v s) v"
  "agree_pref h (publish_set h v s) w = agree_pref h s w"
  "agree_set h (publish_set h v s) v"
  "agree_set h (publish_preferred h v s) w = agree_set h s w"
  by (simp_all add: agree_pref_def agree_set_def publish_preferred_def publish_set_def)

lemma agree_pref_cong: "pref_part w = pref_part w' \<Longrightarrow> agree_pref h v w = agree_pref h v w'"
  by (simp add: agree_pref_def pref_part_def)

text \<open>An open pool: the waiting snapshots are of earlier revisions or of the current state;
  a pending change has its latest snapshot waiting; what is not pending has been delivered.\<close>

definition waiting_ok :: "(pool_view \<times> 64 word) list \<Rightarrow> RelayPool \<Rightarrow> bool" where
  "waiting_ok ws p \<longleftrightarrow> (\<forall>(v, r) \<in> set ws. unat r \<le> unat (rp_revision p)
     \<and> (r = rp_revision p \<longrightarrow> v = rp_view p))"

definition open_inv :: "pool_hooks \<Rightarrow> pool_sys \<Rightarrow> bool" where
  "open_inv h s \<longleftrightarrow> (let p = sy_pool s in waiting_ok (sy_waiting s) p
     \<and> (rp_preferredPending p \<or> rp_nativeSetPending p \<longrightarrow>
          (rp_view p, rp_revision p) \<in> set (sy_waiting s))
     \<and> (\<not> rp_preferredPending p \<longrightarrow> agree_pref h (sy_final h s) (rp_view p))
     \<and> (\<not> rp_nativeSetPending p \<longrightarrow> agree_set h (sy_final h s) (rp_view p))
     \<and> sy_holder s \<noteq> Some Deliver_close)"

definition closed_inv :: "pool_hooks \<Rightarrow> pool_sys \<Rightarrow> bool" where
  "closed_inv h s \<longleftrightarrow> rp_preferred (sy_pool s) = None
     \<and> agree_pref h (sy_final h s) empty_view \<and> agree_set h (sy_final h s) empty_view"

definition rpool_inv :: "pool_hooks \<Rightarrow> pool_sys \<Rightarrow> bool" where
  "rpool_inv h s \<longleftrightarrow> preferred_ok (sy_pool s) \<and> domain_ok (sy_pool s)
     \<and> (if rp_closed (sy_pool s) then closed_inv h s else open_inv h s)"

lemma new_members_fresh:
  "new_members newAgent es = Some ms \<Longrightarrow> length ms = length es \<and> (\<forall>m \<in> set ms. \<not> pm_registered m)"
  by (induction es arbitrary: ms) (auto split: if_splits)

lemma rpool_inv_init:
  assumes "NewRelayPool newAgent legacy es = Some p" shows "rpool_inv h (pool_init p)"
proof -
  have f: "rp_preferred p = None" "\<not> rp_closed p" "\<not> rp_preferredPending p" "\<not> rp_nativeSetPending p"
    "\<forall>m \<in> set (rp_members p). \<not> pm_registered m"
    using assms new_members_fresh [of newAgent "pool_endpoints legacy es"] by (auto simp: NewRelayPool_def)
  then have "rp_view p = empty_view"
    by (auto simp: rp_view_def nativeSet_def rp_native_def empty_view_def filter_empty_conv)
  with f show ?thesis
    by (simp add: rpool_inv_def pool_init_def preferred_ok_def domain_ok_def open_inv_def waiting_ok_def
        sy_final_def agree_pref_def agree_set_def del: rp_view_simps(4))
qed

lemma sy_final_update [simp]:
  "sy_final h (s\<lparr>sy_pool := p, sy_waiting := ws\<rparr>) = sy_final h s"
  "sy_final h (s\<lparr>sy_pool := p\<rparr>) = sy_final h s"
  by (simp_all add: sy_final_def split: option.split)

lemma word_succ_less: "r + 1 \<noteq> 0 \<Longrightarrow> unat (r + 1) = Suc (unat r)" for r :: "64 word"
  using unatSuc [of r] by (simp add: add.commute)

lemma update_keeps:
  assumes inv: "rpool_inv h s" and i: "i < length (rp_members (sy_pool s))"
    and nw: "rp_revision (sy_pool s) + 1 \<noteq> 0"
    and u: "update_commit i reg resp (sy_pool s) = (p, job)"
  shows "rpool_inv h (s\<lparr>sy_pool := p, sy_waiting := sy_waiting s @ opt_list job\<rparr>)"
proof (cases "rp_closed (sy_pool s)")
  case True
  with u inv show ?thesis
    by (auto simp: update_commit_closed rpool_inv_def closed_inv_def opt_list_def)
next
  case False
  from inv False have ok: "preferred_ok (sy_pool s)" and op: "open_inv h s" and
    dom: "domain_ok (sy_pool s)" by (simp_all add: rpool_inv_def)
  obtain ch sc where c:
    "preferred_ok p" "\<not> rp_closed p" "length (rp_members p) = length (rp_members (sy_pool s))"
    "rp_preferredPending p = (rp_preferredPending (sy_pool s) \<or> ch)"
    "rp_nativeSetPending p = (rp_nativeSetPending (sy_pool s) \<or> sc)"
    "\<not> ch \<longrightarrow> pref_part (rp_view p) = pref_part (rp_view (sy_pool s))"
    "\<not> sc \<longrightarrow> nativeSet p = nativeSet (sy_pool s)"
    "rp_revision p = (if ch \<or> sc then rp_revision (sy_pool s) + 1 else rp_revision (sy_pool s))"
    "job = (if ch \<or> sc then Some (rp_view p, rp_revision p) else None)"
    by (rule update_commit_spec [OF False i ok u])
  have same: "rp_view p = rp_view (sy_pool s)" if "\<not> ch" "\<not> sc" using c that by (auto intro: view_eqI)
  have "open_inv h (s\<lparr>sy_pool := p, sy_waiting := sy_waiting s @ opt_list job\<rparr>)"
  proof (cases "ch \<or> sc")
    case True
    have old: "unat r \<le> unat (rp_revision p) \<and> r \<noteq> rp_revision p" if "(v, r) \<in> set (sy_waiting s)" for v r
      using op that True c(8) word_succ_less [OF nw]
      by (fastforce simp: open_inv_def waiting_ok_def Let_def)
    have job: "opt_list job = [(rp_view p, rp_revision p)]" using True c(9) by (simp add: opt_list_def)
    have pref: "agree_pref h (sy_final h s) (rp_view p)" if "\<not> rp_preferredPending p"
      using that op c(4,6) agree_pref_cong [of "rp_view p" "rp_view (sy_pool s)"]
      by (simp add: open_inv_def Let_def)
    have set: "agree_set h (sy_final h s) (rp_view p)" if "\<not> rp_nativeSetPending p"
      using that op c(5,7) by (simp add: open_inv_def Let_def agree_set_def)
    have "sy_holder s \<noteq> Some Deliver_close" using op by (simp add: open_inv_def Let_def)
    with pref set old show ?thesis unfolding open_inv_def waiting_ok_def Let_def job by auto
  next
    case False
    with op c same show ?thesis by (simp add: open_inv_def waiting_ok_def Let_def opt_list_def)
  qed
  with c update_commit_domain(1) [OF dom i, of reg resp] u show ?thesis by (simp add: rpool_inv_def)
qed

lemma set_remove_nth: "set (remove_nth k xs) \<subseteq> set xs"
  by (auto simp: remove_nth_def dest: in_set_takeD in_set_dropD)

lemma mem_remove_nth: "x \<in> set xs \<Longrightarrow> x \<noteq> xs ! k \<Longrightarrow> x \<in> set (remove_nth k xs)"
proof -
  assume x: "x \<in> set xs" "x \<noteq> xs ! k"
  from x(1) obtain j where j: "j < length xs" "xs ! j = x" by (auto simp: in_set_conv_nth)
  with x(2) have "j \<noteq> k" by auto
  show ?thesis
  proof (cases "j < k")
    case True
    with j have "x \<in> set (take k xs)" by (auto simp: in_set_conv_nth)
    then show ?thesis by (simp add: remove_nth_def)
  next
    case False
    with \<open>j \<noteq> k\<close> j have "drop (Suc k) xs ! (j - Suc k) = x" "j - Suc k < length (drop (Suc k) xs)" by auto
    then show ?thesis by (metis Un_iff nth_mem remove_nth_def set_append)
  qed
qed

lemma length_remove_nth: "k < length xs \<Longrightarrow> length (remove_nth k xs) = length xs - 1"
  by (auto simp: remove_nth_def)

lemma waiting_ok_mono: "waiting_ok ws p \<Longrightarrow> set vs \<subseteq> set ws \<Longrightarrow> waiting_ok vs p"
  by (auto simp: waiting_ok_def)

lemma claim_keeps:
  assumes inv: "rpool_inv h s" and free: "sy_holder s = None" and "k < length (sy_waiting s)"
    and c: "update_claim (sy_waiting s ! k) (sy_pool s) = (p, d)"
  shows "rpool_inv h (s\<lparr>sy_pool := p, sy_waiting := remove_nth k (sy_waiting s), sy_holder := d\<rparr>)"
proof -
  obtain v r where w: "sy_waiting s ! k = (v, r)" by fastforce
  then have mem: "(v, r) \<in> set (sy_waiting s)" using assms(3) by (metis nth_mem)
  note sub = waiting_ok_mono [OF _ set_remove_nth [of k "sy_waiting s"], of "sy_pool s"]
  show ?thesis
  proof (cases "\<not> rp_closed (sy_pool s) \<and> rp_revision (sy_pool s) = r")
    case False
    with c w have pd: "p = sy_pool s" "d = None" by (auto simp: update_claim_def split: if_splits)
    show ?thesis
    proof (cases "rp_closed (sy_pool s)")
      case True
      with inv free show ?thesis by (simp add: pd rpool_inv_def closed_inv_def sy_final_def)
    next
      case op: False
      with False have "(rp_view (sy_pool s), rp_revision (sy_pool s)) \<noteq> sy_waiting s ! k" by (simp add: w)
      from mem_remove_nth [OF _ this] inv free op sub show ?thesis
        by (simp add: pd rpool_inv_def open_inv_def Let_def sy_final_def)
    qed
  next
    case True
    with c w have pd: "p = (sy_pool s)\<lparr>rp_preferredPending := False, rp_nativeSetPending := False\<rparr>"
      "d = Some (Deliver_update (rp_preferredPending (sy_pool s)) (rp_nativeSetPending (sy_pool s)) v)"
      by (auto simp: update_claim_def)
    from inv True have op: "open_inv h s" by (simp add: rpool_inv_def)
    with mem True have v: "v = rp_view (sy_pool s)" by (auto simp: open_inv_def waiting_ok_def Let_def)
    have p: "waiting_ok ws p = waiting_ok ws (sy_pool s)" "rp_view p = rp_view (sy_pool s)" for ws
      by (simp_all add: pd waiting_ok_def)
    from op free have "agree_pref h (deliver h (the d) (sy_sub s)) (rp_view (sy_pool s))"
      "agree_set h (deliver h (the d) (sy_sub s)) (rp_view (sy_pool s))"
      by (simp_all add: pd v open_inv_def Let_def sy_final_def)
    with op sub have
      "open_inv h (s\<lparr>sy_pool := p, sy_waiting := remove_nth k (sy_waiting s), sy_holder := d\<rparr>)"
      by (simp add: open_inv_def Let_def p sy_final_def) (simp add: pd)
    with inv True show ?thesis
      by (simp add: rpool_inv_def pd preferred_ok_def domain_ok_def split: option.splits)
  qed
qed

lemma deliver_keeps:
  assumes "rpool_inv h s" "sy_holder s = Some d"
  shows "rpool_inv h (s\<lparr>sy_holder := None, sy_sub := deliver h d (sy_sub s)\<rparr>)"
proof -
  have "sy_final h (s\<lparr>sy_holder := None, sy_sub := deliver h d (sy_sub s)\<rparr>) = sy_final h s"
    using assms(2) by (simp add: sy_final_def)
  with assms(1) show ?thesis
    by (cases "rp_closed (sy_pool s)") (simp_all add: rpool_inv_def open_inv_def closed_inv_def Let_def)
qed

lemma close_keeps:
  assumes "rpool_inv h s" "sy_holder s = None" "pool_Close (sy_pool s) = (p, d)"
  shows "rpool_inv h (s\<lparr>sy_pool := p, sy_holder := d\<rparr>)"
proof (cases "rp_closed (sy_pool s)")
  case True
  then have "s\<lparr>sy_pool := p, sy_holder := d\<rparr> = s" using assms by (auto simp: pool_Close_def)
  with assms(1) show ?thesis by simp
next
  case False
  then have pd: "p = (sy_pool s)\<lparr>rp_closed := True, rp_preferred := None,
      rp_members := map (pm_registered_update (\<lambda>_. False)) (rp_members (sy_pool s))\<rparr>"
    "d = Some Deliver_close" using assms by (simp_all add: pool_Close_def)
  then show ?thesis by (auto simp: rpool_inv_def preferred_ok_def domain_ok_def closed_inv_def sy_final_def)
qed

text \<open>The pool's decisions, scores apart, read only the registration of each member.\<close>

definition reg_of :: "relayPoolMember \<Rightarrow> bool \<times> RelayRegisterResponse" where
  "reg_of m = (pm_registered m, pm_response m)"

lemma nativeSet_reg: "nativeSet p = map (\<lambda>(b, r). (rr_NativeWireGuardAddr r, rr_NativeWireGuardToken r))
    (filter (\<lambda>(b, r). b \<and> rr_NativeWireGuardAddr r \<noteq> [] \<and> rr_NativeWireGuardToken r \<noteq> [])
      (map reg_of (rp_members p)))"
  by (simp add: nativeSet_def rp_native_def [abs_def] reg_of_def filter_map comp_def)

lemma count_alloc_reg:
  "map reg_of (rp_members (count_alloc i ok p)) = map reg_of (rp_members p)"
  by (cases "i < length (rp_members p)")
    (simp_all add: count_alloc_def map_update list_update_same_conv reg_of_def list_update_beyond)

lemma same_reg:
  assumes "map reg_of (rp_members q) = map reg_of (rp_members p)" "rp_preferred q = rp_preferred p"
    "rp_domain q = rp_domain p"
  shows "preferred_ok q = preferred_ok p" "domain_ok q = domain_ok p"
    and "preferred_ok p \<Longrightarrow> rp_view q = rp_view p"
proof -
  have len: "length (rp_members q) = length (rp_members p)" using arg_cong [OF assms(1), of length] by simp
  have nth: "pm_registered (rp_members q ! j) = pm_registered (rp_members p ! j)"
    "pm_response (rp_members q ! j) = pm_response (rp_members p ! j)" if "j < length (rp_members p)" for j
    using arg_cong [OF assms(1), of "\<lambda>l. l ! j"] that len by (simp_all add: reg_of_def)
  show "preferred_ok q = preferred_ok p" "domain_ok q = domain_ok p"
    by (auto simp: preferred_ok_def domain_ok_def all_set_conv_all_nth len nth assms(2,3) split: option.split)
  have "nativeSet q = nativeSet p" by (simp only: nativeSet_reg assms(1))
  then show "rp_view q = rp_view p" if "preferred_ok p"
    using that by (intro view_eqI) (auto simp: rp_view_pref assms(2) preferred_ok_def nth split: option.splits)
qed

lemma alloc_keeps:
  assumes "rpool_inv h s" shows "rpool_inv h (s\<lparr>sy_pool := count_alloc i ok (sy_pool s)\<rparr>)"
proof -
  let ?q = "count_alloc i ok (sy_pool s)"
  have f: "rp_preferred ?q = rp_preferred (sy_pool s)" "rp_domain ?q = rp_domain (sy_pool s)"
    "rp_revision ?q = rp_revision (sy_pool s)" "rp_closed ?q = rp_closed (sy_pool s)"
    "rp_preferredPending ?q = rp_preferredPending (sy_pool s)"
    "rp_nativeSetPending ?q = rp_nativeSetPending (sy_pool s)" by (simp_all add: count_alloc_def)
  note r = same_reg [OF count_alloc_reg f(1,2)]
  show ?thesis using assms r
    by (simp add: rpool_inv_def open_inv_def closed_inv_def waiting_ok_def Let_def f split: if_splits)
qed

section \<open>Runs of the pool\<close>

text \<open>The revision is a \<open>uint64\<close>. A step taken before it wraps keeps the invariant, and a run of
  fewer than \<open>2 ^ 64\<close> steps never wraps.\<close>

definition nowrap_step :: "pool_hooks \<Rightarrow> pool_sys \<Rightarrow> pool_event \<Rightarrow> pool_sys \<Rightarrow> bool" where
  "nowrap_step h s e t \<longleftrightarrow> pool_step h s e t \<and> rp_revision (sy_pool s) + 1 \<noteq> 0"

interpretation relay_pool: inv_system "nowrap_step h" "rpool_inv h" for h
proof unfold_locales
  fix s e t assume inv: "rpool_inv h s" and "nowrap_step h s e t"
  then have step: "pool_step h s e t" and nw: "rp_revision (sy_pool s) + 1 \<noteq> 0"
    by (simp_all add: nowrap_step_def)
  from step show "rpool_inv h t"
    by cases (use inv nw in \<open>auto intro: update_keeps claim_keeps deliver_keeps close_keeps alloc_keeps\<close>)
qed

lemma unat_succ_le: "unat (r + 1) \<le> Suc (unat r)" for r :: "64 word"
  by (cases "r + 1 = 0") (simp_all add: word_succ_less)

lemma pool_step_revision: "pool_step h s e t \<Longrightarrow> unat (rp_revision (sy_pool t)) \<le> Suc (unat (rp_revision (sy_pool s)))"
  by (auto elim!: pool_stepE simp: update_commit_def update_claim_def pool_Close_def count_alloc_def Let_def
      unat_succ_le split: if_splits)

lemma run_nowrap:
  "run (pool_step h) s es t \<Longrightarrow> unat (rp_revision (sy_pool s)) + length es < 2 ^ 64 \<Longrightarrow>
     run (nowrap_step h) s es t"
proof (induction rule: run.induct)
  case (run_cons s e t es u)
  have "rp_revision (sy_pool s) + 1 \<noteq> 0"
  proof
    assume "rp_revision (sy_pool s) + 1 = 0"
    then have "rp_revision (sy_pool s) = - 1" by (simp add: eq_neg_iff_add_eq_0)
    then have "unat (rp_revision (sy_pool s)) = 2 ^ 64 - 1" by (simp add: unsigned_minus_1_eq_mask mask_eq_exp_minus_1)
    with run_cons.prems show False by simp
  qed
  moreover have "unat (rp_revision (sy_pool t)) + length es < 2 ^ 64"
    using pool_step_revision [OF run_cons.hyps(1)] run_cons.prems by simp
  ultimately show ?case using run_cons by (auto simp: nowrap_step_def intro: run.run_cons)
qed (simp add: run_nil)

lemma rpool_reachable:
  assumes "NewRelayPool newAgent legacy eps = Some p" "run (pool_step h) (pool_init p) es s" "length es < 2 ^ 64"
  shows "rpool_inv h s"
proof (rule relay_pool.run_inv [OF run_nowrap rpool_inv_init])
  have "rp_revision p = 0" using assms(1) by (auto simp: NewRelayPool_def)
  with assms(3) show "unat (rp_revision (sy_pool (pool_init p))) + length es < 2 ^ 64"
    by (simp add: pool_init_def)
qed (use assms in simp_all)

section \<open>Nothing is lost\<close>

definition quiescent :: "pool_sys \<Rightarrow> bool" where
  "quiescent s \<longleftrightarrow> sy_waiting s = [] \<and> sy_holder s = None"

definition agree_view :: "pool_hooks \<Rightarrow> pool_view \<Rightarrow> pool_view \<Rightarrow> bool" where
  "agree_view h v w \<longleftrightarrow> agree_pref h v w \<and> agree_set h v w"

lemma closed_view: "preferred_ok p \<Longrightarrow> rp_preferred p = None \<Longrightarrow> rp_view p = empty_view"
  by (auto simp: rp_view_def preferred_ok_def nativeSet_def rp_native_def empty_view_def
      filter_empty_conv)

lemma quiescent_agree: "rpool_inv h s \<Longrightarrow> quiescent s \<Longrightarrow> agree_view h (sy_sub s) (rp_view (sy_pool s))"
  by (cases "rp_closed (sy_pool s)")
    (auto simp: rpool_inv_def closed_inv_def open_inv_def quiescent_def sy_final_def agree_view_def
      closed_view Let_def)

lemma claim_view: "update_claim j p = (q, d) \<Longrightarrow> rp_view q = rp_view p"
  by (auto simp: update_claim_def split: if_splits)

text \<open>The callbacks that are due terminate: each waiting update claims and delivers once.\<close>

definition drain_work :: "pool_sys \<Rightarrow> nat" where
  "drain_work s = 2 * length (sy_waiting s) + (if sy_holder s = None then 0 else 1)"

lemma drain:
  "rpool_inv h s \<Longrightarrow> \<exists>es t. set es \<subseteq> {EvClaim 0, EvDeliver} \<and> length es \<le> drain_work s
     \<and> run (pool_step h) s es t \<and> quiescent t \<and> rpool_inv h t \<and> rp_view (sy_pool t) = rp_view (sy_pool s)"
proof (induction "drain_work s" arbitrary: s rule: less_induct)
  case less
  consider (quiet) "quiescent s" | (deliver) d where "sy_holder s = Some d"
    | (claim) "sy_holder s = None" "0 < length (sy_waiting s)"
    by (cases "sy_holder s") (auto simp: quiescent_def)
  then show ?case
  proof cases
    case quiet
    with less.prems show ?thesis by (intro exI [of _ "[]"] exI [of _ s]) (simp add: run_nil)
  next
    case deliver
    let ?t = "s\<lparr>sy_holder := None, sy_sub := deliver h d (sy_sub s)\<rparr>"
    have "drain_work ?t < drain_work s" using deliver by (simp add: drain_work_def)
    from less.hyps [OF this deliver_keeps [OF less.prems deliver]] obtain es t where
      t: "set es \<subseteq> {EvClaim 0, EvDeliver}" "length es \<le> drain_work ?t" "run (pool_step h) ?t es t"
        "quiescent t" "rpool_inv h t" "rp_view (sy_pool t) = rp_view (sy_pool s)" by auto
    have "run (pool_step h) s (EvDeliver # es) t" using t(3) st_deliver [OF deliver] by (blast intro: run_cons)
    with t \<open>drain_work ?t < drain_work s\<close> show ?thesis
      by (intro exI [of _ "EvDeliver # es"] exI [of _ t]) simp
  next
    case claim
    obtain p d where u: "update_claim (sy_waiting s ! 0) (sy_pool s) = (p, d)" by fastforce
    let ?t = "s\<lparr>sy_pool := p, sy_waiting := remove_nth 0 (sy_waiting s), sy_holder := d\<rparr>"
    have "drain_work ?t < drain_work s" using claim by (cases "sy_waiting s") (simp_all add: drain_work_def remove_nth_def)
    from less.hyps [OF this claim_keeps [OF less.prems claim u]] claim_view [OF u] obtain es t where
      t: "set es \<subseteq> {EvClaim 0, EvDeliver}" "length es \<le> drain_work ?t" "run (pool_step h) ?t es t"
        "quiescent t" "rpool_inv h t" "rp_view (sy_pool t) = rp_view (sy_pool s)" by auto
    have "run (pool_step h) s (EvClaim 0 # es) t" using t(3) st_claim [OF claim u] by (blast intro: run_cons)
    with t \<open>drain_work ?t < drain_work s\<close> show ?thesis
      by (intro exI [of _ "EvClaim 0 # es"] exI [of _ t]) simp
  qed
qed

section \<open>Executing the pool\<close>

text \<open>The step relation is deterministic in the event; its executable form.\<close>

fun pool_next :: "pool_hooks \<Rightarrow> pool_event \<Rightarrow> pool_sys \<Rightarrow> pool_sys option" where
  "pool_next h (EvUpdate i reg resp) s =
     (if i < length (rp_members (sy_pool s))
      then (case update_commit i reg resp (sy_pool s) of (p, job) \<Rightarrow>
        Some (s\<lparr>sy_pool := p, sy_waiting := sy_waiting s @ opt_list job\<rparr>))
      else None)"
| "pool_next h (EvClaim k) s =
     (if sy_holder s = None \<and> k < length (sy_waiting s)
      then (case update_claim (sy_waiting s ! k) (sy_pool s) of (p, d) \<Rightarrow>
        Some (s\<lparr>sy_pool := p, sy_waiting := remove_nth k (sy_waiting s), sy_holder := d\<rparr>))
      else None)"
| "pool_next h EvDeliver s = map_option (\<lambda>d. s\<lparr>sy_holder := None, sy_sub := deliver h d (sy_sub s)\<rparr>) (sy_holder s)"
| "pool_next h EvClose s =
     (if sy_holder s = None then (case pool_Close (sy_pool s) of (p, d) \<Rightarrow>
        Some (s\<lparr>sy_pool := p, sy_holder := d\<rparr>)) else None)"
| "pool_next h (EvAlloc i ok) s =
     (if i < length (rp_members (sy_pool s)) then Some (s\<lparr>sy_pool := count_alloc i ok (sy_pool s)\<rparr>)
      else None)"

lemma pool_next_step: "pool_next h e s = Some t \<longleftrightarrow> pool_step h s e t"
proof
  show "pool_next h e s = Some t \<Longrightarrow> pool_step h s e t"
    by (cases "(h, e, s)" rule: pool_next.cases) (auto split: if_splits prod.splits intro: pool_step.intros)
  show "pool_step h s e t \<Longrightarrow> pool_next h e s = Some t" by (cases rule: pool_step.cases) auto
qed

fun pool_exec :: "pool_hooks \<Rightarrow> pool_event list \<Rightarrow> pool_sys \<Rightarrow> pool_sys option" where
  "pool_exec h [] s = Some s"
| "pool_exec h (e # es) s = Option.bind (pool_next h e s) (pool_exec h es)"

lemma pool_exec_run: "pool_exec h es s = Some t \<Longrightarrow> run (pool_step h) s es t"
  by (induction es arbitrary: s)
    (auto simp: pool_next_step Option.bind_eq_Some_conv intro: run.intros)

section \<open>Properties\<close>

text \<open>C19: No change of the relay pool is lost. However the updates of the members, the
  publications, allocations and \<open>Close\<close> interleave (in fewer than \<open>2 ^ 64\<close> steps), whenever no
  publication is waiting or running, the subscribers have exactly the current addresses of
  the preferred member and the current set of native associations (nothing, after \<open>Close\<close>);
  and the publications that are due always end, after at most two steps for each waiting
  update and one for the running one, in such a state.\<close>

theorem relay_pool_publishes_latest:
  assumes "NewRelayPool newAgent legacy eps = Some p0"
    and "run (pool_step h) (pool_init p0) es s" "length es < 2 ^ 64"
  shows "(quiescent s \<longrightarrow> agree_view h (sy_sub s) (rp_view (sy_pool s)))
    \<and> (rp_closed (sy_pool s) \<longrightarrow> rp_view (sy_pool s) = empty_view)
    \<and> (\<exists>es' t. set es' \<subseteq> {EvClaim 0, EvDeliver} \<and> length es' \<le> drain_work s
        \<and> run (pool_step h) s es' t \<and> quiescent t \<and> agree_view h (sy_sub t) (rp_view (sy_pool s)))"
proof -
  have inv: "rpool_inv h s" by (rule rpool_reachable [OF assms])
  from drain [OF inv] obtain es' t where t: "set es' \<subseteq> {EvClaim 0, EvDeliver}" "length es' \<le> drain_work s"
    "run (pool_step h) s es' t" "quiescent t" "rpool_inv h t" "rp_view (sy_pool t) = rp_view (sy_pool s)" by blast
  have "agree_view h (sy_sub t) (rp_view (sy_pool s))" using quiescent_agree [OF t(5,4)] t(6) by simp
  with t have "\<exists>es' t. set es' \<subseteq> {EvClaim 0, EvDeliver} \<and> length es' \<le> drain_work s
      \<and> run (pool_step h) s es' t \<and> quiescent t \<and> agree_view h (sy_sub t) (rp_view (sy_pool s))" by blast
  moreover have "rp_view (sy_pool s) = empty_view" if "rp_closed (sy_pool s)"
    using that inv by (simp add: rpool_inv_def closed_inv_def closed_view)
  ultimately show ?thesis using quiescent_agree [OF inv] by blast
qed

text \<open>The preferred relay is sticky and well chosen. In every reachable state the preferred
  member is registered, there is one exactly when the pool is healthy, and every registered
  member has the pool's domain or names none. An update keeps the preferred member as long as
  it stays registered; otherwise it takes the first of the registered members with the least
  score, or none when no member is registered.\<close>

theorem relay_pool_preferred:
  fixes reg :: bool and resp :: RelayRegisterResponse
  assumes "NewRelayPool newAgent legacy eps = Some p0"
    and "run (pool_step h) (pool_init p0) es s" "length es < 2 ^ 64"
    and "\<not> rp_closed (sy_pool s)" "i < length (rp_members (sy_pool s))"
  defines "p \<equiv> sy_pool s" and "q \<equiv> fst (update_commit i reg resp (sy_pool s))"
  shows "preferred_ok p \<and> domain_ok p \<and> (Healthy p \<longleftrightarrow> rp_preferred p \<noteq> None)
    \<and> (case rp_preferred p of
         Some j \<Rightarrow> if pm_registered (rp_members q ! j) then rp_preferred q = Some j
                   else first_min (rp_members q) (length (rp_members q)) (rp_preferred q)
       | None \<Rightarrow> first_min (rp_members q) (length (rp_members q)) (rp_preferred q))"
proof -
  have inv: "rpool_inv h s" by (rule rpool_reachable [OF assms(1-3)])
  have "rp_preferred q = choosePreferred q (rp_preferred p)"
    unfolding p_def q_def by (rule update_commit_fields(3) [OF assms(4)])
  moreover have "first_min (rp_members q) (length (rp_members q))
      (chooseBest (rp_members q) [0..<length (rp_members q)] None)"
    by (rule chooseBest_first_min) (simp_all add: first_min_def)
  ultimately show ?thesis using inv healthy_iff_preferred [of p]
    by (simp add: p_def rpool_inv_def choosePreferred_def split: option.split)
qed

text \<open>Two members register; the second publication overtakes the first.\<close>

definition wit_hooks :: pool_hooks where
  "wit_hooks = \<lparr>OnReflectAddr = True, OnUDPRelayAddr = True, OnNativeWireGuard = True,
     OnNativeWireGuardSet = True\<rparr>"

definition wit_resp :: "string \<Rightarrow> RelayRegisterResponse" where
  "wit_resp a = \<lparr>rr_Domain = ''d'', rr_ReflectAddr = a, rr_UDPRelayAddr = a,
     rr_NativeWireGuardAddr = a, rr_NativeWireGuardToken = ''t''\<rparr>"

definition wit_events :: "pool_event list" where
  "wit_events = [EvUpdate 0 True (wit_resp ''a''), EvUpdate 1 True (wit_resp ''b''), EvClaim 1,
     EvDeliver, EvClaim 0]"

definition wit_pool :: "RelayPool option" where
  "wit_pool = NewRelayPool (\<lambda>_. True) (''u'', []) [(''u1'', []), (''u2'', [])]"

definition wit_sys :: pool_sys where
  "wit_sys = the (pool_exec wit_hooks wit_events (pool_init (the wit_pool)))"

lemma wit_sys_run:
  "NewRelayPool (\<lambda>_. True) (''u'', []) [(''u1'', []), (''u2'', [])] = Some (the wit_pool)"
  "run (pool_step wit_hooks) (pool_init (the wit_pool)) wit_events wit_sys"
proof -
  have "wit_pool \<noteq> None" by code_simp
  then show "NewRelayPool (\<lambda>_. True) (''u'', []) [(''u1'', []), (''u2'', [])] = Some (the wit_pool)"
    by (auto simp: wit_pool_def)
  have "pool_exec wit_hooks wit_events (pool_init (the wit_pool)) \<noteq> None" by code_simp
  then show "run (pool_step wit_hooks) (pool_init (the wit_pool)) wit_events wit_sys"
    by (auto simp: wit_sys_def intro: pool_exec_run)
qed

theorem relay_pool_publishes_latest_witness:
  "quiescent wit_sys \<and> pv_set (sy_sub wit_sys) = [(''a'', ''t''), (''b'', ''t'')]
     \<and> agree_view wit_hooks (sy_sub wit_sys) (rp_view (sy_pool wit_sys))"
proof -
  have l: "length wit_events < 2 ^ 64" by (simp add: wit_events_def)
  have q: "quiescent wit_sys" "pv_set (sy_sub wit_sys) = [(''a'', ''t''), (''b'', ''t'')]" by code_simp+
  from relay_pool_publishes_latest [OF wit_sys_run l] q show ?thesis by blast
qed

theorem relay_pool_preferred_witness:
  "rp_preferred (sy_pool wit_sys) = Some 0
     \<and> rp_preferred (fst (update_commit 1 True (wit_resp ''c'') (sy_pool wit_sys))) = Some 0"
proof -
  have l: "length wit_events < 2 ^ 64" by (simp add: wit_events_def)
  have c: "\<not> rp_closed (sy_pool wit_sys)" "1 < length (rp_members (sy_pool wit_sys))"
    "rp_preferred (sy_pool wit_sys) = Some 0"
    "pm_registered (rp_members (fst (update_commit 1 True (wit_resp ''c'') (sy_pool wit_sys))) ! 0)"
    by code_simp+
  from relay_pool_preferred [OF wit_sys_run l c(1,2), of True "wit_resp ''c''"] c show ?thesis by simp
qed

end
