(* ===== verification/Udp_Relay.thy ===== *)
theory Udp_Relay
  imports Ntwire_Prelude "HOL-Library.Multiset"
begin

text \<open>
  The server's UDP-relay sessions (src/pkg/server/udprelay.go): one allocation per client key
  obtained from the relay, shared by concurrent requests, published as a session, released
  when the client's session ends, and forgotten when the relay stops reporting it.
  \<open>sessionFor\<close> holds \<open>u.mu\<close> in three separate sections around the round trip to the relay;
  they are separate steps (\<open>sessionFor_enter\<close>, \<open>allocation_done\<close>, \<open>allocation_finish\<close>) that
  any other operation may interleave with.
\<close>

section \<open>State\<close>

record RelayUDPStats =
  rs_Token :: string
  rs_ClientPacketsReceived :: "64 word"
  rs_ClientBytesReceived :: "64 word"
  rs_ServerPacketsForwarded :: "64 word"
  rs_ServerBytesForwarded :: "64 word"
  rs_ServerPacketsReceived :: "64 word"
  rs_ServerBytesReceived :: "64 word"
  rs_ClientPacketsForwarded :: "64 word"
  rs_ClientBytesForwarded :: "64 word"

record ClientUDPRelayStats =
  cs_BytesSent :: "64 word"
  cs_PacketsSent :: "64 word"
  cs_BytesReceived :: "64 word"
  cs_PacketsReceived :: "64 word"

record UDPRelayHopStats =
  hs_ClientPacketsReceived :: "64 word"
  hs_ClientBytesReceived :: "64 word"
  hs_ServerPacketsForwarded :: "64 word"
  hs_ServerBytesForwarded :: "64 word"
  hs_ServerPacketsReceived :: "64 word"
  hs_ServerBytesReceived :: "64 word"
  hs_ClientPacketsForwarded :: "64 word"
  hs_ClientBytesForwarded :: "64 word"
  hs_ClientObserved :: "ClientUDPRelayStats option"

record UDPRelayResponse =
  ru_RelayAddr :: string
  ru_Token :: string
  ru_Stats :: "UDPRelayHopStats option"

definition no_stats :: RelayUDPStats where
  "no_stats = \<lparr>rs_Token = [], rs_ClientPacketsReceived = 0, rs_ClientBytesReceived = 0,
     rs_ServerPacketsForwarded = 0, rs_ServerBytesForwarded = 0, rs_ServerPacketsReceived = 0,
     rs_ServerBytesReceived = 0, rs_ClientPacketsForwarded = 0, rs_ClientBytesForwarded = 0\<rparr>"

definition no_relay :: UDPRelayResponse where
  "no_relay = \<lparr>ru_RelayAddr = [], ru_Token = [], ru_Stats = None\<rparr>"

text \<open>The \<open>stop\<close> channel of a session is a number, fresh for each session.\<close>

record udpRelaySessionState =
  ss_token :: string
  ss_serverAddr :: string
  ss_stop :: nat
  ss_stats :: RelayUDPStats
  ss_clientStats :: "ClientUDPRelayStats option"
  ss_allocatedAt :: "gotime option" \<comment> \<open>\<open>None\<close> is the zero time\<close>
  ss_missingReports :: nat

text \<open>An allocation object: the key it was made for, how far its call of \<open>sessionFor\<close> is, whether
  its context was cancelled, and the response that waiting calls read.\<close>

datatype alloc_phase = Allocating | Allocated | Finished

record udpRelayAllocation =
  al_key :: string
  al_phase :: alloc_phase
  al_cancelled :: bool
  al_response :: UDPRelayResponse

text \<open>What the relay manager does to the outside. \<open>Forget\<close> is not an action of the code: it marks
  a session that is dropped without telling the relay.\<close>

datatype relayAction =
    ReleaseUDPSession string
  | CloseStop nat
  | UpdateEndpoint string string
  | RegisterPath string string bool
  | SendRelayBind string string
  | Forget string

text \<open>\<open>ur_sessions = None\<close> is the nil map that \<open>stopAll\<close> leaves; \<open>ur_allocs\<close> holds the allocation
  objects, named by their index.\<close>

record udpRelay =
  ur_relayAddr :: string
  ur_multipath :: bool
  ur_pending :: "(string, nat) fmap"
  ur_sessions :: "(string, udpRelaySessionState) fmap option"
  ur_allocs :: "udpRelayAllocation list"
  ur_stops :: nat
  ur_log :: "relayAction list"

definition new_udpRelay :: "string \<Rightarrow> bool \<Rightarrow> udpRelay" where
  "new_udpRelay addr multipath = \<lparr>ur_relayAddr = addr, ur_multipath = multipath, ur_pending = fmempty,
     ur_sessions = Some fmempty, ur_allocs = [], ur_stops = 0, ur_log = []\<rparr>"

definition sess_map :: "udpRelay \<Rightarrow> (string, udpRelaySessionState) fmap" where
  "sess_map u = (case ur_sessions u of None \<Rightarrow> fmempty | Some m \<Rightarrow> m)"

section \<open>Statistics\<close>

definition relayUDPStatsSummaryFrom :: "RelayUDPStats \<Rightarrow> UDPRelayHopStats" where
  "relayUDPStatsSummaryFrom s = \<lparr>
     hs_ClientPacketsReceived = rs_ClientPacketsReceived s,
     hs_ClientBytesReceived = rs_ClientBytesReceived s,
     hs_ServerPacketsForwarded = rs_ServerPacketsForwarded s,
     hs_ServerBytesForwarded = rs_ServerBytesForwarded s,
     hs_ServerPacketsReceived = rs_ServerPacketsReceived s,
     hs_ServerBytesReceived = rs_ServerBytesReceived s,
     hs_ClientPacketsForwarded = rs_ClientPacketsForwarded s,
     hs_ClientBytesForwarded = rs_ClientBytesForwarded s,
     hs_ClientObserved = None\<rparr>"

definition statsFor :: "string \<Rightarrow> udpRelay \<Rightarrow> UDPRelayHopStats option" where
  "statsFor key u = (case fmlookup (sess_map u) key of
       None \<Rightarrow> None
     | Some st \<Rightarrow> if rs_Token (ss_stats st) = [] then None
         else Some ((relayUDPStatsSummaryFrom (ss_stats st))\<lparr>hs_ClientObserved := ss_clientStats st\<rparr>))"

definition recordClientStats :: "string \<Rightarrow> ClientUDPRelayStats option \<Rightarrow> udpRelay \<Rightarrow> udpRelay" where
  "recordClientStats key stats u = (case stats of
       None \<Rightarrow> u
     | Some s \<Rightarrow> (case fmlookup (sess_map u) key of
         None \<Rightarrow> u
       | Some st \<Rightarrow> u\<lparr>ur_sessions := Some (fmupd key (st\<lparr>ss_clientStats := Some s\<rparr>) (sess_map u))\<rparr>))"

text \<open>A relay's report. Each sample searches the sessions in the order the range loop happens to
  take (the second component of the pair); the second loop takes the order \<open>ks\<close>.\<close>

definition record_sample ::
  "RelayUDPStats \<times> string list \<Rightarrow> (string, udpRelaySessionState) fmap \<Rightarrow> (string, udpRelaySessionState) fmap" where
  "record_sample so m =
     (case find (\<lambda>k. case fmlookup m k of None \<Rightarrow> False | Some st \<Rightarrow> ss_token st = rs_Token (fst so)) (snd so) of
        None \<Rightarrow> m
      | Some k \<Rightarrow> fmupd k ((the (fmlookup m k))\<lparr>ss_stats := fst so, ss_missingReports := 0\<rparr>) m)"

definition report_overdue :: "string list \<Rightarrow> gotime \<Rightarrow> udpRelaySessionState \<Rightarrow> bool" where
  "report_overdue seen now st \<longleftrightarrow> ss_token st \<notin> set seen
     \<and> (case ss_allocatedAt st of None \<Rightarrow> False | Some t \<Rightarrow> \<not> now - t < 90 * second)"

fun expire_sessions ::
  "string list \<Rightarrow> gotime \<Rightarrow> string list \<Rightarrow> (string, udpRelaySessionState) fmap \<times> relayAction list
     \<Rightarrow> (string, udpRelaySessionState) fmap \<times> relayAction list" where
  "expire_sessions seen now [] (m, acts) = (m, acts)"
| "expire_sessions seen now (k # ks) (m, acts) =
     expire_sessions seen now ks
       (case fmlookup m k of
          None \<Rightarrow> (m, acts)
        | Some st \<Rightarrow>
            if \<not> report_overdue seen now st then (m, acts)
            else if 2 \<le> Suc (ss_missingReports st)
            then (fmdrop k m, acts @ [Forget (ss_token st), CloseStop (ss_stop st)])
            else (fmupd k (st\<lparr>ss_missingReports := Suc (ss_missingReports st)\<rparr>) m, acts))"

definition recordStats ::
  "(RelayUDPStats \<times> string list) list \<Rightarrow> string list \<Rightarrow> gotime \<Rightarrow> udpRelay \<Rightarrow> udpRelay" where
  "recordStats report ks now u = (case ur_sessions u of
       None \<Rightarrow> u
     | Some m \<Rightarrow>
         (case expire_sessions (map (\<lambda>so. rs_Token (fst so)) report) now ks (fold record_sample report m, []) of
            (m', acts) \<Rightarrow> u\<lparr>ur_sessions := Some m', ur_log := ur_log u @ acts\<rparr>))"

section \<open>Sessions\<close>

text \<open>The first section of \<open>sessionFor\<close>: a live session answers at once; a closed manager or an
  ended request answers with nothing; a running allocation for the key is waited for;
  otherwise a new allocation starts.\<close>

datatype enter_result = Answer UDPRelayResponse | WaitFor nat | Allocate nat

definition sessionFor_enter ::
  "string \<Rightarrow> bool \<Rightarrow> ClientUDPRelayStats option \<Rightarrow> udpRelay \<Rightarrow> udpRelay \<times> enter_result" where
  "sessionFor_enter key ctxErr stats u0 =
     (let u = recordClientStats key stats u0 in
      case fmlookup (sess_map u) key of
        Some st \<Rightarrow> (u, Answer \<lparr>ru_RelayAddr = ur_relayAddr u, ru_Token = ss_token st, ru_Stats = statsFor key u\<rparr>)
      | None \<Rightarrow>
          if ur_sessions u = None \<or> ctxErr then (u, Answer no_relay)
          else (case fmlookup (ur_pending u) key of
              Some pid \<Rightarrow> (u, WaitFor pid)
            | None \<Rightarrow>
                let pid = length (ur_allocs u) in
                (u\<lparr>ur_allocs := ur_allocs u @ [\<lparr>al_key = key, al_phase = Allocating, al_cancelled = False,
                                                al_response = no_relay\<rparr>],
                   ur_pending := fmupd key pid (ur_pending u)\<rparr>, Allocate pid)))"

text \<open>What a waiting call returns: nothing while neither its request nor the allocation has
  ended.\<close>

definition sessionFor_wait :: "nat \<Rightarrow> bool \<Rightarrow> bool \<Rightarrow> udpRelay \<Rightarrow> UDPRelayResponse option" where
  "sessionFor_wait pid ctxDone preferCtx u =
     (let finished = (al_phase (ur_allocs u ! pid) = Finished) in
      if ctxDone \<and> (preferCtx \<or> \<not> finished) then Some no_relay
      else if finished then Some (al_response (ur_allocs u ! pid)) else None)"

definition set_phase :: "nat \<Rightarrow> alloc_phase \<Rightarrow> udpRelay \<Rightarrow> udpRelay" where
  "set_phase pid ph u = u\<lparr>ur_allocs := (ur_allocs u)[pid := (ur_allocs u ! pid)\<lparr>al_phase := ph\<rparr>]\<rparr>"

text \<open>The reply of \<open>AllocateUDPSession\<close> and what the section after it is told: whether it failed,
  whether the allocation's context has ended, and whether the endpoint could be set.\<close>

record alloc_reply =
  ar_token :: string
  ar_serverAddr :: string
  ar_err :: bool
  ar_actxErr :: bool
  ar_endpointOk :: bool
  ar_multipath :: bool
  ar_pathMTU :: bool
  ar_clientStats :: "ClientUDPRelayStats option"
  ar_now :: gotime

definition log_action :: "relayAction list \<Rightarrow> udpRelay \<Rightarrow> udpRelay" where
  "log_action acts u = u\<lparr>ur_log := ur_log u @ acts\<rparr>"

definition allocation_done :: "nat \<Rightarrow> alloc_reply \<Rightarrow> udpRelay \<Rightarrow> udpRelay \<times> UDPRelayResponse" where
  "allocation_done pid r u0 =
     (let u = set_phase pid Allocated u0; key = al_key (ur_allocs u ! pid);
          token = ar_token r; addr = ar_serverAddr r
      in if ar_err r \<or> token = [] \<or> addr = [] \<or> ar_actxErr r \<or> ur_sessions u = None
            \<or> fmlookup (ur_pending u) key \<noteq> Some pid
         then (log_action (if token \<noteq> [] then [ReleaseUDPSession token] else []) u, no_relay)
         else if \<not> ar_endpointOk r then (log_action [ReleaseUDPSession token] u, no_relay)
         else
           let acts = (if ar_multipath r \<and> ur_multipath u then [RegisterPath key addr (ar_pathMTU r)]
                       else [UpdateEndpoint key addr]);
               st = \<lparr>ss_token = token, ss_serverAddr = addr, ss_stop = ur_stops u, ss_stats = no_stats,
                     ss_clientStats = ar_clientStats r, ss_allocatedAt = Some (ar_now r),
                     ss_missingReports = 0\<rparr>;
               resp = \<lparr>ru_RelayAddr = ur_relayAddr u, ru_Token = token, ru_Stats = None\<rparr>
           in (log_action (acts @ [SendRelayBind token addr])
                 (u\<lparr>ur_sessions := Some (fmupd key st (sess_map u)), ur_stops := Suc (ur_stops u),
                    ur_allocs := (ur_allocs u)[pid := (ur_allocs u ! pid)\<lparr>al_response := resp\<rparr>]\<rparr>), resp))"

definition allocation_finish :: "nat \<Rightarrow> udpRelay \<Rightarrow> udpRelay" where
  "allocation_finish pid u =
     (let key = al_key (ur_allocs u ! pid) in
      (set_phase pid Finished u)
        \<lparr>ur_pending := (if fmlookup (ur_pending u) key = Some pid then fmdrop key (ur_pending u)
                        else ur_pending u)\<rparr>)"

definition cancel_alloc :: "nat \<Rightarrow> udpRelay \<Rightarrow> udpRelay" where
  "cancel_alloc pid u = u\<lparr>ur_allocs := (ur_allocs u)[pid := (ur_allocs u ! pid)\<lparr>al_cancelled := True\<rparr>]\<rparr>"

definition cancel_pending :: "string \<Rightarrow> udpRelay \<Rightarrow> udpRelay" where
  "cancel_pending key u = (case fmlookup (ur_pending u) key of
       None \<Rightarrow> u
     | Some pid \<Rightarrow> (cancel_alloc pid u)\<lparr>ur_pending := fmdrop key (ur_pending u)\<rparr>)"

definition release :: "string \<Rightarrow> udpRelay \<Rightarrow> udpRelay" where
  "release key u0 =
     (let u = cancel_pending key u0
      in case fmlookup (sess_map u) key of
           None \<Rightarrow> u
         | Some st \<Rightarrow> log_action [CloseStop (ss_stop st), ReleaseUDPSession (ss_token st)]
             (u\<lparr>ur_sessions := Some (fmdrop key (sess_map u))\<rparr>))"

text \<open>\<open>stopAll\<close> ranges over the pending allocations (any order: it only cancels them) and over
  the sessions in the order \<open>ks\<close>.\<close>

definition stopAll :: "string list \<Rightarrow> udpRelay \<Rightarrow> udpRelay" where
  "stopAll ks u =
     u\<lparr>ur_sessions := None, ur_pending := fmempty,
       ur_allocs := map (\<lambda>(i, a). if fmlookup (ur_pending u) (al_key a) = Some i then a\<lparr>al_cancelled := True\<rparr> else a)
         (enumerate 0 (ur_allocs u)),
       ur_log := ur_log u @ concat (map (\<lambda>k. case fmlookup (sess_map u) k of None \<Rightarrow> []
          | Some st \<Rightarrow> [Forget (ss_token st), CloseStop (ss_stop st)]) ks)\<rparr>"

section \<open>The manager as a transition system\<close>

datatype relay_event =
    EvEnter string bool "ClientUDPRelayStats option"
  | EvReply nat alloc_reply
  | EvFinish nat
  | EvRelease string
  | EvStopAll "string list"
  | EvReport "(RelayUDPStats \<times> string list) list" "string list" gotime

definition relay_enabled :: "relay_event \<Rightarrow> udpRelay \<Rightarrow> bool" where
  "relay_enabled e u = (case e of
       EvReply pid r \<Rightarrow> pid < length (ur_allocs u) \<and> al_phase (ur_allocs u ! pid) = Allocating
         \<and> (al_cancelled (ur_allocs u ! pid) \<longrightarrow> ar_actxErr r)
     | EvFinish pid \<Rightarrow> pid < length (ur_allocs u) \<and> al_phase (ur_allocs u ! pid) = Allocated
     | EvStopAll ks \<Rightarrow> range_order ks (sess_map u)
     | EvReport report ks now \<Rightarrow> range_order ks (sess_map u) \<and> (\<forall>so \<in> set report. range_order (snd so) (sess_map u))
     | _ \<Rightarrow> True)"

fun relay_apply :: "relay_event \<Rightarrow> udpRelay \<Rightarrow> udpRelay" where
  "relay_apply (EvEnter key ctxErr stats) u = fst (sessionFor_enter key ctxErr stats u)"
| "relay_apply (EvReply pid r) u = fst (allocation_done pid r u)"
| "relay_apply (EvFinish pid) u = allocation_finish pid u"
| "relay_apply (EvRelease key) u = release key u"
| "relay_apply (EvStopAll ks) u = stopAll ks u"
| "relay_apply (EvReport report ks now) u = recordStats report ks now u"

definition relay_step :: "udpRelay \<Rightarrow> relay_event \<Rightarrow> udpRelay \<Rightarrow> bool" where
  "relay_step u e v \<longleftrightarrow> relay_enabled e u \<and> v = relay_apply e u"

section \<open>The values of a map as a multiset\<close>

definition fm_mset :: "('v \<Rightarrow> 'x) \<Rightarrow> ('k, 'v) fmap \<Rightarrow> 'x multiset" where
  "fm_mset f m = image_mset (\<lambda>k. f (the (fmlookup m k))) (mset_set (fset (fmdom m)))"

lemma fm_mset_empty [simp]: "fm_mset f fmempty = {#}"
  by (simp add: fm_mset_def)

lemma fm_mset_order:
  assumes "range_order ks m" shows "fm_mset f m = mset (map (\<lambda>k. f (the (fmlookup m k))) ks)"
proof -
  have "fset (fmdom m) = set ks" "distinct ks"
    using assms by (auto simp: range_order_def fset_of_list.rep_eq [symmetric])
  then show ?thesis by (simp add: fm_mset_def mset_set_set)
qed

lemma range_order_exists: "\<exists>ks. range_order ks m"
proof -
  obtain ks where "set ks = fset (fmdom m)" "distinct ks"
    using finite_distinct_list [of "fset (fmdom m)"] by auto
  then have "fset_of_list ks = fmdom m" by (simp add: fset_of_list.rep_eq fset_inject [symmetric])
  with \<open>distinct ks\<close> show ?thesis by (auto simp: range_order_def)
qed

lemma fm_mset_drop:
  assumes "fmlookup m k = Some v" shows "fm_mset f m = add_mset (f v) (fm_mset f (fmdrop k m))"
proof -
  have "k \<in> fset (fmdom m)" using assms by (auto intro: fmdomI)
  then have "mset_set (fset (fmdom m)) = add_mset k (mset_set (fset (fmdom m) - {k}))"
    by (simp add: mset_set.remove)
  moreover have "image_mset (\<lambda>j. f (the (fmlookup m j))) (mset_set (fset (fmdom m) - {k}))
      = image_mset (\<lambda>j. f (the (fmlookup (fmdrop k m) j))) (mset_set (fset (fmdom m) - {k}))"
    by (rule image_mset_cong) auto
  ultimately show ?thesis using assms by (simp add: fm_mset_def)
qed

lemma fm_mset_new:
  assumes "fmlookup m k = None" shows "fm_mset f (fmupd k v m) = add_mset (f v) (fm_mset f m)"
proof -
  have "fmdrop k (fmupd k v m) = m" using assms by (intro fmap_ext) auto
  with fm_mset_drop [of "fmupd k v m" k v f] show ?thesis by simp
qed

lemma fm_mset_same:
  assumes "fmlookup m k = Some v" "f w = f v" shows "fm_mset f (fmupd k w m) = fm_mset f m"
proof -
  have "fmdrop k (fmupd k w m) = fmdrop k m" by (intro fmap_ext) auto
  with fm_mset_drop [of "fmupd k w m" k w f] fm_mset_drop [OF assms(1), of f] assms(2) show ?thesis by simp
qed

section \<open>Ledgers\<close>

text \<open>A ledger charges every session with a value and credits it when the log shows that the
  session has ended. The token ledger and the stop-channel ledger are both of this kind, and no
  operation but a new session or a refused allocation changes their balance.\<close>

definition ledger :: "(udpRelaySessionState \<Rightarrow> 'x) \<Rightarrow> (relayAction \<Rightarrow> 'x list) \<Rightarrow> udpRelay \<Rightarrow> 'x multiset" where
  "ledger f g u = fm_mset f (sess_map u) + mset (concat (map g (ur_log u)))"

definition pending_ok :: "udpRelay \<Rightarrow> bool" where
  "pending_ok u \<longleftrightarrow>
     (\<forall>k pid. fmlookup (ur_pending u) k = Some pid \<longrightarrow>
        pid < length (ur_allocs u) \<and> al_key (ur_allocs u ! pid) = k
        \<and> (al_phase (ur_allocs u ! pid) = Allocating \<longrightarrow> fmlookup (sess_map u) k = None))
     \<and> (ur_sessions u = None \<longrightarrow> ur_pending u = fmempty)"

lemma sess_map_None [simp]: "ur_sessions u = None \<Longrightarrow> sess_map u = fmempty"
  by (simp add: sess_map_def)

lemma sess_map_upd [simp]:
  "sess_map (u\<lparr>ur_sessions := Some m\<rparr>) = m" "sess_map (u\<lparr>ur_log := l\<rparr>) = sess_map u"
  "sess_map (u\<lparr>ur_pending := q\<rparr>) = sess_map u" "sess_map (u\<lparr>ur_allocs := a\<rparr>) = sess_map u"
  "sess_map (u\<lparr>ur_stops := n\<rparr>) = sess_map u"
  by (simp_all add: sess_map_def)

lemma set_phase_simps [simp]:
  "sess_map (set_phase pid ph u) = sess_map u" "ur_sessions (set_phase pid ph u) = ur_sessions u"
  "ur_pending (set_phase pid ph u) = ur_pending u" "ur_log (set_phase pid ph u) = ur_log u"
  "ur_stops (set_phase pid ph u) = ur_stops u" "ur_multipath (set_phase pid ph u) = ur_multipath u"
  "ur_relayAddr (set_phase pid ph u) = ur_relayAddr u"
  "ur_allocs (set_phase pid ph u) = (ur_allocs u)[pid := (ur_allocs u ! pid)\<lparr>al_phase := ph\<rparr>]"
  by (simp_all add: set_phase_def)

lemma log_action_simps [simp]:
  "sess_map (log_action a u) = sess_map u" "ur_sessions (log_action a u) = ur_sessions u"
  "ur_pending (log_action a u) = ur_pending u" "ur_log (log_action a u) = ur_log u @ a"
  "ur_stops (log_action a u) = ur_stops u" "ur_allocs (log_action a u) = ur_allocs u"
  by (simp_all add: log_action_def)

text \<open>Whether the reply makes a session.\<close>

definition publishes :: "nat \<Rightarrow> alloc_reply \<Rightarrow> udpRelay \<Rightarrow> bool" where
  "publishes pid r u \<longleftrightarrow> \<not> ar_err r \<and> ar_token r \<noteq> [] \<and> ar_serverAddr r \<noteq> [] \<and> \<not> ar_actxErr r
     \<and> ur_sessions u \<noteq> None \<and> fmlookup (ur_pending u) (al_key (ur_allocs u ! pid)) = Some pid
     \<and> ar_endpointOk r"

definition new_session :: "alloc_reply \<Rightarrow> udpRelay \<Rightarrow> udpRelaySessionState" where
  "new_session r u = \<lparr>ss_token = ar_token r, ss_serverAddr = ar_serverAddr r, ss_stop = ur_stops u,
     ss_stats = no_stats, ss_clientStats = ar_clientStats r, ss_allocatedAt = Some (ar_now r),
     ss_missingReports = 0\<rparr>"

definition endpoint_action :: "string \<Rightarrow> alloc_reply \<Rightarrow> udpRelay \<Rightarrow> relayAction" where
  "endpoint_action key r u = (if ar_multipath r \<and> ur_multipath u
     then RegisterPath key (ar_serverAddr r) (ar_pathMTU r) else UpdateEndpoint key (ar_serverAddr r))"

lemma same_key: "al_key ((xs[pid := (xs ! pid)\<lparr>al_phase := ph\<rparr>]) ! pid) = al_key (xs ! pid)"
  by (cases "pid < length xs") (simp_all add: list_update_beyond)

lemma allocation_published:
  assumes "publishes pid r u"
  shows "allocation_done pid r u =
    (let key = al_key (ur_allocs u ! pid);
         resp = \<lparr>ru_RelayAddr = ur_relayAddr u, ru_Token = ar_token r, ru_Stats = None\<rparr>;
         u1 = set_phase pid Allocated u
     in (log_action [endpoint_action key r u, SendRelayBind (ar_token r) (ar_serverAddr r)]
           (u1\<lparr>ur_sessions := Some (fmupd key (new_session r u) (sess_map u)), ur_stops := Suc (ur_stops u),
               ur_allocs := (ur_allocs u1)[pid := (ur_allocs u1 ! pid)\<lparr>al_response := resp\<rparr>]\<rparr>), resp))"
  using assms
  by (cases "ur_sessions u")
    (simp_all add: publishes_def allocation_done_def Let_def same_key new_session_def endpoint_action_def)

lemma allocation_refused:
  assumes "\<not> publishes pid r u"
  shows "allocation_done pid r u =
    (log_action (if ar_token r \<noteq> [] then [ReleaseUDPSession (ar_token r)] else []) (set_phase pid Allocated u), no_relay)"
  using assms by (auto simp: publishes_def allocation_done_def Let_def same_key)

locale session_ledger =
  fixes f :: "udpRelaySessionState \<Rightarrow> 'x" and g :: "relayAction \<Rightarrow> 'x list"
  assumes stable: "f (st\<lparr>ss_clientStats := c\<rparr>) = f st" "f (st\<lparr>ss_missingReports := n\<rparr>) = f st"
      "f (st\<lparr>ss_stats := a\<rparr>) = f st"
    and released: "g (CloseStop (ss_stop st)) @ g (ReleaseUDPSession (ss_token st)) = [f st]"
    and forgotten: "g (Forget (ss_token st)) @ g (CloseStop (ss_stop st)) = [f st]"
    and silent: "g (UpdateEndpoint k b) = []" "g (RegisterPath k b mtu) = []" "g (SendRelayBind t b) = []"
begin

definition charge :: "relay_event \<Rightarrow> udpRelay \<Rightarrow> 'x multiset" where
  "charge e u = (case e of
       EvReply pid r \<Rightarrow> if publishes pid r u then {#f (new_session r u)#}
         else if ar_token r \<noteq> [] then mset (g (ReleaseUDPSession (ar_token r))) else {#}
     | _ \<Rightarrow> {#})"

lemma released_mset:
  "mset (g (CloseStop (ss_stop st))) + mset (g (ReleaseUDPSession (ss_token st))) = {#f st#}"
  by (metis mset_append mset_single_iff_right released)

lemma forgotten_mset: "mset (g (Forget (ss_token st))) + mset (g (CloseStop (ss_stop st))) = {#f st#}"
  by (metis mset_append mset_single_iff_right forgotten)

lemma ledger_cong: "sess_map v = sess_map u \<Longrightarrow> ur_log v = ur_log u \<Longrightarrow> ledger f g v = ledger f g u"
  by (simp add: ledger_def)

lemma ledger_clientStats: "ledger f g (recordClientStats key s u) = ledger f g u"
  by (auto simp: recordClientStats_def ledger_def fm_mset_same stable split: option.split)

lemma ledger_enter: "ledger f g (fst (sessionFor_enter key ctxErr stats u)) = ledger f g u"
  unfolding ledger_clientStats [of key stats u, symmetric]
  by (auto simp: sessionFor_enter_def Let_def split: option.split intro!: ledger_cong)

lemma ledger_finish: "ledger f g (allocation_finish pid u) = ledger f g u"
  by (auto simp: allocation_finish_def Let_def intro!: ledger_cong)

lemma ledger_done:
  assumes "publishes pid r u \<Longrightarrow> fmlookup (sess_map u) (al_key (ur_allocs u ! pid)) = None"
  shows "ledger f g (fst (allocation_done pid r u)) = ledger f g u + charge (EvReply pid r) u"
proof (cases "publishes pid r u")
  case True
  with assms show ?thesis
    by (simp add: allocation_published [OF True] ledger_def Let_def charge_def fm_mset_new silent
        endpoint_action_def)
next
  case False
  then show ?thesis by (simp add: allocation_refused [OF False] ledger_def charge_def)
qed

lemma ledger_release: "ledger f g (release key u) = ledger f g u"
proof -
  let ?u = "cancel_pending key u"
  have u1: "sess_map ?u = sess_map u" "ur_log ?u = ur_log u"
    by (simp_all add: cancel_pending_def cancel_alloc_def split: option.split)
  show ?thesis
  proof (cases "fmlookup (sess_map u) key")
    case (Some st)
    then have "release key u = log_action [CloseStop (ss_stop st), ReleaseUDPSession (ss_token st)]
        (?u\<lparr>ur_sessions := Some (fmdrop key (sess_map ?u))\<rparr>)"
      by (simp add: release_def Let_def u1)
    with fm_mset_drop [OF Some, of f] released_mset [of st] show ?thesis by (simp add: ledger_def u1)
  next
    case None
    then have "release key u = ?u" by (simp add: release_def Let_def u1)
    then show ?thesis by (simp add: ledger_def u1)
  qed
qed

lemma ledger_stopAll:
  assumes "range_order ks (sess_map u)" shows "ledger f g (stopAll ks u) = ledger f g u"
proof -
  have "mset (concat (map g (concat (map (\<lambda>k. case fmlookup (sess_map u) k of None \<Rightarrow> []
      | Some st \<Rightarrow> [Forget (ss_token st), CloseStop (ss_stop st)]) ks))))
    = mset (map (\<lambda>k. f (the (fmlookup (sess_map u) k))) ks)"
    if "\<forall>k \<in> set ks. fmlookup (sess_map u) k \<noteq> None"
    using that by (induction ks) (auto simp: forgotten)
  moreover have "\<forall>k \<in> set ks. fmlookup (sess_map u) k \<noteq> None" using assms by (simp add: range_order_iff)
  ultimately show ?thesis
    by (simp add: ledger_def stopAll_def fm_mset_order [OF assms])
qed

lemma fm_mset_sample: "fm_mset f (record_sample so m) = fm_mset f m"
  by (auto simp: record_sample_def find_Some_iff stable intro!: fm_mset_same split: option.splits)

lemma fm_mset_samples: "fm_mset f (fold record_sample report m) = fm_mset f m"
  by (induction report arbitrary: m) (simp_all add: fm_mset_sample)

lemma ledger_expire:
  "expire_sessions seen now ks (m, acts) = (m', acts') \<Longrightarrow>
     fm_mset f m' + mset (concat (map g acts')) = fm_mset f m + mset (concat (map g acts))"
proof (induction ks arbitrary: m acts)
  case (Cons k ks)
  show ?case
  proof (cases "fmlookup m k")
    case (Some st)
    note forget = fm_mset_drop [OF Some, of f] forgotten_mset [of st]
    show ?thesis
      using Cons.prems Some forget fm_mset_same [OF Some, of f "st\<lparr>ss_missingReports := Suc (ss_missingReports st)\<rparr>"]
      by (auto simp: stable dest!: Cons.IH split: if_splits)
  qed (use Cons in simp)
qed simp

lemma ledger_report: "ledger f g (recordStats report ks now u) = ledger f g u"
proof (cases "ur_sessions u")
  case (Some m)
  obtain m' acts where e: "expire_sessions (map (\<lambda>so. rs_Token (fst so)) report) now ks
      (fold record_sample report m, []) = (m', acts)" by fastforce
  with ledger_expire [OF e] Some show ?thesis
    by (simp add: recordStats_def ledger_def fm_mset_samples sess_map_def)
qed (simp add: recordStats_def)

lemma ledger_step:
  assumes "pending_ok u" "relay_step u e v" shows "ledger f g v = ledger f g u + charge e u"
proof (cases e)
  case (EvReply pid r)
  with assms have "publishes pid r u \<Longrightarrow> fmlookup (sess_map u) (al_key (ur_allocs u ! pid)) = None"
    by (auto simp: pending_ok_def relay_step_def relay_enabled_def publishes_def)
  from ledger_done [OF this] show ?thesis using assms(2) EvReply by (simp add: relay_step_def)
qed (use assms(2) in \<open>simp_all add: relay_step_def relay_enabled_def charge_def ledger_enter ledger_finish
      ledger_release ledger_stopAll ledger_report\<close>)

end

section \<open>The invariant\<close>

lemma recordClientStats_simps [simp]:
  "ur_pending (recordClientStats key s u) = ur_pending u"
  "ur_allocs (recordClientStats key s u) = ur_allocs u"
  "ur_stops (recordClientStats key s u) = ur_stops u"
  "ur_log (recordClientStats key s u) = ur_log u"
  "(ur_sessions (recordClientStats key s u) = None) = (ur_sessions u = None)"
  "(fmlookup (sess_map (recordClientStats key s u)) k = None) = (fmlookup (sess_map u) k = None)"
  by (auto simp: recordClientStats_def sess_map_def split: option.splits)

lemma pending_okI:
  assumes "pending_ok u" "ur_pending v = ur_pending u" "ur_allocs v = ur_allocs u"
    "ur_sessions v = None \<longrightarrow> ur_sessions u = None"
    "\<And>k. fmlookup (sess_map u) k = None \<Longrightarrow> fmlookup (sess_map v) k = None"
  shows "pending_ok v"
  using assms by (auto simp: pending_ok_def)

lemma pending_enter:
  assumes "pending_ok u" shows "pending_ok (fst (sessionFor_enter key ctxErr stats u))"
proof -
  define w where "w = recordClientStats key stats u"
  have w: "pending_ok w" unfolding w_def by (rule pending_okI [OF assms]) simp_all
  show ?thesis
  proof (cases "fmlookup (sess_map w) key = None \<and> ur_sessions w \<noteq> None \<and> \<not> ctxErr \<and> fmlookup (ur_pending w) key = None")
    case True
    have "fst (sessionFor_enter key ctxErr stats u) = w\<lparr>ur_allocs := ur_allocs w @
        [\<lparr>al_key = key, al_phase = Allocating, al_cancelled = False, al_response = no_relay\<rparr>],
        ur_pending := fmupd key (length (ur_allocs w)) (ur_pending w)\<rparr>"
      unfolding sessionFor_enter_def Let_def w_def [symmetric] using True by (auto split: option.split)
    moreover have "\<forall>k pid. fmlookup (ur_pending w) k = Some pid \<longrightarrow> pid < length (ur_allocs w)"
      using w by (simp add: pending_ok_def)
    ultimately show ?thesis using w True
      by (auto simp: pending_ok_def nth_append less_Suc_eq split: if_splits)
  next
    case False
    then have "fst (sessionFor_enter key ctxErr stats u) = w"
      unfolding sessionFor_enter_def Let_def w_def [symmetric] by (auto split: option.split)
    with w show ?thesis by simp
  qed
qed

text \<open>Steps that change only the phase, the cancellation or the response of allocations.\<close>

lemma pending_allocs:
  assumes "pending_ok u" "length (ur_allocs v) = length (ur_allocs u)"
    "\<And>i. i < length (ur_allocs u) \<Longrightarrow> al_key (ur_allocs v ! i) = al_key (ur_allocs u ! i)
       \<and> (al_phase (ur_allocs v ! i) = Allocating \<longrightarrow> al_phase (ur_allocs u ! i) = Allocating)"
    "\<And>k i. fmlookup (ur_pending v) k = Some i \<Longrightarrow> fmlookup (ur_pending u) k = Some i"
    "ur_sessions v = None \<longrightarrow> ur_pending v = fmempty"
    "\<And>k i. fmlookup (ur_pending v) k = Some i \<Longrightarrow> al_phase (ur_allocs v ! i) = Allocating
       \<Longrightarrow> fmlookup (sess_map u) k = None \<Longrightarrow> fmlookup (sess_map v) k = None"
  shows "pending_ok v"
  unfolding pending_ok_def
proof (intro conjI allI impI)
  fix k pid assume v: "fmlookup (ur_pending v) k = Some pid"
  with assms(4) have u: "fmlookup (ur_pending u) k = Some pid" by blast
  with assms(1) have b: "pid < length (ur_allocs u)" "al_key (ur_allocs u ! pid) = k"
    "al_phase (ur_allocs u ! pid) = Allocating \<longrightarrow> fmlookup (sess_map u) k = None"
    by (simp_all add: pending_ok_def)
  then show "pid < length (ur_allocs v)" "al_key (ur_allocs v ! pid) = k" using assms(2,3) by simp_all
  show "fmlookup (sess_map v) k = None" if "al_phase (ur_allocs v ! pid) = Allocating"
    using assms(3) [OF b(1)] that b(3) by (intro assms(6) [OF v that]) simp
qed (use assms(5) in simp)

lemma pending_done:
  assumes "pending_ok u" "pid < length (ur_allocs u)" shows "pending_ok (fst (allocation_done pid r u))"
proof (cases "publishes pid r u")
  case True
  show ?thesis
  proof (rule pending_allocs [OF assms(1)])
    fix k i
    assume k: "fmlookup (ur_pending (fst (allocation_done pid r u))) k = Some i"
      "al_phase (ur_allocs (fst (allocation_done pid r u)) ! i) = Allocating" "fmlookup (sess_map u) k = None"
    then have "i \<noteq> pid" "fmlookup (ur_pending u) k = Some i"
      using assms(2) by (auto simp: allocation_published [OF True] Let_def)
    with True have "k \<noteq> al_key (ur_allocs u ! pid)" by (auto simp: publishes_def)
    with k(3) show "fmlookup (sess_map (fst (allocation_done pid r u))) k = None"
      by (simp add: allocation_published [OF True] Let_def)
  qed (use assms(2) in \<open>auto simp: allocation_published [OF True] Let_def nth_list_update\<close>)
next
  case False
  show ?thesis
    by (rule pending_allocs [OF assms(1)])
      (use assms in \<open>auto simp: allocation_refused [OF False] nth_list_update pending_ok_def\<close>)
qed

lemma pending_finish:
  assumes "pending_ok u" "pid < length (ur_allocs u)" shows "pending_ok (allocation_finish pid u)"
proof -
  have "ur_sessions u = None \<longrightarrow> ur_pending u = fmempty" using assms(1) by (simp add: pending_ok_def)
  with assms(2) show ?thesis
    by (intro pending_allocs [OF assms(1)])
      (auto simp: allocation_finish_def Let_def nth_list_update split: if_splits)
qed

lemma pending_release:
  assumes "pending_ok u" shows "pending_ok (release key u)"
proof -
  let ?u = "cancel_pending key u"
  have "pending_ok ?u"
    by (rule pending_allocs [OF assms])
      (use assms in \<open>auto simp: cancel_pending_def cancel_alloc_def nth_list_update pending_ok_def
        split: option.splits if_splits\<close>)
  then show ?thesis by (auto simp: release_def Let_def split: option.splits intro: pending_okI)
qed

lemma pending_stopAll: "pending_ok (stopAll ks u)"
  by (simp add: pending_ok_def stopAll_def)


lemma sample_dom: "(fmlookup (record_sample so m) k = None) = (fmlookup m k = None)"
  by (auto simp: record_sample_def find_Some_iff split: option.splits)

lemma samples_dom: "(fmlookup (fold record_sample report m) k = None) = (fmlookup m k = None)"
  by (induction report arbitrary: m) (simp_all add: sample_dom)

lemma expire_dom:
  "expire_sessions seen now ks (m, acts) = (m', acts') \<Longrightarrow> fmlookup m k = None \<Longrightarrow> fmlookup m' k = None"
proof (induction ks arbitrary: m acts)
  case (Cons j ks)
  from Cons.prems show ?case
    by (cases "k = j") (auto split: option.splits if_splits dest: Cons.IH)
qed simp

lemma pending_report:
  assumes "pending_ok u" shows "pending_ok (recordStats report ks now u)"
proof (cases "ur_sessions u")
  case (Some m)
  obtain m' acts where e: "expire_sessions (map (\<lambda>so. rs_Token (fst so)) report) now ks
      (fold record_sample report m, []) = (m', acts)" by fastforce
  with expire_dom [OF e] Some show ?thesis
    by (intro pending_okI [OF assms]) (auto simp: recordStats_def samples_dom sess_map_def)
qed (use assms in \<open>simp add: recordStats_def\<close>)

interpretation relay_sessions: inv_system relay_step pending_ok
proof unfold_locales
  fix u e v assume "pending_ok u" "relay_step u e v"
  then show "pending_ok v"
    by (cases e) (simp_all add: relay_step_def relay_enabled_def pending_enter pending_done pending_finish
        pending_release pending_stopAll pending_report)
qed

section \<open>The two ledgers\<close>

definition token_credit :: "relayAction \<Rightarrow> string list" where
  "token_credit a = (case a of ReleaseUDPSession t \<Rightarrow> [t] | Forget t \<Rightarrow> [t] | _ \<Rightarrow> [])"

definition stop_credit :: "relayAction \<Rightarrow> nat list" where
  "stop_credit a = (case a of CloseStop n \<Rightarrow> [n] | _ \<Rightarrow> [])"

interpretation tokens: session_ledger ss_token token_credit
  by unfold_locales (simp_all add: token_credit_def)

interpretation stops: session_ledger ss_stop stop_credit
  by unfold_locales (simp_all add: stop_credit_def)

text \<open>The tokens that the relay handed out, and the stop channels closed, in a run.\<close>

definition granted :: "relay_event \<Rightarrow> string list" where
  "granted e = (case e of EvReply pid r \<Rightarrow> if ar_token r = [] then [] else [ar_token r] | _ \<Rightarrow> [])"

definition closed_stops :: "udpRelay \<Rightarrow> nat list" where
  "closed_stops u = concat (map stop_credit (ur_log u))"

definition tokens_ended :: "udpRelay \<Rightarrow> string list" where
  "tokens_ended u = concat (map token_credit (ur_log u))"

definition live_stops :: "udpRelay \<Rightarrow> nat multiset" where
  "live_stops u = fm_mset ss_stop (sess_map u)"

definition session_tokens :: "udpRelay \<Rightarrow> string multiset" where
  "session_tokens u = fm_mset ss_token (sess_map u)"

lemma tokens_charge: "tokens.charge e u = mset (granted e)"
  by (auto simp: tokens.charge_def granted_def token_credit_def new_session_def publishes_def
      split: relay_event.split)

definition new_stops :: "relay_event \<Rightarrow> udpRelay \<Rightarrow> nat" where
  "new_stops e u = (case e of EvReply pid r \<Rightarrow> if publishes pid r u then 1 else 0 | _ \<Rightarrow> 0)"

lemma stops_step: "relay_step u e v \<Longrightarrow> ur_stops v = ur_stops u + new_stops e u"
proof (cases e)
  case (EvReply pid r)
  then show "relay_step u e v \<Longrightarrow> ur_stops v = ur_stops u + new_stops e u"
    by (cases "publishes pid r u")
      (auto simp: new_stops_def relay_step_def allocation_published allocation_refused Let_def)
qed (auto simp: relay_step_def new_stops_def sessionFor_enter_def release_def cancel_pending_def
      cancel_alloc_def log_action_def recordStats_def allocation_finish_def stopAll_def Let_def
      split: option.split prod.split)

lemma stops_charge:
  assumes "relay_step u e v" shows "stops.charge e u = mset [ur_stops u..<ur_stops v]"
  using stops_step [OF assms]
  by (auto simp: stops.charge_def new_stops_def stop_credit_def new_session_def split: relay_event.splits)

text \<open>The balance of a run.\<close>

lemma run_balance:
  "run relay_step u es v \<Longrightarrow> pending_ok u \<Longrightarrow>
     ledger ss_token token_credit v = ledger ss_token token_credit u + mset (concat (map granted es))
     \<and> ledger ss_stop stop_credit v = ledger ss_stop stop_credit u + mset [ur_stops u..<ur_stops v]
     \<and> ur_stops u \<le> ur_stops v"
proof (induction rule: run.induct)
  case (run_cons u e v es w)
  note step = run_cons.prems run_cons.hyps(1)
  have IH: "ledger ss_token token_credit w = ledger ss_token token_credit v + mset (concat (map granted es))"
    "ledger ss_stop stop_credit w = ledger ss_stop stop_credit v + mset [ur_stops v..<ur_stops w]"
    "ur_stops v \<le> ur_stops w"
    using run_cons.IH [OF relay_sessions.step_inv [OF step]] by simp_all
  have le: "ur_stops u \<le> ur_stops v" using stops_step [OF step(2)] by simp
  then have "[ur_stops u..<ur_stops w] = [ur_stops u..<ur_stops v] @ [ur_stops v..<ur_stops w]"
    using IH(3) by (metis upt_add_eq_append le_add_diff_inverse)
  with IH le tokens.ledger_step [OF step] stops.ledger_step [OF step] show ?case
    by (simp add: tokens_charge stops_charge [OF step(2)])
qed simp

section \<open>Properties\<close>

text \<open>C18: The server's UDP-relay sessions leak nothing and never close a channel twice. In every
  run of concurrent requests, late replies, releases, reports and restarts, the tokens that the
  relay handed out are, as multisets, exactly the tokens of the live sessions, those returned to
  the relay, and those dropped because the relay stopped reporting them or the manager was
  stopped; no stop channel is closed twice (which would panic); and the keepalive loop of every
  live session is still running, one loop per session.\<close>

theorem udp_relay_no_leak:
  assumes "run relay_step (new_udpRelay addr multipath) es u"
  shows "mset (concat (map granted es)) = session_tokens u + mset (tokens_ended u)
    \<and> distinct (closed_stops u)
    \<and> set_mset (live_stops u) \<inter> set (closed_stops u) = {}
    \<and> (\<forall>n. count (live_stops u) n \<le> 1)"
proof -
  have init: "pending_ok (new_udpRelay addr multipath)"
    "ledger f g (new_udpRelay addr multipath) = {#}" for f :: "udpRelaySessionState \<Rightarrow> 'x" and g
    by (simp_all add: pending_ok_def new_udpRelay_def sess_map_def ledger_def)
  from run_balance [OF assms init(1)] have bal:
    "ledger ss_token token_credit u = mset (concat (map granted es))"
    "ledger ss_stop stop_credit u = mset [0..<ur_stops u]"
    by (simp_all add: init(2)) (simp_all add: new_udpRelay_def)
  have one: "count (live_stops u) n + count (mset (closed_stops u)) n \<le> 1" for n
  proof -
    have "count (ledger ss_stop stop_credit u) n \<le> 1"
      unfolding bal(2) by (simp add: count_mset_set' mset_upt)
    then show ?thesis by (simp add: ledger_def live_stops_def closed_stops_def)
  qed
  have "count (mset (closed_stops u)) n \<le> 1" for n using one [of n] by simp
  then have "distinct (closed_stops u)"
    by (simp add: distinct_count_atmost_1) (metis One_nat_def Suc_leI count_mset_0_iff le_antisym neq0_conv)
  moreover have "set_mset (live_stops u) \<inter> set (closed_stops u) = {}"
  proof (rule ccontr)
    assume "set_mset (live_stops u) \<inter> set (closed_stops u) \<noteq> {}"
    then obtain n where "0 < count (live_stops u) n" "0 < count (mset (closed_stops u)) n" by auto
    with one [of n] show False by simp
  qed
  moreover have "\<forall>n. count (live_stops u) n \<le> 1" using one add_leD1 by blast
  ultimately show ?thesis using bal(1) by (simp add: ledger_def session_tokens_def tokens_ended_def)
qed

text \<open>A run with a shared allocation, a report and a release.\<close>

definition wit_reply :: alloc_reply where
  "wit_reply = \<lparr>ar_token = ''tok'', ar_serverAddr = ''10.0.0.1:7'', ar_err = False, ar_actxErr = False,
     ar_endpointOk = True, ar_multipath = False, ar_pathMTU = False, ar_clientStats = None, ar_now = 0\<rparr>"

definition wit_relay_events :: "relay_event list" where
  "wit_relay_events = [EvEnter ''k'' False None, EvEnter ''k'' False None, EvReply 0 wit_reply, EvFinish 0,
     EvReport [] [''k''] (100 * second), EvRelease ''k'']"

fun relay_exec :: "relay_event list \<Rightarrow> udpRelay \<Rightarrow> udpRelay option" where
  "relay_exec [] u = Some u"
| "relay_exec (e # es) u = (if relay_enabled e u then relay_exec es (relay_apply e u) else None)"

lemma relay_exec_run: "relay_exec es u = Some v \<Longrightarrow> run relay_step u es v"
  by (induction es arbitrary: u) (auto simp: relay_step_def split: if_splits intro: run.intros)

definition wit_relay :: udpRelay where
  "wit_relay = the (relay_exec wit_relay_events (new_udpRelay ''r:1'' False))"

lemma wit_relay_run: "run relay_step (new_udpRelay ''r:1'' False) wit_relay_events wit_relay"
proof -
  have "relay_exec wit_relay_events (new_udpRelay ''r:1'' False) \<noteq> None" by code_simp
  then show ?thesis by (auto simp: wit_relay_def intro: relay_exec_run)
qed

theorem udp_relay_no_leak_witness:
  "mset [''tok''] = session_tokens wit_relay + mset (tokens_ended wit_relay)
     \<and> tokens_ended wit_relay = [''tok''] \<and> closed_stops wit_relay = [0]"
proof -
  have "concat (map granted wit_relay_events) = [''tok'']" by code_simp
  moreover have "tokens_ended wit_relay = [''tok'']" "closed_stops wit_relay = [0]" by code_simp+
  ultimately show ?thesis using udp_relay_no_leak [OF wit_relay_run] by metis
qed

section \<open>Shared allocations\<close>

definition fresh_response :: "udpRelay \<Rightarrow> bool" where
  "fresh_response u \<longleftrightarrow> (\<forall>i < length (ur_allocs u). al_phase (ur_allocs u ! i) = Allocating \<longrightarrow>
     al_response (ur_allocs u ! i) = no_relay)"

text \<open>What one step does to the allocation objects that exist: only the reply changes a response,
  and only that of the allocation it answers.\<close>

lemma nth_upd: "i < length xs \<Longrightarrow> xs[j := y] ! i = (if i = j then y else xs ! i)"
  by (cases "i = j") simp_all

lemma enter_allocs:
  "\<exists>xs. ur_allocs (fst (sessionFor_enter key c s u)) = ur_allocs u @ xs \<and> (\<forall>a \<in> set xs. al_response a = no_relay)"
  by (auto simp: sessionFor_enter_def Let_def split: option.split)

lemma step_allocs:
  assumes "relay_step u e v" "i < length (ur_allocs u)"
  shows "i < length (ur_allocs v)
    \<and> ((\<forall>r. e \<noteq> EvReply i r) \<longrightarrow> al_response (ur_allocs v ! i) = al_response (ur_allocs u ! i)
         \<and> (al_phase (ur_allocs v ! i) = Allocating \<longrightarrow> al_phase (ur_allocs u ! i) = Allocating))"
proof (cases e)
  case (EvEnter key c s)
  with assms enter_allocs [of key c s u] show ?thesis by (auto simp: relay_step_def nth_append)
next
  case (EvReply pid r)
  with assms show ?thesis
    by (cases "publishes pid r u")
      (auto simp: relay_step_def allocation_published allocation_refused Let_def nth_list_update)
next
  case (EvFinish pid)
  with assms show ?thesis
    by (auto simp: relay_step_def relay_enabled_def allocation_finish_def Let_def nth_list_update)
next
  case (EvRelease key)
  with assms show ?thesis
    by (auto simp: relay_step_def release_def cancel_pending_def cancel_alloc_def Let_def nth_upd
        split: option.split)
next
  case (EvStopAll ks)
  with assms show ?thesis by (auto simp: relay_step_def stopAll_def nth_enumerate_eq)
next
  case (EvReport report ks now)
  with assms show ?thesis by (auto simp: relay_step_def recordStats_def split: option.split prod.split)
qed

lemma step_new_allocs:
  assumes "relay_step u e v" "length (ur_allocs u) \<le> i" "i < length (ur_allocs v)"
  shows "al_response (ur_allocs v ! i) = no_relay"
proof (cases e)
  case (EvEnter key c s)
  with assms enter_allocs [of key c s u] show ?thesis by (auto simp: relay_step_def nth_append)
next
  case (EvReply pid r)
  with assms show ?thesis
    by (cases "publishes pid r u")
      (auto simp: relay_step_def allocation_published allocation_refused Let_def)
qed (use assms in \<open>auto simp: relay_step_def release_def cancel_pending_def cancel_alloc_def recordStats_def
      allocation_finish_def stopAll_def Let_def split: option.splits prod.splits\<close>)

interpretation relay_responses: inv_system relay_step fresh_response
proof unfold_locales
  fix u e v assume f: "fresh_response u" and step: "relay_step u e v"
  show "fresh_response v"
    unfolding fresh_response_def
  proof (intro allI impI)
    fix i assume i: "i < length (ur_allocs v)" "al_phase (ur_allocs v ! i) = Allocating"
    show "al_response (ur_allocs v ! i) = no_relay"
    proof (cases "i < length (ur_allocs u)")
      case True
      show ?thesis
      proof (cases "\<exists>r. e = EvReply i r")
        case True
        then obtain r where "e = EvReply i r" by blast
        with step i(2) \<open>i < length (ur_allocs u)\<close> have False
          by (cases "publishes i r u") (auto simp: relay_step_def allocation_published allocation_refused Let_def)
        then show ?thesis ..
      next
        case False
        with step_allocs [OF step True] f i True show ?thesis by (simp add: fresh_response_def)
      qed
    qed (use step_new_allocs [OF step] i in simp)
  qed
qed

text \<open>Once answered, the response of an allocation stays.\<close>

lemma response_stable:
  "run relay_step u es v \<Longrightarrow> i < length (ur_allocs u) \<Longrightarrow> al_phase (ur_allocs u ! i) \<noteq> Allocating \<Longrightarrow>
     al_response (ur_allocs v ! i) = al_response (ur_allocs u ! i)"
proof (induction rule: run.induct)
  case (run_cons u e v es w)
  have "\<forall>r. e \<noteq> EvReply i r" using run_cons.hyps(1) run_cons.prems by (auto simp: relay_step_def relay_enabled_def)
  with step_allocs [OF run_cons.hyps(1) run_cons.prems(1)] run_cons show ?case by metis
qed simp

text \<open>A live session answers every request for its key, without an allocation.\<close>

lemma live_session_reused:
  assumes "fmlookup (sess_map u) key = Some st"
  shows "\<exists>st'. snd (sessionFor_enter key ctxErr stats u) = Answer \<lparr>ru_RelayAddr = ur_relayAddr u,
      ru_Token = ss_token st, ru_Stats = statsFor key (recordClientStats key stats u)\<rparr>
    \<and> fst (sessionFor_enter key ctxErr stats u) = recordClientStats key stats u
    \<and> fmlookup (sess_map (recordClientStats key stats u)) key = Some st' \<and> ss_token st' = ss_token st"
  using assms
  by (cases "ur_sessions u") (auto simp: sessionFor_enter_def recordClientStats_def Let_def split: option.split)

text \<open>An allocation is shared and takes effect only while it is current. When the relay
  answers the call that started an allocation, either the allocation is still the pending one of
  its client: the client then had no session, gets one with the relay's token, its endpoint is set
  once and the bind frame is sent; or it was refused, cancelled or superseded: then no session and
  no endpoint changes and the token, if there is one, goes back to the relay. In both cases every
  request that waited for the allocation returns, whatever happens in between, the same response
  as the call that made it.\<close>

theorem udp_relay_allocation_shared:
  assumes "run relay_step (new_udpRelay addr multipath) es u" "relay_step u (EvReply pid r) v"
    and "run relay_step v es' w" "al_phase (ur_allocs w ! pid) = Finished"
  shows "sessionFor_wait pid False b w = Some (snd (allocation_done pid r u))
    \<and> (if publishes pid r u
       then fmlookup (sess_map u) (al_key (ur_allocs u ! pid)) = None
         \<and> sess_map v = fmupd (al_key (ur_allocs u ! pid)) (new_session r u) (sess_map u)
         \<and> ur_log v = ur_log u @ [endpoint_action (al_key (ur_allocs u ! pid)) r u,
             SendRelayBind (ar_token r) (ar_serverAddr r)]
         \<and> ru_Token (snd (allocation_done pid r u)) = ar_token r
       else snd (allocation_done pid r u) = no_relay \<and> sess_map v = sess_map u
         \<and> ur_log v = ur_log u @ (if ar_token r = [] then [] else [ReleaseUDPSession (ar_token r)]))"
proof -
  have "pending_ok (new_udpRelay addr multipath)" "fresh_response (new_udpRelay addr multipath)"
    by (simp_all add: pending_ok_def fresh_response_def new_udpRelay_def sess_map_def)
  then have inv: "pending_ok u" "fresh_response u"
    using relay_sessions.run_inv relay_responses.run_inv assms(1) by blast+
  have pid: "pid < length (ur_allocs u)" "al_phase (ur_allocs u ! pid) = Allocating"
    and v: "v = fst (allocation_done pid r u)"
    using assms(2) by (simp_all add: relay_step_def relay_enabled_def)
  have "pid < length (ur_allocs v) \<and> al_phase (ur_allocs v ! pid) \<noteq> Allocating
      \<and> al_response (ur_allocs v ! pid) = snd (allocation_done pid r u)"
    using pid inv(2) unfolding v
    by (cases "publishes pid r u") (simp_all add: allocation_published allocation_refused Let_def fresh_response_def)
  with response_stable [OF assms(3)] have "al_response (ur_allocs w ! pid) = snd (allocation_done pid r u)" by metis
  moreover have "fmlookup (sess_map u) (al_key (ur_allocs u ! pid)) = None" if "publishes pid r u"
    using that inv(1) pid by (auto simp: pending_ok_def publishes_def)
  ultimately show ?thesis using assms(4) unfolding v
    by (cases "publishes pid r u")
      (simp_all add: sessionFor_wait_def allocation_published allocation_refused Let_def)
qed

definition wit_relay_before :: udpRelay where
  "wit_relay_before = the (relay_exec (take 2 wit_relay_events) (new_udpRelay ''r:1'' False))"

definition wit_relay_reply :: udpRelay where
  "wit_relay_reply = relay_apply (EvReply 0 wit_reply) wit_relay_before"

theorem udp_relay_allocation_shared_witness:
  "sessionFor_wait 0 False False wit_relay
     = Some \<lparr>ru_RelayAddr = ''r:1'', ru_Token = ''tok'', ru_Stats = None\<rparr>"
proof -
  have "relay_exec (take 2 wit_relay_events) (new_udpRelay ''r:1'' False) \<noteq> None" by code_simp
  then have r1: "run relay_step (new_udpRelay ''r:1'' False) (take 2 wit_relay_events) wit_relay_before"
    by (auto simp: wit_relay_before_def intro: relay_exec_run)
  have "relay_enabled (EvReply 0 wit_reply) wit_relay_before" by code_simp
  then have r2: "relay_step wit_relay_before (EvReply 0 wit_reply) wit_relay_reply"
    by (simp add: relay_step_def wit_relay_reply_def)
  have "relay_exec (drop 3 wit_relay_events) wit_relay_reply = Some wit_relay" by code_simp
  then have r3: "run relay_step wit_relay_reply (drop 3 wit_relay_events) wit_relay" by (rule relay_exec_run)
  have f: "al_phase (ur_allocs wit_relay ! 0) = Finished" by code_simp
  have "snd (allocation_done 0 wit_reply wit_relay_before)
      = \<lparr>ru_RelayAddr = ''r:1'', ru_Token = ''tok'', ru_Stats = None\<rparr>" by code_simp
  with udp_relay_allocation_shared [OF r1 r2 r3 f, of False] show ?thesis by simp
qed

section \<open>The manager in force\<close>

text \<open>The server's slot for the manager (\<open>s.udpr\<close>) with the agent it allocates from, and the
  managers it has stopped. \<open>ready\<close> says that the data plane has a WebSocket bind over a
  \<open>FilterBind\<close>; \<open>ks\<close> is the order of the range loop in \<open>stopAll\<close>.\<close>

record relaySlot =
  sl_udpr :: "(nat \<times> udpRelay) option"
  sl_stopped :: "udpRelay list"

definition EnableUDPRelay ::
  "nat \<Rightarrow> string \<Rightarrow> bool \<Rightarrow> bool \<Rightarrow> string list \<Rightarrow> relaySlot \<Rightarrow> relaySlot" where
  "EnableUDPRelay agent relayAddr ready multipath ks s =
     (let s1 = (case sl_udpr s of None \<Rightarrow> s
                | Some (a, prev) \<Rightarrow> \<lparr>sl_udpr = None, sl_stopped = sl_stopped s @ [stopAll ks prev]\<rparr>)
      in if relayAddr = [] \<or> \<not> ready then s1
         else s1\<lparr>sl_udpr := Some (agent, new_udpRelay relayAddr multipath)\<rparr>)"

definition RecordUDPRelayStatsFrom ::
  "nat \<Rightarrow> (RelayUDPStats \<times> string list) list \<Rightarrow> string list \<Rightarrow> gotime \<Rightarrow> relaySlot \<Rightarrow> relaySlot" where
  "RecordUDPRelayStatsFrom agent report ks now s = (case sl_udpr s of
       None \<Rightarrow> s
     | Some (a, u) \<Rightarrow> if a = agent then s\<lparr>sl_udpr := Some (a, recordStats report ks now u)\<rparr> else s)"

text \<open>Replacing the manager ends every session of the previous one, and a relay that is not the
  selected one cannot change its sessions.\<close>

lemma enable_replaces:
  assumes "sl_udpr s = Some (a, u)" "range_order ks (sess_map u)"
  shows "\<exists>v. sl_stopped (EnableUDPRelay agent relayAddr ready multipath ks s) = sl_stopped s @ [v]
    \<and> sess_map v = fmempty \<and> mset (closed_stops v) = live_stops u + mset (closed_stops u)"
proof -
  have "ledger ss_stop stop_credit (stopAll ks u) = ledger ss_stop stop_credit u"
    by (rule stops.ledger_stopAll [OF assms(2)])
  then have "mset (closed_stops (stopAll ks u)) = live_stops u + mset (closed_stops u)"
    by (simp add: ledger_def closed_stops_def live_stops_def stopAll_def sess_map_def)
  with assms(1) show ?thesis
    by (intro exI [of _ "stopAll ks u"]) (simp add: EnableUDPRelay_def Let_def stopAll_def sess_map_def)
qed

lemma standby_reports_ignored:
  "sl_udpr s = Some (a, u) \<Longrightarrow> agent \<noteq> a \<Longrightarrow> RecordUDPRelayStatsFrom agent report ks now s = s"
  by (simp add: RecordUDPRelayStatsFrom_def)

end
