(* ===== verification/Config_Parse.thy ===== *)
theory Config_Parse
  imports Data_Plane Scheduler
begin

text \<open>
  Reading the server's configuration (\<open>ParseConfig\<close> of src/pkg/server/config.go) after the YAML
  decoder has filled the structure: defaults, normalisation and every check, in the order of the
  source. A prefix, an address or an upstream in canonical text is kept as the value it denotes.
  URL parsing, the service table, the portal template checker and the file that a template names
  are arguments. The checks are proved equivalent to a declarative description of a valid
  configuration, and a valid configuration is proved to have what the control plane, the data
  plane and the destination policies rely on.
\<close>

section \<open>The decoded structure\<close>

record OIDCIssuerConfig =
  is_Name :: string
  is_Issuer :: string
  is_ClientID :: string
  is_DeprecatedClientSecret :: string
  is_Scopes :: "string list"

record DNSConfig =
  dn_Enabled :: "bool option"
  dn_Domain :: string
  dn_ForwardingEnabled :: bool
  dn_Upstreams :: "string list"

record RelayConfig =
  rc_Enabled :: bool
  rc_URL :: string
  rc_Name :: string
  rc_IdentityFile :: string
  rc_Fingerprint :: string
  rc_DirectClients :: bool
  rc_Endpoints :: "(string \<times> string) list"
  rc_ReconnectMin :: duration
  rc_ReconnectMax :: duration
  rc_AdvertiseDirect :: bool

record MASQUEConfig =
  mq_Enabled :: bool
  mq_Listen :: string
  mq_HTTP2URL :: string
  mq_HTTP3URL :: string
  mq_MatchDomains :: "string list"
  mq_ClientCAFile :: string
  mq_IssuerCertFile :: string
  mq_IssuerKeyFile :: string
  mq_CertificateTTL :: duration
  mq_Tunnels :: "(string, string) fmap"

record PortalConfig =
  po_Enabled :: bool
  po_Template :: string
  po_WebEnabled :: bool
  po_WebListen :: string

text \<open>A tunnel with the two presentation fields that are checked.\<close>

record tunnelEntry = tunnelConfig +
  te_DocsURL :: string
  te_PortalURL :: "string option"

record NativeWireGuardPeer =
  nw_Name :: string
  nw_PublicKey :: string
  nw_TunnelIP :: string
  nw_Tunnels :: "string list"
  nw_DestinationPolicy :: string

record ListenConfig =
  li_HTTPS :: string
  li_WireGuard :: string
  li_Name :: string

record AuthConfig =
  au_AuthorizedKeysDir :: string
  au_Issuers :: "OIDCIssuerConfig list"
  au_SessionTTL :: duration
  au_MaxSessionsPerKey :: int

record NetworkConfig =
  ne_TunnelCIDR :: string
  ne_AdvertisedEndpoint :: string
  ne_DNS :: DNSConfig

record TransportConfig =
  tr_Multipath :: "bool option"
  tr_Force :: string

record NativeWireGuardConfig =
  nc_Enabled :: bool
  nc_Peers :: "NativeWireGuardPeer list"

record Config =
  co_StateDir :: string
  co_Listen :: ListenConfig
  co_Auth :: AuthConfig
  co_WebUIToken :: string
  co_Network :: NetworkConfig
  co_Transport :: TransportConfig
  co_Authorizer :: "authorizerConfig \<times> duration" \<comment> \<open>the hook and its timeout\<close>
  co_DestinationPolicies :: "(string, destinationPolicy) fmap"
  co_NativeWireGuard :: NativeWireGuardConfig
  co_Relay :: RelayConfig
  co_MASQUE :: MASQUEConfig
  co_Portal :: PortalConfig
  co_Tunnels :: "tunnelEntry list"

text \<open>What the checks take from elsewhere.\<close>

record goURL =
  url_Scheme :: string
  url_Host :: string
  url_User :: bool
  url_RawQuery :: string
  url_Fragment :: string

record config_env =
  ce_unicode :: unicode
  ce_urlParse :: "string \<Rightarrow> goURL option"
  ce_services :: "string \<Rightarrow> string \<Rightarrow> int option"
  ce_templateFatal :: "string \<Rightarrow> bool" \<comment> \<open>\<open>portal.ValidateTemplate\<close> reports a fatal error\<close>
  ce_templateFile :: "string \<Rightarrow> string" \<comment> \<open>\<open>loadPortalTemplateFile\<close>\<close>

text \<open>An error names the part of the configuration and what is wrong with it.\<close>

datatype configError =
    AuthErr string
  | NetworkErr string
  | TransportErr string
  | RelayErr string
  | MasqueErr string
  | TunnelErr string string
  | AdminErr string
  | PortalErr string
  | PolicyErr string string
  | PeerErr string

section \<open>Library functions\<close>

definition ContainsAny :: "string \<Rightarrow> string \<Rightarrow> bool" where
  "ContainsAny s chars \<longleftrightarrow> list_ex (\<lambda>c. c \<in> set chars) s"

definition TrimSuffix :: "string \<Rightarrow> char \<Rightarrow> string" where
  "TrimSuffix s c = (if s \<noteq> [] \<and> last s = c then butlast s else s)"

text \<open>\<open>net.ParseIP\<close> and \<open>net.ParseCIDR\<close>, of which only the success matters. The prefix length of
  \<open>ParseCIDR\<close> may have leading zeros.\<close>

definition addr_bitlen :: "ipAddr \<Rightarrow> nat" where
  "addr_bitlen a = (case a of IP4 w \<Rightarrow> 32 | IP6 w z \<Rightarrow> 128 | IPInvalid \<Rightarrow> 0)"

definition ParseIP :: "string \<Rightarrow> bool" where
  "ParseIP s \<longleftrightarrow> (case ParseAddr s of None \<Rightarrow> False | Some a \<Rightarrow> addr_zone a = [])"

definition ParseCIDR :: "string \<Rightarrow> bool" where
  "ParseCIDR s \<longleftrightarrow> (CHR ''/'' \<in> set s \<and>
     (let addr = takeWhile (\<lambda>c. c \<noteq> CHR ''/'') s; mask = drop (Suc (length addr)) s
      in case ParseAddr addr of
           None \<Rightarrow> False
         | Some a \<Rightarrow> addr_zone a = [] \<and> mask \<noteq> []
             \<and> (case decimal 0 mask of None \<Rightarrow> False | Some n \<Rightarrow> n \<le> addr_bitlen a)))"

definition SafeURL :: "unicode \<Rightarrow> string \<Rightarrow> bool" where
  "SafeURL u raw = (let s = TrimSpace u raw in
     \<not> ContainsAny s [CHR '' '', CHR 0x09, CHR 0x0d, CHR 0x0a, CHR 0x22, CHR 0x27, CHR ''<'', CHR ''>'']
     \<and> (HasPrefix (ToLower u s) ''http://'' \<or> HasPrefix (ToLower u s) ''https://''))"

definition MultipathEnabled :: "Config \<Rightarrow> bool" where
  "MultipathEnabled c = (case tr_Multipath (co_Transport c) of None \<Rightarrow> True | Some b \<Rightarrow> b)"

definition dns_IsEnabled :: "DNSConfig \<Rightarrow> bool" where
  "dns_IsEnabled d = (case dn_Enabled d of None \<Rightarrow> True | Some b \<Rightarrow> b)"

definition norm_domain :: "unicode \<Rightarrow> string \<Rightarrow> string" where
  "norm_domain u d = TrimSuffix (ToLower u (TrimSpace u d)) CHR ''.''"

definition EffectiveDomain :: "unicode \<Rightarrow> DNSConfig \<Rightarrow> string" where
  "EffectiveDomain u d = (if dn_Domain d \<noteq> [] then norm_domain u (dn_Domain d) else ''ntwire'')"

section \<open>The checks\<close>

definition require :: "bool \<Rightarrow> configError \<Rightarrow> (configError, unit) outcome" where
  "require b e = (if b then Ok () else Err e)"

subsection \<open>Issuers\<close>

definition norm_issuer :: "OIDCIssuerConfig \<Rightarrow> OIDCIssuerConfig" where
  "norm_issuer i = (if is_Scopes i = [] then i\<lparr>is_Scopes := [''openid'', ''email'', ''profile'']\<rparr> else i)"

fun check_issuers ::
  "string list \<Rightarrow> OIDCIssuerConfig list \<Rightarrow> (configError, OIDCIssuerConfig list) outcome" where
  "check_issuers seen [] = Ok []"
| "check_issuers seen (i # is) =
     (if is_Name i = [] \<or> is_Issuer i = [] \<or> is_ClientID i = [] then Err (AuthErr ''issuer incomplete'')
      else if is_DeprecatedClientSecret i \<noteq> [] then Err (AuthErr ''client_secret'')
      else if is_Name i \<in> set seen then Err (AuthErr ''duplicate issuer'')
      else obind (check_issuers (is_Name i # seen) is) (\<lambda>r. Ok (norm_issuer i # r)))"

subsection \<open>Network\<close>

definition check_cidr :: "string \<Rightarrow> (configError, ipPrefix) outcome" where
  "check_cidr raw =
     (case ParsePrefix (if raw = [] then ''100.64.0.0/16'' else raw) of
        None \<Rightarrow> Err (NetworkErr ''tunnel_cidr'')
      | Some p \<Rightarrow>
          if Is4In6 (prefix_Addr p) \<or> int (addr_bitlen (prefix_Addr p)) - int (prefix_Bits p) < 2
          then Err (NetworkErr ''tunnel_cidr too small'')
          else Ok (prefix_Masked p))"

definition normalizeDNSUpstream :: "unicode \<Rightarrow> string \<Rightarrow> (ipAddr \<times> int) option" where
  "normalizeDNSUpstream u raw0 =
     (let raw = TrimSpace u raw0 in
      if raw = [] then None
      else case ParseAddr raw of
        Some ip \<Rightarrow> Some (ip, 53)
      | None \<Rightarrow>
          (case SplitHostPort raw of
             None \<Rightarrow> None
           | Some (host, port) \<Rightarrow>
               (case ParseAddr host of
                  None \<Rightarrow> None
                | Some ip \<Rightarrow>
                    (case Atoi port of
                       None \<Rightarrow> None
                     | Some n \<Rightarrow> if n < 1 \<or> n > 65535 then None else Some (ip, n)))))"

definition prefixAddr :: "ipPrefix \<Rightarrow> ipAddr" where
  "prefixAddr p = addr_Next (prefix_Addr p)"

fun check_upstreams ::
  "unicode \<Rightarrow> ipAddr \<Rightarrow> (ipAddr \<times> int) list \<Rightarrow> string list \<Rightarrow> (configError, (ipAddr \<times> int) list) outcome" where
  "check_upstreams u serverIP upstreams [] = Ok upstreams"
| "check_upstreams u serverIP upstreams (raw # raws) =
     (case normalizeDNSUpstream u raw of
        None \<Rightarrow> Err (NetworkErr ''upstream'')
      | Some (ip, port) \<Rightarrow>
          if ip = serverIP then Err (NetworkErr ''upstream is the tunnel DNS listener'')
          else check_upstreams u serverIP
            (if (ip, port) \<in> set upstreams then upstreams else upstreams @ [(ip, port)]) raws)"

definition check_dns :: "unicode \<Rightarrow> ipPrefix \<Rightarrow> DNSConfig \<Rightarrow> (configError, (ipAddr \<times> int) list) outcome" where
  "check_dns u p d =
     (if dn_Domain d \<noteq> [] \<and> (norm_domain u (dn_Domain d) = [] \<or> ContainsAny (norm_domain u (dn_Domain d)) ''/: @'')
      then Err (NetworkErr ''dns.domain'')
      else if dn_ForwardingEnabled d then
        (if dn_Upstreams d = [] then Err (NetworkErr ''no upstreams'')
         else check_upstreams u (prefixAddr p) [] (dn_Upstreams d))
      else Ok [])"

definition check_force :: "Config \<Rightarrow> (configError, string) outcome" where
  "check_force c = (case ValidateTransportName (tr_Force (co_Transport c)) of
       None \<Rightarrow> Err (TransportErr ''force'')
     | Some force \<Rightarrow> if force \<noteq> [] \<and> \<not> MultipathEnabled c then Err (TransportErr ''force needs multipath'')
                     else Ok force)"

subsection \<open>Relay and MASQUE\<close>

fun check_endpoints :: "string list \<Rightarrow> (string \<times> string) list \<Rightarrow> (configError, unit) outcome" where
  "check_endpoints seen [] = Ok ()"
| "check_endpoints seen ((url, fp) # es) =
     (if url = [] then Err (RelayErr ''endpoint url'')
      else if url \<in> set seen then Err (RelayErr ''duplicate endpoint'')
      else check_endpoints (url # seen) es)"

definition check_relay :: "RelayConfig \<Rightarrow> string \<Rightarrow> (configError, unit) outcome" where
  "check_relay r advertised =
     (if rc_Enabled r then
        obind (require (rc_Name r \<noteq> [] \<and> rc_IdentityFile r \<noteq> []) (RelayErr ''name and identity_file'')) (\<lambda>_.
        obind (if rc_Endpoints r \<noteq> [] then
                 (if rc_URL r \<noteq> [] \<or> rc_Fingerprint r \<noteq> [] then Err (RelayErr ''endpoints and url'')
                  else check_endpoints [] (rc_Endpoints r))
               else require (rc_URL r \<noteq> []) (RelayErr ''url'')) (\<lambda>_.
        require (advertised = []) (RelayErr ''advertised_endpoint'')))
      else if rc_AdvertiseDirect r then Err (RelayErr ''advertise_direct'')
      else if rc_DirectClients r then Err (RelayErr ''direct_clients'')
      else Ok ())"

definition norm_relay :: "RelayConfig \<Rightarrow> RelayConfig" where
  "norm_relay r = r\<lparr>rc_ReconnectMin := (if rc_ReconnectMin r = 0 then second else rc_ReconnectMin r),
     rc_ReconnectMax := (if rc_ReconnectMax r = 0 then minute else rc_ReconnectMax r)\<rparr>"

definition masque_url_ok :: "config_env \<Rightarrow> string \<Rightarrow> bool" where
  "masque_url_ok env raw = (case ce_urlParse env raw of
       None \<Rightarrow> False
     | Some x \<Rightarrow> url_Scheme x = ''https'' \<and> url_Host x \<noteq> [] \<and> \<not> url_User x \<and> url_RawQuery x = []
         \<and> url_Fragment x = [])"

fun check_masque_urls :: "config_env \<Rightarrow> string list \<Rightarrow> (configError, unit) outcome" where
  "check_masque_urls env [] = Ok ()"
| "check_masque_urls env (raw # raws) =
     (if raw \<noteq> [] \<and> \<not> masque_url_ok env raw then Err (MasqueErr ''relay URL'') else check_masque_urls env raws)"

fun check_masque_domains :: "unicode \<Rightarrow> string list \<Rightarrow> (configError, unit) outcome" where
  "check_masque_domains u [] = Ok ()"
| "check_masque_domains u (d # ds) =
     (let domain = TrimSuffix (TrimSpace u d) CHR ''.'' in
      if domain = [] \<or> ContainsAny domain ''/:@'' \<or> ParseIP domain then Err (MasqueErr ''match_domains'')
      else check_masque_domains u ds)"

definition norm_masque :: "MASQUEConfig \<Rightarrow> MASQUEConfig" where
  "norm_masque m = (if mq_Enabled m \<and> mq_CertificateTTL m = 0 then m\<lparr>mq_CertificateTTL := 15 * minute\<rparr> else m)"

definition check_masque :: "config_env \<Rightarrow> MASQUEConfig \<Rightarrow> (configError, unit) outcome" where
  "check_masque env m =
     (if \<not> mq_Enabled m then Ok ()
      else
        obind (require (mq_Listen m \<noteq> [] \<and> mq_HTTP2URL m \<noteq> []) (MasqueErr ''listen and http2_url'')) (\<lambda>_.
        obind (check_masque_urls env [mq_HTTP2URL m, mq_HTTP3URL m]) (\<lambda>_.
        obind (require (mq_HTTP3URL m = []) (MasqueErr ''http3_url'')) (\<lambda>_.
        obind (require (mq_MatchDomains m \<noteq> []) (MasqueErr ''match_domains'')) (\<lambda>_.
        obind (check_masque_domains (ce_unicode env) (mq_MatchDomains m)) (\<lambda>_.
        obind (require (mq_ClientCAFile m \<noteq> [] \<and> mq_IssuerCertFile m \<noteq> [] \<and> mq_IssuerKeyFile m \<noteq> [])
          (MasqueErr ''files'')) (\<lambda>_.
        require (minute \<le> mq_CertificateTTL (norm_masque m) \<and> mq_CertificateTTL (norm_masque m) \<le> 24 * (60 * minute))
          (MasqueErr ''certificate_ttl''))))))))"

subsection \<open>Tunnels\<close>

fun check_filters :: "string \<Rightarrow> string list \<Rightarrow> (configError, unit) outcome" where
  "check_filters name [] = Ok ()"
| "check_filters name (cidr # cidrs) =
     (if \<not> ParseCIDR cidr then Err (TunnelErr name ''socks.filters'') else check_filters name cidrs)"

definition socks_upstream_ok :: "config_env \<Rightarrow> string \<Rightarrow> bool" where
  "socks_upstream_ok env raw = (case ce_urlParse env raw of
       None \<Rightarrow> False
     | Some x \<Rightarrow> (url_Scheme x = ''socks5'' \<or> url_Scheme x = ''socks5h'') \<and> url_Host x \<noteq> [])"

definition plain_transparent :: "socksConfig \<Rightarrow> bool" where
  "plain_transparent s \<longleftrightarrow> \<not> (so_OnlyLocal s \<or> so_Filters s \<noteq> [] \<or> so_DomainFilters s \<noteq> [] \<or> so_ASNFilters s \<noteq> []
     \<or> so_ASNUpdates s \<noteq> None \<or> so_ASNURL s \<noteq> [] \<or> so_ReverseFilters s \<or> so_AllowAll s \<or> so_AllowBind s
     \<or> so_DNSTimeout s \<noteq> 0 \<or> so_UDPIdleTimeout s \<noteq> 0)"

definition check_socks :: "config_env \<Rightarrow> string \<Rightarrow> socksConfig \<Rightarrow> (configError, unit) outcome" where
  "check_socks env name s =
     obind (check_filters name (so_Filters s)) (\<lambda>_.
     obind (require (\<not> so_DNSTimeout s < 0) (TunnelErr name ''socks.dns_timeout'')) (\<lambda>_.
     obind (require (\<not> so_UDPIdleTimeout s < 0) (TunnelErr name ''socks.udp_idle_timeout'')) (\<lambda>_.
     obind (require (so_Upstream s = [] \<or> socks_upstream_ok env (so_Upstream s))
       (TunnelErr name ''socks.upstream'')) (\<lambda>_.
     if so_Transparent s then
       (if so_Upstream s = [] then Err (TunnelErr name ''socks.transparent requires socks.upstream'')
        else require (plain_transparent s) (TunnelErr name ''socks.transparent with options''))
     else Ok ()))))"

definition check_target :: "config_env \<Rightarrow> tunnelEntry \<Rightarrow> (configError, tunnelEntry) outcome" where
  "check_target env t0 =
     (let t = (if tc_Protocol t0 = [] then t0\<lparr>tc_Protocol := ''tcp''\<rparr> else t0); name = tc_Name t in
      if tc_Protocol t \<noteq> ''tcp'' \<and> tc_Protocol t \<noteq> ''udp'' then Err (TunnelErr name ''protocol'')
      else case SplitHostPort (tc_Target t) of
        None \<Rightarrow> Err (TunnelErr name ''target'')
      | Some (host, port) \<Rightarrow>
          if host = [] \<or> port = [] then Err (TunnelErr name ''target'')
          else if LookupPort (ce_services env) (tc_Protocol t) port = None then Err (TunnelErr name ''target port'')
          else if tc_Protocol t = ''udp'' \<and> tc_UDPIdleTimeout t < 0 then Err (TunnelErr name ''udp_idle_timeout'')
          else Ok t)"

definition check_tunnel :: "config_env \<Rightarrow> tunnelEntry \<Rightarrow> (configError, tunnelEntry) outcome" where
  "check_tunnel env t =
     (let name = tc_Name t in
      obind (require (1 \<le> tc_VirtualPort t \<and> tc_VirtualPort t \<le> 65535) (TunnelErr name ''virtual_port'')) (\<lambda>_.
      obind (require (0 \<le> tc_LocalPort t \<and> tc_LocalPort t \<le> 65535) (TunnelErr name ''local_port'')) (\<lambda>_.
      obind (require (tc_LocalHost t = [] \<or> (case ParseAddr (tc_LocalHost t) of None \<Rightarrow> False | Some ip \<Rightarrow> IsLoopback ip))
        (TunnelErr name ''local_host'')) (\<lambda>_.
      obind (require (te_DocsURL t = [] \<or> SafeURL (ce_unicode env) (te_DocsURL t)) (TunnelErr name ''docs_url'')) (\<lambda>_.
      obind (if tc_Target t = socksTarget then
               (case tc_Socks t of
                  None \<Rightarrow> Err (TunnelErr name ''socks block missing'')
                | Some s \<Rightarrow> obind (check_socks env name s) (\<lambda>_. Ok t))
             else if tc_Socks t \<noteq> None then Err (TunnelErr name ''socks block'')
             else check_target env t) (\<lambda>t'.
      obind (require (case te_PortalURL t of None \<Rightarrow> True | Some x \<Rightarrow> x = [] \<or> SafeURL (ce_unicode env) x)
        (TunnelErr name ''portal.url'')) (\<lambda>_.
      Ok t')))))))"

fun check_tunnels :: "config_env \<Rightarrow> string list \<Rightarrow> tunnelEntry list \<Rightarrow> (configError, tunnelEntry list) outcome" where
  "check_tunnels env seen [] = Ok []"
| "check_tunnels env seen (t # ts) =
     (if tc_Name t = [] \<or> tc_Target t = [] then Err (TunnelErr (tc_Name t) ''name and target'')
      else if tc_Name t \<in> set seen then Err (TunnelErr (tc_Name t) ''duplicate'')
      else obind (check_tunnel env t) (\<lambda>t'.
           obind (check_tunnels env (tc_Name t # seen) ts) (\<lambda>r. Ok (t' # r))))"

subsection \<open>Administration, portal, policies\<close>

definition minAdminTokenLength :: nat where "minAdminTokenLength = 32"

definition check_portal :: "config_env \<Rightarrow> string \<Rightarrow> PortalConfig \<Rightarrow> (configError, PortalConfig) outcome" where
  "check_portal env token p0 =
     (if token \<noteq> [] \<and> length token < minAdminTokenLength then Err (AdminErr ''web_ui_token'')
      else let p = p0\<lparr>po_Template := ce_templateFile env (po_Template p0)\<rparr> in
        if \<not> po_Enabled p then Ok p
        else if po_Template p \<noteq> [] \<and> ce_templateFatal env (po_Template p) then Err (PortalErr ''template'')
        else if po_WebEnabled p then
          (if po_WebListen p = [] then Err (PortalErr ''web.listen missing'')
           else if SplitHostPort (po_WebListen p) = None then Err (PortalErr ''web.listen'')
           else Ok p)
        else Ok p)"

text \<open>The loop over the policy map, in the order \<open>ks\<close>.\<close>

fun check_policies ::
  "unicode \<Rightarrow> (string, destinationPolicy) fmap \<Rightarrow> string list \<Rightarrow> (configError, unit) outcome" where
  "check_policies u m [] = Ok ()"
| "check_policies u m (k # ks) =
     (if TrimSpace u k = [] then Err (PolicyErr k ''name'')
      else case fmlookup m k of
        None \<Rightarrow> check_policies u m ks
      | Some p \<Rightarrow> (case compilePolicy u p None of
          Inl e \<Rightarrow> Err (PolicyErr k ''policy'')
        | Inr c \<Rightarrow> check_policies u m ks))"

subsection \<open>Native peers\<close>

record peer_seen =
  seenPeerNames :: "string list"
  seenPeerKeys :: "string list"
  seenPeerIPs :: "ipAddr list"

fun check_peer_tunnels :: "string list \<Rightarrow> string list \<Rightarrow> (configError, unit) outcome" where
  "check_peer_tunnels known [] = Ok ()"
| "check_peer_tunnels known (t # ts) =
     (if t \<notin> set known then Err (PeerErr ''unknown tunnel'') else check_peer_tunnels known ts)"

definition check_peer ::
  "(string, destinationPolicy) fmap \<Rightarrow> string list \<Rightarrow> ipPrefix \<Rightarrow> peer_seen \<Rightarrow> NativeWireGuardPeer
     \<Rightarrow> (configError, nativePeer) outcome" where
  "check_peer policies tunnels pre seen p =
     (if nw_Name p = [] \<or> nw_PublicKey p = [] \<or> nw_TunnelIP p = [] then Err (PeerErr ''incomplete'')
      else if nw_Name p \<in> set (seenPeerNames seen) then Err (PeerErr ''duplicate name'')
      else case CanonicalPublicKey (nw_PublicKey p) of
        None \<Rightarrow> Err (PeerErr ''public_key'')
      | Some key \<Rightarrow>
          if key \<in> set (seenPeerKeys seen) then Err (PeerErr ''duplicate key'')
          else if \<not> ValidatePublicKey key then Err (PeerErr ''public_key'')
          else (case ParseAddr (nw_TunnelIP p) of
              None \<Rightarrow> Err (PeerErr ''tunnel_ip'')
            | Some ip \<Rightarrow>
                if \<not> prefix_Contains pre ip then Err (PeerErr ''tunnel_ip'')
                else if ip = prefixAddr pre then Err (PeerErr ''server address'')
                else if ip \<in> set (seenPeerIPs seen) then Err (PeerErr ''duplicate ip'')
                else if nw_DestinationPolicy p \<noteq> [] \<and> fmlookup policies (nw_DestinationPolicy p) = None
                then Err (PeerErr ''unknown policy'')
                else obind (check_peer_tunnels tunnels (nw_Tunnels p)) (\<lambda>_.
                  Ok \<lparr>np_Name = nw_Name p, np_PublicKey = key, np_TunnelIP = ip, np_Tunnels = nw_Tunnels p,
                      np_DestinationPolicy = nw_DestinationPolicy p\<rparr>)))"

fun check_peers ::
  "(string, destinationPolicy) fmap \<Rightarrow> string list \<Rightarrow> ipPrefix \<Rightarrow> peer_seen \<Rightarrow> NativeWireGuardPeer list
     \<Rightarrow> (configError, nativePeer list) outcome" where
  "check_peers policies tunnels pre seen [] = Ok []"
| "check_peers policies tunnels pre seen (p # ps) =
     obind (check_peer policies tunnels pre seen p) (\<lambda>n.
     obind (check_peers policies tunnels pre
         \<lparr>seenPeerNames = np_Name n # seenPeerNames seen, seenPeerKeys = np_PublicKey n # seenPeerKeys seen,
          seenPeerIPs = np_TunnelIP n # seenPeerIPs seen\<rparr> ps) (\<lambda>r.
     Ok (n # r)))"

fun check_tunnel_policies ::
  "(string, destinationPolicy) fmap \<Rightarrow> tunnelEntry list \<Rightarrow> (configError, unit) outcome" where
  "check_tunnel_policies policies [] = Ok ()"
| "check_tunnel_policies policies (t # ts) =
     (if tc_DestinationPolicy t \<noteq> [] \<and> fmlookup policies (tc_DestinationPolicy t) = None
      then Err (TunnelErr (tc_Name t) ''destination_policy'')
      else check_tunnel_policies policies ts)"

subsection \<open>MASQUE tunnels\<close>

definition containsDomain :: "unicode \<Rightarrow> string list \<Rightarrow> string \<Rightarrow> bool" where
  "containsDomain u domains want \<longleftrightarrow> list_ex (\<lambda>d. norm_domain u d = want) domains"

text \<open>The loop over the map from domains to tunnel names, in the order \<open>ks\<close>; \<open>known\<close> is filled in
  order, so that the last tunnel of a name would win.\<close>

fun check_masque_tunnels ::
  "unicode \<Rightarrow> MASQUEConfig \<Rightarrow> tunnelEntry list \<Rightarrow> string list \<Rightarrow> (configError, unit) outcome" where
  "check_masque_tunnels u m ts [] = Ok ()"
| "check_masque_tunnels u m ts (k # ks) =
     (if norm_domain u k \<noteq> k \<or> norm_domain u k = [] \<or> \<not> containsDomain u (mq_MatchDomains m) (norm_domain u k)
      then Err (MasqueErr ''tunnels domain'')
      else case fmlookup (mq_Tunnels m) k of
        None \<Rightarrow> check_masque_tunnels u m ts ks
      | Some name \<Rightarrow>
          (case find (\<lambda>t. tc_Name t = name) (rev ts) of
             None \<Rightarrow> Err (MasqueErr ''unknown tunnel'')
           | Some t \<Rightarrow> if tc_Target t = socksTarget then Err (MasqueErr ''unknown tunnel'')
                       else check_masque_tunnels u m ts ks))"

definition check_masque_map ::
  "unicode \<Rightarrow> MASQUEConfig \<Rightarrow> tunnelEntry list \<Rightarrow> string list \<Rightarrow> (configError, unit) outcome" where
  "check_masque_map u m ts ks =
     (if \<not> mq_Enabled m then Ok ()
      else if mq_Tunnels m = fmempty then Err (MasqueErr ''no tunnels'')
      else check_masque_tunnels u m ts ks)"

section \<open>ParseConfig\<close>

text \<open>The accepted configuration: the structure with its defaults and normal forms, and the values
  that the texts of the prefix, the upstreams and the peers denote.\<close>

record parsedConfig =
  pc_Config :: Config
  pc_Prefix :: ipPrefix
  pc_Upstreams :: "(ipAddr \<times> int) list"
  pc_Natives :: "nativePeer list"

definition default_str :: "string \<Rightarrow> string \<Rightarrow> string" where
  "default_str s d = (if s = [] then d else s)"

definition with_defaults :: "config_env \<Rightarrow> string \<Rightarrow> Config \<Rightarrow> Config" where
  "with_defaults env stateDir c = c\<lparr>
     co_StateDir := default_str (co_StateDir c) stateDir,
     co_Listen := \<lparr>li_HTTPS = default_str (li_HTTPS (co_Listen c)) '':8443'',
                   li_WireGuard = default_str (li_WireGuard (co_Listen c)) '':51820'',
                   li_Name = TrimSpace (ce_unicode env) (li_Name (co_Listen c))\<rparr>,
     co_Auth := (co_Auth c)\<lparr>au_SessionTTL := (if au_SessionTTL (co_Auth c) = 0 then 15 * minute
                                             else au_SessionTTL (co_Auth c))\<rparr>,
     co_Authorizer := (fst (co_Authorizer c), if snd (co_Authorizer c) = 0 then 5 * second
                                              else snd (co_Authorizer c))\<rparr>"

definition ParseConfig ::
  "config_env \<Rightarrow> string \<Rightarrow> string list \<Rightarrow> string list \<Rightarrow> Config \<Rightarrow> (configError, parsedConfig) outcome" where
  "ParseConfig env stateDir policyOrder masqueOrder raw =
     (let u = ce_unicode env; c = with_defaults env stateDir raw; nat = co_NativeWireGuard c in
      obind (require (au_AuthorizedKeysDir (co_Auth c) \<noteq> [] \<or> au_Issuers (co_Auth c) \<noteq> [] \<or> nc_Enabled nat)
        (AuthErr ''no authentication'')) (\<lambda>_.
      obind (check_issuers [] (au_Issuers (co_Auth c))) (\<lambda>issuers.
      obind (check_cidr (ne_TunnelCIDR (co_Network c))) (\<lambda>p.
      obind (check_dns u p (ne_DNS (co_Network c))) (\<lambda>upstreams.
      obind (check_force c) (\<lambda>force.
      obind (check_relay (co_Relay c) (ne_AdvertisedEndpoint (co_Network c))) (\<lambda>_.
      obind (check_masque env (co_MASQUE c)) (\<lambda>_.
      obind (check_tunnels env [] (co_Tunnels c)) (\<lambda>tunnels.
      obind (check_portal env (co_WebUIToken c) (co_Portal c)) (\<lambda>portal.
      obind (check_policies u (co_DestinationPolicies c) policyOrder) (\<lambda>_.
      obind (require (nc_Enabled nat \<or> nc_Peers nat = []) (PeerErr ''peers require enabled'')) (\<lambda>_.
      obind (check_peers (co_DestinationPolicies c) (map tc_Name tunnels) p
        \<lparr>seenPeerNames = [], seenPeerKeys = [], seenPeerIPs = []\<rparr> (nc_Peers nat)) (\<lambda>natives.
      obind (check_tunnel_policies (co_DestinationPolicies c) tunnels) (\<lambda>_.
      obind (check_masque_map u (norm_masque (co_MASQUE c)) tunnels masqueOrder) (\<lambda>_.
      Ok \<lparr>pc_Config = c\<lparr>co_Auth := (co_Auth c)\<lparr>au_Issuers := issuers\<rparr>,
                          co_Transport := (co_Transport c)\<lparr>tr_Force := force\<rparr>,
                          co_Relay := norm_relay (co_Relay c), co_MASQUE := norm_masque (co_MASQUE c),
                          co_Portal := portal, co_Tunnels := tunnels\<rparr>,
          pc_Prefix = p, pc_Upstreams = upstreams, pc_Natives = natives\<rparr>)))))))))))))))"

text \<open>The configuration that the control plane and the data plane work with.\<close>

definition server_config :: "parsedConfig \<Rightarrow> serverConfig" where
  "server_config pc = (let c = pc_Config pc in
     \<lparr>cf_Tunnels = map tunnelConfig.truncate (co_Tunnels c), cf_SessionTTL = au_SessionTTL (co_Auth c),
      cf_MaxSessionsPerKey = au_MaxSessionsPerKey (co_Auth c), cf_Authorizer = fst (co_Authorizer c),
      cf_NativeEnabled = nc_Enabled (co_NativeWireGuard c), cf_Natives = pc_Natives pc,
      cf_Issuers = map is_Name (au_Issuers (co_Auth c)), cf_TunnelCIDR = pc_Prefix pc\<rparr>)"

section \<open>Valid configurations\<close>

text \<open>Each check, as a condition on its input and the normal form of what it accepts.\<close>

lemma require_iff [simp]: "require b e = Ok x \<longleftrightarrow> b" "require b e \<noteq> Panic"
  by (simp_all add: require_def)

lemmas check_simps = obind_Ok_iff obind_Panic_iff

definition issuer_valid :: "OIDCIssuerConfig \<Rightarrow> bool" where
  "issuer_valid i \<longleftrightarrow> is_Name i \<noteq> [] \<and> is_Issuer i \<noteq> [] \<and> is_ClientID i \<noteq> [] \<and> is_DeprecatedClientSecret i = []"

lemma check_issuers_iff:
  "check_issuers seen is = Ok r \<longleftrightarrow> list_all issuer_valid is \<and> distinct (map is_Name is)
     \<and> set (map is_Name is) \<inter> set seen = {} \<and> r = map norm_issuer is"
  by (induction "is" arbitrary: seen r) (auto simp: check_simps issuer_valid_def)

lemma check_issuers_total: "check_issuers seen is \<noteq> Panic"
  by (induction "is" arbitrary: seen) (auto simp: check_simps)

definition cidr_text :: "string \<Rightarrow> string" where
  "cidr_text raw = (if raw = [] then ''100.64.0.0/16'' else raw)"

definition cidr_valid :: "string \<Rightarrow> bool" where
  "cidr_valid raw \<longleftrightarrow> (\<exists>p. ParsePrefix (cidr_text raw) = Some p \<and> \<not> Is4In6 (prefix_Addr p)
     \<and> prefix_Bits p + 2 \<le> addr_bitlen (prefix_Addr p))"

lemma check_cidr_iff:
  "check_cidr raw = Ok p \<longleftrightarrow> cidr_valid raw \<and> p = prefix_Masked (the (ParsePrefix (cidr_text raw)))"
  by (auto simp: check_cidr_def cidr_valid_def cidr_text_def split: option.split)

lemma check_cidr_total: "check_cidr raw \<noteq> Panic"
  by (simp add: check_cidr_def split: option.split)

definition upstream_valid :: "unicode \<Rightarrow> ipAddr \<Rightarrow> string \<Rightarrow> bool" where
  "upstream_valid u serverIP raw \<longleftrightarrow> (\<exists>ip port. normalizeDNSUpstream u raw = Some (ip, port) \<and> ip \<noteq> serverIP)"

text \<open>The distinct elements of a list in the order of their first occurrence.\<close>

definition first_distinct :: "'x list \<Rightarrow> 'x list" where
  "first_distinct xs = rev (remdups (rev xs))"

lemma first_distinct_snoc:
  "first_distinct (xs @ [x]) = (if x \<in> set xs then first_distinct xs else first_distinct xs @ [x])"
  by (simp add: first_distinct_def)

lemma set_first_distinct [simp]: "set (first_distinct xs) = set xs" and
  distinct_first_distinct [simp]: "distinct (first_distinct xs)"
  by (simp_all add: first_distinct_def)

lemma check_upstreams_iff:
  "check_upstreams u serverIP (first_distinct xs) raws = Ok r \<longleftrightarrow> list_all (upstream_valid u serverIP) raws
     \<and> r = first_distinct (xs @ map (\<lambda>raw. the (normalizeDNSUpstream u raw)) raws)"
proof (induction raws arbitrary: xs)
  case (Cons raw raws)
  show ?case
  proof (cases "normalizeDNSUpstream u raw")
    case (Some a)
    obtain ip port where "a = (ip, port)" by fastforce
    with Some Cons.IH [of "xs @ [(ip, port)]"] show ?thesis
      by (auto simp: upstream_valid_def first_distinct_snoc)
  qed (simp add: upstream_valid_def)
qed auto

lemma check_upstreams_total: "check_upstreams u serverIP acc raws \<noteq> Panic"
  by (induction raws arbitrary: acc) (auto split: option.split)

definition dns_valid :: "unicode \<Rightarrow> ipAddr \<Rightarrow> DNSConfig \<Rightarrow> bool" where
  "dns_valid u serverIP d \<longleftrightarrow>
     (dn_Domain d \<noteq> [] \<longrightarrow> norm_domain u (dn_Domain d) \<noteq> [] \<and> \<not> ContainsAny (norm_domain u (dn_Domain d)) ''/: @'')
     \<and> (dn_ForwardingEnabled d \<longrightarrow> dn_Upstreams d \<noteq> [] \<and> list_all (upstream_valid u serverIP) (dn_Upstreams d))"

definition norm_upstreams :: "unicode \<Rightarrow> DNSConfig \<Rightarrow> (ipAddr \<times> int) list" where
  "norm_upstreams u d = (if dn_ForwardingEnabled d
     then first_distinct (map (\<lambda>raw. the (normalizeDNSUpstream u raw)) (dn_Upstreams d)) else [])"

lemma check_dns_iff: "check_dns u p d = Ok r \<longleftrightarrow> dns_valid u (prefixAddr p) d \<and> r = norm_upstreams u d"
  using check_upstreams_iff [of u "prefixAddr p" "[]" "dn_Upstreams d" r]
  by (auto simp: check_dns_def dns_valid_def norm_upstreams_def first_distinct_def)

lemma check_dns_total: "check_dns u p d \<noteq> Panic"
  by (simp add: check_dns_def check_upstreams_total)

definition force_valid :: "Config \<Rightarrow> bool" where
  "force_valid c \<longleftrightarrow> (\<exists>f. ValidateTransportName (tr_Force (co_Transport c)) = Some f \<and> (f = [] \<or> MultipathEnabled c))"

lemma check_force_iff:
  "check_force c = Ok f \<longleftrightarrow> force_valid c \<and> f = the (ValidateTransportName (tr_Force (co_Transport c)))"
  by (auto simp: check_force_def force_valid_def split: option.split)

lemma check_force_total: "check_force c \<noteq> Panic"
  by (simp add: check_force_def split: option.split)

lemma check_endpoints_iff:
  "check_endpoints seen es = Ok x \<longleftrightarrow> [] \<notin> fst ` set es \<and> distinct (map fst es) \<and> fst ` set es \<inter> set seen = {}"
  by (induction seen es rule: check_endpoints.induct) (auto split: if_splits)

lemma check_endpoints_total: "check_endpoints seen es \<noteq> Panic"
  by (induction seen es rule: check_endpoints.induct) auto

definition relay_valid :: "RelayConfig \<Rightarrow> string \<Rightarrow> bool" where
  "relay_valid r advertised \<longleftrightarrow>
     (if rc_Enabled r
      then rc_Name r \<noteq> [] \<and> rc_IdentityFile r \<noteq> [] \<and> advertised = []
        \<and> (if rc_Endpoints r = [] then rc_URL r \<noteq> []
           else rc_URL r = [] \<and> rc_Fingerprint r = [] \<and> [] \<notin> fst ` set (rc_Endpoints r)
             \<and> distinct (map fst (rc_Endpoints r)))
      else \<not> rc_AdvertiseDirect r \<and> \<not> rc_DirectClients r)"

lemma check_relay_iff: "check_relay r a = Ok x \<longleftrightarrow> relay_valid r a"
  by (auto simp: check_relay_def relay_valid_def check_simps check_endpoints_iff)

lemma check_relay_total: "check_relay r a \<noteq> Panic"
  by (auto simp: check_relay_def check_simps check_endpoints_total)

definition masque_valid :: "config_env \<Rightarrow> MASQUEConfig \<Rightarrow> bool" where
  "masque_valid env m \<longleftrightarrow> (mq_Enabled m \<longrightarrow>
     mq_Listen m \<noteq> [] \<and> mq_HTTP2URL m \<noteq> [] \<and> masque_url_ok env (mq_HTTP2URL m) \<and> mq_HTTP3URL m = []
     \<and> mq_MatchDomains m \<noteq> []
     \<and> list_all (\<lambda>d. let x = TrimSuffix (TrimSpace (ce_unicode env) d) CHR ''.''
          in x \<noteq> [] \<and> \<not> ContainsAny x ''/:@'' \<and> \<not> ParseIP x) (mq_MatchDomains m)
     \<and> mq_ClientCAFile m \<noteq> [] \<and> mq_IssuerCertFile m \<noteq> [] \<and> mq_IssuerKeyFile m \<noteq> []
     \<and> mq_CertificateTTL (norm_masque m) \<in> {minute .. 24 * (60 * minute)})"

lemma check_masque_domains_iff:
  "check_masque_domains u ds = Ok x \<longleftrightarrow> list_all (\<lambda>d. let y = TrimSuffix (TrimSpace u d) CHR ''.''
     in y \<noteq> [] \<and> \<not> ContainsAny y ''/:@'' \<and> \<not> ParseIP y) ds"
  by (induction ds) (auto simp: Let_def)

lemma check_masque_domains_total: "check_masque_domains u ds \<noteq> Panic"
  by (induction ds) (auto simp: Let_def)

lemma check_masque_iff: "check_masque env m = Ok x \<longleftrightarrow> masque_valid env m"
  by (auto simp: check_masque_def masque_valid_def check_simps check_masque_domains_iff)

lemma check_masque_total: "check_masque env m \<noteq> Panic"
  by (auto simp: check_masque_def check_simps check_masque_domains_total)

definition socks_valid :: "config_env \<Rightarrow> socksConfig \<Rightarrow> bool" where
  "socks_valid env s \<longleftrightarrow> list_all ParseCIDR (so_Filters s) \<and> 0 \<le> so_DNSTimeout s \<and> 0 \<le> so_UDPIdleTimeout s
     \<and> (so_Upstream s = [] \<or> socks_upstream_ok env (so_Upstream s))
     \<and> (so_Transparent s \<longrightarrow> so_Upstream s \<noteq> [] \<and> plain_transparent s)"

lemma check_filters_iff: "check_filters name cs = Ok x \<longleftrightarrow> list_all ParseCIDR cs"
  by (induction cs) auto

lemma check_filters_total: "check_filters name cs \<noteq> Panic"
  by (induction cs) auto

lemma check_socks_iff: "check_socks env name s = Ok x \<longleftrightarrow> socks_valid env s"
  by (auto simp: check_socks_def socks_valid_def check_simps check_filters_iff)

lemma check_socks_total: "check_socks env name s \<noteq> Panic"
  by (auto simp: check_socks_def check_simps check_filters_total)

definition norm_protocol :: "string \<Rightarrow> string" where
  "norm_protocol p = (if p = [] then ''tcp'' else p)"

definition target_valid :: "config_env \<Rightarrow> tunnelEntry \<Rightarrow> bool" where
  "target_valid env t \<longleftrightarrow> norm_protocol (tc_Protocol t) \<in> {''tcp'', ''udp''}
     \<and> (\<exists>host port. SplitHostPort (tc_Target t) = Some (host, port) \<and> host \<noteq> [] \<and> port \<noteq> []
          \<and> LookupPort (ce_services env) (norm_protocol (tc_Protocol t)) port \<noteq> None)
     \<and> (tc_Protocol t = ''udp'' \<longrightarrow> 0 \<le> tc_UDPIdleTimeout t)"

lemma check_target_iff:
  "check_target env t = Ok t' \<longleftrightarrow> target_valid env t \<and> t' = t\<lparr>tc_Protocol := norm_protocol (tc_Protocol t)\<rparr>"
proof (cases "tc_Protocol t = []")
  case True
  then show ?thesis
    by (auto simp: check_target_def target_valid_def norm_protocol_def Let_def split: option.splits prod.splits if_splits)
next
  case False
  then show ?thesis
    by (auto simp: check_target_def target_valid_def norm_protocol_def Let_def split: option.splits prod.splits)
qed

lemma check_target_total: "check_target env t \<noteq> Panic"
  by (simp add: check_target_def Let_def split: option.split prod.split)

definition tunnel_valid :: "config_env \<Rightarrow> tunnelEntry \<Rightarrow> bool" where
  "tunnel_valid env t \<longleftrightarrow> tc_Name t \<noteq> [] \<and> tc_Target t \<noteq> []
     \<and> tc_VirtualPort t \<in> {1..65535} \<and> tc_LocalPort t \<in> {0..65535}
     \<and> (tc_LocalHost t = [] \<or> (\<exists>ip. ParseAddr (tc_LocalHost t) = Some ip \<and> IsLoopback ip))
     \<and> (te_DocsURL t = [] \<or> SafeURL (ce_unicode env) (te_DocsURL t))
     \<and> (if tc_Target t = socksTarget then \<exists>s. tc_Socks t = Some s \<and> socks_valid env s
        else tc_Socks t = None \<and> target_valid env t)
     \<and> (\<forall>x. te_PortalURL t = Some x \<longrightarrow> x = [] \<or> SafeURL (ce_unicode env) x)"

definition norm_tunnel :: "tunnelEntry \<Rightarrow> tunnelEntry" where
  "norm_tunnel t = (if tc_Target t = socksTarget then t
     else t\<lparr>tc_Protocol := norm_protocol (tc_Protocol t)\<rparr>)"

lemma norm_tunnel_fields [simp]:
  "tc_Name (norm_tunnel t) = tc_Name t" "tc_Target (norm_tunnel t) = tc_Target t"
  "tc_DestinationPolicy (norm_tunnel t) = tc_DestinationPolicy t" "tc_Socks (norm_tunnel t) = tc_Socks t"
  "tc_VirtualPort (norm_tunnel t) = tc_VirtualPort t"
  by (simp_all add: norm_tunnel_def)

lemma check_tunnel_iff:
  "tc_Name t \<noteq> [] \<Longrightarrow> tc_Target t \<noteq> [] \<Longrightarrow>
     check_tunnel env t = Ok t' \<longleftrightarrow> tunnel_valid env t \<and> t' = norm_tunnel t"
  by (cases "tc_Target t = socksTarget")
    (auto simp: check_tunnel_def tunnel_valid_def norm_tunnel_def check_simps check_socks_iff check_target_iff
      Let_def split: option.splits)

lemma check_tunnel_total: "check_tunnel env t \<noteq> Panic"
  by (auto simp: check_tunnel_def check_simps check_socks_total check_target_total Let_def split: option.splits if_splits)

lemma check_tunnels_iff:
  "check_tunnels env seen ts = Ok r \<longleftrightarrow> list_all (tunnel_valid env) ts \<and> distinct (map tc_Name ts)
     \<and> set (map tc_Name ts) \<inter> set seen = {} \<and> r = map norm_tunnel ts"
proof (induction ts arbitrary: seen r)
  case (Cons t ts)
  show ?case
  proof (cases "tc_Name t = [] \<or> tc_Target t = []")
    case False
    with Cons.IH [of "tc_Name t # seen"] show ?thesis by (auto simp: check_simps check_tunnel_iff)
  qed (auto simp: tunnel_valid_def)
qed auto

lemma check_tunnels_total: "check_tunnels env seen ts \<noteq> Panic"
  by (induction ts arbitrary: seen) (auto simp: check_simps check_tunnel_total)

definition portal_valid :: "config_env \<Rightarrow> string \<Rightarrow> PortalConfig \<Rightarrow> bool" where
  "portal_valid env token p \<longleftrightarrow> (token = [] \<or> minAdminTokenLength \<le> length token)
     \<and> (po_Enabled p \<longrightarrow>
          (let t = ce_templateFile env (po_Template p) in t = [] \<or> \<not> ce_templateFatal env t)
          \<and> (po_WebEnabled p \<longrightarrow> po_WebListen p \<noteq> [] \<and> SplitHostPort (po_WebListen p) \<noteq> None))"

lemma check_portal_iff:
  "check_portal env token p = Ok r \<longleftrightarrow>
     portal_valid env token p \<and> r = p\<lparr>po_Template := ce_templateFile env (po_Template p)\<rparr>"
  by (auto simp: check_portal_def portal_valid_def Let_def)

lemma check_portal_total: "check_portal env token p \<noteq> Panic"
  by (simp add: check_portal_def Let_def)

definition policies_valid :: "unicode \<Rightarrow> (string, destinationPolicy) fmap \<Rightarrow> bool" where
  "policies_valid u m \<longleftrightarrow> (\<forall>k p. fmlookup m k = Some p \<longrightarrow> TrimSpace u k \<noteq> [] \<and> (\<exists>c. compilePolicy u p None = Inr c))"

lemma check_policies_iff:
  "check_policies u m ks = Ok x \<longleftrightarrow>
     (\<forall>k \<in> set ks. TrimSpace u k \<noteq> [] \<and> (\<forall>p. fmlookup m k = Some p \<longrightarrow> (\<exists>c. compilePolicy u p None = Inr c)))"
  by (induction ks) (auto split: option.splits sum.splits)

lemma check_policies_order:
  "range_order ks m \<Longrightarrow> check_policies u m ks = Ok x \<longleftrightarrow> policies_valid u m"
  by (auto simp: check_policies_iff range_order_iff policies_valid_def)

lemma check_policies_total: "check_policies u m ks \<noteq> Panic"
  by (induction ks) (auto split: option.splits sum.splits)

text \<open>A peer that is valid by itself, and its normal form.\<close>

definition norm_peer :: "NativeWireGuardPeer \<Rightarrow> nativePeer" where
  "norm_peer p = \<lparr>np_Name = nw_Name p, np_PublicKey = the (CanonicalPublicKey (nw_PublicKey p)),
     np_TunnelIP = the (ParseAddr (nw_TunnelIP p)), np_Tunnels = nw_Tunnels p,
     np_DestinationPolicy = nw_DestinationPolicy p\<rparr>"

definition peer_valid ::
  "(string, destinationPolicy) fmap \<Rightarrow> string list \<Rightarrow> ipPrefix \<Rightarrow> NativeWireGuardPeer \<Rightarrow> bool" where
  "peer_valid pols tns pre p \<longleftrightarrow> nw_Name p \<noteq> [] \<and> nw_PublicKey p \<noteq> [] \<and> nw_TunnelIP p \<noteq> []
     \<and> CanonicalPublicKey (nw_PublicKey p) \<noteq> None
     \<and> (\<exists>ip. ParseAddr (nw_TunnelIP p) = Some ip \<and> prefix_Contains pre ip \<and> ip \<noteq> prefixAddr pre)
     \<and> (nw_DestinationPolicy p = [] \<or> fmlookup pols (nw_DestinationPolicy p) \<noteq> None)
     \<and> set (nw_Tunnels p) \<subseteq> set tns"

definition not_seen :: "peer_seen \<Rightarrow> nativePeer \<Rightarrow> bool" where
  "not_seen seen n \<longleftrightarrow> np_Name n \<notin> set (seenPeerNames seen) \<and> np_PublicKey n \<notin> set (seenPeerKeys seen)
     \<and> np_TunnelIP n \<notin> set (seenPeerIPs seen)"

lemma check_peer_tunnels_iff: "check_peer_tunnels known ts = Ok x \<longleftrightarrow> set ts \<subseteq> set known"
  by (induction ts) auto

lemma check_peer_tunnels_total: "check_peer_tunnels known ts \<noteq> Panic"
  by (induction ts) auto

lemma canonical_validates: "CanonicalPublicKey k = Some key \<Longrightarrow> ValidatePublicKey key"
  using canonical_idem [of k key] by (auto simp: ValidatePublicKey_def CanonicalPublicKey_def)

lemma check_peer_iff:
  "check_peer pols tns pre seen p = Ok n \<longleftrightarrow> peer_valid pols tns pre p \<and> n = norm_peer p \<and> not_seen seen n"
  by (auto simp: check_peer_def peer_valid_def norm_peer_def not_seen_def check_simps check_peer_tunnels_iff
      canonical_validates split: option.splits if_splits)

lemma check_peer_total: "check_peer pols tns pre seen p \<noteq> Panic"
  by (simp add: check_peer_def check_simps check_peer_tunnels_total split: option.split)

definition peers_valid ::
  "(string, destinationPolicy) fmap \<Rightarrow> string list \<Rightarrow> ipPrefix \<Rightarrow> NativeWireGuardPeer list \<Rightarrow> bool" where
  "peers_valid pols tns pre ps \<longleftrightarrow> list_all (peer_valid pols tns pre) ps
     \<and> distinct (map (\<lambda>p. np_Name (norm_peer p)) ps) \<and> distinct (map (\<lambda>p. np_PublicKey (norm_peer p)) ps)
     \<and> distinct (map (\<lambda>p. np_TunnelIP (norm_peer p)) ps)"

lemma notin_image: "x \<notin> f ` S \<longleftrightarrow> (\<forall>q \<in> S. f q \<noteq> x)"
  by auto

lemma check_peers_seen:
  "check_peers pols tns pre seen ps = Ok r \<longleftrightarrow>
     peers_valid pols tns pre ps \<and> list_all (not_seen seen) (map norm_peer ps) \<and> r = map norm_peer ps"
proof (induction ps arbitrary: seen r)
  case (Cons p ps)
  let ?seen = "\<lparr>seenPeerNames = np_Name (norm_peer p) # seenPeerNames seen,
    seenPeerKeys = np_PublicKey (norm_peer p) # seenPeerKeys seen,
    seenPeerIPs = np_TunnelIP (norm_peer p) # seenPeerIPs seen\<rparr>"
  have "list_all (not_seen ?seen) (map norm_peer ps) \<longleftrightarrow> list_all (not_seen seen) (map norm_peer ps)
      \<and> np_Name (norm_peer p) \<notin> (\<lambda>q. np_Name (norm_peer q)) ` set ps
      \<and> np_PublicKey (norm_peer p) \<notin> (\<lambda>q. np_PublicKey (norm_peer q)) ` set ps
      \<and> np_TunnelIP (norm_peer p) \<notin> (\<lambda>q. np_TunnelIP (norm_peer q)) ` set ps"
    unfolding notin_image by (auto simp: list_all_iff not_seen_def)
  then show ?case by (auto simp: check_simps check_peer_iff Cons.IH peers_valid_def)
qed (auto simp: peers_valid_def)

lemma check_peers_iff:
  "check_peers pols tns pre \<lparr>seenPeerNames = [], seenPeerKeys = [], seenPeerIPs = []\<rparr> ps = Ok r \<longleftrightarrow>
     peers_valid pols tns pre ps \<and> r = map norm_peer ps"
  by (auto simp: check_peers_seen list_all_iff not_seen_def)

lemma check_peers_total: "check_peers pols tns pre seen ps \<noteq> Panic"
  by (induction ps arbitrary: seen) (auto simp: check_simps check_peer_total)

lemma check_tunnel_policies_iff:
  "check_tunnel_policies pols ts = Ok x \<longleftrightarrow>
     list_all (\<lambda>t. tc_DestinationPolicy t = [] \<or> fmlookup pols (tc_DestinationPolicy t) \<noteq> None) ts"
  by (induction ts) auto

lemma check_tunnel_policies_total: "check_tunnel_policies pols ts \<noteq> Panic"
  by (induction ts) auto

definition masque_map_valid :: "unicode \<Rightarrow> MASQUEConfig \<Rightarrow> tunnelEntry list \<Rightarrow> bool" where
  "masque_map_valid u m ts \<longleftrightarrow> (mq_Enabled m \<longrightarrow> mq_Tunnels m \<noteq> fmempty
     \<and> (\<forall>k name. fmlookup (mq_Tunnels m) k = Some name \<longrightarrow> norm_domain u k = k \<and> k \<noteq> []
          \<and> containsDomain u (mq_MatchDomains m) k
          \<and> (\<exists>t \<in> set ts. tc_Name t = name \<and> tc_Target t \<noteq> socksTarget)))"

lemma find_tunnel_named:
  assumes "distinct (map tc_Name ts)"
  shows "find (\<lambda>t. tc_Name t = name) (rev ts) = Some t \<longleftrightarrow> t \<in> set ts \<and> tc_Name t = name"
proof
  show "find (\<lambda>t. tc_Name t = name) (rev ts) = Some t \<Longrightarrow> t \<in> set ts \<and> tc_Name t = name"
    by (metis (mono_tags, lifting) find_Some_iff nth_mem set_rev)
  assume t: "t \<in> set ts \<and> tc_Name t = name"
  then obtain t' where "find (\<lambda>t. tc_Name t = name) (rev ts) = Some t'"
    by (cases "find (\<lambda>t. tc_Name t = name) (rev ts)") (auto simp: find_None_iff)
  moreover from this have "t' \<in> set ts" "tc_Name t' = name"
    by (metis (mono_tags, lifting) find_Some_iff nth_mem set_rev)+
  ultimately show "find (\<lambda>t. tc_Name t = name) (rev ts) = Some t"
    using t assms by (metis distinct_map inj_on_eq_iff)
qed

lemma named_ex:
  assumes "distinct (map tc_Name ts)"
  shows "(\<exists>t \<in> set ts. tc_Name t = name \<and> P t) \<longleftrightarrow>
    (case find (\<lambda>t. tc_Name t = name) (rev ts) of None \<Rightarrow> False | Some t \<Rightarrow> P t)"
proof (cases "find (\<lambda>t. tc_Name t = name) (rev ts)")
  case None
  then have "\<forall>t \<in> set ts. tc_Name t \<noteq> name" by (simp add: find_None_iff)
  with None show ?thesis by auto
next
  case (Some t)
  have "t' \<in> set ts \<and> tc_Name t' = name \<longleftrightarrow> t' = t" for t'
    using find_tunnel_named [OF assms, of name t'] Some by auto
  then show ?thesis unfolding Some by simp metis
qed

lemma check_masque_tunnels_iff:
  assumes "distinct (map tc_Name ts)"
  shows "check_masque_tunnels u m ts ks = Ok x \<longleftrightarrow>
    (\<forall>k \<in> set ks. norm_domain u k = k \<and> k \<noteq> [] \<and> containsDomain u (mq_MatchDomains m) k
       \<and> (\<forall>name. fmlookup (mq_Tunnels m) k = Some name \<longrightarrow> (\<exists>t \<in> set ts. tc_Name t = name \<and> tc_Target t \<noteq> socksTarget)))"
  unfolding named_ex [OF assms] by (induction ks) (auto split: option.splits)

lemma check_masque_map_iff:
  assumes "distinct (map tc_Name ts)" "range_order ks (mq_Tunnels m)"
  shows "check_masque_map u m ts ks = Ok x \<longleftrightarrow> masque_map_valid u m ts"
  using assms(2) by (auto simp: check_masque_map_def masque_map_valid_def check_masque_tunnels_iff [OF assms(1)] range_order_iff)

lemma check_masque_map_total: "check_masque_map u m ts ks \<noteq> Panic"
proof -
  have "check_masque_tunnels u m ts ks \<noteq> Panic" by (induction ks) (auto split: option.splits)
  then show ?thesis by (simp add: check_masque_map_def)
qed

section \<open>Properties\<close>

text \<open>The prefix a text denotes, a valid configuration, and its normal form.\<close>

definition tunnel_prefix :: "Config \<Rightarrow> ipPrefix" where
  "tunnel_prefix c = prefix_Masked (the (ParsePrefix (cidr_text (ne_TunnelCIDR (co_Network c)))))"

definition config_valid :: "config_env \<Rightarrow> Config \<Rightarrow> bool" where
  "config_valid env c \<longleftrightarrow>
     (au_AuthorizedKeysDir (co_Auth c) \<noteq> [] \<or> au_Issuers (co_Auth c) \<noteq> [] \<or> nc_Enabled (co_NativeWireGuard c))
     \<and> list_all issuer_valid (au_Issuers (co_Auth c)) \<and> distinct (map is_Name (au_Issuers (co_Auth c)))
     \<and> cidr_valid (ne_TunnelCIDR (co_Network c))
     \<and> dns_valid (ce_unicode env) (prefixAddr (tunnel_prefix c)) (ne_DNS (co_Network c))
     \<and> force_valid c
     \<and> relay_valid (co_Relay c) (ne_AdvertisedEndpoint (co_Network c))
     \<and> masque_valid env (co_MASQUE c)
     \<and> list_all (tunnel_valid env) (co_Tunnels c) \<and> distinct (map tc_Name (co_Tunnels c))
     \<and> portal_valid env (co_WebUIToken c) (co_Portal c)
     \<and> policies_valid (ce_unicode env) (co_DestinationPolicies c)
     \<and> (nc_Enabled (co_NativeWireGuard c) \<or> nc_Peers (co_NativeWireGuard c) = [])
     \<and> peers_valid (co_DestinationPolicies c) (map tc_Name (co_Tunnels c)) (tunnel_prefix c)
         (nc_Peers (co_NativeWireGuard c))
     \<and> list_all (\<lambda>t. tc_DestinationPolicy t = [] \<or> fmlookup (co_DestinationPolicies c) (tc_DestinationPolicy t) \<noteq> None)
         (co_Tunnels c)
     \<and> masque_map_valid (ce_unicode env) (co_MASQUE c) (co_Tunnels c)"

definition config_normal :: "config_env \<Rightarrow> string \<Rightarrow> Config \<Rightarrow> parsedConfig" where
  "config_normal env stateDir raw =
     (let c = with_defaults env stateDir raw in
      \<lparr>pc_Config = c\<lparr>co_Auth := (co_Auth c)\<lparr>au_Issuers := map norm_issuer (au_Issuers (co_Auth c))\<rparr>,
          co_Transport := (co_Transport c)\<lparr>tr_Force := the (ValidateTransportName (tr_Force (co_Transport c)))\<rparr>,
          co_Relay := norm_relay (co_Relay c), co_MASQUE := norm_masque (co_MASQUE c),
          co_Portal := (co_Portal c)\<lparr>po_Template := ce_templateFile env (po_Template (co_Portal c))\<rparr>,
          co_Tunnels := map norm_tunnel (co_Tunnels c)\<rparr>,
       pc_Prefix = tunnel_prefix c, pc_Upstreams = norm_upstreams (ce_unicode env) (ne_DNS (co_Network c)),
       pc_Natives = map norm_peer (nc_Peers (co_NativeWireGuard c))\<rparr>)"

lemma with_defaults_simps [simp]:
  "co_Network (with_defaults env sd c) = co_Network c" "co_Transport (with_defaults env sd c) = co_Transport c"
  "co_Relay (with_defaults env sd c) = co_Relay c" "co_MASQUE (with_defaults env sd c) = co_MASQUE c"
  "co_Tunnels (with_defaults env sd c) = co_Tunnels c" "co_Portal (with_defaults env sd c) = co_Portal c"
  "co_WebUIToken (with_defaults env sd c) = co_WebUIToken c"
  "co_DestinationPolicies (with_defaults env sd c) = co_DestinationPolicies c"
  "co_NativeWireGuard (with_defaults env sd c) = co_NativeWireGuard c"
  "au_AuthorizedKeysDir (co_Auth (with_defaults env sd c)) = au_AuthorizedKeysDir (co_Auth c)"
  "au_Issuers (co_Auth (with_defaults env sd c)) = au_Issuers (co_Auth c)"
  "MultipathEnabled (with_defaults env sd c) = MultipathEnabled c"
  "force_valid (with_defaults env sd c) = force_valid c"
  "tunnel_prefix (with_defaults env sd c) = tunnel_prefix c"
  by (simp_all add: with_defaults_def MultipathEnabled_def force_valid_def tunnel_prefix_def)

lemma masque_map_norm:
  "masque_map_valid u (norm_masque m) (map norm_tunnel ts) = masque_map_valid u m ts"
  by (simp add: masque_map_valid_def norm_masque_def)

lemma norm_masque_Tunnels [simp]: "mq_Tunnels (norm_masque m) = mq_Tunnels m"
  by (simp add: norm_masque_def)

lemma map_norm_names [simp]: "map tc_Name (map norm_tunnel ts) = map tc_Name ts"
  by simp

lemmas check_iffs = check_issuers_iff check_cidr_iff check_dns_iff check_force_iff check_relay_iff
  check_masque_iff check_tunnels_iff check_portal_iff check_peers_iff check_tunnel_policies_iff

lemmas check_totals = check_issuers_total check_cidr_total check_dns_total check_force_total
  check_relay_total check_masque_total check_tunnels_total check_portal_total check_policies_total
  check_peers_total check_tunnel_policies_total check_masque_map_total

lemma ParseConfig_total: "ParseConfig env sd po mo raw \<noteq> Panic"
  unfolding ParseConfig_def Let_def by (simp add: check_simps check_totals)

lemma ParseConfig_iff:
  assumes "range_order po (co_DestinationPolicies raw)" "range_order mo (mq_Tunnels (co_MASQUE raw))"
  shows "ParseConfig env sd po mo raw = Ok pc \<longleftrightarrow> config_valid env raw \<and> pc = config_normal env sd raw"
proof -
  let ?ts = "co_Tunnels raw"
  have mm: "check_masque_map u (norm_masque (co_MASQUE raw)) (map norm_tunnel ?ts) mo = Ok x \<longleftrightarrow>
      masque_map_valid u (co_MASQUE raw) ?ts" if "distinct (map tc_Name ?ts)" for u x
    using check_masque_map_iff [of "map norm_tunnel ?ts" mo "norm_masque (co_MASQUE raw)" u x] that assms(2)
    by (simp add: masque_map_norm comp_def)
  note pol = check_policies_order [OF assms(1)]
  show ?thesis
    unfolding ParseConfig_def Let_def config_valid_def config_normal_def
    by (auto simp: check_simps check_iffs pol mm tunnel_prefix_def [symmetric] list_all_iff comp_def)
qed

text \<open>C17: Reading a configuration accepts exactly the valid ones. Whatever the iteration orders of
  the two maps, \<open>ParseConfig\<close> accepts a decoded configuration if and only if it satisfies the
  declarative description (authentication configured, complete and distinct issuers, a tunnel
  prefix with room, literal upstreams other than the server, a consistent relay and MASQUE part,
  well-formed tunnels and native peers with distinct names, keys and addresses, and only existing
  policies and tunnels referenced); the result is its normal form, every other configuration gives
  an error, and reading never panics.\<close>

theorem parse_config_exact:
  assumes "range_order policyOrder (co_DestinationPolicies raw)"
    and "range_order masqueOrder (mq_Tunnels (co_MASQUE raw))"
  shows "if config_valid env raw
    then ParseConfig env stateDir policyOrder masqueOrder raw = Ok (config_normal env stateDir raw)
    else \<exists>e. ParseConfig env stateDir policyOrder masqueOrder raw = Err e"
  using ParseConfig_iff [OF assms, of env stateDir] ParseConfig_total [of env stateDir policyOrder masqueOrder raw]
  by (cases "ParseConfig env stateDir policyOrder masqueOrder raw") auto

section \<open>What an accepted configuration gives the server\<close>

text \<open>Whether a policy compiles does not depend on the ASN table, and the table that \<open>New\<close> and
  \<open>Reload\<close> build has every policy that compiles.\<close>

lemma compile_any_asn: "compilePolicy u p a = Inr c \<Longrightarrow> \<exists>c. compilePolicy u p b = Inr c"
  by (auto simp: compilePolicy_def NewFilter_def Let_def split: sum.splits)

lemma policies_compiled:
  assumes "policies_valid u m" "fmlookup m k \<noteq> None"
  shows "fmlookup (compile_policies u asn m) k \<noteq> None"
proof -
  from assms(2) obtain p where p: "fmlookup m k = Some p" by auto
  with assms(1) obtain c where "compilePolicy u p None = Inr c" by (auto simp: policies_valid_def)
  then obtain c' where "compilePolicy u p asn = Inr c'" using compile_any_asn by blast
  with p show ?thesis by (simp add: compile_policies_def)
qed

lemma masked_fix: "prefix_Masked (prefix_Masked p) = prefix_Masked p"
proof (cases p)
  case (Prefix4 w n)
  have "push_bit k (drop_bit k (push_bit k (drop_bit k w))) = push_bit k (drop_bit k w)" for k
    by (intro bit_word_eqI) (auto simp: bit_simps)
  with Prefix4 show ?thesis by simp
next
  case (Prefix6 w n)
  have "push_bit k (drop_bit k (push_bit k (drop_bit k w))) = push_bit k (drop_bit k w)" for k
    by (intro bit_word_eqI) (auto simp: bit_simps)
  with Prefix6 show ?thesis by simp
qed

lemma plain4: "Is4 (prefix_Addr p) \<Longrightarrow> prefix_plain p"
proof (cases p)
  case (Prefix4 w n)
  have "Unmap a = a" if "prefix_Contains p a" for a
    using that by (cases a) (simp_all add: Prefix4 Unmap_def Is4In6_def)
  then show ?thesis by (simp add: prefix_plain_def)
qed simp

definition policy_known :: "config_env \<Rightarrow> asnLookup option \<Rightarrow> parsedConfig \<Rightarrow> string \<Rightarrow> bool" where
  "policy_known env asn pc name \<longleftrightarrow> name = []
     \<or> fmlookup (compile_policies (ce_unicode env) asn (co_DestinationPolicies (pc_Config pc))) name \<noteq> None"

lemma host_bits_width: "prefix_Bits p + 2 \<le> addr_bitlen (prefix_Addr p) \<Longrightarrow> 2 \<le> host_bits p"
  by (cases p) (simp_all add: addr_bitlen_def)

lemma host_bits_Masked [simp]: "host_bits (prefix_Masked p) = host_bits p"
  by (cases p) simp_all

lemma normal_fields:
  "co_Tunnels (pc_Config (config_normal env sd raw)) = map norm_tunnel (co_Tunnels raw)"
  "co_DestinationPolicies (pc_Config (config_normal env sd raw)) = co_DestinationPolicies raw"
  "pc_Natives (config_normal env sd raw) = map norm_peer (nc_Peers (co_NativeWireGuard raw))"
  "pc_Prefix (config_normal env sd raw) = tunnel_prefix raw"
  "nc_Enabled (co_NativeWireGuard (pc_Config (config_normal env sd raw))) = nc_Enabled (co_NativeWireGuard raw)"
  "map is_Name (au_Issuers (co_Auth (pc_Config (config_normal env sd raw)))) = map is_Name (au_Issuers (co_Auth raw))"
  by (simp_all add: config_normal_def Let_def norm_issuer_def comp_def)

lemma truncate_fields [simp]:
  "tc_Name (tunnelConfig.truncate t) = tc_Name t" "tc_VirtualPort (tunnelConfig.truncate t) = tc_VirtualPort t"
  "tc_DestinationPolicy (tunnelConfig.truncate t) = tc_DestinationPolicy t"
  by (simp_all add: tunnelConfig.truncate_def)

lemma canonical_the:
  "CanonicalPublicKey k = Some c \<Longrightarrow> CanonicalPublicKey (the (CanonicalPublicKey k)) = CanonicalPublicKey k"
  by (simp add: canonical_idem)

lemma natives_of_valid:
  assumes "peers_valid pols tns pre ps"
  shows "\<forall>n \<in> set (map norm_peer ps). CanonicalPublicKey (np_PublicKey n) = Some (np_PublicKey n)
      \<and> prefix_Contains pre (np_TunnelIP n) \<and> np_TunnelIP n \<noteq> prefixAddr pre \<and> set (np_Tunnels n) \<subseteq> set tns
      \<and> (np_DestinationPolicy n = [] \<or> fmlookup pols (np_DestinationPolicy n) \<noteq> None)"
    and "distinct (map np_TunnelIP (map norm_peer ps))" "distinct (map np_PublicKey (map norm_peer ps))"
  using assms canonical_the
  by (fastforce simp: peers_valid_def list_all_iff peer_valid_def norm_peer_def comp_def)+

text \<open>C16: What the server relies on follows from reading the configuration. In an accepted
  configuration the tunnel prefix is masked and has room for at least four addresses; the control
  plane's condition on configurations holds whenever the prefix is IPv4 or holds no IPv4-mapped
  address (so that a server started with it satisfies the hypotheses of the control-plane
  theorems); tunnel names and issuers are distinct; virtual ports are in range; no native peer has
  the server's address, and it lists only existing tunnels; and every policy that a tunnel or a
  native peer names is in the compiled policy table, whatever the ASN table.\<close>

theorem parse_config_establishes:
  assumes ord: "range_order policyOrder (co_DestinationPolicies raw)"
      "range_order masqueOrder (mq_Tunnels (co_MASQUE raw))"
    and ok: "ParseConfig env stateDir policyOrder masqueOrder raw = Ok pc"
  shows "masked (pc_Prefix pc) \<and> 2 \<le> host_bits (pc_Prefix pc)
    \<and> (Is4 (prefix_Addr (pc_Prefix pc)) \<or> prefix_plain (pc_Prefix pc) \<longrightarrow> config_ok (server_config pc))
    \<and> distinct (map tc_Name (cf_Tunnels (server_config pc))) \<and> distinct (cf_Issuers (server_config pc))
    \<and> (\<forall>t \<in> set (cf_Tunnels (server_config pc)). tc_VirtualPort t \<in> {1..65535}
        \<and> policy_known env asn pc (tc_DestinationPolicy t))
    \<and> (\<forall>n \<in> set (cf_Natives (server_config pc)). np_TunnelIP n \<noteq> prefixAddr (pc_Prefix pc)
        \<and> set (np_Tunnels n) \<subseteq> tc_Name ` set (cf_Tunnels (server_config pc))
        \<and> policy_known env asn pc (np_DestinationPolicy n))"
proof -
  from ParseConfig_iff [OF ord] ok have v: "config_valid env raw" and pc: "pc = config_normal env stateDir raw" by auto
  note f = normal_fields [of env stateDir raw, folded pc]
  note nat = natives_of_valid [of "co_DestinationPolicies raw" "map tc_Name (co_Tunnels raw)" "tunnel_prefix raw"
      "nc_Peers (co_NativeWireGuard raw)"]
  have peers: "peers_valid (co_DestinationPolicies raw) (map tc_Name (co_Tunnels raw)) (tunnel_prefix raw)
      (nc_Peers (co_NativeWireGuard raw))" and cidr: "cidr_valid (ne_TunnelCIDR (co_Network raw))"
    and pol: "policies_valid (ce_unicode env) (co_DestinationPolicies raw)"
    using v by (simp_all add: config_valid_def)
  have known: "policy_known env asn pc name" if "name = [] \<or> fmlookup (co_DestinationPolicies raw) name \<noteq> None" for name
    using that policies_compiled [OF pol] by (auto simp: policy_known_def f)
  have "masked (pc_Prefix pc)" "2 \<le> host_bits (pc_Prefix pc)"
    using cidr by (auto simp: f tunnel_prefix_def cidr_valid_def masked_Masked host_bits_width)
  moreover have "config_ok (server_config pc)" if "Is4 (prefix_Addr (pc_Prefix pc)) \<or> prefix_plain (pc_Prefix pc)"
  proof -
    have "prefix_plain (prefix_Masked (pc_Prefix pc))"
      using that plain4 by (auto simp: f tunnel_prefix_def masked_fix)
    then show ?thesis using nat [OF peers] v
      by (auto simp: config_ok_def server_config_def Let_def f tunnel_prefix_def masked_fix config_valid_def)
  qed
  moreover have "distinct (map tc_Name (cf_Tunnels (server_config pc)))" "distinct (cf_Issuers (server_config pc))"
    using v by (simp_all add: server_config_def Let_def f comp_def config_valid_def)
  moreover have "\<forall>t \<in> set (cf_Tunnels (server_config pc)). tc_VirtualPort t \<in> {1..65535}
      \<and> policy_known env asn pc (tc_DestinationPolicy t)"
    using v by (auto simp: server_config_def Let_def f config_valid_def list_all_iff tunnel_valid_def intro!: known)
  moreover have "\<forall>n \<in> set (cf_Natives (server_config pc)). np_TunnelIP n \<noteq> prefixAddr (pc_Prefix pc)
      \<and> set (np_Tunnels n) \<subseteq> tc_Name ` set (cf_Tunnels (server_config pc))
      \<and> policy_known env asn pc (np_DestinationPolicy n)"
    using nat(1) [OF peers] by (auto simp: server_config_def Let_def f image_image intro!: known)
  ultimately show ?thesis by blast
qed

section \<open>A configuration\<close>

definition cfg_env :: config_env where
  "cfg_env = \<lparr>ce_unicode = \<lparr>uni_lower = id, uni_trim = id\<rparr>, ce_urlParse = (\<lambda>_. None), ce_services = (\<lambda>_ _. None),
     ce_templateFatal = (\<lambda>_. False), ce_templateFile = id\<rparr>"

definition cfg_tunnel :: tunnelEntry where
  "cfg_tunnel = \<lparr>tc_Name = ''db'', tc_Target = ''db:5432'', tc_VirtualPort = 5432, tc_Protocol = [],
     tc_UDPIdleTimeout = 0, tc_LocalPort = 0, tc_LocalHost = [], tc_Allow = [''*''], tc_DestinationPolicy = [],
     tc_Socks = None, te_DocsURL = [], te_PortalURL = None\<rparr>"

definition cfg_peer :: "string \<Rightarrow> NativeWireGuardPeer" where
  "cfg_peer ip = \<lparr>nw_Name = ''phone'', nw_PublicKey = EncodeToString (replicate 32 7), nw_TunnelIP = ip,
     nw_Tunnels = [''db''], nw_DestinationPolicy = []\<rparr>"

definition cfg :: "string \<Rightarrow> NativeWireGuardPeer list \<Rightarrow> Config" where
  "cfg cidr peers = \<lparr>co_StateDir = [], co_Listen = \<lparr>li_HTTPS = [], li_WireGuard = [], li_Name = []\<rparr>,
     co_Auth = \<lparr>au_AuthorizedKeysDir = ''keys'', au_Issuers = [], au_SessionTTL = 0, au_MaxSessionsPerKey = 0\<rparr>,
     co_WebUIToken = [],
     co_Network = \<lparr>ne_TunnelCIDR = cidr, ne_AdvertisedEndpoint = [],
       ne_DNS = \<lparr>dn_Enabled = None, dn_Domain = [], dn_ForwardingEnabled = False, dn_Upstreams = []\<rparr>\<rparr>,
     co_Transport = \<lparr>tr_Multipath = None, tr_Force = []\<rparr>,
     co_Authorizer = (\<lparr>az_WebhookURL = [], az_Exec = []\<rparr>, 0), co_DestinationPolicies = fmempty,
     co_NativeWireGuard = \<lparr>nc_Enabled = True, nc_Peers = peers\<rparr>,
     co_Relay = \<lparr>rc_Enabled = False, rc_URL = [], rc_Name = [], rc_IdentityFile = [], rc_Fingerprint = [],
       rc_DirectClients = False, rc_Endpoints = [], rc_ReconnectMin = 0, rc_ReconnectMax = 0, rc_AdvertiseDirect = False\<rparr>,
     co_MASQUE = \<lparr>mq_Enabled = False, mq_Listen = [], mq_HTTP2URL = [], mq_HTTP3URL = [], mq_MatchDomains = [],
       mq_ClientCAFile = [], mq_IssuerCertFile = [], mq_IssuerKeyFile = [], mq_CertificateTTL = 0, mq_Tunnels = fmempty\<rparr>,
     co_Portal = \<lparr>po_Enabled = False, po_Template = [], po_WebEnabled = False, po_WebListen = []\<rparr>,
     co_Tunnels = [cfg_tunnel]\<rparr>"

definition is_Ok :: "('e, 'a) outcome \<Rightarrow> bool" where
  "is_Ok r = (case r of Ok x \<Rightarrow> True | _ \<Rightarrow> False)"

lemma cfg_accepted: "is_Ok (ParseConfig cfg_env [] [] [] (cfg [] [cfg_peer ''100.64.0.9'']))"
  by code_simp


theorem parse_config_establishes_witness:
  "\<exists>pc. ParseConfig cfg_env [] [] [] (cfg [] [cfg_peer ''100.64.0.9'']) = Ok pc
     \<and> Is4 (prefix_Addr (pc_Prefix pc)) \<and> config_ok (server_config pc)"
proof -
  obtain pc where pc: "ParseConfig cfg_env [] [] [] (cfg [] [cfg_peer ''100.64.0.9'']) = Ok pc"
    using cfg_accepted by (auto simp: is_Ok_def split: outcome.splits)
  have ord: "range_order [] (co_DestinationPolicies (cfg [] [cfg_peer ''100.64.0.9'']))"
    "range_order [] (mq_Tunnels (co_MASQUE (cfg [] [cfg_peer ''100.64.0.9''])))"
    by (simp_all add: cfg_def range_order_def)
  have "Is4 (prefix_Addr (tunnel_prefix (cfg [] [])))" by code_simp
  then have "Is4 (prefix_Addr (pc_Prefix pc))"
    using ParseConfig_iff [OF ord] pc by (simp add: normal_fields tunnel_prefix_def cfg_def)
  with parse_config_establishes [OF ord pc] pc show ?thesis by blast
qed

theorem parse_config_exact_witness:
  "ParseConfig cfg_env [] [] [] (cfg [] []) = Ok (config_normal cfg_env [] (cfg [] []))
     \<and> \<not> config_valid cfg_env (cfg ''100.64.0.0/31'' [])"
proof -
  have ord: "range_order [] (co_DestinationPolicies (cfg c ps))" "range_order [] (mq_Tunnels (co_MASQUE (cfg c ps)))" for c ps
    by (simp_all add: cfg_def range_order_def)
  have "is_Ok (ParseConfig cfg_env [] [] [] (cfg [] []))" "\<not> is_Ok (ParseConfig cfg_env [] [] [] (cfg ''100.64.0.0/31'' []))"
    by code_simp+
  with parse_config_exact [OF ord, of cfg_env "[]" "[]" "[]"] parse_config_exact [OF ord, of cfg_env "''100.64.0.0/31''" "[]" "[]"]
  show ?thesis by (auto simp: is_Ok_def split: if_splits)
qed

section \<open>Gaps between the checks and their users\<close>

text \<open>The filters of a SOCKS tunnel are checked with \<open>net.ParseCIDR\<close>, which allows leading zeros in
  the prefix length, and built with \<open>netip.ParsePrefix\<close>, which does not.\<close>

lemma filter_accepted_not_built:
  "ParseCIDR ''10.0.0.0/08'' \<and> isl (NewFilter \<lparr>cfg_OnlyLocal = False, cfg_CIDRs = [''10.0.0.0/08''],
     cfg_DomainSuffixes = [], cfg_ASNs = [], cfg_Invert = False, cfg_AllowAll = False,
     cfg_AllowLocalEgress = False\<rparr> None)"
  by code_simp

text \<open>The prefix is refused only when its own address is IPv4-mapped: \<open>::/64\<close> is accepted although
  it holds the IPv4-mapped addresses.\<close>

lemma mapped_prefix_accepted:
  "is_Ok (ParseConfig cfg_env [] [] [] (cfg ''::/64'' []))"
  "\<not> prefix_plain (tunnel_prefix (cfg ''::/64'' []))"
proof -
  show "is_Ok (ParseConfig cfg_env [] [] [] (cfg ''::/64'' []))" by code_simp
  have "prefix_Contains (tunnel_prefix (cfg ''::/64'' [])) (IP6 0xffff00000001 [])"
    "Unmap (IP6 0xffff00000001 []) \<noteq> IP6 0xffff00000001 []" by code_simp+
  then show "\<not> prefix_plain (tunnel_prefix (cfg ''::/64'' []))" unfolding prefix_plain_def by blast
qed

section \<open>Reloading under another prefix\<close>

lemma reload_config_kept: "st_config (Reload fpEntry order ipc c st) = reload_config c st"
proof -
  have r: "st_config (fold (\<lambda>v st. if P v then retire v st else st) vs st) = st_config st" for P vs st
    by (induction vs arbitrary: st) simp_all
  have a: "st_config (fold (\<lambda>p st. snd (addPeer ipc (np_PublicKey p) (np_TunnelIP p) st)) ps st) = st_config st" for ps st
    by (induction ps arbitrary: st) (simp_all add: addPeer_def split: option.split)
  have d: "st_config (fold (\<lambda>p st. st\<lparr>st_peers := fmdrop (f p) (st_peers st)\<rparr>) ps st) = st_config st"
    for f :: "nativePeer \<Rightarrow> string" and ps st
    by (induction ps arbitrary: st) simp_all
  have n: "st_config (reconcileNativePeers ipc old new st) = st_config st" for old new st
    by (simp add: reconcileNativePeers_def Let_def a d)
  have s: "st_config (fold (reconcile_session fpEntry) vs st) = st_config st" for vs st
    by (induction vs arbitrary: st) (simp_all add: reconcile_session_eq retire_if_def)
  show ?thesis by (simp add: Reload_def Let_def s n r reload_config_def)
qed

text \<open>A reload does not check the native peers against the prefix in force. The tunnel prefix is
  not reloaded, but the native peers of the new configuration were checked against the prefix of
  the new file: with a server started on 100.64.0.0/16, a file with prefix 100.0.0.0/8 and a native
  peer at 100.64.0.1 is accepted, and after the reload that peer has the server's own tunnel
  address, in whatever state the server was.\<close>

theorem reload_peer_takes_server_address:
  "is_Ok (ParseConfig cfg_env [] [] [] (cfg ''100.64.0.0/16'' []))
     \<and> is_Ok (ParseConfig cfg_env [] [] [] (cfg ''100.0.0.0/8'' [cfg_peer ''100.64.0.1'']))
     \<and> (\<forall>st fpEntry order ipc.
          let old = server_config (config_normal cfg_env [] (cfg ''100.64.0.0/16'' []));
              new = server_config (config_normal cfg_env [] (cfg ''100.0.0.0/8'' [cfg_peer ''100.64.0.1'']));
              st' = Reload fpEntry order ipc new (st\<lparr>st_config := old\<rparr>)
          in server_ip st' \<in> np_TunnelIP ` set (cf_Natives (st_config st')))"
proof -
  have ok: "is_Ok (ParseConfig cfg_env [] [] [] (cfg ''100.64.0.0/16'' []))"
    "is_Ok (ParseConfig cfg_env [] [] [] (cfg ''100.0.0.0/8'' [cfg_peer ''100.64.0.1'']))" by code_simp+
  have "addr_Next (prefix_Addr (prefix_Masked (tunnel_prefix (cfg ''100.64.0.0/16'' []))))
      = np_TunnelIP (norm_peer (cfg_peer ''100.64.0.1''))" by code_simp
  with ok show ?thesis
    by (simp add: reload_config_kept reload_config_def server_ip_def server_config_def normal_fields Let_def)
      (simp add: cfg_def)
qed

end
