(* ===== verification/Client_Session.thy ===== *)
theory Client_Session
  imports Data_Plane Scheduler
begin

text \<open>
  The client's decisions (\<^verbatim>\<open>src/pkg/client/client.go\<close>, \<^verbatim>\<open>transportstate.go\<close>): the choice of the
  authentication method and of the carrier, where a tunnel's local listener binds, and the route states
  of the data plane. Binding a socket is an argument.
\<close>

section \<open>Choosing the authentication method\<close>

record authOptions =
  op_SSO :: bool
  op_Provider :: string

fun issuer_named :: "string \<Rightarrow> string list \<Rightarrow> string option" where
  "issuer_named name [] = None"
| "issuer_named name (i # is) = (if i = name then Some i else issuer_named name is)"

text \<open>An issuer stands for its name.\<close>

definition selectIssuer :: "string list \<Rightarrow> string \<Rightarrow> string option" where
  "selectIssuer issuers name =
     (if issuers = [] then None
      else if name \<noteq> [] then issuer_named name issuers
      else if length issuers = 1 then Some (hd issuers)
      else None)"

definition decideMethod :: "authOptions \<Rightarrow> string \<Rightarrow> string list \<Rightarrow> (string \<times> string) option" where
  "decideMethod opts keyPath issuers =
     (if op_SSO opts then map_option (Pair ''oidc'') (selectIssuer issuers (op_Provider opts))
      else if keyPath \<noteq> [] then Some (''ssh'', [])
      else if issuers \<noteq> [] then map_option (Pair ''oidc'') (selectIssuer issuers (op_Provider opts))
      else None)"

text \<open>\<open>fetch\<close> is the issuers the server advertises, \<open>ssh\<close> and \<open>oidc\<close> the two exchanges.\<close>

definition authenticateAny ::
  "authOptions \<Rightarrow> string \<Rightarrow> string list option \<Rightarrow> 'r option \<Rightarrow> (string \<Rightarrow> 'r option) \<Rightarrow> string \<Rightarrow> string
     \<Rightarrow> ('r \<times> string \<times> string) option" where
  "authenticateAny opts keyPath fetch ssh oidc pinnedMethod pinnedIssuer =
     (if pinnedMethod = ''ssh'' then map_option (\<lambda>r. (r, ''ssh'', [])) ssh
      else case fetch of
        None \<Rightarrow> None
      | Some issuers \<Rightarrow>
          (case (if pinnedMethod = [] then decideMethod opts keyPath issuers
                 else Some (pinnedMethod, pinnedIssuer)) of
             None \<Rightarrow> None
           | Some (method, issuerName) \<Rightarrow>
               if method = ''ssh'' then map_option (\<lambda>r. (r, ''ssh'', [])) ssh
               else if method = ''oidc'' then
                 (case selectIssuer issuers issuerName of
                    None \<Rightarrow> None
                  | Some iss \<Rightarrow> map_option (\<lambda>r. (r, ''oidc'', iss)) (oidc iss))
               else None))"

section \<open>Choosing the carrier\<close>

definition hasTransportCapability :: "string list \<Rightarrow> string \<Rightarrow> bool" where
  "hasTransportCapability caps want = list_ex (\<lambda>got. got = want) caps"

definition selectTransport :: "bool \<Rightarrow> string \<Rightarrow> bool \<Rightarrow> string \<Rightarrow> string \<Rightarrow> bool option" where
  "selectTransport explicit transport multipath udp websocket =
     (if transport = PathWSS then (if websocket = [] then None else Some True)
      else if transport = PathDirect then (if udp = [] then None else Some False)
      else if transport = PathUDPRelay then
        (if websocket = [] then None else if \<not> multipath then None else Some True)
      else
        let useWS = explicit \<or> (udp = [] \<and> websocket \<noteq> [])
              \<or> (transport = [] \<and> multipath \<and> udp \<noteq> [] \<and> websocket \<noteq> [])
        in if useWS \<and> websocket = [] then None
           else if \<not> useWS \<and> udp = [] then None
           else Some useWS)"

definition shouldBootstrapDirectMultipath :: "bool \<Rightarrow> string \<Rightarrow> bool \<Rightarrow> bool" where
  "shouldBootstrapDirectMultipath multipathV3 udpEndpoint websocketForced \<longleftrightarrow>
     multipathV3 \<and> udpEndpoint \<noteq> [] \<and> \<not> websocketForced"

definition normalizeTransportPreference :: "bool \<Rightarrow> string \<Rightarrow> string option" where
  "normalizeTransportPreference websocket transport = (case ValidateTransportName transport of
       None \<Rightarrow> None
     | Some normalized \<Rightarrow>
         if websocket \<and> normalized \<noteq> [] \<and> normalized \<noteq> PathWSS then None
         else if websocket then Some PathWSS else Some normalized)"

definition matchesIPVersion :: "string \<Rightarrow> string \<Rightarrow> bool" where
  "matchesIPVersion hostport ipVersion =
     (if ipVersion = [] then True
      else case SplitHostPort hostport of
        None \<Rightarrow> False
      | Some (host, port) \<Rightarrow>
          (case ParseAddr host of
             None \<Rightarrow> False
           | Some a \<Rightarrow> if ipVersion = ''6'' then Is6 (Unmap a) else Is4 (Unmap a)))"

definition resolveServerTunnelIP :: "string \<Rightarrow> ipAddr \<Rightarrow> ipAddr option" where
  "resolveServerTunnelIP serverTunnelIP clientIP =
     (if serverTunnelIP \<noteq> [] then ParseAddr serverTunnelIP
      else case clientIP of
        IP4 w \<Rightarrow> Some (IP4 ((w AND 0xffffff00) OR 1))
      | _ \<Rightarrow> None)"

definition allowedIPsForFamily :: "ipAddr \<Rightarrow> string" where
  "allowedIPsForFamily a = (if Is6 a then ''::/0'' else ''0.0.0.0/0'')"

section \<open>Where a local listener binds\<close>

text \<open>\<open>addrText\<close> is \<open>netip.Addr.String\<close>, the canonical text of an address.\<close>

definition resolveBindAddress :: "(ipAddr \<Rightarrow> string) \<Rightarrow> string \<Rightarrow> string option" where
  "resolveBindAddress addrText addr =
     (if addr = [] then Some ''127.0.0.1'' else map_option addrText (ParseAddr addr))"

definition resolveTunnelHost ::
  "string \<Rightarrow> string \<Rightarrow> (string, string) fmap \<Rightarrow> bool \<Rightarrow> string \<Rightarrow> string \<times> bool \<times> string" where
  "resolveTunnelHost name serverLocalHost hosts explicitBind bindAddr =
     (case fmlookup hosts name of
        Some h \<Rightarrow> (h, True, [])
      | None \<Rightarrow>
          if explicitBind then (bindAddr, False, [])
          else if serverLocalHost \<noteq> [] then
            (case ParseAddr serverLocalHost of
               None \<Rightarrow> (bindAddr, True, serverLocalHost)
             | Some ip \<Rightarrow> if IsLoopback ip then (serverLocalHost, True, [])
                          else (bindAddr, True, serverLocalHost))
          else (bindAddr, True, []))"

text \<open>\<open>listen host port\<close> is the attempt to bind.\<close>

definition listenLocal :: "(string \<Rightarrow> int \<Rightarrow> 'l option) \<Rightarrow> string \<Rightarrow> int \<Rightarrow> bool \<Rightarrow> bool \<Rightarrow> 'l option" where
  "listenLocal listen host port softHost softPort =
     (case listen host port of
        Some l \<Rightarrow> Some l
      | None \<Rightarrow>
          (case (if softPort \<and> port \<noteq> 0 then listen host 0 else None) of
             Some l \<Rightarrow> Some l
           | None \<Rightarrow>
               if softHost \<and> host \<noteq> ''127.0.0.1'' then
                 (case listen ''127.0.0.1'' port of
                    Some l \<Rightarrow> Some l
                  | None \<Rightarrow> if softPort \<and> port \<noteq> 0 then listen ''127.0.0.1'' 0 else None)
               else None))"

text \<open>\<open>net.ListenUDP\<close> is given an \<open>net.IP\<close>, and \<open>None\<close> (a nil IP) is every local address.\<close>

definition listenLocalUDP ::
  "(ipAddr option \<Rightarrow> int \<Rightarrow> 'l option) \<Rightarrow> string \<Rightarrow> int \<Rightarrow> bool \<Rightarrow> bool \<Rightarrow> 'l option" where
  "listenLocalUDP listenUDP host port softHost softPort =
     (let listen = (\<lambda>h. listenUDP (net_ParseIP h)) in
      case listen host port of
        Some l \<Rightarrow> Some l
      | None \<Rightarrow>
          (case (if softPort \<and> port \<noteq> 0 then listen host 0 else None) of
             Some l \<Rightarrow> Some l
           | None \<Rightarrow>
               if softHost \<and> host \<noteq> ''127.0.0.1'' then
                 (case listen ''127.0.0.1'' port of
                    Some l \<Rightarrow> Some l
                  | None \<Rightarrow> if softPort \<and> port \<noteq> 0 then listen ''127.0.0.1'' 0 else None)
               else None))"

section \<open>Route states\<close>

datatype transportState =
    transportStateStopped
  | transportStateDirect
  | transportStateDirectViaRelayReflector
  | transportStateWSSFallback
  | transportStateWSSRelay
  | transportStateUDPRelay

datatype transportTransition =
    transportUDPRelayEstablished
  | transportDirectEstablished
  | transportUDPRelayLost
  | transportDirectLost
  | transportControlReconnected
  | transportShutdown

datatype connectionTransport =
    transportUnknown
  | transportUDPDirect
  | transportWSSFallback
  | transportWSSRelay
  | transportUDPRelay
  | transportUDPRelayReflector

definition initialTransportState :: "bool \<Rightarrow> string \<Rightarrow> transportState" where
  "initialTransportState useWS udp =
     (if \<not> useWS then transportStateDirect
      else if udp \<noteq> [] then transportStateWSSFallback else transportStateWSSRelay)"

definition initialTransport :: "bool \<Rightarrow> string \<Rightarrow> connectionTransport" where
  "initialTransport useWS udp =
     (if \<not> useWS then transportUDPDirect else if udp = [] then transportWSSRelay else transportWSSFallback)"

definition nextTransportState :: "transportState \<Rightarrow> transportTransition \<Rightarrow> bool \<Rightarrow> transportState" where
  "nextTransportState current event relayAvailable = (case event of
       transportShutdown \<Rightarrow> transportStateStopped
     | transportControlReconnected \<Rightarrow> current
     | transportUDPRelayEstablished \<Rightarrow>
         if current = transportStateWSSRelay then transportStateUDPRelay else current
     | transportDirectEstablished \<Rightarrow>
         if current = transportStateWSSRelay \<or> current = transportStateUDPRelay
         then transportStateDirectViaRelayReflector else current
     | transportUDPRelayLost \<Rightarrow>
         if current = transportStateUDPRelay then transportStateWSSRelay else current
     | transportDirectLost \<Rightarrow>
         if current = transportStateDirect \<or> current = transportStateDirectViaRelayReflector
         then (if relayAvailable then transportStateUDPRelay else transportStateWSSRelay) else current)"

fun state_connectionTransport :: "transportState \<Rightarrow> connectionTransport" where
  "state_connectionTransport transportStateDirect = transportUDPDirect"
| "state_connectionTransport transportStateDirectViaRelayReflector = transportUDPRelayReflector"
| "state_connectionTransport transportStateWSSFallback = transportWSSFallback"
| "state_connectionTransport transportStateWSSRelay = transportWSSRelay"
| "state_connectionTransport transportStateUDPRelay = transportUDPRelay"
| "state_connectionTransport transportStateStopped = transportUnknown"

fun transportStateFromConnection :: "connectionTransport \<Rightarrow> transportState" where
  "transportStateFromConnection transportUDPDirect = transportStateDirect"
| "transportStateFromConnection transportUDPRelayReflector = transportStateDirectViaRelayReflector"
| "transportStateFromConnection transportWSSFallback = transportStateWSSFallback"
| "transportStateFromConnection transportWSSRelay = transportStateWSSRelay"
| "transportStateFromConnection transportUDPRelay = transportStateUDPRelay"
| "transportStateFromConnection transportUnknown = transportStateStopped"

definition preserveTransportOnReconnect :: "connectionTransport \<Rightarrow> connectionTransport" where
  "preserveTransportOnReconnect t =
     (let current = transportStateFromConnection t
      in state_connectionTransport
           (nextTransportState current transportControlReconnected (current = transportStateUDPRelay)))"


section \<open>Listeners stay on loopback\<close>

text \<open>What was bound is one of the attempts: the host asked for, or 127.0.0.1 when it is soft.\<close>

lemma listenLocal_attempt:
  assumes "listenLocal listen host port softHost softPort = Some l"
  obtains h p where "listen h p = Some l" and "h = host \<or> softHost \<and> h = ''127.0.0.1''"
    and "p = port \<or> softPort \<and> p = 0"
  using assms by (auto simp: listenLocal_def split: option.splits if_splits)

lemma listenLocalUDP_is_listenLocal:
  "listenLocalUDP listenUDP = listenLocal (\<lambda>h. listenUDP (net_ParseIP h))"
  by (intro ext) (simp add: listenLocalUDP_def listenLocal_def Let_def)

lemma listenLocal_first: "listen host port = Some l \<Longrightarrow> listenLocal listen host port softHost softPort = Some l"
  by (simp add: listenLocal_def)

definition loopback_text :: "string \<Rightarrow> bool" where
  "loopback_text h = (case ParseAddr h of None \<Rightarrow> False | Some a \<Rightarrow> IsLoopback a)"

lemma loopback_default [simp]: "loopback_text ''127.0.0.1''" "net_ParseIP ''127.0.0.1'' = Some (IP4 0x7f000001)"
  by code_simp+

lemma resolveTunnelHost_loopback:
  assumes "fmlookup hosts name = None" and "resolveTunnelHost name sh hosts False ''127.0.0.1'' = (host, soft, rej)"
  shows "loopback_text host" and "host = sh \<or> host = ''127.0.0.1''"
proof -
  have "host = sh \<and> loopback_text sh \<or> host = ''127.0.0.1''"
  proof (cases "sh = []")
    case True
    with assms show ?thesis by (simp add: resolveTunnelHost_def)
  next
    case False
    with assms show ?thesis
      by (cases "ParseAddr sh") (simp_all add: resolveTunnelHost_def loopback_text_def split: if_split_asm)
  qed
  then show "loopback_text host" "host = sh \<or> host = ''127.0.0.1''" by (auto simp only: loopback_default(1))
qed

lemma net_ParseIP_loopback:
  assumes "loopback_text h"
  shows "case net_ParseIP h of None \<Rightarrow> \<exists>a. ParseAddr h = Some a \<and> addr_zone a \<noteq> [] | Some a \<Rightarrow> IsLoopback a"
proof -
  obtain a where a: "ParseAddr h = Some a" "IsLoopback a"
    using assms by (auto simp: loopback_text_def split: option.splits)
  have "IsLoopback (Unmap a)"
    using a(2) by (cases a) (auto simp: Unmap_def Is4In6_def split: if_splits)
  with a show ?thesis by (simp add: net_ParseIP_def)
qed

lemma listenLocal_loopback:
  assumes "listenLocal listen host port soft softPort = Some l" and "loopback_text host"
  obtains h p where "listen h p = Some l" and "loopback_text h" and "h = host \<or> h = ''127.0.0.1''" and "p \<in> {port, 0}"
  by (rule listenLocal_attempt [OF assms(1)]) (use assms(2) loopback_default(1) in blast)

text \<open>C22: When the user chose neither a bind address nor a host for a tunnel, its TCP listener is bound
  to a loopback address whatever host the server suggests and whichever attempts fail, and so is its
  UDP listener, unless the suggestion carries a zone.\<close>

theorem tunnel_listener_loopback:
  assumes "fmlookup hosts name = None"
    and "resolveTunnelHost name serverLocalHost hosts False ''127.0.0.1'' = (host, soft, rejected)"
  shows "(\<forall>l. listenLocal listen host port soft softPort = Some l \<longrightarrow>
        (\<exists>h p. listen h p = Some l \<and> loopback_text h \<and> p \<in> {port, 0}))
    \<and> (\<forall>l. listenLocalUDP listenUDP host port soft softPort = Some l \<longrightarrow>
        (\<exists>ip p. listenUDP ip p = Some l \<and> p \<in> {port, 0}
          \<and> (case ip of Some a \<Rightarrow> IsLoopback a
             | None \<Rightarrow> \<exists>a. ParseAddr serverLocalHost = Some a \<and> addr_zone a \<noteq> [])))"
proof (intro conjI allI impI)
  note host = resolveTunnelHost_loopback [OF assms]
  show "\<exists>h p. listen h p = Some l \<and> loopback_text h \<and> p \<in> {port, 0}"
    if "listenLocal listen host port soft softPort = Some l" for l
    by (rule listenLocal_loopback [OF that host(1)]) blast
  fix l assume "listenLocalUDP listenUDP host port soft softPort = Some l"
  then obtain h p where hp: "listenUDP (net_ParseIP h) p = Some l" "loopback_text h"
      "h = host \<or> h = ''127.0.0.1''" "p \<in> {port, 0}"
    unfolding listenLocalUDP_is_listenLocal by (rule listenLocal_loopback [OF _ host(1)])
  from hp(3) host(2) have "h = serverLocalHost \<or> h = ''127.0.0.1''" by metis
  then have "case net_ParseIP h of None \<Rightarrow> \<exists>a. ParseAddr serverLocalHost = Some a \<and> addr_zone a \<noteq> []
      | Some a \<Rightarrow> IsLoopback a"
  proof
    assume "h = serverLocalHost"
    then show ?thesis using net_ParseIP_loopback [OF hp(2)] by (simp only:)
  qed simp
  with hp(1,4) show "\<exists>ip p. listenUDP ip p = Some l \<and> p \<in> {port, 0}
        \<and> (case ip of Some a \<Rightarrow> IsLoopback a
           | None \<Rightarrow> \<exists>a. ParseAddr serverLocalHost = Some a \<and> addr_zone a \<noteq> [])" by blast
qed

theorem tunnel_listener_loopback_witness:
  "resolveTunnelHost ''web'' ''10.0.0.5'' fmempty False ''127.0.0.1'' = (''127.0.0.1'', True, ''10.0.0.5'')
   \<and> listenLocal (\<lambda>h p. if p = 0 then Some h else None) ''127.0.0.1'' 8080 True True = Some ''127.0.0.1''
   \<and> loopback_text ''127.0.0.1''"
proof -
  have r: "resolveTunnelHost ''web'' ''10.0.0.5'' fmempty False ''127.0.0.1'' = (''127.0.0.1'', True, ''10.0.0.5'')"
    by code_simp
  have l: "listenLocal (\<lambda>h p. if p = 0 then Some h else None) ''127.0.0.1'' 8080 True True = Some ''127.0.0.1''"
    by (simp add: listenLocal_def)
  have "fmlookup fmempty ''web'' = (None :: string option)" by simp
  from tunnel_listener_loopback [OF this r, THEN conjunct1, THEN spec, THEN mp, OF l]
  show ?thesis using r l by (auto split: if_splits)
qed

text \<open>C38: A server can move a UDP listener beyond loopback: the host \<open>::1%x\<close> passes the client's
  loopback test (and the server's own), but it is no \<open>net.IP\<close>, so the client listens on every local
  address at the port asked for.\<close>

theorem zoned_loopback_listens_everywhere:
  "resolveTunnelHost name ''::1%x'' fmempty False bindAddr = (''::1%x'', True, [])
   \<and> listenLocalUDP (\<lambda>ip p. Some (ip, p)) ''::1%x'' port True softPort = Some (None, port)"
proof -
  have p: "ParseAddr ''::1%x'' = Some (IP6 1 ''x'')" by code_simp
  have "resolveTunnelHost name ''::1%x'' fmempty False bindAddr = (''::1%x'', True, [])"
    by (simp add: resolveTunnelHost_def p)
  moreover have "net_ParseIP ''::1%x'' = None" by (simp add: net_ParseIP_def p addr_zone_def)
  ultimately show ?thesis by (simp add: listenLocalUDP_def)
qed

section \<open>The carrier and the route\<close>

text \<open>A carrier is chosen only when the server advertised its endpoint, and a forced carrier is the
  one chosen.\<close>

lemma selectTransport_advertised:
  assumes "selectTransport explicit transport multipath udp websocket = Some useWS"
  shows "if useWS then websocket \<noteq> [] else udp \<noteq> []"
    and "transport = PathWSS \<Longrightarrow> useWS" and "transport = PathDirect \<Longrightarrow> \<not> useWS"
    and "transport = PathUDPRelay \<Longrightarrow> useWS \<and> multipath"
proof -
  have d: "PathDirect \<noteq> PathWSS" "PathUDPRelay \<noteq> PathWSS" "PathUDPRelay \<noteq> PathDirect"
    by code_simp+
  note a = assms [unfolded selectTransport_def Let_def]
  show "if useWS then websocket \<noteq> [] else udp \<noteq> []" using a by (auto split: if_split_asm)
  show "transport = PathWSS \<Longrightarrow> useWS" "transport = PathDirect \<Longrightarrow> \<not> useWS"
    "transport = PathUDPRelay \<Longrightarrow> useWS \<and> multipath"
    using a d by (auto split: if_split_asm)
qed

lemma transport_state_roundtrip [simp]:
  "transportStateFromConnection (state_connectionTransport s) = s"
  "state_connectionTransport (transportStateFromConnection t) = t"
  by (cases s; simp) (cases t; simp)

lemma preserveTransport_id [simp]: "preserveTransportOnReconnect t = t"
  by (simp add: preserveTransportOnReconnect_def nextTransportState_def)

lemma initialTransport_is_state:
  "state_connectionTransport (initialTransportState useWS udp) = initialTransport useWS udp"
  by (simp add: initialTransportState_def initialTransport_def)

lemma nextTransportState_stopped [simp]: "nextTransportState transportStateStopped e r = transportStateStopped"
  by (cases e) (simp_all add: nextTransportState_def)

end
