(* ===== verification/Client_Reconnect.thy ===== *)
theory Client_Reconnect
  imports Client_Session
begin

text \<open>
  What a connection of the client is made of and what its operations make of it
  (\<^verbatim>\<open>src/pkg/client/reconnect.go\<close>, and of \<^verbatim>\<open>client.go\<close> \<open>ConnectWithOptions\<close>, \<open>ReplaceListener\<close>,
  \<open>SetTransport\<close>, \<open>renew\<close>, \<open>renewLoop\<close> and \<open>Close\<close>): which local listeners are kept, opened and closed, when
  the data plane is rebuilt, and that no listener and no WireGuard stack is left open. Binding a
  socket and building the WireGuard stack are arguments; the sockets and stacks that are open are part of the state.
\<close>

section \<open>Data\<close>

record AuthResponse =
  rs_Token :: string
  rs_TunnelIP :: string
  rs_ServerTunnelIP :: string
  rs_ServerPublicKey :: string
  rs_TTLSeconds :: int
  rs_Tunnels :: "ptunnel list"
  rs_UDP :: string
  rs_WebSocket :: string
  rs_Multipath :: bool
  rs_TransportCapabilities :: "string list option" \<comment> \<open>\<open>None\<close> is the nil slice\<close>
  rs_RequiredTransportCapabilities :: "string list option"

definition caps_of :: "string list option \<Rightarrow> string list" where
  "caps_of c = (case c of None \<Rightarrow> [] | Some l \<Rightarrow> l)"

definition IsBrowserSocksTarget :: "string \<Rightarrow> bool" where
  "IsBrowserSocksTarget targetHint \<longleftrightarrow> targetHint = ''socks''"

text \<open>The options that building and rebuilding the data plane reads. \<open>cl_bindAddr\<close> is the resolved
  bind address, \<open>cl_ExplicitBind\<close> says that the option was given.\<close>

record clientOptions =
  cl_UseWebSocket :: bool
  cl_Transport :: string
  cl_IPVersion :: string
  cl_Ports :: "(string, int) fmap"
  cl_Hosts :: "(string, string) fmap"
  cl_ExplicitBind :: bool
  cl_bindAddr :: string

text \<open>One generation of the data plane. Its WireGuard stack is a number; \<open>cg_forced\<close> is the forced
  transport of its multipath bind and \<open>cg_header\<close> the token its WebSocket carrier dials with.\<close>

record connectionNetwork =
  cg_stack :: nat
  cg_serverIP :: ipAddr
  cg_udpEndpoint :: string
  cg_transport :: string
  cg_useWS :: bool
  cg_multipathV3 :: bool
  cg_response :: AuthResponse
  cg_forced :: string
  cg_header :: string

text \<open>The hybrid bind exists on a WebSocket data plane, the multipath bind when that speaks v3.\<close>

definition cg_multipath :: "connectionNetwork \<Rightarrow> bool" where
  "cg_multipath n \<longleftrightarrow> cg_useWS n \<and> cg_multipathV3 n"

text \<open>A tunnel's local listener: its socket is a number, the text it is bound to is \<open>lt_localAddr\<close>;
  \<open>lt_target\<close> is the server's tunnel address and the virtual port.\<close>

record localTunnel =
  lt_name :: string
  lt_protocol :: string
  lt_sock :: nat
  lt_localAddr :: string
  lt_virtualPort :: int
  lt_socks :: bool
  lt_target :: "ipAddr \<times> int"
  lt_idleTimeout :: duration

text \<open>The connection, with the sockets and stacks that are open and the sockets whose forwarding
  loop was started. \<open>cn_next\<close> is the next unused number of a socket, stack or stop channel.\<close>

record connection =
  cn_closed :: bool
  cn_network :: "connectionNetwork option"
  cn_networkKey :: string
  cn_stack :: "nat option"
  cn_dataStop :: "nat option"
  cn_tunnels :: "localTunnel list"
  cn_response :: AuthResponse
  cn_token :: string
  cn_method :: "string \<times> string"
  cn_expires :: "gotime option"
  cn_transport :: connectionTransport
  cn_socks :: "nat list"
  cn_stacks :: "nat list"
  cn_next :: nat
  cn_forwarding :: "nat list"

section \<open>The data plane of a session\<close>

definition network_matches :: "connectionNetwork \<Rightarrow> AuthResponse \<Rightarrow> bool" where
  "network_matches n r = (let old = cg_response n in
     rs_TunnelIP old = rs_TunnelIP r \<and> rs_ServerTunnelIP old = rs_ServerTunnelIP r
     \<and> rs_ServerPublicKey old = rs_ServerPublicKey r \<and> rs_UDP old = rs_UDP r \<and> rs_WebSocket old = rs_WebSocket r
     \<and> rs_Multipath old = rs_Multipath r
     \<and> hasTransportCapability (caps_of (rs_TransportCapabilities old)) CapabilityMultipathV3
         = hasTransportCapability (caps_of (rs_TransportCapabilities r)) CapabilityMultipathV3
     \<and> hasTransportCapability (caps_of (rs_TransportCapabilities old)) CapabilityPathMTUV1
         = hasTransportCapability (caps_of (rs_TransportCapabilities r)) CapabilityPathMTUV1)"

text \<open>\<open>stackOk\<close> says that the WireGuard stack could be built and the peer added (a stack that was
  built without a peer is closed again); \<open>stack\<close> is its number. The path-MTU capability only
  parameterises the bind.\<close>

definition newConnectionNetwork ::
  "clientOptions \<Rightarrow> bool \<Rightarrow> nat \<Rightarrow> AuthResponse \<Rightarrow> connectionNetwork option" where
  "newConnectionNetwork opts stackOk stack r =
     (case ParseAddr (rs_TunnelIP r) of
        None \<Rightarrow> None
      | Some clientIP \<Rightarrow>
          let udpEndpoint = (if rs_UDP r \<noteq> [] \<and> \<not> matchesIPVersion (rs_UDP r) (cl_IPVersion opts) then [] else rs_UDP r)
          in case normalizeTransportPreference (cl_UseWebSocket opts) (cl_Transport opts) of
               None \<Rightarrow> None
             | Some transport \<Rightarrow>
                 let multipathV3 = (rs_Multipath r
                       \<and> hasTransportCapability (caps_of (rs_TransportCapabilities r)) CapabilityMultipathV3)
                 in case selectTransport (cl_UseWebSocket opts) transport multipathV3 udpEndpoint (rs_WebSocket r) of
                      None \<Rightarrow> None
                    | Some useWS \<Rightarrow>
                        (case resolveServerTunnelIP (rs_ServerTunnelIP r) clientIP of
                           None \<Rightarrow> None
                         | Some serverIP \<Rightarrow>
                             if \<not> stackOk then None
                             else Some \<lparr>cg_stack = stack, cg_serverIP = serverIP, cg_udpEndpoint = udpEndpoint,
                               cg_transport = transport, cg_useWS = useWS, cg_multipathV3 = multipathV3,
                               cg_response = r, cg_forced = (if useWS \<and> multipathV3 then transport else []),
                               cg_header = rs_Token r\<rparr>))"

definition bind_SetForced :: "string \<Rightarrow> connectionNetwork \<Rightarrow> connectionNetwork" where
  "bind_SetForced name n = (if cg_multipath n then n\<lparr>cg_forced := name\<rparr> else n)"

definition SetHeader :: "string \<Rightarrow> connectionNetwork \<Rightarrow> connectionNetwork" where
  "SetHeader token n = (if cg_useWS n then n\<lparr>cg_header := token\<rparr> else n)"

definition SetTransport :: "string \<Rightarrow> connection \<Rightarrow> connection option" where
  "SetTransport target c = (case ValidateTransportName target of
       None \<Rightarrow> None
     | Some normalized \<Rightarrow>
         (case cn_network c of
            None \<Rightarrow> None
          | Some n \<Rightarrow> if cg_multipath n then Some (c\<lparr>cn_network := Some (bind_SetForced normalized n)\<rparr>) else None))"

section \<open>Local listeners\<close>

text \<open>The system calls that bind, at the moment the next number is \<open>n\<close>: the text of the address bound to.\<close>

record listeners =
  bi_tcp :: "nat \<Rightarrow> string \<Rightarrow> int \<Rightarrow> string option"
  bi_udp :: "nat \<Rightarrow> ipAddr option \<Rightarrow> int \<Rightarrow> string option"

definition tunnel_proto :: "ptunnel \<Rightarrow> string" where
  "tunnel_proto g = (if pt_Protocol g = ''udp'' then ''udp'' else ''tcp'')"

definition closeLocalTunnel :: "localTunnel \<Rightarrow> connection \<Rightarrow> connection" where
  "closeLocalTunnel lt c = c\<lparr>cn_socks := removeAll (lt_sock lt) (cn_socks c)\<rparr>"

definition close_stack :: "nat \<Rightarrow> connection \<Rightarrow> connection" where
  "close_stack s c = c\<lparr>cn_stacks := removeAll s (cn_stacks c)\<rparr>"

text \<open>\<open>openReconnectedTunnel\<close>: a tunnel whose protocol changed keeps the address and port of its old
  listener; a new one takes what the options and the grant ask for.\<close>

definition openReconnectedTunnel ::
  "clientOptions \<Rightarrow> listeners \<Rightarrow> ptunnel \<Rightarrow> localTunnel option \<Rightarrow> connection \<Rightarrow> (localTunnel \<times> connection) option" where
  "openReconnectedTunnel opts bi g old c =
     (let explicitPort = (fmlookup (cl_Ports opts) (pt_Name g) \<noteq> None);
          port = (case fmlookup (cl_Ports opts) (pt_Name g) of None \<Rightarrow> pt_LocalPort g | Some p \<Rightarrow> p);
          (host, softHost, rejected) = resolveTunnelHost (pt_Name g) (pt_LocalHost g) (cl_Hosts opts)
            (cl_ExplicitBind opts) (cl_bindAddr opts)
      in if port < 0 \<or> port > 65535 then None
         else case (case old of
             None \<Rightarrow> Some (host, softHost, explicitPort, port)
           | Some o' \<Rightarrow>
               (case SplitHostPort (lt_localAddr o') of
                  None \<Rightarrow> None
                | Some (h, p) \<Rightarrow> map_option (\<lambda>n. (h, False, True, n)) (Atoi p))) of
           None \<Rightarrow> None
         | Some (host, softHost, explicitPort, port) \<Rightarrow>
             (case (if pt_Protocol g = ''udp''
                    then listenLocalUDP (bi_udp bi (cn_next c)) host port softHost (\<not> explicitPort)
                    else listenLocal (bi_tcp bi (cn_next c)) host port softHost (\<not> explicitPort)) of
                None \<Rightarrow> None
              | Some addr \<Rightarrow>
                  Some (\<lparr>lt_name = pt_Name g, lt_protocol = tunnel_proto g, lt_sock = cn_next c, lt_localAddr = addr,
                         lt_virtualPort = 0, lt_socks = False, lt_target = (IPInvalid, 0), lt_idleTimeout = 0\<rparr>,
                        c\<lparr>cn_next := Suc (cn_next c), cn_socks := cn_next c # cn_socks c\<rparr>)))"

definition reusable :: "(string, localTunnel) fmap \<Rightarrow> ptunnel \<Rightarrow> localTunnel option" where
  "reusable byName g = (case fmlookup byName (pt_Name g) of
       None \<Rightarrow> None | Some lt \<Rightarrow> if lt_protocol lt = tunnel_proto g then Some lt else None)"

text \<open>The loop over the granted tunnels: \<open>byName\<close> is the map of the existing ones that are not yet
  taken. It gives the tunnels in the order of the grants and those opened; an error gives the
  tunnels opened so far.\<close>

fun reconnect_tunnels ::
  "clientOptions \<Rightarrow> listeners \<Rightarrow> ptunnel list \<Rightarrow> (string, localTunnel) fmap
     \<Rightarrow> localTunnel list \<Rightarrow> localTunnel list \<Rightarrow> connection
     \<Rightarrow> bool \<times> localTunnel list \<times> localTunnel list \<times> (string, localTunnel) fmap \<times> connection" where
  "reconnect_tunnels opts bi [] byName tunnels opened c = (True, tunnels, opened, byName, c)"
| "reconnect_tunnels opts bi (g # gs) byName tunnels opened c =
     (case reusable byName g of
        Some lt \<Rightarrow> reconnect_tunnels opts bi gs (fmdrop (pt_Name g) byName) (tunnels @ [lt]) opened c
      | None \<Rightarrow>
          (case openReconnectedTunnel opts bi g (fmlookup byName (pt_Name g)) c of
             None \<Rightarrow> (False, tunnels, opened, byName, c)
           | Some (lt, c') \<Rightarrow> reconnect_tunnels opts bi gs byName (tunnels @ [lt]) (opened @ [lt]) c'))"

section \<open>Reconnecting\<close>

text \<open>\<open>applyReconnectedSession\<close> runs under \<open>networkMu\<close> but releases the connection's lock while it
  builds the data plane and binds, so that \<open>Close\<close> can come in between: it is two steps, with what
  the first made in \<open>reconnectPending\<close>. \<open>pd_left\<close> are the values that stay in \<open>byName\<close>.\<close>

record reconnectPending =
  pd_replaced :: bool
  pd_next :: connectionNetwork
  pd_tunnels :: "localTunnel list"
  pd_opened :: "localTunnel list"
  pd_left :: "localTunnel list"
  pd_response :: AuthResponse
  pd_method :: "string \<times> string"

definition byName_of :: "localTunnel list \<Rightarrow> (string, localTunnel) fmap" where
  "byName_of existing = fold (\<lambda>lt. fmupd (lt_name lt) lt) existing fmempty"

definition left_over :: "(string, localTunnel) fmap \<Rightarrow> localTunnel list \<Rightarrow> localTunnel list" where
  "left_over byName existing = filter (\<lambda>lt. fmlookup byName (lt_name lt) = Some lt) existing"

text \<open>The deferred function of an attempt that is not committed.\<close>

definition reconnect_abort :: "bool \<Rightarrow> connectionNetwork \<Rightarrow> localTunnel list \<Rightarrow> connection \<Rightarrow> connection" where
  "reconnect_abort replaced nxt opened c =
     (let c1 = fold closeLocalTunnel opened c in if replaced then close_stack (cg_stack nxt) c1 else c1)"

definition forced_of :: "connection \<Rightarrow> string" where
  "forced_of c = (case cn_network c of None \<Rightarrow> [] | Some n \<Rightarrow> if cg_multipath n then cg_forced n else [])"

definition reconnect_network ::
  "clientOptions \<Rightarrow> bool \<Rightarrow> AuthResponse \<Rightarrow> connection \<Rightarrow> (bool \<times> connectionNetwork \<times> connection) option" where
  "reconnect_network opts stackOk r c =
     (case (case cn_network c of Some n \<Rightarrow> if network_matches n r then Some n else None | None \<Rightarrow> None) of
        Some n \<Rightarrow> Some (False, n, c)
      | None \<Rightarrow>
          if cn_networkKey c = [] then None
          else map_option (\<lambda>n. (True, if forced_of c \<noteq> [] then bind_SetForced (forced_of c) n else n,
                 c\<lparr>cn_next := Suc (cn_next c), cn_stacks := cn_next c # cn_stacks c\<rparr>))
               (newConnectionNetwork opts stackOk (cn_next c) r))"

definition reconnect_prepare ::
  "clientOptions \<Rightarrow> bool \<Rightarrow> listeners \<Rightarrow> AuthResponse \<Rightarrow> string \<times> string \<Rightarrow> connection
     \<Rightarrow> reconnectPending option \<times> connection" where
  "reconnect_prepare opts stackOk bi r method c =
     (if cn_closed c then (None, c)
      else case reconnect_network opts stackOk r c of
        None \<Rightarrow> (None, c)
      | Some (replaced, nxt, c1) \<Rightarrow>
          (case reconnect_tunnels opts bi (rs_Tunnels r) (byName_of (cn_tunnels c)) [] [] c1 of
             (ok, tunnels, opened, byName, c2) \<Rightarrow>
               if ok then (Some \<lparr>pd_replaced = replaced, pd_next = nxt, pd_tunnels = tunnels, pd_opened = opened,
                 pd_left = left_over byName (cn_tunnels c), pd_response = r, pd_method = method\<rparr>, c2)
               else (None, reconnect_abort replaced nxt opened c2)))"

text \<open>What the commit writes into the listener of a grant.\<close>

definition regrant_tunnel :: "ipAddr \<Rightarrow> localTunnel \<Rightarrow> ptunnel \<Rightarrow> localTunnel" where
  "regrant_tunnel serverIP lt g = lt\<lparr>lt_virtualPort := pt_VirtualPort g,
     lt_socks := IsBrowserSocksTarget (pt_TargetHint g), lt_target := (serverIP, pt_VirtualPort g),
     lt_idleTimeout := pt_UDPIdleTimeout g\<rparr>"

definition expiry :: "gotime \<Rightarrow> int \<Rightarrow> gotime option" where
  "expiry now ttl = (if ttl > 0 then Some (now + ttl * 1000000000) else None)"

definition reconnect_commit :: "gotime \<Rightarrow> reconnectPending \<Rightarrow> connection \<Rightarrow> bool \<times> connection" where
  "reconnect_commit now p c =
     (if cn_closed c then (False, reconnect_abort (pd_replaced p) (pd_next p) (pd_opened p) c)
      else
        let r = pd_response p; oldStack = cn_stack c;
            c1 = (if pd_replaced p
                  then c\<lparr>cn_dataStop := Some (cn_next c), cn_next := Suc (cn_next c),
                         cn_stack := Some (cg_stack (pd_next p)), cn_network := Some (pd_next p),
                         cn_transport := state_connectionTransport
                           (initialTransportState (cg_useWS (pd_next p)) (rs_UDP r))\<rparr>
                  else c);
            c2 = c1\<lparr>cn_tunnels := map2 (regrant_tunnel (cg_serverIP (pd_next p))) (pd_tunnels p) (rs_Tunnels r),
                    cn_response := r, cn_token := rs_Token r, cn_method := pd_method p,
                    cn_expires := expiry now (rs_TTLSeconds r),
                    cn_network := map_option (SetHeader (rs_Token r)) (cn_network c1)\<rparr>;
            c3 = fold closeLocalTunnel (pd_left p) c2;
            c4 = (case oldStack of Some s \<Rightarrow> if pd_replaced p then close_stack s c3 else c3 | None \<Rightarrow> c3)
        in (True, c4\<lparr>cn_forwarding := map lt_sock (pd_opened p) @ cn_forwarding c4\<rparr>))"

definition transportGenerationCurrent :: "nat \<Rightarrow> connection \<Rightarrow> bool" where
  "transportGenerationCurrent stop c \<longleftrightarrow> \<not> cn_closed c \<and> cn_dataStop c = Some stop"

section \<open>Replacing one listener\<close>

text \<open>\<open>ReplaceListener\<close> also runs under \<open>networkMu\<close> and releases the connection's lock to bind. A
  tunnel is the object whose socket is \<open>rl_old\<close>: only the holder of \<open>networkMu\<close> changes sockets.
  \<open>addrText\<close> is \<open>netip.Addr.String\<close>.\<close>

record replacePending =
  rl_old :: nat
  rl_new :: nat
  rl_addr :: string

datatype replaceResult = ReplaceErr | ReplaceSame string | ReplaceBound replacePending

definition replace_prepare ::
  "(ipAddr \<Rightarrow> string) \<Rightarrow> listeners \<Rightarrow> string \<Rightarrow> string \<Rightarrow> string \<Rightarrow> int \<Rightarrow> connection \<Rightarrow> replaceResult \<times> connection" where
  "replace_prepare addrText bi bindAddr name host0 port c =
     (if name = [] \<or> port < 1 \<or> port > 65535 then (ReplaceErr, c)
      else case (if host0 = [] then Some [] else map_option addrText (ParseAddr host0)) of
        None \<Rightarrow> (ReplaceErr, c)
      | Some host1 \<Rightarrow>
          (case find (\<lambda>t. lt_name t = name) (cn_tunnels c) of
             None \<Rightarrow> (ReplaceErr, c)
           | Some t \<Rightarrow>
               if cn_stack c = None then (ReplaceErr, c)
               else
                 let current = SplitHostPort (lt_localAddr t);
                     host = (if host1 \<noteq> [] then host1 else case current of
                         Some (h, p) \<Rightarrow> h | None \<Rightarrow> if bindAddr = [] then ''127.0.0.1'' else bindAddr)
                 in if current = Some (host, itoa (nat port)) then (ReplaceSame (lt_localAddr t), c)
                    else case (if lt_protocol t = ''udp'' then bi_udp bi (cn_next c) (net_ParseIP host) port
                               else bi_tcp bi (cn_next c) host port) of
                      None \<Rightarrow> (ReplaceErr, c)
                    | Some addr \<Rightarrow>
                        (ReplaceBound \<lparr>rl_old = lt_sock t, rl_new = cn_next c, rl_addr = addr\<rparr>,
                         c\<lparr>cn_next := Suc (cn_next c), cn_socks := cn_next c # cn_socks c\<rparr>)))"

definition replace_commit :: "replacePending \<Rightarrow> connection \<Rightarrow> string option \<times> connection" where
  "replace_commit p c =
     (if cn_stack c = None \<or> \<not> list_ex (\<lambda>t. lt_sock t = rl_old p) (cn_tunnels c)
      then (None, c\<lparr>cn_socks := removeAll (rl_new p) (cn_socks c)\<rparr>)
      else (Some (rl_addr p), c\<lparr>
        cn_tunnels := map (\<lambda>t. if lt_sock t = rl_old p then t\<lparr>lt_sock := rl_new p, lt_localAddr := rl_addr p\<rparr> else t)
                        (cn_tunnels c),
        cn_socks := removeAll (rl_old p) (cn_socks c),
        cn_forwarding := rl_new p # cn_forwarding c\<rparr>))"

section \<open>Renewal\<close>

text \<open>\<open>append([]string(nil), l...)\<close>.\<close>

definition nil_if_empty :: "string list \<Rightarrow> string list option" where
  "nil_if_empty l = (if l = [] then None else Some l)"

definition carry_over :: "AuthResponse \<Rightarrow> AuthResponse \<Rightarrow> AuthResponse" where
  "carry_over old out = out\<lparr>
     rs_TunnelIP := (if rs_TunnelIP out = [] then rs_TunnelIP old else rs_TunnelIP out),
     rs_ServerTunnelIP := (if rs_ServerTunnelIP out = [] then rs_ServerTunnelIP old else rs_ServerTunnelIP out),
     rs_ServerPublicKey := (if rs_ServerPublicKey out = [] then rs_ServerPublicKey old else rs_ServerPublicKey out),
     rs_WebSocket := (if rs_WebSocket out = [] then rs_WebSocket old else rs_WebSocket out),
     rs_TransportCapabilities := (case rs_TransportCapabilities out of
         Some l \<Rightarrow> Some l | None \<Rightarrow> nil_if_empty (caps_of (rs_TransportCapabilities old))),
     rs_RequiredTransportCapabilities := (case rs_RequiredTransportCapabilities out of
         Some l \<Rightarrow> Some l | None \<Rightarrow> nil_if_empty (caps_of (rs_RequiredTransportCapabilities old)))\<rparr>"

text \<open>\<open>out\<close> is the decoded answer, or \<open>None\<close> when the exchange failed.\<close>

definition client_renew :: "gotime \<Rightarrow> AuthResponse option \<Rightarrow> connection \<Rightarrow> bool \<times> connection" where
  "client_renew now out c = (case out of
       None \<Rightarrow> (False, c)
     | Some out \<Rightarrow>
         if cn_closed c then (False, c)
         else (True, c\<lparr>cn_response := carry_over (cn_response c) out, cn_token := rs_Token out,
           cn_expires := expiry now (rs_TTLSeconds out),
           cn_network := map_option (SetHeader (rs_Token out)) (cn_network c)\<rparr>))"

text \<open>The pause before a renewal, in the 64-bit arithmetic of \<open>time.Duration\<close>, and the back-off
  between failed attempts.\<close>

definition renewal_pause :: "int \<Rightarrow> duration" where
  "renewal_pause ttl0 =
     (let ttl = (if ttl0 \<le> 0 then 60 else ttl0);
          scaled = sint (word_of_int ttl * 1000000000 * 2 :: 64 word);
          d = min (if scaled < 0 then - (- scaled div 3) else scaled div 3) 15000000000
      in if d < 1000000000 then 1000000000 else d)"

definition next_delay :: "duration \<Rightarrow> duration" where
  "next_delay delay = min (delay * 2) 60000000000"

section \<open>Closing and connecting\<close>

text \<open>\<open>Close\<close> detaches the listeners and the stack under the lock and closes them after it.\<close>

definition close_detach :: "connection \<Rightarrow> (nat list \<times> nat list) \<times> connection" where
  "close_detach c =
     (if cn_closed c then (([], []), c)
      else ((map lt_sock (cn_tunnels c), case cn_stack c of None \<Rightarrow> [] | Some s \<Rightarrow> [s]),
            c\<lparr>cn_closed := True, cn_dataStop := None, cn_tunnels := [], cn_stack := None,
              cn_transport := state_connectionTransport (nextTransportState transportStateStopped transportShutdown False)\<rparr>))"

definition close_release :: "nat list \<times> nat list \<Rightarrow> connection \<Rightarrow> connection" where
  "close_release d c = c\<lparr>cn_socks := filter (\<lambda>s. s \<notin> set (fst d)) (cn_socks c),
     cn_stacks := filter (\<lambda>s. s \<notin> set (snd d)) (cn_stacks c)\<rparr>"

definition conn_Close :: "connection \<Rightarrow> connection" where
  "conn_Close c = (let (d, c1) = close_detach c in close_release d c1)"

text \<open>The loop of \<open>ConnectWithOptions\<close> over the granted tunnels binds as \<open>openReconnectedTunnel\<close> binds a
  tunnel that has no listener yet.\<close>

definition connect_tunnel :: "clientOptions \<Rightarrow> listeners \<Rightarrow> ipAddr \<Rightarrow> ptunnel \<Rightarrow> connection \<Rightarrow> connection option" where
  "connect_tunnel opts bi serverIP g c = (case openReconnectedTunnel opts bi g None c of
       None \<Rightarrow> None
     | Some (lt, c1) \<Rightarrow>
         Some (c1\<lparr>cn_tunnels := cn_tunnels c1 @ [lt\<lparr>lt_virtualPort := pt_VirtualPort g,
             lt_target := (serverIP, pt_VirtualPort g),
             lt_socks := (pt_Protocol g \<noteq> ''udp'' \<and> IsBrowserSocksTarget (pt_TargetHint g)),
             lt_idleTimeout := (if pt_Protocol g = ''udp'' then pt_UDPIdleTimeout g else 0)\<rparr>],
           cn_forwarding := lt_sock lt # cn_forwarding c1\<rparr>))"

fun connect_tunnels :: "clientOptions \<Rightarrow> listeners \<Rightarrow> ipAddr \<Rightarrow> ptunnel list \<Rightarrow> connection \<Rightarrow> bool \<times> connection" where
  "connect_tunnels opts bi serverIP [] c = (True, c)"
| "connect_tunnels opts bi serverIP (g # gs) c = (case connect_tunnel opts bi serverIP g c of
       None \<Rightarrow> (False, c)
     | Some c1 \<Rightarrow> connect_tunnels opts bi serverIP gs c1)"

text \<open>\<open>ConnectWithOptions\<close> after the authentication; \<open>writeOk\<close> says that the status file could be
  written. \<open>None\<close> is a failure before there is a connection.\<close>

definition ConnectWithOptions ::
  "clientOptions \<Rightarrow> bool \<Rightarrow> listeners \<Rightarrow> bool \<Rightarrow> gotime \<Rightarrow> string \<Rightarrow> AuthResponse \<Rightarrow> string \<times> string
     \<Rightarrow> (bool \<times> connection) option" where
  "ConnectWithOptions opts stackOk bi writeOk now key r method =
     (case newConnectionNetwork opts stackOk 0 r of
        None \<Rightarrow> None
      | Some n \<Rightarrow>
          let c0 = \<lparr>cn_closed = False, cn_network = Some n, cn_networkKey = key, cn_stack = Some 0,
                 cn_dataStop = Some 1, cn_tunnels = [], cn_response = r, cn_token = rs_Token r, cn_method = method,
                 cn_expires = expiry now (rs_TTLSeconds r),
                 cn_transport = state_connectionTransport (initialTransportState (cg_useWS n) (rs_UDP r)),
                 cn_socks = [], cn_stacks = [0], cn_next = 2, cn_forwarding = []\<rparr>;
              (ok, c1) = connect_tunnels opts bi (cg_serverIP n) (rs_Tunnels r) c0
          in Some (if ok \<and> writeOk then (True, c1) else (False, conn_Close c1)))"

section \<open>What opening and closing change\<close>

lemma fold_closeLocalTunnel:
  "fold closeLocalTunnel l c = c\<lparr>cn_socks := filter (\<lambda>s. s \<notin> lt_sock ` set l) (cn_socks c)\<rparr>"
proof (induction l arbitrary: c)
  case (Cons lt l)
  have "filter (\<lambda>s. s \<notin> lt_sock ` set l) (removeAll (lt_sock lt) xs) = filter (\<lambda>s. s \<notin> lt_sock ` set (lt # l)) xs" for xs
    by (induction xs) auto
  with Cons show ?case by (simp add: closeLocalTunnel_def)
qed (simp add: closeLocalTunnel_def)

lemma openReconnectedTunnel_frame:
  assumes "openReconnectedTunnel opts bi g old c = Some (lt, c')"
  shows "lt_name lt = pt_Name g \<and> lt_protocol lt = tunnel_proto g \<and> lt_sock lt = cn_next c
    \<and> c' = c\<lparr>cn_next := Suc (cn_next c), cn_socks := cn_next c # cn_socks c\<rparr>"
  using assms unfolding openReconnectedTunnel_def Let_def
  by (auto split: prod.split_asm if_split_asm option.split_asm)

text \<open>\<open>n\<close> sockets have been opened.\<close>

definition opened_socks :: "nat \<Rightarrow> connection \<Rightarrow> connection" where
  "opened_socks n c = c\<lparr>cn_next := cn_next c + n, cn_socks := rev [cn_next c..<cn_next c + n] @ cn_socks c\<rparr>"

lemma opened_socks_0 [simp]: "opened_socks 0 c = c"
  by (simp add: opened_socks_def)

lemma opened_socks_Suc: "opened_socks n (c\<lparr>cn_next := Suc (cn_next c), cn_socks := cn_next c # cn_socks c\<rparr>) = opened_socks (Suc n) c"
  by (simp add: opened_socks_def upt_conv_Cons del: upt_Suc)

lemma opened_socks_sel [simp]:
  "cn_closed (opened_socks n c) = cn_closed c" "cn_network (opened_socks n c) = cn_network c"
  "cn_stack (opened_socks n c) = cn_stack c" "cn_tunnels (opened_socks n c) = cn_tunnels c"
  "cn_token (opened_socks n c) = cn_token c" "cn_stacks (opened_socks n c) = cn_stacks c"
  "cn_next (opened_socks n c) = cn_next c + n" "cn_forwarding (opened_socks n c) = cn_forwarding c"
  "cn_dataStop (opened_socks n c) = cn_dataStop c" "cn_transport (opened_socks n c) = cn_transport c"
  "set (cn_socks (opened_socks n c)) = {cn_next c..<cn_next c + n} \<union> set (cn_socks c)"
  by (simp_all add: opened_socks_def)

lemma reconnect_tunnels_frame:
  assumes "reconnect_tunnels opts bi gs m ts os c = (ok, ts', os', m', c')"
  shows "\<exists>new. os' = os @ new \<and> map lt_sock new = [cn_next c..<cn_next c + length new] \<and> c' = opened_socks (length new) c"
  using assms
proof (induction gs arbitrary: m ts os c)
  case (Cons g gs)
  show ?case
  proof (cases "reusable m g")
    case None
    show ?thesis
    proof (cases "openReconnectedTunnel opts bi g (fmlookup m (pt_Name g)) c")
      case (Some r)
      obtain lt c1 where r: "r = (lt, c1)" by force
      note f = openReconnectedTunnel_frame [OF Some [unfolded r]]
      with Cons.prems None Some r
      have "reconnect_tunnels opts bi gs m (ts @ [lt]) (os @ [lt])
          (c\<lparr>cn_next := Suc (cn_next c), cn_socks := cn_next c # cn_socks c\<rparr>) = (ok, ts', os', m', c')" by simp
      from Cons.IH [OF this] obtain new where n: "os' = os @ lt # new"
          "map lt_sock new = [Suc (cn_next c)..<Suc (cn_next c) + length new]" "c' = opened_socks (Suc (length new)) c"
        by (auto simp: opened_socks_Suc)
      then show ?thesis using f by (intro exI [of _ "lt # new"]) (simp add: upt_conv_Cons del: upt_Suc)
    qed (use Cons.prems None in simp)
  qed (use Cons in simp)
qed simp

text \<open>A loop that succeeds serves every grant, in order, by the listener that can be reused or by one
  it opened, and leaves in the map what was not reused.\<close>

definition keyed_by_name :: "(string, localTunnel) fmap \<Rightarrow> bool" where
  "keyed_by_name m \<longleftrightarrow> (\<forall>n lt. fmlookup m n = Some lt \<longrightarrow> lt_name lt = n)"

definition serves :: "ptunnel \<Rightarrow> localTunnel \<Rightarrow> bool" where
  "serves g lt \<longleftrightarrow> lt_name lt = pt_Name g \<and> lt_protocol lt = tunnel_proto g"

lemma reusable_serves: "keyed_by_name m \<Longrightarrow> reusable m g = Some lt \<Longrightarrow> serves g lt"
  by (auto simp: reusable_def keyed_by_name_def serves_def split: option.split_asm if_split_asm)

lemma reusable_fmdrop: "pt_Name h \<noteq> n \<Longrightarrow> reusable (fmdrop n m) h = reusable m h"
  by (simp add: reusable_def)

lemma keyed_fmdrop: "keyed_by_name m \<Longrightarrow> keyed_by_name (fmdrop n m)"
  by (simp add: keyed_by_name_def)

lemma reconnect_tunnels_ok:
  assumes "reconnect_tunnels opts bi gs m ts os c = (True, ts', os', m', c')" and "distinct (map pt_Name gs)" and "keyed_by_name m"
  shows "\<exists>new. ts' = ts @ new \<and> list_all2 serves gs new \<and> list_all2 (\<lambda>g lt. \<forall>x. reusable m g = Some x \<longrightarrow> lt = x) gs new
    \<and> os' = os @ map snd (filter (\<lambda>(g, lt). reusable m g = None) (zip gs new))
    \<and> (\<forall>n. fmlookup m' n = (if \<exists>g \<in> set gs. pt_Name g = n \<and> reusable m g \<noteq> None then None else fmlookup m n))"
  using assms
proof (induction gs arbitrary: m ts os c)
  case (Cons g gs)
  show ?case
  proof (cases "reusable m g")
    case None
    with Cons.prems(1) obtain lt c1 where o: "openReconnectedTunnel opts bi g (fmlookup m (pt_Name g)) c = Some (lt, c1)"
        and "reconnect_tunnels opts bi gs m (ts @ [lt]) (os @ [lt]) c1 = (True, ts', os', m', c')"
      by (auto split: option.split_asm)
    from Cons.IH [OF this(2)] Cons.prems(2,3) obtain new where "ts' = (ts @ [lt]) @ new" "list_all2 serves gs new"
        "list_all2 (\<lambda>g lt. \<forall>x. reusable m g = Some x \<longrightarrow> lt = x) gs new"
        "os' = (os @ [lt]) @ map snd (filter (\<lambda>(g, lt). reusable m g = None) (zip gs new))"
        "\<forall>n. fmlookup m' n = (if \<exists>g \<in> set gs. pt_Name g = n \<and> reusable m g \<noteq> None then None else fmlookup m n)" by auto
    moreover have "serves g lt" using openReconnectedTunnel_frame [OF o] by (simp add: serves_def)
    ultimately show ?thesis using None by (intro exI [of _ "lt # new"]) simp
  next
    case (Some lt)
    let ?m = "fmdrop (pt_Name g) m"
    have ne: "pt_Name h \<noteq> pt_Name g" if "h \<in> set gs" for h
      using imageI [OF that, of pt_Name] Cons.prems(2) by auto
    have other: "reusable ?m h = reusable m h" if "h \<in> set gs" for h
      by (rule reusable_fmdrop [OF ne [OF that]])
    have "reconnect_tunnels opts bi gs ?m (ts @ [lt]) os c = (True, ts', os', m', c')"
      using Cons.prems(1) Some by simp
    from Cons.IH [OF this] Cons.prems(2,3) obtain new where n: "ts' = (ts @ [lt]) @ new" "list_all2 serves gs new"
        "list_all2 (\<lambda>g lt. \<forall>x. reusable ?m g = Some x \<longrightarrow> lt = x) gs new"
        "os' = os @ map snd (filter (\<lambda>(g, lt). reusable ?m g = None) (zip gs new))"
        "\<forall>n. fmlookup m' n = (if \<exists>g \<in> set gs. pt_Name g = n \<and> reusable ?m g \<noteq> None then None else fmlookup ?m n)"
      by (auto simp: keyed_fmdrop)
    have f: "filter (\<lambda>(g, lt). reusable ?m g = None) (zip gs new) = filter (\<lambda>(g, lt). reusable m g = None) (zip gs new)"
      by (rule filter_cong) (auto dest!: set_zip_leftD simp: other)
    have a: "list_all2 (\<lambda>g lt. \<forall>x. reusable m g = Some x \<longrightarrow> lt = x) gs new"
      using n(3) by (rule list.rel_mono_strong) (simp add: other)
    have l: "fmlookup m' n = (if \<exists>h \<in> set (g # gs). pt_Name h = n \<and> reusable m h \<noteq> None then None else fmlookup m n)" for n
      using n(5) [rule_format, of n] ne other Some by (cases "n = pt_Name g") auto
    from n(1,2,4) f a l reusable_serves [OF Cons.prems(3) Some] Some show ?thesis
      by (intro exI [of _ "lt # new"]) simp
  qed
qed simp

lemma byName_of_lookup:
  assumes "distinct (map lt_name l)"
  shows "fmlookup (byName_of l) n = Some lt \<longleftrightarrow> lt \<in> set l \<and> lt_name lt = n"
  using assms
proof (induction l rule: rev_induct)
  case (snoc x l)
  then have d: "distinct (map lt_name l)" "lt_name x \<notin> lt_name ` set l" by auto
  have "byName_of (l @ [x]) = fmupd (lt_name x) x (byName_of l)" by (simp add: byName_of_def)
  then show ?case using snoc.IH [OF d(1)] d(2) by auto
qed (simp add: byName_of_def)

lemma keyed_byName_of: "distinct (map lt_name l) \<Longrightarrow> keyed_by_name (byName_of l)"
  by (simp add: keyed_by_name_def byName_of_lookup)

lemma reusable_byName_of:
  assumes "distinct (map lt_name l)"
  shows "reusable (byName_of l) g = Some lt \<longleftrightarrow> lt \<in> set l \<and> serves g lt"
proof -
  have "reusable (byName_of l) g = Some lt \<longleftrightarrow> fmlookup (byName_of l) (pt_Name g) = Some lt \<and> lt_protocol lt = tunnel_proto g"
    by (auto simp: reusable_def split: option.split)
  then show ?thesis by (auto simp: byName_of_lookup [OF assms] serves_def)
qed

lemma network_matches_refl: "cg_response n = r \<Longrightarrow> network_matches n r"
  by (simp add: network_matches_def Let_def)

lemma newConnectionNetwork_made:
  assumes "newConnectionNetwork opts stackOk stack r = Some n"
  shows "cg_stack n = stack" and "cg_response n = r" and "cg_header n = rs_Token r"
    and "if cg_useWS n then rs_WebSocket r \<noteq> [] else rs_UDP r \<noteq> [] \<and> matchesIPVersion (rs_UDP r) (cl_IPVersion opts)"
    and "normalizeTransportPreference (cl_UseWebSocket opts) (cl_Transport opts) = Some (cg_transport n)"
    and "cg_transport n = PathWSS \<Longrightarrow> cg_useWS n" and "cg_transport n = PathDirect \<Longrightarrow> \<not> cg_useWS n"
    and "cg_multipath n \<Longrightarrow> cg_forced n = cg_transport n"
proof -
  let ?udp = "if rs_UDP r \<noteq> [] \<and> \<not> matchesIPVersion (rs_UDP r) (cl_IPVersion opts) then [] else rs_UDP r"
  let ?mp = "rs_Multipath r \<and> hasTransportCapability (caps_of (rs_TransportCapabilities r)) CapabilityMultipathV3"
  note d = assms [unfolded newConnectionNetwork_def Let_def]
  obtain ip where i: "ParseAddr (rs_TunnelIP r) = Some ip" using d by (auto split: option.split_asm)
  note d = d [unfolded i option.case]
  obtain transport where t: "normalizeTransportPreference (cl_UseWebSocket opts) (cl_Transport opts) = Some transport"
    using d by (auto split: option.split_asm)
  note d = d [unfolded t option.case]
  obtain useWS where s: "selectTransport (cl_UseWebSocket opts) transport ?mp ?udp (rs_WebSocket r) = Some useWS"
    using d by (cases "selectTransport (cl_UseWebSocket opts) transport ?mp ?udp (rs_WebSocket r)") simp_all
  note d = d [unfolded s option.case]
  obtain serverIP where ip: "resolveServerTunnelIP (rs_ServerTunnelIP r) ip = Some serverIP"
    using d by (cases "resolveServerTunnelIP (rs_ServerTunnelIP r) ip") simp_all
  have n: "n = \<lparr>cg_stack = stack, cg_serverIP = serverIP, cg_udpEndpoint = ?udp,
                cg_transport = transport, cg_useWS = useWS, cg_multipathV3 = ?mp, cg_response = r,
                cg_forced = (if useWS \<and> ?mp then transport else []), cg_header = rs_Token r\<rparr>"
    using d [unfolded ip option.case] by (cases stackOk) simp_all
  note adv = selectTransport_advertised [OF s]
  show "cg_stack n = stack" "cg_response n = r" "cg_header n = rs_Token r"
    "normalizeTransportPreference (cl_UseWebSocket opts) (cl_Transport opts) = Some (cg_transport n)"
    "cg_multipath n \<Longrightarrow> cg_forced n = cg_transport n"
    using t n by (simp_all add: cg_multipath_def)
  show "if cg_useWS n then rs_WebSocket r \<noteq> [] else rs_UDP r \<noteq> [] \<and> matchesIPVersion (rs_UDP r) (cl_IPVersion opts)"
    using adv(1) n by (auto split: if_split_asm)
  show "cg_transport n = PathWSS \<Longrightarrow> cg_useWS n" "cg_transport n = PathDirect \<Longrightarrow> \<not> cg_useWS n"
    using adv(2,3) n by simp_all
qed

definition rebuilt :: "bool \<Rightarrow> connection \<Rightarrow> connection" where
  "rebuilt b c = (if b then c\<lparr>cn_next := Suc (cn_next c), cn_stacks := cn_next c # cn_stacks c\<rparr> else c)"

lemma rebuilt_sel [simp]:
  "cn_closed (rebuilt b c) = cn_closed c" "cn_network (rebuilt b c) = cn_network c"
  "cn_stack (rebuilt b c) = cn_stack c" "cn_tunnels (rebuilt b c) = cn_tunnels c"
  "cn_token (rebuilt b c) = cn_token c" "cn_socks (rebuilt b c) = cn_socks c"
  "cn_forwarding (rebuilt b c) = cn_forwarding c" "cn_dataStop (rebuilt b c) = cn_dataStop c"
  "cn_transport (rebuilt b c) = cn_transport c"
  "cn_stacks (rebuilt b c) = (if b then cn_next c # cn_stacks c else cn_stacks c)"
  "cn_next (rebuilt b c) = (if b then Suc (cn_next c) else cn_next c)"
  by (simp_all add: rebuilt_def)

definition must_replace :: "connection \<Rightarrow> AuthResponse \<Rightarrow> bool" where
  "must_replace c r = (case cn_network c of None \<Rightarrow> True | Some n \<Rightarrow> \<not> network_matches n r)"

lemma SetForced_sel [simp]:
  "cg_stack (bind_SetForced f n) = cg_stack n" "cg_response (bind_SetForced f n) = cg_response n"
  "cg_serverIP (bind_SetForced f n) = cg_serverIP n" "cg_useWS (bind_SetForced f n) = cg_useWS n"
  "cg_header (bind_SetForced f n) = cg_header n" "cg_multipath (bind_SetForced f n) = cg_multipath n"
  "cg_transport (bind_SetForced f n) = cg_transport n"
  by (simp_all add: bind_SetForced_def cg_multipath_def)

lemma SetHeader_sel [simp]:
  "cg_stack (SetHeader f n) = cg_stack n" "cg_response (SetHeader f n) = cg_response n"
  "cg_serverIP (SetHeader f n) = cg_serverIP n" "cg_useWS (SetHeader f n) = cg_useWS n"
  "cg_multipath (SetHeader f n) = cg_multipath n" "cg_forced (SetHeader f n) = cg_forced n"
  "cg_transport (SetHeader f n) = cg_transport n"
  by (simp_all add: SetHeader_def cg_multipath_def)

lemma SetHeader_set: "cg_useWS n \<Longrightarrow> cg_header (SetHeader t n) = t"
  by (simp add: SetHeader_def)

lemma reconnect_network_made:
  assumes "reconnect_network opts stackOk r c = Some (rep, nxt, c1)"
  shows "c1 = rebuilt rep c" and "rep = must_replace c r" and "network_matches nxt r"
    and "rep \<Longrightarrow> cg_stack nxt = cn_next c" and "\<not> rep \<Longrightarrow> cn_network c = Some nxt"
proof -
  have all: "c1 = rebuilt rep c \<and> rep = must_replace c r \<and> network_matches nxt r
    \<and> (if rep then cg_stack nxt = cn_next c else cn_network c = Some nxt)"
  proof (cases "must_replace c r")
    case True
    then have "(case cn_network c of Some n \<Rightarrow> if network_matches n r then Some n else None | None \<Rightarrow> None) = None"
      by (cases "cn_network c") (simp_all add: must_replace_def)
    with assms obtain n where n: "newConnectionNetwork opts stackOk (cn_next c) r = Some n"
        "nxt = (if forced_of c \<noteq> [] then bind_SetForced (forced_of c) n else n)" "rep" "c1 = rebuilt True c"
      by (auto simp: reconnect_network_def rebuilt_def split: if_split_asm)
    note m = newConnectionNetwork_made(1,2) [OF n(1)]
    have "cg_response nxt = r" "cg_stack nxt = cn_next c" using m n(2) by simp_all
    with network_matches_refl [of nxt r] n(3,4) True show ?thesis by simp
  next
    case False
    then obtain n where "cn_network c = Some n" "network_matches n r"
      by (auto simp: must_replace_def split: option.split_asm)
    with assms False show ?thesis by (simp add: reconnect_network_def rebuilt_def)
  qed
  then show "c1 = rebuilt rep c" "rep = must_replace c r" "network_matches nxt r"
    "rep \<Longrightarrow> cg_stack nxt = cn_next c" "\<not> rep \<Longrightarrow> cn_network c = Some nxt"
    by (auto split: if_split_asm)
qed

section \<open>A pending reconnect\<close>

definition tunnels_ok :: "connection \<Rightarrow> bool" where
  "tunnels_ok c \<longleftrightarrow> distinct (map lt_name (cn_tunnels c)) \<and> distinct (map lt_sock (cn_tunnels c))
     \<and> (\<forall>lt \<in> set (cn_tunnels c). lt_sock lt < cn_next c)"

text \<open>What a pending reconnect promises of the connection it will be committed on: its tunnels serve
  the grants, they and those to be closed are the opened and the existing ones, and every existing
  tunnel that can serve a grant does.\<close>

definition pending_fits :: "reconnectPending \<Rightarrow> connection \<Rightarrow> bool" where
  "pending_fits p c \<longleftrightarrow>
     pd_replaced p = must_replace c (pd_response p)
     \<and> (\<not> pd_replaced p \<longrightarrow> (\<exists>n. cn_network c = Some n \<and> cg_serverIP n = cg_serverIP (pd_next p)))
     \<and> set (pd_tunnels p) \<subseteq> set (pd_opened p) \<union> set (cn_tunnels c)
     \<and> mset (pd_tunnels p) + mset (pd_left p) = mset (pd_opened p) + mset (cn_tunnels c)
     \<and> (\<forall>lt \<in> set (cn_tunnels c). \<forall>g \<in> set (rs_Tunnels (pd_response p)). serves g lt \<longrightarrow> lt \<in> set (pd_tunnels p))"

definition reconnect_ok :: "reconnectPending \<Rightarrow> bool" where
  "reconnect_ok p \<longleftrightarrow> distinct (map pt_Name (rs_Tunnels (pd_response p)))
     \<and> list_all2 serves (rs_Tunnels (pd_response p)) (pd_tunnels p) \<and> network_matches (pd_next p) (pd_response p)
     \<and> distinct (map lt_sock (pd_tunnels p)) \<and> distinct (map lt_sock (pd_opened p))
     \<and> set (pd_opened p) \<subseteq> set (pd_tunnels p)"

lemma serves_distinct:
  assumes "list_all2 serves gs lts"
  shows "map lt_name lts = map pt_Name gs"
  using assms by (induction rule: list_all2_induct) (simp_all add: serves_def)

lemma distinct_map_in: "distinct (map f xs) \<Longrightarrow> x \<in> set xs \<Longrightarrow> y \<in> set xs \<Longrightarrow> f x = f y \<Longrightarrow> x = y"
  by (auto simp: distinct_map inj_on_def)

lemma distinct_map_choose:
  assumes "distinct (map f xs)" and "\<And>x y. x \<in> set xs \<Longrightarrow> y \<in> set xs \<Longrightarrow> h x = h y \<Longrightarrow> x = y"
  shows "distinct (map h xs)"
  using assms by (auto simp: distinct_map inj_on_def)

text \<open>A loop that succeeds splits the existing tunnels into those that serve a grant and those left over.\<close>

lemma reconnect_tunnels_fresh:
  assumes "reconnect_tunnels opts bi gs m [] [] c = (ok, ts, os, bn, c')"
  shows "c' = opened_socks (length os) c" and "map lt_sock os = [cn_next c..<cn_next c']"
    and "lt \<in> set os \<Longrightarrow> cn_next c \<le> lt_sock lt" and "distinct (map lt_sock os)"
proof -
  from reconnect_tunnels_frame [OF assms] have c': "c' = opened_socks (length os) c"
      and os: "map lt_sock os = [cn_next c..<cn_next c + length os]" by auto
  then show "c' = opened_socks (length os) c" "map lt_sock os = [cn_next c..<cn_next c']" "distinct (map lt_sock os)"
    by simp_all
  assume "lt \<in> set os"
  then have "lt_sock lt \<in> set [cn_next c..<cn_next c + length os]" by (simp flip: os)
  then show "cn_next c \<le> lt_sock lt" by simp
qed

lemma reconnect_tunnels_sets:
  assumes t: "reconnect_tunnels opts bi gs (byName_of T) [] [] c = (True, ts, os, bn, c')"
    and d: "distinct (map pt_Name gs)" and dn: "distinct (map lt_name T)"
    and fresh: "\<And>lt. lt \<in> set T \<Longrightarrow> lt_sock lt < cn_next c"
  shows "list_all2 serves gs ts" and "set os \<subseteq> set ts" and "set ts \<subseteq> set os \<union> set T"
    and "lt \<in> set T \<Longrightarrow> g \<in> set gs \<Longrightarrow> serves g lt \<Longrightarrow> lt \<in> set ts"
    and "set (left_over bn T) = set T - set ts"
proof -
  let ?m = "byName_of T"
  note re = reusable_byName_of [OF dn]
  from reconnect_tunnels_ok [OF t d keyed_byName_of [OF dn]] have sv: "list_all2 serves gs ts"
      and reuse: "list_all2 (\<lambda>g lt. \<forall>x. reusable ?m g = Some x \<longrightarrow> lt = x) gs ts"
      and os': "os = map snd (filter (\<lambda>(g, lt). reusable ?m g = None) (zip gs ts))"
      and bn: "\<And>n. fmlookup bn n = (if \<exists>g \<in> set gs. pt_Name g = n \<and> reusable ?m g \<noteq> None then None else fmlookup ?m n)"
    by auto
  have lens: "length gs = length ts" using sv by (rule list_all2_lengthD)
  have pair: "lt \<in> set os \<or> reusable ?m g = Some lt" if "(g, lt) \<in> set (zip gs ts)" for g lt
    using that reuse by (cases "reusable ?m g") (force simp: os', auto simp: list_all2_iff)
  have from_ts: "\<exists>g. (g, lt) \<in> set (zip gs ts)" if "lt \<in> set ts" for lt
    using that lens by (auto simp: in_set_conv_nth set_zip)
  show "list_all2 serves gs ts" by (rule sv)
  show "set os \<subseteq> set ts" by (auto simp: os' dest: set_zip_rightD)
  show "set ts \<subseteq> set os \<union> set T" using from_ts pair re by blast
  have reused: "lt \<in> set ts" if lt: "reusable ?m g = Some lt" "g \<in> set gs" for lt g
  proof -
    from lt lens obtain x where x: "(g, x) \<in> set (zip gs ts)" by (auto simp: in_set_conv_nth set_zip)
    with reuse lt have "x = lt" by (auto simp: list_all2_iff)
    with x show ?thesis by (auto dest: set_zip_rightD)
  qed
  then show "lt \<in> set T \<Longrightarrow> g \<in> set gs \<Longrightarrow> serves g lt \<Longrightarrow> lt \<in> set ts" using re by blast
  have old: "(\<exists>g \<in> set gs. pt_Name g = lt_name lt \<and> reusable ?m g \<noteq> None) \<longleftrightarrow> lt \<in> set ts" if lt: "lt \<in> set T" for lt
  proof
    assume "\<exists>g \<in> set gs. pt_Name g = lt_name lt \<and> reusable ?m g \<noteq> None"
    then obtain g x where g: "g \<in> set gs" "pt_Name g = lt_name lt" "reusable ?m g = Some x" by auto
    then have "x = lt" using lt re by (intro distinct_map_in [OF dn]) (auto simp: serves_def)
    with reused g show "lt \<in> set ts" by blast
  next
    assume "lt \<in> set ts"
    moreover have "lt \<notin> set os" using reconnect_tunnels_fresh(3) [OF t] fresh [OF lt] by (auto simp: leD)
    ultimately obtain g where "(g, lt) \<in> set (zip gs ts)" "reusable ?m g = Some lt" using from_ts pair by blast
    then show "\<exists>g \<in> set gs. pt_Name g = lt_name lt \<and> reusable ?m g \<noteq> None"
      using re by (auto simp: serves_def dest: set_zip_leftD)
  qed
  show "set (left_over bn T) = set T - set ts"
  proof (intro set_eqI)
    fix lt show "lt \<in> set (left_over bn T) \<longleftrightarrow> lt \<in> set T - set ts"
      using bn [of "lt_name lt"] old [of lt] byName_of_lookup [OF dn, of "lt_name lt" lt]
      by (cases "lt \<in> set T") (simp_all add: left_over_def split: if_split_asm)
  qed
qed

lemma reconnect_tunnels_distinct:
  assumes t: "reconnect_tunnels opts bi gs (byName_of T) [] [] c = (True, ts, os, bn, c')"
    and d: "distinct (map pt_Name gs)" and dn: "distinct (map lt_name T)" and ds: "distinct (map lt_sock T)"
    and fresh: "\<And>lt. lt \<in> set T \<Longrightarrow> lt_sock lt < cn_next c"
  shows "distinct (map lt_sock ts)"
proof (rule distinct_map_choose)
  note sets = reconnect_tunnels_sets [OF t d dn fresh]
  show "distinct (map lt_name ts)" using serves_distinct [OF sets(1)] d by simp
  fix x y assume xy: "x \<in> set ts" "y \<in> set ts" "lt_sock x = lt_sock y"
  from xy sets(3) reconnect_tunnels_fresh(3) [OF t] fresh
  consider "x \<in> set os" "y \<in> set os" | "x \<in> set T" "y \<in> set T" by (metis Un_iff leD subsetD)
  then show "x = y"
    using distinct_map_in [OF reconnect_tunnels_fresh(4) [OF t], of x y] distinct_map_in [OF ds, of x y] xy(3) by cases
qed

lemma count_distinct: "distinct l \<Longrightarrow> count (mset l) x = (if x \<in> set l then 1 else 0)"
  by (simp add: distinct_count_atmost_1)

lemma split_mset:
  assumes "distinct ps" "distinct ls" "distinct os" "distinct ts"
    and "set ls = set ts - set ps" "set os \<subseteq> set ps" "set ps \<subseteq> set os \<union> set ts" "set os \<inter> set ts = {}"
  shows "mset ps + mset ls = mset os + mset ts"
  using assms(5-8) by (intro multiset_eqI) (auto simp: count_distinct assms(1-4))

text \<open>The two outcomes of the first step.\<close>

lemma reconnect_prepare_Some:
  assumes prep: "reconnect_prepare opts stackOk bi r m c = (Some p, c')" and ok: "tunnels_ok c"
    and d: "distinct (map pt_Name (rs_Tunnels r))"
  shows "c' = opened_socks (length (pd_opened p)) (rebuilt (pd_replaced p) c)" and "\<not> cn_closed c"
    and "map lt_sock (pd_opened p) = [cn_next (rebuilt (pd_replaced p) c)..<cn_next c']"
    and "pd_response p = r" and "pd_method p = m" and "pd_replaced p \<Longrightarrow> cg_stack (pd_next p) = cn_next c"
    and "reconnect_ok p" and "pending_fits p c'"
proof -
  from prep obtain rep nxt c1 ts os bn where n: "reconnect_network opts stackOk r c = Some (rep, nxt, c1)"
      and t: "reconnect_tunnels opts bi (rs_Tunnels r) (byName_of (cn_tunnels c)) [] [] c1 = (True, ts, os, bn, c')"
      and p: "p = \<lparr>pd_replaced = rep, pd_next = nxt, pd_tunnels = ts, pd_opened = os,
                 pd_left = left_over bn (cn_tunnels c), pd_response = r, pd_method = m\<rparr>" and cl: "\<not> cn_closed c"
    unfolding reconnect_prepare_def by (auto split: if_split_asm option.split_asm prod.split_asm)
  note net = reconnect_network_made [OF n]
  have dn: "distinct (map lt_name (cn_tunnels c))" and ds: "distinct (map lt_sock (cn_tunnels c))"
    using ok by (simp_all add: tunnels_ok_def)
  have fresh: "lt_sock lt < cn_next c1" if "lt \<in> set (cn_tunnels c)" for lt
    using ok that by (auto simp: tunnels_ok_def net(1) less_SucI)
  note sets = reconnect_tunnels_sets [OF t d dn fresh] and new = reconnect_tunnels_fresh [OF t]
  show "c' = opened_socks (length (pd_opened p)) (rebuilt (pd_replaced p) c)" "\<not> cn_closed c"
    "map lt_sock (pd_opened p) = [cn_next (rebuilt (pd_replaced p) c)..<cn_next c']"
    "pd_response p = r" "pd_method p = m" "pd_replaced p \<Longrightarrow> cg_stack (pd_next p) = cn_next c"
    using new(1,2) cl net(1,4) p by simp_all
  show "reconnect_ok p" using sets(1,2) net(3) d new(4) reconnect_tunnels_distinct [OF t d dn ds fresh] p
    by (simp add: reconnect_ok_def)
  have T: "cn_tunnels c' = cn_tunnels c" "cn_network c' = cn_network c" by (simp_all add: new(1) net(1))
  have "\<not> rep \<longrightarrow> (\<exists>n. cn_network c = Some n \<and> cg_serverIP n = cg_serverIP nxt)" using net(5) by blast
  moreover have "must_replace c' r = must_replace c r" by (simp add: must_replace_def T)
  moreover have "mset ts + mset (left_over bn (cn_tunnels c)) = mset os + mset (cn_tunnels c)"
  proof (rule split_mset)
    show "distinct ts" "distinct os" "distinct (cn_tunnels c)" "distinct (left_over bn (cn_tunnels c))"
      using reconnect_tunnels_distinct [OF t d dn ds fresh] new(4) ds by (simp_all add: distinct_map left_over_def)
    show "set os \<inter> set (cn_tunnels c) = {}" using new(3) fresh by (fastforce simp: leD)
  qed (use sets(2,3,5) in simp_all)
  ultimately show "pending_fits p c'" using net(2) p sets(3,4) T by (simp add: pending_fits_def)
qed

lemma reconnect_prepare_None:
  assumes prep: "reconnect_prepare opts stackOk bi r m c = (None, c')"
    and fresh: "\<forall>s \<in> set (cn_socks c) \<union> set (cn_stacks c). s < cn_next c"
  shows "\<exists>k. c' = c\<lparr>cn_next := cn_next c + k\<rparr>"
proof (cases "c' = c")
  case False
  with prep obtain rep nxt c1 ts os bn c2 where n: "reconnect_network opts stackOk r c = Some (rep, nxt, c1)"
      and t: "reconnect_tunnels opts bi (rs_Tunnels r) (byName_of (cn_tunnels c)) [] [] c1 = (False, ts, os, bn, c2)"
      and c': "c' = reconnect_abort rep nxt os c2"
    unfolding reconnect_prepare_def by (auto split: if_split_asm option.split_asm prod.split_asm)
  note net = reconnect_network_made [OF n]
  from reconnect_tunnels_frame [OF t] have os: "map lt_sock os = [cn_next c1..<cn_next c1 + length os]"
      and c2: "c2 = opened_socks (length os) c1" by auto
  have img: "lt_sock ` set os = {cn_next c1..<cn_next c1 + length os}"
    using arg_cong [OF os, of set] by simp
  have lt: "s < cn_next c1" if "s \<in> set (cn_socks c)" for s
    using bspec [OF fresh UnI1 [OF that]] by (simp add: net(1))
  have a: "filter (\<lambda>s. s \<notin> lt_sock ` set os) (rev [cn_next c1..<cn_next c1 + length os]) = []"
    by (simp add: img filter_empty_conv)
  have "filter (\<lambda>s. s \<notin> lt_sock ` set os) (cn_socks c) = cn_socks c"
    by (simp add: img filter_id_conv) (meson leD lt)
  with a have s: "filter (\<lambda>s. s \<notin> lt_sock ` set os) (rev [cn_next c1..<cn_next c1 + length os] @ cn_socks c) = cn_socks c"
    by simp
  have k: "removeAll (cn_next c) (cn_stacks c) = cn_stacks c" using fresh by (intro removeAll_id) auto
  show ?thesis
  proof (cases rep)
    case True
    with c' c2 net(1,4) s k have "c' = c\<lparr>cn_next := cn_next c + Suc (length os)\<rparr>"
      by (simp add: reconnect_abort_def fold_closeLocalTunnel close_stack_def opened_socks_def rebuilt_def Let_def)
    then show ?thesis ..
  next
    case False
    with c' c2 net(1) s have "c' = c\<lparr>cn_next := cn_next c + length os\<rparr>"
      by (simp add: reconnect_abort_def fold_closeLocalTunnel opened_socks_def rebuilt_def)
    then show ?thesis ..
  qed
qed (metis (no_types) add_0_right connection.surjective connection.update_convs(14))

section \<open>The connection and its concurrent operations\<close>

text \<open>\<open>networkMu\<close> lets one reconnect, replacement or transport change run at a time; renewals and
  \<open>Close\<close> come in between. \<open>ce_closing\<close> is what \<open>Close\<close> detached and did not close yet.\<close>

datatype clientOp = NoOp | Reconnecting reconnectPending | Replacing replacePending

record client =
  ce_conn :: connection
  ce_op :: clientOp
  ce_closing :: "nat list \<times> nat list"

datatype clientEvent =
    EvReconnect bool listeners AuthResponse "string \<times> string"
  | EvReconnectCommit gotime
  | EvReplace listeners string string int
  | EvReplaceCommit
  | EvRenew gotime "AuthResponse option"
  | EvSetTransport string
  | EvClose
  | EvCloseFinish

text \<open>A server grants tunnels of different names.\<close>

inductive client_step :: "clientOptions \<Rightarrow> (ipAddr \<Rightarrow> string) \<Rightarrow> client \<Rightarrow> clientEvent \<Rightarrow> client \<Rightarrow> bool"
  for opts :: clientOptions and addrText :: "ipAddr \<Rightarrow> string" where
  step_reconnect: "\<lbrakk>ce_op s = NoOp; distinct (map pt_Name (rs_Tunnels r));
      reconnect_prepare opts stackOk bi r m (ce_conn s) = (res, c)\<rbrakk>
    \<Longrightarrow> client_step opts addrText s (EvReconnect stackOk bi r m)
          (s\<lparr>ce_conn := c, ce_op := (case res of None \<Rightarrow> NoOp | Some p \<Rightarrow> Reconnecting p)\<rparr>)"
| step_commit: "\<lbrakk>ce_op s = Reconnecting p; reconnect_commit now p (ce_conn s) = (ok, c)\<rbrakk>
    \<Longrightarrow> client_step opts addrText s (EvReconnectCommit now) (s\<lparr>ce_conn := c, ce_op := NoOp\<rparr>)"
| step_replace: "\<lbrakk>ce_op s = NoOp; replace_prepare addrText bi (cl_bindAddr opts) name host port (ce_conn s) = (res, c)\<rbrakk>
    \<Longrightarrow> client_step opts addrText s (EvReplace bi name host port)
          (s\<lparr>ce_conn := c, ce_op := (case res of ReplaceBound p \<Rightarrow> Replacing p | _ \<Rightarrow> NoOp)\<rparr>)"
| step_replace_commit: "\<lbrakk>ce_op s = Replacing p; replace_commit p (ce_conn s) = (res, c)\<rbrakk>
    \<Longrightarrow> client_step opts addrText s EvReplaceCommit (s\<lparr>ce_conn := c, ce_op := NoOp\<rparr>)"
| step_renew: "client_renew now out (ce_conn s) = (ok, c) \<Longrightarrow> client_step opts addrText s (EvRenew now out) (s\<lparr>ce_conn := c\<rparr>)"
| step_transport: "\<lbrakk>ce_op s = NoOp; SetTransport target (ce_conn s) = Some c\<rbrakk>
    \<Longrightarrow> client_step opts addrText s (EvSetTransport target) (s\<lparr>ce_conn := c\<rparr>)"
| step_close: "\<lbrakk>\<not> cn_closed (ce_conn s); close_detach (ce_conn s) = (d, c)\<rbrakk>
    \<Longrightarrow> client_step opts addrText s EvClose (s\<lparr>ce_conn := c, ce_closing := d\<rparr>)"
| step_close_finish: "client_step opts addrText s EvCloseFinish
    (s\<lparr>ce_conn := close_release (ce_closing s) (ce_conn s), ce_closing := ([], [])\<rparr>)"

definition client_of :: "connection \<Rightarrow> client" where
  "client_of c = \<lparr>ce_conn = c, ce_op = NoOp, ce_closing = ([], [])\<rparr>"

text \<open>Who owns the open sockets and stacks, as multisets: the tunnels or the connection, the operation
  under way, and \<open>Close\<close>. The ledger is right when what is open has exactly one owner each and
  the numbers to be used next are unused.\<close>

definition op_socks :: "clientOp \<Rightarrow> nat multiset" where
  "op_socks p = (case p of NoOp \<Rightarrow> {#} | Reconnecting p \<Rightarrow> image_mset lt_sock (mset (pd_opened p)) | Replacing p \<Rightarrow> {#rl_new p#})"

definition op_stacks :: "clientOp \<Rightarrow> nat multiset" where
  "op_stacks p = (case p of Reconnecting p \<Rightarrow> if pd_replaced p then {#cg_stack (pd_next p)#} else {#} | _ \<Rightarrow> {#})"

definition own_socks :: "client \<Rightarrow> nat multiset" where
  "own_socks s = image_mset lt_sock (mset (cn_tunnels (ce_conn s))) + op_socks (ce_op s) + mset (fst (ce_closing s))"

definition stack_of :: "connection \<Rightarrow> nat multiset" where
  "stack_of c = (case cn_stack c of None \<Rightarrow> {#} | Some k \<Rightarrow> {#k#})"

definition own_stacks :: "client \<Rightarrow> nat multiset" where
  "own_stacks s = stack_of (ce_conn s) + op_stacks (ce_op s) + mset (snd (ce_closing s))"

definition open_ledger :: "nat list \<Rightarrow> nat multiset \<Rightarrow> nat \<Rightarrow> bool" where
  "open_ledger opened owned n \<longleftrightarrow> mset opened = owned \<and> distinct opened \<and> (\<forall>k \<in> set opened. k < n)"

definition ledger_ok :: "client \<Rightarrow> bool" where
  "ledger_ok s \<longleftrightarrow> open_ledger (cn_socks (ce_conn s)) (own_socks s) (cn_next (ce_conn s))
     \<and> open_ledger (cn_stacks (ce_conn s)) (own_stacks s) (cn_next (ce_conn s))"

lemmas owner_defs = own_socks_def own_stacks_def op_socks_def op_stacks_def stack_of_def

lemma op_NoOp: "op_socks NoOp = {#}" "op_stacks NoOp = {#}"
  by (simp_all add: op_socks_def op_stacks_def)

lemma ledger_member: "open_ledger l M n \<Longrightarrow> k \<in># M \<Longrightarrow> k < n"
  by (auto simp: open_ledger_def)

lemma ledger_mono: "open_ledger l M n \<Longrightarrow> n \<le> m \<Longrightarrow> open_ledger l M m"
  by (auto simp: open_ledger_def)

lemma ledger_fresh: "open_ledger l M n \<Longrightarrow> n < m \<Longrightarrow> open_ledger (n # l) (add_mset n M) m"
  by (auto simp: open_ledger_def)

lemma ledger_range: "open_ledger l M n \<Longrightarrow> open_ledger (rev [n..<n + k] @ l) (mset [n..<n + k] + M) (n + k)"
  by (auto simp: open_ledger_def)

lemma ledger_close:
  assumes "open_ledger l (A + B) n"
  shows "open_ledger (filter (\<lambda>x. x \<notin># A) l) B n"
proof -
  have l: "mset l = A + B" and d: "distinct l" using assms by (simp_all add: open_ledger_def)
  have "mset (filter (\<lambda>x. x \<notin># A) l) = B"
  proof (rule multiset_eqI)
    fix x
    have "count (mset l) x \<le> 1" using d by (auto simp: distinct_count_atmost_1)
    then show "count (mset (filter (\<lambda>x. x \<notin># A) l)) x = count B x"
      by (cases "x \<in># A") (auto simp: l not_in_iff dest!: count_greater_zero_iff [THEN iffD2] simp del: count_greater_zero_iff)
  qed
  with assms show ?thesis by (auto simp: open_ledger_def)
qed

text \<open>The open connection: its data plane has its stack and dials with its token, its listeners have
  different names and are served.\<close>

definition conn_ok :: "connection \<Rightarrow> bool" where
  "conn_ok c \<longleftrightarrow> distinct (map lt_name (cn_tunnels c)) \<and> lt_sock ` set (cn_tunnels c) \<subseteq> set (cn_forwarding c)
     \<and> (\<forall>k. cn_dataStop c = Some k \<longrightarrow> k < cn_next c)
     \<and> (if cn_closed c then cn_tunnels c = [] \<and> cn_stack c = None \<and> cn_dataStop c = None
        else \<exists>n. cn_network c = Some n \<and> cn_stack c = Some (cg_stack n) \<and> (cg_useWS n \<longrightarrow> cg_header n = cn_token c))"

definition cop_ok :: "clientOp \<Rightarrow> connection \<Rightarrow> bool" where
  "cop_ok p c = (case p of Reconnecting p \<Rightarrow> reconnect_ok p \<and> (\<not> cn_closed c \<longrightarrow> pending_fits p c) | _ \<Rightarrow> True)"

definition conn_inv :: "client \<Rightarrow> bool" where
  "conn_inv s \<longleftrightarrow> ledger_ok s \<and> conn_ok (ce_conn s) \<and> cop_ok (ce_op s) (ce_conn s)
     \<and> (\<not> cn_closed (ce_conn s) \<longrightarrow> ce_closing s = ([], []))"

section \<open>Every operation keeps the ledger\<close>

lemma client_inv_open:
  assumes "conn_inv s" and "\<not> cn_closed (ce_conn s)"
  obtains n where "cn_network (ce_conn s) = Some n" and "cn_stack (ce_conn s) = Some (cg_stack n)"
    and "cg_useWS n \<longrightarrow> cg_header n = cn_token (ce_conn s)" and "ce_closing s = ([], [])"
  using assms by (auto simp: conn_inv_def conn_ok_def)

lemma client_inv_closed:
  assumes "conn_inv s" and "cn_closed (ce_conn s)"
  shows "cn_tunnels (ce_conn s) = []" and "cn_stack (ce_conn s) = None" and "cn_dataStop (ce_conn s) = None"
  using assms by (simp_all add: conn_inv_def conn_ok_def)

lemma ledger_image_distinct:
  assumes "open_ledger l (image_mset f (mset xs) + M) n"
  shows "distinct (map f xs)" and "x \<in> set xs \<Longrightarrow> f x < n" and "x \<in> set xs \<Longrightarrow> f x \<notin># M"
proof -
  obtain ms where ms: "mset ms = M" using ex_mset by blast
  with assms have l: "mset l = mset (map f xs @ ms)" "distinct l" by (simp_all add: open_ledger_def)
  then have "distinct (map f xs @ ms)" by (metis mset_eq_imp_distinct_iff)
  then show "distinct (map f xs)" "x \<in> set xs \<Longrightarrow> f x \<notin># M" by (auto simp flip: ms)
  show "f x < n" if "x \<in> set xs"
    using that assms mset_eq_setD [OF l(1)] by (auto simp: open_ledger_def)
qed

lemma client_inv_tunnels_ok:
  assumes "conn_inv s" shows "tunnels_ok (ce_conn s)"
proof -
  have "open_ledger (cn_socks (ce_conn s)) (image_mset lt_sock (mset (cn_tunnels (ce_conn s)))
      + (op_socks (ce_op s) + mset (fst (ce_closing s)))) (cn_next (ce_conn s))"
    using assms by (simp add: conn_inv_def ledger_ok_def own_socks_def add.assoc)
  note ledger_image_distinct [OF this]
  with assms show ?thesis by (simp add: tunnels_ok_def conn_inv_def conn_ok_def)
qed

lemma client_inv_fresh: "conn_inv s \<Longrightarrow> \<forall>k \<in> set (cn_socks (ce_conn s)) \<union> set (cn_stacks (ce_conn s)). k < cn_next (ce_conn s)"
  by (auto simp: conn_inv_def ledger_ok_def open_ledger_def)

lemma op_ok_cong:
  "cn_closed c' = cn_closed c \<Longrightarrow> cn_network c' = cn_network c \<Longrightarrow> cn_tunnels c' = cn_tunnels c \<Longrightarrow> cop_ok p c' = cop_ok p c"
  by (simp add: cop_ok_def pending_fits_def must_replace_def split: clientOp.split)

lemma ledger_ok_cong:
  assumes "cn_socks c = cn_socks (ce_conn s)" and "cn_stacks c = cn_stacks (ce_conn s)" and "cn_tunnels c = cn_tunnels (ce_conn s)"
    and "cn_stack c = cn_stack (ce_conn s)" and "cn_next c = cn_next (ce_conn s)"
  shows "ledger_ok (s\<lparr>ce_conn := c\<rparr>) = ledger_ok s"
  by (simp add: ledger_ok_def owner_defs assms)

lemma op_ok_network:
  assumes "cn_closed c' = cn_closed c" and "cn_tunnels c' = cn_tunnels c" and f: "cn_network c' = map_option f (cn_network c)"
    and "\<And>n. cg_response (f n) = cg_response n" and "\<And>n. cg_serverIP (f n) = cg_serverIP n"
  shows "cop_ok p c' = cop_ok p c"
proof -
  have "must_replace c' r = must_replace c r" for r
    by (cases "cn_network c") (simp_all add: must_replace_def network_matches_def f assms(4))
  then show ?thesis
    by (cases "cn_network c"; cases p) (simp_all add: cop_ok_def pending_fits_def assms)
qed

lemma client_inv_stop:
  "conn_inv s \<Longrightarrow> cn_next (ce_conn s) \<le> n \<Longrightarrow> \<forall>k. cn_dataStop (ce_conn s) = Some k \<longrightarrow> k < n"
  by (auto simp: conn_inv_def conn_ok_def)

lemma client_inv_skip:
  assumes "conn_inv s"
  shows "conn_inv (s\<lparr>ce_conn := (ce_conn s)\<lparr>cn_next := cn_next (ce_conn s) + k\<rparr>\<rparr>)"
proof -
  have "cop_ok (ce_op s) ((ce_conn s)\<lparr>cn_next := cn_next (ce_conn s) + k\<rparr>) = cop_ok (ce_op s) (ce_conn s)"
    by (rule op_ok_cong) simp_all
  with assms client_inv_stop [OF assms le_add1] show ?thesis
    by (simp add: conn_inv_def ledger_ok_def owner_defs conn_ok_def ledger_mono [OF _ le_add1])
qed

lemma reconnect_prepare_inv:
  assumes inv: "conn_inv s" and idle: "ce_op s = NoOp" and d: "distinct (map pt_Name (rs_Tunnels r))"
    and prep: "reconnect_prepare opts stackOk bi r m (ce_conn s) = (res, c)"
  shows "conn_inv (s\<lparr>ce_conn := c, ce_op := (case res of None \<Rightarrow> NoOp | Some p \<Rightarrow> Reconnecting p)\<rparr>)"
proof (cases res)
  case None
  with reconnect_prepare_None [of opts stackOk bi r m "ce_conn s" c] prep client_inv_fresh [OF inv]
  obtain k where "c = (ce_conn s)\<lparr>cn_next := cn_next (ce_conn s) + k\<rparr>" by auto
  with client_inv_skip [OF inv, of k] None idle show ?thesis by (cases s) simp
next
  case (Some p)
  note made = reconnect_prepare_Some [OF prep [unfolded Some] client_inv_tunnels_ok [OF inv] d]
  let ?c = "ce_conn s" and ?b = "rebuilt (pd_replaced p) (ce_conn s)" and ?s = "s\<lparr>ce_conn := c, ce_op := Reconnecting p\<rparr>"
  obtain n where n: "cn_network ?c = Some n" "cn_stack ?c = Some (cg_stack n)"
      "cg_useWS n \<longrightarrow> cg_header n = cn_token ?c" "ce_closing s = ([], [])"
    by (rule client_inv_open [OF inv made(2)])
  have c: "cn_socks c = rev [cn_next ?b..<cn_next ?b + length (pd_opened p)] @ cn_socks ?c"
    "cn_next c = cn_next ?b + length (pd_opened p)" by (simp_all add: made(1) opened_socks_def)
  have old: "open_ledger (cn_socks ?c) (own_socks s) (cn_next ?b)" "open_ledger (cn_stacks ?c) (own_stacks s) (cn_next ?c)"
    using inv by (auto simp: conn_inv_def ledger_ok_def intro: ledger_mono)
  have "own_socks ?s = mset [cn_next ?b..<cn_next c] + own_socks s"
    using idle n(4) arg_cong [OF made(3), of mset] by (simp add: owner_defs made(1))
  with ledger_range [OF old(1), of "length (pd_opened p)"]
  have l1: "open_ledger (cn_socks c) (own_socks ?s) (cn_next c)" by (simp add: c)
  have l2: "open_ledger (cn_stacks c) (own_stacks ?s) (cn_next c)"
  proof (cases "pd_replaced p")
    case True
    then have "own_stacks ?s = add_mset (cn_next ?c) (own_stacks s)"
      using idle n(4) made(6) by (simp add: owner_defs made(1))
    with ledger_fresh [OF old(2), of "cn_next c"] True show ?thesis by (simp add: made(1))
  next
    case False
    then have "own_stacks ?s = own_stacks s" using idle n(4) by (simp add: owner_defs made(1))
    with ledger_mono [OF old(2), of "cn_next c"] False show ?thesis by (simp add: made(1))
  qed
  have "cn_next ?c \<le> cn_next c" by (simp add: made(1))
  then have "conn_ok c" using inv client_inv_stop [OF inv, of "cn_next c"]
    by (simp add: conn_inv_def conn_ok_def made(1) split: if_split_asm)
  with l1 l2 n made(2,7,8) Some show ?thesis by (simp add: conn_inv_def cop_ok_def ledger_ok_def made(1))
qed

lemma ledger_removeAll: "open_ledger l (add_mset k B) n \<Longrightarrow> open_ledger (removeAll k l) B n"
  using ledger_close [of l "{#k#}" B n] by (simp add: removeAll_filter_not_eq eq_commute [of k])

lemma ledger_fold_close:
  "open_ledger l (image_mset lt_sock (mset ts) + B) n \<Longrightarrow> open_ledger (filter (\<lambda>k. k \<notin> lt_sock ` set ts) l) B n"
  using ledger_close [of l "image_mset lt_sock (mset ts)" B n] by simp

lemma reconnect_commit_open:
  assumes "reconnect_commit now p c = (ok, c')" and "\<not> cn_closed c"
  shows "ok" and "\<not> cn_closed c'"
    and "cn_tunnels c' = map2 (regrant_tunnel (cg_serverIP (pd_next p))) (pd_tunnels p) (rs_Tunnels (pd_response p))"
    and "cn_socks c' = filter (\<lambda>k. k \<notin> lt_sock ` set (pd_left p)) (cn_socks c)"
    and "cn_stack c' = (if pd_replaced p then Some (cg_stack (pd_next p)) else cn_stack c)"
    and "cn_stacks c' = (if pd_replaced p then case cn_stack c of Some s \<Rightarrow> removeAll s (cn_stacks c) | None \<Rightarrow> cn_stacks c
           else cn_stacks c)"
    and "cn_network c' = map_option (SetHeader (rs_Token (pd_response p)))
           (if pd_replaced p then Some (pd_next p) else cn_network c)"
    and "cn_next c' = (if pd_replaced p then Suc (cn_next c) else cn_next c)"
    and "cn_dataStop c' = (if pd_replaced p then Some (cn_next c) else cn_dataStop c)"
    and "cn_transport c' = (if pd_replaced p then initialTransport (cg_useWS (pd_next p)) (rs_UDP (pd_response p))
           else cn_transport c)"
    and "cn_forwarding c' = map lt_sock (pd_opened p) @ cn_forwarding c"
    and "cn_response c' = pd_response p" and "cn_token c' = rs_Token (pd_response p)"
    and "cn_method c' = pd_method p" and "cn_expires c' = expiry now (rs_TTLSeconds (pd_response p))"
proof -
  have "ok = fst (reconnect_commit now p c)" and "c' = snd (reconnect_commit now p c)" using assms(1) by simp_all
  note c' = this [unfolded reconnect_commit_def Let_def fold_closeLocalTunnel close_stack_def initialTransport_is_state]
  show "ok" "\<not> cn_closed c'"
    "cn_tunnels c' = map2 (regrant_tunnel (cg_serverIP (pd_next p))) (pd_tunnels p) (rs_Tunnels (pd_response p))"
    "cn_socks c' = filter (\<lambda>k. k \<notin> lt_sock ` set (pd_left p)) (cn_socks c)"
    "cn_stack c' = (if pd_replaced p then Some (cg_stack (pd_next p)) else cn_stack c)"
    "cn_stacks c' = (if pd_replaced p then case cn_stack c of Some s \<Rightarrow> removeAll s (cn_stacks c) | None \<Rightarrow> cn_stacks c
           else cn_stacks c)"
    "cn_network c' = map_option (SetHeader (rs_Token (pd_response p)))
           (if pd_replaced p then Some (pd_next p) else cn_network c)"
    "cn_next c' = (if pd_replaced p then Suc (cn_next c) else cn_next c)"
    "cn_dataStop c' = (if pd_replaced p then Some (cn_next c) else cn_dataStop c)"
    "cn_transport c' = (if pd_replaced p then initialTransport (cg_useWS (pd_next p)) (rs_UDP (pd_response p))
           else cn_transport c)"
    "cn_forwarding c' = map lt_sock (pd_opened p) @ cn_forwarding c"
    "cn_response c' = pd_response p" "cn_token c' = rs_Token (pd_response p)"
    "cn_method c' = pd_method p" "cn_expires c' = expiry now (rs_TTLSeconds (pd_response p))"
    by (cases "cn_stack c"; cases "pd_replaced p"; simp add: c' assms(2))+
qed

lemma map2_regrant:
  assumes "list_all2 serves gs ts"
  shows "map lt_sock (map2 (regrant_tunnel ip) ts gs) = map lt_sock ts"
    and "map lt_name (map2 (regrant_tunnel ip) ts gs) = map pt_Name gs"
  using assms by (induction rule: list_all2_induct) (simp_all add: regrant_tunnel_def serves_def)

lemma set_map_eq: "map f xs = map g ys \<Longrightarrow> f ` set xs = g ` set ys"
  by (metis set_map)

lemma reconnect_commit_inv:
  assumes inv: "conn_inv s" and op: "ce_op s = Reconnecting p"
    and com: "reconnect_commit now p (ce_conn s) = (ok, c)"
  shows "conn_inv (s\<lparr>ce_conn := c, ce_op := NoOp\<rparr>)"
proof (cases "cn_closed (ce_conn s)")
  case True
  note cl = client_inv_closed [OF inv True]
  from com True have c: "c = reconnect_abort (pd_replaced p) (pd_next p) (pd_opened p) (ce_conn s)"
    by (simp add: reconnect_commit_def)
  have "open_ledger (cn_socks (ce_conn s)) (image_mset lt_sock (mset (pd_opened p)) + mset (fst (ce_closing s))) (cn_next (ce_conn s))"
      "open_ledger (cn_stacks (ce_conn s)) (op_stacks (Reconnecting p) + mset (snd (ce_closing s))) (cn_next (ce_conn s))"
    using inv op cl by (simp_all add: conn_inv_def ledger_ok_def owner_defs)
  then show ?thesis using inv cl True ledger_fold_close
    by (auto simp: c reconnect_abort_def fold_closeLocalTunnel close_stack_def conn_inv_def conn_ok_def cop_ok_def
        ledger_ok_def owner_defs Let_def intro: ledger_removeAll)
next
  case False
  note com = reconnect_commit_open [OF com False]
  obtain n where n: "cn_network (ce_conn s) = Some n" "cn_stack (ce_conn s) = Some (cg_stack n)"
      "cg_useWS n \<longrightarrow> cg_header n = cn_token (ce_conn s)" "ce_closing s = ([], [])"
    by (rule client_inv_open [OF inv False])
  from inv op False have p: "reconnect_ok p" "pending_fits p (ce_conn s)" by (simp_all add: conn_inv_def cop_ok_def)
  then have sv: "list_all2 serves (rs_Tunnels (pd_response p)) (pd_tunnels p)"
    and dg: "distinct (map pt_Name (rs_Tunnels (pd_response p)))"
    and sub: "set (pd_tunnels p) \<subseteq> set (pd_opened p) \<union> set (cn_tunnels (ce_conn s))" by (auto simp: reconnect_ok_def pending_fits_def)
  note tn = map2_regrant [OF sv, of "cg_serverIP (pd_next p)", folded com(3)]
  have "image_mset lt_sock (mset (pd_left p)) + image_mset lt_sock (mset (cn_tunnels c)) = own_socks s"
    using op n(4) p(2) arg_cong [OF tn(1), of mset]
    by (simp add: pending_fits_def owner_defs ac_simps flip: image_mset_union)
  then have "open_ledger (cn_socks (ce_conn s)) (image_mset lt_sock (mset (pd_left p)) + image_mset lt_sock (mset (cn_tunnels c)))
      (cn_next (ce_conn s))" using inv by (simp add: conn_inv_def ledger_ok_def)
  from ledger_mono [OF ledger_fold_close [OF this], of "cn_next c"]
  have l1: "open_ledger (cn_socks c) (image_mset lt_sock (mset (cn_tunnels c))) (cn_next c)" by (simp add: com(4,8))
  have "open_ledger (cn_stacks (ce_conn s)) (add_mset (cg_stack n) (op_stacks (Reconnecting p))) (cn_next (ce_conn s))"
    using inv op n by (simp add: conn_inv_def ledger_ok_def own_stacks_def stack_of_def)
  from ledger_mono [OF this, of "cn_next c"] have l2: "open_ledger (cn_stacks c) (stack_of c) (cn_next c)"
    by (cases "pd_replaced p") (auto simp: com(5,6,8) n(2) stack_of_def op_stacks_def intro: ledger_removeAll)
  have "lt_sock ` set (cn_tunnels c) = lt_sock ` set (pd_tunnels p)" by (rule set_map_eq [OF tn(1)])
  also have "\<dots> \<subseteq> lt_sock ` set (pd_opened p) \<union> lt_sock ` set (cn_tunnels (ce_conn s))"
    using image_mono [OF sub, of lt_sock] by (simp add: image_Un)
  also have "\<dots> \<subseteq> lt_sock ` set (pd_opened p) \<union> set (cn_forwarding (ce_conn s))"
    using inv by (intro Un_mono order_refl) (simp add: conn_inv_def conn_ok_def)
  finally have fw: "lt_sock ` set (cn_tunnels c) \<subseteq> set (cn_forwarding c)" by (simp add: com(11))
  have "\<exists>n. cn_network c = Some n \<and> cn_stack c = Some (cg_stack n) \<and> (cg_useWS n \<longrightarrow> cg_header n = cn_token c)"
    using n by (simp add: com(5,7,13) SetHeader_set)
  moreover have "\<forall>k. cn_dataStop c = Some k \<longrightarrow> k < cn_next c"
    using client_inv_stop [OF inv order_refl] by (simp add: com(8,9))
  ultimately have "conn_ok c" using fw dg tn(2) com(2) by (simp add: conn_ok_def)
  with l1 l2 n(4) com(2) show ?thesis by (simp add: conn_inv_def cop_ok_def ledger_ok_def own_socks_def own_stacks_def op_socks_def op_stacks_def)
qed

lemma replace_prepare_inv:
  assumes inv: "conn_inv s" and idle: "ce_op s = NoOp"
    and prep: "replace_prepare addrText bi bindAddr name host port (ce_conn s) = (res, c)"
  shows "conn_inv (s\<lparr>ce_conn := c, ce_op := (case res of ReplaceBound p \<Rightarrow> Replacing p | _ \<Rightarrow> NoOp)\<rparr>)"
proof (cases "\<exists>p. res = ReplaceBound p")
  case True
  then obtain p where p: "res = ReplaceBound p" ..
  with prep have c: "rl_new p = cn_next (ce_conn s)"
      "c = (ce_conn s)\<lparr>cn_next := Suc (cn_next (ce_conn s)), cn_socks := cn_next (ce_conn s) # cn_socks (ce_conn s)\<rparr>"
    unfolding replace_prepare_def Let_def by (auto split: if_split_asm option.split_asm)
  from inv have "open_ledger (cn_socks (ce_conn s)) (own_socks s) (cn_next (ce_conn s))"
      "open_ledger (cn_stacks (ce_conn s)) (own_stacks s) (cn_next (ce_conn s))" by (simp_all add: conn_inv_def ledger_ok_def)
  from ledger_fresh [OF this(1), of "cn_next c"] ledger_mono [OF this(2), of "cn_next c"]
    client_inv_stop [OF inv, of "cn_next c"] inv p idle c show ?thesis
    by (simp add: conn_inv_def ledger_ok_def owner_defs conn_ok_def cop_ok_def)
next
  case False
  with prep have "c = ce_conn s" unfolding replace_prepare_def Let_def by (auto split: if_split_asm option.split_asm)
  with False inv idle show ?thesis by (cases s; cases res) simp_all
qed

lemma replace_commit_inv:
  assumes inv: "conn_inv s" and op: "ce_op s = Replacing p"
    and com: "replace_commit p (ce_conn s) = (res, c)"
  shows "conn_inv (s\<lparr>ce_conn := c, ce_op := NoOp\<rparr>)"
proof (cases "cn_stack (ce_conn s) = None \<or> \<not> list_ex (\<lambda>t. lt_sock t = rl_old p) (cn_tunnels (ce_conn s))")
  case True
  then have c: "c = (ce_conn s)\<lparr>cn_socks := removeAll (rl_new p) (cn_socks (ce_conn s))\<rparr>"
    using com by (auto simp: replace_commit_def)
  have "open_ledger (cn_socks (ce_conn s)) (add_mset (rl_new p) (own_socks (s\<lparr>ce_conn := c, ce_op := NoOp\<rparr>))) (cn_next (ce_conn s))"
    using inv op by (simp add: conn_inv_def ledger_ok_def owner_defs c)
  from ledger_removeAll [OF this] inv op show ?thesis
    by (simp add: conn_inv_def ledger_ok_def owner_defs conn_ok_def cop_ok_def c)
next
  case False
  let ?swap = "\<lambda>t. if lt_sock t = rl_old p then t\<lparr>lt_sock := rl_new p, lt_localAddr := rl_addr p\<rparr> else t"
  from False obtain as t bs where t: "cn_tunnels (ce_conn s) = as @ t # bs" "lt_sock t = rl_old p"
    by (auto simp: list_ex_iff dest: split_list)
  have "distinct (map lt_sock (cn_tunnels (ce_conn s)))" using client_inv_tunnels_ok [OF inv] by (simp add: tunnels_ok_def)
  then have "rl_old p \<notin> lt_sock ` set as" "rl_old p \<notin> lt_sock ` set bs" using t by auto
  then have other: "map ?swap as = as" "map ?swap bs = bs" by (auto intro!: map_idI simp: image_iff)
  have "map ?swap (cn_tunnels (ce_conn s)) = as @ t\<lparr>lt_sock := rl_new p, lt_localAddr := rl_addr p\<rparr> # bs"
    using t other by simp
  moreover from False com have "c = (ce_conn s)\<lparr>cn_tunnels := map ?swap (cn_tunnels (ce_conn s)),
      cn_socks := removeAll (rl_old p) (cn_socks (ce_conn s)), cn_forwarding := rl_new p # cn_forwarding (ce_conn s)\<rparr>"
    by (auto simp: replace_commit_def)
  ultimately have c: "c = (ce_conn s)\<lparr>cn_tunnels := as @ t\<lparr>lt_sock := rl_new p, lt_localAddr := rl_addr p\<rparr> # bs,
      cn_socks := removeAll (rl_old p) (cn_socks (ce_conn s)), cn_forwarding := rl_new p # cn_forwarding (ce_conn s)\<rparr>"
    by simp
  have "add_mset (rl_old p) (own_socks (s\<lparr>ce_conn := c, ce_op := NoOp\<rparr>)) = own_socks s"
    using op t by (simp add: owner_defs c)
  with inv have "open_ledger (cn_socks (ce_conn s)) (add_mset (rl_old p) (own_socks (s\<lparr>ce_conn := c, ce_op := NoOp\<rparr>))) (cn_next (ce_conn s))"
    by (simp add: conn_inv_def ledger_ok_def)
  from ledger_removeAll [OF this] have l: "ledger_ok (s\<lparr>ce_conn := c, ce_op := NoOp\<rparr>)"
    using inv op by (simp add: conn_inv_def ledger_ok_def own_stacks_def op_stacks_def stack_of_def c)
  have "conn_ok c" using inv t by (auto simp: conn_inv_def conn_ok_def c split: if_split_asm)
  with l inv show ?thesis by (simp add: conn_inv_def cop_ok_def c)
qed


lemma client_renew_inv:
  assumes inv: "conn_inv s" and ren: "client_renew now out (ce_conn s) = (ok, c)"
  shows "conn_inv (s\<lparr>ce_conn := c\<rparr>)"
proof (cases "c = ce_conn s")
  case False
  with ren obtain o' where o': "\<not> cn_closed (ce_conn s)" "c = (ce_conn s)\<lparr>cn_response := carry_over (cn_response (ce_conn s)) o',
        cn_token := rs_Token o', cn_expires := expiry now (rs_TTLSeconds o'),
        cn_network := map_option (SetHeader (rs_Token o')) (cn_network (ce_conn s))\<rparr>"
    by (auto simp: client_renew_def split: option.split_asm if_split_asm)
  obtain n where n: "cn_network (ce_conn s) = Some n" "cn_stack (ce_conn s) = Some (cg_stack n)"
    by (rule client_inv_open [OF inv o'(1)])
  have "conn_ok c" using inv n o'(1) by (simp add: conn_inv_def conn_ok_def o'(2) SetHeader_set)
  moreover have "cop_ok (ce_op s) c = cop_ok (ce_op s) (ce_conn s)"
    by (rule op_ok_network [where f = "SetHeader (rs_Token o')"]) (simp_all add: o'(2))
  moreover have "ledger_ok (s\<lparr>ce_conn := c\<rparr>) = ledger_ok s" by (rule ledger_ok_cong) (simp_all add: o'(2))
  moreover have "cn_closed c = cn_closed (ce_conn s)" by (simp add: o'(2))
  ultimately show ?thesis using inv by (simp add: conn_inv_def)
qed (use inv in simp)

lemma SetTransport_inv:
  assumes inv: "conn_inv s" and idle: "ce_op s = NoOp" and st: "SetTransport target (ce_conn s) = Some c"
  shows "conn_inv (s\<lparr>ce_conn := c\<rparr>)"
proof -
  from st obtain n f where n: "cn_network (ce_conn s) = Some n" "c = (ce_conn s)\<lparr>cn_network := Some (bind_SetForced f n)\<rparr>"
    unfolding SetTransport_def by (auto split: option.split_asm if_split_asm)
  have "ledger_ok (s\<lparr>ce_conn := c\<rparr>) = ledger_ok s" by (rule ledger_ok_cong) (simp_all add: n)
  moreover have "conn_ok c" using inv n
    by (cases "cn_closed (ce_conn s)") (simp_all add: conn_inv_def conn_ok_def)
  ultimately show ?thesis using inv idle n by (simp add: conn_inv_def cop_ok_def)
qed

lemma close_detach_inv:
  assumes inv: "conn_inv s" and op: "\<not> cn_closed (ce_conn s)" and "close_detach (ce_conn s) = (d, c)"
  shows "conn_inv (s\<lparr>ce_conn := c, ce_closing := d\<rparr>)"
proof -
  obtain n where n: "cn_network (ce_conn s) = Some n" "cn_stack (ce_conn s) = Some (cg_stack n)" "ce_closing s = ([], [])"
    by (rule client_inv_open [OF inv op])
  have o: "cop_ok (ce_op s) c" using inv assms(3) op
    by (auto simp: conn_inv_def cop_ok_def close_detach_def split: clientOp.split_asm)
  have "own_socks (s\<lparr>ce_conn := c, ce_closing := d\<rparr>) = own_socks s" "own_stacks (s\<lparr>ce_conn := c, ce_closing := d\<rparr>) = own_stacks s"
    using assms(3) op n by (auto simp: close_detach_def owner_defs ac_simps)
  with inv assms(3) op o show ?thesis
    by (auto simp: close_detach_def conn_inv_def ledger_ok_def conn_ok_def)
qed

lemma close_release_inv:
  assumes inv: "conn_inv s"
  shows "conn_inv (s\<lparr>ce_conn := close_release (ce_closing s) (ce_conn s), ce_closing := ([], [])\<rparr>)"
proof -
  let ?s = "s\<lparr>ce_conn := close_release (ce_closing s) (ce_conn s), ce_closing := ([], [])\<rparr>"
  have "open_ledger (cn_socks (ce_conn s)) (mset (fst (ce_closing s)) + own_socks ?s) (cn_next (ce_conn s))"
      "open_ledger (cn_stacks (ce_conn s)) (mset (snd (ce_closing s)) + own_stacks ?s) (cn_next (ce_conn s))"
    using inv by (simp_all add: conn_inv_def ledger_ok_def owner_defs close_release_def ac_simps)
  from this [THEN ledger_close] have "ledger_ok ?s" by (simp add: ledger_ok_def close_release_def)
  moreover have "cop_ok (ce_op s) (close_release (ce_closing s) (ce_conn s)) = cop_ok (ce_op s) (ce_conn s)"
    by (rule op_ok_cong) (simp_all add: close_release_def)
  ultimately show ?thesis using inv by (simp add: conn_inv_def conn_ok_def close_release_def)
qed

lemma client_step_inv: "conn_inv s \<Longrightarrow> client_step opts addrText s e t \<Longrightarrow> conn_inv t"
  by (erule client_step.cases)
    (auto intro: reconnect_prepare_inv reconnect_commit_inv replace_prepare_inv replace_commit_inv client_renew_inv
      SetTransport_inv close_detach_inv close_release_inv)

interpretation client_ops: inv_system "client_step opts addrText" conn_inv
  by unfold_locales (rule client_step_inv)

section \<open>A new connection\<close>

lemma openReconnectedTunnel_inv:
  assumes inv: "conn_inv (client_of c)" and op: "\<not> cn_closed c" and new: "pt_Name g \<notin> lt_name ` set (cn_tunnels c)"
    and con: "connect_tunnel opts bi serverIP g c = Some c'"
  shows "conn_inv (client_of c')" and "\<not> cn_closed c'"
    and "\<exists>lt. cn_tunnels c' = cn_tunnels c @ [lt] \<and> serves g lt \<and> lt_target lt = (serverIP, pt_VirtualPort g)"
proof -
  from con obtain lt c1 where o: "openReconnectedTunnel opts bi g None c = Some (lt, c1)"
      and c1: "c' = c1\<lparr>cn_tunnels := cn_tunnels c1 @ [lt\<lparr>lt_virtualPort := pt_VirtualPort g,
             lt_target := (serverIP, pt_VirtualPort g),
             lt_socks := (pt_Protocol g \<noteq> ''udp'' \<and> IsBrowserSocksTarget (pt_TargetHint g)),
             lt_idleTimeout := (if pt_Protocol g = ''udp'' then pt_UDPIdleTimeout g else 0)\<rparr>],
           cn_forwarding := lt_sock lt # cn_forwarding c1\<rparr>"
    by (auto simp: connect_tunnel_def split: option.split_asm)
  note f = openReconnectedTunnel_frame [OF o]
  show "\<not> cn_closed c'" using op f c1 by simp
  show "\<exists>lt. cn_tunnels c' = cn_tunnels c @ [lt] \<and> serves g lt \<and> lt_target lt = (serverIP, pt_VirtualPort g)"
    using f c1 by (simp add: serves_def)
  have "open_ledger (cn_socks c) (image_mset lt_sock (mset (cn_tunnels c))) (cn_next c)"
      "open_ledger (cn_stacks c) (stack_of c) (cn_next c)"
    using inv by (simp_all add: conn_inv_def ledger_ok_def own_socks_def own_stacks_def op_socks_def op_stacks_def client_of_def)
  from ledger_fresh [OF this(1), of "Suc (cn_next c)"] ledger_mono [OF this(2), of "Suc (cn_next c)"]
  have "ledger_ok (client_of c')"
    using f c1 by (simp add: ledger_ok_def own_socks_def own_stacks_def op_socks_def op_stacks_def client_of_def stack_of_def)
  moreover have "conn_ok c'" using inv op new f c1 client_inv_stop [OF inv, of "Suc (cn_next c)"]
    by (auto simp: conn_inv_def conn_ok_def client_of_def)
  ultimately show "conn_inv (client_of c')" by (simp add: conn_inv_def client_of_def cop_ok_def)
qed

lemma connect_tunnels_inv:
  assumes "connect_tunnels opts bi serverIP gs c = (ok, c')" and "conn_inv (client_of c)" and "\<not> cn_closed c"
    and "distinct (map lt_name (cn_tunnels c) @ map pt_Name gs)"
  shows "conn_inv (client_of c') \<and> \<not> cn_closed c'
    \<and> (ok \<longrightarrow> (\<exists>new. cn_tunnels c' = cn_tunnels c @ new
        \<and> list_all2 (\<lambda>g lt. serves g lt \<and> lt_target lt = (serverIP, pt_VirtualPort g)) gs new))"
  using assms
proof (induction gs arbitrary: c)
  case (Cons g gs)
  show ?case
  proof (cases "connect_tunnel opts bi serverIP g c")
    case (Some c1)
    have "pt_Name g \<notin> lt_name ` set (cn_tunnels c)" using Cons.prems(4) by auto
    note one = openReconnectedTunnel_inv [OF Cons.prems(2,3) this Some]
    then obtain lt where lt: "cn_tunnels c1 = cn_tunnels c @ [lt]" "serves g lt" "lt_target lt = (serverIP, pt_VirtualPort g)" by auto
    have "connect_tunnels opts bi serverIP gs c1 = (ok, c')" using Cons.prems(1) Some by simp
    moreover have "distinct (map lt_name (cn_tunnels c1) @ map pt_Name gs)" using Cons.prems(4) lt by (auto simp: serves_def)
    ultimately show ?thesis using Cons.IH [OF _ one(1,2)] lt by fastforce
  qed (use Cons.prems in simp)
qed simp

lemma client_inv_idle_closed:
  assumes "conn_inv s" and "ce_op s = NoOp" and "cn_closed (ce_conn s)" and "ce_closing s = ([], [])"
  shows "cn_socks (ce_conn s) = []" and "cn_stacks (ce_conn s) = []"
  using assms client_inv_closed [OF assms(1,3)] by (simp_all add: conn_inv_def ledger_ok_def owner_defs open_ledger_def)

lemma conn_Close_inv:
  assumes "conn_inv (client_of c)" and "\<not> cn_closed c"
  shows "conn_inv (client_of (conn_Close c))" and "cn_closed (conn_Close c)"
    and "cn_socks (conn_Close c) = []" and "cn_stacks (conn_Close c) = []"
proof -
  obtain d c1 where d: "close_detach c = (d, c1)" by (cases "close_detach c")
  have "conn_inv ((client_of c)\<lparr>ce_conn := c1, ce_closing := d\<rparr>)"
    by (rule close_detach_inv [OF assms(1)]) (simp_all add: client_of_def assms(2) d)
  from close_release_inv [OF this] show inv: "conn_inv (client_of (conn_Close c))"
    by (simp add: conn_Close_def d client_of_def)
  show cl: "cn_closed (conn_Close c)" using assms(2) by (auto simp: conn_Close_def close_detach_def close_release_def)
  show "cn_socks (conn_Close c) = []" "cn_stacks (conn_Close c) = []"
    using client_inv_idle_closed [OF inv] cl by (simp_all add: client_of_def)
qed

lemma ConnectWithOptions_inv:
  assumes "ConnectWithOptions opts stackOk bi writeOk now key r m = Some (ok, c)"
    and d: "distinct (map pt_Name (rs_Tunnels r))"
  shows "conn_inv (client_of c) \<and> cn_closed c = (\<not> ok)
    \<and> (if ok then \<exists>n. cn_network c = Some n \<and> cg_response n = r
          \<and> list_all2 (\<lambda>g lt. serves g lt \<and> lt_target lt = (cg_serverIP n, pt_VirtualPort g)) (rs_Tunnels r) (cn_tunnels c)
       else cn_socks c = [] \<and> cn_stacks c = [])"
proof -
  from assms(1) obtain n where n: "newConnectionNetwork opts stackOk 0 r = Some n"
    by (auto simp: ConnectWithOptions_def split: option.split_asm)
  let ?c0 = "\<lparr>cn_closed = False, cn_network = Some n, cn_networkKey = key, cn_stack = Some 0,
                 cn_dataStop = Some 1, cn_tunnels = [], cn_response = r, cn_token = rs_Token r, cn_method = m,
                 cn_expires = expiry now (rs_TTLSeconds r),
                 cn_transport = state_connectionTransport (initialTransportState (cg_useWS n) (rs_UDP r)),
                 cn_socks = [], cn_stacks = [0], cn_next = 2, cn_forwarding = []\<rparr> :: connection"
  obtain k c1 where k: "connect_tunnels opts bi (cg_serverIP n) (rs_Tunnels r) ?c0 = (k, c1)" by force
  with assms(1) n have r: "(ok, c) = (if k \<and> writeOk then (True, c1) else (False, conn_Close c1))"
    by (simp add: ConnectWithOptions_def)
  note made = newConnectionNetwork_made [OF n]
  have "conn_inv (client_of ?c0)"
    using made(1,3) by (simp add: conn_inv_def client_of_def ledger_ok_def open_ledger_def owner_defs conn_ok_def cop_ok_def)
  from connect_tunnels_inv [OF k this] d have c1: "conn_inv (client_of c1)" "\<not> cn_closed c1"
    "k \<Longrightarrow> list_all2 (\<lambda>g lt. serves g lt \<and> lt_target lt = (cg_serverIP n, pt_VirtualPort g)) (rs_Tunnels r) (cn_tunnels c1)"
    by auto
  have "cn_network c' = cn_network c" if "connect_tunnels opts bi ip gs c = (k, c')" for k ip gs c c'
    using that
  proof (induction gs arbitrary: c)
    case (Cons g gs)
    then show ?case
      by (auto simp: connect_tunnel_def dest!: openReconnectedTunnel_frame split: option.split_asm prod.split_asm)
  qed simp
  from this [OF k] have "cn_network c1 = Some n" by simp
  with r c1 made(2) conn_Close_inv [OF c1(1,2)] show ?thesis by (auto split: if_split_asm)
qed

section \<open>Properties\<close>

text \<open>A run of a connection that was just made.\<close>

definition client_run ::
  "clientOptions \<Rightarrow> (ipAddr \<Rightarrow> string) \<Rightarrow> AuthResponse \<Rightarrow> connection \<Rightarrow> clientEvent list \<Rightarrow> client \<Rightarrow> bool" where
  "client_run opts addrText r c es s \<longleftrightarrow>
     (\<exists>stackOk bi writeOk now key m ok. ConnectWithOptions opts stackOk bi writeOk now key r m = Some (ok, c))
     \<and> distinct (map pt_Name (rs_Tunnels r)) \<and> run (client_step opts addrText) (client_of c) es s"

lemma client_run_inv: "client_run opts addrText r c es s \<Longrightarrow> conn_inv s"
  unfolding client_run_def using ConnectWithOptions_inv client_ops.run_inv by blast

lemma client_inv_owners:
  assumes "conn_inv s" and "\<not> cn_closed (ce_conn s)"
  shows "mset (cn_socks (ce_conn s)) = image_mset lt_sock (mset (cn_tunnels (ce_conn s))) + op_socks (ce_op s)"
    and "\<exists>n. cn_network (ce_conn s) = Some n \<and> mset (cn_stacks (ce_conn s)) = add_mset (cg_stack n) (op_stacks (ce_op s))
      \<and> cn_stack (ce_conn s) = Some (cg_stack n) \<and> (cg_useWS n \<longrightarrow> cg_header n = cn_token (ce_conn s))"
proof -
  obtain n where n: "cn_network (ce_conn s) = Some n" "cn_stack (ce_conn s) = Some (cg_stack n)"
      "cg_useWS n \<longrightarrow> cg_header n = cn_token (ce_conn s)" "ce_closing s = ([], [])"
    by (rule client_inv_open [OF assms])
  with assms show "mset (cn_socks (ce_conn s)) = image_mset lt_sock (mset (cn_tunnels (ce_conn s))) + op_socks (ce_op s)"
    "\<exists>n. cn_network (ce_conn s) = Some n \<and> mset (cn_stacks (ce_conn s)) = add_mset (cg_stack n) (op_stacks (ce_op s))
      \<and> cn_stack (ce_conn s) = Some (cg_stack n) \<and> (cg_useWS n \<longrightarrow> cg_header n = cn_token (ce_conn s))"
    by (simp_all add: conn_inv_def ledger_ok_def own_socks_def own_stacks_def open_ledger_def stack_of_def)
qed

text \<open>A connection with two tunnels, and a session that replaces its data plane.\<close>

definition demo_options :: clientOptions where
  "demo_options = \<lparr>cl_UseWebSocket = False, cl_Transport = [], cl_IPVersion = [], cl_Ports = fmempty, cl_Hosts = fmempty,
     cl_ExplicitBind = False, cl_bindAddr = ''127.0.0.1''\<rparr>"

definition demo_listeners :: listeners where
  "demo_listeners = \<lparr>bi_tcp = (\<lambda>n h p. Some (h @ '':'' @ itoa (nat p))), bi_udp = (\<lambda>n ip p. Some (''127.0.0.1:'' @ itoa (nat p)))\<rparr>"

definition demo_grant :: "string \<Rightarrow> string \<Rightarrow> int \<Rightarrow> ptunnel" where
  "demo_grant name proto port = \<lparr>pt_Name = name, pt_VirtualPort = port, pt_Protocol = proto, pt_UDPIdleTimeout = 0,
     pt_LocalPort = port, pt_LocalHost = [], pt_TargetHint = []\<rparr>"

definition demo_response :: "string \<Rightarrow> ptunnel list \<Rightarrow> AuthResponse" where
  "demo_response token ts = \<lparr>rs_Token = token, rs_TunnelIP = ''10.0.0.2'', rs_ServerTunnelIP = [], rs_ServerPublicKey = ''k'',
     rs_TTLSeconds = 60, rs_Tunnels = ts, rs_UDP = ''192.0.2.1:51820'', rs_WebSocket = [], rs_Multipath = False,
     rs_TransportCapabilities = None, rs_RequiredTransportCapabilities = None\<rparr>"

definition demo_first :: AuthResponse where
  "demo_first = demo_response ''t1'' [demo_grant ''web'' ''tcp'' 8080, demo_grant ''dns'' ''tcp'' 5353]"

text \<open>The second session keeps one tunnel, changes the protocol of the other, and has another server key.\<close>

definition demo_second :: AuthResponse where
  "demo_second = (demo_response ''t2'' [demo_grant ''dns'' ''udp'' 5353, demo_grant ''web'' ''tcp'' 8080])\<lparr>rs_ServerPublicKey := ''k2''\<rparr>"

definition demo_conn :: "(bool \<times> connection) option" where
  "demo_conn = ConnectWithOptions demo_options True demo_listeners True 0 ''key'' demo_first (''ssh'', [])"

lemma demo_text:
  "ParseAddr ''10.0.0.2'' = Some (IP4 0x0a000002)" "normalizeTransportPreference False [] = Some []"
  "SplitHostPort ''127.0.0.1:5353'' = Some (''127.0.0.1'', ''5353'')"
  "Atoi ''5353'' = Some 5353"
  by code_simp+

lemma demo_itoa: "itoa 8080 = ''8080''" "itoa 5353 = ''5353''"
  by (simp add: itoa.simps, code_simp) (simp add: itoa.simps, code_simp)

lemma demo_network:
  "newConnectionNetwork demo_options True k (demo_response t ts\<lparr>rs_ServerPublicKey := pk\<rparr>) =
    Some \<lparr>cg_stack = k, cg_serverIP = IP4 0x0a000001, cg_udpEndpoint = ''192.0.2.1:51820'', cg_transport = [],
      cg_useWS = False, cg_multipathV3 = False, cg_response = demo_response t ts\<lparr>rs_ServerPublicKey := pk\<rparr>,
      cg_forced = [], cg_header = t\<rparr>"
  by (simp add: newConnectionNetwork_def demo_options_def demo_response_def demo_text matchesIPVersion_def selectTransport_def
      resolveServerTunnelIP_def PathWSS_def PathDirect_def PathUDPRelay_def Let_def)

lemma demo_conn_made: "\<exists>c. demo_conn = Some (True, c) \<and> cn_networkKey c = ''key'' \<and> cn_network c = newConnectionNetwork demo_options True 0 demo_first
    \<and> map (\<lambda>lt. (lt_name lt, lt_protocol lt, lt_localAddr lt)) (cn_tunnels c)
      = [(''web'', ''tcp'', ''127.0.0.1:8080''), (''dns'', ''tcp'', ''127.0.0.1:5353'')]"
proof -
  have "demo_first = demo_first\<lparr>rs_ServerPublicKey := ''k''\<rparr>" by (simp add: demo_first_def demo_response_def)
  then have n: "newConnectionNetwork demo_options True k demo_first =
    Some \<lparr>cg_stack = k, cg_serverIP = IP4 0x0a000001, cg_udpEndpoint = ''192.0.2.1:51820'', cg_transport = [],
      cg_useWS = False, cg_multipathV3 = False, cg_response = demo_first, cg_forced = [], cg_header = ''t1''\<rparr>" for k
    using demo_network [where t = "''t1''" and pk = "''k''"] unfolding demo_first_def by metis
  show ?thesis
    by (simp add: demo_conn_def ConnectWithOptions_def n) (simp add: demo_first_def demo_response_def demo_grant_def connect_tunnel_def
        openReconnectedTunnel_def demo_options_def resolveTunnelHost_def listenLocal_def demo_listeners_def tunnel_proto_def demo_itoa)
qed

lemma demo_reconnect:
  assumes "demo_conn = Some (True, c)"
  shows "\<exists>p c1. reconnect_prepare demo_options True demo_listeners demo_second (''ssh'', []) c = (Some p, c1)"
proof -
  obtain c' where c': "demo_conn = Some (True, c') \<and> cn_networkKey c' = ''key''
      \<and> cn_network c' = newConnectionNetwork demo_options True 0 demo_first
      \<and> map (\<lambda>lt. (lt_name lt, lt_protocol lt, lt_localAddr lt)) (cn_tunnels c')
        = [(''web'', ''tcp'', ''127.0.0.1:8080''), (''dns'', ''tcp'', ''127.0.0.1:5353'')]" by (rule exE [OF demo_conn_made])
  have "c' = c" using conjunct1 [OF c'] assms by (metis option.inject prod.inject)
  then have c: "cn_networkKey c = ''key''" "cn_network c = newConnectionNetwork demo_options True 0 demo_first"
      "map (\<lambda>lt. (lt_name lt, lt_protocol lt, lt_localAddr lt)) (cn_tunnels c)
        = [(''web'', ''tcp'', ''127.0.0.1:8080''), (''dns'', ''tcp'', ''127.0.0.1:5353'')]"
    using c' by (simp_all only:)
  from c(3) obtain web dns where t: "cn_tunnels c = [web, dns]" and web: "lt_name web = ''web''" "lt_protocol web = ''tcp''"
      and dns: "lt_name dns = ''dns''" "lt_protocol dns = ''tcp''" "lt_localAddr dns = ''127.0.0.1:5353''" by auto
  have open1: "\<not> cn_closed c"
    using ConnectWithOptions_inv [OF assms [unfolded demo_conn_def]] by (auto simp: demo_first_def demo_response_def demo_grant_def)
  obtain n where n: "cn_network c = Some n"
    using ConnectWithOptions_inv [OF assms [unfolded demo_conn_def]] by (auto simp: demo_first_def demo_response_def demo_grant_def)
  have "\<not> network_matches n demo_second"
    using newConnectionNetwork_made(2) [of demo_options True 0 demo_first n] n c(2)
    by (simp add: network_matches_def demo_first_def demo_second_def demo_response_def)
  moreover obtain n' where "newConnectionNetwork demo_options True (cn_next c) demo_second = Some n'"
    using demo_network unfolding demo_second_def by blast
  ultimately obtain n2 c1 where net: "reconnect_network demo_options True demo_second c = Some (True, n2, c1)"
    using n c(1) by (simp add: reconnect_network_def)
  have "\<exists>ts os bn c2. reconnect_tunnels demo_options demo_listeners (rs_Tunnels demo_second) (byName_of [web, dns]) [] [] c1 = (True, ts, os, bn, c2)"
    using web dns by (simp add: demo_second_def demo_response_def byName_of_def reusable_def openReconnectedTunnel_def
        demo_options_def demo_grant_def demo_listeners_def tunnel_proto_def demo_text demo_itoa resolveTunnelHost_def listenLocalUDP_def)
  then show ?thesis using open1 net t by (auto simp: reconnect_prepare_def)
qed

lemma demo_first_distinct: "distinct (map pt_Name (rs_Tunnels demo_first))" "distinct (map pt_Name (rs_Tunnels demo_second))"
  by (simp_all add: demo_first_def demo_second_def demo_response_def demo_grant_def)

lemma demo_connection_run: "demo_conn = Some (True, c) \<Longrightarrow> client_run demo_options addrText demo_first c [] (client_of c)"
  unfolding client_run_def demo_conn_def by (intro conjI exI) (assumption, rule demo_first_distinct, rule run.intros)

text \<open>C20: A connection leaks no listener and no WireGuard stack. However reconnects, listener
  replacements, renewals, transport changes and \<open>Close\<close> interleave, an open connection has open
  exactly the sockets of its tunnels and of the operation under way and exactly the stack of its
  data plane (and the one being built), every tunnel is served, the carrier dials with the current
  token, and tunnels have different names; once the connection is closed, \<open>Close\<close> has finished and
  no operation is under way, nothing is open.\<close>

theorem connection_leaks_nothing:
  assumes "client_run opts addrText r c es s"
  shows "if cn_closed (ce_conn s)
     then ce_op s = NoOp \<and> ce_closing s = ([], []) \<longrightarrow> cn_socks (ce_conn s) = [] \<and> cn_stacks (ce_conn s) = []
     else mset (cn_socks (ce_conn s)) = image_mset lt_sock (mset (cn_tunnels (ce_conn s))) + op_socks (ce_op s)
       \<and> distinct (cn_socks (ce_conn s))
       \<and> (\<exists>n. cn_network (ce_conn s) = Some n \<and> mset (cn_stacks (ce_conn s)) = add_mset (cg_stack n) (op_stacks (ce_op s))
            \<and> cn_stack (ce_conn s) = Some (cg_stack n) \<and> (cg_useWS n \<longrightarrow> cg_header n = cn_token (ce_conn s)))
       \<and> lt_sock ` set (cn_tunnels (ce_conn s)) \<subseteq> set (cn_forwarding (ce_conn s))
       \<and> distinct (map lt_name (cn_tunnels (ce_conn s)))"
proof -
  note inv = client_run_inv [OF assms]
  then have "distinct (cn_socks (ce_conn s))" "conn_ok (ce_conn s)"
    by (simp_all add: conn_inv_def ledger_ok_def open_ledger_def)
  with client_inv_owners [OF inv] client_inv_idle_closed [OF inv] show ?thesis
    by (simp add: conn_ok_def)
qed

theorem connection_leaks_nothing_witness:
  "\<exists>c s. client_run demo_options (\<lambda>_. []) demo_first c [EvReconnect True demo_listeners demo_second (''ssh'', []), EvClose,
      EvReconnectCommit 0, EvCloseFinish] s
    \<and> cn_closed (ce_conn s) \<and> cn_socks (ce_conn s) = [] \<and> cn_stacks (ce_conn s) = []"
proof -
  obtain c where c: "demo_conn = Some (True, c)" using demo_conn_made by blast
  obtain p c1 where prep: "reconnect_prepare demo_options True demo_listeners demo_second (''ssh'', []) c = (Some p, c1)"
    using demo_reconnect [OF c] by blast
  have inv: "conn_inv (client_of c)" and op: "\<not> cn_closed c"
    using ConnectWithOptions_inv [OF c [unfolded demo_conn_def] demo_first_distinct(1)] by simp_all
  have op1: "\<not> cn_closed c1"
    using reconnect_prepare_Some(1,2) [OF prep client_inv_tunnels_ok [OF inv, unfolded client_of_def client.simps] demo_first_distinct(2)]
    by simp
  obtain d c2 where d: "close_detach c1 = (d, c2)" by (cases "close_detach c1")
  obtain ok c3 where com: "reconnect_commit 0 p c2 = (ok, c3)" by (cases "reconnect_commit 0 p c2")
  let ?s1 = "client_of c\<lparr>ce_conn := c1, ce_op := Reconnecting p\<rparr>"
  let ?s2 = "?s1\<lparr>ce_conn := c2, ce_closing := d\<rparr>"
  let ?s3 = "?s2\<lparr>ce_conn := c3, ce_op := NoOp\<rparr>"
  let ?s4 = "?s3\<lparr>ce_conn := close_release (ce_closing ?s3) (ce_conn ?s3), ce_closing := ([], [])\<rparr>"
  have s1: "client_step demo_options (\<lambda>_. []) (client_of c) (EvReconnect True demo_listeners demo_second (''ssh'', [])) ?s1"
    using client_step.step_reconnect [of "client_of c" demo_second demo_options True demo_listeners "(''ssh'', [])" "Some p" c1 "\<lambda>_. []"]
      prep demo_first_distinct(2) by (simp add: client_of_def)
  have s2: "client_step demo_options (\<lambda>_. []) ?s1 EvClose ?s2"
    by (rule client_step.step_close) (simp_all add: op1 d)
  have s3: "client_step demo_options (\<lambda>_. []) ?s2 (EvReconnectCommit 0) ?s3"
    by (rule client_step.step_commit [where p = p and ok = ok]) (simp_all add: com)
  have s4: "client_step demo_options (\<lambda>_. []) ?s3 EvCloseFinish ?s4" by (rule client_step.step_close_finish)
  have "run (client_step demo_options (\<lambda>_. [])) (client_of c)
      [EvReconnect True demo_listeners demo_second (''ssh'', []), EvClose, EvReconnectCommit 0, EvCloseFinish] ?s4"
    by (rule run.run_cons, rule s1, rule run.run_cons, rule s2, rule run.run_cons, rule s3, rule run.run_cons, rule s4, rule run.run_nil)
  then have run: "client_run demo_options (\<lambda>_. []) demo_first c
      [EvReconnect True demo_listeners demo_second (''ssh'', []), EvClose, EvReconnectCommit 0, EvCloseFinish] ?s4"
    unfolding client_run_def using c [unfolded demo_conn_def] demo_first_distinct(1) by blast
  have "cn_closed c2" using d op1 by (auto simp: close_detach_def)
  with com have "cn_closed (ce_conn ?s4)"
    by (auto simp: reconnect_commit_def reconnect_abort_def fold_closeLocalTunnel close_stack_def close_release_def Let_def)
  with connection_leaks_nothing [OF run] have "cn_closed (ce_conn ?s4) \<and> cn_socks (ce_conn ?s4) = [] \<and> cn_stacks (ce_conn ?s4) = []"
    by simp
  with run show ?thesis by blast
qed

definition reconnected :: "connection \<Rightarrow> AuthResponse \<Rightarrow> connection \<Rightarrow> bool" where
  "reconnected c r c2 \<longleftrightarrow>
     (\<exists>n. cn_network c2 = Some n \<and> network_matches n r \<and> cn_stack c2 = Some (cg_stack n) \<and> cn_stacks c2 = [cg_stack n]
        \<and> list_all2 (\<lambda>g lt. serves g lt \<and> lt_target lt = (cg_serverIP n, pt_VirtualPort g) \<and> lt_virtualPort lt = pt_VirtualPort g)
            (rs_Tunnels r) (cn_tunnels c2))
     \<and> mset (cn_socks c2) = image_mset lt_sock (mset (cn_tunnels c2))
     \<and> (\<forall>lt \<in> set (cn_tunnels c). \<forall>g \<in> set (rs_Tunnels r). serves g lt \<longrightarrow>
          (\<exists>lt' \<in> set (cn_tunnels c2). serves g lt' \<and> lt_sock lt' = lt_sock lt \<and> lt_localAddr lt' = lt_localAddr lt))
     \<and> cn_token c2 = rs_Token r \<and> cn_response c2 = r
     \<and> (if must_replace c r then cn_stack c2 \<noteq> cn_stack c \<and> (\<forall>stop. cn_dataStop c = Some stop
            \<longrightarrow> \<not> transportGenerationCurrent stop c2)
        else cn_stack c2 = cn_stack c \<and> cn_transport c2 = cn_transport c \<and> cn_dataStop c2 = cn_dataStop c)"

lemma reconnected_commit:
  assumes inv: "conn_inv s" and op: "\<not> cn_closed (ce_conn s)" and pend: "ce_op s = Reconnecting p"
    and com: "reconnect_commit now p (ce_conn s) = (ok, c2)"
    and fresh: "pd_replaced p \<Longrightarrow> cn_stack (ce_conn s) \<noteq> Some (cg_stack (pd_next p))"
  shows "reconnected (ce_conn s) (pd_response p) c2"
proof -
  let ?c = "ce_conn s" and ?r = "pd_response p"
  note c2 = reconnect_commit_open [OF com op]
  obtain n where n: "cn_network ?c = Some n" "cn_stack ?c = Some (cg_stack n)"
    by (rule client_inv_open [OF inv op])
  have inv2: "conn_inv (s\<lparr>ce_conn := c2, ce_op := NoOp\<rparr>)" by (rule reconnect_commit_inv [OF inv pend com])
  from inv pend op have p: "reconnect_ok p" "pending_fits p ?c" by (simp_all add: conn_inv_def cop_ok_def)
  then have sv: "list_all2 serves (rs_Tunnels ?r) (pd_tunnels p)" and rep: "pd_replaced p = must_replace ?c ?r"
    by (simp_all add: reconnect_ok_def pending_fits_def)
  from client_inv_owners [OF inv2] c2(2) obtain n2 where n2: "cn_network c2 = Some n2"
      "cn_stacks c2 = [cg_stack n2]" "cn_stack c2 = Some (cg_stack n2)"
      and socks: "mset (cn_socks c2) = image_mset lt_sock (mset (cn_tunnels c2))" by (auto simp: op_NoOp)
  have nm: "network_matches n2 ?r \<and> cg_serverIP n2 = cg_serverIP (pd_next p)"
  proof (cases "pd_replaced p")
    case True
    with c2(7) n2(1) p(1) show ?thesis by (auto simp: reconnect_ok_def network_matches_def)
  next
    case False
    with c2(7) n2(1) n p(2) rep show ?thesis
      by (auto simp: pending_fits_def must_replace_def network_matches_def)
  qed
  have ts: "list_all2 (\<lambda>g lt. serves g lt \<and> lt_target lt = (cg_serverIP n2, pt_VirtualPort g) \<and> lt_virtualPort lt = pt_VirtualPort g)
      (rs_Tunnels ?r) (cn_tunnels c2)"
    using sv unfolding c2(3) by (induction rule: list_all2_induct) (simp_all add: serves_def regrant_tunnel_def nm)
  have kept: "\<exists>lt' \<in> set (cn_tunnels c2). serves g lt' \<and> lt_sock lt' = lt_sock lt \<and> lt_localAddr lt' = lt_localAddr lt"
    if "lt \<in> set (cn_tunnels ?c)" "g \<in> set (rs_Tunnels ?r)" "serves g lt" for lt g
  proof -
    from that p(2) have "lt \<in> set (pd_tunnels p)" by (auto simp: pending_fits_def)
    with list_all2_lengthD [OF sv] obtain h where h: "(lt, h) \<in> set (zip (pd_tunnels p) (rs_Tunnels ?r))"
      by (auto simp: in_set_conv_nth set_zip)
    then have "regrant_tunnel (cg_serverIP (pd_next p)) lt h \<in> set (cn_tunnels c2)"
      unfolding c2(3) by force
    with that(3) show ?thesis by (intro bexI [rotated]) (auto simp: regrant_tunnel_def serves_def)
  qed
  have gen: "\<not> transportGenerationCurrent stop c2" if "must_replace ?c ?r" "cn_dataStop ?c = Some stop" for stop
    using that rep client_inv_stop [OF inv order_refl] by (auto simp: transportGenerationCurrent_def c2(9))
  from n2 nm ts socks kept gen c2(5,9,10,12,13) rep fresh show ?thesis unfolding reconnected_def
    by (cases "must_replace ?c ?r") auto
qed

text \<open>C21: A reconnect makes exactly what the new session grants. Its first step either changes nothing
  at all, or it can be committed; the committed connection has one listener per grant, in order,
  of its name and protocol, towards its virtual port at the server's tunnel address; an existing
  listener that serves a grant keeps its socket and address; no other socket and no other stack stays open;
  the data plane fits the session, and it is kept, with its route and generation, exactly when it
  already fitted; otherwise the workers of the old generation stop. If \<open>Close\<close> came in between, the commit
  refuses and leaves only what \<open>Close\<close> has to close.\<close>


theorem reconnect_exact:
  assumes run: "client_run opts addrText r0 c0 es s" and idle: "ce_op s = NoOp" and d: "distinct (map pt_Name (rs_Tunnels r))"
    and prep: "reconnect_prepare opts stackOk bi r m (ce_conn s) = (res, c1)"
  shows "case res of
      None \<Rightarrow> c1 = (ce_conn s)\<lparr>cn_next := cn_next c1\<rparr>
    | Some p \<Rightarrow> (\<exists>c2. reconnect_commit now p c1 = (True, c2) \<and> reconnected (ce_conn s) r c2)
        \<and> (\<exists>c2. reconnect_commit now p (snd (close_detach c1)) = (False, c2)
             \<and> cn_socks (close_release (fst (close_detach c1)) c2) = []
             \<and> cn_stacks (close_release (fst (close_detach c1)) c2) = [])"
proof (cases res)
  case None
  with reconnect_prepare_None [OF prep [unfolded None] client_inv_fresh [OF client_run_inv [OF run]]] show ?thesis by auto
next
  case (Some p)
  note inv = client_run_inv [OF run]
  note made = reconnect_prepare_Some [OF prep [unfolded Some] client_inv_tunnels_ok [OF inv] d]
  let ?s = "s\<lparr>ce_conn := c1, ce_op := Reconnecting p\<rparr>"
  have inv1: "conn_inv ?s" using reconnect_prepare_inv [OF inv idle d prep] Some by simp
  have op1: "\<not> cn_closed (ce_conn ?s)" using made(1,2) by simp
  obtain n where "cn_network (ce_conn s) = Some n" and n: "cn_stack (ce_conn s) = Some (cg_stack n)"
    by (rule client_inv_open [OF inv made(2)])
  then have "cg_stack n < cn_next (ce_conn s)" using inv
    by (intro ledger_member [where l = "cn_stacks (ce_conn s)" and M = "own_stacks s"])
      (simp_all add: conn_inv_def ledger_ok_def own_stacks_def stack_of_def)
  then have fresh: "pd_replaced p \<Longrightarrow> cn_stack (ce_conn ?s) \<noteq> Some (cg_stack (pd_next p))" using made(1,6) n by simp
  obtain ok c2 where c2: "reconnect_commit now p c1 = (ok, c2)" by (cases "reconnect_commit now p c1")
  then have "ok" using reconnect_commit_open(1) op1 by simp
  have same: "reconnected c1 r c2 = reconnected (ce_conn s) r c2"
    by (simp add: reconnected_def must_replace_def made(1))
  from reconnected_commit [OF inv1 op1 _ _ fresh, of now ok c2] c2 made(4) same \<open>ok\<close>
  have committed: "\<exists>c2. reconnect_commit now p c1 = (True, c2) \<and> reconnected (ce_conn s) r c2" by auto
  obtain dt cc where dc: "close_detach c1 = (dt, cc)" by (cases "close_detach c1")
  have inv2: "conn_inv (?s\<lparr>ce_conn := cc, ce_closing := dt\<rparr>)"
    by (rule close_detach_inv [OF inv1 op1]) (simp add: dc)
  have closed: "cn_closed cc" using dc op1 by (auto simp: close_detach_def)
  obtain ok' c3 where c3: "reconnect_commit now p cc = (ok', c3)" by (cases "reconnect_commit now p cc")
  with closed have ok': "\<not> ok'" "cn_closed c3"
    by (auto simp: reconnect_commit_def reconnect_abort_def fold_closeLocalTunnel close_stack_def Let_def)
  have "conn_inv (?s\<lparr>ce_conn := cc, ce_closing := dt\<rparr>\<lparr>ce_conn := c3, ce_op := NoOp\<rparr>)"
    by (rule reconnect_commit_inv [OF inv2, of p now ok' c3]) (simp_all add: c3)
  from close_release_inv [OF this] client_inv_idle_closed [OF close_release_inv [OF this]] ok'
  have "cn_socks (close_release dt c3) = []" "cn_stacks (close_release dt c3) = []" by (simp_all add: close_release_def)
  with c3 dc ok' committed Some show ?thesis by simp
qed

theorem reconnect_exact_witness:
  "\<exists>c p c1 c2. demo_conn = Some (True, c) \<and> reconnect_prepare demo_options True demo_listeners demo_second (''ssh'', []) c = (Some p, c1)
    \<and> reconnect_commit 0 p c1 = (True, c2) \<and> reconnected c demo_second c2"
proof -
  obtain c where c: "demo_conn = Some (True, c)" using demo_conn_made by blast
  obtain p c1 where prep: "reconnect_prepare demo_options True demo_listeners demo_second (''ssh'', []) c = (Some p, c1)"
    using demo_reconnect [OF c] by blast
  have "\<exists>c2. reconnect_commit 0 p c1 = (True, c2) \<and> reconnected c demo_second c2"
    using reconnect_exact [OF demo_connection_run [OF c] _ demo_first_distinct(2), of True demo_listeners "(''ssh'', [])" "Some p" c1 0] prep
    by (simp add: client_of_def)
  with c prep show ?thesis by blast
qed

text \<open>A transport chosen at run time is carried over to a rebuilt data plane only when it is a path: the
  choice \<open>auto\<close> is lost, and the transport of the start-up options is forced again.\<close>

lemma auto_choice_lost:
  assumes "reconnect_network opts stackOk r c = Some (True, nxt, c1)" and "cn_network c = Some n" and "cg_forced n = []"
    and "cg_multipath nxt"
  shows "normalizeTransportPreference (cl_UseWebSocket opts) (cl_Transport opts) = Some (cg_forced nxt)"
proof -
  from assms(2,3) have "forced_of c = []" by (simp add: forced_of_def)
  with assms(1) have "newConnectionNetwork opts stackOk (cn_next c) r = Some nxt"
    by (auto simp: reconnect_network_def split: option.split_asm if_split_asm)
  with newConnectionNetwork_made(5,8) [OF this] assms(4) show ?thesis by simp
qed

lemma forced_choice_kept:
  assumes "reconnect_network opts stackOk r c = Some (True, nxt, c1)" and "forced_of c \<noteq> []" and "cg_multipath nxt"
  shows "cg_forced nxt = forced_of c"
proof -
  from assms(1,2) obtain n where n: "nxt = bind_SetForced (forced_of c) n"
    by (auto simp: reconnect_network_def split: option.split_asm if_split_asm)
  with assms(3) have "cg_multipath n" by simp
  with n show ?thesis by (simp add: bind_SetForced_def)
qed

section \<open>Renewal\<close>

text \<open>The pause is between one and fifteen seconds, and ends before a session of at least two seconds
  does; a pause the 64-bit product overflows on is no exception. The back-off doubles up to a minute.\<close>

lemma renewal_pause_bounds: "1000000000 \<le> renewal_pause ttl" "renewal_pause ttl \<le> 15000000000"
proof -
  obtain d where "renewal_pause ttl = (let e = min d 15000000000 in if e < 1000000000 then 1000000000 else e)"
    unfolding renewal_pause_def Let_def by blast
  then show "1000000000 \<le> renewal_pause ttl" "renewal_pause ttl \<le> 15000000000" by (auto simp: Let_def min_def)
qed

lemma renewal_before_expiry:
  assumes "2 \<le> ttl" and "ttl < 2 ^ 31"
  shows "renewal_pause ttl < ttl * 1000000000"
proof -
  have w: "(word_of_int ttl * 1000000000 * 2 :: 64 word) = word_of_int (ttl * 2000000000)"
    by (simp only: of_int_mult of_int_numeral mult.assoc) simp
  have s: "sint (word_of_int k :: 64 word) = signed_take_bit 63 k" for k by (simp add: sint_sbintrunc')
  have "signed_take_bit 63 (ttl * 2000000000) = ttl * 2000000000"
    by (rule signed_take_bit_int_eq_self) (use assms in simp_all)
  then have "sint (word_of_int ttl * 1000000000 * 2 :: 64 word) = ttl * 2000000000" by (simp only: w s)
  then have "renewal_pause ttl = (let e = min (ttl * 2000000000 div 3) 15000000000 in if e < 1000000000 then 1000000000 else e)"
    using assms by (simp only: renewal_pause_def Let_def) simp
  moreover have "ttl * 2000000000 div 3 < ttl * 1000000000" using assms by simp
  ultimately show ?thesis using assms by (auto simp: Let_def min_def)
qed

lemma next_delay_bounds: "1000000000 \<le> d \<Longrightarrow> d \<le> 60000000000 \<Longrightarrow> d \<le> next_delay d \<and> next_delay d \<le> 60000000000"
  by (simp add: next_delay_def)

lemma carry_over_addresses:
  "rs_TunnelIP old \<noteq> [] \<Longrightarrow> rs_TunnelIP (carry_over old out) \<noteq> []"
  "rs_ServerPublicKey old \<noteq> [] \<Longrightarrow> rs_ServerPublicKey (carry_over old out) \<noteq> []"
  "rs_TransportCapabilities out = None \<Longrightarrow> caps_of (rs_TransportCapabilities (carry_over old out)) = caps_of (rs_TransportCapabilities old)"
  by (simp_all add: carry_over_def nil_if_empty_def caps_of_def split: option.split)

end
