(* ===== verification/Direct_Ladder.thy ===== *)
theory Direct_Ladder
  imports Client_Session Udp_Relay
begin

text \<open>
  The ladder a client on the WebSocket carrier climbs (\<^verbatim>\<open>src/pkg/client/directupgrade.go\<close>): from
  the WebSocket relay to UDP forwarded by the relay to direct UDP, and back one rung at a time. One
  iteration of \<open>directUpgradeLoopFor\<close> is a function of the state and of what the attempts of that
  iteration meet: the answers of the HTTP endpoints, the reflected address, whether endpoints could
  be set and probes were answered. WireGuard may roam the peer's endpoint between iterations and
  while a probe is under way. The text of failure reasons
  and the statistics in an answer only go to the log and to diagnostics and are left out.
\<close>

section \<open>Pacing\<close>

record directUpgradeTiming =
  initialDelay :: duration
  retryInterval :: duration
  healthCheckInterval :: duration
  reflectTimeout :: duration
  probeTimeout :: duration
  relayBindKeepalive :: duration

definition defaultDirectUpgradeTiming :: directUpgradeTiming where
  "defaultDirectUpgradeTiming = \<lparr>initialDelay = 3 * second, retryInterval = 120 * second,
     healthCheckInterval = 20 * second, reflectTimeout = 3 * second, probeTimeout = 3 * second,
     relayBindKeepalive = 15 * second\<rparr>"

definition or_default :: "duration \<Rightarrow> duration \<Rightarrow> duration" where
  "or_default d x = (if x > 0 then x else d)"

definition resolveDirectUpgradeTiming :: "directUpgradeTiming option \<Rightarrow> directUpgradeTiming" where
  "resolveDirectUpgradeTiming o' = (let t = defaultDirectUpgradeTiming in case o' of
       None \<Rightarrow> t
     | Some x \<Rightarrow> \<lparr>initialDelay = or_default (initialDelay t) (initialDelay x),
         retryInterval = or_default (retryInterval t) (retryInterval x),
         healthCheckInterval = or_default (healthCheckInterval t) (healthCheckInterval x),
         reflectTimeout = or_default (reflectTimeout t) (reflectTimeout x),
         probeTimeout = or_default (probeTimeout t) (probeTimeout x),
         relayBindKeepalive = or_default (relayBindKeepalive t) (relayBindKeepalive x)\<rparr>)"

lemma resolved_positive:
  "0 < initialDelay (resolveDirectUpgradeTiming x)" "0 < retryInterval (resolveDirectUpgradeTiming x)"
  "0 < healthCheckInterval (resolveDirectUpgradeTiming x)" "0 < probeTimeout (resolveDirectUpgradeTiming x)"
  "0 < relayBindKeepalive (resolveDirectUpgradeTiming x)"
  by (simp_all add: resolveDirectUpgradeTiming_def defaultDirectUpgradeTiming_def or_default_def Let_def split: option.split)

section \<open>Candidates\<close>

record DirectCandidate =
  dc_ServerAddr :: string
  dc_RelayReflectAddr :: string

record PunchResponse =
  pn_ServerAddr :: string
  pn_RelayReflectAddr :: string
  pn_Candidates :: "DirectCandidate list"

definition directCandidateForReflector :: "PunchResponse \<Rightarrow> string \<Rightarrow> string \<times> string" where
  "directCandidateForReflector resp reflector =
     (case find (\<lambda>c. reflector = [] \<or> dc_RelayReflectAddr c = reflector) (pn_Candidates resp) of
        Some c \<Rightarrow> (dc_RelayReflectAddr c, dc_ServerAddr c)
      | None \<Rightarrow> (pn_RelayReflectAddr resp, pn_ServerAddr resp))"

section \<open>Exchanges\<close>

text \<open>An answer of the server's HTTP endpoints: none, or a status and the decoded body, if it decodes. \<open>/v1/punch\<close>
  and \<open>/v1/udp-relay\<close> treat a 404 as an answer with all fields empty.\<close>

type_synonym 'a reply = "(nat \<times> 'a option) option"

definition reply_or :: "'a \<Rightarrow> 'a reply \<Rightarrow> 'a option" where
  "reply_or zero r = (case r of
       None \<Rightarrow> None
     | Some (status, body) \<Rightarrow>
         if status = 404 then Some zero else if status \<noteq> 200 then None else body)"

definition postPunch :: "PunchResponse reply \<Rightarrow> PunchResponse option" where
  "postPunch r = reply_or \<lparr>pn_ServerAddr = [], pn_RelayReflectAddr = [], pn_Candidates = []\<rparr> r"

definition postUDPRelay :: "UDPRelayResponse reply \<Rightarrow> UDPRelayResponse option" where
  "postUDPRelay r = reply_or no_relay r"

text \<open>The control frames that arrive while a caller waits; what was queued before is drained. The reflected
  address is the payload of the first reflection response.\<close>

definition selfReflect :: "bool \<Rightarrow> (byte \<times> string) list \<Rightarrow> string option" where
  "selfReflect sendOk arrivals =
     (if \<not> sendOk then None
      else map_option snd (find (\<lambda>cp. fst cp = FrameReflectResponse) arrivals))"

text \<open>The paths of the multipath bind, by name and health; \<open>waitForMultipathPath\<close> polls them until the timeout.\<close>

fun multipathPathHealthy :: "(string \<times> bool) list \<Rightarrow> string \<Rightarrow> bool" where
  "multipathPathHealthy [] name = False"
| "multipathPathHealthy (path # paths) name =
     (if fst path = name then snd path else multipathPathHealthy paths name)"

fun waitForMultipathPath :: "(string \<times> bool) list list \<Rightarrow> string \<Rightarrow> bool" where
  "waitForMultipathPath [] name = False"
| "waitForMultipathPath (paths # polls) name =
     (multipathPathHealthy paths name \<or> waitForMultipathPath polls name)"

section \<open>The state of the loop\<close>

definition WSSentinel :: string where
  "WSSentinel = ''ws:relay''"

text \<open>\<open>ld_keepalives\<close> are the keepalive loops that run, with their stop channel, token and address.
  \<open>ld_endpoint\<close> is the endpoint of the WireGuard peer, \<open>ld_paths\<close> the paths registered with the
  multipath bind, \<open>ld_transport\<close> the transport the connection reports.\<close>

record ladder =
  ld_state :: transportState
  ld_relayCandidate :: string
  ld_directCandidate :: string
  ld_relayStop :: "nat option"
  ld_keepalives :: "(nat \<times> string \<times> string) list"
  ld_nextStop :: nat
  ld_nextDirect :: gotime
  ld_wait :: duration
  ld_endpoint :: string
  ld_paths :: "(string, string) fmap"
  ld_lastToken :: string
  ld_transport :: connectionTransport
  ld_done :: bool

text \<open>What one attempt meets. \<open>at_open\<close>: the connection is not closed; \<open>at_set\<close>: the candidate's endpoint
  could be parsed or set; \<open>at_alive\<close>: the probe was answered; \<open>at_polls\<close>: the paths of the
  multipath bind as they are polled; \<open>at_roam\<close>: where WireGuard roamed the peer meanwhile; \<open>at_peerOk\<close>: the peer's endpoint could be read;
  \<open>at_undo\<close>: the endpoint could be set back.\<close>

record pathAttempt =
  at_open :: bool
  at_set :: bool
  at_alive :: bool
  at_polls :: "(string \<times> bool) list list"
  at_roam :: "string option"
  at_peerOk :: bool
  at_undo :: bool

record tickEnv =
  te_now :: gotime
  te_udpRelay :: "UDPRelayResponse reply"
  te_bindOk :: bool
  te_relay :: pathAttempt
  te_first :: "PunchResponse reply"
  te_reflectOk :: bool
  te_control :: "(byte \<times> string) list"
  te_second :: "PunchResponse reply"
  te_direct :: pathAttempt
  te_health :: pathAttempt
  te_paths :: "(string \<times> bool) list"

section \<open>Attempts\<close>

definition set_endpoint :: "bool \<Rightarrow> string \<Rightarrow> ladder \<Rightarrow> ladder" where
  "set_endpoint ok addr s = (if ok then s\<lparr>ld_endpoint := addr\<rparr> else s)"

definition roamed :: "pathAttempt \<Rightarrow> ladder \<Rightarrow> ladder" where
  "roamed a s = (case at_roam a of None \<Rightarrow> s | Some x \<Rightarrow> s\<lparr>ld_endpoint := x\<rparr>)"

text \<open>Both attempts end alike: register the path and wait for it, or seed the peer's endpoint,
  probe, look where the peer is, and set the endpoint back when that fails.\<close>

definition confirm_path :: "bool \<Rightarrow> string \<Rightarrow> string \<Rightarrow> string \<Rightarrow> pathAttempt \<Rightarrow> ladder \<Rightarrow> bool \<times> ladder" where
  "confirm_path multipath name addr fallback a s =
     (if \<not> at_open a then (False, s)
      else if \<not> at_set a then (False, s)
      else if multipath then (waitForMultipathPath (at_polls a) name, s\<lparr>ld_paths := fmupd name addr (ld_paths s)\<rparr>)
      else let s1 = roamed a (set_endpoint True addr s) in
        if \<not> at_alive a then (False, set_endpoint (at_undo a) fallback s1)
        else if \<not> at_peerOk a \<or> ld_endpoint s1 \<noteq> addr then (False, set_endpoint (at_undo a) fallback s1)
        else (True, s1))"

definition tryDirectUpgrade :: "bool \<Rightarrow> tickEnv \<Rightarrow> string \<Rightarrow> ladder \<Rightarrow> string \<times> ladder" where
  "tryDirectUpgrade multipath e fallback s =
     (case postPunch (te_first e) of
        None \<Rightarrow> ([], s)
      | Some first \<Rightarrow>
          let reflectAddr = fst (directCandidateForReflector first []) in
          if reflectAddr = [] then ([], s)
          else case selfReflect (te_reflectOk e) (te_control e) of
            None \<Rightarrow> ([], s)
          | Some selfAddr \<Rightarrow>
              (case postPunch (te_second e) of
                 None \<Rightarrow> ([], s)
               | Some snd' \<Rightarrow>
                   let serverAddr = snd (directCandidateForReflector snd' reflectAddr) in
                   if serverAddr = [] then ([], s)
                   else case confirm_path multipath ''direct-udp'' serverAddr fallback (te_direct e) s of
                     (ok, s') \<Rightarrow> (if ok then serverAddr else [], s')))"

text \<open>The candidate, the token, whether the relay offers no such tier, and the state.\<close>

definition tryUDPRelayUpgrade :: "bool \<Rightarrow> tickEnv \<Rightarrow> ladder \<Rightarrow> string \<times> string \<times> bool \<times> ladder" where
  "tryUDPRelayUpgrade multipath e s =
     (case postUDPRelay (te_udpRelay e) of
        None \<Rightarrow> ([], [], False, s)
      | Some resp \<Rightarrow>
          if ru_RelayAddr resp = [] \<or> ru_Token resp = [] then ([], [], True, s)
          else
            let addr = ru_RelayAddr resp; token = ru_Token resp; s1 = s\<lparr>ld_lastToken := token\<rparr> in
            if \<not> te_bindOk e then ([], [], False, s1)
            else case confirm_path multipath ''udp-relay'' addr WSSentinel (te_relay e) s1 of
              (ok, s2) \<Rightarrow> if ok then (addr, token, False, s2) else ([], [], False, s2))"

definition pathHealthy :: "bool \<Rightarrow> tickEnv \<Rightarrow> string \<Rightarrow> string \<Rightarrow> ladder \<Rightarrow> bool" where
  "pathHealthy multipath e candidate multipathName s =
     (if multipath then multipathPathHealthy (te_paths e) multipathName
      else let a = te_health e in at_open a \<and> at_peerOk a \<and> ld_endpoint s = candidate \<and> at_alive a)"

text \<open>\<open>setEndpoint\<close>: the result, true for a closed connection, and the state.\<close>

definition setEndpoint :: "pathAttempt \<Rightarrow> string \<Rightarrow> ladder \<Rightarrow> bool \<times> ladder" where
  "setEndpoint a addr s =
     (if \<not> at_open a then (True, s) else (at_undo a, set_endpoint (at_undo a) addr s))"

section \<open>One iteration\<close>

definition stopRelayKeepalive :: "ladder \<Rightarrow> ladder" where
  "stopRelayKeepalive s = (case ld_relayStop s of
       None \<Rightarrow> s
     | Some k \<Rightarrow> s\<lparr>ld_keepalives := filter (\<lambda>x. fst x \<noteq> k) (ld_keepalives s), ld_relayStop := None\<rparr>)"

text \<open>\<open>transitionTransportCandidate\<close> publishes the new state.\<close>

definition goto_state :: "transportState \<Rightarrow> ladder \<Rightarrow> ladder" where
  "goto_state st s = s\<lparr>ld_state := st, ld_transport := state_connectionTransport st\<rparr>"

definition tick_wss :: "directUpgradeTiming \<Rightarrow> bool \<Rightarrow> tickEnv \<Rightarrow> ladder \<Rightarrow> ladder" where
  "tick_wss tm multipath e s =
     (case tryUDPRelayUpgrade multipath e s of
        (relayCandidate, relayToken, unavailable, s1) \<Rightarrow>
          let s2 = s1\<lparr>ld_relayCandidate := relayCandidate\<rparr> in
          if relayCandidate \<noteq> [] then
            (goto_state (nextTransportState (ld_state s) transportUDPRelayEstablished False)
               (s2\<lparr>ld_relayStop := Some (ld_nextStop s2), ld_nextStop := Suc (ld_nextStop s2),
                  ld_keepalives := (ld_nextStop s2, relayToken, relayCandidate) # ld_keepalives s2,
                  ld_nextDirect := 0, ld_wait := healthCheckInterval tm\<rparr>))
          else if \<not> unavailable then s2\<lparr>ld_wait := retryInterval tm\<rparr>
          else case tryDirectUpgrade multipath e WSSentinel s2 of
            (directCandidate, s3) \<Rightarrow>
              let s4 = s3\<lparr>ld_directCandidate := directCandidate\<rparr> in
              if directCandidate \<noteq> [] then
                (goto_state (nextTransportState (ld_state s) transportDirectEstablished False)
                   (s4\<lparr>ld_wait := healthCheckInterval tm\<rparr>))
              else s4\<lparr>ld_wait := retryInterval tm\<rparr>)"

definition relay_lost :: "directUpgradeTiming \<Rightarrow> ladder \<Rightarrow> ladder" where
  "relay_lost tm s = (stopRelayKeepalive
     (goto_state (nextTransportState (ld_state s) transportUDPRelayLost False) s))
       \<lparr>ld_relayCandidate := [], ld_wait := retryInterval tm\<rparr>"

definition tick_relay :: "directUpgradeTiming \<Rightarrow> bool \<Rightarrow> tickEnv \<Rightarrow> ladder \<Rightarrow> ladder" where
  "tick_relay tm multipath e s =
     (if \<not> pathHealthy multipath e (ld_relayCandidate s) ''udp-relay'' s then
        (if multipath then relay_lost tm s
         else case setEndpoint (te_health e) WSSentinel s of
           (ok, s1) \<Rightarrow> if \<not> ok then s1\<lparr>ld_wait := healthCheckInterval tm\<rparr> else relay_lost tm s1)
      else if ld_nextDirect s > te_now e then s\<lparr>ld_wait := healthCheckInterval tm\<rparr>
      else
        (case tryDirectUpgrade multipath e (ld_relayCandidate s)
                (s\<lparr>ld_nextDirect := te_now e + retryInterval tm\<rparr>) of
           (directCandidate, s1) \<Rightarrow>
             let s2 = s1\<lparr>ld_directCandidate := directCandidate, ld_wait := healthCheckInterval tm\<rparr> in
             if directCandidate \<noteq> []
             then goto_state (nextTransportState (ld_state s) transportDirectEstablished True) s2
             else s2))"

definition direct_lost :: "directUpgradeTiming \<Rightarrow> tickEnv \<Rightarrow> transportState \<Rightarrow> ladder \<Rightarrow> ladder" where
  "direct_lost tm e st s = (goto_state st s)\<lparr>ld_directCandidate := [],
     ld_nextDirect := te_now e + retryInterval tm, ld_wait := healthCheckInterval tm\<rparr>"

definition tick_direct :: "directUpgradeTiming \<Rightarrow> bool \<Rightarrow> tickEnv \<Rightarrow> ladder \<Rightarrow> ladder" where
  "tick_direct tm multipath e s =
     (if pathHealthy multipath e (ld_directCandidate s) ''direct-udp'' s
      then s\<lparr>ld_wait := healthCheckInterval tm\<rparr>
      else if multipath then
        direct_lost tm e (nextTransportState (ld_state s) transportDirectLost
          (ld_relayCandidate s \<noteq> [] \<and> multipathPathHealthy (te_paths e) ''udp-relay'')) s
      else
        let next = nextTransportState (ld_state s) transportDirectLost (ld_relayCandidate s \<noteq> []);
            fallback = (if next = transportStateUDPRelay then ld_relayCandidate s else WSSentinel)
        in case setEndpoint (te_health e) fallback s of
          (ok, s1) \<Rightarrow> if \<not> ok then s1\<lparr>ld_wait := healthCheckInterval tm\<rparr> else direct_lost tm e next s1)"

text \<open>A tick of \<open>directUpgradeLoopFor\<close>. The state is one of the three rungs, or \<open>transportStateDirect\<close>,
  which the loop never reaches; any other state does nothing.\<close>

definition ladder_tick :: "directUpgradeTiming \<Rightarrow> bool \<Rightarrow> tickEnv \<Rightarrow> ladder \<Rightarrow> ladder" where
  "ladder_tick tm multipath e s =
     (if ld_state s = transportStateWSSRelay then tick_wss tm multipath e s
      else if ld_state s = transportStateUDPRelay then tick_relay tm multipath e s
      else if ld_state s = transportStateDirect \<or> ld_state s = transportStateDirectViaRelayReflector
      then tick_direct tm multipath e s
      else s)"

definition ladder_start :: "directUpgradeTiming \<Rightarrow> connectionTransport \<Rightarrow> ladder" where
  "ladder_start tm transport = \<lparr>ld_state = transportStateWSSRelay, ld_relayCandidate = [], ld_directCandidate = [],
     ld_relayStop = None, ld_keepalives = [], ld_nextStop = 0, ld_nextDirect = 0, ld_wait = initialDelay tm,
     ld_endpoint = WSSentinel, ld_paths = fmempty, ld_lastToken = [], ld_transport = transport, ld_done = False\<rparr>"

text \<open>The loop ticks until its generation is stopped; WireGuard roams on its own.\<close>

datatype ladderEvent = LadderTick tickEnv | LadderRoam string | LadderStop

inductive ladder_step :: "directUpgradeTiming \<Rightarrow> bool \<Rightarrow> ladder \<Rightarrow> ladderEvent \<Rightarrow> ladder \<Rightarrow> bool"
  for tm :: directUpgradeTiming and multipath :: bool where
  step_tick: "\<not> ld_done s \<Longrightarrow> ladder_step tm multipath s (LadderTick e) (ladder_tick tm multipath e s)"
| step_roam: "ladder_step tm multipath s (LadderRoam a) (s\<lparr>ld_endpoint := a\<rparr>)"
| step_stop: "\<not> ld_done s \<Longrightarrow> ladder_step tm multipath s LadderStop ((stopRelayKeepalive s)\<lparr>ld_done := True\<rparr>)"

section \<open>What an iteration does\<close>

lemmas ladder_defs = ladder_tick_def tick_wss_def tick_relay_def tick_direct_def relay_lost_def direct_lost_def
  goto_state_def stopRelayKeepalive_def Let_def

text \<open>An attempt touches the peer's endpoint, the paths and the last token only; with a multipath bind it leaves the
  endpoint alone, and without one success means that the peer is at the candidate.\<close>

definition attempt_frame :: "bool \<Rightarrow> ladder \<Rightarrow> ladder \<Rightarrow> bool" where
  "attempt_frame multipath s s' \<longleftrightarrow>
     ld_state s' = ld_state s \<and> ld_relayCandidate s' = ld_relayCandidate s \<and> ld_directCandidate s' = ld_directCandidate s
     \<and> ld_relayStop s' = ld_relayStop s \<and> ld_keepalives s' = ld_keepalives s \<and> ld_nextStop s' = ld_nextStop s
     \<and> ld_nextDirect s' = ld_nextDirect s \<and> ld_transport s' = ld_transport s \<and> ld_done s' = ld_done s
     \<and> (multipath \<longrightarrow> ld_endpoint s' = ld_endpoint s)"

lemma confirm_path_frame:
  assumes "confirm_path multipath name addr fallback a s = (ok, s')"
  shows "attempt_frame multipath s s' \<and> (ok \<longrightarrow> multipath \<or> ld_endpoint s' = addr)"
proof -
  have "ok = fst (confirm_path multipath name addr fallback a s)" "s' = snd (confirm_path multipath name addr fallback a s)"
    using assms by simp_all
  then show ?thesis
    by (simp add: confirm_path_def attempt_frame_def set_endpoint_def roamed_def Let_def split: option.split)
qed

lemma tryDirectUpgrade_frame:
  assumes "tryDirectUpgrade multipath e fallback s = (c, s')"
  shows "attempt_frame multipath s s' \<and> (c \<noteq> [] \<longrightarrow> multipath \<or> ld_endpoint s' = c)"
proof -
  have "attempt_frame multipath s s" by (simp add: attempt_frame_def)
  then show ?thesis
    using assms by (auto simp: tryDirectUpgrade_def Let_def dest!: confirm_path_frame
        split: option.split_asm if_split_asm prod.split_asm)
qed

lemma tryUDPRelayUpgrade_frame:
  assumes "tryUDPRelayUpgrade multipath e s = (c, t, unavailable, s')"
  shows "attempt_frame multipath s s' \<and> (c \<noteq> [] \<longrightarrow> multipath \<or> ld_endpoint s' = c) \<and> (unavailable \<longrightarrow> c = [])"
proof -
  have f: "attempt_frame multipath s s" "\<And>x. attempt_frame multipath s (s\<lparr>ld_lastToken := x\<rparr>)"
    "\<And>x s2. attempt_frame multipath (s\<lparr>ld_lastToken := x\<rparr>) s2 = attempt_frame multipath s s2" by (simp_all add: attempt_frame_def)
  show ?thesis
    using assms f by (auto simp: tryUDPRelayUpgrade_def Let_def dest!: confirm_path_frame
        split: option.split_asm if_split_asm prod.split_asm)
qed

text \<open>The rungs, in both modes; and, in the legacy mode, that the keepalive that runs is the one of the relay candidate.\<close>

definition rung_ok :: "ladder \<Rightarrow> bool" where
  "rung_ok s \<longleftrightarrow>
     ld_state s \<in> {transportStateWSSRelay, transportStateUDPRelay, transportStateDirectViaRelayReflector}
     \<and> (ld_state s = transportStateUDPRelay \<longrightarrow> ld_relayCandidate s \<noteq> [])
     \<and> (ld_state s = transportStateDirectViaRelayReflector \<longrightarrow> ld_directCandidate s \<noteq> [])"

definition kept :: "ladder \<Rightarrow> bool" where
  "kept s \<longleftrightarrow> (case ld_relayStop s of
       None \<Rightarrow> ld_relayCandidate s = [] \<and> ld_keepalives s = []
     | Some k \<Rightarrow> ld_relayCandidate s \<noteq> [] \<and> (\<exists>token. ld_keepalives s = [(k, token, ld_relayCandidate s)]))"

definition keepalive_ok :: "ladder \<Rightarrow> bool" where
  "keepalive_ok s \<longleftrightarrow>
     (if ld_done s then ld_keepalives s = []
      else kept s \<and> (ld_state s = transportStateWSSRelay \<longrightarrow> ld_relayCandidate s = []))"

definition ladder_ok :: "bool \<Rightarrow> ladder \<Rightarrow> bool" where
  "ladder_ok multipath s \<longleftrightarrow> rung_ok s \<and> (multipath \<or> keepalive_ok s)"

lemma kept_cong:
  "ld_relayStop t = ld_relayStop s \<Longrightarrow> ld_relayCandidate t = ld_relayCandidate s \<Longrightarrow> ld_keepalives t = ld_keepalives s
    \<Longrightarrow> kept t = kept s"
  by (simp only: kept_def)

lemma kept_empty: "kept s \<Longrightarrow> ld_relayCandidate s = [] \<Longrightarrow> ld_relayStop s = None \<and> ld_keepalives s = []"
  by (simp add: kept_def split: option.split_asm)

lemma kept_stop: "kept s \<Longrightarrow> ld_keepalives (stopRelayKeepalive s) = [] \<and> ld_relayStop (stopRelayKeepalive s) = None"
  by (auto simp: kept_def stopRelayKeepalive_def split: option.split_asm)

lemma stopRelayKeepalive_sel [simp]:
  "ld_state (stopRelayKeepalive s) = ld_state s" "ld_relayCandidate (stopRelayKeepalive s) = ld_relayCandidate s"
  "ld_directCandidate (stopRelayKeepalive s) = ld_directCandidate s" "ld_done (stopRelayKeepalive s) = ld_done s"
  "ld_endpoint (stopRelayKeepalive s) = ld_endpoint s" "ld_transport (stopRelayKeepalive s) = ld_transport s"
  by (simp_all add: stopRelayKeepalive_def split: option.split)

lemma goto_state_sel [simp]:
  "ld_state (goto_state st s) = st" "ld_transport (goto_state st s) = state_connectionTransport st"
  "ld_relayCandidate (goto_state st s) = ld_relayCandidate s" "ld_directCandidate (goto_state st s) = ld_directCandidate s"
  "ld_relayStop (goto_state st s) = ld_relayStop s" "ld_keepalives (goto_state st s) = ld_keepalives s"
  "ld_done (goto_state st s) = ld_done s" "ld_endpoint (goto_state st s) = ld_endpoint s"
  by (simp_all add: goto_state_def)

lemma next_rungs [simp]:
  "nextTransportState transportStateWSSRelay transportUDPRelayEstablished b = transportStateUDPRelay"
  "nextTransportState transportStateWSSRelay transportDirectEstablished b = transportStateDirectViaRelayReflector"
  "nextTransportState transportStateUDPRelay transportDirectEstablished b = transportStateDirectViaRelayReflector"
  "nextTransportState transportStateUDPRelay transportUDPRelayLost b = transportStateWSSRelay"
  "nextTransportState transportStateDirectViaRelayReflector transportDirectLost b =
     (if b then transportStateUDPRelay else transportStateWSSRelay)"
  by (simp_all add: nextTransportState_def)

text \<open>The outcomes of an iteration on each rung.\<close>

lemma setEndpoint_frame:
  "setEndpoint a addr s = (ok, s') \<Longrightarrow> \<exists>x. s' = s\<lparr>ld_endpoint := x\<rparr> \<and> (ok \<longrightarrow> x = (if at_open a then addr else ld_endpoint s))"
  by (auto simp: setEndpoint_def set_endpoint_def split: if_split_asm)
    (metis ladder.surjective ladder.update_convs(9))+

lemma tick_wss_cases:
  assumes st: "ld_state s = transportStateWSSRelay" and t: "t = tick_wss tm multipath e s"
  obtains (stay) "ld_state t = transportStateWSSRelay" "ld_relayCandidate t = []" "ld_relayStop t = ld_relayStop s"
      "ld_keepalives t = ld_keepalives s" "ld_done t = ld_done s" "ld_transport t = ld_transport s"
      "multipath \<longrightarrow> ld_endpoint t = ld_endpoint s"
  | (relay) k token where "ld_state t = transportStateUDPRelay" "ld_transport t = transportUDPRelay" "ld_relayCandidate t \<noteq> []"
      "ld_relayStop t = Some k" "ld_keepalives t = (k, token, ld_relayCandidate t) # ld_keepalives s" "ld_done t = ld_done s"
      "ld_endpoint t = (if multipath then ld_endpoint s else ld_relayCandidate t)"
  | (direct) "ld_state t = transportStateDirectViaRelayReflector" "ld_transport t = transportUDPRelayReflector"
      "ld_relayCandidate t = []" "ld_directCandidate t \<noteq> []" "ld_relayStop t = ld_relayStop s" "ld_keepalives t = ld_keepalives s"
      "ld_done t = ld_done s" "ld_endpoint t = (if multipath then ld_endpoint s else ld_directCandidate t)"
proof -
  obtain c k u s1 where r: "tryUDPRelayUpgrade multipath e s = (c, k, u, s1)" by (cases "tryUDPRelayUpgrade multipath e s")
  obtain dc s3 where q: "tryDirectUpgrade multipath e WSSentinel (s1\<lparr>ld_relayCandidate := c\<rparr>) = (dc, s3)"
    by (cases "tryDirectUpgrade multipath e WSSentinel (s1\<lparr>ld_relayCandidate := c\<rparr>)")
  note f = tryUDPRelayUpgrade_frame [OF r, unfolded attempt_frame_def] tryDirectUpgrade_frame [OF q, unfolded attempt_frame_def]
  consider "c \<noteq> []" | "c = []" "\<not> u" | "c = []" "u" "dc = []" | "c = []" "u" "dc \<noteq> []" by blast
  then show thesis
  proof cases
    case 1
    then have "t = goto_state transportStateUDPRelay (s1\<lparr>ld_relayCandidate := c, ld_relayStop := Some (ld_nextStop s1),
        ld_nextStop := Suc (ld_nextStop s1), ld_keepalives := (ld_nextStop s1, k, c) # ld_keepalives s1, ld_nextDirect := 0,
        ld_wait := healthCheckInterval tm\<rparr>)" by (simp add: t tick_wss_def r st Let_def)
    with 1 f show thesis by (intro relay) auto
  next
    case 2
    then have "t = s1\<lparr>ld_relayCandidate := [], ld_wait := retryInterval tm\<rparr>" by (simp add: t tick_wss_def r Let_def)
    with f st show thesis by (intro stay) auto
  next
    case 3
    then have "t = s3\<lparr>ld_directCandidate := [], ld_wait := retryInterval tm\<rparr>" using q by (simp add: t tick_wss_def r Let_def)
    with 3 f st show thesis by (intro stay) auto
  next
    case 4
    then have "t = goto_state transportStateDirectViaRelayReflector
        (s3\<lparr>ld_directCandidate := dc, ld_wait := healthCheckInterval tm\<rparr>)" using q by (simp add: t tick_wss_def r st Let_def)
    with 4 f st show thesis by (intro direct) auto
  qed
qed

lemma tick_relay_cases:
  assumes st: "ld_state s = transportStateUDPRelay" and t: "t = tick_relay tm multipath e s"
  obtains (stay) "ld_state t = ld_state s" "ld_relayCandidate t = ld_relayCandidate s" "ld_relayStop t = ld_relayStop s"
      "ld_keepalives t = ld_keepalives s" "ld_done t = ld_done s" "ld_transport t = ld_transport s"
      "multipath \<longrightarrow> ld_endpoint t = ld_endpoint s"
  | (direct) "ld_state t = transportStateDirectViaRelayReflector" "ld_transport t = transportUDPRelayReflector"
      "ld_relayCandidate t = ld_relayCandidate s" "ld_directCandidate t \<noteq> []" "ld_relayStop t = ld_relayStop s"
      "ld_keepalives t = ld_keepalives s" "ld_done t = ld_done s"
      "ld_endpoint t = (if multipath then ld_endpoint s else ld_directCandidate t)"
  | (lost) "ld_state t = transportStateWSSRelay" "ld_transport t = transportWSSRelay" "ld_relayCandidate t = []"
      "ld_relayStop t = ld_relayStop (stopRelayKeepalive s)" "ld_keepalives t = ld_keepalives (stopRelayKeepalive s)"
      "ld_done t = ld_done s" "ld_endpoint t = (if multipath \<or> \<not> at_open (te_health e) then ld_endpoint s else WSSentinel)"
      "\<not> pathHealthy multipath e (ld_relayCandidate s) ''udp-relay'' s"
proof -
  obtain dc s1 where q: "tryDirectUpgrade multipath e (ld_relayCandidate s) (s\<lparr>ld_nextDirect := te_now e + retryInterval tm\<rparr>) = (dc, s1)"
    by (cases "tryDirectUpgrade multipath e (ld_relayCandidate s) (s\<lparr>ld_nextDirect := te_now e + retryInterval tm\<rparr>)")
  note f = tryDirectUpgrade_frame [OF q, unfolded attempt_frame_def]
  obtain ok s2 where se: "setEndpoint (te_health e) WSSentinel s = (ok, s2)" by (cases "setEndpoint (te_health e) WSSentinel s")
  from setEndpoint_frame [OF se] obtain x where s2: "s2 = s\<lparr>ld_endpoint := x\<rparr>"
      "ok \<longrightarrow> x = (if at_open (te_health e) then WSSentinel else ld_endpoint s)" by blast
  have rl: "ld_state (relay_lost tm (s\<lparr>ld_endpoint := y\<rparr>)) = transportStateWSSRelay"
    "ld_transport (relay_lost tm (s\<lparr>ld_endpoint := y\<rparr>)) = transportWSSRelay"
    "ld_relayCandidate (relay_lost tm (s\<lparr>ld_endpoint := y\<rparr>)) = []"
    "ld_relayStop (relay_lost tm (s\<lparr>ld_endpoint := y\<rparr>)) = ld_relayStop (stopRelayKeepalive s)"
    "ld_keepalives (relay_lost tm (s\<lparr>ld_endpoint := y\<rparr>)) = ld_keepalives (stopRelayKeepalive s)"
    "ld_done (relay_lost tm (s\<lparr>ld_endpoint := y\<rparr>)) = ld_done s" "ld_endpoint (relay_lost tm (s\<lparr>ld_endpoint := y\<rparr>)) = y" for y
    using st by (simp_all add: relay_lost_def) (simp_all add: stopRelayKeepalive_def goto_state_def split: option.split)
  have rl': "relay_lost tm s = relay_lost tm (s\<lparr>ld_endpoint := ld_endpoint s\<rparr>)" by simp
  let ?h = "pathHealthy multipath e (ld_relayCandidate s) ''udp-relay'' s"
  consider "\<not> ?h" "multipath" | "\<not> ?h" "\<not> multipath" "ok" | "\<not> ?h" "\<not> multipath" "\<not> ok" | "?h" "ld_nextDirect s > te_now e"
    | "?h" "\<not> ld_nextDirect s > te_now e" "dc = []" | "?h" "\<not> ld_nextDirect s > te_now e" "dc \<noteq> []" by blast
  then show thesis
  proof cases
    case 1
    then have "t = relay_lost tm (s\<lparr>ld_endpoint := ld_endpoint s\<rparr>)" by (simp add: t tick_relay_def)
    with 1 rl [of "ld_endpoint s"] show thesis by (intro lost) (simp_all only: if_True simp_thms)
  next
    case 2
    then have "t = relay_lost tm (s\<lparr>ld_endpoint := x\<rparr>)" by (simp add: t tick_relay_def se s2(1))
    moreover have "x = (if multipath \<or> \<not> at_open (te_health e) then ld_endpoint s else WSSentinel)" using 2 s2(2) by simp
    ultimately show thesis using 2 rl [of x] by (intro lost) (simp_all only: not_False_eq_True)
  next
    case 3
    then have "t = s\<lparr>ld_endpoint := x, ld_wait := healthCheckInterval tm\<rparr>" by (simp add: t tick_relay_def se s2(1))
    with 3 show thesis by (intro stay) simp_all
  next
    case 4
    then have "t = s\<lparr>ld_wait := healthCheckInterval tm\<rparr>" by (simp add: t tick_relay_def)
    then show thesis by (intro stay) simp_all
  next
    case 5
    then have "t = s1\<lparr>ld_directCandidate := [], ld_wait := healthCheckInterval tm\<rparr>" by (simp add: t tick_relay_def q Let_def)
    with f st show thesis by (intro stay) auto
  next
    case 6
    then have "t = goto_state transportStateDirectViaRelayReflector
        (s1\<lparr>ld_directCandidate := dc, ld_wait := healthCheckInterval tm\<rparr>)" by (simp add: t tick_relay_def q st Let_def)
    with 6 f st show thesis by (intro direct) auto
  qed
qed

lemma tick_direct_cases:
  assumes st: "ld_state s = transportStateDirectViaRelayReflector" and t: "t = tick_direct tm multipath e s"
  obtains (stay) "ld_state t = ld_state s" "ld_relayCandidate t = ld_relayCandidate s" "ld_directCandidate t = ld_directCandidate s"
      "ld_relayStop t = ld_relayStop s" "ld_keepalives t = ld_keepalives s" "ld_done t = ld_done s" "ld_transport t = ld_transport s"
      "multipath \<longrightarrow> ld_endpoint t = ld_endpoint s"
  | (lost) "ld_state t = (if ld_relayCandidate s \<noteq> [] \<and> (multipath \<longrightarrow> multipathPathHealthy (te_paths e) ''udp-relay'') then transportStateUDPRelay else transportStateWSSRelay)"
      "ld_transport t = state_connectionTransport (ld_state t)" "ld_relayCandidate t = ld_relayCandidate s"
      "ld_relayStop t = ld_relayStop s" "ld_keepalives t = ld_keepalives s" "ld_done t = ld_done s"
      "ld_endpoint t = (if multipath \<or> \<not> at_open (te_health e) then ld_endpoint s
         else if ld_relayCandidate s \<noteq> [] then ld_relayCandidate s else WSSentinel)"
      "\<not> pathHealthy multipath e (ld_directCandidate s) ''direct-udp'' s"
proof -
  let ?next = "nextTransportState (ld_state s) transportDirectLost (ld_relayCandidate s \<noteq> [])"
  let ?fb = "if ?next = transportStateUDPRelay then ld_relayCandidate s else WSSentinel"
  have fb: "?fb = (if ld_relayCandidate s \<noteq> [] then ld_relayCandidate s else WSSentinel)" by (simp add: st)
  obtain ok s2 where se: "setEndpoint (te_health e) ?fb s = (ok, s2)" by (cases "setEndpoint (te_health e) ?fb s")
  from setEndpoint_frame [OF se] obtain x where s2: "s2 = s\<lparr>ld_endpoint := x\<rparr>"
      "ok \<longrightarrow> x = (if at_open (te_health e) then ?fb else ld_endpoint s)" by blast
  let ?h = "pathHealthy multipath e (ld_directCandidate s) ''direct-udp'' s"
  consider "?h" | "\<not> ?h" "multipath" | "\<not> ?h" "\<not> multipath" "ok" | "\<not> ?h" "\<not> multipath" "\<not> ok" by blast
  then show thesis
  proof cases
    case 1
    then have "t = s\<lparr>ld_wait := healthCheckInterval tm\<rparr>" by (simp add: t tick_direct_def)
    then show thesis by (intro stay) simp_all
  next
    case 2
    then have "t = direct_lost tm e (nextTransportState (ld_state s) transportDirectLost (ld_relayCandidate s \<noteq> [] \<and> multipathPathHealthy (te_paths e) ''udp-relay'')) s"
      by (simp add: t tick_direct_def)
    with 2 show thesis by (intro lost) (simp_all add: direct_lost_def st)
  next
    case 3
    then have "t = direct_lost tm e ?next s2" unfolding t tick_direct_def Let_def se by simp
    with 3 s2 fb show thesis by (intro lost) (simp_all add: direct_lost_def st)
  next
    case 4
    then have "t = s2\<lparr>ld_wait := healthCheckInterval tm\<rparr>" unfolding t tick_direct_def Let_def se by simp
    with 4 s2 show thesis by (intro stay) simp_all
  qed
qed

lemma ladder_tick_ok:
  assumes ok: "ladder_ok multipath s" and d: "\<not> ld_done s"
  shows "ladder_ok multipath (ladder_tick tm multipath e s)"
proof -
  let ?t = "ladder_tick tm multipath e s"
  consider (wss) "ld_state s = transportStateWSSRelay" | (relay) "ld_state s = transportStateUDPRelay"
    | (direct) "ld_state s = transportStateDirectViaRelayReflector"
    using ok by (auto simp: ladder_ok_def rung_ok_def)
  then show ?thesis
  proof cases
    case wss
    with ok d have e: "multipath \<or> ld_relayStop s = None \<and> ld_keepalives s = []"
      using kept_empty [of s] by (auto simp: ladder_ok_def keepalive_ok_def)
    from wss have "?t = tick_wss tm multipath e s" by (simp add: ladder_tick_def)
    with wss show ?thesis
    proof (cases rule: tick_wss_cases)
      case stay
      with e d wss show ?thesis by (cases multipath) (simp_all add: ladder_ok_def rung_ok_def keepalive_ok_def kept_def)
    next
      case (relay k token)
      with e d wss show ?thesis by (cases multipath) (simp_all add: ladder_ok_def rung_ok_def keepalive_ok_def kept_def)
    next
      case direct
      with e d wss show ?thesis by (cases multipath) (simp_all add: ladder_ok_def rung_ok_def keepalive_ok_def kept_def)
    qed
  next
    case relay
    then have "?t = tick_relay tm multipath e s" by (simp add: ladder_tick_def)
    with relay show ?thesis
    proof (cases rule: tick_relay_cases)
      case stay
      with ok d relay show ?thesis by (simp add: ladder_ok_def rung_ok_def keepalive_ok_def kept_cong [of ?t s])
    next
      case direct
      with ok d relay show ?thesis by (simp add: ladder_ok_def rung_ok_def keepalive_ok_def kept_cong [of ?t s])
    next
      case lost
      with ok d relay show ?thesis
        by (auto simp: ladder_ok_def rung_ok_def keepalive_ok_def dest: kept_stop) (simp_all add: kept_def kept_stop)
    qed
  next
    case direct
    then have "?t = tick_direct tm multipath e s" by (simp add: ladder_tick_def)
    with direct show ?thesis
    proof (cases rule: tick_direct_cases)
      case stay
      with ok d direct show ?thesis by (simp add: ladder_ok_def rung_ok_def keepalive_ok_def kept_cong [of ?t s])
    next
      case lost
      then have "kept ?t = kept s" by (intro kept_cong)
      with lost ok d direct show ?thesis
        by (cases multipath) (auto simp: ladder_ok_def rung_ok_def keepalive_ok_def)
    qed
  qed
qed

lemma ladder_step_ok: "ladder_ok multipath s \<Longrightarrow> ladder_step tm multipath s ev t \<Longrightarrow> ladder_ok multipath t"
proof (erule ladder_step.cases)
  fix s0 e assume "ladder_ok multipath s" "s = s0" "t = ladder_tick tm multipath e s0" "\<not> ld_done s0"
  then show "ladder_ok multipath t" by (simp add: ladder_tick_ok)
next
  fix s0 a assume "ladder_ok multipath s" "s = s0" "t = s0\<lparr>ld_endpoint := a\<rparr>"
  moreover have "kept (s0\<lparr>ld_endpoint := a\<rparr>) = kept s0" by (rule kept_cong) simp_all
  ultimately show "ladder_ok multipath t" by (auto simp: ladder_ok_def rung_ok_def keepalive_ok_def)
next
  fix s0 assume "ladder_ok multipath s" "s = s0" "t = stopRelayKeepalive s0\<lparr>ld_done := True\<rparr>" "\<not> ld_done s0"
  then show "ladder_ok multipath t" using kept_stop [of s0] by (auto simp: ladder_ok_def rung_ok_def keepalive_ok_def)
qed

interpretation ladder_ops: inv_system "ladder_step tm multipath" "ladder_ok multipath"
  by unfold_locales (rule ladder_step_ok)

lemma ladder_start_ok: "ladder_ok multipath (ladder_start tm tr)"
  by (simp add: ladder_ok_def rung_ok_def keepalive_ok_def kept_def ladder_start_def)

section \<open>Properties\<close>

text \<open>C24: in the legacy mode, whatever the relay, the network and WireGuard's roaming do, one keepalive loop runs while
  the client has a relay candidate, for that candidate's address, and none otherwise; on the rung of the WebSocket relay
  there is no candidate, on the rung of the UDP relay there is one; and when the loop has stopped no keepalive is left.\<close>

theorem ladder_one_keepalive:
  assumes "run (ladder_step tm False) (ladder_start tm tr) evs s"
  shows "(if ld_done s then ld_keepalives s = []
     else (\<exists>k token. ld_keepalives s = (if ld_relayCandidate s = [] then [] else [(k, token, ld_relayCandidate s)]))
        \<and> (ld_state s = transportStateWSSRelay \<longrightarrow> ld_relayCandidate s = [])
        \<and> (ld_state s = transportStateUDPRelay \<longrightarrow> ld_relayCandidate s \<noteq> []))"
  using ladder_ops.run_inv [OF assms ladder_start_ok]
  by (auto simp: ladder_ok_def rung_ok_def keepalive_ok_def kept_def split: if_splits option.split_asm)

text \<open>C23: a change of rung is confirmed. When an iteration of a live connection changes the state, in a run from the start,
  the connection reports the new rung's transport; without a multipath bind the WireGuard peer's endpoint is then the new
  rung's own address (the relay's, the direct candidate's or the WebSocket sentinel), with one it is untouched; and
  a rung that was climbed is only left when its health check failed or, from the UDP relay, for the direct path.\<close>

theorem ladder_moves_confirmed:
  assumes "run (ladder_step tm multipath) (ladder_start tm tr) evs s" and "t = ladder_tick tm multipath e s"
    and "\<not> ld_done s" and "ld_state t \<noteq> ld_state s" and "at_open (te_health e)"
  shows "ld_transport t = state_connectionTransport (ld_state t)
     \<and> ld_endpoint t = (if multipath then ld_endpoint s
          else if ld_state t = transportStateUDPRelay then ld_relayCandidate t
          else if ld_state t = transportStateDirectViaRelayReflector then ld_directCandidate t
          else WSSentinel)
     \<and> (ld_state t = transportStateWSSRelay \<or> ld_state s = transportStateDirectViaRelayReflector \<longrightarrow>
          \<not> pathHealthy multipath e
              (if ld_state s = transportStateUDPRelay then ld_relayCandidate s else ld_directCandidate s)
              (if ld_state s = transportStateUDPRelay then ''udp-relay'' else ''direct-udp'') s)"
proof -
  have "rung_ok s" using ladder_ops.run_inv [OF assms(1) ladder_start_ok] by (simp add: ladder_ok_def)
  then consider (wss) "ld_state s = transportStateWSSRelay" | (relay) "ld_state s = transportStateUDPRelay"
    | (direct) "ld_state s = transportStateDirectViaRelayReflector" by (auto simp: rung_ok_def)
  then show ?thesis
  proof cases
    case wss
    then have "t = tick_wss tm multipath e s" using assms(2) by (simp add: ladder_tick_def)
    with wss show ?thesis using wss assms(4) by (cases rule: tick_wss_cases) simp_all
  next
    case relay
    then have "t = tick_relay tm multipath e s" using assms(2) by (simp add: ladder_tick_def)
    with relay show ?thesis using relay assms(4,5) by (cases rule: tick_relay_cases) simp_all
  next
    case direct
    then have "t = tick_direct tm multipath e s" using assms(2) by (simp add: ladder_tick_def)
    with direct show ?thesis using direct assms(4,5) by (cases rule: tick_direct_cases) simp_all
  qed
qed

lemma run_tick:
  "\<not> ld_done s \<Longrightarrow> run (ladder_step tm multipath) (ladder_tick tm multipath e s) es u
    \<Longrightarrow> run (ladder_step tm multipath) s (LadderTick e # es) u"
  by (erule run_cons [rotated]) (rule step_tick)

lemma run_stop:
  "\<not> ld_done s \<Longrightarrow> run (ladder_step tm multipath) s [LadderStop] (stopRelayKeepalive s\<lparr>ld_done := True\<rparr>)"
  by (rule run_cons) (erule step_stop, rule run_nil)

text \<open>A concrete run: the relay rung is reached, then the direct one, and both are lost.\<close>

definition demo_attempt :: pathAttempt where
  "demo_attempt = \<lparr>at_open = True, at_set = True, at_alive = True,
     at_polls = [[(''wss'', True)], [(''wss'', True), (''udp-relay'', True), (''direct-udp'', True)]],
     at_roam = None, at_peerOk = True, at_undo = True\<rparr>"

definition demo_punch :: "PunchResponse reply" where
  "demo_punch = Some (200, Some \<lparr>pn_ServerAddr = ''198.51.100.7:51820'', pn_RelayReflectAddr = ''203.0.113.1:7001'', pn_Candidates = []\<rparr>)"

definition demo_tick :: "gotime \<Rightarrow> bool \<Rightarrow> tickEnv" where
  "demo_tick now alive = \<lparr>te_now = now,
     te_udpRelay = Some (200, Some \<lparr>ru_RelayAddr = ''203.0.113.1:7000'', ru_Token = ''t1'', ru_Stats = None\<rparr>), te_bindOk = True,
     te_relay = demo_attempt, te_first = demo_punch, te_reflectOk = True,
     te_control = [(FramePrime, ''''), (FrameReflectResponse, ''192.0.2.9:40000'')], te_second = demo_punch,
     te_direct = demo_attempt, te_health = demo_attempt\<lparr>at_alive := alive\<rparr>, te_paths = [(''wss'', True), (''udp-relay'', alive), (''direct-udp'', alive)]\<rparr>"

lemmas demo_ladder_defs = demo_tick_def demo_attempt_def demo_punch_def ladder_defs ladder_start_def tryUDPRelayUpgrade_def
  tryDirectUpgrade_def confirm_path_def pathHealthy_def set_endpoint_def roamed_def directCandidateForReflector_def
  selfReflect_def postPunch_def postUDPRelay_def reply_or_def no_relay_def frame_defs resolveDirectUpgradeTiming_def
  defaultDirectUpgradeTiming_def nextTransportState_def setEndpoint_def WSSentinel_def

abbreviation demo_timing :: directUpgradeTiming where
  "demo_timing \<equiv> defaultDirectUpgradeTiming"

lemma demo_climb:
  "ladder_tick demo_timing False (demo_tick 60 True) (ladder_tick demo_timing False (demo_tick 10 True)
     (ladder_start demo_timing transportWSSRelay)) =
   \<lparr>ld_state = transportStateDirectViaRelayReflector, ld_relayCandidate = ''203.0.113.1:7000'',
     ld_directCandidate = ''198.51.100.7:51820'', ld_relayStop = Some 0, ld_keepalives = [(0, ''t1'', ''203.0.113.1:7000'')],
     ld_nextStop = 1, ld_nextDirect = 60 + 120 * second, ld_wait = 20 * second, ld_endpoint = ''198.51.100.7:51820'',
     ld_paths = fmempty, ld_lastToken = ''t1'', ld_transport = transportUDPRelayReflector, ld_done = False\<rparr>"
  by (simp add: demo_ladder_defs)

definition demo_climbed :: ladder where
  "demo_climbed = ladder_tick demo_timing False (demo_tick 60 True) (ladder_tick demo_timing False (demo_tick 10 True)
     (ladder_start demo_timing transportWSSRelay))"

lemma demo_climbed_run:
  "run (ladder_step demo_timing False) (ladder_start demo_timing transportWSSRelay)
     [LadderTick (demo_tick 10 True), LadderTick (demo_tick 60 True)] demo_climbed"
  unfolding demo_climbed_def
  by (rule run_tick, simp add: demo_ladder_defs, rule run_tick, simp add: demo_ladder_defs) (rule run_nil)

lemma ladder_one_keepalive_witness:
  "ld_keepalives demo_climbed = [(0, ''t1'', ''203.0.113.1:7000'')]
   \<and> (\<exists>k token. ld_keepalives demo_climbed = [(k, token, ''203.0.113.1:7000'')])"
  using ladder_one_keepalive [OF demo_climbed_run] by (simp add: demo_climbed_def demo_climb)

lemma ladder_moves_confirmed_witness:
  "ld_endpoint (ladder_tick demo_timing False (demo_tick 90 False) demo_climbed) = ''203.0.113.1:7000''
   \<and> ld_state (ladder_tick demo_timing False (demo_tick 90 False) demo_climbed) = transportStateUDPRelay"
proof -
  have "ld_state (ladder_tick demo_timing False (demo_tick 90 False) demo_climbed) = transportStateUDPRelay
      \<and> ld_relayCandidate (ladder_tick demo_timing False (demo_tick 90 False) demo_climbed) = ''203.0.113.1:7000''"
    by (simp add: demo_climbed_def demo_climb) (simp add: demo_ladder_defs)
  then show ?thesis
    using ladder_moves_confirmed [OF demo_climbed_run refl, of "demo_tick 90 False"]
    by (simp add: demo_climbed_def demo_climb) (simp add: demo_tick_def demo_attempt_def)
qed

text \<open>C39: with a multipath bind the keepalive of the UDP relay can outlive the connection. When the direct path is lost while
  the relay path is unhealthy, the client is back on the rung of the WebSocket relay but nothing stops the relay's keepalive
  loop: the next relay success overwrites its stop channel, and stopping the loop then stops only the newer keepalive, so the
  older one keeps sending its token to the relay.\<close>

theorem relay_keepalive_outlives_multipath:
  "\<exists>e1 e2 e3 e4 s.
     run (ladder_step demo_timing True) (ladder_start demo_timing transportWSSRelay)
       [LadderTick e1, LadderTick e2, LadderTick e3, LadderTick e4, LadderStop] s
     \<and> ld_done s \<and> ld_relayStop s = None \<and> ld_keepalives s = [(0, ''t1'', ''203.0.113.1:7000'')]"
proof -
  let ?t = "ladder_tick demo_timing True"
  let ?s1 = "?t (demo_tick 10 True) (ladder_start demo_timing transportWSSRelay)"
  let ?s2 = "?t (demo_tick 60 True) ?s1"
  let ?s3 = "?t (demo_tick 90 False) ?s2"
  let ?s4 = "?t (demo_tick 300 True) ?s3"
  have s2: "?s2 = \<lparr>ld_state = transportStateDirectViaRelayReflector, ld_relayCandidate = ''203.0.113.1:7000'',
      ld_directCandidate = ''198.51.100.7:51820'', ld_relayStop = Some 0, ld_keepalives = [(0, ''t1'', ''203.0.113.1:7000'')],
      ld_nextStop = 1, ld_nextDirect = 60 + 120 * second, ld_wait = 20 * second, ld_endpoint = ''ws:relay'',
      ld_paths = fmupd ''direct-udp'' ''198.51.100.7:51820'' (fmupd ''udp-relay'' ''203.0.113.1:7000'' fmempty),
      ld_lastToken = ''t1'', ld_transport = transportUDPRelayReflector, ld_done = False\<rparr>"
    by (simp add: demo_ladder_defs)
  then have s4: "ld_keepalives ?s4 = [(1, ''t1'', ''203.0.113.1:7000''), (0, ''t1'', ''203.0.113.1:7000'')]"
    "ld_relayStop ?s4 = Some 1" "\<not> ld_done ?s3" "\<not> ld_done ?s4"
    by (simp_all add: s2) (simp_all add: demo_ladder_defs)
  have s01: "\<not> ld_done (ladder_start demo_timing transportWSSRelay)" "\<not> ld_done ?s1" by (simp_all add: demo_ladder_defs)
  have "\<not> ld_done ?s2" by (simp only: s2 ladder.simps) simp
  with s01 s4 have "run (ladder_step demo_timing True) (ladder_start demo_timing transportWSSRelay)
      [LadderTick (demo_tick 10 True), LadderTick (demo_tick 60 True), LadderTick (demo_tick 90 False),
       LadderTick (demo_tick 300 True), LadderStop] (stopRelayKeepalive ?s4\<lparr>ld_done := True\<rparr>)"
    by (intro run_tick run_stop)
  moreover have "ld_relayStop (stopRelayKeepalive ?s4\<lparr>ld_done := True\<rparr>) = None
      \<and> ld_keepalives (stopRelayKeepalive ?s4\<lparr>ld_done := True\<rparr>) = [(0, ''t1'', ''203.0.113.1:7000'')]"
    using s4 by (simp add: stopRelayKeepalive_def)
  moreover have "ld_done (stopRelayKeepalive ?s4\<lparr>ld_done := True\<rparr>)" by simp
  ultimately show ?thesis by metis
qed

end
