(* ===== verification/Server_Dns.thy ===== *)
theory Server_Dns
  imports Config_Parse
begin

text \<open>
  The DNS server inside the tunnel (\<^verbatim>\<open>src/pkg/server/dns.go\<close>): which queries are answered from the
  configuration and with what, which ones are forwarded, and the retry of the read loop. The wire format
  is a library's (\<open>dnsmessage\<close>): \<open>Unpack\<close>, \<open>Pack\<close>, which names \<open>NewName\<close> takes, and the exchanges with
  upstream servers are arguments. All records have class IN and a TTL of ten seconds, and are not given them.
  Description and documentation of a tunnel are arguments too.
\<close>

section \<open>Messages\<close>

definition TypeA :: nat where "TypeA = 1"
definition TypeNS :: nat where "TypeNS = 2"
definition TypeCNAME :: nat where "TypeCNAME = 5"
definition TypeSOA :: nat where "TypeSOA = 6"
definition TypePTR :: nat where "TypePTR = 12"
definition TypeTXT :: nat where "TypeTXT = 16"
definition TypeAAAA :: nat where "TypeAAAA = 28"
definition TypeSRV :: nat where "TypeSRV = 33"
definition typeANY :: nat where "typeANY = 255"

lemmas type_defs = TypeA_def TypeNS_def TypeCNAME_def TypeSOA_def TypePTR_def TypeTXT_def TypeAAAA_def TypeSRV_def typeANY_def

definition RCodeSuccess :: nat where "RCodeSuccess = 0"
definition RCodeServerFailure :: nat where "RCodeServerFailure = 2"
definition RCodeNameError :: nat where "RCodeNameError = 3"
definition RCodeRefused :: nat where "RCodeRefused = 5"

lemmas rcode_defs = RCodeSuccess_def RCodeServerFailure_def RCodeNameError_def RCodeRefused_def

record dnsQuestion =
  qu_Name :: string
  qu_Type :: nat
  qu_Class :: nat

datatype dnsBody =
    ABody "32 word"
  | AAAABody "128 word"
  | TXTBody "string list"
  | SRVBody "16 word" string \<comment> \<open>port and target; priority and weight are 0\<close>
  | PTRBody string
  | NSBody string
  | CNAMEBody string
  | SOABody string string \<comment> \<open>name server and mailbox; the numbers are constants\<close>

record dnsResource =
  ds_Name :: string
  ds_Type :: nat
  ds_Body :: dnsBody

record dnsMessage =
  dm_ID :: "16 word"
  dm_Response :: bool
  dm_OpCode :: nat
  dm_Authoritative :: bool
  dm_Truncated :: bool
  dm_RecursionDesired :: bool
  dm_RecursionAvailable :: bool
  dm_RCode :: nat
  dm_Questions :: "dnsQuestion list"
  dm_Answers :: "dnsResource list"
  dm_Additionals :: "dnsResource list"

record dnsEnv =
  de_unicode :: unicode
  de_Unpack :: "bytes \<Rightarrow> dnsMessage option"
  de_Pack :: "dnsMessage \<Rightarrow> bytes option"
  de_NewName :: "string \<Rightarrow> bool"
  de_Description :: "string \<Rightarrow> string"
  de_DocsURL :: "string \<Rightarrow> string"
  de_UDP :: "string \<Rightarrow> bytes \<Rightarrow> bytes option"
  de_TCP :: "string \<Rightarrow> bytes \<Rightarrow> bytes option"

text \<open>\<open>MustNewName\<close> panics for a name that \<open>NewName\<close> refuses.\<close>

definition MustNewName :: "dnsEnv \<Rightarrow> string \<Rightarrow> ('e, string) outcome" where
  "MustNewName env s = (if de_NewName env s then Ok s else Panic)"

section \<open>Names\<close>

fun str_join :: "string list \<Rightarrow> string" where
  "str_join [] = []"
| "str_join [s] = s"
| "str_join (s # ss) = s @ '','' @ str_join ss"

text \<open>The lowered name of a question, without the trailing dot.\<close>

definition question_name :: "dnsEnv \<Rightarrow> string \<Rightarrow> string" where
  "question_name env name = trim_suffix (ToLower (de_unicode env) name) ''.''"

fun match_domains :: "string \<Rightarrow> string list \<Rightarrow> (string \<times> string) option" where
  "match_domains qName [] = None"
| "match_domains qName (d # ds) =
     (if d = [] then match_domains qName ds
      else if qName = d then Some ([], d)
      else if HasSuffix qName (''.'' @ d) then Some (trim_suffix qName (''.'' @ d), d)
      else match_domains qName ds)"

definition matchDomainPrefix :: "string \<Rightarrow> string \<Rightarrow> (string \<times> string) option" where
  "matchDomainPrefix qName domain =
     (case match_domains qName [domain, ''ntwire'', ''tunnel'', ''ntwire.internal''] of
        Some r \<Rightarrow> Some r
      | None \<Rightarrow> if CHR ''.'' \<notin> set qName then Some (qName, domain) else None)"

definition is_reverse :: "string \<Rightarrow> bool" where
  "is_reverse name \<longleftrightarrow> HasSuffix name ''.in-addr.arpa'' \<or> HasSuffix name ''.ip6.arpa''"

definition isLocalDNSName :: "string \<Rightarrow> string \<Rightarrow> bool" where
  "isLocalDNSName name domain \<longleftrightarrow> is_reverse name \<or> matchDomainPrefix name domain \<noteq> None"

fun allExternal_loop :: "dnsEnv \<Rightarrow> dnsQuestion list \<Rightarrow> string \<Rightarrow> bool" where
  "allExternal_loop env [] domain = True"
| "allExternal_loop env (q # qs) domain =
     (if isLocalDNSName (question_name env (qu_Name q)) domain then False else allExternal_loop env qs domain)"

definition allExternalDNSQuestions :: "dnsEnv \<Rightarrow> dnsQuestion list \<Rightarrow> string \<Rightarrow> bool" where
  "allExternalDNSQuestions env qs domain = (if qs = [] then False else allExternal_loop env qs domain)"

definition hex_char :: "nat \<Rightarrow> char" where
  "hex_char n = (if n < 10 then char_of (48 + n) else char_of (87 + n))"

text \<open>Byte \<open>i\<close> of a big-endian address of \<open>len\<close> bytes.\<close>

definition addr_byte :: "nat \<Rightarrow> nat \<Rightarrow> nat \<Rightarrow> nat" where
  "addr_byte len n i = n div 256 ^ (len - 1 - i) mod 256"

definition reverseARPAName :: "ipAddr \<Rightarrow> string" where
  "reverseARPAName ip = (case ip of
       IP4 w \<Rightarrow> concat (map (\<lambda>i. itoa (addr_byte 4 (unat w) i) @ ''.'') [3, 2, 1, 0]) @ ''in-addr.arpa''
     | IP6 w z \<Rightarrow> concat (map (\<lambda>i. [hex_char (addr_byte 16 (unat w) i mod 16), CHR ''.'',
                                hex_char (addr_byte 16 (unat w) i div 16), CHR ''.'']) (rev [0..<16])) @ ''ip6.arpa''
     | IPInvalid \<Rightarrow> [])"

text \<open>\<open>strings.EqualFold\<close> against a name whose letters have no Unicode case variants.\<close>

definition isReverseOf :: "string \<Rightarrow> ipAddr \<Rightarrow> bool" where
  "isReverseOf arpaName ip \<longleftrightarrow>
     map lower_char (trim_suffix arpaName ''.'') = map lower_char (trim_suffix (reverseARPAName ip) ''.'')"

definition label_char :: "char \<Rightarrow> string" where
  "label_char r = (let n = (of_char r :: nat) in
     if (97 \<le> n \<and> n \<le> 122) \<or> (48 \<le> n \<and> n \<le> 57) \<or> r = CHR ''-'' then [r]
     else if r = CHR ''@'' \<or> r = CHR ''.'' \<or> r = CHR ''_'' then ''-'' else [])"

definition trim_char :: "char \<Rightarrow> string \<Rightarrow> string" where
  "trim_char c s = rev (dropWhile (\<lambda>x. x = c) (rev (dropWhile (\<lambda>x. x = c) s)))"

definition sanitizeLabel :: "unicode \<Rightarrow> string \<Rightarrow> string" where
  "sanitizeLabel u s =
     (let res = trim_char CHR ''-'' (concat (map label_char (ToLower u (TrimSpace u s))))
      in if res = [] then ''client'' else if length res > 63 then take 63 res else res)"

section \<open>Answers from the configuration\<close>

definition answer :: "dnsResource \<Rightarrow> dnsMessage \<Rightarrow> dnsMessage" where
  "answer r m = m\<lparr>dm_Answers := dm_Answers m @ [r]\<rparr>"

definition additional :: "dnsResource \<Rightarrow> dnsMessage \<Rightarrow> dnsMessage" where
  "additional r m = m\<lparr>dm_Additionals := dm_Additionals m @ [r]\<rparr>"

definition dnsARecord :: "string \<Rightarrow> ipAddr \<Rightarrow> dnsResource" where
  "dnsARecord name ip = \<lparr>ds_Name = name, ds_Type = TypeA, ds_Body = ABody (case ip of IP4 w \<Rightarrow> w | _ \<Rightarrow> 0)\<rparr>"

definition dnsAAAARecord :: "string \<Rightarrow> ipAddr \<Rightarrow> dnsResource" where
  "dnsAAAARecord name ip = \<lparr>ds_Name = name, ds_Type = TypeAAAA, ds_Body = AAAABody (case ip of IP6 w z \<Rightarrow> w | _ \<Rightarrow> 0)\<rparr>"

definition dnsSOARecord :: "dnsEnv \<Rightarrow> string \<Rightarrow> string \<Rightarrow> ('e, dnsResource) outcome" where
  "dnsSOARecord env name domain =
     obind (MustNewName env (''server.'' @ domain @ ''.'')) (\<lambda>ns.
     obind (MustNewName env (''hostmaster.'' @ domain @ ''.'')) (\<lambda>mbox.
     Ok \<lparr>ds_Name = name, ds_Type = TypeSOA, ds_Body = SOABody ns mbox\<rparr>))"

definition dnsTunnelTXTRecord :: "dnsEnv \<Rightarrow> string \<Rightarrow> tunnelConfig \<Rightarrow> dnsResource" where
  "dnsTunnelTXTRecord env name t = \<lparr>ds_Name = name, ds_Type = TypeTXT, ds_Body = TXTBody
     ([''port='' @ itoa (nat (tc_VirtualPort t)), ''target='' @ tc_Target t]
      @ (if de_Description env (tc_Name t) \<noteq> [] then [''desc='' @ de_Description env (tc_Name t)] else [])
      @ (if de_DocsURL env (tc_Name t) \<noteq> [] then [''docs='' @ de_DocsURL env (tc_Name t)] else [])
      @ [if IsSocks t then ''type=socks'' else ''type=tcp''])\<rparr>"

text \<open>The address records of the server under a name, as answers and as additional records.\<close>

definition answer_A :: "string \<Rightarrow> ipAddr \<Rightarrow> dnsMessage \<Rightarrow> dnsMessage" where
  "answer_A name sip m = (if Is4 sip then answer (dnsARecord name sip) m else m)"

definition answer_AAAA :: "string \<Rightarrow> ipAddr \<Rightarrow> dnsMessage \<Rightarrow> dnsMessage" where
  "answer_AAAA name sip m = (if Is6 sip then answer (dnsAAAARecord name sip) m else m)"

definition additional_addr :: "string \<Rightarrow> ipAddr \<Rightarrow> dnsMessage \<Rightarrow> dnsMessage" where
  "additional_addr name sip m =
     (if Is4 sip then additional (dnsARecord name sip) m
      else if Is6 sip then additional (dnsAAAARecord name sip) m else m)"

definition answer_SRV :: "string \<Rightarrow> string \<Rightarrow> ipAddr \<Rightarrow> tunnelConfig \<Rightarrow> dnsMessage \<Rightarrow> dnsMessage" where
  "answer_SRV name target sip t m = additional_addr target sip
     (answer \<lparr>ds_Name = name, ds_Type = TypeSRV, ds_Body = SRVBody (of_int (tc_VirtualPort t)) target\<rparr> m)"


text \<open>Reverse lookups: the server's address and the address of the peer that asks.\<close>

definition resolve_reverse ::
  "dnsEnv \<Rightarrow> ipAddr \<Rightarrow> dnsQuestion \<Rightarrow> dataPlanePrincipal \<Rightarrow> string \<Rightarrow> string \<Rightarrow> dnsMessage \<Rightarrow> (unit, dnsMessage) outcome" where
  "resolve_reverse env sip q p domain qName resp =
     (if (qu_Type q = TypePTR \<or> qu_Type q = typeANY) \<and> isReverseOf qName sip then
        obind (MustNewName env (''server.'' @ domain @ ''.'')) (\<lambda>n.
        Ok (answer \<lparr>ds_Name = qu_Name q, ds_Type = TypePTR, ds_Body = PTRBody n\<rparr> resp))
      else if (qu_Type q = TypePTR \<or> qu_Type q = typeANY) \<and> isReverseOf qName (pr_TunnelIP p) then
        obind (MustNewName env (sanitizeLabel (de_unicode env) (pr_Identity p) @ ''.'' @ domain @ ''.'')) (\<lambda>n.
        Ok (answer \<lparr>ds_Name = qu_Name q, ds_Type = TypePTR, ds_Body = PTRBody n\<rparr> resp))
      else Ok (resp\<lparr>dm_RCode := RCodeNameError\<rparr>))"

text \<open>The apex of the domain and the server's own names.\<close>

definition apex_text :: "tunnelConfig list \<Rightarrow> string list" where
  "apex_text tunnels = [''ntwire'', ''version=1'', ''tunnels='' @ str_join (map tc_Name tunnels)]"

definition resolve_apex ::
  "dnsEnv \<Rightarrow> ipAddr \<Rightarrow> dnsQuestion \<Rightarrow> string \<Rightarrow> tunnelConfig list \<Rightarrow> dnsMessage \<Rightarrow> (unit, dnsMessage) outcome" where
  "resolve_apex env sip q matchedDomain tunnels resp =
     (if qu_Type q = TypeA then Ok (answer_A (qu_Name q) sip resp)
      else if qu_Type q = TypeAAAA then Ok (answer_AAAA (qu_Name q) sip resp)
      else if qu_Type q = TypeTXT then
        Ok (answer \<lparr>ds_Name = qu_Name q, ds_Type = TypeTXT, ds_Body = TXTBody (apex_text tunnels)\<rparr> resp)
      else if qu_Type q = TypeSOA then
        obind (dnsSOARecord env (qu_Name q) matchedDomain) (\<lambda>r. Ok (answer r resp))
      else if qu_Type q = TypeNS then
        obind (MustNewName env (''server.'' @ matchedDomain @ ''.'')) (\<lambda>n.
        Ok (answer \<lparr>ds_Name = qu_Name q, ds_Type = TypeNS, ds_Body = NSBody n\<rparr> resp))
      else Ok resp)"

text \<open>Service discovery lists every tunnel.\<close>

fun discover_SRV ::
  "dnsEnv \<Rightarrow> ipAddr \<Rightarrow> string \<Rightarrow> string \<Rightarrow> tunnelConfig list \<Rightarrow> dnsMessage \<Rightarrow> (unit, dnsMessage) outcome" where
  "discover_SRV env sip name matchedDomain [] resp = Ok resp"
| "discover_SRV env sip name matchedDomain (t # ts) resp =
     obind (MustNewName env (ToLower (de_unicode env) (tc_Name t) @ ''.'' @ matchedDomain @ ''.'')) (\<lambda>target.
     discover_SRV env sip name matchedDomain ts (answer_SRV name target sip t resp))"

definition discovery_text :: "dnsEnv \<Rightarrow> tunnelConfig \<Rightarrow> string" where
  "discovery_text env t = ''name='' @ tc_Name t @ '' port='' @ itoa (nat (tc_VirtualPort t))
     @ '' target='' @ tc_Target t @ '' desc='' @ de_Description env (tc_Name t)"

fun discover_TXT :: "dnsEnv \<Rightarrow> string \<Rightarrow> tunnelConfig list \<Rightarrow> dnsMessage \<Rightarrow> dnsMessage" where
  "discover_TXT env name [] resp = resp"
| "discover_TXT env name (t # ts) resp = discover_TXT env name ts
     (answer \<lparr>ds_Name = name, ds_Type = TypeTXT, ds_Body = TXTBody [discovery_text env t]\<rparr> resp)"

fun discover_PTR ::
  "dnsEnv \<Rightarrow> string \<Rightarrow> string \<Rightarrow> tunnelConfig list \<Rightarrow> dnsMessage \<Rightarrow> (unit, dnsMessage) outcome" where
  "discover_PTR env name matchedDomain [] resp = Ok resp"
| "discover_PTR env name matchedDomain (t # ts) resp =
     obind (MustNewName env (''_'' @ ToLower (de_unicode env) (tc_Name t) @ ''._tcp.'' @ matchedDomain @ ''.'')) (\<lambda>n.
     discover_PTR env name matchedDomain ts
       (answer \<lparr>ds_Name = name, ds_Type = TypePTR, ds_Body = PTRBody n\<rparr> resp))"

definition resolve_discovery ::
  "dnsEnv \<Rightarrow> ipAddr \<Rightarrow> dnsQuestion \<Rightarrow> string \<Rightarrow> tunnelConfig list \<Rightarrow> dnsMessage \<Rightarrow> (unit, dnsMessage) outcome" where
  "resolve_discovery env sip q matchedDomain tunnels resp =
     (if qu_Type q = TypeSRV \<or> qu_Type q = typeANY then discover_SRV env sip (qu_Name q) matchedDomain tunnels resp
      else if qu_Type q = TypeTXT then Ok (discover_TXT env (qu_Name q) tunnels resp)
      else if qu_Type q = TypePTR then discover_PTR env (qu_Name q) matchedDomain tunnels resp
      else if qu_Type q = TypeSOA then obind (dnsSOARecord env (qu_Name q) matchedDomain) (\<lambda>r. Ok (answer r resp))
      else Ok resp)"

text \<open>The service name of one tunnel, and its plain name.\<close>

definition resolve_service ::
  "dnsEnv \<Rightarrow> ipAddr \<Rightarrow> dnsQuestion \<Rightarrow> string \<Rightarrow> string \<Rightarrow> tunnelConfig \<Rightarrow> dnsMessage \<Rightarrow> (unit, dnsMessage) outcome" where
  "resolve_service env sip q tName matchedDomain t resp =
     (if qu_Type q = TypeSRV \<or> qu_Type q = typeANY then
        obind (MustNewName env (tName @ ''.'' @ matchedDomain @ ''.'')) (\<lambda>target.
        Ok (answer_SRV (qu_Name q) target sip t resp))
      else if qu_Type q = TypeTXT then Ok (answer (dnsTunnelTXTRecord env (qu_Name q) t) resp)
      else if qu_Type q = TypeA then Ok (answer_A (qu_Name q) sip resp)
      else if qu_Type q = TypeAAAA then Ok (answer_AAAA (qu_Name q) sip resp)
      else Ok resp)"

definition resolve_target ::
  "dnsEnv \<Rightarrow> ipAddr \<Rightarrow> dnsQuestion \<Rightarrow> string \<Rightarrow> tunnelConfig \<Rightarrow> dnsMessage \<Rightarrow> (unit, dnsMessage) outcome" where
  "resolve_target env sip q matchedDomain t resp =
     (if qu_Type q = TypeA then Ok (answer_A (qu_Name q) sip resp)
      else if qu_Type q = TypeAAAA then Ok (answer_AAAA (qu_Name q) sip resp)
      else if qu_Type q = TypeSRV then Ok (answer_SRV (qu_Name q) (qu_Name q) sip t resp)
      else if qu_Type q = TypeTXT then Ok (answer (dnsTunnelTXTRecord env (qu_Name q) t) resp)
      else if qu_Type q = TypeCNAME then
        obind (MustNewName env (''server.'' @ matchedDomain @ ''.'')) (\<lambda>n.
        Ok (answer \<lparr>ds_Name = qu_Name q, ds_Type = TypeCNAME, ds_Body = CNAMEBody n\<rparr> resp))
      else if qu_Type q = TypeSOA then
        obind (dnsSOARecord env (qu_Name q) matchedDomain) (\<lambda>r. Ok (answer r resp))
      else Ok resp)"

definition server_names :: "string list" where
  "server_names = [[], ''server'', ''gateway'']"

definition discovery_names :: "string list" where
  "discovery_names = [''_ntwire._tcp'', ''_ntwire'', ''_services._dns-sd._udp'', ''_services._tcp'']"

definition resolveDNSQuestion ::
  "dnsEnv \<Rightarrow> ipAddr \<Rightarrow> dnsQuestion \<Rightarrow> dataPlanePrincipal \<Rightarrow> string \<Rightarrow> tunnelConfig list \<Rightarrow> (string, tunnelConfig) fmap
     \<Rightarrow> dnsMessage \<Rightarrow> (unit, dnsMessage) outcome" where
  "resolveDNSQuestion env sip q p domain allowedTunnels allowedMap resp =
     (let qName = question_name env (qu_Name q) in
      if is_reverse qName then resolve_reverse env sip q p domain qName resp
      else case matchDomainPrefix qName domain of
        None \<Rightarrow> Ok (resp\<lparr>dm_RCode := RCodeNameError\<rparr>)
      | Some (pre, matchedDomain) \<Rightarrow>
          if pre \<in> set server_names then resolve_apex env sip q matchedDomain allowedTunnels resp
          else if pre \<in> set discovery_names then resolve_discovery env sip q matchedDomain allowedTunnels resp
          else if HasPrefix pre ''_'' then
            (let tName = trim_prefix (trim_suffix pre ''._tcp'') ''_'' in
             case fmlookup allowedMap tName of
               None \<Rightarrow> Ok (resp\<lparr>dm_RCode := RCodeNameError\<rparr>)
             | Some t \<Rightarrow> resolve_service env sip q tName matchedDomain t resp)
          else (case fmlookup allowedMap pre of
              None \<Rightarrow> Ok (resp\<lparr>dm_RCode := RCodeNameError\<rparr>)
            | Some t \<Rightarrow> resolve_target env sip q matchedDomain t resp))"

fun resolve_all ::
  "dnsEnv \<Rightarrow> ipAddr \<Rightarrow> dataPlanePrincipal \<Rightarrow> string \<Rightarrow> tunnelConfig list \<Rightarrow> (string, tunnelConfig) fmap
     \<Rightarrow> dnsQuestion list \<Rightarrow> dnsMessage \<Rightarrow> (unit, dnsMessage) outcome" where
  "resolve_all env sip p domain ts m [] resp = Ok resp"
| "resolve_all env sip p domain ts m (q # qs) resp =
     obind (resolveDNSQuestion env sip q p domain ts m resp) (\<lambda>resp'. resolve_all env sip p domain ts m qs resp')"

section \<open>Forwarding\<close>

definition dnsResponseMatches :: "dnsEnv \<Rightarrow> bytes \<Rightarrow> 16 word \<Rightarrow> bool" where
  "dnsResponseMatches env raw i = (case de_Unpack env raw of None \<Rightarrow> False | Some m \<Rightarrow> dm_Response m \<and> dm_ID m = i)"

text \<open>The exchanges that were made, in order (true for UDP), and the response.\<close>

fun forward_loop :: "dnsEnv \<Rightarrow> bytes \<Rightarrow> 16 word \<Rightarrow> string list \<Rightarrow> (bool \<times> string) list \<times> bytes option" where
  "forward_loop env query i [] = ([], None)"
| "forward_loop env query i (upstream # us) =
     (let next = (\<lambda>used. case forward_loop env query i us of (cs, r) \<Rightarrow> (used @ cs, r)) in
      case de_UDP env upstream query of
        None \<Rightarrow> next [(True, upstream)]
      | Some response \<Rightarrow>
          if \<not> dnsResponseMatches env response i then next [(True, upstream)]
          else if (case de_Unpack env response of None \<Rightarrow> False | Some m \<Rightarrow> dm_Truncated m) then
            (case de_TCP env upstream query of
               None \<Rightarrow> next [(True, upstream), (False, upstream)]
             | Some response' \<Rightarrow>
                 if dnsResponseMatches env response' i then ([(True, upstream), (False, upstream)], Some response')
                 else next [(True, upstream), (False, upstream)])
          else ([(True, upstream)], Some response))"

definition forwardDNS :: "dnsEnv \<Rightarrow> bytes \<Rightarrow> string list \<Rightarrow> (bool \<times> string) list \<times> bytes option" where
  "forwardDNS env query upstreams = (case de_Unpack env query of
       None \<Rightarrow> ([], None)
     | Some request \<Rightarrow> forward_loop env query (dm_ID request) upstreams)"

section \<open>The handler\<close>

definition allowedTunnelsForPrincipal :: "serverState \<Rightarrow> dataPlanePrincipal \<Rightarrow> tunnelConfig list" where
  "allowedTunnelsForPrincipal st p = filter (\<lambda>t. tc_Name t |\<in>| pr_Tunnels p) (cf_Tunnels (st_config st))"

definition allowed_map :: "unicode \<Rightarrow> tunnelConfig list \<Rightarrow> (string, tunnelConfig) fmap" where
  "allowed_map u ts = fold (\<lambda>t. fmupd (ToLower u (tc_Name t)) t) ts fmempty"

datatype dnsReply = NoReply | Reply bytes | ReplyPanic

definition writeDNSResponse :: "dnsEnv \<Rightarrow> dnsMessage \<Rightarrow> dnsReply" where
  "writeDNSResponse env resp = (case de_Pack env resp of None \<Rightarrow> NoReply | Some b \<Rightarrow> Reply b)"

definition base_response :: "dnsMessage \<Rightarrow> dnsMessage" where
  "base_response req = \<lparr>dm_ID = dm_ID req, dm_Response = True, dm_OpCode = dm_OpCode req, dm_Authoritative = True,
     dm_Truncated = False, dm_RecursionDesired = dm_RecursionDesired req, dm_RecursionAvailable = False,
     dm_RCode = RCodeSuccess, dm_Questions = dm_Questions req, dm_Answers = [], dm_Additionals = []\<rparr>"

definition server_failure :: "dnsMessage \<Rightarrow> dnsMessage" where
  "server_failure resp = resp\<lparr>dm_Authoritative := False, dm_RecursionAvailable := True, dm_RCode := RCodeServerFailure\<rparr>"

text \<open>The exchanges with upstream servers and the reply to the source. \<open>slot\<close>: one of the 64 forwarding
  slots is free; \<open>sip\<close> is the server's tunnel address.\<close>

definition handleDNS ::
  "dnsEnv \<Rightarrow> DNSConfig \<Rightarrow> ipAddr \<Rightarrow> bool \<Rightarrow> gotime \<Rightarrow> string list \<Rightarrow> serverState \<Rightarrow> addrPort \<Rightarrow> bytes
     \<Rightarrow> (bool \<times> string) list \<times> dnsReply" where
  "handleDNS env dns sip slot now ks st src reqBytes =
     (case de_Unpack env reqBytes of
        None \<Rightarrow> ([], NoReply)
      | Some req \<Rightarrow>
          let resp = base_response req in
          (case principalForIP now ks (ap_Addr src) st of
             None \<Rightarrow> ([], writeDNSResponse env (resp\<lparr>dm_RCode := RCodeRefused\<rparr>))
           | Some p \<Rightarrow>
               let domain = EffectiveDomain (de_unicode env) dns in
               if dn_ForwardingEnabled dns \<and> allExternalDNSQuestions env (dm_Questions req) domain then
                 (if \<not> slot then ([], writeDNSResponse env (server_failure resp))
                  else (case forwardDNS env reqBytes (dn_Upstreams dns) of
                      (cs, Some out) \<Rightarrow> (cs, Reply out)
                    | (cs, None) \<Rightarrow> (cs, writeDNSResponse env (server_failure resp))))
               else
                 let ts = allowedTunnelsForPrincipal st p in
                 (case resolve_all env sip p domain ts (allowed_map (de_unicode env) ts) (dm_Questions req) resp of
                    Ok resp' \<Rightarrow> ([], writeDNSResponse env resp')
                  | Err e \<Rightarrow> ([], NoReply)
                  | Panic \<Rightarrow> ([], ReplyPanic))))"

text \<open>The pause of \<open>dnsLoop\<close> after a failed read; a successful read resets it to zero.\<close>

definition dns_retry :: "duration \<Rightarrow> duration" where
  "dns_retry retryDelay = (if retryDelay = 0 then 10000000 else min (2 * retryDelay) second)"


section \<open>What an answer can contain\<close>

text \<open>The domains under which the server answers, besides the configured one.\<close>

definition local_domains :: "string \<Rightarrow> string list" where
  "local_domains domain = [domain, ''ntwire'', ''tunnel'', ''ntwire.internal'']"

text \<open>A record speaks of the server, of the peer that asks, or of one of the tunnels \<open>ts\<close>.\<close>

definition record_allowed ::
  "dnsEnv \<Rightarrow> ipAddr \<Rightarrow> dataPlanePrincipal \<Rightarrow> string \<Rightarrow> tunnelConfig list \<Rightarrow> dnsResource \<Rightarrow> bool" where
  "record_allowed env sip p domain ts rr = (case ds_Body rr of
       ABody w \<Rightarrow> sip = IP4 w
     | AAAABody w \<Rightarrow> (\<exists>z. sip = IP6 w z)
     | TXTBody xs \<Rightarrow> xs = apex_text ts
         \<or> (\<exists>t \<in> set ts. xs = [discovery_text env t] \<or> rr = dnsTunnelTXTRecord env (ds_Name rr) t)
     | SRVBody port target \<Rightarrow> (\<exists>t \<in> set ts. port = of_int (tc_VirtualPort t)
         \<and> (target = ds_Name rr \<or> (\<exists>d \<in> set (local_domains domain).
               target = ToLower (de_unicode env) (tc_Name t) @ ''.'' @ d @ ''.'')))
     | PTRBody n \<Rightarrow> n = ''server.'' @ domain @ ''.''
         \<or> n = sanitizeLabel (de_unicode env) (pr_Identity p) @ ''.'' @ domain @ ''.''
         \<or> (\<exists>t \<in> set ts. \<exists>d \<in> set (local_domains domain).
               n = ''_'' @ ToLower (de_unicode env) (tc_Name t) @ ''._tcp.'' @ d @ ''.'')
     | NSBody n \<Rightarrow> (\<exists>d \<in> set (local_domains domain). n = ''server.'' @ d @ ''.'')
     | CNAMEBody n \<Rightarrow> (\<exists>d \<in> set (local_domains domain). n = ''server.'' @ d @ ''.'')
     | SOABody ns mbox \<Rightarrow> (\<exists>d \<in> set (local_domains domain). ns = ''server.'' @ d @ ''.'' \<and> mbox = ''hostmaster.'' @ d @ ''.''))"

definition response_allowed ::
  "dnsEnv \<Rightarrow> ipAddr \<Rightarrow> dataPlanePrincipal \<Rightarrow> string \<Rightarrow> tunnelConfig list \<Rightarrow> dnsMessage \<Rightarrow> bool" where
  "response_allowed env sip p domain ts m \<longleftrightarrow>
     (\<forall>rr \<in> set (dm_Answers m) \<union> set (dm_Additionals m). record_allowed env sip p domain ts rr)"

lemma response_answer [simp]:
  "response_allowed env sip p domain ts (answer rr m) \<longleftrightarrow>
     record_allowed env sip p domain ts rr \<and> response_allowed env sip p domain ts m"
  by (auto simp: response_allowed_def answer_def)

lemma response_additional [simp]:
  "response_allowed env sip p domain ts (additional rr m) \<longleftrightarrow>
     record_allowed env sip p domain ts rr \<and> response_allowed env sip p domain ts m"
  by (auto simp: response_allowed_def additional_def)

lemma response_rcode [simp]:
  "response_allowed env sip p domain ts (m\<lparr>dm_RCode := c\<rparr>) = response_allowed env sip p domain ts m"
  by (simp add: response_allowed_def)

lemma Is6_iff: "Is6 a \<longleftrightarrow> (\<exists>w z. a = IP6 w z)" and Is4_iff: "Is4 a \<longleftrightarrow> (\<exists>w. a = IP4 w)"
  by (cases a; simp)+

lemma response_addrs [simp]:
  "response_allowed env sip p domain ts m \<Longrightarrow> response_allowed env sip p domain ts (answer_A name sip m)"
  "response_allowed env sip p domain ts m \<Longrightarrow> response_allowed env sip p domain ts (answer_AAAA name sip m)"
  "response_allowed env sip p domain ts m \<Longrightarrow> response_allowed env sip p domain ts (additional_addr name sip m)"
  by (auto simp: answer_A_def answer_AAAA_def additional_addr_def Is4_iff Is6_iff record_allowed_def dnsARecord_def dnsAAAARecord_def)

lemma MustNewName_Ok [simp]: "MustNewName env s = Ok x \<longleftrightarrow> de_NewName env s \<and> x = s"
  by (auto simp: MustNewName_def)

lemma match_domains_in: "match_domains qName ds = Some (pre, d) \<Longrightarrow> d \<in> set ds"
  by (induction ds) (auto split: if_splits)

lemma matchDomainPrefix_in: "matchDomainPrefix qName domain = Some (pre, d) \<Longrightarrow> d \<in> set (local_domains domain)"
  by (auto simp: matchDomainPrefix_def local_domains_def dest: match_domains_in split: option.split_asm if_split_asm)

lemma allowed_map_lookup: "fmlookup (allowed_map u ts) n = Some t \<Longrightarrow> t \<in> set ts \<and> ToLower u (tc_Name t) = n"
proof -
  have "fmlookup (fold (\<lambda>t. fmupd (ToLower u (tc_Name t)) t) ts m) n = Some t \<Longrightarrow>
      (t \<in> set ts \<and> ToLower u (tc_Name t) = n) \<or> fmlookup m n = Some t" for m
    by (induction ts arbitrary: m) (fastforce split: if_splits)+
  then show "fmlookup (allowed_map u ts) n = Some t \<Longrightarrow> t \<in> set ts \<and> ToLower u (tc_Name t) = n"
    by (fastforce simp: allowed_map_def)
qed

lemma allowed_map_None: "fmlookup (allowed_map u ts) n = None \<longleftrightarrow> n \<notin> (\<lambda>t. ToLower u (tc_Name t)) ` set ts"
proof -
  have "fmlookup (fold (\<lambda>t. fmupd (ToLower u (tc_Name t)) t) ts m) n = None \<longleftrightarrow>
      n \<notin> (\<lambda>t. ToLower u (tc_Name t)) ` set ts \<and> fmlookup m n = None" for m
    by (induction ts arbitrary: m) auto
  then show ?thesis by (simp add: allowed_map_def)
qed

lemmas resolve_defs = resolve_reverse_def resolve_apex_def resolve_discovery_def resolve_service_def resolve_target_def
  dnsSOARecord_def answer_SRV_def

lemma record_SRV:
  "t \<in> set ts \<Longrightarrow> target = name \<or> (\<exists>d \<in> set (local_domains domain). target = ToLower (de_unicode env) (tc_Name t) @ ''.'' @ d @ ''.'')
    \<Longrightarrow> response_allowed env sip p domain ts m \<Longrightarrow> response_allowed env sip p domain ts (answer_SRV name target sip t m)"
  unfolding answer_SRV_def by (rule response_addrs) (auto simp: record_allowed_def)

lemma record_discovery: "t \<in> set ts \<Longrightarrow> record_allowed env sip p domain ts
    \<lparr>ds_Name = name, ds_Type = TypeTXT, ds_Body = TXTBody [discovery_text env t]\<rparr>"
  by (auto simp: record_allowed_def)

lemma record_PTR: "t \<in> set ts \<Longrightarrow> d \<in> set (local_domains domain) \<Longrightarrow> record_allowed env sip p domain ts
    \<lparr>ds_Name = name, ds_Type = TypePTR,
     ds_Body = PTRBody (''_'' @ ToLower (de_unicode env) (tc_Name t) @ ''._tcp.'' @ d @ ''.'')\<rparr>"
  by (auto simp: record_allowed_def)

lemma discover_SRV_allowed:
  assumes "d \<in> set (local_domains domain)"
  shows "discover_SRV env sip name d us m = Ok m' \<Longrightarrow> set us \<subseteq> set ts \<Longrightarrow> response_allowed env sip p domain ts m
    \<Longrightarrow> response_allowed env sip p domain ts m'"
proof (induction us arbitrary: m)
  case (Cons t us)
  from Cons.prems have "discover_SRV env sip name d us
      (answer_SRV name (ToLower (de_unicode env) (tc_Name t) @ ''.'' @ d @ ''.'') sip t m) = Ok m'" by (simp add: obind_Ok_iff)
  moreover have "response_allowed env sip p domain ts
      (answer_SRV name (ToLower (de_unicode env) (tc_Name t) @ ''.'' @ d @ ''.'') sip t m)"
    using Cons.prems assms by (intro record_SRV) auto
  ultimately show ?case using Cons by simp
qed simp

lemma discover_TXT_allowed:
  "set us \<subseteq> set ts \<Longrightarrow> response_allowed env sip p domain ts m
    \<Longrightarrow> response_allowed env sip p domain ts (discover_TXT env name us m)"
  by (induction us arbitrary: m) (simp_all add: record_discovery)

lemma discover_PTR_allowed:
  assumes "d \<in> set (local_domains domain)"
  shows "discover_PTR env name d us m = Ok m' \<Longrightarrow> set us \<subseteq> set ts \<Longrightarrow> response_allowed env sip p domain ts m
    \<Longrightarrow> response_allowed env sip p domain ts m'"
proof (induction us arbitrary: m)
  case (Cons t us)
  from Cons.prems have "discover_PTR env name d us (answer \<lparr>ds_Name = name, ds_Type = TypePTR,
      ds_Body = PTRBody (''_'' @ ToLower (de_unicode env) (tc_Name t) @ ''._tcp.'' @ d @ ''.'')\<rparr> m) = Ok m'"
    by (simp add: obind_Ok_iff)
  then show ?case using Cons.prems assms by (elim Cons.IH) (simp_all only: response_answer record_PTR, simp_all add: record_PTR [simplified])
qed simp

lemma resolve_reverse_allowed:
  "resolve_reverse env sip q p domain n m = Ok m' \<Longrightarrow> response_allowed env sip p domain ts m
    \<Longrightarrow> response_allowed env sip p domain ts m'"
  by (auto simp: resolve_reverse_def obind_Ok_iff record_allowed_def split: if_split_asm)

lemma resolve_apex_allowed:
  "resolve_apex env sip q d ts m = Ok m' \<Longrightarrow> d \<in> set (local_domains domain) \<Longrightarrow> response_allowed env sip p domain ts m
    \<Longrightarrow> response_allowed env sip p domain ts m'"
  by (auto simp: resolve_apex_def dnsSOARecord_def obind_Ok_iff record_allowed_def split: if_split_asm)

lemma resolve_discovery_allowed:
  "resolve_discovery env sip q d ts m = Ok m' \<Longrightarrow> d \<in> set (local_domains domain) \<Longrightarrow> response_allowed env sip p domain ts m
    \<Longrightarrow> response_allowed env sip p domain ts m'"
  by (auto simp: resolve_discovery_def dnsSOARecord_def obind_Ok_iff record_allowed_def discover_TXT_allowed
      dest: discover_SRV_allowed [OF _ _ subset_refl] discover_PTR_allowed [OF _ _ subset_refl] split: if_split_asm)

lemma dnsTunnelTXT_allowed: "t \<in> set ts \<Longrightarrow> record_allowed env sip p domain ts (dnsTunnelTXTRecord env name t)"
  by (auto simp: record_allowed_def dnsTunnelTXTRecord_def)

lemma resolve_service_allowed:
  assumes "resolve_service env sip q n d t m = Ok m'" and "ToLower (de_unicode env) (tc_Name t) = n"
    and "d \<in> set (local_domains domain)" "t \<in> set ts" "response_allowed env sip p domain ts m"
  shows "response_allowed env sip p domain ts m'"
  using assms
  by (auto simp: resolve_service_def obind_Ok_iff dnsTunnelTXT_allowed split: if_split_asm intro!: record_SRV)

lemma resolve_target_allowed:
  assumes "resolve_target env sip q d t m = Ok m'"
    and "d \<in> set (local_domains domain)" "t \<in> set ts" "response_allowed env sip p domain ts m"
  shows "response_allowed env sip p domain ts m'"
  using assms
  by (auto simp: resolve_target_def dnsSOARecord_def obind_Ok_iff dnsTunnelTXT_allowed split: if_split_asm intro!: record_SRV)
    (auto simp: record_allowed_def)

lemma resolveDNSQuestion_allowed:
  assumes "resolveDNSQuestion env sip q p domain ts (allowed_map (de_unicode env) ts) m = Ok m'"
    and m: "response_allowed env sip p domain ts m"
  shows "response_allowed env sip p domain ts m'"
proof (cases "is_reverse (question_name env (qu_Name q))")
  case True
  then show ?thesis using assms by (auto simp: resolveDNSQuestion_def Let_def elim: resolve_reverse_allowed)
next
  case rev: False
  show ?thesis
  proof (cases "matchDomainPrefix (question_name env (qu_Name q)) domain")
    case None
    then show ?thesis using assms rev by (auto simp: resolveDNSQuestion_def Let_def)
  next
    case (Some r)
    obtain pre d where r: "r = (pre, d)" by (cases r)
    note d = matchDomainPrefix_in [OF Some [unfolded r]]
    show ?thesis
      using assms rev Some r d
      by (auto simp: resolveDNSQuestion_def Let_def split: if_split_asm option.split_asm dest!: allowed_map_lookup
          elim: resolve_apex_allowed [OF _ d] resolve_discovery_allowed [OF _ d] resolve_service_allowed [OF _ _ d] resolve_target_allowed [OF _ d])
  qed
qed

lemma resolve_all_allowed:
  "resolve_all env sip p domain ts (allowed_map (de_unicode env) ts) qs m = Ok m' \<Longrightarrow> response_allowed env sip p domain ts m
    \<Longrightarrow> response_allowed env sip p domain ts m'"
  by (induction qs arbitrary: m) (auto simp: obind_Ok_iff dest: resolveDNSQuestion_allowed)


lemma granted_lookup:
  "fmlookup (allowed_map u (allowedTunnelsForPrincipal st p)) n \<noteq> None \<longleftrightarrow>
     (\<exists>t \<in> set (cf_Tunnels (st_config st)). tc_Name t |\<in>| pr_Tunnels p \<and> ToLower u (tc_Name t) = n)"
  unfolding allowed_map_None by (auto simp: allowedTunnelsForPrincipal_def)

section \<open>Which queries leave the server\<close>

lemma match_domains_None:
  "match_domains n ds = None \<longleftrightarrow> (\<forall>d \<in> set ds. d \<noteq> [] \<longrightarrow> n \<noteq> d \<and> \<not> suffix (''.'' @ d) n)"
  by (induction ds) (auto simp: HasSuffix_iff)

lemma external_iff:
  "allExternalDNSQuestions env qs domain \<longleftrightarrow> qs \<noteq> [] \<and>
     (\<forall>q \<in> set qs. \<not> isLocalDNSName (question_name env (qu_Name q)) domain)"
proof -
  have "allExternal_loop env qs domain \<longleftrightarrow> (\<forall>q \<in> set qs. \<not> isLocalDNSName (question_name env (qu_Name q)) domain)"
    by (induction qs) auto
  then show ?thesis by (simp add: allExternalDNSQuestions_def)
qed

definition external_name :: "string \<Rightarrow> string \<Rightarrow> bool" where
  "external_name n domain \<longleftrightarrow> \<not> suffix ''.in-addr.arpa'' n \<and> \<not> suffix ''.ip6.arpa'' n \<and> CHR ''.'' \<in> set n
     \<and> (\<forall>d \<in> set (local_domains domain). d \<noteq> [] \<longrightarrow> n \<noteq> d \<and> \<not> suffix (''.'' @ d) n)"

lemma external_name_iff: "external_name n domain \<longleftrightarrow> \<not> isLocalDNSName n domain"
proof -
  have "matchDomainPrefix n domain = None \<longleftrightarrow> match_domains n (local_domains domain) = None \<and> CHR ''.'' \<in> set n"
    unfolding matchDomainPrefix_def local_domains_def [symmetric] by (auto split: option.split)
  then show ?thesis
    by (auto simp: isLocalDNSName_def is_reverse_def external_name_def HasSuffix_iff match_domains_None)
qed

lemma forward_loop_contacts: "forward_loop env query i us = (cs, r) \<Longrightarrow> snd ` set cs \<subseteq> set us"
  by (induction us arbitrary: cs r)
    (fastforce simp: Let_def split: option.split_asm if_split_asm prod.split_asm)+

lemma forward_loop_matches: "forward_loop env query i us = (cs, Some out) \<Longrightarrow> dnsResponseMatches env out i"
  by (induction us arbitrary: cs) (auto simp: Let_def split: option.split_asm if_split_asm prod.split_asm)

lemma forward_loop_asked: "forward_loop env query i us = (cs, Some out) \<Longrightarrow> cs \<noteq> []"
  by (induction us arbitrary: cs) (auto simp: Let_def split: option.split_asm if_split_asm prod.split_asm)

lemma forwardDNS_sound:
  assumes "forwardDNS env query us = (cs, r)" and "de_Unpack env query = Some req"
  shows "snd ` set cs \<subseteq> set us \<and> (\<forall>out. r = Some out \<longrightarrow> dnsResponseMatches env out (dm_ID req) \<and> cs \<noteq> [])"
  using assms by (auto simp: forwardDNS_def dest: forward_loop_contacts forward_loop_matches forward_loop_asked)

text \<open>Failover: a later upstream server is only asked when no earlier one gave a usable answer, and the answer of the
  first one that did is returned.\<close>

definition upstream_answer :: "dnsEnv \<Rightarrow> bytes \<Rightarrow> 16 word \<Rightarrow> string \<Rightarrow> bytes option" where
  "upstream_answer env query i u = (case de_UDP env u query of
       None \<Rightarrow> None
     | Some r \<Rightarrow> if \<not> dnsResponseMatches env r i then None
         else if (case de_Unpack env r of None \<Rightarrow> False | Some m \<Rightarrow> dm_Truncated m) then
           (case de_TCP env u query of None \<Rightarrow> None | Some r' \<Rightarrow> if dnsResponseMatches env r' i then Some r' else None)
         else Some r)"

lemma forward_loop_first:
  "snd (forward_loop env query i us) = (case find (\<lambda>u. upstream_answer env query i u \<noteq> None) us of
     None \<Rightarrow> None | Some u \<Rightarrow> upstream_answer env query i u)"
proof (induction us)
  case (Cons u us)
  have "snd (forward_loop env query i (u # us)) =
      (case upstream_answer env query i u of Some r \<Rightarrow> Some r | None \<Rightarrow> snd (forward_loop env query i us))"
    by (cases "forward_loop env query i us") (simp add: upstream_answer_def Let_def split: option.split)
  then show ?case using Cons.IH by (cases "upstream_answer env query i u") (simp_all del: forward_loop.simps)
qed simp

lemma find_SomeD: "find P xs = Some x \<Longrightarrow> P x"
  by (auto simp: find_Some_iff)

section \<open>Panics\<close>

lemma obind_no_panic: "x \<noteq> Panic \<Longrightarrow> (\<And>y. x = Ok y \<Longrightarrow> f y \<noteq> Panic) \<Longrightarrow> obind x f \<noteq> Panic"
  by (cases x) auto

lemma must_no_panic: "length s \<le> 255 \<Longrightarrow> (\<And>s. length s \<le> 255 \<Longrightarrow> de_NewName env s) \<Longrightarrow> MustNewName env s = Ok s"
  by (simp add: MustNewName_def)

text \<open>What keeps every generated name within the 255 bytes a DNS name has.\<close>

definition names_fit :: "dnsEnv \<Rightarrow> string \<Rightarrow> tunnelConfig list \<Rightarrow> bool" where
  "names_fit env domain ts \<longleftrightarrow> length domain \<le> 180 \<and> (\<forall>t \<in> set ts. length (ToLower (de_unicode env) (tc_Name t)) \<le> 64)"

lemma fit_domain: "names_fit env domain ts \<Longrightarrow> d \<in> set (local_domains domain) \<Longrightarrow> length d \<le> 180"
  by (auto simp: names_fit_def local_domains_def)

lemma sanitize_length: "length (sanitizeLabel u s) \<le> 63"
  by (simp add: sanitizeLabel_def Let_def)

lemma discover_no_panic:
  assumes nn: "\<And>s. length s \<le> 255 \<Longrightarrow> de_NewName env s" and d: "length d \<le> 180"
  shows "(\<forall>t \<in> set us. length (ToLower (de_unicode env) (tc_Name t)) \<le> 64) \<Longrightarrow> discover_SRV env sip name d us m \<noteq> Panic"
    and "(\<forall>t \<in> set us. length (ToLower (de_unicode env) (tc_Name t)) \<le> 64) \<Longrightarrow> discover_PTR env name d us m \<noteq> Panic"
  using d by (induction us arbitrary: m) (auto simp: must_no_panic [OF _ nn])

lemma resolve_no_panic:
  assumes nn: "\<And>s. length s \<le> 255 \<Longrightarrow> de_NewName env s" and d: "length d \<le> 180"
    and fit: "\<forall>t \<in> set ts. length (ToLower (de_unicode env) (tc_Name t)) \<le> 64"
  shows "resolve_reverse env sip q p d n m \<noteq> Panic" "resolve_apex env sip q d ts m \<noteq> Panic"
    "resolve_discovery env sip q d ts m \<noteq> Panic" "resolve_target env sip q d t m \<noteq> Panic"
    "length n \<le> 64 \<Longrightarrow> resolve_service env sip q n d t m \<noteq> Panic"
proof -
  have l: "length (sanitizeLabel (de_unicode env) (pr_Identity p) @ ''.'' @ d @ ''.'') \<le> 255"
    using sanitize_length [of "de_unicode env" "pr_Identity p"] d by simp
  show "resolve_reverse env sip q p d n m \<noteq> Panic"
    using d nn [OF l] by (simp add: resolve_reverse_def MustNewName_def nn)
qed (use d discover_no_panic [OF nn d fit] in
     \<open>simp_all add: resolve_apex_def resolve_discovery_def resolve_target_def resolve_service_def dnsSOARecord_def must_no_panic [OF _ nn]\<close>)

lemma resolve_all_no_panic:
  assumes nn: "\<And>s. length s \<le> 255 \<Longrightarrow> de_NewName env s" and fit: "names_fit env domain ts"
  shows "resolve_all env sip p domain ts (allowed_map (de_unicode env) ts) qs m \<noteq> Panic"
proof (induction qs arbitrary: m)
  case (Cons q qs)
  have f: "\<forall>t \<in> set ts. length (ToLower (de_unicode env) (tc_Name t)) \<le> 64" and dl: "length domain \<le> 180"
    using fit by (simp_all add: names_fit_def)
  have "resolveDNSQuestion env sip q p domain ts (allowed_map (de_unicode env) ts) m \<noteq> Panic"
  proof (cases "matchDomainPrefix (question_name env (qu_Name q)) domain")
    case None
    then show ?thesis using resolve_no_panic(1) [OF nn dl f] by (simp add: resolveDNSQuestion_def Let_def)
  next
    case (Some r)
    obtain pre d where r: "r = (pre, d)" by (cases r)
    have d: "length d \<le> 180" using fit_domain [OF fit matchDomainPrefix_in] Some r by blast
    have "fmlookup (allowed_map (de_unicode env) ts) n = Some t \<Longrightarrow> length n \<le> 64" for n t
      using allowed_map_lookup f by blast
    then show ?thesis using Some r resolve_no_panic [OF nn d f] resolve_no_panic(1) [OF nn dl f]
      by (auto simp: resolveDNSQuestion_def Let_def split: option.split)
  qed
  then show ?case using Cons by (simp add: obind_no_panic)
qed simp


section \<open>Properties\<close>

text \<open>C10: what a reply discloses. A reply that is not an upstream server's answer is the packed form of a response that has
  no records when the source is nobody's tunnel address, and otherwise only records about the server, about the
  peer that asks, and about tunnels that peer is granted.\<close>

theorem dns_discloses_only_granted:
  assumes "handleDNS env dns sip slot now ks st src packet = ([], Reply out)"
  shows "\<exists>m. de_Pack env m = Some out \<and>
     (case principalForIP now ks (ap_Addr src) st of
        None \<Rightarrow> dm_RCode m = RCodeRefused \<and> dm_Answers m = [] \<and> dm_Additionals m = []
      | Some p \<Rightarrow> \<forall>rr \<in> set (dm_Answers m) \<union> set (dm_Additionals m).
          record_allowed env sip p (EffectiveDomain (de_unicode env) dns) (allowedTunnelsForPrincipal st p) rr)"
proof -
  have w: "writeDNSResponse env m = Reply out \<Longrightarrow> de_Pack env m = Some out" for m
    by (simp add: writeDNSResponse_def split: option.split_asm)
  obtain req where req: "de_Unpack env packet = Some req" using assms by (cases "de_Unpack env packet") (simp_all add: handleDNS_def)
  show ?thesis
  proof (cases "principalForIP now ks (ap_Addr src) st")
    case None
    then show ?thesis using assms req
      by (intro exI [of _ "(base_response req)\<lparr>dm_RCode := RCodeRefused\<rparr>"]) (simp add: handleDNS_def w, simp add: base_response_def)
  next
    case (Some p)
    let ?d = "EffectiveDomain (de_unicode env) dns" and ?ts = "allowedTunnelsForPrincipal st p"
    have base: "response_allowed env sip p ?d ?ts (base_response req)" "response_allowed env sip p ?d ?ts (server_failure (base_response req))"
      by (simp_all add: response_allowed_def base_response_def server_failure_def)
    show ?thesis
    proof (cases "dn_ForwardingEnabled dns \<and> allExternalDNSQuestions env (dm_Questions req) ?d")
      case True
      have "writeDNSResponse env (server_failure (base_response req)) = Reply out"
        using assms req Some True forwardDNS_sound [OF _ req]
        by (auto simp: handleDNS_def Let_def split: if_split_asm prod.split_asm option.split_asm)
      with w base(2) Some show ?thesis by (auto simp: response_allowed_def)
    next
      case False
      with assms req Some obtain m where "resolve_all env sip p ?d ?ts (allowed_map (de_unicode env) ?ts) (dm_Questions req) (base_response req) = Ok m"
          "writeDNSResponse env m = Reply out"
        by (auto simp: handleDNS_def Let_def split: if_split_asm outcome.split_asm)
      with resolve_all_allowed [OF this(1) base(1)] w Some show ?thesis by (auto simp: response_allowed_def)
    qed
  qed
qed

text \<open>C11: which queries leave the server. When an upstream server is asked, forwarding is enabled, the source is a known
  peer's tunnel address, every question of the packet is about a name outside the reverse zones and outside every local
  domain, and only configured upstream servers are asked; the reply is the answer of the first of them that gives a matching
  response with the query's identifier, or a server failure.\<close>

theorem dns_forwards_only_external:
  assumes "handleDNS env dns sip slot now ks st src packet = (cs, r)" and "cs \<noteq> []"
  shows "\<exists>req. de_Unpack env packet = Some req \<and> dn_ForwardingEnabled dns \<and> slot
     \<and> principalForIP now ks (ap_Addr src) st \<noteq> None \<and> snd ` set cs \<subseteq> set (dn_Upstreams dns)
     \<and> dm_Questions req \<noteq> []
     \<and> (\<forall>q \<in> set (dm_Questions req). external_name (question_name env (qu_Name q)) (EffectiveDomain (de_unicode env) dns))
     \<and> r = (case find (\<lambda>u. upstream_answer env packet (dm_ID req) u \<noteq> None) (dn_Upstreams dns) of
          None \<Rightarrow> writeDNSResponse env (server_failure (base_response req))
        | Some u \<Rightarrow> Reply (the (upstream_answer env packet (dm_ID req) u)))"
proof -
  obtain req p where req: "de_Unpack env packet = Some req" and p: "principalForIP now ks (ap_Addr src) st = Some p"
    using assms by (auto simp: handleDNS_def Let_def split: option.split_asm)
  let ?d = "EffectiveDomain (de_unicode env) dns"
  have c: "dn_ForwardingEnabled dns" "allExternalDNSQuestions env (dm_Questions req) ?d" "slot"
    using assms req p by (auto simp: handleDNS_def Let_def split: if_split_asm outcome.split_asm)
  obtain r' where f: "forwardDNS env packet (dn_Upstreams dns) = (cs, r')"
    and r: "r = (case r' of None \<Rightarrow> writeDNSResponse env (server_failure (base_response req)) | Some out \<Rightarrow> Reply out)"
    using assms(1) req p c by (auto simp: handleDNS_def Let_def split: prod.split_asm option.split_asm)
  have "r' = (case find (\<lambda>u. upstream_answer env packet (dm_ID req) u \<noteq> None) (dn_Upstreams dns) of
      None \<Rightarrow> None | Some u \<Rightarrow> upstream_answer env packet (dm_ID req) u)"
    using forward_loop_first [of env packet "dm_ID req" "dn_Upstreams dns"] f req by (simp add: forwardDNS_def)
  then have "r = (case find (\<lambda>u. upstream_answer env packet (dm_ID req) u \<noteq> None) (dn_Upstreams dns) of
          None \<Rightarrow> writeDNSResponse env (server_failure (base_response req))
        | Some u \<Rightarrow> Reply (the (upstream_answer env packet (dm_ID req) u)))"
    using r find_SomeD by (cases "find (\<lambda>u. upstream_answer env packet (dm_ID req) u \<noteq> None) (dn_Upstreams dns)") fastforce+
  with c req p forwardDNS_sound [OF f req] show ?thesis by (auto simp: external_iff external_name_iff)
qed

text \<open>A name is found exactly when it is the server's or a granted tunnel's. An address query for a name under a local
  domain, to a server with an IPv4 tunnel address, is answered with that address when a granted tunnel has the name (with
  or without its service prefix, in any case), and otherwise exactly like a name that does not exist.\<close>

theorem dns_lookup_exact:
  assumes "de_Unpack env packet = Some req" and "dm_Questions req = [q]" and "qu_Type q = TypeA"
    and "principalForIP now ks (ap_Addr src) st = Some p" and "\<not> is_reverse (question_name env (qu_Name q))"
    and "matchDomainPrefix (question_name env (qu_Name q)) (EffectiveDomain (de_unicode env) dns) = Some (pre, d)"
    and "pre \<notin> set server_names" and "pre \<notin> set discovery_names"
  shows "handleDNS env dns (IP4 w) slot now ks st src packet = ([], writeDNSResponse env
     (if \<exists>t \<in> set (cf_Tunnels (st_config st)). tc_Name t |\<in>| pr_Tunnels p \<and> ToLower (de_unicode env) (tc_Name t) =
            (if HasPrefix pre ''_'' then trim_prefix (trim_suffix pre ''._tcp'') ''_'' else pre)
      then (base_response req)\<lparr>dm_Answers := [\<lparr>ds_Name = qu_Name q, ds_Type = TypeA, ds_Body = ABody w\<rparr>]\<rparr>
      else (base_response req)\<lparr>dm_RCode := RCodeNameError\<rparr>))"
proof -
  let ?d = "EffectiveDomain (de_unicode env) dns" and ?ts = "allowedTunnelsForPrincipal st p"
  let ?n = "if HasPrefix pre ''_'' then trim_prefix (trim_suffix pre ''._tcp'') ''_'' else pre"
  have local: "\<not> allExternalDNSQuestions env (dm_Questions req) ?d"
    using assms by (simp add: allExternalDNSQuestions_def isLocalDNSName_def)
  have a: "answer_A name (IP4 w) m = m\<lparr>dm_Answers := dm_Answers m @ [\<lparr>ds_Name = name, ds_Type = TypeA, ds_Body = ABody w\<rparr>]\<rparr>"
    for name m by (simp add: answer_A_def answer_def dnsARecord_def)
  have "resolve_service env (IP4 w) q n d t m = Ok (answer_A (qu_Name q) (IP4 w) m)"
    "resolve_target env (IP4 w) q d t m = Ok (answer_A (qu_Name q) (IP4 w) m)" for n t m
    using assms(3) by (simp_all add: resolve_service_def resolve_target_def type_defs)
  then have res: "resolve_all env (IP4 w) p ?d ?ts (allowed_map (de_unicode env) ?ts) (dm_Questions req) (base_response req) =
      Ok (if fmlookup (allowed_map (de_unicode env) ?ts) ?n \<noteq> None
          then (base_response req)\<lparr>dm_Answers := [\<lparr>ds_Name = qu_Name q, ds_Type = TypeA, ds_Body = ABody w\<rparr>]\<rparr>
          else (base_response req)\<lparr>dm_RCode := RCodeNameError\<rparr>)"
    using assms(2,5-) by (auto simp: resolveDNSQuestion_def Let_def a base_response_def split: option.split)
  show ?thesis using res [unfolded granted_lookup] local assms(1,4) by (simp add: handleDNS_def Let_def)
qed

text \<open>As long as the configured domain has at most 180 bytes and every granted tunnel's name at most 64, no query makes
  the handler panic, when \<open>NewName\<close> takes every name of at most 255 bytes.\<close>

theorem dns_never_panics:
  assumes "\<And>s. length s \<le> 255 \<Longrightarrow> de_NewName env s"
    and "\<And>p. principalForIP now ks (ap_Addr src) st = Some p \<Longrightarrow>
      names_fit env (EffectiveDomain (de_unicode env) dns) (allowedTunnelsForPrincipal st p)"
  shows "snd (handleDNS env dns sip slot now ks st src packet) \<noteq> ReplyPanic"
proof (cases "principalForIP now ks (ap_Addr src) st")
  case None
  then show ?thesis by (simp add: handleDNS_def Let_def writeDNSResponse_def split: option.split)
next
  case (Some p)
  have w: "writeDNSResponse env m \<noteq> ReplyPanic" for m by (simp add: writeDNSResponse_def split: option.split)
  show ?thesis using resolve_all_no_panic [OF assms(1) assms(2) [OF Some]] Some
    by (auto simp: handleDNS_def Let_def w split: option.split prod.split outcome.split)
qed

section \<open>Retry of the read loop\<close>

text \<open>The pause after the k-th failed read in a row is ten milliseconds doubled k times, and at most a second.\<close>

theorem dns_retry_backoff: "(dns_retry ^^ Suc k) 0 = min (10000000 * 2 ^ k) second"
  by (induction k) (simp_all add: dns_retry_def min_def)


section \<open>Concrete queries\<close>

definition demo_query :: "string \<Rightarrow> nat \<Rightarrow> dnsMessage" where
  "demo_query name type = \<lparr>dm_ID = 7, dm_Response = False, dm_OpCode = 0, dm_Authoritative = False, dm_Truncated = False,
     dm_RecursionDesired = True, dm_RecursionAvailable = False, dm_RCode = 0,
     dm_Questions = [\<lparr>qu_Name = name, qu_Type = type, qu_Class = 1\<rparr>], dm_Answers = [], dm_Additionals = []\<rparr>"

text \<open>A library in which a packet is one byte: a query for the given name, or an upstream's answer; it packs the code,
  the number of records and the last byte of each address.\<close>

definition demo_dns :: "string \<Rightarrow> nat \<Rightarrow> dnsEnv" where
  "demo_dns name type = \<lparr>de_unicode = demo_unicode,
     de_Unpack = (\<lambda>b. if b = [1] then Some (demo_query name type)
                      else if b = [2] then Some ((demo_query name type)\<lparr>dm_Response := True\<rparr>) else None),
     de_Pack = (\<lambda>m. Some [of_nat (dm_RCode m), of_nat (length (dm_Answers m))]), de_NewName = (\<lambda>s. length s \<le> 255),
     de_Description = (\<lambda>_. []), de_DocsURL = (\<lambda>_. []), de_UDP = (\<lambda>u q. if u = ''9.9.9.9:53'' then Some [2] else None), de_TCP = (\<lambda>_ _. None)\<rparr>"

definition demo_dns_config :: DNSConfig where
  "demo_dns_config = \<lparr>dn_Enabled = None, dn_Domain = [], dn_ForwardingEnabled = True,
     dn_Upstreams = [''192.0.2.53:53'', ''9.9.9.9:53'']\<rparr>"

definition demo_dns_state :: "string \<Rightarrow> serverState" where
  "demo_dns_state name = dp_state\<lparr>st_config := (st_config dp_state)
     \<lparr>cf_Tunnels := [dp_tunnel name 53, dp_tunnel ''secret'' 54],
      cf_Natives := [dp_peer\<lparr>np_Tunnels := [name]\<rparr>]\<rparr>\<rparr>"

lemma demo_dns_principal: "principalForIP 0 [] (ap_Addr dp_src) (demo_dns_state name) = Some (native_principal (dp_peer\<lparr>np_Tunnels := [name]\<rparr>))"
  by (simp add: principalForIP_def demo_dns_state_def dp_state_def dp_src_def dp_peer_def ses_All_def)

abbreviation demo_ask :: "string \<Rightarrow> nat \<Rightarrow> (bool \<times> string) list \<times> dnsReply" where
  "demo_ask name type \<equiv> handleDNS (demo_dns name type) demo_dns_config (IP4 0x64400001) True 0 [] (demo_dns_state ''dns'') dp_src [1]"

lemmas demo_dns_defs = demo_dns_def demo_dns_config_def demo_query_def EffectiveDomain_def demo_unicode_def

lemma demo_names:
  "question_name (demo_dns n t) ''DNS.ntwire.'' = ''dns.ntwire''" "question_name (demo_dns n t) ''secret.ntwire.'' = ''secret.ntwire''"
  "question_name (demo_dns n t) ''go.dev.'' = ''go.dev''"
  "ToLower demo_unicode ''dns'' = ''dns''" "ToLower demo_unicode ''secret'' = ''secret''"
  by (simp_all add: question_name_def demo_dns_def) code_simp+

lemma demo_prefixes:
  "matchDomainPrefix ''dns.ntwire'' ''ntwire'' = Some (''dns'', ''ntwire'')"
  "matchDomainPrefix ''secret.ntwire'' ''ntwire'' = Some (''secret'', ''ntwire'')"
  "matchDomainPrefix ''go.dev'' ''ntwire'' = None" "\<not> is_reverse ''dns.ntwire''" "\<not> is_reverse ''secret.ntwire''"
  "\<not> is_reverse ''go.dev''" "\<not> HasPrefix ''dns'' ''_''" "\<not> HasPrefix ''secret'' ''_''"
  by code_simp+


lemma demo_dns_sel [simp]:
  "de_unicode (demo_dns n t) = demo_unicode" "de_Unpack (demo_dns n t) [1] = Some (demo_query n t)"
  "de_Unpack (demo_dns n t) [2] = Some ((demo_query n t)\<lparr>dm_Response := True\<rparr>)"
  "de_Pack (demo_dns n t) m = Some [of_nat (dm_RCode m), of_nat (length (dm_Answers m))]"
  "de_NewName (demo_dns n t) s \<longleftrightarrow> length s \<le> 255" "EffectiveDomain demo_unicode demo_dns_config = ''ntwire''"
  "dn_ForwardingEnabled demo_dns_config" "dn_Upstreams demo_dns_config = [''192.0.2.53:53'', ''9.9.9.9:53'']"
  "dm_Questions (demo_query n t) = [\<lparr>qu_Name = n, qu_Type = t, qu_Class = 1\<rparr>]" "dm_ID (demo_query n t) = 7"
  "dm_Questions (base_response m) = dm_Questions m" "dm_RCode (base_response m) = 0" "dm_Answers (base_response m) = []"
  "de_UDP (demo_dns n t) u q = (if u = ''9.9.9.9:53'' then Some [2] else None)"
  by (simp_all add: demo_dns_def demo_dns_config_def demo_query_def EffectiveDomain_def base_response_def RCodeSuccess_def)

abbreviation demo_peer :: "string \<Rightarrow> dataPlanePrincipal" where
  "demo_peer name \<equiv> native_principal (dp_peer\<lparr>np_Tunnels := [name]\<rparr>)"

lemma demo_state_sel [simp]:
  "cf_Tunnels (st_config (demo_dns_state n)) = [dp_tunnel n 53, dp_tunnel ''secret'' 54]"
  "pr_Tunnels (demo_peer n) = {|n|}" "tc_Name (dp_tunnel n k) = n"
  by (simp_all add: demo_dns_state_def native_principal_def dp_tunnel_def)

lemma demo_granted: "name \<noteq> ''secret'' \<Longrightarrow> allowedTunnelsForPrincipal (demo_dns_state name) (demo_peer name) = [dp_tunnel name 53]"
  by (simp add: allowedTunnelsForPrincipal_def)

lemma demo_ask_granted: "demo_ask ''DNS.ntwire.'' TypeA = ([], Reply [0, 1])"
  by (simp add: handleDNS_def demo_dns_principal Let_def resolveDNSQuestion_def demo_names demo_prefixes demo_granted
      server_names_def discovery_names_def allowed_map_def resolve_target_def answer_A_def answer_def
      allExternalDNSQuestions_def isLocalDNSName_def writeDNSResponse_def type_defs)

lemma dns_lookup_exact_witness:
  "demo_ask ''secret.ntwire.'' TypeA = ([], Reply [3, 0]) \<and> demo_ask ''DNS.ntwire.'' TypeA = ([], Reply [0, 1])"
proof
  show "demo_ask ''secret.ntwire.'' TypeA = ([], Reply [3, 0])"
    using dns_lookup_exact [of "demo_dns ''secret.ntwire.'' TypeA" "[1]" "demo_query ''secret.ntwire.'' TypeA" _ 0 "[]" dp_src
        "demo_dns_state ''dns''" "demo_peer ''dns''" demo_dns_config "''secret''" "''ntwire''" "0x64400001" True]
    by (simp add: demo_names demo_prefixes demo_dns_principal server_names_def discovery_names_def writeDNSResponse_def
        RCodeNameError_def)
qed (rule demo_ask_granted)

lemma dns_discloses_only_granted_witness:
  "\<exists>m. de_Pack (demo_dns ''DNS.ntwire.'' TypeA) m = Some [0, 1] \<and>
     (\<forall>rr \<in> set (dm_Answers m). record_allowed (demo_dns ''DNS.ntwire.'' TypeA) (IP4 0x64400001) (demo_peer ''dns'') ''ntwire''
        [dp_tunnel ''dns'' 53] rr)"
  using dns_discloses_only_granted [OF demo_ask_granted] by (auto simp: demo_dns_principal demo_granted)

lemma demo_dns_forward: "demo_ask ''go.dev.'' TypeA = ([(True, ''192.0.2.53:53''), (True, ''9.9.9.9:53'')], Reply [2])"
  by (simp add: handleDNS_def demo_dns_principal Let_def demo_names demo_prefixes allExternalDNSQuestions_def isLocalDNSName_def
      forwardDNS_def dnsResponseMatches_def) (simp add: demo_query_def)

lemma dns_forwards_only_external_witness:
  "demo_ask ''go.dev.'' TypeA = ([(True, ''192.0.2.53:53''), (True, ''9.9.9.9:53'')], Reply [2]) \<and> external_name ''go.dev'' ''ntwire''"
  using dns_forwards_only_external [OF demo_dns_forward] demo_dns_forward by (simp add: demo_names)

lemma dns_never_panics_witness: "snd (demo_ask ''_ntwire._tcp.ntwire.'' TypeSRV) \<noteq> ReplyPanic"
proof (rule dns_never_panics)
  fix p assume "principalForIP 0 [] (ap_Addr dp_src) (demo_dns_state ''dns'') = Some p"
  then show "names_fit (demo_dns ''_ntwire._tcp.ntwire.'' TypeSRV)
      (EffectiveDomain (de_unicode (demo_dns ''_ntwire._tcp.ntwire.'' TypeSRV)) demo_dns_config)
      (allowedTunnelsForPrincipal (demo_dns_state ''dns'') p)"
    by (auto simp: demo_dns_principal demo_granted names_fit_def demo_names)
qed simp

text \<open>C37: the configuration accepts a tunnel name of 250 bytes, and then a service discovery query from a peer that is granted
  the tunnel makes the handler panic, which ends the server: the name of the record's target is longer than \<open>NewName\<close> allows.\<close>

theorem long_tunnel_name_panics:
  "\<exists>name. length name = 250
     \<and> check_tunnel cenv (tunnelConfig.extend (dp_tunnel name 53) (tunnelEntry.fields [] None))
        = Ok (tunnelConfig.extend (dp_tunnel name 53) (tunnelEntry.fields [] None))
     \<and> handleDNS (demo_dns ''_ntwire._tcp.ntwire.'' TypeSRV) demo_dns_config (IP4 0x64400001) True 0 [] (demo_dns_state name) dp_src [1]
        = ([], ReplyPanic)"
proof (intro exI conjI)
  let ?n = "replicate 250 CHR ''a''"
  show "length ?n = 250" by simp
  have p: "SplitHostPort ''203.0.113.5:53'' = Some (''203.0.113.5'', ''53'')" by code_simp
  have l: "LookupPort f ''udp'' ''53'' = Some 53" for f by (simp add: LookupPort_def) code_simp
  show "check_tunnel cenv (tunnelConfig.extend (dp_tunnel ?n 53) (tunnelEntry.fields [] None))
      = Ok (tunnelConfig.extend (dp_tunnel ?n 53) (tunnelEntry.fields [] None))"
    by (simp add: check_tunnel_def check_target_def require_def dp_tunnel_def socksTarget_def tunnelConfig.extend_def
        tunnelEntry.fields_def p l Let_def)
  have len: "length (ToLower demo_unicode ?n) = 250"
    by (simp add: ToLower_def ascii_str_def list_all_iff)
  have "question_name (demo_dns n t) ''_ntwire._tcp.ntwire.'' = ''_ntwire._tcp.ntwire''" for n t
    by (simp add: question_name_def) code_simp
  moreover have "matchDomainPrefix ''_ntwire._tcp.ntwire'' ''ntwire'' = Some (''_ntwire._tcp'', ''ntwire'')"
    "\<not> is_reverse ''_ntwire._tcp.ntwire''" by code_simp+
  moreover have "?n \<noteq> ''secret''" by (rule notI) (drule arg_cong [where f = length], simp)
  ultimately show "handleDNS (demo_dns ''_ntwire._tcp.ntwire.'' TypeSRV) demo_dns_config (IP4 0x64400001) True 0 [] (demo_dns_state ?n) dp_src [1]
      = ([], ReplyPanic)"
    using len by (simp add: handleDNS_def demo_dns_principal Let_def resolveDNSQuestion_def demo_granted
      server_names_def discovery_names_def resolve_discovery_def allExternalDNSQuestions_def isLocalDNSName_def MustNewName_def)
qed

end
