(* ===== verification/Updater.thy ===== *)
theory Updater
  imports Server_Config Socks_Filter Wg_Keys
begin

text \<open>
  Self-update of the clients (\<^verbatim>\<open>src/pkg/updater/release.go\<close>, \<^verbatim>\<open>install.go\<close>): versions, the signed
  manifest, the check for a newer release, the download, the extraction of an archive and the replacement of
  the installed application. Ed25519, SHA-256, JSON and the archive formats are libraries and arguments; so are
  the answers of the network, and which file operations succeed. The file system is a map from paths to nodes, and the size counter
  of an archive is the signed 64-bit integer the code has. Paths are
  those of Unix and macOS: absolute means a leading slash, and the volume names and backslashes of Windows are not modelled.
\<close>

section \<open>Versions\<close>

definition digit_char :: "char \<Rightarrow> bool" where
  "digit_char c \<longleftrightarrow> digit_val c \<noteq> None"

definition alnum_dash :: "char \<Rightarrow> bool" where
  "alnum_dash c \<longleftrightarrow> (let n = (of_char c :: nat) in
     (48 \<le> n \<and> n \<le> 57) \<or> (65 \<le> n \<and> n \<le> 90) \<or> (97 \<le> n \<and> n \<le> 122) \<or> n = 45)"

text \<open>A number of the pattern: no leading zero.\<close>

definition plain_number :: "string \<Rightarrow> bool" where
  "plain_number p \<longleftrightarrow> p = ''0'' \<or> (p \<noteq> [] \<and> list_all digit_char p \<and> hd p \<noteq> CHR ''0'')"

definition before_plus :: "string \<Rightarrow> string" where
  "before_plus s = takeWhile (\<lambda>c. c \<noteq> CHR ''+'') s"

definition stableVersion :: "string \<Rightarrow> bool" where
  "stableVersion s \<longleftrightarrow>
     (let body = trim_prefix s ''v''; core = before_plus body; build = drop (length core) body
      in length (split_on CHR ''.'' core) = 3 \<and> list_all plain_number (split_on CHR ''.'' core)
       \<and> (build = [] \<or> list_all (\<lambda>i. i \<noteq> [] \<and> list_all alnum_dash i) (split_on CHR ''.'' (tl build))))"

fun parse_uints :: "string list \<Rightarrow> nat list option" where
  "parse_uints [] = Some []"
| "parse_uints (p # ps) = (case decimal 0 p of
      None \<Rightarrow> None
    | Some n \<Rightarrow> if n \<ge> 2 ^ 64 then None else map_option ((#) n) (parse_uints ps))"

definition version :: "string \<Rightarrow> nat list option" where
  "version s = (if \<not> stableVersion s then None
     else parse_uints (split_on CHR ''.'' (before_plus (trim_prefix s ''v''))))"

fun newer_loop :: "nat list \<Rightarrow> nat list \<Rightarrow> bool" where
  "newer_loop (a # as) (b # bs) = (if a \<noteq> b then a > b else newer_loop as bs)"
| "newer_loop _ _ = False"

definition Newer :: "string \<Rightarrow> string \<Rightarrow> bool option" where
  "Newer latest current = (case version latest of
       None \<Rightarrow> None
     | Some a \<Rightarrow> (case version current of None \<Rightarrow> None | Some b \<Rightarrow> Some (newer_loop a b)))"

definition CanInstall :: "string \<Rightarrow> bool" where
  "CanInstall current \<longleftrightarrow> version current \<noteq> None"

section \<open>The signed manifest\<close>

record Asset =
  as_Product :: string
  as_OS :: string
  as_Arch :: string
  as_Name :: string
  as_Size :: int
  as_SHA256 :: string

record Manifest =
  mf_Version :: string
  mf_Assets :: "Asset list"

record Release =
  rl_Manifest :: Manifest
  rl_Asset :: Asset
  rl_Notes :: string
  rl_URL :: string
  rl_Raw :: bytes
  rl_Signature :: bytes

record updateLib =
  ul_Ed25519 :: "bytes \<Rightarrow> bytes \<Rightarrow> bytes \<Rightarrow> bool" \<comment> \<open>key, message, signature\<close>
  ul_SHA256 :: "bytes \<Rightarrow> bytes"
  ul_Manifest :: "bytes \<Rightarrow> Manifest option"
  ul_unicode :: unicode

datatype updateError =
    ErrKey | ErrBadSignature | ErrTooLarge | ErrJSON | ErrBadVersion | ErrInvalidAsset | ErrIncomplete string
  | ErrNetwork | ErrNotStable | ErrVersionDiffers | ErrMissing string | ErrPlatform
  | ErrNotInManifest | ErrHTTPS | ErrFile | ErrMismatch
  | ErrDevelopment | ErrDowngrade | ErrWrongAsset | ErrTarget | ErrTargetType | ErrLocked | ErrChanged
  | ErrUnsafePath | ErrDuplicate | ErrExpanded | ErrSpecial | ErrContent | ErrEntrySize | ErrNoExecutable
  | ErrPreviousExists | ErrRestored | ErrManual | ErrManaged

definition maxMetadata :: nat where "maxMetadata = 2 * 2 ^ 20"
definition maxArchive :: int where "maxArchive = 512 * 2 ^ 20"

definition AssetName :: "string \<Rightarrow> string \<Rightarrow> string \<Rightarrow> string \<Rightarrow> string option" where
  "AssetName product ver goos arch =
     (if product \<noteq> ''ntwire'' \<and> product \<noteq> ''ntwire-gui'' then None
      else if version ver = None then None
      else if (arch \<noteq> ''amd64'' \<and> arch \<noteq> ''arm64'') \<or> (goos \<noteq> ''linux'' \<and> goos \<noteq> ''darwin'' \<and> goos \<noteq> ''windows'')
              \<or> (product = ''ntwire-gui'' \<and> goos = ''darwin'' \<and> arch \<noteq> ''arm64'') then None
      else
        let ext = (if goos = ''windows'' \<or> (product = ''ntwire-gui'' \<and> goos = ''darwin'') then ''.zip'' else ''.tar.gz'');
            v = trim_prefix ver ''v'';
            v' = (if product = ''ntwire-gui'' \<and> goos = ''darwin'' then ''v'' @ v else v)
        in Some (product @ ''_'' @ v' @ ''_'' @ goos @ ''_'' @ arch @ ext))"

text \<open>\<open>hex.DecodeString\<close> takes digits in either case; \<open>hex.EncodeToString\<close> writes lower case.\<close>

fun hex_decode :: "string \<Rightarrow> bytes option" where
  "hex_decode [] = Some []"
| "hex_decode [c] = None"
| "hex_decode (a # b # cs) = (case (hex_val a, hex_val b, hex_decode cs) of
      (Some x, Some y, Some bs) \<Rightarrow> Some (of_nat (16 * x + y) # bs)
    | _ \<Rightarrow> None)"

definition hex_digit :: "nat \<Rightarrow> char" where
  "hex_digit n = (if n < 10 then char_of (48 + n) else char_of (87 + n))"

definition hex_encode :: "bytes \<Rightarrow> string" where
  "hex_encode bs = concat (map (\<lambda>b. [hex_digit (unat b div 16), hex_digit (unat b mod 16)]) bs)"

fun check_assets :: "string \<Rightarrow> string list \<Rightarrow> Asset list \<Rightarrow> (updateError, string list) outcome" where
  "check_assets ver seen [] = Ok seen"
| "check_assets ver seen (a # as) =
     (case AssetName (as_Product a) ver (as_OS a) (as_Arch a) of
        None \<Rightarrow> Err ErrInvalidAsset
      | Some name \<Rightarrow>
          if as_Name a \<noteq> name \<or> name \<in> set seen \<or> as_Size a \<le> 0 \<or> as_Size a > maxArchive
             \<or> (case hex_decode (as_SHA256 a) of None \<Rightarrow> True | Some h \<Rightarrow> length h \<noteq> 32)
          then Err ErrInvalidAsset
          else check_assets ver (name # seen) as)"

definition platforms :: "(string \<times> string \<times> string) list" where
  "platforms = List.product [''ntwire'', ''ntwire-gui''] (List.product [''linux'', ''darwin'', ''windows''] [''amd64'', ''arm64''])"

fun check_complete :: "string \<Rightarrow> string list \<Rightarrow> (string \<times> string \<times> string) list \<Rightarrow> (updateError, unit) outcome" where
  "check_complete ver seen [] = Ok ()"
| "check_complete ver seen ((product, goos, arch) # ps) =
     (case AssetName product ver goos arch of
        None \<Rightarrow> check_complete ver seen ps
      | Some n \<Rightarrow> if n \<notin> set seen then Err (ErrIncomplete n) else check_complete ver seen ps)"

definition Verify :: "updateLib \<Rightarrow> bytes \<Rightarrow> bytes \<Rightarrow> bytes \<Rightarrow> (updateError, Manifest) outcome" where
  "Verify lib raw sig key =
     (if length key \<noteq> 32 then Err ErrKey
      else if \<not> ul_Ed25519 lib key raw sig then Err ErrBadSignature
      else if length raw > maxMetadata then Err ErrTooLarge
      else case ul_Manifest lib raw of
        None \<Rightarrow> Err ErrJSON
      | Some m \<Rightarrow>
          if version (mf_Version m) = None then Err ErrBadVersion
          else obind (check_assets (mf_Version m) [] (mf_Assets m)) (\<lambda>seen.
               obind (check_complete (mf_Version m) seen platforms) (\<lambda>_. Ok m)))"

section \<open>Checking for a release\<close>

record ghAsset =
  ga_Name :: string
  ga_URL :: string
  ga_Size :: int

record ghRelease =
  gh_Tag :: string
  gh_Draft :: bool
  gh_Prerelease :: bool
  gh_Body :: string
  gh_Assets :: "ghAsset list"

text \<open>What the network gives for a URL: the schemes of the redirects, and the status and body.\<close>

type_synonym transport = "string \<Rightarrow> (string list \<times> nat \<times> bytes) option"

fun follow_redirects :: "nat \<Rightarrow> string list \<Rightarrow> bool" where
  "follow_redirects via [] = True"
| "follow_redirects via (scheme # ss) =
     (if scheme \<noteq> ''https'' then False else if via \<ge> 10 then False else follow_redirects (Suc via) ss)"

definition http_do :: "transport \<Rightarrow> string \<Rightarrow> (nat \<times> bytes) option" where
  "http_do net url = (case net url of None \<Rightarrow> None
     | Some (redirects, status, body) \<Rightarrow> if follow_redirects 1 redirects then Some (status, body) else None)"

definition get :: "transport \<Rightarrow> string \<Rightarrow> nat \<Rightarrow> (updateError, bytes) outcome" where
  "get net url limit = (case http_do net url of
       None \<Rightarrow> Err ErrNetwork
     | Some (status, body) \<Rightarrow>
         if status \<noteq> 200 then Err ErrNetwork
         else if length (take (Suc limit) body) > limit then Err ErrTooLarge
         else Ok (take (Suc limit) body))"

text \<open>The maps \<open>urls\<close> and \<open>sizes\<close>: the last asset of a name counts, and an absent name gives zero values.\<close>

definition gh_lookup :: "ghAsset list \<Rightarrow> string \<Rightarrow> string \<times> int" where
  "gh_lookup as n = (case find (\<lambda>a. ga_Name a = n) (rev as) of None \<Rightarrow> ([], 0) | Some a \<Rightarrow> (ga_URL a, ga_Size a))"

fun check_published :: "ghAsset list \<Rightarrow> Asset list \<Rightarrow> (updateError, unit) outcome" where
  "check_published gas [] = Ok ()"
| "check_published gas (a # as) =
     (if fst (gh_lookup gas (as_Name a)) = [] \<or> snd (gh_lookup gas (as_Name a)) \<noteq> as_Size a
      then Err (ErrMissing (as_Name a)) else check_published gas as)"

definition Check ::
  "updateLib \<Rightarrow> bytes \<Rightarrow> transport \<Rightarrow> string \<Rightarrow> (bytes \<Rightarrow> ghRelease option) \<Rightarrow> string \<Rightarrow> string \<Rightarrow> string \<Rightarrow> string
     \<Rightarrow> (updateError, Release option) outcome" where
  "Check lib key net api decode goos arch product current =
     (if length key \<noteq> 32 then Err ErrKey
      else obind (get net (api @ ''/releases/latest'') maxMetadata) (\<lambda>b.
      case decode b of None \<Rightarrow> Err ErrJSON | Some r \<Rightarrow>
        if gh_Draft r \<or> gh_Prerelease r then Err ErrNotStable
        else if version (gh_Tag r) = None then Err ErrBadVersion
        else if CanInstall current \<and> Newer (gh_Tag r) current \<noteq> Some True then Ok None
        else obind (get net (fst (gh_lookup (gh_Assets r) ''update-manifest.json'')) maxMetadata) (\<lambda>raw.
             obind (get net (fst (gh_lookup (gh_Assets r) ''update-manifest.sig'')) 1024) (\<lambda>sigText.
             case DecodeString (TrimSpace (ul_unicode lib) (string_of_bytes sigText)) of None \<Rightarrow> Err ErrBadSignature | Some sig \<Rightarrow>
             obind (Verify lib raw sig key) (\<lambda>m.
             if trim_prefix (mf_Version m) ''v'' \<noteq> trim_prefix (gh_Tag r) ''v'' then Err ErrVersionDiffers
             else obind (check_published (gh_Assets r) (mf_Assets m)) (\<lambda>_.
             case find (\<lambda>a. as_Product a = product \<and> as_OS a = goos \<and> as_Arch a = arch) (mf_Assets m) of
               None \<Rightarrow> Err ErrPlatform
             | Some a \<Rightarrow> Ok (Some \<lparr>rl_Manifest = m, rl_Asset = a, rl_Notes = gh_Body r,
                 rl_URL = fst (gh_lookup (gh_Assets r) (as_Name a)), rl_Raw = raw, rl_Signature = sig\<rparr>)))))))"

section \<open>Download\<close>

record fileOps =
  fo_mkdir :: bool
  fo_create :: bool
  fo_write :: bool
  fo_sync :: bool
  fo_rename :: bool

text \<open>The result and the cache directory; a temporary file is removed on every failure. \<open>scheme\<close> is that of \<open>url.Parse\<close>.\<close>

definition Download ::
  "updateLib \<Rightarrow> bytes \<Rightarrow> transport \<Rightarrow> (string \<Rightarrow> string option) \<Rightarrow> fileOps \<Rightarrow> Release \<Rightarrow> string \<Rightarrow> (string, bytes) fmap
     \<Rightarrow> (updateError, string) outcome \<times> (string, bytes) fmap" where
  "Download lib key net scheme ops r dir fs =
     (case Verify lib (rl_Raw r) (rl_Signature r) key of
        Err e \<Rightarrow> (Err e, fs)
      | Panic \<Rightarrow> (Panic, fs)
      | Ok m \<Rightarrow>
          if rl_Asset r \<notin> set (mf_Assets m) then (Err ErrNotInManifest, fs)
          else if scheme (rl_URL r) \<noteq> Some ''https'' then (Err ErrHTTPS, fs)
          else if \<not> fo_mkdir ops \<or> \<not> fo_create ops then (Err ErrFile, fs)
          else case http_do net (rl_URL r) of
            None \<Rightarrow> (Err ErrNetwork, fs)
          | Some (status, body) \<Rightarrow>
              if status \<noteq> 200 then (Err ErrNetwork, fs)
              else
                let data = take (nat (as_Size (rl_Asset r) + 1)) body in
                if \<not> fo_write ops then (Err ErrFile, fs)
                else if int (length data) \<noteq> as_Size (rl_Asset r) \<or> hex_encode (ul_SHA256 lib data) \<noteq> as_SHA256 (rl_Asset r)
                then (Err ErrMismatch, fs)
                else if \<not> fo_sync ops \<or> \<not> fo_rename ops then (Err ErrFile, fs)
                else let path = dir @ ''/'' @ as_Name (rl_Asset r) in (Ok path, fmupd path data fs))"

definition VerifyArchive :: "updateLib \<Rightarrow> bytes \<Rightarrow> Release \<Rightarrow> bytes option \<Rightarrow> (updateError, unit) outcome" where
  "VerifyArchive lib key r file =
     obind (Verify lib (rl_Raw r) (rl_Signature r) key) (\<lambda>m.
     if rl_Asset r \<notin> set (mf_Assets m) then Err ErrNotInManifest
     else case file of None \<Rightarrow> Err ErrFile | Some data \<Rightarrow>
       if hex_encode (ul_SHA256 lib data) \<noteq> as_SHA256 (rl_Asset r) \<or> int (length data) \<noteq> as_Size (rl_Asset r)
       then Err ErrMismatch else Ok ())"

section \<open>Extraction\<close>

text \<open>\<open>path.Clean\<close>: the elements of the path, with a stack of those that are kept.\<close>

fun clean_elems :: "bool \<Rightarrow> string list \<Rightarrow> string list \<Rightarrow> string list" where
  "clean_elems rooted acc [] = rev acc"
| "clean_elems rooted acc (c # cs) =
     (if c = [] \<or> c = ''.'' then clean_elems rooted acc cs
      else if c = ''..'' then
        (case acc of
           [] \<Rightarrow> if rooted then clean_elems rooted acc cs else clean_elems rooted [''..''] cs
         | a # as \<Rightarrow> if a = ''..'' then clean_elems rooted (''..'' # acc) cs else clean_elems rooted as cs)
      else clean_elems rooted (c # acc) cs)"

fun join_path :: "string list \<Rightarrow> string" where
  "join_path [] = []"
| "join_path [c] = c"
| "join_path (c # cs) = c @ ''/'' @ join_path cs"

definition path_Clean :: "string \<Rightarrow> string" where
  "path_Clean p =
     (let rooted = HasPrefix p ''/''; s = join_path (clean_elems rooted [] (split_on CHR ''/'' p))
      in if rooted then ''/'' @ s else if s = [] then ''.'' else s)"

datatype entryKind = RegularEntry | DirEntry | SymlinkEntry | SpecialEntry

record archiveEntry =
  en_Name :: string
  en_Size :: int
  en_Kind :: entryKind
  en_Exec :: bool
  en_Data :: bytes

datatype fileNode = DirNode | FileNode (fn_exec: bool) (fn_data: bytes)

type_synonym tree = "(string list, fileNode) fmap"

definition wrap64 :: "int \<Rightarrow> int" where
  "wrap64 x = sint (word_of_int x :: 64 word)"

definition contains_str :: "string \<Rightarrow> string \<Rightarrow> bool" where
  "contains_str s sub \<longleftrightarrow> list_ex (\<lambda>t. HasPrefix t sub) (suffixes s)"

text \<open>\<open>os.MkdirAll\<close> below the staging directory: every directory on the way, unless one is a file.\<close>

fun mkdir_all :: "string list \<Rightarrow> string list \<Rightarrow> tree \<Rightarrow> tree option" where
  "mkdir_all done [] fs = Some fs"
| "mkdir_all done (c # cs) fs =
     (case fmlookup fs (done @ [c]) of
        Some (FileNode x d) \<Rightarrow> None
      | Some DirNode \<Rightarrow> mkdir_all (done @ [c]) cs fs
      | None \<Rightarrow> mkdir_all (done @ [c]) cs (fmupd (done @ [c]) DirNode fs))"

record extractState =
  ex_seen :: "string list"
  ex_files :: nat
  ex_total :: int
  ex_tree :: tree

definition is_bundle :: "Asset \<Rightarrow> bool" where
  "is_bundle a \<longleftrightarrow> as_Product a = ''ntwire-gui'' \<and> as_OS a = ''darwin''"

definition binary_name :: "Asset \<Rightarrow> string" where
  "binary_name a = (if as_OS a = ''windows'' then as_Product a @ ''.exe'' else as_Product a)"

definition archive_root :: "Asset \<Rightarrow> string" where
  "archive_root a = (if is_bundle a then ''ntwire-gui.app'' else binary_name a)"

definition unsafe_path :: "string \<Rightarrow> bool" where
  "unsafe_path name \<longleftrightarrow> CHR 0x5C \<in> set name \<or> CHR '':'' \<in> set name \<or> HasPrefix name ''/''
     \<or> path_Clean name \<noteq> trim_suffix name ''/'' \<or> name = ''.'' \<or> HasPrefix name ''../''"

definition write_entry :: "Asset \<Rightarrow> string \<Rightarrow> archiveEntry \<Rightarrow> tree \<Rightarrow> (updateError, tree) outcome" where
  "write_entry a name e fs =
     (let dst = split_on CHR ''/'' name in
      if en_Kind e = DirEntry then
        (case mkdir_all [] dst fs of None \<Rightarrow> Err ErrFile | Some fs' \<Rightarrow> Ok fs')
      else (case mkdir_all [] (butlast dst) fs of
          None \<Rightarrow> Err ErrFile
        | Some fs' \<Rightarrow>
            if fmlookup fs' dst \<noteq> None then Err ErrFile
            else
              let data = take (nat (wrap64 (en_Size e + 1))) (en_Data e);
                  exec = (name = binary_name a \<or> contains_str name ''/Contents/MacOS/'' \<or> en_Exec e)
              in if int (length data) \<noteq> en_Size e then Err ErrEntrySize
                 else Ok (fmupd dst (FileNode exec data) fs')))"

text \<open>The closure \<open>entry\<close>.\<close>

definition extract_entry :: "unicode \<Rightarrow> Asset \<Rightarrow> archiveEntry \<Rightarrow> extractState \<Rightarrow> (updateError, extractState) outcome" where
  "extract_entry u a e st =
     (if unsafe_path (en_Name e) then Err ErrUnsafePath
      else
        let name = trim_suffix (en_Name e) ''/''; lowered = ToLower u name in
        if lowered \<in> set (ex_seen st) then Err ErrDuplicate
        else
          let st1 = st\<lparr>ex_seen := lowered # ex_seen st, ex_files := Suc (ex_files st), ex_total := wrap64 (ex_total st + en_Size e)\<rparr> in
          if ex_files st1 > 10000 \<or> en_Size e < 0 \<or> ex_total st1 > maxArchive then Err ErrExpanded
          else if en_Kind e = SymlinkEntry \<or> en_Kind e = SpecialEntry then Err ErrSpecial
          else if \<not> is_bundle a \<and> name \<noteq> binary_name a then
            (if CHR ''/'' \<notin> set name \<and> (name = ''LICENSE'' \<or> name = ''LICENSE.md'' \<or> HasPrefix name ''README'')
             then Ok st1 else Err ErrContent)
          else if is_bundle a \<and> name \<noteq> archive_root a \<and> \<not> HasPrefix name (archive_root a @ ''/'') then
            (if name = ''__MACOSX'' \<or> HasPrefix name ''__MACOSX/'' then Ok st1 else Err ErrContent)
          else obind (write_entry a name e (ex_tree st1)) (\<lambda>fs. Ok (st1\<lparr>ex_tree := fs\<rparr>)))"

text \<open>A zip entry is first refused by its uncompressed size, a tar entry by its type.\<close>

fun extract_loop :: "unicode \<Rightarrow> Asset \<Rightarrow> bool \<Rightarrow> archiveEntry list \<Rightarrow> extractState \<Rightarrow> (updateError, extractState) outcome" where
  "extract_loop u a isZip [] st = Ok st"
| "extract_loop u a isZip (e # es) st =
     (if isZip \<and> en_Size e > maxArchive then Err ErrTooLarge
      else if \<not> isZip \<and> en_Kind e \<noteq> RegularEntry \<and> en_Kind e \<noteq> DirEntry then Err ErrSpecial
      else obind (extract_entry u a e st) (extract_loop u a isZip es))"

definition is_file :: "tree \<Rightarrow> string list \<Rightarrow> bool" where
  "is_file fs p \<longleftrightarrow> (case fmlookup fs p of Some (FileNode x d) \<Rightarrow> True | _ \<Rightarrow> False)"

text \<open>The staging directory holds the snapshot of the archive; the result is what lies at the root of the archive.\<close>

definition extract_archive :: "unicode \<Rightarrow> (bytes \<Rightarrow> archiveEntry list option) \<Rightarrow> bytes \<Rightarrow> Asset \<Rightarrow> (updateError, tree) outcome" where
  "extract_archive u entries archive a =
     (case entries archive of
        None \<Rightarrow> Err ErrContent
      | Some es \<Rightarrow>
          obind (extract_loop u a (HasSuffix (as_Name a) ''.zip'') es
              \<lparr>ex_seen = [], ex_files = 0, ex_total = 0, ex_tree = fmupd [''archive''] (FileNode False archive) fmempty\<rparr>) (\<lambda>st.
          let fs = ex_tree st; root = archive_root a;
              bin = (if is_bundle a then [root, ''Contents'', ''MacOS'', ''ntwire-gui''] else [root])
          in if is_bundle a \<and> fmlookup fs [root, ''Contents'', ''Info.plist''] = None then Err ErrContent
             else if \<not> is_file fs bin then Err ErrNoExecutable
             else Ok (fmfilter (\<lambda>p. p \<noteq> [] \<and> hd p = root) fs)))"

section \<open>Installation\<close>

definition expectedTarget :: "Asset \<Rightarrow> string" where
  "expectedTarget a = (if is_bundle a then ''ntwire-gui.app'' else binary_name a)"

definition path_Base :: "string \<Rightarrow> string" where
  "path_Base p =
     (let s = rev (dropWhile (\<lambda>c. c = CHR ''/'') (rev p))
      in if p = [] then ''.'' else if s = [] then ''/'' else last (split_on CHR ''/'' s))"

text \<open>Renaming moves a node.\<close>

definition fs_rename :: "string \<Rightarrow> string \<Rightarrow> (string, tree) fmap \<Rightarrow> (string, tree) fmap" where
  "fs_rename old new fs = (case fmlookup fs old of None \<Rightarrow> fs | Some t \<Rightarrow> fmupd new t (fmdrop old fs))"

text \<open>\<open>replace\<close>: which of the three renames succeed is an argument; the staged application is outside the map.\<close>

definition replace_app ::
  "bool \<times> bool \<times> bool \<Rightarrow> string \<Rightarrow> tree \<Rightarrow> string \<Rightarrow> (string, tree) fmap \<Rightarrow> (updateError, unit) outcome \<times> (string, tree) fmap" where
  "replace_app renames target staged previous fs = (case renames of (moved, placed, rollback) \<Rightarrow>
     if \<not> moved then (Err ErrFile, fs)
     else
       let fs1 = fs_rename target previous fs in
       if placed then (Ok (), fmupd target staged fs1)
       else if rollback then (Err ErrRestored, fs_rename previous target fs1)
       else (Err ErrManual, fs1))"

record Job =
  jb_Release :: Release
  jb_Target :: string
  jb_Current :: string

text \<open>\<open>ie_lstat\<close>: whether the target is a link, and a directory; \<open>ie_archive\<close> and \<open>ie_copied\<close>: what the staged archive holds when
  it is hashed and when it is copied (another process may change it in between).\<close>

record installEnv =
  ie_goos :: string
  ie_goarch :: string
  ie_lstat :: "bool \<times> bool"
  ie_lock :: bool
  ie_archive :: "bytes option"
  ie_tempdir :: bool
  ie_copied :: "bytes option"
  ie_entries :: "bytes \<Rightarrow> archiveEntry list option"
  ie_lstatPrevious :: bool
  ie_renames :: "bool \<times> bool \<times> bool"

definition previous_path :: "Job \<Rightarrow> string" where
  "previous_path j = jb_Target j @ ''.previous-'' @ trim_prefix (jb_Current j) ''v''"

definition hash_ok :: "updateLib \<Rightarrow> Asset \<Rightarrow> bytes \<Rightarrow> bool" where
  "hash_ok lib a data \<longleftrightarrow> hex_encode (ul_SHA256 lib data) = as_SHA256 a \<and> int (length data) = as_Size a"

definition Install ::
  "updateLib \<Rightarrow> bytes \<Rightarrow> installEnv \<Rightarrow> Job \<Rightarrow> (string, tree) fmap \<Rightarrow> (updateError, unit) outcome \<times> (string, tree) fmap" where
  "Install lib key env j fs =
     (let r = jb_Release j; a = rl_Asset r; target = jb_Target j; previous = previous_path j in
      if \<not> CanInstall (jb_Current j) then (Err ErrDevelopment, fs)
      else case Verify lib (rl_Raw r) (rl_Signature r) key of
        Err e \<Rightarrow> (Err e, fs)
      | Panic \<Rightarrow> (Panic, fs)
      | Ok m \<Rightarrow>
          if Newer (mf_Version m) (jb_Current j) \<noteq> Some True then (Err ErrDowngrade, fs)
          else if a \<notin> set (mf_Assets m) \<or> as_OS a \<noteq> ie_goos env \<or> as_Arch a \<noteq> ie_goarch env then (Err ErrWrongAsset, fs)
          else if \<not> HasPrefix target ''/'' \<or> path_Base target \<noteq> expectedTarget a then (Err ErrTarget, fs)
          else if fmlookup fs target = None then (Err ErrFile, fs)
          else if fst (ie_lstat env) \<or> snd (ie_lstat env) \<noteq> is_bundle a then (Err ErrTargetType, fs)
          else if \<not> ie_lock env then (Err ErrLocked, fs)
          else case ie_archive env of None \<Rightarrow> (Err ErrFile, fs) | Some data \<Rightarrow>
            if \<not> hash_ok lib a data then (Err ErrMismatch, fs)
            else if \<not> ie_tempdir env then (Err ErrFile, fs)
            else case ie_copied env of None \<Rightarrow> (Err ErrFile, fs) | Some copied \<Rightarrow>
              let snapshot = take (nat (as_Size a + 1)) copied in
              if \<not> hash_ok lib a snapshot then (Err ErrChanged, fs)
              else case extract_archive (ul_unicode lib) (ie_entries env) snapshot a of
                Err e \<Rightarrow> (Err e, fs)
              | Panic \<Rightarrow> (Panic, fs)
              | Ok staged \<Rightarrow>
                  if fmlookup fs previous \<noteq> None then (Err ErrPreviousExists, fs)
                  else if \<not> ie_lstatPrevious env then (Err ErrFile, fs)
                  else replace_app (ie_renames env) target staged previous fs)"

text \<open>\<open>RunHelper\<close>: the job must come from the same version, and its evidence is checked before and after the parent has ended.\<close>

definition RunHelper ::
  "updateLib \<Rightarrow> bytes \<Rightarrow> string \<Rightarrow> bool \<Rightarrow> bool \<Rightarrow> installEnv \<Rightarrow> Job \<Rightarrow> (string, tree) fmap
     \<Rightarrow> (updateError, unit) outcome \<times> (string, tree) fmap" where
  "RunHelper lib key build ready exited env j fs =
     (if jb_Current j \<noteq> build then (Err ErrBadVersion, fs)
      else case Verify lib (rl_Raw (jb_Release j)) (rl_Signature (jb_Release j)) key of
        Err e \<Rightarrow> (Err e, fs)
      | Panic \<Rightarrow> (Panic, fs)
      | Ok m \<Rightarrow> if \<not> ready \<or> \<not> exited then (Err ErrFile, fs) else Install lib key env j fs)"

section \<open>Elevation\<close>

text \<open>\<open>shellQuote\<close> (\<^verbatim>\<open>process_unix.go\<close>).\<close>

definition shellQuote :: "string \<Rightarrow> string" where
  "shellQuote s = [CHR 0x27] @ concat (map (\<lambda>c. if c = CHR 0x27 then [CHR 0x27, CHR 0x22, CHR 0x27, CHR 0x22, CHR 0x27] else [c]) s) @ [CHR 0x27]"

section \<open>Verified releases\<close>

text \<open>What \<open>Verify\<close> accepts: the signature is the key's, every asset has the name, size and digest a release has, no name occurs
  twice, and every supported platform has its archive.\<close>

definition asset_ok :: "string \<Rightarrow> Asset \<Rightarrow> bool" where
  "asset_ok ver a \<longleftrightarrow> AssetName (as_Product a) ver (as_OS a) (as_Arch a) = Some (as_Name a)
     \<and> 0 < as_Size a \<and> as_Size a \<le> maxArchive \<and> (\<exists>h. hex_decode (as_SHA256 a) = Some h \<and> length h = 32)"

definition manifest_valid :: "Manifest \<Rightarrow> bool" where
  "manifest_valid m \<longleftrightarrow> version (mf_Version m) \<noteq> None
     \<and> (\<forall>a \<in> set (mf_Assets m). asset_ok (mf_Version m) a) \<and> distinct (map as_Name (mf_Assets m))
     \<and> (\<forall>(product, goos, arch) \<in> set platforms. \<forall>n. AssetName product (mf_Version m) goos arch = Some n \<longrightarrow>
          n \<in> as_Name ` set (mf_Assets m))"

lemma check_assets_Ok:
  "check_assets ver seen as = Ok seen' \<longleftrightarrow> (\<forall>a \<in> set as. asset_ok ver a) \<and> distinct (map as_Name as)
     \<and> set (map as_Name as) \<inter> set seen = {} \<and> seen' = rev (map as_Name as) @ seen"
  by (induction as arbitrary: seen) (auto simp: asset_ok_def not_le split: option.split)

lemma check_complete_Ok:
  "check_complete ver seen ps = Ok () \<longleftrightarrow>
     (\<forall>(product, goos, arch) \<in> set ps. \<forall>n. AssetName product ver goos arch = Some n \<longrightarrow> n \<in> set seen)"
  by (induction ver seen ps rule: check_complete.induct) (auto split: option.split)

lemma Verify_iff:
  "Verify lib raw sig key = Ok m \<longleftrightarrow> length key = 32 \<and> ul_Ed25519 lib key raw sig \<and> length raw \<le> maxMetadata
     \<and> ul_Manifest lib raw = Some m \<and> manifest_valid m"
  by (auto simp: Verify_def manifest_valid_def obind_Ok_iff check_assets_Ok check_complete_Ok split: option.split)

section \<open>Versions\<close>

lemma newer_asym: "newer_loop a b \<Longrightarrow> \<not> newer_loop b a"
  by (induction a b rule: newer_loop.induct) (auto split: if_splits)

lemma newer_irrefl: "\<not> newer_loop a a"
  by (induction a) auto

lemma newer_trans: "newer_loop a b \<Longrightarrow> newer_loop b c \<Longrightarrow> newer_loop a c"
proof (induction a arbitrary: b c)
  case (Cons x a)
  from Cons.prems obtain y b' z c' where "b = y # b'" "c = z # c'" by (cases b; cases c) auto
  with Cons show ?case by (auto split: if_splits)
qed simp

section \<open>Archives\<close>

text \<open>A cleaned relative path is some number of \<open>..\<close> followed by proper elements.\<close>

definition proper_elem :: "string \<Rightarrow> bool" where
  "proper_elem c \<longleftrightarrow> c \<noteq> [] \<and> c \<noteq> ''.'' \<and> c \<noteq> ''..'' \<and> CHR ''/'' \<notin> set c"

lemma clean_elems_form:
  "list_all proper_elem xs \<Longrightarrow> \<forall>c \<in> set cs. CHR ''/'' \<notin> set c
    \<Longrightarrow> \<exists>k ys. clean_elems False (xs @ replicate n ''..'') cs = replicate k ''..'' @ ys \<and> list_all proper_elem ys"
proof (induction cs arbitrary: xs n)
  case Nil
  have "clean_elems False (xs @ replicate n ''..'') [] = replicate n ''..'' @ rev xs" by simp
  moreover have "list_all proper_elem (rev xs)" using Nil by (simp add: list_all_iff)
  ultimately show ?case by blast
next
  case (Cons c cs)
  consider (skip) "c = [] \<or> c = ''.''" | (up) "c = ''..''" | (down) "proper_elem c"
    using Cons.prems(2) by (auto simp: proper_elem_def)
  then show ?case
  proof cases
    case skip
    then show ?thesis using Cons by simp
  next
    case down
    then have eq: "clean_elems False (xs @ replicate n ''..'') (c # cs) = clean_elems False ((c # xs) @ replicate n ''..'') cs"
      by (simp add: proper_elem_def)
    have "list_all proper_elem (c # xs)" using down Cons.prems(1) by simp
    from Cons.IH [OF this, of n] Cons.prems(2) show ?thesis unfolding eq by auto
  next
    case up
    show ?thesis
    proof (cases xs)
      case Nil
      then have "clean_elems False (xs @ replicate n ''..'') (c # cs) = clean_elems False ([] @ replicate (Suc n) ''..'') cs"
        using up by (cases n) simp_all
      then show ?thesis using Cons.IH [of "[]" "Suc n"] Cons.prems(2) by simp
    next
      case (Cons x xs')
      then have "x \<noteq> ''..''" using Cons.prems(1) by (simp add: proper_elem_def)
      then have "clean_elems False (xs @ replicate n ''..'') (c # cs) = clean_elems False (xs' @ replicate n ''..'') cs"
        using up Cons by simp
      then show ?thesis using \<open>xs = x # xs'\<close> Cons.prems Cons.IH [of xs' n] by simp
    qed
  qed
qed

lemma split_on_Cons: "\<exists>f fs. split_on c s = f # fs"
  by (induction s) (auto split: list.split)

lemma split_on_elems: "\<forall>f \<in> set (split_on c s). c \<notin> set f"
  by (induction s) (auto split: list.split_asm)

lemma split_on_plain: "c \<notin> set f \<Longrightarrow> split_on c f = [f]"
  by (induction f) auto

lemma split_on_append: "c \<notin> set f \<Longrightarrow> split_on c (f @ c # s) = f # split_on c s"
  by (induction f) auto

lemma split_join: "cs \<noteq> [] \<Longrightarrow> \<forall>f \<in> set cs. CHR ''/'' \<notin> set f \<Longrightarrow> split_on CHR ''/'' (join_path cs) = cs"
  by (induction cs rule: join_path.induct) (simp_all add: split_on_plain split_on_append)

lemma join_nonempty: "cs \<noteq> [] \<Longrightarrow> \<forall>c \<in> set cs. c \<noteq> [] \<Longrightarrow> join_path cs \<noteq> []"
  by (cases cs rule: join_path.cases) auto

text \<open>An accepted path below a proper first element has proper elements only.\<close>

lemma safe_path_elems:
  assumes safe: "\<not> unsafe_path name" and root: "proper_elem root"
    and under: "trim_suffix name ''/'' = root \<or> HasPrefix (trim_suffix name ''/'') (root @ ''/'')"
  shows "\<exists>rest. split_on CHR ''/'' (trim_suffix name ''/'') = root # rest \<and> list_all proper_elem rest"
proof -
  let ?n = "trim_suffix name ''/''"
  obtain k ys where f: "clean_elems False [] (split_on CHR ''/'' name) = replicate k ''..'' @ ys" "list_all proper_elem ys"
    using clean_elems_form [of "[]" "split_on CHR ''/'' name" 0] split_on_elems by auto
  have n: "?n = (if join_path (replicate k ''..'' @ ys) = [] then ''.'' else join_path (replicate k ''..'' @ ys))"
    using safe f(1) by (auto simp: unsafe_path_def path_Clean_def Let_def split: if_split_asm)
  have hd: "\<exists>rest. split_on CHR ''/'' ?n = root # rest"
  proof (cases "?n = root")
    case True
    then show ?thesis using root by (simp add: proper_elem_def split_on_plain)
  next
    case False
    then obtain t where "?n = root @ CHR ''/'' # t" using under
      by (auto simp: HasPrefix_def) (metis append.assoc append_Cons append_Nil append_take_drop_id)
    then show ?thesis using root by (simp add: proper_elem_def split_on_append)
  qed
  have "\<forall>g \<in> set ys. proper_elem g" using f(2) by (simp only: list_all_iff)
  then have slash: "\<forall>g \<in> set (replicate k ''..'' @ ys). CHR ''/'' \<notin> set g"
    and elems: "\<forall>g \<in> set (replicate k ''..'' @ ys). g \<noteq> []"
    by (simp_all add: proper_elem_def set_replicate_conv_if)
  have ne: "replicate k ''..'' @ ys \<noteq> []"
  proof
    assume "replicate k ''..'' @ ys = []"
    then have "?n = ''.''" unfolding n by (simp only: join_path.simps if_True simp_thms)
    then have "split_on CHR ''/'' ?n = [''.'']" by simp
    with hd root show False by (simp add: proper_elem_def)
  qed
  have "join_path (replicate k ''..'' @ ys) \<noteq> []"
    by (rule join_nonempty [OF ne elems])
  then have n': "?n = join_path (replicate k ''..'' @ ys)" using n by (simp only: if_False simp_thms)
  have s: "split_on CHR ''/'' ?n = replicate k ''..'' @ ys" unfolding n' by (rule split_join [OF ne slash])
  with hd root have "k = 0" by (cases k) (auto simp: proper_elem_def)
  with s hd f(2) show ?thesis by auto
qed

text \<open>Where an archive's entries end up in the staging directory, next to the archive itself.\<close>

definition staged_ok :: "Asset \<Rightarrow> tree \<Rightarrow> bool" where
  "staged_ok a fs \<longleftrightarrow> (\<forall>p \<in> fmdom' fs. p = [''archive''] \<or> (\<exists>rest. p = archive_root a # rest \<and> list_all proper_elem rest))"

lemma mkdir_all_dom:
  "mkdir_all dn cs fs = Some fs' \<Longrightarrow> p \<in> fmdom' fs' \<Longrightarrow> p \<in> fmdom' fs \<or> (\<exists>n>0. n \<le> length cs \<and> p = dn @ take n cs)"
proof (induction cs arbitrary: dn fs)
  case (Cons c cs)
  have step: "\<exists>n>0. n \<le> length cs \<and> p = (dn @ [c]) @ take n cs \<Longrightarrow> \<exists>n>0. n \<le> length (c # cs) \<and> p = dn @ take n (c # cs)"
    by (elim exE, rule_tac x = "Suc n" in exI) simp
  have one: "p = dn @ [c] \<Longrightarrow> \<exists>n>0. n \<le> length (c # cs) \<and> p = dn @ take n (c # cs)"
    by (intro exI [of _ "Suc 0"]) simp
  obtain fs1 where "mkdir_all (dn @ [c]) cs fs1 = Some fs'" "fs1 = fs \<or> fs1 = fmupd (dn @ [c]) DirNode fs"
    using Cons.prems(1) by (auto split: option.split_asm fileNode.split_asm)
  with Cons.IH [OF this(1) Cons.prems(2)] step one show ?case by auto
qed simp

lemma write_entry_dom:
  assumes "write_entry a name e fs = Ok fs'" and "p \<in> fmdom' fs'"
  shows "p \<in> fmdom' fs \<or> (\<exists>n>0. n \<le> length (split_on CHR ''/'' name) \<and> p = take n (split_on CHR ''/'' name))"
proof (cases "en_Kind e = DirEntry")
  case True
  with assms have "mkdir_all [] (split_on CHR ''/'' name) fs = Some fs'"
    by (simp add: write_entry_def Let_def split: option.split_asm)
  from mkdir_all_dom [OF this assms(2)] show ?thesis by simp
next
  case False
  let ?d = "split_on CHR ''/'' name"
  from False assms(1) obtain fs1 f where m: "mkdir_all [] (butlast ?d) fs = Some fs1" "fs' = fmupd ?d f fs1"
    by (auto simp: write_entry_def Let_def split: option.split_asm if_split_asm)
  obtain x xs where d: "?d = x # xs" using split_on_Cons by blast
  show ?thesis
  proof (cases "p = ?d")
    case True
    then show ?thesis using d by (intro disjI2 exI [of _ "length ?d"]) simp
  next
    case False
    with assms(2) m(2) have "p \<in> fmdom' fs1" by simp
    from mkdir_all_dom [OF m(1) this] show ?thesis
    proof
      assume "\<exists>n>0. n \<le> length (butlast ?d) \<and> p = [] @ take n (butlast ?d)"
      then obtain n where "n > 0" "n \<le> length ?d - 1" "p = take n (butlast ?d)" by auto
      then have "p = take n ?d" "n \<le> length ?d" by (simp_all add: take_butlast)
      with \<open>n > 0\<close> show ?thesis by blast
    qed simp
  qed
qed

lemma asset_root: "asset_ok ver a \<Longrightarrow> proper_elem (archive_root a) \<and> binary_name a \<noteq> []"
  by (auto simp: asset_ok_def AssetName_def archive_root_def binary_name_def is_bundle_def proper_elem_def split: if_split_asm)

lemma write_entry_staged:
  assumes "write_entry a name e fs = Ok fs'" and "staged_ok a fs"
    and "split_on CHR ''/'' name = archive_root a # rest" and "list_all proper_elem rest"
  shows "staged_ok a fs'"
  unfolding staged_ok_def
proof
  fix p assume "p \<in> fmdom' fs'"
  with write_entry_dom [OF assms(1)] consider "p \<in> fmdom' fs" | n where "n > 0" "p = take n (archive_root a # rest)"
    using assms(3) by auto
  then show "p = [''archive''] \<or> (\<exists>rest. p = archive_root a # rest \<and> list_all proper_elem rest)"
  proof cases
    case (2 n)
    then have "p = archive_root a # take (n - 1) rest" by (cases n) simp_all
    moreover have "list_all proper_elem (take (n - 1) rest)" using assms(4) by (auto simp: list_all_iff dest: in_set_takeD)
    ultimately show ?thesis by blast
  qed (use assms(2) in \<open>simp add: staged_ok_def\<close>)
qed

lemma extract_entry_staged:
  assumes "extract_entry u a e st = Ok st'" and "asset_ok ver a" and "staged_ok a (ex_tree st)"
  shows "staged_ok a (ex_tree st')"
proof -
  let ?n = "trim_suffix (en_Name e) ''/''"
  have safe: "\<not> unsafe_path (en_Name e)" using assms(1) by (auto simp: extract_entry_def)
  consider (skipped) "ex_tree st' = ex_tree st" | (written) fs where "write_entry a ?n e (ex_tree st) = Ok fs" "ex_tree st' = fs"
      "?n = archive_root a \<or> HasPrefix ?n (archive_root a @ ''/'')"
    using assms(1) by (auto simp: extract_entry_def Let_def obind_Ok_iff archive_root_def split: if_split_asm)
  then show ?thesis
  proof cases
    case written
    obtain rest where "split_on CHR ''/'' ?n = archive_root a # rest" "list_all proper_elem rest"
      using safe_path_elems [OF safe _ written(3)] asset_root [OF assms(2)] by blast
    with write_entry_staged [OF written(1) assms(3)] written(2) show ?thesis by simp
  qed (use assms(3) in simp)
qed

lemma extract_loop_staged:
  assumes "asset_ok ver a"
  shows "extract_loop u a isZip es st = Ok st' \<Longrightarrow> staged_ok a (ex_tree st) \<Longrightarrow> staged_ok a (ex_tree st')"
  by (induction es arbitrary: st) (auto simp: obind_Ok_iff split: if_split_asm dest: extract_entry_staged [OF _ assms])

text \<open>C27: extraction stays inside its directory. For an asset of a valid manifest and any archive, everything that
  the entries create lies under the application's own name, and no element of a path is empty, a dot or two
  dots; apart from the snapshot of the archive itself nothing else is in the staging directory.\<close>

theorem extraction_confined:
  assumes "manifest_valid m" and "a \<in> set (mf_Assets m)"
    and "extract_loop u a isZip es \<lparr>ex_seen = [], ex_files = 0, ex_total = 0,
           ex_tree = fmupd [''archive''] (FileNode False archive) fmempty\<rparr> = Ok st"
  shows "\<forall>p \<in> fmdom' (ex_tree st). p = [''archive''] \<or> (\<exists>rest. p = archive_root a # rest \<and>
     (\<forall>c \<in> set rest. c \<noteq> [] \<and> c \<noteq> ''.'' \<and> c \<noteq> ''..'' \<and> CHR ''/'' \<notin> set c))"
proof -
  have "asset_ok (mf_Version m) a" using assms(1,2) by (simp add: manifest_valid_def)
  from extract_loop_staged [OF this assms(3)] show ?thesis
    by (force simp: staged_ok_def list_all_iff proper_elem_def)
qed

section \<open>What is downloaded and installed\<close>

text \<open>A download leaves in the cache directory either nothing new, and reports an error, or exactly one file: the
  archive of an asset of a manifest signed with the built-in key, with that asset's size and digest.\<close>

theorem download_verified:
  assumes "Download lib key net scheme ops r dir fs = (res, fs')"
  shows "(fs' = fs \<and> (\<exists>e. res = Err e))
     \<or> (\<exists>m data. res = Ok (dir @ ''/'' @ as_Name (rl_Asset r)) \<and> fs' = fmupd (dir @ ''/'' @ as_Name (rl_Asset r)) data fs
          \<and> ul_Ed25519 lib key (rl_Raw r) (rl_Signature r) \<and> ul_Manifest lib (rl_Raw r) = Some m \<and> manifest_valid m
          \<and> rl_Asset r \<in> set (mf_Assets m) \<and> hash_ok lib (rl_Asset r) data \<and> scheme (rl_URL r) = Some ''https'')"
proof (cases "Verify lib (rl_Raw r) (rl_Signature r) key")
  case (Ok m)
  then have v: "ul_Ed25519 lib key (rl_Raw r) (rl_Signature r)" "ul_Manifest lib (rl_Raw r) = Some m" "manifest_valid m"
    by (simp_all add: Verify_iff)
  then show ?thesis using assms Ok
    by (auto simp: Download_def Let_def hash_ok_def split: if_split_asm option.split_asm prod.split_asm)
next
  case (Err e)
  then show ?thesis using assms by (auto simp: Download_def)
next
  case Panic
  have "obind x f \<noteq> Panic" if "x \<noteq> Panic" "\<And>y. f y \<noteq> Panic" for x :: "(updateError, 'b) outcome" and f :: "'b \<Rightarrow> (updateError, 'c) outcome"
    using that by (cases x) auto
  moreover have "check_assets ver seen as \<noteq> Panic" for ver seen as
    by (induction as arbitrary: seen) (auto split: option.split)
  moreover have "check_complete ver seen ps \<noteq> Panic" for ver seen ps
    by (induction ver seen ps rule: check_complete.induct) (auto split: option.split)
  ultimately have False using Panic by (auto simp: Verify_def obind_Panic_iff split: if_split_asm option.split_asm)
  then show ?thesis ..
qed

text \<open>Renaming away and back.\<close>

lemma rename_back:
  "fmlookup fs previous = None \<Longrightarrow> fmlookup fs target = Some t \<Longrightarrow> fs_rename previous target (fs_rename target previous fs) = fs"
  by (cases "previous = target") (auto simp: fs_rename_def intro!: fmap_ext)

text \<open>C26: an installation has one of three outcomes: it fails and changes nothing on disk, it installs what is verified, or both
  renames of the replacement fail and the error asks for a manual repair. If the file system changes, the job's manifest is
  signed with the built-in key and strictly newer than the running version, its asset is in the manifest and built for
  this platform, and the bytes that were extracted have the asset's size and digest even if the staged archive was
  exchanged after its first check; the old application is kept under its backup name, which was free. On success the target then
  holds the extracted application; when the new one could not be moved in and the old one not back, nothing is at the target and the
  result is \<open>ErrManual\<close>.\<close>

theorem install_verified:
  assumes "Install lib key env j fs = (res, fs')"
  shows "(fs' = fs \<and> res \<noteq> Ok ())
     \<or> (\<exists>m data staged old. ul_Ed25519 lib key (rl_Raw (jb_Release j)) (rl_Signature (jb_Release j))
          \<and> ul_Manifest lib (rl_Raw (jb_Release j)) = Some m \<and> manifest_valid m
          \<and> Newer (mf_Version m) (jb_Current j) = Some True
          \<and> rl_Asset (jb_Release j) \<in> set (mf_Assets m)
          \<and> as_OS (rl_Asset (jb_Release j)) = ie_goos env \<and> as_Arch (rl_Asset (jb_Release j)) = ie_goarch env
          \<and> hash_ok lib (rl_Asset (jb_Release j)) data
          \<and> extract_archive (ul_unicode lib) (ie_entries env) data (rl_Asset (jb_Release j)) = Ok staged
          \<and> fmlookup fs (jb_Target j) = Some old \<and> fmlookup fs (previous_path j) = None
          \<and> (res = Ok () \<and> fs' = fmupd (jb_Target j) staged (fmupd (previous_path j) old (fmdrop (jb_Target j) fs))
             \<or> res = Err ErrManual \<and> fs' = fmupd (previous_path j) old (fmdrop (jb_Target j) fs)))"
proof (cases "fs' = fs \<and> res \<noteq> Ok ()")
  case False
  let ?a = "rl_Asset (jb_Release j)"
  from assms False obtain m data copied staged where
    v: "Verify lib (rl_Raw (jb_Release j)) (rl_Signature (jb_Release j)) key = Ok m" and
    n: "Newer (mf_Version m) (jb_Current j) = Some True" "?a \<in> set (mf_Assets m)" "as_OS ?a = ie_goos env" "as_Arch ?a = ie_goarch env" and
    t: "fmlookup fs (jb_Target j) \<noteq> None" "fmlookup fs (previous_path j) = None" and
    h: "hash_ok lib ?a (take (nat (as_Size ?a + 1)) copied)" and
    x: "extract_archive (ul_unicode lib) (ie_entries env) (take (nat (as_Size ?a + 1)) copied) ?a = Ok staged" and
    r: "replace_app (ie_renames env) (jb_Target j) staged (previous_path j) fs = (res, fs')"
    by (auto simp: Install_def Let_def split: if_split_asm option.split_asm outcome.split_asm)
  obtain old where old: "fmlookup fs (jb_Target j) = Some old" using t(1) by blast
  have "res = Ok () \<and> fs' = fmupd (jb_Target j) staged (fmupd (previous_path j) old (fmdrop (jb_Target j) fs))
      \<or> res = Err ErrManual \<and> fs' = fmupd (previous_path j) old (fmdrop (jb_Target j) fs)"
    using r False old rename_back [OF t(2) old]
    by (auto simp: replace_app_def Let_def fs_rename_def split: prod.split_asm if_split_asm)
  with v n h x old t(2) show ?thesis by (intro disjI2) (auto simp: Verify_iff)
qed simp

section \<open>A concrete release\<close>

definition demo_digest :: string where
  "demo_digest = concat (replicate 32 ''0a'')"

definition demo_asset :: "string \<Rightarrow> string \<Rightarrow> string \<Rightarrow> string \<Rightarrow> Asset" where
  "demo_asset product goos arch name = \<lparr>as_Product = product, as_OS = goos, as_Arch = arch, as_Name = name,
     as_Size = 3, as_SHA256 = demo_digest\<rparr>"

definition demo_manifest :: Manifest where
  "demo_manifest = \<lparr>mf_Version = ''v1.2.0'', mf_Assets =
     [demo_asset ''ntwire'' ''linux'' ''amd64'' ''ntwire_1.2.0_linux_amd64.tar.gz'',
      demo_asset ''ntwire'' ''linux'' ''arm64'' ''ntwire_1.2.0_linux_arm64.tar.gz'',
      demo_asset ''ntwire'' ''darwin'' ''amd64'' ''ntwire_1.2.0_darwin_amd64.tar.gz'',
      demo_asset ''ntwire'' ''darwin'' ''arm64'' ''ntwire_1.2.0_darwin_arm64.tar.gz'',
      demo_asset ''ntwire'' ''windows'' ''amd64'' ''ntwire_1.2.0_windows_amd64.zip'',
      demo_asset ''ntwire'' ''windows'' ''arm64'' ''ntwire_1.2.0_windows_arm64.zip'',
      demo_asset ''ntwire-gui'' ''linux'' ''amd64'' ''ntwire-gui_1.2.0_linux_amd64.tar.gz'',
      demo_asset ''ntwire-gui'' ''linux'' ''arm64'' ''ntwire-gui_1.2.0_linux_arm64.tar.gz'',
      demo_asset ''ntwire-gui'' ''darwin'' ''arm64'' ''ntwire-gui_v1.2.0_darwin_arm64.zip'',
      demo_asset ''ntwire-gui'' ''windows'' ''amd64'' ''ntwire-gui_1.2.0_windows_amd64.zip'',
      demo_asset ''ntwire-gui'' ''windows'' ''arm64'' ''ntwire-gui_1.2.0_windows_arm64.zip'']\<rparr>"

definition demo_lib :: updateLib where
  "demo_lib = \<lparr>ul_Ed25519 = (\<lambda>key raw sig. sig = [9]), ul_SHA256 = (\<lambda>b. replicate 32 10),
     ul_Manifest = (\<lambda>raw. if raw = [7] then Some demo_manifest else None), ul_unicode = \<lparr>uni_lower = id, uni_trim = id\<rparr>\<rparr>"

abbreviation demo_linux :: Asset where
  "demo_linux \<equiv> demo_asset ''ntwire'' ''linux'' ''amd64'' ''ntwire_1.2.0_linux_amd64.tar.gz''"

definition demo_release :: Release where
  "demo_release = \<lparr>rl_Manifest = demo_manifest, rl_Asset = demo_linux, rl_Notes = [], rl_URL = ''https://x'',
     rl_Raw = [7], rl_Signature = [9]\<rparr>"

lemma demo_stable: "stableVersion ''v1.2.0''" "stableVersion ''1.1.9''"
  by code_simp+

lemma demo_version: "version ''v1.2.0'' = Some [1, 2, 0]" "version ''1.1.9'' = Some [1, 1, 9]"
proof -
  have "split_on CHR ''.'' (before_plus (trim_prefix ''v1.2.0'' ''v'')) = [''1'', ''2'', ''0'']"
    "split_on CHR ''.'' (before_plus (trim_prefix ''1.1.9'' ''v'')) = [''1'', ''1'', ''9'']" by code_simp+
  moreover have "decimal 0 ''0'' = Some 0" "decimal 0 ''1'' = Some 1" "decimal 0 ''2'' = Some 2" "decimal 0 ''9'' = Some 9"
    by code_simp+
  ultimately show "version ''v1.2.0'' = Some [1, 2, 0]" "version ''1.1.9'' = Some [1, 1, 9]"
    using demo_stable by (simp_all add: version_def)
qed

lemma demo_digest_ok: "\<exists>h. hex_decode demo_digest = Some h \<and> length h = 32"
proof -
  have "hex_decode demo_digest = Some (replicate 32 10)" by code_simp
  then show ?thesis by simp
qed

lemma demo_trim: "trim_prefix ''v1.2.0'' ''v'' = ''1.2.0''"
  by code_simp

lemma demo_asset_names:
  "check_assets ''v1.2.0'' [] (mf_Assets demo_manifest) = Ok (rev (map as_Name (mf_Assets demo_manifest)))"
  unfolding check_assets_Ok using demo_digest_ok
  by (simp add: demo_manifest_def demo_asset_def asset_ok_def AssetName_def demo_version demo_trim maxArchive_def)

lemma demo_complete:
  "check_complete ''v1.2.0'' (rev (map as_Name (mf_Assets demo_manifest))) platforms = Ok ()"
  by (simp add: demo_manifest_def demo_asset_def platforms_def AssetName_def demo_version demo_trim)

lemma demo_verify: "Verify demo_lib [7] [9] (replicate 32 0) = Ok demo_manifest"
  using demo_asset_names demo_complete
  by (simp add: Verify_def demo_lib_def maxMetadata_def demo_version) (simp add: demo_manifest_def demo_version)

lemma demo_valid: "manifest_valid demo_manifest"
  using demo_verify by (simp add: Verify_iff)

definition demo_entry :: "string \<Rightarrow> int \<Rightarrow> bytes \<Rightarrow> archiveEntry" where
  "demo_entry name n data = \<lparr>en_Name = name, en_Size = n, en_Kind = RegularEntry, en_Exec = False, en_Data = data\<rparr>"

definition demo_entries :: "archiveEntry list" where
  "demo_entries = [demo_entry ''README.md'' 1 [5], demo_entry ''ntwire'' 2 [6, 7]]"

abbreviation demo_staging :: "bytes \<Rightarrow> extractState" where
  "demo_staging archive \<equiv> \<lparr>ex_seen = [], ex_files = 0, ex_total = 0, ex_tree = fmupd [''archive''] (FileNode False archive) fmempty\<rparr>"

lemma demo_paths:
  "\<not> unsafe_path ''README.md''" "\<not> unsafe_path ''ntwire''" "trim_suffix ''README.md'' ''/'' = ''README.md''"
  "trim_suffix ''ntwire'' ''/'' = ''ntwire''" "ToLower \<lparr>uni_lower = id, uni_trim = id\<rparr> ''README.md'' = ''readme.md''"
  "ToLower \<lparr>uni_lower = id, uni_trim = id\<rparr> ''ntwire'' = ''ntwire''" "HasPrefix ''README.md'' ''README''"
  "split_on CHR ''/'' ''ntwire'' = [''ntwire'']" "\<not> contains_str ''ntwire'' ''/Contents/MacOS/''"
  by code_simp+

lemmas demo_extract_defs = extract_entry_def write_entry_def demo_entry_def Let_def is_bundle_def binary_name_def archive_root_def
  maxArchive_def wrap64_def demo_asset_def

lemma demo_extract:
  "extract_loop \<lparr>uni_lower = id, uni_trim = id\<rparr> demo_linux False demo_entries (demo_staging b) =
     Ok \<lparr>ex_seen = [''ntwire'', ''readme.md''], ex_files = 2, ex_total = 3,
         ex_tree = fmupd [''ntwire''] (FileNode True [6, 7]) (fmupd [''archive''] (FileNode False b) fmempty)\<rparr>"
  by (simp add: demo_entries_def demo_paths demo_extract_defs)

lemma extraction_confined_witness:
  "\<exists>rest. [''ntwire''] = archive_root demo_linux # rest \<and> ''..'' \<notin> set rest"
proof -
  have "demo_linux \<in> set (mf_Assets demo_manifest)" by (simp add: demo_manifest_def)
  from bspec [OF extraction_confined [OF demo_valid this demo_extract], of "[''ntwire'']"] show ?thesis by auto
qed

definition demo_job :: Job where
  "demo_job = \<lparr>jb_Release = demo_release, jb_Target = ''/opt/ntwire'', jb_Current = ''1.1.9''\<rparr>"

definition demo_install_env :: installEnv where
  "demo_install_env = \<lparr>ie_goos = ''linux'', ie_goarch = ''amd64'', ie_lstat = (False, False), ie_lock = True, ie_archive = Some [1, 2, 3],
     ie_tempdir = True, ie_copied = Some [1, 2, 3], ie_entries = (\<lambda>b. Some demo_entries), ie_lstatPrevious = True, ie_renames = (True, True, True)\<rparr>"

definition demo_old :: tree where
  "demo_old = fmupd [''ntwire''] (FileNode True [1]) fmempty"

lemma demo_digest_hash: "hex_encode (replicate 32 10) = demo_digest"
  by code_simp

lemma demo_job_paths:
  "previous_path demo_job = ''/opt/ntwire.previous-1.1.9''" "path_Base ''/opt/ntwire'' = ''ntwire''" "HasPrefix ''/opt/ntwire'' ''/''"
  "\<not> HasSuffix ''ntwire_1.2.0_linux_amd64.tar.gz'' ''.zip''"
  by (simp_all add: previous_path_def demo_job_def) code_simp+

lemma demo_staged:
  "extract_archive (ul_unicode demo_lib) (\<lambda>b. Some demo_entries) b demo_linux =
     Ok (fmupd [''ntwire''] (FileNode True [6, 7]) fmempty)"
  using demo_extract [of b] demo_job_paths(4)
  by (simp add: extract_archive_def demo_lib_def is_bundle_def archive_root_def binary_name_def is_file_def Let_def demo_asset_def)
    (auto intro!: fmap_ext)

lemma demo_install:
  "Install demo_lib (replicate 32 0) demo_install_env demo_job (fmupd ''/opt/ntwire'' demo_old fmempty) =
     (Ok (), fmupd ''/opt/ntwire'' (fmupd [''ntwire''] (FileNode True [6, 7]) fmempty)
      (fmupd ''/opt/ntwire.previous-1.1.9'' demo_old (fmdrop ''/opt/ntwire'' (fmupd ''/opt/ntwire'' demo_old fmempty))))"
proof -
  have "Newer (mf_Version demo_manifest) ''1.1.9'' = Some True" "CanInstall ''1.1.9''"
    by (simp_all add: Newer_def CanInstall_def demo_manifest_def demo_version)
  moreover have "hash_ok demo_lib demo_linux [1, 2, 3]"
    by (simp add: hash_ok_def demo_lib_def demo_digest_hash demo_asset_def)
  moreover have "demo_linux \<in> set (mf_Assets demo_manifest)" by (simp add: demo_manifest_def)
  ultimately show ?thesis
    using demo_verify demo_job_paths demo_staged [of "[1, 2, 3]"]
    by (simp add: Install_def Let_def demo_job_def demo_release_def demo_install_env_def expectedTarget_def is_bundle_def binary_name_def
        replace_app_def fs_rename_def) (simp add: demo_asset_def replace_app_def fs_rename_def)
qed

lemma install_verified_witness:
  "\<exists>m staged. manifest_valid m \<and> Newer (mf_Version m) ''1.1.9'' = Some True
     \<and> extract_archive (ul_unicode demo_lib) (\<lambda>b. Some demo_entries) [1, 2, 3] demo_linux = Ok staged
     \<and> fmlookup (snd (Install demo_lib (replicate 32 0) demo_install_env demo_job (fmupd ''/opt/ntwire'' demo_old fmempty))) ''/opt/ntwire'' = Some staged"
  using install_verified [OF demo_install] demo_install demo_staged [of "[1, 2, 3]"]
  by (auto simp: demo_job_def demo_release_def demo_install_env_def)

lemma download_verified_witness:
  "fst (Download demo_lib (replicate 32 0) (\<lambda>u. Some ([''https''], 200, [1, 2, 3])) (\<lambda>u. Some ''https'')
      \<lparr>fo_mkdir = True, fo_create = True, fo_write = True, fo_sync = True, fo_rename = True\<rparr> demo_release ''/c'' fmempty)
     = Ok ''/c/ntwire_1.2.0_linux_amd64.tar.gz'' \<and> hash_ok demo_lib demo_linux [1, 2, 3]"
proof -
  let ?d = "Download demo_lib (replicate 32 0) (\<lambda>u. Some ([''https''], 200, [1, 2, 3])) (\<lambda>u. Some ''https'')
      \<lparr>fo_mkdir = True, fo_create = True, fo_write = True, fo_sync = True, fo_rename = True\<rparr> demo_release ''/c'' fmempty"
  have "rl_Asset demo_release \<in> set (mf_Assets demo_manifest)" by (simp add: demo_release_def demo_manifest_def)
  then have d: "?d = (Ok ''/c/ntwire_1.2.0_linux_amd64.tar.gz'', fmupd ''/c/ntwire_1.2.0_linux_amd64.tar.gz'' [1, 2, 3] fmempty)"
    using demo_verify demo_digest_hash
    by (simp add: Download_def http_do_def Let_def demo_release_def) (simp add: demo_asset_def demo_lib_def Let_def)
  from download_verified [OF d] have "\<exists>data. fmupd ''/c/ntwire_1.2.0_linux_amd64.tar.gz'' [1, 2, 3] fmempty
      = fmupd ''/c/ntwire_1.2.0_linux_amd64.tar.gz'' data fmempty \<and> hash_ok demo_lib demo_linux data"
    by (auto simp: demo_release_def demo_asset_def)
  then obtain data where e: "fmupd ''/c/ntwire_1.2.0_linux_amd64.tar.gz'' [1, 2, 3] fmempty
      = fmupd ''/c/ntwire_1.2.0_linux_amd64.tar.gz'' data fmempty" "hash_ok demo_lib demo_linux data" by blast
  from arg_cong [OF e(1), of "\<lambda>m. fmlookup m ''/c/ntwire_1.2.0_linux_amd64.tar.gz''"] have "data = [1, 2, 3]" by simp
  with d e(2) show ?thesis by simp
qed

text \<open>The limit on the expanded size can be passed. The counter is a signed 64-bit sum, so an entry of the largest size
  makes it negative; an archive whose sizes sum to more than the limit of 512 MiB, with no negative size, is then accepted.\<close>

theorem expanded_size_wraps:
  "\<exists>es st. extract_loop \<lparr>uni_lower = id, uni_trim = id\<rparr> demo_linux False es (demo_staging []) = Ok st
     \<and> (\<forall>e \<in> set es. 0 \<le> en_Size e \<and> en_Size e < 2 ^ 63) \<and> maxArchive < sum_list (map en_Size es)"
proof -
  let ?es = "[demo_entry ''ntwire'' 2 [6, 7], demo_entry ''README.md'' (2 ^ 63 - 1) []]"
  have "\<exists>st. extract_loop \<lparr>uni_lower = id, uni_trim = id\<rparr> demo_linux False ?es (demo_staging []) = Ok st"
    by (simp add: demo_paths demo_extract_defs)
  then show ?thesis by (intro exI [of _ ?es]) (simp add: demo_entry_def maxArchive_def)
qed

section \<open>Digests\<close>

lemma hex_digit_lower: "n < 16 \<Longrightarrow> of_char (hex_digit n) < (65 :: nat) \<or> 97 \<le> (of_char (hex_digit n) :: nat)"
  by (auto simp: hex_digit_def)

lemma hex_encode_lower: "c \<in> set (hex_encode bs) \<Longrightarrow> of_char c < (65 :: nat) \<or> 97 \<le> (of_char c :: nat)"
proof -
  assume "c \<in> set (hex_encode bs)"
  then obtain b :: byte where "c = hex_digit (unat b div 16) \<or> c = hex_digit (unat b mod 16)"
    by (auto simp: hex_encode_def)
  moreover have "unat b div 16 < 16"
  proof -
    have "unat b < 2 ^ LENGTH(8)" by (rule unsigned_less)
    then show ?thesis by simp
  qed
  ultimately show ?thesis using hex_digit_lower [of "unat b div 16"] hex_digit_lower [of "unat b mod 16"] by auto
qed

text \<open>A manifest whose digest is written with upper-case digits is valid, since \<open>hex.DecodeString\<close> takes either case, but
  nothing it lists can be downloaded or installed, since digests are compared as lower-case text.\<close>

lemma upper_digest_never_matches:
  "\<exists>c \<in> set (as_SHA256 a). 65 \<le> (of_char c :: nat) \<and> (of_char c :: nat) \<le> 70 \<Longrightarrow> \<not> hash_ok lib a data"
proof
  assume "\<exists>c \<in> set (as_SHA256 a). 65 \<le> (of_char c :: nat) \<and> (of_char c :: nat) \<le> 70" "hash_ok lib a data"
  then obtain c where "c \<in> set (hex_encode (ul_SHA256 lib data))" "65 \<le> (of_char c :: nat)" "(of_char c :: nat) \<le> 70"
    by (auto simp: hash_ok_def)
  with hex_encode_lower [OF this(1)] show False by simp
qed

lemma upper_digest_accepted: "hex_decode ''0A'' = hex_decode ''0a''"
  by code_simp

section \<open>Quoting for the elevation script\<close>

text \<open>A word as a POSIX shell reads it from single- and double-quoted parts; inside double quotes the characters with a
  special meaning are not covered.\<close>

datatype quoting = Bare | Single | Double

fun shell_word :: "quoting \<Rightarrow> string \<Rightarrow> string option" where
  "shell_word Bare [] = Some []"
| "shell_word q [] = None"
| "shell_word Bare (c # s) =
     (if c = CHR 0x27 then shell_word Single s else if c = CHR 0x22 then shell_word Double s else None)"
| "shell_word Single (c # s) = (if c = CHR 0x27 then shell_word Bare s else map_option ((#) c) (shell_word Single s))"
| "shell_word Double (c # s) =
     (if c = CHR 0x22 then shell_word Bare s
      else if c = CHR ''$'' \<or> c = CHR 0x60 \<or> c = CHR 0x5C then None else map_option ((#) c) (shell_word Double s))"

text \<open>C33: the shell reads a quoted argument back as the argument, whatever characters it has.\<close>

theorem shell_reads_quoted: "shell_word Bare (shellQuote s) = Some s"
proof -
  have "shell_word Single (concat (map (\<lambda>c. if c = CHR 0x27 then [CHR 0x27, CHR 0x22, CHR 0x27, CHR 0x22, CHR 0x27] else [c]) s) @ [CHR 0x27])
      = Some s"
    by (induction s) simp_all
  then show ?thesis by (simp add: shellQuote_def)
qed

end
