(* ===== verification/Ws_Carrier.thy ===== *)
theory Ws_Carrier
  imports Ntwire_Prelude Netip
begin

text \<open>
  The WebSocket carriers of WireGuard datagrams (\<open>Bind\<close> and \<open>Hybrid\<close> of \<^verbatim>\<open>src/pkg/wstransport/bind.go\<close>). A
  bind keeps one current carrier per peer identifier. Readers, writers and redials are goroutines: every
  section the code runs under its locks is one step, and any order of steps may happen. Carriers are objects,
  compared by identity; a failing network is a step that may happen at any time. Back-off and heartbeat only decide when
  steps happen and are left out.
\<close>

section \<open>State\<close>

definition peerQueueDepth :: nat where "peerQueueDepth = 256"
definition overflowFailureThreshold :: "32 word" where "overflowFailureThreshold = 64"

definition ValidDatagram :: "bytes \<Rightarrow> bool" where
  "ValidDatagram b \<longleftrightarrow> length b \<ge> 16 \<and> length b \<le> 65535"

definition Accept :: "bytes \<Rightarrow> bytes option" where
  "Accept b = (if \<not> ValidDatagram b then None else Some b)"

text \<open>\<open>wp_open\<close>: this side has not decided to close the WebSocket (where a goroutine does it, it
  may take a while); \<open>wp_done\<close>: the reader has ended; \<open>wp_failed\<close>: the
  failure was reported; \<open>wp_writing\<close>: the writer runs; \<open>wp_reports\<close>: a report of persistent overflow is on its way.\<close>

record wsPeer =
  wp_id :: string
  wp_out :: "bytes list list"
  wp_overflow :: "32 word"
  wp_failed :: bool
  wp_writing :: bool
  wp_open :: bool
  wp_done :: bool
  wp_reports :: nat

datatype wsEvent = PeerConnected string nat | PeerDisconnected string nat | WriteFailure string nat

text \<open>A redial that has not run yet, or that runs for a generation of the bind.\<close>

datatype redial = RedialPending | RedialRunning nat

text \<open>\<open>wb_gen\<close> stands for the channel \<open>done\<close> of the last \<open>Open\<close>, which is closed unless the bind is open. \<open>wb_events\<close> are the
  lifecycle callbacks in order, \<open>wb_store\<close> all carriers ever created.\<close>

record wsBind =
  wb_client :: bool
  wb_open :: bool
  wb_gen :: nat
  wb_packets :: "(bytes \<times> string) list"
  wb_peers :: "(string, nat) fmap"
  wb_noRedial :: bool
  wb_redials :: "redial list"
  wb_events :: "wsEvent list"
  wb_dropped :: nat
  wb_store :: "wsPeer list"

definition newPeer :: "string \<Rightarrow> wsPeer" where
  "newPeer i = \<lparr>wp_id = i, wp_out = [], wp_overflow = 0, wp_failed = False, wp_writing = True, wp_open = True, wp_done = False, wp_reports = 0\<rparr>"

definition NewBind :: "bool \<Rightarrow> wsBind" where
  "NewBind client = \<lparr>wb_client = client, wb_open = False, wb_gen = 0, wb_packets = [], wb_peers = fmempty, wb_noRedial = False,
     wb_redials = [], wb_events = [], wb_dropped = 0, wb_store = []\<rparr>"

definition upd_peer :: "nat \<Rightarrow> (wsPeer \<Rightarrow> wsPeer) \<Rightarrow> wsBind \<Rightarrow> wsBind" where
  "upd_peer p f b = b\<lparr>wb_store := (wb_store b)[p := f (wb_store b ! p)]\<rparr>"

definition close_ws :: "nat \<Rightarrow> wsBind \<Rightarrow> wsBind" where
  "close_ws p = upd_peer p (\<lambda>x. x\<lparr>wp_open := False\<rparr>)"

definition fire :: "wsEvent \<Rightarrow> wsBind \<Rightarrow> wsBind" where
  "fire e b = b\<lparr>wb_events := wb_events b @ [e]\<rparr>"

text \<open>A new carrier becomes the current one of its identifier, and its reader starts.\<close>

definition attach :: "string \<Rightarrow> wsBind \<Rightarrow> wsBind" where
  "attach i b = (let p = length (wb_store b) in
     fire (PeerConnected i p) (b\<lparr>wb_store := wb_store b @ [newPeer i], wb_peers := fmupd i p (wb_peers b)\<rparr>))"

section \<open>Operations\<close>

text \<open>\<open>Open\<close>, with the outcome of the client's dial: success, and the bind.\<close>

definition ws_Open :: "bool \<Rightarrow> wsBind \<Rightarrow> bool \<times> wsBind" where
  "ws_Open dialOk b =
     (if wb_open b then (False, b)
      else
        let b1 = b\<lparr>wb_open := True, wb_gen := Suc (wb_gen b), wb_packets := [], wb_peers := fmempty\<rparr> in
        if wb_client b then (if \<not> dialOk then (False, b1\<lparr>wb_open := False\<rparr>) else (True, attach ''remote'' b1))
        else (True, b1))"

text \<open>\<open>ServeHTTP\<close> from its second check on.\<close>

definition ws_ServeHTTP :: "string \<Rightarrow> wsBind \<Rightarrow> bool \<times> wsBind" where
  "ws_ServeHTTP i b =
     (if \<not> wb_open b then (False, b)
      else (True, attach i (case fmlookup (wb_peers b) i of None \<Rightarrow> b | Some old \<Rightarrow> close_ws old b)))"

definition ws_remove :: "nat \<Rightarrow> wsBind \<Rightarrow> bool \<times> wsBind" where
  "ws_remove p b =
     (if fmlookup (wb_peers b) (wp_id (wb_store b ! p)) = Some p
      then (True, b\<lparr>wb_peers := fmdrop (wp_id (wb_store b ! p)) (wb_peers b)\<rparr>) else (False, b))"

text \<open>The deferred end of \<open>read\<close>.\<close>

definition read_end :: "nat \<Rightarrow> wsBind \<Rightarrow> wsBind" where
  "read_end p b = (case ws_remove p b of (removed, b1) \<Rightarrow>
     let b2 = (if removed then fire (PeerDisconnected (wp_id (wb_store b ! p)) p) b1 else b1);
         b3 = upd_peer p (\<lambda>x. x\<lparr>wp_done := True\<rparr>) b2
     in if removed \<and> wb_client b \<and> \<not> wb_noRedial b then b3\<lparr>wb_redials := RedialPending # wb_redials b3\<rparr> else b3)"

text \<open>One message of \<open>read\<close>: true if the reader goes on. It blocks while the channel of \<open>cap\<close> packets is full;
  \<open>preferDone\<close> resolves the choice of \<open>select\<close> when the bind is closed and there is room. The messages of a carrier that
  this side is closing may still arrive; a reader that waits for room since before a restart ends, or loses its packet to the
  abandoned channel, which are steps of every reader anyway.\<close>

definition read_frame :: "bool \<Rightarrow> nat \<Rightarrow> bool \<Rightarrow> bytes \<Rightarrow> wsBind \<Rightarrow> bool \<times> wsBind" where
  "read_frame preferDone p binary data b =
     (if \<not> binary then (True, b)
      else case Accept data of
        None \<Rightarrow> (True, b)
      | Some d \<Rightarrow> if \<not> wb_open b \<and> preferDone then (False, b)
                  else (True, b\<lparr>wb_packets := wb_packets b @ [(d, wp_id (wb_store b ! p))]\<rparr>))"

text \<open>\<open>receive\<close> with room for \<open>n\<close> packets, when there is one.\<close>

definition ws_receive :: "nat \<Rightarrow> wsBind \<Rightarrow> (bytes \<times> string) list \<times> wsBind" where
  "ws_receive n b = (take n (wb_packets b), b\<lparr>wb_packets := drop n (wb_packets b)\<rparr>)"

definition reportWriteFailure :: "nat \<Rightarrow> wsBind \<Rightarrow> wsBind" where
  "reportWriteFailure p b =
     (if wp_failed (wb_store b ! p) then b
      else
        let b1 = upd_peer p (\<lambda>x. x\<lparr>wp_failed := True\<rparr>) b; i = wp_id (wb_store b ! p) in
        if fmlookup (wb_peers b1) i \<noteq> Some p then b1 else fire (WriteFailure i p) b1)"

text \<open>\<open>writeLoop\<close>: a batch is written, or the write fails.\<close>

definition write_batch :: "bool \<Rightarrow> nat \<Rightarrow> wsBind \<Rightarrow> wsBind" where
  "write_batch ok p b =
     (let b1 = upd_peer p (\<lambda>x. x\<lparr>wp_out := tl (wp_out x)\<rparr>) b in
      if ok then b1
      else upd_peer p (\<lambda>x. x\<lparr>wp_writing := False\<rparr>) (close_ws p (reportWriteFailure p b1)))"

text \<open>\<open>Send\<close>: without an error, with one, or with a batch dropped. \<open>preferDone\<close> resolves the choice of \<open>select\<close> when the carrier
  has ended and its queue has room.\<close>

datatype sendResult = Sent | NotConnected | DroppedBatch

definition ws_Send :: "bool \<Rightarrow> bytes list \<Rightarrow> string \<Rightarrow> wsBind \<Rightarrow> sendResult \<times> wsBind" where
  "ws_Send preferDone bufs i b =
     (case fmlookup (wb_peers b) i of
        None \<Rightarrow> (NotConnected, b)
      | Some p \<Rightarrow>
          let batch = filter ValidDatagram bufs; x = wb_store b ! p; room = (length (wp_out x) < peerQueueDepth) in
          if batch = [] then (Sent, b)
          else if wp_done x \<and> (preferDone \<or> \<not> room) then (NotConnected, b)
          else if room then (Sent, upd_peer p (\<lambda>x. x\<lparr>wp_out := wp_out x @ [batch], wp_overflow := 0\<rparr>) b)
          else
            let n = wp_overflow x + 1 in
            (DroppedBatch, upd_peer p (\<lambda>x. x\<lparr>wp_overflow := n,
                wp_reports := (if n = overflowFailureThreshold then Suc (wp_reports x) else wp_reports x)\<rparr>)
              (b\<lparr>wb_dropped := Suc (wb_dropped b)\<rparr>)))"

text \<open>The goroutine that \<open>Send\<close> starts at the threshold.\<close>

definition overflow_report :: "nat \<Rightarrow> wsBind \<Rightarrow> wsBind" where
  "overflow_report p b = close_ws p (reportWriteFailure p (upd_peer p (\<lambda>x. x\<lparr>wp_reports := wp_reports x - 1\<rparr>) b))"

text \<open>\<open>redial\<close>: it reads the channel when it starts; an attempt dials, and commits if the bind is still the one it dials for.\<close>

definition redial_start :: "nat \<Rightarrow> wsBind \<Rightarrow> wsBind" where
  "redial_start k b = b\<lparr>wb_redials := (wb_redials b)[k := RedialRunning (wb_gen b)]\<rparr>"

definition drop_redial :: "nat \<Rightarrow> wsBind \<Rightarrow> wsBind" where
  "drop_redial k b = b\<lparr>wb_redials := take k (wb_redials b) @ drop (Suc k) (wb_redials b)\<rparr>"

definition redial_commit :: "nat \<Rightarrow> nat \<Rightarrow> wsBind \<Rightarrow> wsBind" where
  "redial_commit k gen b =
     (if \<not> wb_open b \<or> wb_gen b \<noteq> gen then drop_redial k b else attach ''remote'' (drop_redial k b))"

definition ws_CloseSession :: "string \<Rightarrow> wsBind \<Rightarrow> wsBind" where
  "ws_CloseSession i b = (case fmlookup (wb_peers b) i of
       None \<Rightarrow> b
     | Some p \<Rightarrow> close_ws p (b\<lparr>wb_peers := fmdrop i (wb_peers b)\<rparr>))"

text \<open>\<open>Close\<close>: every current carrier is closed; the order does not matter.\<close>

definition close_current :: "wsBind \<Rightarrow> wsBind" where
  "close_current b = b\<lparr>wb_store := map (\<lambda>(p, x). if fmlookup (wb_peers b) (wp_id x) = Some p then x\<lparr>wp_open := False\<rparr> else x)
     (List.enumerate 0 (wb_store b))\<rparr>"

definition ws_Close :: "wsBind \<Rightarrow> wsBind" where
  "ws_Close b = (if \<not> wb_open b then b else (close_current b)\<lparr>wb_open := False, wb_peers := fmempty\<rparr>)"

definition DisableRedial :: "wsBind \<Rightarrow> wsBind" where
  "DisableRedial b = b\<lparr>wb_noRedial := True\<rparr>"

section \<open>Steps\<close>

datatype wsStep =
    DoOpen bool
  | DoServe string
  | DoReadEnd nat
  | DoReadFrame bool nat bool bytes
  | DoReceive nat
  | DoWrite bool nat
  | DoSend bool "bytes list" string
  | DoReport nat
  | DoRedialStart nat
  | DoRedialStop nat
  | DoRedialDialed nat
  | DoCloseSession string
  | DoClose
  | DoDisableRedial

text \<open>The reader of a carrier runs until it has ended. Only a server accepts and revokes sessions,
  and only a client dials.\<close>

definition reader_live :: "wsBind \<Rightarrow> nat \<Rightarrow> bool" where
  "reader_live b p \<longleftrightarrow> p < length (wb_store b) \<and> \<not> wp_done (wb_store b ! p)"

inductive ws_step :: "nat \<Rightarrow> wsBind \<Rightarrow> wsStep \<Rightarrow> wsBind \<Rightarrow> bool" for cap :: nat where
  ws_open: "ws_step cap b (DoOpen ok) (snd (ws_Open ok b))"
| ws_serve: "\<not> wb_client b \<Longrightarrow> ws_step cap b (DoServe i) (snd (ws_ServeHTTP i b))"
| ws_read_end: "reader_live b p \<Longrightarrow> ws_step cap b (DoReadEnd p) (read_end p b)"
| ws_read_frame: "reader_live b p \<Longrightarrow> length (wb_packets b) < cap \<or> \<not> wb_open b \<and> pd
    \<Longrightarrow> ws_step cap b (DoReadFrame pd p binary data)
      (case read_frame pd p binary data b of (goes, b') \<Rightarrow> if goes then b' else read_end p b')"
| ws_receive: "wb_packets b \<noteq> [] \<Longrightarrow> n > 0 \<Longrightarrow> ws_step cap b (DoReceive n) (snd (ws_receive n b))"
| ws_write: "p < length (wb_store b) \<Longrightarrow> wp_writing (wb_store b ! p) \<Longrightarrow> wp_out (wb_store b ! p) \<noteq> [] \<Longrightarrow> ws_step cap b (DoWrite ok p) (write_batch ok p b)"
| ws_send: "ws_step cap b (DoSend pd bufs i) (snd (ws_Send pd bufs i b))"
| ws_report: "p < length (wb_store b) \<Longrightarrow> wp_reports (wb_store b ! p) > 0 \<Longrightarrow> ws_step cap b (DoReport p) (overflow_report p b)"
| ws_redial_start: "k < length (wb_redials b) \<Longrightarrow> wb_redials b ! k = RedialPending
    \<Longrightarrow> ws_step cap b (DoRedialStart k) (redial_start k b)"
| ws_redial_stop: "k < length (wb_redials b) \<Longrightarrow> wb_redials b ! k = RedialRunning g \<Longrightarrow> \<not> wb_open b \<or> wb_gen b \<noteq> g
    \<Longrightarrow> ws_step cap b (DoRedialStop k) (drop_redial k b)"
| ws_redial_dialed: "wb_client b \<Longrightarrow> k < length (wb_redials b) \<Longrightarrow> wb_redials b ! k = RedialRunning g
    \<Longrightarrow> ws_step cap b (DoRedialDialed k) (redial_commit k g b)"
| ws_close_session: "\<not> wb_client b \<Longrightarrow> ws_step cap b (DoCloseSession i) (ws_CloseSession i b)"
| ws_close: "ws_step cap b DoClose (ws_Close b)"
| ws_disable: "ws_step cap b DoDisableRedial (DisableRedial b)"

inductive_cases ws_stepE: "ws_step cap b l b'"

section \<open>Both carriers\<close>

datatype carrierEndpoint = WsEndpoint string | UdpEndpoint string

text \<open>\<open>Hybrid\<close>: an endpoint of the WebSocket goes there, any other to UDP, whose operations are arguments.\<close>

definition hybrid_Send ::
  "bool \<Rightarrow> (bytes list \<Rightarrow> string \<Rightarrow> 'u \<Rightarrow> sendResult \<times> 'u) \<Rightarrow> bytes list \<Rightarrow> carrierEndpoint \<Rightarrow> wsBind \<times> 'u \<Rightarrow> sendResult \<times> wsBind \<times> 'u" where
  "hybrid_Send pd udp bufs ep s = (case ep of
       WsEndpoint i \<Rightarrow> (case ws_Send pd bufs i (fst s) of (r, b) \<Rightarrow> (r, b, snd s))
     | UdpEndpoint a \<Rightarrow> (case udp bufs a (snd s) of (r, u) \<Rightarrow> (r, fst s, u)))"

definition ws_ParseEndpoint :: "wsBind \<Rightarrow> carrierEndpoint option" where
  "ws_ParseEndpoint b = (if wb_client b \<and> fmlookup (wb_peers b) ''remote'' = None then None else Some (WsEndpoint ''remote''))"

definition hybrid_ParseEndpoint :: "(string \<Rightarrow> string option) \<Rightarrow> string \<Rightarrow> wsBind \<Rightarrow> carrierEndpoint option" where
  "hybrid_ParseEndpoint udp s b = (if s = ''ws:relay'' then ws_ParseEndpoint b else map_option UdpEndpoint (udp s))"

definition hybrid_Open :: "(nat \<times> 'u) option \<Rightarrow> ('u \<Rightarrow> 'u) \<Rightarrow> bool \<Rightarrow> 'u \<Rightarrow> wsBind \<Rightarrow> nat option \<times> 'u \<times> wsBind" where
  "hybrid_Open udpOpen udpClose dialOk u b = (case udpOpen of
       None \<Rightarrow> (None, u, b)
     | Some (port, u1) \<Rightarrow> (case ws_Open dialOk b of
           (True, b1) \<Rightarrow> (Some port, u1, b1)
         | (False, b1) \<Rightarrow> (None, udpClose u1, b1)))"

definition hybrid_Close :: "('u \<Rightarrow> 'u) \<Rightarrow> wsBind \<times> 'u \<Rightarrow> wsBind \<times> 'u" where
  "hybrid_Close udpClose s = (ws_Close (fst s), udpClose (snd s))"

section \<open>What is promised\<close>

text \<open>The carrier an observer of the callbacks takes for the current one of an identifier.\<close>

fun observe :: "wsEvent \<Rightarrow> (string \<Rightarrow> nat option) \<Rightarrow> string \<Rightarrow> nat option" where
  "observe (PeerConnected i p) m = m(i \<mapsto> p)"
| "observe (PeerDisconnected i p) m = m(i := None)"
| "observe (WriteFailure i p) m = m"

definition observed :: "wsEvent list \<Rightarrow> string \<Rightarrow> nat option" where
  "observed es = fold observe es (\<lambda>_. None)"

text \<open>An event is in order after \<open>es\<close>: a carrier is announced once; only the current carrier is reported as lost or as failing,
  and as failing only once.\<close>

fun in_order :: "wsEvent list \<Rightarrow> wsEvent \<Rightarrow> bool" where
  "in_order es (PeerConnected i p) \<longleftrightarrow> (\<forall>j. PeerConnected j p \<notin> set es)"
| "in_order es (PeerDisconnected i p) \<longleftrightarrow> observed es i = Some p"
| "in_order es (WriteFailure i p) \<longleftrightarrow> observed es i = Some p \<and> WriteFailure i p \<notin> set es"

definition events_ordered :: "wsEvent list \<Rightarrow> bool" where
  "events_ordered es \<longleftrightarrow> (\<forall>k < length es. in_order (take k es) (es ! k))"

lemma observed_snoc [simp]: "observed (es @ [e]) = observe e (observed es)"
  by (simp add: observed_def)

lemma events_ordered_Nil [simp]: "events_ordered []"
  by (simp add: events_ordered_def)

lemma events_ordered_snoc [simp]: "events_ordered (es @ [e]) \<longleftrightarrow> events_ordered es \<and> in_order es e"
  by (auto simp: events_ordered_def less_Suc_eq nth_append)

text \<open>A carrier: its queue is bounded and holds datagrams only.\<close>

definition queue_ok :: "wsPeer \<Rightarrow> bool" where
  "queue_ok x \<longleftrightarrow> length (wp_out x) \<le> peerQueueDepth \<and> (\<forall>batch \<in> set (wp_out x). batch \<noteq> [] \<and> list_all ValidDatagram batch)"

definition peers_ok :: "wsBind \<Rightarrow> bool" where
  "peers_ok b \<longleftrightarrow> (\<forall>i p. fmlookup (wb_peers b) i = Some p \<longrightarrow> reader_live b p \<and> wp_id (wb_store b ! p) = i \<and> observed (wb_events b) i = Some p)"

definition announced_ok :: "wsBind \<Rightarrow> bool" where
  "announced_ok b \<longleftrightarrow> (\<forall>i p. PeerConnected i p \<in> set (wb_events b) \<longrightarrow> p < length (wb_store b)) \<and>
     (\<forall>i p. WriteFailure i p \<in> set (wb_events b) \<longrightarrow> p < length (wb_store b) \<and> wp_failed (wb_store b ! p))"

definition packets_ok :: "nat \<Rightarrow> wsBind \<Rightarrow> bool" where
  "packets_ok cap b \<longleftrightarrow> length (wb_packets b) \<le> cap \<and> list_all (\<lambda>(d, i). ValidDatagram d) (wb_packets b)"

text \<open>A server: a carrier that is open and read is the current one.\<close>

definition no_stray :: "wsBind \<Rightarrow> bool" where
  "no_stray b \<longleftrightarrow> (\<forall>p. reader_live b p \<longrightarrow> wp_open (wb_store b ! p) \<longrightarrow> fmlookup (wb_peers b) (wp_id (wb_store b ! p)) = Some p)"

text \<open>A client: while it is open and lacks its carrier, a redial for this opening is under way.\<close>

definition redial_due :: "wsBind \<Rightarrow> bool" where
  "redial_due b \<longleftrightarrow> RedialPending \<in> set (wb_redials b) \<or> RedialRunning (wb_gen b) \<in> set (wb_redials b)"

definition replaced_soon :: "wsBind \<Rightarrow> bool" where
  "replaced_soon b \<longleftrightarrow> (wb_open b \<longrightarrow> \<not> wb_noRedial b \<longrightarrow> fmlookup (wb_peers b) ''remote'' \<noteq> None \<or> redial_due b)"

definition ws_ok :: "nat \<Rightarrow> bool \<Rightarrow> wsBind \<Rightarrow> bool" where
  "ws_ok cap client b \<longleftrightarrow> wb_client b = client \<and> (wb_open b \<or> wb_peers b = fmempty) \<and> peers_ok b \<and> announced_ok b \<and>
     events_ordered (wb_events b) \<and> packets_ok cap b \<and> list_all queue_ok (wb_store b) \<and>
     (if client then replaced_soon b else no_stray b)"

lemmas ws_ok_defs = ws_ok_def peers_ok_def announced_ok_def packets_ok_def no_stray_def reader_live_def replaced_soon_def redial_due_def

section \<open>Preservation\<close>

lemma upd_peer_simps [simp]:
  "wb_client (upd_peer p f b) = wb_client b" "wb_open (upd_peer p f b) = wb_open b" "wb_gen (upd_peer p f b) = wb_gen b"
  "wb_packets (upd_peer p f b) = wb_packets b" "wb_peers (upd_peer p f b) = wb_peers b" "wb_noRedial (upd_peer p f b) = wb_noRedial b"
  "wb_redials (upd_peer p f b) = wb_redials b" "wb_events (upd_peer p f b) = wb_events b"
  "wb_store (upd_peer p f b) = (wb_store b)[p := f (wb_store b ! p)]"
  by (simp_all add: upd_peer_def)

lemma fire_simps [simp]:
  "wb_client (fire e b) = wb_client b" "wb_open (fire e b) = wb_open b" "wb_gen (fire e b) = wb_gen b"
  "wb_packets (fire e b) = wb_packets b" "wb_peers (fire e b) = wb_peers b" "wb_noRedial (fire e b) = wb_noRedial b"
  "wb_redials (fire e b) = wb_redials b" "wb_events (fire e b) = wb_events b @ [e]" "wb_store (fire e b) = wb_store b"
  by (simp_all add: fire_def)

lemma newPeer_simps [simp]:
  "wp_id (newPeer i) = i" "\<not> wp_done (newPeer i)" "wp_open (newPeer i)" "queue_ok (newPeer i)"
  by (simp_all add: newPeer_def queue_ok_def)

lemma list_all_update: "list_all P xs \<Longrightarrow> P x \<Longrightarrow> list_all P (xs[p := x])"
  by (auto simp: list_all_iff dest: set_update_subset_insert [THEN subsetD])

text \<open>A change of one carrier that keeps its identity and opens nothing.\<close>

definition harmless :: "(wsPeer \<Rightarrow> wsPeer) \<Rightarrow> wsPeer \<Rightarrow> bool" where
  "harmless f x \<longleftrightarrow> wp_id (f x) = wp_id x \<and> wp_done (f x) = wp_done x \<and> (wp_failed x \<longrightarrow> wp_failed (f x)) \<and>
     (wp_open (f x) \<longrightarrow> wp_open x) \<and> (queue_ok x \<longrightarrow> queue_ok (f x))"

lemma ws_ok_upd:
  assumes "ws_ok cap client b" "p < length (wb_store b)" "harmless f (wb_store b ! p)"
  shows "ws_ok cap client (upd_peer p f b)"
proof -
  have "queue_ok (f (wb_store b ! p))"
    using assms by (auto simp: ws_ok_def harmless_def list_all_length)
  then have "list_all queue_ok (wb_store (upd_peer p f b))"
    using assms(1) by (simp add: ws_ok_def list_all_update)
  then show ?thesis
    using assms by (auto simp: ws_ok_defs harmless_def nth_list_update)
qed

lemma ws_ok_close_ws: "ws_ok cap client b \<Longrightarrow> p < length (wb_store b) \<Longrightarrow> ws_ok cap client (close_ws p b)"
  unfolding close_ws_def by (erule ws_ok_upd) (auto simp: harmless_def queue_ok_def)

lemma ws_ok_current: "ws_ok cap client b \<Longrightarrow> fmlookup (wb_peers b) i = Some p \<Longrightarrow> reader_live b p \<and> wp_id (wb_store b ! p) = i"
  by (simp add: ws_ok_def peers_ok_def)

lemma reader_live_less: "reader_live b p \<Longrightarrow> p < length (wb_store b)"
  by (simp add: reader_live_def)

lemma attach_simps [simp]:
  "wb_client (attach i b) = wb_client b" "wb_open (attach i b) = wb_open b" "wb_packets (attach i b) = wb_packets b"
  "wb_peers (attach i b) = fmupd i (length (wb_store b)) (wb_peers b)"
  "wb_events (attach i b) = wb_events b @ [PeerConnected i (length (wb_store b))]" "wb_store (attach i b) = wb_store b @ [newPeer i]"
  "wb_noRedial (attach i b) = wb_noRedial b" "wb_redials (attach i b) = wb_redials b" "wb_gen (attach i b) = wb_gen b"
  by (simp_all add: attach_def Let_def)

lemma reader_live_attach: "reader_live (attach i b) p \<longleftrightarrow> reader_live b p \<or> p = length (wb_store b)"
  by (auto simp: reader_live_def nth_append less_Suc_eq)

lemma peers_ok_attach: "peers_ok b \<Longrightarrow> peers_ok (attach i b)"
  unfolding peers_ok_def reader_live_attach by (auto simp: nth_append dest: reader_live_less)

lemma announced_ok_attach: "announced_ok b \<Longrightarrow> announced_ok (attach i b)"
  by (auto simp: announced_ok_def nth_append intro: less_SucI)

lemma ws_ok_attach:
  assumes ok: "ws_ok cap client b" and "wb_open b" and i: "if client then i = ''remote''
    else \<forall>p. fmlookup (wb_peers b) i = Some p \<longrightarrow> \<not> wp_open (wb_store b ! p)"
  shows "ws_ok cap client (attach i b)"
proof -
  have "no_stray (attach i b)" if "\<not> client"
    using ok i that unfolding no_stray_def reader_live_attach
    by (auto simp: ws_ok_def no_stray_def nth_append dest: reader_live_less)
  moreover have "in_order (wb_events b) (PeerConnected i (length (wb_store b)))"
    using ok by (auto simp: ws_ok_def announced_ok_def)
  ultimately show ?thesis
    using assms by (auto simp: ws_ok_def peers_ok_attach announced_ok_attach packets_ok_def replaced_soon_def)
qed

lemma ws_ok_drop:
  assumes "ws_ok cap client b" "fmlookup (wb_peers b) i = Some p" "\<not> client" "\<not> wp_open (wb_store b ! p)"
  shows "ws_ok cap client (b\<lparr>wb_peers := fmdrop i (wb_peers b)\<rparr>)"
  using assms by (auto simp: ws_ok_defs split: if_splits)

lemma ws_ok_Open: "ws_ok cap client b \<Longrightarrow> ws_ok cap client (snd (ws_Open dialOk b))"
proof -
  assume ok: "ws_ok cap client b"
  show ?thesis
  proof (cases "wb_open b")
    case False
    define b1 where "b1 = b\<lparr>wb_open := True, wb_gen := Suc (wb_gen b), wb_packets := [], wb_peers := fmempty\<rparr>"
    have closed: "ws_ok cap client (b1\<lparr>wb_open := False\<rparr>)" and server: "\<not> client \<Longrightarrow> ws_ok cap client b1"
      using ok False by (auto simp: ws_ok_defs b1_def)
    have "ws_ok cap client (attach ''remote'' b1)" if "client"
      using ok False that
      by (auto simp: ws_ok_def b1_def peers_ok_def announced_ok_def packets_ok_def replaced_soon_def reader_live_def nth_append less_Suc_eq)
    with closed server show ?thesis
      using ok False by (cases client) (simp_all add: ws_Open_def b1_def [symmetric] ws_ok_def [of _ _ b])
  qed (simp add: ok ws_Open_def)
qed

lemma ws_ok_ServeHTTP:
  assumes ok: "ws_ok cap client b" and "\<not> client"
  shows "ws_ok cap client (snd (ws_ServeHTTP i b))"
proof (cases "fmlookup (wb_peers b) i")
  case None
  then show ?thesis
    using assms by (simp add: ws_ServeHTTP_def ws_ok_attach)
next
  case (Some p)
  then have p: "p < length (wb_store b)"
    using ws_ok_current [OF ok] by (auto simp: reader_live_def)
  then have "wb_open b \<Longrightarrow> ws_ok cap client (attach i (close_ws p b))"
    using assms Some by (intro ws_ok_attach ws_ok_close_ws) (auto simp: close_ws_def)
  then show ?thesis
    using ok Some by (simp add: ws_ServeHTTP_def)
qed

text \<open>The end of a reader, in the two cases.\<close>

lemma read_end_stale:
  "fmlookup (wb_peers b) (wp_id (wb_store b ! p)) \<noteq> Some p \<Longrightarrow> read_end p b = upd_peer p (\<lambda>x. x\<lparr>wp_done := True\<rparr>) b"
  by (simp add: read_end_def ws_remove_def)

lemma queues_done:
  "list_all queue_ok xs \<Longrightarrow> p < length xs \<Longrightarrow> list_all queue_ok (xs[p := (xs ! p)\<lparr>wp_done := True\<rparr>])"
  by (rule list_all_update) (auto simp: list_all_length queue_ok_def)

lemma ws_ok_read_end:
  assumes ok: "ws_ok cap client b" and p: "reader_live b p"
  shows "ws_ok cap client (read_end p b)"
proof (cases "fmlookup (wb_peers b) (wp_id (wb_store b ! p)) = Some p")
  case False
  then show ?thesis
    using ok p queues_done [of "wb_store b" p] by (auto simp: read_end_stale ws_ok_defs nth_list_update)
next
  case True
  let ?i = "wp_id (wb_store b ! p)"
  have "peers_ok b" "wb_open b \<or> wb_peers b = fmempty"
    using ok by (simp_all add: ws_ok_def)
  then have e: "observed (wb_events b) ?i = Some p" and wb: "wb_open b"
    using True unfolding peers_ok_def by (blast, fastforce)
  define c where "c = upd_peer p (\<lambda>x. x\<lparr>wp_done := True\<rparr>) (fire (PeerDisconnected ?i p) (b\<lparr>wb_peers := fmdrop ?i (wb_peers b)\<rparr>))"
  have end_eq: "read_end p b = (if wb_client b \<and> \<not> wb_noRedial b then c\<lparr>wb_redials := RedialPending # wb_redials c\<rparr> else c)"
    using True by (simp add: read_end_def ws_remove_def Let_def c_def)
  have parts: "peers_ok b" "announced_ok b" "events_ordered (wb_events b)" "packets_ok cap b" "list_all queue_ok (wb_store b)"
      "wb_client b = client" "\<not> client \<longrightarrow> no_stray b" and less: "p < length (wb_store b)"
    using ok p by (auto simp: ws_ok_def reader_live_def)
  have cs: "wb_store c = (wb_store b)[p := (wb_store b ! p)\<lparr>wp_done := True\<rparr>]" "wb_peers c = fmdrop ?i (wb_peers b)"
      "wb_events c = wb_events b @ [PeerDisconnected ?i p]" "wb_packets c = wb_packets b" "wb_open c = wb_open b"
      "wb_client c = wb_client b" "wb_noRedial c = wb_noRedial b"
    by (simp_all add: c_def)
  have "reader_live c q \<longleftrightarrow> reader_live b q \<and> q \<noteq> p" "q \<noteq> p \<Longrightarrow> wb_store c ! q = wb_store b ! q" for q
    using less by (auto simp: reader_live_def cs nth_list_update)
  note this [simp]
  have "peers_ok c"
    unfolding peers_ok_def
  proof (intro allI impI)
    fix i q
    assume "fmlookup (wb_peers c) i = Some q"
    then have i: "i \<noteq> ?i" "fmlookup (wb_peers b) i = Some q"
      by (simp_all add: cs split: if_splits)
    then have q: "reader_live b q" "wp_id (wb_store b ! q) = i" "observed (wb_events b) i = Some q"
      using parts(1) by (simp_all add: peers_ok_def)
    then have "q \<noteq> p"
      using i(1) by auto
    then show "reader_live c q \<and> wp_id (wb_store c ! q) = i \<and> observed (wb_events c) i = Some q"
      using q i(1) by (simp add: cs(3))
  qed
  moreover have "announced_ok c"
    using parts(2) less by (auto simp: announced_ok_def cs nth_list_update)
  moreover have "list_all queue_ok (wb_store c)"
    using parts(5) less by (simp add: cs queues_done)
  moreover have "no_stray c" if "\<not> client"
    using parts(7) that True by (fastforce simp: no_stray_def cs(2))
  moreover have "events_ordered (wb_events c)" "packets_ok cap c"
    using parts(3,4) e by (simp_all add: cs packets_ok_def)
  ultimately have c: "ws_ok cap client (c\<lparr>wb_redials := rs\<rparr>)" if "client \<Longrightarrow> \<not> wb_noRedial b \<Longrightarrow> RedialPending \<in> set rs" for rs
    using wb that parts(6)
    by (simp add: ws_ok_def peers_ok_def announced_ok_def packets_ok_def no_stray_def replaced_soon_def redial_due_def reader_live_def cs(5-7))
  from c [of "RedialPending # wb_redials c"] c [of "wb_redials c"] show ?thesis
    unfolding end_eq using parts(6) by auto
qed

lemma ws_ok_read_frame:
  assumes "ws_ok cap client b" "length (wb_packets b) < cap \<or> \<not> wb_open b \<and> pd"
  shows "ws_ok cap client (snd (read_frame pd p binary data b))"
  using assms by (auto simp: read_frame_def Accept_def ws_ok_defs)

lemma read_frame_live [simp]: "reader_live (snd (read_frame pd p binary data b)) q \<longleftrightarrow> reader_live b q"
  by (auto simp: read_frame_def reader_live_def split: option.splits)

lemma ws_ok_receive: "ws_ok cap client b \<Longrightarrow> ws_ok cap client (snd (ws_receive n b))"
  by (auto simp: ws_receive_def ws_ok_defs list_all_iff dest: in_set_dropD)

lemma ws_ok_failure:
  assumes ok: "ws_ok cap client b" and p: "fmlookup (wb_peers b) i = Some p"
    and f: "wp_failed (wb_store b ! p)" "WriteFailure i p \<notin> set (wb_events b)"
  shows "ws_ok cap client (fire (WriteFailure i p) b)"
proof -
  have "reader_live b p" "observed (wb_events b) i = Some p"
    using ok p by (auto simp: ws_ok_def peers_ok_def)
  then have "peers_ok (fire (WriteFailure i p) b)" "announced_ok (fire (WriteFailure i p) b)"
    "in_order (wb_events b) (WriteFailure i p)"
    using ok f by (auto simp: ws_ok_def peers_ok_def announced_ok_def reader_live_def)
  then show ?thesis
    using ok by (auto simp: ws_ok_def packets_ok_def no_stray_def replaced_soon_def redial_due_def reader_live_def)
qed

lemma ws_ok_report:
  assumes ok: "ws_ok cap client b" and p: "p < length (wb_store b)"
  shows "ws_ok cap client (reportWriteFailure p b)"
proof (cases "wp_failed (wb_store b ! p)")
  case False
  let ?i = "wp_id (wb_store b ! p)" and ?b = "upd_peer p (\<lambda>x. x\<lparr>wp_failed := True\<rparr>) b"
  have ok1: "ws_ok cap client ?b"
    using ok p by (rule ws_ok_upd) (simp add: harmless_def queue_ok_def)
  have "WriteFailure ?i p \<notin> set (wb_events b)"
    using ok False by (auto simp: ws_ok_def announced_ok_def)
  then have "fmlookup (wb_peers b) ?i = Some p \<Longrightarrow> ws_ok cap client (fire (WriteFailure ?i p) ?b)"
    using p by (intro ws_ok_failure ok1) simp_all
  then show ?thesis
    using ok1 False by (simp add: reportWriteFailure_def Let_def)
qed (simp add: ok reportWriteFailure_def)

lemma report_length [simp]: "length (wb_store (reportWriteFailure p b)) = length (wb_store b)"
  by (simp add: reportWriteFailure_def Let_def)

lemma close_ws_length [simp]: "length (wb_store (close_ws p b)) = length (wb_store b)"
  by (simp add: close_ws_def)

lemma queue_ok_tl: "queue_ok x \<Longrightarrow> queue_ok (x\<lparr>wp_out := tl (wp_out x)\<rparr>)"
  by (cases "wp_out x") (auto simp: queue_ok_def)

lemma ws_ok_write:
  assumes ok: "ws_ok cap client b" and p: "p < length (wb_store b)"
  shows "ws_ok cap client (write_batch ok' p b)"
proof -
  let ?b = "upd_peer p (\<lambda>x. x\<lparr>wp_out := tl (wp_out x)\<rparr>) b"
  have "ws_ok cap client ?b"
    using ok p by (rule ws_ok_upd) (simp add: harmless_def queue_ok_tl)
  moreover from this have "ws_ok cap client (upd_peer p (\<lambda>x. x\<lparr>wp_writing := False\<rparr>) (close_ws p (reportWriteFailure p ?b)))"
    using p by (intro ws_ok_upd [where f = "\<lambda>x. x\<lparr>wp_writing := False\<rparr>"] ws_ok_close_ws ws_ok_report) (auto simp: harmless_def queue_ok_def)
  ultimately show ?thesis
    by (simp add: write_batch_def Let_def)
qed

lemma ws_ok_overflow_report:
  assumes ok: "ws_ok cap client b" and p: "p < length (wb_store b)"
  shows "ws_ok cap client (overflow_report p b)"
  unfolding overflow_report_def using ok p
  by (intro ws_ok_upd ws_ok_close_ws ws_ok_report) (auto simp: harmless_def queue_ok_def)

lemma ws_ok_dropped: "ws_ok cap client b \<Longrightarrow> ws_ok cap client (b\<lparr>wb_dropped := n\<rparr>)"
  by (auto simp: ws_ok_defs)

lemma ws_ok_Send:
  assumes ok: "ws_ok cap client b"
  shows "ws_ok cap client (snd (ws_Send pd bufs i b))"
proof (cases "fmlookup (wb_peers b) i")
  case (Some p)
  then have p: "p < length (wb_store b)"
    using ws_ok_current [OF ok] by (auto simp: reader_live_def)
  have "ws_ok cap client (upd_peer p (\<lambda>x. x\<lparr>wp_out := wp_out x @ [filter ValidDatagram bufs], wp_overflow := 0\<rparr>) b)"
    if "length (wp_out (wb_store b ! p)) < peerQueueDepth" "filter ValidDatagram bufs \<noteq> []"
    using ok p by (rule ws_ok_upd) (use that in \<open>auto simp: harmless_def queue_ok_def list_all_iff\<close>)
  moreover have "ws_ok cap client (upd_peer p (\<lambda>x. x\<lparr>wp_overflow := n, wp_reports := r x\<rparr>) (b\<lparr>wb_dropped := d\<rparr>))" for n r d
    using p by (intro ws_ok_upd ws_ok_dropped ok) (auto simp: harmless_def queue_ok_def)
  ultimately show ?thesis
    using ok Some by (simp add: ws_Send_def Let_def)
qed (simp add: ok ws_Send_def)

text \<open>Redials: one that is dropped or starts keeps another one that is due, unless it serves an earlier opening.\<close>

lemma redials_only: "ws_ok cap client b \<Longrightarrow> (client \<Longrightarrow> replaced_soon (b\<lparr>wb_redials := rs\<rparr>)) \<Longrightarrow> ws_ok cap client (b\<lparr>wb_redials := rs\<rparr>)"
  by (auto simp: ws_ok_def peers_ok_def announced_ok_def packets_ok_def no_stray_def reader_live_def)

lemma set_without: "x \<in> set xs \<Longrightarrow> k < length xs \<Longrightarrow> xs ! k \<noteq> x \<Longrightarrow> x \<in> set (take k xs @ drop (Suc k) xs)"
  by (subst (asm) id_take_nth_drop [of k xs]) auto

lemma set_updated: "x \<in> set xs \<Longrightarrow> k < length xs \<Longrightarrow> xs ! k \<noteq> x \<Longrightarrow> x \<in> set (xs[k := y])"
  by (metis in_set_conv_nth length_list_update nth_list_update_neq)

lemma ws_ok_redial_start:
  assumes ok: "ws_ok cap client b" and k: "k < length (wb_redials b)" "wb_redials b ! k = RedialPending"
  shows "ws_ok cap client (redial_start k b)"
  unfolding redial_start_def
proof (rule redials_only [OF ok])
  show "replaced_soon (b\<lparr>wb_redials := (wb_redials b)[k := RedialRunning (wb_gen b)]\<rparr>)"
    using k(1) by (simp add: replaced_soon_def redial_due_def set_update_memI)
qed

lemma ws_ok_drop_redial:
  assumes ok: "ws_ok cap client b" and k: "k < length (wb_redials b)" "wb_redials b ! k = RedialRunning g"
    and g: "\<not> wb_open b \<or> wb_gen b \<noteq> g"
  shows "ws_ok cap client (drop_redial k b)"
  unfolding drop_redial_def
proof (rule redials_only [OF ok])
  assume client
  then have "replaced_soon b"
    using ok by (simp add: ws_ok_def)
  then show "replaced_soon (b\<lparr>wb_redials := take k (wb_redials b) @ drop (Suc k) (wb_redials b)\<rparr>)"
    using g k set_without [of RedialPending "wb_redials b" k] set_without [of "RedialRunning (wb_gen b)" "wb_redials b" k]
    by (auto simp: replaced_soon_def redial_due_def)
qed

text \<open>A redial that commits is one of a client: a server has none.\<close>

lemma ws_ok_redial_commit:
  assumes ok: "ws_ok cap client b" and k: "k < length (wb_redials b)" "wb_redials b ! k = RedialRunning g" and client
  shows "ws_ok cap client (redial_commit k g b)"
proof (cases "\<not> wb_open b \<or> wb_gen b \<noteq> g")
  case True
  then show ?thesis
    using ws_ok_drop_redial [OF ok k] by (simp add: redial_commit_def)
next
  case False
  have "peers_ok (attach ''remote'' (drop_redial k b))" "announced_ok (attach ''remote'' (drop_redial k b))"
    using ok by (intro peers_ok_attach announced_ok_attach; simp add: ws_ok_def peers_ok_def announced_ok_def reader_live_def drop_redial_def)+
  moreover have "in_order (wb_events b) (PeerConnected ''remote'' (length (wb_store b)))"
    using ok by (auto simp: ws_ok_def announced_ok_def)
  ultimately show ?thesis
    using ok \<open>client\<close> False
    by (simp add: redial_commit_def ws_ok_def packets_ok_def replaced_soon_def drop_redial_def)
qed

lemma ws_ok_CloseSession:
  assumes ok: "ws_ok cap client b" and "\<not> client"
  shows "ws_ok cap client (ws_CloseSession i b)"
proof (cases "fmlookup (wb_peers b) i")
  case (Some p)
  then have p: "p < length (wb_store b)"
    using ws_ok_current [OF ok] by (auto simp: reader_live_def)
  then have "ws_ok cap client ((close_ws p b)\<lparr>wb_peers := fmdrop i (wb_peers (close_ws p b))\<rparr>)"
    using assms Some by (intro ws_ok_drop ws_ok_close_ws) (auto simp: close_ws_def)
  moreover have "(close_ws p b)\<lparr>wb_peers := fmdrop i (wb_peers (close_ws p b))\<rparr> = close_ws p (b\<lparr>wb_peers := fmdrop i (wb_peers b)\<rparr>)"
    by (simp add: close_ws_def upd_peer_def)
  ultimately show ?thesis
    by (simp add: ws_CloseSession_def Some)
qed (simp add: ok ws_CloseSession_def)

lemma close_current_nth:
  "p < length (wb_store b) \<Longrightarrow> wb_store (close_current b) ! p =
    (if fmlookup (wb_peers b) (wp_id (wb_store b ! p)) = Some p then (wb_store b ! p)\<lparr>wp_open := False\<rparr> else wb_store b ! p)"
  by (simp add: close_current_def nth_enumerate_eq)

lemma close_current_simps [simp]:
  "length (wb_store (close_current b)) = length (wb_store b)" "wb_events (close_current b) = wb_events b"
  "wb_packets (close_current b) = wb_packets b" "wb_client (close_current b) = wb_client b"
  by (simp_all add: close_current_def)

lemma ws_ok_Close:
  assumes ok: "ws_ok cap client b"
  shows "ws_ok cap client (ws_Close b)"
proof (cases "wb_open b")
  case True
  have "list_all queue_ok (wb_store (close_current b))"
    using ok by (auto simp: list_all_length close_current_nth ws_ok_def queue_ok_def)
  moreover have "announced_ok (ws_Close b)"
    using ok True by (auto simp: announced_ok_def ws_Close_def close_current_nth ws_ok_def)
  moreover have "no_stray (ws_Close b)" if "\<not> client"
    using ok True that by (auto simp: no_stray_def ws_Close_def close_current_nth ws_ok_def reader_live_def split: if_splits)
  ultimately show ?thesis
    using ok True by (simp add: ws_Close_def ws_ok_def peers_ok_def packets_ok_def replaced_soon_def)
qed (simp add: ok ws_Close_def)

lemma ws_ok_DisableRedial: "ws_ok cap client b \<Longrightarrow> ws_ok cap client (DisableRedial b)"
  by (auto simp: DisableRedial_def ws_ok_defs)

lemma ws_step_ok: "ws_ok cap client b \<Longrightarrow> ws_step cap b l b' \<Longrightarrow> ws_ok cap client b'"
proof (erule ws_stepE)
  fix p pd binary data
  assume ok: "ws_ok cap client b" and p: "reader_live b p" and room: "length (wb_packets b) < cap \<or> \<not> wb_open b \<and> pd"
    and b': "b' = (case read_frame pd p binary data b of (goes, b') \<Rightarrow> if goes then b' else read_end p b')"
  show "ws_ok cap client b'"
    using ws_ok_read_frame [OF ok room, of p binary data] p unfolding b'
    by (auto simp: ws_ok_read_end split: prod.splits dest!: arg_cong [of _ _ snd])
next
  assume ok: "ws_ok cap client b" and k: "wb_client b"
  then show "k < length (wb_redials b) \<Longrightarrow> wb_redials b ! k = RedialRunning g \<Longrightarrow> b' = redial_commit k g b \<Longrightarrow> ws_ok cap client b'" for k g
    by (simp add: ws_ok_redial_commit ws_ok_def [of _ _ b])
next
  assume ok: "ws_ok cap client b" and "\<not> wb_client b"
  then have server: "\<not> client"
    by (simp add: ws_ok_def)
  show "b' = snd (ws_ServeHTTP i b) \<Longrightarrow> ws_ok cap client b'" "b' = ws_CloseSession i b \<Longrightarrow> ws_ok cap client b'" for i
    using ok server by (simp_all add: ws_ok_ServeHTTP ws_ok_CloseSession)
qed (simp_all add: ws_ok_Open ws_ok_read_end ws_ok_receive ws_ok_write ws_ok_Send ws_ok_overflow_report ws_ok_redial_start
       ws_ok_drop_redial ws_ok_Close ws_ok_DisableRedial)

interpretation ws_carriers: inv_system "ws_step cap" "ws_ok cap client" for cap client
  by unfold_locales (rule ws_step_ok)

lemma ws_ok_NewBind: "ws_ok cap client (NewBind client)"
  by (simp add: NewBind_def ws_ok_defs)

lemma ws_reachable_ok: "run (ws_step cap) (NewBind client) es b \<Longrightarrow> ws_ok cap client b"
  using ws_carriers.run_inv ws_ok_NewBind by blast

section \<open>Properties\<close>

text \<open>C29: In every run of dials, accepted and revoked sessions, readers, writers, overflow reports, redials and restarts the
  lifecycle callbacks are in order: each carrier is announced once, and a carrier is reported as lost, or once as failing, only while
  an observer of the callbacks takes it for the current one of its identifier, so a stale reader or writer never disturbs its
  replacement. The current carrier of an identifier is one of that identifier whose reader runs and is the one the
  observer expects; the packets that wait fit in their channel and every queue in its bound, with WireGuard datagrams only. On a
  server an open carrier that is read is the current one of its session, so none outlives a replacement, a revocation
  or \<open>Close\<close>; an open client without a carrier has a redial under way that will be accepted, unless redials were disabled.\<close>

theorem ws_carrier_correct:
  assumes "run (ws_step cap) (NewBind client) es b"
  shows "events_ordered (wb_events b) \<and>
    (\<forall>i p. fmlookup (wb_peers b) i = Some p \<longrightarrow> reader_live b p \<and> wp_id (wb_store b ! p) = i \<and> observed (wb_events b) i = Some p) \<and>
    length (wb_packets b) \<le> cap \<and> list_all (\<lambda>(d, i). ValidDatagram d) (wb_packets b) \<and> list_all queue_ok (wb_store b) \<and>
    (\<not> client \<longrightarrow> reader_live b p \<longrightarrow> wp_open (wb_store b ! p) \<longrightarrow>
       wb_open b \<and> fmlookup (wb_peers b) (wp_id (wb_store b ! p)) = Some p) \<and>
    (client \<longrightarrow> wb_open b \<longrightarrow> \<not> wb_noRedial b \<longrightarrow> fmlookup (wb_peers b) ''remote'' = None \<longrightarrow>
       RedialPending \<in> set (wb_redials b) \<or> RedialRunning (wb_gen b) \<in> set (wb_redials b))"
proof -
  have "ws_ok cap client b"
    using assms by (rule ws_reachable_ok)
  then have parts: "peers_ok b" "events_ordered (wb_events b)" "packets_ok cap b" "list_all queue_ok (wb_store b)"
      "wb_open b \<or> wb_peers b = fmempty" "if client then replaced_soon b else no_stray b"
    by (simp_all add: ws_ok_def)
  have "client \<longrightarrow> wb_open b \<longrightarrow> \<not> wb_noRedial b \<longrightarrow> fmlookup (wb_peers b) ''remote'' = None \<longrightarrow>
      RedialPending \<in> set (wb_redials b) \<or> RedialRunning (wb_gen b) \<in> set (wb_redials b)"
    using parts(6) by (auto simp: replaced_soon_def redial_due_def)
  moreover have "wb_open b \<and> fmlookup (wb_peers b) (wp_id (wb_store b ! p)) = Some p"
    if "\<not> client" "reader_live b p" "wp_open (wb_store b ! p)"
    using parts(5,6) that by (auto simp: no_stray_def)
  ultimately show ?thesis
    using parts(1-4) unfolding peers_ok_def packets_ok_def by blast
qed

text \<open>A session whose carrier is replaced: the reader of the first one ends without a callback.\<close>

definition ws_demo :: wsBind where
  "ws_demo = read_end 0 (snd (ws_ServeHTTP ''a'' (snd (ws_ServeHTTP ''a'' (snd (ws_Open True (NewBind False)))))))"

lemmas ws_exec = ws_Open_def ws_ServeHTTP_def attach_def close_ws_def upd_peer_def fire_def read_end_def ws_remove_def NewBind_def
  newPeer_def reader_live_def Let_def redial_start_def redial_commit_def drop_redial_def ws_Close_def close_current_def

lemma ws_demo_run: "run (ws_step 128) (NewBind False) [DoOpen True, DoServe ''a'', DoServe ''a'', DoReadEnd 0] ws_demo"
  unfolding ws_demo_def
  by (rule run_cons, rule ws_open, rule run_cons, rule ws_serve, simp add: ws_exec, rule run_cons, rule ws_serve, simp add: ws_exec,
      rule run_cons, rule ws_read_end, simp add: ws_exec, rule run_nil)

lemma ws_carrier_correct_witness:
  "fmlookup (wb_peers ws_demo) ''a'' = Some 1 \<and> observed (wb_events ws_demo) ''a'' = Some 1 \<and> \<not> reader_live ws_demo 0 \<and> reader_live ws_demo 1"
proof -
  have "fmlookup (wb_peers ws_demo) ''a'' = Some 1" "\<not> reader_live ws_demo 0"
    by (simp_all add: ws_demo_def ws_exec)
  with ws_carrier_correct [OF ws_demo_run] show ?thesis
    by blast
qed

text \<open>A redial that first runs after a restart takes itself for one of the new opening: it replaces the carrier
  that \<open>Open\<close> has just dialled, which nothing closes any more, not even \<open>Close\<close>.\<close>

lemma late_redial_leaks_carrier:
  "\<exists>b. run (ws_step 128) (NewBind True)
      [DoOpen True, DoReadEnd 0, DoClose, DoOpen True, DoRedialStart 0, DoRedialDialed 0, DoClose] b \<and>
    \<not> wb_open b \<and> reader_live b 1 \<and> wp_open (wb_store b ! 1)"
proof -
  let ?b = "ws_Close (redial_commit 0 2 (redial_start 0 (snd (ws_Open True (ws_Close (read_end 0 (snd (ws_Open True (NewBind True)))))))))"
  have "run (ws_step 128) (NewBind True)
      [DoOpen True, DoReadEnd 0, DoClose, DoOpen True, DoRedialStart 0, DoRedialDialed 0, DoClose] ?b"
    by (rule run_cons, rule ws_open, rule run_cons, rule ws_read_end, simp add: ws_exec, rule run_cons, rule ws_close,
        rule run_cons, rule ws_open, rule run_cons, rule ws_redial_start, (simp add: ws_exec; fail)+, rule run_cons,
        rule ws_redial_dialed [where g = 2], (simp add: ws_exec; fail)+, rule run_cons, rule ws_close, rule run_nil)
  moreover have "\<not> wb_open ?b" "reader_live ?b 1" "wp_open (wb_store ?b ! 1)"
    by (simp_all add: ws_exec)
  ultimately show ?thesis
    by blast
qed

end
