(* ===== verification/Spec2Isabelle.thy ===== *)
theory Spec2Isabelle
  imports Authlimit Control_Frames Sni Udp_Forward Native_Wg Registry Server_Multipath Control_Safety Socks_Server Data_Plane
    Relay_Pool Udp_Relay Config_Parse Client_Session Client_Reconnect Direct_Ladder Server_Dns Updater Ws_Carrier
begin

text \<open>
  A verification library for ntwire, a userspace WireGuard tunnel broker written in Go. The program has
  three parts. A \<^emph>\<open>server\<close> (\<^verbatim>\<open>src/pkg/server\<close>) authenticates clients by SSH signature or OIDC token,
  opens sessions with a WireGuard key and a tunnel address, and proxies their tunnel traffic to
  configured targets or to an embedded SOCKS proxy (\<^verbatim>\<open>src/pkg/socks\<close>). A \<^emph>\<open>client\<close> (\<^verbatim>\<open>src/pkg/client\<close>)
  keeps the tunnel up over several transport paths at once (\<^verbatim>\<open>src/pkg/wstransport\<close>). A public \<^emph>\<open>relay\<close>
  (\<^verbatim>\<open>src/pkg/relay\<close>) lets servers behind NAT be reached: it routes TLS by host name, hands connections
  back to servers by single-use capabilities, and forwards UDP between two bound addresses.

  \<^bold>\<open>Conventions.\<close> Go structs are records, enumerations datatypes, maps finite maps (\<open>fmap\<close>), byte
  slices lists of 8-bit words, sized integers words of their width where they wrap; errors and refusals
  are values, a possible panic is an outcome. Times and durations are unbounded nanosecond counts. A
  handler that runs under a lock is one function on the state; where the code releases its lock in the
  middle, the parts are separate steps. What the code does not decide is an argument: clock readings, random tokens,
  the iteration order of a map (any list that enumerates the keys), results of system calls, DNS,
  cryptography, and the WireGuard device. Hypotheses about them are named predicates (\<open>env_ok\<close>,
  \<open>config_ok\<close>, \<open>range_order\<close>). No definition needs fuel: every loop is structural over the data it
  reads, or has a bound in the code.

  \<^bold>\<open>Prelude.\<close> \<^verbatim>\<open>Ntwire_Prelude\<close> has the types, Go maps, byte conversions, runs of step relations and the
  interface locales: \<open>inv_system\<close> and \<open>history_system\<close> (invariants of a state and of a history), \<open>refines\<close>
  (refinement of a specification along a run), \<open>bounded_table\<close>, \<open>no_amplifier\<close> and \<open>codec\<close>. Each component
  interprets the ones whose laws it satisfies. \<^verbatim>\<open>Netip\<close> is the part of \<^verbatim>\<open>net/netip\<close> the sources use,
  with the parsers of addresses and prefixes; \<^verbatim>\<open>Float64\<close> is round-to-nearest arithmetic on rationals
  for the two places that use \<open>float64\<close>.

  \<^bold>\<open>Shared protocol.\<close> \<^verbatim>\<open>Protocol\<close> (\<^verbatim>\<open>pkg/protocol\<close>): the signed payloads and the capability checks;
  payloads determine every signed field and the two kinds never coincide. \<^verbatim>\<open>Authlimit\<close>
  (\<^verbatim>\<open>pkg/authlimit\<close>): nonce cache and rate limiter, their bounds, and that a nonce is not accepted twice
  within its window. \<^verbatim>\<open>Wg_Keys\<close> (\<^verbatim>\<open>pkg/wgnet\<close>): base64 keys and their canonical form.

  \<^bold>\<open>Relay.\<close> \<^verbatim>\<open>Sni\<close> (\<^verbatim>\<open>sni.go\<close>): reading a ClientHello never panics, is bounded, finds the host name and
  replays every byte. \<^verbatim>\<open>Registry\<close> (\<^verbatim>\<open>registry.go\<close>, the hand-off of \<^verbatim>\<open>agent.go\<close>): registration, tenants, Kubernetes
  services, and the concurrent calls of \<open>Open\<close> as a system of steps; capabilities are single use and counters exact.
  \<^verbatim>\<open>Udp_Session\<close> (\<^verbatim>\<open>udpsession.go\<close>): the session table and its port pool, with indexes that agree after any
  operations. \<^verbatim>\<open>Udp_Forward\<close> (\<^verbatim>\<open>udpforward.go\<close>, \<^verbatim>\<open>reflect.go\<close>): the two legs, which forward only between bound
  addresses and never amplify. \<^verbatim>\<open>Native_Wg\<close> (\<^verbatim>\<open>nativewg.go\<close>): the relay for unmodified WireGuard peers.

  \<^bold>\<open>Transport.\<close> \<^verbatim>\<open>Control_Frames\<close> (\<^verbatim>\<open>direct.go\<close>, \<^verbatim>\<open>pathmtu.go\<close>): control frames and the compacting receive
  function. \<^verbatim>\<open>Scheduler\<close> (\<^verbatim>\<open>multipath.go\<close>): candidate paths, health, selection, duplicate cache,
  duplication budget (kept over every run, up to the rounding of \<open>float64\<close>); \<^verbatim>\<open>Path_Probing\<close>, \<^verbatim>\<open>Multipath\<close>: the client's bind with probes, acknowledgements, path
  MTU and sending; \<^verbatim>\<open>Server_Multipath\<close> (\<^verbatim>\<open>server_multipath.go\<close>): the server's bind, whose peers are objects
  of an explicit store because the code shares them. \<^verbatim>\<open>Ws_Carrier\<close> (\<^verbatim>\<open>bind.go\<close>): the WebSocket carriers below the
  binds, their queues, callbacks, replacements and redials as steps; callbacks come in order, no carrier of a server
  outlives its session, a client that lost its carrier redials, and the one order of events in which a carrier is
  leaked is a theorem.

  \<^bold>\<open>Server.\<close> \<^verbatim>\<open>Server_Config\<close> (\<^verbatim>\<open>config.go\<close>, grants of \<^verbatim>\<open>server.go\<close>), \<^verbatim>\<open>Socks_Filter\<close> (\<^verbatim>\<open>filter.go\<close>, \<^verbatim>\<open>asn.go\<close>) and
  \<^verbatim>\<open>Dest_Policy\<close> (\<^verbatim>\<open>policy.go\<close>): what a principal may reach, each proved equal to a declarative
  specification. \<^verbatim>\<open>Socks_Server\<close> (\<^verbatim>\<open>socks.go\<close>, \<^verbatim>\<open>socks4.go\<close>, \<^verbatim>\<open>socks5.go\<close>): whole SOCKS sessions as traces of
  visible actions. \<^verbatim>\<open>Sessions\<close> (\<^verbatim>\<open>session.go\<close>), \<^verbatim>\<open>Ip_Alloc\<close> (\<open>allocateIP\<close>) and \<^verbatim>\<open>Server_Control\<close> (\<^verbatim>\<open>server.go\<close>,
  \<^verbatim>\<open>authorizer.go\<close>, \<^verbatim>\<open>metrics.go\<close>, \<^verbatim>\<open>dataplane.go\<close>): the control plane; \<^verbatim>\<open>Control_Safety\<close> makes it a transition
  system and proves who owns a tunnel address, what a reload leaves and what an authentication proves.
  \<^verbatim>\<open>Data_Plane\<close> (\<^verbatim>\<open>dataplane.go\<close>): dialling, TCP and UDP proxies, the SOCKS runtime and the listeners,
  on top of the control plane's attribution and the policies. \<^verbatim>\<open>Config_Parse\<close> (\<open>ParseConfig\<close> of \<^verbatim>\<open>config.go\<close>, on the
  decoded document): defaults, normal forms and every check in the order of the code; it is proved equal to a declarative
  predicate, and what it accepts satisfies the condition \<open>config_ok\<close> the control plane's theorems assume.
  \<^verbatim>\<open>Relay_Pool\<close> (\<^verbatim>\<open>relaypool.go\<close>): the relays a server keeps, the preferred one, and the ordered publications to
  the subscribers, as steps; the last publication is never lost. \<^verbatim>\<open>Udp_Relay\<close> (\<^verbatim>\<open>udprelay.go\<close>): the UDP-relay
  sessions that clients share, with late answers, releases and restarts as steps; no token and no channel is lost.
  \<^verbatim>\<open>Server_Dns\<close> (\<^verbatim>\<open>dns.go\<close>): the DNS server inside the tunnel, on the control plane's attribution; what it discloses,
  which queries it forwards, and the name lengths for which it does not panic.

  \<^bold>\<open>Client.\<close> \<^verbatim>\<open>Client_Session\<close> (\<^verbatim>\<open>client.go\<close>, \<^verbatim>\<open>transportstate.go\<close>): the choice of authentication and carrier,
  the addresses of the local listeners and the route state machine. \<^verbatim>\<open>Client_Reconnect\<close> (\<^verbatim>\<open>client.go\<close>,
  \<^verbatim>\<open>reconnect.go\<close>): the connection with its sockets and its WireGuard stack; connecting, reconnecting (prepared
  outside the lock and committed or aborted), replacing a listener, renewal and closing are steps, and no socket or stack is
  leaked. \<^verbatim>\<open>Direct_Ladder\<close> (\<^verbatim>\<open>directupgrade.go\<close>): the climb from the WebSocket relay to the UDP relay to direct UDP
  and back, with the WireGuard peer's roaming and the relay's keepalive loops; every change of rung is confirmed, and the
  case where a keepalive outlives the connection is a theorem. \<^verbatim>\<open>Updater\<close> (\<^verbatim>\<open>pkg/updater\<close>): what a signed
  manifest must have, and that only a newer, verified release is installed, inside its directory, with the old one kept.

  \<^bold>\<open>How the parts meet.\<close> The relay's registry and the server's \<open>auth\<close> share \<^verbatim>\<open>Protocol\<close>'s payloads and the
  record of cryptographic operations; both use \<^verbatim>\<open>Authlimit\<close>'s structures. The binds send and receive
  \<^verbatim>\<open>Control_Frames\<close>, and the client's ladder moves along \<^verbatim>\<open>Client_Session\<close>'s route states with the answers of
  \<^verbatim>\<open>Udp_Relay\<close>. The data plane asks the control plane's \<open>principalForIP\<close> for every packet source and
  the policy engine for every destination, and its SOCKS runtime is the generic SOCKS server with an
  authorisation callback over the live configuration.

  \<^bold>\<open>Simplifications.\<close> A tunnel address is kept as an address where the code keeps its canonical text, so
  that equality of texts is equality of addresses. Presentation fields (descriptions, instructions),
  logging and metrics are left out. Text routines on non-ASCII strings are arguments.

  \<^bold>\<open>Not modelled.\<close> The UDP sockets and WebSocket framing, HTTP routing and JSON, the YAML decoder, TLS, Kubernetes
  watching, the DNS wire format, portal rendering, the relay client's HTTP loop, the embedded web UI of the client, the
  updater's helper process, command line and GUI: input/output around the modelled logic, or third-party libraries.
\<close>

end
